(* ===== verification/Pn_Prelude.thy ===== *)
theory Pn_Prelude
  imports Main "HOL-Library.Word"
begin

text \<open>
  Shared vocabulary of the development: the result type of code that can stop the process, its
  bind, the fixed-width integer types of the C sources, and the generic lemmas on results, lists
  and words that the component theories use.

  The C program stops in three ways; two more outcomes are no result at all:
  \<^item> \<open>PN_FATAL\<close> (also \<open>PN_UNREACHABLE\<close> and malloc failure) prints and exits: \<open>Fatal\<close>;
  \<^item> \<open>PN_CHECK\<close> is a check that exits when it fails: \<open>Check\<close>;
  \<^item> \<open>assert\<close> aborts when it fails: \<open>Assertion\<close>;
  \<^item> a loop that never ends: \<open>Diverges\<close>;
  \<^item> an access outside a host array, a shift by the width or more, a division by zero:
    \<open>Undefined\<close>. The interesting safety theorems say that this error does not occur.
\<close>

unbundle bit_operations_syntax

section \<open>Results\<close>

datatype pn_error = Fatal string | Check string | Assertion string | Undefined string | Diverges

type_synonym 'a res = "pn_error + 'a"

fun rbind :: "'a res \<Rightarrow> ('a \<Rightarrow> 'b res) \<Rightarrow> 'b res" where
  "rbind (Inl e) f = Inl e"
| "rbind (Inr x) f = f x"

definition ensure :: "bool \<Rightarrow> pn_error \<Rightarrow> unit res" where
  "ensure b e = (if b then Inr () else Inl e)"

definition is_ok :: "'a res \<Rightarrow> bool" where
  "is_ok r = (case r of Inl _ \<Rightarrow> False | Inr _ \<Rightarrow> True)"

definition is_undefined :: "'a res \<Rightarrow> bool" where
  "is_undefined r = (case r of Inl (Undefined _) \<Rightarrow> True | _ \<Rightarrow> False)"

text \<open>An array access of the host: out of range is undefined behaviour.\<close>

definition nth_res :: "'a list \<Rightarrow> nat \<Rightarrow> 'a res" where
  "nth_res xs i = (if i < length xs then Inr (xs ! i) else Inl (Undefined ''array index''))"

definition upd_res :: "'a list \<Rightarrow> nat \<Rightarrow> 'a \<Rightarrow> 'a list res" where
  "upd_res xs i v = (if i < length xs then Inr (xs[i := v]) else Inl (Undefined ''array index''))"

section \<open>Integer types of the sources\<close>

type_synonym u8 = "8 word"
type_synonym u16 = "16 word"
type_synonym u32 = "32 word"
type_synonym u64 = "64 word"

section \<open>Lemmas on results\<close>

named_theorems res_simps

lemma rbind_cong [fundef_cong]:
  "m = m' \<Longrightarrow> (\<And>x. m' = Inr x \<Longrightarrow> f x = f' x) \<Longrightarrow> rbind m f = rbind m' f'"
  by (cases m') auto

lemma rbind_eq_Inr [res_simps]: "rbind m f = Inr y \<longleftrightarrow> (\<exists>x. m = Inr x \<and> f x = Inr y)"
  by (cases m) auto

lemma rbind_eq_Inl [res_simps]:
  "rbind m f = Inl e \<longleftrightarrow> m = Inl e \<or> (\<exists>x. m = Inr x \<and> f x = Inl e)"
  by (cases m) auto

lemma rbind_assoc: "rbind (rbind m f) g = rbind m (\<lambda>x. rbind (f x) g)"
  by (cases m) auto

lemma rbind_right_unit [simp]: "rbind m Inr = m"
  by (cases m) auto

lemma ensure_eq_Inr [res_simps]: "ensure b e = Inr u \<longleftrightarrow> b"
  by (simp add: ensure_def)

lemma ensure_eq_Inl [res_simps]: "ensure b e = Inl e' \<longleftrightarrow> \<not> b \<and> e' = e"
  by (auto simp: ensure_def)

lemma ensure_True [simp]: "ensure True e = Inr ()" and ensure_False [simp]: "ensure False e = Inl e"
  by (simp_all add: ensure_def)

lemma is_ok_simps [simp]: "is_ok (Inr x)" "\<not> is_ok (Inl e)"
  by (simp_all add: is_ok_def)

lemma is_ok_iff: "is_ok r \<longleftrightarrow> (\<exists>x. r = Inr x)"
  by (cases r) auto

lemma is_undefined_simps [simp]:
  "is_undefined (Inl (Undefined s))" "\<not> is_undefined (Inr x)" "\<not> is_undefined (Inl (Fatal s))"
  "\<not> is_undefined (Inl (Check s))" "\<not> is_undefined (Inl (Assertion s))"
  "\<not> is_undefined (Inl Diverges)"
  by (simp_all add: is_undefined_def)

lemma is_undefined_iff: "is_undefined r \<longleftrightarrow> (\<exists>s. r = Inl (Undefined s))"
  by (auto simp: is_undefined_def split: sum.splits pn_error.splits)

lemma nth_res_eq_Inr [res_simps]: "nth_res xs i = Inr x \<longleftrightarrow> i < length xs \<and> xs ! i = x"
  by (auto simp: nth_res_def)

lemma nth_res_in [simp]: "i < length xs \<Longrightarrow> nth_res xs i = Inr (xs ! i)"
  by (simp add: nth_res_def)

lemma nth_res_eq_Inl [res_simps]:
  "nth_res xs i = Inl e \<longleftrightarrow> length xs \<le> i \<and> e = Undefined ''array index''"
  by (auto simp: nth_res_def)

lemma upd_res_eq_Inr [res_simps]: "upd_res xs i v = Inr ys \<longleftrightarrow> i < length xs \<and> ys = xs[i := v]"
  by (auto simp: upd_res_def)

lemma upd_res_in [simp]: "i < length xs \<Longrightarrow> upd_res xs i v = Inr (xs[i := v])"
  by (simp add: upd_res_def)

lemma list_case_eq_Inr [res_simps]:
  "(case xs of [] \<Rightarrow> Inl e | y # ys \<Rightarrow> f y ys) = Inr z \<longleftrightarrow> (\<exists>y ys. xs = y # ys \<and> f y ys = Inr z)"
  by (cases xs) auto

lemma option_case_eq_Inr [res_simps]:
  "(case m of None \<Rightarrow> Inl e | Some y \<Rightarrow> f y) = Inr z \<longleftrightarrow> (\<exists>y. m = Some y \<and> f y = Inr z)"
  by (cases m) auto

section \<open>Results of loops that may not end\<close>

text \<open>A result that may be missing: \<open>None\<close> is a loop that does not end.\<close>

type_synonym 'a run = "'a res option"

definition obind :: "'a run \<Rightarrow> ('a \<Rightarrow> 'b run) \<Rightarrow> 'b run" where
  "obind m f = Option.bind m (\<lambda>r. case r of Inl e \<Rightarrow> Some (Inl e) | Inr x \<Rightarrow> f x)"

lemma obind_mono [partial_function_mono]:
  assumes "mono_option B" and "\<And>y. mono_option (\<lambda>f. C y f)"
  shows "mono_option (\<lambda>f. obind (B f) (\<lambda>y. C y f))"
  unfolding obind_def
proof (rule bind_mono[OF assms(1)])
  fix y :: "pn_error + 'c"
  show "mono_option (\<lambda>f. case y of Inl e \<Rightarrow> Some (Inl e) | Inr x \<Rightarrow> C x f)"
    by (cases y) (simp_all add: assms(2) option.const_mono)
qed

lemma obind_simps [simp]: "obind None f = None" "obind (Some (Inl e)) f = Some (Inl e)" "obind (Some (Inr x)) f = f x"
  by (simp_all add: obind_def)

lemma obind_cong [fundef_cong]: "m = m' \<Longrightarrow> (\<And>x. m' = Some (Inr x) \<Longrightarrow> f x = f' x) \<Longrightarrow> obind m f = obind m' f'"
  by (cases m') (auto simp: obind_def split: sum.split)

lemma obind_eq_Inr: "obind m f = Some (Inr y) \<longleftrightarrow> (\<exists>x. m = Some (Inr x) \<and> f x = Some (Inr y))"
  by (cases m) (auto simp: obind_def split: sum.split)

lemma obind_eq_None: "obind m f = None \<longleftrightarrow> m = None \<or> (\<exists>x. m = Some (Inr x) \<and> f x = None)"
  by (cases m) (auto simp: obind_def split: sum.split)

text \<open>Evaluation from the outside in: what comes behind a result waits for it.\<close>

lemma obind_weak_cong: "m = m' \<Longrightarrow> obind m f = obind m' f"
  by simp

lemma rbind_weak_cong: "m = m' \<Longrightarrow> rbind m f = rbind m' f"
  by simp

lemma replicate_numeral_Cons: "replicate (numeral k) x = x # replicate (pred_numeral k) x"
  by (simp add: numeral_eq_Suc)

section \<open>Lemmas on words\<close>

lemma unat_bound: "unat (x :: 'a::len word) < 2 ^ LENGTH('a)"
  by (rule unsigned_less)

lemma unat_of_nat_small: "n < 2 ^ LENGTH('a) \<Longrightarrow> unat (of_nat n :: 'a::len word) = n"
  by (simp add: unsigned_of_nat take_bit_nat_eq_self_iff)

lemma unat_pow2: "k < LENGTH('a) \<Longrightarrow> unat (2 ^ k :: 'a::len word) = 2 ^ k"
  using unat_of_nat_small [of "2 ^ k", where 'a = 'a] by simp

lemma unat_less_take_bit: "unat (y :: 'a::len word) < 2 ^ n \<longleftrightarrow> take_bit n y = y"
proof -
  have "take_bit n y = y \<longleftrightarrow> unat (take_bit n y) = unat y" by (simp add: word_unat_eq_iff)
  also have "\<dots> \<longleftrightarrow> unat y < 2 ^ n" by (simp add: unsigned_take_bit_eq take_bit_nat_eq_self_iff)
  finally show ?thesis by simp
qed

lemma bit_imp_less:
  assumes "unat (y :: 'a::len word) < 2 ^ n" and "bit y i"
  shows "i < n"
  using assms by (metis bit_take_bit_iff unat_less_take_bit)

lemma unat_push_drop: "unat (push_bit k (drop_bit k (y :: 'a::len word))) = unat y div 2 ^ k * 2 ^ k"
proof -
  have le: "unat y div 2 ^ k * 2 ^ k < 2 ^ LENGTH('a)"
    by (metis div_times_less_eq_dividend le_less_trans unsigned_less)
  have "unat (push_bit k (drop_bit k y)) = take_bit LENGTH('a) (push_bit k (drop_bit k (unat y)))"
    by (simp add: unsigned_push_bit_eq unat_drop_bit_eq)
  also have "\<dots> = unat y div 2 ^ k * 2 ^ k"
    using le by (simp add: push_bit_eq_mult drop_bit_eq_div take_bit_nat_eq_self_iff)
  finally show ?thesis .
qed

lemma and_not_mask: "y AND NOT (mask k) = push_bit k (drop_bit k (y :: 'a::len word))"
  by (rule bit_word_eqI) (auto simp: bit_and_iff bit_not_iff bit_mask_iff bit_push_bit_iff bit_drop_bit_eq)

lemma pow2_minus_1: "(2 ^ k - 1 :: 'a::len word) = mask k"
  by (simp add: mask_eq_exp_minus_1)

lemma unat_mask_pow2: "k < LENGTH('a) \<Longrightarrow> unat (mask k :: 'a::len word) = 2 ^ k - 1"
  by (simp add: mask_eq_exp_minus_1 unat_sub unat_pow2 word_le_nat_alt)

lemma unat_add_small:
  "unat a + unat b < 2 ^ LENGTH('a) \<Longrightarrow> unat (a + b :: 'a::len word) = unat a + unat b"
  by (rule unat_add_lem [THEN iffD1])

lemma unat_ucast_up:
  "LENGTH('a) \<le> LENGTH('b) \<Longrightarrow> unat (ucast (x :: 'a::len word) :: 'b::len word) = unat x"
proof -
  assume "LENGTH('a) \<le> LENGTH('b)"
  then have "(2 :: nat) ^ LENGTH('a) \<le> 2 ^ LENGTH('b)" by (simp add: power_increasing)
  then have "unat x < 2 ^ LENGTH('b)" using unat_bound [of x] by linarith
  then show ?thesis by (simp add: unsigned_ucast_eq take_bit_nat_eq_self_iff)
qed

text \<open>Masked addition without overflow rounds up to a multiple.\<close>

lemma round_up_bounds:
  fixes a n :: nat
  assumes "0 < a"
  shows "n \<le> (n + a - 1) div a * a" "(n + a - 1) div a * a < n + a" "a dvd (n + a - 1) div a * a"
proof -
  have *: "(n + a - 1) div a * a + (n + a - 1) mod a = n + a - 1" by simp
  have "(n + a - 1) mod a < a" using assms by simp
  with * assms show "n \<le> (n + a - 1) div a * a" by linarith
  from * assms show "(n + a - 1) div a * a < n + a" by linarith
qed simp

section \<open>Little-endian byte sequences\<close>

text \<open>The host is little-endian: the word at an address is assembled from its bytes, lowest first.\<close>

primrec le_word :: "u8 list \<Rightarrow> 'a::len word" where
  "le_word [] = 0"
| "le_word (b # bs) = (ucast b OR push_bit 8 (le_word bs))"

definition le_bytes :: "nat \<Rightarrow> 'a::len word \<Rightarrow> u8 list" where
  "le_bytes n w = map (\<lambda>k. ucast (drop_bit (8 * k) w)) [0..<n]"

lemma length_le_bytes [simp]: "length (le_bytes n w) = n"
  by (simp add: le_bytes_def)

lemma bit_le_word:
  "bit (le_word bs :: 'a::len word) i \<longleftrightarrow>
     i < LENGTH('a) \<and> i div 8 < length bs \<and> bit (bs ! (i div 8)) (i mod 8)"
proof (induction bs arbitrary: i)
  case (Cons b bs)
  show ?case
  proof (cases "i < 8")
    case True
    then show ?thesis by (auto simp: bit_or_iff bit_push_bit_iff bit_ucast_iff)
  next
    case False
    then have "i div 8 = Suc ((i - 8) div 8)" "i mod 8 = (i - 8) mod 8"
      by (simp_all add: le_div_geq le_mod_geq)
    with False Cons [of "i - 8"] show ?thesis
      by (auto simp: bit_or_iff bit_push_bit_iff bit_ucast_iff dest: bit_imp_le_length)
  qed
qed simp

lemma le_word_le_bytes:
  assumes "LENGTH('a) \<le> 8 * n"
  shows "le_word (le_bytes n (w :: 'a::len word)) = w"
proof (rule bit_word_eqI)
  fix i assume i: "i < LENGTH('a)"
  then have "i div 8 < n" using assms by (simp add: less_mult_imp_div_less mult.commute)
  then show "bit (le_word (le_bytes n w) :: 'a word) i = bit w i"
    using i by (simp add: bit_le_word le_bytes_def bit_ucast_iff bit_drop_bit_eq)
qed

end
