(* ===== verification/Pn_Bits.thy ===== *)
theory Pn_Bits
  imports Pn_Prelude
begin

text \<open>
  The bit tricks of \<^verbatim>\<open>src/pn_bits.h\<close> and the alignment helpers of \<^verbatim>\<open>src/pn_malloc.h\<close>.
  The host is a 64-bit machine, so \<open>size_t\<close> and a host pointer are \<^typ>\<open>u64\<close>. Of the two
  alternatives of \<open>pn_ctz\<close>, \<open>pn_clz\<close> and \<open>pn_popcount\<close> the portable one is modelled.
\<close>

unbundle bit_operations_syntax

section \<open>pn\_bits.h\<close>

definition pn_is_power_of_two :: "u64 \<Rightarrow> bool" where
  "pn_is_power_of_two value = (value > 0 \<and> (value AND (value - 1)) = 0)"

text \<open>The loop of \<open>pn_next_power_of_two\<close> may run forever; \<open>None\<close> is "does not return".\<close>

partial_function (option) next_power_loop :: "u64 \<Rightarrow> u64 \<Rightarrow> u64 option" where
  "next_power_loop value ret = (if ret < value then next_power_loop value (push_bit 1 ret) else Some ret)"

definition pn_next_power_of_two :: "u64 \<Rightarrow> u64 option" where
  "pn_next_power_of_two value = next_power_loop value 1"

definition pn_ctz :: "u32 \<Rightarrow> u32" where
  "pn_ctz x =
     (if x = 0 then 32 else
      let n = 0;
          (n, x) = (if x AND 0xffff = 0 then (n + 16, drop_bit 16 x) else (n, x));
          (n, x) = (if x AND 0x00ff = 0 then (n + 8, drop_bit 8 x) else (n, x));
          (n, x) = (if x AND 0x000f = 0 then (n + 4, drop_bit 4 x) else (n, x));
          (n, x) = (if x AND 0x0003 = 0 then (n + 2, drop_bit 2 x) else (n, x));
          n = (if x AND 0x0001 = 0 then n + 1 else n)
      in n)"

definition pn_clz :: "u32 \<Rightarrow> u32" where
  "pn_clz x =
     (if x = 0 then 32 else
      let n = 0;
          (n, x) = (if x AND 0xffff0000 = 0 then (n + 16, push_bit 16 x) else (n, x));
          (n, x) = (if x AND 0xff000000 = 0 then (n + 8, push_bit 8 x) else (n, x));
          (n, x) = (if x AND 0xf0000000 = 0 then (n + 4, push_bit 4 x) else (n, x));
          (n, x) = (if x AND 0xc0000000 = 0 then (n + 2, push_bit 2 x) else (n, x));
          n = (if x AND 0x80000000 = 0 then n + 1 else n)
      in n)"

definition pn_popcount :: "u32 \<Rightarrow> u32" where
  "pn_popcount x =
     (let x = x - (drop_bit 1 x AND 0x55555555);
          x = (x AND 0x33333333) + (drop_bit 2 x AND 0x33333333)
      in drop_bit 24 (((x + drop_bit 4 x) AND 0x0F0F0F0F) * 0x01010101))"

text \<open>The results below are the bit patterns of \<open>int32_t\<close> and \<open>int64_t\<close>; \<open>sint\<close> reads them.\<close>

definition pn_decode_sign_rotated_value :: "u32 \<Rightarrow> u32" where
  "pn_decode_sign_rotated_value value =
     (if value AND 1 = 0 then drop_bit 1 value
      else if value \<noteq> 1 then - drop_bit 1 value
      else 0x80000000)"

definition pn_decode_sign_rotated_value_int64 :: "u64 \<Rightarrow> u64" where
  "pn_decode_sign_rotated_value_int64 value =
     (if value AND 1 = 0 then drop_bit 1 value
      else if value \<noteq> 1 then - drop_bit 1 value
      else 0x8000000000000000)"

section \<open>Alignment, pn\_malloc.h\<close>

text \<open>
  Every alignment helper asserts that the alignment is a power of two. In \<open>pn_align_down\<close> and
  \<open>pn_align_up\<close> the mask \<open>~(align - 1)\<close> is computed in 32 bits and then zero-extended to
  \<open>size_t\<close>; in the pointer versions it is computed in 64 bits.
\<close>

definition assert_align :: "u32 \<Rightarrow> unit res" where
  "assert_align align = ensure (pn_is_power_of_two (ucast align)) (Assertion ''pn_is_power_of_two(align)'')"

definition pn_align_down :: "u64 \<Rightarrow> u32 \<Rightarrow> u64 res" where
  "pn_align_down sz align =
     rbind (assert_align align) (\<lambda>_. Inr (sz AND ucast (NOT (align - 1))))"

definition pn_align_down_pointer :: "u64 \<Rightarrow> u32 \<Rightarrow> u64 res" where
  "pn_align_down_pointer p align =
     rbind (assert_align align) (\<lambda>_. Inr (p AND NOT (ucast align - 1)))"

definition pn_align_up :: "u64 \<Rightarrow> u32 \<Rightarrow> u64 res" where
  "pn_align_up sz align =
     rbind (assert_align align) (\<lambda>_. Inr ((sz + ucast align - 1) AND ucast (NOT (align - 1))))"

definition pn_align_up_pointer :: "u64 \<Rightarrow> u32 \<Rightarrow> u64 res" where
  "pn_align_up_pointer p align =
     rbind (assert_align align) (\<lambda>_. Inr ((p + ucast align - 1) AND NOT (ucast align - 1)))"

definition pn_is_aligned :: "u64 \<Rightarrow> u32 \<Rightarrow> bool res" where
  "pn_is_aligned sz align =
     rbind (assert_align align) (\<lambda>_. Inr (sz AND ucast (align - 1) = 0))"

definition pn_is_aligned_pointer :: "u64 \<Rightarrow> u32 \<Rightarrow> bool res" where
  "pn_is_aligned_pointer p align =
     rbind (assert_align align) (\<lambda>_. Inr (p AND ucast (align - 1) = 0))"


section \<open>Powers of two\<close>

lemma and_mask_take_bit: "x AND mask n = take_bit n (x :: 'a::len word)"
  by (simp add: take_bit_eq_mask)

lemma word_pow2_gt_0: "k < LENGTH('a) \<Longrightarrow> 0 < (2 ^ k :: 'a::len word)"
  by (simp add: word_gt_0)

text \<open>The lowest set bit of a word, the specification of the counting routines.\<close>

definition lowest_bit :: "'a::len word \<Rightarrow> nat \<Rightarrow> bool" where
  "lowest_bit x n \<longleftrightarrow> bit x n \<and> (\<forall>i<n. \<not> bit x i)"

definition highest_bit :: "'a::len word \<Rightarrow> nat \<Rightarrow> bool" where
  "highest_bit x n \<longleftrightarrow> bit x n \<and> (\<forall>i>n. \<not> bit x i)"

lemma lowest_bit_exists:
  assumes "x \<noteq> (0 :: 'a::len word)"
  shows "\<exists>n<LENGTH('a). lowest_bit x n"
proof -
  have "\<exists>i. bit x i"
  proof (rule ccontr)
    assume "\<nexists>i. bit x i"
    then have "x = 0" by (intro bit_word_eqI) simp
    with assms show False by simp
  qed
  then obtain i where i: "bit x i" ..
  let ?n = "LEAST i. bit x i"
  have b: "bit x ?n" using i by (rule LeastI)
  have "?n < LENGTH('a)" using b by (rule bit_imp_le_length)
  moreover have "\<not> bit x j" if "j < ?n" for j using that by (rule not_less_Least)
  ultimately show ?thesis using b unfolding lowest_bit_def by blast
qed

lemma take_bit_0_not_bit: "take_bit k (x :: 'a::len word) = 0 \<Longrightarrow> i < k \<Longrightarrow> \<not> bit x i"
  using bit_take_bit_iff [of k x i] by simp

lemma lowest_bit_drop:
  assumes "take_bit k x = 0" and "lowest_bit (drop_bit k x) n"
  shows "lowest_bit x (n + k)"
proof -
  have "\<not> bit x i" if "i < n + k" for i
  proof (cases "i < k")
    case True
    with assms(1) show ?thesis by (rule take_bit_0_not_bit)
  next
    case False
    with that have "\<not> bit (drop_bit k x) (i - k)" using assms(2) unfolding lowest_bit_def by simp
    with False show ?thesis by (simp add: bit_drop_bit_eq)
  qed
  moreover have "bit x (n + k)"
    using assms(2) by (simp add: lowest_bit_def bit_drop_bit_eq add.commute)
  ultimately show ?thesis unfolding lowest_bit_def by blast
qed

lemma lowest_bit_unique: "lowest_bit x m \<Longrightarrow> lowest_bit x n \<Longrightarrow> m = n"
  unfolding lowest_bit_def by (metis linorder_neqE_nat)

lemma lowest_bit_less:
  assumes "lowest_bit x n" and "take_bit k x \<noteq> 0"
  shows "n < k"
proof (rule ccontr)
  assume "\<not> n < k"
  with assms(1) have "\<not> bit x i" if "i < k" for i
    using that unfolding lowest_bit_def by simp
  then have "take_bit k x = 0" by (intro bit_word_eqI) (simp add: bit_take_bit_iff)
  with assms(2) show False by simp
qed

section \<open>Counting zeros and ones\<close>

text \<open>One halving step of the binary search for the lowest (highest) set bit.\<close>

definition ctz_step :: "nat \<Rightarrow> u32 \<times> u32 \<Rightarrow> u32 \<times> u32" where
  "ctz_step k = (\<lambda>(n, x). if x AND mask k = 0 then (n + of_nat k, drop_bit k x) else (n, x))"

lemma ctz_step:
  assumes "lowest_bit x n" and "n < 2 * k"
  shows "\<exists>m' x' n'. ctz_step k (m, x) = (m', x') \<and> lowest_bit x' n' \<and> n' < k
    \<and> m' + of_nat n' = m + of_nat n"
proof (cases "take_bit k x = 0")
  case True
  have "k \<le> n"
    using assms(1) take_bit_0_not_bit [OF True] unfolding lowest_bit_def by (meson not_le)
  then have "bit (drop_bit k x) (n - k)"
    using assms(1) by (simp add: bit_drop_bit_eq lowest_bit_def)
  then have "drop_bit k x \<noteq> 0" by auto
  then obtain n' where n': "lowest_bit (drop_bit k x) n'" using lowest_bit_exists by blast
  then have n: "n = n' + k" using lowest_bit_drop [OF True] lowest_bit_unique [OF assms(1)] by blast
  have "ctz_step k (m, x) = (m + of_nat k, drop_bit k x)"
    using True by (simp add: ctz_step_def and_mask_take_bit)
  moreover have "n' < k" using assms(2) n by simp
  moreover have "m + of_nat k + of_nat n' = m + of_nat n" using n by (simp add: add.commute add.left_commute)
  ultimately show ?thesis using n' by blast
next
  case False
  have "ctz_step k (m, x) = (m, x)" using False by (simp add: ctz_step_def and_mask_take_bit)
  then show ?thesis using assms lowest_bit_less [OF assms(1) False] by blast
qed

lemma ctz_step_numerals:
  "(if x AND 0xffff = 0 then (n + 16, drop_bit 16 x) else (n, x)) = ctz_step 16 (n, x)"
  "(if x AND 0x00ff = 0 then (n + 8, drop_bit 8 x) else (n, x)) = ctz_step 8 (n, x)"
  "(if x AND 0x000f = 0 then (n + 4, drop_bit 4 x) else (n, x)) = ctz_step 4 (n, x)"
  "(if x AND 0x0003 = 0 then (n + 2, drop_bit 2 x) else (n, x)) = ctz_step 2 (n, x)"
  by (simp_all add: ctz_step_def mask_eq_exp_minus_1)

lemma pn_ctz_steps:
  "pn_ctz x = (if x = 0 then 32 else
     case ctz_step 2 (ctz_step 4 (ctz_step 8 (ctz_step 16 (0, x)))) of
       (n, y) \<Rightarrow> if y AND 1 = 0 then n + 1 else n)"
  by (simp only: pn_ctz_def ctz_step_numerals Let_def case_prod_beta prod.collapse)

lemma lowest_bit_below_2:
  assumes "lowest_bit (x :: u32) n" and "n < 2"
  shows "(x AND 1 = 0) = (n = 1)"
proof -
  have "(x AND 1 = 0) = (\<not> bit x 0)" by (simp add: and_one_eq mod_2_eq_odd bit_0)
  also have "\<dots> = (n = 1)"
  proof (cases "n = 0")
    case True
    with assms show ?thesis by (simp add: lowest_bit_def)
  next
    case False
    with assms show ?thesis unfolding lowest_bit_def by auto
  qed
  finally show ?thesis .
qed

lemma pn_ctz_lowest_bit:
  assumes "lowest_bit x n"
  shows "pn_ctz x = of_nat n"
proof -
  have "x \<noteq> 0" using assms unfolding lowest_bit_def by auto
  have "n < 2 * 16" using assms bit_imp_le_length [of x n] unfolding lowest_bit_def by simp
  from ctz_step [OF assms this, of 0] obtain m1 x1 n1 where
    1: "ctz_step 16 (0, x) = (m1, x1)" "lowest_bit x1 n1" "n1 < 2 * 8" "m1 + of_nat n1 = of_nat n"
    by auto
  from ctz_step [OF 1(2,3), of m1] obtain m2 x2 n2 where
    2: "ctz_step 8 (m1, x1) = (m2, x2)" "lowest_bit x2 n2" "n2 < 2 * 4" "m2 + of_nat n2 = m1 + of_nat n1"
    by auto
  from ctz_step [OF 2(2,3), of m2] obtain m3 x3 n3 where
    3: "ctz_step 4 (m2, x2) = (m3, x3)" "lowest_bit x3 n3" "n3 < 2 * 2" "m3 + of_nat n3 = m2 + of_nat n2"
    by auto
  from ctz_step [OF 3(2,3), of m3] obtain m4 x4 n4 where
    4: "ctz_step 2 (m3, x3) = (m4, x4)" "lowest_bit x4 n4" "n4 < 2" "m4 + of_nat n4 = m3 + of_nat n3"
    by auto
  have "pn_ctz x = m4 + of_nat n4"
    using \<open>x \<noteq> 0\<close> 1(1) 2(1) 3(1) 4(1,3) lowest_bit_below_2 [OF 4(2,3)]
    by (auto simp: pn_ctz_steps less_2_cases_iff)
  with 1(4) 2(4) 3(4) 4(4) show ?thesis by simp
qed

lemma highest_bit_exists:
  assumes "x \<noteq> (0 :: 'a::len word)"
  shows "\<exists>n<LENGTH('a). highest_bit x n"
proof -
  have "\<exists>i. bit x i"
  proof (rule ccontr)
    assume "\<nexists>i. bit x i"
    then have "x = 0" by (intro bit_word_eqI) simp
    with assms show False by simp
  qed
  then obtain i where i: "bit x i" ..
  let ?n = "GREATEST i. bit x i"
  have bound: "\<forall>i. bit x i \<longrightarrow> i \<le> LENGTH('a)" by (auto dest: bit_imp_le_length)
  then have b: "bit x ?n" using i GreatestI_nat by metis
  have "i \<le> ?n" if "bit x i" for i using that bound Greatest_le_nat by metis
  then have "highest_bit x ?n" using b unfolding highest_bit_def by (meson not_le)
  with b show ?thesis using bit_imp_le_length by blast
qed

lemma highest_bit_unique: "highest_bit x m \<Longrightarrow> highest_bit x n \<Longrightarrow> m = n"
  unfolding highest_bit_def by (metis linorder_neqE_nat)

definition clz_step :: "nat \<Rightarrow> u32 \<times> u32 \<Rightarrow> u32 \<times> u32" where
  "clz_step k = (\<lambda>(n, x). if x AND NOT (mask (32 - k)) = 0 then (n + of_nat k, push_bit k x) else (n, x))"

lemma and_not_mask_0_iff: "x AND NOT (mask k) = 0 \<longleftrightarrow> (\<forall>i\<ge>k. \<not> bit (x :: u32) i)"
proof
  assume "x AND NOT (mask k) = 0"
  then have z: "\<not> bit (x AND NOT (mask k)) i" for i by simp
  show "\<forall>i\<ge>k. \<not> bit x i"
  proof (intro allI impI notI)
    fix i assume "k \<le> i" and "bit x i"
    moreover from \<open>bit x i\<close> have "i < 32" using bit_imp_le_length [of x i] by simp
    ultimately show False using z [of i] by (simp add: bit_and_iff bit_not_iff bit_mask_iff)
  qed
next
  assume "\<forall>i\<ge>k. \<not> bit x i"
  then show "x AND NOT (mask k) = 0"
    by (intro bit_word_eqI) (simp add: bit_and_iff bit_not_iff bit_mask_iff, meson not_le)
qed

lemma clz_step:
  assumes "highest_bit x n" and "31 - n < 2 * k" and "0 < k" and "k \<le> 16"
  shows "\<exists>m' x' n'. clz_step k (m, x) = (m', x') \<and> highest_bit x' n' \<and> n' < 32 \<and> 31 - n' < k
    \<and> m' + of_nat (31 - n') = m + of_nat (31 - n)"
proof -
  have n32: "n < 32" using assms(1) bit_imp_le_length [of x n] unfolding highest_bit_def by simp
  show ?thesis
  proof (cases "n < 32 - k")
    case True
    have "x AND NOT (mask (32 - k)) = 0"
      using assms(1) True unfolding and_not_mask_0_iff highest_bit_def by simp
    then have "clz_step k (m, x) = (m + of_nat k, push_bit k x)" by (simp add: clz_step_def)
    moreover have "highest_bit (push_bit k x) (n + k)"
      using assms(1) True unfolding highest_bit_def by (auto simp: bit_push_bit_iff)
    moreover have "n + k < 32" using True by simp
    moreover have "31 - (n + k) < k" using assms(2,3) by linarith
    moreover have "m + of_nat k + of_nat (31 - (n + k)) = m + of_nat (31 - n)"
    proof -
      have "31 - n = k + (31 - (n + k))" using True by linarith
      then show ?thesis by (metis add.assoc of_nat_add)
    qed
    ultimately show ?thesis by blast
  next
    case False
    have "x AND NOT (mask (32 - k)) \<noteq> 0"
      using assms(1) False unfolding and_not_mask_0_iff highest_bit_def by (meson not_le)
    then have "clz_step k (m, x) = (m, x)" by (simp add: clz_step_def)
    moreover have "31 - n < k" using False assms(3) by linarith
    ultimately show ?thesis using assms(1) n32 by blast
  qed
qed

lemma not_mask_numerals_u32:
  "NOT (mask 16) = (0xffff0000 :: u32)" "NOT (mask 24) = (0xff000000 :: u32)"
  "NOT (mask 28) = (0xf0000000 :: u32)" "NOT (mask 30) = (0xc0000000 :: u32)"
  "NOT (mask 31) = (0x80000000 :: u32)"
  by code_simp+

lemma clz_step_numerals:
  "(if x AND 0xffff0000 = 0 then (n + 16, push_bit 16 x) else (n, x)) = clz_step 16 (n, x)"
  "(if x AND 0xff000000 = 0 then (n + 8, push_bit 8 x) else (n, x)) = clz_step 8 (n, x)"
  "(if x AND 0xf0000000 = 0 then (n + 4, push_bit 4 x) else (n, x)) = clz_step 4 (n, x)"
  "(if x AND 0xc0000000 = 0 then (n + 2, push_bit 2 x) else (n, x)) = clz_step 2 (n, x)"
  by (simp_all add: clz_step_def not_mask_numerals_u32)

lemma pn_clz_steps:
  "pn_clz x = (if x = 0 then 32 else
     case clz_step 2 (clz_step 4 (clz_step 8 (clz_step 16 (0, x)))) of
       (n, y) \<Rightarrow> if y AND 0x80000000 = 0 then n + 1 else n)"
  by (simp only: pn_clz_def clz_step_numerals Let_def case_prod_beta prod.collapse)

lemma highest_bit_above_30:
  assumes "highest_bit (x :: u32) n" and "n < 32" and "31 - n < 2"
  shows "(x AND 0x80000000 = 0) = (n = 30)"
proof -
  have "(x AND 0x80000000 = 0) = (\<forall>i\<ge>31. \<not> bit x i)"
    by (simp only: and_not_mask_0_iff not_mask_numerals_u32(5) [symmetric])
  also have "\<dots> = (n = 30)"
  proof (cases "n = 30")
    case True
    with assms(1) show ?thesis unfolding highest_bit_def by auto
  next
    case False
    then have "n = 31" using assms(2,3) by linarith
    with assms(1) show ?thesis unfolding highest_bit_def by auto
  qed
  finally show ?thesis .
qed

lemma pn_clz_highest_bit:
  assumes "highest_bit x n"
  shows "pn_clz x = of_nat (31 - n)"
proof -
  have "x \<noteq> 0" using assms unfolding highest_bit_def by auto
  have b: "31 - n < 2 * 16" by simp
  from clz_step [OF assms b, of 0] obtain m1 x1 n1 where
    1: "clz_step 16 (0, x) = (m1, x1)" "highest_bit x1 n1" "31 - n1 < 2 * 8"
       "m1 + of_nat (31 - n1) = of_nat (31 - n)"
    by auto
  from clz_step [OF 1(2,3), of m1] obtain m2 x2 n2 where
    2: "clz_step 8 (m1, x1) = (m2, x2)" "highest_bit x2 n2" "31 - n2 < 2 * 4"
       "m2 + of_nat (31 - n2) = m1 + of_nat (31 - n1)"
    by auto
  from clz_step [OF 2(2,3), of m2] obtain m3 x3 n3 where
    3: "clz_step 4 (m2, x2) = (m3, x3)" "highest_bit x3 n3" "31 - n3 < 2 * 2"
       "m3 + of_nat (31 - n3) = m2 + of_nat (31 - n2)"
    by auto
  from clz_step [OF 3(2,3), of m3] obtain m4 x4 n4 where
    4: "clz_step 2 (m3, x3) = (m4, x4)" "highest_bit x4 n4" "n4 < 32" "31 - n4 < 2"
       "m4 + of_nat (31 - n4) = m3 + of_nat (31 - n3)"
    by auto
  have "n4 = 30 \<or> n4 = 31" using 4(3,4) by linarith
  then have "pn_clz x = m4 + of_nat (31 - n4)"
    using \<open>x \<noteq> 0\<close> 1(1) 2(1) 3(1) 4(1) highest_bit_above_30 [OF 4(2-4)]
    by (auto simp: pn_clz_steps)
  with 1(4) 2(4) 3(4) 4(5) show ?thesis by simp
qed

section \<open>Powers of two and their search\<close>

lemma pn_is_power_of_two_iff: "pn_is_power_of_two v \<longleftrightarrow> (\<exists>k<64. v = 2 ^ k)"
proof
  assume p: "pn_is_power_of_two v"
  then have "v \<noteq> 0" by (auto simp: pn_is_power_of_two_def)
  then obtain n where n: "n < 64" "lowest_bit v n" using lowest_bit_exists [of v] by auto
  define z where "z = push_bit (Suc n) (drop_bit (Suc n) v)"
  have low: "take_bit (Suc n) v = 2 ^ n"
    using n by (intro bit_word_eqI) (auto simp: bit_take_bit_iff bit_exp_iff lowest_bit_def less_Suc_eq)
  have v: "v = z + 2 ^ n"
    using bits_ident [of "Suc n" v] low by (simp add: z_def)
  have "v - 1 = z + mask n" by (simp add: v mask_eq_exp_minus_1)
  also have "\<dots> = z OR mask n"
    by (rule disjunctive_add) (auto simp: z_def bit_push_bit_iff bit_mask_iff)
  finally have v1: "v - 1 = z OR mask n" .
  have "z = 0"
  proof (rule bit_word_eqI)
    fix i assume i: "i < LENGTH(64)"
    have "\<not> bit (v AND (v - 1)) i" using p by (simp add: pn_is_power_of_two_def)
    then have "\<not> (bit v i \<and> bit z i)" by (simp add: v1 bit_and_iff bit_or_iff)
    moreover have "bit v i" if "bit z i"
      using that by (auto simp: z_def bit_push_bit_iff bit_drop_bit_eq simp del: push_bit_Suc)
    ultimately show "bit z i = bit 0 i" by auto
  qed
  with v n(1) show "\<exists>k<64. v = 2 ^ k" by auto
next
  assume "\<exists>k<64. v = 2 ^ k"
  then obtain k where k: "k < 64" "v = 2 ^ k" by blast
  have "v AND (v - 1) = v AND mask k" by (simp add: k mask_eq_exp_minus_1)
  also have "\<dots> = 0"
    by (rule bit_word_eqI) (auto simp: k bit_and_iff bit_mask_iff bit_exp_iff)
  finally show "pn_is_power_of_two v" using k word_pow2_gt_0 [of k, where 'a = 64]
    by (simp add: pn_is_power_of_two_def)
qed

lemma next_power_loop_returns:
  assumes "v \<le> 2 ^ 63" and "k \<le> 63"
  shows "\<exists>j. k \<le> j \<and> j \<le> 63 \<and> next_power_loop v (2 ^ k) = Some (2 ^ j) \<and> v \<le> 2 ^ j
    \<and> (\<forall>i. k \<le> i \<and> i < j \<longrightarrow> 2 ^ i < v)"
  using assms
proof (induction "63 - k" arbitrary: k)
  case 0
  then have k: "k = 63" by simp
  have "next_power_loop v (2 ^ k) = Some (2 ^ k)"
    using 0(2) k by (subst next_power_loop.simps) (auto dest: leD)
  with 0 show ?case by (intro exI [of _ k]) (auto simp: k)
next
  case (Suc d)
  show ?case
  proof (cases "2 ^ k < v")
    case True
    have "next_power_loop v (2 ^ k) = next_power_loop v (2 ^ Suc k)"
      by (subst next_power_loop.simps) (simp add: True push_bit_eq_mult mult.commute)
    moreover have "d = 63 - Suc k" and "Suc k \<le> 63" using Suc.hyps(2) by linarith+
    then obtain j where "Suc k \<le> j" "j \<le> 63"
      "next_power_loop v (2 ^ Suc k) = Some (2 ^ j)" "v \<le> 2 ^ j"
      "\<forall>i. Suc k \<le> i \<and> i < j \<longrightarrow> 2 ^ i < v"
      using Suc.hyps(1) [of "Suc k"] Suc.prems(1) by blast
    ultimately show ?thesis
      using True by (intro exI [of _ j]) (auto, metis Suc_leI le_neq_implies_less)
  next
    case False
    then have "next_power_loop v (2 ^ k) = Some (2 ^ k)" by (subst next_power_loop.simps) simp
    with False Suc.prems show ?thesis by (intro exI [of _ k]) (auto simp: not_less)
  qed
qed

lemma next_power_loop_result:
  assumes ret: "next_power_loop v ret = Some r" and "ret = 0 \<or> (\<exists>k<64. ret = 2 ^ k)"
  shows "v \<le> r \<and> (r = 0 \<or> (\<exists>k<64. r = 2 ^ k))"
proof -
  have "(ret = 0 \<or> (\<exists>k<64. ret = 2 ^ k)) \<longrightarrow> v \<le> r \<and> (r = 0 \<or> (\<exists>k<64. r = 2 ^ k))"
  proof (rule next_power_loop.raw_induct [where P = "\<lambda>v ret r.
      (ret = 0 \<or> (\<exists>k<64. ret = 2 ^ k)) \<longrightarrow> v \<le> r \<and> (r = 0 \<or> (\<exists>k<64. r = 2 ^ k))", OF _ ret])
    fix f :: "u64 \<Rightarrow> u64 \<Rightarrow> u64 option" and v ret r
    assume IH: "\<And>v ret r. f v ret = Some r \<Longrightarrow>
        (ret = 0 \<or> (\<exists>k<64. ret = 2 ^ k)) \<longrightarrow> v \<le> r \<and> (r = 0 \<or> (\<exists>k<64. r = 2 ^ k))"
      and eq: "(if ret < v then f v (push_bit 1 ret) else Some ret) = Some r"
    show "(ret = 0 \<or> (\<exists>k<64. ret = 2 ^ k)) \<longrightarrow> v \<le> r \<and> (r = 0 \<or> (\<exists>k<64. r = 2 ^ k))"
    proof (cases "ret < v")
      case True
      have shift: "push_bit 1 ret = 0 \<or> (\<exists>k<64. push_bit 1 ret = 2 ^ k)"
        if "ret = 0 \<or> (\<exists>k<64. ret = 2 ^ k)"
      proof -
        from that consider "ret = 0" | k where "k < 64" "ret = 2 ^ k" by blast
        then show ?thesis
        proof cases
          case 2
          then have "push_bit 1 ret = 2 ^ Suc k" by (simp add: push_bit_eq_mult mult.commute)
          moreover have "(2 :: u64) ^ Suc 63 = 0" by simp
          ultimately show ?thesis using 2(1)
            by (cases "k = 63") (simp, intro disjI2 exI [of _ "Suc k"], simp)
        qed simp
      qed
      from True eq have "f v (push_bit 1 ret) = Some r" by simp
      from IH [OF this] shift show ?thesis by blast
    next
      case False
      with eq show ?thesis by (auto simp: not_less)
    qed
  qed
  with assms(2) show ?thesis by blast
qed

lemma pow2_le_2_63: "k < 64 \<Longrightarrow> (2 ^ k :: u64) \<le> 2 ^ 63"
  unfolding word_le_nat_alt by (subst (1 2) unat_pow2) (simp_all only: power_increasing, simp_all)

section \<open>Alignment\<close>

lemma assert_align_pow2: "k < 32 \<Longrightarrow> assert_align (2 ^ k) = Inr ()"
proof -
  assume k: "k < 32"
  have "ucast (2 ^ k :: u32) = (2 ^ k :: u64)"
    using k by (intro bit_word_eqI) (auto simp: bit_ucast_iff bit_exp_iff)
  then have "pn_is_power_of_two (ucast (2 ^ k :: u32))"
    using k by (auto simp: pn_is_power_of_two_iff intro!: exI [of _ k])
  then show ?thesis by (simp add: assert_align_def ensure_def)
qed

lemma assert_align_Inr:
  assumes "assert_align al = Inr ()"
  shows "\<exists>k<32. al = 2 ^ k"
proof -
  from assms obtain k where k: "k < 64" "ucast al = (2 ^ k :: u64)"
    by (auto simp: assert_align_def ensure_def pn_is_power_of_two_iff split: if_splits)
  have "bit (ucast al :: u64) k" using k by (simp add: bit_exp_iff)
  then have "k < 32" by (auto simp: bit_ucast_iff dest: bit_imp_le_length)
  moreover have "al = 2 ^ k"
  proof (rule bit_word_eqI)
    fix i assume "i < LENGTH(32)"
    then show "bit al i = bit (2 ^ k :: u32) i"
      using arg_cong [OF k(2), of "\<lambda>w. bit w i"] \<open>k < 32\<close> by (auto simp: bit_ucast_iff bit_exp_iff)
  qed
  ultimately show ?thesis by blast
qed

lemma and_ucast_not_mask:
  fixes y :: u64
  assumes "unat y < 2 ^ 32"
  shows "y AND ucast (NOT (mask k) :: u32) = push_bit k (drop_bit k y)"
proof (rule bit_word_eqI)
  fix i assume "i < LENGTH(64)"
  have "i < 32" if "bit y i" using assms that by (rule bit_imp_less)
  then show "bit (y AND ucast (NOT (mask k) :: u32)) i = bit (push_bit k (drop_bit k y)) i"
    by (auto simp: bit_and_iff bit_ucast_iff bit_not_iff bit_mask_iff bit_push_bit_iff bit_drop_bit_eq
        \<open>i < LENGTH(64)\<close>)
qed

lemma pn_align_up_pow2:
  assumes "k < 32" and "unat sz + 2 ^ k \<le> 2 ^ 32"
  shows "\<exists>r. pn_align_up sz (2 ^ k) = Inr r \<and> unat r = (unat sz + 2 ^ k - 1) div 2 ^ k * 2 ^ k"
proof -
  have uc: "ucast (2 ^ k :: u32) = (2 ^ k :: u64)"
    using assms(1) by (intro bit_word_eqI) (auto simp: bit_ucast_iff bit_exp_iff)
  have m: "unat (mask k :: u64) = 2 ^ k - 1"
    using assms(1) by (simp add: unat_mask_pow2)
  have eq: "sz + 2 ^ k - 1 = sz + mask k" by (simp add: mask_eq_exp_minus_1)
  have u: "unat (sz + mask k) = unat sz + 2 ^ k - 1"
  proof -
    have "unat sz + unat (mask k :: u64) < 2 ^ LENGTH(64)" using assms m by simp
    then have "unat (sz + mask k) = unat sz + unat (mask k :: u64)" by (rule unat_add_small)
    then show ?thesis by (simp add: m)
  qed
  then have "unat (sz + mask k) < 2 ^ 32" using assms(2) by simp
  then have "(sz + mask k) AND ucast (NOT (mask k) :: u32) = push_bit k (drop_bit k (sz + mask k))"
    by (rule and_ucast_not_mask)
  then show ?thesis
    using u by (simp add: pn_align_up_def assert_align_pow2 assms(1) uc eq pow2_minus_1 unat_push_drop)
qed

lemma pn_align_down_pow2:
  assumes "k < 32" and "unat sz < 2 ^ 32"
  shows "\<exists>r. pn_align_down sz (2 ^ k) = Inr r \<and> unat r = unat sz div 2 ^ k * 2 ^ k"
  using and_ucast_not_mask [OF assms(2), of k] unat_push_drop [of k sz]
  by (simp add: pn_align_down_def assert_align_pow2 assms(1) pow2_minus_1)

section \<open>Sign rotation\<close>

text \<open>The encoding that \<open>pn_decode_sign_rotated_value\<close> undoes, for integers of \<open>k\<close> bits.\<close>

definition sign_rotate :: "nat \<Rightarrow> int \<Rightarrow> nat" where
  "sign_rotate k i = (if i \<ge> 0 then nat (2 * i) else if i = - (2 ^ (k - 1)) then 1 else nat (1 - 2 * i))"

lemma and_1_of_nat: "(of_nat n :: 'a::len word) AND 1 = 0 \<longleftrightarrow> even n"
  by (simp add: and_one_eq mod_2_eq_odd bit_0 [symmetric] bit_of_nat_iff) (simp add: bit_0)

lemma drop_1_of_nat:
  assumes "n < 2 ^ LENGTH('a)"
  shows "drop_bit 1 (of_nat n :: 'a::len word) = of_nat (n div 2)"
proof -
  have "n div 2 < 2 ^ LENGTH('a)" using assms by linarith
  then have "unat (of_nat (n div 2) :: 'a word) = n div 2" by (rule unat_of_nat_small)
  moreover have "unat (drop_bit 1 (of_nat n :: 'a word)) = n div 2"
    unfolding unat_drop_bit_eq unat_of_nat_small [OF assms] by (simp add: drop_bit_eq_div)
  ultimately show ?thesis by (simp add: word_unat_eq_iff)
qed

lemma sint_of_int_small:
  "- (2 ^ (LENGTH('a) - 1)) \<le> i \<Longrightarrow> i < 2 ^ (LENGTH('a) - 1) \<Longrightarrow> sint (of_int i :: 'a::len word) = i"
  by (simp add: signed_of_int signed_take_bit_int_eq_self)

definition rotated :: "'a::len word \<Rightarrow> 'a word" where
  "rotated v = (if v AND 1 = 0 then drop_bit 1 v else if v \<noteq> 1 then - drop_bit 1 v
     else 2 ^ (LENGTH('a) - 1))"

lemma rotated_sources:
  "pn_decode_sign_rotated_value = rotated" "pn_decode_sign_rotated_value_int64 = rotated"
  by (simp_all add: fun_eq_iff rotated_def pn_decode_sign_rotated_value_def pn_decode_sign_rotated_value_int64_def)

lemma rotated_sign_rotate:
  assumes "- (2 ^ (LENGTH('a) - 1)) \<le> i" and "i < 2 ^ (LENGTH('a) - 1)" and "2 \<le> LENGTH('a)"
  shows "rotated (of_nat (sign_rotate LENGTH('a) i)) = (of_int i :: 'a::len word)"
proof -
  have p: "2 * (2 :: nat) ^ (LENGTH('a) - 1) = 2 ^ LENGTH('a)" using assms(3) by (simp flip: power_Suc)
  consider (pos) "i \<ge> 0" | (min) "i = - (2 ^ (LENGTH('a) - 1))" | (neg) "i < 0" "- (2 ^ (LENGTH('a) - 1)) < i"
    using assms by linarith
  then show ?thesis
  proof cases
    case pos
    then obtain n where n: "i = int n" by (metis nonneg_int_cases)
    have "n < 2 ^ (LENGTH('a) - 1)" using assms(2) n by simp
    then have "2 * n < 2 ^ LENGTH('a)" using p by linarith
    then show ?thesis
      using n and_1_of_nat [of "2 * n", where 'a = 'a] drop_1_of_nat [of "2 * n", where 'a = 'a]
      by (simp add: rotated_def sign_rotate_def nat_mult_distrib del: of_nat_mult)
  next
    case min
    have "2 * 2 ^ (LENGTH('a) - 1) = (2 ^ LENGTH('a) :: 'a word)" using assms(3) by (simp flip: power_Suc)
    then have "- (2 ^ (LENGTH('a) - 1)) = (2 ^ (LENGTH('a) - 1) :: 'a word)"
      by (simp add: minus_equation_iff eq_neg_iff_add_eq_0 flip: mult_2)
    with min show ?thesis by (simp add: rotated_def sign_rotate_def)
  next
    case neg
    define n where "n = nat (- i)"
    have n: "i = - int n" "1 \<le> n" unfolding n_def using neg by linarith+
    have "n < 2 ^ (LENGTH('a) - 1)" using neg(2) by (simp add: n_def nat_less_iff)
    then have lt: "2 * n + 1 < 2 ^ LENGTH('a)" using p by linarith
    have "nat (1 - 2 * i) = 2 * n + 1" using n(1) by linarith
    then have r: "sign_rotate LENGTH('a) i = 2 * n + 1" using neg by (simp add: sign_rotate_def)
    have "(of_nat (2 * n + 1) :: 'a word) \<noteq> 1"
    proof
      assume "(of_nat (2 * n + 1) :: 'a word) = 1"
      then have "unat (of_nat (2 * n + 1) :: 'a word) = 1" by simp
      with unat_of_nat_small [OF lt] n(2) show False by simp
    qed
    with lt show ?thesis
      using and_1_of_nat [of "2 * n + 1", where 'a = 'a] drop_1_of_nat [of "2 * n + 1", where 'a = 'a] n(1)
      unfolding r rotated_def by (simp del: of_nat_mult of_nat_add of_nat_Suc)
  qed
qed

lemma decode_sign_rotated_value_int64:
  "- (2 ^ 63) \<le> i \<Longrightarrow> i < 2 ^ 63 \<Longrightarrow>
   sint (pn_decode_sign_rotated_value_int64 (of_nat (sign_rotate 64 i))) = i"
  using rotated_sign_rotate [of i, where 'a = 64] sint_of_int_small [of i, where 'a = 64]
  by (simp add: rotated_sources)

lemma decode_sign_rotated_value:
  "- (2 ^ 31) \<le> i \<Longrightarrow> i < 2 ^ 31 \<Longrightarrow>
   sint (pn_decode_sign_rotated_value (of_nat (sign_rotate 32 i))) = i"
  using rotated_sign_rotate [of i, where 'a = 32] sint_of_int_small [of i, where 'a = 32]
  by (simp add: rotated_sources)


section \<open>Properties\<close>

text \<open>
  C35: \<open>pn_next_power_of_two\<close> returns the least power of two that is not below its argument, and
  returns for exactly the arguments up to \<open>2^63\<close>; above it the loop shifts its bit out and never
  ends.
\<close>

theorem pn_next_power_of_two_spec:
  "pn_next_power_of_two v = (if v \<le> 2 ^ 63 then Some (2 ^ (LEAST k. v \<le> 2 ^ k)) else None)"
proof (cases "v \<le> 2 ^ 63")
  case True
  from next_power_loop_returns [OF True, of 0] obtain j where
    j: "next_power_loop v 1 = Some (2 ^ j)" "v \<le> 2 ^ j" "\<forall>i<j. 2 ^ i < v" by auto
  have "(LEAST k. v \<le> 2 ^ k) = j"
    using j(2,3) by (intro Least_equality) (blast, meson leD leI)
  with True j(1) show ?thesis by (simp add: pn_next_power_of_two_def)
next
  case False
  have "next_power_loop v 1 = None"
  proof (rule ccontr)
    assume "next_power_loop v 1 \<noteq> None"
    then obtain r where "next_power_loop v 1 = Some r" by blast
    moreover have "\<exists>k<64. (1 :: u64) = 2 ^ k" by (intro exI [of _ 0]) simp
    ultimately have "v \<le> r \<and> (r = 0 \<or> (\<exists>k<64. r = 2 ^ k))"
      by (intro next_power_loop_result) auto
    with False show False using pow2_le_2_63 by (metis order.trans word_zero_le)
  qed
  with False show ?thesis by (simp add: pn_next_power_of_two_def)
qed

text \<open>
  For every nonzero word the portable \<open>pn_ctz\<close> is the index of the lowest set bit and
  \<open>31 - pn_clz\<close> the index of the highest one.
\<close>

theorem pn_ctz_clz_correct:
  assumes "x \<noteq> 0"
  shows "lowest_bit x (unat (pn_ctz x)) \<and> highest_bit x (31 - unat (pn_clz x)) \<and> unat (pn_clz x) < 32"
proof -
  obtain n where n: "n < 32" "lowest_bit x n" using lowest_bit_exists [OF assms] by auto
  obtain m where m: "m < 32" "highest_bit x m" using highest_bit_exists [OF assms] by auto
  have "unat (pn_ctz x) = n" using n by (simp add: pn_ctz_lowest_bit unat_of_nat_small)
  moreover have "unat (pn_clz x) = 31 - m"
    using pn_clz_highest_bit [OF m(2)] unat_of_nat_small [of "31 - m", where 'a = 32] by simp
  ultimately show ?thesis using n m by simp
qed

theorem pn_ctz_clz_correct_witness:
  "(0x28 :: u32) \<noteq> 0 \<and> lowest_bit (0x28 :: u32) (unat (pn_ctz 0x28))
    \<and> highest_bit (0x28 :: u32) (31 - unat (pn_clz 0x28)) \<and> unat (pn_clz 0x28) < 32"
proof -
  have h: "(0x28 :: u32) \<noteq> 0" by simp
  show ?thesis using h pn_ctz_clz_correct [OF h] by blast
qed


text \<open>
  Decoding undoes sign rotation for every integer of 32 and of 64 bits, the most negative one,
  which has an encoding of its own, included.
\<close>

theorem pn_decode_sign_rotated_roundtrip:
  "(- (2 ^ 31) \<le> i \<and> i < 2 ^ 31 \<longrightarrow>
      sint (pn_decode_sign_rotated_value (of_nat (sign_rotate 32 i))) = i)
   \<and> (- (2 ^ 63) \<le> i \<and> i < 2 ^ 63 \<longrightarrow>
      sint (pn_decode_sign_rotated_value_int64 (of_nat (sign_rotate 64 i))) = i)"
  using decode_sign_rotated_value [of i] decode_sign_rotated_value_int64 [of i] by blast

theorem pn_decode_sign_rotated_roundtrip_witness:
  "sint (pn_decode_sign_rotated_value (of_nat (sign_rotate 32 (- 5)))) = - 5 \<and>
   sint (pn_decode_sign_rotated_value_int64 (of_nat (sign_rotate 64 (- (2 ^ 63))))) = - (2 ^ 63)"
proof -
  have "sint (pn_decode_sign_rotated_value (of_nat (sign_rotate 32 (- 5)))) = - 5"
    using pn_decode_sign_rotated_roundtrip [of "- 5"] by simp
  moreover have "sint (pn_decode_sign_rotated_value_int64 (of_nat (sign_rotate 64 (- (2 ^ 63))))) = - (2 ^ 63)"
    using pn_decode_sign_rotated_roundtrip [of "- (2 ^ 63)"] by simp
  ultimately show ?thesis by blast
qed

end
