(* ===== verification/Pn_Allocator.thy ===== *)
theory Pn_Allocator
  imports Pn_Bits
begin

text \<open>
  The chunked bump allocator of \<^verbatim>\<open>src/pn_allocator.h\<close>. A host address is a \<^typ>\<open>u64\<close>; the
  singly-linked list of chunks is a HOL list, its head the list's head. \<open>malloc\<close> of the C library
  is a parameter: given the chunks that are live and a size it returns an address, 0 for failure.
\<close>

unbundle bit_operations_syntax

section \<open>State\<close>

record PNAllocatorChunk =
  chunk_addr :: u64
  chunk_current :: u64
  chunk_end :: u64

record PNAllocatorMark =
  mark_current :: u64
  mark_last_alloc :: u64
  mark_total_used :: u64
  mark_internal_fragmentation :: u64

record PNAllocator =
  alloc_name :: string
  chunk_head :: "PNAllocatorChunk list"
  last_alloc :: u64
  min_chunk_size :: u64
  total_used :: u64
  internal_fragmentation :: u64
  reset_mark :: PNAllocatorMark

type_synonym malloc_fn = "PNAllocatorChunk list \<Rightarrow> u64 \<Rightarrow> u64"

abbreviation sizeof_PNAllocatorChunk :: u64 where
  "sizeof_PNAllocatorChunk \<equiv> 24"

section \<open>Operations\<close>

definition pn_malloc :: "malloc_fn \<Rightarrow> PNAllocatorChunk list \<Rightarrow> u64 \<Rightarrow> u64 res" where
  "pn_malloc malloc live sz =
     (let ret = malloc live sz in if ret = 0 then Inl (Fatal ''Out of memory.'') else Inr ret)"

definition pn_max :: "u64 \<Rightarrow> u64 \<Rightarrow> u64" where
  "pn_max x y = (if x > y then x else y)"

definition pn_allocator_mark :: "PNAllocator \<Rightarrow> PNAllocatorMark" where
  "pn_allocator_mark a =
     \<lparr>mark_current = (case chunk_head a of [] \<Rightarrow> 0 | c # _ \<Rightarrow> chunk_current c),
      mark_last_alloc = last_alloc a,
      mark_total_used = total_used a,
      mark_internal_fragmentation = internal_fragmentation a\<rparr>"

definition pn_allocator_init :: "u64 \<Rightarrow> string \<Rightarrow> PNAllocator res" where
  "pn_allocator_init min_size nm =
     rbind (ensure (pn_is_power_of_two min_size) (Assertion ''pn_is_power_of_two(min_chunk_size)'')) (\<lambda>_.
     rbind (ensure (min_size > sizeof_PNAllocatorChunk) (Assertion ''min_chunk_size > sizeof'')) (\<lambda>_.
     let a = \<lparr>alloc_name = nm, chunk_head = [], last_alloc = 0, min_chunk_size = min_size,
              total_used = 0, internal_fragmentation = 0,
              reset_mark = \<lparr>mark_current = 0, mark_last_alloc = 0, mark_total_used = 0,
                            mark_internal_fragmentation = 0\<rparr>\<rparr>
     in Inr (a\<lparr>reset_mark := pn_allocator_mark a\<rparr>)))"

definition pn_allocator_new_chunk :: "malloc_fn \<Rightarrow> PNAllocator \<Rightarrow> u64 \<Rightarrow> u32 \<Rightarrow> PNAllocator res" where
  "pn_allocator_new_chunk malloc a initial_alloc_size align =
     rbind (ensure (initial_alloc_size < 0x80000000) (Check ''initial_alloc_size < 0x80000000'')) (\<lambda>_.
     let frag = (case chunk_head a of [] \<Rightarrow> internal_fragmentation a
                 | c # _ \<Rightarrow> internal_fragmentation a + (chunk_end c - chunk_current c)) in
     case pn_next_power_of_two
            (pn_max (initial_alloc_size + sizeof_PNAllocatorChunk + ucast align - 1) (min_chunk_size a)) of
       None \<Rightarrow> Inl Diverges
     | Some chunk_size \<Rightarrow>
         rbind (pn_malloc malloc (chunk_head a) chunk_size) (\<lambda>chunk.
         rbind (pn_is_aligned_pointer chunk 8) (\<lambda>al.
         rbind (ensure al (Assertion ''pn_is_aligned_pointer(chunk, sizeof(void*))'')) (\<lambda>_.
         rbind (pn_align_up_pointer (chunk + sizeof_PNAllocatorChunk) align) (\<lambda>cur.
         Inr (a\<lparr>internal_fragmentation := frag,
                chunk_head := \<lparr>chunk_addr = chunk, chunk_current = cur, chunk_end = chunk + chunk_size\<rparr>
                              # chunk_head a\<rparr>))))))"

text \<open>The tail of \<open>pn_allocator_alloc\<close>: move the head chunk's \<open>current\<close> and account for it.\<close>

definition commit_alloc :: "PNAllocator \<Rightarrow> u64 \<Rightarrow> u64 \<Rightarrow> u64 \<Rightarrow> PNAllocator res" where
  "commit_alloc a new_current ret sz =
     (case chunk_head a of
        [] \<Rightarrow> Inl (Undefined ''null chunk'')
      | c # cs \<Rightarrow> Inr (a\<lparr>chunk_head := c\<lparr>chunk_current := new_current\<rparr> # cs,
                         last_alloc := ret, total_used := total_used a + sz\<rparr>))"

definition alloc_in_new_chunk ::
  "malloc_fn \<Rightarrow> PNAllocator \<Rightarrow> u64 \<Rightarrow> u32 \<Rightarrow> (u64 \<times> PNAllocator) res" where
  "alloc_in_new_chunk malloc a sz align =
     rbind (pn_allocator_new_chunk malloc a sz align) (\<lambda>a.
     case chunk_head a of
       [] \<Rightarrow> Inl (Undefined ''null chunk'')
     | c # _ \<Rightarrow>
         rbind (pn_align_up_pointer (chunk_current c) align) (\<lambda>ret.
         rbind (ensure (ret + sz \<ge> ret) (Check ''new_current >= ret'')) (\<lambda>_.
         rbind (ensure (ret + sz \<le> chunk_end c) (Assertion ''new_current <= chunk->end'')) (\<lambda>_.
         rbind (commit_alloc a (ret + sz) ret sz) (\<lambda>a. Inr (ret, a))))))"

definition pn_allocator_alloc ::
  "malloc_fn \<Rightarrow> PNAllocator \<Rightarrow> u64 \<Rightarrow> u32 \<Rightarrow> (u64 \<times> PNAllocator) res" where
  "pn_allocator_alloc malloc a sz align =
     (case chunk_head a of
        [] \<Rightarrow> alloc_in_new_chunk malloc a sz align
      | c # _ \<Rightarrow>
          rbind (pn_align_up_pointer (chunk_current c) align) (\<lambda>ret.
          rbind (ensure (ret + sz \<ge> ret) (Check ''new_current >= ret'')) (\<lambda>_.
          if ret + sz > chunk_end c then alloc_in_new_chunk malloc a sz align
          else rbind (commit_alloc a (ret + sz) ret sz) (\<lambda>a. Inr (ret, a)))))"

text \<open>\<open>pn_allocator_allocz\<close> also clears the block: the third component is the range it zeroes.\<close>

definition pn_allocator_allocz ::
  "malloc_fn \<Rightarrow> PNAllocator \<Rightarrow> u64 \<Rightarrow> u32 \<Rightarrow> (u64 \<times> PNAllocator \<times> (u64 \<times> u64)) res" where
  "pn_allocator_allocz malloc a sz align =
     rbind (pn_allocator_alloc malloc a sz align) (\<lambda>(p, a). Inr (p, a, (p, sz)))"

text \<open>
  \<open>pn_allocator_realloc_add\<close> returns the address of the added bytes and updates the pointer that
  was passed by reference: the result is the triple of the two and the allocator. The copy of the
  old bytes is \<open>(to, from, n)\<close> when the block moves.
\<close>

definition pn_allocator_realloc_add ::
  "malloc_fn \<Rightarrow> PNAllocator \<Rightarrow> u64 \<Rightarrow> u64 \<Rightarrow> u32
   \<Rightarrow> (u64 \<times> u64 \<times> (u64 \<times> u64 \<times> u64) option \<times> PNAllocator) res" where
  "pn_allocator_realloc_add malloc a p add_size align =
     (if p = 0 then
        rbind (pn_allocator_alloc malloc a add_size align) (\<lambda>(p, a). Inr (p, p, None, a))
      else if p \<noteq> last_alloc a then
        Inl (Fatal ''Attempting to realloc, but it was not the last allocation'')
      else case chunk_head a of
        [] \<Rightarrow> Inl (Assertion ''chunk'')
      | c # _ \<Rightarrow>
          let ret = chunk_current c; new_current = chunk_current c + add_size in
          rbind (ensure (new_current > chunk_current c) (Check ''new_current > chunk->current'')) (\<lambda>_.
          if new_current > chunk_end c then
            let old_size = chunk_current c - p; new_size = old_size + add_size in
            rbind (pn_allocator_new_chunk malloc a new_size align) (\<lambda>a.
            case chunk_head a of
              [] \<Rightarrow> Inl (Undefined ''null chunk'')
            | d # _ \<Rightarrow>
                rbind (ensure (chunk_current d + new_size \<le> chunk_end d)
                         (Assertion ''chunk->current + new_size <= chunk->end'')) (\<lambda>_.
                let q = chunk_current d; ret = q + old_size in
                rbind (commit_alloc a (ret + add_size) q add_size) (\<lambda>a.
                Inr (ret, q, Some (q, p, old_size), a))))
          else
            rbind (commit_alloc a new_current p add_size) (\<lambda>a. Inr (ret, p, None, a))))"

definition pn_allocator_last_alloc_size :: "PNAllocator \<Rightarrow> u64" where
  "pn_allocator_last_alloc_size a =
     (case chunk_head a of [] \<Rightarrow> 0 | c # _ \<Rightarrow> chunk_current c - last_alloc a)"

text \<open>The loop of \<open>pn_allocator_reset_to_mark\<close>, which frees chunks until the mark's is found.\<close>

fun free_until :: "u64 \<Rightarrow> PNAllocatorChunk list \<Rightarrow> PNAllocatorChunk list" where
  "free_until l [] = []"
| "free_until l (c # cs) = (if l \<ge> chunk_addr c \<and> l < chunk_end c then c # cs else free_until l cs)"

definition pn_allocator_reset_to_mark :: "PNAllocator \<Rightarrow> PNAllocatorMark \<Rightarrow> PNAllocator" where
  "pn_allocator_reset_to_mark a mark =
     a\<lparr>chunk_head := (case free_until (mark_last_alloc mark) (chunk_head a) of
                        [] \<Rightarrow> [] | c # cs \<Rightarrow> c\<lparr>chunk_current := mark_current mark\<rparr> # cs),
       last_alloc := mark_last_alloc mark,
       total_used := mark_total_used mark,
       internal_fragmentation := mark_internal_fragmentation mark\<rparr>"

definition pn_allocator_reset :: "PNAllocator \<Rightarrow> PNAllocator" where
  "pn_allocator_reset a = pn_allocator_reset_to_mark a (reset_mark a)"

section \<open>Invariant\<close>

definition chunks_disjoint :: "PNAllocatorChunk \<Rightarrow> PNAllocatorChunk \<Rightarrow> bool" where
  "chunks_disjoint c d \<longleftrightarrow> chunk_end c \<le> chunk_addr d \<or> chunk_end d \<le> chunk_addr c"

definition chunk_ok :: "PNAllocatorChunk \<Rightarrow> bool" where
  "chunk_ok c \<longleftrightarrow> 0 < chunk_addr c \<and> unat (chunk_addr c) + 24 \<le> unat (chunk_current c)
     \<and> chunk_current c \<le> chunk_end c \<and> unat (chunk_end c) \<le> 2 ^ 63"

definition alloc_inv :: "PNAllocator \<Rightarrow> bool" where
  "alloc_inv a \<longleftrightarrow> (\<forall>c \<in> set (chunk_head a). chunk_ok c) \<and> sorted_wrt chunks_disjoint (chunk_head a)
     \<and> min_chunk_size a \<le> 2 ^ 63"

text \<open>The bytes handed out so far (with the chunk headers).\<close>

definition used_bytes :: "PNAllocator \<Rightarrow> nat set" where
  "used_bytes a = (\<Union>c \<in> set (chunk_head a). {unat (chunk_addr c)..<unat (chunk_current c)})"

definition block :: "u64 \<Rightarrow> u64 \<Rightarrow> nat set" where
  "block p sz = {unat p..<unat p + unat sz}"

text \<open>
  What the allocator relies on of \<open>malloc\<close>: a block that is not null lies in the lower half of the
  address space (as user-space addresses do), is aligned for any object and overlaps no live block.
\<close>

definition malloc_ok :: "malloc_fn \<Rightarrow> bool" where
  "malloc_ok malloc \<longleftrightarrow> (\<forall>live n. malloc live n \<noteq> 0 \<longrightarrow>
     unat (malloc live n) + unat n \<le> 2 ^ 63 \<and> 16 dvd unat (malloc live n) \<and>
     (\<forall>c \<in> set live. unat (malloc live n) + unat n \<le> unat (chunk_addr c)
        \<or> chunk_end c \<le> malloc live n))"

section \<open>Arithmetic of a chunk\<close>

lemma pn_align_up_pointer_pow2:
  assumes "k < 32" and "unat p \<le> 2 ^ 63"
  shows "\<exists>r. pn_align_up_pointer p (2 ^ k) = Inr r \<and> unat r = (unat p + 2 ^ k - 1) div 2 ^ k * 2 ^ k"
proof -
  have uc: "ucast (2 ^ k :: u32) = (2 ^ k :: u64)"
    using assms(1) by (intro bit_word_eqI) (auto simp: bit_ucast_iff bit_exp_iff)
  have m: "unat (mask k :: u64) = 2 ^ k - 1" using assms(1) by (simp add: unat_mask_pow2)
  have k: "(2 :: nat) ^ k < 2 ^ 32" using assms(1) by (intro power_strict_increasing) auto
  have "unat p + unat (mask k :: u64) < 2 ^ LENGTH(64)" using assms(2) m k by simp
  then have u: "unat (p + mask k) = unat p + 2 ^ k - 1" using m by (simp add: unat_add_small)
  have "pn_align_up_pointer p (2 ^ k) = Inr (push_bit k (drop_bit k (p + mask k)))"
    unfolding pn_align_up_pointer_def assert_align_pow2 [OF assms(1)] uc rbind.simps pow2_minus_1
      and_not_mask [symmetric] by (simp add: pow2_minus_1 [symmetric] add_diff_eq)
  then show ?thesis using unat_push_drop [of k "p + mask k"] u by simp
qed

lemma align_up_pointer_bounds:
  assumes "pn_align_up_pointer p align = Inr r" and "unat p \<le> 2 ^ 63"
  shows "unat p \<le> unat r \<and> unat r < unat p + unat align \<and> unat align dvd unat r \<and> unat align < 2 ^ 32"
proof -
  from assms(1) obtain k where k: "k < 32" "align = 2 ^ k"
    using assert_align_Inr by (auto simp: pn_align_up_pointer_def res_simps)
  with pn_align_up_pointer_pow2 [OF k(1) assms(2)] assms(1)
  have r: "unat r = (unat p + 2 ^ k - 1) div 2 ^ k * 2 ^ k" by auto
  have al: "unat align = 2 ^ k" using k by (simp add: unat_pow2)
  have "(2 :: nat) ^ k < 2 ^ 32" using k(1) by (intro power_strict_increasing) auto
  with round_up_bounds [of "2 ^ k" "unat p"] r al show ?thesis by simp
qed

lemma pn_next_power_of_two_1: "\<exists>k<64. (1 :: u64) = 2 ^ k"
  by (intro exI [of _ 0]) simp

lemma next_power_ge: "pn_next_power_of_two v = Some r \<Longrightarrow> v \<le> r"
  using pn_next_power_of_two_1 next_power_loop_result [of v 1 r]
  by (simp add: pn_next_power_of_two_def)

lemma wanted_size:
  assumes "sz < (0x80000000 :: u64)"
  shows "unat (sz + 24 + ucast (align :: u32) - 1) = unat sz + 24 + unat align - 1"
proof -
  have z: "unat sz < 2 ^ 31" using assms by (simp add: word_less_nat_alt)
  have al: "unat align < 2 ^ 32" using unat_bound [of align] by simp
  have ua: "unat (ucast align :: u64) = unat align" by (simp add: unat_ucast_up)
  have 1: "unat (sz + 24) = unat sz + 24" using z unat_add_small [of sz 24] by simp
  have 2: "unat (sz + 24 + ucast align) = unat sz + 24 + unat align"
    using z al unat_add_small [of "sz + 24" "ucast align"] by (simp add: 1 ua)
  have "unat (sz + 24 + ucast align - 1) = unat (sz + 24 + ucast align) - unat (1 :: u64)"
    using 2 by (intro unat_sub) (simp add: word_le_nat_alt)
  then show ?thesis by (simp add: 2)
qed

lemma pn_allocator_new_chunk_ok:
  assumes mal: "malloc_ok malloc" and inv: "alloc_inv a"
    and res: "pn_allocator_new_chunk malloc a sz align = Inr a'"
  shows "\<exists>d. chunk_head a' = d # chunk_head a \<and> chunk_ok d
    \<and> (\<forall>c \<in> set (chunk_head a). chunks_disjoint d c)
    \<and> unat align dvd unat (chunk_current d) \<and> unat (chunk_current d) + unat sz \<le> unat (chunk_end d)
    \<and> last_alloc a' = last_alloc a \<and> min_chunk_size a' = min_chunk_size a
    \<and> total_used a' = total_used a \<and> reset_mark a' = reset_mark a \<and> alloc_name a' = alloc_name a"
proof -
  let ?want = "sz + 24 + ucast align - 1"
  from res obtain csz chunk cur where
    sz: "sz < 0x80000000" and
    csz: "pn_next_power_of_two (pn_max ?want (min_chunk_size a)) = Some csz" and
    chunk: "malloc (chunk_head a) csz = chunk" "chunk \<noteq> 0" and
    cur: "pn_align_up_pointer (chunk + 24) align = Inr cur" and
    a': "chunk_head a' = \<lparr>chunk_addr = chunk, chunk_current = cur, chunk_end = chunk + csz\<rparr> # chunk_head a"
      "last_alloc a' = last_alloc a" "min_chunk_size a' = min_chunk_size a"
      "total_used a' = total_used a" "reset_mark a' = reset_mark a" "alloc_name a' = alloc_name a"
    by (auto simp: pn_allocator_new_chunk_def pn_malloc_def res_simps Let_def split: option.splits if_splits)
  from mal chunk have m: "unat chunk + unat csz \<le> 2 ^ 63"
    "\<forall>c \<in> set (chunk_head a). unat chunk + unat csz \<le> unat (chunk_addr c) \<or> chunk_end c \<le> chunk"
    unfolding malloc_ok_def by blast+
  have e: "unat (chunk + csz) = unat chunk + unat csz" using m(1) by (intro unat_add_small) simp
  have "?want \<le> csz" using next_power_ge [OF csz] by (auto simp: pn_max_def split: if_splits)
  moreover have al: "0 < unat align" "unat align < 2 ^ 32"
  proof -
    from cur obtain k where k: "k < 32" "align = 2 ^ k"
      using assert_align_Inr by (auto simp: pn_align_up_pointer_def res_simps)
    then have "unat align = 2 ^ k" by (simp add: unat_pow2)
    then show "0 < unat align" by simp
    show "unat align < 2 ^ 32" using unat_bound [of align] by simp
  qed
  moreover note wanted_size [OF sz, of align]
  ultimately have cs: "unat sz + 24 + unat align - 1 \<le> unat csz" by (simp add: word_le_nat_alt)
  have c24: "unat (chunk + 24) = unat chunk + 24"
    using m(1) cs al unat_add_small [of chunk 24] by simp
  have "unat (chunk + 24) \<le> 2 ^ 63" using c24 m(1) cs al by linarith
  from align_up_pointer_bounds [OF cur this] c24
  have b: "unat chunk + 24 \<le> unat cur" "unat cur < unat chunk + 24 + unat align" "unat align dvd unat cur"
    by simp_all
  have "chunk_ok \<lparr>chunk_addr = chunk, chunk_current = cur, chunk_end = chunk + csz\<rparr>"
    using b cs e m(1) chunk(2) by (simp add: chunk_ok_def word_le_nat_alt word_gt_0)
  moreover have "\<forall>c \<in> set (chunk_head a).
      chunks_disjoint \<lparr>chunk_addr = chunk, chunk_current = cur, chunk_end = chunk + csz\<rparr> c"
    using m(2) e by (simp add: chunks_disjoint_def word_le_nat_alt)
  moreover have "unat cur + unat sz \<le> unat (chunk + csz)" using b cs e by linarith
  ultimately show ?thesis using a' b(3) by auto
qed

section \<open>The effect of an allocation on the chunk list\<close>

definition same_bounds :: "PNAllocatorChunk \<Rightarrow> PNAllocatorChunk \<Rightarrow> bool" where
  "same_bounds c d \<longleftrightarrow> chunk_addr c = chunk_addr d \<and> chunk_end c = chunk_end d"

text \<open>
  An allocation only adds chunks in front of the list and moves the \<open>current\<close> of the chunk that was
  its head.
\<close>

definition extends :: "PNAllocator \<Rightarrow> PNAllocator \<Rightarrow> bool" where
  "extends a a' \<longleftrightarrow> alloc_name a' = alloc_name a \<and> min_chunk_size a' = min_chunk_size a
     \<and> reset_mark a' = reset_mark a
     \<and> (\<exists>ds es. chunk_head a' = ds @ es \<and> list_all2 same_bounds (chunk_head a) es
          \<and> tl es = tl (chunk_head a))"

lemma same_bounds_refl [simp]: "same_bounds c c"
  by (simp add: same_bounds_def)

lemma list_all2_same_bounds_refl [simp]: "list_all2 same_bounds cs cs"
  by (simp add: list_all2_refl)

lemma list_all2_same_bounds_trans:
  "list_all2 same_bounds xs ys \<Longrightarrow> list_all2 same_bounds ys zs \<Longrightarrow> list_all2 same_bounds xs zs"
  using list_all2_trans [of same_bounds same_bounds same_bounds xs ys zs] by (auto simp: same_bounds_def)

lemma extends_refl [simp]: "extends a a"
  unfolding extends_def by (intro conjI exI [where x = "[]"] exI [where x = "chunk_head a"]) simp_all

lemma extends_trans:
  assumes "extends a b" and "extends b c"
  shows "extends a c"
proof -
  from assms(1) obtain ds es where 1: "chunk_head b = ds @ es"
    "list_all2 same_bounds (chunk_head a) es" "tl es = tl (chunk_head a)"
    unfolding extends_def by blast
  from assms(2) obtain ds' es' where 2: "chunk_head c = ds' @ es'"
    "list_all2 same_bounds (chunk_head b) es'" "tl es' = tl (chunk_head b)"
    unfolding extends_def by blast
  have "\<exists>ds es. chunk_head c = ds @ es \<and> list_all2 same_bounds (chunk_head a) es
      \<and> tl es = tl (chunk_head a)"
  proof (cases ds)
    case Nil
    with 1 2 show ?thesis by (metis append_Nil list_all2_same_bounds_trans)
  next
    case (Cons d ds0)
    with 1 2 obtain d' where "es' = d' # ds0 @ es"
      by (cases es') auto
    with 1 2 show ?thesis by (metis append_Cons append_assoc)
  qed
  with assms show ?thesis unfolding extends_def by simp
qed

lemma extends_new_chunk:
  "chunk_head a' = d # chunk_head a \<Longrightarrow> alloc_name a' = alloc_name a \<Longrightarrow>
   min_chunk_size a' = min_chunk_size a \<Longrightarrow> reset_mark a' = reset_mark a \<Longrightarrow> extends a a'"
  unfolding extends_def by (intro conjI exI [where x = "[d]"] exI [where x = "chunk_head a"]) simp_all

lemma commit_alloc_extends:
  "commit_alloc a n r sz = Inr a' \<Longrightarrow> extends a a'"
  unfolding extends_def
  by (intro conjI exI [where x = "[]"] exI [where x = "chunk_head a'"])
    (auto simp: commit_alloc_def same_bounds_def split: list.splits)

lemma commit_alloc_inv:
  assumes "alloc_inv a" and "chunk_head a = c # cs" and "commit_alloc a n r sz = Inr a'"
    and "chunk_current c \<le> n" and "n \<le> chunk_end c"
  shows "alloc_inv a'"
proof -
  have "chunk_ok (c\<lparr>chunk_current := n\<rparr>)"
    using assms(1,2,4,5) by (auto simp: alloc_inv_def chunk_ok_def word_le_nat_alt)
  with assms(1-3) show ?thesis
    by (auto simp: alloc_inv_def commit_alloc_def chunks_disjoint_def)
qed

text \<open>A successful allocation returns a block inside the head chunk, above what was in use.\<close>

definition alloc_result :: "PNAllocator \<Rightarrow> u64 \<Rightarrow> u64 \<Rightarrow> u32 \<Rightarrow> PNAllocator \<Rightarrow> bool" where
  "alloc_result a p sz align a' \<longleftrightarrow> alloc_inv a' \<and> extends a a' \<and> last_alloc a' = p
     \<and> unat align dvd unat p \<and> block p sz \<subseteq> used_bytes a' \<and> block p sz \<inter> used_bytes a = {}
     \<and> used_bytes a \<subseteq> used_bytes a' \<and> total_used a' = total_used a + sz"

lemma used_bytes_commit:
  assumes "chunk_head a = c # cs" and "commit_alloc a n r sz = Inr a'"
  shows "used_bytes a' = {unat (chunk_addr c)..<unat n}
    \<union> (\<Union>d \<in> set cs. {unat (chunk_addr d)..<unat (chunk_current d)})"
  using assms by (auto simp: used_bytes_def commit_alloc_def)

lemma alloc_in_head:
  assumes inv: "alloc_inv a" and hd: "chunk_head a = c # cs"
    and ret: "chunk_current c \<le> ret" "unat align dvd unat ret" "ret \<le> ret + sz" "ret + sz \<le> chunk_end c"
    and com: "commit_alloc a (ret + sz) ret sz = Inr a'"
  shows "alloc_result a ret sz align a'"
proof -
  have cok: "chunk_ok c" and dis: "\<forall>d \<in> set cs. chunks_disjoint c d" "\<forall>d \<in> set cs. chunk_ok d"
    using inv hd by (auto simp: alloc_inv_def)
  have sum: "unat (ret + sz) = unat ret + unat sz"
  proof (rule unat_add_small)
    show "unat ret + unat sz < 2 ^ LENGTH(64)"
      using ret(3) by (metis no_olen_add_nat word_le_nat_alt)
  qed
  have le: "chunk_current c \<le> ret + sz" using ret(1,3) by (rule order_trans)
  have inv': "alloc_inv a'" using inv hd com le ret(4) by (rule commit_alloc_inv)
  note ub' = used_bytes_commit [OF hd com]
  have ub: "used_bytes a = {unat (chunk_addr c)..<unat (chunk_current c)}
    \<union> (\<Union>d \<in> set cs. {unat (chunk_addr d)..<unat (chunk_current d)})"
    by (simp add: used_bytes_def hd)
  have lo: "unat (chunk_addr c) \<le> unat ret" "unat (chunk_current c) \<le> unat ret"
    "unat ret + unat sz \<le> unat (chunk_end c)"
    using cok ret(1,4) sum by (auto simp: chunk_ok_def word_le_nat_alt)
  have out: "block ret sz \<inter> {unat (chunk_addr d)..<unat (chunk_current d)} = {}" if "d \<in> set cs" for d
  proof -
    have "chunk_ok d" "chunks_disjoint c d" using dis that by blast+
    then have "unat (chunk_current d) \<le> unat (chunk_end d)"
      "unat (chunk_end c) \<le> unat (chunk_addr d) \<or> unat (chunk_end d) \<le> unat (chunk_addr c)"
      by (simp_all add: chunk_ok_def chunks_disjoint_def word_le_nat_alt)
    with lo show ?thesis by (auto simp: block_def)
  qed
  have "block ret sz \<inter> {unat (chunk_addr c)..<unat (chunk_current c)} = {}"
    using lo(2) by (auto simp: block_def)
  with out have "block ret sz \<inter> used_bytes a = {}" unfolding ub by blast
  moreover have "block ret sz \<subseteq> used_bytes a'"
    unfolding ub' using lo(1) sum by (auto simp: block_def)
  moreover have "used_bytes a \<subseteq> used_bytes a'"
    unfolding ub ub' using le by (auto simp: word_le_nat_alt)
  moreover have "last_alloc a' = ret" "total_used a' = total_used a + sz"
    using com hd by (auto simp: commit_alloc_def)
  ultimately show ?thesis
    unfolding alloc_result_def using inv' commit_alloc_extends [OF com] ret(2) by simp
qed


lemma new_chunk_facts:
  assumes "malloc_ok malloc" and "alloc_inv a" and "pn_allocator_new_chunk malloc a sz align = Inr b"
  obtains d where "chunk_head b = d # chunk_head a" "alloc_inv b" "extends a b" "used_bytes a \<subseteq> used_bytes b"
    "unat align dvd unat (chunk_current d)" "unat (chunk_current d) + unat sz \<le> unat (chunk_end d)"
    "unat (chunk_end d) \<le> 2 ^ 63" "total_used b = total_used a" "chunk_current d \<le> chunk_end d"
proof -
  from pn_allocator_new_chunk_ok [OF assms] obtain d where d: "chunk_head b = d # chunk_head a" "chunk_ok d"
    "\<forall>c \<in> set (chunk_head a). chunks_disjoint d c" "unat align dvd unat (chunk_current d)"
    "unat (chunk_current d) + unat sz \<le> unat (chunk_end d)" "min_chunk_size b = min_chunk_size a"
    "total_used b = total_used a" "reset_mark b = reset_mark a" "alloc_name b = alloc_name a"
    by blast
  have "alloc_inv b" using d assms(2) by (auto simp: alloc_inv_def)
  moreover have "used_bytes a \<subseteq> used_bytes b" using d(1) by (auto simp: used_bytes_def)
  moreover have "unat (chunk_end d) \<le> 2 ^ 63" "chunk_current d \<le> chunk_end d"
    using d(2) by (simp_all add: chunk_ok_def)
  ultimately show thesis
    using that d(1,4,5,7) extends_new_chunk [OF d(1,9,6,8)] by blast
qed

lemma head_chunk_bounds:
  assumes "alloc_inv a" and "chunk_head a = c # cs"
  shows "unat (chunk_current c) \<le> 2 ^ 63" "unat (chunk_end c) \<le> 2 ^ 63"
    "chunk_current c \<le> chunk_end c"
  using assms by (auto simp: alloc_inv_def chunk_ok_def word_le_nat_alt)

lemma alloc_in_new_chunk_result:
  assumes mal: "malloc_ok malloc" and inv: "alloc_inv a"
    and res: "alloc_in_new_chunk malloc a sz align = Inr (p, a')"
  shows "alloc_result a p sz align a'"
proof -
  from res obtain b where b: "pn_allocator_new_chunk malloc a sz align = Inr b"
    by (auto simp: alloc_in_new_chunk_def res_simps)
  from new_chunk_facts [OF mal inv b] obtain d where d: "chunk_head b = d # chunk_head a" "alloc_inv b"
    "extends a b" "used_bytes a \<subseteq> used_bytes b" "unat (chunk_end d) \<le> 2 ^ 63"
    "total_used b = total_used a" "chunk_current d \<le> chunk_end d" by metis
  from res b d(1) have r: "pn_align_up_pointer (chunk_current d) align = Inr p" "p \<le> p + sz"
    "p + sz \<le> chunk_end d" "commit_alloc b (p + sz) p sz = Inr a'"
    by (auto simp: alloc_in_new_chunk_def res_simps)
  have "unat (chunk_current d) \<le> 2 ^ 63" using d(5,7) by (simp add: word_le_nat_alt)
  with align_up_pointer_bounds [OF r(1)] have "chunk_current d \<le> p" "unat align dvd unat p"
    by (simp_all add: word_le_nat_alt)
  with alloc_in_head [OF d(2,1) _ _ r(2,3,4)] have "alloc_result b p sz align a'" by blast
  with d show ?thesis unfolding alloc_result_def by (auto intro: extends_trans)
qed

lemma alloc_result_ok:
  assumes mal: "malloc_ok malloc" and inv: "alloc_inv a"
    and res: "pn_allocator_alloc malloc a sz align = Inr (p, a')"
  shows "alloc_result a p sz align a'"
proof (cases "alloc_in_new_chunk malloc a sz align = Inr (p, a')")
  case True
  with mal inv show ?thesis by (rule alloc_in_new_chunk_result)
next
  case False
  with res obtain c cs where c: "chunk_head a = c # cs" by (auto simp: pn_allocator_alloc_def split: list.splits)
  with res False have r: "pn_align_up_pointer (chunk_current c) align = Inr p" "p \<le> p + sz"
    "p + sz \<le> chunk_end c" "commit_alloc a (p + sz) p sz = Inr a'"
    by (auto simp: pn_allocator_alloc_def res_simps split: if_splits)
  from align_up_pointer_bounds [OF r(1)] head_chunk_bounds [OF inv c]
  have "chunk_current c \<le> p" "unat align dvd unat p" by (simp_all add: word_le_nat_alt)
  with alloc_in_head [OF inv c _ _ r(2,3,4)] show ?thesis by blast
qed

section \<open>Allocation succeeds when the host has memory\<close>

text \<open>The host has the memory for the chunk that an allocation would ask it for.\<close>

definition host_serves :: "malloc_fn \<Rightarrow> PNAllocator \<Rightarrow> u64 \<Rightarrow> u32 \<Rightarrow> bool" where
  "host_serves malloc a sz align =
     (case pn_next_power_of_two (pn_max (sz + 24 + ucast align - 1) (min_chunk_size a)) of
        None \<Rightarrow> True | Some n \<Rightarrow> malloc (chunk_head a) n \<noteq> 0)"

lemma align_up_aligned:
  assumes "k < 32" and "unat p \<le> 2 ^ 63" and "2 ^ k dvd unat p"
  shows "pn_align_up_pointer p (2 ^ k) = Inr p"
proof -
  from pn_align_up_pointer_pow2 [OF assms(1,2)] obtain r where
    r: "pn_align_up_pointer p (2 ^ k) = Inr r" "unat r = (unat p + 2 ^ k - 1) div 2 ^ k * 2 ^ k" by blast
  from assms(3) obtain q where "unat p = 2 ^ k * q" by (auto elim: dvdE)
  moreover have "(2 ^ k * q + 2 ^ k - 1) div 2 ^ k = q"
  proof -
    obtain m where "(2 :: nat) ^ k = Suc m" by (metis not0_implies_Suc power_not_zero zero_neq_numeral)
    then show ?thesis by (intro div_nat_eqI) simp_all
  qed
  ultimately have "unat r = unat p" using r(2) by simp
  with r(1) show ?thesis by (simp add: word_unat_eq_iff)
qed

lemma unat_numeral_8: "unat (8 :: u64) = 8"
  by simp

lemma malloc_ok_aligned:
  assumes "malloc_ok malloc" and "malloc live n \<noteq> 0"
  shows "pn_is_aligned_pointer (malloc live n) 8 = Inr True"
proof -
  have "16 dvd unat (malloc live n)" using assms by (auto simp: malloc_ok_def)
  then have "8 dvd unat (malloc live n)" by (rule dvd_trans [rotated]) simp
  moreover have "malloc live n mod 8 = malloc live n AND 7"
    using take_bit_eq_mask [of 3 "malloc live n"] by (simp add: mask_eq_exp_minus_1 take_bit_eq_mod)
  then have "unat (malloc live n AND 7) = unat (malloc live n) mod 8" by (metis unat_mod unat_numeral_8)
  ultimately have "unat (malloc live n AND 7) = 0" by (simp add: mod_eq_0_iff_dvd)
  then have "malloc live n AND 7 = 0" by (simp add: unat_eq_0)
  then show ?thesis using assert_align_pow2 [of 3] by (simp add: pn_is_aligned_pointer_def)
qed


lemma new_chunk_succeeds:
  assumes mal: "malloc_ok malloc" "host_serves malloc a sz (2 ^ k)" and inv: "alloc_inv a"
    and sz: "sz < 0x80000000" and k: "k < 32"
  shows "\<exists>b. pn_allocator_new_chunk malloc a sz (2 ^ k) = Inr b"
proof -
  let ?v = "pn_max (sz + 24 + ucast (2 ^ k :: u32) - 1) (min_chunk_size a)"
  note want = wanted_size [OF sz, of "2 ^ k"]
  have z: "unat sz < 2 ^ 31" using sz by (simp add: word_less_nat_alt)
  have p: "0 < unat (2 ^ k :: u32)" "unat (2 ^ k :: u32) < 2 ^ 32"
    using k unat_bound [of "2 ^ k :: u32"] by (simp_all add: unat_pow2)
  have "unat (sz + 24 + ucast (2 ^ k :: u32) - 1) \<le> 2 ^ 63" using p z unfolding want by simp
  then have "?v \<le> 2 ^ 63" using inv by (simp only: pn_max_def alloc_inv_def word_le_nat_alt) simp
  with next_power_loop_returns [of ?v 0] obtain c where c: "pn_next_power_of_two ?v = Some c"
    by (auto simp: pn_next_power_of_two_def)
  let ?m = "malloc (chunk_head a) c"
  have nz: "?m \<noteq> 0" using mal(2) c by (simp add: host_serves_def)
  have "unat ?m + unat c \<le> 2 ^ 63" using mal(1) nz unfolding malloc_ok_def by blast
  moreover have "24 \<le> unat c"
  proof -
    have "sz + 24 + ucast (2 ^ k :: u32) - 1 \<le> c"
      using next_power_ge [OF c] by (auto simp: pn_max_def split: if_splits)
    then have "unat (sz + 24 + ucast (2 ^ k :: u32) - 1) \<le> unat c" by (simp only: word_le_nat_alt)
    then show ?thesis using p unfolding want by linarith
  qed
  ultimately have "unat (?m + 24) \<le> 2 ^ 63" using unat_add_small [of ?m 24] by simp
  with pn_align_up_pointer_pow2 [OF k] obtain cur where "pn_align_up_pointer (?m + 24) (2 ^ k) = Inr cur"
    by blast
  moreover have "pn_is_aligned_pointer ?m 8 = Inr True" using mal(1) nz by (rule malloc_ok_aligned)
  ultimately show ?thesis
    using nz sz c by (simp add: pn_allocator_new_chunk_def pn_malloc_def Let_def)
qed


text \<open>The assertion after a new chunk never fails: the chunk was sized for the block.\<close>

lemma alloc_in_new_chunk_succeeds:
  assumes mal: "malloc_ok malloc" "host_serves malloc a sz (2 ^ k)" and inv: "alloc_inv a"
    and sz: "sz < 0x80000000" and k: "k < 32"
  shows "is_ok (alloc_in_new_chunk malloc a sz (2 ^ k))"
proof -
  from new_chunk_succeeds [OF assms] obtain b where b: "pn_allocator_new_chunk malloc a sz (2 ^ k) = Inr b" ..
  from new_chunk_facts [OF mal(1) inv b] obtain d where d: "chunk_head b = d # chunk_head a"
    "unat (2 ^ k :: u32) dvd unat (chunk_current d)"
    "unat (chunk_current d) + unat sz \<le> unat (chunk_end d)" "unat (chunk_end d) \<le> 2 ^ 63" by metis
  have "pn_align_up_pointer (chunk_current d) (2 ^ k) = Inr (chunk_current d)"
    using d k by (intro align_up_aligned) (auto simp: unat_pow2)
  moreover have "unat (chunk_current d + sz) = unat (chunk_current d) + unat sz"
    using d(3,4) by (intro unat_add_small) simp
  ultimately show ?thesis
    using b d(1,3) by (simp add: alloc_in_new_chunk_def commit_alloc_def word_le_nat_alt)
qed

lemma alloc_succeeds:
  assumes mal: "malloc_ok malloc" "host_serves malloc a sz (2 ^ k)" and inv: "alloc_inv a"
    and sz: "sz < 0x80000000" and k: "k < 32"
  shows "is_ok (pn_allocator_alloc malloc a sz (2 ^ k))"
proof (cases "chunk_head a")
  case Nil
  with alloc_in_new_chunk_succeeds [OF assms] show ?thesis by (simp add: pn_allocator_alloc_def)
next
  case (Cons c cs)
  note hb = head_chunk_bounds [OF inv Cons]
  from pn_align_up_pointer_pow2 [OF k hb(1)] obtain r where
    r: "pn_align_up_pointer (chunk_current c) (2 ^ k) = Inr r" by blast
  have "unat r < 2 ^ 63 + 2 ^ 32" using align_up_pointer_bounds [OF r hb(1)] hb(1) by linarith
  then have "unat (r + sz) = unat r + unat sz"
    using sz by (intro unat_add_small) (simp add: word_less_nat_alt)
  with r Cons alloc_in_new_chunk_succeeds [OF assms] show ?thesis
    by (simp add: pn_allocator_alloc_def commit_alloc_def word_le_nat_alt)
qed

section \<open>Growing the last allocation\<close>

lemma realloc_grows:
  assumes mal: "malloc_ok malloc" and inv: "alloc_inv a" and p: "p \<noteq> 0"
    and res: "pn_allocator_realloc_add malloc a p add align = Inr (ret, q, cp, a')"
  shows "alloc_inv a' \<and> extends a a' \<and> last_alloc a' = q \<and> ret = q + pn_allocator_last_alloc_size a
    \<and> pn_allocator_last_alloc_size a' = pn_allocator_last_alloc_size a + add
    \<and> total_used a' = total_used a + add
    \<and> (cp = None \<and> q = p \<or> cp = Some (q, p, pn_allocator_last_alloc_size a))"
proof -
  from res p obtain c cs where c: "chunk_head a = c # cs" and l: "p = last_alloc a"
    by (auto simp: pn_allocator_realloc_add_def split: if_splits list.splits)
  let ?n = "chunk_current c + add"
  let ?old = "chunk_current c - p"
  have old: "pn_allocator_last_alloc_size a = ?old" using c l by (simp add: pn_allocator_last_alloc_size_def)
  show ?thesis
  proof (cases "?n > chunk_end c")
    case False
    with res p c l have r: "?n > chunk_current c" "commit_alloc a ?n p add = Inr a'" "ret = chunk_current c"
      "q = p" "cp = None"
      by (auto simp: pn_allocator_realloc_add_def res_simps Let_def split: if_splits)
    then have "alloc_inv a'" using commit_alloc_inv [OF inv c r(2)] False by simp
    with r c l commit_alloc_extends [OF r(2)] show ?thesis
      by (auto simp: commit_alloc_def pn_allocator_last_alloc_size_def)
  next
    case True
    with res p c l obtain b d ds where
      b: "pn_allocator_new_chunk malloc a (?old + add) align = Inr b" and
      d: "chunk_head b = d # ds" "ret = chunk_current d + ?old" "q = chunk_current d"
        "cp = Some (q, p, ?old)" "commit_alloc b (ret + add) q add = Inr a'"
      by (auto simp: pn_allocator_realloc_add_def res_simps Let_def split: if_splits)
    from new_chunk_facts [OF mal inv b] d(1) have f: "alloc_inv b" "extends a b"
      "unat (chunk_current d) + unat (?old + add) \<le> unat (chunk_end d)" "unat (chunk_end d) \<le> 2 ^ 63"
      "total_used b = total_used a"
      by (metis list.inject)+
    have "unat (chunk_current d + (?old + add)) = unat (chunk_current d) + unat (?old + add)"
      using f(3,4) by (intro unat_add_small) simp
    then have "chunk_current d \<le> ret + add" "ret + add \<le> chunk_end d"
      using f(3) d(2) by (simp_all add: word_le_nat_alt add.assoc)
    with commit_alloc_inv [OF f(1) d(1,5)] have "alloc_inv a'" by blast
    moreover have "extends a a'" using f(2) commit_alloc_extends [OF d(5)] by (rule extends_trans)
    ultimately show ?thesis
      using d f(5) unfolding old by (auto simp: commit_alloc_def pn_allocator_last_alloc_size_def)
  qed
qed

section \<open>Histories and resetting\<close>

inductive alloc_steps :: "malloc_fn \<Rightarrow> PNAllocator \<Rightarrow> PNAllocator \<Rightarrow> bool" for malloc where
  refl: "alloc_steps malloc a a"
| alloc: "alloc_steps malloc a b \<Longrightarrow> pn_allocator_alloc malloc b sz align = Inr (p, c)
    \<Longrightarrow> alloc_steps malloc a c"
| realloc: "alloc_steps malloc a b \<Longrightarrow> pn_allocator_realloc_add malloc b p add align = Inr (r, q, cp, c)
    \<Longrightarrow> alloc_steps malloc a c"

lemma alloc_steps_extends:
  assumes "malloc_ok malloc" and "alloc_steps malloc a b" and "alloc_inv a"
  shows "alloc_inv b \<and> extends a b"
  using assms(2,3)
proof (induction rule: alloc_steps.induct)
  case (refl a)
  then show ?case by simp
next
  case (alloc a b sz align p c)
  then have "alloc_result b p sz align c" using assms(1) alloc_result_ok by blast
  with alloc show ?case by (auto simp: alloc_result_def intro: extends_trans)
next
  case (realloc a b p add align r q cp c)
  have "alloc_inv c \<and> extends b c"
  proof (cases "p = 0")
    case True
    with realloc(2) obtain p' where "pn_allocator_alloc malloc b add align = Inr (p', c)"
      by (auto simp: pn_allocator_realloc_add_def res_simps)
    with realloc assms(1) alloc_result_ok show ?thesis by (metis alloc_result_def)
  next
    case False
    with realloc assms(1) realloc_grows show ?thesis by blast
  qed
  with realloc show ?case by (auto intro: extends_trans)
qed

text \<open>The last allocation lies strictly inside the head chunk, or nothing was allocated.\<close>

definition last_alloc_inside :: "PNAllocator \<Rightarrow> bool" where
  "last_alloc_inside a = (case chunk_head a of [] \<Rightarrow> last_alloc a = 0
     | c # _ \<Rightarrow> chunk_addr c \<le> last_alloc a \<and> last_alloc a < chunk_end c)"

lemma pn_allocator_mark_fields [simp]:
  "mark_last_alloc (pn_allocator_mark a) = last_alloc a"
  "mark_total_used (pn_allocator_mark a) = total_used a"
  "mark_internal_fragmentation (pn_allocator_mark a) = internal_fragmentation a"
  by (simp_all add: pn_allocator_mark_def)

lemma free_until_skip:
  "\<forall>d \<in> set ds. \<not> (chunk_addr d \<le> l \<and> l < chunk_end d) \<Longrightarrow> free_until l (ds @ cs) = free_until l cs"
  by (induction ds) auto

lemma reset_restores_chunks:
  assumes inv: "alloc_inv b" and ext: "extends a b" and ins: "last_alloc_inside a"
  shows "pn_allocator_reset_to_mark b (pn_allocator_mark a) = a"
proof -
  from ext obtain ds es where e: "chunk_head b = ds @ es" "list_all2 same_bounds (chunk_head a) es"
    "tl es = tl (chunk_head a)" "alloc_name b = alloc_name a" "min_chunk_size b = min_chunk_size a"
    "reset_mark b = reset_mark a" by (auto simp: extends_def)
  have "(case free_until (last_alloc a) (chunk_head b) of [] \<Rightarrow> []
      | c # cs \<Rightarrow> c\<lparr>chunk_current := mark_current (pn_allocator_mark a)\<rparr> # cs) = chunk_head a"
  proof (cases "chunk_head a")
    case Nil
    with ins e have "last_alloc a = 0" "es = []" by (simp_all add: last_alloc_inside_def)
    moreover have "\<forall>d \<in> set (chunk_head b). 0 < chunk_addr d" using inv by (auto simp: alloc_inv_def chunk_ok_def)
    ultimately have "free_until (last_alloc a) (chunk_head b @ []) = free_until (last_alloc a) []"
      by (intro free_until_skip) auto
    with Nil show ?thesis by simp
  next
    case (Cons c cs)
    with e obtain c' where es: "es = c' # cs" "same_bounds c c'" by (cases es) auto
    have l: "chunk_addr c' \<le> last_alloc a" "last_alloc a < chunk_end c'"
      using ins Cons es by (simp_all add: last_alloc_inside_def same_bounds_def)
    have "\<forall>d \<in> set ds. chunks_disjoint d c'"
      using inv e(1) es by (auto simp: alloc_inv_def sorted_wrt_append)
    with l have "free_until (last_alloc a) (chunk_head b) = free_until (last_alloc a) es"
      unfolding e(1) by (intro free_until_skip) (auto simp: chunks_disjoint_def)
    with es l Cons show ?thesis by (simp add: pn_allocator_mark_def same_bounds_def)
  qed
  then show ?thesis
    using e(4-6) by (intro PNAllocator.equality) (simp_all add: pn_allocator_reset_to_mark_def)
qed

text \<open>Otherwise the chunk of the mark is freed, or a later one is taken for it.\<close>

lemma free_until_suffix: "\<exists>xs. cs = xs @ free_until l cs"
  by (induction cs) (auto intro: exI[of _ "_ # _"])

lemma reset_loses_chunks:
  assumes ext: "extends a b" and head: "chunk_head a \<noteq> []" and out: "\<not> last_alloc_inside a"
  shows "length (chunk_head (pn_allocator_reset_to_mark b (pn_allocator_mark a))) \<noteq> length (chunk_head a)"
proof
  let ?l = "last_alloc a"
  assume "length (chunk_head (pn_allocator_reset_to_mark b (pn_allocator_mark a))) = length (chunk_head a)"
  then have len: "length (free_until ?l (chunk_head b)) = length (chunk_head a)"
    by (simp add: pn_allocator_reset_to_mark_def split: list.splits)
  from ext obtain ds es where e: "chunk_head b = ds @ es" "list_all2 same_bounds (chunk_head a) es" by (auto simp: extends_def)
  then have "length es = length (chunk_head a)" by (simp add: list_all2_lengthD)
  moreover obtain xs where "ds @ es = xs @ free_until ?l (chunk_head b)" using free_until_suffix[of "chunk_head b" ?l] e(1) by auto
  ultimately have same: "free_until ?l (chunk_head b) = es" using len by (simp add: append_eq_append_conv)
  obtain c cs c' cs' where c: "chunk_head a = c # cs" "es = c' # cs'" "same_bounds c c'"
    using head e(2) by (cases "chunk_head a"; cases es) auto
  have "chunk_addr d \<le> ?l \<and> ?l < chunk_end d" if "free_until ?l xs = d # ys" for xs d ys
    using that by (induction xs) (auto split: if_splits)
  from this[OF same[unfolded c(2)]] out c(1,3) show False by (simp add: last_alloc_inside_def same_bounds_def)
qed

section \<open>A concrete host\<close>

text \<open>A host that serves each request above the chunks that are live, for use in the witnesses.\<close>

definition bump_malloc :: malloc_fn where
  "bump_malloc live n =
     (let top = fold (\<lambda>c m. max m (unat (chunk_end c))) live 4096; p = (top + 15) div 16 * 16 in
      if p + unat n \<le> 2 ^ 63 then of_nat p else 0)"

lemma fold_max_ge:
  "m \<le> fold (\<lambda>c m. max m (f c)) cs (m :: nat)" "c \<in> set cs \<Longrightarrow> f c \<le> fold (\<lambda>c m. max m (f c)) cs m"
proof (induction cs arbitrary: m)
  case (Cons d cs)
  { case 1 show ?case using Cons(1) [of "max m (f d)"] by simp
  next
    case 2 then show ?case using Cons(1) [of "max m (f d)"] Cons(2) [of "max m (f d)"] by auto }
qed simp_all

lemma malloc_ok_bump: "malloc_ok bump_malloc"
  unfolding malloc_ok_def
proof (intro allI impI)
  fix live :: "PNAllocatorChunk list" and n
  let ?top = "fold (\<lambda>c m. max m (unat (chunk_end c))) live 4096"
  let ?p = "(?top + 15) div 16 * 16"
  assume "bump_malloc live n \<noteq> 0"
  then have p: "?p + unat n \<le> 2 ^ 63" "bump_malloc live n = of_nat ?p"
    by (auto simp: bump_malloc_def Let_def split: if_splits)
  have u: "unat (bump_malloc live n) = ?p" unfolding p(2) using p(1) by (intro unat_of_nat_small) simp
  have "?top \<le> ?p" using round_up_bounds [of 16 ?top] by simp
  then have "chunk_end c \<le> bump_malloc live n" if "c \<in> set live" for c
    using fold_max_ge(2) [OF that, of "\<lambda>c. unat (chunk_end c)" 4096] u by (simp add: word_le_nat_alt)
  then show "unat (bump_malloc live n) + unat n \<le> 2 ^ 63 \<and> 16 dvd unat (bump_malloc live n)
    \<and> (\<forall>c \<in> set live. unat (bump_malloc live n) + unat n \<le> unat (chunk_addr c)
        \<or> chunk_end c \<le> bump_malloc live n)"
    using p(1) u by simp
qed


definition example_allocator :: PNAllocator where
  "example_allocator = \<lparr>alloc_name = ''example'',
     chunk_head = [\<lparr>chunk_addr = 4096, chunk_current = 4130, chunk_end = 4160\<rparr>],
     last_alloc = 4120, min_chunk_size = 64, total_used = 10, internal_fragmentation = 0,
     reset_mark = \<lparr>mark_current = 0, mark_last_alloc = 0, mark_total_used = 0,
                   mark_internal_fragmentation = 0\<rparr>\<rparr>"

lemma example_allocator_inv: "alloc_inv example_allocator"
  by (simp add: alloc_inv_def example_allocator_def chunk_ok_def)

lemma next_power_of_two_concrete:
  assumes "v \<le> 2 ^ j" and "\<not> v \<le> 2 ^ (j - 1)" and "j \<le> 63"
  shows "pn_next_power_of_two v = Some (2 ^ j)"
proof -
  have "(2 :: u64) ^ j \<le> 2 ^ 63" using assms(3) by (intro pow2_le_2_63) simp
  with assms(1) have "v \<le> 2 ^ 63" by (rule order_trans)
  from next_power_loop_returns [OF this, of 0] obtain i where i: "i \<le> 63"
    "pn_next_power_of_two v = Some (2 ^ i)" "v \<le> 2 ^ i" "\<forall>m<i. 2 ^ m < v"
    by (auto simp: pn_next_power_of_two_def)
  have "\<not> j < i" using i(4) assms(1) by (metis linorder_not_le)
  moreover have "\<not> i < j"
  proof
    assume "i < j"
    then have "unat (2 ^ i :: u64) \<le> unat (2 ^ (j - 1) :: u64)"
      using assms(3) by (simp add: unat_pow2 power_increasing)
    then have "(2 :: u64) ^ i \<le> 2 ^ (j - 1)" by (simp only: word_le_nat_alt)
    with i(3) have "v \<le> 2 ^ (j - 1)" by (rule order_trans)
    with assms(2) show False ..
  qed
  ultimately show ?thesis using i(2) by simp
qed

section \<open>Properties\<close>

text \<open>
  C25: a successful allocation returns a block with the requested alignment that overlaps no byte
  handed out before and no chunk header, lies inside a live chunk, keeps every earlier block, and
  keeps the invariant; the accounting grows by exactly the size.
\<close>

theorem pn_allocator_alloc_fresh:
  assumes "malloc_ok malloc" and "alloc_inv a" and "pn_allocator_alloc malloc a sz align = Inr (p, a')"
  shows "alloc_inv a' \<and> unat align dvd unat p \<and> block p sz \<inter> used_bytes a = {}
    \<and> block p sz \<union> used_bytes a \<subseteq> used_bytes a' \<and> last_alloc a' = p \<and> total_used a' = total_used a + sz"
  using alloc_result_ok [OF assms] by (auto simp: alloc_result_def)

theorem pn_allocator_alloc_fresh_witness:
  "\<exists>p a'. pn_allocator_alloc bump_malloc example_allocator 8 4 = Inr (p, a') \<and> p = 4132
     \<and> alloc_inv a' \<and> block p 8 \<inter> used_bytes example_allocator = {}"
proof -
  have "is_ok (pn_allocator_alloc bump_malloc example_allocator 8 4)"
    by code_simp
  then obtain p a' where r: "pn_allocator_alloc bump_malloc example_allocator 8 4 = Inr (p, a')"
    by (auto simp: is_ok_iff)
  have "fst (projr (pn_allocator_alloc bump_malloc example_allocator 8 4)) = 4132"
    by code_simp
  with r pn_allocator_alloc_fresh [OF malloc_ok_bump example_allocator_inv r] show ?thesis by auto
qed

text \<open>
  An allocation of less than 2 GiB with a power-of-two alignment succeeds whenever the host
  has the memory for the chunk it may need: no assertion or check of the allocator stops the
  process and the search for the chunk size ends.
\<close>

theorem pn_allocator_alloc_total:
  assumes "malloc_ok malloc" and "host_serves malloc a sz (2 ^ k)" and "alloc_inv a"
    and "sz < 0x80000000" and "k < 32"
  shows "\<exists>p a'. pn_allocator_alloc malloc a sz (2 ^ k) = Inr (p, a')"
  using alloc_succeeds [OF assms] by (auto simp: is_ok_iff)

theorem pn_allocator_alloc_total_witness:
  "\<exists>p a'. pn_allocator_alloc bump_malloc example_allocator 100 (2 ^ 3) = Inr (p, a')"
proof -
  have "pn_next_power_of_two 131 = Some (2 ^ 8)"
    using next_power_of_two_concrete [of 131 8] by simp
  moreover have "pn_max (100 + 24 + ucast (2 ^ 3 :: u32) - 1) 64 = 131" by code_simp
  moreover have "bump_malloc (chunk_head example_allocator) (2 ^ 8) \<noteq> 0"
    by (simp add: bump_malloc_def example_allocator_def)
  ultimately have "host_serves bump_malloc example_allocator 100 (2 ^ 3)"
    by (simp add: host_serves_def example_allocator_def)
  then show ?thesis
    using pn_allocator_alloc_total [OF malloc_ok_bump _ example_allocator_inv, of 100 3] by simp
qed

text \<open>
  Growing the last allocation keeps its old bytes at the start of the grown block (in place,
  or moved by one copy of exactly the old size), returns the address just behind them, and makes
  the last allocation longer by the requested amount, in place or in a new chunk.
\<close>

theorem pn_allocator_realloc_add_grows:
  assumes "malloc_ok malloc" and "alloc_inv a" and "p \<noteq> 0"
    and "pn_allocator_realloc_add malloc a p add align = Inr (ret, q, cp, a')"
  shows "alloc_inv a' \<and> last_alloc a' = q \<and> ret = q + pn_allocator_last_alloc_size a
    \<and> pn_allocator_last_alloc_size a' = pn_allocator_last_alloc_size a + add
    \<and> (cp = None \<and> q = p \<or> cp = Some (q, p, pn_allocator_last_alloc_size a))"
  using realloc_grows [OF assms] by blast

theorem pn_allocator_realloc_add_grows_witness:
  "\<exists>a'. pn_allocator_realloc_add bump_malloc example_allocator 4120 6 1 = Inr (4130, 4120, None, a')
     \<and> alloc_inv a' \<and> pn_allocator_last_alloc_size a' = 16"
proof -
  have "is_ok (pn_allocator_realloc_add bump_malloc example_allocator 4120 6 1)" by code_simp
  then obtain r q cp a' where
    r: "pn_allocator_realloc_add bump_malloc example_allocator 4120 6 1 = Inr (r, q, cp, a')"
    by (auto simp: is_ok_iff)
  have "(case pn_allocator_realloc_add bump_malloc example_allocator 4120 6 1 of
      Inr (r, q, cp, a') \<Rightarrow> r = 4130 \<and> q = 4120 \<and> cp = None | _ \<Rightarrow> False)" by code_simp
  moreover have "pn_allocator_last_alloc_size example_allocator + 6 = 16" by code_simp
  ultimately show ?thesis
    using r pn_allocator_realloc_add_grows [OF malloc_ok_bump example_allocator_inv _ r] by auto
qed

text \<open>
  C26: Marks nest, where the mark was taken with the last allocation strictly inside its chunk or before any
  allocation: after any sequence of allocations and reallocations, resetting to the mark gives back exactly the allocator the mark
  was taken of (every later chunk freed, the chunk list, the bump pointer and the accounting as they were). If the last
  allocation was not strictly inside its chunk (an empty block at its end), the reset leaves another number of chunks.
\<close>

theorem pn_allocator_reset_restores:
  assumes "malloc_ok malloc" and "alloc_inv a" and "alloc_steps malloc a b"
  shows "(last_alloc_inside a \<longrightarrow> pn_allocator_reset_to_mark b (pn_allocator_mark a) = a) \<and>
    (chunk_head a \<noteq> [] \<and> \<not> last_alloc_inside a \<longrightarrow>
       length (chunk_head (pn_allocator_reset_to_mark b (pn_allocator_mark a))) \<noteq> length (chunk_head a))"
  using alloc_steps_extends [OF assms(1,3,2)] reset_restores_chunks reset_loses_chunks by blast

theorem pn_allocator_reset_restores_witness:
  "\<exists>p b. pn_allocator_alloc bump_malloc example_allocator 8 4 = Inr (p, b)
     \<and> pn_allocator_reset_to_mark b (pn_allocator_mark example_allocator) = example_allocator"
proof -
  have "is_ok (pn_allocator_alloc bump_malloc example_allocator 8 4)" by code_simp
  then obtain p b where r: "pn_allocator_alloc bump_malloc example_allocator 8 4 = Inr (p, b)"
    by (auto simp: is_ok_iff)
  have "last_alloc_inside example_allocator" by code_simp
  moreover have "alloc_steps bump_malloc example_allocator b"
    using alloc_steps.alloc [OF alloc_steps.refl r] .
  ultimately show ?thesis
    using r pn_allocator_reset_restores [OF malloc_ok_bump example_allocator_inv, of b] by blast
qed

text \<open>
  The proviso is needed: when the last allocation was an empty block at the very end of its
  chunk, \<open>last_alloc < chunk->end\<close> fails and resetting to a mark just taken frees the live chunk.
\<close>

theorem pn_allocator_reset_frees_live_chunk:
  "\<exists>a. alloc_inv a \<and> chunk_head a \<noteq> [] \<and> used_bytes a \<noteq> {}
     \<and> (\<exists>p b. pn_allocator_alloc bump_malloc a 0 1 = Inr (p, b)
          \<and> chunk_head b \<noteq> [] \<and> chunk_head (pn_allocator_reset_to_mark b (pn_allocator_mark b)) = [])"
proof -
  let ?a = "example_allocator\<lparr>chunk_head := [\<lparr>chunk_addr = 4096, chunk_current = 4160, chunk_end = 4160\<rparr>]\<rparr>"
  have "alloc_inv ?a" by (simp add: alloc_inv_def example_allocator_def chunk_ok_def)
  moreover have "used_bytes ?a \<noteq> {}" by (simp add: used_bytes_def)
  moreover have "(case pn_allocator_alloc bump_malloc ?a 0 1 of
      Inr (p, b) \<Rightarrow> chunk_head b \<noteq> [] \<and> chunk_head (pn_allocator_reset_to_mark b (pn_allocator_mark b)) = []
    | _ \<Rightarrow> False)" by code_simp
  then have "\<exists>p b. pn_allocator_alloc bump_malloc ?a 0 1 = Inr (p, b)
      \<and> chunk_head b \<noteq> [] \<and> chunk_head (pn_allocator_reset_to_mark b (pn_allocator_mark b)) = []"
    by (auto split: sum.splits)
  ultimately show ?thesis by (intro exI [of _ ?a] conjI) auto
qed

end
