(* ===== verification/Pn_Memory.thy ===== *)
theory Pn_Memory
  imports Pn_Bits
begin

text \<open>
  The guest's memory, \<^verbatim>\<open>src/pn_memory.h\<close>: a block of bytes with a guard below, checked accesses of
  every width, strings and the start information that is laid out for the guest's entry point.
  The bytes are a function from offsets; an access at or behind the size is an access outside the
  host's block: \<open>Undefined\<close>.
\<close>

unbundle bit_operations_syntax

section \<open>State and operations\<close>

abbreviation (input) PN_MEMORY_GUARD_SIZE :: u32 where "PN_MEMORY_GUARD_SIZE \<equiv> 1024"
abbreviation (input) PN_PAGESIZE :: u32 where "PN_PAGESIZE \<equiv> 4096"
abbreviation (input) PN_MAX_BUILTINS :: u32 where "PN_MAX_BUILTINS \<equiv> 48"
abbreviation (input) PN_BUILTIN_NACL_IRT_QUERY :: u32 where "PN_BUILTIN_NACL_IRT_QUERY \<equiv> 1"

record PNMemory =
  mem_data :: "nat \<Rightarrow> u8"
  mem_size :: u32
  globalvar_start :: u32
  globalvar_end :: u32
  startinfo_start :: u32
  startinfo_end :: u32
  ppapi_start :: u32
  ppapi_end :: u32
  heap_start :: u32
  stack_end :: u32

definition pn_builtin_to_pointer :: "u32 \<Rightarrow> u32" where
  "pn_builtin_to_pointer builtin_id = push_bit 2 builtin_id"

definition pn_function_id_to_pointer :: "u32 \<Rightarrow> u32" where
  "pn_function_id_to_pointer function_id = push_bit 2 (function_id + PN_MAX_BUILTINS)"

definition pn_function_pointer_to_index :: "u32 \<Rightarrow> u32" where
  "pn_function_pointer_to_index fp = drop_bit 2 fp"

text \<open>The sum \<open>offset + size\<close> is computed in 32 bits.\<close>

definition pn_memory_check :: "PNMemory \<Rightarrow> u32 \<Rightarrow> u32 \<Rightarrow> unit res" where
  "pn_memory_check m off sz =
     (if off < PN_MEMORY_GUARD_SIZE then Inl (Fatal ''memory access out of bounds'')
      else if off + sz > mem_size m then Inl (Fatal ''memory-size is too small'')
      else Inr ())"

text \<open>A host pointer into the memory is its distance from \<open>memory->data\<close>.\<close>

definition pn_memory_check_pointer :: "PNMemory \<Rightarrow> nat \<Rightarrow> u32 \<Rightarrow> unit res" where
  "pn_memory_check_pointer m p sz = pn_memory_check m (of_nat p) sz"

text \<open>Host accesses to \<open>memory->data\<close>.\<close>

definition host_load :: "PNMemory \<Rightarrow> nat \<Rightarrow> nat \<Rightarrow> u8 list res" where
  "host_load m off n =
     (if off + n \<le> unat (mem_size m) then Inr (map (mem_data m) [off..<off + n])
      else Inl (Undefined ''read outside memory->data''))"

definition store_bytes :: "(nat \<Rightarrow> u8) \<Rightarrow> nat \<Rightarrow> u8 list \<Rightarrow> nat \<Rightarrow> u8" where
  "store_bytes d off bs i = (if off \<le> i \<and> i < off + length bs then bs ! (i - off) else d i)"

definition host_store :: "PNMemory \<Rightarrow> nat \<Rightarrow> u8 list \<Rightarrow> PNMemory res" where
  "host_store m off bs =
     (if off + length bs \<le> unat (mem_size m) then Inr (m\<lparr>mem_data := store_bytes (mem_data m) off bs\<rparr>)
      else Inl (Undefined ''write outside memory->data''))"

text \<open>
  \<open>PN_DEFINE_MEMORY_READ\<close> and \<open>PN_DEFINE_MEMORY_WRITE\<close> for a type of \<open>n\<close> bytes; the aligned and the
  unaligned branch access the same bytes.
\<close>

definition memory_read :: "nat \<Rightarrow> PNMemory \<Rightarrow> u32 \<Rightarrow> 'a::len word res" where
  "memory_read n m off =
     rbind (pn_memory_check m off (of_nat n)) (\<lambda>_.
     rbind (host_load m (unat off) n) (\<lambda>bs. Inr (le_word bs)))"

definition memory_write :: "nat \<Rightarrow> PNMemory \<Rightarrow> u32 \<Rightarrow> 'a::len word \<Rightarrow> PNMemory res" where
  "memory_write n m off v =
     rbind (pn_memory_check m off (of_nat n)) (\<lambda>_. host_store m (unat off) (le_bytes n v))"

text \<open>The signed and floating-point accessors move the same bit patterns.\<close>

definition pn_memory_read_u8 :: "PNMemory \<Rightarrow> u32 \<Rightarrow> u8 res" where "pn_memory_read_u8 = memory_read 1"
definition pn_memory_read_u16 :: "PNMemory \<Rightarrow> u32 \<Rightarrow> u16 res" where "pn_memory_read_u16 = memory_read 2"
definition pn_memory_read_u32 :: "PNMemory \<Rightarrow> u32 \<Rightarrow> u32 res" where "pn_memory_read_u32 = memory_read 4"
definition pn_memory_read_u64 :: "PNMemory \<Rightarrow> u32 \<Rightarrow> u64 res" where "pn_memory_read_u64 = memory_read 8"
definition pn_memory_write_u8 :: "PNMemory \<Rightarrow> u32 \<Rightarrow> u8 \<Rightarrow> PNMemory res" where "pn_memory_write_u8 = memory_write 1"
definition pn_memory_write_u16 :: "PNMemory \<Rightarrow> u32 \<Rightarrow> u16 \<Rightarrow> PNMemory res" where "pn_memory_write_u16 = memory_write 2"
definition pn_memory_write_u32 :: "PNMemory \<Rightarrow> u32 \<Rightarrow> u32 \<Rightarrow> PNMemory res" where "pn_memory_write_u32 = memory_write 4"
definition pn_memory_write_u64 :: "PNMemory \<Rightarrow> u32 \<Rightarrow> u64 \<Rightarrow> PNMemory res" where "pn_memory_write_u64 = memory_write 8"

text \<open>The loop of \<open>pn_memory_check_cstr\<close>: the address of the next zero byte.\<close>

lemma memory_read_Inr_bound:
  assumes "pn_memory_read_u8 m e = Inr b"
  shows "unat e < unat (mem_size m)" "unat (e + 1) = unat e + 1"
proof -
  show lt: "unat e < unat (mem_size m)"
    using assms by (auto simp: pn_memory_read_u8_def memory_read_def host_load_def res_simps split: if_splits)
  have "unat e + unat (1 :: u32) < 2 ^ LENGTH(32)" using lt unat_bound [of "mem_size m"] by simp
  then show "unat (e + 1) = unat e + 1" by (simp add: unat_add_small)
qed

function cstr_end :: "PNMemory \<Rightarrow> u32 \<Rightarrow> u32 res" where
  "cstr_end m e = rbind (pn_memory_read_u8 m e) (\<lambda>b. if b \<noteq> 0 then cstr_end m (e + 1) else Inr e)"
  by pat_completeness auto
termination
proof (relation "measure (\<lambda>(m, e). unat (mem_size m) - unat e)")
  fix m e b
  assume "pn_memory_read_u8 m e = Inr b"
  from memory_read_Inr_bound [OF this]
  show "((m, e + 1), m, e) \<in> measure (\<lambda>(m, e). unat (mem_size m) - unat e)" by simp
qed simp

declare cstr_end.simps [simp del]

definition pn_memory_check_cstr :: "PNMemory \<Rightarrow> u32 \<Rightarrow> u32 res" where
  "pn_memory_check_cstr m p = rbind (cstr_end m p) (\<lambda>e. Inr (e - p))"

text \<open>A C string is the list of its characters; its terminating 0 is added where it is stored.\<close>

definition pn_memory_write_cstr :: "PNMemory \<Rightarrow> u32 \<Rightarrow> u8 list \<Rightarrow> PNMemory res" where
  "pn_memory_write_cstr m off s =
     rbind (pn_memory_check m off (of_nat (length s + 1))) (\<lambda>_. host_store m (unat off) (s @ [0]))"

definition pn_memory_zerofill :: "PNMemory \<Rightarrow> u32 \<Rightarrow> u32 \<Rightarrow> PNMemory res" where
  "pn_memory_zerofill m off num_bytes =
     rbind (pn_memory_check m off num_bytes) (\<lambda>_. host_store m (unat off) (replicate (unat num_bytes) 0))"

text \<open>A null-terminated array of strings, or a null pointer.\<close>

definition pn_string_list_count :: "u8 list list option \<Rightarrow> nat" where
  "pn_string_list_count p = (case p of None \<Rightarrow> 0 | Some ss \<Rightarrow> length ss)"

text \<open>\<open>junk\<close> is what the allocated block happens to hold.\<close>

definition pn_memory_init :: "u32 \<Rightarrow> (nat \<Rightarrow> u8) \<Rightarrow> PNMemory" where
  "pn_memory_init sz junk =
     \<lparr>mem_data = junk, mem_size = sz, globalvar_start = 0, globalvar_end = 0, startinfo_start = 0,
      startinfo_end = 0, ppapi_start = 0, ppapi_end = 0, heap_start = 0, stack_end = 0\<rparr>"

definition pn_memory_reset :: "PNMemory \<Rightarrow> PNMemory" where
  "pn_memory_reset m = pn_memory_init (mem_size m) (mem_data m)"

definition store_u32 :: "PNMemory \<Rightarrow> nat \<Rightarrow> u32 \<Rightarrow> PNMemory res" where
  "store_u32 m off v = host_store m off (le_bytes 4 v)"

text \<open>
  One of the two loops of \<open>pn_memory_init_startinfo\<close>: copy the strings to \<open>data_offset\<close> onwards, put
  their addresses into the table, then a null pointer behind the last one.
\<close>

fun copy_strings :: "PNMemory \<Rightarrow> nat \<Rightarrow> nat \<Rightarrow> u8 list list \<Rightarrow> (PNMemory \<times> nat) res" where
  "copy_strings m table data_offset [] = rbind (store_u32 m table 0) (\<lambda>m. Inr (m, data_offset))"
| "copy_strings m table data_offset (s # ss) =
     rbind (pn_memory_check_pointer m data_offset (of_nat (length s + 1))) (\<lambda>_.
     rbind (host_store m data_offset (s @ [0])) (\<lambda>m.
     rbind (store_u32 m table (of_nat data_offset)) (\<lambda>m.
     copy_strings m (table + 4) (data_offset + length s + 1) ss)))"

definition string_list :: "u8 list list option \<Rightarrow> u8 list list" where
  "string_list p = (case p of None \<Rightarrow> [] | Some ss \<Rightarrow> ss)"

definition pn_memory_init_startinfo ::
  "PNMemory \<Rightarrow> u8 list list option \<Rightarrow> u8 list list option \<Rightarrow> PNMemory res" where
  "pn_memory_init_startinfo m argv envp =
     rbind (pn_align_up (ucast (globalvar_end m)) 4) (\<lambda>al.
     let m = m\<lparr>startinfo_start := ucast al\<rparr>;
         startinfo = unat (startinfo_start m);
         argc = pn_string_list_count argv; envc = pn_string_list_count envp;
         data_offset = startinfo + 4 * (3 + (argc + 1) + (envc + 1) + 3) in
     rbind (pn_memory_check_pointer m startinfo (of_nat (data_offset - startinfo))) (\<lambda>_.
     rbind (store_u32 m startinfo 0) (\<lambda>m.
     rbind (store_u32 m (startinfo + 4) (of_nat envc)) (\<lambda>m.
     rbind (store_u32 m (startinfo + 8) (of_nat argc)) (\<lambda>m.
     rbind (copy_strings m (startinfo + 12) data_offset (string_list argv)) (\<lambda>(m, data_offset).
     rbind (copy_strings m (startinfo + 12 + 4 * (argc + 1)) data_offset (string_list envp)) (\<lambda>(m, data_offset).
     let auxv = startinfo + 12 + 4 * (argc + 1) + 4 * (envc + 1) in
     rbind (store_u32 m auxv 32) (\<lambda>m.
     rbind (store_u32 m (auxv + 4) (pn_builtin_to_pointer PN_BUILTIN_NACL_IRT_QUERY)) (\<lambda>m.
     rbind (store_u32 m (auxv + 8) 0) (\<lambda>m.
     let e = of_nat data_offset :: u32 in
     rbind (pn_align_up (ucast e) PN_PAGESIZE) (\<lambda>heap.
     Inr (m\<lparr>startinfo_end := e, ppapi_start := e, ppapi_end := e, heap_start := ucast heap,
            stack_end := mem_size m\<rparr>))))))))))))"

section \<open>Checked accesses\<close>

text \<open>The range that an access may touch.\<close>

definition in_memory :: "PNMemory \<Rightarrow> u32 \<Rightarrow> nat \<Rightarrow> bool" where
  "in_memory m off n \<longleftrightarrow> 1024 \<le> unat off \<and> unat off + n \<le> unat (mem_size m)"

lemma pn_memory_check_ok:
  assumes "unat off + n < 2 ^ 32"
  shows "pn_memory_check m off (of_nat n) = Inr () \<longleftrightarrow> in_memory m off n"
proof -
  have "unat (of_nat n :: u32) = n" using assms by (intro unat_of_nat_small) simp
  then have "unat (off + of_nat n) = unat off + n" using assms by (simp add: unat_add_small)
  then show ?thesis by (auto simp: pn_memory_check_def in_memory_def word_less_nat_alt)
qed

lemma in_memory_no_wrap: "in_memory m off n \<Longrightarrow> unat off + n < 2 ^ 32"
  using unat_bound [of "mem_size m"] by (simp add: in_memory_def)

lemma memory_read_in: "in_memory m off n \<Longrightarrow> memory_read n m off = Inr (le_word (map (mem_data m) [unat off..<unat off + n]))"
  using pn_memory_check_ok [OF in_memory_no_wrap, of m off n m]
  by (simp add: memory_read_def host_load_def) (simp add: in_memory_def)

lemma memory_write_in:
  "in_memory m off n \<Longrightarrow> memory_write n m off v = Inr (m\<lparr>mem_data := store_bytes (mem_data m) (unat off) (le_bytes n v)\<rparr>)"
  using pn_memory_check_ok [OF in_memory_no_wrap, of m off n m]
  by (simp add: memory_write_def host_store_def) (simp add: in_memory_def)

lemma pn_memory_check_fails:
  assumes "unat off + n < 2 ^ 32" and "\<not> in_memory m off n"
  shows "\<exists>s. pn_memory_check m off (of_nat n) = Inl (Fatal s)"
proof -
  have "pn_memory_check m off (of_nat n) \<noteq> Inr ()" using pn_memory_check_ok [OF assms(1)] assms(2) by blast
  then show ?thesis by (auto simp: pn_memory_check_def split: if_splits)
qed

lemma memory_read_out:
  "unat off + n < 2 ^ 32 \<Longrightarrow> \<not> in_memory m off n \<Longrightarrow> \<exists>s. memory_read n m off = Inl (Fatal s)"
  using pn_memory_check_fails [of off n m] by (auto simp: memory_read_def)

lemma memory_write_out:
  "unat off + n < 2 ^ 32 \<Longrightarrow> \<not> in_memory m off n \<Longrightarrow> \<exists>s. memory_write n m off v = Inl (Fatal s)"
  using pn_memory_check_fails [of off n m] by (auto simp: memory_write_def)

lemma store_bytes_same: "map (store_bytes d off bs) [off..<off + length bs] = bs"
  by (rule nth_equalityI) (simp_all add: store_bytes_def)

lemma store_bytes_other:
  "off' + n \<le> off \<or> off + length bs \<le> off' \<Longrightarrow> map (store_bytes d off bs) [off'..<off' + n] = map d [off'..<off' + n]"
  by (rule map_cong) (auto simp: store_bytes_def)

lemma in_memory_update [simp]: "in_memory (m\<lparr>mem_data := d\<rparr>) off n = in_memory m off n"
  by (simp add: in_memory_def)

section \<open>The interface\<close>

text \<open>A memory of cells of one width, as the interpreter and the system calls use it.\<close>

locale cell_memory =
  fixes width :: nat
    and valid :: "'m \<Rightarrow> u32 \<Rightarrow> bool"
    and rd :: "'m \<Rightarrow> u32 \<Rightarrow> 'v res"
    and wr :: "'m \<Rightarrow> u32 \<Rightarrow> 'v \<Rightarrow> 'm res"
  assumes rd_valid: "valid m a \<Longrightarrow> \<exists>v. rd m a = Inr v"
    and wr_valid: "valid m a \<Longrightarrow> \<exists>m'. wr m a v = Inr m' \<and> (\<forall>b. valid m' b = valid m b) \<and> rd m' a = Inr v
      \<and> (\<forall>b. valid m b \<longrightarrow> (unat b + width \<le> unat a \<or> unat a + width \<le> unat b) \<longrightarrow> rd m' b = rd m b)"
begin

lemma rd_after_wr: "valid m a \<Longrightarrow> wr m a v = Inr m' \<Longrightarrow> rd m' a = Inr v"
  using wr_valid [of m a v] by auto

lemma rd_after_wr_other:
  "valid m a \<Longrightarrow> wr m a v = Inr m' \<Longrightarrow> valid m b \<Longrightarrow>
   unat b + width \<le> unat a \<or> unat a + width \<le> unat b \<Longrightarrow> rd m' b = rd m b"
  using wr_valid [of m a v] by auto

lemma two_writes:
  assumes "valid m a" and "valid m b" and "unat b + width \<le> unat a \<or> unat a + width \<le> unat b"
    and "wr m a v = Inr m1" and "wr m1 b w = Inr m2"
  shows "rd m2 a = Inr v \<and> rd m2 b = Inr w"
proof -
  have v: "valid m1 a" "valid m1 b" using wr_valid [of m a v] assms by auto
  have "rd m2 a = rd m1 a" using rd_after_wr_other [OF v(2) assms(5) v(1)] assms(3) by blast
  then show ?thesis using rd_after_wr [OF assms(1,4)] rd_after_wr [OF v(2) assms(5)] by simp
qed

end

lemma memory_write_laws:
  assumes "in_memory m a n" and "LENGTH('a) \<le> 8 * n"
  shows "\<exists>m'. memory_write n m a (v :: 'a::len word) = Inr m' \<and> (\<forall>b. in_memory m' b n = in_memory m b n)
    \<and> memory_read n m' a = Inr v
    \<and> (\<forall>b. in_memory m b n \<longrightarrow> (unat b + n \<le> unat a \<or> unat a + n \<le> unat b) \<longrightarrow>
         (memory_read n m' b :: 'a word res) = memory_read n m b)"
proof -
  let ?m = "m\<lparr>mem_data := store_bytes (mem_data m) (unat a) (le_bytes n v)\<rparr>"
  have "memory_read n ?m a = Inr v"
    using assms store_bytes_same [of "mem_data m" "unat a" "le_bytes n v"]
    by (simp add: memory_read_in le_word_le_bytes)
  moreover have "memory_read n ?m b = (memory_read n m b :: 'a word res)"
    if "in_memory m b n" "unat b + n \<le> unat a \<or> unat a + n \<le> unat b" for b
    using that store_bytes_other [of "unat b" n "unat a" "le_bytes n v" "mem_data m"]
    by (simp add: memory_read_in del: map_eq_conv)
  ultimately show ?thesis
    using memory_write_in [OF assms(1), of v] by (intro exI [of _ ?m] conjI allI impI) simp_all
qed

interpretation mem8: cell_memory 1 "\<lambda>m a. in_memory m a 1" pn_memory_read_u8 pn_memory_write_u8
  by unfold_locales (use memory_write_laws [where 'a = 8 and n = 1] in
      \<open>auto simp: pn_memory_read_u8_def pn_memory_write_u8_def memory_read_in\<close>)

interpretation mem16: cell_memory 2 "\<lambda>m a. in_memory m a 2" pn_memory_read_u16 pn_memory_write_u16
  by unfold_locales (use memory_write_laws [where 'a = 16 and n = 2] in
      \<open>auto simp: pn_memory_read_u16_def pn_memory_write_u16_def memory_read_in\<close>)

interpretation mem32: cell_memory 4 "\<lambda>m a. in_memory m a 4" pn_memory_read_u32 pn_memory_write_u32
  by unfold_locales (use memory_write_laws [where 'a = 32 and n = 4] in
      \<open>auto simp: pn_memory_read_u32_def pn_memory_write_u32_def memory_read_in\<close>)

interpretation mem64: cell_memory 8 "\<lambda>m a. in_memory m a 8" pn_memory_read_u64 pn_memory_write_u64
  by unfold_locales (use memory_write_laws [where 'a = 64 and n = 8] in
      \<open>auto simp: pn_memory_read_u64_def pn_memory_write_u64_def memory_read_in\<close>)


section \<open>Strings\<close>

text \<open>Storing a C string and measuring it gives its length back, wherever it fits.\<close>

lemma memory_read_u8_in: "in_memory m a 1 \<Longrightarrow> pn_memory_read_u8 m a = Inr (mem_data m (unat a))"
  by (simp add: pn_memory_read_u8_def memory_read_in)

lemma cstr_end_string:
  assumes "in_memory m a (length s + 1)" and "\<forall>i < length s. mem_data m (unat a + i) = s ! i"
    and "mem_data m (unat a + length s) = 0" and "0 \<notin> set s"
  shows "cstr_end m a = Inr (a + of_nat (length s))"
  using assms
proof (induction s arbitrary: a)
  case Nil
  then have "pn_memory_read_u8 m a = Inr 0" by (simp add: memory_read_u8_in)
  then show ?case by (subst cstr_end.simps) simp
next
  case (Cons c s)
  have "in_memory m a 1" using Cons.prems(1) by (simp add: in_memory_def)
  then have rd: "pn_memory_read_u8 m a = Inr c" "c \<noteq> 0"
    using Cons.prems(2) [rule_format, of 0] Cons.prems(4) by (auto simp: memory_read_u8_in)
  have a1: "unat (a + 1) = unat a + 1" using memory_read_Inr_bound [OF rd(1)] by simp
  have "cstr_end m (a + 1) = Inr (a + 1 + of_nat (length s))"
  proof (rule Cons.IH)
    show "in_memory m (a + 1) (length s + 1)" using Cons.prems(1) a1 by (simp add: in_memory_def)
    show "\<forall>i < length s. mem_data m (unat (a + 1) + i) = s ! i" using Cons.prems(2) a1 by auto
    show "mem_data m (unat (a + 1) + length s) = 0" using Cons.prems(3) a1 by simp
  qed (use Cons.prems(4) in simp)
  with rd show ?case by (subst cstr_end.simps) (simp add: add.assoc)
qed

lemma write_cstr_in:
  assumes "in_memory m a (length s + 1)"
  shows "pn_memory_write_cstr m a s = Inr (m\<lparr>mem_data := store_bytes (mem_data m) (unat a) (s @ [0])\<rparr>)"
  using pn_memory_check_ok [OF in_memory_no_wrap [OF assms], of m] assms
  by (simp add: pn_memory_write_cstr_def host_store_def add.commute) (simp add: in_memory_def)

lemma check_cstr_written:
  assumes "in_memory m a (length s + 1)" and "0 \<notin> set s"
  shows "\<exists>m'. pn_memory_write_cstr m a s = Inr m' \<and> pn_memory_check_cstr m' a = Inr (of_nat (length s))"
proof -
  let ?m = "m\<lparr>mem_data := store_bytes (mem_data m) (unat a) (s @ [0])\<rparr>"
  have "cstr_end ?m a = Inr (a + of_nat (length s))"
    by (rule cstr_end_string) (use assms in \<open>simp_all add: store_bytes_def nth_append\<close>)
  then show ?thesis using write_cstr_in [OF assms(1)] by (simp add: pn_memory_check_cstr_def)
qed


section \<open>Start information\<close>

definition bytes_at :: "PNMemory \<Rightarrow> nat \<Rightarrow> nat \<Rightarrow> u8 list" where
  "bytes_at m off n = map (mem_data m) [off..<off + n]"

definition u32_at :: "PNMemory \<Rightarrow> nat \<Rightarrow> u32" where
  "u32_at m off = le_word (bytes_at m off 4)"

definition keeps_outside :: "PNMemory \<Rightarrow> PNMemory \<Rightarrow> nat set \<Rightarrow> bool" where
  "keeps_outside m m' S \<longleftrightarrow> m' = m\<lparr>mem_data := mem_data m'\<rparr> \<and> (\<forall>x. x \<notin> S \<longrightarrow> mem_data m' x = mem_data m x)"

lemma keeps_outside_refl [simp]: "keeps_outside m m S"
  by (simp add: keeps_outside_def)

lemma keeps_outside_trans:
  assumes "keeps_outside m m1 S" and "keeps_outside m1 m2 T"
  shows "keeps_outside m m2 (S \<union> T)"
proof -
  have 1: "m1 = m\<lparr>mem_data := mem_data m1\<rparr>" and 2: "m2 = m1\<lparr>mem_data := mem_data m2\<rparr>"
    using assms by (simp_all add: keeps_outside_def)
  have "m2 = m\<lparr>mem_data := mem_data m2\<rparr>" by (subst 2, subst 1) simp
  with assms show ?thesis by (simp add: keeps_outside_def)
qed

lemma keeps_outside_mono: "keeps_outside m m' S \<Longrightarrow> S \<subseteq> T \<Longrightarrow> keeps_outside m m' T"
  by (auto simp: keeps_outside_def)

lemma keeps_outside_size: "keeps_outside m m' S \<Longrightarrow> mem_size m' = mem_size m"
  by (metis PNMemory.ext_inject PNMemory.surjective PNMemory.update_convs(1) keeps_outside_def)

lemma bytes_at_kept:
  "keeps_outside m m' S \<Longrightarrow> {off..<off + n} \<inter> S = {} \<Longrightarrow> bytes_at m' off n = bytes_at m off n"
  by (auto simp: keeps_outside_def bytes_at_def intro!: map_cong)

lemma u32_at_kept: "keeps_outside m m' S \<Longrightarrow> {off..<off + 4} \<inter> S = {} \<Longrightarrow> u32_at m' off = u32_at m off"
  by (simp add: u32_at_def bytes_at_kept)

lemma host_store_Inr:
  assumes "host_store m off bs = Inr m'"
  shows "bytes_at m' off (length bs) = bs" "keeps_outside m m' {off..<off + length bs}"
    "off + length bs \<le> unat (mem_size m)"
  using assms store_bytes_same [of "mem_data m" off bs]
  by (auto simp: host_store_def keeps_outside_def bytes_at_def store_bytes_def split: if_splits)

lemma store_u32_Inr:
  assumes "store_u32 m off v = Inr m'"
  shows "u32_at m' off = v" "keeps_outside m m' {off..<off + 4}" "off + 4 \<le> unat (mem_size m)"
  using host_store_Inr [of m off "le_bytes 4 v" m'] assms
  by (simp_all add: store_u32_def u32_at_def le_word_le_bytes)

text \<open>The table entry \<open>t + 4 * i\<close> points to a copy of string \<open>i\<close>; behind the last is a null pointer.\<close>

definition string_table :: "PNMemory \<Rightarrow> nat \<Rightarrow> u8 list list \<Rightarrow> bool" where
  "string_table m t ss \<longleftrightarrow> u32_at m (t + 4 * length ss) = 0 \<and>
     (\<forall>i < length ss. bytes_at m (unat (u32_at m (t + 4 * i))) (length (ss ! i) + 1) = ss ! i @ [0])"

definition strings_size :: "u8 list list \<Rightarrow> nat" where
  "strings_size ss = sum_list (map (\<lambda>s. length s + 1) ss)"

lemma copy_strings_layout:
  assumes "copy_strings m t d ss = Inr (m', d')" and "t + 4 * (length ss + 1) \<le> d"
  shows "d' = d + strings_size ss \<and> keeps_outside m m' ({t..<t + 4 * (length ss + 1)} \<union> {d..<d'})
    \<and> u32_at m' (t + 4 * length ss) = 0
    \<and> (\<forall>i < length ss. d \<le> unat (u32_at m' (t + 4 * i)) \<and> unat (u32_at m' (t + 4 * i)) + length (ss ! i) + 1 \<le> d'
         \<and> bytes_at m' (unat (u32_at m' (t + 4 * i))) (length (ss ! i) + 1) = ss ! i @ [0])"
  using assms
proof (induction ss arbitrary: m t d)
  case Nil
  then show ?case using store_u32_Inr [of m t 0 m'] by (auto simp: res_simps strings_size_def)
next
  case (Cons s ss)
  let ?n = "length s + 1"
  from Cons.prems(1) obtain m1 m2 where st: "host_store m d (s @ [0]) = Inr m1"
    "store_u32 m1 t (of_nat d) = Inr m2" "copy_strings m2 (t + 4) (d + ?n) ss = Inr (m', d')"
    by (auto simp: res_simps)
  have le: "t + 4 + 4 * (length ss + 1) \<le> d + ?n" using Cons.prems(2) by simp
  from Cons.IH [OF st(3) le] have ih: "d' = d + ?n + strings_size ss"
    "keeps_outside m2 m' ({t + 4..<t + 4 + 4 * (length ss + 1)} \<union> {d + ?n..<d'})"
    "u32_at m' (t + 4 + 4 * length ss) = 0"
    "\<And>i. i < length ss \<Longrightarrow> d + ?n \<le> unat (u32_at m' (t + 4 + 4 * i))
       \<and> unat (u32_at m' (t + 4 + 4 * i)) + length (ss ! i) + 1 \<le> d'
       \<and> bytes_at m' (unat (u32_at m' (t + 4 + 4 * i))) (length (ss ! i) + 1) = ss ! i @ [0]"
    by blast+
  note h1 = host_store_Inr [OF st(1)] and h2 = store_u32_Inr [OF st(2)]
  have t4: "t + 4 \<le> d" using Cons.prems(2) by simp
  have ud: "unat (of_nat d :: u32) = d"
    using h1(3) unat_bound [of "mem_size m"] by (intro unat_of_nat_small) simp
  have "u32_at m' t = u32_at m2 t" by (rule u32_at_kept [OF ih(2)]) (use t4 in auto)
  then have p0: "unat (u32_at m' t) = d" using h2(1) ud by simp
  have "bytes_at m2 d ?n = bytes_at m1 d ?n" by (rule bytes_at_kept [OF h2(2)]) (use t4 in auto)
  moreover have "bytes_at m' d ?n = bytes_at m2 d ?n"
    by (rule bytes_at_kept [OF ih(2)]) (use Cons.prems(2) in auto)
  ultimately have s0: "bytes_at m' d ?n = s @ [0]" using h1(1) by simp
  have "keeps_outside m m' ({t..<t + 4 * (length (s # ss) + 1)} \<union> {d..<d'})"
    by (rule keeps_outside_mono [OF keeps_outside_trans [OF keeps_outside_trans [OF h1(2) h2(2)] ih(2)]])
      (use ih(1) in auto)
  moreover have "\<forall>i < length (s # ss). d \<le> unat (u32_at m' (t + 4 * i))
      \<and> unat (u32_at m' (t + 4 * i)) + length ((s # ss) ! i) + 1 \<le> d'
      \<and> bytes_at m' (unat (u32_at m' (t + 4 * i))) (length ((s # ss) ! i) + 1) = (s # ss) ! i @ [0]"
  proof (intro allI impI)
    fix i assume i: "i < length (s # ss)"
    show "d \<le> unat (u32_at m' (t + 4 * i)) \<and> unat (u32_at m' (t + 4 * i)) + length ((s # ss) ! i) + 1 \<le> d'
      \<and> bytes_at m' (unat (u32_at m' (t + 4 * i))) (length ((s # ss) ! i) + 1) = (s # ss) ! i @ [0]"
    proof (cases i)
      case 0
      then show ?thesis using p0 s0 ih(1) by simp
    next
      case (Suc j)
      then show ?thesis using ih(4) [of j] i by (simp add: add.assoc)
    qed
  qed
  ultimately show ?case using ih(1,3) by (simp add: strings_size_def add.assoc)
qed


lemma string_table_kept:
  assumes lay: "u32_at m (t + 4 * length ss) = 0"
      "\<forall>i < length ss. d \<le> unat (u32_at m (t + 4 * i)) \<and> unat (u32_at m (t + 4 * i)) + length (ss ! i) + 1 \<le> d'
         \<and> bytes_at m (unat (u32_at m (t + 4 * i))) (length (ss ! i) + 1) = ss ! i @ [0]"
    and k: "keeps_outside m m' S" and dis: "S \<inter> {t..<t + 4 * (length ss + 1)} = {}" "S \<inter> {d..<d'} = {}"
  shows "string_table m' t ss"
proof -
  have u: "u32_at m' (t + 4 * i) = u32_at m (t + 4 * i)" if "i \<le> length ss" for i
  proof (rule u32_at_kept [OF k])
    have "{t + 4 * i..<t + 4 * i + 4} \<subseteq> {t..<t + 4 * (length ss + 1)}" using that by auto
    then show "{t + 4 * i..<t + 4 * i + 4} \<inter> S = {}" using dis(1) by blast
  qed
  have "bytes_at m' (unat (u32_at m' (t + 4 * i))) (length (ss ! i) + 1) = ss ! i @ [0]" if i: "i < length ss" for i
  proof -
    let ?p = "unat (u32_at m (t + 4 * i))"
    have p: "d \<le> ?p" "?p + length (ss ! i) + 1 \<le> d'" "bytes_at m ?p (length (ss ! i) + 1) = ss ! i @ [0]"
      using lay(2) i by blast+
    have "{?p..<?p + (length (ss ! i) + 1)} \<subseteq> {d..<d'}" using p(1,2) by auto
    with dis(2) have "{?p..<?p + (length (ss ! i) + 1)} \<inter> S = {}" by blast
    from bytes_at_kept [OF k this] p(3) u [of i] i show ?thesis by simp
  qed
  then show ?thesis using lay(1) u [of "length ss"] by (simp add: string_table_def)
qed

lemma pn_string_list_count_length: "pn_string_list_count p = length (string_list p)"
  by (simp add: pn_string_list_count_def string_list_def split: option.splits)

text \<open>The steps of \<open>pn_memory_init_startinfo\<close> when it succeeds.\<close>

lemma startinfo_steps:
  assumes "pn_memory_init_startinfo m argv envp = Inr m'"
  obtains s ma mb mc md me mf mg mh mi d1 d2 v e heap where
    "s = unat (startinfo_start ma)" "mem_size ma = mem_size m"
    "store_u32 ma s 0 = Inr mb" "store_u32 mb (s + 4) (of_nat (length (string_list envp))) = Inr mc"
    "store_u32 mc (s + 8) (of_nat (length (string_list argv))) = Inr md"
    "copy_strings md (s + 12) (s + 4 * (3 + (length (string_list argv) + 1) + (length (string_list envp) + 1) + 3))
       (string_list argv) = Inr (me, d1)"
    "copy_strings me (s + 12 + 4 * (length (string_list argv) + 1)) d1 (string_list envp) = Inr (mf, d2)"
    "store_u32 mf (s + 12 + 4 * (length (string_list argv) + 1) + 4 * (length (string_list envp) + 1)) 32 = Inr mg"
    "store_u32 mg (s + 12 + 4 * (length (string_list argv) + 1) + 4 * (length (string_list envp) + 1) + 4) v = Inr mh"
    "store_u32 mh (s + 12 + 4 * (length (string_list argv) + 1) + 4 * (length (string_list envp) + 1) + 8) 0 = Inr mi"
    "e = of_nat d2" "pn_align_up (ucast e) PN_PAGESIZE = Inr heap"
    "m' = mi\<lparr>startinfo_end := e, ppapi_start := e, ppapi_end := e, heap_start := ucast heap, stack_end := mem_size mi\<rparr>"
proof -
  from assms obtain al where al: "pn_align_up (ucast (globalvar_end m)) 4 = Inr al"
    unfolding pn_memory_init_startinfo_def rbind_eq_Inr by blast
  let ?ma = "m\<lparr>startinfo_start := ucast al\<rparr>"
  show thesis
    using assms al that [of "unat (ucast al :: u32)" ?ma]
    unfolding pn_memory_init_startinfo_def pn_string_list_count_length Let_def
    by (auto simp: rbind_eq_Inr)
qed

lemma keeps_outside_startinfo: "keeps_outside m m' S \<Longrightarrow> startinfo_start m' = startinfo_start m"
  by (metis PNMemory.ext_inject PNMemory.surjective PNMemory.update_convs(1) keeps_outside_def)

lemma startinfo_layout:
  assumes "pn_memory_init_startinfo m argv envp = Inr m'" and "s = unat (startinfo_start m')"
  shows "u32_at m' s = 0 \<and> u32_at m' (s + 4) = of_nat (length (string_list envp))
    \<and> u32_at m' (s + 8) = of_nat (length (string_list argv))
    \<and> string_table m' (s + 12) (string_list argv)
    \<and> string_table m' (s + 12 + 4 * (length (string_list argv) + 1)) (string_list envp)"
proof -
  let ?av = "string_list argv" and ?ev = "string_list envp"
  from assms(1) obtain s' ma mb mc md me mf mg mh mi d1 d2 v e heap where s': "s' = unat (startinfo_start ma)"
    and sz: "mem_size ma = mem_size m"
    and st: "store_u32 ma s' 0 = Inr mb" "store_u32 mb (s' + 4) (of_nat (length ?ev)) = Inr mc"
      "store_u32 mc (s' + 8) (of_nat (length ?av)) = Inr md"
      "copy_strings md (s' + 12) (s' + 4 * (3 + (length ?av + 1) + (length ?ev + 1) + 3)) ?av = Inr (me, d1)"
      "copy_strings me (s' + 12 + 4 * (length ?av + 1)) d1 ?ev = Inr (mf, d2)"
      "store_u32 mf (s' + 12 + 4 * (length ?av + 1) + 4 * (length ?ev + 1)) 32 = Inr mg"
      "store_u32 mg (s' + 12 + 4 * (length ?av + 1) + 4 * (length ?ev + 1) + 4) v = Inr mh"
      "store_u32 mh (s' + 12 + 4 * (length ?av + 1) + 4 * (length ?ev + 1) + 8) 0 = Inr mi"
    and e: "e = of_nat d2" and heap: "pn_align_up (ucast e) PN_PAGESIZE = Inr heap"
    and fin: "m' = mi\<lparr>startinfo_end := e, ppapi_start := e, ppapi_end := e, heap_start := ucast heap,
        stack_end := mem_size mi\<rparr>"
    by (rule startinfo_steps)
  let ?t1 = "s' + 12" and ?t2 = "s' + 12 + 4 * (length ?av + 1)"
  let ?d = "s' + 4 * (3 + (length ?av + 1) + (length ?ev + 1) + 3)"
  let ?x = "s' + 12 + 4 * (length ?av + 1) + 4 * (length ?ev + 1)"
  have av: "?t1 + 4 * (length ?av + 1) \<le> ?d" by simp
  note c1 = copy_strings_layout [OF st(4) av]
  have ev: "?t2 + 4 * (length ?ev + 1) \<le> d1" using c1 by simp
  note c2 = copy_strings_layout [OF st(5) ev]
  let ?A = "{?t1..<?t1 + 4 * (length ?av + 1)} \<union> {?d..<d1}"
  let ?B = "{?t2..<?t2 + 4 * (length ?ev + 1)} \<union> {d1..<d2}"
  let ?C = "{?x..<?x + 4} \<union> {?x + 4..<?x + 4 + 4} \<union> {?x + 8..<?x + 8 + 4}"
  have k1: "keeps_outside md me ?A" and k2: "keeps_outside me mf ?B" using c1 c2 by blast+
  have k3: "keeps_outside mf mi ?C"
    using keeps_outside_trans [OF keeps_outside_trans [OF store_u32_Inr(2) [OF st(6)] store_u32_Inr(2) [OF st(7)]]
        store_u32_Inr(2) [OF st(8)]] .
  note k23 = keeps_outside_trans [OF k2 k3]
  note k123 = keeps_outside_trans [OF k1 k23]
  have same: "u32_at m' = u32_at mi" "string_table m' = string_table mi"
    using fin by (auto simp: fun_eq_iff u32_at_def string_table_def bytes_at_def)
  have b: "?d \<le> d1" using c1 by simp
  have "u32_at mi (s' + 8) = u32_at md (s' + 8)" by (rule u32_at_kept [OF k123]) (use b in auto)
  then have h8: "u32_at mi (s' + 8) = of_nat (length ?av)" using store_u32_Inr(1) [OF st(3)] by simp
  note k8 = keeps_outside_trans [OF store_u32_Inr(2) [OF st(3)] k123]
  have "u32_at mi (s' + 4) = u32_at mc (s' + 4)" by (rule u32_at_kept [OF k8]) (use b in auto)
  then have h4: "u32_at mi (s' + 4) = of_nat (length ?ev)" using store_u32_Inr(1) [OF st(2)] by simp
  note k4 = keeps_outside_trans [OF store_u32_Inr(2) [OF st(2)] k8]
  have "u32_at mi s' = u32_at mb s'" by (rule u32_at_kept [OF k4]) (use b in auto)
  then have h0: "u32_at mi s' = 0" using store_u32_Inr(1) [OF st(1)] by simp
  have t1: "string_table mi ?t1 ?av"
    by (rule string_table_kept [of me _ _ ?d d1, OF _ _ k23]) (use c1 b in auto)
  have t2: "string_table mi ?t2 ?ev"
    by (rule string_table_kept [of mf _ _ d1 d2, OF _ _ k3]) (use c2 b in auto)
  have "startinfo_start mi = startinfo_start ma"
    by (rule keeps_outside_startinfo [OF keeps_outside_trans [OF store_u32_Inr(2) [OF st(1)] k4]])
  then have "s = s'" using s' fin assms(2) by simp
  then show ?thesis unfolding same using h0 h4 h8 t1 t2 by simp
qed


section \<open>Properties\<close>

text \<open>The heap starts inside a memory of whole pages.\<close>

lemma copy_strings_end:
  "copy_strings m t d ss = Inr (m', d') \<Longrightarrow> mem_size m' = mem_size m \<and> (d \<le> unat (mem_size m) \<longrightarrow> d' \<le> unat (mem_size m))"
proof (induction ss arbitrary: m t d)
  case Nil
  then show ?case by (auto simp: res_simps store_u32_def host_store_def split: if_splits)
next
  case (Cons s ss)
  then obtain m1 m2 where st: "host_store m d (s @ [0]) = Inr m1" "store_u32 m1 t (of_nat d) = Inr m2"
    "copy_strings m2 (t + 4) (d + (length s + 1)) ss = Inr (m', d')" by (auto simp: res_simps)
  then have "mem_size m2 = mem_size m" "d + (length s + 1) \<le> unat (mem_size m)" by (auto simp: store_u32_def host_store_def split: if_splits)
  with Cons.IH[OF st(3)] show ?case by simp
qed

lemma startinfo_heap:
  assumes "pn_memory_init_startinfo m argv envp = Inr m'"
  shows "mem_size m' = mem_size m" "4096 dvd unat (mem_size m) \<Longrightarrow> heap_start m' \<le> mem_size m'"
proof -
  let ?auxv = "\<lambda>s. s + 12 + 4 * (length (string_list argv) + 1) + 4 * (length (string_list envp) + 1)"
  from assms obtain s ma mb mc md me mf mg mh mi d1 d2 v e heap where "mem_size ma = mem_size m"
    and st: "store_u32 ma s 0 = Inr mb" "store_u32 mb (s + 4) (of_nat (length (string_list envp))) = Inr mc"
      "store_u32 mc (s + 8) (of_nat (length (string_list argv))) = Inr md"
      "store_u32 mf (?auxv s) 32 = Inr mg" "store_u32 mg (?auxv s + 4) v = Inr mh" "store_u32 mh (?auxv s + 8) 0 = Inr mi"
    and cp: "copy_strings md (s + 12) (s + 4 * (3 + (length (string_list argv) + 1) + (length (string_list envp) + 1) + 3)) (string_list argv) = Inr (me, d1)"
      "copy_strings me (s + 12 + 4 * (length (string_list argv) + 1)) d1 (string_list envp) = Inr (mf, d2)"
    and e: "e = of_nat d2" "pn_align_up (ucast e) PN_PAGESIZE = Inr heap"
      "m' = mi\<lparr>startinfo_end := e, ppapi_start := e, ppapi_end := e, heap_start := ucast heap, stack_end := mem_size mi\<rparr>"
    by (rule startinfo_steps) blast
  then have sz: "mem_size md = mem_size m" "mem_size mi = mem_size mf" "mem_size mh = mem_size mf" "?auxv s + 12 \<le> unat (mem_size mh)"
    by (auto simp: store_u32_def host_store_def split: if_splits)
  then have sz': "mem_size mi = mem_size m" "d2 \<le> unat (mem_size m)"
    using copy_strings_end[OF cp(1)] copy_strings_end[OF cp(2)] by auto
  show "mem_size m' = mem_size m" using e(3) sz'(1) by simp
  assume "4096 dvd unat (mem_size m)"
  then obtain k where k: "unat (mem_size m) = k * 4096" by (auto simp: dvd_def mult.commute)
  have "k < 2 ^ 20" using unat_bound[of "mem_size m"] k by simp
  have "unat e = d2" using e(1) sz'(2) unat_bound[of "mem_size m"] by (simp add: unat_of_nat_small)
  then have "unat (ucast e :: u64) = d2" by (simp add: unat_ucast_up)
  with pn_align_up_pow2[of 12 "ucast e"] e(2) sz'(2) k \<open>k < 2 ^ 20\<close> have "unat heap = (d2 + 4095) div 4096 * 4096" by auto
  moreover have "(d2 + 4095) div 4096 \<le> k" using sz'(2) k by simp
  ultimately have "unat heap \<le> k * 4096" by simp
  then have "unat (ucast heap :: u32) \<le> k * 4096" by (simp add: unsigned_ucast_eq take_bit_nat_eq_self order.trans[OF take_bit_nat_less_eq_self])
  then show "heap_start m' \<le> mem_size m'" using e(3) sz'(1) k by (simp add: word_le_nat_alt)
qed

text \<open>An access that the check lets through only because the sum of offset and size wraps around.\<close>

definition wraps_around :: "PNMemory \<Rightarrow> u32 \<Rightarrow> nat \<Rightarrow> bool" where
  "wraps_around m off n \<longleftrightarrow> 2 ^ 32 \<le> unat off + n \<and> unat off + n - 2 ^ 32 \<le> unat (mem_size m)"

lemma memory_check_exact:
  assumes "n \<le> 8"
  shows "pn_memory_check m off (of_nat n) = Inr () \<longleftrightarrow> in_memory m off n \<or> wraps_around m off n"
    "\<not> is_undefined (pn_memory_check m off (of_nat n))"
proof -
  show "pn_memory_check m off (of_nat n) = Inr () \<longleftrightarrow> in_memory m off n \<or> wraps_around m off n"
  proof (cases "unat off + n < 2 ^ 32")
    case True
    then show ?thesis using pn_memory_check_ok[OF True] by (simp add: wraps_around_def)
  next
    case False
    have "unat (of_nat n :: u32) = n" using assms by (intro unat_of_nat_small) simp
    then have "unat (off + of_nat n) = unat off + n - 2 ^ 32"
      using False assms unat_bound[of off] by (simp add: unat_word_ariths) (subst mod_if, simp)
    moreover have "1024 \<le> unat off" "\<not> in_memory m off n"
      using False assms unat_bound[of "mem_size m"] by (auto simp: in_memory_def)
    ultimately show ?thesis using False by (auto simp: pn_memory_check_def wraps_around_def word_less_nat_alt)
  qed
qed (simp add: pn_memory_check_def)

lemma memory_read_bounds:
  assumes "n \<le> 8"
  shows "(is_ok (memory_read n m off :: 'a::len word res) \<longleftrightarrow> in_memory m off n)
    \<and> (is_undefined (memory_read n m off :: 'a word res) \<longleftrightarrow> wraps_around m off n)"
  using memory_check_exact[OF assms, of m off] unat_bound[of "mem_size m"]
  by (cases "pn_memory_check m off (of_nat n)") (auto simp: is_undefined_iff memory_read_def host_load_def in_memory_def wraps_around_def)

lemma memory_write_bounds:
  assumes "n \<le> 8"
  shows "(is_ok (memory_write n m off v) \<longleftrightarrow> in_memory m off n) \<and> (is_undefined (memory_write n m off v) \<longleftrightarrow> wraps_around m off n)"
  using memory_check_exact[OF assms, of m off] unat_bound[of "mem_size m"]
  by (cases "pn_memory_check m off (of_nat n)") (auto simp: is_undefined_iff memory_write_def host_store_def in_memory_def wraps_around_def)

definition example_memory :: PNMemory where
  "example_memory = (pn_memory_init 8192 (\<lambda>_. 0))\<lparr>globalvar_start := 1024, globalvar_end := 1030\<rparr>"

text \<open>
  C32: An access of 1, 2, 4 or 8 bytes at any address succeeds exactly when it lies between the guard and the end of
  the memory. Every other access stops the guest with an error, except one: where the end of the access passes \<open>2^32\<close>, the sum in
  \<open>pn_memory_check\<close> wraps around, and if it is then not above the size, the access touches host memory outside the block.
\<close>

theorem pn_memory_access_bounds:
  "(is_ok (pn_memory_read_u8 m off) \<longleftrightarrow> in_memory m off 1) \<and> (is_undefined (pn_memory_read_u8 m off) \<longleftrightarrow> wraps_around m off 1) \<and>
   (is_ok (pn_memory_read_u16 m off) \<longleftrightarrow> in_memory m off 2) \<and> (is_undefined (pn_memory_read_u16 m off) \<longleftrightarrow> wraps_around m off 2) \<and>
   (is_ok (pn_memory_read_u32 m off) \<longleftrightarrow> in_memory m off 4) \<and> (is_undefined (pn_memory_read_u32 m off) \<longleftrightarrow> wraps_around m off 4) \<and>
   (is_ok (pn_memory_read_u64 m off) \<longleftrightarrow> in_memory m off 8) \<and> (is_undefined (pn_memory_read_u64 m off) \<longleftrightarrow> wraps_around m off 8) \<and>
   (is_ok (pn_memory_write_u8 m off a) \<longleftrightarrow> in_memory m off 1) \<and> (is_undefined (pn_memory_write_u8 m off a) \<longleftrightarrow> wraps_around m off 1) \<and>
   (is_ok (pn_memory_write_u16 m off b) \<longleftrightarrow> in_memory m off 2) \<and> (is_undefined (pn_memory_write_u16 m off b) \<longleftrightarrow> wraps_around m off 2) \<and>
   (is_ok (pn_memory_write_u32 m off c) \<longleftrightarrow> in_memory m off 4) \<and> (is_undefined (pn_memory_write_u32 m off c) \<longleftrightarrow> wraps_around m off 4) \<and>
   (is_ok (pn_memory_write_u64 m off d) \<longleftrightarrow> in_memory m off 8) \<and> (is_undefined (pn_memory_write_u64 m off d) \<longleftrightarrow> wraps_around m off 8)"
  unfolding pn_memory_read_u8_def pn_memory_read_u16_def pn_memory_read_u32_def pn_memory_read_u64_def
    pn_memory_write_u8_def pn_memory_write_u16_def pn_memory_write_u32_def pn_memory_write_u64_def
  by (simp add: memory_read_bounds memory_write_bounds)

text \<open>The check adds in 32 bits, so an access that starts just below \<open>2^32\<close> passes it.\<close>

theorem pn_memory_check_wraps:
  "is_undefined (pn_memory_read_u32 example_memory 0xFFFFFFFE) \<and>
   is_undefined (pn_memory_write_u64 example_memory 0xFFFFFFFC 0)"
  by (simp add: pn_memory_read_u32_def pn_memory_write_u64_def memory_read_def memory_write_def
      pn_memory_check_def example_memory_def pn_memory_init_def host_load_def host_store_def)

text \<open>
  What is written is read back, at any alignment, and a write leaves every cell that it does
  not overlap unchanged.
\<close>

theorem pn_memory_write_read:
  assumes "in_memory m a 4" and "in_memory m b 4" and "unat b + 4 \<le> unat a \<or> unat a + 4 \<le> unat b"
  shows "\<exists>m'. pn_memory_write_u32 m a v = Inr m' \<and> pn_memory_read_u32 m' a = Inr v
    \<and> pn_memory_read_u32 m' b = pn_memory_read_u32 m b"
  using mem32.wr_valid [OF assms(1), of v] assms(2,3) by blast

theorem pn_memory_write_read_witness:
  "\<exists>m'. pn_memory_write_u32 example_memory 2001 7 = Inr m' \<and> pn_memory_read_u32 m' 2001 = Inr 7"
proof -
  have "in_memory example_memory 2001 4" "in_memory example_memory 3000 4"
    by (simp_all add: in_memory_def example_memory_def pn_memory_init_def)
  from pn_memory_write_read [OF this, of 7] show ?thesis by auto
qed

text \<open>A C string that was stored in the guest's memory is measured with its own length.\<close>

theorem pn_memory_cstr_roundtrip:
  assumes "in_memory m a (length s + 1)" and "0 \<notin> set s"
  shows "\<exists>m'. pn_memory_write_cstr m a s = Inr m' \<and> pn_memory_check_cstr m' a = Inr (of_nat (length s))"
  using assms by (rule check_cstr_written)

theorem pn_memory_cstr_roundtrip_witness:
  "\<exists>m'. pn_memory_write_cstr example_memory 2000 [104, 105] = Inr m' \<and> pn_memory_check_cstr m' 2000 = Inr 2"
proof -
  have "in_memory example_memory 2000 (length [104 :: u8, 105] + 1)" "0 \<notin> set [104 :: u8, 105]"
    by (simp_all add: in_memory_def example_memory_def pn_memory_init_def)
  from pn_memory_cstr_roundtrip [OF this] show ?thesis by simp
qed

text \<open>
  C33: the start information is what the guest's entry point expects: at \<open>startinfo_start\<close> the words
  0, the number of environment strings and the number of arguments, then a table of pointers to
  copies of the arguments, each with its terminating 0, closed by a null pointer, then the same for
  the environment.
\<close>

theorem pn_memory_startinfo_layout:
  assumes "pn_memory_init_startinfo m argv envp = Inr m'" and "s = unat (startinfo_start m')"
  shows "u32_at m' s = 0 \<and> u32_at m' (s + 4) = of_nat (length (string_list envp))
    \<and> u32_at m' (s + 8) = of_nat (length (string_list argv))
    \<and> string_table m' (s + 12) (string_list argv)
    \<and> string_table m' (s + 12 + 4 * (length (string_list argv) + 1)) (string_list envp)"
  using assms by (rule startinfo_layout)

theorem pn_memory_startinfo_layout_witness:
  "\<exists>m'. pn_memory_init_startinfo example_memory (Some [[97]]) None = Inr m'
     \<and> string_table m' (unat (startinfo_start m') + 12) [[97]]"
proof -
  have "is_ok (pn_memory_init_startinfo example_memory (Some [[97]]) None)" by code_simp
  then obtain m' where m': "pn_memory_init_startinfo example_memory (Some [[97]]) None = Inr m'"
    by (auto simp: is_ok_iff)
  from pn_memory_startinfo_layout [OF this refl] m' show ?thesis by (simp add: string_list_def)
qed

end
