(* ===== verification/Pn_Types.thy ===== *)
theory Pn_Types
  imports Pn_Memory
begin

text \<open>
  The data model of a loaded program, \<^verbatim>\<open>src/pnacl.h\<close>, with the accessors of \<^verbatim>\<open>src/pn_module.h\<close> and
  \<^verbatim>\<open>src/pn_function.h\<close>: types, values, constants, the instructions as they are read from the
  bitcode, basic blocks, functions and the module.

  Ids are natural numbers; the invalid ids are the all-ones values of their C types. An array with
  its count is a list. The opcode fields of an instruction (\<open>binop_opcode\<close>, \<open>cast_opcode\<close>,
  \<open>cmp2_opcode\<close>) are the unchecked numbers of the bitcode, decoded to the enumerations below by
  whoever switches over them.
\<close>

section \<open>Enumerations\<close>

datatype PNTypeCode = PN_TYPE_CODE_UNSET | PN_TYPE_CODE_VOID | PN_TYPE_CODE_FLOAT
  | PN_TYPE_CODE_DOUBLE | PN_TYPE_CODE_INTEGER | PN_TYPE_CODE_FUNCTION

datatype PNBasicType = PN_BASIC_TYPE_VOID | PN_BASIC_TYPE_INT1 | PN_BASIC_TYPE_INT8
  | PN_BASIC_TYPE_INT16 | PN_BASIC_TYPE_INT32 | PN_BASIC_TYPE_INT64 | PN_BASIC_TYPE_FLOAT
  | PN_BASIC_TYPE_DOUBLE

datatype PNBinOp = PN_BINOP_ADD | PN_BINOP_SUB | PN_BINOP_MUL | PN_BINOP_UDIV | PN_BINOP_SDIV
  | PN_BINOP_UREM | PN_BINOP_SREM | PN_BINOP_SHL | PN_BINOP_LSHR | PN_BINOP_ASHR | PN_BINOP_AND
  | PN_BINOP_OR | PN_BINOP_XOR

datatype PNCast = PN_CAST_TRUNC | PN_CAST_ZEXT | PN_CAST_SEXT | PN_CAST_FPTOUI | PN_CAST_FPTOSI
  | PN_CAST_UITOFP | PN_CAST_SITOFP | PN_CAST_FPTRUNC | PN_CAST_FPEXT | PN_CAST_BITCAST

datatype PNCmp2 = PN_FCMP_FALSE | PN_FCMP_OEQ | PN_FCMP_OGT | PN_FCMP_OGE | PN_FCMP_OLT
  | PN_FCMP_OLE | PN_FCMP_ONE | PN_FCMP_ORD | PN_FCMP_UNO | PN_FCMP_UEQ | PN_FCMP_UGT
  | PN_FCMP_UGE | PN_FCMP_ULT | PN_FCMP_ULE | PN_FCMP_UNE | PN_FCMP_TRUE | PN_ICMP_EQ
  | PN_ICMP_NE | PN_ICMP_UGT | PN_ICMP_UGE | PN_ICMP_ULT | PN_ICMP_ULE | PN_ICMP_SGT
  | PN_ICMP_SGE | PN_ICMP_SLT | PN_ICMP_SLE

text \<open>The width suffix of the atomic intrinsics.\<close>

datatype atomic_width = I8 | I16 | I32 | I64

datatype PNIntrinsicId = PN_INTRINSIC_NULL
  | LLVM_BSWAP_I16 | LLVM_BSWAP_I32 | LLVM_BSWAP_I64
  | LLVM_CTLZ_I32 | LLVM_CTLZ_I64 | LLVM_CTTZ_I32 | LLVM_CTTZ_I64
  | LLVM_FABS_F32 | LLVM_FABS_F64 | LLVM_MEMCPY | LLVM_MEMMOVE | LLVM_MEMSET
  | LLVM_NACL_ATOMIC_CMPXCHG atomic_width | LLVM_NACL_ATOMIC_FENCE_ALL
  | LLVM_NACL_ATOMIC_LOAD atomic_width | LLVM_NACL_ATOMIC_RMW atomic_width
  | LLVM_NACL_ATOMIC_STORE atomic_width
  | LLVM_NACL_LONGJMP | LLVM_NACL_READ_TP | LLVM_NACL_SETJMP
  | LLVM_SQRT_F32 | LLVM_SQRT_F64 | LLVM_STACKRESTORE | LLVM_STACKSAVE | LLVM_TRAP
  | PN_INTRINSIC_START

datatype PNValueCode = PN_VALUE_CODE_FUNCTION | PN_VALUE_CODE_GLOBAL_VAR | PN_VALUE_CODE_CONSTANT
  | PN_VALUE_CODE_FUNCTION_ARG | PN_VALUE_CODE_LOCAL_VAR

datatype PNConstantCode = PN_CONSTANTS_CODE_UNDEF | PN_CONSTANTS_CODE_INTEGER
  | PN_CONSTANTS_CODE_FLOAT

text \<open>The numbers the bitcode uses for the three opcode enumerations.\<close>

definition decode_binop :: "nat \<Rightarrow> PNBinOp option" where
  "decode_binop n = map_of
     [(0, PN_BINOP_ADD), (1, PN_BINOP_SUB), (2, PN_BINOP_MUL), (3, PN_BINOP_UDIV),
      (4, PN_BINOP_SDIV), (5, PN_BINOP_UREM), (6, PN_BINOP_SREM), (7, PN_BINOP_SHL),
      (8, PN_BINOP_LSHR), (9, PN_BINOP_ASHR), (10, PN_BINOP_AND), (11, PN_BINOP_OR),
      (12, PN_BINOP_XOR)] n"

definition decode_cast :: "nat \<Rightarrow> PNCast option" where
  "decode_cast n = map_of
     [(0, PN_CAST_TRUNC), (1, PN_CAST_ZEXT), (2, PN_CAST_SEXT), (3, PN_CAST_FPTOUI),
      (4, PN_CAST_FPTOSI), (5, PN_CAST_UITOFP), (6, PN_CAST_SITOFP), (7, PN_CAST_FPTRUNC),
      (8, PN_CAST_FPEXT), (11, PN_CAST_BITCAST)] n"

definition decode_cmp2 :: "nat \<Rightarrow> PNCmp2 option" where
  "decode_cmp2 n = map_of
     [(0, PN_FCMP_FALSE), (1, PN_FCMP_OEQ), (2, PN_FCMP_OGT), (3, PN_FCMP_OGE), (4, PN_FCMP_OLT),
      (5, PN_FCMP_OLE), (6, PN_FCMP_ONE), (7, PN_FCMP_ORD), (8, PN_FCMP_UNO), (9, PN_FCMP_UEQ),
      (10, PN_FCMP_UGT), (11, PN_FCMP_UGE), (12, PN_FCMP_ULT), (13, PN_FCMP_ULE),
      (14, PN_FCMP_UNE), (15, PN_FCMP_TRUE), (32, PN_ICMP_EQ), (33, PN_ICMP_NE),
      (34, PN_ICMP_UGT), (35, PN_ICMP_UGE), (36, PN_ICMP_ULT), (37, PN_ICMP_ULE),
      (38, PN_ICMP_SGT), (39, PN_ICMP_SGE), (40, PN_ICMP_SLT), (41, PN_ICMP_SLE)] n"

section \<open>Ids\<close>

type_synonym PNTypeId = nat
type_synonym PNValueId = nat
type_synonym PNFunctionId = nat
type_synonym PNBasicBlockId = nat
type_synonym PNAlignment = nat

abbreviation (input) PN_INVALID_VALUE_ID :: PNValueId where "PN_INVALID_VALUE_ID \<equiv> 4294967295"
abbreviation (input) PN_INVALID_FUNCTION_ID :: PNFunctionId where
  "PN_INVALID_FUNCTION_ID \<equiv> 4294967295"
abbreviation (input) PN_INVALID_BB_ID :: PNBasicBlockId where "PN_INVALID_BB_ID \<equiv> 65535"
abbreviation (input) PN_INVALID_TYPE_ID :: PNTypeId where "PN_INVALID_TYPE_ID \<equiv> 65535"

section \<open>Types, values, constants\<close>

record PNType =
  type_code :: PNTypeCode
  basic_type :: PNBasicType
  type_width :: u32
  is_varargs :: bool
  return_type :: PNTypeId
  arg_types :: "PNTypeId list"

record PNValue =
  value_code :: PNValueCode
  value_idx :: nat
  value_type_id :: PNTypeId

text \<open>
  A \<open>PNRuntimeValue\<close> is a union of eight bytes; writing a narrower member keeps the other bytes
  (the host is little-endian, so the narrow members are the low bits).
\<close>

type_synonym PNRuntimeValue = u64

record PNConstant =
  constant_code :: PNConstantCode
  constant_type_id :: PNTypeId
  constant_basic_type :: PNBasicType
  constant_value :: PNRuntimeValue

record PNGlobalVar =
  num_initializers :: u32
  globalvar_alignment :: PNAlignment
  globalvar_offset :: u32
  is_constant :: bool

section \<open>Instructions\<close>

text \<open>
  One constructor per \<open>PNInstruction\<close> structure, with its fields in order. \<open>InstCall\<close> is both the
  direct and the indirect call.
\<close>

datatype PNInstruction =
    InstAlloca PNValueId PNValueId PNAlignment
  | InstBinop PNValueId PNValueId PNValueId nat u32
  | InstBr PNBasicBlockId PNBasicBlockId PNValueId
  | InstCall PNValueId nat PNValueId "PNValueId list" PNTypeId bool bool
  | InstCast PNValueId PNValueId nat PNTypeId
  | InstCmp2 PNValueId PNValueId PNValueId nat
  | InstForwardtyperef PNValueId PNTypeId
  | InstLoad PNValueId PNValueId PNAlignment PNTypeId
  | InstPhi PNValueId "(PNBasicBlockId \<times> PNValueId) list" PNTypeId
  | InstRet PNValueId
  | InstStore PNValueId PNValueId PNAlignment
  | InstSwitch PNValueId PNBasicBlockId "(u64 \<times> PNBasicBlockId) list" PNTypeId
  | InstUnreachable
  | InstVselect PNValueId PNValueId PNValueId PNValueId

record PNPhiUse =
  use_dest_value_id :: PNValueId
  use_incoming_bb_id :: PNBasicBlockId
  use_incoming_value_id :: PNValueId

record PNPhiAssign =
  assign_bb_id :: PNBasicBlockId
  source_value_id :: PNValueId
  dest_value_id :: PNValueId

record PNBasicBlock =
  instructions :: "PNInstruction list"
  phi_uses :: "PNPhiUse list"
  phi_assigns :: "PNPhiAssign list"
  fast_phi_assign :: bool
  succ_bb_ids :: "PNBasicBlockId list"
  pred_bb_ids :: "PNBasicBlockId list"
  bb_uses :: "PNValueId list"
  first_def_id :: PNValueId
  last_def_id :: PNValueId

section \<open>The instruction stream\<close>

text \<open>
  What \<^verbatim>\<open>pn_calculate_opcodes.h\<close> writes and the executor runs: one constructor per
  \<open>PNRuntimeInstruction\<close> structure. The opcode of the C enumeration is the constructor with its
  operation and basic types. The variable part behind a structure (the switch cases, the argument
  ids of a call) is the list in it; \<open>RPhiAssigns\<close> is the table behind a block's terminator, with
  its two 16-bit words. An address in the stream is its byte offset from \<open>function->instructions\<close>.
\<close>

type_synonym address = nat

datatype atomic_op = ATOMIC_ADD | ATOMIC_SUB | ATOMIC_AND | ATOMIC_OR | ATOMIC_XOR | ATOMIC_EXCHANGE

datatype call_opcode = OPCODE_CALL | OPCODE_INTRINSIC PNIntrinsicId
  | OPCODE_ATOMIC_RMW atomic_op atomic_width

record PNRuntimePhiAssign =
  phi_inst :: address
  phi_source_value_id :: PNValueId
  phi_dest_value_id :: PNValueId

datatype PNRuntimeInstruction =
    RAlloca PNBasicType PNValueId PNValueId PNAlignment
  | RBinop PNBinOp PNBasicType PNValueId PNValueId PNValueId
  | RBr address
  | RBrInt1 PNValueId address address
  | RCall call_opcode PNValueId PNValueId u8 u8 "PNValueId list"
  | RCast PNCast PNBasicType PNBasicType PNValueId PNValueId
  | RCmp2 PNCmp2 PNBasicType PNValueId PNValueId PNValueId
  | RLoad PNBasicType PNValueId PNValueId PNAlignment
  | RRet
  | RRetValue PNValueId
  | RStore PNBasicType PNValueId PNValueId PNAlignment
  | RSwitch PNBasicType PNValueId address "(u64 \<times> address) list"
  | RUnreachable
  | RVselect PNValueId PNValueId PNValueId PNValueId
  | RPhiAssigns u16 u16 "PNRuntimePhiAssign list"

type_synonym instruction_stream = "(address \<times> PNRuntimeInstruction) list"

section \<open>Functions and modules\<close>

record PNFunction =
  function_name :: "string option"
  function_type_id :: PNTypeId
  intrinsic_id :: PNIntrinsicId
  num_args :: nat
  calling_convention :: u32
  is_proto :: bool
  function_linkage :: u32
  constants :: "PNConstant list"
  bbs :: "PNBasicBlock list"
  function_values :: "PNValue list"
  num_instructions :: nat
  function_instructions :: instruction_stream

record PNModule =
  module_version :: u32
  module_functions :: "PNFunction list"
  types :: "PNType list"
  global_vars :: "PNGlobalVar list"
  module_values :: "PNValue list"
  known_functions :: "PNIntrinsicId \<Rightarrow> PNFunctionId"
  module_memory :: PNMemory

definition pn_module_init :: "PNMemory \<Rightarrow> PNModule" where
  "pn_module_init memory =
     \<lparr>module_version = 0, module_functions = [], types = [], global_vars = [], module_values = [],
      known_functions = (\<lambda>_. PN_INVALID_FUNCTION_ID), module_memory = memory\<rparr>"

text \<open>The reset clears the whole structure with zero bytes, the known functions too.\<close>

definition pn_module_reset :: "PNModule \<Rightarrow> PNModule" where
  "pn_module_reset module =
     \<lparr>module_version = 0, module_functions = [], types = [], global_vars = [], module_values = [],
      known_functions = (\<lambda>_. 0), module_memory = pn_memory_reset (module_memory module)\<rparr>"

definition pn_type_id_check :: "PNModule \<Rightarrow> PNTypeId \<Rightarrow> unit res" where
  "pn_type_id_check module type_id = ensure (type_id < length (types module)) (Check ''type_id'')"

fun find_integer_type :: "nat \<Rightarrow> PNType list \<Rightarrow> u32 \<Rightarrow> PNTypeId res" where
  "find_integer_type n [] width = Inl (Fatal ''No integer type found'')"
| "find_integer_type n (type # ts) width =
     (if type_code type = PN_TYPE_CODE_INTEGER \<and> type_width type = width then Inr n
      else find_integer_type (Suc n) ts width)"

definition pn_module_find_integer_type :: "PNModule \<Rightarrow> u32 \<Rightarrow> PNTypeId res" where
  "pn_module_find_integer_type module width = find_integer_type 0 (types module) width"

definition pn_module_find_pointer_type :: "PNModule \<Rightarrow> PNTypeId res" where
  "pn_module_find_pointer_type module = pn_module_find_integer_type module 32"

definition pn_function_id_check :: "PNModule \<Rightarrow> PNFunctionId \<Rightarrow> unit res" where
  "pn_function_id_check module function_id =
     ensure (function_id < length (module_functions module)) (Check ''function_id'')"

definition pn_global_var_id_check :: "PNModule \<Rightarrow> nat \<Rightarrow> unit res" where
  "pn_global_var_id_check module global_var_id =
     ensure (global_var_id < length (global_vars module)) (Check ''global_var_id'')"

definition pn_module_value_id_check :: "PNModule \<Rightarrow> PNValueId \<Rightarrow> unit res" where
  "pn_module_value_id_check module value_id =
     ensure (value_id < length (module_values module)) (Check ''value_id'')"

definition pn_module_append_value :: "PNModule \<Rightarrow> PNValue \<Rightarrow> PNModule \<times> PNValueId" where
  "pn_module_append_value module v =
     (module\<lparr>module_values := module_values module @ [v]\<rparr>, length (module_values module))"

text \<open>The constant id is a 16-bit number, the count is not.\<close>

definition pn_function_append_constant :: "PNFunction \<Rightarrow> PNConstant \<Rightarrow> PNFunction \<times> nat" where
  "pn_function_append_constant f c =
     (f\<lparr>constants := constants f @ [c]\<rparr>, length (constants f) mod 2 ^ 16)"

definition pn_function_get_value :: "PNModule \<Rightarrow> PNFunction \<Rightarrow> PNValueId \<Rightarrow> PNValue res" where
  "pn_function_get_value module f value_id =
     (if value_id < length (module_values module) then Inr (module_values module ! value_id)
      else let value_id = value_id - length (module_values module) in
        if value_id < length (function_values f) then Inr (function_values f ! value_id)
        else Inl (Fatal ''accessing invalid value''))"

definition pn_function_append_value ::
    "PNModule \<Rightarrow> PNFunction \<Rightarrow> PNValue \<Rightarrow> PNFunction \<times> PNValueId" where
  "pn_function_append_value module f v =
     (f\<lparr>function_values := function_values f @ [v]\<rparr>,
      length (module_values module) + length (function_values f))"

definition pn_function_num_values :: "PNModule \<Rightarrow> PNFunction \<Rightarrow> nat" where
  "pn_function_num_values module f = length (module_values module) + length (function_values f)"

end
