(* ===== verification/Pn_Opcodes.thy ===== *)
theory Pn_Opcodes
  imports Pn_Types
begin

text \<open>
  Translation of a function's basic blocks to the instruction stream the executor runs,
  \<^verbatim>\<open>src/pn_calculate_opcodes.h\<close>. The function walks over the blocks twice: once to find the
  address of every block, once to write the instructions with the addresses of their targets. The
  tables \<open>binop_types\<close>, \<open>cast_types\<close>, \<open>cmp2_types\<close>, ... list which opcodes of \<open>PN_FOREACH_OPCODE\<close>
  exist. A switch over a number of the bitcode that no case catches leaves the opcode unset:
  \<open>Undefined\<close>.
\<close>

section \<open>Opcode selection\<close>

abbreviation (input) "INT1 \<equiv> PN_BASIC_TYPE_INT1"
abbreviation (input) "INT8 \<equiv> PN_BASIC_TYPE_INT8"
abbreviation (input) "INT16 \<equiv> PN_BASIC_TYPE_INT16"
abbreviation (input) "INT32 \<equiv> PN_BASIC_TYPE_INT32"
abbreviation (input) "INT64 \<equiv> PN_BASIC_TYPE_INT64"
abbreviation (input) "FLOAT \<equiv> PN_BASIC_TYPE_FLOAT"
abbreviation (input) "DOUBLE \<equiv> PN_BASIC_TYPE_DOUBLE"

fun binop_types :: "PNBinOp \<Rightarrow> PNBasicType list" where
  "binop_types PN_BINOP_ADD = [DOUBLE, FLOAT, INT8, INT16, INT32, INT64]"
| "binop_types PN_BINOP_SUB = [DOUBLE, FLOAT, INT8, INT16, INT32, INT64]"
| "binop_types PN_BINOP_MUL = [DOUBLE, FLOAT, INT8, INT16, INT32, INT64]"
| "binop_types PN_BINOP_UDIV = [INT8, INT16, INT32, INT64]"
| "binop_types PN_BINOP_SDIV = [DOUBLE, FLOAT, INT32, INT64]"
| "binop_types PN_BINOP_UREM = [INT8, INT16, INT32, INT64]"
| "binop_types PN_BINOP_SREM = [INT32, INT64]"
| "binop_types PN_BINOP_SHL = [INT8, INT16, INT32, INT64]"
| "binop_types PN_BINOP_LSHR = [INT8, INT16, INT32, INT64]"
| "binop_types PN_BINOP_ASHR = [INT8, INT16, INT32, INT64]"
| "binop_types PN_BINOP_AND = [INT1, INT8, INT16, INT32, INT64]"
| "binop_types PN_BINOP_OR = [INT1, INT8, INT16, INT32, INT64]"
| "binop_types PN_BINOP_XOR = [INT1, INT8, INT16, INT32, INT64]"

fun cast_types :: "PNCast \<Rightarrow> (PNBasicType \<times> PNBasicType) list" where
  "cast_types PN_CAST_TRUNC =
     [(INT8, INT1), (INT16, INT1), (INT16, INT8), (INT32, INT1), (INT32, INT8), (INT32, INT16),
      (INT64, INT8), (INT64, INT16), (INT64, INT32)]"
| "cast_types PN_CAST_ZEXT =
     [(INT1, INT8), (INT1, INT16), (INT1, INT32), (INT1, INT64), (INT8, INT16), (INT8, INT32),
      (INT8, INT64), (INT16, INT32), (INT16, INT64), (INT32, INT64)]"
| "cast_types PN_CAST_SEXT =
     [(INT1, INT8), (INT1, INT16), (INT1, INT32), (INT1, INT64), (INT8, INT16), (INT8, INT32),
      (INT8, INT64), (INT16, INT32), (INT16, INT64), (INT32, INT64)]"
| "cast_types PN_CAST_FPTOUI =
     [(DOUBLE, INT8), (DOUBLE, INT16), (DOUBLE, INT32), (DOUBLE, INT64),
      (FLOAT, INT8), (FLOAT, INT16), (FLOAT, INT32), (FLOAT, INT64)]"
| "cast_types PN_CAST_FPTOSI =
     [(DOUBLE, INT8), (DOUBLE, INT16), (DOUBLE, INT32), (DOUBLE, INT64),
      (FLOAT, INT8), (FLOAT, INT16), (FLOAT, INT32), (FLOAT, INT64)]"
| "cast_types PN_CAST_UITOFP =
     [(INT8, DOUBLE), (INT8, FLOAT), (INT16, DOUBLE), (INT16, FLOAT), (INT32, DOUBLE),
      (INT32, FLOAT), (INT64, DOUBLE), (INT64, FLOAT)]"
| "cast_types PN_CAST_SITOFP =
     [(INT8, DOUBLE), (INT8, FLOAT), (INT16, DOUBLE), (INT16, FLOAT), (INT32, DOUBLE),
      (INT32, FLOAT), (INT64, DOUBLE), (INT64, FLOAT)]"
| "cast_types PN_CAST_FPTRUNC = [(DOUBLE, FLOAT)]"
| "cast_types PN_CAST_FPEXT = [(FLOAT, DOUBLE)]"
| "cast_types PN_CAST_BITCAST =
     [(DOUBLE, INT64), (FLOAT, INT32), (INT32, FLOAT), (INT64, DOUBLE)]"

fun cmp2_types :: "PNCmp2 \<Rightarrow> PNBasicType list" where
  "cmp2_types PN_FCMP_FALSE = []"
| "cmp2_types PN_FCMP_OEQ = [DOUBLE, FLOAT]"
| "cmp2_types PN_FCMP_OGT = [DOUBLE, FLOAT]"
| "cmp2_types PN_FCMP_OGE = [DOUBLE, FLOAT]"
| "cmp2_types PN_FCMP_OLT = [DOUBLE, FLOAT]"
| "cmp2_types PN_FCMP_OLE = [DOUBLE, FLOAT]"
| "cmp2_types PN_FCMP_ONE = [DOUBLE, FLOAT]"
| "cmp2_types PN_FCMP_ORD = [DOUBLE, FLOAT]"
| "cmp2_types PN_FCMP_UNO = [DOUBLE, FLOAT]"
| "cmp2_types PN_FCMP_UEQ = [DOUBLE, FLOAT]"
| "cmp2_types PN_FCMP_UGT = [DOUBLE, FLOAT]"
| "cmp2_types PN_FCMP_UGE = [DOUBLE, FLOAT]"
| "cmp2_types PN_FCMP_ULT = [DOUBLE, FLOAT]"
| "cmp2_types PN_FCMP_ULE = [DOUBLE, FLOAT]"
| "cmp2_types PN_FCMP_UNE = [DOUBLE, FLOAT]"
| "cmp2_types PN_FCMP_TRUE = []"
| "cmp2_types PN_ICMP_EQ = [INT8, INT16, INT32, INT64]"
| "cmp2_types PN_ICMP_NE = [INT8, INT16, INT32, INT64]"
| "cmp2_types PN_ICMP_UGT = [INT8, INT16, INT32, INT64]"
| "cmp2_types PN_ICMP_UGE = [INT8, INT16, INT32, INT64]"
| "cmp2_types PN_ICMP_ULT = [INT8, INT16, INT32, INT64]"
| "cmp2_types PN_ICMP_ULE = [INT8, INT16, INT32, INT64]"
| "cmp2_types PN_ICMP_SGT = [INT8, INT16, INT32, INT64]"
| "cmp2_types PN_ICMP_SGE = [INT8, INT16, INT32, INT64]"
| "cmp2_types PN_ICMP_SLT = [INT8, INT16, INT32, INT64]"
| "cmp2_types PN_ICMP_SLE = [INT8, INT16, INT32, INT64]"

definition load_store_types :: "PNBasicType list" where
  "load_store_types = [DOUBLE, FLOAT, INT8, INT16, INT32, INT64]"

definition switch_types :: "PNBasicType list" where
  "switch_types = [INT1, INT8, INT16, INT32, INT64]"

definition if_type :: "'a list \<Rightarrow> 'a \<Rightarrow> unit res" where
  "if_type tys ty = ensure (ty \<in> set tys) (Fatal ''basic type unsupported'')"

definition type_basic_type :: "PNModule \<Rightarrow> PNTypeId \<Rightarrow> PNBasicType res" where
  "type_basic_type module type_id =
     rbind (nth_res (types module) type_id) (\<lambda>type. Inr (basic_type type))"

definition value_basic_type :: "PNModule \<Rightarrow> PNFunction \<Rightarrow> PNValueId \<Rightarrow> PNBasicType res" where
  "value_basic_type module f value_id =
     rbind (pn_function_get_value module f value_id) (\<lambda>v. type_basic_type module (value_type_id v))"

section \<open>One instruction\<close>

definition emit_binop ::
    "PNModule \<Rightarrow> PNFunction \<Rightarrow> PNValueId \<Rightarrow> PNValueId \<Rightarrow> PNValueId \<Rightarrow> nat \<Rightarrow> PNRuntimeInstruction res" where
  "emit_binop module f result_id v0 v1 opcode =
     rbind (value_basic_type module f v0) (\<lambda>bt0.
     rbind (value_basic_type module f v1) (\<lambda>bt1.
     rbind (ensure (bt0 = bt1) (Fatal ''Expected binop to have the same basic type'')) (\<lambda>_.
     case decode_binop opcode of None \<Rightarrow> Inl (Undefined ''opcode not set'')
     | Some op \<Rightarrow> rbind (if_type (binop_types op) bt0) (\<lambda>_. Inr (RBinop op bt0 result_id v0 v1)))))"

definition emit_cast ::
    "PNModule \<Rightarrow> PNFunction \<Rightarrow> PNValueId \<Rightarrow> PNValueId \<Rightarrow> nat \<Rightarrow> PNTypeId \<Rightarrow> PNRuntimeInstruction res" where
  "emit_cast module f result_id v opcode type_id =
     rbind (value_basic_type module f v) (\<lambda>bt0.
     rbind (type_basic_type module type_id) (\<lambda>bt1.
     case decode_cast opcode of None \<Rightarrow> Inl (Undefined ''opcode not set'')
     | Some op \<Rightarrow>
         rbind (if_type (cast_types op) (bt0, bt1)) (\<lambda>_. Inr (RCast op bt0 bt1 result_id v))))"

definition emit_br :: "PNModule \<Rightarrow> PNFunction \<Rightarrow> address list \<Rightarrow> PNBasicBlockId \<Rightarrow> PNBasicBlockId \<Rightarrow>
    PNValueId \<Rightarrow> PNRuntimeInstruction res" where
  "emit_br module f bb_offsets true_bb_id false_bb_id v =
     (if v \<noteq> PN_INVALID_VALUE_ID then
        rbind (value_basic_type module f v) (\<lambda>bt0.
        rbind (if_type [INT1] bt0) (\<lambda>_.
        rbind (nth_res bb_offsets true_bb_id) (\<lambda>true_inst.
        rbind (nth_res bb_offsets false_bb_id) (\<lambda>false_inst.
        Inr (RBrInt1 v true_inst false_inst)))))
      else rbind (nth_res bb_offsets true_bb_id) (\<lambda>inst. Inr (RBr inst)))"

fun switch_cases ::
    "address list \<Rightarrow> (u64 \<times> PNBasicBlockId) list \<Rightarrow> (u64 \<times> address) list res" where
  "switch_cases bb_offsets [] = Inr []"
| "switch_cases bb_offsets ((v, bb_id) # cs) =
     rbind (nth_res bb_offsets bb_id) (\<lambda>inst.
     rbind (switch_cases bb_offsets cs) (\<lambda>rest. Inr ((v, inst) # rest)))"

definition emit_switch :: "PNModule \<Rightarrow> PNFunction \<Rightarrow> address list \<Rightarrow> PNValueId \<Rightarrow> PNBasicBlockId \<Rightarrow>
    (u64 \<times> PNBasicBlockId) list \<Rightarrow> PNRuntimeInstruction res" where
  "emit_switch module f bb_offsets v default_bb_id cs =
     rbind (value_basic_type module f v) (\<lambda>bt0.
     rbind (if_type switch_types bt0) (\<lambda>_.
     rbind (nth_res bb_offsets default_bb_id) (\<lambda>default_inst.
     rbind (switch_cases bb_offsets cs) (\<lambda>cases.
     Inr (RSwitch bt0 v default_inst cases)))))"

definition emit_alloca ::
    "PNModule \<Rightarrow> PNFunction \<Rightarrow> PNValueId \<Rightarrow> PNValueId \<Rightarrow> PNAlignment \<Rightarrow> PNRuntimeInstruction res" where
  "emit_alloca module f result_id size_id alignment =
     rbind (value_basic_type module f size_id) (\<lambda>bt0.
     rbind (if_type [INT32] bt0) (\<lambda>_. Inr (RAlloca bt0 result_id size_id alignment)))"

definition emit_load :: "PNModule \<Rightarrow> PNFunction \<Rightarrow> PNValueId \<Rightarrow> PNValueId \<Rightarrow> PNAlignment \<Rightarrow> PNTypeId \<Rightarrow>
    PNRuntimeInstruction res" where
  "emit_load module f result_id src_id alignment type_id =
     rbind (type_basic_type module type_id) (\<lambda>bt0.
     rbind (value_basic_type module f src_id) (\<lambda>src_bt.
     rbind (ensure (src_bt = INT32) (Fatal ''Expected load src to have the int32 basic type'')) (\<lambda>_.
     rbind (if_type load_store_types bt0) (\<lambda>_. Inr (RLoad bt0 result_id src_id alignment)))))"

definition emit_store ::
    "PNModule \<Rightarrow> PNFunction \<Rightarrow> PNValueId \<Rightarrow> PNValueId \<Rightarrow> PNAlignment \<Rightarrow> PNRuntimeInstruction res" where
  "emit_store module f dest_id v alignment =
     rbind (value_basic_type module f v) (\<lambda>bt0.
     rbind (value_basic_type module f dest_id) (\<lambda>dest_bt.
     rbind (ensure (dest_bt = INT32) (Fatal ''Expected store dest to have the int32 basic type''))
       (\<lambda>_. rbind (if_type load_store_types bt0) (\<lambda>_. Inr (RStore bt0 dest_id v alignment)))))"

definition emit_cmp2 ::
    "PNModule \<Rightarrow> PNFunction \<Rightarrow> PNValueId \<Rightarrow> PNValueId \<Rightarrow> PNValueId \<Rightarrow> nat \<Rightarrow> PNRuntimeInstruction res" where
  "emit_cmp2 module f result_id v0 v1 opcode =
     rbind (value_basic_type module f v0) (\<lambda>bt0.
     rbind (value_basic_type module f v1) (\<lambda>bt1.
     rbind (ensure (bt0 = bt1) (Fatal ''Expected cmp2 to have the same basic type'')) (\<lambda>_.
     case decode_cmp2 opcode of None \<Rightarrow> Inl (Undefined ''opcode not set'')
     | Some op \<Rightarrow> rbind (if_type (cmp2_types op) bt0) (\<lambda>_. Inr (RCmp2 op bt0 result_id v0 v1)))))"

definition emit_vselect :: "PNModule \<Rightarrow> PNFunction \<Rightarrow> PNValueId \<Rightarrow> PNValueId \<Rightarrow> PNValueId \<Rightarrow> PNValueId \<Rightarrow>
    PNRuntimeInstruction res" where
  "emit_vselect module f result_id cond_id true_id false_id =
     rbind (value_basic_type module f true_id) (\<lambda>bt0.
     rbind (value_basic_type module f false_id) (\<lambda>bt1.
     rbind (value_basic_type module f cond_id) (\<lambda>bt2.
     rbind (ensure (bt2 = INT1) (Fatal ''Expected vselect cond to have basic type int1'')) (\<lambda>_.
     rbind (ensure (bt0 = bt1) (Fatal ''Expected vselect to have the same basic type'')) (\<lambda>_.
     Inr (RVselect result_id cond_id true_id false_id))))))"

text \<open>The specialisation of the read-modify-write intrinsics by their constant first argument.\<close>

definition atomic_rmw_op :: "u32 \<Rightarrow> atomic_op res" where
  "atomic_rmw_op n =
     (if n = 1 then Inr ATOMIC_ADD else if n = 2 then Inr ATOMIC_SUB
      else if n = 3 then Inr ATOMIC_AND else if n = 4 then Inr ATOMIC_OR
      else if n = 5 then Inr ATOMIC_XOR else if n = 6 then Inr ATOMIC_EXCHANGE
      else Inl (Fatal ''unreachable''))"

definition specialize_rmw ::
    "PNModule \<Rightarrow> PNFunction \<Rightarrow> atomic_width \<Rightarrow> PNValueId list \<Rightarrow> call_opcode res" where
  "specialize_rmw module f w args =
     rbind (ensure (length args = 4) (Check ''i->num_args == 4'')) (\<lambda>_.
     rbind (pn_function_get_value module f (args ! 0)) (\<lambda>opcode.
     rbind (ensure (value_code opcode = PN_VALUE_CODE_CONSTANT) (Check ''opcode->code'')) (\<lambda>_.
     rbind (nth_res (constants f) (value_idx opcode)) (\<lambda>op.
     rbind (ensure (constant_basic_type op = INT32) (Check ''op->basic_type'')) (\<lambda>_.
     rbind (atomic_rmw_op (ucast (constant_value op))) (\<lambda>a. Inr (OPCODE_ATOMIC_RMW a w)))))))"

definition call_opcode_for ::
    "PNModule \<Rightarrow> PNFunction \<Rightarrow> PNValueId \<Rightarrow> PNValueId list \<Rightarrow> call_opcode res" where
  "call_opcode_for module f callee_id args =
     rbind (pn_function_get_value module f callee_id) (\<lambda>callee.
     rbind (ensure (value_code callee = PN_VALUE_CODE_FUNCTION) (Assertion ''callee->code'')) (\<lambda>_.
     rbind (nth_res (module_functions module) (value_idx callee)) (\<lambda>callee_function.
     case intrinsic_id callee_function of
       PN_INTRINSIC_NULL \<Rightarrow> Inr OPCODE_CALL
     | LLVM_NACL_ATOMIC_RMW w \<Rightarrow> specialize_rmw module f w args
     | i \<Rightarrow> Inr (OPCODE_INTRINSIC i))))"

definition call_flags :: "bool \<Rightarrow> bool \<Rightarrow> bool \<Rightarrow> u8" where
  "call_flags indirect tail_call return_void =
     (if indirect then 1 else 0) OR (if tail_call then 2 else 0) OR (if return_void then 4 else 0)"

definition emit_call :: "PNModule \<Rightarrow> PNFunction \<Rightarrow> PNValueId \<Rightarrow> PNValueId \<Rightarrow> PNValueId list \<Rightarrow>
    PNTypeId \<Rightarrow> bool \<Rightarrow> bool \<Rightarrow> PNRuntimeInstruction res" where
  "emit_call module f result_id callee_id args return_type_id is_indirect is_tail_call =
     rbind (if is_indirect then Inr OPCODE_CALL else call_opcode_for module f callee_id args) (\<lambda>op.
     rbind (nth_res (types module) return_type_id) (\<lambda>return_type.
     Inr (RCall op result_id callee_id (of_nat (length args))
            (call_flags is_indirect is_tail_call (type_code return_type = PN_TYPE_CODE_VOID)) args)))"

section \<open>The instruction stream\<close>

text \<open>The sizes of the structures on a 64-bit host, with what follows them.\<close>

fun rinst_size :: "PNRuntimeInstruction \<Rightarrow> nat" where
  "rinst_size (RAlloca _ _ _ _) = 16"
| "rinst_size (RBinop _ _ _ _ _) = 16"
| "rinst_size (RBr _) = 16"
| "rinst_size (RBrInt1 _ _ _) = 24"
| "rinst_size (RCall _ _ _ _ _ args) = 16 + 4 * length args"
| "rinst_size (RCast _ _ _ _ _) = 12"
| "rinst_size (RCmp2 _ _ _ _ _) = 16"
| "rinst_size (RLoad _ _ _ _) = 16"
| "rinst_size RRet = 4"
| "rinst_size (RRetValue _) = 8"
| "rinst_size (RStore _ _ _ _) = 16"
| "rinst_size (RSwitch _ _ _ cases) = 24 + 16 * length cases"
| "rinst_size RUnreachable = 4"
| "rinst_size (RVselect _ _ _ _) = 20"
| "rinst_size (RPhiAssigns _ _ assigns) = 4 + 16 * length assigns"

text \<open>
  The walk over a block keeps the offset, what has been written and \<open>write_phi_assigns\<close>. With
  \<open>write\<close> unset only the offset moves.
\<close>

record stream_state =
  st_offset :: address
  st_code :: instruction_stream
  write_phi_assigns :: bool

definition put :: "bool \<Rightarrow> PNRuntimeInstruction res \<Rightarrow> nat \<Rightarrow> stream_state \<Rightarrow> stream_state res" where
  "put write o_res sz st =
     rbind (if write then rbind o_res (\<lambda>inst. Inr (st_code st @ [(st_offset st, inst)]))
            else Inr (st_code st)) (\<lambda>code.
     Inr (st\<lparr>st_offset := st_offset st + sz, st_code := code\<rparr>))"

definition set_write_phi :: "stream_state res \<Rightarrow> stream_state res" where
  "set_write_phi r = rbind r (\<lambda>st. Inr (st\<lparr>write_phi_assigns := True\<rparr>))"

fun write_instruction :: "PNModule \<Rightarrow> PNFunction \<Rightarrow> address list \<Rightarrow> bool \<Rightarrow> PNInstruction \<Rightarrow>
    stream_state \<Rightarrow> stream_state res" where
  "write_instruction module f offs write (InstBinop r v0 v1 opcode flags) st =
     put write (emit_binop module f r v0 v1 opcode) 16 st"
| "write_instruction module f offs write (InstCast r v opcode type_id) st =
     put write (emit_cast module f r v opcode type_id) 12 st"
| "write_instruction module f offs write (InstRet v) st =
     (if v \<noteq> PN_INVALID_VALUE_ID then put write (Inr (RRetValue v)) 8 st
      else put write (Inr RRet) 4 st)"
| "write_instruction module f offs write (InstBr t e v) st =
     set_write_phi (put write (emit_br module f offs t e v)
       (if v \<noteq> PN_INVALID_VALUE_ID then 24 else 16) st)"
| "write_instruction module f offs write (InstSwitch v d cs type_id) st =
     set_write_phi (put write (emit_switch module f offs v d cs) (24 + 16 * length cs) st)"
| "write_instruction module f offs write InstUnreachable st = put write (Inr RUnreachable) 4 st"
| "write_instruction module f offs write (InstAlloca r s a) st =
     put write (emit_alloca module f r s a) 16 st"
| "write_instruction module f offs write (InstLoad r src a type_id) st =
     put write (emit_load module f r src a type_id) 16 st"
| "write_instruction module f offs write (InstStore dest v a) st =
     put write (emit_store module f dest v a) 16 st"
| "write_instruction module f offs write (InstCmp2 r v0 v1 opcode) st =
     put write (emit_cmp2 module f r v0 v1 opcode) 16 st"
| "write_instruction module f offs write (InstVselect r c t e) st =
     put write (emit_vselect module f r c t e) 20 st"
| "write_instruction module f offs write (InstCall r cc callee args rt indirect tail) st =
     put write (emit_call module f r callee args rt indirect tail) (16 + 4 * length args) st"
| "write_instruction module f offs write (InstPhi r inc type_id) st = Inr st"
| "write_instruction module f offs write (InstForwardtyperef v type_id) st = Inr st"

fun write_instructions :: "PNModule \<Rightarrow> PNFunction \<Rightarrow> address list \<Rightarrow> bool \<Rightarrow> PNInstruction list \<Rightarrow>
    stream_state \<Rightarrow> stream_state res" where
  "write_instructions module f offs write [] st = Inr st"
| "write_instructions module f offs write (inst # rest) st =
     rbind (write_instruction module f offs write inst st)
       (write_instructions module f offs write rest)"

fun runtime_phi_assigns :: "address list \<Rightarrow> PNPhiAssign list \<Rightarrow> PNRuntimePhiAssign list res" where
  "runtime_phi_assigns offs [] = Inr []"
| "runtime_phi_assigns offs (p # ps) =
     rbind (nth_res offs (assign_bb_id p)) (\<lambda>inst.
     rbind (runtime_phi_assigns offs ps) (\<lambda>rest.
     Inr (\<lparr>phi_inst = inst, phi_source_value_id = source_value_id p,
           phi_dest_value_id = dest_value_id p\<rparr> # rest)))"

definition emit_phi_assigns :: "address list \<Rightarrow> PNBasicBlock \<Rightarrow> PNRuntimeInstruction res" where
  "emit_phi_assigns offs bb =
     rbind (runtime_phi_assigns offs (phi_assigns bb)) (\<lambda>assigns.
     Inr (RPhiAssigns (of_nat (length (phi_assigns bb))) (if fast_phi_assign bb then 1 else 0) assigns))"

definition pn_basic_block_write_instruction_stream :: "PNModule \<Rightarrow> PNFunction \<Rightarrow> PNBasicBlock \<Rightarrow>
    address list \<Rightarrow> address \<Rightarrow> instruction_stream \<Rightarrow> bool \<Rightarrow> (address \<times> instruction_stream) res" where
  "pn_basic_block_write_instruction_stream module f bb offs offset code write =
     rbind (write_instructions module f offs write (instructions bb)
              \<lparr>st_offset = offset, st_code = code, write_phi_assigns = False\<rparr>) (\<lambda>st.
     rbind (if write_phi_assigns st
            then put write (emit_phi_assigns offs bb) (4 + 16 * length (phi_assigns bb)) st
            else Inr st) (\<lambda>st.
     Inr (st_offset st, st_code st)))"

definition align_offset_4 :: "address \<Rightarrow> address" where
  "align_offset_4 offset = (offset + 3) div 4 * 4"

fun layout_bbs :: "PNModule \<Rightarrow> PNFunction \<Rightarrow> PNBasicBlock list \<Rightarrow> address \<Rightarrow> (address list \<times> address) res" where
  "layout_bbs module f [] offset = Inr ([], offset)"
| "layout_bbs module f (bb # rest) offset =
     (let offset = align_offset_4 offset in
      rbind (pn_basic_block_write_instruction_stream module f bb [] offset [] False) (\<lambda>(next, _).
      rbind (layout_bbs module f rest next) (\<lambda>(offs, last). Inr (offset # offs, last))))"

fun write_bbs :: "PNModule \<Rightarrow> PNFunction \<Rightarrow> address list \<Rightarrow> nat \<Rightarrow> PNBasicBlock list \<Rightarrow> address \<Rightarrow>
    instruction_stream \<Rightarrow> (address \<times> instruction_stream) res" where
  "write_bbs module f offs n [] offset code = Inr (offset, code)"
| "write_bbs module f offs n (bb # rest) offset code =
     (let offset = align_offset_4 offset in
      rbind (ensure (n < length offs \<and> offset = offs ! n) (Check ''offset == bb_offsets[n]'')) (\<lambda>_.
      rbind (pn_basic_block_write_instruction_stream module f bb offs offset code True)
        (\<lambda>(next, code). write_bbs module f offs (Suc n) rest next code)))"

definition trap_instruction :: PNRuntimeInstruction where
  "trap_instruction =
     RCall (OPCODE_INTRINSIC LLVM_TRAP) PN_INVALID_VALUE_ID PN_INVALID_VALUE_ID 0
       (call_flags True False True) []"

text \<open>
  The size of the stream is cut to 32 bits before the stream is allocated; a longer stream is
  written past its allocation.
\<close>

definition pn_function_calculate_opcodes :: "PNModule \<Rightarrow> PNFunction \<Rightarrow> PNFunction res" where
  "pn_function_calculate_opcodes module f =
     rbind (layout_bbs module f (bbs f) 0) (\<lambda>(bb_offsets, offset).
     rbind (ensure (offset + 16 < 2 ^ 32) (Undefined ''instruction stream overflow'')) (\<lambda>_.
     rbind (write_bbs module f bb_offsets 0 (bbs f) 0 []) (\<lambda>(offset, code).
     Inr (f\<lparr>function_instructions := code @ [(offset, trap_instruction)]\<rparr>))))"

section \<open>What is written\<close>

text \<open>
  The reference translation: the runtime instructions of one instruction (none for a phi or a
  forward type reference), of a block with its phi table, and the placement of a list of
  instructions one behind the other.
\<close>

fun inst_emits :: "PNModule \<Rightarrow> PNFunction \<Rightarrow> address list \<Rightarrow> PNInstruction \<Rightarrow>
    PNRuntimeInstruction list res" where
  "inst_emits m f offs (InstBinop r v0 v1 opcode flags) =
     rbind (emit_binop m f r v0 v1 opcode) (\<lambda>i. Inr [i])"
| "inst_emits m f offs (InstCast r v opcode ty) = rbind (emit_cast m f r v opcode ty) (\<lambda>i. Inr [i])"
| "inst_emits m f offs (InstRet v) =
     Inr [if v \<noteq> PN_INVALID_VALUE_ID then RRetValue v else RRet]"
| "inst_emits m f offs (InstBr t e v) = rbind (emit_br m f offs t e v) (\<lambda>i. Inr [i])"
| "inst_emits m f offs (InstSwitch v d cs ty) = rbind (emit_switch m f offs v d cs) (\<lambda>i. Inr [i])"
| "inst_emits m f offs InstUnreachable = Inr [RUnreachable]"
| "inst_emits m f offs (InstAlloca r s a) = rbind (emit_alloca m f r s a) (\<lambda>i. Inr [i])"
| "inst_emits m f offs (InstLoad r s a ty) = rbind (emit_load m f r s a ty) (\<lambda>i. Inr [i])"
| "inst_emits m f offs (InstStore d v a) = rbind (emit_store m f d v a) (\<lambda>i. Inr [i])"
| "inst_emits m f offs (InstCmp2 r v0 v1 opcode) =
     rbind (emit_cmp2 m f r v0 v1 opcode) (\<lambda>i. Inr [i])"
| "inst_emits m f offs (InstVselect r c t e) = rbind (emit_vselect m f r c t e) (\<lambda>i. Inr [i])"
| "inst_emits m f offs (InstCall r cc callee args rt ind tail) =
     rbind (emit_call m f r callee args rt ind tail) (\<lambda>i. Inr [i])"
| "inst_emits m f offs (InstPhi r inc ty) = Inr []"
| "inst_emits m f offs (InstForwardtyperef v ty) = Inr []"

fun is_branch :: "PNInstruction \<Rightarrow> bool" where
  "is_branch (InstBr _ _ _) = True"
| "is_branch (InstSwitch _ _ _ _) = True"
| "is_branch _ = False"

fun emits_all :: "PNModule \<Rightarrow> PNFunction \<Rightarrow> address list \<Rightarrow> PNInstruction list \<Rightarrow>
    PNRuntimeInstruction list res" where
  "emits_all m f offs [] = Inr []"
| "emits_all m f offs (i # is) =
     rbind (inst_emits m f offs i) (\<lambda>c. rbind (emits_all m f offs is) (\<lambda>cs. Inr (c @ cs)))"

definition bb_emits :: "PNModule \<Rightarrow> PNFunction \<Rightarrow> address list \<Rightarrow> PNBasicBlock \<Rightarrow>
    PNRuntimeInstruction list res" where
  "bb_emits m f offs bb =
     rbind (emits_all m f offs (instructions bb)) (\<lambda>cs.
     if \<exists>i\<in>set (instructions bb). is_branch i
     then rbind (emit_phi_assigns offs bb) (\<lambda>p. Inr (cs @ [p])) else Inr cs)"

definition total_size :: "PNRuntimeInstruction list \<Rightarrow> nat" where
  "total_size cs = sum_list (map rinst_size cs)"

fun place :: "address \<Rightarrow> PNRuntimeInstruction list \<Rightarrow> instruction_stream" where
  "place a [] = []"
| "place a (i # is) = (a, i) # place (a + rinst_size i) is"

fun inst_size :: "PNInstruction \<Rightarrow> nat" where
  "inst_size (InstCast _ _ _ _) = 12"
| "inst_size (InstRet v) = (if v \<noteq> PN_INVALID_VALUE_ID then 8 else 4)"
| "inst_size (InstBr _ _ v) = (if v \<noteq> PN_INVALID_VALUE_ID then 24 else 16)"
| "inst_size (InstSwitch _ _ cs _) = 24 + 16 * length cs"
| "inst_size InstUnreachable = 4"
| "inst_size (InstVselect _ _ _ _) = 20"
| "inst_size (InstCall _ _ _ args _ _ _) = 16 + 4 * length args"
| "inst_size (InstPhi _ _ _) = 0"
| "inst_size (InstForwardtyperef _ _) = 0"
| "inst_size _ = 16"

definition bb_size :: "PNBasicBlock \<Rightarrow> nat" where
  "bb_size bb = sum_list (map inst_size (instructions bb)) +
     (if \<exists>i\<in>set (instructions bb). is_branch i then 4 + 16 * length (phi_assigns bb) else 0)"

lemma total_size_simps [simp]:
  "total_size [] = 0" "total_size (i # is) = rinst_size i + total_size is"
  "total_size (xs @ ys) = total_size xs + total_size ys"
  by (simp_all add: total_size_def)

lemma place_append [simp]: "place a (xs @ ys) = place a xs @ place (a + total_size xs) ys"
  by (induction xs arbitrary: a) (auto simp: add.assoc)

lemmas emit_defs = emit_binop_def emit_cast_def emit_br_def emit_switch_def emit_alloca_def
  emit_load_def emit_store_def emit_cmp2_def emit_vselect_def emit_call_def

lemma switch_cases_Inr:
  "switch_cases offs cs = Inr ds \<Longrightarrow> length ds = length cs \<and> (\<forall>d\<in>set ds. snd d \<in> set offs)"
  by (induction cs arbitrary: ds) (fastforce simp: res_simps)+

lemma runtime_phi_assigns_Inr:
  "runtime_phi_assigns offs ps = Inr qs \<Longrightarrow>
    length qs = length ps \<and> (\<forall>q\<in>set qs. phi_inst q \<in> set offs)"
  by (induction ps arbitrary: qs) (auto simp: res_simps)

lemma inst_emits_size: "inst_emits m f offs i = Inr cs \<Longrightarrow> total_size cs = inst_size i"
  by (cases i) (auto simp: emit_defs res_simps dest!: switch_cases_Inr split: if_splits option.splits)

lemma emits_all_size:
  "emits_all m f offs is = Inr cs \<Longrightarrow> total_size cs = sum_list (map inst_size is)"
  by (induction "is" arbitrary: cs) (auto simp: res_simps dest!: inst_emits_size)

lemma bb_emits_size: "bb_emits m f offs bb = Inr cs \<Longrightarrow> total_size cs = bb_size bb"
  by (auto simp: bb_emits_def bb_size_def emit_phi_assigns_def res_simps
      dest!: emits_all_size runtime_phi_assigns_Inr split: if_splits)

lemma write_instruction_write:
  "write_instruction m f offs True i st =
     rbind (inst_emits m f offs i) (\<lambda>cs.
       Inr (st\<lparr>st_offset := st_offset st + inst_size i,
               st_code := st_code st @ place (st_offset st) cs,
               write_phi_assigns := write_phi_assigns st \<or> is_branch i\<rparr>))"
  by (cases i) (auto simp: put_def set_write_phi_def rbind_assoc)

lemma write_instruction_skip:
  "write_instruction m f offs False i st =
     Inr (st\<lparr>st_offset := st_offset st + inst_size i,
             write_phi_assigns := write_phi_assigns st \<or> is_branch i\<rparr>)"
  by (cases i) (auto simp: put_def set_write_phi_def)

lemma write_instructions_write:
  "write_instructions m f offs True is st =
     rbind (emits_all m f offs is) (\<lambda>cs.
       Inr (st\<lparr>st_offset := st_offset st + total_size cs,
               st_code := st_code st @ place (st_offset st) cs,
               write_phi_assigns := write_phi_assigns st \<or> (\<exists>i\<in>set is. is_branch i)\<rparr>))"
proof (induction "is" arbitrary: st)
  case (Cons i "is")
  then show ?case
    by (cases "inst_emits m f offs i"; cases "emits_all m f offs is")
      (auto simp: write_instruction_write disj_assoc inst_emits_size add.assoc)
qed simp

lemma write_instructions_skip:
  "write_instructions m f offs False is st =
     Inr (st\<lparr>st_offset := st_offset st + sum_list (map inst_size is),
             write_phi_assigns := write_phi_assigns st \<or> (\<exists>i\<in>set is. is_branch i)\<rparr>)"
  by (induction "is" arbitrary: st) (auto simp: write_instruction_skip disj_assoc add.assoc)

lemma emit_phi_assigns_size:
  "emit_phi_assigns offs bb = Inr p \<Longrightarrow> rinst_size p = 4 + 16 * length (phi_assigns bb)"
  by (auto simp: emit_phi_assigns_def res_simps dest!: runtime_phi_assigns_Inr)

lemma write_block:
  "pn_basic_block_write_instruction_stream m f bb offs a code True =
     rbind (bb_emits m f offs bb) (\<lambda>cs. Inr (a + total_size cs, code @ place a cs))"
  by (cases "emits_all m f offs (instructions bb)"; cases "emit_phi_assigns offs bb")
    (auto simp: pn_basic_block_write_instruction_stream_def write_instructions_write bb_emits_def
      put_def emit_phi_assigns_size)

lemma layout_block:
  "pn_basic_block_write_instruction_stream m f bb offs a code False = Inr (a + bb_size bb, code)"
  by (auto simp: pn_basic_block_write_instruction_stream_def write_instructions_skip bb_size_def put_def)

lemma align_offset_4_id [simp]: "4 dvd a \<Longrightarrow> align_offset_4 a = a"
  by (auto simp: align_offset_4_def elim!: dvdE)

lemma bb_size_aligned: "4 dvd bb_size bb"
proof -
  have *: "4 dvd inst_size i" for i
    by (cases i) (auto intro: dvd_add)
  have "4 dvd sum_list (map inst_size is)" for "is"
    by (induction "is") (auto intro: dvd_add *)
  then show ?thesis
    by (auto simp: bb_size_def intro!: dvd_add)
qed

fun bb_starts :: "address \<Rightarrow> PNBasicBlock list \<Rightarrow> address list" where
  "bb_starts a [] = []"
| "bb_starts a (bb # bs) = a # bb_starts (a + bb_size bb) bs"

lemma length_bb_starts [simp]: "length (bb_starts a bs) = length bs"
  by (induction bs arbitrary: a) auto

lemma layout_bbs_starts:
  "4 dvd a \<Longrightarrow> layout_bbs m f bs a = Inr (bb_starts a bs, a + sum_list (map bb_size bs))"
  by (induction bs arbitrary: a) (auto simp: layout_block bb_size_aligned Let_def)

fun bbs_emit :: "PNModule \<Rightarrow> PNFunction \<Rightarrow> address list \<Rightarrow> PNBasicBlock list \<Rightarrow>
    PNRuntimeInstruction list list res" where
  "bbs_emit m f offs [] = Inr []"
| "bbs_emit m f offs (bb # bs) =
     rbind (bb_emits m f offs bb) (\<lambda>c. rbind (bbs_emit m f offs bs) (\<lambda>cs. Inr (c # cs)))"

lemma write_bbs_place:
  assumes "4 dvd a" "drop n offs = bb_starts a bs"
  shows "write_bbs m f offs n bs a code =
    rbind (bbs_emit m f offs bs) (\<lambda>css.
      Inr (a + total_size (concat css), code @ place a (concat css)))"
  using assms
proof (induction bs arbitrary: n a code)
  case (Cons bb bs)
  from Cons.prems(2) have n: "n < length offs" "offs ! n = a" "drop (Suc n) offs = bb_starts (a + bb_size bb) bs"
    using Cons_nth_drop_Suc[of n offs] by (cases "n < length offs"; simp)+
  show ?case
  proof (cases "bb_emits m f offs bb")
    case (Inr c)
    then have "total_size c = bb_size bb" by (rule bb_emits_size)
    with Inr Cons.IH[of "a + bb_size bb" "Suc n" "code @ place a c"] n Cons.prems(1) show ?thesis
      by (cases "bbs_emit m f offs bs") (auto simp: write_block Let_def bb_size_aligned add.assoc)
  qed (use n Cons.prems(1) in \<open>simp add: write_block Let_def\<close>)
qed simp

text \<open>The two walks agree, so the whole function is the reference translation.\<close>

lemma calculate_opcodes_eq:
  "pn_function_calculate_opcodes m f =
     (let offs = bb_starts 0 (bbs f) in
      if sum_list (map bb_size (bbs f)) + 16 < 2 ^ 32
      then rbind (bbs_emit m f offs (bbs f)) (\<lambda>css.
        Inr (f\<lparr>function_instructions := place 0 (concat css @ [trap_instruction])\<rparr>))
      else Inl (Undefined ''instruction stream overflow''))"
  by (cases "bbs_emit m f (bb_starts 0 (bbs f)) (bbs f)")
    (auto simp: pn_function_calculate_opcodes_def layout_bbs_starts write_bbs_place Let_def ensure_def)

section \<open>Addresses of the stream\<close>

fun rinst_targets :: "PNRuntimeInstruction \<Rightarrow> address set" where
  "rinst_targets (RBr a) = {a}"
| "rinst_targets (RBrInt1 _ a b) = {a, b}"
| "rinst_targets (RSwitch _ _ d cs) = insert d (snd ` set cs)"
| "rinst_targets (RPhiAssigns _ _ ps) = phi_inst ` set ps"
| "rinst_targets _ = {}"

fun is_phi_table :: "PNRuntimeInstruction \<Rightarrow> bool" where
  "is_phi_table (RPhiAssigns _ _ _) = True"
| "is_phi_table _ = False"

lemma rinst_size_pos: "0 < rinst_size i"
  by (cases i) auto

lemma place_addresses: "(b, i) \<in> set (place a cs) \<Longrightarrow> a \<le> b \<and> b < a + total_size cs"
proof (induction cs arbitrary: a)
  case (Cons c cs)
  then show ?case using rinst_size_pos[of c] by (fastforce dest: Cons.IH)
qed simp

lemma place_lookup: "map_of (place a (xs @ y # ys)) (a + total_size xs) = Some y"
proof (induction xs arbitrary: a)
  case (Cons x xs)
  show ?case using Cons[of "a + rinst_size x"] rinst_size_pos[of x] by (simp add: add.assoc)
qed simp

lemma place_split:
  "(b, i) \<in> set (place a cs) \<Longrightarrow> \<exists>xs ys. cs = xs @ i # ys \<and> b = a + total_size xs"
proof (induction cs arbitrary: a)
  case (Cons c cs)
  show ?case
  proof (cases "(b, i) = (a, c)")
    case True
    then show ?thesis by (intro exI[of _ "[]"] exI[of _ cs]) simp
  next
    case False
    with Cons.prems have "(b, i) \<in> set (place (a + rinst_size c) cs)" by auto
    from Cons.IH[OF this] obtain xs ys where "cs = xs @ i # ys" "b = a + rinst_size c + total_size xs"
      by blast
    then show ?thesis by (intro exI[of _ "c # xs"] exI[of _ ys]) simp
  qed
qed simp

lemma inst_emits_targets:
  "inst_emits m f offs i = Inr cs \<Longrightarrow> c \<in> set cs \<Longrightarrow> rinst_targets c \<subseteq> set offs \<and> \<not> is_phi_table c"
  by (cases i) (auto simp: emit_defs res_simps dest!: switch_cases_Inr split: if_splits option.splits)

lemma emits_all_targets:
  "emits_all m f offs is = Inr cs \<Longrightarrow> c \<in> set cs \<Longrightarrow> rinst_targets c \<subseteq> set offs \<and> \<not> is_phi_table c"
  by (induction "is" arbitrary: cs) (fastforce simp: res_simps dest: inst_emits_targets)+

lemma bb_emits_targets: "bb_emits m f offs bb = Inr cs \<Longrightarrow> c \<in> set cs \<Longrightarrow> rinst_targets c \<subseteq> set offs"
  by (fastforce simp: bb_emits_def emit_phi_assigns_def res_simps
      dest!: runtime_phi_assigns_Inr dest: emits_all_targets split: if_splits)

lemma branch_emits: "is_branch i \<Longrightarrow> inst_emits m f offs i = Inr cs \<Longrightarrow> cs \<noteq> []"
  by (cases i) (auto simp: res_simps)

lemma emits_all_branch:
  "emits_all m f offs is = Inr cs \<Longrightarrow> \<exists>i\<in>set is. is_branch i \<Longrightarrow> cs \<noteq> []"
  by (induction "is" arbitrary: cs) (auto simp: res_simps dest: branch_emits)

lemma bb_emits_head: "bb_emits m f offs bb = Inr (c # cs) \<Longrightarrow> \<not> is_phi_table c"
proof -
  assume emits: "bb_emits m f offs bb = Inr (c # cs)"
  then obtain ds where ds: "emits_all m f offs (instructions bb) = Inr ds"
    by (auto simp: bb_emits_def res_simps)
  show ?thesis
  proof (cases ds)
    case Nil
    with emits_all_branch[OF ds] have "\<not> (\<exists>i\<in>set (instructions bb). is_branch i)" by blast
    with Nil emits ds show ?thesis by (simp add: bb_emits_def)
  next
    case (Cons d ds')
    with emits ds have "c = d" by (auto simp: bb_emits_def res_simps split: if_splits)
    with emits_all_targets[OF ds, of d] Cons show ?thesis by simp
  qed
qed

lemma bbs_emit_Cons_iff:
  "bbs_emit m f offs bs = Inr css \<longleftrightarrow> list_all2 (\<lambda>bb cs. bb_emits m f offs bb = Inr cs) bs css"
  by (induction bs arbitrary: css) (auto simp: res_simps list_all2_Cons1)

lemma bb_starts_nth:
  assumes "list_all2 (\<lambda>bb cs. bb_emits m f offs bb = Inr cs) bs css" "k < length bs"
  shows "bb_starts a bs ! k = a + total_size (concat (take k css))"
  using assms
proof (induction arbitrary: a k rule: list_all2_induct)
  case (Cons bb bs cs css)
  then show ?case by (cases k) (auto simp: bb_emits_size add.assoc)
qed simp

lemma first_instruction_no_phi:
  assumes "list_all (\<lambda>cs. \<forall>c cs'. cs = c # cs' \<longrightarrow> \<not> is_phi_table c) css"
  shows "\<exists>c cs'. concat css @ [trap_instruction] = c # cs' \<and> \<not> is_phi_table c"
  using assms
proof (induction css)
  case (Cons cs css)
  then show ?case by (cases cs) auto
qed (simp add: trap_instruction_def)

lemma block_start_fetch:
  assumes emits: "list_all2 (\<lambda>bb cs. bb_emits m f offs bb = Inr cs) bs css"
    and t: "t \<in> set (bb_starts 0 bs)"
  shows "\<exists>c. map_of (place 0 (concat css @ [trap_instruction])) t = Some c \<and> \<not> is_phi_table c"
proof -
  from t obtain k where k: "k < length bs" "t = bb_starts 0 bs ! k" by (auto simp: in_set_conv_nth)
  have t: "t = total_size (concat (take k css))" using bb_starts_nth[OF emits k(1), of 0] k(2) by simp
  have "list_all (\<lambda>cs. \<forall>c cs'. cs = c # cs' \<longrightarrow> \<not> is_phi_table c) (drop k css)"
    using list_all2_dropI[OF emits, of k]
    by (auto simp: list_all_length list_all2_conv_all_nth dest!: bb_emits_head)
  from first_instruction_no_phi[OF this] obtain c cs'
    where c: "concat (drop k css) @ [trap_instruction] = c # cs'" "\<not> is_phi_table c" by blast
  have "concat css @ [trap_instruction] = concat (take k css) @ c # cs'"
    using c(1) by (metis append_assoc append_take_drop_id concat_append)
  then show ?thesis using place_lookup[of 0 "concat (take k css)" c cs'] t c(2) by simp
qed

section \<open>Phi tables\<close>

fun is_rbranch :: "PNRuntimeInstruction \<Rightarrow> bool" where
  "is_rbranch (RBr _) = True"
| "is_rbranch (RBrInt1 _ _ _) = True"
| "is_rbranch (RSwitch _ _ _ _) = True"
| "is_rbranch _ = False"

fun tabled :: "PNRuntimeInstruction list \<Rightarrow> bool" where
  "tabled [] = True"
| "tabled (i # cs) = ((is_rbranch i \<longrightarrow> (\<exists>p ps. cs = p # ps \<and> is_phi_table p)) \<and> tabled cs)"

definition branch_last :: "PNBasicBlock \<Rightarrow> bool" where
  "branch_last bb = (\<forall>i\<in>set (butlast (instructions bb)). \<not> is_branch i)"

lemma tabled_append: "tabled xs \<Longrightarrow> tabled ys \<Longrightarrow> tabled (xs @ ys)"
  by (induction xs) auto

lemma tabled_concat: "list_all tabled css \<Longrightarrow> tabled (concat css)"
  by (induction css) (auto intro: tabled_append)

lemma tabled_no_branch: "list_all (\<lambda>c. \<not> is_rbranch c) cs \<Longrightarrow> tabled cs"
  by (induction cs) auto

lemma tabled_lookup:
  "tabled cs \<Longrightarrow> cs = xs @ i # ys \<Longrightarrow> is_rbranch i \<Longrightarrow> \<exists>p ps. ys = p # ps \<and> is_phi_table p"
  by (induction xs arbitrary: cs) auto

lemma no_branch_emits:
  "inst_emits m f offs i = Inr cs \<Longrightarrow> \<not> is_branch i \<Longrightarrow> list_all (\<lambda>c. \<not> is_rbranch c) cs"
  by (cases i) (auto simp: emit_defs res_simps split: if_splits option.splits)

lemma single_emit: "inst_emits m f offs i = Inr cs \<Longrightarrow> length cs \<le> 1"
  by (cases i) (auto simp: res_simps)

lemma no_branch_emits_all:
  "emits_all m f offs is = Inr cs \<Longrightarrow> \<forall>i\<in>set is. \<not> is_branch i \<Longrightarrow> list_all (\<lambda>c. \<not> is_rbranch c) cs"
  by (induction "is" arbitrary: cs) (auto simp: res_simps dest: no_branch_emits)

lemma emits_all_append:
  "emits_all m f offs (is @ js) =
     rbind (emits_all m f offs is) (\<lambda>cs. rbind (emits_all m f offs js) (\<lambda>ds. Inr (cs @ ds)))"
  by (induction "is") (auto simp: rbind_assoc)

lemma bb_emits_tabled:
  assumes "bb_emits m f offs bb = Inr cs" "branch_last bb"
  shows "tabled cs"
proof (cases "\<exists>i\<in>set (instructions bb). is_branch i")
  case True
  then have ne: "instructions bb \<noteq> []" by auto
  define "is" where "is = butlast (instructions bb)"
  define b where "b = last (instructions bb)"
  have insts: "instructions bb = is @ [b]" using ne by (simp add: is_def b_def)
  have nb: "\<forall>i\<in>set is. \<not> is_branch i" using assms(2) by (simp add: branch_last_def is_def)
  from assms(1) True obtain p xs ys where
    cs: "cs = xs @ ys @ [p]" and xs: "emits_all m f offs is = Inr xs"
    and ys: "inst_emits m f offs b = Inr ys" and p: "emit_phi_assigns offs bb = Inr p"
    by (auto simp: bb_emits_def insts emits_all_append res_simps)
  have "is_phi_table p" using p by (auto simp: emit_phi_assigns_def res_simps)
  then have "tabled (ys @ [p])" using single_emit[OF ys]
    by (cases p; cases ys) auto
  with no_branch_emits_all[OF xs nb] show ?thesis
    by (simp add: cs tabled_append tabled_no_branch)
next
  case False
  with assms(1) show ?thesis
    by (auto simp: bb_emits_def intro!: tabled_no_branch no_branch_emits_all[of m f offs "instructions bb"])
qed

section \<open>Properties\<close>

text \<open>No step of the translation fails with the check of the second walk.\<close>

definition no_offset_check :: "'a res \<Rightarrow> bool" where
  "no_offset_check r \<longleftrightarrow> r \<noteq> Inl (Check ''offset == bb_offsets[n]'')"

lemma no_offset_check_intros [intro]:
  "no_offset_check (Inr x)" "no_offset_check (Inl (Undefined s))" "no_offset_check (Inl (Fatal s))"
  "no_offset_check m \<Longrightarrow> (\<And>x. no_offset_check (g x)) \<Longrightarrow> no_offset_check (rbind m g)"
  "no_offset_check (nth_res xs k)" "no_offset_check (ensure c (Fatal s))" "no_offset_check (if_type tys ty)"
  "no_offset_check (ensure c (Assertion s))"
  by (auto simp: no_offset_check_def nth_res_def ensure_def if_type_def res_simps)

lemma emit_no_offset_check:
  "no_offset_check (pn_function_get_value m f v)" "no_offset_check (type_basic_type m t)"
  "no_offset_check (value_basic_type m f v)" "no_offset_check (switch_cases offs cs)"
  "no_offset_check (atomic_rmw_op n)" "no_offset_check (runtime_phi_assigns offs ps)"
proof -
  show gv: "no_offset_check (pn_function_get_value m f v)" and ty: "no_offset_check (type_basic_type m t)" for v t
    by (auto simp: pn_function_get_value_def type_basic_type_def Let_def)
  show "no_offset_check (value_basic_type m f v)"
    by (auto simp: value_basic_type_def intro!: gv ty)
  show "no_offset_check (switch_cases offs cs)"
    by (induction cs) (auto intro!: no_offset_check_intros(4))
  show "no_offset_check (atomic_rmw_op n)"
    by (auto simp: atomic_rmw_op_def)
  show "no_offset_check (runtime_phi_assigns offs ps)"
    by (induction ps) auto
qed

lemma specialize_no_offset_check: "no_offset_check (specialize_rmw m f w args)"
  unfolding specialize_rmw_def
  by (intro no_offset_check_intros emit_no_offset_check) (auto simp: no_offset_check_def ensure_def)

lemma call_no_offset_check: "no_offset_check (call_opcode_for m f c args)"
  unfolding call_opcode_for_def
  by (intro no_offset_check_intros emit_no_offset_check)
    (auto split: PNIntrinsicId.splits intro: specialize_no_offset_check)

lemma inst_no_offset_check: "no_offset_check (inst_emits m f offs i)"
  by (cases i) (auto simp: emit_defs split: option.splits
      intro!: no_offset_check_intros(4) emit_no_offset_check call_no_offset_check)

lemma bbs_no_offset_check: "no_offset_check (bbs_emit m f offs bs)"
proof -
  have all: "no_offset_check (emits_all m f offs is)" for "is"
    by (induction "is") (auto intro: inst_no_offset_check)
  have "no_offset_check (bb_emits m f offs bb)" for bb
    by (auto simp: bb_emits_def emit_phi_assigns_def intro!: no_offset_check_intros(4) all emit_no_offset_check)
  then show ?thesis by (induction bs) auto
qed

lemma calculate_opcodes_Inr:
  "pn_function_calculate_opcodes m f = Inr f' \<longleftrightarrow>
    sum_list (map bb_size (bbs f)) + 16 < 2 ^ 32 \<and>
    (\<exists>css. list_all2 (\<lambda>bb cs. bb_emits m f (bb_starts 0 (bbs f)) bb = Inr cs) (bbs f) css \<and>
      f' = f\<lparr>function_instructions := place 0 (concat css @ [trap_instruction])\<rparr>)"
  by (auto simp: calculate_opcodes_eq Let_def res_simps bbs_emit_Cons_iff)

text \<open>A function that counts from its argument down to zero: two blocks, a phi in the second.\<close>

definition example_types :: "PNType list" where
  "example_types =
     [\<lparr>type_code = PN_TYPE_CODE_INTEGER, basic_type = INT32, type_width = 32, is_varargs = False,
       return_type = 0, arg_types = []\<rparr>,
      \<lparr>type_code = PN_TYPE_CODE_INTEGER, basic_type = INT1, type_width = 1, is_varargs = False,
       return_type = 0, arg_types = []\<rparr>,
      \<lparr>type_code = PN_TYPE_CODE_FUNCTION, basic_type = INT32, type_width = 0, is_varargs = False,
       return_type = 0, arg_types = [0]\<rparr>]"

definition example_module :: PNModule where
  "example_module =
     (pn_module_init (pn_memory_init 65536 (\<lambda>_. 0)))\<lparr>types := example_types,
       module_values := [\<lparr>value_code = PN_VALUE_CODE_FUNCTION, value_idx = 0, value_type_id = 2\<rparr>]\<rparr>"

definition example_bb :: "PNInstruction list \<Rightarrow> PNPhiAssign list \<Rightarrow> PNBasicBlock" where
  "example_bb insts ps =
     \<lparr>instructions = insts, phi_uses = [], phi_assigns = ps, fast_phi_assign = True,
      succ_bb_ids = [], pred_bb_ids = [], bb_uses = [], first_def_id = PN_INVALID_VALUE_ID,
      last_def_id = PN_INVALID_VALUE_ID\<rparr>"

definition local_value :: "PNTypeId \<Rightarrow> PNValue" where
  "local_value t = \<lparr>value_code = PN_VALUE_CODE_LOCAL_VAR, value_idx = 0, value_type_id = t\<rparr>"

definition example_function :: PNFunction where
  "example_function =
     \<lparr>function_name = None, function_type_id = 2, intrinsic_id = PN_INTRINSIC_NULL, num_args = 1,
      calling_convention = 0, is_proto = False, function_linkage = 0,
      constants =
        [\<lparr>constant_code = PN_CONSTANTS_CODE_INTEGER, constant_type_id = 0,
          constant_basic_type = INT32, constant_value = 1\<rparr>,
         \<lparr>constant_code = PN_CONSTANTS_CODE_INTEGER, constant_type_id = 0,
          constant_basic_type = INT32, constant_value = 0\<rparr>],
      bbs =
        [example_bb [InstBr 1 PN_INVALID_BB_ID PN_INVALID_VALUE_ID]
           [\<lparr>assign_bb_id = 1, source_value_id = 1, dest_value_id = 4\<rparr>],
         example_bb [InstPhi 4 [(0, 1), (1, 5)] 0, InstBinop 5 4 2 1 0, InstCmp2 6 5 3 32,
             InstBr 2 1 6]
           [\<lparr>assign_bb_id = 1, source_value_id = 5, dest_value_id = 4\<rparr>],
         example_bb [InstRet 5] []],
      function_values =
        [\<lparr>value_code = PN_VALUE_CODE_FUNCTION_ARG, value_idx = 0, value_type_id = 0\<rparr>,
         \<lparr>value_code = PN_VALUE_CODE_CONSTANT, value_idx = 0, value_type_id = 0\<rparr>,
         \<lparr>value_code = PN_VALUE_CODE_CONSTANT, value_idx = 1, value_type_id = 0\<rparr>,
         local_value 0, local_value 0, local_value 1],
      num_instructions = 6, function_instructions = []\<rparr>"

definition example_stream_code :: instruction_stream where
  "example_stream_code =
     [(0, RBr 36),
      (16, RPhiAssigns 1 1 [\<lparr>phi_inst = 36, phi_source_value_id = 1, phi_dest_value_id = 4\<rparr>]),
      (36, RBinop PN_BINOP_SUB INT32 5 4 2),
      (52, RCmp2 PN_ICMP_EQ INT32 6 5 3),
      (68, RBrInt1 6 112 36),
      (92, RPhiAssigns 1 1 [\<lparr>phi_inst = 36, phi_source_value_id = 5, phi_dest_value_id = 4\<rparr>]),
      (112, RRetValue 5),
      (120, trap_instruction)]"

lemma example_calculate_opcodes:
  "pn_function_calculate_opcodes example_module example_function =
     Inr (example_function\<lparr>function_instructions := example_stream_code\<rparr>)"
  by (simp add: calculate_opcodes_Inr example_function_def bb_size_def example_bb_def bb_emits_def
      list_all2_Cons1 emit_defs value_basic_type_def type_basic_type_def pn_function_get_value_def
      example_module_def pn_module_init_def example_types_def local_value_def if_type_def
      decode_binop_def decode_cmp2_def emit_phi_assigns_def example_stream_code_def
      trap_instruction_def call_flags_def)

text \<open>
  C4: Writing the instruction stream refines the reference translation: when
  \<open>pn_function_calculate_opcodes\<close> returns, the stream is the concatenation of the translations of
  the basic blocks in order, placed without gaps from offset 0 and closed by a trap, every block's
  branch targets being the offsets at which the second walk placed the blocks.
\<close>

theorem pn_calculate_opcodes_refines:
  assumes "pn_function_calculate_opcodes m f = Inr f'"
  shows "\<exists>css. length css = length (bbs f) \<and>
    (\<forall>k<length (bbs f).
       bb_emits m f (map (\<lambda>n. total_size (concat (take n css))) [0..<length (bbs f)]) (bbs f ! k) = Inr (css ! k)) \<and>
    f' = f\<lparr>function_instructions := place 0 (concat css @ [trap_instruction])\<rparr>"
proof -
  from assms obtain css where
    emits: "list_all2 (\<lambda>bb cs. bb_emits m f (bb_starts 0 (bbs f)) bb = Inr cs) (bbs f) css"
    and f': "f' = f\<lparr>function_instructions := place 0 (concat css @ [trap_instruction])\<rparr>"
    by (auto simp: calculate_opcodes_Inr)
  have starts: "bb_starts 0 (bbs f) = map (\<lambda>n. total_size (concat (take n css))) [0..<length (bbs f)]"
    by (rule nth_equalityI) (simp_all add: bb_starts_nth[OF emits])
  from emits f' show ?thesis unfolding starts by (auto simp: list_all2_conv_all_nth)
qed

theorem pn_calculate_opcodes_refines_witness:
  "\<exists>css. length css = 3 \<and>
     example_stream_code = place 0 (concat css @ [trap_instruction])"
proof -
  from pn_calculate_opcodes_refines[OF example_calculate_opcodes] obtain css where
    "length css = length (bbs example_function)"
    "example_function\<lparr>function_instructions := example_stream_code\<rparr> =
       example_function\<lparr>function_instructions := place 0 (concat css @ [trap_instruction])\<rparr>"
    by (elim exE conjE)
  from this(1) arg_cong[OF this(2), of function_instructions] show ?thesis
    by (intro exI[of _ css] conjI) (simp_all add: example_function_def)
qed

text \<open>
  The two walks over the basic blocks agree: the check \<open>offset == bb_offsets[n]\<close> of the second
  walk never fails, for any function.
\<close>

theorem pn_calculate_opcodes_passes_agree:
  "pn_function_calculate_opcodes m f \<noteq> Inl (Check ''offset == bb_offsets[n]'')"
  using bbs_no_offset_check[of m f "bb_starts 0 (bbs f)" "bbs f"]
  by (auto simp: calculate_opcodes_eq Let_def res_simps no_offset_check_def)

text \<open>
  The stream is closed: every entry is found at its address, behind every entry but the last one
  there is another one, and every address that a branch, a switch or a phi table names is the address
  of an instruction.
\<close>

lemma stream_closed:
  assumes "pn_function_calculate_opcodes m f = Inr f'"
    and "(a, i) \<in> set (function_instructions f')"
  shows "map_of (function_instructions f') a = Some i"
    and "map_of (function_instructions f') (a + rinst_size i) \<noteq> None \<or>
         (a, i) = last (function_instructions f') \<and> i = trap_instruction"
    and "t \<in> rinst_targets i \<Longrightarrow>
         \<exists>j. map_of (function_instructions f') t = Some j \<and> \<not> is_phi_table j"
proof -
  from assms(1) obtain css where
    emits: "list_all2 (\<lambda>bb cs. bb_emits m f (bb_starts 0 (bbs f)) bb = Inr cs) (bbs f) css"
    and code: "function_instructions f' = place 0 (concat css @ [trap_instruction])"
    by (auto simp: calculate_opcodes_Inr)
  from assms(2) have "(a, i) \<in> set (place 0 (concat css @ [trap_instruction]))" by (simp only: code)
  from place_split[OF this] obtain xs ys where
    split: "concat css @ [trap_instruction] = xs @ i # ys" and a: "a = total_size xs" by auto
  show "map_of (function_instructions f') a = Some i"
    using place_lookup[of 0 xs i ys] by (simp add: code split a)
  show "map_of (function_instructions f') (a + rinst_size i) \<noteq> None \<or>
      (a, i) = last (function_instructions f') \<and> i = trap_instruction"
  proof (cases ys)
    case Nil
    then show ?thesis using split by (simp add: code a)
  next
    case (Cons y zs)
    then show ?thesis using place_lookup[of 0 "xs @ [i]" y zs] split by (simp add: code a)
  qed
  assume t: "t \<in> rinst_targets i"
  have "i \<in> set (concat css) \<or> i = trap_instruction" using split
    by (metis Un_iff in_set_conv_decomp set_ConsD set_append list.set(1) empty_iff)
  with t have "i \<in> set (concat css)" by (auto simp: trap_instruction_def)
  then obtain cs where cs: "cs \<in> set css" "i \<in> set cs" by auto
  with emits obtain bb where "bb_emits m f (bb_starts 0 (bbs f)) bb = Inr cs"
    by (auto simp: list_all2_conv_all_nth in_set_conv_nth)
  with cs t have "t \<in> set (bb_starts 0 (bbs f))" by (auto dest: bb_emits_targets)
  from block_start_fetch[OF emits this]
  show "\<exists>j. map_of (function_instructions f') t = Some j \<and> \<not> is_phi_table j" by (simp add: code)
qed

text \<open>When branches only end blocks, every branch is followed by its phi table.\<close>

lemma stream_phi_tables:
  assumes "pn_function_calculate_opcodes m f = Inr f'" "\<forall>bb\<in>set (bbs f). branch_last bb"
    and "(a, i) \<in> set (function_instructions f')" "is_rbranch i"
  shows "\<exists>p. map_of (function_instructions f') (a + rinst_size i) = Some p \<and> is_phi_table p"
proof -
  from assms(1) obtain css where
    emits: "list_all2 (\<lambda>bb cs. bb_emits m f (bb_starts 0 (bbs f)) bb = Inr cs) (bbs f) css"
    and code: "function_instructions f' = place 0 (concat css @ [trap_instruction])"
    by (auto simp: calculate_opcodes_Inr)
  from assms(3) have "(a, i) \<in> set (place 0 (concat css @ [trap_instruction]))" by (simp only: code)
  from place_split[OF this] obtain xs ys where
    split: "concat css @ [trap_instruction] = xs @ i # ys" and a: "a = total_size xs" by auto
  have "list_all tabled css" using emits assms(2)
    by (auto simp: list_all2_conv_all_nth list_all_length intro!: bb_emits_tabled)
  then have "tabled (concat css @ [trap_instruction])"
    by (intro tabled_append tabled_concat) (auto simp: trap_instruction_def)
  from tabled_lookup[OF this split assms(4)] obtain p ps where "ys = p # ps" "is_phi_table p" by blast
  then show ?thesis using place_lookup[of 0 "xs @ [i]" p ps] split by (simp add: code a)
qed

section \<open>Well-formed streams\<close>

text \<open>
  What the executor relies on: it can start at offset 0; the targets of a branch, a switch and a phi
  table are instructions; a branch is followed by a phi table; any other instruction that goes on is
  followed by an instruction; and the argument count of a call is the length of its argument list.
\<close>

definition instr_at :: "instruction_stream \<Rightarrow> address \<Rightarrow> bool" where
  "instr_at code a \<longleftrightarrow> (\<exists>i. map_of code a = Some i \<and> \<not> is_phi_table i)"

fun falls_through :: "PNRuntimeInstruction \<Rightarrow> bool" where
  "falls_through (RCall op _ _ _ _ _) \<longleftrightarrow> op \<noteq> OPCODE_INTRINSIC LLVM_TRAP"
| "falls_through i \<longleftrightarrow>
     \<not> is_rbranch i \<and> \<not> is_phi_table i \<and> i \<noteq> RRet \<and> i \<noteq> RUnreachable \<and> (\<forall>v. i \<noteq> RRetValue v)"

fun args_counted :: "PNRuntimeInstruction \<Rightarrow> bool" where
  "args_counted (RCall _ _ _ n _ args) \<longleftrightarrow> unat n = length args"
| "args_counted _ \<longleftrightarrow> True"

definition wf_stream :: "instruction_stream \<Rightarrow> bool" where
  "wf_stream code \<longleftrightarrow> instr_at code 0 \<and>
     (\<forall>a i. map_of code a = Some i \<longrightarrow>
        (\<forall>t\<in>rinst_targets i. instr_at code t) \<and>
        (is_rbranch i \<longrightarrow> (\<exists>p. map_of code (a + rinst_size i) = Some p \<and> is_phi_table p)) \<and>
        (falls_through i \<longrightarrow> instr_at code (a + rinst_size i)) \<and> args_counted i)"

fun few_args :: "PNInstruction \<Rightarrow> bool" where
  "few_args (InstCall _ _ _ args _ _ _) \<longleftrightarrow> length args < 256"
| "few_args _ \<longleftrightarrow> True"

text \<open>A phi table only follows a branch.\<close>

fun phi_after_branch :: "bool \<Rightarrow> PNRuntimeInstruction list \<Rightarrow> bool" where
  "phi_after_branch b [] = True"
| "phi_after_branch b (i # cs) = ((is_phi_table i \<longrightarrow> b) \<and> phi_after_branch (is_rbranch i) cs)"

lemma phi_after_branch_append:
  "phi_after_branch b xs \<Longrightarrow> (\<And>b. phi_after_branch b ys) \<Longrightarrow> phi_after_branch b (xs @ ys)"
  by (induction xs arbitrary: b) auto

lemma phi_after_branch_none: "list_all (\<lambda>c. \<not> is_phi_table c) cs \<Longrightarrow> phi_after_branch b cs"
  by (induction cs arbitrary: b) auto

lemma phi_after_branch_lookup:
  "phi_after_branch b cs \<Longrightarrow> cs = xs @ i # j # ys \<Longrightarrow> is_phi_table j \<Longrightarrow> is_rbranch i"
  by (induction xs arbitrary: b cs) auto

lemma branch_emits_rbranch:
  "inst_emits m f offs i = Inr cs \<Longrightarrow> is_branch i \<Longrightarrow> \<exists>c. cs = [c] \<and> is_rbranch c"
  by (cases i) (auto simp: emit_defs res_simps split: if_splits)

lemma bb_emits_phi_after_branch:
  assumes "bb_emits m f offs bb = Inr cs" "branch_last bb"
  shows "phi_after_branch b cs"
proof (cases "\<exists>i\<in>set (instructions bb). is_branch i")
  case True
  then have ne: "instructions bb \<noteq> []" by auto
  define "is" where "is = butlast (instructions bb)"
  define l where "l = last (instructions bb)"
  have insts: "instructions bb = is @ [l]" using ne by (simp add: is_def l_def)
  have "is_branch l" using True assms(2) by (auto simp: branch_last_def insts)
  from assms(1) True obtain p xs ys where
    cs: "cs = xs @ ys @ [p]" and xs: "emits_all m f offs is = Inr xs"
    and ys: "inst_emits m f offs l = Inr ys"
    by (auto simp: bb_emits_def insts emits_all_append res_simps)
  from branch_emits_rbranch[OF ys \<open>is_branch l\<close>] obtain c where c: "ys = [c]" "is_rbranch c" by blast
  have "\<not> is_phi_table c" using c(2) by (cases c) auto
  with c have "phi_after_branch b (ys @ [p])" for b by simp
  moreover have "list_all (\<lambda>c. \<not> is_phi_table c) xs"
    using emits_all_targets[OF xs] by (auto simp: list_all_iff)
  ultimately show ?thesis by (auto simp: cs intro: phi_after_branch_append phi_after_branch_none)
next
  case False
  with assms(1) show ?thesis
    by (auto simp: bb_emits_def list_all_iff intro!: phi_after_branch_none
        dest: emits_all_targets[of m f offs "instructions bb"])
qed

lemma phi_after_branch_concat:
  "list_all (\<lambda>cs. \<forall>b. phi_after_branch b cs) css \<Longrightarrow> phi_after_branch b (concat css)"
  by (induction css arbitrary: b) (auto intro: phi_after_branch_append)

lemma inst_emits_counted:
  "inst_emits m f offs i = Inr cs \<Longrightarrow> few_args i \<Longrightarrow> c \<in> set cs \<Longrightarrow> args_counted c"
  by (cases i) (auto simp: emit_defs res_simps unat_of_nat_small split: if_splits option.splits)

lemma emits_all_counted:
  "emits_all m f offs is = Inr cs \<Longrightarrow> \<forall>i\<in>set is. few_args i \<Longrightarrow> c \<in> set cs \<Longrightarrow> args_counted c"
  by (induction "is" arbitrary: cs) (auto simp: res_simps dest: inst_emits_counted)

lemma bb_emits_counted:
  "bb_emits m f offs bb = Inr cs \<Longrightarrow> \<forall>i\<in>set (instructions bb). few_args i \<Longrightarrow> c \<in> set cs \<Longrightarrow> args_counted c"
  by (auto simp: bb_emits_def emit_phi_assigns_def res_simps dest: emits_all_counted split: if_splits)

lemma calculate_opcodes_wf:
  assumes calc: "pn_function_calculate_opcodes m f = Inr f'"
    and wf: "\<forall>bb\<in>set (bbs f). branch_last bb \<and> (\<forall>i\<in>set (instructions bb). few_args i)"
  shows "wf_stream (function_instructions f')"
proof -
  let ?code = "function_instructions f'"
  from calc obtain css where
    emits: "list_all2 (\<lambda>bb cs. bb_emits m f (bb_starts 0 (bbs f)) bb = Inr cs) (bbs f) css"
    and code: "?code = place 0 (concat css @ [trap_instruction])"
    by (auto simp: calculate_opcodes_Inr)
  have "list_all (\<lambda>cs. \<forall>b. phi_after_branch b cs) css" using emits wf
    by (auto simp: list_all2_conv_all_nth list_all_length intro!: bb_emits_phi_after_branch)
  then have phi: "phi_after_branch b (concat css @ [trap_instruction])" for b
    by (intro phi_after_branch_append phi_after_branch_concat) (auto simp: trap_instruction_def)
  have counted: "args_counted i" if "i \<in> set (concat css @ [trap_instruction])" for i
  proof (cases "i = trap_instruction")
    case True
    then show ?thesis by (simp add: trap_instruction_def)
  next
    case False
    with that obtain cs where cs: "cs \<in> set css" "i \<in> set cs" by auto
    then obtain k where "k < length css" "css ! k = cs" by (auto simp: in_set_conv_nth)
    with emits have "bbs f ! k \<in> set (bbs f)" "bb_emits m f (bb_starts 0 (bbs f)) (bbs f ! k) = Inr cs"
      by (auto simp: list_all2_conv_all_nth)
    with cs(2) wf show ?thesis by (auto dest: bb_emits_counted)
  qed
  have "instr_at ?code t" if "t \<in> rinst_targets i" "map_of ?code a = Some i" for a i t
    using stream_closed(3)[OF calc map_of_SomeD[OF that(2)] that(1)] by (simp add: instr_at_def)
  moreover have "\<exists>p. map_of ?code (a + rinst_size i) = Some p \<and> is_phi_table p"
    if "is_rbranch i" "map_of ?code a = Some i" for a i
    using stream_phi_tables[OF calc _ map_of_SomeD[OF that(2)] that(1)] wf by blast
  moreover have "instr_at ?code (a + rinst_size i)" if "falls_through i" "map_of ?code a = Some i" for a i
  proof -
    have mem: "(a, i) \<in> set ?code" using that(2) by (rule map_of_SomeD)
    have "i \<noteq> trap_instruction" using that(1) by (auto simp: trap_instruction_def)
    with stream_closed(2)[OF calc mem] obtain j where j: "map_of ?code (a + rinst_size i) = Some j" by auto
    from mem have "(a, i) \<in> set (place 0 (concat css @ [trap_instruction]))" by (simp only: code)
    from place_split[OF this] obtain xs ys where
      split: "concat css @ [trap_instruction] = xs @ i # ys" and a: "a = total_size xs" by auto
    with \<open>i \<noteq> trap_instruction\<close> obtain y zs where y: "ys = y # zs" by (cases ys) auto
    have "map_of ?code (a + rinst_size i) = Some y"
      using place_lookup[of 0 "xs @ [i]" y zs] split y by (simp add: code a)
    moreover have "\<not> is_phi_table y"
      using phi_after_branch_lookup[OF phi split[unfolded y]] that(1) by (cases i) auto
    ultimately show ?thesis by (simp add: instr_at_def)
  qed
  moreover have "args_counted i" if "map_of ?code a = Some i" for a i
  proof -
    have "(a, i) \<in> set (place 0 (concat css @ [trap_instruction]))"
      using map_of_SomeD[OF that] by (simp only: code)
    from place_split[OF this] show ?thesis by (auto intro!: counted)
  qed
  moreover have "instr_at ?code 0"
  proof -
    have "list_all (\<lambda>cs. \<forall>c cs'. cs = c # cs' \<longrightarrow> \<not> is_phi_table c) css"
      using emits by (auto simp: list_all_length list_all2_conv_all_nth dest!: bb_emits_head)
    from first_instruction_no_phi[OF this] show ?thesis by (auto simp: instr_at_def code simp del: place_append)
  qed
  ultimately show ?thesis unfolding wf_stream_def by blast
qed

text \<open>
  C7: When branches only end blocks and no call has more than 255 arguments, the written stream is
  well-formed: whatever instruction of it is executed, the next address is that of an instruction of
  the stream, and the phi table of every branch is where the executor looks for it.
\<close>

theorem pn_calculate_opcodes_wf:
  assumes "pn_function_calculate_opcodes m f = Inr f'"
    and "\<forall>bb\<in>set (bbs f). branch_last bb \<and> (\<forall>i\<in>set (instructions bb). few_args i)"
  shows "wf_stream (function_instructions f')"
  using calculate_opcodes_wf[OF assms] .

theorem pn_calculate_opcodes_wf_witness: "wf_stream example_stream_code"
  using pn_calculate_opcodes_wf[OF example_calculate_opcodes]
  by (simp add: example_function_def example_bb_def branch_last_def)

text \<open>
  The opcode of a binary operation, a cast or a comparison is written without a check that the
  number of the bitcode names one: with an unknown number the translation reaches the end of the
  switch with the opcode unset.
\<close>

theorem pn_calculate_opcodes_unknown_opcode:
  assumes "value_basic_type m f v0 = Inr bt" "value_basic_type m f v1 = Inr bt"
    and "12 < opcode"
  shows "write_instruction m f offs True (InstBinop r v0 v1 opcode flags) st =
    Inl (Undefined ''opcode not set'')"
  using assms by (simp add: put_def emit_binop_def decode_binop_def)

theorem pn_calculate_opcodes_unknown_opcode_witness:
  "write_instruction example_module example_function [] True (InstBinop 5 4 2 13 0)
     \<lparr>st_offset = 0, st_code = [], write_phi_assigns = False\<rparr> = Inl (Undefined ''opcode not set'')"
  by (rule pn_calculate_opcodes_unknown_opcode[where bt = INT32])
    (simp_all add: value_basic_type_def type_basic_type_def pn_function_get_value_def
      example_module_def pn_module_init_def example_types_def example_function_def local_value_def)

end
