(* ===== verification/Pn_Float.thy ===== *)
theory Pn_Float
  imports Pn_Prelude
begin

text \<open>
  The arithmetic of \<open>float\<close> and \<open>double\<close> that the executor uses, on bit patterns: IEEE 754 binary32
  and binary64 with rounding to nearest, ties to even, as C compilers give it on a 64-bit host. A
  format is the number of its fraction bits and of its exponent bits. Where the standard leaves the
  payload of a NaN open, the definitions do what SSE does: the first NaN operand made quiet, and the
  negative quiet NaN for an invalid operation. A conversion to an integer type that cannot hold the
  truncated value is undefined in C and so here.
\<close>

section \<open>Decoding and rounding\<close>

datatype fp = FNaN bool int | FInf bool | FFin bool int int

text \<open>\<open>FFin s m e\<close> is the number \<open>m * 2 ^ e\<close>, negative when \<open>s\<close>.\<close>

record fp_format =
  frac_bits :: nat
  exp_bits :: nat

definition binary32 :: fp_format where "binary32 = \<lparr>frac_bits = 23, exp_bits = 8\<rparr>"
definition binary64 :: fp_format where "binary64 = \<lparr>frac_bits = 52, exp_bits = 11\<rparr>"

definition fp_bias :: "fp_format \<Rightarrow> int" where
  "fp_bias F = 2 ^ (exp_bits F - 1) - 1"

definition fp_emin :: "fp_format \<Rightarrow> int" where
  "fp_emin F = 1 - fp_bias F - int (frac_bits F)"

definition fp_decode :: "fp_format \<Rightarrow> int \<Rightarrow> fp" where
  "fp_decode F b =
     (let s = odd (b div 2 ^ (frac_bits F + exp_bits F));
          ex = b div 2 ^ frac_bits F mod 2 ^ exp_bits F;
          fr = b mod 2 ^ frac_bits F
      in if ex = 2 ^ exp_bits F - 1 then (if fr = 0 then FInf s else FNaN s fr)
         else if ex = 0 then FFin s fr (fp_emin F)
         else FFin s (2 ^ frac_bits F + fr) (ex - 1 + fp_emin F))"

definition fp_pack :: "fp_format \<Rightarrow> bool \<Rightarrow> int \<Rightarrow> int \<Rightarrow> int" where
  "fp_pack F s ex fr = (if s then 2 ^ (frac_bits F + exp_bits F) else 0) + ex * 2 ^ frac_bits F + fr"

definition fp_inf :: "fp_format \<Rightarrow> bool \<Rightarrow> int" where
  "fp_inf F s = fp_pack F s (2 ^ exp_bits F - 1) 0"

text \<open>A quiet NaN has the top bit of its fraction set.\<close>

definition fp_nan :: "fp_format \<Rightarrow> bool \<Rightarrow> int \<Rightarrow> int" where
  "fp_nan F s fr = fp_pack F s (2 ^ exp_bits F - 1)
     (if fr < 2 ^ (frac_bits F - 1) then fr + 2 ^ (frac_bits F - 1) else fr)"

definition fp_default_nan :: "fp_format \<Rightarrow> int" where
  "fp_default_nan F = fp_nan F True 0"

function bit_length :: "int \<Rightarrow> nat" where
  "bit_length n = (if n \<le> 0 then 0 else Suc (bit_length (n div 2)))"
  by auto
termination by (relation "measure nat") auto

declare bit_length.simps [simp del]

text \<open>
  Rounding of \<open>m * 2 ^ e\<close>, or of a number slightly above it when \<open>sticky\<close>: keep the top
  \<open>frac_bits + 1\<close> bits (fewer below the normal range), round to nearest, ties to even.
\<close>

definition round_shift :: "int \<Rightarrow> nat \<Rightarrow> bool \<Rightarrow> int" where
  "round_shift m k sticky =
     (if k = 0 then m
      else let q = m div 2 ^ k; r = m mod 2 ^ k; half = 2 ^ (k - 1) in
        if r > half \<or> r = half \<and> (sticky \<or> odd q) then q + 1 else q)"

definition fp_round :: "fp_format \<Rightarrow> bool \<Rightarrow> int \<Rightarrow> int \<Rightarrow> bool \<Rightarrow> int" where
  "fp_round F s m e sticky =
     (if m = 0 \<and> \<not> sticky then fp_pack F s 0 0
      else let q = max (e + int (bit_length m) - int (frac_bits F + 1)) (fp_emin F);
               m' = (if q \<le> e then m * 2 ^ nat (e - q) else round_shift m (nat (q - e)) sticky);
               (m'', q') = (if m' = 2 ^ (frac_bits F + 1) then (2 ^ frac_bits F, q + 1) else (m', q))
        in if m'' < 2 ^ frac_bits F then fp_pack F s 0 m''
           else if q' - fp_emin F + 1 \<ge> 2 ^ exp_bits F - 1 then fp_inf F s
           else fp_pack F s (q' - fp_emin F + 1) (m'' - 2 ^ frac_bits F))"

section \<open>Operations\<close>

definition fp_signed :: "bool \<Rightarrow> int \<Rightarrow> int" where
  "fp_signed s m = (if s then - m else m)"

text \<open>The NaN an operation returns when an operand is one.\<close>

definition nan_operand :: "fp_format \<Rightarrow> fp \<Rightarrow> fp \<Rightarrow> int" where
  "nan_operand F x y =
     (case (x, y) of (FNaN s fr, _) \<Rightarrow> fp_nan F s fr | (_, FNaN s fr) \<Rightarrow> fp_nan F s fr
      | _ \<Rightarrow> fp_default_nan F)"

definition fp_add_signed :: "fp_format \<Rightarrow> bool \<Rightarrow> int \<Rightarrow> int \<Rightarrow> bool \<Rightarrow> int \<Rightarrow> int \<Rightarrow> int" where
  "fp_add_signed F s1 m1 e1 s2 m2 e2 =
     (let e = min e1 e2; v = fp_signed s1 m1 * 2 ^ nat (e1 - e) + fp_signed s2 m2 * 2 ^ nat (e2 - e)
      in if v = 0 then fp_pack F (s1 \<and> s2) 0 0 else fp_round F (v < 0) \<bar>v\<bar> e False)"

definition fp_add :: "fp_format \<Rightarrow> int \<Rightarrow> int \<Rightarrow> int" where
  "fp_add F a b =
     (case (fp_decode F a, fp_decode F b) of
        (FInf s, FInf t) \<Rightarrow> if s = t then fp_inf F s else fp_default_nan F
      | (FInf s, FFin _ _ _) \<Rightarrow> fp_inf F s
      | (FFin _ _ _, FInf t) \<Rightarrow> fp_inf F t
      | (FFin s1 m1 e1, FFin s2 m2 e2) \<Rightarrow> fp_add_signed F s1 m1 e1 s2 m2 e2
      | (x, y) \<Rightarrow> nan_operand F x y)"

definition fp_sub :: "fp_format \<Rightarrow> int \<Rightarrow> int \<Rightarrow> int" where
  "fp_sub F a b =
     (case (fp_decode F a, fp_decode F b) of
        (FInf s, FInf t) \<Rightarrow> if s \<noteq> t then fp_inf F s else fp_default_nan F
      | (FInf s, FFin _ _ _) \<Rightarrow> fp_inf F s
      | (FFin _ _ _, FInf t) \<Rightarrow> fp_inf F (\<not> t)
      | (FFin s1 m1 e1, FFin s2 m2 e2) \<Rightarrow> fp_add_signed F s1 m1 e1 (\<not> s2) m2 e2
      | (x, y) \<Rightarrow> nan_operand F x y)"

definition fp_mul :: "fp_format \<Rightarrow> int \<Rightarrow> int \<Rightarrow> int" where
  "fp_mul F a b =
     (case (fp_decode F a, fp_decode F b) of
        (FInf s, FInf t) \<Rightarrow> fp_inf F (s \<noteq> t)
      | (FInf s, FFin t m _) \<Rightarrow> if m = 0 then fp_default_nan F else fp_inf F (s \<noteq> t)
      | (FFin s m _, FInf t) \<Rightarrow> if m = 0 then fp_default_nan F else fp_inf F (s \<noteq> t)
      | (FFin s1 m1 e1, FFin s2 m2 e2) \<Rightarrow> fp_round F (s1 \<noteq> s2) (m1 * m2) (e1 + e2) False
      | (x, y) \<Rightarrow> nan_operand F x y)"

text \<open>The quotient has at least \<open>frac_bits + 3\<close> bits, so the sticky bit decides no more than ties.\<close>

definition fp_div :: "fp_format \<Rightarrow> int \<Rightarrow> int \<Rightarrow> int" where
  "fp_div F a b =
     (case (fp_decode F a, fp_decode F b) of
        (FInf s, FInf t) \<Rightarrow> fp_default_nan F
      | (FInf s, FFin t _ _) \<Rightarrow> fp_inf F (s \<noteq> t)
      | (FFin s _ _, FInf t) \<Rightarrow> fp_pack F (s \<noteq> t) 0 0
      | (FFin s1 m1 e1, FFin s2 m2 e2) \<Rightarrow>
          if m2 = 0 then (if m1 = 0 then fp_default_nan F else fp_inf F (s1 \<noteq> s2))
          else let k = frac_bits F + 3 + bit_length m2; n = m1 * 2 ^ k in
            fp_round F (s1 \<noteq> s2) (n div m2) (e1 - e2 - int k) (n mod m2 \<noteq> 0)
      | (x, y) \<Rightarrow> nan_operand F x y)"

function isqrt :: "int \<Rightarrow> int" where
  "isqrt n = (if n \<le> 0 then 0
     else let r = 2 * isqrt (n div 4) in if (r + 1) * (r + 1) \<le> n then r + 1 else r)"
  by auto
termination by (relation "measure nat") auto

declare isqrt.simps [simp del]

definition fp_sqrt :: "fp_format \<Rightarrow> int \<Rightarrow> int" where
  "fp_sqrt F a =
     (case fp_decode F a of
        FNaN s fr \<Rightarrow> fp_nan F s fr
      | FInf s \<Rightarrow> if s then fp_default_nan F else fp_inf F False
      | FFin s m e \<Rightarrow>
          if m = 0 then fp_pack F s 0 0
          else if s then fp_default_nan F
          else let k = 2 * (frac_bits F + 3) + (if odd e then 1 else 0); n = m * 2 ^ k; r = isqrt n in
            fp_round F False r ((e - int k) div 2) (r * r \<noteq> n))"

section \<open>Comparisons\<close>

definition fp_finite_cmp :: "(int \<Rightarrow> int \<Rightarrow> bool) \<Rightarrow> bool \<Rightarrow> int \<Rightarrow> int \<Rightarrow> bool \<Rightarrow> int \<Rightarrow> int \<Rightarrow> bool" where
  "fp_finite_cmp r s1 m1 e1 s2 m2 e2 =
     (let e = min e1 e2 in
      r (fp_signed s1 m1 * 2 ^ nat (e1 - e)) (fp_signed s2 m2 * 2 ^ nat (e2 - e)))"

text \<open>A comparison with a NaN is false; an infinity is compared as \<open>+1\<close> or \<open>-1\<close> with the rest as 0.\<close>

definition fp_cmp :: "(int \<Rightarrow> int \<Rightarrow> bool) \<Rightarrow> fp_format \<Rightarrow> int \<Rightarrow> int \<Rightarrow> bool" where
  "fp_cmp r F a b =
     (case (fp_decode F a, fp_decode F b) of
        (FNaN _ _, _) \<Rightarrow> False
      | (_, FNaN _ _) \<Rightarrow> False
      | (FInf s, FInf t) \<Rightarrow> r (fp_signed s 1) (fp_signed t 1)
      | (FInf s, FFin _ _ _) \<Rightarrow> r (fp_signed s 1) 0
      | (FFin _ _ _, FInf t) \<Rightarrow> r 0 (fp_signed t 1)
      | (FFin s1 m1 e1, FFin s2 m2 e2) \<Rightarrow> fp_finite_cmp r s1 m1 e1 s2 m2 e2)"

definition fp_eq :: "fp_format \<Rightarrow> int \<Rightarrow> int \<Rightarrow> bool" where "fp_eq = fp_cmp (=)"
definition fp_lt :: "fp_format \<Rightarrow> int \<Rightarrow> int \<Rightarrow> bool" where "fp_lt = fp_cmp (<)"
definition fp_le :: "fp_format \<Rightarrow> int \<Rightarrow> int \<Rightarrow> bool" where "fp_le = fp_cmp (\<le>)"

definition is_fp_nan :: "fp_format \<Rightarrow> int \<Rightarrow> bool" where
  "is_fp_nan F a = (case fp_decode F a of FNaN _ _ \<Rightarrow> True | _ \<Rightarrow> False)"

section \<open>Conversions\<close>

definition fp_of_int :: "fp_format \<Rightarrow> int \<Rightarrow> int" where
  "fp_of_int F x = fp_round F (x < 0) \<bar>x\<bar> 0 False"

text \<open>Truncation towards zero; \<open>lo\<close> and \<open>hi\<close> bound the target type.\<close>

definition fp_to_int :: "fp_format \<Rightarrow> int \<Rightarrow> int \<Rightarrow> int \<Rightarrow> int res" where
  "fp_to_int F lo hi a =
     (case fp_decode F a of
        FFin s m e \<Rightarrow>
          let x = fp_signed s (if 0 \<le> e then m * 2 ^ nat e else m div 2 ^ nat (- e)) in
          if lo \<le> x \<and> x \<le> hi then Inr x else Inl (Undefined ''float to integer out of range'')
      | _ \<Rightarrow> Inl (Undefined ''float to integer out of range''))"

definition fp_convert :: "fp_format \<Rightarrow> fp_format \<Rightarrow> int \<Rightarrow> int" where
  "fp_convert F G a =
     (case fp_decode F a of
        FNaN s fr \<Rightarrow> fp_nan G s (if frac_bits F \<le> frac_bits G then fr * 2 ^ (frac_bits G - frac_bits F)
                               else fr div 2 ^ (frac_bits F - frac_bits G))
      | FInf s \<Rightarrow> fp_inf G s
      | FFin s m e \<Rightarrow> fp_round G s m e False)"

section \<open>Facts\<close>

lemma bit_length_bounds:
  "0 < n \<Longrightarrow> 0 < bit_length n \<and> 2 ^ (bit_length n - 1) \<le> n \<and> n < 2 ^ bit_length n"
proof (induction n rule: bit_length.induct)
  case (1 n)
  show ?case
  proof (cases "n = 1")
    case True
    then show ?thesis by (simp add: bit_length.simps[of 1] bit_length.simps[of 0])
  next
    case False
    with 1 have IH: "0 < bit_length (n div 2)" "2 ^ (bit_length (n div 2) - 1) \<le> n div 2"
      "n div 2 < 2 ^ bit_length (n div 2)" by auto
    have "2 ^ bit_length (n div 2) = (2::int) * 2 ^ (bit_length (n div 2) - 1)"
      using IH(1) by (simp flip: power_Suc)
    with IH(2,3) have "2 ^ bit_length (n div 2) \<le> n \<and> n < 2 * 2 ^ bit_length (n div 2)" by linarith
    with 1(2) show ?thesis by (simp add: bit_length.simps[of n])
  qed
qed

lemma bit_length_le: "0 < n \<Longrightarrow> n < 2 ^ k \<Longrightarrow> bit_length n \<le> k"
  using bit_length_bounds[of n] power_less_imp_less_exp[of "2::int" "bit_length n - 1" k] by linarith

lemma fp_decode_pack:
  assumes "0 \<le> fr" "fr < 2 ^ frac_bits F" "0 < ex" "ex < 2 ^ exp_bits F - 1"
  shows "fp_decode F (fp_pack F s ex fr) = FFin s (2 ^ frac_bits F + fr) (ex - 1 + fp_emin F)"
proof -
  define A B S where "A = (2::int) ^ frac_bits F" and "B = (2::int) ^ exp_bits F"
    and "S = (of_bool s :: int)"
  have pos: "0 < A" "0 < B" by (simp_all add: A_def B_def)
  have b: "fp_pack F s ex fr = (S * B + ex) * A + fr"
    by (simp add: fp_pack_def A_def B_def S_def power_add algebra_simps)
  have fr: "fp_pack F s ex fr mod A = fr" and d: "fp_pack F s ex fr div A = S * B + ex"
    using assms by (simp_all add: b A_def)
  have ex: "(S * B + ex) mod B = ex" and sg: "(S * B + ex) div B = S"
    using assms by (simp_all add: B_def)
  have "fp_pack F s ex fr div 2 ^ (frac_bits F + exp_bits F) = S"
    using d sg pos by (simp only: power_add A_def B_def zdiv_zmult2_eq[of "2 ^ exp_bits F" _ "2 ^ frac_bits F"] zero_le_power zero_le_numeral)
  then have "odd (fp_pack F s ex fr div 2 ^ (frac_bits F + exp_bits F)) = s" by (simp add: S_def)
  then show ?thesis using fr ex d assms by (simp add: fp_decode_def Let_def A_def B_def)
qed

lemma fp_of_int_pack:
  assumes "x \<noteq> 0" "\<bar>x\<bar> < 2 ^ 53"
  shows "\<exists>k\<le>52. fp_of_int binary64 x = fp_pack binary64 (x < 0) (1075 - int k) (\<bar>x\<bar> * 2 ^ k - 2 ^ 52) \<and>
    2 ^ 52 \<le> \<bar>x\<bar> * 2 ^ k \<and> \<bar>x\<bar> * 2 ^ k < 2 ^ 53"
proof -
  define L where "L = bit_length \<bar>x\<bar>"
  have L: "0 < L" "2 ^ (L - 1) \<le> \<bar>x\<bar>" "\<bar>x\<bar> < 2 ^ L" "L \<le> 53"
    using bit_length_bounds[of "\<bar>x\<bar>"] bit_length_le[of "\<bar>x\<bar>" 53] assms by (auto simp: L_def)
  define k where "k = 53 - L"
  have p: "(2::int) ^ (L - 1) * 2 ^ k = 2 ^ 52" "(2::int) ^ L * 2 ^ k = 2 ^ 53"
    using L(1,4) by (simp_all add: k_def flip: power_add)
  have m: "2 ^ 52 \<le> \<bar>x\<bar> * 2 ^ k" "\<bar>x\<bar> * 2 ^ k < 2 ^ 53"
    using L(2,3) p mult_right_mono[of "2 ^ (L - 1)" "\<bar>x\<bar>" "2 ^ k"]
      mult_strict_right_mono[of "\<bar>x\<bar>" "2 ^ L" "2 ^ k"] by simp_all
  have n: "nat (53 - int L) = 53 - L" by linarith
  have e: "fp_emin binary64 = - 1074" by (simp add: fp_emin_def fp_bias_def binary64_def)
  have q: "max (int L - 53) (- 1074) = - int k" using L(4) by (simp add: k_def)
  have "fp_of_int binary64 x = fp_pack binary64 (x < 0) (1075 - int k) (\<bar>x\<bar> * 2 ^ k - 2 ^ 52)"
    using assms(1) m L(4) unfolding fp_of_int_def fp_round_def
    by (simp add: e L_def[symmetric] q binary64_def[THEN arg_cong, of frac_bits]
        binary64_def[THEN arg_cong, of exp_bits] Let_def k_def n)
  with m L(1) show ?thesis by (intro exI[of _ k]) (simp add: k_def)
qed

lemma fp_of_int_exact:
  assumes "x \<noteq> 0" "\<bar>x\<bar> < 2 ^ 53"
  shows "\<exists>k\<le>52. fp_decode binary64 (fp_of_int binary64 x) = FFin (x < 0) (\<bar>x\<bar> * 2 ^ k) (- int k)"
proof -
  from fp_of_int_pack[OF assms] obtain k where "k \<le> 52"
    "fp_of_int binary64 x = fp_pack binary64 (x < 0) (1075 - int k) (\<bar>x\<bar> * 2 ^ k - 2 ^ 52)"
    "2 ^ 52 \<le> \<bar>x\<bar> * 2 ^ k" "\<bar>x\<bar> * 2 ^ k < 2 ^ 53" by blast
  moreover have "fp_emin binary64 = - 1074" by (simp add: fp_emin_def fp_bias_def binary64_def)
  ultimately show ?thesis
    by (intro exI[of _ k]) (simp add: fp_decode_pack binary64_def[THEN arg_cong, of frac_bits]
        binary64_def[THEN arg_cong, of exp_bits])
qed

lemma fp_of_int_range:
  assumes "\<bar>x\<bar> < 2 ^ 53"
  shows "0 \<le> fp_of_int binary64 x \<and> fp_of_int binary64 x < 2 ^ 64"
proof (cases "x = 0")
  case True
  then show ?thesis by (simp add: fp_of_int_def fp_round_def fp_pack_def)
next
  case False
  from fp_of_int_pack[OF False assms] obtain k where "k \<le> 52"
    "fp_of_int binary64 x = fp_pack binary64 (x < 0) (1075 - int k) (\<bar>x\<bar> * 2 ^ k - 2 ^ 52)"
    "2 ^ 52 \<le> \<bar>x\<bar> * 2 ^ k" "\<bar>x\<bar> * 2 ^ k < 2 ^ 53" by blast
  moreover obtain y where "y = \<bar>x\<bar> * 2 ^ k" by simp
  ultimately have "k \<le> 52" "2 ^ 52 \<le> y" "y < 2 ^ 53" and
    "fp_of_int binary64 x = (if x < 0 then 2 ^ 63 else 0) + (1075 - int k) * 2 ^ 52 + (y - 2 ^ 52)"
    by (simp_all add: fp_pack_def binary64_def)
  then show ?thesis by (simp split: if_splits)
qed

lemma fp_int_roundtrip:
  assumes "\<bar>x\<bar> < 2 ^ 53" "lo \<le> x" "x \<le> hi"
  shows "fp_to_int binary64 lo hi (fp_of_int binary64 x) = Inr x"
proof (cases "x = 0")
  case True
  then show ?thesis using assms
    by (simp add: fp_of_int_def fp_round_def fp_pack_def fp_to_int_def fp_decode_def fp_emin_def
        fp_bias_def binary64_def fp_signed_def)
next
  case False
  from fp_of_int_exact[OF False assms(1)] obtain k where
    "fp_decode binary64 (fp_of_int binary64 x) = FFin (x < 0) (\<bar>x\<bar> * 2 ^ k) (- int k)" by blast
  moreover have "\<bar>x\<bar> * 2 ^ k div 2 ^ k = \<bar>x\<bar>" by simp
  moreover have "fp_signed (x < 0) \<bar>x\<bar> = x" by (simp add: fp_signed_def)
  ultimately show ?thesis using assms(2,3) by (cases "k = 0") (simp_all add: fp_to_int_def Let_def)
qed

text \<open>Two numbers are in exactly one of the four relations.\<close>

lemma fp_nan_cases: "is_fp_nan F a \<or> is_fp_nan F b \<Longrightarrow> \<not> fp_cmp r F a b"
  by (auto simp: is_fp_nan_def fp_cmp_def split: fp.splits)

lemma fp_ordered_cases:
  assumes "\<not> is_fp_nan F a" "\<not> is_fp_nan F b"
  shows "\<exists>x y. \<forall>r. fp_cmp r F a b = r x y"
  using assms
  by (cases "fp_decode F a"; cases "fp_decode F b")
    (auto simp: is_fp_nan_def fp_cmp_def fp_finite_cmp_def Let_def)

lemma fp_cmp_swap: "fp_cmp r F a b = fp_cmp (\<lambda>x y. r y x) F b a"
  by (cases "fp_decode F a"; cases "fp_decode F b")
    (simp_all add: fp_cmp_def fp_finite_cmp_def Let_def min.commute)

lemma fp_order:
  assumes "\<not> is_fp_nan F a" "\<not> is_fp_nan F b"
  shows "fp_eq F a b \<longleftrightarrow> \<not> fp_lt F a b \<and> \<not> fp_lt F b a" "\<not> (fp_lt F a b \<and> fp_lt F b a)"
    "fp_le F a b \<longleftrightarrow> \<not> fp_lt F b a" "fp_le F b a \<longleftrightarrow> \<not> fp_lt F a b"
proof -
  from fp_ordered_cases[OF assms] obtain x y where xy: "\<forall>r. fp_cmp r F a b = r x y"
    by (elim exE)
  note cmp = spec[OF xy] and swap = fp_cmp_swap[of _ F b a, unfolded spec[OF xy]]
  show "fp_eq F a b \<longleftrightarrow> \<not> fp_lt F a b \<and> \<not> fp_lt F b a" "\<not> (fp_lt F a b \<and> fp_lt F b a)"
    "fp_le F a b \<longleftrightarrow> \<not> fp_lt F b a" "fp_le F b a \<longleftrightarrow> \<not> fp_lt F a b"
    by (auto simp: fp_eq_def fp_lt_def fp_le_def cmp swap)
qed

lemma fp_unordered:
  assumes "is_fp_nan F a \<or> is_fp_nan F b"
  shows "\<not> fp_eq F a b" "\<not> fp_lt F a b" "\<not> fp_lt F b a" "\<not> fp_le F a b" "\<not> fp_le F b a"
  using assms by (auto simp: fp_eq_def fp_lt_def fp_le_def fp_nan_cases)

text \<open>The integer square root is exact to the floor.\<close>

lemma isqrt_bounds: "0 \<le> n \<Longrightarrow> 0 \<le> isqrt n \<and> isqrt n * isqrt n \<le> n \<and> n < (isqrt n + 1) * (isqrt n + 1)"
proof (induction n rule: isqrt.induct)
  case (1 n)
  show ?case
  proof (cases "n = 0")
    case True
    then show ?thesis by (simp add: isqrt.simps)
  next
    case False
    define r where "r = isqrt (n div 4)"
    have IH: "0 \<le> r" "r * r \<le> n div 4" "n div 4 < (r + 1) * (r + 1)"
      using 1 False by (auto simp: r_def)
    have "4 * (r * r) \<le> n" "n < 4 * ((r + 1) * (r + 1))" using IH by linarith+
    moreover have "isqrt n = (if (2 * r + 1) * (2 * r + 1) \<le> n then 2 * r + 1 else 2 * r)"
      using False 1(2) by (simp add: isqrt.simps[of n] Let_def flip: r_def)
    ultimately show ?thesis using IH(1) by (auto simp: algebra_simps)
  qed
qed

end
