(* ===== verification/Pn_Values.thy ===== *)
theory Pn_Values
  imports Pn_Opcodes Pn_Float
begin

text \<open>
  The arithmetic of the executor, \<^verbatim>\<open>src/pn_executor.h\<close>: what the macros \<open>PN_OPCODE_BINOP\<close>,
  \<open>PN_OPCODE_CAST\<close> and \<open>PN_OPCODE_CMP2\<close> compute from the members of two \<open>PNRuntimeValue\<close> unions.

  The C expressions are evaluated with C's promotions: 8- and 16-bit operands become \<open>int\<close>, so a
  shift of them is defined below 32 and the product of two 16-bit operands can overflow \<open>int\<close>.
  Division by zero, \<open>INT_MIN / -1\<close>, a shift by the promoted width or more and a signed overflow are
  \<open>Undefined\<close>. A constructor \<open>pn_executor_value_*\<close> sets one member of a local union; the bytes it
  leaves indeterminate are zero here.
\<close>

unbundle bit_operations_syntax

section \<open>Members of a runtime value\<close>

fun int_width :: "PNBasicType \<Rightarrow> nat" where
  "int_width PN_BASIC_TYPE_INT1 = 8"
| "int_width PN_BASIC_TYPE_INT8 = 8"
| "int_width PN_BASIC_TYPE_INT16 = 16"
| "int_width PN_BASIC_TYPE_INT32 = 32"
| "int_width PN_BASIC_TYPE_INT64 = 64"
| "int_width _ = 0"

text \<open>The unsigned and the signed member of the width of an integer type.\<close>

definition get_u :: "PNBasicType \<Rightarrow> PNRuntimeValue \<Rightarrow> int" where
  "get_u bt v = uint v mod 2 ^ int_width bt"

definition get_i :: "PNBasicType \<Rightarrow> PNRuntimeValue \<Rightarrow> int" where
  "get_i bt v =
     (let u = get_u bt v in if u < 2 ^ (int_width bt - 1) then u else u - 2 ^ int_width bt)"

definition pn_executor_value :: "PNBasicType \<Rightarrow> int \<Rightarrow> PNRuntimeValue" where
  "pn_executor_value bt x = word_of_int (x mod 2 ^ int_width bt)"

fun fp_format_of :: "PNBasicType \<Rightarrow> fp_format" where
  "fp_format_of PN_BASIC_TYPE_FLOAT = binary32"
| "fp_format_of _ = binary64"

definition get_f :: "PNBasicType \<Rightarrow> PNRuntimeValue \<Rightarrow> int" where
  "get_f bt v = (if bt = PN_BASIC_TYPE_FLOAT then uint v mod 2 ^ 32 else uint v)"

definition is_float_type :: "PNBasicType \<Rightarrow> bool" where
  "is_float_type bt \<longleftrightarrow> bt = PN_BASIC_TYPE_FLOAT \<or> bt = PN_BASIC_TYPE_DOUBLE"

section \<open>Binary operations\<close>

text \<open>C division truncates, and the remainder has the sign of the dividend.\<close>

definition c_div :: "int \<Rightarrow> int \<Rightarrow> int" where
  "c_div x y = sgn x * sgn y * (\<bar>x\<bar> div \<bar>y\<bar>)"

definition c_rem :: "int \<Rightarrow> int \<Rightarrow> int" where
  "c_rem x y = x - c_div x y * y"

definition promoted_width :: "PNBasicType \<Rightarrow> nat" where
  "promoted_width bt = max 32 (int_width bt)"

definition shift_ok :: "PNBasicType \<Rightarrow> int \<Rightarrow> unit res" where
  "shift_ok bt n = ensure (0 \<le> n \<and> n < int (promoted_width bt)) (Undefined ''shift amount'')"

definition divisor_ok :: "int \<Rightarrow> unit res" where
  "divisor_ok y = ensure (y \<noteq> 0) (Undefined ''division by zero'')"

definition quotient_ok :: "PNBasicType \<Rightarrow> int \<Rightarrow> int \<Rightarrow> unit res" where
  "quotient_ok bt x y =
     ensure (\<not> (x = - (2 ^ (int_width bt - 1)) \<and> y = - 1)) (Undefined ''signed overflow'')"

definition int_binop :: "PNBinOp \<Rightarrow> PNBasicType \<Rightarrow> PNRuntimeValue \<Rightarrow> PNRuntimeValue \<Rightarrow> int res" where
  "int_binop op bt v0 v1 =
     (let x = get_u bt v0; y = get_u bt v1; sx = get_i bt v0; sy = get_i bt v1 in
      case op of
        PN_BINOP_ADD \<Rightarrow> Inr (x + y)
      | PN_BINOP_SUB \<Rightarrow> Inr (x - y)
      | PN_BINOP_MUL \<Rightarrow>
          rbind (ensure (int_width bt < 32 \<longrightarrow> x * y < 2 ^ 31) (Undefined ''signed overflow'')) (\<lambda>_.
          Inr (x * y))
      | PN_BINOP_UDIV \<Rightarrow> rbind (divisor_ok y) (\<lambda>_. Inr (x div y))
      | PN_BINOP_UREM \<Rightarrow> rbind (divisor_ok y) (\<lambda>_. Inr (x mod y))
      | PN_BINOP_SDIV \<Rightarrow>
          rbind (divisor_ok sy) (\<lambda>_. rbind (quotient_ok bt sx sy) (\<lambda>_. Inr (c_div sx sy)))
      | PN_BINOP_SREM \<Rightarrow>
          rbind (divisor_ok sy) (\<lambda>_. rbind (quotient_ok bt sx sy) (\<lambda>_. Inr (c_rem sx sy)))
      | PN_BINOP_SHL \<Rightarrow> rbind (shift_ok bt y) (\<lambda>_. Inr (push_bit (nat y) x))
      | PN_BINOP_LSHR \<Rightarrow> rbind (shift_ok bt y) (\<lambda>_. Inr (drop_bit (nat y) x))
      | PN_BINOP_ASHR \<Rightarrow> rbind (shift_ok bt sy) (\<lambda>_. Inr (drop_bit (nat sy) sx))
      | PN_BINOP_AND \<Rightarrow> Inr (x AND y)
      | PN_BINOP_OR \<Rightarrow> Inr (x OR y)
      | PN_BINOP_XOR \<Rightarrow> Inr (x XOR y))"

definition float_binop :: "PNBinOp \<Rightarrow> PNBasicType \<Rightarrow> int \<Rightarrow> int \<Rightarrow> int" where
  "float_binop op bt x y =
     (let F = fp_format_of bt in
      case op of PN_BINOP_ADD \<Rightarrow> fp_add F x y | PN_BINOP_SUB \<Rightarrow> fp_sub F x y
      | PN_BINOP_MUL \<Rightarrow> fp_mul F x y | _ \<Rightarrow> fp_div F x y)"

text \<open>An opcode without a case in the switch is an invalid opcode.\<close>

definition exec_binop ::
    "PNBinOp \<Rightarrow> PNBasicType \<Rightarrow> PNRuntimeValue \<Rightarrow> PNRuntimeValue \<Rightarrow> PNRuntimeValue res" where
  "exec_binop op bt v0 v1 =
     (if bt \<notin> set (binop_types op) then Inl (Fatal ''Invalid opcode'')
      else if is_float_type bt
      then Inr (word_of_int (float_binop op bt (get_f bt v0) (get_f bt v1)))
      else rbind (int_binop op bt v0 v1) (\<lambda>x. Inr (pn_executor_value bt x)))"

section \<open>Casts\<close>

definition exec_cast :: "PNCast \<Rightarrow> PNBasicType \<Rightarrow> PNBasicType \<Rightarrow> PNRuntimeValue \<Rightarrow> PNRuntimeValue res" where
  "exec_cast op src dst v =
     (if (src, dst) \<notin> set (cast_types op) then Inl (Fatal ''Invalid opcode'')
      else case op of
        PN_CAST_TRUNC \<Rightarrow>
          Inr (if dst = INT1 then pn_executor_value INT8 (get_u src v AND 1)
               else pn_executor_value dst (get_i src v))
      | PN_CAST_ZEXT \<Rightarrow>
          Inr (pn_executor_value dst (if src = INT1 then get_u INT8 v AND 1 else get_u src v))
      | PN_CAST_SEXT \<Rightarrow>
          Inr (pn_executor_value dst (if src = INT1 then - (get_u INT8 v AND 1) else get_i src v))
      | PN_CAST_FPTOUI \<Rightarrow>
          rbind (fp_to_int (fp_format_of src) 0 (2 ^ int_width dst - 1) (get_f src v))
            (\<lambda>x. Inr (pn_executor_value dst x))
      | PN_CAST_FPTOSI \<Rightarrow>
          rbind (fp_to_int (fp_format_of src) (- (2 ^ (int_width dst - 1))) (2 ^ (int_width dst - 1) - 1)
                  (get_f src v)) (\<lambda>x. Inr (pn_executor_value dst x))
      | PN_CAST_UITOFP \<Rightarrow> Inr (word_of_int (fp_of_int (fp_format_of dst) (get_u src v)))
      | PN_CAST_SITOFP \<Rightarrow> Inr (word_of_int (fp_of_int (fp_format_of dst) (get_i src v)))
      | PN_CAST_FPTRUNC \<Rightarrow> Inr (word_of_int (fp_convert binary64 binary32 (get_f src v)))
      | PN_CAST_FPEXT \<Rightarrow> Inr (word_of_int (fp_convert binary32 binary64 (get_f src v)))
      | PN_CAST_BITCAST \<Rightarrow> Inr v)"

section \<open>Comparisons\<close>

definition exec_fcmp :: "PNCmp2 \<Rightarrow> PNBasicType \<Rightarrow> int \<Rightarrow> int \<Rightarrow> bool" where
  "exec_fcmp op bt x y =
     (let F = fp_format_of bt in
      case op of
        PN_FCMP_OEQ \<Rightarrow> fp_eq F x y
      | PN_FCMP_OGE \<Rightarrow> fp_le F y x
      | PN_FCMP_OGT \<Rightarrow> fp_lt F y x
      | PN_FCMP_OLE \<Rightarrow> fp_le F x y
      | PN_FCMP_OLT \<Rightarrow> fp_lt F x y
      | PN_FCMP_ONE \<Rightarrow> \<not> fp_eq F x y
      | PN_FCMP_ORD \<Rightarrow> fp_eq F x y \<or> \<not> fp_eq F x y
      | PN_FCMP_UEQ \<Rightarrow> \<not> (\<not> fp_eq F x y)
      | PN_FCMP_UGE \<Rightarrow> \<not> fp_lt F x y
      | PN_FCMP_UGT \<Rightarrow> \<not> fp_le F x y
      | PN_FCMP_ULE \<Rightarrow> \<not> fp_lt F y x
      | PN_FCMP_ULT \<Rightarrow> \<not> fp_le F y x
      | PN_FCMP_UNE \<Rightarrow> \<not> fp_eq F x y
      | _ \<Rightarrow> \<not> (fp_eq F x y \<or> \<not> fp_eq F x y))"

definition exec_icmp :: "PNCmp2 \<Rightarrow> PNBasicType \<Rightarrow> PNRuntimeValue \<Rightarrow> PNRuntimeValue \<Rightarrow> bool" where
  "exec_icmp op bt v0 v1 =
     (let x = get_u bt v0; y = get_u bt v1; sx = get_i bt v0; sy = get_i bt v1 in
      case op of
        PN_ICMP_EQ \<Rightarrow> x = y
      | PN_ICMP_NE \<Rightarrow> x \<noteq> y
      | PN_ICMP_SGE \<Rightarrow> sx \<ge> sy
      | PN_ICMP_SGT \<Rightarrow> sx > sy
      | PN_ICMP_SLE \<Rightarrow> sx \<le> sy
      | PN_ICMP_SLT \<Rightarrow> sx < sy
      | PN_ICMP_UGE \<Rightarrow> x \<ge> y
      | PN_ICMP_UGT \<Rightarrow> x > y
      | PN_ICMP_ULE \<Rightarrow> x \<le> y
      | _ \<Rightarrow> x < y)"

definition exec_cmp2 ::
    "PNCmp2 \<Rightarrow> PNBasicType \<Rightarrow> PNRuntimeValue \<Rightarrow> PNRuntimeValue \<Rightarrow> PNRuntimeValue res" where
  "exec_cmp2 op bt v0 v1 =
     (if bt \<notin> set (cmp2_types op) then Inl (Fatal ''Invalid opcode'')
      else Inr (pn_executor_value INT8 (of_bool (
        if is_float_type bt then exec_fcmp op bt (get_f bt v0) (get_f bt v1)
        else exec_icmp op bt v0 v1))))"

section \<open>Facts\<close>

lemma get_u_bounds [simp]: "0 \<le> get_u bt v" "get_u bt v < 2 ^ int_width bt"
  by (simp_all add: get_u_def)

lemma int_width_le: "int_width bt \<le> 64"
  by (cases bt) auto

lemma get_u_value [simp]: "get_u bt (pn_executor_value bt x) = x mod 2 ^ int_width bt"
proof -
  have "(2::int) ^ int_width bt \<le> 2 ^ 64" using int_width_le by (intro power_increasing) auto
  then have "x mod 2 ^ int_width bt < 2 ^ 64"
    using pos_mod_bound[of "2 ^ int_width bt" x] by (smt (verit) zero_less_power)
  then show ?thesis
    by (simp add: get_u_def pn_executor_value_def uint_word_of_int)
qed

lemma get_i_bounds:
  assumes "0 < int_width bt"
  shows "- (2 ^ (int_width bt - 1)) \<le> get_i bt v" "get_i bt v < 2 ^ (int_width bt - 1)"
proof -
  have "(2::int) ^ int_width bt = 2 * 2 ^ (int_width bt - 1)" using assms by (simp flip: power_Suc)
  then show "- (2 ^ (int_width bt - 1)) \<le> get_i bt v" "get_i bt v < 2 ^ (int_width bt - 1)"
    using get_u_bounds[of bt v] zero_le_power[of "2::int" "int_width bt - 1"]
    unfolding get_i_def Let_def by (auto split: if_splits simp del: zero_le_power get_u_bounds)
qed

lemma get_i_value:
  assumes "0 < int_width bt" "- (2 ^ (int_width bt - 1)) \<le> x" "x < 2 ^ (int_width bt - 1)"
  shows "get_i bt (pn_executor_value bt x) = x"
proof -
  have w: "(2::int) ^ int_width bt = 2 * 2 ^ (int_width bt - 1)"
    using assms(1) by (simp flip: power_Suc)
  show ?thesis
  proof (cases "0 \<le> x")
    case True
    then have "x mod 2 ^ int_width bt = x" using assms(3) by (intro mod_pos_pos_trivial) (auto simp: w)
    then show ?thesis using True assms(3) by (simp add: get_i_def)
  next
    case False
    then have "x mod 2 ^ int_width bt = x + 2 ^ int_width bt"
      using assms(2) mod_pos_pos_trivial[of "x + 2 ^ int_width bt" "2 ^ int_width bt"]
      by (simp add: w)
    then show ?thesis using False assms(2) by (simp add: get_i_def w)
  qed
qed

lemma c_div_rem: "x = c_div x y * y + c_rem x y"
  by (simp add: c_rem_def)

lemma c_rem_mod: "c_rem x y = sgn x * (\<bar>x\<bar> mod \<bar>y\<bar>)"
proof -
  have "c_div x y * y = sgn x * (\<bar>x\<bar> div \<bar>y\<bar> * \<bar>y\<bar>)"
    unfolding c_div_def by (simp add: mult.assoc abs_sgn[of y] mult.left_commute)
  moreover have "x = sgn x * \<bar>x\<bar>" by (simp add: sgn_mult_abs)
  ultimately have "c_rem x y = sgn x * (\<bar>x\<bar> - \<bar>x\<bar> div \<bar>y\<bar> * \<bar>y\<bar>)"
    by (simp add: c_rem_def right_diff_distrib)
  then show ?thesis by (simp add: minus_div_mult_eq_mod)
qed

lemma c_rem_bound: "y \<noteq> 0 \<Longrightarrow> \<bar>c_rem x y\<bar> < \<bar>y\<bar>"
  by (simp add: c_rem_mod abs_mult abs_sgn_eq)

lemma c_rem_sign: "0 \<le> x * c_rem x y"
proof -
  have "0 \<le> \<bar>x\<bar> mod \<bar>y\<bar>" by (cases "y = 0") auto
  then show ?thesis by (simp add: c_rem_mod mult.assoc[symmetric] flip: abs_sgn)
qed

lemma c_div_bound: "y \<noteq> 0 \<Longrightarrow> \<bar>c_div x y\<bar> \<le> \<bar>x\<bar>"
  using zdiv_mono2[of "\<bar>x\<bar>" 1 "\<bar>y\<bar>"] pos_imp_zdiv_nonneg_iff[of "\<bar>y\<bar>" "\<bar>x\<bar>"]
  by (simp add: c_div_def abs_mult abs_sgn_eq)

lemma c_div_half: "2 \<le> \<bar>y\<bar> \<Longrightarrow> \<bar>c_div x y\<bar> \<le> \<bar>x\<bar> div 2"
  using zdiv_mono2[of "\<bar>x\<bar>" 2 "\<bar>y\<bar>"] pos_imp_zdiv_nonneg_iff[of "\<bar>y\<bar>" "\<bar>x\<bar>"]
  by (auto simp: c_div_def abs_mult abs_sgn_eq)

lemma binop_int_types:
  "bt \<in> set (binop_types op) \<Longrightarrow> \<not> is_float_type bt \<Longrightarrow> 0 < int_width bt"
  by (cases op) (auto simp: is_float_type_def)

lemma exec_sdiv_Inr:
  assumes "bt = INT32 \<or> bt = INT64"
  shows "exec_binop PN_BINOP_SDIV bt v0 v1 = Inr q \<longleftrightarrow>
      get_i bt v1 \<noteq> 0 \<and> \<not> (get_i bt v0 = - (2 ^ (int_width bt - 1)) \<and> get_i bt v1 = - 1) \<and>
      q = pn_executor_value bt (c_div (get_i bt v0) (get_i bt v1))"
    and "exec_binop PN_BINOP_SREM bt v0 v1 = Inr r \<longleftrightarrow>
      get_i bt v1 \<noteq> 0 \<and> \<not> (get_i bt v0 = - (2 ^ (int_width bt - 1)) \<and> get_i bt v1 = - 1) \<and>
      r = pn_executor_value bt (c_rem (get_i bt v0) (get_i bt v1))"
  using assms
  by (auto simp: exec_binop_def int_binop_def divisor_ok_def quotient_ok_def Let_def res_simps
      is_float_type_def)

lemma c_div_range:
  assumes "0 < int_width bt" "get_i bt v1 \<noteq> 0"
    and "\<not> (get_i bt v0 = - (2 ^ (int_width bt - 1)) \<and> get_i bt v1 = - 1)"
  shows "get_i bt (pn_executor_value bt (c_div (get_i bt v0) (get_i bt v1))) = c_div (get_i bt v0) (get_i bt v1)"
    and "get_i bt (pn_executor_value bt (c_rem (get_i bt v0) (get_i bt v1))) = c_rem (get_i bt v0) (get_i bt v1)"
proof -
  define x y M where "x = get_i bt v0" "y = get_i bt v1" "M = (2::int) ^ (int_width bt - 1)"
  have x: "- M \<le> x" "x < M" and y: "- M \<le> y" "y < M"
    using get_i_bounds[OF assms(1)] by (auto simp: x_y_M_def)
  consider "y = 1" | "y = - 1" | "2 \<le> \<bar>y\<bar>" using assms(2) by (fastforce simp: x_y_M_def)
  then have d: "- M \<le> c_div x y \<and> c_div x y < M"
  proof cases
    case 1
    then show ?thesis using x by (simp add: c_div_def sgn_mult_abs)
  next
    case 2
    then have "c_div x y = - x" by (simp add: c_div_def sgn_mult_abs)
    then show ?thesis using x 2 assms(3) by (auto simp: x_y_M_def)
  next
    case 3
    then show ?thesis using c_div_half[OF 3, of x] x by linarith
  qed
  have "\<bar>c_rem x y\<bar> < \<bar>y\<bar>" using c_rem_bound assms(2) by (simp add: x_y_M_def)
  with y have r: "- M \<le> c_rem x y" "c_rem x y < M" by linarith+
  show "get_i bt (pn_executor_value bt (c_div (get_i bt v0) (get_i bt v1))) = c_div (get_i bt v0) (get_i bt v1)"
    "get_i bt (pn_executor_value bt (c_rem (get_i bt v0) (get_i bt v1))) = c_rem (get_i bt v0) (get_i bt v1)"
    using d r by (auto intro!: get_i_value assms(1) simp: x_y_M_def)
qed

section \<open>Properties\<close>

text \<open>
  The comparison table above the cases of \<^verbatim>\<open>pn_executor.h\<close>: the number of a predicate is four bits
  that say whether it holds for unordered, less, greater and equal operands.
\<close>

definition fcmp_table :: "nat \<Rightarrow> fp_format \<Rightarrow> int \<Rightarrow> int \<Rightarrow> bool" where
  "fcmp_table n F x y \<longleftrightarrow>
     bit n 3 \<and> (is_fp_nan F x \<or> is_fp_nan F y) \<or> bit n 2 \<and> fp_lt F x y \<or>
     bit n 1 \<and> fp_lt F y x \<or> bit n 0 \<and> fp_eq F x y"

lemma fcmp_numbers:
  assumes "decode_cmp2 n = Some op" "FLOAT \<in> set (cmp2_types op)"
  shows "(n, op) \<in> {(1, PN_FCMP_OEQ), (2, PN_FCMP_OGT), (3, PN_FCMP_OGE), (4, PN_FCMP_OLT),
    (5, PN_FCMP_OLE), (6, PN_FCMP_ONE), (7, PN_FCMP_ORD), (8, PN_FCMP_UNO), (9, PN_FCMP_UEQ),
    (10, PN_FCMP_UGT), (11, PN_FCMP_UGE), (12, PN_FCMP_ULT), (13, PN_FCMP_ULE), (14, PN_FCMP_UNE)}"
  using assms by (auto simp: decode_cmp2_def split: if_splits)

lemma mod_power_mod: "k \<le> n \<Longrightarrow> (x::int) mod 2 ^ n mod 2 ^ k = x mod 2 ^ k"
  by (simp add: mod_mod_cancel le_imp_power_dvd)

lemma get_i_mod: "k \<le> int_width bt \<Longrightarrow> get_i bt v mod 2 ^ k = get_u bt v mod 2 ^ k"
  by (auto simp: get_i_def Let_def le_imp_power_dvd mod_diff_eq[symmetric, of _ "2 ^ int_width bt"]
      simp flip: dvd_eq_mod_eq_0)

text \<open>
  C34: The floating-point comparisons compute the predicate of the table of four bits (unordered,
  less, greater, equal) for operands that are numbers, for every predicate; with a NaN operand they
  do so for every predicate but \<open>ONE\<close>, \<open>ORD\<close>, \<open>UNO\<close> and \<open>UEQ\<close>.
\<close>

theorem pn_fcmp_table:
  assumes "decode_cmp2 n = Some op" "FLOAT \<in> set (cmp2_types op)"
    and "is_fp_nan (fp_format_of bt) x \<or> is_fp_nan (fp_format_of bt) y \<Longrightarrow>
      op \<notin> {PN_FCMP_ONE, PN_FCMP_ORD, PN_FCMP_UNO, PN_FCMP_UEQ}"
  shows "exec_fcmp op bt x y = fcmp_table n (fp_format_of bt) x y"
proof (cases "is_fp_nan (fp_format_of bt) x \<or> is_fp_nan (fp_format_of bt) y")
  case True
  note nan = fp_unordered[OF True]
  from fcmp_numbers[OF assms(1,2)] assms(3)[OF True] show ?thesis
    by (auto simp: exec_fcmp_def fcmp_table_def Let_def nan True bit_iff_odd)
next
  case False
  then have num: "\<not> is_fp_nan (fp_format_of bt) x" "\<not> is_fp_nan (fp_format_of bt) y" by auto
  note order = fp_order[OF num]
  from fcmp_numbers[OF assms(1,2)] order(2) show ?thesis
    by (auto simp: exec_fcmp_def fcmp_table_def Let_def num order(1,3,4) bit_iff_odd)
qed

theorem pn_fcmp_table_witness:
  "exec_fcmp PN_FCMP_OLT DOUBLE (fp_of_int binary64 1) (fp_of_int binary64 2) =
     fcmp_table 4 binary64 (fp_of_int binary64 1) (fp_of_int binary64 2)"
proof -
  have "\<not> is_fp_nan binary64 (fp_of_int binary64 1)" "\<not> is_fp_nan binary64 (fp_of_int binary64 2)"
    by code_simp+
  then show ?thesis
    using pn_fcmp_table[of 4 PN_FCMP_OLT DOUBLE "fp_of_int binary64 1" "fp_of_int binary64 2"]
    by (simp add: decode_cmp2_def)
qed

text \<open>
  With a NaN operand \<open>ONE\<close> and \<open>ORD\<close> are true and \<open>UNO\<close> and \<open>UEQ\<close> are false, each the
  opposite of the table: C's \<open>!=\<close> is true for a NaN, so \<open>A == B || A != B\<close> never detects one.
\<close>

theorem pn_fcmp_nan_deviates:
  assumes "decode_cmp2 n = Some op" "op \<in> {PN_FCMP_ONE, PN_FCMP_ORD, PN_FCMP_UNO, PN_FCMP_UEQ}"
    and "is_fp_nan (fp_format_of bt) x \<or> is_fp_nan (fp_format_of bt) y"
  shows "exec_fcmp op bt x y \<longleftrightarrow> \<not> fcmp_table n (fp_format_of bt) x y"
proof -
  have "FLOAT \<in> set (cmp2_types op)" using assms(2) by auto
  from fcmp_numbers[OF assms(1) this] assms(2) show ?thesis
    by (auto simp: exec_fcmp_def fcmp_table_def Let_def fp_unordered[OF assms(3)] assms(3) bit_iff_odd)
qed

theorem pn_fcmp_nan_deviates_witness:
  "exec_fcmp PN_FCMP_UNO FLOAT 0x7FC00000 0 \<longleftrightarrow> \<not> fcmp_table 8 binary32 0x7FC00000 0"
  using pn_fcmp_nan_deviates[of 8 PN_FCMP_UNO FLOAT "0x7FC00000" 0]
  by (simp add: decode_cmp2_def is_fp_nan_def fp_decode_def binary32_def Let_def)

text \<open>
  Signed division and remainder of 32- and 64-bit operands are defined exactly when the divisor
  is not zero and the quotient is representable, and then they satisfy the division law with a
  remainder that is smaller than the divisor and has the sign of the dividend.
\<close>

theorem pn_sdiv_srem_law:
  assumes "bt = INT32 \<or> bt = INT64" "get_i bt v1 \<noteq> 0"
    and "\<not> (get_i bt v0 = - (2 ^ (int_width bt - 1)) \<and> get_i bt v1 = - 1)"
  shows "\<exists>q r. exec_binop PN_BINOP_SDIV bt v0 v1 = Inr q \<and> exec_binop PN_BINOP_SREM bt v0 v1 = Inr r \<and>
    get_i bt v0 = get_i bt q * get_i bt v1 + get_i bt r \<and> \<bar>get_i bt r\<bar> < \<bar>get_i bt v1\<bar> \<and>
    0 \<le> get_i bt v0 * get_i bt r"
proof -
  have w: "0 < int_width bt" using assms(1) by auto
  have "exec_binop PN_BINOP_SDIV bt v0 v1 =
      Inr (pn_executor_value bt (c_div (get_i bt v0) (get_i bt v1)))"
    "exec_binop PN_BINOP_SREM bt v0 v1 =
      Inr (pn_executor_value bt (c_rem (get_i bt v0) (get_i bt v1)))"
    using exec_sdiv_Inr[OF assms(1)] assms(2,3) by blast+
  then show ?thesis
    using c_div_rem[of "get_i bt v0" "get_i bt v1"] c_rem_bound[OF assms(2)] c_rem_sign
    by (simp only: c_div_range[OF w assms(2,3)] sum.inject ex_simps simp_thms)
qed

theorem pn_sdiv_srem_law_witness:
  "\<exists>q r. exec_binop PN_BINOP_SDIV INT32 (word_of_int (2 ^ 32 - 7)) 2 = Inr q \<and>
     exec_binop PN_BINOP_SREM INT32 (word_of_int (2 ^ 32 - 7)) 2 = Inr r \<and>
     get_i INT32 (word_of_int (2 ^ 32 - 7)) = get_i INT32 q * get_i INT32 2 + get_i INT32 r"
  using pn_sdiv_srem_law[of INT32 2 "word_of_int (2 ^ 32 - 7)"]
  by (auto simp: get_i_def get_u_def)

text \<open>
  A 32-bit integer survives the conversion to \<open>double\<close> and back, signed and unsigned.
\<close>

theorem pn_int32_double_roundtrip:
  "rbind (exec_cast PN_CAST_UITOFP INT32 DOUBLE v) (exec_cast PN_CAST_FPTOUI DOUBLE INT32) =
     Inr (pn_executor_value INT32 (get_u INT32 v)) \<and>
   rbind (exec_cast PN_CAST_SITOFP INT32 DOUBLE v) (exec_cast PN_CAST_FPTOSI DOUBLE INT32) =
     Inr (pn_executor_value INT32 (get_i INT32 v))"
proof (intro conjI)
  have f: "get_f DOUBLE (word_of_int (fp_of_int binary64 x)) = fp_of_int binary64 x"
    if "\<bar>x\<bar> < 2 ^ 53" for x
    using fp_of_int_range[OF that] by (simp add: get_f_def uint_word_of_int)
  show "rbind (exec_cast PN_CAST_UITOFP INT32 DOUBLE v) (exec_cast PN_CAST_FPTOUI DOUBLE INT32) =
      Inr (pn_executor_value INT32 (get_u INT32 v))"
    using get_u_bounds[of INT32 v]
    by (simp add: exec_cast_def f fp_int_roundtrip)
  show "rbind (exec_cast PN_CAST_SITOFP INT32 DOUBLE v) (exec_cast PN_CAST_FPTOSI DOUBLE INT32) =
      Inr (pn_executor_value INT32 (get_i INT32 v))"
    using get_i_bounds[of INT32 v]
    by (simp add: exec_cast_def f fp_int_roundtrip)
qed

text \<open>
  Extending an integer and truncating it again gives the integer back, for zero and sign
  extension and every pair of types for which both casts exist.
\<close>

theorem pn_extend_truncate:
  assumes "ext = PN_CAST_ZEXT \<or> ext = PN_CAST_SEXT" "src \<noteq> INT1"
    and "(src, dst) \<in> set (cast_types ext)" "(dst, src) \<in> set (cast_types PN_CAST_TRUNC)"
  shows "\<exists>w. rbind (exec_cast ext src dst v) (exec_cast PN_CAST_TRUNC dst src) = Inr w \<and>
    get_u src w = get_u src v"
proof -
  have w: "int_width src \<le> int_width dst" using assms by auto
  obtain x where x: "exec_cast ext src dst v = Inr (pn_executor_value dst x)"
    "x = get_u src v \<or> x = get_i src v"
    using assms(1-3) by (auto simp: exec_cast_def)
  have "get_u src (pn_executor_value src (get_i dst (pn_executor_value dst x))) = get_u src v"
    using x(2) w by (auto simp: get_i_mod mod_power_mod)
  then show ?thesis using assms(2,4) x(1) by (simp add: exec_cast_def)
qed

theorem pn_extend_truncate_witness:
  "\<exists>w. rbind (exec_cast PN_CAST_SEXT INT8 INT32 0x80) (exec_cast PN_CAST_TRUNC INT32 INT8) = Inr w \<and>
     get_u INT8 w = get_u INT8 0x80"
  by (rule pn_extend_truncate) simp_all

text \<open>
  The product of two 16-bit operands is computed in \<open>int\<close>: it is undefined when it reaches
  \<open>2 ^ 31\<close>, which wrap-around of the operands' type does not excuse.
\<close>

theorem pn_mul_int16_overflows:
  "exec_binop PN_BINOP_MUL INT16 65535 65535 = Inl (Undefined ''signed overflow'')"
  by (simp add: exec_binop_def int_binop_def is_float_type_def get_u_def Let_def)

end
