(* ===== verification/Pn_Bitset.thy ===== *)
theory Pn_Bitset
  imports Pn_Bits
begin

text \<open>
  The bit sets of \<^verbatim>\<open>src/pn_bitset.h\<close>: a vector of 32-bit words. The interface the analyses
  rely on is the locale \<open>bit_vector\<close>: a fixed capacity, a membership test, single-bit updates that
  change that bit only, and clearing. It is interpreted on the operations of the source.
\<close>

unbundle bit_operations_syntax

record PNBitSet =
  num_words :: u32
  words :: "u32 list"

text \<open>
  \<open>pn_bitset_init\<close>: the \<open>int32_t\<close> size plus 31, shifted arithmetically; the words come zeroed
  from the allocator. The assignment to \<open>num_words\<close> is modelled for \<open>size \<le> INT_MAX - 31\<close>,
  beyond which the signed addition overflows.
\<close>

definition pn_bitset_init :: "nat \<Rightarrow> PNBitSet res" where
  "pn_bitset_init sz =
     (if sz + 31 < 2 ^ 31
      then Inr \<lparr>num_words = of_nat ((sz + 31) div 32), words = replicate ((sz + 31) div 32) 0\<rparr>
      else Inl (Undefined ''signed overflow''))"

definition pn_bitset_clear :: "PNBitSet \<Rightarrow> PNBitSet" where
  "pn_bitset_clear bs = bs\<lparr>words := replicate (unat (num_words bs)) 0\<rparr>"

definition pn_bitset_set :: "PNBitSet \<Rightarrow> u32 \<Rightarrow> bool \<Rightarrow> PNBitSet res" where
  "pn_bitset_set bs bt st =
     (let wd = drop_bit 5 bt; msk = push_bit (unat (bt AND 31)) (1 :: u32) in
      rbind (ensure (wd < num_words bs) (Assertion ''word < bitset->num_words'')) (\<lambda>_.
      rbind (nth_res (words bs) (unat wd)) (\<lambda>w.
      rbind (upd_res (words bs) (unat wd) (if st then w OR msk else w AND NOT msk)) (\<lambda>ws.
      Inr (bs\<lparr>words := ws\<rparr>)))))"

definition pn_bitset_is_set :: "PNBitSet \<Rightarrow> u32 \<Rightarrow> bool res" where
  "pn_bitset_is_set bs bt =
     (let wd = drop_bit 5 bt; msk = push_bit (unat (bt AND 31)) (1 :: u32) in
      rbind (ensure (wd < num_words bs) (Assertion ''word < bitset->num_words'')) (\<lambda>_.
      rbind (nth_res (words bs) (unat wd)) (\<lambda>w.
      Inr (w AND msk \<noteq> 0))))"

definition pn_bitset_num_bits_set :: "PNBitSet \<Rightarrow> u32" where
  "pn_bitset_num_bits_set bs = fold (\<lambda>w result. result + pn_popcount w) (words bs) 0"

section \<open>The interface\<close>

locale bit_vector =
  fixes inv :: "'b \<Rightarrow> bool"
    and cap :: "'b \<Rightarrow> nat"
    and has :: "'b \<Rightarrow> nat \<Rightarrow> bool"
    and put :: "'b \<Rightarrow> u32 \<Rightarrow> bool \<Rightarrow> 'b res"
    and get :: "'b \<Rightarrow> u32 \<Rightarrow> bool res"
    and clr :: "'b \<Rightarrow> 'b"
  assumes get_in: "inv b \<Longrightarrow> unat i < cap b \<Longrightarrow> get b i = Inr (has b (unat i))"
    and get_out: "inv b \<Longrightarrow> cap b \<le> unat i \<Longrightarrow> \<exists>s. get b i = Inl (Assertion s)"
    and put_in: "inv b \<Longrightarrow> unat i < cap b \<Longrightarrow>
      \<exists>b'. put b i v = Inr b' \<and> inv b' \<and> cap b' = cap b \<and> has b' = (has b)(unat i := v)"
    and put_out: "inv b \<Longrightarrow> cap b \<le> unat i \<Longrightarrow> \<exists>s. put b i v = Inl (Assertion s)"
    and clr_ok: "inv b \<Longrightarrow> inv (clr b) \<and> cap (clr b) = cap b \<and> has (clr b) = (\<lambda>_. False)"
    and has_cap: "inv b \<Longrightarrow> has b n \<Longrightarrow> n < cap b"
begin

text \<open>The members are a finite set of indices; setting a bit inserts into it.\<close>

lemma finite_members: "inv b \<Longrightarrow> finite {i. has b i}"
  by (rule finite_subset [of _ "{..<cap b}"]) (auto dest: has_cap)

lemma card_members_le: "inv b \<Longrightarrow> card {i. has b i} \<le> cap b"
  using card_mono [of "{..<cap b}" "{i. has b i}"] has_cap by fastforce

lemma put_True_members:
  assumes "inv b" and "put b i True = Inr b'"
  shows "{j. has b' j} = insert (unat i) {j. has b j}"
proof -
  have "unat i < cap b" using assms put_out [of b i True] by (metis Inl_Inr_False linorder_not_le)
  with assms show ?thesis using put_in [of b i True] by auto
qed

lemma put_new_card:
  assumes "inv b" and "put b i True = Inr b'" and "\<not> has b (unat i)"
  shows "card {j. has b' j} = Suc (card {j. has b j})"
  using assms finite_members [of b] by (simp add: put_True_members)

lemma put_ok_inv: "inv b \<Longrightarrow> put b i v = Inr b' \<Longrightarrow> inv b' \<and> cap b' = cap b \<and> unat i < cap b
    \<and> has b' = (has b)(unat i := v)"
  using put_in [of b i v] put_out [of b i v] by (metis Inl_Inr_False linorder_not_le sum.inject(2))

lemma get_ok: "inv b \<Longrightarrow> get b i = Inr v \<Longrightarrow> unat i < cap b \<and> v = has b (unat i)"
  using get_in [of b i] get_out [of b i] by (metis Inl_Inr_False linorder_not_le sum.inject(2))

lemma get_not_undefined: "inv b \<Longrightarrow> \<not> is_undefined (get b i)"
  using get_in [of b i] get_out [of b i] by (cases "unat i < cap b") auto

lemma put_not_undefined: "inv b \<Longrightarrow> \<not> is_undefined (put b i v)"
  using put_in [of b i v] put_out [of b i v] by (cases "unat i < cap b") auto

end

section \<open>The source implements the interface\<close>

definition bitset_inv :: "PNBitSet \<Rightarrow> bool" where
  "bitset_inv bs \<longleftrightarrow> length (words bs) = unat (num_words bs)"

definition bitset_cap :: "PNBitSet \<Rightarrow> nat" where
  "bitset_cap bs = 32 * unat (num_words bs)"

definition bitset_has :: "PNBitSet \<Rightarrow> nat \<Rightarrow> bool" where
  "bitset_has bs i \<longleftrightarrow> i < bitset_cap bs \<and> bit (words bs ! (i div 32)) (i mod 32)"

lemma word_index: "unat (drop_bit 5 (b :: u32)) = unat b div 32"
  by (simp add: drop_bit_eq_div unat_div)

lemma bit_index: "unat (b AND 31 :: u32) = unat b mod 32"
proof -
  have "b AND 31 = b mod 32" using take_bit_eq_mask [of 5 b] by (simp add: take_bit_eq_mod mask_eq_exp_minus_1)
  then show ?thesis by (simp add: unat_mod)
qed

lemma and_single_bit: "n < 32 \<Longrightarrow> ((w :: u32) AND 2 ^ n \<noteq> 0) = bit w n"
  by (metis and_exp_eq_0_iff_not_bit)

lemma bit_or_single: "n < 32 \<Longrightarrow> bit ((w :: u32) OR 2 ^ n) m \<longleftrightarrow> bit w m \<or> m = n"
  by (auto simp: bit_or_iff bit_exp_iff)

lemma bit_and_not_single: "n < 32 \<Longrightarrow> bit ((w :: u32) AND NOT (2 ^ n)) m \<longleftrightarrow> bit w m \<and> m \<noteq> n"
  by (auto simp: bit_and_iff bit_not_iff bit_exp_iff dest: bit_imp_le_length)

interpretation bsv: bit_vector bitset_inv bitset_cap bitset_has pn_bitset_set pn_bitset_is_set pn_bitset_clear
proof
  fix b :: PNBitSet and i :: u32 and v
  assume inv: "bitset_inv b"
  let ?w = "unat i div 32" and ?k = "unat i mod 32"
  have lt: "drop_bit 5 i < num_words b \<longleftrightarrow> unat i < bitset_cap b"
    by (simp add: word_less_nat_alt word_index bitset_cap_def div_less_iff_less_mult mult.commute)
  {
    assume "unat i < bitset_cap b"
    with lt inv have "?w < length (words b)"
      by (simp add: bitset_inv_def word_less_nat_alt word_index)
    with lt \<open>unat i < bitset_cap b\<close> show "pn_bitset_is_set b i = Inr (bitset_has b (unat i))"
      by (simp add: pn_bitset_is_set_def Let_def word_index bit_index bitset_has_def and_single_bit)
  }
  {
    assume "bitset_cap b \<le> unat i"
    with lt show "\<exists>s. pn_bitset_is_set b i = Inl (Assertion s)"
      by (simp add: pn_bitset_is_set_def Let_def ensure_def)
  }
  {
    assume i: "unat i < bitset_cap b"
    with lt inv have w: "?w < length (words b)"
      by (simp add: bitset_inv_def word_less_nat_alt word_index)
    let ?b = "b\<lparr>words := (words b)[?w := (if v then words b ! ?w OR push_bit ?k 1
                                          else words b ! ?w AND NOT (push_bit ?k 1))]\<rparr>"
    have "pn_bitset_set b i v = Inr ?b"
      using w lt i by (simp add: pn_bitset_set_def Let_def word_index bit_index)
    moreover have "bitset_inv ?b" "bitset_cap ?b = bitset_cap b"
      using inv by (simp_all add: bitset_inv_def bitset_cap_def)
    moreover have "bitset_has ?b = (bitset_has b)(unat i := v)"
    proof
      fix j
      show "bitset_has ?b j = ((bitset_has b)(unat i := v)) j"
      proof (cases "j div 32 = ?w")
        case True
        then have "(j mod 32 = ?k) = (j = unat i)" by (metis div_mod_decomp)
        with True w i show ?thesis
          by (auto simp: bitset_has_def bitset_cap_def bit_or_single bit_and_not_single)
      next
        case False
        then have "j \<noteq> unat i" by auto
        with False show ?thesis by (simp add: bitset_has_def bitset_cap_def)
      qed
    qed
    ultimately show "\<exists>b'. pn_bitset_set b i v = Inr b' \<and> bitset_inv b' \<and> bitset_cap b' = bitset_cap b
      \<and> bitset_has b' = (bitset_has b)(unat i := v)" by blast
  }
  {
    assume "bitset_cap b \<le> unat i"
    with lt show "\<exists>s. pn_bitset_set b i v = Inl (Assertion s)"
      by (simp add: pn_bitset_set_def Let_def ensure_def)
  }
  show "bitset_inv (pn_bitset_clear b) \<and> bitset_cap (pn_bitset_clear b) = bitset_cap b
    \<and> bitset_has (pn_bitset_clear b) = (\<lambda>_. False)"
    by (auto simp: bitset_inv_def bitset_cap_def pn_bitset_clear_def bitset_has_def fun_eq_iff
        div_less_iff_less_mult mult.commute)
next
  fix b :: PNBitSet and i
  assume "bitset_has b i"
  then show "i < bitset_cap b" by (simp add: bitset_has_def)
qed

end
