(* ===== verification/Pn_Host.thy ===== *)
theory Pn_Host
  imports Pn_Prelude
begin

text \<open>
  The operating system under the interpreter, which is not part of the program: a record of the
  system calls the builtins and the scheduler use, a parameter of every definition that makes one.
  The host has state of its own, so the answer to a call depends on the calls made before it: each
  function takes the list of the earlier calls, the latest first. A failed call gives the error
  number, \<open>Inl errno\<close>.
\<close>

type_synonym cstr = "u8 list"

datatype host_call =
    Host_gettimeofday
  | Host_close int
  | Host_read int u32
  | Host_lseek int u32 u32
  | Host_write int "u8 list"
  | Host_fstat int
  | Host_isatty int
  | Host_getcwd u32
  | Host_open cstr u32 u32
  | Host_access cstr u32
  | Host_readlink cstr u32
  | Host_stat cstr

record host_stat_buf =
  st_dev :: u64
  st_ino :: u64
  st_mode :: u32
  st_nlink :: u32
  st_uid :: u32
  st_gid :: u32
  st_rdev :: u64
  st_size :: u64
  st_blksize :: u32
  st_blocks :: u32
  st_atime :: u64
  st_atime_nsec :: u64
  st_mtime :: u64
  st_mtime_nsec :: u64
  st_ctime :: u64
  st_ctime_nsec :: u64

type_synonym errno = int

record host =
  gettimeofday :: "host_call list \<Rightarrow> u64 \<times> u32"
  host_close :: "host_call list \<Rightarrow> int \<Rightarrow> errno + unit"
  host_read :: "host_call list \<Rightarrow> int \<Rightarrow> u32 \<Rightarrow> errno + u8 list"
  host_lseek :: "host_call list \<Rightarrow> int \<Rightarrow> u32 \<Rightarrow> u32 \<Rightarrow> errno + nat"
  host_write :: "host_call list \<Rightarrow> int \<Rightarrow> u8 list \<Rightarrow> errno + nat"
  host_fstat :: "host_call list \<Rightarrow> int \<Rightarrow> errno + host_stat_buf"
  host_isatty :: "host_call list \<Rightarrow> int \<Rightarrow> bool"
  host_getcwd :: "host_call list \<Rightarrow> u32 \<Rightarrow> errno + u8 list"
  host_open :: "host_call list \<Rightarrow> cstr \<Rightarrow> u32 \<Rightarrow> u32 \<Rightarrow> errno + nat"
  host_access :: "host_call list \<Rightarrow> cstr \<Rightarrow> u32 \<Rightarrow> errno + unit"
  host_readlink :: "host_call list \<Rightarrow> cstr \<Rightarrow> u32 \<Rightarrow> errno + u8 list"
  host_stat :: "host_call list \<Rightarrow> cstr \<Rightarrow> errno + host_stat_buf"

text \<open>What the manual pages promise of the calls that fill a buffer: they stay inside it.\<close>

definition host_ok :: "host \<Rightarrow> bool" where
  "host_ok h \<longleftrightarrow>
     (\<forall>l fd n bs. host_read h l fd n = Inr bs \<longrightarrow> length bs \<le> unat n) \<and>
     (\<forall>l n bs. host_getcwd h l n = Inr bs \<longrightarrow> length bs \<le> unat n) \<and>
     (\<forall>l p n bs. host_readlink h l p n = Inr bs \<longrightarrow> length bs \<le> unat n)"

text \<open>A host whose clock stands still, without files, for examples.\<close>

definition still_host :: host where
  "still_host =
     \<lparr>gettimeofday = (\<lambda>_. (0, 0)), host_close = (\<lambda>_ _. Inr ()), host_read = (\<lambda>_ _ _. Inr []),
      host_lseek = (\<lambda>_ _ _ _. Inl 29), host_write = (\<lambda>_ _ bs. Inr (length bs)),
      host_fstat = (\<lambda>_ _. Inl 9), host_isatty = (\<lambda>_ _. False), host_getcwd = (\<lambda>_ _. Inl 2),
      host_open = (\<lambda>_ _ _ _. Inl 2), host_access = (\<lambda>_ _ _. Inl 2), host_readlink = (\<lambda>_ _ _. Inl 2),
      host_stat = (\<lambda>_ _. Inl 2)\<rparr>"

lemma still_host_ok: "host_ok still_host"
  by (simp add: host_ok_def still_host_def)

end
