(* ===== verification/Pn_Executor.thy ===== *)
theory Pn_Executor
  imports Pn_Values Pn_Bitset Pn_Host
begin

text \<open>
  The executor's state and one instruction step, \<^verbatim>\<open>src/pn_executor.h\<close> (built without PPAPI).

  The threads are an array of structures, a thread pointer is an index into it; the start thread,
  which is a member of the executor, has index 0. A thread's call frames are a list, the current
  frame first, that ends where the C list reaches the sentinel frame. The memory of frames comes from
  the thread's chunked allocator (\<^verbatim>\<open>Pn_Allocator\<close>): values of a new frame are indeterminate there
  and zero here, and \<open>pn_allocator_reset_to_mark\<close> on a frame's mark releases everything allocated
  after the frame, which includes the frame's own \<open>PNJmpBuf\<close>s: they are kept in the list and marked
  as released, and a later search that reads a released one is \<open>Undefined\<close>.

  A step calls the builtin functions of \<^verbatim>\<open>src/pn_builtins.h\<close> through the argument \<open>builtin\<close>, for which
  \<^verbatim>\<open>Pn_Builtins\<close> provides the program's own: it takes the number of the builtin, the executor, the
  calling thread, the argument count and the argument ids, and returns the result and the new state.
  The field \<open>host_calls\<close> is no field of the C structure: it is the history of system calls that the
  host (\<^verbatim>\<open>Pn_Host\<close>) answers by.
\<close>

unbundle bit_operations_syntax

section \<open>State\<close>

record PNJmpBuf =
  jmpbuf_id :: u32
  jmpbuf_function_id :: PNFunctionId
  jmpbuf_inst :: address
  jmpbuf_stack_top :: u32
  jmpbuf_released :: bool

text \<open>
  A \<open>PNJmpBuf\<close> holds a copy of its frame. Of the copy, the values are a shared pointer, the parent
  and the mark never change, and \<open>jmpbuf_head\<close> is the list behind the buffer itself, so what remains
  is the location and the stack top.
\<close>

record PNCallFrame =
  frame_function_id :: PNFunctionId
  frame_inst :: address
  frame_values :: "PNRuntimeValue list"
  frame_jmpbufs :: "PNJmpBuf list"
  memory_stack_top :: u32

text \<open>The last two states are those of the threads of a PPAPI program; no other build has them.\<close>

datatype PNThreadState = PN_THREAD_RUNNING | PN_THREAD_BLOCKED | PN_THREAD_DEAD | PN_THREAD_EVENT_LOOP | PN_THREAD_IDLE

datatype PNFutexState = PN_FUTEX_NONE | PN_FUTEX_WOKEN | PN_FUTEX_TIMEDOUT

record PNThread =
  thread_frames :: "PNCallFrame list"
  thread_next :: nat
  thread_prev :: nat
  thread_state :: PNThreadState
  futex_state :: PNFutexState
  thread_tls :: u32
  thread_id :: u32
  wait_addr :: u32
  has_timeout :: bool
  timeout_sec :: u64
  timeout_usec :: u32
  thread_function :: PNFunctionId
  thread_inst :: address

record PNExecutor =
  ex_module :: PNModule
  ex_memory :: PNMemory
  executor_values :: "PNRuntimeValue list"
  threads :: "PNThread list"
  main_thread :: nat
  dead_threads :: "nat list"
  sentinel_stack_top :: u32
  mapped_pages :: PNBitSet
  next_jmpbuf_id :: u32
  fd_map :: "int list"
  next_thread_id :: u32
  heap_end :: u32
  exit_code :: u32
  exiting :: bool
  host_calls :: "host_call list"

type_synonym builtin_call = "u32 \<Rightarrow> PNExecutor \<Rightarrow> nat \<Rightarrow> u8 \<Rightarrow> PNValueId list \<Rightarrow>
  (PNRuntimeValue \<times> PNExecutor) res"

text \<open>A thread structure as \<open>memset\<close> leaves the executor's start thread.\<close>

definition start_thread :: PNThread where
  "start_thread =
     \<lparr>thread_frames = [], thread_next = 0, thread_prev = 0, thread_state = PN_THREAD_RUNNING,
      futex_state = PN_FUTEX_NONE, thread_tls = 0, thread_id = 0, wait_addr = 0, has_timeout = False,
      timeout_sec = 0, timeout_usec = 0, thread_function = 0, thread_inst = 0\<rparr>"

definition get_thread :: "PNExecutor \<Rightarrow> nat \<Rightarrow> PNThread res" where
  "get_thread ex t = nth_res (threads ex) t"

definition put_thread :: "PNExecutor \<Rightarrow> nat \<Rightarrow> PNThread \<Rightarrow> PNExecutor" where
  "put_thread ex t th = ex\<lparr>threads := (threads ex)[t := th]\<rparr>"

definition num_module_values :: "PNExecutor \<Rightarrow> nat" where
  "num_module_values ex = length (module_values (ex_module ex))"

text \<open>The current frame; there is none (the sentinel has no values) when a thread is finished.\<close>

definition current_frame :: "PNThread \<Rightarrow> PNCallFrame res" where
  "current_frame th =
     (case thread_frames th of [] \<Rightarrow> Inl (Undefined ''sentinel frame'') | fr # _ \<Rightarrow> Inr fr)"

definition put_frame :: "PNThread \<Rightarrow> PNCallFrame \<Rightarrow> PNThread" where
  "put_frame th fr = th\<lparr>thread_frames := fr # tl (thread_frames th)\<rparr>"

section \<open>Values\<close>

definition pn_executor_get_value_from_frame ::
    "PNExecutor \<Rightarrow> PNCallFrame \<Rightarrow> PNValueId \<Rightarrow> PNRuntimeValue res" where
  "pn_executor_get_value_from_frame ex fr value_id =
     (if value_id \<ge> num_module_values ex
      then nth_res (frame_values fr) (value_id - num_module_values ex)
      else nth_res (executor_values ex) value_id)"

definition pn_thread_get_value :: "PNExecutor \<Rightarrow> PNThread \<Rightarrow> PNValueId \<Rightarrow> PNRuntimeValue res" where
  "pn_thread_get_value ex th value_id =
     (if value_id \<ge> num_module_values ex
      then rbind (current_frame th) (\<lambda>fr. nth_res (frame_values fr) (value_id - num_module_values ex))
      else nth_res (executor_values ex) value_id)"

definition pn_thread_set_value ::
    "PNExecutor \<Rightarrow> PNThread \<Rightarrow> PNValueId \<Rightarrow> PNRuntimeValue \<Rightarrow> PNThread res" where
  "pn_thread_set_value ex th value_id v =
     rbind (ensure (value_id \<ge> num_module_values ex) (Assertion ''value_id >= num_values'')) (\<lambda>_.
     rbind (current_frame th) (\<lambda>fr.
     rbind (upd_res (frame_values fr) (value_id - num_module_values ex) v) (\<lambda>vs.
     Inr (put_frame th (fr\<lparr>frame_values := vs\<rparr>)))))"

definition pn_thread_set_param_value :: "PNThread \<Rightarrow> nat \<Rightarrow> PNRuntimeValue \<Rightarrow> PNThread res" where
  "pn_thread_set_param_value th index v =
     rbind (current_frame th) (\<lambda>fr.
     rbind (upd_res (frame_values fr) index v) (\<lambda>vs.
     Inr (put_frame th (fr\<lparr>frame_values := vs\<rparr>))))"

definition module_value :: "PNModule \<Rightarrow> PNValue \<Rightarrow> PNRuntimeValue res" where
  "module_value module v =
     (case value_code v of
        PN_VALUE_CODE_FUNCTION \<Rightarrow> Inr (ucast (pn_function_id_to_pointer (of_nat (value_idx v))))
      | PN_VALUE_CODE_GLOBAL_VAR \<Rightarrow>
          rbind (nth_res (global_vars module) (value_idx v)) (\<lambda>var. Inr (ucast (globalvar_offset var)))
      | _ \<Rightarrow> Inl (Fatal ''unreachable''))"

fun init_module_values :: "PNModule \<Rightarrow> PNValue list \<Rightarrow> PNRuntimeValue list res" where
  "init_module_values module [] = Inr []"
| "init_module_values module (v # vs) =
     rbind (module_value module v) (\<lambda>x.
     rbind (init_module_values module vs) (\<lambda>xs. Inr (x # xs)))"

definition pn_executor_init_module_values :: "PNExecutor \<Rightarrow> PNExecutor res" where
  "pn_executor_init_module_values ex =
     rbind (init_module_values (ex_module ex) (module_values (ex_module ex))) (\<lambda>vs.
     Inr (ex\<lparr>executor_values := vs\<rparr>))"

section \<open>Calls\<close>

text \<open>The constants of a function follow its arguments.\<close>

fun init_constants :: "PNExecutor \<Rightarrow> PNFunction \<Rightarrow> nat \<Rightarrow> PNConstant list \<Rightarrow> PNThread \<Rightarrow> PNThread res" where
  "init_constants ex f n [] th = Inr th"
| "init_constants ex f n (c # cs) th =
     (let value_id = num_module_values ex + num_args f + n in
      rbind (pn_function_get_value (ex_module ex) f value_id) (\<lambda>v.
      rbind (ensure (value_code v = PN_VALUE_CODE_CONSTANT) (Assertion ''value->code'')) (\<lambda>_.
      rbind (pn_thread_set_value ex th value_id (constant_value c)) (\<lambda>th.
      init_constants ex f (Suc n) cs th))))"

definition stack_top :: "PNExecutor \<Rightarrow> PNThread \<Rightarrow> u32" where
  "stack_top ex th =
     (case thread_frames th of [] \<Rightarrow> sentinel_stack_top ex | fr # _ \<Rightarrow> memory_stack_top fr)"

definition pn_thread_push_function ::
    "PNExecutor \<Rightarrow> PNThread \<Rightarrow> PNFunctionId \<Rightarrow> PNFunction \<Rightarrow> PNThread res" where
  "pn_thread_push_function ex th function_id f =
     (let frame = \<lparr>frame_function_id = function_id, frame_inst = 0,
                   frame_values = replicate (length (function_values f)) 0, frame_jmpbufs = [],
                   memory_stack_top = stack_top ex th\<rparr>;
          th = th\<lparr>thread_frames := frame # thread_frames th, thread_function := function_id,
                  thread_inst := 0\<rparr> in
      if function_instructions f = []
      then rbind (ensure (function_name f \<noteq> None) (Check ''function->name'')) (\<lambda>_.
        Inl (Fatal ''Unimplemented intrinsic''))
      else init_constants ex f 0 (constants f) th)"

definition pn_thread_push_function_pointer ::
    "PNExecutor \<Rightarrow> PNThread \<Rightarrow> u32 \<Rightarrow> (PNThread \<times> PNFunction) res" where
  "pn_thread_push_function_pointer ex th func =
     (let function_id = unat (pn_function_pointer_to_index func - PN_MAX_BUILTINS) in
      rbind (pn_function_id_check (ex_module ex) function_id) (\<lambda>_.
      rbind (nth_res (module_functions (ex_module ex)) function_id) (\<lambda>f.
      rbind (pn_thread_push_function ex th function_id f) (\<lambda>th. Inr (th, f)))))"

text \<open>The instruction a thread is at, and the call instruction a frame's location names.\<close>

definition fetch :: "PNExecutor \<Rightarrow> PNFunctionId \<Rightarrow> address \<Rightarrow> PNRuntimeInstruction res" where
  "fetch ex function_id inst =
     rbind (nth_res (module_functions (ex_module ex)) function_id) (\<lambda>f.
     case map_of (function_instructions f) inst of
       None \<Rightarrow> Inl (Undefined ''no instruction at this address'') | Some i \<Rightarrow> Inr i)"

definition fetch_call :: "PNExecutor \<Rightarrow> PNFunctionId \<Rightarrow> address \<Rightarrow> (PNValueId \<times> u8) res" where
  "fetch_call ex function_id inst =
     rbind (fetch ex function_id inst) (\<lambda>i.
     case i of RCall op result_id callee_id n flags args \<Rightarrow> Inr (result_id, n)
     | _ \<Rightarrow> Inl (Undefined ''not a call instruction''))"

definition call_size :: "u8 \<Rightarrow> nat" where
  "call_size n = 16 + unat n * 4"

definition advance :: "nat \<Rightarrow> PNThread \<Rightarrow> PNThread" where
  "advance n th = th\<lparr>thread_inst := thread_inst th + n\<rparr>"

section \<open>Phi assignments\<close>

fun fast_phi_assigns ::
    "PNExecutor \<Rightarrow> address \<Rightarrow> PNRuntimePhiAssign list \<Rightarrow> PNThread \<Rightarrow> PNThread res" where
  "fast_phi_assigns ex dest [] th = Inr th"
| "fast_phi_assigns ex dest (a # as) th =
     rbind (if phi_inst a = dest
            then rbind (pn_thread_get_value ex th (phi_source_value_id a)) (\<lambda>v.
              pn_thread_set_value ex th (phi_dest_value_id a) v)
            else Inr th) (\<lambda>th. fast_phi_assigns ex dest as th)"

fun read_phi_sources ::
    "PNExecutor \<Rightarrow> PNThread \<Rightarrow> PNRuntimePhiAssign list \<Rightarrow> PNRuntimeValue list res" where
  "read_phi_sources ex th [] = Inr []"
| "read_phi_sources ex th (a # as) =
     rbind (pn_thread_get_value ex th (phi_source_value_id a)) (\<lambda>v.
     rbind (read_phi_sources ex th as) (\<lambda>vs. Inr (v # vs)))"

fun write_phi_dests :: "PNExecutor \<Rightarrow> address \<Rightarrow> (PNRuntimePhiAssign \<times> PNRuntimeValue) list \<Rightarrow>
    PNThread \<Rightarrow> PNThread res" where
  "write_phi_dests ex dest [] th = Inr th"
| "write_phi_dests ex dest ((a, v) # as) th =
     rbind (if phi_inst a = dest then pn_thread_set_value ex th (phi_dest_value_id a) v else Inr th)
       (\<lambda>th. write_phi_dests ex dest as th)"

text \<open>The thread's instruction pointer is behind the branch, at the phi table.\<close>

definition pn_thread_do_phi_assigns :: "PNExecutor \<Rightarrow> PNThread \<Rightarrow> address \<Rightarrow> PNThread res" where
  "pn_thread_do_phi_assigns ex th dest_inst =
     rbind (fetch ex (thread_function th) (thread_inst th)) (\<lambda>i.
     case i of RPhiAssigns num_phi_assigns fast table \<Rightarrow>
       let assigns = take (unat num_phi_assigns) table in
       if fast \<noteq> 0 then fast_phi_assigns ex dest_inst assigns th
       else rbind (read_phi_sources ex th assigns) (\<lambda>temp.
         write_phi_dests ex dest_inst (zip assigns temp) th)
     | _ \<Rightarrow> Inl (Undefined ''not a phi table''))"

section \<open>Memory of all widths\<close>

definition width_read :: "atomic_width \<Rightarrow> PNMemory \<Rightarrow> u32 \<Rightarrow> u64 res" where
  "width_read w m a =
     (case w of
        I8 \<Rightarrow> rbind (pn_memory_read_u8 m a) (\<lambda>x. Inr (ucast x))
      | I16 \<Rightarrow> rbind (pn_memory_read_u16 m a) (\<lambda>x. Inr (ucast x))
      | I32 \<Rightarrow> rbind (pn_memory_read_u32 m a) (\<lambda>x. Inr (ucast x))
      | I64 \<Rightarrow> pn_memory_read_u64 m a)"

definition width_write :: "atomic_width \<Rightarrow> PNMemory \<Rightarrow> u32 \<Rightarrow> u64 \<Rightarrow> PNMemory res" where
  "width_write w m a v =
     (case w of
        I8 \<Rightarrow> pn_memory_write_u8 m a (ucast v) | I16 \<Rightarrow> pn_memory_write_u16 m a (ucast v)
      | I32 \<Rightarrow> pn_memory_write_u32 m a (ucast v) | I64 \<Rightarrow> pn_memory_write_u64 m a v)"

fun width_of_type :: "PNBasicType \<Rightarrow> atomic_width" where
  "width_of_type PN_BASIC_TYPE_INT8 = I8"
| "width_of_type PN_BASIC_TYPE_INT16 = I16"
| "width_of_type PN_BASIC_TYPE_INT32 = I32"
| "width_of_type PN_BASIC_TYPE_FLOAT = I32"
| "width_of_type _ = I64"

text \<open>The low bytes of a value that the member of a width reads.\<close>

definition width_cut :: "atomic_width \<Rightarrow> u64 \<Rightarrow> u64" where
  "width_cut w v =
     (case w of I8 \<Rightarrow> take_bit 8 v | I16 \<Rightarrow> take_bit 16 v | I32 \<Rightarrow> take_bit 32 v | I64 \<Rightarrow> v)"

section \<open>Intrinsics\<close>

definition arg :: "PNExecutor \<Rightarrow> PNThread \<Rightarrow> PNValueId list \<Rightarrow> nat \<Rightarrow> PNRuntimeValue res" where
  "arg ex th args i = rbind (nth_res args i) (pn_thread_get_value ex th)"

definition check_num_args :: "u8 \<Rightarrow> u8 \<Rightarrow> unit res" where
  "check_num_args n k = ensure (n = k) (Check ''i->num_args'')"

definition check_no_result :: "PNValueId \<Rightarrow> unit res" where
  "check_no_result r = ensure (r = PN_INVALID_VALUE_ID) (Check ''i->result_value_id'')"

definition check_result :: "PNValueId \<Rightarrow> unit res" where
  "check_result r = ensure (r \<noteq> PN_INVALID_VALUE_ID) (Check ''i->result_value_id'')"

text \<open>Store the result of a call instruction and go on behind it.\<close>

definition finish_call :: "PNExecutor \<Rightarrow> nat \<Rightarrow> PNThread \<Rightarrow> PNValueId \<Rightarrow> u8 \<Rightarrow> PNRuntimeValue \<Rightarrow>
    PNExecutor res" where
  "finish_call ex t th r n v =
     rbind (pn_thread_set_value ex th r v) (\<lambda>th. Inr (put_thread ex t (advance (call_size n) th)))"

definition skip_call :: "PNExecutor \<Rightarrow> nat \<Rightarrow> PNThread \<Rightarrow> u8 \<Rightarrow> PNExecutor res" where
  "skip_call ex t th n = Inr (put_thread ex t (advance (call_size n) th))"

function trailing_zeros :: "int \<Rightarrow> nat" where
  "trailing_zeros x = (if x \<le> 0 \<or> odd x then 0 else Suc (trailing_zeros (x div 2)))"
  by auto
termination by (relation "measure nat") auto

declare trailing_zeros.simps [simp del]

definition exec_ctlz :: "nat \<Rightarrow> u64 \<Rightarrow> u64" where
  "exec_ctlz w v = (if v = 0 then 0 else of_nat (w - bit_length (uint v)))"

definition exec_cttz :: "u64 \<Rightarrow> u64" where
  "exec_cttz v = (if v = 0 then 0 else of_nat (trailing_zeros (uint v)))"

definition mem_copy :: "bool \<Rightarrow> PNMemory \<Rightarrow> u32 \<Rightarrow> u32 \<Rightarrow> u32 \<Rightarrow> PNMemory res" where
  "mem_copy may_overlap m dst src len =
     (if len > 0 then
        rbind (pn_memory_check m dst len) (\<lambda>_.
        rbind (pn_memory_check m src len) (\<lambda>_.
        rbind (ensure (may_overlap \<or> unat dst + unat len \<le> unat src \<or> unat src + unat len \<le> unat dst)
                 (Undefined ''memcpy of overlapping blocks'')) (\<lambda>_.
        rbind (host_load m (unat src) (unat len)) (\<lambda>bs. host_store m (unat dst) bs))))
      else Inr m)"

definition mem_set :: "PNMemory \<Rightarrow> u32 \<Rightarrow> u8 \<Rightarrow> u32 \<Rightarrow> PNMemory res" where
  "mem_set m dst v len =
     (if len > 0 then
        rbind (pn_memory_check m dst len) (\<lambda>_. host_store m (unat dst) (replicate (unat len) v))
      else Inr m)"

definition exec_mem_intrinsic :: "PNIntrinsicId \<Rightarrow> PNExecutor \<Rightarrow> nat \<Rightarrow> PNThread \<Rightarrow> PNValueId \<Rightarrow> u8 \<Rightarrow>
    PNValueId list \<Rightarrow> PNExecutor res" where
  "exec_mem_intrinsic op ex t th r n args =
     rbind (check_num_args n 5) (\<lambda>_.
     rbind (check_no_result r) (\<lambda>_.
     rbind (arg ex th args 0) (\<lambda>a0.
     rbind (arg ex th args 1) (\<lambda>a1.
     rbind (arg ex th args 2) (\<lambda>a2.
     rbind (case op of
              LLVM_MEMSET \<Rightarrow> mem_set (ex_memory ex) (ucast a0) (ucast a1) (ucast a2)
            | LLVM_MEMMOVE \<Rightarrow> mem_copy True (ex_memory ex) (ucast a0) (ucast a1) (ucast a2)
            | _ \<Rightarrow> mem_copy False (ex_memory ex) (ucast a0) (ucast a1) (ucast a2)) (\<lambda>m.
     skip_call (ex\<lparr>ex_memory := m\<rparr>) t th n))))))"

definition exec_cmpxchg :: "atomic_width \<Rightarrow> PNExecutor \<Rightarrow> nat \<Rightarrow> PNThread \<Rightarrow> PNValueId \<Rightarrow> u8 \<Rightarrow>
    PNValueId list \<Rightarrow> PNExecutor res" where
  "exec_cmpxchg w ex t th r n args =
     rbind (check_num_args n 5) (\<lambda>_.
     rbind (arg ex th args 0) (\<lambda>addr_p.
     rbind (arg ex th args 1) (\<lambda>expected.
     rbind (arg ex th args 2) (\<lambda>desired.
     rbind (width_read w (ex_memory ex) (ucast addr_p)) (\<lambda>v.
     rbind (if v = width_cut w expected then width_write w (ex_memory ex) (ucast addr_p) desired
            else Inr (ex_memory ex)) (\<lambda>m.
     finish_call (ex\<lparr>ex_memory := m\<rparr>) t th r n v))))))"

definition exec_atomic_load :: "atomic_width \<Rightarrow> PNExecutor \<Rightarrow> nat \<Rightarrow> PNThread \<Rightarrow> PNValueId \<Rightarrow> u8 \<Rightarrow>
    PNValueId list \<Rightarrow> PNExecutor res" where
  "exec_atomic_load w ex t th r n args =
     rbind (check_num_args n 2) (\<lambda>_.
     rbind (arg ex th args 0) (\<lambda>addr_p.
     rbind (width_read w (ex_memory ex) (ucast addr_p)) (\<lambda>v. finish_call ex t th r n v)))"

text \<open>The operation value each specialised opcode checks its first argument against.\<close>

fun atomic_opval :: "atomic_op \<Rightarrow> u32" where
  "atomic_opval ATOMIC_ADD = 1"
| "atomic_opval ATOMIC_SUB = 2"
| "atomic_opval ATOMIC_AND = 3"
| "atomic_opval ATOMIC_OR = 4"
| "atomic_opval ATOMIC_XOR = 5"
| "atomic_opval ATOMIC_EXCHANGE = 6"

fun atomic_apply :: "atomic_op \<Rightarrow> u64 \<Rightarrow> u64 \<Rightarrow> u64" where
  "atomic_apply ATOMIC_ADD old v = old + v"
| "atomic_apply ATOMIC_SUB old v = old - v"
| "atomic_apply ATOMIC_AND old v = old AND v"
| "atomic_apply ATOMIC_OR old v = old OR v"
| "atomic_apply ATOMIC_XOR old v = old XOR v"
| "atomic_apply ATOMIC_EXCHANGE old v = v"

text \<open>The result is constructed with \<open>pn_executor_value_u32\<close> for every width.\<close>

definition exec_atomic_rmw :: "atomic_op \<Rightarrow> atomic_width \<Rightarrow> PNExecutor \<Rightarrow> nat \<Rightarrow> PNThread \<Rightarrow> PNValueId \<Rightarrow>
    u8 \<Rightarrow> PNValueId list \<Rightarrow> PNExecutor res" where
  "exec_atomic_rmw aop w ex t th r n args =
     rbind (check_num_args n 4) (\<lambda>_.
     rbind (arg ex th args 0) (\<lambda>opval.
     rbind (ensure (ucast opval = atomic_opval aop) (Check ''PN_ARG(0, u32) == opval'')) (\<lambda>_.
     rbind (arg ex th args 1) (\<lambda>addr_p.
     rbind (arg ex th args 2) (\<lambda>v.
     rbind (width_read w (ex_memory ex) (ucast addr_p)) (\<lambda>old.
     rbind (width_write w (ex_memory ex) (ucast addr_p) (atomic_apply aop old v)) (\<lambda>m.
     finish_call (ex\<lparr>ex_memory := m\<rparr>) t th r n (take_bit 32 old))))))))"

text \<open>The value is read at its width, and stored with \<open>pn_memory_write_u32\<close> for every width.\<close>

definition exec_atomic_store :: "atomic_width \<Rightarrow> PNExecutor \<Rightarrow> nat \<Rightarrow> PNThread \<Rightarrow> PNValueId \<Rightarrow> u8 \<Rightarrow>
    PNValueId list \<Rightarrow> PNExecutor res" where
  "exec_atomic_store w ex t th r n args =
     rbind (check_num_args n 3) (\<lambda>_.
     rbind (check_no_result r) (\<lambda>_.
     rbind (arg ex th args 0) (\<lambda>v.
     rbind (arg ex th args 1) (\<lambda>addr_p.
     rbind (pn_memory_write_u32 (ex_memory ex) (ucast addr_p) (ucast (width_cut w v))) (\<lambda>m.
     skip_call (ex\<lparr>ex_memory := m\<rparr>) t th n)))))"

subsection \<open>setjmp and longjmp\<close>

definition exec_setjmp :: "PNExecutor \<Rightarrow> nat \<Rightarrow> PNThread \<Rightarrow> PNValueId \<Rightarrow> u8 \<Rightarrow> PNValueId list \<Rightarrow>
    PNExecutor res" where
  "exec_setjmp ex t th r n args =
     rbind (check_num_args n 1) (\<lambda>_.
     rbind (check_result r) (\<lambda>_.
     rbind (current_frame th) (\<lambda>fr.
     let fr = fr\<lparr>frame_inst := thread_inst th\<rparr>; th = put_frame th fr in
     rbind (arg ex th args 0) (\<lambda>jmpbuf_p.
     let buf = \<lparr>jmpbuf_id = next_jmpbuf_id ex, jmpbuf_function_id = frame_function_id fr,
                jmpbuf_inst = frame_inst fr, jmpbuf_stack_top = memory_stack_top fr,
                jmpbuf_released = False\<rparr>;
         ex = ex\<lparr>next_jmpbuf_id := next_jmpbuf_id ex + 1\<rparr>;
         th = put_frame th (fr\<lparr>frame_jmpbufs := buf # frame_jmpbufs fr\<rparr>) in
     rbind (pn_memory_write_u32 (ex_memory ex) (ucast jmpbuf_p) (jmpbuf_id buf)) (\<lambda>m.
     finish_call (ex\<lparr>ex_memory := m\<rparr>) t th r n 0)))))"

text \<open>The search through a frame's buffers gives the buffer and the ones behind it.\<close>

fun find_jmpbuf :: "u32 \<Rightarrow> PNJmpBuf list \<Rightarrow> (PNJmpBuf \<times> PNJmpBuf list) option res" where
  "find_jmpbuf ident [] = Inr None"
| "find_jmpbuf ident (buf # bufs) =
     (if jmpbuf_released buf then Inl (Undefined ''released jmpbuf'')
      else if jmpbuf_id buf = ident then Inr (Some (buf, bufs)) else find_jmpbuf ident bufs)"

fun find_jmpbuf_frame :: "u32 \<Rightarrow> PNCallFrame list \<Rightarrow>
    (PNJmpBuf \<times> PNJmpBuf list \<times> PNCallFrame \<times> PNCallFrame list) res" where
  "find_jmpbuf_frame ident [] = Inl (Fatal ''Invalid jmpbuf target'')"
| "find_jmpbuf_frame ident (fr # frames) =
     rbind (find_jmpbuf ident (frame_jmpbufs fr)) (\<lambda>found.
     case found of Some (buf, bufs) \<Rightarrow> Inr (buf, bufs, fr, frames)
     | None \<Rightarrow> find_jmpbuf_frame ident frames)"

definition release :: "PNJmpBuf \<Rightarrow> PNJmpBuf" where
  "release buf = buf\<lparr>jmpbuf_released := True\<rparr>"

text \<open>
  The allocator is reset to the frame's mark before the frame is restored from the buffer: the bytes
  of the released buffer are read before anything can be allocated over them.
\<close>

definition exec_longjmp :: "PNExecutor \<Rightarrow> nat \<Rightarrow> PNThread \<Rightarrow> PNValueId \<Rightarrow> u8 \<Rightarrow> PNValueId list \<Rightarrow>
    PNExecutor res" where
  "exec_longjmp ex t th r n args =
     rbind (check_num_args n 2) (\<lambda>_.
     rbind (check_no_result r) (\<lambda>_.
     rbind (arg ex th args 0) (\<lambda>jmpbuf_p.
     rbind (arg ex th args 1) (\<lambda>v.
     rbind (pn_memory_read_u32 (ex_memory ex) (ucast jmpbuf_p)) (\<lambda>ident.
     rbind (find_jmpbuf_frame ident (thread_frames th)) (\<lambda>(buf, bufs, fr, frames).
     let fr = fr\<lparr>frame_function_id := jmpbuf_function_id buf, frame_inst := jmpbuf_inst buf,
                 memory_stack_top := jmpbuf_stack_top buf, frame_jmpbufs := map release bufs\<rparr>;
         th = th\<lparr>thread_frames := fr # frames\<rparr> in
     rbind (fetch_call ex (frame_function_id fr) (frame_inst fr)) (\<lambda>(result_id, n').
     rbind (pn_thread_set_value ex th result_id v) (\<lambda>th.
     Inr (put_thread ex t (th\<lparr>thread_inst := frame_inst fr + call_size n',
                              thread_function := frame_function_id fr\<rparr>))))))))))"

subsection \<open>Dispatch\<close>

definition exec_intrinsic :: "PNIntrinsicId \<Rightarrow> PNExecutor \<Rightarrow> nat \<Rightarrow> PNThread \<Rightarrow> PNValueId \<Rightarrow> u8 \<Rightarrow>
    PNValueId list \<Rightarrow> PNExecutor res" where
  "exec_intrinsic op ex t th r n args =
     (case op of
        LLVM_CTLZ_I32 \<Rightarrow>
          rbind (check_num_args n 2) (\<lambda>_. rbind (arg ex th args 0) (\<lambda>src.
          rbind (arg ex th args 1) (\<lambda>_. finish_call ex t th r n (exec_ctlz 32 (take_bit 32 src)))))
      | LLVM_CTLZ_I64 \<Rightarrow>
          rbind (check_num_args n 2) (\<lambda>_. rbind (arg ex th args 0) (\<lambda>src.
          rbind (arg ex th args 1) (\<lambda>_. finish_call ex t th r n (exec_ctlz 64 src))))
      | LLVM_CTTZ_I32 \<Rightarrow>
          rbind (check_num_args n 2) (\<lambda>_. rbind (arg ex th args 0) (\<lambda>src.
          rbind (arg ex th args 1) (\<lambda>_. finish_call ex t th r n (exec_cttz (take_bit 32 src)))))
      | LLVM_CTTZ_I64 \<Rightarrow>
          rbind (check_num_args n 2) (\<lambda>_. rbind (arg ex th args 0) (\<lambda>src.
          rbind (arg ex th args 1) (\<lambda>_. finish_call ex t th r n (exec_cttz src))))
      | LLVM_MEMCPY \<Rightarrow> exec_mem_intrinsic op ex t th r n args
      | LLVM_MEMMOVE \<Rightarrow> exec_mem_intrinsic op ex t th r n args
      | LLVM_MEMSET \<Rightarrow> exec_mem_intrinsic op ex t th r n args
      | LLVM_NACL_ATOMIC_CMPXCHG w \<Rightarrow> exec_cmpxchg w ex t th r n args
      | LLVM_NACL_ATOMIC_FENCE_ALL \<Rightarrow> skip_call ex t th n
      | LLVM_NACL_ATOMIC_LOAD w \<Rightarrow> exec_atomic_load w ex t th r n args
      | LLVM_NACL_ATOMIC_STORE w \<Rightarrow> exec_atomic_store w ex t th r n args
      | LLVM_NACL_LONGJMP \<Rightarrow> exec_longjmp ex t th r n args
      | LLVM_NACL_SETJMP \<Rightarrow> exec_setjmp ex t th r n args
      | LLVM_NACL_READ_TP \<Rightarrow>
          rbind (check_num_args n 0) (\<lambda>_. rbind (check_result r) (\<lambda>_.
          finish_call ex t th r n (ucast (thread_tls th))))
      | LLVM_SQRT_F32 \<Rightarrow>
          rbind (check_num_args n 1) (\<lambda>_. rbind (check_result r) (\<lambda>_. rbind (arg ex th args 0) (\<lambda>v.
          finish_call ex t th r n (word_of_int (fp_sqrt binary32 (get_f FLOAT v))))))
      | LLVM_SQRT_F64 \<Rightarrow>
          rbind (check_num_args n 1) (\<lambda>_. rbind (check_result r) (\<lambda>_. rbind (arg ex th args 0) (\<lambda>v.
          finish_call ex t th r n (word_of_int (fp_sqrt binary64 (get_f DOUBLE v))))))
      | LLVM_STACKRESTORE \<Rightarrow>
          rbind (check_num_args n 1) (\<lambda>_. rbind (check_no_result r) (\<lambda>_. rbind (arg ex th args 0) (\<lambda>v.
          rbind (current_frame th) (\<lambda>fr.
          skip_call ex t (put_frame th (fr\<lparr>memory_stack_top := ucast v\<rparr>)) n))))
      | LLVM_STACKSAVE \<Rightarrow>
          rbind (check_num_args n 0) (\<lambda>_. rbind (check_result r) (\<lambda>_. rbind (current_frame th) (\<lambda>fr.
          finish_call ex t th r n (ucast (memory_stack_top fr)))))
      | LLVM_TRAP \<Rightarrow>
          rbind (check_num_args n 0) (\<lambda>_.
          Inr (put_thread (ex\<lparr>exit_code := - 1, exiting := True\<rparr>) t (th\<lparr>thread_state := PN_THREAD_DEAD\<rparr>)))
      | _ \<Rightarrow> Inl (Fatal ''Unimplemented intrinsic''))"

section \<open>Calls and returns\<close>

fun copy_args :: "PNExecutor \<Rightarrow> PNCallFrame \<Rightarrow> nat \<Rightarrow> PNValueId list \<Rightarrow> PNThread \<Rightarrow> PNThread res" where
  "copy_args ex old n [] th = Inr th"
| "copy_args ex old n (a # as) th =
     rbind (pn_executor_get_value_from_frame ex old a) (\<lambda>v.
     rbind (pn_thread_set_value ex th (num_module_values ex + n) v) (\<lambda>th.
     copy_args ex old (Suc n) as th))"

text \<open>
  A builtin runs on the executor with the calling thread stored; afterwards the thread is read again.
\<close>

definition call_builtin :: "builtin_call \<Rightarrow> PNExecutor \<Rightarrow> nat \<Rightarrow> PNThread \<Rightarrow> u32 \<Rightarrow> PNValueId \<Rightarrow> u8 \<Rightarrow>
    PNValueId list \<Rightarrow> PNExecutor res" where
  "call_builtin builtin ex t th function_id r n args =
     rbind (ensure (function_id \<noteq> 0) (Fatal ''Unknown builtin'')) (\<lambda>_.
     rbind (builtin function_id (put_thread ex t th) t n args) (\<lambda>(result, ex).
     rbind (get_thread ex t) (\<lambda>th.
     rbind (if r \<noteq> PN_INVALID_VALUE_ID then pn_thread_set_value ex th r result else Inr th) (\<lambda>th.
     Inr (put_thread ex t
       (if thread_state th = PN_THREAD_RUNNING then advance (call_size n) th else th))))))"

definition exec_call :: "builtin_call \<Rightarrow> PNExecutor \<Rightarrow> nat \<Rightarrow> PNThread \<Rightarrow> PNValueId \<Rightarrow> PNValueId \<Rightarrow> u8 \<Rightarrow>
    u8 \<Rightarrow> PNValueId list \<Rightarrow> PNExecutor res" where
  "exec_call builtin ex t th r callee_id n flags args =
     rbind (current_frame th) (\<lambda>old.
     let old = old\<lparr>frame_inst := thread_inst th\<rparr>; th = put_frame th old;
         push = (\<lambda>function_id.
           rbind (nth_res (module_functions (ex_module ex)) function_id) (\<lambda>f.
           rbind (pn_thread_push_function ex th function_id f) (\<lambda>th.
           rbind (copy_args ex old 0 (take (unat n) args) th) (\<lambda>th.
           Inr (put_thread ex t th)))))
     in if flags AND 1 \<noteq> 0 then
          rbind (pn_thread_get_value ex th callee_id) (\<lambda>fv.
          let function_id = pn_function_pointer_to_index (ucast fv) in
          if function_id < PN_MAX_BUILTINS then call_builtin builtin ex t th function_id r n args
          else let function_id = unat (function_id - PN_MAX_BUILTINS) in
            rbind (ensure (function_id < length (module_functions (ex_module ex)))
                     (Assertion ''new_function_id < num_functions'')) (\<lambda>_. push function_id))
        else
          rbind (nth_res (module_values (ex_module ex)) callee_id) (\<lambda>v.
          rbind (ensure (value_code v = PN_VALUE_CODE_FUNCTION) (Assertion ''function_value->code'')) (\<lambda>_.
          push (value_idx v))))"

text \<open>
  Return to the caller's frame; \<open>v\<close> is the returned value, if any. Resetting the allocator to the
  caller's mark releases the caller's jump buffers.
\<close>

definition exec_ret :: "PNExecutor \<Rightarrow> nat \<Rightarrow> PNThread \<Rightarrow> PNRuntimeValue option \<Rightarrow> PNExecutor res" where
  "exec_ret ex t th v =
     (case thread_frames th of
        [] \<Rightarrow> Inl (Undefined ''sentinel frame'')
      | _ # [] \<Rightarrow>
          Inr (put_thread
            (if t = 0 then ex\<lparr>exit_code := (case v of None \<Rightarrow> 0 | Some v \<Rightarrow> ucast v), exiting := True\<rparr>
             else ex) t (th\<lparr>thread_frames := [], thread_state := PN_THREAD_DEAD\<rparr>))
      | _ # caller # frames \<Rightarrow>
          rbind (fetch_call ex (frame_function_id caller) (frame_inst caller)) (\<lambda>(result_id, n).
          let th = th\<lparr>thread_frames := caller # frames\<rparr> in
          rbind (case v of None \<Rightarrow> Inr th | Some v \<Rightarrow> pn_thread_set_value ex th result_id v) (\<lambda>th.
          rbind (current_frame th) (\<lambda>fr.
          Inr (put_thread ex t
            ((put_frame th (fr\<lparr>frame_jmpbufs := map release (frame_jmpbufs fr)\<rparr>))
             \<lparr>thread_inst := frame_inst caller + call_size n,
              thread_function := frame_function_id caller\<rparr>))))))"

section \<open>One instruction\<close>

definition exec_alloca ::
    "PNExecutor \<Rightarrow> nat \<Rightarrow> PNThread \<Rightarrow> PNValueId \<Rightarrow> PNValueId \<Rightarrow> PNAlignment \<Rightarrow> PNExecutor res" where
  "exec_alloca ex t th r size_id alignment =
     rbind (pn_thread_get_value ex th size_id) (\<lambda>sz.
     rbind (current_frame th) (\<lambda>fr.
     rbind (pn_align_down (ucast (memory_stack_top fr - ucast sz)) (of_nat alignment)) (\<lambda>top.
     let fr = fr\<lparr>memory_stack_top := ucast top\<rparr>; th = put_frame th fr in
     rbind (ensure (\<not> (t = main_thread ex \<and> memory_stack_top fr < heap_end ex)) (Fatal ''Out of stack'')) (\<lambda>_.
     rbind (pn_thread_set_value ex th r (ucast (memory_stack_top fr))) (\<lambda>th.
     Inr (put_thread ex t (advance 16 th)))))))"

definition jump :: "PNExecutor \<Rightarrow> nat \<Rightarrow> PNThread \<Rightarrow> nat \<Rightarrow> address \<Rightarrow> PNExecutor res" where
  "jump ex t th n dest =
     rbind (pn_thread_do_phi_assigns ex (advance n th) dest) (\<lambda>th.
     Inr (put_thread ex t (th\<lparr>thread_inst := dest\<rparr>)))"

text \<open>The first case with the value of the switch, which is sign-extended to 64 bits, or the default.\<close>

fun switch_target :: "int \<Rightarrow> address \<Rightarrow> (u64 \<times> address) list \<Rightarrow> address" where
  "switch_target v d [] = d"
| "switch_target v d ((c, a) # cs) = (if v = sint c then a else switch_target v d cs)"

definition set_and_advance ::
    "PNExecutor \<Rightarrow> nat \<Rightarrow> PNThread \<Rightarrow> PNValueId \<Rightarrow> nat \<Rightarrow> PNRuntimeValue \<Rightarrow> PNExecutor res" where
  "set_and_advance ex t th r n v =
     rbind (pn_thread_set_value ex th r v) (\<lambda>th. Inr (put_thread ex t (advance n th)))"

fun execute :: "builtin_call \<Rightarrow> PNExecutor \<Rightarrow> nat \<Rightarrow> PNThread \<Rightarrow> PNRuntimeInstruction \<Rightarrow> PNExecutor res" where
  "execute builtin ex t th (RAlloca bt r s a) = exec_alloca ex t th r s a"
| "execute builtin ex t th (RBinop op bt r a b) =
     rbind (pn_thread_get_value ex th a) (\<lambda>v0.
     rbind (pn_thread_get_value ex th b) (\<lambda>v1.
     rbind (exec_binop op bt v0 v1) (\<lambda>v. set_and_advance ex t th r 16 v)))"
| "execute builtin ex t th (RBr dest) = jump ex t th 16 dest"
| "execute builtin ex t th (RBrInt1 c true_inst false_inst) =
     rbind (pn_thread_get_value ex th c) (\<lambda>v.
     jump ex t th 24 (if (ucast v :: u8) \<noteq> 0 then true_inst else false_inst))"
| "execute builtin ex t th (RCall OPCODE_CALL r callee n flags args) =
     exec_call builtin ex t th r callee n flags args"
| "execute builtin ex t th (RCall (OPCODE_INTRINSIC op) r callee n flags args) =
     exec_intrinsic op ex t th r n args"
| "execute builtin ex t th (RCall (OPCODE_ATOMIC_RMW aop w) r callee n flags args) =
     exec_atomic_rmw aop w ex t th r n args"
| "execute builtin ex t th (RCast op src dst r a) =
     rbind (pn_thread_get_value ex th a) (\<lambda>v.
     rbind (exec_cast op src dst v) (\<lambda>v. set_and_advance ex t th r 12 v))"
| "execute builtin ex t th (RCmp2 op bt r a b) =
     rbind (pn_thread_get_value ex th a) (\<lambda>v0.
     rbind (pn_thread_get_value ex th b) (\<lambda>v1.
     rbind (exec_cmp2 op bt v0 v1) (\<lambda>v. set_and_advance ex t th r 16 v)))"
| "execute builtin ex t th (RLoad bt r src a) =
     rbind (pn_thread_get_value ex th src) (\<lambda>p.
     rbind (width_read (width_of_type bt) (ex_memory ex) (ucast p)) (\<lambda>v.
     set_and_advance ex t th r 16 v))"
| "execute builtin ex t th RRet = exec_ret ex t th None"
| "execute builtin ex t th (RRetValue a) =
     rbind (pn_thread_get_value ex th a) (\<lambda>v. exec_ret ex t th (Some v))"
| "execute builtin ex t th (RStore bt dest a al) =
     rbind (pn_thread_get_value ex th dest) (\<lambda>p.
     rbind (pn_thread_get_value ex th a) (\<lambda>v.
     rbind (width_write (width_of_type bt) (ex_memory ex) (ucast p) v) (\<lambda>m.
     Inr (put_thread (ex\<lparr>ex_memory := m\<rparr>) t (advance 16 th)))))"
| "execute builtin ex t th (RSwitch bt a default_inst cases) =
     rbind (pn_thread_get_value ex th a) (\<lambda>v.
     jump ex t th (24 + 16 * length cases) (switch_target (get_i bt v) default_inst cases))"
| "execute builtin ex t th RUnreachable = Inl (Fatal ''Reached unreachable instruction!'')"
| "execute builtin ex t th (RVselect r c a b) =
     rbind (pn_thread_get_value ex th c) (\<lambda>cond.
     rbind (pn_thread_get_value ex th (if cond AND 1 \<noteq> 0 then a else b)) (\<lambda>v.
     set_and_advance ex t th r 20 v))"
| "execute builtin ex t th (RPhiAssigns n fast ps) = Inl (Undefined ''phi table executed'')"

definition pn_thread_execute_instruction :: "builtin_call \<Rightarrow> PNExecutor \<Rightarrow> nat \<Rightarrow> PNExecutor res" where
  "pn_thread_execute_instruction builtin ex t =
     rbind (get_thread ex t) (\<lambda>th.
     rbind (fetch ex (thread_function th) (thread_inst th)) (\<lambda>i. execute builtin ex t th i))"

end
