(* ===== verification/Pn_Filesystem.thy ===== *)
theory Pn_Filesystem
  imports Pn_Executor
begin

text \<open>
  The file operations of the builtins, \<^verbatim>\<open>src/pn_filesystem.h\<close>. The parameter \<open>access\<close> is the global
  \<open>g_pn_filesystem_access\<close>, which the command line sets: without it only the three standard streams
  can be used. An operation returns the error number, 0 for success, and the new executor.
\<close>

unbundle bit_operations_syntax

section \<open>Error numbers\<close>

abbreviation (input) PN_ENOENT :: u32 where "PN_ENOENT \<equiv> 2"
abbreviation (input) PN_EBADF :: u32 where "PN_EBADF \<equiv> 9"
abbreviation (input) PN_EAGAIN :: u32 where "PN_EAGAIN \<equiv> 11"
abbreviation (input) PN_EINVAL :: u32 where "PN_EINVAL \<equiv> 22"
abbreviation (input) PN_EMFILE :: u32 where "PN_EMFILE \<equiv> 24"
abbreviation (input) PN_ESPIPE :: u32 where "PN_ESPIPE \<equiv> 29"
abbreviation (input) PN_ERANGE :: u32 where "PN_ERANGE \<equiv> 34"
abbreviation (input) PN_ENOSYS :: u32 where "PN_ENOSYS \<equiv> 38"
abbreviation (input) PN_ETIMEDOUT :: u32 where "PN_ETIMEDOUT \<equiv> 110"

definition pn_errnos :: "int list" where
  "pn_errnos = [1, 2, 3, 4, 5, 6, 7, 8, 9, 10, 11, 12, 13, 14, 16, 17, 18, 19, 20, 21, 22, 23, 24, 25,
     27, 28, 29, 30, 31, 32, 34, 36, 38, 122, 110]"

text \<open>The host is Linux, whose error numbers are the ones of the table.\<close>

definition pn_from_errno :: "errno \<Rightarrow> u32 res" where
  "pn_from_errno e = (if e \<in> set pn_errnos then Inr (word_of_int e) else Inl (Fatal ''Unknown errno''))"

type_synonym fs_result = "(u32 \<times> PNExecutor) res"

definition host_error :: "PNExecutor \<Rightarrow> errno \<Rightarrow> fs_result" where
  "host_error ex e = rbind (pn_from_errno e) (\<lambda>r. Inr (r, ex))"

definition log_call :: "host_call \<Rightarrow> PNExecutor \<Rightarrow> PNExecutor" where
  "log_call c ex = ex\<lparr>host_calls := c # host_calls ex\<rparr>"

section \<open>File descriptors\<close>

abbreviation (input) PN_MAX_FDS :: nat where "PN_MAX_FDS \<equiv> 1000"

text \<open>The host descriptor of a descriptor, or the error.\<close>

definition pn_filesystem_get_host_fd :: "PNExecutor \<Rightarrow> u32 \<Rightarrow> (u32 + int) res" where
  "pn_filesystem_get_host_fd ex fd =
     (if unat fd \<ge> PN_MAX_FDS then Inr (Inl PN_EBADF)
      else rbind (nth_res (fd_map ex) (unat fd)) (\<lambda>host_fd.
        Inr (if host_fd = - 1 then Inl PN_EBADF else Inr host_fd)))"

definition with_host_fd :: "PNExecutor \<Rightarrow> u32 \<Rightarrow> (int \<Rightarrow> fs_result) \<Rightarrow> fs_result" where
  "with_host_fd ex fd body =
     rbind (pn_filesystem_get_host_fd ex fd) (\<lambda>r.
     case r of Inl e \<Rightarrow> Inr (e, ex) | Inr host_fd \<Rightarrow> body host_fd)"

fun write_fields :: "PNMemory \<Rightarrow> u32 \<Rightarrow> (u32 \<times> atomic_width \<times> u64) list \<Rightarrow> PNMemory res" where
  "write_fields m p [] = Inr m"
| "write_fields m p ((off, w, v) # fs) =
     rbind (width_write w m (p + off) v) (\<lambda>m. write_fields m p fs)"

definition stat_fields :: "host_stat_buf \<Rightarrow> (u32 \<times> atomic_width \<times> u64) list" where
  "stat_fields buf =
     [(0, I64, st_dev buf), (8, I64, st_ino buf), (16, I32, ucast (st_mode buf)),
      (20, I32, ucast (st_nlink buf)), (24, I32, ucast (st_uid buf)), (28, I32, ucast (st_gid buf)),
      (32, I64, st_rdev buf), (40, I64, st_size buf), (48, I32, ucast (st_blksize buf)),
      (52, I32, ucast (st_blocks buf)), (56, I64, st_atime buf), (64, I64, st_atime_nsec buf),
      (72, I64, st_mtime buf), (80, I64, st_mtime_nsec buf), (88, I64, st_ctime buf),
      (96, I64, st_ctime_nsec buf)]"

definition pn_filesystem_write_stat_buf :: "PNExecutor \<Rightarrow> u32 \<Rightarrow> host_stat_buf \<Rightarrow> PNExecutor res" where
  "pn_filesystem_write_stat_buf ex stat_p buf =
     rbind (write_fields (ex_memory ex) stat_p (stat_fields buf)) (\<lambda>m. Inr (ex\<lparr>ex_memory := m\<rparr>))"

definition write_result :: "PNExecutor \<Rightarrow> u32 \<Rightarrow> u32 \<Rightarrow> fs_result" where
  "write_result ex p v =
     rbind (pn_memory_write_u32 (ex_memory ex) p v) (\<lambda>m. Inr (0, ex\<lparr>ex_memory := m\<rparr>))"

definition pn_filesystem_fdio_close :: "bool \<Rightarrow> host \<Rightarrow> PNExecutor \<Rightarrow> u32 \<Rightarrow> fs_result" where
  "pn_filesystem_fdio_close access h ex fd =
     with_host_fd ex fd (\<lambda>host_fd.
     rbind (if access then Inr (host_close h (host_calls ex) host_fd, log_call (Host_close host_fd) ex)
            else rbind (ensure (host_fd \<le> 2) (Check ''host_fd <= 2'')) (\<lambda>_. Inr (Inr (), ex)))
       (\<lambda>(result, ex).
     case result of Inl e \<Rightarrow> host_error ex e
     | Inr _ \<Rightarrow> rbind (upd_res (fd_map ex) (unat fd) (- 1)) (\<lambda>fds. Inr (0, ex\<lparr>fd_map := fds\<rparr>))))"

definition pn_filesystem_fdio_read ::
    "bool \<Rightarrow> host \<Rightarrow> PNExecutor \<Rightarrow> u32 \<Rightarrow> u32 \<Rightarrow> u32 \<Rightarrow> u32 \<Rightarrow> fs_result" where
  "pn_filesystem_fdio_read access h ex fd buf_p count nread_p =
     with_host_fd ex fd (\<lambda>host_fd.
     rbind (pn_memory_check (ex_memory ex) buf_p count) (\<lambda>_.
     if \<not> access \<and> host_fd \<noteq> 0 then Inr (PN_EINVAL, ex)
     else let ex' = log_call (Host_read host_fd count) ex in
       case host_read h (host_calls ex) host_fd count of
         Inl e \<Rightarrow> host_error ex' e
       | Inr bs \<Rightarrow>
           rbind (host_store (ex_memory ex') (unat buf_p) bs) (\<lambda>m.
           write_result (ex'\<lparr>ex_memory := m\<rparr>) nread_p (of_nat (length bs)))))"

text \<open>The offset is unsigned, so it never moves backwards.\<close>

definition pn_filesystem_fdio_seek ::
    "bool \<Rightarrow> host \<Rightarrow> PNExecutor \<Rightarrow> u32 \<Rightarrow> u32 \<Rightarrow> u32 \<Rightarrow> u32 \<Rightarrow> fs_result" where
  "pn_filesystem_fdio_seek access h ex fd offset whence new_offset_p =
     with_host_fd ex fd (\<lambda>host_fd.
     if access then
       let ex' = log_call (Host_lseek host_fd offset whence) ex in
       case host_lseek h (host_calls ex) host_fd offset whence of
         Inl e \<Rightarrow> host_error ex' e
       | Inr new_offset \<Rightarrow> write_result ex' new_offset_p (of_nat new_offset)
     else Inr (PN_ESPIPE, ex))"

text \<open>A failed write is not reported: the count that is stored is -1 then.\<close>

definition pn_filesystem_fdio_write ::
    "bool \<Rightarrow> host \<Rightarrow> PNExecutor \<Rightarrow> u32 \<Rightarrow> u32 \<Rightarrow> u32 \<Rightarrow> u32 \<Rightarrow> fs_result" where
  "pn_filesystem_fdio_write access h ex fd buf_p count nwrote_p =
     with_host_fd ex fd (\<lambda>host_fd.
     rbind (pn_memory_check (ex_memory ex) buf_p count) (\<lambda>_.
     if \<not> access \<and> host_fd \<noteq> 1 \<and> host_fd \<noteq> 2 then Inr (PN_EBADF, ex)
     else rbind (host_load (ex_memory ex) (unat buf_p) (unat count)) (\<lambda>bs.
       write_result (log_call (Host_write host_fd bs) ex) nwrote_p
         (case host_write h (host_calls ex) host_fd bs of Inl e \<Rightarrow> - 1 | Inr n \<Rightarrow> of_nat n))))"

definition pn_filesystem_fdio_fstat :: "host \<Rightarrow> PNExecutor \<Rightarrow> u32 \<Rightarrow> u32 \<Rightarrow> fs_result" where
  "pn_filesystem_fdio_fstat h ex fd stat_p =
     with_host_fd ex fd (\<lambda>host_fd.
     let ex' = log_call (Host_fstat host_fd) ex in
     case host_fstat h (host_calls ex) host_fd of
       Inl e \<Rightarrow> host_error ex' e
     | Inr buf \<Rightarrow> rbind (pn_filesystem_write_stat_buf ex' stat_p buf) (\<lambda>ex'. Inr (0, ex')))"

definition pn_filesystem_fdio_isatty :: "host \<Rightarrow> PNExecutor \<Rightarrow> u32 \<Rightarrow> u32 \<Rightarrow> fs_result" where
  "pn_filesystem_fdio_isatty h ex fd result_p =
     with_host_fd ex fd (\<lambda>host_fd.
     write_result (log_call (Host_isatty host_fd) ex) result_p
       (if host_isatty h (host_calls ex) host_fd then 1 else 0))"

section \<open>File names\<close>

definition c_string :: "string \<Rightarrow> cstr" where
  "c_string s = map of_char s"

definition PN_FAKE_GETCWD :: cstr where
  "PN_FAKE_GETCWD = c_string ''/home''"

definition read_cstr :: "PNMemory \<Rightarrow> u32 \<Rightarrow> cstr res" where
  "read_cstr m p = rbind (pn_memory_check_cstr m p) (\<lambda>len. host_load m (unat p) (unat len))"

definition pn_filesystem_filename_getcwd ::
    "bool \<Rightarrow> host \<Rightarrow> PNExecutor \<Rightarrow> u32 \<Rightarrow> u32 \<Rightarrow> fs_result" where
  "pn_filesystem_filename_getcwd access h ex pathname_p len =
     rbind (pn_memory_check (ex_memory ex) pathname_p len) (\<lambda>_.
     if access then
       let ex' = log_call (Host_getcwd len) ex in
       case host_getcwd h (host_calls ex) len of
         Inl e \<Rightarrow> host_error ex' e
       | Inr bs \<Rightarrow>
           rbind (host_store (ex_memory ex') (unat pathname_p) bs) (\<lambda>m. Inr (0, ex'\<lparr>ex_memory := m\<rparr>))
     else if length PN_FAKE_GETCWD + 1 > unat len then Inr (PN_ERANGE, ex)
     else rbind (host_store (ex_memory ex) (unat pathname_p) (PN_FAKE_GETCWD @ [0])) (\<lambda>m.
       Inr (0, ex\<lparr>ex_memory := m\<rparr>)))"

text \<open>The lowest free descriptor.\<close>

fun lowest_fd :: "nat \<Rightarrow> int list \<Rightarrow> nat option" where
  "lowest_fd fd [] = None"
| "lowest_fd fd (m # ms) = (if m = - 1 then Some fd else lowest_fd (Suc fd) ms)"

definition pn_filesystem_filename_open ::
    "bool \<Rightarrow> host \<Rightarrow> PNExecutor \<Rightarrow> u32 \<Rightarrow> u32 \<Rightarrow> u32 \<Rightarrow> u32 \<Rightarrow> fs_result" where
  "pn_filesystem_filename_open access h ex pathname_p oflag cmode newfd_p =
     rbind (read_cstr (ex_memory ex) pathname_p) (\<lambda>pathname.
     if \<not> access then Inr (PN_ENOENT, ex)
     else let ex' = log_call (Host_open pathname oflag cmode) ex in
       case host_open h (host_calls ex) pathname oflag cmode of
         Inl e \<Rightarrow> host_error ex' e
       | Inr host_fd \<Rightarrow>
           (case lowest_fd 0 (take PN_MAX_FDS (fd_map ex')) of
              None \<Rightarrow> Inr (PN_EMFILE, ex')
            | Some fd \<Rightarrow>
                write_result (ex'\<lparr>fd_map := (fd_map ex')[fd := int host_fd]\<rparr>) newfd_p (of_nat fd)))"

definition pn_filesystem_filename_access ::
    "bool \<Rightarrow> host \<Rightarrow> PNExecutor \<Rightarrow> u32 \<Rightarrow> u32 \<Rightarrow> fs_result" where
  "pn_filesystem_filename_access access h ex pathname_p amode =
     rbind (read_cstr (ex_memory ex) pathname_p) (\<lambda>pathname.
     if \<not> access then Inr (PN_ENOENT, ex)
     else let ex' = log_call (Host_access pathname amode) ex in
       case host_access h (host_calls ex) pathname amode of
         Inl e \<Rightarrow> host_error ex' e | Inr _ \<Rightarrow> Inr (0, ex'))"

definition pn_filesystem_filename_readlink ::
    "bool \<Rightarrow> host \<Rightarrow> PNExecutor \<Rightarrow> u32 \<Rightarrow> u32 \<Rightarrow> u32 \<Rightarrow> u32 \<Rightarrow> fs_result" where
  "pn_filesystem_filename_readlink access h ex path_p buf_p count nread_p =
     rbind (read_cstr (ex_memory ex) path_p) (\<lambda>path.
     rbind (pn_memory_check (ex_memory ex) buf_p count) (\<lambda>_.
     if \<not> access then Inr (PN_ENOENT, ex)
     else let ex' = log_call (Host_readlink path count) ex in
       case host_readlink h (host_calls ex) path count of
         Inl e \<Rightarrow> host_error ex' e
       | Inr bs \<Rightarrow>
           rbind (host_store (ex_memory ex') (unat buf_p) bs) (\<lambda>m.
           write_result (ex'\<lparr>ex_memory := m\<rparr>) nread_p (of_nat (length bs)))))"

text \<open>This one asks the host whether or not the file system may be used.\<close>

definition pn_filesystem_filename_stat :: "host \<Rightarrow> PNExecutor \<Rightarrow> u32 \<Rightarrow> u32 \<Rightarrow> fs_result" where
  "pn_filesystem_filename_stat h ex pathname_p stat_p =
     rbind (read_cstr (ex_memory ex) pathname_p) (\<lambda>pathname.
     let ex' = log_call (Host_stat pathname) ex in
     case host_stat h (host_calls ex) pathname of
       Inl e \<Rightarrow> host_error ex' e
     | Inr buf \<Rightarrow> rbind (pn_filesystem_write_stat_buf ex' stat_p buf) (\<lambda>ex'. Inr (0, ex')))"

end
