(* ===== verification/Pn_Control.thy ===== *)
theory Pn_Control
  imports Pn_Executor
begin

text \<open>
  Control-flow integrity of the executor: in a module whose instruction streams are well-formed
  (which \<^verbatim>\<open>Pn_Opcodes\<close> proves of the streams it writes), every step of a running thread finds an
  instruction at its instruction pointer, finds a call instruction wherever a return or a \<open>longjmp\<close>
  goes back to, finds the phi table behind a branch, and leaves all threads in such a state.

  The proof is a small Hoare logic over results: \<open>ok_res P r\<close> says that \<open>r\<close> is no control error and
  that its value, if it has one, satisfies \<open>P\<close>.
\<close>

section \<open>Results without control errors\<close>

text \<open>
  The five ways in which control would leave the code. Other undefined behaviour ends a run of the model too and is none of
  them: a \<open>longjmp\<close> through a buffer that was released with its frame (\<open>released jmpbuf\<close>), memory accesses past the end,
  arithmetic that C leaves undefined. The theorems say that a run does not end in a control error, not that it has
  no undefined behaviour, and nothing of what a program would do after that.
\<close>

definition control_error :: "pn_error \<Rightarrow> bool" where
  "control_error e \<longleftrightarrow> e \<in> {Undefined ''no instruction at this address'',
     Undefined ''not a call instruction'', Undefined ''not a phi table'',
     Undefined ''phi table executed'', Undefined ''sentinel frame''}"

definition ok_res :: "('a \<Rightarrow> bool) \<Rightarrow> 'a res \<Rightarrow> bool" where
  "ok_res P r \<longleftrightarrow> (case r of Inl e \<Rightarrow> \<not> control_error e | Inr x \<Rightarrow> P x)"

lemma ok_res_simps [simp]:
  "ok_res P (Inr x) \<longleftrightarrow> P x" "ok_res P (Inl e) \<longleftrightarrow> \<not> control_error e"
  by (simp_all add: ok_res_def)

lemma ok_res_bind:
  "ok_res Q r \<Longrightarrow> (\<And>x. r = Inr x \<Longrightarrow> Q x \<Longrightarrow> ok_res P (g x)) \<Longrightarrow> ok_res P (rbind r g)"
  by (cases r) auto

lemma ok_res_mono: "ok_res P r \<Longrightarrow> (\<And>x. P x \<Longrightarrow> Q x) \<Longrightarrow> ok_res Q r"
  by (cases r) auto

abbreviation no_control_error :: "'a res \<Rightarrow> bool" where
  "no_control_error \<equiv> ok_res (\<lambda>_. True)"

lemma ok_res_bind_any:
  "no_control_error r \<Longrightarrow> (\<And>x. r = Inr x \<Longrightarrow> ok_res P (g x)) \<Longrightarrow> ok_res P (rbind r g)"
  by (rule ok_res_bind)

lemma no_control_error_intros [simp]:
  "no_control_error (nth_res xs k)" "no_control_error (upd_res xs k v)"
  "no_control_error (ensure c e) \<longleftrightarrow> c \<or> \<not> control_error e"
  by (auto simp: nth_res_def upd_res_def ensure_def control_error_def)

section \<open>The invariant\<close>

definition code_of :: "PNModule \<Rightarrow> PNFunctionId \<Rightarrow> instruction_stream" where
  "code_of m f =
     (if f < length (module_functions m) then function_instructions (module_functions m ! f) else [])"

definition wf_functions :: "PNModule \<Rightarrow> bool" where
  "wf_functions m \<longleftrightarrow>
     (\<forall>f\<in>set (module_functions m). function_instructions f = [] \<or> wf_stream (function_instructions f))"

text \<open>A call instruction that a return goes back to; the trap never goes on.\<close>

definition call_at :: "instruction_stream \<Rightarrow> address \<Rightarrow> bool" where
  "call_at code a \<longleftrightarrow>
     (\<exists>op r c n fl args. map_of code a = Some (RCall op r c n fl args) \<and> op \<noteq> OPCODE_INTRINSIC LLVM_TRAP)"

text \<open>What of a thread matters for control: function, instruction pointer, state and locations.\<close>

type_synonym location = "PNFunctionId \<times> address \<times> PNJmpBuf list"

definition frame_loc :: "PNCallFrame \<Rightarrow> location" where
  "frame_loc fr = (frame_function_id fr, frame_inst fr, frame_jmpbufs fr)"

definition thread_locs :: "PNThread \<Rightarrow> location list" where
  "thread_locs th = map frame_loc (thread_frames th)"

definition jmpbuf_ok :: "PNModule \<Rightarrow> PNJmpBuf \<Rightarrow> bool" where
  "jmpbuf_ok m b \<longleftrightarrow> call_at (code_of m (jmpbuf_function_id b)) (jmpbuf_inst b)"

definition loc_jmpbufs_ok :: "PNModule \<Rightarrow> location \<Rightarrow> bool" where
  "loc_jmpbufs_ok m l \<longleftrightarrow> (\<forall>b\<in>set (snd (snd l)). jmpbuf_ok m b)"

definition loc_call_ok :: "PNModule \<Rightarrow> location \<Rightarrow> bool" where
  "loc_call_ok m l \<longleftrightarrow> call_at (code_of m (fst l)) (fst (snd l))"

definition wf_thread :: "PNModule \<Rightarrow> PNThread \<Rightarrow> bool" where
  "wf_thread m th \<longleftrightarrow>
     (case thread_locs th of [] \<Rightarrow> thread_state th = PN_THREAD_DEAD
      | l # ls \<Rightarrow> fst l = thread_function th \<and> instr_at (code_of m (thread_function th)) (thread_inst th) \<and>
          list_all (loc_call_ok m) ls \<and> list_all (loc_jmpbufs_ok m) (l # ls))"

text \<open>The list of dead threads holds threads that are dead, each once.\<close>

definition wf_dead :: "PNExecutor \<Rightarrow> bool" where
  "wf_dead ex \<longleftrightarrow> distinct (dead_threads ex) \<and>
     (\<forall>d\<in>set (dead_threads ex). d < length (threads ex) \<and> thread_state (threads ex ! d) = PN_THREAD_DEAD)"

definition wf_executor :: "PNExecutor \<Rightarrow> bool" where
  "wf_executor ex \<longleftrightarrow> wf_functions (ex_module ex) \<and> list_all (wf_thread (ex_module ex)) (threads ex) \<and> wf_dead ex"

text \<open>The invariant with a thread that is not in the list of dead threads.\<close>

definition wf_at :: "nat \<Rightarrow> PNExecutor \<Rightarrow> bool" where
  "wf_at t ex \<longleftrightarrow> wf_executor ex \<and> t \<notin> set (dead_threads ex)"

text \<open>The threads that are not in the list of dead threads stay out of it, with their frames and locations.\<close>

definition threads_kept :: "PNExecutor \<Rightarrow> PNExecutor \<Rightarrow> bool" where
  "threads_kept ex ex' \<longleftrightarrow> (\<forall>u th. get_thread ex u = Inr th \<longrightarrow> u \<notin> set (dead_threads ex) \<longrightarrow> u \<notin> set (dead_threads ex') \<and>
     (\<exists>th'. get_thread ex' u = Inr th' \<and> thread_frames th' = thread_frames th \<and>
        thread_function th' = thread_function th \<and> thread_inst th' = thread_inst th))"

text \<open>
  What the builtins must keep: the invariant, the module, and the location and the frames of the threads.
\<close>

definition builtin_keeps :: "PNExecutor \<Rightarrow> nat \<Rightarrow> PNThread \<Rightarrow> PNExecutor \<Rightarrow> bool" where
  "builtin_keeps ex t th ex' \<longleftrightarrow> wf_at t ex' \<and> ex_module ex' = ex_module ex \<and> threads_kept ex ex' \<and>
     (\<exists>th'. get_thread ex' t = Inr th' \<and> thread_frames th' = thread_frames th \<and>
        thread_function th' = thread_function th \<and> thread_inst th' = thread_inst th)"

section \<open>Streams and calls\<close>

lemma wf_code_of_ne: "wf_functions m \<Longrightarrow> code_of m f \<noteq> [] \<Longrightarrow> wf_stream (code_of m f)"
  by (auto simp: wf_functions_def code_of_def split: if_splits)

lemma wf_code_of: "wf_functions m \<Longrightarrow> map_of (code_of m f) a = Some i \<Longrightarrow> wf_stream (code_of m f)"
  by (rule wf_code_of_ne) auto

lemma fetch_code: "fetch ex f a = Inr i \<Longrightarrow> map_of (code_of (ex_module ex) f) a = Some i"
  by (auto simp: fetch_def code_of_def res_simps split: option.splits)

lemma fetch_at: "map_of (code_of (ex_module ex) f) a = Some i \<Longrightarrow> fetch ex f a = Inr i"
  by (auto simp: fetch_def code_of_def split: if_splits)

lemma call_next:
  assumes "wf_functions m" "map_of (code_of m f) a = Some (RCall op r c n fl args)"
    "op \<noteq> OPCODE_INTRINSIC LLVM_TRAP"
  shows "instr_at (code_of m f) (a + call_size n)"
proof -
  have wf: "wf_stream (code_of m f)" using assms(1,2) by (rule wf_code_of)
  then have "unat n = length args" "instr_at (code_of m f) (a + rinst_size (RCall op r c n fl args))"
    using assms(2,3) unfolding wf_stream_def by fastforce+
  then show ?thesis by (simp add: call_size_def mult.commute)
qed

lemma fetch_call_at:
  assumes "wf_functions (ex_module ex)" "call_at (code_of (ex_module ex) f) a"
  shows "ok_res (\<lambda>(r, n). instr_at (code_of (ex_module ex) f) (a + call_size n)) (fetch_call ex f a)"
proof -
  from assms(2) obtain op r c n fl args where
    i: "map_of (code_of (ex_module ex) f) a = Some (RCall op r c n fl args)" "op \<noteq> OPCODE_INTRINSIC LLVM_TRAP"
    by (auto simp: call_at_def)
  then show ?thesis using call_next[OF assms(1) i] by (simp add: fetch_call_def fetch_at)
qed

section \<open>Values do not matter for control\<close>

definition same_control :: "PNThread \<Rightarrow> PNThread \<Rightarrow> bool" where
  "same_control th th' \<longleftrightarrow> thread_locs th' = thread_locs th \<and> thread_function th' = thread_function th \<and>
     thread_inst th' = thread_inst th \<and> thread_state th' = thread_state th"

lemma same_control_refl [simp]: "same_control th th"
  by (simp add: same_control_def)

lemma same_control_trans: "same_control a b \<Longrightarrow> same_control b c \<Longrightarrow> same_control a c"
  by (simp add: same_control_def)

lemma thread_locs_ne [simp]: "thread_locs th \<noteq> [] \<longleftrightarrow> thread_frames th \<noteq> []"
  by (simp add: thread_locs_def)

lemma same_control_frames: "same_control th th' \<Longrightarrow> thread_frames th' \<noteq> [] \<longleftrightarrow> thread_frames th \<noteq> []"
  using thread_locs_ne[of th] thread_locs_ne[of th'] by (simp add: same_control_def)

lemma wf_thread_same: "same_control th th' \<Longrightarrow> wf_thread m th' \<longleftrightarrow> wf_thread m th"
  by (auto simp: same_control_def wf_thread_def split: list.splits)

lemma get_value_ok [simp]: "thread_frames th \<noteq> [] \<Longrightarrow> no_control_error (pn_thread_get_value ex th v)"
  by (auto simp: pn_thread_get_value_def current_frame_def split: list.splits)

lemma arg_ok [simp]: "thread_frames th \<noteq> [] \<Longrightarrow> no_control_error (arg ex th args k)"
  by (auto simp: arg_def intro!: ok_res_bind_any)

lemma current_frame_ok: "thread_frames th \<noteq> [] \<Longrightarrow> current_frame th = Inr (hd (thread_frames th))"
  by (cases "thread_frames th") (auto simp: current_frame_def)

lemma put_frame_same:
  "thread_frames th \<noteq> [] \<Longrightarrow> frame_loc fr = frame_loc (hd (thread_frames th)) \<Longrightarrow>
    same_control th (put_frame th fr)"
  by (cases "thread_frames th") (auto simp: same_control_def put_frame_def thread_locs_def)

lemma set_value_ok:
  "thread_frames th \<noteq> [] \<Longrightarrow> ok_res (same_control th) (pn_thread_set_value ex th v x)"
  unfolding pn_thread_set_value_def
  by (rule ok_res_bind_any) (auto simp: current_frame_ok control_error_def res_simps frame_loc_def
      intro!: ok_res_bind_any put_frame_same)

lemma set_value_same:
  "thread_frames th \<noteq> [] \<Longrightarrow> pn_thread_set_value ex th v x = Inr th' \<Longrightarrow> same_control th th'"
  using set_value_ok[of th ex v x] by simp

section \<open>Putting a thread back\<close>

lemma wf_dead_put: "wf_dead ex \<Longrightarrow> t \<notin> set (dead_threads ex) \<Longrightarrow> wf_dead (put_thread ex t th)"
  unfolding wf_dead_def put_thread_def by (simp, metis nth_list_update_neq)

lemma wf_at_put: "wf_at t ex \<Longrightarrow> wf_thread (ex_module ex) th \<Longrightarrow> wf_at t (put_thread ex t th)"
  using wf_dead_put[of ex t th]
  by (auto simp: wf_at_def wf_executor_def put_thread_def list_all_iff
      dest!: set_update_subset_insert[THEN subsetD])

lemma wf_executor_memory [simp]:
  "wf_executor (ex\<lparr>ex_memory := mem\<rparr>) \<longleftrightarrow> wf_executor ex"
  "wf_executor (ex\<lparr>next_jmpbuf_id := k\<rparr>) \<longleftrightarrow> wf_executor ex"
  "wf_executor (ex\<lparr>exit_code := c, exiting := b\<rparr>) \<longleftrightarrow> wf_executor ex"
  by (simp_all add: wf_executor_def wf_dead_def)

lemma wf_at_memory [simp]:
  "wf_at t (ex\<lparr>ex_memory := mem\<rparr>) \<longleftrightarrow> wf_at t ex"
  "wf_at t (ex\<lparr>next_jmpbuf_id := k\<rparr>) \<longleftrightarrow> wf_at t ex"
  "wf_at t (ex\<lparr>exit_code := c, exiting := b\<rparr>) \<longleftrightarrow> wf_at t ex"
  by (simp_all add: wf_at_def)

lemma put_thread_module [simp]: "ex_module (put_thread ex t th) = ex_module ex"
  by (simp add: put_thread_def)

text \<open>The postcondition of every step.\<close>

definition stepped :: "nat \<Rightarrow> PNExecutor \<Rightarrow> PNExecutor \<Rightarrow> bool" where
  "stepped t ex ex' \<longleftrightarrow> wf_at t ex' \<and> ex_module ex' = ex_module ex"

lemma advance_wf:
  assumes "wf_thread m th" "thread_frames th \<noteq> []" "same_control th th'"
    "instr_at (code_of m (thread_function th)) (thread_inst th + n)"
  shows "wf_thread m (advance n th')"
  using assms
  by (auto simp: wf_thread_def advance_def same_control_def thread_locs_def split: list.splits)

lemma jump_wf:
  assumes "wf_thread m th" "thread_frames th \<noteq> []" "thread_locs th' = thread_locs th"
    "thread_function th' = thread_function th" "instr_at (code_of m (thread_function th)) a"
  shows "wf_thread m (th'\<lparr>thread_inst := a\<rparr>)"
  using assms by (auto simp: wf_thread_def thread_locs_def split: list.splits)

text \<open>The situation in which an instruction is executed.\<close>

definition at_inst :: "PNExecutor \<Rightarrow> nat \<Rightarrow> PNThread \<Rightarrow> PNRuntimeInstruction \<Rightarrow> bool" where
  "at_inst ex t th inst \<longleftrightarrow> wf_at t ex \<and> get_thread ex t = Inr th \<and> thread_frames th \<noteq> [] \<and>
     thread_state th \<noteq> PN_THREAD_DEAD \<and>
     map_of (code_of (ex_module ex) (thread_function th)) (thread_inst th) = Some inst"

lemma at_inst_facts:
  assumes "at_inst ex t th inst"
  shows "wf_at t ex" "thread_frames th \<noteq> []" "wf_functions (ex_module ex)" "wf_thread (ex_module ex) th"
    "wf_stream (code_of (ex_module ex) (thread_function th))"
    "map_of (code_of (ex_module ex) (thread_function th)) (thread_inst th) = Some inst"
    "thread_state th \<noteq> PN_THREAD_DEAD"
proof -
  show wf: "wf_at t ex" and "thread_frames th \<noteq> []"
    and here: "map_of (code_of (ex_module ex) (thread_function th)) (thread_inst th) = Some inst"
    and "thread_state th \<noteq> PN_THREAD_DEAD"
    using assms by (auto simp: at_inst_def)
  then show fns: "wf_functions (ex_module ex)" and "wf_thread (ex_module ex) th"
    using assms by (auto simp: at_inst_def wf_at_def wf_executor_def get_thread_def list_all_iff res_simps)
  show "wf_stream (code_of (ex_module ex) (thread_function th))" using fns here by (rule wf_code_of)
qed

lemma next_instr:
  "at_inst ex t th inst \<Longrightarrow> falls_through inst \<Longrightarrow>
    instr_at (code_of (ex_module ex) (thread_function th)) (thread_inst th + rinst_size inst)"
  using at_inst_facts(5,6) unfolding wf_stream_def by blast

lemma target_instr:
  "at_inst ex t th inst \<Longrightarrow> a \<in> rinst_targets inst \<Longrightarrow>
    instr_at (code_of (ex_module ex) (thread_function th)) a"
  using at_inst_facts(5,6) unfolding wf_stream_def by blast

lemma put_stepped:
  "ex_module ex' = ex_module ex \<Longrightarrow> wf_at t ex' \<Longrightarrow> wf_thread (ex_module ex) th' \<Longrightarrow>
    stepped t ex (put_thread ex' t th')"
  using wf_at_put[of t ex' th'] by (simp add: stepped_def)

section \<open>Straight-line instructions\<close>

lemma advance_stepped:
  assumes "at_inst ex t th inst" "falls_through inst" "n = rinst_size inst" "same_control th th'"
    and "ex_module ex' = ex_module ex" "wf_at t ex'"
  shows "stepped t ex (put_thread ex' t (advance n th'))"
  using assms at_inst_facts[OF assms(1)] next_instr[OF assms(1,2)]
  by (intro put_stepped advance_wf[of _ th]) simp_all

lemma set_and_advance_ok:
  assumes "at_inst ex t th inst" "falls_through inst" "n = rinst_size inst"
  shows "ok_res (stepped t ex) (set_and_advance ex t th r n v)"
  unfolding set_and_advance_def
  by (rule ok_res_bind[OF set_value_ok[OF at_inst_facts(2)[OF assms(1)]]])
    (auto intro!: advance_stepped[OF assms] at_inst_facts(1)[OF assms(1)])

lemma call_advance_stepped:
  assumes "at_inst ex t th (RCall op r c n fl args)" "op \<noteq> OPCODE_INTRINSIC LLVM_TRAP" "same_control th th'"
    and "ex_module ex' = ex_module ex" "wf_at t ex'"
  shows "stepped t ex (put_thread ex' t (advance (call_size n) th'))"
  using at_inst_facts[OF assms(1)] call_next[OF _ _ assms(2)] assms(3-5)
  by (intro put_stepped advance_wf[of _ th]) auto

lemma finish_call_ok:
  assumes "at_inst ex t th (RCall op r c n fl args)" "op \<noteq> OPCODE_INTRINSIC LLVM_TRAP" "same_control th th'"
    and "ex_module ex' = ex_module ex" "wf_at t ex'"
  shows "ok_res (stepped t ex) (finish_call ex' t th' r n v)"
proof -
  have fr: "thread_frames th' \<noteq> []"
    using same_control_frames[OF assms(3)] at_inst_facts(2)[OF assms(1)] by simp
  show ?thesis unfolding finish_call_def
    by (rule ok_res_bind[OF set_value_ok[OF fr]])
      (auto intro!: call_advance_stepped[OF assms(1,2) _ assms(4,5)] same_control_trans[OF assms(3)])
qed

lemma skip_call_ok:
  assumes "at_inst ex t th (RCall op r c n fl args)" "op \<noteq> OPCODE_INTRINSIC LLVM_TRAP" "same_control th th'"
    and "ex_module ex' = ex_module ex" "wf_at t ex'"
  shows "ok_res (stepped t ex) (skip_call ex' t th' n)"
  using call_advance_stepped[OF assms] by (simp add: skip_call_def)

text \<open>Memory accesses and arithmetic raise no control error.\<close>

lemma check_ok [simp]:
  "no_control_error (pn_memory_check mem a n)" "no_control_error (host_load mem k l)"
  "no_control_error (host_store mem k bs)" "no_control_error (check_num_args n8 k8)"
  "no_control_error (check_no_result r)" "no_control_error (check_result r)"
  by (auto simp: pn_memory_check_def host_load_def host_store_def control_error_def check_num_args_def
      check_no_result_def check_result_def)

lemma memory_ok [simp]:
  "no_control_error (memory_read n mem a)" "no_control_error (memory_write n mem a v)"
  by (auto simp: memory_read_def memory_write_def intro!: ok_res_bind_any)

lemma width_ok [simp]:
  "no_control_error (width_read w mem a)" "no_control_error (width_write w mem a x)"
  "no_control_error (pn_memory_read_u32 mem a)" "no_control_error (pn_memory_write_u32 mem a y)"
  by (cases w; auto simp: width_read_def width_write_def pn_memory_read_u8_def pn_memory_read_u16_def
      pn_memory_read_u32_def pn_memory_read_u64_def pn_memory_write_u8_def pn_memory_write_u16_def
      pn_memory_write_u32_def pn_memory_write_u64_def intro!: ok_res_bind_any)+

lemma mem_ops_ok [simp]:
  "no_control_error (mem_copy b mem d s l)" "no_control_error (mem_set mem d v l)"
  by (auto simp: mem_copy_def mem_set_def control_error_def intro!: ok_res_bind_any)

lemma arithmetic_ok [simp]:
  "no_control_error (exec_binop op bt v w)" "no_control_error (exec_cast c s d v)"
  "no_control_error (exec_cmp2 cmp bt v w)"
proof -
  have i: "no_control_error (int_binop op bt v w)"
    by (cases op) (auto simp: int_binop_def Let_def divisor_ok_def quotient_ok_def shift_ok_def
        control_error_def intro!: ok_res_bind_any)
  then show "no_control_error (exec_binop op bt v w)"
    by (auto simp: exec_binop_def control_error_def intro!: ok_res_bind_any)
  have f: "no_control_error (fp_to_int F lo hi a)" for F lo hi a
    by (auto simp: fp_to_int_def Let_def control_error_def split: fp.splits)
  have r: "no_control_error (rbind (fp_to_int F lo hi a) (\<lambda>x. Inr (g x)))" for F lo hi a and g :: "int \<Rightarrow> u64"
    by (rule ok_res_bind_any[OF f]) simp
  show "no_control_error (exec_cast c s d v)"
  proof (cases "(s, d) \<in> set (cast_types c)")
    case True
    then show ?thesis by (cases c) (simp_all only: exec_cast_def PNCast.case r ok_res_simps not_True_eq_False if_False)
  qed (simp add: exec_cast_def control_error_def)
  show "no_control_error (exec_cmp2 cmp bt v w)"
    by (simp add: exec_cmp2_def control_error_def)
qed

section \<open>Branches\<close>

lemma fast_phi_ok:
  "thread_frames th \<noteq> [] \<Longrightarrow> ok_res (same_control th) (fast_phi_assigns ex dest as th)"
proof (induction as arbitrary: th)
  case (Cons a as)
  have "ok_res (same_control th)
      (if phi_inst a = dest
       then rbind (pn_thread_get_value ex th (phi_source_value_id a)) (\<lambda>v.
         pn_thread_set_value ex th (phi_dest_value_id a) v) else Inr th)"
    using Cons.prems by (auto intro!: ok_res_bind_any set_value_ok)
  then show ?case unfolding fast_phi_assigns.simps
  proof (rule ok_res_bind)
    fix th' assume same: "same_control th th'"
    then have "thread_frames th' \<noteq> []" using Cons.prems same_control_frames by simp
    from Cons.IH[OF this] show "ok_res (same_control th) (fast_phi_assigns ex dest as th')"
      by (rule ok_res_mono) (rule same_control_trans[OF same])
  qed
qed simp

lemma read_phi_ok: "thread_frames th \<noteq> [] \<Longrightarrow> no_control_error (read_phi_sources ex th as)"
  by (induction as) (auto intro!: ok_res_bind_any)

lemma write_phi_ok:
  "thread_frames th \<noteq> [] \<Longrightarrow> ok_res (same_control th) (write_phi_dests ex dest as th)"
proof (induction as arbitrary: th)
  case (Cons a as)
  obtain p v where a: "a = (p, v)" by (cases a)
  have "ok_res (same_control th)
      (if phi_inst p = dest then pn_thread_set_value ex th (phi_dest_value_id p) v else Inr th)"
    using Cons.prems by (auto intro!: set_value_ok)
  then show ?case unfolding a write_phi_dests.simps
  proof (rule ok_res_bind)
    fix th' assume same: "same_control th th'"
    then have "thread_frames th' \<noteq> []" using Cons.prems same_control_frames by simp
    from Cons.IH[OF this] show "ok_res (same_control th) (write_phi_dests ex dest as th')"
      by (rule ok_res_mono) (rule same_control_trans[OF same])
  qed
qed simp

lemma phi_assigns_ok:
  assumes "thread_frames th \<noteq> []"
    "map_of (code_of (ex_module ex) (thread_function th)) (thread_inst th) = Some p" "is_phi_table p"
  shows "ok_res (same_control th) (pn_thread_do_phi_assigns ex th dest)"
proof -
  from assms(3) obtain n fast ps where p: "p = RPhiAssigns n fast ps" by (cases p) auto
  show ?thesis unfolding pn_thread_do_phi_assigns_def
    using assms(1) fast_phi_ok[OF assms(1)] write_phi_ok[OF assms(1)] read_phi_ok[OF assms(1)]
    by (auto simp: fetch_at[OF assms(2)] p Let_def intro!: ok_res_bind_any)
qed

lemma jump_ok:
  assumes "at_inst ex t th inst" "is_rbranch inst" "n = rinst_size inst" "dest \<in> rinst_targets inst"
  shows "ok_res (stepped t ex) (jump ex t th n dest)"
proof -
  note facts = at_inst_facts[OF assms(1)]
  from facts(5,6) assms(2) obtain p where
    p: "map_of (code_of (ex_module ex) (thread_function th)) (thread_inst th + rinst_size inst) = Some p"
    "is_phi_table p" unfolding wf_stream_def by blast
  have "ok_res (same_control (advance n th)) (pn_thread_do_phi_assigns ex (advance n th) dest)"
    using p facts(2) by (intro phi_assigns_ok[of _ _ p]) (simp_all add: advance_def assms(3))
  then show ?thesis unfolding jump_def
    by (rule ok_res_bind)
      (auto intro!: put_stepped facts(1) jump_wf[OF facts(4,2)] target_instr[OF assms(1,4)]
        simp: same_control_def advance_def thread_locs_def)
qed

section \<open>setjmp and longjmp\<close>

lemma call_at_here:
  assumes "at_inst ex t th (RCall op r c n fl args)" "op \<noteq> OPCODE_INTRINSIC LLVM_TRAP"
  shows "call_at (code_of (ex_module ex) (thread_function th)) (thread_inst th)"
  using at_inst_facts(6)[OF assms(1)] assms(2) by (auto simp: call_at_def)

lemma wf_thread_locs:
  assumes "wf_thread m th" "thread_frames th = fr # frs"
  shows "frame_function_id fr = thread_function th" "list_all (loc_call_ok m) (map frame_loc frs)"
    "list_all (loc_jmpbufs_ok m) (map frame_loc (fr # frs))"
  using assms by (auto simp: wf_thread_def thread_locs_def frame_loc_def)

lemma setjmp_ok:
  assumes at: "at_inst ex t th (RCall (OPCODE_INTRINSIC LLVM_NACL_SETJMP) r c n fl args)"
  shows "ok_res (stepped t ex) (exec_setjmp ex t th r n args)"
proof -
  note facts = at_inst_facts[OF at]
  obtain fr frs where frs: "thread_frames th = fr # frs" using facts(2) by (cases "thread_frames th") auto
  note locs = wf_thread_locs[OF facts(4) frs]
  define fr' where "fr' = fr\<lparr>frame_inst := thread_inst th\<rparr>"
  define th' where "th' buf = put_frame (put_frame th fr') (fr'\<lparr>frame_jmpbufs := buf # frame_jmpbufs fr\<rparr>)"
    for buf
  have nxt: "instr_at (code_of (ex_module ex) (thread_function th)) (thread_inst th + call_size n)"
    using call_next[OF facts(3,6)] by simp
  have wf: "wf_thread (ex_module ex) (advance (call_size n) th'')"
    if "same_control (th' buf) th''" "jmpbuf_ok (ex_module ex) buf" for buf th''
    using that locs nxt facts(4)
    by (simp add: wf_thread_def same_control_def th'_def put_frame_def fr'_def thread_locs_def frs
        frame_loc_def advance_def loc_jmpbufs_ok_def)
  have ne: "thread_frames (put_frame th fr') \<noteq> []" "thread_frames (th' buf) \<noteq> []" for buf
    by (simp_all add: put_frame_def th'_def)
  have buf: "jmpbuf_ok (ex_module ex) \<lparr>jmpbuf_id = k, jmpbuf_function_id = frame_function_id fr,
      jmpbuf_inst = thread_inst th, jmpbuf_stack_top = s, jmpbuf_released = b\<rparr>" for k s b
    using call_at_here[OF at] locs(1) by (simp add: jmpbuf_ok_def)
  have fin: "ok_res (stepped t ex) (finish_call ex' t (th' b) r n v)"
    if "ex_module ex' = ex_module ex" "wf_at t ex'" "jmpbuf_ok (ex_module ex) b" for ex' b v
    unfolding finish_call_def
    by (rule ok_res_bind[OF set_value_ok[OF ne(2)]]) (auto intro!: put_stepped that wf)
  show ?thesis unfolding exec_setjmp_def
    using facts(1,2) frs
    by (auto simp: current_frame_def Let_def fr'_def[symmetric] th'_def[symmetric] arg_ok[OF ne(1)]
        intro!: ok_res_bind_any fin buf)
qed

lemma find_jmpbuf_ok:
  "ok_res (\<lambda>found. \<forall>buf bufs. found = Some (buf, bufs) \<longrightarrow> insert buf (set bufs) \<subseteq> set bs) (find_jmpbuf ident bs)"
proof (induction bs)
  case (Cons b bs)
  then show ?case by (auto simp: control_error_def intro: ok_res_mono)
qed simp

lemma find_frame_ok:
  "ok_res (\<lambda>(buf, bufs, fr, frames). (\<exists>pre. frs = pre @ fr # frames) \<and>
     insert buf (set bufs) \<subseteq> set (frame_jmpbufs fr)) (find_jmpbuf_frame ident frs)"
proof (induction frs)
  case (Cons fr frs)
  show ?case unfolding find_jmpbuf_frame.simps
  proof (rule ok_res_bind[OF find_jmpbuf_ok])
    fix found
    assume found: "\<forall>buf bufs. found = Some (buf, bufs) \<longrightarrow> insert buf (set bufs) \<subseteq> set (frame_jmpbufs fr)"
    have "ok_res (\<lambda>(buf, bufs, fr', frames). (\<exists>pre. fr # frs = pre @ fr' # frames) \<and>
        insert buf (set bufs) \<subseteq> set (frame_jmpbufs fr')) (find_jmpbuf_frame ident frs)"
      using Cons.IH by (rule ok_res_mono) (auto intro: exI[of _ "fr # _"])
    with found show "ok_res (\<lambda>(buf, bufs, fr', frames). (\<exists>pre. fr # frs = pre @ fr' # frames) \<and>
        insert buf (set bufs) \<subseteq> set (frame_jmpbufs fr'))
      (case found of None \<Rightarrow> find_jmpbuf_frame ident frs | Some (buf, bufs) \<Rightarrow> Inr (buf, bufs, fr, frs))"
      by (cases found) (auto intro: exI[of _ "[]"])
  qed
qed (simp add: control_error_def)

lemma longjmp_ok:
  assumes at: "at_inst ex t th (RCall (OPCODE_INTRINSIC LLVM_NACL_LONGJMP) r c n fl args)"
  shows "ok_res (stepped t ex) (exec_longjmp ex t th r n args)"
proof -
  note facts = at_inst_facts[OF at]
  have target: "ok_res (stepped t ex)
      (let fr' = fr\<lparr>frame_function_id := jmpbuf_function_id buf, frame_inst := jmpbuf_inst buf,
                    memory_stack_top := jmpbuf_stack_top buf, frame_jmpbufs := map release bufs\<rparr>;
           th' = th\<lparr>thread_frames := fr' # frames\<rparr> in
       rbind (fetch_call ex (frame_function_id fr') (frame_inst fr')) (\<lambda>(result_id, n').
       rbind (pn_thread_set_value ex th' result_id v) (\<lambda>th'.
       Inr (put_thread ex t (th'\<lparr>thread_inst := frame_inst fr' + call_size n',
                                thread_function := frame_function_id fr'\<rparr>)))))"
    if found: "thread_frames th = pre @ fr # frames" "insert buf (set bufs) \<subseteq> set (frame_jmpbufs fr)"
    for pre fr frames buf bufs v
  proof -
    have all: "list_all (loc_jmpbufs_ok (ex_module ex)) (map frame_loc (pre @ fr # frames))"
      "list_all (loc_call_ok (ex_module ex)) (map frame_loc frames)"
      using facts(4) found(1) by (cases pre; simp add: wf_thread_def thread_locs_def)+
    then have bufs: "\<forall>b\<in>insert buf (set bufs). jmpbuf_ok (ex_module ex) b"
      using found(2) by (auto simp: loc_jmpbufs_ok_def frame_loc_def)
    define fr' where "fr' = fr\<lparr>frame_function_id := jmpbuf_function_id buf, frame_inst := jmpbuf_inst buf,
      memory_stack_top := jmpbuf_stack_top buf, frame_jmpbufs := map release bufs\<rparr>"
    have "call_at (code_of (ex_module ex) (frame_function_id fr')) (frame_inst fr')"
      using bufs by (simp add: fr'_def jmpbuf_ok_def)
    note call = fetch_call_at[OF facts(3) this]
    have rel: "\<forall>b\<in>set (map release bufs). jmpbuf_ok (ex_module ex) b"
      using bufs by (auto simp: release_def jmpbuf_ok_def)
    have wf: "wf_thread (ex_module ex) (th''\<lparr>thread_inst := a, thread_function := frame_function_id fr'\<rparr>)"
      if "same_control (th\<lparr>thread_frames := fr' # frames\<rparr>) th''"
        "instr_at (code_of (ex_module ex) (frame_function_id fr')) a" for th'' a
      using that all rel
      by (simp add: wf_thread_def same_control_def thread_locs_def frame_loc_def loc_jmpbufs_ok_def fr'_def)
    show ?thesis unfolding Let_def fr'_def[symmetric]
      by (rule ok_res_bind[OF call])
        (auto intro!: ok_res_bind[OF set_value_ok] put_stepped facts(1) wf)
  qed
  show ?thesis unfolding exec_longjmp_def using facts(2)
    apply -
    apply (rule ok_res_bind_any, simp)
    apply (rule ok_res_bind_any, simp)
    apply (rule ok_res_bind_any, simp)
    apply (rule ok_res_bind_any, simp)
    apply (rule ok_res_bind_any, simp)
    apply (rule ok_res_bind[OF find_frame_ok], simp only: split_paired_all prod.case)
    apply (elim conjE exE)
    apply (rule target)
    apply assumption+
    done
qed

section \<open>The other intrinsics\<close>

lemma exec_mem_ok:
  assumes "at_inst ex t th (RCall (OPCODE_INTRINSIC op) r c n fl args)" "op \<noteq> LLVM_TRAP"
  shows "ok_res (stepped t ex) (exec_mem_intrinsic op' ex t th r n args)"
  unfolding exec_mem_intrinsic_def using at_inst_facts(1,2)[OF assms(1)] assms(2)
  by (auto intro!: ok_res_bind_any skip_call_ok[OF assms(1)] split: PNIntrinsicId.splits)

lemma exec_atomic_ok:
  assumes "at_inst ex t th (RCall op r c n fl args)" "op \<noteq> OPCODE_INTRINSIC LLVM_TRAP"
  shows "ok_res (stepped t ex) (exec_cmpxchg w ex t th r n args)"
    "ok_res (stepped t ex) (exec_atomic_load w ex t th r n args)"
    "ok_res (stepped t ex) (exec_atomic_rmw aop w ex t th r n args)"
    "ok_res (stepped t ex) (exec_atomic_store w ex t th r n args)"
  unfolding exec_cmpxchg_def exec_atomic_load_def exec_atomic_rmw_def exec_atomic_store_def
  using at_inst_facts(1,2)[OF assms(1)]
  by (auto simp: control_error_def intro!: ok_res_bind_any finish_call_ok[OF assms] skip_call_ok[OF assms])

lemma trap_ok:
  assumes "at_inst ex t th inst"
  shows "stepped t ex (put_thread (ex\<lparr>exit_code := c, exiting := True\<rparr>) t (th\<lparr>thread_state := PN_THREAD_DEAD\<rparr>))"
proof -
  note facts = at_inst_facts[OF assms]
  have "wf_thread (ex_module ex) (th\<lparr>thread_state := PN_THREAD_DEAD\<rparr>)"
    using facts(2,4) by (auto simp: wf_thread_def thread_locs_def split: list.splits)
  then show ?thesis using facts(1) by (intro put_stepped) simp_all
qed

lemma exec_intrinsic_ok:
  assumes at: "at_inst ex t th (RCall (OPCODE_INTRINSIC op) r c n fl args)"
  shows "ok_res (stepped t ex) (exec_intrinsic op ex t th r n args)"
proof (cases op)
  case LLVM_NACL_SETJMP
  with setjmp_ok at show ?thesis by (simp add: exec_intrinsic_def)
next
  case LLVM_NACL_LONGJMP
  with longjmp_ok at show ?thesis by (simp add: exec_intrinsic_def)
next
  case LLVM_TRAP
  with trap_ok[OF at] show ?thesis by (simp add: exec_intrinsic_def ok_res_bind_any)
next
  case LLVM_STACKRESTORE
  with at_inst_facts(1,2)[OF at] show ?thesis
    by (auto simp: exec_intrinsic_def current_frame_ok frame_loc_def
        intro!: ok_res_bind_any skip_call_ok[OF at] put_frame_same)
qed (use at at_inst_facts(1,2)[OF at] in \<open>auto simp: exec_intrinsic_def exec_mem_ok[OF at] exec_atomic_ok[OF at]
      current_frame_ok control_error_def intro!: ok_res_bind_any finish_call_ok[OF at] skip_call_ok[OF at]\<close>)

section \<open>Calls\<close>

lemma init_constants_ok:
  "thread_frames th \<noteq> [] \<Longrightarrow> ok_res (same_control th) (init_constants ex f n cs th)"
proof (induction cs arbitrary: n th)
  case (Cons c cs)
  have gv: "no_control_error (pn_function_get_value m f k)" for m k
    by (simp add: pn_function_get_value_def Let_def control_error_def)
  have step: "ok_res (same_control th) (init_constants ex f (Suc n) cs th')" if same: "same_control th th'" for th'
  proof -
    have "thread_frames th' \<noteq> []" using Cons.prems same same_control_frames by simp
    from Cons.IH[OF this] show ?thesis by (rule ok_res_mono) (rule same_control_trans[OF same])
  qed
  have ens: "no_control_error (ensure b (Assertion ''value->code''))" for b
    by (simp add: control_error_def)
  show ?case unfolding init_constants.simps Let_def
    by (intro ok_res_bind_any[OF gv] ok_res_bind_any[OF ens] ok_res_bind[OF set_value_ok[OF Cons.prems]] step)
qed simp

lemma copy_args_ok:
  "thread_frames th \<noteq> [] \<Longrightarrow> ok_res (same_control th) (copy_args ex old n as th)"
proof (induction as arbitrary: n th)
  case (Cons a as)
  have gv: "no_control_error (pn_executor_get_value_from_frame ex old a)"
    by (simp add: pn_executor_get_value_from_frame_def)
  show ?case unfolding copy_args.simps
  proof (intro ok_res_bind_any[OF gv] ok_res_bind[OF set_value_ok[OF Cons.prems]])
    fix th' assume same: "same_control th th'"
    then have "thread_frames th' \<noteq> []" using Cons.prems same_control_frames by simp
    from Cons.IH[OF this] show "ok_res (same_control th) (copy_args ex old (Suc n) as th')"
      by (rule ok_res_mono) (rule same_control_trans[OF same])
  qed
qed simp

lemma push_function_ok:
  assumes "wf_functions (ex_module ex)" "f < length (module_functions (ex_module ex))"
    "list_all (loc_call_ok (ex_module ex)) (thread_locs th)"
    "list_all (loc_jmpbufs_ok (ex_module ex)) (thread_locs th)"
  shows "ok_res (\<lambda>th'. wf_thread (ex_module ex) th' \<and> thread_frames th' \<noteq> [])
    (pn_thread_push_function ex th f (module_functions (ex_module ex) ! f))"
proof (cases "function_instructions (module_functions (ex_module ex) ! f) = []")
  case True
  then show ?thesis unfolding pn_thread_push_function_def Let_def
    by (auto simp: control_error_def intro!: ok_res_bind_any)
next
  case False
  then have "wf_stream (code_of (ex_module ex) f)"
    using assms(1,2) by (intro wf_code_of_ne) (simp_all add: code_of_def)
  then have "instr_at (code_of (ex_module ex) f) 0" by (simp add: wf_stream_def)
  with assms(3,4) False show ?thesis unfolding pn_thread_push_function_def Let_def
    by (simp, intro ok_res_mono[OF init_constants_ok])
      (auto simp: wf_thread_same same_control_frames, simp add: wf_thread_def thread_locs_def frame_loc_def
        loc_jmpbufs_ok_def)
qed

lemma call_push_ok:
  assumes "wf_at t ex" "list_all (loc_call_ok (ex_module ex)) (thread_locs th)"
    "list_all (loc_jmpbufs_ok (ex_module ex)) (thread_locs th)"
  shows "ok_res (stepped t ex)
    (rbind (nth_res (module_functions (ex_module ex)) f) (\<lambda>fn.
     rbind (pn_thread_push_function ex th f fn) (\<lambda>th.
     rbind (copy_args ex old 0 as th) (\<lambda>th. Inr (put_thread ex t th)))))"
proof (cases "f < length (module_functions (ex_module ex))")
  case True
  have fns: "wf_functions (ex_module ex)" using assms(1) by (simp add: wf_at_def wf_executor_def)
  from True show ?thesis
    by (auto intro!: ok_res_bind[OF push_function_ok[OF fns True assms(2,3)]] ok_res_bind[OF copy_args_ok]
        put_stepped assms(1) simp: wf_thread_same)
qed (simp add: nth_res_def control_error_def)

section \<open>Returns, allocas and the step\<close>

lemma exec_ret_ok:
  assumes at: "at_inst ex t th inst"
  shows "ok_res (stepped t ex) (exec_ret ex t th v)"
proof -
  note facts = at_inst_facts[OF at]
  obtain fr frs where frs: "thread_frames th = fr # frs" using facts(2) by (cases "thread_frames th") auto
  note locs = wf_thread_locs[OF facts(4) frs]
  show ?thesis
  proof (cases frs)
    case Nil
    then show ?thesis using facts(1)
      by (auto simp: exec_ret_def frs wf_thread_def thread_locs_def intro!: put_stepped)
  next
    case (Cons caller frames)
    define th1 where "th1 = th\<lparr>thread_frames := caller # frames\<rparr>"
    have "call_at (code_of (ex_module ex) (frame_function_id caller)) (frame_inst caller)"
      using locs(2) by (simp add: Cons loc_call_ok_def frame_loc_def)
    note call = fetch_call_at[OF facts(3) this]
    have set: "ok_res (same_control th1)
        (case v of None \<Rightarrow> Inr th1 | Some v \<Rightarrow> pn_thread_set_value ex th1 r v)" for r
      by (auto split: option.splits intro!: set_value_ok simp: th1_def)
    have wf: "wf_thread (ex_module ex)
        ((put_frame th2 (fr2\<lparr>frame_jmpbufs := map release (frame_jmpbufs fr2)\<rparr>))
           \<lparr>thread_inst := a, thread_function := frame_function_id caller\<rparr>)"
      if "same_control th1 th2" "current_frame th2 = Inr fr2"
        "instr_at (code_of (ex_module ex) (frame_function_id caller)) a" for th2 fr2 a
      using that locs(2,3)
      by (auto simp: same_control_def th1_def thread_locs_def current_frame_def Cons wf_thread_def
          put_frame_def frame_loc_def loc_jmpbufs_ok_def release_def jmpbuf_ok_def split: list.splits)
    have cur: "no_control_error (current_frame th2)" if "same_control th1 th2" for th2
      using same_control_frames[OF that] by (simp add: current_frame_ok th1_def)
    show ?thesis unfolding exec_ret_def frs Cons list.case Let_def th1_def[symmetric]
      by (rule ok_res_bind[OF call], simp only: split_paired_all prod.case, rule ok_res_bind[OF set])
        (auto intro!: ok_res_bind_any cur put_stepped facts(1) wf)
  qed
qed

lemma exec_alloca_ok:
  assumes at: "at_inst ex t th (RAlloca bt r s a)"
  shows "ok_res (stepped t ex) (exec_alloca ex t th r s a)"
proof -
  note facts = at_inst_facts[OF at]
  have al: "no_control_error (pn_align_down x y)" for x y
    by (auto simp: pn_align_down_def assert_align_def control_error_def intro!: ok_res_bind_any)
  have fin: "ok_res (stepped t ex) (rbind (pn_thread_set_value ex (put_frame th (fr\<lparr>memory_stack_top := top\<rparr>)) r v)
      (\<lambda>th. Inr (put_thread ex t (advance 16 th))))" if "current_frame th = Inr fr" for fr top v
  proof -
    have same: "same_control th (put_frame th (fr\<lparr>memory_stack_top := top\<rparr>))"
      using that facts(2) by (intro put_frame_same) (auto simp: current_frame_ok frame_loc_def)
    then have "thread_frames (put_frame th (fr\<lparr>memory_stack_top := top\<rparr>)) \<noteq> []"
      using same_control_frames facts(2) by simp
    then show ?thesis
      by (intro ok_res_bind[OF set_value_ok])
        (auto intro!: advance_stepped[OF at] same_control_trans[OF same] facts(1))
  qed
  show ?thesis unfolding exec_alloca_def Let_def using facts(2)
    by (auto simp: control_error_def current_frame_ok intro!: ok_res_bind_any al fin)
qed

lemma switch_target_in: "switch_target v d cs \<in> insert d (snd ` set cs)"
  by (induction v d cs rule: switch_target.induct) auto

section \<open>One instruction\<close>

text \<open>
  The interface between a step and the builtin functions: whatever a builtin does, it raises no
  control error, keeps the invariant and leaves the calling thread where it is.
\<close>

locale builtins =
  fixes builtin :: builtin_call
  assumes builtin_ok: "wf_at t ex \<Longrightarrow> get_thread ex t = Inr th \<Longrightarrow> thread_frames th \<noteq> [] \<Longrightarrow>
    thread_state th \<noteq> PN_THREAD_DEAD \<Longrightarrow>
    ok_res (\<lambda>(v, ex'). builtin_keeps ex t th ex') (builtin k ex t n args)"
begin

lemma call_builtin_ok:
  assumes at: "at_inst ex t th (RCall OPCODE_CALL r c n fl args)"
    and th': "wf_thread (ex_module ex) th'" "thread_frames th' \<noteq> []" "thread_function th' = thread_function th"
      "thread_inst th' = thread_inst th" "thread_state th' = thread_state th"
  shows "ok_res (stepped t ex) (call_builtin builtin ex t th' k r n args)"
proof -
  note facts = at_inst_facts[OF at]
  have nxt: "instr_at (code_of (ex_module ex) (thread_function th)) (thread_inst th + call_size n)"
    using call_next[OF facts(3,6)] by simp
  have get: "get_thread (put_thread ex t th') t = Inr th'"
    using at by (auto simp: at_inst_def get_thread_def put_thread_def nth_res_def split: if_splits)
  have post: "ok_res (\<lambda>(v, ex'). builtin_keeps (put_thread ex t th') t th' ex')
      (builtin k (put_thread ex t th') t n args)"
    using wf_at_put[OF facts(1) th'(1)] get th'(2) facts(7)[folded th'(5)] by (rule builtin_ok)
  have fin: "ok_res (stepped t ex)
      (rbind (get_thread ex' t) (\<lambda>th. rbind (if r \<noteq> PN_INVALID_VALUE_ID
         then pn_thread_set_value ex' th r v else Inr th) (\<lambda>th. Inr (put_thread ex' t
       (if thread_state th = PN_THREAD_RUNNING then advance (call_size n) th else th)))))"
    if keeps: "builtin_keeps (put_thread ex t th') t th' ex'" for ex' v
  proof -
    from keeps obtain th2 where
      th2: "get_thread ex' t = Inr th2" "thread_frames th2 = thread_frames th'"
        "thread_function th2 = thread_function th" "thread_inst th2 = thread_inst th"
      and ex': "wf_at t ex'" "ex_module ex' = ex_module ex"
      using th'(3,4) by (auto simp: builtin_keeps_def)
    have wf2: "wf_thread (ex_module ex) th2"
      using ex' th2(1) by (auto simp: wf_at_def wf_executor_def get_thread_def list_all_iff res_simps)
    have ne2: "thread_frames th2 \<noteq> []" using th2(2) th'(2) by simp
    have "ok_res (same_control th2)
        (if r \<noteq> PN_INVALID_VALUE_ID then pn_thread_set_value ex' th2 r v else Inr th2)"
      using set_value_ok[OF ne2] by simp
    then show ?thesis unfolding th2(1) rbind.simps
      by (rule ok_res_bind)
        (use nxt th2 in \<open>auto intro!: put_stepped ex' advance_wf[OF wf2 ne2] wf2 simp: wf_thread_same\<close>)
  qed
  show ?thesis unfolding call_builtin_def
    by (rule ok_res_bind_any, simp add: control_error_def)
      (rule ok_res_bind[OF post], simp only: split_paired_all prod.case, rule fin)
qed

lemma exec_call_ok:
  assumes at: "at_inst ex t th (RCall OPCODE_CALL r c n fl args)"
  shows "ok_res (stepped t ex) (exec_call builtin ex t th r c n fl args)"
proof -
  note facts = at_inst_facts[OF at]
  obtain fr frs where frs: "thread_frames th = fr # frs" using facts(2) by (cases "thread_frames th") auto
  note locs = wf_thread_locs[OF facts(4) frs]
  define th' where "th' = put_frame th (fr\<lparr>frame_inst := thread_inst th\<rparr>)"
  have c: "call_at (code_of (ex_module ex) (thread_function th)) (thread_inst th)"
    using call_at_here[OF at] by simp
  have calls: "list_all (loc_call_ok (ex_module ex)) (thread_locs th')"
      "list_all (loc_jmpbufs_ok (ex_module ex)) (thread_locs th')"
    using locs c by (simp_all add: th'_def put_frame_def thread_locs_def frs frame_loc_def loc_call_ok_def
        loc_jmpbufs_ok_def)
  have wf': "wf_thread (ex_module ex) th'" "thread_frames th' \<noteq> []" "thread_function th' = thread_function th"
      "thread_inst th' = thread_inst th" "thread_state th' = thread_state th"
    using facts(4) by (simp_all add: th'_def put_frame_def wf_thread_def thread_locs_def frs frame_loc_def
        loc_jmpbufs_ok_def)
  note push = call_push_ok[OF facts(1) calls] and builtin = call_builtin_ok[OF at wf']
  show ?thesis unfolding exec_call_def
    using wf'(2) by (auto simp: current_frame_def frs Let_def th'_def[symmetric] control_error_def
      intro!: ok_res_bind_any push builtin)
qed

lemma execute_ok:
  assumes at: "at_inst ex t th inst" and np: "\<not> is_phi_table inst"
  shows "ok_res (stepped t ex) (execute builtin ex t th inst)"
proof -
  note facts = at_inst_facts[OF at]
  note [intro!] = ok_res_bind_any set_and_advance_ok jump_ok exec_ret_ok
  show ?thesis
  proof (cases inst)
    case (RCall op r c n fl args)
    then show ?thesis using at exec_call_ok exec_intrinsic_ok exec_atomic_ok(3) by (cases op) auto
  next
    case (RStore bt dest a al)
    then show ?thesis using at facts by (auto intro!: advance_stepped[OF at])
  next
    case (RSwitch bt a d cases)
    have "jump_target \<in> rinst_targets inst" if "jump_target = switch_target v d cases" for v jump_target
      using switch_target_in[of v d cases] by (simp add: RSwitch that)
    then show ?thesis using at facts unfolding RSwitch by auto
  qed (use at np facts exec_alloca_ok in \<open>auto simp: control_error_def\<close>)
qed

lemma execute_control:
  assumes "wf_executor ex" "get_thread ex t = Inr th" "thread_state th \<noteq> PN_THREAD_DEAD"
  shows "ok_res (stepped t ex) (pn_thread_execute_instruction builtin ex t)"
proof -
  have wf: "wf_thread (ex_module ex) th"
    using assms(1,2) by (auto simp: wf_executor_def get_thread_def list_all_iff res_simps)
  then have ne: "thread_frames th \<noteq> []"
    and at: "instr_at (code_of (ex_module ex) (thread_function th)) (thread_inst th)"
    using assms(3) by (auto simp: wf_thread_def thread_locs_def split: list.splits)
  from at obtain i where
    i: "map_of (code_of (ex_module ex) (thread_function th)) (thread_inst th) = Some i" "\<not> is_phi_table i"
    by (auto simp: instr_at_def)
  have "t \<notin> set (dead_threads ex)"
    using assms by (auto simp: wf_executor_def wf_dead_def get_thread_def res_simps)
  then have "at_inst ex t th i" using assms ne i(1) by (simp add: at_inst_def wf_at_def)
  from execute_ok[OF this i(2)] show ?thesis
    by (simp add: pn_thread_execute_instruction_def assms(2) fetch_at[OF i(1)])
qed

end

end
