(* ===== verification/Pn_Builtins.thy ===== *)
theory Pn_Builtins
  imports Pn_Filesystem Pn_Control
begin

text \<open>
  The builtin functions a program calls through the tables of \<open>NACL_IRT_QUERY\<close>,
  \<^verbatim>\<open>src/pn_builtins.h\<close> (built without PPAPI): process and time, files, the page allocator of
  \<open>mmap\<close>, threads and futexes. A builtin takes the executor, the number of the calling thread, the
  argument count and the argument ids. \<open>PN_BUILTIN_ARG\<close> is \<open>arg\<close> with the cast to the member's width.
  At the end, the builtins are shown to satisfy the interface \<open>builtins\<close> that a step of the executor
  relies on (\<^verbatim>\<open>Pn_Control\<close>).
\<close>

unbundle bit_operations_syntax

section \<open>The enumeration\<close>

abbreviation (input) PN_BUILTIN_NACL_IRT_BASIC_EXIT :: u32 where "PN_BUILTIN_NACL_IRT_BASIC_EXIT \<equiv> 2"
abbreviation (input) PN_BUILTIN_NACL_IRT_BASIC_GETTOD :: u32 where "PN_BUILTIN_NACL_IRT_BASIC_GETTOD \<equiv> 3"
abbreviation (input) PN_BUILTIN_NACL_IRT_BASIC_CLOCK :: u32 where "PN_BUILTIN_NACL_IRT_BASIC_CLOCK \<equiv> 4"
abbreviation (input) PN_BUILTIN_NACL_IRT_BASIC_NANOSLEEP :: u32 where "PN_BUILTIN_NACL_IRT_BASIC_NANOSLEEP \<equiv> 5"
abbreviation (input) PN_BUILTIN_NACL_IRT_BASIC_SCHED_YIELD :: u32 where "PN_BUILTIN_NACL_IRT_BASIC_SCHED_YIELD \<equiv> 6"
abbreviation (input) PN_BUILTIN_NACL_IRT_BASIC_SYSCONF :: u32 where "PN_BUILTIN_NACL_IRT_BASIC_SYSCONF \<equiv> 7"
abbreviation (input) PN_BUILTIN_NACL_IRT_FDIO_CLOSE :: u32 where "PN_BUILTIN_NACL_IRT_FDIO_CLOSE \<equiv> 8"
abbreviation (input) PN_BUILTIN_NACL_IRT_FDIO_DUP :: u32 where "PN_BUILTIN_NACL_IRT_FDIO_DUP \<equiv> 9"
abbreviation (input) PN_BUILTIN_NACL_IRT_FDIO_DUP2 :: u32 where "PN_BUILTIN_NACL_IRT_FDIO_DUP2 \<equiv> 10"
abbreviation (input) PN_BUILTIN_NACL_IRT_FDIO_READ :: u32 where "PN_BUILTIN_NACL_IRT_FDIO_READ \<equiv> 11"
abbreviation (input) PN_BUILTIN_NACL_IRT_FDIO_WRITE :: u32 where "PN_BUILTIN_NACL_IRT_FDIO_WRITE \<equiv> 12"
abbreviation (input) PN_BUILTIN_NACL_IRT_FDIO_SEEK :: u32 where "PN_BUILTIN_NACL_IRT_FDIO_SEEK \<equiv> 13"
abbreviation (input) PN_BUILTIN_NACL_IRT_FDIO_FSTAT :: u32 where "PN_BUILTIN_NACL_IRT_FDIO_FSTAT \<equiv> 14"
abbreviation (input) PN_BUILTIN_NACL_IRT_FDIO_GETDENTS :: u32 where "PN_BUILTIN_NACL_IRT_FDIO_GETDENTS \<equiv> 15"
abbreviation (input) PN_BUILTIN_NACL_IRT_FDIO_FCHDIR :: u32 where "PN_BUILTIN_NACL_IRT_FDIO_FCHDIR \<equiv> 16"
abbreviation (input) PN_BUILTIN_NACL_IRT_FDIO_FCHMOD :: u32 where "PN_BUILTIN_NACL_IRT_FDIO_FCHMOD \<equiv> 17"
abbreviation (input) PN_BUILTIN_NACL_IRT_FDIO_FSYNC :: u32 where "PN_BUILTIN_NACL_IRT_FDIO_FSYNC \<equiv> 18"
abbreviation (input) PN_BUILTIN_NACL_IRT_FDIO_FDATASYNC :: u32 where "PN_BUILTIN_NACL_IRT_FDIO_FDATASYNC \<equiv> 19"
abbreviation (input) PN_BUILTIN_NACL_IRT_FDIO_FTRUNCATE :: u32 where "PN_BUILTIN_NACL_IRT_FDIO_FTRUNCATE \<equiv> 20"
abbreviation (input) PN_BUILTIN_NACL_IRT_FDIO_ISATTY :: u32 where "PN_BUILTIN_NACL_IRT_FDIO_ISATTY \<equiv> 21"
abbreviation (input) PN_BUILTIN_NACL_IRT_FILENAME_OPEN :: u32 where "PN_BUILTIN_NACL_IRT_FILENAME_OPEN \<equiv> 22"
abbreviation (input) PN_BUILTIN_NACL_IRT_FILENAME_STAT :: u32 where "PN_BUILTIN_NACL_IRT_FILENAME_STAT \<equiv> 23"
abbreviation (input) PN_BUILTIN_NACL_IRT_FILENAME_MKDIR :: u32 where "PN_BUILTIN_NACL_IRT_FILENAME_MKDIR \<equiv> 24"
abbreviation (input) PN_BUILTIN_NACL_IRT_FILENAME_RMDIR :: u32 where "PN_BUILTIN_NACL_IRT_FILENAME_RMDIR \<equiv> 25"
abbreviation (input) PN_BUILTIN_NACL_IRT_FILENAME_CHDIR :: u32 where "PN_BUILTIN_NACL_IRT_FILENAME_CHDIR \<equiv> 26"
abbreviation (input) PN_BUILTIN_NACL_IRT_FILENAME_GETCWD :: u32 where "PN_BUILTIN_NACL_IRT_FILENAME_GETCWD \<equiv> 27"
abbreviation (input) PN_BUILTIN_NACL_IRT_FILENAME_UNLINK :: u32 where "PN_BUILTIN_NACL_IRT_FILENAME_UNLINK \<equiv> 28"
abbreviation (input) PN_BUILTIN_NACL_IRT_FILENAME_TRUNCATE :: u32 where "PN_BUILTIN_NACL_IRT_FILENAME_TRUNCATE \<equiv> 29"
abbreviation (input) PN_BUILTIN_NACL_IRT_FILENAME_LSTAT :: u32 where "PN_BUILTIN_NACL_IRT_FILENAME_LSTAT \<equiv> 30"
abbreviation (input) PN_BUILTIN_NACL_IRT_FILENAME_LINK :: u32 where "PN_BUILTIN_NACL_IRT_FILENAME_LINK \<equiv> 31"
abbreviation (input) PN_BUILTIN_NACL_IRT_FILENAME_RENAME :: u32 where "PN_BUILTIN_NACL_IRT_FILENAME_RENAME \<equiv> 32"
abbreviation (input) PN_BUILTIN_NACL_IRT_FILENAME_SYMLINK :: u32 where "PN_BUILTIN_NACL_IRT_FILENAME_SYMLINK \<equiv> 33"
abbreviation (input) PN_BUILTIN_NACL_IRT_FILENAME_CHMOD :: u32 where "PN_BUILTIN_NACL_IRT_FILENAME_CHMOD \<equiv> 34"
abbreviation (input) PN_BUILTIN_NACL_IRT_FILENAME_ACCESS :: u32 where "PN_BUILTIN_NACL_IRT_FILENAME_ACCESS \<equiv> 35"
abbreviation (input) PN_BUILTIN_NACL_IRT_FILENAME_READLINK :: u32 where "PN_BUILTIN_NACL_IRT_FILENAME_READLINK \<equiv> 36"
abbreviation (input) PN_BUILTIN_NACL_IRT_FILENAME_UTIMES :: u32 where "PN_BUILTIN_NACL_IRT_FILENAME_UTIMES \<equiv> 37"
abbreviation (input) PN_BUILTIN_NACL_IRT_MEMORY_MMAP :: u32 where "PN_BUILTIN_NACL_IRT_MEMORY_MMAP \<equiv> 38"
abbreviation (input) PN_BUILTIN_NACL_IRT_MEMORY_MUNMAP :: u32 where "PN_BUILTIN_NACL_IRT_MEMORY_MUNMAP \<equiv> 39"
abbreviation (input) PN_BUILTIN_NACL_IRT_MEMORY_MPROTECT :: u32 where "PN_BUILTIN_NACL_IRT_MEMORY_MPROTECT \<equiv> 40"
abbreviation (input) PN_BUILTIN_NACL_IRT_TLS_INIT :: u32 where "PN_BUILTIN_NACL_IRT_TLS_INIT \<equiv> 41"
abbreviation (input) PN_BUILTIN_NACL_IRT_TLS_GET :: u32 where "PN_BUILTIN_NACL_IRT_TLS_GET \<equiv> 42"
abbreviation (input) PN_BUILTIN_NACL_IRT_THREAD_CREATE :: u32 where "PN_BUILTIN_NACL_IRT_THREAD_CREATE \<equiv> 43"
abbreviation (input) PN_BUILTIN_NACL_IRT_THREAD_EXIT :: u32 where "PN_BUILTIN_NACL_IRT_THREAD_EXIT \<equiv> 44"
abbreviation (input) PN_BUILTIN_NACL_IRT_THREAD_NICE :: u32 where "PN_BUILTIN_NACL_IRT_THREAD_NICE \<equiv> 45"
abbreviation (input) PN_BUILTIN_NACL_IRT_FUTEX_WAIT_ABS :: u32 where "PN_BUILTIN_NACL_IRT_FUTEX_WAIT_ABS \<equiv> 46"
abbreviation (input) PN_BUILTIN_NACL_IRT_FUTEX_WAKE :: u32 where "PN_BUILTIN_NACL_IRT_FUTEX_WAKE \<equiv> 47"

type_synonym builtin_body = "PNExecutor \<Rightarrow> nat \<Rightarrow> u8 \<Rightarrow> PNValueId list \<Rightarrow> (PNRuntimeValue \<times> PNExecutor) res"

text \<open>\<open>pn_executor_value_u32\<close> of an error number.\<close>

definition value_u32 :: "(u32 \<times> PNExecutor) res \<Rightarrow> (PNRuntimeValue \<times> PNExecutor) res" where
  "value_u32 r = rbind r (\<lambda>(e, ex). Inr (ucast e, ex))"

section \<open>Interface tables\<close>

definition irt_interfaces :: "(string \<times> u32 \<times> u32 list) list" where
  "irt_interfaces =
     [(''nacl-irt-basic-0.1'', 24,
       [PN_BUILTIN_NACL_IRT_BASIC_EXIT, PN_BUILTIN_NACL_IRT_BASIC_GETTOD,
        PN_BUILTIN_NACL_IRT_BASIC_CLOCK, PN_BUILTIN_NACL_IRT_BASIC_NANOSLEEP,
        PN_BUILTIN_NACL_IRT_BASIC_SCHED_YIELD, PN_BUILTIN_NACL_IRT_BASIC_SYSCONF]),
      (''nacl-irt-dev-fdio-0.3'', 56,
       [PN_BUILTIN_NACL_IRT_FDIO_CLOSE, PN_BUILTIN_NACL_IRT_FDIO_DUP,
        PN_BUILTIN_NACL_IRT_FDIO_DUP2, PN_BUILTIN_NACL_IRT_FDIO_READ,
        PN_BUILTIN_NACL_IRT_FDIO_WRITE, PN_BUILTIN_NACL_IRT_FDIO_SEEK,
        PN_BUILTIN_NACL_IRT_FDIO_FSTAT, PN_BUILTIN_NACL_IRT_FDIO_GETDENTS,
        PN_BUILTIN_NACL_IRT_FDIO_FCHDIR, PN_BUILTIN_NACL_IRT_FDIO_FCHMOD,
        PN_BUILTIN_NACL_IRT_FDIO_FSYNC, PN_BUILTIN_NACL_IRT_FDIO_FDATASYNC,
        PN_BUILTIN_NACL_IRT_FDIO_FTRUNCATE, PN_BUILTIN_NACL_IRT_FDIO_ISATTY]),
      (''nacl-irt-fdio-0.1'', 32,
       [PN_BUILTIN_NACL_IRT_FDIO_CLOSE, PN_BUILTIN_NACL_IRT_FDIO_DUP,
        PN_BUILTIN_NACL_IRT_FDIO_DUP2, PN_BUILTIN_NACL_IRT_FDIO_READ,
        PN_BUILTIN_NACL_IRT_FDIO_WRITE, PN_BUILTIN_NACL_IRT_FDIO_SEEK,
        PN_BUILTIN_NACL_IRT_FDIO_FSTAT, PN_BUILTIN_NACL_IRT_FDIO_GETDENTS]),
      (''nacl-irt-dev-filename-0.3'', 64,
       [PN_BUILTIN_NACL_IRT_FILENAME_OPEN, PN_BUILTIN_NACL_IRT_FILENAME_STAT,
        PN_BUILTIN_NACL_IRT_FILENAME_MKDIR, PN_BUILTIN_NACL_IRT_FILENAME_RMDIR,
        PN_BUILTIN_NACL_IRT_FILENAME_CHDIR, PN_BUILTIN_NACL_IRT_FILENAME_GETCWD,
        PN_BUILTIN_NACL_IRT_FILENAME_UNLINK, PN_BUILTIN_NACL_IRT_FILENAME_TRUNCATE,
        PN_BUILTIN_NACL_IRT_FILENAME_LSTAT, PN_BUILTIN_NACL_IRT_FILENAME_LINK,
        PN_BUILTIN_NACL_IRT_FILENAME_RENAME, PN_BUILTIN_NACL_IRT_FILENAME_SYMLINK,
        PN_BUILTIN_NACL_IRT_FILENAME_CHMOD, PN_BUILTIN_NACL_IRT_FILENAME_ACCESS,
        PN_BUILTIN_NACL_IRT_FILENAME_READLINK, PN_BUILTIN_NACL_IRT_FILENAME_UTIMES]),
      (''nacl-irt-memory-0.3'', 12,
       [PN_BUILTIN_NACL_IRT_MEMORY_MMAP, PN_BUILTIN_NACL_IRT_MEMORY_MUNMAP,
        PN_BUILTIN_NACL_IRT_MEMORY_MPROTECT]),
      (''nacl-irt-tls-0.1'', 8,
       [PN_BUILTIN_NACL_IRT_TLS_INIT, PN_BUILTIN_NACL_IRT_TLS_GET]),
      (''nacl-irt-thread-0.1'', 12,
       [PN_BUILTIN_NACL_IRT_THREAD_CREATE, PN_BUILTIN_NACL_IRT_THREAD_EXIT,
        PN_BUILTIN_NACL_IRT_THREAD_NICE]),
      (''nacl-irt-futex-0.1'', 8,
       [PN_BUILTIN_NACL_IRT_FUTEX_WAIT_ABS, PN_BUILTIN_NACL_IRT_FUTEX_WAKE])]"

fun write_builtins :: "PNMemory \<Rightarrow> u32 \<Rightarrow> u32 list \<Rightarrow> PNMemory res" where
  "write_builtins m p [] = Inr m"
| "write_builtins m p (b # bs) =
     rbind (pn_memory_write_u32 m p (pn_builtin_to_pointer b)) (\<lambda>m. write_builtins m (p + 4) bs)"

fun find_interface :: "cstr \<Rightarrow> (string \<times> 'a) list \<Rightarrow> 'a option" where
  "find_interface name [] = None"
| "find_interface name ((s, x) # xs) = (if name = c_string s then Some x else find_interface name xs)"

definition pn_builtin_NACL_IRT_QUERY :: builtin_body where
  "pn_builtin_NACL_IRT_QUERY ex t n args =
     rbind (get_thread ex t) (\<lambda>th.
     rbind (check_num_args n 3) (\<lambda>_.
     rbind (arg ex th args 0) (\<lambda>name_p.
     rbind (arg ex th args 1) (\<lambda>table.
     rbind (arg ex th args 2) (\<lambda>table_size.
     rbind (pn_memory_check (ex_memory ex) (ucast name_p) 1) (\<lambda>_.
     rbind (read_cstr (ex_memory ex) (ucast name_p)) (\<lambda>iface_name.
     rbind (ensure (length iface_name > 0) (Check ''name_len > 0'')) (\<lambda>_.
     case find_interface iface_name irt_interfaces of
       None \<Rightarrow> Inr (0, ex)
     | Some (sz, ids) \<Rightarrow>
         rbind (ensure (ucast table_size = sz) (Check ''table_size'')) (\<lambda>_.
         rbind (write_builtins (ex_memory ex) (ucast table) ids) (\<lambda>m.
         Inr (ucast sz, ex\<lparr>ex_memory := m\<rparr>)))))))))))"

section \<open>Process and time\<close>

definition pn_builtin_NACL_IRT_BASIC_EXIT :: builtin_body where
  "pn_builtin_NACL_IRT_BASIC_EXIT ex t n args =
     rbind (get_thread ex t) (\<lambda>th.
     rbind (check_num_args n 1) (\<lambda>_.
     rbind (arg ex th args 0) (\<lambda>code.
     Inr (0, put_thread (ex\<lparr>exit_code := ucast code, exiting := True\<rparr>) t
               (th\<lparr>thread_state := PN_THREAD_DEAD\<rparr>)))))"

definition pn_builtin_NACL_IRT_BASIC_GETTOD :: "host \<Rightarrow> builtin_body" where
  "pn_builtin_NACL_IRT_BASIC_GETTOD h ex t n args =
     rbind (get_thread ex t) (\<lambda>th.
     rbind (check_num_args n 1) (\<lambda>_.
     rbind (arg ex th args 0) (\<lambda>tv_p.
     let (tv_sec, tv_usec) = gettimeofday h (host_calls ex); ex = log_call Host_gettimeofday ex in
     rbind (pn_memory_write_u64 (ex_memory ex) (ucast tv_p) tv_sec) (\<lambda>m.
     rbind (pn_memory_write_u32 m (ucast tv_p + 8) tv_usec) (\<lambda>m.
     Inr (0, ex\<lparr>ex_memory := m\<rparr>))))))"

definition pn_builtin_NACL_IRT_BASIC_SYSCONF :: builtin_body where
  "pn_builtin_NACL_IRT_BASIC_SYSCONF ex t n args =
     rbind (get_thread ex t) (\<lambda>th.
     rbind (check_num_args n 2) (\<lambda>_.
     rbind (arg ex th args 0) (\<lambda>name.
     rbind (arg ex th args 1) (\<lambda>value_p.
     if (ucast name :: u32) = 2
     then value_u32 (write_result ex (ucast value_p) PN_PAGESIZE)
     else Inr (ucast PN_EINVAL, ex)))))"

section \<open>Files\<close>

definition pn_builtin_NACL_IRT_FDIO_CLOSE ::
    "bool \<Rightarrow> host \<Rightarrow> builtin_body" where
  "pn_builtin_NACL_IRT_FDIO_CLOSE access h ex t n args =
     rbind (get_thread ex t) (\<lambda>th.
     rbind (check_num_args n 1) (\<lambda>_.
     rbind (arg ex th args 0) (\<lambda>fd.
     value_u32 (pn_filesystem_fdio_close access h ex (ucast fd)))))"

definition pn_builtin_NACL_IRT_FDIO_READ ::
    "bool \<Rightarrow> host \<Rightarrow> builtin_body" where
  "pn_builtin_NACL_IRT_FDIO_READ access h ex t n args =
     rbind (get_thread ex t) (\<lambda>th.
     rbind (check_num_args n 4) (\<lambda>_.
     rbind (arg ex th args 0) (\<lambda>fd.
     rbind (arg ex th args 1) (\<lambda>buf_p.
     rbind (arg ex th args 2) (\<lambda>count.
     rbind (arg ex th args 3) (\<lambda>nread_p.
     value_u32 (pn_filesystem_fdio_read access h ex (ucast fd) (ucast buf_p) (ucast count) (ucast nread_p))))))))"

definition pn_builtin_NACL_IRT_FDIO_SEEK ::
    "bool \<Rightarrow> host \<Rightarrow> builtin_body" where
  "pn_builtin_NACL_IRT_FDIO_SEEK access h ex t n args =
     rbind (get_thread ex t) (\<lambda>th.
     rbind (check_num_args n 4) (\<lambda>_.
     rbind (arg ex th args 0) (\<lambda>fd.
     rbind (arg ex th args 1) (\<lambda>offset.
     rbind (arg ex th args 2) (\<lambda>whence.
     rbind (arg ex th args 3) (\<lambda>new_offset_p.
     value_u32 (pn_filesystem_fdio_seek access h ex (ucast fd) (ucast offset) (ucast whence) (ucast new_offset_p))))))))"

definition pn_builtin_NACL_IRT_FDIO_WRITE ::
    "bool \<Rightarrow> host \<Rightarrow> builtin_body" where
  "pn_builtin_NACL_IRT_FDIO_WRITE access h ex t n args =
     rbind (get_thread ex t) (\<lambda>th.
     rbind (check_num_args n 4) (\<lambda>_.
     rbind (arg ex th args 0) (\<lambda>fd.
     rbind (arg ex th args 1) (\<lambda>buf_p.
     rbind (arg ex th args 2) (\<lambda>count.
     rbind (arg ex th args 3) (\<lambda>nwrote_p.
     value_u32 (pn_filesystem_fdio_write access h ex (ucast fd) (ucast buf_p) (ucast count) (ucast nwrote_p))))))))"

definition pn_builtin_NACL_IRT_FDIO_FSTAT ::
    "host \<Rightarrow> builtin_body" where
  "pn_builtin_NACL_IRT_FDIO_FSTAT h ex t n args =
     rbind (get_thread ex t) (\<lambda>th.
     rbind (check_num_args n 2) (\<lambda>_.
     rbind (arg ex th args 0) (\<lambda>fd.
     rbind (arg ex th args 1) (\<lambda>stat_p.
     value_u32 (pn_filesystem_fdio_fstat h ex (ucast fd) (ucast stat_p))))))"

definition pn_builtin_NACL_IRT_FDIO_ISATTY ::
    "host \<Rightarrow> builtin_body" where
  "pn_builtin_NACL_IRT_FDIO_ISATTY h ex t n args =
     rbind (get_thread ex t) (\<lambda>th.
     rbind (check_num_args n 2) (\<lambda>_.
     rbind (arg ex th args 0) (\<lambda>fd.
     rbind (arg ex th args 1) (\<lambda>result_p.
     value_u32 (pn_filesystem_fdio_isatty h ex (ucast fd) (ucast result_p))))))"

definition pn_builtin_NACL_IRT_FILENAME_GETCWD ::
    "bool \<Rightarrow> host \<Rightarrow> builtin_body" where
  "pn_builtin_NACL_IRT_FILENAME_GETCWD access h ex t n args =
     rbind (get_thread ex t) (\<lambda>th.
     rbind (check_num_args n 2) (\<lambda>_.
     rbind (arg ex th args 0) (\<lambda>pathname_p.
     rbind (arg ex th args 1) (\<lambda>len.
     value_u32 (pn_filesystem_filename_getcwd access h ex (ucast pathname_p) (ucast len))))))"

definition pn_builtin_NACL_IRT_FILENAME_OPEN ::
    "bool \<Rightarrow> host \<Rightarrow> builtin_body" where
  "pn_builtin_NACL_IRT_FILENAME_OPEN access h ex t n args =
     rbind (get_thread ex t) (\<lambda>th.
     rbind (check_num_args n 4) (\<lambda>_.
     rbind (arg ex th args 0) (\<lambda>pathname_p.
     rbind (arg ex th args 1) (\<lambda>oflag.
     rbind (arg ex th args 2) (\<lambda>cmode.
     rbind (arg ex th args 3) (\<lambda>newfd_p.
     value_u32 (pn_filesystem_filename_open access h ex (ucast pathname_p) (ucast oflag) (ucast cmode) (ucast newfd_p))))))))"

definition pn_builtin_NACL_IRT_FILENAME_ACCESS ::
    "bool \<Rightarrow> host \<Rightarrow> builtin_body" where
  "pn_builtin_NACL_IRT_FILENAME_ACCESS access h ex t n args =
     rbind (get_thread ex t) (\<lambda>th.
     rbind (check_num_args n 2) (\<lambda>_.
     rbind (arg ex th args 0) (\<lambda>pathname_p.
     rbind (arg ex th args 1) (\<lambda>amode.
     value_u32 (pn_filesystem_filename_access access h ex (ucast pathname_p) (ucast amode))))))"

definition pn_builtin_NACL_IRT_FILENAME_READLINK ::
    "bool \<Rightarrow> host \<Rightarrow> builtin_body" where
  "pn_builtin_NACL_IRT_FILENAME_READLINK access h ex t n args =
     rbind (get_thread ex t) (\<lambda>th.
     rbind (check_num_args n 4) (\<lambda>_.
     rbind (arg ex th args 0) (\<lambda>path_p.
     rbind (arg ex th args 1) (\<lambda>buf_p.
     rbind (arg ex th args 2) (\<lambda>count.
     rbind (arg ex th args 3) (\<lambda>nread_p.
     value_u32 (pn_filesystem_filename_readlink access h ex (ucast path_p) (ucast buf_p) (ucast count) (ucast nread_p))))))))"

definition pn_builtin_NACL_IRT_FILENAME_STAT ::
    "host \<Rightarrow> builtin_body" where
  "pn_builtin_NACL_IRT_FILENAME_STAT h ex t n args =
     rbind (get_thread ex t) (\<lambda>th.
     rbind (check_num_args n 2) (\<lambda>_.
     rbind (arg ex th args 0) (\<lambda>pathname_p.
     rbind (arg ex th args 1) (\<lambda>stat_p.
     value_u32 (pn_filesystem_filename_stat h ex (ucast pathname_p) (ucast stat_p))))))"

section \<open>Pages\<close>

text \<open>
  The search of \<open>mmap\<close> through the pages of the heap for \<open>pages\<close> consecutive unmapped ones: the
  first of them, if there are so many. The counters are below the number of pages, 2^20, so that they
  never wrap.
\<close>

fun find_pages :: "PNBitSet \<Rightarrow> nat \<Rightarrow> nat list \<Rightarrow> nat \<Rightarrow> nat \<Rightarrow> nat option res" where
  "find_pages mapped pages [] consecutive page_start = Inr None"
| "find_pages mapped pages (i # is) consecutive page_start =
     rbind (pn_bitset_is_set mapped (of_nat i)) (\<lambda>is_set.
     if \<not> is_set then
       let page_start = (if consecutive = 0 then i else page_start) in
       if Suc consecutive = pages then Inr (Some page_start)
       else find_pages mapped pages is (Suc consecutive) page_start
     else find_pages mapped pages is 0 page_start)"

fun set_pages :: "PNBitSet \<Rightarrow> nat list \<Rightarrow> bool \<Rightarrow> PNBitSet res" where
  "set_pages mapped [] b = Inr mapped"
| "set_pages mapped (i # is) b =
     rbind (pn_bitset_set mapped (of_nat i) b) (\<lambda>mapped. set_pages mapped is b)"

text \<open>Move the end of the heap: the new block and the new executor.\<close>

definition grow_heap :: "PNExecutor \<Rightarrow> u32 \<Rightarrow> (u32 \<times> PNExecutor) res" where
  "grow_heap ex len =
     (let result = heap_end ex in
      rbind (pn_is_aligned (ucast result) PN_PAGESIZE) (\<lambda>aligned.
      rbind (ensure aligned (Assertion ''result'')) (\<lambda>_.
      rbind (pn_memory_check (ex_memory ex) result len) (\<lambda>_.
      rbind (get_thread ex (main_thread ex)) (\<lambda>main.
      rbind (ensure (\<not> heap_end ex + len > stack_top ex main) (Fatal ''Out of heap'')) (\<lambda>_.
      Inr (result, ex\<lparr>heap_end := heap_end ex + len\<rparr>)))))))"

definition mmap_pages :: "PNExecutor \<Rightarrow> u32 \<Rightarrow> (u32 \<times> PNExecutor) res" where
  "mmap_pages ex len =
     rbind (pn_is_aligned (ucast (heap_end ex)) PN_PAGESIZE) (\<lambda>aligned.
     rbind (ensure aligned (Assertion ''executor->heap_end'')) (\<lambda>_.
     rbind (pn_align_up (ucast len) PN_PAGESIZE) (\<lambda>aligned_len.
     let len = ucast aligned_len; pages = unat (drop_bit 12 len);
         first_page = unat (drop_bit 12 (heap_start (ex_memory ex)));
         last_page = unat (drop_bit 12 (heap_end ex)) in
     rbind (find_pages (mapped_pages ex) pages [first_page..<last_page] 0 0) (\<lambda>found.
     rbind (case found of Some page_start \<Rightarrow> Inr (push_bit 12 (of_nat page_start), ex)
            | None \<Rightarrow> grow_heap ex len) (\<lambda>(result, ex).
     let first = unat (drop_bit 12 result) in
     rbind (set_pages (mapped_pages ex) [first..<first + pages] True) (\<lambda>mapped.
     Inr (result, ex\<lparr>mapped_pages := mapped\<rparr>)))))))"

definition pn_builtin_NACL_IRT_MEMORY_MMAP :: builtin_body where
  "pn_builtin_NACL_IRT_MEMORY_MMAP ex t n args =
     rbind (get_thread ex t) (\<lambda>th.
     rbind (check_num_args n 6) (\<lambda>_.
     rbind (arg ex th args 0) (\<lambda>addr_pp.
     rbind (arg ex th args 1) (\<lambda>len.
     rbind (arg ex th args 2) (\<lambda>prot.
     rbind (arg ex th args 3) (\<lambda>flags.
     rbind (arg ex th args 4) (\<lambda>fd.
     rbind (arg ex th args 5) (\<lambda>off.
     if flags AND 0x20 \<noteq> 0x20 then Inr (ucast PN_EINVAL, ex)
     else rbind (mmap_pages ex (ucast len)) (\<lambda>(result, ex).
       value_u32 (write_result ex (ucast addr_pp) result))))))))))"

definition munmap_pages :: "PNExecutor \<Rightarrow> u32 \<Rightarrow> u32 \<Rightarrow> PNExecutor res" where
  "munmap_pages ex old_addr_p len =
     rbind (pn_align_down (ucast old_addr_p) PN_PAGESIZE) (\<lambda>addr.
     rbind (pn_align_up (ucast (old_addr_p + len)) PN_PAGESIZE) (\<lambda>upper.
     let addr_p = ucast addr :: u32; len = ucast upper - addr_p; pages = drop_bit 12 len;
         first_page = drop_bit 12 (heap_start (ex_memory ex)); last_page = drop_bit 12 (heap_end ex);
         begin_page = drop_bit 12 addr_p; end_page = begin_page + pages;
         begin_page = (if begin_page < first_page then first_page else begin_page);
         end_page = (if end_page > last_page then last_page else end_page) in
     rbind (set_pages (mapped_pages ex) [unat begin_page..<unat end_page] False) (\<lambda>mapped.
     Inr (ex\<lparr>mapped_pages := mapped\<rparr>))))"

definition pn_builtin_NACL_IRT_MEMORY_MUNMAP :: builtin_body where
  "pn_builtin_NACL_IRT_MEMORY_MUNMAP ex t n args =
     rbind (get_thread ex t) (\<lambda>th.
     rbind (check_num_args n 2) (\<lambda>_.
     rbind (arg ex th args 0) (\<lambda>addr_p.
     rbind (arg ex th args 1) (\<lambda>len.
     rbind (munmap_pages ex (ucast addr_p) (ucast len)) (\<lambda>ex. Inr (0, ex))))))"

section \<open>Threads\<close>

definition pn_builtin_NACL_IRT_TLS_INIT :: builtin_body where
  "pn_builtin_NACL_IRT_TLS_INIT ex t n args =
     rbind (get_thread ex t) (\<lambda>th.
     rbind (check_num_args n 1) (\<lambda>_.
     rbind (arg ex th args 0) (\<lambda>thread_ptr_p.
     rbind (pn_memory_check (ex_memory ex) (ucast thread_ptr_p) 1) (\<lambda>_.
     Inr (0, put_thread ex t (th\<lparr>thread_tls := ucast thread_ptr_p\<rparr>))))))"

text \<open>Set the timeout of a thread that waits, from the \<open>timespec\<close> at \<open>abstime_p\<close>.\<close>

definition set_timeout :: "PNMemory \<Rightarrow> u32 \<Rightarrow> PNThread \<Rightarrow> PNThread res" where
  "set_timeout m abstime_p th =
     (if abstime_p \<noteq> 0
      then rbind (pn_memory_read_u64 m abstime_p) (\<lambda>sec.
        rbind (pn_memory_read_u32 m (abstime_p + 8)) (\<lambda>nsec.
        Inr (th\<lparr>has_timeout := True, timeout_sec := sec, timeout_usec := nsec div 1000\<rparr>)))
      else Inr (th\<lparr>has_timeout := False, timeout_sec := 0, timeout_usec := 0\<rparr>))"

definition futex_wait_abs :: "PNExecutor \<Rightarrow> nat \<Rightarrow> PNThread \<Rightarrow> u32 \<Rightarrow> u32 \<Rightarrow> u32 \<Rightarrow> (u32 \<times> PNExecutor) res" where
  "futex_wait_abs ex t th addr_p val abstime_p =
     (case futex_state th of
        PN_FUTEX_NONE \<Rightarrow>
          rbind (pn_memory_read_u32 (ex_memory ex) addr_p) (\<lambda>read.
          if read \<noteq> val then Inr (PN_EAGAIN, ex)
          else rbind (set_timeout (ex_memory ex) abstime_p (th\<lparr>wait_addr := addr_p\<rparr>)) (\<lambda>th.
            Inr (0, put_thread ex t (th\<lparr>thread_state := PN_THREAD_BLOCKED\<rparr>))))
      | PN_FUTEX_TIMEDOUT \<Rightarrow> Inr (PN_ETIMEDOUT, put_thread ex t (th\<lparr>futex_state := PN_FUTEX_NONE\<rparr>))
      | PN_FUTEX_WOKEN \<Rightarrow> Inr (0, put_thread ex t (th\<lparr>futex_state := PN_FUTEX_NONE\<rparr>)))"

definition pn_builtin_NACL_IRT_FUTEX_WAIT_ABS :: builtin_body where
  "pn_builtin_NACL_IRT_FUTEX_WAIT_ABS ex t n args =
     rbind (get_thread ex t) (\<lambda>th.
     rbind (check_num_args n 3) (\<lambda>_.
     rbind (arg ex th args 0) (\<lambda>addr_p.
     rbind (arg ex th args 1) (\<lambda>val.
     rbind (arg ex th args 2) (\<lambda>abstime_p.
     value_u32 (futex_wait_abs ex t th (ucast addr_p) (ucast val) (ucast abstime_p)))))))"

text \<open>
  The walk of \<open>futex_wake\<close> round the ring from thread \<open>i\<close> until it is back at \<open>t\<close> or \<open>nwake\<close> threads
  are woken. With as much fuel as there are threads, running out means that the walk has come back to
  a thread without passing \<open>t\<close> (and then it would go on for ever).
\<close>

fun wake_ring :: "nat \<Rightarrow> u32 \<Rightarrow> u32 \<Rightarrow> nat \<Rightarrow> nat \<Rightarrow> u32 \<Rightarrow> PNExecutor \<Rightarrow> (u32 \<times> PNExecutor) res" where
  "wake_ring fuel addr_p nwake t i woken ex =
     (if i = t \<or> \<not> woken < nwake then Inr (woken, ex)
      else case fuel of 0 \<Rightarrow> Inl Diverges
      | Suc fuel \<Rightarrow>
          rbind (get_thread ex i) (\<lambda>th.
          if thread_state th = PN_THREAD_BLOCKED \<and> wait_addr th = addr_p
          then wake_ring fuel addr_p nwake t (thread_next th) (woken + 1)
                 (put_thread ex i (th\<lparr>thread_state := PN_THREAD_RUNNING, futex_state := PN_FUTEX_WOKEN\<rparr>))
          else wake_ring fuel addr_p nwake t (thread_next th) woken ex))"

declare wake_ring.simps [simp del]

definition pn_builtin_NACL_IRT_FUTEX_WAKE :: builtin_body where
  "pn_builtin_NACL_IRT_FUTEX_WAKE ex t n args =
     rbind (get_thread ex t) (\<lambda>th.
     rbind (check_num_args n 3) (\<lambda>_.
     rbind (arg ex th args 0) (\<lambda>addr_p.
     rbind (arg ex th args 1) (\<lambda>nwake.
     rbind (arg ex th args 2) (\<lambda>count_p.
     rbind (wake_ring (length (threads ex)) (ucast addr_p) (ucast nwake) t (thread_next th) 0 ex)
       (\<lambda>(woken, ex).
     value_u32 (write_result ex (ucast count_p) woken)))))))"

text \<open>The memory of a thread structure: from the dead threads if there is one, else a new one.\<close>

definition alloc_thread :: "PNExecutor \<Rightarrow> (nat \<times> PNThread \<times> PNExecutor) res" where
  "alloc_thread ex =
     (case dead_threads ex of
        d # ds \<Rightarrow> rbind (get_thread ex d) (\<lambda>th. Inr (d, th, ex\<lparr>dead_threads := ds\<rparr>))
      | [] \<Rightarrow> Inr (length (threads ex), start_thread, ex\<lparr>threads := threads ex @ [start_thread]\<rparr>))"

text \<open>The links of a new thread behind \<open>t\<close>, in the order of the assignments.\<close>

definition link_thread :: "PNExecutor \<Rightarrow> nat \<Rightarrow> nat \<Rightarrow> PNExecutor res" where
  "link_thread ex t new =
     rbind (get_thread ex t) (\<lambda>th.
     rbind (get_thread ex new) (\<lambda>nth.
     let ex = put_thread ex new (nth\<lparr>thread_next := thread_next th, thread_prev := t\<rparr>) in
     rbind (get_thread ex (thread_next th)) (\<lambda>next.
     let ex = put_thread ex (thread_next th) (next\<lparr>thread_prev := new\<rparr>) in
     rbind (get_thread ex t) (\<lambda>th.
     Inr (put_thread ex t (th\<lparr>thread_next := new\<rparr>))))))"

text \<open>The first frame of the new thread, on the given stack.\<close>

definition enter_thread :: "PNExecutor \<Rightarrow> nat \<Rightarrow> u32 \<Rightarrow> u32 \<Rightarrow> PNExecutor res" where
  "enter_thread ex new start_func_p stack_p =
     (let new_function_id = pn_function_pointer_to_index start_func_p in
      rbind (ensure (new_function_id \<ge> PN_MAX_BUILTINS) (Check ''new_function_id >= PN_MAX_BUILTINS'')) (\<lambda>_.
      let new_function_id = unat (new_function_id - PN_MAX_BUILTINS) in
      rbind (pn_function_id_check (ex_module ex) new_function_id) (\<lambda>_.
      rbind (nth_res (module_functions (ex_module ex)) new_function_id) (\<lambda>new_function.
      rbind (get_thread ex new) (\<lambda>nth.
      rbind (pn_thread_push_function ex nth new_function_id new_function) (\<lambda>nth.
      rbind (current_frame nth) (\<lambda>fr.
      Inr (put_thread ex new (put_frame nth (fr\<lparr>memory_stack_top := stack_p\<rparr>))))))))))"

definition create_thread :: "PNExecutor \<Rightarrow> nat \<Rightarrow> u32 \<Rightarrow> u32 \<Rightarrow> u32 \<Rightarrow> PNExecutor res" where
  "create_thread ex t start_func_p stack_p thread_p =
     rbind (alloc_thread ex) (\<lambda>(new, nth, ex).
     let nth = nth\<lparr>thread_frames := [], thread_tls := thread_p, thread_id := next_thread_id ex,
                   thread_state := PN_THREAD_RUNNING, futex_state := PN_FUTEX_NONE\<rparr>;
         ex = put_thread (ex\<lparr>next_thread_id := next_thread_id ex + 1\<rparr>) new nth in
     rbind (link_thread ex t new) (\<lambda>ex. enter_thread ex new start_func_p stack_p))"

definition pn_builtin_NACL_IRT_THREAD_CREATE :: builtin_body where
  "pn_builtin_NACL_IRT_THREAD_CREATE ex t n args =
     rbind (get_thread ex t) (\<lambda>th.
     rbind (check_num_args n 3) (\<lambda>_.
     rbind (arg ex th args 0) (\<lambda>start_func_p.
     rbind (arg ex th args 1) (\<lambda>stack_p.
     rbind (arg ex th args 2) (\<lambda>thread_p.
     rbind (create_thread ex t (ucast start_func_p) (ucast stack_p) (ucast thread_p)) (\<lambda>ex.
     Inr (0, ex)))))))"

definition pn_builtin_NACL_IRT_THREAD_EXIT :: builtin_body where
  "pn_builtin_NACL_IRT_THREAD_EXIT ex t n args =
     rbind (get_thread ex t) (\<lambda>th.
     rbind (check_num_args n 1) (\<lambda>_.
     rbind (arg ex th args 0) (\<lambda>stack_flag_p.
     rbind (ensure (t \<noteq> main_thread ex) (Check ''thread != executor->main_thread'')) (\<lambda>_.
     let ex = put_thread ex t (th\<lparr>thread_state := PN_THREAD_DEAD\<rparr>) in
     if (ucast stack_flag_p :: u32) \<noteq> 0
     then value_u32 (write_result ex (ucast stack_flag_p) 0)
     else Inr (0, ex)))))"

section \<open>Dispatch\<close>

text \<open>The builtins that are not implemented, \<open>PN_BUILTIN_STUB\<close>, return \<open>ENOSYS\<close>.\<close>

definition stub_builtins :: "u32 list" where
  "stub_builtins =
     [PN_BUILTIN_NACL_IRT_BASIC_CLOCK, PN_BUILTIN_NACL_IRT_BASIC_NANOSLEEP,
      PN_BUILTIN_NACL_IRT_BASIC_SCHED_YIELD, PN_BUILTIN_NACL_IRT_FDIO_DUP,
      PN_BUILTIN_NACL_IRT_FDIO_DUP2, PN_BUILTIN_NACL_IRT_FDIO_GETDENTS,
      PN_BUILTIN_NACL_IRT_FDIO_FCHDIR, PN_BUILTIN_NACL_IRT_FDIO_FCHMOD,
      PN_BUILTIN_NACL_IRT_FDIO_FSYNC, PN_BUILTIN_NACL_IRT_FDIO_FDATASYNC,
      PN_BUILTIN_NACL_IRT_FDIO_FTRUNCATE, PN_BUILTIN_NACL_IRT_FILENAME_MKDIR,
      PN_BUILTIN_NACL_IRT_FILENAME_RMDIR, PN_BUILTIN_NACL_IRT_FILENAME_CHDIR,
      PN_BUILTIN_NACL_IRT_FILENAME_UNLINK, PN_BUILTIN_NACL_IRT_FILENAME_TRUNCATE,
      PN_BUILTIN_NACL_IRT_FILENAME_LSTAT, PN_BUILTIN_NACL_IRT_FILENAME_LINK,
      PN_BUILTIN_NACL_IRT_FILENAME_RENAME, PN_BUILTIN_NACL_IRT_FILENAME_SYMLINK,
      PN_BUILTIN_NACL_IRT_FILENAME_CHMOD, PN_BUILTIN_NACL_IRT_FILENAME_UTIMES,
      PN_BUILTIN_NACL_IRT_MEMORY_MPROTECT, PN_BUILTIN_NACL_IRT_TLS_GET,
      PN_BUILTIN_NACL_IRT_THREAD_NICE]"

definition pn_builtin :: "bool \<Rightarrow> host \<Rightarrow> builtin_call" where
  "pn_builtin access h k ex t n args =
     (if k = PN_BUILTIN_NACL_IRT_QUERY then pn_builtin_NACL_IRT_QUERY ex t n args
       else if k = PN_BUILTIN_NACL_IRT_BASIC_EXIT then pn_builtin_NACL_IRT_BASIC_EXIT ex t n args
       else if k = PN_BUILTIN_NACL_IRT_BASIC_GETTOD then pn_builtin_NACL_IRT_BASIC_GETTOD h ex t n args
       else if k = PN_BUILTIN_NACL_IRT_BASIC_SYSCONF then pn_builtin_NACL_IRT_BASIC_SYSCONF ex t n args
       else if k = PN_BUILTIN_NACL_IRT_FDIO_CLOSE then pn_builtin_NACL_IRT_FDIO_CLOSE access h ex t n args
       else if k = PN_BUILTIN_NACL_IRT_FDIO_READ then pn_builtin_NACL_IRT_FDIO_READ access h ex t n args
       else if k = PN_BUILTIN_NACL_IRT_FDIO_WRITE then pn_builtin_NACL_IRT_FDIO_WRITE access h ex t n args
       else if k = PN_BUILTIN_NACL_IRT_FDIO_SEEK then pn_builtin_NACL_IRT_FDIO_SEEK access h ex t n args
       else if k = PN_BUILTIN_NACL_IRT_FDIO_FSTAT then pn_builtin_NACL_IRT_FDIO_FSTAT h ex t n args
       else if k = PN_BUILTIN_NACL_IRT_FDIO_ISATTY then pn_builtin_NACL_IRT_FDIO_ISATTY h ex t n args
       else if k = PN_BUILTIN_NACL_IRT_FILENAME_OPEN then pn_builtin_NACL_IRT_FILENAME_OPEN access h ex t n args
       else if k = PN_BUILTIN_NACL_IRT_FILENAME_STAT then pn_builtin_NACL_IRT_FILENAME_STAT h ex t n args
       else if k = PN_BUILTIN_NACL_IRT_FILENAME_GETCWD then pn_builtin_NACL_IRT_FILENAME_GETCWD access h ex t n args
       else if k = PN_BUILTIN_NACL_IRT_FILENAME_ACCESS then pn_builtin_NACL_IRT_FILENAME_ACCESS access h ex t n args
       else if k = PN_BUILTIN_NACL_IRT_FILENAME_READLINK then pn_builtin_NACL_IRT_FILENAME_READLINK access h ex t n args
       else if k = PN_BUILTIN_NACL_IRT_MEMORY_MMAP then pn_builtin_NACL_IRT_MEMORY_MMAP ex t n args
       else if k = PN_BUILTIN_NACL_IRT_MEMORY_MUNMAP then pn_builtin_NACL_IRT_MEMORY_MUNMAP ex t n args
       else if k = PN_BUILTIN_NACL_IRT_TLS_INIT then pn_builtin_NACL_IRT_TLS_INIT ex t n args
       else if k = PN_BUILTIN_NACL_IRT_THREAD_CREATE then pn_builtin_NACL_IRT_THREAD_CREATE ex t n args
       else if k = PN_BUILTIN_NACL_IRT_THREAD_EXIT then pn_builtin_NACL_IRT_THREAD_EXIT ex t n args
       else if k = PN_BUILTIN_NACL_IRT_FUTEX_WAIT_ABS then pn_builtin_NACL_IRT_FUTEX_WAIT_ABS ex t n args
       else if k = PN_BUILTIN_NACL_IRT_FUTEX_WAKE then pn_builtin_NACL_IRT_FUTEX_WAKE ex t n args
      else if k \<in> set stub_builtins then Inr (ucast PN_ENOSYS, ex)
      else Inl (Fatal ''Unknown builtin''))"

section \<open>The builtins keep control\<close>

text \<open>
  The laws of the locale \<open>builtins\<close>. Most builtins leave the threads alone (\<open>same_threads\<close>); the others
  change states, links and waiting data, never a location (\<open>same_locs\<close>).
\<close>

definition same_threads :: "PNExecutor \<Rightarrow> PNExecutor \<Rightarrow> bool" where
  "same_threads ex ex' \<longleftrightarrow> threads ex' = threads ex \<and> ex_module ex' = ex_module ex \<and>
     dead_threads ex' = dead_threads ex"

lemma same_threads_simps [simp]:
  "same_threads ex ex" "same_threads ex (log_call c ex') \<longleftrightarrow> same_threads ex ex'"
  "same_threads ex (ex'\<lparr>ex_memory := m\<rparr>) \<longleftrightarrow> same_threads ex ex'"
  "same_threads ex (ex'\<lparr>fd_map := fds\<rparr>) \<longleftrightarrow> same_threads ex ex'"
  "same_threads ex (ex'\<lparr>heap_end := he\<rparr>) \<longleftrightarrow> same_threads ex ex'"
  "same_threads ex (ex'\<lparr>mapped_pages := ps\<rparr>) \<longleftrightarrow> same_threads ex ex'"
  by (simp_all add: same_threads_def log_call_def)

text \<open>A thread that is where it was, and dead if it was.\<close>

definition relocated :: "PNThread \<Rightarrow> PNThread \<Rightarrow> bool" where
  "relocated th th' \<longleftrightarrow> thread_frames th' = thread_frames th \<and> thread_function th' = thread_function th \<and>
     thread_inst th' = thread_inst th \<and> (thread_state th = PN_THREAD_DEAD \<longrightarrow> thread_state th' = PN_THREAD_DEAD)"

lemma relocated_refl [simp]: "relocated th th"
  by (simp add: relocated_def)

lemma relocated_wf: "relocated th th' \<Longrightarrow> wf_thread m th \<Longrightarrow> wf_thread m th'"
  by (auto simp: relocated_def wf_thread_def thread_locs_def split: list.splits)

definition same_locs :: "PNExecutor \<Rightarrow> PNExecutor \<Rightarrow> bool" where
  "same_locs ex ex' \<longleftrightarrow> ex_module ex' = ex_module ex \<and> dead_threads ex' = dead_threads ex \<and>
     list_all2 relocated (threads ex) (threads ex')"

lemma same_locs_get:
  "same_locs ex ex' \<Longrightarrow> get_thread ex t = Inr th \<Longrightarrow> \<exists>th'. get_thread ex' t = Inr th' \<and> relocated th th'"
  by (auto simp: same_locs_def get_thread_def res_simps list_all2_conv_all_nth)

lemma same_locs_wf:
  assumes "same_locs ex ex'" "wf_at t ex"
  shows "wf_at t ex'"
proof -
  have "wf_thread (ex_module ex) (threads ex' ! i)" if "i < length (threads ex')" for i
    using that assms relocated_wf[of "threads ex ! i" "threads ex' ! i"]
    by (auto simp: same_locs_def wf_at_def wf_executor_def list_all2_conv_all_nth list_all_length)
  moreover have "wf_dead ex'"
    using assms by (auto simp: same_locs_def wf_at_def wf_executor_def wf_dead_def list_all2_conv_all_nth
        relocated_def)
  ultimately show ?thesis using assms by (simp add: same_locs_def wf_at_def wf_executor_def list_all_length)
qed

lemma same_locs_kept:
  assumes "same_locs ex ex'"
  shows "threads_kept ex ex'"
  unfolding threads_kept_def
proof (intro allI impI conjI)
  fix u th assume u: "get_thread ex u = Inr th" "u \<notin> set (dead_threads ex)"
  then show "u \<notin> set (dead_threads ex')" using assms by (simp add: same_locs_def)
  show "\<exists>th'. get_thread ex' u = Inr th' \<and> thread_frames th' = thread_frames th \<and>
      thread_function th' = thread_function th \<and> thread_inst th' = thread_inst th"
    using same_locs_get[OF assms u(1)] by (auto simp: relocated_def)
qed

lemma same_locs_keeps:
  assumes "same_locs ex ex'" "wf_at t ex" "get_thread ex t = Inr th"
  shows "builtin_keeps ex t th ex'"
  using same_locs_get[OF assms(1,3)] same_locs_wf[OF assms(1,2)] same_locs_kept[OF assms(1)] assms(1)
  by (auto simp: builtin_keeps_def relocated_def same_locs_def)

lemma same_threads_locs: "same_threads ex ex' \<Longrightarrow> same_locs ex ex'"
  by (simp add: same_locs_def same_threads_def list_all2_refl)

lemma same_locs_trans: "same_locs a b \<Longrightarrow> same_locs b c \<Longrightarrow> same_locs a c"
  by (auto simp: same_locs_def relocated_def list_all2_conv_all_nth)

lemma get_put_thread:
  "get_thread ex t = Inr th \<Longrightarrow> get_thread (put_thread ex i th') t = Inr (if t = i then th' else th)"
  by (auto simp: get_thread_def put_thread_def res_simps)

lemma put_same_locs:
  assumes "get_thread ex t = Inr th" "relocated th th'"
  shows "same_locs ex (put_thread ex t th')"
  using assms by (auto simp: same_locs_def put_thread_def get_thread_def res_simps list_all2_conv_all_nth
      nth_list_update)

lemma same_locs_put:
  "same_locs ex ex' \<Longrightarrow> get_thread ex' t = Inr th \<Longrightarrow> relocated th th' \<Longrightarrow> same_locs ex (put_thread ex' t th')"
  using put_same_locs same_locs_trans by blast

subsection \<open>Files and pages\<close>

abbreviation keeps_threads :: "PNExecutor \<Rightarrow> ('a \<times> PNExecutor) res \<Rightarrow> bool" where
  "keeps_threads ex \<equiv> ok_res (\<lambda>(e, ex'). same_threads ex ex')"

lemma write_result_ok: "same_threads ex ex' \<Longrightarrow> keeps_threads ex (write_result ex' p v)"
  by (auto simp: write_result_def intro!: ok_res_bind_any)

lemma write_result_locs: "same_locs ex ex' \<Longrightarrow> ok_res (\<lambda>(e, ex''). same_locs ex ex'') (write_result ex' p v)"
  by (auto simp: write_result_def same_locs_def intro!: ok_res_bind_any)

lemma host_error_ok: "same_threads ex ex' \<Longrightarrow> keeps_threads ex (host_error ex' e)"
  by (auto simp: host_error_def pn_from_errno_def control_error_def)

lemma with_host_fd_ok: "(\<And>fd'. keeps_threads ex (body fd')) \<Longrightarrow> keeps_threads ex (with_host_fd ex fd body)"
  by (auto simp: with_host_fd_def pn_filesystem_get_host_fd_def intro!: ok_res_bind_any split: sum.splits)

lemma write_fields_ok: "no_control_error (write_fields m p fs)"
  by (induction m p fs rule: write_fields.induct) (auto intro!: ok_res_bind_any)

lemma cstr_ok: "no_control_error (read_cstr m p)"
proof -
  have "no_control_error (cstr_end m e)" for e
    by (induction m e rule: cstr_end.induct)
      (subst cstr_end.simps, auto intro!: ok_res_bind_any simp: pn_memory_read_u8_def)
  then show ?thesis by (auto simp: read_cstr_def pn_memory_check_cstr_def intro!: ok_res_bind_any)
qed

lemma stat_buf_ok:
  "same_threads ex ex' \<Longrightarrow> keeps_threads ex (rbind (pn_filesystem_write_stat_buf ex' p buf) (\<lambda>ex'. Inr (e, ex')))"
  by (auto simp: pn_filesystem_write_stat_buf_def rbind_assoc intro!: ok_res_bind_any write_fields_ok)

lemmas fs_intros = ok_res_bind_any write_result_ok host_error_ok with_host_fd_ok write_fields_ok cstr_ok
  stat_buf_ok

lemma filesystem_ok:
  "keeps_threads ex (pn_filesystem_fdio_close acc h ex fd)"
  "keeps_threads ex (pn_filesystem_fdio_read acc h ex fd b c r)"
  "keeps_threads ex (pn_filesystem_fdio_seek acc h ex fd b c r)"
  "keeps_threads ex (pn_filesystem_fdio_write acc h ex fd b c r)"
  "keeps_threads ex (pn_filesystem_fdio_fstat h ex fd b)"
  "keeps_threads ex (pn_filesystem_fdio_isatty h ex fd b)"
  "keeps_threads ex (pn_filesystem_filename_getcwd acc h ex b c)"
  "keeps_threads ex (pn_filesystem_filename_open acc h ex b c d r)"
  "keeps_threads ex (pn_filesystem_filename_access acc h ex b c)"
  "keeps_threads ex (pn_filesystem_filename_readlink acc h ex a b c r)"
  "keeps_threads ex (pn_filesystem_filename_stat h ex b c)"
proof -
  show "keeps_threads ex (pn_filesystem_fdio_close acc h ex fd)"
    unfolding pn_filesystem_fdio_close_def
    by (auto simp: control_error_def res_simps intro!: fs_intros split: sum.splits if_splits)
  show "keeps_threads ex (pn_filesystem_fdio_read acc h ex fd b c r)"
    unfolding pn_filesystem_fdio_read_def by (auto simp: Let_def intro!: fs_intros split: sum.splits)
  show "keeps_threads ex (pn_filesystem_fdio_seek acc h ex fd b c r)"
    unfolding pn_filesystem_fdio_seek_def by (auto simp: Let_def intro!: fs_intros split: sum.splits)
  show "keeps_threads ex (pn_filesystem_fdio_write acc h ex fd b c r)"
    unfolding pn_filesystem_fdio_write_def by (auto simp: Let_def intro!: fs_intros split: sum.splits)
  show "keeps_threads ex (pn_filesystem_fdio_fstat h ex fd b)"
    unfolding pn_filesystem_fdio_fstat_def by (auto simp: Let_def intro!: fs_intros split: sum.splits)
  show "keeps_threads ex (pn_filesystem_fdio_isatty h ex fd b)"
    unfolding pn_filesystem_fdio_isatty_def by (auto simp: Let_def intro!: fs_intros split: sum.splits)
  show "keeps_threads ex (pn_filesystem_filename_getcwd acc h ex b c)"
    unfolding pn_filesystem_filename_getcwd_def by (auto simp: Let_def intro!: fs_intros split: sum.splits)
  show "keeps_threads ex (pn_filesystem_filename_open acc h ex b c d r)"
    unfolding pn_filesystem_filename_open_def
    by (auto simp: Let_def intro!: fs_intros split: sum.splits option.splits)
  show "keeps_threads ex (pn_filesystem_filename_access acc h ex b c)"
    unfolding pn_filesystem_filename_access_def by (auto simp: Let_def intro!: fs_intros split: sum.splits)
  show "keeps_threads ex (pn_filesystem_filename_readlink acc h ex a b c r)"
    unfolding pn_filesystem_filename_readlink_def by (auto simp: Let_def intro!: fs_intros split: sum.splits)
  show "keeps_threads ex (pn_filesystem_filename_stat h ex b c)"
    unfolding pn_filesystem_filename_stat_def by (auto simp: Let_def intro!: fs_intros split: sum.splits)
qed

lemma find_pages_ok: "no_control_error (find_pages mapped n is c s)"
  by (induction mapped n "is" c s rule: find_pages.induct)
    (auto simp: Let_def pn_bitset_is_set_def control_error_def intro!: ok_res_bind_any)

lemma set_pages_ok: "no_control_error (set_pages mapped is b)"
  by (induction mapped "is" b rule: set_pages.induct)
    (auto simp: Let_def pn_bitset_set_def control_error_def intro!: ok_res_bind_any)

lemma align_ok [simp]:
  "no_control_error (pn_is_aligned x y)" "no_control_error (pn_align_up x y)" "no_control_error (pn_align_down x y)"
  by (auto simp: pn_is_aligned_def pn_align_up_def pn_align_down_def assert_align_def control_error_def
      intro!: ok_res_bind_any)

lemma get_thread_ok [simp]: "no_control_error (get_thread ex t)"
  by (simp add: get_thread_def)

lemma grow_heap_ok: "keeps_threads ex (grow_heap ex len)"
  by (auto simp: grow_heap_def Let_def control_error_def intro!: ok_res_bind_any)

lemma mmap_ok: "keeps_threads ex (mmap_pages ex len)"
proof -
  have choice: "keeps_threads ex (case found of Some s \<Rightarrow> Inr (f s, ex) | None \<Rightarrow> grow_heap ex l)"
    for found l and f :: "nat \<Rightarrow> u32"
    by (auto intro: grow_heap_ok split: option.splits)
  have fin: "keeps_threads ex (rbind (set_pages mapped is True) (\<lambda>mapped. Inr (r, ex'\<lparr>mapped_pages := mapped\<rparr>)))"
    if "same_threads ex ex'" for mapped "is" ex' and r :: u32
    using that by (auto intro!: ok_res_bind_any set_pages_ok)
  show ?thesis unfolding mmap_pages_def Let_def
    by (intro ok_res_bind_any[OF align_ok(1)] ok_res_bind_any[OF align_ok(2)] ok_res_bind_any[OF find_pages_ok]
        ok_res_bind[OF choice] ok_res_bind_any) (auto simp: control_error_def intro!: fin)
qed

lemma munmap_ok: "ok_res (same_threads ex) (munmap_pages ex a len)"
  by (auto simp: munmap_pages_def Let_def intro!: ok_res_bind_any set_pages_ok)

subsection \<open>Threads\<close>

lemma wake_ring_ok: "ok_res (\<lambda>(w, ex'). same_locs ex ex') (wake_ring fuel a n t i woken ex)"
proof (induction fuel arbitrary: a i woken ex)
  case 0
  show ?case by (subst wake_ring.simps) (simp add: same_threads_locs control_error_def)
next
  case (Suc fuel)
  have step: "ok_res (\<lambda>(w, ex'). same_locs ex ex')
      (wake_ring fuel a n t j k (put_thread ex i (th\<lparr>thread_state := PN_THREAD_RUNNING, futex_state := PN_FUTEX_WOKEN\<rparr>)))"
    if th: "get_thread ex i = Inr th" "thread_state th = PN_THREAD_BLOCKED" for th j k a
  proof -
    have locs: "same_locs ex (put_thread ex i (th\<lparr>thread_state := PN_THREAD_RUNNING, futex_state := PN_FUTEX_WOKEN\<rparr>))"
      using th(2) by (intro put_same_locs[OF th(1)]) (simp add: relocated_def thread_locs_def)
    show ?thesis by (rule ok_res_mono[OF Suc.IH]) (auto intro: same_locs_trans[OF locs])
  qed
  show ?case
    by (subst wake_ring.simps) (auto simp: same_threads_locs intro!: ok_res_bind_any step Suc.IH)
qed

lemma link_thread_ok: "ok_res (same_locs ex) (link_thread ex t new)"
proof -
  have rel: "relocated th (th\<lparr>thread_next := nx\<rparr>)" "relocated th (th\<lparr>thread_prev := pv\<rparr>)"
    "relocated th (th\<lparr>thread_next := nx, thread_prev := pv\<rparr>)" for th nx pv
    by (simp_all add: relocated_def thread_locs_def)
  show ?thesis unfolding link_thread_def Let_def
    by (auto intro!: ok_res_bind_any same_locs_put put_same_locs rel)
qed

text \<open>A new thread: what \<open>alloc_thread\<close> gives, and the invariant once its function is pushed.\<close>

definition grown :: "nat \<Rightarrow> PNExecutor \<Rightarrow> PNExecutor \<Rightarrow> bool" where
  "grown new ex ex' \<longleftrightarrow> ex_module ex' = ex_module ex \<and> new \<le> length (threads ex) \<and>
     length (threads ex') = max (Suc new) (length (threads ex)) \<and>
     (\<forall>i < length (threads ex). i \<noteq> new \<longrightarrow> relocated (threads ex ! i) (threads ex' ! i)) \<and>
     set (dead_threads ex') \<subseteq> set (dead_threads ex) - {new} \<and> distinct (dead_threads ex') \<and>
     (new < length (threads ex) \<longrightarrow> new \<in> set (dead_threads ex))"

lemma alloc_thread_ok:
  assumes "wf_executor ex"
  shows "ok_res (\<lambda>(new, th, ex'). grown new ex ex') (alloc_thread ex)"
  using assms unfolding alloc_thread_def
  by (auto simp: wf_executor_def wf_dead_def grown_def nth_append get_thread_def split: list.splits)

lemma grown_trans:
  assumes "grown new ex ex1" "same_locs ex1 ex2"
  shows "grown new ex ex2"
  using assms
  by (auto simp: grown_def same_locs_def list_all2_conv_all_nth) (auto simp: relocated_def)

lemma grown_put: "grown new ex ex' \<Longrightarrow> grown new ex (put_thread ex' new th)"
  by (simp add: grown_def put_thread_def)

lemma grown_next_id: "grown new ex ex' \<Longrightarrow> grown new ex (ex'\<lparr>next_thread_id := k\<rparr>)"
  by (simp add: grown_def)

lemma grown_wf:
  assumes grown: "grown new ex ex'" and wf: "wf_at t ex" and th: "wf_thread (ex_module ex) th"
  shows "wf_at t (put_thread ex' new th)"
proof -
  have "wf_thread (ex_module ex) (threads (put_thread ex' new th) ! i)" if "i < length (threads ex')" for i
  proof (cases "i = new")
    case False
    with that grown have i: "i < length (threads ex)" "relocated (threads ex ! i) (threads ex' ! i)"
      by (auto simp: grown_def)
    then have "wf_thread (ex_module ex) (threads ex ! i)"
      using wf by (simp add: wf_at_def wf_executor_def list_all_length)
    with i False show ?thesis by (auto simp: put_thread_def intro: relocated_wf)
  qed (use that th in \<open>simp add: put_thread_def\<close>)
  moreover have "d < length (threads ex') \<and> thread_state (threads (put_thread ex' new th) ! d) = PN_THREAD_DEAD"
    if "d \<in> set (dead_threads ex')" for d
  proof -
    have d: "d \<in> set (dead_threads ex)" "d \<noteq> new" using that grown by (auto simp: grown_def)
    then have "d < length (threads ex)" "thread_state (threads ex ! d) = PN_THREAD_DEAD"
      using wf by (auto simp: wf_at_def wf_executor_def wf_dead_def)
    with d(2) grown show ?thesis by (auto simp: grown_def relocated_def put_thread_def)
  qed
  then have "wf_dead (put_thread ex' new th)"
    using grown by (auto simp: wf_dead_def grown_def put_thread_def)
  ultimately show ?thesis
    using grown wf by (auto simp: grown_def wf_at_def wf_executor_def list_all_length put_thread_def)
qed

lemma grown_keeps:
  assumes grown: "grown new ex ex'" and wf: "wf_at t ex" and th: "wf_thread (ex_module ex) th"
    and t: "get_thread ex t = Inr tht"
  shows "builtin_keeps ex t tht (put_thread ex' new th)"
proof -
  have new: "t \<noteq> new" "t < length (threads ex)"
    using grown wf t by (auto simp: grown_def wf_at_def get_thread_def res_simps)
  then have "relocated tht (threads ex' ! t)" using grown t by (auto simp: grown_def get_thread_def res_simps)
  moreover have "threads_kept ex (put_thread ex' new th)"
    using grown by (auto simp: threads_kept_def grown_def relocated_def get_thread_def put_thread_def nth_res_def nth_list_update split: if_splits)
  ultimately show ?thesis using grown new grown_wf[OF grown wf th]
    by (auto simp: builtin_keeps_def grown_def relocated_def get_thread_def put_thread_def)
qed

lemma create_thread_ok:
  assumes wf: "wf_at t ex" and t: "get_thread ex t = Inr tht"
  shows "ok_res (builtin_keeps ex t tht) (create_thread ex t f s p)"
proof -
  have fns: "wf_functions (ex_module ex)" using wf by (simp add: wf_at_def wf_executor_def)
  have push: "ok_res (\<lambda>th'. wf_thread (ex_module ex) th' \<and> thread_frames th' \<noteq> [])
      (pn_thread_push_function ex1 nth g (module_functions (ex_module ex1) ! g))"
    if "thread_frames nth = []" "ex_module ex1 = ex_module ex" "g < length (module_functions (ex_module ex1))"
    for ex1 nth g
    using push_function_ok[of ex1 g nth] fns that by (simp add: thread_locs_def)
  have enter: "ok_res (builtin_keeps ex t tht) (enter_thread ex1 new f s)"
    if grown: "grown new ex ex1" and new: "get_thread ex1 new = Inr nth" "thread_frames nth = []"
    for ex1 new nth
  proof -
    have m: "ex_module ex1 = ex_module ex" using grown by (simp add: grown_def)
    have same: "wf_thread (ex_module ex) (put_frame th (fr\<lparr>memory_stack_top := s\<rparr>))"
      if "wf_thread (ex_module ex) th" "thread_frames th \<noteq> []" "current_frame th = Inr fr" for th fr
      using that put_frame_same[of th "fr\<lparr>memory_stack_top := s\<rparr>"]
      by (simp add: current_frame_ok frame_loc_def wf_thread_same)
    have cur: "no_control_error (current_frame th)" if "thread_frames th \<noteq> []" for th
      using that by (simp add: current_frame_ok)
    have chk: "no_control_error (pn_function_id_check m k)" for m k
      by (auto simp: pn_function_id_check_def control_error_def)
    have fin: "ok_res (builtin_keeps ex t tht) (rbind (pn_thread_push_function ex1 nth g (module_functions (ex_module ex1) ! g))
        (\<lambda>nth. rbind (current_frame nth) (\<lambda>fr.
          Inr (put_thread ex1 new (put_frame nth (fr\<lparr>memory_stack_top := s\<rparr>))))))"
      if "g < length (module_functions (ex_module ex1))" for g
      by (auto intro!: ok_res_bind[OF push[OF new(2) m that]] ok_res_bind_any cur grown_keeps[OF grown wf _ t] same)
    show ?thesis unfolding enter_thread_def Let_def new(1) rbind.simps
      by (rule ok_res_bind_any, simp add: control_error_def, rule ok_res_bind_any[OF chk],
          rule ok_res_bind_any, simp) (clarsimp simp: res_simps, rule fin)
  qed
  have link: "ok_res (builtin_keeps ex t tht) (rbind (link_thread ex1 t new) (\<lambda>ex. enter_thread ex new f s))"
    if grown: "grown new ex ex1" and nth: "get_thread ex1 new = Inr nth" "thread_frames nth = []" for ex1 new nth
  proof (rule ok_res_bind[OF link_thread_ok])
    fix ex2 assume locs: "same_locs ex1 ex2"
    from same_locs_get[OF locs nth(1)] obtain nth2 where
      "get_thread ex2 new = Inr nth2" "relocated nth nth2" by blast
    with nth(2) show "ok_res (builtin_keeps ex t tht) (enter_thread ex2 new f s)"
      by (intro enter[OF grown_trans[OF grown locs], of nth2]) (auto simp: relocated_def thread_locs_def)
  qed
  have wfe: "wf_executor ex" using wf by (simp add: wf_at_def)
  show ?thesis unfolding create_thread_def Let_def
  proof (rule ok_res_bind[OF alloc_thread_ok[OF wfe]], clarsimp)
    fix new nth ex1 assume grown: "grown new ex ex1"
    then have "new < length (threads ex1)" by (simp add: grown_def)
    then show "ok_res (builtin_keeps ex t tht) (rbind (link_thread (put_thread (ex1\<lparr>next_thread_id := next_thread_id ex1 + 1\<rparr>) new
        (nth\<lparr>thread_frames := [], thread_tls := p, thread_id := next_thread_id ex1,
           thread_state := PN_THREAD_RUNNING, futex_state := PN_FUTEX_NONE\<rparr>)) t new) (\<lambda>ex. enter_thread ex new f s))"
      by (intro link grown_put grown_next_id grown) (auto simp: get_thread_def put_thread_def)
  qed
qed

subsection \<open>The interface\<close>

abbreviation keeps_control :: "PNExecutor \<Rightarrow> nat \<Rightarrow> (PNRuntimeValue \<times> PNExecutor) res \<Rightarrow> bool" where
  "keeps_control ex t \<equiv> ok_res (\<lambda>(v, ex'). \<forall>th. get_thread ex t = Inr th \<longrightarrow> builtin_keeps ex t th ex')"

lemma keeps_locs: "wf_at t ex \<Longrightarrow> same_locs ex ex' \<Longrightarrow> keeps_control ex t (Inr (v, ex'))"
  by (auto intro: same_locs_keeps)

lemma keeps_value: "wf_at t ex \<Longrightarrow> ok_res (\<lambda>(e, ex'). same_locs ex ex') r \<Longrightarrow> keeps_control ex t (value_u32 r)"
  by (cases r) (auto simp: value_u32_def intro: same_locs_keeps)

lemma keeps_file: "wf_at t ex \<Longrightarrow> keeps_threads ex r \<Longrightarrow> keeps_control ex t (value_u32 r)"
  by (rule keeps_value) (auto elim!: ok_res_mono intro: same_threads_locs)

lemma with_thread:
  assumes "get_thread ex t = Inr th" "thread_frames th \<noteq> []" "\<And>x. keeps_control ex t (g x)"
  shows "keeps_control ex t (rbind (arg ex th args i) g)" "keeps_control ex t (rbind (check_num_args n8 k8) (\<lambda>_. g x))"
  using assms by (auto intro!: ok_res_bind_any)

lemma bind_thread: "get_thread ex t = Inr th \<Longrightarrow> ok_res P (g th) \<Longrightarrow> ok_res P (rbind (get_thread ex t) g)"
  by simp

lemma file_builtins_ok:
  assumes "wf_at t ex" "get_thread ex t = Inr th" "thread_frames th \<noteq> []"
  shows "keeps_control ex t (pn_builtin_NACL_IRT_FDIO_CLOSE acc h ex t n args)"
    "keeps_control ex t (pn_builtin_NACL_IRT_FDIO_READ acc h ex t n args)"
    "keeps_control ex t (pn_builtin_NACL_IRT_FDIO_WRITE acc h ex t n args)"
    "keeps_control ex t (pn_builtin_NACL_IRT_FDIO_SEEK acc h ex t n args)"
    "keeps_control ex t (pn_builtin_NACL_IRT_FDIO_FSTAT h ex t n args)"
    "keeps_control ex t (pn_builtin_NACL_IRT_FDIO_ISATTY h ex t n args)"
    "keeps_control ex t (pn_builtin_NACL_IRT_FILENAME_OPEN acc h ex t n args)"
    "keeps_control ex t (pn_builtin_NACL_IRT_FILENAME_STAT h ex t n args)"
    "keeps_control ex t (pn_builtin_NACL_IRT_FILENAME_GETCWD acc h ex t n args)"
    "keeps_control ex t (pn_builtin_NACL_IRT_FILENAME_ACCESS acc h ex t n args)"
    "keeps_control ex t (pn_builtin_NACL_IRT_FILENAME_READLINK acc h ex t n args)"
  unfolding pn_builtin_NACL_IRT_FDIO_CLOSE_def pn_builtin_NACL_IRT_FDIO_READ_def
    pn_builtin_NACL_IRT_FDIO_WRITE_def pn_builtin_NACL_IRT_FDIO_SEEK_def
    pn_builtin_NACL_IRT_FDIO_FSTAT_def pn_builtin_NACL_IRT_FDIO_ISATTY_def
    pn_builtin_NACL_IRT_FILENAME_OPEN_def pn_builtin_NACL_IRT_FILENAME_STAT_def
    pn_builtin_NACL_IRT_FILENAME_GETCWD_def pn_builtin_NACL_IRT_FILENAME_ACCESS_def
    pn_builtin_NACL_IRT_FILENAME_READLINK_def
  by (intro bind_thread[OF assms(2)] with_thread[OF assms(2,3)] keeps_file[OF assms(1)] filesystem_ok)+

lemma process_builtins_ok:
  assumes "wf_at t ex" "get_thread ex t = Inr th" "thread_frames th \<noteq> []"
  shows "keeps_control ex t (pn_builtin_NACL_IRT_QUERY ex t n args)"
    "keeps_control ex t (pn_builtin_NACL_IRT_BASIC_EXIT ex t n args)"
    "keeps_control ex t (pn_builtin_NACL_IRT_BASIC_GETTOD h ex t n args)"
    "keeps_control ex t (pn_builtin_NACL_IRT_BASIC_SYSCONF ex t n args)"
    "keeps_control ex t (pn_builtin_NACL_IRT_MEMORY_MMAP ex t n args)"
    "keeps_control ex t (pn_builtin_NACL_IRT_MEMORY_MUNMAP ex t n args)"
    "keeps_control ex t (pn_builtin_NACL_IRT_TLS_INIT ex t n args)"
proof -
  note start = bind_thread[OF assms(2)] with_thread[OF assms(2,3)]
  have wb: "no_control_error (write_builtins m p bs)" for m p bs
    by (induction m p bs rule: write_builtins.induct) (auto intro!: ok_res_bind_any)
  show "keeps_control ex t (pn_builtin_NACL_IRT_QUERY ex t n args)"
    unfolding pn_builtin_NACL_IRT_QUERY_def
    by (intro start) (auto simp: control_error_def
        intro!: ok_res_bind_any cstr_ok wb keeps_locs[OF assms(1), unfolded ok_res_simps prod.case]
        same_locs_keeps[OF _ assms(1)] same_threads_locs split: option.splits)
  have "relocated th (th\<lparr>thread_state := PN_THREAD_DEAD\<rparr>)" by (simp add: relocated_def thread_locs_def)
  from put_same_locs[OF assms(2) this]
  have "same_locs ex (put_thread (ex\<lparr>exit_code := c, exiting := True\<rparr>) t (th\<lparr>thread_state := PN_THREAD_DEAD\<rparr>))" for c
    by (simp add: same_locs_def put_thread_def)
  then show "keeps_control ex t (pn_builtin_NACL_IRT_BASIC_EXIT ex t n args)"
    unfolding pn_builtin_NACL_IRT_BASIC_EXIT_def
    by (intro start keeps_locs[OF assms(1)])
  show "keeps_control ex t (pn_builtin_NACL_IRT_BASIC_GETTOD h ex t n args)"
    unfolding pn_builtin_NACL_IRT_BASIC_GETTOD_def
    by (intro start, cases "gettimeofday h (host_calls ex)")
      (auto simp: Let_def pn_memory_write_u64_def intro!: ok_res_bind_any same_locs_keeps[OF _ assms(1)] same_threads_locs)
  show "keeps_control ex t (pn_builtin_NACL_IRT_BASIC_SYSCONF ex t n args)"
    unfolding pn_builtin_NACL_IRT_BASIC_SYSCONF_def
    by (intro start) (auto intro!: keeps_file[OF assms(1)] write_result_ok same_locs_keeps[OF _ assms(1)]
        same_threads_locs)
  show "keeps_control ex t (pn_builtin_NACL_IRT_MEMORY_MMAP ex t n args)"
    unfolding pn_builtin_NACL_IRT_MEMORY_MMAP_def
    by (intro start) (auto intro!: ok_res_bind[OF mmap_ok] keeps_file[OF assms(1)] write_result_ok
        same_locs_keeps[OF _ assms(1)] same_threads_locs)
  show "keeps_control ex t (pn_builtin_NACL_IRT_MEMORY_MUNMAP ex t n args)"
    unfolding pn_builtin_NACL_IRT_MEMORY_MUNMAP_def
    by (intro start) (auto intro!: ok_res_bind[OF munmap_ok] same_locs_keeps[OF _ assms(1)] same_threads_locs)
  have "relocated th (th\<lparr>thread_tls := p\<rparr>)" for p by (simp add: relocated_def thread_locs_def)
  then show "keeps_control ex t (pn_builtin_NACL_IRT_TLS_INIT ex t n args)"
    unfolding pn_builtin_NACL_IRT_TLS_INIT_def
    by (intro start) (auto intro!: ok_res_bind_any same_locs_keeps[OF _ assms(1)] put_same_locs[OF assms(2)])
qed

lemma futex_wait_ok:
  assumes "get_thread ex t = Inr th" "thread_state th \<noteq> PN_THREAD_DEAD"
  shows "ok_res (\<lambda>(e, ex'). same_locs ex ex') (futex_wait_abs ex t th a v p)"
proof -
  have timeout: "ok_res (relocated th) (set_timeout m p (th\<lparr>wait_addr := a\<rparr>))" for m
    unfolding set_timeout_def using assms(2)
    by (auto simp: relocated_def thread_locs_def pn_memory_read_u64_def intro!: ok_res_bind_any)
  have put: "same_locs ex (put_thread ex t (th'\<lparr>thread_state := s\<rparr>))"
    "same_locs ex (put_thread ex t (th'\<lparr>futex_state := f\<rparr>))" if "relocated th th'" for th' s f
    using that assms(2) by (intro put_same_locs[OF assms(1)]; simp add: relocated_def thread_locs_def)+
  show ?thesis unfolding futex_wait_abs_def
    by (auto simp: same_threads_locs[of ex ex] intro!: ok_res_bind_any ok_res_bind[OF timeout] put
        split: PNFutexState.splits)
qed

lemma thread_builtins_ok:
  assumes "wf_at t ex" "get_thread ex t = Inr th" "thread_frames th \<noteq> []" "thread_state th \<noteq> PN_THREAD_DEAD"
  shows "keeps_control ex t (pn_builtin_NACL_IRT_FUTEX_WAIT_ABS ex t n args)"
    "keeps_control ex t (pn_builtin_NACL_IRT_FUTEX_WAKE ex t n args)"
    "keeps_control ex t (pn_builtin_NACL_IRT_THREAD_CREATE ex t n args)"
    "keeps_control ex t (pn_builtin_NACL_IRT_THREAD_EXIT ex t n args)"
proof -
  note start = bind_thread[OF assms(2)] with_thread[OF assms(2,3)]
  show "keeps_control ex t (pn_builtin_NACL_IRT_THREAD_CREATE ex t n args)"
    unfolding pn_builtin_NACL_IRT_THREAD_CREATE_def
    by (intro start) (auto intro!: ok_res_bind[OF create_thread_ok[OF assms(1,2)]] simp: assms(2))
  show "keeps_control ex t (pn_builtin_NACL_IRT_FUTEX_WAKE ex t n args)"
    unfolding pn_builtin_NACL_IRT_FUTEX_WAKE_def
    by (intro start) (auto intro!: ok_res_bind[OF wake_ring_ok] keeps_value[OF assms(1)] write_result_locs)
  have "relocated th (th\<lparr>thread_state := PN_THREAD_DEAD\<rparr>)" by (simp add: relocated_def thread_locs_def)
  note dead = put_same_locs[OF assms(2) this]
  show "keeps_control ex t (pn_builtin_NACL_IRT_THREAD_EXIT ex t n args)"
    unfolding pn_builtin_NACL_IRT_THREAD_EXIT_def Let_def
    by (intro start) (auto intro!: ok_res_bind_any keeps_value[OF assms(1)] same_locs_keeps[OF dead assms(1)]
        write_result_locs[OF dead] simp: control_error_def)
  show "keeps_control ex t (pn_builtin_NACL_IRT_FUTEX_WAIT_ABS ex t n args)"
    unfolding pn_builtin_NACL_IRT_FUTEX_WAIT_ABS_def
    by (intro start keeps_value[OF assms(1)] futex_wait_ok assms)
qed

lemma pn_builtin_ok:
  assumes "wf_at t ex" "get_thread ex t = Inr th" "thread_frames th \<noteq> []" "thread_state th \<noteq> PN_THREAD_DEAD"
  shows "keeps_control ex t (pn_builtin acc h k ex t n args)"
proof -
  have stub: "builtin_keeps ex t th ex" using same_locs_keeps[OF _ assms(1,2)] same_threads_locs by simp
  show ?thesis unfolding pn_builtin_def
    using file_builtins_ok[OF assms(1-3)] process_builtins_ok[OF assms(1-3)] thread_builtins_ok[OF assms] stub
    by (simp add: assms(2) control_error_def)
qed

interpretation pn: builtins "pn_builtin acc h" for acc h
proof (unfold_locales, goal_cases)
  case (1 t ex th k n args)
  from pn_builtin_ok[OF this] show ?case by (rule ok_res_mono) (use 1 in auto)
qed

end
