(* ===== verification/Pn_Scheduler.thy ===== *)
theory Pn_Scheduler
  imports Pn_Builtins
begin

text \<open>
  Start, thread switching and the main loop of the executor, \<^verbatim>\<open>src/pn_executor.h\<close>: the threads that
  are not dead form a ring of \<open>next\<close> and \<open>prev\<close> links, each runs for a quantum of instructions, a dead
  thread is unlinked, and blocked threads are skipped until their timeout has passed.

  The search for a runnable thread spins when all threads are blocked, and the program need not end:
  both loops are partial functions, \<open>None\<close> for a loop that does not return.

  The step-wise control-flow integrity of \<^verbatim>\<open>Pn_Control\<close> is carried to whole runs here.
\<close>

section \<open>Start\<close>

fun map_pages :: "nat \<Rightarrow> PNBitSet \<Rightarrow> PNBitSet res" where
  "map_pages 0 pages = Inr pages"
| "map_pages (Suc n) pages =
     rbind (map_pages n pages) (\<lambda>pages. pn_bitset_set pages (of_nat n) True)"

definition pn_executor_init :: "PNModule \<Rightarrow> PNExecutor res" where
  "pn_executor_init module =
     (let memory = module_memory module in
      rbind (pn_is_aligned (ucast (mem_size memory)) PN_PAGESIZE) (\<lambda>size_aligned.
      rbind (ensure size_aligned (Check ''memory->size'')) (\<lambda>_.
      rbind (pn_is_aligned (ucast (heap_start memory)) PN_PAGESIZE) (\<lambda>heap_aligned.
      rbind (ensure heap_aligned (Check ''memory->heap_start'')) (\<lambda>_.
      rbind (pn_bitset_init (unat (drop_bit 12 (mem_size memory)))) (\<lambda>pages.
      rbind (map_pages (unat (drop_bit 12 (heap_start memory))) pages) (\<lambda>pages.
      rbind (pn_executor_init_module_values
        \<lparr>ex_module = module, ex_memory = memory, executor_values = [], threads = [start_thread],
         main_thread = 0, dead_threads = [], sentinel_stack_top = stack_end memory,
         mapped_pages = pages, next_jmpbuf_id = 0,
         fd_map = [0, 1, 2] @ replicate (PN_MAX_FDS - 3) (- 1),
         next_thread_id = 1, heap_end = heap_start memory, exit_code = 0, exiting = False,
         host_calls = []\<rparr>) (\<lambda>ex.
      let start_function_id = known_functions module PN_INTRINSIC_START in
      rbind (ensure (start_function_id \<noteq> PN_INVALID_FUNCTION_ID) (Check ''start_function_id'')) (\<lambda>_.
      rbind (nth_res (module_functions module) start_function_id) (\<lambda>start_function.
      rbind (ensure (function_instructions start_function \<noteq> []) (Check ''start_function->instructions'')) (\<lambda>_.
      rbind (pn_thread_push_function ex start_thread start_function_id start_function) (\<lambda>th.
      rbind (ensure (num_args start_function = 1) (Check ''start_function->num_args'')) (\<lambda>_.
      rbind (pn_thread_set_value ex th (num_module_values ex) (ucast (startinfo_start memory))) (\<lambda>th.
      Inr (put_thread ex 0 th)))))))))))))))"

section \<open>Scheduling\<close>

abbreviation (input) PN_INSTRUCTIONS_QUANTUM :: nat where "PN_INSTRUCTIONS_QUANTUM \<equiv> 100"

fun run_quantum :: "builtin_call \<Rightarrow> nat \<Rightarrow> PNExecutor \<Rightarrow> nat \<Rightarrow> PNExecutor res" where
  "run_quantum builtin 0 ex t = Inr ex"
| "run_quantum builtin (Suc n) ex t =
     rbind (get_thread ex t) (\<lambda>th.
     if thread_state th = PN_THREAD_RUNNING
     then rbind (pn_thread_execute_instruction builtin ex t) (\<lambda>ex. run_quantum builtin n ex t)
     else Inr ex)"

text \<open>
  The two assignments of the unlinking, in order: the ring may be short enough that they meet. The chain of the dead threads,
  in the code through \<open>next\<close> of the dead thread (and its \<open>prev\<close>, which is null), is the list \<open>dead_threads\<close>; the links of a
  dead thread in the model keep their last values and are not read any more.
\<close>

definition unlink_thread :: "PNExecutor \<Rightarrow> nat \<Rightarrow> PNExecutor res" where
  "unlink_thread ex t =
     rbind (get_thread ex t) (\<lambda>th.
     rbind (get_thread ex (thread_prev th)) (\<lambda>prev.
     let ex = put_thread ex (thread_prev th) (prev\<lparr>thread_next := thread_next th\<rparr>) in
     rbind (get_thread ex t) (\<lambda>th.
     rbind (get_thread ex (thread_next th)) (\<lambda>next.
     let ex = put_thread ex (thread_next th) (next\<lparr>thread_prev := thread_prev th\<rparr>) in
     Inr (ex\<lparr>dead_threads := t # dead_threads ex\<rparr>)))))"

definition timed_out :: "PNThread \<Rightarrow> u64 \<times> u32 \<Rightarrow> bool" where
  "timed_out th tv \<longleftrightarrow> has_timeout th \<and>
     (fst tv > timeout_sec th \<or> fst tv = timeout_sec th \<and> snd tv > timeout_usec th)"

partial_function (option) schedule_next :: "host \<Rightarrow> PNExecutor \<Rightarrow> nat \<Rightarrow> (PNExecutor \<times> nat) res option" where
  [code]: "schedule_next h ex t =
     (case get_thread ex t of Inl e \<Rightarrow> Some (Inl e)
      | Inr th \<Rightarrow>
          (case thread_state th of
             PN_THREAD_DEAD \<Rightarrow> Some (Inl (Assertion ''thread->state != PN_THREAD_DEAD''))
           | PN_THREAD_RUNNING \<Rightarrow> Some (Inr (ex, t))
           | PN_THREAD_BLOCKED \<Rightarrow>
               let tv = gettimeofday h (host_calls ex); ex = log_call Host_gettimeofday ex in
               if timed_out th tv
               then Some (Inr (put_thread ex t (th\<lparr>thread_state := PN_THREAD_RUNNING,
                                                   futex_state := PN_FUTEX_TIMEDOUT\<rparr>), t))
               else schedule_next h ex (thread_next th)
           | _ \<Rightarrow> Some (Inl (Fatal ''unreachable''))))"

definition finish_quantum :: "PNExecutor \<Rightarrow> nat \<Rightarrow> (PNExecutor \<times> nat) res" where
  "finish_quantum ex t =
     rbind (get_thread ex t) (\<lambda>th.
     if thread_state th = PN_THREAD_DEAD
     then rbind (ensure (t \<noteq> 0) (Assertion ''thread != &executor->start_thread'')) (\<lambda>_.
       rbind (unlink_thread ex t) (\<lambda>ex. Inr (ex, thread_next th)))
     else Inr (ex, thread_next th))"

text \<open>The returned thread is \<open>None\<close> where the C function returns \<open>NULL\<close>.\<close>

definition pn_executor_run_step :: "bool \<Rightarrow> host \<Rightarrow> PNExecutor \<Rightarrow> nat \<Rightarrow> (PNExecutor \<times> nat option) res option" where
  "pn_executor_run_step access h ex t =
     (case run_quantum (pn_builtin access h) PN_INSTRUCTIONS_QUANTUM ex t of Inl e \<Rightarrow> Some (Inl e)
      | Inr ex \<Rightarrow>
          if exiting ex then Some (Inr (ex, None))
          else (case finish_quantum ex t of Inl e \<Rightarrow> Some (Inl e)
            | Inr (ex, next) \<Rightarrow>
                map_option (\<lambda>r. rbind r (\<lambda>(ex, t). Inr (ex, Some t))) (schedule_next h ex next)))"

partial_function (option) run_loop :: "bool \<Rightarrow> host \<Rightarrow> PNExecutor \<Rightarrow> nat \<Rightarrow> PNExecutor res option" where
  [code]: "run_loop access h ex t =
     Option.bind (pn_executor_run_step access h ex t) (\<lambda>r.
     case r of Inl e \<Rightarrow> Some (Inl e)
     | Inr (ex, None) \<Rightarrow> Some (Inr ex)
     | Inr (ex, Some t) \<Rightarrow> run_loop access h ex t)"

definition pn_executor_run :: "bool \<Rightarrow> host \<Rightarrow> PNExecutor \<Rightarrow> PNExecutor res option" where
  "pn_executor_run access h ex = run_loop access h ex (main_thread ex)"

section \<open>Control-flow integrity of a run\<close>

context builtins
begin

lemma run_quantum_ok: "wf_at t ex \<Longrightarrow> ok_res (stepped t ex) (run_quantum builtin n ex t)"
proof (induction n arbitrary: ex)
  case 0
  then show ?case by (simp add: stepped_def)
next
  case (Suc n)
  have step: "ok_res (stepped t ex) (rbind (pn_thread_execute_instruction builtin ex t) (\<lambda>ex. run_quantum builtin n ex t))"
    if "get_thread ex t = Inr th" "thread_state th = PN_THREAD_RUNNING" for th
  proof (rule ok_res_bind[OF execute_control[OF _ that(1)]])
    show "wf_executor ex" using Suc.prems by (simp add: wf_at_def)
    show "thread_state th \<noteq> PN_THREAD_DEAD" using that(2) by simp
    fix ex' assume ex': "stepped t ex ex'"
    then have "wf_at t ex'" by (simp add: stepped_def)
    from Suc.IH[OF this] show "ok_res (stepped t ex) (run_quantum builtin n ex' t)"
      by (rule ok_res_mono) (use ex' in \<open>simp add: stepped_def\<close>)
  qed
  show ?case unfolding run_quantum.simps
    by (rule ok_res_bind_any) (use Suc.prems step in \<open>auto simp: stepped_def[of t ex ex]\<close>)
qed

end

definition run_ok :: "PNExecutor \<Rightarrow> PNExecutor \<Rightarrow> bool" where
  "run_ok ex ex' \<longleftrightarrow> wf_executor ex' \<and> ex_module ex' = ex_module ex"

lemma relocated_links:
  "relocated th (th\<lparr>thread_next := nx\<rparr>)" "relocated th (th\<lparr>thread_prev := pv\<rparr>)"
  by (simp_all add: relocated_def thread_locs_def)

lemma unlink_ok:
  assumes wf: "wf_at t ex" and dead: "get_thread ex t = Inr th" "thread_state th = PN_THREAD_DEAD"
  shows "ok_res (run_ok ex) (unlink_thread ex t)"
proof -
  have "run_ok ex (ex'\<lparr>dead_threads := t # dead_threads ex'\<rparr>)" if "same_locs ex ex'" for ex'
  proof -
    have "wf_at t ex'" using same_locs_wf[OF that wf] .
    moreover from same_locs_get[OF that dead(1)] obtain th' where "get_thread ex' t = Inr th'" "relocated th th'" by blast
    ultimately show ?thesis using that dead(2)
      by (auto simp: run_ok_def wf_at_def wf_executor_def wf_dead_def same_locs_def relocated_def get_thread_def res_simps)
  qed
  note fin = this[OF same_locs_put[OF same_locs_put[OF same_threads_locs]]]
  show ?thesis unfolding unlink_thread_def Let_def
    by (auto intro!: ok_res_bind_any fin relocated_links)
qed

lemma finish_quantum_ok:
  assumes "wf_at t ex"
  shows "ok_res (\<lambda>(ex', nx). run_ok ex ex') (finish_quantum ex t)"
proof -
  have same: "run_ok ex ex" using assms by (simp add: run_ok_def wf_at_def)
  have fin: "ok_res (\<lambda>(ex', nx). run_ok ex ex') (rbind (unlink_thread ex t) (\<lambda>ex'. Inr (ex', nx)))"
    if "get_thread ex t = Inr th" "thread_state th = PN_THREAD_DEAD" for th nx
    by (rule ok_res_bind[OF unlink_ok[OF assms that]]) simp
  show ?thesis unfolding finish_quantum_def
    by (rule ok_res_bind_any, simp) (auto simp: same control_error_def intro!: fin ok_res_bind_any[of "ensure _ _"])
qed

abbreviation runs :: "PNExecutor \<Rightarrow> nat \<Rightarrow> bool" where
  "runs ex t \<equiv> \<exists>th. get_thread ex t = Inr th \<and> thread_state th = PN_THREAD_RUNNING"

lemma log_call_wf [simp]: "wf_executor (log_call c ex) \<longleftrightarrow> wf_executor ex" "ex_module (log_call c ex) = ex_module ex"
    "get_thread (log_call c ex) t = get_thread ex t"
  by (simp_all add: log_call_def wf_executor_def wf_dead_def get_thread_def)

lemma wake_wf:
  assumes "wf_executor ex" "get_thread ex t = Inr th" "thread_state th = PN_THREAD_BLOCKED"
  shows "wf_executor (put_thread ex t (th\<lparr>thread_state := PN_THREAD_RUNNING, futex_state := f\<rparr>))"
proof -
  have "wf_at t ex" using assms by (auto simp: wf_at_def wf_executor_def wf_dead_def get_thread_def res_simps)
  moreover have "relocated th (th\<lparr>thread_state := PN_THREAD_RUNNING, futex_state := f\<rparr>)"
    using assms(3) by (simp add: relocated_def thread_locs_def)
  ultimately show ?thesis using same_locs_wf[OF put_same_locs[OF assms(2)], of _ t] by (simp add: wf_at_def)
qed

lemma schedule_next_ok:
  assumes "schedule_next h ex t = Some r" "wf_executor ex"
  shows "ok_res (\<lambda>(ex', t'). run_ok ex ex' \<and> runs ex' t') r"
proof (rule schedule_next.raw_induct[where P = "\<lambda>h ex t r. wf_executor ex \<longrightarrow> ok_res (\<lambda>(ex', t'). run_ok ex ex' \<and> runs ex' t') r",
      OF _ assms(1), THEN mp, OF _ assms(2)], intro impI)
  fix rec and h :: host and ex t r
  assume IH: "\<And>h ex t r. rec h ex t = Some r \<Longrightarrow> wf_executor ex \<longrightarrow> ok_res (\<lambda>(ex', t'). run_ok ex ex' \<and> runs ex' t') r"
    and eq: "(case get_thread ex t of Inl e \<Rightarrow> Some (Inl e)
      | Inr th \<Rightarrow>
          (case thread_state th of
             PN_THREAD_DEAD \<Rightarrow> Some (Inl (Assertion ''thread->state != PN_THREAD_DEAD''))
           | PN_THREAD_RUNNING \<Rightarrow> Some (Inr (ex, t))
           | PN_THREAD_BLOCKED \<Rightarrow>
               let tv = gettimeofday h (host_calls ex); ex = log_call Host_gettimeofday ex in
               if timed_out th tv
               then Some (Inr (put_thread ex t (th\<lparr>thread_state := PN_THREAD_RUNNING,
                                                   futex_state := PN_FUTEX_TIMEDOUT\<rparr>), t))
               else rec h ex (thread_next th)
           | _ \<Rightarrow> Some (Inl (Fatal ''unreachable'')))) = Some r" and wf: "wf_executor ex"
  show "ok_res (\<lambda>(ex', t'). run_ok ex ex' \<and> runs ex' t') r"
  proof (cases "get_thread ex t")
    case (Inl e)
    have "\<not> control_error e" using get_thread_ok[of ex t] Inl by simp
    then show ?thesis using eq Inl by auto
  next
    case (Inr th)
    have put: "get_thread (put_thread ex t th') t = Inr th'" for th'
      using get_put_thread[OF Inr, of t th'] by simp
    note body = eq[unfolded Inr sum.case Let_def]
    show ?thesis
    proof (cases "thread_state th")
      case PN_THREAD_RUNNING
      then show ?thesis using body wf Inr by (auto simp: run_ok_def)
    next
      case PN_THREAD_DEAD
      then show ?thesis using body by (auto simp: control_error_def)
    next
      case PN_THREAD_BLOCKED
      then show ?thesis
        using body IH[of h "log_call Host_gettimeofday ex" "thread_next th" r] wf Inr
          wake_wf[of "log_call Host_gettimeofday ex" t th]
          get_put_thread[of "log_call Host_gettimeofday ex" t th t]
        by (auto simp: run_ok_def split: if_splits)
    qed (use body in \<open>auto simp: control_error_def\<close>)
  qed
qed

lemma run_step_ok:
  assumes "pn_executor_run_step acc h ex t = Some r" "wf_executor ex" "runs ex t"
  shows "ok_res (\<lambda>(ex', next). run_ok ex ex' \<and> (\<forall>t'. next = Some t' \<longrightarrow> runs ex' t')) r"
proof -
  have at: "wf_at t ex"
    using assms(2,3) by (auto simp: wf_at_def wf_executor_def wf_dead_def get_thread_def res_simps)
  note quantum = pn.run_quantum_ok[OF at, of acc h 100]
  show ?thesis
  proof (cases "run_quantum (pn_builtin acc h) 100 ex t")
    case (Inl e)
    then show ?thesis using assms(1) quantum by (auto simp: pn_executor_run_step_def)
  next
    case (Inr ex1)
    then have ex1: "wf_at t ex1" "ex_module ex1 = ex_module ex" using quantum by (simp_all add: stepped_def)
    note fin = finish_quantum_ok[OF ex1(1)]
    show ?thesis
    proof (cases "exiting ex1 \<or> (\<exists>e. finish_quantum ex1 t = Inl e)")
      case True
      then show ?thesis using assms(1) Inr fin ex1 by (auto simp: pn_executor_run_step_def run_ok_def wf_at_def split: if_splits)
    next
      case False
      then obtain ex2 nx where q: "finish_quantum ex1 t = Inr (ex2, nx)" by (cases "finish_quantum ex1 t") auto
      with fin ex1(2) have ex2: "wf_executor ex2" "ex_module ex2 = ex_module ex" by (auto simp: run_ok_def)
      from assms(1) Inr False q obtain r' where
        "schedule_next h ex2 nx = Some r'" "r = rbind r' (\<lambda>(ex, t). Inr (ex, Some t))"
        by (auto simp: pn_executor_run_step_def)
      with schedule_next_ok[OF this(1) ex2(1)] ex2(2) show ?thesis by (cases r') (auto simp: run_ok_def)
    qed
  qed
qed

lemma run_loop_ok:
  assumes "run_loop acc h ex t = Some r" "wf_executor ex" "runs ex t"
  shows "ok_res (run_ok ex) r"
proof (rule run_loop.raw_induct[where P = "\<lambda>acc h ex t r. wf_executor ex \<and> runs ex t \<longrightarrow> ok_res (run_ok ex) r",
      OF _ assms(1), THEN mp, OF _ conjI[OF assms(2,3)]], intro impI)
  fix rec acc h ex t r
  assume IH: "\<And>acc h ex t r. rec acc h ex t = Some r \<Longrightarrow> wf_executor ex \<and> runs ex t \<longrightarrow> ok_res (run_ok ex) r"
    and eq: "Option.bind (pn_executor_run_step acc h ex t) (\<lambda>r.
       case r of Inl e \<Rightarrow> Some (Inl e) | Inr (ex, None) \<Rightarrow> Some (Inr ex)
       | Inr (ex, Some t) \<Rightarrow> rec acc h ex t) = Some r" and wf: "wf_executor ex \<and> runs ex t"
  from eq obtain s where s: "pn_executor_run_step acc h ex t = Some s" by (auto simp: Option.bind_eq_Some_conv)
  note step = run_step_ok[OF s conjunct1[OF wf] conjunct2[OF wf]]
  show "ok_res (run_ok ex) r"
  proof (cases s)
    case (Inr p)
    obtain ex' nx where p: "p = (ex', nx)" by (cases p)
    show ?thesis
    proof (cases nx)
      case (Some t')
      then have "ok_res (run_ok ex') r" using IH[of acc h ex' t' r] eq s step by (auto simp: Inr p run_ok_def)
      then show ?thesis using step by (auto simp: Inr p run_ok_def elim: ok_res_mono)
    qed (use eq s step in \<open>auto simp: Inr p\<close>)
  qed (use eq s step in auto)
qed

lemma put_thread_fields: "main_thread (put_thread ex t th) = main_thread ex" "exiting (put_thread ex t th) = exiting ex"
    "exit_code (put_thread ex t th) = exit_code ex" "host_calls (put_thread ex t th) = host_calls ex"
  by (simp_all add: put_thread_def)

lemma push_function_state:
  assumes "pn_thread_push_function ex th f g = Inr th'"
  shows "thread_state th' = thread_state th"
proof -
  define th1 where "th1 = th\<lparr>thread_frames := \<lparr>frame_function_id = f, frame_inst = 0,
    frame_values = replicate (length (function_values g)) 0, frame_jmpbufs = [],
    memory_stack_top = stack_top ex th\<rparr> # thread_frames th, thread_function := f, thread_inst := 0\<rparr>"
  have "init_constants ex g 0 (constants g) th1 = Inr th'"
    using assms by (auto simp: pn_thread_push_function_def th1_def Let_def res_simps split: if_splits)
  then show ?thesis using init_constants_ok[of th1 ex g 0 "constants g"] by (simp add: th1_def same_control_def)
qed

lemma executor_init_ok:
  assumes init: "pn_executor_init m = Inr ex" and wf: "wf_functions m"
  shows "wf_executor ex \<and> runs ex 0 \<and> main_thread ex = 0 \<and> ex_module ex = m"
proof -
  have fin: "wf_executor (put_thread ex0 0 th') \<and> runs (put_thread ex0 0 th') 0"
    if ex0: "threads ex0 = [start_thread]" "ex_module ex0 = m" "dead_threads ex0 = []"
      and f: "f < length (module_functions m)"
      and push: "pn_thread_push_function ex0 start_thread f (module_functions m ! f) = Inr th"
      and set: "pn_thread_set_value ex0 th k v = Inr th'" for ex0 f th th' k v
  proof -
    have "wf_thread m th" "thread_frames th \<noteq> []"
      using push_function_ok[of ex0 f start_thread] wf f push ex0(2)
      by (simp_all add: start_thread_def thread_locs_def)
    then have th': "wf_thread m th'" "thread_frames th' \<noteq> []"
      using set_value_same[OF _ set] wf_thread_same same_control_frames by blast+
    have "thread_state th = PN_THREAD_RUNNING"
      using push_function_state[OF push] by (simp add: start_thread_def)
    then have "thread_state th' = PN_THREAD_RUNNING"
      using set_value_same[OF \<open>thread_frames th \<noteq> []\<close> set] by (simp add: same_control_def)
    then show ?thesis using ex0 wf th'(1)
      by (simp add: wf_executor_def wf_dead_def put_thread_def get_thread_def nth_res_def)
  qed
  from init show ?thesis
    unfolding pn_executor_init_def pn_executor_init_module_values_def Let_def
    by (auto simp: res_simps put_thread_fields dest!: fin[rotated 3])
qed

definition counting_module :: PNModule where
  "counting_module = example_module\<lparr>
     module_functions := [example_function\<lparr>function_instructions := example_stream_code\<rparr>],
     known_functions := (\<lambda>_. PN_INVALID_FUNCTION_ID)(PN_INTRINSIC_START := 0),
     module_memory := (pn_memory_init 65536 (\<lambda>_. 0))\<lparr>startinfo_start := 1\<rparr>\<rparr>"

definition counting_at :: "address \<Rightarrow> PNRuntimeValue list \<Rightarrow> PNExecutor" where
  "counting_at a vs =
     \<lparr>ex_module = counting_module, ex_memory = module_memory counting_module, executor_values = [192],
      threads = [start_thread\<lparr>thread_frames := [\<lparr>frame_function_id = 0, frame_inst = 0,
        frame_values = vs, frame_jmpbufs = [], memory_stack_top = 0\<rparr>], thread_inst := a\<rparr>],
      main_thread = 0, dead_threads = [], sentinel_stack_top = 0,
      mapped_pages = \<lparr>num_words = 1, words = [0]\<rparr>, next_jmpbuf_id = 0,
      fd_map = [0, 1, 2] @ replicate (1000 - 3) (- 1), next_thread_id = 1, heap_end = 0, exit_code = 0,
      exiting = False, host_calls = []\<rparr>"

lemma counting_init: "pn_executor_init counting_module = Inr (counting_at 0 [1, 1, 0, 0, 0, 0])"
  by (simp add: pn_executor_init_def counting_module_def counting_at_def Let_def example_module_def
      pn_memory_init_def pn_module_init_def pn_is_aligned_def assert_align_def pn_is_power_of_two_def
      pn_bitset_init_def pn_executor_init_module_values_def module_value_def pn_function_id_to_pointer_def
      pn_thread_push_function_def example_function_def example_stream_code_def local_value_def
      pn_function_get_value_def pn_thread_set_value_def num_module_values_def current_frame_def put_frame_def
      stack_top_def start_thread_def put_thread_def)

lemma counting_thread:
  "get_thread (counting_at a vs) 0 = Inr (start_thread\<lparr>thread_frames := [\<lparr>frame_function_id = 0, frame_inst = 0,
     frame_values = vs, frame_jmpbufs = [], memory_stack_top = 0\<rparr>], thread_inst := a\<rparr>)"
  "fetch (counting_at a vs) 0 b = (case map_of example_stream_code b of
     None \<Rightarrow> Inl (Undefined ''no instruction at this address'') | Some i \<Rightarrow> Inr i)"
  "num_module_values (counting_at a vs) = 1" "main_thread (counting_at a vs) = 0" "host_calls (counting_at a vs) = []"
  by (simp_all add: counting_at_def get_thread_def fetch_def counting_module_def num_module_values_def
      example_module_def)

lemmas counting_defs = pn_thread_execute_instruction_def counting_thread example_stream_code_def start_thread_def
  jump_def pn_thread_do_phi_assigns_def advance_def Let_def pn_thread_get_value_def current_frame_def
  pn_thread_set_value_def put_frame_def set_and_advance_def exec_binop_def exec_cmp2_def

lemma run_quantum_numeral:
  "run_quantum builtin (numeral k) ex t =
     rbind (get_thread ex t) (\<lambda>th.
     if thread_state th = PN_THREAD_RUNNING
     then rbind (pn_thread_execute_instruction builtin ex t) (\<lambda>ex. run_quantum builtin (pred_numeral k) ex t)
     else Inr ex)"
  by (simp add: numeral_eq_Suc)

text \<open>The example program counts from one down to zero, and returns the zero as its exit code.\<close>

lemma counting_steps:
  "pn_thread_execute_instruction b (counting_at 0 [1, 1, 0, 0, 0, 0]) 0 = Inr (counting_at 36 [1, 1, 0, 1, 0, 0])"
  "pn_thread_execute_instruction b (counting_at 36 [1, 1, 0, 1, 0, 0]) 0 = Inr (counting_at 52 [1, 1, 0, 1, 0, 0])"
  "pn_thread_execute_instruction b (counting_at 52 [1, 1, 0, 1, 0, 0]) 0 = Inr (counting_at 68 [1, 1, 0, 1, 0, 1])"
  "pn_thread_execute_instruction b (counting_at 68 [1, 1, 0, 1, 0, 1]) 0 = Inr (counting_at 112 [1, 1, 0, 1, 0, 1])"
  by (simp_all add: counting_defs is_float_type_def int_binop_def get_u_def get_i_def pn_executor_value_def
      exec_icmp_def) (simp_all add: counting_at_def put_thread_def start_thread_def)

lemma counting_ret:
  "pn_thread_execute_instruction b (counting_at 112 [1, 1, 0, 1, 0, 1]) 0 =
     Inr ((counting_at 112 [])\<lparr>exiting := True, threads := [start_thread\<lparr>thread_frames := [], thread_inst := 112,
       thread_state := PN_THREAD_DEAD\<rparr>]\<rparr>)"
  by (simp add: counting_defs exec_ret_def, simp add: counting_at_def put_thread_def)

lemma counting_run:
  "pn_executor_run False still_host (counting_at 0 [1, 1, 0, 0, 0, 0]) =
     Some (Inr ((counting_at 112 [])\<lparr>exiting := True, threads := [start_thread\<lparr>thread_frames := [], thread_inst := 112,
       thread_state := PN_THREAD_DEAD\<rparr>]\<rparr>))"
  unfolding pn_executor_run_def counting_thread
  by (subst run_loop.simps)
    (simp add: pn_executor_run_step_def run_quantum_numeral counting_steps counting_ret counting_thread
       start_thread_def get_thread_def[of "_\<lparr>threads := _\<rparr>"])

text \<open>
  C3: Control-flow integrity. When every function of the module is a declaration or was translated by
  \<open>pn_function_calculate_opcodes\<close> from blocks in which only the last instruction branches and no call
  has more than 255 arguments, then a run of the module, whatever the program computes and the host
  answers, does not fail because there is no instruction at a thread's instruction pointer, a phi
  table is executed or missing behind a branch, a return or a \<open>longjmp\<close> does not find a call
  instruction where it goes back to, or a thread goes on with the sentinel frame; and if it ends, the
  executor is in a state from which this would still hold.
\<close>

theorem pn_run_control_flow:
  assumes "\<forall>f\<in>set (module_functions m). function_instructions f = [] \<or>
      (\<exists>m0 f0. pn_function_calculate_opcodes m0 f0 = Inr f \<and>
        (\<forall>bb\<in>set (bbs f0). branch_last bb \<and> (\<forall>i\<in>set (instructions bb). few_args i)))"
    and "pn_executor_init m = Inr ex" and "pn_executor_run access h ex = Some r"
  shows "ok_res (\<lambda>ex'. wf_executor ex' \<and> ex_module ex' = m) r"
proof -
  have "wf_functions m" using assms(1) by (auto simp: wf_functions_def dest: calculate_opcodes_wf)
  note init = executor_init_ok[OF assms(2) this]
  have "ok_res (run_ok ex) r"
    using run_loop_ok[of access h ex 0 r] init assms(3) by (simp add: pn_executor_run_def)
  then show ?thesis using init by (auto simp: run_ok_def elim: ok_res_mono)
qed

theorem pn_run_control_flow_witness:
  "\<exists>ex r. pn_executor_init counting_module = Inr ex \<and> pn_executor_run False still_host ex = Some (Inr r) \<and>
     wf_executor r \<and> ex_module r = counting_module"
proof -
  have "ok_res (\<lambda>ex'. wf_executor ex' \<and> ex_module ex' = counting_module)
      (Inr ((counting_at 112 [])\<lparr>exiting := True, threads := [start_thread\<lparr>thread_frames := [],
        thread_inst := 112, thread_state := PN_THREAD_DEAD\<rparr>]\<rparr>))"
  proof (rule pn_run_control_flow[OF _ counting_init counting_run])
    show "\<forall>f\<in>set (module_functions counting_module). function_instructions f = [] \<or>
      (\<exists>m0 f0. pn_function_calculate_opcodes m0 f0 = Inr f \<and>
        (\<forall>bb\<in>set (bbs f0). branch_last bb \<and> (\<forall>i\<in>set (instructions bb). few_args i)))"
      using example_calculate_opcodes
      by (auto simp: counting_module_def example_function_def example_bb_def branch_last_def
          intro!: exI[of _ example_module] exI[of _ example_function])
  qed
  then show ?thesis using counting_init counting_run by auto
qed

end
