(* ===== verification/Pn_Threads.thy ===== *)
theory Pn_Threads
  imports Pn_Scheduler
begin

text \<open>
  The ring of threads. The scheduler, \<open>futex_wake\<close> and thread creation walk and change a doubly linked
  ring; its abstract state is the list of the threads in order, from some thread on. Unlinking removes
  from the list, creation inserts behind the creating thread, scheduling takes the first thread that
  can run, and \<open>futex_wake\<close> wakes the first waiting ones.
\<close>

section \<open>Rings\<close>

definition next_of :: "PNExecutor \<Rightarrow> nat \<Rightarrow> nat" where
  "next_of ex t = thread_next (threads ex ! t)"

definition prev_of :: "PNExecutor \<Rightarrow> nat \<Rightarrow> nat" where
  "prev_of ex t = thread_prev (threads ex ! t)"

definition linked :: "PNExecutor \<Rightarrow> nat \<Rightarrow> nat \<Rightarrow> bool" where
  "linked ex x y \<longleftrightarrow> x < length (threads ex) \<and> y < length (threads ex) \<and> next_of ex x = y \<and> prev_of ex y = x"

fun chain :: "PNExecutor \<Rightarrow> nat \<Rightarrow> nat list \<Rightarrow> nat \<Rightarrow> bool" where
  "chain ex x [] y \<longleftrightarrow> linked ex x y"
| "chain ex x (z # zs) y \<longleftrightarrow> linked ex x z \<and> chain ex z zs y"

fun ring :: "PNExecutor \<Rightarrow> nat list \<Rightarrow> bool" where
  "ring ex [] \<longleftrightarrow> False"
| "ring ex (t # ts) \<longleftrightarrow> distinct (t # ts) \<and> chain ex t ts t"

lemma chain_append: "chain ex x (xs @ z # ys) y \<longleftrightarrow> chain ex x xs z \<and> chain ex z ys y"
  by (induction xs arbitrary: x) auto

lemma chain_bounds: "chain ex x xs y \<Longrightarrow> z \<in> insert x (insert y (set xs)) \<Longrightarrow> z < length (threads ex)"
  by (induction xs arbitrary: x) (auto simp: linked_def)

lemma ring_rotate: "ring ex (t # xs @ u # ys) \<longleftrightarrow> ring ex (u # ys @ t # xs)"
  by (auto simp: chain_append)

text \<open>A chain only depends on the forward links of its sources and the backward links of its targets.\<close>

lemma chain_frame:
  assumes "chain ex x xs y" "length (threads ex') = length (threads ex)"
    "\<And>z. z \<in> insert x (set xs) \<Longrightarrow> next_of ex' z = next_of ex z"
    "\<And>z. z \<in> insert y (set xs) \<Longrightarrow> prev_of ex' z = prev_of ex z"
  shows "chain ex' x xs y"
  using assms by (induction xs arbitrary: x) (auto simp: linked_def)

lemma put_thread_links:
  assumes "t < length (threads ex)"
  shows "next_of (put_thread ex t th) z = (if z = t then thread_next th else next_of ex z)"
    "prev_of (put_thread ex t th) z = (if z = t then thread_prev th else prev_of ex z)"
    "length (threads (put_thread ex t th)) = length (threads ex)"
  using assms by (auto simp: next_of_def prev_of_def put_thread_def)

lemma get_thread_in: "t < length (threads ex) \<Longrightarrow> get_thread ex t = Inr (threads ex ! t)"
  by (simp add: get_thread_def)

lemma linked_get: "linked ex x y \<Longrightarrow> get_thread ex x = Inr (threads ex ! x) \<and> thread_next (threads ex ! x) = y"
  by (simp add: linked_def get_thread_def next_of_def)

section \<open>Unlinking and linking\<close>

lemma chain_last:
  assumes "chain ex u us t" "distinct (t # u # us)"
  obtains p where "p \<in> insert u (set us)" "linked ex p t" "p \<noteq> t"
    "\<And>ex'. length (threads ex') = length (threads ex) \<Longrightarrow>
      (\<forall>z. next_of ex' z = (if z = p then w else next_of ex z)) \<Longrightarrow>
      (\<forall>z. z \<noteq> w \<longrightarrow> prev_of ex' z = prev_of ex z) \<Longrightarrow> prev_of ex' w = p \<Longrightarrow> w < length (threads ex) \<Longrightarrow>
      w \<notin> set us \<Longrightarrow> chain ex' u us w"
proof (cases us rule: rev_cases)
  case Nil
  with assms show ?thesis by (intro that[of u]) (auto simp: linked_def)
next
  case (snoc vs p)
  then have c: "chain ex u vs p" "linked ex p t" "p \<notin> set vs" "p \<noteq> u" "p \<noteq> t"
    using assms by (auto simp: chain_append)
  show ?thesis
  proof (rule that[of p])
    show "p \<in> insert u (set us)" "linked ex p t" "p \<noteq> t" using c snoc by auto
    fix ex' assume ex': "length (threads ex') = length (threads ex)"
      "\<forall>z. next_of ex' z = (if z = p then w else next_of ex z)" "\<forall>z. z \<noteq> w \<longrightarrow> prev_of ex' z = prev_of ex z"
      "prev_of ex' w = p" "w < length (threads ex)" "w \<notin> set us"
    have "chain ex' u vs p" by (rule chain_frame[OF c(1)]) (use ex' c snoc in auto)
    moreover have "linked ex' p w" using ex' c(2) by (auto simp: linked_def)
    ultimately show "chain ex' u us w" by (simp add: snoc chain_append)
  qed
qed

lemma unlink_ring:
  assumes "ring ex (t # u # us)"
  shows "\<exists>ex'. unlink_thread ex t = Inr ex' \<and> ring ex' (u # us) \<and> dead_threads ex' = t # dead_threads ex \<and>
    length (threads ex') = length (threads ex)"
proof -
  have c: "linked ex t u" "chain ex u us t" "distinct (t # u # us)" using assms by auto
  from chain_last[OF c(2,3), where w = u] obtain p where
    p: "p \<in> insert u (set us)" "linked ex p t" "p \<noteq> t"
    and fin: "\<And>ex'. length (threads ex') = length (threads ex) \<Longrightarrow>
      (\<forall>z. next_of ex' z = (if z = p then u else next_of ex z)) \<Longrightarrow>
      (\<forall>z. z \<noteq> u \<longrightarrow> prev_of ex' z = prev_of ex z) \<Longrightarrow> prev_of ex' u = p \<Longrightarrow> u < length (threads ex) \<Longrightarrow>
      u \<notin> set us \<Longrightarrow> chain ex' u us u" by metis
  have bounds: "t < length (threads ex)" "u < length (threads ex)" "p < length (threads ex)"
    using c(1) p(2) by (auto simp: linked_def)
  define ex1 where "ex1 = put_thread ex p ((threads ex ! p)\<lparr>thread_next := u\<rparr>)"
  define ex2 where "ex2 = put_thread ex1 u ((threads ex1 ! u)\<lparr>thread_prev := p\<rparr>)"
  have th: "thread_next (threads ex ! t) = u" "thread_prev (threads ex ! t) = p"
    using c(1) p(2) by (auto simp: linked_def next_of_def prev_of_def)
  have "threads ex1 ! t = threads ex ! t" using p(3) by (simp add: ex1_def put_thread_def)
  then have "unlink_thread ex t = Inr (ex2\<lparr>dead_threads := t # dead_threads ex2\<rparr>)"
    using bounds th by (simp add: unlink_thread_def get_thread_in Let_def ex1_def[symmetric] ex2_def[symmetric])
      (simp add: ex1_def ex2_def put_thread_def get_thread_def)
  moreover have "chain (ex2\<lparr>dead_threads := d\<rparr>) u us u" for d
    using bounds c(3)
    by (intro fin) (auto simp: next_of_def prev_of_def ex2_def ex1_def put_thread_def nth_list_update)
  ultimately show ?thesis using c(3) by (simp add: ex2_def ex1_def put_thread_def)
qed

lemma link_ring:
  assumes "ring ex (t # us)" "new \<notin> set (t # us)" "new < length (threads ex)"
  shows "\<exists>ex'. link_thread ex t new = Inr ex' \<and> ring ex' (t # new # us)"
proof -
  obtain n where n: "n = thread_next (threads ex ! t)" by simp
  have t: "t < length (threads ex)" using assms(1) chain_bounds by auto
  have nb: "n < length (threads ex)" "n \<noteq> new" "n \<in> insert t (set us)"
    using assms(1,2) by (cases us; auto simp: linked_def next_of_def n)+
  define ex1 where "ex1 = put_thread ex new ((threads ex ! new)\<lparr>thread_next := n, thread_prev := t\<rparr>)"
  define ex2 where "ex2 = put_thread ex1 n ((threads ex1 ! n)\<lparr>thread_prev := new\<rparr>)"
  define ex3 where "ex3 = put_thread ex2 t ((threads ex2 ! t)\<lparr>thread_next := new\<rparr>)"
  have len: "length (threads ex3) = length (threads ex)" by (simp add: ex3_def ex2_def ex1_def put_thread_def)
  have nx: "next_of ex3 z = (if z = t then new else if z = new then n else next_of ex z)" for z
    using t nb assms(2,3) by (auto simp: ex3_def ex2_def ex1_def put_thread_links put_thread_def next_of_def nth_list_update)
  have pv: "prev_of ex3 z = (if z = n then new else if z = new then t else prev_of ex z)" for z
    using t nb assms(2,3) by (auto simp: ex3_def ex2_def ex1_def put_thread_links put_thread_def prev_of_def nth_list_update)
  have "link_thread ex t new = Inr ex3"
    using t nb assms(3) by (simp add: link_thread_def get_thread_in Let_def n[symmetric])
      (simp add: ex3_def ex2_def ex1_def put_thread_def get_thread_def)
  moreover have "chain ex3 new us t"
  proof (cases us)
    case Nil
    with assms(1) have "n = t" by (simp add: linked_def next_of_def n)
    then show ?thesis using Nil nx pv t len assms(2,3) by (simp add: linked_def)
  next
    case (Cons v vs)
    with assms(1) have v: "n = v" "chain ex v vs t" "distinct (t # v # vs)" by (auto simp: linked_def next_of_def n)
    have "chain ex3 v vs t"
      by (rule chain_frame[OF v(2)]) (use v assms(2) nx pv len Cons in auto)
    then show ?thesis using Cons v nx pv t nb len assms(2,3) by (simp add: linked_def)
  qed
  moreover have "linked ex3 t new" using nx pv t len assms(2,3) nb by (simp add: linked_def)
  ultimately show ?thesis using assms(1,2) by auto
qed

section \<open>Scheduling\<close>

definition state_of :: "PNExecutor \<Rightarrow> nat \<Rightarrow> PNThreadState" where
  "state_of ex t = thread_state (threads ex ! t)"

text \<open>
  The reference: go through the ring from a thread on, and take the first that runs or whose timeout
  has passed. With it come whether it timed out, and the system calls made so far.
\<close>

fun pick :: "host \<Rightarrow> host_call list \<Rightarrow> PNExecutor \<Rightarrow> nat list \<Rightarrow> (nat \<times> bool \<times> host_call list) option" where
  "pick h l ex [] = None"
| "pick h l ex (t # ts) =
     (case state_of ex t of
        PN_THREAD_RUNNING \<Rightarrow> Some (t, False, l)
      | PN_THREAD_DEAD \<Rightarrow> None
      | PN_THREAD_BLOCKED \<Rightarrow>
          if timed_out (threads ex ! t) (gettimeofday h l) then Some (t, True, Host_gettimeofday # l)
          else pick h (Host_gettimeofday # l) ex ts
      | _ \<Rightarrow> None)"

definition picked :: "PNExecutor \<Rightarrow> nat \<times> bool \<times> host_call list \<Rightarrow> PNExecutor \<times> nat" where
  "picked ex p =
     (case p of (v, timeout, l) \<Rightarrow>
        let ex = ex\<lparr>host_calls := l\<rparr> in
        (if timeout then put_thread ex v ((threads ex ! v)\<lparr>thread_state := PN_THREAD_RUNNING,
                                                          futex_state := PN_FUTEX_TIMEDOUT\<rparr>) else ex, v))"

lemma chain_log [simp]: "chain (ex\<lparr>host_calls := l\<rparr>) x xs y \<longleftrightarrow> chain ex x xs y"
  by (induction xs arbitrary: x) (simp_all add: linked_def next_of_def prev_of_def)

lemma pick_log [simp]: "pick h l (ex\<lparr>host_calls := k\<rparr>) ts = pick h l ex ts"
  by (induction ts arbitrary: l) (simp_all add: state_of_def split: PNThreadState.splits)

lemma schedule_picks:
  "chain ex t ts u \<Longrightarrow> pick h (host_calls ex) ex (t # ts) = Some p \<Longrightarrow> schedule_next h ex t = Some (Inr (picked ex p))"
proof (induction ts arbitrary: t ex)
  case Nil
  then have "get_thread ex t = Inr (threads ex ! t)" by (simp add: linked_get)
  with Nil.prems show ?case
    by (subst schedule_next.simps)
      (auto simp: state_of_def picked_def log_call_def Let_def split: PNThreadState.splits if_splits)
next
  case (Cons a ts)
  have get: "get_thread ex t = Inr (threads ex ! t)" "thread_next (threads ex ! t) = a"
    using Cons.prems(1) linked_get[of ex t a] by simp_all
  show ?case
  proof (cases "state_of ex t = PN_THREAD_BLOCKED \<and> \<not> timed_out (threads ex ! t) (gettimeofday h (host_calls ex))")
    case True
    then have "schedule_next h ex t = schedule_next h (log_call Host_gettimeofday ex) a"
      by (subst schedule_next.simps) (simp add: get state_of_def Let_def)
    moreover have "picked (log_call Host_gettimeofday ex) p = picked ex p"
      by (simp add: picked_def log_call_def split: prod.splits)
    moreover have "pick h (host_calls (log_call Host_gettimeofday ex)) (log_call Host_gettimeofday ex) (a # ts) = Some p"
      using Cons.prems(2) True by (simp add: log_call_def del: pick.simps(2)) (simp only: pick.simps PNThreadState.case if_False)
    moreover have "chain (log_call Host_gettimeofday ex) a ts u" using Cons.prems(1) by (simp add: log_call_def)
    ultimately show ?thesis using Cons.IH by simp
  next
    case False
    then show ?thesis using Cons.prems(2) get
      by (subst schedule_next.simps)
        (auto simp: state_of_def picked_def log_call_def Let_def split: PNThreadState.splits if_splits)
  qed
qed

lemma pick_some:
  "\<forall>x\<in>set ts. state_of ex x \<in> {PN_THREAD_RUNNING, PN_THREAD_BLOCKED} \<Longrightarrow> u \<in> set ts \<Longrightarrow> state_of ex u = PN_THREAD_RUNNING \<Longrightarrow>
    \<exists>v w l'. pick h l ex ts = Some (v, w, l') \<and> v \<in> set ts \<and> (\<not> w \<longrightarrow> state_of ex v = PN_THREAD_RUNNING)"
proof (induction ts arbitrary: l)
  case (Cons t ts)
  show ?case
  proof (cases "state_of ex t = PN_THREAD_BLOCKED \<and> \<not> timed_out (threads ex ! t) (gettimeofday h l)")
    case True
    then have "\<exists>v w l'. pick h (Host_gettimeofday # l) ex ts = Some (v, w, l') \<and> v \<in> set ts \<and>
        (\<not> w \<longrightarrow> state_of ex v = PN_THREAD_RUNNING)"
      using Cons.prems by (intro Cons.IH) auto
    with True show ?thesis by fastforce
  qed (use Cons.prems in \<open>auto split: PNThreadState.splits\<close>)
qed simp

text \<open>Three threads in a ring, for examples: each is given by its state and links.\<close>

definition ring_thread :: "PNThreadState \<Rightarrow> nat \<Rightarrow> nat \<Rightarrow> PNThread" where
  "ring_thread st nx pv = start_thread\<lparr>thread_state := st, thread_next := nx, thread_prev := pv, wait_addr := 4096\<rparr>"

definition ring_executor :: "PNThreadState \<Rightarrow> PNExecutor" where
  "ring_executor st = (counting_at 0 [])\<lparr>threads :=
     [ring_thread st 1 2, ring_thread PN_THREAD_BLOCKED 2 0, ring_thread PN_THREAD_BLOCKED 0 1]\<rparr>"

lemma ring_executor_ring: "ring (ring_executor st) [0, 1, 2]" "ring (ring_executor st) [1, 2, 0]"
  by (simp_all add: ring_executor_def linked_def next_of_def prev_of_def ring_thread_def)

lemma ring_executor_states:
  "state_of (ring_executor st) 0 = st" "state_of (ring_executor st) 1 = PN_THREAD_BLOCKED"
  "state_of (ring_executor st) 2 = PN_THREAD_BLOCKED" "state_of (ring_executor st) (Suc 0) = PN_THREAD_BLOCKED"
  by (simp_all add: ring_executor_def state_of_def ring_thread_def)

text \<open>
  C15: When the threads form a ring of running and blocked threads and one of them runs, the search for the
  next thread returns: the thread it returns is the first of the ring, from the given thread on, that runs
  or whose timeout has passed at the time its turn comes; the thread then runs, and nothing else has
  changed.
\<close>

theorem pn_schedule_next_returns:
  assumes "ring ex (t # ts)" and "\<forall>x\<in>set (t # ts). state_of ex x \<in> {PN_THREAD_RUNNING, PN_THREAD_BLOCKED}"
    and "\<exists>u\<in>set (t # ts). state_of ex u = PN_THREAD_RUNNING"
  shows "\<exists>p. pick h (host_calls ex) ex (t # ts) = Some p \<and> schedule_next h ex t = Some (Inr (picked ex p)) \<and>
    fst p \<in> set (t # ts) \<and> state_of (fst (picked ex p)) (fst p) = PN_THREAD_RUNNING"
proof -
  from assms(3) obtain u where u: "u \<in> set (t # ts)" "state_of ex u = PN_THREAD_RUNNING" by blast
  from pick_some[OF assms(2) u] obtain v w l where
    p: "pick h (host_calls ex) ex (t # ts) = Some (v, w, l)" "v \<in> set (t # ts)" "\<not> w \<longrightarrow> state_of ex v = PN_THREAD_RUNNING"
    by blast
  have c: "chain ex t ts t" using assms(1) by simp
  from p(2) c have "v < length (threads ex)" using chain_bounds by auto
  then show ?thesis using schedule_picks[OF c p(1)] p by (auto simp: picked_def state_of_def put_thread_def Let_def)
qed

theorem pn_schedule_next_returns_witness:
  "\<exists>p. schedule_next still_host (ring_executor PN_THREAD_RUNNING) 1 = Some (Inr (picked (ring_executor PN_THREAD_RUNNING) p)) \<and>
     fst p \<in> {0, 1, 2}"
  using pn_schedule_next_returns[OF ring_executor_ring(2), of PN_THREAD_RUNNING still_host]
  by (auto simp: ring_executor_states)

text \<open>
  C40: When all threads of the ring are blocked without a timeout, the search never returns: the
  scheduler does not detect the deadlock.
\<close>

theorem pn_schedule_deadlock_spins:
  assumes "ring ex (t # ts)"
    and "\<forall>x\<in>set (t # ts). state_of ex x = PN_THREAD_BLOCKED \<and> \<not> has_timeout (threads ex ! x)"
  shows "schedule_next h ex t = None"
proof (rule ccontr)
  assume "schedule_next h ex t \<noteq> None"
  then obtain r where r: "schedule_next h ex t = Some r" by auto
  define stuck where "stuck S ex t \<longleftrightarrow> t \<in> S \<and> (\<forall>x\<in>S. x < length (threads ex) \<and> next_of ex x \<in> S \<and>
    state_of ex x = PN_THREAD_BLOCKED \<and> \<not> has_timeout (threads ex ! x))" for S ex t
  have "stuck (set (t # ts)) ex t \<longrightarrow> False"
  proof (rule schedule_next.raw_induct[where P = "\<lambda>h ex u r. stuck (set (t # ts)) ex u \<longrightarrow> False", OF _ r], intro impI)
    fix rec and h :: host and ex u r
    assume IH: "\<And>h ex u r. rec h ex u = Some r \<Longrightarrow> stuck (set (t # ts)) ex u \<longrightarrow> False"
      and eq: "(case get_thread ex u of Inl e \<Rightarrow> Some (Inl e)
        | Inr th \<Rightarrow>
            (case thread_state th of
               PN_THREAD_DEAD \<Rightarrow> Some (Inl (Assertion ''thread->state != PN_THREAD_DEAD''))
             | PN_THREAD_RUNNING \<Rightarrow> Some (Inr (ex, u))
             | PN_THREAD_BLOCKED \<Rightarrow>
                 let tv = gettimeofday h (host_calls ex); ex = log_call Host_gettimeofday ex in
                 if timed_out th tv
                 then Some (Inr (put_thread ex u (th\<lparr>thread_state := PN_THREAD_RUNNING,
                                                     futex_state := PN_FUTEX_TIMEDOUT\<rparr>), u))
                 else rec h ex (thread_next th)
             | _ \<Rightarrow> Some (Inl (Fatal ''unreachable'')))) = Some r"
      and stuck: "stuck (set (t # ts)) ex u"
    have u: "u < length (threads ex)" "thread_state (threads ex ! u) = PN_THREAD_BLOCKED" "\<not> has_timeout (threads ex ! u)"
      using stuck unfolding stuck_def state_of_def by blast+
    then have "rec h (log_call Host_gettimeofday ex) (next_of ex u) = Some r"
      using eq by (simp add: get_thread_in next_of_def timed_out_def Let_def)
    moreover have "stuck (set (t # ts)) (log_call Host_gettimeofday ex) (next_of ex u)"
      using stuck by (auto simp: stuck_def state_of_def next_of_def log_call_def)
    ultimately show False using IH by blast
  qed
  moreover have "next_of ex x \<in> insert y (set xs)" if "chain ex z xs y" "x \<in> insert z (set xs)" for x y z xs
    using that by (induction xs arbitrary: z) (auto simp: linked_def)
  ultimately show False using assms chain_bounds[of ex t ts t] by (auto simp: stuck_def)
qed

theorem pn_schedule_deadlock_spins_witness: "schedule_next still_host (ring_executor PN_THREAD_BLOCKED) 0 = None"
  by (rule pn_schedule_deadlock_spins[OF ring_executor_ring(1)])
    (simp add: ring_executor_states, simp add: ring_executor_def ring_thread_def start_thread_def)

section \<open>Waking\<close>

definition waits :: "PNExecutor \<Rightarrow> u32 \<Rightarrow> nat \<Rightarrow> bool" where
  "waits ex a t \<longleftrightarrow> state_of ex t = PN_THREAD_BLOCKED \<and> wait_addr (threads ex ! t) = a"

definition wake :: "nat set \<Rightarrow> PNExecutor \<Rightarrow> PNExecutor" where
  "wake S ex = ex\<lparr>threads := map (\<lambda>i. if i \<in> S
     then (threads ex ! i)\<lparr>thread_state := PN_THREAD_RUNNING, futex_state := PN_FUTEX_WOKEN\<rparr>
     else threads ex ! i) [0..<length (threads ex)]\<rparr>"

lemma wake_nth: "i < length (threads ex) \<Longrightarrow> threads (wake S ex) ! i =
    (if i \<in> S then (threads ex ! i)\<lparr>thread_state := PN_THREAD_RUNNING, futex_state := PN_FUTEX_WOKEN\<rparr>
     else threads ex ! i)"
  by (simp add: wake_def)

lemma wake_put:
  assumes "i < length (threads ex)"
  shows "wake S (put_thread ex i ((threads ex ! i)\<lparr>thread_state := PN_THREAD_RUNNING, futex_state := PN_FUTEX_WOKEN\<rparr>)) =
    wake (insert i S) ex"
  using assms by (auto simp: wake_def put_thread_def nth_list_update intro!: nth_equalityI)

lemma wake_none [simp]: "wake {} ex = ex"
proof -
  have "map (\<lambda>i. threads ex ! i) [0..<length (threads ex)] = threads ex" by (rule map_nth)
  then show ?thesis by (simp add: wake_def)
qed

lemma chain_put_state:
  assumes "i < length (threads ex)" "thread_next th = next_of ex i" "thread_prev th = prev_of ex i"
  shows "chain (put_thread ex i th) x xs y \<longleftrightarrow> chain ex x xs y"
proof -
  have "next_of (put_thread ex i th) = next_of ex" "prev_of (put_thread ex i th) = prev_of ex"
    using put_thread_links[OF assms(1)] assms(2,3) by auto
  then have "linked (put_thread ex i th) = linked ex"
    using assms(1) by (auto simp: linked_def put_thread_links(3) fun_eq_iff)
  then show ?thesis by (induction xs arbitrary: x) simp_all
qed

lemma wake_ring_path:
  assumes "chain ex x us t" "distinct us" "t \<notin> set us" "length us \<le> fuel"
    "woken \<le> nwake" "unat woken + length us < 2 ^ 32"
  shows "wake_ring fuel a nwake t (hd (us @ [t])) woken ex =
    (let ws = take (unat nwake - unat woken) (filter (waits ex a) us) in
     Inr (woken + of_nat (length ws), wake (set ws) ex))"
  using assms
proof (induction us arbitrary: x woken ex fuel)
  case Nil
  then show ?case by (subst wake_ring.simps) simp
next
  case (Cons b us)
  note prems = Cons.prems
  have b: "b < length (threads ex)" "chain ex b us t" "b \<noteq> t" using prems by (auto simp: linked_def)
  have nx: "thread_next (threads ex ! b) = hd (us @ [t])"
    using b(2) by (cases us) (auto simp: linked_def next_of_def)
  from prems(4) obtain fuel' where fuel: "fuel = Suc fuel'" "length us \<le> fuel'" by (cases fuel) auto
  show ?case
  proof (cases "woken < nwake")
    case False
    then have "woken = nwake" using prems(5) by simp
    then show ?thesis using b(3) by (subst wake_ring.simps) simp
  next
    case True
    then have small: "unat woken < unat nwake" by (simp add: word_less_nat_alt)
    have step: "wake_ring fuel a nwake t (hd ((b # us) @ [t])) woken ex =
        (if waits ex a b then wake_ring fuel' a nwake t (hd (us @ [t])) (woken + 1) (put_thread ex b
           ((threads ex ! b)\<lparr>thread_state := PN_THREAD_RUNNING, futex_state := PN_FUTEX_WOKEN\<rparr>))
         else wake_ring fuel' a nwake t (hd (us @ [t])) woken ex)"
      using True b by (subst wake_ring.simps) (simp add: fuel(1) get_thread_in waits_def state_of_def nx)
    show ?thesis
    proof (cases "waits ex a b")
      case False
      then show ?thesis unfolding step using Cons.IH[OF b(2) _ _ fuel(2) prems(5)] prems by simp
    next
      case waits: True
      define ex' where "ex' = put_thread ex b ((threads ex ! b)\<lparr>thread_state := PN_THREAD_RUNNING, futex_state := PN_FUTEX_WOKEN\<rparr>)"
      have one: "unat (woken + 1) = Suc (unat woken)" using prems(6) by (simp add: unat_word_ariths)
      have "chain ex' b us t" using b by (simp add: ex'_def chain_put_state next_of_def prev_of_def)
      then have "wake_ring fuel' a nwake t (hd (us @ [t])) (woken + 1) ex' =
          (let ws = take (unat nwake - Suc (unat woken)) (filter (waits ex' a) us) in
           Inr (woken + 1 + of_nat (length ws), wake (set ws) ex'))"
        using Cons.IH[of ex' b fuel' "woken + 1"] prems fuel small one by (simp add: word_le_nat_alt)
      moreover have "filter (waits ex' a) us = filter (waits ex a) us"
      proof (rule filter_cong)
        fix z assume "z \<in> set us"
        then have "z \<noteq> b" using prems(2) by auto
        then show "waits ex' a z = waits ex a z" by (simp add: waits_def state_of_def ex'_def put_thread_def)
      qed simp
      moreover have "unat nwake - unat woken = Suc (unat nwake - Suc (unat woken))" using small by simp
      ultimately show ?thesis unfolding step using waits b(1)
        by (simp add: ex'_def[symmetric] Let_def) (simp add: ex'_def wake_put)
    qed
  qed
qed

text \<open>
  C16: \<open>futex_wake\<close> ends, and it wakes exactly the first \<open>nwake\<close> threads, in ring order behind the
  caller, that wait on the address, or all of them when there are fewer; it returns their number, and
  no other thread is changed.
\<close>

theorem pn_futex_wake_spec:
  assumes "ring ex (t # us)" and "length (threads ex) < 2 ^ 32"
  shows "\<exists>ws. ws = take (unat nwake) (filter (waits ex a) us) \<and>
    wake_ring (length (threads ex)) a nwake t (next_of ex t) 0 ex = Inr (of_nat (length ws), wake (set ws) ex)"
proof -
  have c: "chain ex t us t" "distinct us" "t \<notin> set us" using assms(1) by auto
  have "set us \<subseteq> {0..<length (threads ex)}" using chain_bounds[OF c(1)] by auto
  from card_mono[OF _ this] have len: "length us \<le> length (threads ex)"
    using distinct_card[OF c(2)] by simp
  have "next_of ex t = hd (us @ [t])" using c(1) by (cases us) (auto simp: linked_def)
  then show ?thesis using wake_ring_path[OF c len, of 0 nwake a] assms(2) len by (simp add: Let_def)
qed

theorem pn_futex_wake_spec_witness:
  "wake_ring 3 4096 1 0 1 0 (ring_executor PN_THREAD_RUNNING) = Inr (1, wake {1} (ring_executor PN_THREAD_RUNNING))"
proof -
  have w: "waits (ring_executor PN_THREAD_RUNNING) 4096 1" "waits (ring_executor PN_THREAD_RUNNING) 4096 2"
    by (simp_all add: waits_def ring_executor_states ring_executor_states(2)[unfolded One_nat_def])
      (simp_all add: ring_executor_def ring_thread_def)
  have n: "next_of (ring_executor PN_THREAD_RUNNING) 0 = 1" "length (threads (ring_executor PN_THREAD_RUNNING)) = 3"
    by (simp_all add: next_of_def ring_executor_def ring_thread_def)
  show ?thesis
    using pn_futex_wake_spec[OF ring_executor_ring(1), of PN_THREAD_RUNNING 1 4096] w unfolding n by simp
qed

text \<open>
  A dead thread is removed from the ring and put into the list of dead threads; a new thread is
  inserted into the ring behind the thread that creates it. The other threads keep their order.
\<close>

theorem pn_ring_unlink_link:
  assumes "ring ex (t # u # us)"
  shows "(\<exists>ex'. unlink_thread ex t = Inr ex' \<and> ring ex' (u # us) \<and> dead_threads ex' = t # dead_threads ex) \<and>
    (\<forall>new < length (threads ex). new \<notin> set (t # u # us) \<longrightarrow>
      (\<exists>ex'. link_thread ex t new = Inr ex' \<and> ring ex' (t # new # u # us)))"
  using unlink_ring[OF assms] link_ring[OF assms] by blast

theorem pn_ring_unlink_link_witness:
  "\<exists>ex'. unlink_thread (ring_executor PN_THREAD_DEAD) 0 = Inr ex' \<and> ring ex' [1, 2]"
  using pn_ring_unlink_link[OF ring_executor_ring(1)] by blast

end
