(* ===== verification/Pn_Analyses.thy ===== *)
theory Pn_Analyses
  imports Pn_Types Pn_Bitset
begin

text \<open>
  The passes over a function between reading and translation, in the default build:
  \<^verbatim>\<open>src/pn_calculate_result_value_types.h\<close>, \<^verbatim>\<open>src/pn_calculate_uses.h\<close> and
  \<^verbatim>\<open>src/pn_calculate_phi_assigns.h\<close>. The first gives the results of \<open>BINOP\<close> and \<open>VSELECT\<close> their
  types, which may depend on values that are defined later; the second collects the operands of the
  phi instructions of a block; the third turns them into the assignments that each predecessor does
  when it branches.
\<close>

section \<open>Types of results\<close>

definition pn_type_get_implicit_cast_type :: "PNModule \<Rightarrow> PNTypeId \<Rightarrow> PNTypeId \<Rightarrow> PNTypeId res" where
  "pn_type_get_implicit_cast_type module type0_id type1_id =
     (if type0_id = type1_id then Inr type0_id
      else rbind (nth_res (types module) type0_id) (\<lambda>type0.
        rbind (nth_res (types module) type1_id) (\<lambda>type1.
        Inr (if type_code type0 = PN_TYPE_CODE_FUNCTION \<and> type_code type1 = PN_TYPE_CODE_INTEGER \<and> type_width type1 = 32
             then type1_id
             else if type_code type0 = PN_TYPE_CODE_INTEGER \<and> type_width type0 = 32 \<and> type_code type1 = PN_TYPE_CODE_FUNCTION
             then type1_id
             else PN_INVALID_TYPE_ID))))"

text \<open>
  The result of an instruction is a value of the function, as \<open>pn_function_append_value\<close> made it; only
  those are written here.
\<close>

definition set_value_type :: "PNModule \<Rightarrow> PNFunction \<Rightarrow> PNValueId \<Rightarrow> PNTypeId \<Rightarrow> PNFunction res" where
  "set_value_type module f value_id type_id =
     rbind (ensure (length (module_values module) \<le> value_id) (Undefined ''result is a value of the module'')) (\<lambda>_.
     let n = value_id - length (module_values module) in
     rbind (nth_res (function_values f) n) (\<lambda>v.
     Inr (f\<lparr>function_values := (function_values f)[n := v\<lparr>value_type_id := type_id\<rparr>]\<rparr>)))"

definition pn_function_assign_result_value_type ::
    "PNModule \<Rightarrow> PNFunction \<Rightarrow> PNValueId \<Rightarrow> PNValueId \<Rightarrow> PNValueId \<Rightarrow> (bool \<times> PNFunction) res" where
  "pn_function_assign_result_value_type module f result_value_id value0_id value1_id =
     rbind (pn_function_get_value module f result_value_id) (\<lambda>result_value.
     rbind (pn_function_get_value module f value0_id) (\<lambda>value0.
     rbind (pn_function_get_value module f value1_id) (\<lambda>value1.
     if value_type_id value0 = PN_INVALID_TYPE_ID \<or> value_type_id value1 = PN_INVALID_TYPE_ID
     then Inr (False, f)
     else rbind (pn_type_get_implicit_cast_type module (value_type_id value0) (value_type_id value1)) (\<lambda>type_id.
       rbind (set_value_type module f result_value_id type_id) (\<lambda>f.
       rbind (pn_type_id_check module type_id) (\<lambda>_. Inr (True, f)))))))"

fun pn_instruction_calculate_result_value_type ::
    "PNModule \<Rightarrow> PNFunction \<Rightarrow> PNInstruction \<Rightarrow> (bool \<times> PNFunction) res" where
  "pn_instruction_calculate_result_value_type module f (InstBinop r v0 v1 opcode flags) =
     pn_function_assign_result_value_type module f r v0 v1"
| "pn_instruction_calculate_result_value_type module f (InstVselect r cond v0 v1) =
     pn_function_assign_result_value_type module f r v0 v1"
| "pn_instruction_calculate_result_value_type module f _ = Inr (True, f)"

text \<open>The pass over all instructions; those it cannot type yet are collected.\<close>

fun type_instructions :: "PNModule \<Rightarrow> PNInstruction list \<Rightarrow> PNInstruction list \<Rightarrow> PNFunction \<Rightarrow>
    (PNInstruction list \<times> PNFunction) res" where
  "type_instructions module [] invalid f = Inr (invalid, f)"
| "type_instructions module (inst # insts) invalid f =
     rbind (pn_instruction_calculate_result_value_type module f inst) (\<lambda>(resolved, f).
     type_instructions module insts (if resolved then invalid else invalid @ [inst]) f)"

text \<open>A pass over the collected ones: a typed instruction is replaced by the last of the list.\<close>

function (sequential) resolve_pass :: "PNModule \<Rightarrow> nat \<Rightarrow> PNInstruction list \<Rightarrow> PNFunction \<Rightarrow>
    (PNInstruction list \<times> PNFunction) res" where
  "resolve_pass module n invalid f =
     (if n < length invalid then
        rbind (pn_instruction_calculate_result_value_type module f (invalid ! n)) (\<lambda>(resolved, f).
        if resolved then resolve_pass module n (butlast (invalid[n := last invalid])) f
        else resolve_pass module (Suc n) invalid f)
      else Inr (invalid, f))"
  by pat_completeness auto
termination by (relation "measure (\<lambda>(_, n, invalid, _). length invalid - n)") auto

declare resolve_pass.simps [simp del]

lemma resolve_pass_length: "resolve_pass module n invalid f = Inr (invalid', f') \<Longrightarrow> length invalid' \<le> length invalid"
proof (induction module n invalid f rule: resolve_pass.induct)
  case (1 module n invalid f)
  show ?case
  proof (cases "n < length invalid")
    case True
    with "1.prems" obtain resolved g where
      r: "pn_instruction_calculate_result_value_type module f (invalid ! n) = Inr (resolved, g)"
      "(if resolved then resolve_pass module n (butlast (invalid[n := last invalid])) g
        else resolve_pass module (Suc n) invalid g) = Inr (invalid', f')"
      by (subst (asm) resolve_pass.simps) (auto simp: res_simps)
    show ?thesis
      using "1.IH"(1)[OF True r(1) refl] "1.IH"(2)[OF True r(1) refl] r(2) by (cases resolved) auto
  next
    case False
    with "1.prems" show ?thesis by (subst (asm) resolve_pass.simps) auto
  qed
qed

function (sequential) resolve_loop :: "PNModule \<Rightarrow> nat \<Rightarrow> PNInstruction list \<Rightarrow> PNFunction \<Rightarrow>
    (PNInstruction list \<times> PNFunction) res" where
  "resolve_loop module last_invalid invalid f =
     (if last_invalid \<noteq> length invalid then
        rbind (resolve_pass module 0 invalid f) (\<lambda>(invalid', f). resolve_loop module (length invalid) invalid' f)
      else Inr (invalid, f))"
  by pat_completeness auto
termination
  by (relation "measure (\<lambda>(_, last_invalid, invalid, _). length invalid + of_bool (last_invalid \<noteq> length invalid))")
    (auto dest!: resolve_pass_length)

declare resolve_loop.simps [simp del]

definition pn_function_calculate_result_value_types :: "PNModule \<Rightarrow> PNFunction \<Rightarrow> PNFunction res" where
  "pn_function_calculate_result_value_types module f =
     rbind (type_instructions module (concat (map instructions (bbs f))) [] f) (\<lambda>(invalid, f).
     rbind (if invalid \<noteq> [] then resolve_loop module 0 invalid f else Inr (invalid, f)) (\<lambda>(invalid, f).
     rbind (ensure (invalid = []) (Fatal ''Unable to resolve types'')) (\<lambda>_. Inr f)))"

section \<open>Uses and phi assignments\<close>

fun phi_uses_of :: "PNInstruction \<Rightarrow> PNPhiUse list" where
  "phi_uses_of (InstPhi r incoming type_id) =
     map (\<lambda>(bb_id, value_id). \<lparr>use_dest_value_id = r, use_incoming_bb_id = bb_id, use_incoming_value_id = value_id\<rparr>) incoming"
| "phi_uses_of _ = []"

definition pn_basic_block_calculate_uses :: "PNBasicBlock \<Rightarrow> PNBasicBlock" where
  "pn_basic_block_calculate_uses bb = bb\<lparr>phi_uses := phi_uses bb @ concat (map phi_uses_of (instructions bb))\<rparr>"

definition pn_function_calculate_uses :: "PNFunction \<Rightarrow> PNFunction" where
  "pn_function_calculate_uses f = f\<lparr>bbs := map pn_basic_block_calculate_uses (bbs f)\<rparr>"

text \<open>
  The first loop counts the assignments of every block, the last one fills arrays of these sizes; here
  the arrays are lists that grow, and of the first loop its assertion remains.
\<close>

definition check_phi_uses :: "PNBasicBlock list \<Rightarrow> unit res" where
  "check_phi_uses bs = ensure (\<forall>bb\<in>set bs. \<forall>use\<in>set (phi_uses bb). use_incoming_bb_id use < length bs)
     (Assertion ''use->incoming.bb_id < function->num_bbs'')"

definition append_phi_assign :: "nat \<Rightarrow> PNPhiUse \<Rightarrow> PNBasicBlock list \<Rightarrow> PNBasicBlock list" where
  "append_phi_assign n use bs =
     bs[use_incoming_bb_id use := (bs ! use_incoming_bb_id use)
       \<lparr>phi_assigns := phi_assigns (bs ! use_incoming_bb_id use) @
          [\<lparr>assign_bb_id = n mod 2 ^ 16, source_value_id = use_incoming_value_id use, dest_value_id = use_dest_value_id use\<rparr>]\<rparr>]"

definition fill_phi_assigns :: "PNBasicBlock list \<Rightarrow> PNBasicBlock list" where
  "fill_phi_assigns bs =
     fold (\<lambda>n bs'. fold (append_phi_assign n) (phi_uses (bs ! n)) bs') [0..<length bs]
       (map (\<lambda>bb. bb\<lparr>phi_assigns := []\<rparr>) bs)"

text \<open>
  Whether a block's assignments may be done one after the other. The loop remembers the block of the
  first assignment in \<open>bb_id\<close> and compares sources with earlier destinations for that block.
\<close>

function (sequential) fast_phi_loop :: "PNPhiAssign list \<Rightarrow> nat \<Rightarrow> nat \<Rightarrow> PNBasicBlockId \<Rightarrow> PNBitSet \<Rightarrow> bool res" where
  "fast_phi_loop assigns m first bb_id seen_bb =
     (if m < length assigns then
        let assign = assigns ! m in
        rbind (if bb_id = PN_INVALID_BB_ID
               then rbind (pn_bitset_is_set seen_bb (of_nat (assign_bb_id assign))) (\<lambda>s. Inr (\<not> s))
               else Inr False) (\<lambda>fresh.
        if fresh then
          rbind (pn_bitset_set seen_bb (of_nat (assign_bb_id assign)) True) (\<lambda>seen_bb.
          fast_phi_loop assigns (Suc m) m (assign_bb_id assign) seen_bb)
        else if assign_bb_id assign = bb_id then
          if \<exists>k\<in>set [first..<m]. source_value_id assign = dest_value_id (assigns ! k) then Inr False
          else fast_phi_loop assigns (Suc m) first bb_id seen_bb
        else fast_phi_loop assigns (Suc m) first bb_id seen_bb)
      else Inr True)"
  by pat_completeness auto
termination by (relation "measure (\<lambda>(assigns, m, _). length assigns - m)") auto

declare fast_phi_loop.simps [simp del]

fun fast_phi_flags :: "PNBasicBlock list \<Rightarrow> PNBitSet \<Rightarrow> PNBasicBlock list res" where
  "fast_phi_flags [] seen_bb = Inr []"
| "fast_phi_flags (bb # bs) seen_bb =
     rbind (fast_phi_loop (phi_assigns bb) 0 0 PN_INVALID_BB_ID (pn_bitset_clear seen_bb)) (\<lambda>fast.
     rbind (fast_phi_flags bs seen_bb) (\<lambda>bs. Inr (bb\<lparr>fast_phi_assign := fast\<rparr> # bs)))"

definition pn_function_calculate_phi_assigns :: "PNFunction \<Rightarrow> PNFunction res" where
  "pn_function_calculate_phi_assigns f =
     rbind (check_phi_uses (bbs f)) (\<lambda>_.
     rbind (pn_bitset_init (length (bbs f))) (\<lambda>seen_bb.
     rbind (fast_phi_flags (fill_phi_assigns (bbs f)) seen_bb) (\<lambda>bs. Inr (f\<lparr>bbs := bs\<rparr>))))"

section \<open>What the passes compute\<close>

subsection \<open>Phi assignments\<close>

text \<open>The reference: the assignments of block \<open>b\<close> in the order of the phi uses that name it.\<close>

definition assign_of :: "nat \<Rightarrow> PNPhiUse \<Rightarrow> PNPhiAssign" where
  "assign_of n use = \<lparr>assign_bb_id = n mod 2 ^ 16, source_value_id = use_incoming_value_id use,
     dest_value_id = use_dest_value_id use\<rparr>"

definition incoming_from :: "nat \<Rightarrow> PNBasicBlock \<Rightarrow> PNPhiUse list" where
  "incoming_from b bb = filter (\<lambda>use. use_incoming_bb_id use = b) (phi_uses bb)"

definition phi_assigns_of :: "PNBasicBlock list \<Rightarrow> nat \<Rightarrow> PNPhiAssign list" where
  "phi_assigns_of bs b = concat (map (\<lambda>n. map (assign_of n) (incoming_from b (bs ! n))) [0..<length bs])"

lemma append_phi_assigns:
  assumes "\<forall>use\<in>set uses. use_incoming_bb_id use < length bs"
  shows "length (fold (append_phi_assign n) uses bs) = length bs"
    "b < length bs \<Longrightarrow> fold (append_phi_assign n) uses bs ! b =
      (bs ! b)\<lparr>phi_assigns := phi_assigns (bs ! b) @ map (assign_of n) (filter (\<lambda>use. use_incoming_bb_id use = b) uses)\<rparr>"
  using assms
proof (induction uses arbitrary: bs)
  case Nil
  { case 2 then show ?case by simp }
next
  case (Cons u uses)
  { case 1 with Cons.IH(1)[of "append_phi_assign n u bs"] show ?case by (simp add: append_phi_assign_def) }
  { case 2 with Cons.IH(2)[of "append_phi_assign n u bs"] show ?case
      by (auto simp: append_phi_assign_def assign_of_def nth_list_update) }
qed simp

lemma fill_phi_assigns_nth:
  assumes "check_phi_uses bs = Inr ()" and "b < length bs"
  shows "length (fill_phi_assigns bs) = length bs"
    "fill_phi_assigns bs ! b = (bs ! b)\<lparr>phi_assigns := phi_assigns_of bs b\<rparr>"
proof -
  let ?g = "\<lambda>n. map (assign_of n) (incoming_from b (bs ! n))"
  have c: "\<forall>n<length bs. \<forall>use\<in>set (phi_uses (bs ! n)). use_incoming_bb_id use < length bs"
    using assms(1) by (auto simp: check_phi_uses_def res_simps)
  have "length (fold (\<lambda>n. fold (append_phi_assign n) (phi_uses (bs ! n))) ns bs') = length bs' \<and>
    fold (\<lambda>n. fold (append_phi_assign n) (phi_uses (bs ! n))) ns bs' ! b =
      (bs' ! b)\<lparr>phi_assigns := phi_assigns (bs' ! b) @ concat (map ?g ns)\<rparr>"
    if "\<forall>n\<in>set ns. n < length bs" "length bs' = length bs" for ns bs'
    using that
  proof (induction ns arbitrary: bs')
    case (Cons n ns)
    then have "\<forall>use\<in>set (phi_uses (bs ! n)). use_incoming_bb_id use < length bs'" using c Cons.prems by auto
    note step = append_phi_assigns[OF this]
    from Cons.IH[of "fold (append_phi_assign n) (phi_uses (bs ! n)) bs'"] Cons.prems step assms(2) show ?case
      by (simp add: incoming_from_def)
  qed simp
  from this[of "[0..<length bs]" "map (\<lambda>bb. bb\<lparr>phi_assigns := []\<rparr>) bs"] assms(2)
  show "length (fill_phi_assigns bs) = length bs"
    "fill_phi_assigns bs ! b = (bs ! b)\<lparr>phi_assigns := phi_assigns_of bs b\<rparr>"
    by (simp_all add: fill_phi_assigns_def phi_assigns_of_def)
qed

text \<open>
  The flag: only the assignments to the block of the first one are looked at, since \<open>bb_id\<close> is never
  made invalid again.
\<close>

definition first_conflict_free :: "PNPhiAssign list \<Rightarrow> bool" where
  "first_conflict_free as \<longleftrightarrow> (\<forall>m<length as. assign_bb_id (as ! m) = assign_bb_id (hd as) \<longrightarrow>
     (\<forall>k<m. source_value_id (as ! m) \<noteq> dest_value_id (as ! k)))"

lemma fast_phi_loop_from:
  assumes "bb_id \<noteq> PN_INVALID_BB_ID"
  shows "fast_phi_loop as m 0 bb_id seen = Inr (\<forall>i<length as. m \<le> i \<longrightarrow> assign_bb_id (as ! i) = bb_id \<longrightarrow>
     (\<forall>k<i. source_value_id (as ! i) \<noteq> dest_value_id (as ! k)))"
proof (induction "length as - m" arbitrary: m)
  case 0
  then show ?case by (subst fast_phi_loop.simps) auto
next
  case (Suc d)
  let ?ok = "\<lambda>i. assign_bb_id (as ! i) = bb_id \<longrightarrow> (\<forall>k<i. source_value_id (as ! i) \<noteq> dest_value_id (as ! k))"
  have "m < length as" "d = length as - Suc m" using Suc.hyps(2) by simp_all
  moreover have "(\<forall>i<length as. m \<le> i \<longrightarrow> ?ok i) \<longleftrightarrow> ?ok m \<and> (\<forall>i<length as. Suc m \<le> i \<longrightarrow> ?ok i)"
    using \<open>m < length as\<close> by (auto simp: Suc_le_eq order.order_iff_strict)
  moreover have "fast_phi_loop as m 0 bb_id seen = (if ?ok m then fast_phi_loop as (Suc m) 0 bb_id seen else Inr False)"
    using \<open>m < length as\<close> assms by (subst fast_phi_loop.simps) (auto simp: Let_def)
  ultimately show ?case using Suc.hyps(1)[of "Suc m"] by simp
qed

lemma fast_phi_loop_spec:
  assumes "bitset_inv seen" "\<forall>i. \<not> bitset_has seen i" "\<forall>a\<in>set as. assign_bb_id a < bitset_cap seen"
    "\<forall>a\<in>set as. assign_bb_id a \<noteq> PN_INVALID_BB_ID" "bitset_cap seen < 2 ^ 32"
  shows "fast_phi_loop as 0 0 PN_INVALID_BB_ID seen = Inr (first_conflict_free as)"
proof (cases as)
  case Nil
  then show ?thesis by (subst fast_phi_loop.simps) (simp add: first_conflict_free_def)
next
  case (Cons a as')
  have i: "unat (of_nat (assign_bb_id a) :: u32) = assign_bb_id a"
    using assms(3,5) Cons unat_of_nat_small[of "assign_bb_id a", where 'a = 32] by simp
  have "pn_bitset_is_set seen (of_nat (assign_bb_id a)) = Inr False"
    using bsv.get_in[OF assms(1), of "of_nat (assign_bb_id a)"] i assms(2,3) Cons by simp
  moreover obtain seen' where "pn_bitset_set seen (of_nat (assign_bb_id a)) True = Inr seen'"
    using bsv.put_in[OF assms(1), of "of_nat (assign_bb_id a)" True] i assms(3) Cons by auto
  ultimately have "fast_phi_loop as 0 0 PN_INVALID_BB_ID seen = fast_phi_loop as (Suc 0) 0 (assign_bb_id a) seen'"
    using Cons by (subst fast_phi_loop.simps) (simp add: Let_def)
  also have "\<dots> = Inr (first_conflict_free as)"
    using assms(4) Cons
    by (subst fast_phi_loop_from) (auto simp: first_conflict_free_def less_Suc_eq_0_disj Suc_le_eq)
  finally show ?thesis .
qed

subsection \<open>Types of results\<close>

text \<open>
  The typing equations of a function: the result of a \<open>BINOP\<close> or \<open>VSELECT\<close> has the type that its two
  operands cast to.
\<close>

fun type_operands :: "PNInstruction \<Rightarrow> (PNValueId \<times> PNValueId \<times> PNValueId) option" where
  "type_operands (InstBinop r v0 v1 opcode flags) = Some (r, v0, v1)"
| "type_operands (InstVselect r cond v0 v1) = Some (r, v0, v1)"
| "type_operands _ = None"

fun eqs_of :: "PNInstruction list \<Rightarrow> (PNValueId \<times> PNValueId \<times> PNValueId) list" where
  "eqs_of [] = []"
| "eqs_of (i # is) = (case type_operands i of None \<Rightarrow> eqs_of is | Some e \<Rightarrow> e # eqs_of is)"

definition equations :: "PNFunction \<Rightarrow> (PNValueId \<times> PNValueId \<times> PNValueId) list" where
  "equations f = eqs_of (concat (map instructions (bbs f)))"

definition vtype :: "PNModule \<Rightarrow> PNFunction \<Rightarrow> PNValueId \<Rightarrow> PNTypeId option" where
  "vtype m f v = (case pn_function_get_value m f v of Inl _ \<Rightarrow> None | Inr x \<Rightarrow> Some (value_type_id x))"

definition solved :: "PNModule \<Rightarrow> PNFunction \<Rightarrow> PNValueId \<times> PNValueId \<times> PNValueId \<Rightarrow> bool" where
  "solved m f e = (case e of (r, v0, v1) \<Rightarrow> \<exists>t0 t1 t. vtype m f v0 = Some t0 \<and> vtype m f v1 = Some t1 \<and>
     t0 \<noteq> PN_INVALID_TYPE_ID \<and> t1 \<noteq> PN_INVALID_TYPE_ID \<and> pn_type_get_implicit_cast_type m t0 t1 = Inr t \<and>
     t < length (types m) \<and> vtype m f r = Some t)"

lemma assign_result_value_type:
  assumes "pn_function_assign_result_value_type m f r v0 v1 = Inr (resolved, f')"
  shows "if resolved then \<exists>t0 t1 t vs. vtype m f v0 = Some t0 \<and> vtype m f v1 = Some t1 \<and> t0 \<noteq> PN_INVALID_TYPE_ID \<and>
      t1 \<noteq> PN_INVALID_TYPE_ID \<and> pn_type_get_implicit_cast_type m t0 t1 = Inr t \<and> t < length (types m) \<and>
      vtype m f' = (vtype m f)(r := Some t) \<and> f' = f\<lparr>function_values := vs\<rparr>
    else f' = f"
proof (cases resolved)
  case True
  with assms obtain x0 x1 t n where x: "pn_function_get_value m f v0 = Inr x0" "pn_function_get_value m f v1 = Inr x1"
    "value_type_id x0 \<noteq> PN_INVALID_TYPE_ID" "value_type_id x1 \<noteq> PN_INVALID_TYPE_ID"
    "pn_type_get_implicit_cast_type m (value_type_id x0) (value_type_id x1) = Inr t" "t < length (types m)"
    and n: "r = length (module_values m) + n" "n < length (function_values f)"
    "f' = f\<lparr>function_values := (function_values f)[n := (function_values f ! n)\<lparr>value_type_id := t\<rparr>]\<rparr>"
    by (auto simp: pn_function_assign_result_value_type_def set_value_type_def pn_type_id_check_def res_simps Let_def
        le_iff_add split: if_splits)
  have "vtype m f' v = ((vtype m f)(r := Some t)) v" for v
    using n by (auto simp: vtype_def pn_function_get_value_def Let_def nth_list_update)
  then show ?thesis using True x n(3) by (auto simp: vtype_def)
next
  case False
  then show ?thesis using assms
    by (auto simp: pn_function_assign_result_value_type_def res_simps split: if_splits)
qed

text \<open>While the passes run, the equations are solved but for those of the pending instructions.\<close>

definition typing :: "PNModule \<Rightarrow> (PNValueId \<times> PNValueId \<times> PNValueId) set \<Rightarrow> PNFunction \<Rightarrow> PNValueId set \<Rightarrow> PNFunction \<Rightarrow> bool" where
  "typing m E f0 P f \<longleftrightarrow> (\<forall>e\<in>E. if fst e \<in> P then vtype m f (fst e) = Some PN_INVALID_TYPE_ID else solved m f e) \<and>
     (\<forall>v. v \<notin> fst ` E \<longrightarrow> vtype m f v = vtype m f0 v) \<and> (\<exists>vs. f = f0\<lparr>function_values := vs\<rparr>)"

definition pending :: "PNInstruction list \<Rightarrow> PNValueId set" where
  "pending is = fst ` set (eqs_of is)"

lemma eqs_of_append [simp]: "eqs_of (is @ js) = eqs_of is @ eqs_of js"
  by (induction "is") (simp_all split: option.split)

lemma eqs_of_all: "\<forall>i\<in>set is. type_operands i \<noteq> None \<Longrightarrow> eqs_of is = map (the \<circ> type_operands) is"
  by (induction "is") auto

lemma typing_step:
  assumes "typing m E f0 P f" "pn_instruction_calculate_result_value_type m f i = Inr (resolved, f')"
    and "type_operands i = Some e" "e \<in> E" "inj_on fst E" "length (types m) \<le> 65535" "fst e \<in> P"
  shows "typing m E f0 (if resolved then P - {fst e} else P) f'"
proof -
  obtain r v0 v1 where e: "e = (r, v0, v1)" by (cases e)
  have "pn_function_assign_result_value_type m f r v0 v1 = Inr (resolved, f')"
    using assms(2,3) e by (cases i) auto
  note a = assign_result_value_type[OF this]
  show ?thesis
  proof (cases resolved)
    case True
    with a obtain t0 t1 t vs where t: "vtype m f v0 = Some t0" "vtype m f v1 = Some t1" "t0 \<noteq> PN_INVALID_TYPE_ID"
      "t1 \<noteq> PN_INVALID_TYPE_ID" "pn_type_get_implicit_cast_type m t0 t1 = Inr t" "t < length (types m)"
      "vtype m f' = (vtype m f)(r := Some t)" "f' = f\<lparr>function_values := vs\<rparr>" by auto
    have r: "vtype m f r = Some PN_INVALID_TYPE_ID" using assms(1,4,7) e unfolding typing_def by force
    have "solved m f' e" using t r e by (auto simp: solved_def)
    moreover have "solved m f' e'" if "solved m f e'" "fst e' \<noteq> r" for e'
      using that t(7) r by (fastforce simp: solved_def)
    moreover have "fst e' = r \<longrightarrow> e' = e" if "e' \<in> E" for e'
      using assms(4,5) that e by (metis fst_conv inj_onD)
    ultimately have "\<forall>e'\<in>E. if fst e' \<in> P - {r} then vtype m f' (fst e') = Some PN_INVALID_TYPE_ID else solved m f' e'"
      using assms(1) t(7) unfolding typing_def by (metis DiffE DiffI fun_upd_other insertI1 singletonD)
    moreover have "\<forall>v. v \<notin> fst ` E \<longrightarrow> vtype m f' v = vtype m f0 v"
      using assms(1,4) e t(7) unfolding typing_def by force
    moreover have "\<exists>vs. f' = f0\<lparr>function_values := vs\<rparr>"
      using assms(1) t(8) unfolding typing_def by auto
    ultimately show ?thesis using True e unfolding typing_def by simp
  qed (use a assms(1) in simp)
qed

lemma typing_step_other:
  "pn_instruction_calculate_result_value_type m f i = Inr (resolved, f') \<Longrightarrow> type_operands i = None \<Longrightarrow> resolved \<and> f' = f"
  by (cases i) auto

lemma type_instructions_typing:
  assumes "type_instructions m is invalid f = Inr (invalid', f')" "typing m E f0 (pending invalid \<union> pending is) f"
    and "distinct (map fst (eqs_of (invalid @ is)))" "inj_on fst E" "length (types m) \<le> 65535"
    and "set (eqs_of (invalid @ is)) \<subseteq> E" "\<forall>i\<in>set invalid. type_operands i \<noteq> None"
  shows "typing m E f0 (pending invalid') f' \<and> distinct (map fst (eqs_of invalid')) \<and>
    set (eqs_of invalid') \<subseteq> E \<and> (\<forall>i\<in>set invalid'. type_operands i \<noteq> None)"
  using assms
proof (induction "is" arbitrary: invalid f)
  case (Cons i "is")
  from Cons.prems(1) obtain resolved g where
    r: "pn_instruction_calculate_result_value_type m f i = Inr (resolved, g)"
    "type_instructions m is (if resolved then invalid else invalid @ [i]) g = Inr (invalid', f')" by (auto simp: res_simps)
  show ?case
  proof (cases "type_operands i")
    case None
    from typing_step_other[OF r(1) None] None Cons.prems r(2) show ?thesis
      by (intro Cons.IH[of invalid f]) (simp_all add: pending_def)
  next
    case (Some e)
    have e: "e \<in> E" "fst e \<in> pending invalid \<union> pending (i # is)" "fst e \<notin> pending invalid" "fst e \<notin> pending is"
      using Cons.prems(3,6) Some by (auto simp: pending_def)
    from typing_step[OF Cons.prems(2) r(1) Some e(1) Cons.prems(4,5) e(2)]
    have "typing m E f0 (pending (if resolved then invalid else invalid @ [i]) \<union> pending is) g"
      using e(3,4) Some by (cases resolved) (simp_all add: pending_def insert_absorb Un_assoc)
    moreover obtain x y z where "e = (x, y, z)" by (cases e)
    ultimately show ?thesis using Cons.prems r(2) Some
      by (intro Cons.IH[of "if resolved then invalid else invalid @ [i]" g]) (auto simp: pending_def)
  qed
qed (simp add: pending_def)

lemma swap_out:
  assumes "n < length xs" "distinct (map g xs)"
  shows "distinct (map g (butlast (xs[n := last xs])))" "g ` set (butlast (xs[n := last xs])) = g ` set xs - {g (xs ! n)}"
    "set (butlast (xs[n := last xs])) \<subseteq> set xs"
proof -
  obtain ys z where xs: "xs = ys @ [z]" using assms(1) by (cases xs rule: rev_cases) auto
  show "set (butlast (xs[n := last xs])) \<subseteq> set xs" "distinct (map g (butlast (xs[n := last xs])))"
    "g ` set (butlast (xs[n := last xs])) = g ` set xs - {g (xs ! n)}"
  proof -
    consider "n = length ys" | us y vs where "ys = us @ y # vs" "n = length us"
      using assms(1) xs by (metis append_eq_conv_conj id_take_nth_drop length_append_singleton length_take less_Suc_eq min.absorb4)
    note cases = this
    show "set (butlast (xs[n := last xs])) \<subseteq> set xs"
      using cases by cases (auto simp: xs list_update_append butlast_append)
    show "distinct (map g (butlast (xs[n := last xs])))"
      using cases by cases (use assms(2) in \<open>auto simp: xs list_update_append butlast_append\<close>)
    show "g ` set (butlast (xs[n := last xs])) = g ` set xs - {g (xs ! n)}"
      using cases
    proof cases
      case (2 us y vs)
      then have "g y \<notin> g ` (set us \<union> set vs)" "g y \<noteq> g z" using assms(2) xs by auto
      moreover have "butlast (xs[n := last xs]) = us @ z # vs" "xs ! n = y" "set xs = insert y (insert z (set us \<union> set vs))"
        using 2 xs by (auto simp: list_update_append butlast_append nth_append)
      ultimately show ?thesis by simp
    qed (use assms(2) in \<open>auto simp: xs list_update_append butlast_append nth_append\<close>)
  qed
qed

lemma resolve_pass_typing:
  assumes "resolve_pass m n invalid f = Inr (invalid', f')" "typing m E f0 (pending invalid) f"
    and "distinct (map fst (eqs_of invalid))" "inj_on fst E" "length (types m) \<le> 65535"
    and "set (eqs_of invalid) \<subseteq> E" "\<forall>i\<in>set invalid. type_operands i \<noteq> None"
  shows "typing m E f0 (pending invalid') f' \<and> distinct (map fst (eqs_of invalid')) \<and>
    set (eqs_of invalid') \<subseteq> E \<and> (\<forall>i\<in>set invalid'. type_operands i \<noteq> None)"
  using assms
proof (induction m n invalid f rule: resolve_pass.induct)
  case (1 m n invalid f)
  note prems = "1.prems"
  show ?case
  proof (cases "n < length invalid")
    case False
    with prems show ?thesis by (subst (asm) (1) resolve_pass.simps) auto
  next
    case True
    with prems(1) obtain resolved g where
      r: "pn_instruction_calculate_result_value_type m f (invalid ! n) = Inr (resolved, g)"
      "(if resolved then resolve_pass m n (butlast (invalid[n := last invalid])) g
        else resolve_pass m (Suc n) invalid g) = Inr (invalid', f')"
      by (subst (asm) (1) resolve_pass.simps) (auto simp: res_simps)
    let ?sw = "butlast (invalid[n := last invalid])"
    from True prems(7) obtain e where e: "type_operands (invalid ! n) = Some e" by force
    let ?res = "fst \<circ> (the \<circ> type_operands)"
    have eqs: "eqs_of is = map (the \<circ> type_operands) is" if "set is \<subseteq> set invalid" for "is"
      using prems(7) that by (intro eqs_of_all) auto
    have sw: "distinct (map ?res ?sw)" "?res ` set ?sw = ?res ` set invalid - {?res (invalid ! n)}" "set ?sw \<subseteq> set invalid"
      using swap_out[OF True, of ?res] prems(3) eqs by simp_all
    have "e = map (the \<circ> type_operands) invalid ! n" using True e by simp
    then have "e \<in> set (eqs_of invalid)" using True eqs[of invalid] by (metis length_map nth_mem order_refl)
    then have "e \<in> E" "fst e \<in> pending invalid" using prems(6) by (auto simp: pending_def)
    from typing_step[OF prems(2) r(1) e this(1) prems(4,5) this(2)]
    have step: "typing m E f0 (if resolved then pending invalid - {fst e} else pending invalid) g" .
    show ?thesis
    proof (cases resolved)
      case True': True
      have "pending ?sw = pending invalid - {fst e}"
        using sw(2) e eqs[of invalid] eqs[OF sw(3)] by (simp add: pending_def image_image)
      moreover have "set (eqs_of ?sw) \<subseteq> E" using prems(6) sw(3) eqs[OF sw(3)] eqs[of invalid] by fastforce
      ultimately show ?thesis
        using True' step r(2) prems sw eqs[OF sw(3)] by (intro "1.IH"(1)[OF True r(1) refl]) auto
    next
      case False
      then show ?thesis using step r(2) prems by (intro "1.IH"(2)[OF True r(1) refl]) auto
    qed
  qed
qed

lemma resolve_loop_typing:
  assumes "resolve_loop m k invalid f = Inr (invalid', f')" "typing m E f0 (pending invalid) f"
    and "distinct (map fst (eqs_of invalid))" "inj_on fst E" "length (types m) \<le> 65535"
    and "set (eqs_of invalid) \<subseteq> E" "\<forall>i\<in>set invalid. type_operands i \<noteq> None"
  shows "typing m E f0 (pending invalid') f'"
  using assms
proof (induction m k invalid f rule: resolve_loop.induct)
  case (1 m k invalid f)
  show ?case
  proof (cases "k = length invalid")
    case True
    with "1.prems" show ?thesis by (subst (asm) (1) resolve_loop.simps) auto
  next
    case False
    with "1.prems"(1) obtain invalid1 f1 where r: "resolve_pass m 0 invalid f = Inr (invalid1, f1)"
      "resolve_loop m (length invalid) invalid1 f1 = Inr (invalid', f')"
      by (subst (asm) (1) resolve_loop.simps) (auto simp: res_simps)
    from resolve_pass_typing[OF r(1) "1.prems"(2-7)] "1.prems"(4,5) show ?thesis
      using r(2) by (intro "1.IH"[OF _ r(1) refl]) (use False in auto)
  qed
qed

lemma calculate_result_value_types_solves:
  assumes "pn_function_calculate_result_value_types m f = Inr f'"
    and "distinct (map fst (equations f))" and "\<forall>e\<in>set (equations f). vtype m f (fst e) = Some PN_INVALID_TYPE_ID"
    and "length (types m) \<le> 65535"
  shows "typing m (set (equations f)) f {} f'"
proof -
  let ?is = "concat (map instructions (bbs f))" and ?E = "set (equations f)"
  from assms(1) obtain invalid g where
    r: "type_instructions m ?is [] f = Inr (invalid, g)"
    "(if invalid \<noteq> [] then resolve_loop m 0 invalid g else Inr (invalid, g)) = Inr ([], f')"
    by (auto simp: pn_function_calculate_result_value_types_def res_simps)
  have "inj_on fst ?E" using assms(2) by (simp add: distinct_map)
  moreover have "typing m ?E f (pending [] \<union> pending ?is) f"
    using assms(3) by (auto simp: typing_def pending_def equations_def intro: exI[of _ "function_values f"])
  ultimately have "typing m ?E f (pending invalid) g \<and> distinct (map fst (eqs_of invalid)) \<and>
      set (eqs_of invalid) \<subseteq> ?E \<and> (\<forall>i\<in>set invalid. type_operands i \<noteq> None)" "inj_on fst ?E"
    using assms(2,4) type_instructions_typing[OF r(1), of ?E f] by (auto simp: equations_def)
  then show ?thesis
    using resolve_loop_typing[of m 0 invalid g "[]" f' ?E f] r(2) assms(4)
    by (cases "invalid = []") (auto simp: pending_def)
qed

lemma fast_phi_flags_map:
  assumes "\<forall>bb\<in>set bs. fast_phi_loop (phi_assigns bb) 0 0 PN_INVALID_BB_ID (pn_bitset_clear seen) =
    Inr (first_conflict_free (phi_assigns bb))"
  shows "fast_phi_flags bs seen = Inr (map (\<lambda>bb. bb\<lparr>fast_phi_assign := first_conflict_free (phi_assigns bb)\<rparr>) bs)"
  using assms by (induction bs) simp_all

text \<open>
  C10: \<open>pn_function_calculate_result_value_types\<close> ends, and when it succeeds it has solved the typing
  equations of the function: the result of every \<open>BINOP\<close> and \<open>VSELECT\<close> has the type, a type of the
  module, that the types of its operands cast to, whatever order the values are defined in; the types
  of all other values are as before.
\<close>

theorem pn_result_types_solved:
  assumes "pn_function_calculate_result_value_types m f = Inr f'"
    and "distinct (map fst (equations f))" and "\<forall>e\<in>set (equations f). vtype m f (fst e) = Some PN_INVALID_TYPE_ID"
    and "length (types m) \<le> 65535"
  shows "(\<forall>e\<in>set (equations f). solved m f' e) \<and> (\<forall>v. v \<notin> fst ` set (equations f) \<longrightarrow> vtype m f' v = vtype m f v) \<and>
    bbs f' = bbs f"
  using calculate_result_value_types_solves[OF assms] unfolding typing_def by auto

text \<open>Two additions, the first of which uses the result of the second.\<close>

definition int32_type :: PNType where
  "int32_type = \<lparr>type_code = PN_TYPE_CODE_INTEGER, basic_type = PN_BASIC_TYPE_INT32, type_width = 32, is_varargs = False,
     return_type = 0, arg_types = []\<rparr>"

definition typing_module :: PNModule where
  "typing_module = (pn_module_init undefined)\<lparr>types := [int32_type]\<rparr>"

definition blank_bb :: PNBasicBlock where
  "blank_bb = \<lparr>instructions = [], phi_uses = [], phi_assigns = [], fast_phi_assign = False, succ_bb_ids = [],
     pred_bb_ids = [], bb_uses = [], first_def_id = PN_INVALID_VALUE_ID, last_def_id = PN_INVALID_VALUE_ID\<rparr>"

definition typing_function :: PNFunction where
  "typing_function = \<lparr>function_name = None, function_type_id = 0, intrinsic_id = PN_INTRINSIC_NULL, num_args = 1,
     calling_convention = 0, is_proto = False, function_linkage = 0, constants = [],
     bbs = [blank_bb\<lparr>instructions := [InstBinop 1 0 2 0 0, InstBinop 2 0 0 0 0]\<rparr>],
     function_values = [\<lparr>value_code = PN_VALUE_CODE_FUNCTION_ARG, value_idx = 0, value_type_id = 0\<rparr>,
       \<lparr>value_code = PN_VALUE_CODE_LOCAL_VAR, value_idx = 0, value_type_id = PN_INVALID_TYPE_ID\<rparr>,
       \<lparr>value_code = PN_VALUE_CODE_LOCAL_VAR, value_idx = 0, value_type_id = PN_INVALID_TYPE_ID\<rparr>],
     num_instructions = 2, function_instructions = []\<rparr>"

theorem pn_result_types_solved_witness:
  "\<exists>f'. pn_function_calculate_result_value_types typing_module typing_function = Inr f' \<and> solved typing_module f' (1, 0, 2)"
proof -
  have "is_ok (pn_function_calculate_result_value_types typing_module typing_function)"
    by (simp add: pn_function_calculate_result_value_types_def typing_function_def typing_module_def pn_module_init_def
        int32_type_def resolve_loop.simps resolve_pass.simps pn_function_assign_result_value_type_def
        pn_function_get_value_def pn_type_get_implicit_cast_type_def set_value_type_def pn_type_id_check_def Let_def
        blank_bb_def)
  then obtain f' where f': "pn_function_calculate_result_value_types typing_module typing_function = Inr f'"
    by (auto simp: is_ok_iff)
  have eqs: "equations typing_function = [(1, 0, 2), (2, 0, 0)]" by (simp add: equations_def typing_function_def blank_bb_def)
  have "\<forall>e\<in>set (equations typing_function). vtype typing_module typing_function (fst e) = Some PN_INVALID_TYPE_ID"
    unfolding eqs by (simp add: vtype_def pn_function_get_value_def typing_function_def typing_module_def pn_module_init_def)
  with pn_result_types_solved[OF f'] f' eqs show ?thesis by (auto simp: typing_module_def)
qed

lemma calculate_phi_assigns_exact:
  assumes "length (bbs f) \<le> 65535"
  shows "pn_function_calculate_phi_assigns f =
    (if \<forall>bb\<in>set (bbs f). \<forall>use\<in>set (phi_uses bb). use_incoming_bb_id use < length (bbs f)
     then Inr (f\<lparr>bbs := map (\<lambda>b. (bbs f ! b)\<lparr>phi_assigns := phi_assigns_of (bbs f) b,
       fast_phi_assign := first_conflict_free (phi_assigns_of (bbs f) b)\<rparr>) [0..<length (bbs f)]\<rparr>)
     else Inl (Assertion ''use->incoming.bb_id < function->num_bbs''))"
proof (cases "check_phi_uses (bbs f) = Inr ()")
  case True
  let ?n = "length (bbs f)"
  obtain seen where seen: "pn_bitset_init ?n = Inr seen" using assms by (auto simp: pn_bitset_init_def)
  then have inv: "bitset_inv seen" "?n \<le> bitset_cap seen" "bitset_cap seen < 2 ^ 32" using assms
    by (auto simp: pn_bitset_init_def bitset_inv_def bitset_cap_def unsigned_of_nat take_bit_nat_eq_self split: if_splits)
  have clr: "bitset_inv (pn_bitset_clear seen)" "bitset_cap (pn_bitset_clear seen) = bitset_cap seen"
    "\<forall>i. \<not> bitset_has (pn_bitset_clear seen) i" using bsv.clr_ok[OF inv(1)] by auto
  have "fill_phi_assigns (bbs f) = map (\<lambda>b. (bbs f ! b)\<lparr>phi_assigns := phi_assigns_of (bbs f) b\<rparr>) [0..<?n]"
  proof (cases "bbs f")
    case (Cons bb bs)
    then have "length (fill_phi_assigns (bbs f)) = ?n" using fill_phi_assigns_nth(1)[OF True, of 0] by simp
    then show ?thesis using fill_phi_assigns_nth(2)[OF True] by (intro nth_equalityI) simp_all
  qed (simp add: fill_phi_assigns_def)
  moreover have "fast_phi_loop (phi_assigns_of (bbs f) b) 0 0 PN_INVALID_BB_ID (pn_bitset_clear seen) =
      Inr (first_conflict_free (phi_assigns_of (bbs f) b))" for b
  proof -
    have "\<forall>a\<in>set (phi_assigns_of (bbs f) b). assign_bb_id a < ?n"
      using assms by (auto simp: phi_assigns_of_def assign_of_def)
    then have "\<forall>a\<in>set (phi_assigns_of (bbs f) b). assign_bb_id a < bitset_cap seen \<and> assign_bb_id a \<noteq> PN_INVALID_BB_ID"
      using inv(2) assms by fastforce
    then show ?thesis using fast_phi_loop_spec[OF clr(1,3)] clr(2) inv(3) by simp
  qed
  ultimately show ?thesis using True seen fast_phi_flags_map[of "fill_phi_assigns (bbs f)" seen]
    by (auto simp: pn_function_calculate_phi_assigns_def check_phi_uses_def ensure_def split: if_splits)
next
  case False
  then show ?thesis by (auto simp: pn_function_calculate_phi_assigns_def check_phi_uses_def ensure_def split: if_splits)
qed

text \<open>
  C9: \<open>pn_function_calculate_phi_assigns\<close> gives every block exactly, and in this order, the operands
  that name it in the phi instructions of all blocks; and it marks a block for the fast path when,
  among the assignments to the block of its first assignment, no source is the destination of an
  earlier one. A phi operand that names no block of the function fails an assertion.
\<close>

theorem pn_phi_assigns_exact:
  assumes "length (bbs f) \<le> 65535"
  shows "pn_function_calculate_phi_assigns f =
    (if \<forall>bb\<in>set (bbs f). \<forall>use\<in>set (phi_uses bb). use_incoming_bb_id use < length (bbs f)
     then Inr (f\<lparr>bbs := map (\<lambda>b. (bbs f ! b)\<lparr>phi_assigns := phi_assigns_of (bbs f) b,
       fast_phi_assign := first_conflict_free (phi_assigns_of (bbs f) b)\<rparr>) [0..<length (bbs f)]\<rparr>)
     else Inl (Assertion ''use->incoming.bb_id < function->num_bbs''))"
  using assms by (rule calculate_phi_assigns_exact)

text \<open>
  Block 1 branches to block 0 and back to itself, where two phis swap their values. The first of its
  assignments is the one to block 0: the swap is not looked at, and the block is marked as fast.
\<close>

definition swap_blocks :: "PNBasicBlock list" where
  "swap_blocks = [blank_bb\<lparr>instructions := [InstPhi 20 [(1, 10)] 0]\<rparr>,
     blank_bb\<lparr>instructions := [InstPhi 11 [(1, 12)] 0, InstPhi 12 [(1, 11)] 0]\<rparr>]"

definition swap_function :: PNFunction where
  "swap_function = pn_function_calculate_uses (typing_function\<lparr>bbs := swap_blocks\<rparr>)"

lemma swap_assigns:
  "phi_assigns_of (bbs swap_function) 1 =
    [\<lparr>assign_bb_id = 0, source_value_id = 10, dest_value_id = 20\<rparr>, \<lparr>assign_bb_id = 1, source_value_id = 12, dest_value_id = 11\<rparr>,
     \<lparr>assign_bb_id = 1, source_value_id = 11, dest_value_id = 12\<rparr>]"
  by (simp add: phi_assigns_of_def assign_of_def incoming_from_def swap_function_def pn_function_calculate_uses_def
      swap_blocks_def pn_basic_block_calculate_uses_def typing_function_def blank_bb_def upt_rec)

lemma swap_uses:
  "length (bbs swap_function) = 2" "\<forall>bb\<in>set (bbs swap_function). \<forall>use\<in>set (phi_uses bb). use_incoming_bb_id use < 2"
  by (auto simp: swap_function_def pn_function_calculate_uses_def swap_blocks_def pn_basic_block_calculate_uses_def blank_bb_def)

lemma swap_marked_fast:
  "\<exists>f'. pn_function_calculate_phi_assigns swap_function = Inr f' \<and> fast_phi_assign (bbs f' ! 1) \<and>
     phi_assigns (bbs f' ! 1) = phi_assigns_of (bbs swap_function) 1"
  using calculate_phi_assigns_exact[of swap_function] swap_uses swap_assigns by (auto simp: first_conflict_free_def less_Suc_eq)

theorem pn_phi_assigns_exact_witness:
  "\<exists>f'. pn_function_calculate_phi_assigns swap_function = Inr f' \<and> fast_phi_assign (bbs f' ! 1) \<and>
     map source_value_id (phi_assigns (bbs f' ! 1)) = [10, 12, 11] \<and> map dest_value_id (phi_assigns (bbs f' ! 1)) = [20, 11, 12]"
  using pn_phi_assigns_exact[of swap_function] swap_uses swap_assigns by (auto simp: first_conflict_free_def less_Suc_eq)

end
