(* ===== verification/Pn_Phi.thy ===== *)
theory Pn_Phi
  imports Pn_Executor Pn_Analyses
begin

text \<open>
  What the phi table behind a branch does to the values of a thread. The phi instructions of a block
  are assignments that happen at once; \<open>pn_thread_do_phi_assigns\<close> does them through an array of
  temporaries, or one after the other when \<open>fast_phi_assign\<close> is set.
\<close>

text \<open>The values after all assignments of \<open>as\<close> at once, from the values \<open>g\<close>.\<close>

definition phi_parallel :: "(PNValueId \<Rightarrow> 'a) \<Rightarrow> PNRuntimePhiAssign list \<Rightarrow> PNValueId \<Rightarrow> 'a" where
  "phi_parallel g as v =
     (let ds = filter (\<lambda>a. phi_dest_value_id a = v) as in if ds = [] then g v else g (phi_source_value_id (last ds)))"

definition conflict_free :: "PNRuntimePhiAssign list \<Rightarrow> bool" where
  "conflict_free as \<longleftrightarrow>
     (\<forall>j<length as. \<forall>i<j. phi_source_value_id (as ! j) \<noteq> phi_dest_value_id (as ! i))"

definition for_target :: "address \<Rightarrow> PNRuntimePhiAssign list \<Rightarrow> PNRuntimePhiAssign list" where
  "for_target dest as = filter (\<lambda>a. phi_inst a = dest) as"

lemma phi_parallel_snoc:
  "phi_parallel g (as @ [a]) = (phi_parallel g as)(phi_dest_value_id a := g (phi_source_value_id a))"
  by (auto simp: phi_parallel_def fun_eq_iff)

lemma phi_parallel_Nil [simp]: "phi_parallel g [] = g"
  by (simp add: phi_parallel_def fun_eq_iff)

lemma for_target_simps [simp]:
  "for_target dest [] = []" "for_target dest (as @ bs) = for_target dest as @ for_target dest bs"
  "for_target dest (a # as) = (if phi_inst a = dest then a # for_target dest as else for_target dest as)"
  by (simp_all add: for_target_def)

lemma phi_parallel_no_dest: "\<forall>a\<in>set as. phi_dest_value_id a \<noteq> v \<Longrightarrow> phi_parallel g as v = g v"
  by (simp add: phi_parallel_def filter_empty_conv)

lemma get_set_value:
  assumes "pn_thread_set_value ex th d v = Inr th'"
  shows "pn_thread_get_value ex th' = (pn_thread_get_value ex th)(d := Inr v)"
proof -
  from assms obtain fr frs where th: "thread_frames th = fr # frs" "num_module_values ex \<le> d"
    "d - num_module_values ex < length (frame_values fr)"
    "th' = th\<lparr>thread_frames := fr\<lparr>frame_values := (frame_values fr)[d - num_module_values ex := v]\<rparr> # frs\<rparr>"
    by (auto simp: pn_thread_set_value_def current_frame_def put_frame_def res_simps)
  show ?thesis
  proof
    fix x
    show "pn_thread_get_value ex th' x = ((pn_thread_get_value ex th)(d := Inr v)) x"
      using th by (auto simp: pn_thread_get_value_def current_frame_def nth_res_def nth_list_update)
  qed
qed

text \<open>One write of the slow path, where \<open>g\<close> are the values read before, and one of the fast path.\<close>

definition write_step :: "(PNValueId \<Rightarrow> 'a) \<Rightarrow> PNRuntimePhiAssign \<Rightarrow> (PNValueId \<Rightarrow> 'a) \<Rightarrow> PNValueId \<Rightarrow> 'a" where
  "write_step g a h = h(phi_dest_value_id a := g (phi_source_value_id a))"

definition fast_step :: "PNRuntimePhiAssign \<Rightarrow> (PNValueId \<Rightarrow> 'a) \<Rightarrow> PNValueId \<Rightarrow> 'a" where
  "fast_step a h = write_step h a h"

lemma phi_parallel_step: "phi_parallel g (as @ [a]) = write_step g a (phi_parallel g as)"
  unfolding write_step_def by (rule phi_parallel_snoc)

lemma write_step_set:
  assumes "pn_thread_set_value ex th (phi_dest_value_id a) v = Inr th'" "g (phi_source_value_id a) = Inr v"
  shows "pn_thread_get_value ex th' = write_step g a (pn_thread_get_value ex th)"
  unfolding write_step_def assms(2) by (rule get_set_value[OF assms(1)])

text \<open>A list of writes is the last one per destination.\<close>

lemma write_phi_dests_values:
  assumes "read_phi_sources ex th0 as = Inr vs" "write_phi_dests ex dest (zip as vs) th = Inr th'"
  shows "pn_thread_get_value ex th' =
    fold (write_step (pn_thread_get_value ex th0)) (for_target dest as) (pn_thread_get_value ex th)"
  using assms
proof (induction as arbitrary: vs th)
  case (Cons a as)
  then show ?case by (auto simp: res_simps split: if_splits) (metis write_step_set)
qed simp

lemma fold_parallel: "fold (write_step g) as g = phi_parallel g as"
  by (induction as rule: rev_induct) (simp_all add: phi_parallel_step)

lemma fast_phi_assigns_values:
  assumes "fast_phi_assigns ex dest as th = Inr th'"
  shows "pn_thread_get_value ex th' = fold fast_step (for_target dest as) (pn_thread_get_value ex th)"
  using assms
proof (induction as arbitrary: th)
  case (Cons a as)
  show ?case
  proof (cases "phi_inst a = dest")
    case True
    with Cons.prems obtain v th1 where "pn_thread_get_value ex th (phi_source_value_id a) = Inr v"
      "pn_thread_set_value ex th (phi_dest_value_id a) v = Inr th1" "fast_phi_assigns ex dest as th1 = Inr th'"
      by (auto simp: res_simps)
    with Cons.IH[of th1] write_step_set[of ex th a v th1 "pn_thread_get_value ex th"] True show ?thesis
      by (simp add: fast_step_def)
  qed (use Cons in simp)
qed simp

lemma conflict_free_snoc:
  "conflict_free (as @ [a]) \<longleftrightarrow> conflict_free as \<and> (\<forall>b\<in>set as. phi_dest_value_id b \<noteq> phi_source_value_id a)"
proof -
  have "conflict_free (as @ [a]) \<longleftrightarrow> conflict_free as \<and> (\<forall>i<length as. phi_dest_value_id (as ! i) \<noteq> phi_source_value_id a)"
    by (auto simp: conflict_free_def nth_append less_Suc_eq) metis+
  then show ?thesis by (metis in_set_conv_nth)
qed

lemma fold_sequential:
  "conflict_free as \<Longrightarrow> fold fast_step as g = phi_parallel g as"
proof (induction as rule: rev_induct)
  case (snoc a as)
  then have "phi_parallel g as (phi_source_value_id a) = g (phi_source_value_id a)"
    by (intro phi_parallel_no_dest) (simp add: conflict_free_snoc)
  then have "fast_step a (phi_parallel g as) = write_step g a (phi_parallel g as)"
    unfolding fast_step_def write_step_def by simp
  then show ?case using snoc by (simp add: conflict_free_snoc phi_parallel_step)
qed simp

text \<open>
  C8: A branch does the assignments of its phi table for the block it goes to all at once: every
  destination has the value its source had before the branch, and the other values are kept. On the
  slow path this always holds; on the fast path when no source is an earlier destination.
\<close>

theorem pn_phi_assigns_parallel:
  assumes "pn_thread_do_phi_assigns ex th dest = Inr th'"
    and "fetch ex (thread_function th) (thread_inst th) = Inr (RPhiAssigns n fast table)"
    and "as = for_target dest (take (unat n) table)" and "fast = 0 \<or> conflict_free as"
  shows "pn_thread_get_value ex th' = phi_parallel (pn_thread_get_value ex th) as"
proof (cases "fast = 0")
  case True
  with assms(1,2) obtain vs where "read_phi_sources ex th (take (unat n) table) = Inr vs"
    "write_phi_dests ex dest (zip (take (unat n) table) vs) th = Inr th'"
    by (auto simp: pn_thread_do_phi_assigns_def Let_def res_simps)
  from write_phi_dests_values[OF this] show ?thesis by (simp add: assms(3) fold_parallel)
next
  case False
  then have "fast_phi_assigns ex dest (take (unat n) table) th = Inr th'"
    using assms(1,2) by (simp add: pn_thread_do_phi_assigns_def)
  from fast_phi_assigns_values[OF this] show ?thesis using assms(3,4) False by (simp add: fold_sequential)
qed

text \<open>A thread at the phi table of block 1 of \<open>swap_function\<close>; block 0 is at address 0, block 1 at 100.\<close>

definition swap_table :: "PNRuntimePhiAssign list" where
  "swap_table = [\<lparr>phi_inst = 0, phi_source_value_id = 10, phi_dest_value_id = 20\<rparr>,
     \<lparr>phi_inst = 100, phi_source_value_id = 12, phi_dest_value_id = 11\<rparr>,
     \<lparr>phi_inst = 100, phi_source_value_id = 11, phi_dest_value_id = 12\<rparr>]"

definition swap_executor :: "u16 \<Rightarrow> PNExecutor" where
  "swap_executor fast = \<lparr>ex_module = typing_module\<lparr>module_functions := [swap_function\<lparr>function_instructions := [(200, RPhiAssigns 3 fast swap_table)]\<rparr>]\<rparr>,
     ex_memory = module_memory typing_module, executor_values = [], threads = [], main_thread = 0, dead_threads = [],
     sentinel_stack_top = 0, mapped_pages = \<lparr>num_words = 0, words = []\<rparr>, next_jmpbuf_id = 0, fd_map = [],
     next_thread_id = 0, heap_end = 0, exit_code = 0, exiting = False, host_calls = []\<rparr>"

definition swap_thread :: PNThread where
  "swap_thread = start_thread\<lparr>thread_inst := 200, thread_frames := [\<lparr>frame_function_id = 0, frame_inst = 0,
     frame_values = map word_of_nat [0..<21], frame_jmpbufs = [], memory_stack_top = 0\<rparr>]\<rparr>"

lemma swap_fetch: "fetch (swap_executor fast) (thread_function swap_thread) (thread_inst swap_thread) = Inr (RPhiAssigns 3 fast swap_table)"
  by (simp add: fetch_def swap_executor_def swap_thread_def start_thread_def)

lemma swap_get: "v < 21 \<Longrightarrow> pn_thread_get_value (swap_executor fast) swap_thread v = Inr (word_of_nat v)"
  by (simp add: pn_thread_get_value_def num_module_values_def swap_executor_def swap_thread_def current_frame_def
      typing_module_def pn_module_init_def nth_append)

lemma swap_set:
  assumes "d < 21" "length vs = 21"
  shows "pn_thread_set_value (swap_executor fast) (swap_thread\<lparr>thread_frames := [fr\<lparr>frame_values := vs\<rparr>]\<rparr>) d v =
    Inr (swap_thread\<lparr>thread_frames := [fr\<lparr>frame_values := vs[d := v]\<rparr>]\<rparr>)"
  using assms by (simp add: pn_thread_set_value_def num_module_values_def swap_executor_def current_frame_def put_frame_def
      typing_module_def pn_module_init_def)

theorem pn_phi_assigns_parallel_witness:
  "\<exists>th'. pn_thread_do_phi_assigns (swap_executor 0) swap_thread 100 = Inr th' \<and>
     pn_thread_get_value (swap_executor 0) th' 11 = Inr 12 \<and> pn_thread_get_value (swap_executor 0) th' 12 = Inr 11"
proof -
  have "is_ok (pn_thread_do_phi_assigns (swap_executor 0) swap_thread 100)"
    by (simp add: pn_thread_do_phi_assigns_def swap_fetch swap_table_def swap_get)
      (simp add: swap_thread_def pn_thread_set_value_def num_module_values_def swap_executor_def current_frame_def put_frame_def
      typing_module_def pn_module_init_def)
  then obtain th' where th': "pn_thread_do_phi_assigns (swap_executor 0) swap_thread 100 = Inr th'" by (auto simp: is_ok_iff)
  from pn_phi_assigns_parallel[OF th' swap_fetch refl] th' show ?thesis
    by (simp add: swap_table_def phi_parallel_def swap_get)
qed

text \<open>
  C37: The block of \<open>swap_function\<close> that goes back to itself with two swapping phis is marked as fast,
  its table is written with the mark, and a branch back then gives both phis the same value instead
  of swapping them.
\<close>

theorem pn_fast_phi_breaks_swap:
  "\<exists>f' th'. pn_function_calculate_phi_assigns swap_function = Inr f' \<and>
     emit_phi_assigns [0, 100] (bbs f' ! 1) = Inr (RPhiAssigns 3 1 swap_table) \<and>
     pn_thread_do_phi_assigns (swap_executor 1) swap_thread 100 = Inr th' \<and>
     pn_thread_get_value (swap_executor 1) th' 11 = Inr 12 \<and> pn_thread_get_value (swap_executor 1) th' 12 = Inr 12"
proof -
  have t: "pn_thread_get_value (swap_executor 1) (swap_thread\<lparr>thread_frames := [fr\<lparr>frame_values := vs\<rparr>]\<rparr>) v = nth_res vs v"
    for fr vs v
    by (simp add: pn_thread_get_value_def num_module_values_def swap_executor_def current_frame_def typing_module_def pn_module_init_def)
  have e: "swap_thread = swap_thread\<lparr>thread_frames := [hd (thread_frames swap_thread)\<lparr>frame_values := map word_of_nat [0..<21]\<rparr>]\<rparr>"
    by (simp add: swap_thread_def)
  have "\<exists>th'. fast_phi_assigns (swap_executor 1) 100 swap_table swap_thread = Inr th' \<and>
      pn_thread_get_value (swap_executor 1) th' 11 = Inr 12 \<and> pn_thread_get_value (swap_executor 1) th' 12 = Inr 12"
    by (subst e) (simp add: swap_table_def t swap_set nth_append)
  then have "\<exists>th'. pn_thread_do_phi_assigns (swap_executor 1) swap_thread 100 = Inr th' \<and>
      pn_thread_get_value (swap_executor 1) th' 11 = Inr 12 \<and> pn_thread_get_value (swap_executor 1) th' 12 = Inr 12"
    by (simp add: pn_thread_do_phi_assigns_def swap_fetch Let_def swap_table_def)
  moreover have "\<exists>f'. pn_function_calculate_phi_assigns swap_function = Inr f' \<and>
      emit_phi_assigns [0, 100] (bbs f' ! 1) = Inr (RPhiAssigns 3 1 swap_table)"
    using swap_marked_fast swap_assigns by (auto simp: emit_phi_assigns_def swap_table_def)
  ultimately show ?thesis by blast
qed

end
