(* ===== verification/Pn_Bitstream.thy ===== *)
theory Pn_Bitstream
  imports Pn_Bits
begin

text \<open>
  The bit stream of \<^verbatim>\<open>src/pn_bitstream.h\<close>: a cursor over a buffer of bytes that caches one 32-bit
  word. The buffer is the list of the bytes that are really there: reading a word that is not
  wholly inside it is \<open>Undefined\<close>. The interface that the readers of records rely on is the locale
  \<open>bit_reader\<close>, in which a stream is nothing but the list of the bits that are left; it is
  interpreted on \<open>pn_bitstream_read\<close>.
\<close>

unbundle bit_operations_syntax

section \<open>State and operations\<close>

record PNBitStream =
  bs_data :: "u8 list"
  data_len :: u32
  curword :: u32
  curword_bits :: nat
  bit_offset :: u32

definition pn_bitstream_init :: "u8 list \<Rightarrow> u32 \<Rightarrow> PNBitStream" where
  "pn_bitstream_init data len =
     \<lparr>bs_data = data, data_len = len, curword = 0, curword_bits = 0, bit_offset = 0\<rparr>"

text \<open>\<open>*(uint32_t*)(data + off)\<close>.\<close>

definition load_data32 :: "u8 list \<Rightarrow> nat \<Rightarrow> u32 res" where
  "load_data32 data off =
     (if off + 4 \<le> length data then Inr (le_word (take 4 (drop off data)))
      else Inl (Undefined ''read past the end of the buffer''))"

definition pn_bitstream_read_frac_bits :: "PNBitStream \<Rightarrow> nat \<Rightarrow> (u32 \<times> PNBitStream) res" where
  "pn_bitstream_read_frac_bits bs num_bits =
     rbind (ensure (num_bits \<le> 32) (Assertion ''num_bits <= 32'')) (\<lambda>_.
     rbind (ensure (num_bits \<le> curword_bits bs) (Assertion ''num_bits <= bs->curword_bits'')) (\<lambda>_.
     let (result, cw) =
           (if num_bits = 32 then (curword bs, 0)
            else (curword bs AND (push_bit num_bits 1 - 1), drop_bit num_bits (curword bs)))
     in Inr (result, bs\<lparr>curword := cw, curword_bits := curword_bits bs - num_bits,
                        bit_offset := bit_offset bs + of_nat num_bits\<rparr>)))"

definition pn_bitstream_fill_curword :: "PNBitStream \<Rightarrow> PNBitStream res" where
  "pn_bitstream_fill_curword bs =
     (let byte_offset = drop_bit 3 (bit_offset bs) in
      if unat byte_offset + 4 < unat (data_len bs) then
        rbind (load_data32 (bs_data bs) (unat byte_offset)) (\<lambda>w.
        Inr (bs\<lparr>curword_bits := 32, curword := w\<rparr>))
      else
        rbind (ensure (byte_offset \<le> data_len bs) (Check ''byte_offset <= bs->data_len'')) (\<lambda>_.
        let cb = unat (data_len bs - byte_offset) * 8 in
        rbind (if cb \<noteq> 0 then
                 rbind (load_data32 (bs_data bs) (unat byte_offset)) (\<lambda>w.
                 Inr (bs\<lparr>curword_bits := cb, curword := w\<rparr>))
               else Inr (bs\<lparr>curword_bits := cb\<rparr>)) (\<lambda>bs.
        rbind (ensure (curword_bits bs \<le> 32) (Assertion ''bs->curword_bits <= 32'')) (\<lambda>_.
        Inr bs))))"

definition pn_bitstream_read :: "PNBitStream \<Rightarrow> nat \<Rightarrow> (u32 \<times> PNBitStream) res" where
  "pn_bitstream_read bs num_bits =
     rbind (ensure (num_bits \<le> 32) (Assertion ''num_bits <= 32'')) (\<lambda>_.
     if num_bits \<le> curword_bits bs then pn_bitstream_read_frac_bits bs num_bits
     else
       let result = curword bs; bits_read = curword_bits bs; bits_left = num_bits - curword_bits bs in
       rbind (pn_bitstream_fill_curword (bs\<lparr>bit_offset := bit_offset bs + of_nat bits_read\<rparr>)) (\<lambda>bs.
       rbind (ensure (bits_left \<le> curword_bits bs) (Check ''bits_left <= bs->curword_bits'')) (\<lambda>_.
       rbind (pn_bitstream_read_frac_bits bs bits_left) (\<lambda>(r, bs).
       Inr (result OR push_bit bits_read r, bs)))))"

text \<open>
  The variable-width readers loop over the pieces. They take the reader of a piece as an argument,
  so that their lemmas can be proved once for every \<open>bit_reader\<close>. With a width of one bit the loop
  advances by no bits of the value, so it is bounded only by the data: the fuel counts the pieces.
\<close>

type_synonym 's bit_read = "'s \<Rightarrow> nat \<Rightarrow> (u32 \<times> 's) res"

definition vbr_hi_mask :: "nat \<Rightarrow> u64 res" where
  "vbr_hi_mask num_bits =
     (if num_bits = 0 then Inl (Undefined ''shift by a negative count'')
      else Inr (scast (push_bit (num_bits - 1) 1 :: u32)))"

definition vbr_result32 :: "u64 \<Rightarrow> u32 res" where
  "vbr_result32 result =
     rbind (ensure (result \<le> 0xFFFFFFFF \<or> (result AND 0x80000000 \<noteq> 0 \<and> drop_bit 32 result = 0xFFFFFFFF))
              (Check ''vbr value does not fit 32 bits'')) (\<lambda>_. Inr (ucast result))"

fun vbr_loop :: "'s bit_read \<Rightarrow> nat \<Rightarrow> u64 \<Rightarrow> nat \<Rightarrow> u64 \<Rightarrow> nat \<Rightarrow> 's \<Rightarrow> (u32 \<times> 's) res" where
  "vbr_loop read num_bits hi_mask shift result 0 bs = Inl Diverges"
| "vbr_loop read num_bits hi_mask shift result (Suc fuel) bs =
     (if shift < 64 then
        rbind (read bs num_bits) (\<lambda>(piece, bs).
        let result = result OR push_bit shift (ucast piece AND (hi_mask - 1)) in
        if ucast piece AND hi_mask = 0 then rbind (vbr_result32 result) (\<lambda>r. Inr (r, bs))
        else vbr_loop read num_bits hi_mask (shift + (num_bits - 1)) result fuel bs)
      else Inl (Fatal ''unreachable''))"

definition read_vbr_with :: "'s bit_read \<Rightarrow> nat \<Rightarrow> 's \<Rightarrow> nat \<Rightarrow> (u32 \<times> 's) res" where
  "read_vbr_with read fuel bs num_bits =
     rbind (read bs num_bits) (\<lambda>(piece, bs).
     rbind (vbr_hi_mask num_bits) (\<lambda>hi_mask.
     if ucast piece AND hi_mask = 0 then Inr (piece, bs)
     else vbr_loop read num_bits hi_mask (num_bits - 1) (ucast piece AND (hi_mask - 1)) fuel bs))"

fun vbr_loop_uint64 :: "'s bit_read \<Rightarrow> nat \<Rightarrow> u32 \<Rightarrow> nat \<Rightarrow> u64 \<Rightarrow> nat \<Rightarrow> 's \<Rightarrow> (u64 \<times> 's) res" where
  "vbr_loop_uint64 read num_bits hi_mask shift result 0 bs = Inl Diverges"
| "vbr_loop_uint64 read num_bits hi_mask shift result (Suc fuel) bs =
     (if shift < 64 then
        rbind (read bs num_bits) (\<lambda>(piece, bs).
        let result = result OR push_bit shift (ucast (piece AND (hi_mask - 1))) in
        if piece AND hi_mask = 0 then Inr (result, bs)
        else vbr_loop_uint64 read num_bits hi_mask (shift + (num_bits - 1)) result fuel bs)
      else Inl (Fatal ''unreachable''))"

definition read_vbr_uint64_with :: "'s bit_read \<Rightarrow> nat \<Rightarrow> 's \<Rightarrow> nat \<Rightarrow> (u64 \<times> 's) res" where
  "read_vbr_uint64_with read fuel bs num_bits =
     rbind (read bs num_bits) (\<lambda>(piece, bs).
     if num_bits = 0 then Inl (Undefined ''shift by a negative count'') else
     let hi_mask = push_bit (num_bits - 1) 1 in
     if piece AND hi_mask = 0 then Inr (ucast piece, bs)
     else vbr_loop_uint64 read num_bits hi_mask (num_bits - 1) (ucast (piece AND (hi_mask - 1))) fuel bs)"

definition vbr_fuel :: "PNBitStream \<Rightarrow> nat" where
  "vbr_fuel bs = 8 * unat (data_len bs) + 65"

text \<open>The special case of six bits is written out in the source; it is a loop of its own.\<close>

fun vbr6_loop :: "nat \<Rightarrow> u64 \<Rightarrow> nat \<Rightarrow> PNBitStream \<Rightarrow> (u32 \<times> PNBitStream) res" where
  "vbr6_loop shift result 0 bs = Inl Diverges"
| "vbr6_loop shift result (Suc fuel) bs =
     (if shift < 64 then
        rbind (pn_bitstream_read bs 6) (\<lambda>(piece, bs).
        let result = result OR push_bit shift (ucast piece AND 31) in
        if (ucast piece :: u64) AND 32 = 0 then rbind (vbr_result32 result) (\<lambda>r. Inr (r, bs))
        else vbr6_loop (shift + 5) result fuel bs)
      else Inl (Fatal ''unreachable''))"

definition pn_bitstream_read_vbr6 :: "PNBitStream \<Rightarrow> (u32 \<times> PNBitStream) res" where
  "pn_bitstream_read_vbr6 bs =
     rbind (pn_bitstream_read bs 6) (\<lambda>(piece, bs).
     if (ucast piece :: u64) AND 32 = 0 then Inr (piece, bs)
     else vbr6_loop 5 (ucast piece AND 31) (vbr_fuel bs) bs)"

definition pn_bitstream_read_vbr :: "PNBitStream \<Rightarrow> nat \<Rightarrow> (u32 \<times> PNBitStream) res" where
  "pn_bitstream_read_vbr bs num_bits =
     (if num_bits = 6 then pn_bitstream_read_vbr6 bs
      else read_vbr_with pn_bitstream_read (vbr_fuel bs) bs num_bits)"

definition pn_bitstream_read_vbr_uint64 :: "PNBitStream \<Rightarrow> nat \<Rightarrow> (u64 \<times> PNBitStream) res" where
  "pn_bitstream_read_vbr_uint64 bs num_bits =
     read_vbr_uint64_with pn_bitstream_read (vbr_fuel bs) bs num_bits"

definition pn_bitstream_seek_bit :: "PNBitStream \<Rightarrow> u32 \<Rightarrow> PNBitStream res" where
  "pn_bitstream_seek_bit bs off =
     rbind (pn_align_down (ucast off) 32) (\<lambda>al.
     rbind (pn_bitstream_fill_curword (bs\<lparr>bit_offset := ucast al\<rparr>)) (\<lambda>bs.
     let off = off AND 31 in
     if off \<noteq> 0 then rbind (pn_bitstream_read_frac_bits bs (unat off)) (\<lambda>(_, bs). Inr bs)
     else Inr bs))"

definition pn_bitstream_skip_bytes :: "PNBitStream \<Rightarrow> u32 \<Rightarrow> PNBitStream res" where
  "pn_bitstream_skip_bytes bs num_bytes = pn_bitstream_seek_bit bs (bit_offset bs + num_bytes * 8)"

definition pn_bitstream_align_32 :: "PNBitStream \<Rightarrow> PNBitStream res" where
  "pn_bitstream_align_32 bs =
     rbind (pn_align_up (ucast (bit_offset bs)) 32) (\<lambda>al. pn_bitstream_seek_bit bs (ucast al))"

definition pn_bitstream_at_end :: "PNBitStream \<Rightarrow> bool" where
  "pn_bitstream_at_end bs = (drop_bit 3 (bit_offset bs) = data_len bs)"

section \<open>The interface: a list of bits\<close>

abbreviation word_of_bits :: "bool list \<Rightarrow> 'a::len word" where
  "word_of_bits \<equiv> horner_sum of_bool 2"

text \<open>
  The encoding that the variable-width readers accept: groups of bits, each with a continuation
  bit behind it, which is clear in the last group only.
\<close>

fun vbr_groups :: "bool list list \<Rightarrow> bool list" where
  "vbr_groups [] = []"
| "vbr_groups [c] = c @ [False]"
| "vbr_groups (c # cs) = c @ [True] @ vbr_groups cs"

lemma word_of_bits_append:
  "word_of_bits (ps @ c) = (word_of_bits ps OR push_bit (length ps) (word_of_bits c) :: 'a::len word)"
  by (rule bit_word_eqI)
    (auto simp: bit_or_iff bit_push_bit_iff bit_horner_sum_bit_iff nth_append)

lemma ucast_word_of_bits:
  "length c \<le> LENGTH('a) \<Longrightarrow> ucast (word_of_bits c :: 'a::len word) = (word_of_bits c :: 'b::len word)"
  by (rule bit_word_eqI) (auto simp: bit_ucast_iff bit_horner_sum_bit_iff)

lemma word_eq_0_iff_bit: "x = 0 \<longleftrightarrow> (\<forall>i. \<not> bit (x :: 'a::len word) i)"
  by (auto intro: bit_word_eqI)

lemma hi_mask_bit:
  assumes "length c < 32"
  shows "(word_of_bits (c @ [b]) :: u32) AND push_bit (length c) 1 = 0 \<longleftrightarrow> \<not> b"
proof -
  have "(word_of_bits (c @ [b]) :: u32) AND push_bit (length c) 1 = 0
      \<longleftrightarrow> \<not> bit (word_of_bits (c @ [b]) :: u32) (length c)"
    by (simp add: push_bit_eq_mult and_exp_eq_0_iff_not_bit)
  also have "\<dots> \<longleftrightarrow> \<not> b" using assms by (simp add: bit_horner_sum_bit_iff)
  finally show ?thesis .
qed

lemma lo_mask_bits:
  assumes "length c < 32"
  shows "(word_of_bits (c @ [b]) :: u32) AND (push_bit (length c) 1 - 1) = word_of_bits c"
proof (rule bit_word_eqI)
  fix i assume "i < LENGTH(32)"
  have "push_bit (length c) 1 - 1 = (mask (length c) :: u32)"
    by (simp add: push_bit_eq_mult mask_eq_exp_minus_1)
  then show "bit ((word_of_bits (c @ [b]) :: u32) AND (push_bit (length c) 1 - 1)) i
      = bit (word_of_bits c :: u32) i"
    using assms by (auto simp: bit_and_iff bit_mask_iff bit_horner_sum_bit_iff nth_append)
qed

text \<open>The 64-bit masks of the 32-bit reader are sign-extended, which changes nothing.\<close>

lemma hi_mask_64:
  assumes "k < 32"
  shows "(ucast (p :: u32) AND (scast (push_bit k 1 :: u32) :: u64) = 0) = (p AND push_bit k 1 = 0)"
proof -
  have "bit (ucast p AND (scast (push_bit k 1 :: u32) :: u64)) i \<longleftrightarrow> i = k \<and> bit p i" for i
    using assms
    by (auto simp: bit_and_iff bit_ucast_iff bit_signed_iff bit_exp_iff min_def
        dest: bit_imp_le_length split: if_splits)
  moreover have "bit (p AND push_bit k 1) i \<longleftrightarrow> i = k \<and> bit p i" for i
    using assms by (auto simp: bit_and_iff bit_exp_iff)
  ultimately show ?thesis by (simp only: word_eq_0_iff_bit)
qed

lemma lo_mask_64:
  assumes "k < 32"
  shows "ucast (p :: u32) AND (scast (push_bit k 1 :: u32) - 1 :: u64) = ucast (p AND (push_bit k 1 - 1))"
proof (rule bit_word_eqI)
  fix i assume i: "i < LENGTH(64)"
  have m: "bit (scast (push_bit k 1 :: u32) - 1 :: u64) j \<longleftrightarrow> j < k" if "j < 32" for j
  proof (cases "k = 31")
    case True
    have "take_bit 32 (scast (push_bit 31 1 :: u32) - 1 :: u64) = mask 31" by (simp add: mask_eq_exp_minus_1)
    then have "bit (take_bit 32 (scast (push_bit 31 1 :: u32) - 1 :: u64)) j = bit (mask 31 :: u64) j"
      by (rule arg_cong)
    then show ?thesis using True that by (simp only: bit_mask_iff bit_take_bit_iff) simp
  next
    case False
    with assms have "scast (push_bit k 1 :: u32) = (2 ^ k :: u64)"
      by (intro bit_word_eqI) (auto simp: bit_signed_iff bit_exp_iff min_def split: if_splits)
    then show ?thesis using assms by (auto simp: pow2_minus_1 bit_mask_iff)
  qed
  have "push_bit k 1 - 1 = (mask k :: u32)" by (simp add: mask_eq_exp_minus_1)
  then show "bit (ucast p AND (scast (push_bit k 1 :: u32) - 1 :: u64)) i
      = bit (ucast (p AND (push_bit k 1 - 1)) :: u64) i"
    using i m [of i] by (auto simp: bit_and_iff bit_ucast_iff bit_mask_iff dest: bit_imp_le_length)
qed

text \<open>So the 32-bit reader is the 64-bit reader followed by the check that the value fits.\<close>

definition narrow_vbr :: "(u64 \<times> 's) res \<Rightarrow> (u32 \<times> 's) res" where
  "narrow_vbr m = rbind m (\<lambda>(v, s). rbind (vbr_result32 v) (\<lambda>r. Inr (r, s)))"

lemma vbr_loop_narrow:
  assumes "1 \<le> n" and "n \<le> 32"
  shows "vbr_loop read n (scast (push_bit (n - 1) 1 :: u32)) sh r fuel s
    = narrow_vbr (vbr_loop_uint64 read n (push_bit (n - 1) 1) sh r fuel s)"
proof (induction fuel arbitrary: sh r s)
  case 0
  then show ?case by (simp add: narrow_vbr_def)
next
  case (Suc fuel)
  have k: "n - 1 < 32" using assms by simp
  show ?case
    unfolding vbr_loop.simps vbr_loop_uint64.simps Suc.IH hi_mask_64 [OF k] lo_mask_64 [OF k] Let_def narrow_vbr_def
    by (cases "read s n") (auto simp del: push_bit_of_1)
qed

lemma ucast_up_down: "ucast (ucast (p :: u32) :: u64) = p"
  by (rule bit_word_eqI) (simp add: bit_ucast_iff)

lemma vbr_result32_ucast: "vbr_result32 (ucast (p :: u32)) = Inr p"
proof -
  have "unat (ucast p :: u64) \<le> 0xFFFFFFFF" using unat_bound [of p] by (simp add: unat_ucast_up)
  then have "(ucast p :: u64) \<le> 0xFFFFFFFF" by (simp add: word_le_nat_alt)
  then show ?thesis by (simp add: vbr_result32_def ucast_up_down)
qed

lemma read_vbr_narrow:
  assumes "1 \<le> n" and "n \<le> 32"
  shows "read_vbr_with read fuel s n = narrow_vbr (read_vbr_uint64_with read fuel s n)"
proof -
  have k: "n - 1 < 32" using assms by simp
  show ?thesis
    using assms
    unfolding read_vbr_with_def read_vbr_uint64_with_def vbr_hi_mask_def Let_def
    by (cases "read s n")
      (auto simp: hi_mask_64 [OF k] lo_mask_64 [OF k] vbr_loop_narrow vbr_result32_ucast narrow_vbr_def
        simp del: push_bit_of_1 One_nat_def)
qed

locale bit_reader =
  fixes inv :: "'s \<Rightarrow> bool"
    and rest :: "'s \<Rightarrow> bool list"
    and read :: "'s \<Rightarrow> nat \<Rightarrow> (u32 \<times> 's) res"
  assumes read_in: "inv s \<Longrightarrow> rest s = xs @ ys \<Longrightarrow> length xs \<le> 32 \<Longrightarrow>
      \<exists>s'. read s (length xs) = Inr (word_of_bits xs, s') \<and> inv s' \<and> rest s' = ys"
    and read_end: "inv s \<Longrightarrow> n \<le> 32 \<Longrightarrow> length (rest s) < n \<Longrightarrow> \<exists>m. read s n = Inl (Check m)"
begin

lemma read_total:
  assumes "inv s" and "n \<le> 32"
  shows "(\<exists>m. read s n = Inl (Check m)) \<or>
    (\<exists>s'. read s n = Inr (word_of_bits (take n (rest s)), s') \<and> inv s' \<and> rest s' = drop n (rest s)
       \<and> n \<le> length (rest s))"
proof (cases "n \<le> length (rest s)")
  case True
  with assms read_in [of s "take n (rest s)" "drop n (rest s)"] show ?thesis by auto
next
  case False
  with assms read_end [of s n] show ?thesis by auto
qed

lemma vbr_loop_groups:
  assumes "inv s" and "rest s = vbr_groups cs @ ys" and "cs \<noteq> []" and "\<forall>c \<in> set cs. length c = n - 1"
    and "2 \<le> n" "n \<le> 32" and "length ps + (n - 1) * (length cs - 1) < 64" and "length cs \<le> fuel"
  shows "\<exists>s'. vbr_loop_uint64 read n (push_bit (n - 1) 1) (length ps) (word_of_bits ps) fuel s
    = Inr (word_of_bits (ps @ concat cs), s') \<and> inv s' \<and> rest s' = ys"
  using assms
proof (induction cs arbitrary: s ps fuel)
  case Nil
  then show ?case by simp
next
  case (Cons c cs)
  then obtain f where f: "fuel = Suc f" by (cases fuel) auto
  have c: "length c = n - 1" "length c < 32" using Cons.prems by auto
  have sh: "length ps < 64" using Cons.prems(7) by simp
  define b where "b = (cs \<noteq> [])"
  have r: "rest s = (c @ [b]) @ (vbr_groups cs @ ys)"
    using Cons.prems(2) by (cases cs) (auto simp: b_def)
  from read_in [OF Cons.prems(1) r] c Cons.prems(5,6) obtain s' where
    s': "read s n = Inr (word_of_bits (c @ [b]), s')" "inv s'" "rest s' = vbr_groups cs @ ys" by auto
  have res: "(word_of_bits ps OR push_bit (length ps)
      (ucast ((word_of_bits (c @ [b]) :: u32) AND (push_bit (n - 1) 1 - 1)))) = (word_of_bits (ps @ c) :: u64)"
    unfolding c(1) [symmetric] lo_mask_bits [OF c(2)] using c(2)
    by (simp add: word_of_bits_append [of ps] ucast_word_of_bits [of c])
  show ?case
  proof (cases b)
    case False
    then show ?thesis
      using s' f sh res c hi_mask_bit [OF c(2), of b] by (simp add: b_def)
  next
    case True
    then have "cs \<noteq> []" by (simp add: b_def)
    moreover have "length (ps @ c) + (n - 1) * (length cs - 1) < 64"
      using Cons.prems(7) c(1) \<open>cs \<noteq> []\<close> by (cases cs) simp_all
    moreover have "length cs \<le> f" using Cons.prems(8) f by simp
    ultimately have "\<exists>s''. vbr_loop_uint64 read n (push_bit (n - 1) 1) (length (ps @ c)) (word_of_bits (ps @ c)) f s'
        = Inr (word_of_bits ((ps @ c) @ concat cs), s'') \<and> inv s'' \<and> rest s'' = ys"
      using Cons.prems s'(2,3) by (intro Cons.IH) auto
    then show ?thesis
      using s' f sh res c True hi_mask_bit [OF c(2), of b] by simp
  qed
qed

lemma read_vbr_uint64_groups:
  assumes "inv s" and "rest s = vbr_groups cs @ ys" and "cs \<noteq> []" and "\<forall>c \<in> set cs. length c = n - 1"
    and "2 \<le> n" "n \<le> 32" and "(n - 1) * (length cs - 1) < 64" and "length cs \<le> fuel"
  shows "\<exists>s'. read_vbr_uint64_with read fuel s n = Inr (word_of_bits (concat cs), s') \<and> inv s' \<and> rest s' = ys"
proof -
  obtain c ds where cs: "cs = c # ds" using assms(3) by (cases cs) auto
  have c: "length c = n - 1" "length c < 32" using assms(4-6) cs by auto
  define b where "b = (ds \<noteq> [])"
  have r: "rest s = (c @ [b]) @ (vbr_groups ds @ ys)"
    using assms(2) cs by (cases ds) (auto simp: b_def)
  from read_in [OF assms(1) r] c assms(5,6) obtain s' where
    s': "read s n = Inr (word_of_bits (c @ [b]), s')" "inv s'" "rest s' = vbr_groups ds @ ys" by auto
  show ?thesis
  proof (cases b)
    case False
    then have "ds = []" by (simp add: b_def)
    moreover have "(word_of_bits (c @ [False]) :: u64) = word_of_bits c" by (simp add: word_of_bits_append)
    moreover have "length (c @ [b]) \<le> LENGTH(32)" using c by simp
    ultimately show ?thesis
      using s' c assms(5) cs False hi_mask_bit [OF c(2), of b] ucast_word_of_bits [of "c @ [b]", where 'a = 32 and 'b = 64]
      by (simp add: read_vbr_uint64_with_def)
  next
    case True
    then have "ds \<noteq> []" by (simp add: b_def)
    have "\<exists>s''. vbr_loop_uint64 read n (push_bit (n - 1) 1) (length c) (word_of_bits c) fuel s'
        = Inr (word_of_bits (c @ concat ds), s'') \<and> inv s'' \<and> rest s'' = ys"
    proof (rule vbr_loop_groups)
      show "length c + (n - 1) * (length ds - 1) < 64"
        using assms(7) c(1) \<open>ds \<noteq> []\<close> cs by (cases ds) simp_all
    qed (use s' assms cs \<open>ds \<noteq> []\<close> in auto)
    moreover have "ucast ((word_of_bits (c @ [b]) :: u32) AND (push_bit (n - 1) 1 - 1)) = (word_of_bits c :: u64)"
      unfolding c(1) [symmetric] lo_mask_bits [OF c(2)] using c(2) by (simp add: ucast_word_of_bits)
    ultimately show ?thesis
      using s' c assms(5) cs True hi_mask_bit [OF c(2), of b] by (simp add: read_vbr_uint64_with_def)
  qed
qed

text \<open>Whatever the data, a variable-width read ends, with a value or a check that fails.\<close>

lemma vbr_loop_safe:
  assumes "inv s" and "1 \<le> n" "n \<le> 32" and "length (rest s) < fuel"
  shows "(\<exists>m. vbr_loop_uint64 read n h sh r fuel s = Inl (Check m)) \<or>
    vbr_loop_uint64 read n h sh r fuel s = Inl (Fatal ''unreachable'') \<or>
    (\<exists>v s' xs. vbr_loop_uint64 read n h sh r fuel s = Inr (v, s') \<and> inv s' \<and> rest s = xs @ rest s' \<and> xs \<noteq> [])"
  using assms
proof (induction fuel arbitrary: s sh r)
  case 0
  then show ?case by simp
next
  case (Suc fuel)
  show ?case
  proof (cases "sh < 64")
    case True
    from read_total [OF Suc.prems(1,3)] consider
      (bad) m where "read s n = Inl (Check m)"
    | (good) p s' where "read s n = Inr (p, s')" "inv s'" "rest s' = drop n (rest s)" "n \<le> length (rest s)"
      by blast
    then show ?thesis
    proof cases
      case bad
      with True show ?thesis by simp
    next
      case good
      have sp: "rest s = take n (rest s) @ rest s'" "take n (rest s) \<noteq> []" using good Suc.prems(2) by auto
      show ?thesis
      proof (cases "p AND h = 0")
        case T: True
        with True good(1,2) sp show ?thesis by fastforce
      next
        case F: False
        have "length (rest s') < fuel" using good Suc.prems(2,4) by simp
        from Suc.IH [OF good(2) Suc.prems(2,3) this,
            of "sh + (n - 1)" "r OR push_bit sh (ucast (p AND (h - 1)))"] True good(1) F sp
        show ?thesis by (auto simp: Let_def) (metis append.assoc append_is_Nil_conv)+
      qed
    qed
  qed simp
qed

end

section \<open>The source implements the interface\<close>

definition data_bit :: "u8 list \<Rightarrow> nat \<Rightarrow> bool" where
  "data_bit data i = bit (data ! (i div 8)) (i mod 8)"

text \<open>
  The invariant of a stream over a file of whole words: the cached bits are those at the cursor,
  up to a word boundary, and nothing is cached above them (but at the very end, where a stale word
  may stay behind).
\<close>

definition bs_inv :: "PNBitStream \<Rightarrow> bool" where
  "bs_inv bs \<longleftrightarrow> length (bs_data bs) = unat (data_len bs) \<and> 4 dvd unat (data_len bs)
     \<and> 8 * unat (data_len bs) < 2 ^ 32 \<and> curword_bits bs \<le> 32
     \<and> unat (bit_offset bs) + curword_bits bs \<le> 8 * unat (data_len bs)
     \<and> 32 dvd unat (bit_offset bs) + curword_bits bs
     \<and> (\<forall>i < curword_bits bs. bit (curword bs) i = data_bit (bs_data bs) (unat (bit_offset bs) + i))
     \<and> (unat (bit_offset bs) < 8 * unat (data_len bs) \<longrightarrow> (\<forall>i \<ge> curword_bits bs. \<not> bit (curword bs) i))"

definition bs_rest :: "PNBitStream \<Rightarrow> bool list" where
  "bs_rest bs = map (data_bit (bs_data bs)) [unat (bit_offset bs)..<8 * unat (data_len bs)]"

lemma bs_inv_init:
  assumes "length data = unat len" and "4 dvd unat len" and "8 * unat len < 2 ^ 32"
  shows "bs_inv (pn_bitstream_init data len)"
  using assms by (simp add: bs_inv_def pn_bitstream_init_def)

lemma length_bs_rest: "length (bs_rest bs) = 8 * unat (data_len bs) - unat (bit_offset bs)"
  by (simp add: bs_rest_def)

lemma nth_bs_rest: "i < length (bs_rest bs) \<Longrightarrow> bs_rest bs ! i = data_bit (bs_data bs) (unat (bit_offset bs) + i)"
  by (simp add: bs_rest_def)

lemma bs_rest_advance:
  assumes "unat (bit_offset bs') = unat (bit_offset bs) + n" "data_len bs' = data_len bs" "bs_data bs' = bs_data bs"
  shows "bs_rest bs' = drop n (bs_rest bs)"
  using assms by (simp add: bs_rest_def drop_map add.commute)

lemma offset_advance:
  assumes "bs_inv bs" and "unat (bit_offset bs) + n \<le> 8 * unat (data_len bs)"
  shows "unat (bit_offset bs + of_nat n) = unat (bit_offset bs) + n"
proof -
  have "unat (bit_offset bs) + n < 2 ^ 32" using assms by (auto simp: bs_inv_def)
  then have "unat (of_nat n :: u32) = n" by (intro unat_of_nat_small) simp
  with \<open>unat (bit_offset bs) + n < 2 ^ 32\<close> show ?thesis by (simp add: unat_add_small)
qed

lemma frac_bits_value:
  assumes "n \<le> 32"
  shows "(if n = 32 then w else (w :: u32) AND (push_bit n 1 - 1)) = take_bit n w"
    "(if n = 32 then 0 else drop_bit n w) = drop_bit n w"
proof -
  have "push_bit n 1 - 1 = (mask n :: u32)" by (simp add: mask_eq_exp_minus_1)
  then show "(if n = 32 then w else w AND (push_bit n 1 - 1)) = take_bit n w"
    by (auto intro!: bit_word_eqI simp: bit_and_iff bit_mask_iff bit_take_bit_iff)
  show "(if n = 32 then 0 else drop_bit n w) = drop_bit n w"
    by (auto intro!: bit_word_eqI simp: bit_drop_bit_eq dest: bit_imp_le_length)
qed

lemma read_frac_bits_ok:
  assumes inv: "bs_inv bs" and n: "n \<le> curword_bits bs"
  shows "\<exists>bs'. pn_bitstream_read_frac_bits bs n = Inr (word_of_bits (take n (bs_rest bs)), bs')
    \<and> bs_inv bs' \<and> bs_rest bs' = drop n (bs_rest bs)"
proof -
  have b: "curword_bits bs \<le> 32" "unat (bit_offset bs) + curword_bits bs \<le> 8 * unat (data_len bs)"
    "\<And>i. i < curword_bits bs \<Longrightarrow> bit (curword bs) i = data_bit (bs_data bs) (unat (bit_offset bs) + i)"
    using inv by (auto simp: bs_inv_def)
  let ?bs' = "bs\<lparr>curword := drop_bit n (curword bs), curword_bits := curword_bits bs - n,
               bit_offset := bit_offset bs + of_nat n\<rparr>"
  have off: "unat (bit_offset bs + of_nat n) = unat (bit_offset bs) + n"
    using inv b n by (intro offset_advance) auto
  have len: "n \<le> length (bs_rest bs)" using b n by (simp add: length_bs_rest)
  have v: "take_bit n (curword bs) = word_of_bits (take n (bs_rest bs))"
    using n b len by (intro bit_word_eqI) (auto simp: bit_take_bit_iff bit_horner_sum_bit_iff nth_bs_rest)
  have "pn_bitstream_read_frac_bits bs n = Inr (take_bit n (curword bs), ?bs')"
    using n b(1) frac_bits_value [of n "curword bs"]
    by (auto simp: pn_bitstream_read_frac_bits_def Let_def split: if_splits)
  moreover have "bs_inv ?bs'"
    using inv n off by (auto simp: bs_inv_def bit_drop_bit_eq add.assoc)
  moreover have "bs_rest ?bs' = drop n (bs_rest bs)" using off by (intro bs_rest_advance) simp_all
  ultimately show ?thesis using v by auto
qed

lemma bit_load_data32:
  assumes "off + 4 \<le> length data"
  shows "load_data32 data off = Inr (le_word (take 4 (drop off data)))"
    "i < 32 \<Longrightarrow> bit (le_word (take 4 (drop off data)) :: u32) i = data_bit data (8 * off + i)"
  using assms by (auto simp: load_data32_def bit_le_word data_bit_def)

text \<open>Filling the cache at a word boundary caches the next word, if there is one.\<close>

lemma fill_curword_ok:
  assumes "length (bs_data bs) = unat (data_len bs)" and "4 dvd unat (data_len bs)"
    and "8 * unat (data_len bs) < 2 ^ 32" and "unat (bit_offset bs) \<le> 8 * unat (data_len bs)"
    and "32 dvd unat (bit_offset bs)"
  shows "\<exists>bs'. pn_bitstream_fill_curword bs = Inr bs' \<and> bs_inv bs' \<and> bs_rest bs' = bs_rest bs
    \<and> bit_offset bs' = bit_offset bs \<and> data_len bs' = data_len bs
    \<and> curword_bits bs' = (if unat (bit_offset bs) < 8 * unat (data_len bs) then 32 else 0)"
proof -
  let ?n = "unat (data_len bs)"
  from assms(5) obtain q where q: "unat (bit_offset bs) = 32 * q" by (auto elim: dvdE)
  from assms(2) obtain m where m: "?n = 4 * m" by (auto elim: dvdE)
  have qm: "q \<le> m" using assms(4) q m by simp
  have bo: "unat (drop_bit 3 (bit_offset bs)) = 4 * q" using q by (simp add: drop_bit_eq_div unat_div)
  let ?w = "le_word (take 4 (drop (4 * q) (bs_data bs))) :: u32"
  show ?thesis
  proof (cases "q < m")
    case True
    then have in4: "4 * q + 4 \<le> length (bs_data bs)" using assms(1) m by simp
    let ?bs' = "bs\<lparr>curword_bits := 32, curword := ?w\<rparr>"
    have "pn_bitstream_fill_curword bs = Inr ?bs'"
    proof (cases "4 * q + 4 < ?n")
      case True
      with in4 show ?thesis by (simp add: pn_bitstream_fill_curword_def bo bit_load_data32(1))
    next
      case False
      with in4 assms(1) have e: "?n = 4 * q + 4" by simp
      have "unat (data_len bs - drop_bit 3 (bit_offset bs)) = 4"
        using e bo by (simp add: unat_sub word_le_nat_alt)
      with False e in4 bo show ?thesis
        by (simp add: pn_bitstream_fill_curword_def bit_load_data32(1) word_le_nat_alt Let_def)
    qed
    moreover have "bs_inv ?bs'"
      using assms in4 q True m by (auto simp: bs_inv_def bit_load_data32(2) dest: bit_imp_le_length)
    ultimately show ?thesis using True q m by (auto simp: bs_rest_def)
  next
    case False
    with qm have e: "q = m" by simp
    have "pn_bitstream_fill_curword bs = Inr (bs\<lparr>curword_bits := 0\<rparr>)"
      using e bo m by (simp add: pn_bitstream_fill_curword_def word_le_nat_alt Let_def unat_sub)
    moreover have "bs_inv (bs\<lparr>curword_bits := 0\<rparr>)" using assms e q m by (simp add: bs_inv_def)
    ultimately show ?thesis using e q m by (auto simp: bs_rest_def)
  qed
qed


lemma bits_cached_exhausted:
  assumes inv: "bs_inv bs" and off: "unat (bit_offset bs) < 8 * unat (data_len bs)"
  shows "curword bs = word_of_bits (take (curword_bits bs) (bs_rest bs))"
proof (rule bit_word_eqI)
  fix i
  have "curword_bits bs \<le> length (bs_rest bs)" using inv by (auto simp: bs_inv_def length_bs_rest)
  moreover have "i < curword_bits bs \<Longrightarrow> bit (curword bs) i = data_bit (bs_data bs) (unat (bit_offset bs) + i)"
    "curword_bits bs \<le> i \<Longrightarrow> \<not> bit (curword bs) i"
    using inv off by (auto simp: bs_inv_def)
  ultimately show "i < LENGTH(32) \<Longrightarrow>
      bit (curword bs) i = bit (word_of_bits (take (curword_bits bs) (bs_rest bs)) :: u32) i"
    by (cases "i < curword_bits bs") (auto simp: bit_horner_sum_bit_iff nth_bs_rest)
qed

lemma bitstream_read_ok:
  assumes inv: "bs_inv bs" and n: "n \<le> 32" and len: "n \<le> length (bs_rest bs)"
  shows "\<exists>bs'. pn_bitstream_read bs n = Inr (word_of_bits (take n (bs_rest bs)), bs')
    \<and> bs_inv bs' \<and> bs_rest bs' = drop n (bs_rest bs)"
proof (cases "n \<le> curword_bits bs")
  case True
  with read_frac_bits_ok [OF inv True] n show ?thesis by (simp add: pn_bitstream_read_def)
next
  case False
  let ?cb = "curword_bits bs"
  let ?b1 = "bs\<lparr>bit_offset := bit_offset bs + of_nat ?cb\<rparr>"
  have i: "unat (bit_offset bs) + ?cb \<le> 8 * unat (data_len bs)" "32 dvd unat (bit_offset bs) + ?cb"
    "length (bs_data bs) = unat (data_len bs)" "4 dvd unat (data_len bs)" "8 * unat (data_len bs) < 2 ^ 32"
    using inv by (auto simp: bs_inv_def)
  have lt: "unat (bit_offset bs) + ?cb < 8 * unat (data_len bs)"
    using False len i(1) by (simp add: length_bs_rest)
  have off: "unat (bit_offset bs + of_nat ?cb) = unat (bit_offset bs) + ?cb"
    using inv i(1) by (rule offset_advance)
  have r1: "bs_rest ?b1 = drop ?cb (bs_rest bs)" using off by (intro bs_rest_advance) simp_all
  from fill_curword_ok [of ?b1] i off lt r1 obtain b2 where b2: "pn_bitstream_fill_curword ?b1 = Inr b2"
    "bs_inv b2" "bs_rest b2 = drop ?cb (bs_rest bs)" "curword_bits b2 = 32" by auto
  have left: "n - ?cb \<le> curword_bits b2" using n b2(4) by simp
  from read_frac_bits_ok [OF b2(2) left] b2(3) obtain b3 where b3:
    "pn_bitstream_read_frac_bits b2 (n - ?cb) = Inr (word_of_bits (take (n - ?cb) (drop ?cb (bs_rest bs))), b3)"
    "bs_inv b3" "bs_rest b3 = drop n (bs_rest bs)" using False by (auto simp: add.commute)
  have "?cb \<le> length (bs_rest bs)" using i(1) by (simp add: length_bs_rest)
  moreover have "take n (bs_rest bs) = take ?cb (bs_rest bs) @ take (n - ?cb) (drop ?cb (bs_rest bs))"
    using False by (metis le_add_diff_inverse linorder_le_cases take_add)
  ultimately have "(word_of_bits (take n (bs_rest bs)) :: u32)
      = curword bs OR push_bit ?cb (word_of_bits (take (n - ?cb) (drop ?cb (bs_rest bs))))"
    using lt bits_cached_exhausted [OF inv] by (simp only: word_of_bits_append length_take min_absorb2)
  then show ?thesis using b2(1) b3 left n False by (simp add: pn_bitstream_read_def Let_def)
qed

lemma bitstream_read_end:
  assumes inv: "bs_inv bs" and n: "n \<le> 32" and len: "length (bs_rest bs) < n"
  shows "pn_bitstream_read bs n = Inl (Check ''bits_left <= bs->curword_bits'')"
proof -
  let ?cb = "curword_bits bs"
  let ?b1 = "bs\<lparr>bit_offset := bit_offset bs + of_nat ?cb\<rparr>"
  have i: "unat (bit_offset bs) + ?cb \<le> 8 * unat (data_len bs)" "32 dvd unat (bit_offset bs) + ?cb"
    "length (bs_data bs) = unat (data_len bs)" "4 dvd unat (data_len bs)" "8 * unat (data_len bs) < 2 ^ 32"
    using inv by (auto simp: bs_inv_def)
  have off: "unat (bit_offset bs + of_nat ?cb) = unat (bit_offset bs) + ?cb"
    using inv i(1) by (rule offset_advance)
  have nc: "?cb < n" using len i(1) by (simp add: length_bs_rest)
  have "\<not> unat (bit_offset bs) + ?cb < 8 * unat (data_len bs)"
  proof
    assume "unat (bit_offset bs) + ?cb < 8 * unat (data_len bs)"
    moreover have "32 dvd 8 * unat (data_len bs)" using i(4) by (auto elim!: dvdE)
    ultimately have "unat (bit_offset bs) + ?cb + 32 \<le> 8 * unat (data_len bs)"
      using i(2) by (auto elim!: dvdE)
    with len n show False by (simp add: length_bs_rest)
  qed
  with fill_curword_ok [of ?b1] i off obtain b2 where "pn_bitstream_fill_curword ?b1 = Inr b2"
    "curword_bits b2 = 0" by auto
  with nc n show ?thesis by (simp add: pn_bitstream_read_def Let_def)
qed

interpretation bsr: bit_reader bs_inv bs_rest pn_bitstream_read
proof
  fix s xs ys
  assume "bs_inv s" "bs_rest s = xs @ ys" "length xs \<le> 32"
  then show "\<exists>s'. pn_bitstream_read s (length xs) = Inr (word_of_bits xs, s') \<and> bs_inv s' \<and> bs_rest s' = ys"
    using bitstream_read_ok [of s "length xs"] by auto
next
  fix s n
  assume "bs_inv s" "n \<le> 32" "length (bs_rest s) < n"
  then show "\<exists>m. pn_bitstream_read s n = Inl (Check m)" using bitstream_read_end by blast
qed

text \<open>The written-out six-bit reader is the general one.\<close>

lemma vbr6_loop_general:
  "vbr6_loop sh r fuel bs = vbr_loop pn_bitstream_read 6 32 sh r fuel bs"
proof (induction fuel arbitrary: sh r bs)
  case (Suc fuel)
  show ?case
    by (cases "pn_bitstream_read bs 6") (auto simp: Let_def Suc.IH)
qed simp

lemma read_data_len: "pn_bitstream_read bs n = Inr (p, bs') \<Longrightarrow> data_len bs' = data_len bs \<and> bs_data bs' = bs_data bs"
  by (auto simp: pn_bitstream_read_def pn_bitstream_read_frac_bits_def pn_bitstream_fill_curword_def
      res_simps Let_def split: if_splits)

lemma read_vbr6_general:
  "pn_bitstream_read_vbr6 bs = read_vbr_with pn_bitstream_read (vbr_fuel bs) bs 6"
  unfolding pn_bitstream_read_vbr6_def read_vbr_with_def
  by (cases "pn_bitstream_read bs 6")
    (auto simp: vbr_hi_mask_def vbr6_loop_general vbr_fuel_def dest: read_data_len)

lemma read_vbr_general:
  "pn_bitstream_read_vbr bs n = read_vbr_with pn_bitstream_read (vbr_fuel bs) bs n"
  by (simp add: pn_bitstream_read_vbr_def read_vbr6_general)

lemma read_vbr_is_narrow:
  assumes "1 \<le> n" and "n \<le> 32"
  shows "pn_bitstream_read_vbr bs n = narrow_vbr (pn_bitstream_read_vbr_uint64 bs n)"
  using assms by (simp add: read_vbr_general read_vbr_narrow pn_bitstream_read_vbr_uint64_def)


section \<open>The canonical encoding of a number\<close>

definition bits_of :: "nat \<Rightarrow> nat \<Rightarrow> bool list" where
  "bits_of k v = map (bit v) [0..<k]"

function vbr_chunks :: "nat \<Rightarrow> nat \<Rightarrow> bool list list" where
  "vbr_chunks n v = (if n < 2 \<or> v < 2 ^ (n - 1) then [bits_of (n - 1) v]
     else bits_of (n - 1) v # vbr_chunks n (v div 2 ^ (n - 1)))"
  by auto
termination
proof (relation "measure snd")
  fix n v :: nat
  assume "\<not> (n < 2 \<or> v < 2 ^ (n - 1))"
  then have "2 \<le> n" "2 ^ (n - 1) \<le> v" by auto
  then have "(2 :: nat) ^ 1 \<le> 2 ^ (n - 1)" by (intro power_increasing) auto
  with \<open>2 ^ (n - 1) \<le> v\<close> have "v div 2 ^ (n - 1) < v" by (intro div_less_dividend) auto
  then show "((n, v div 2 ^ (n - 1)), n, v) \<in> measure snd" by simp
qed simp

declare vbr_chunks.simps [simp del]

definition vbr_encode :: "nat \<Rightarrow> nat \<Rightarrow> bool list" where
  "vbr_encode n v = vbr_groups (vbr_chunks n v)"

lemma length_bits_of [simp]: "length (bits_of k v) = k"
  by (simp add: bits_of_def)

lemma horner_bits_of: "horner_sum of_bool 2 (bits_of k v) = v mod 2 ^ k"
  unfolding bits_of_def horner_sum_bit_eq_take_bit by (simp add: take_bit_eq_mod)

lemma vbr_chunks_shape:
  "vbr_chunks n v \<noteq> []" "\<forall>c \<in> set (vbr_chunks n v). length c = n - 1"
  by (subst vbr_chunks.simps, simp)
    (induction n v rule: vbr_chunks.induct, subst vbr_chunks.simps, auto)

lemma vbr_chunks_value: "2 \<le> n \<Longrightarrow> horner_sum of_bool 2 (concat (vbr_chunks n v)) = v"
proof (induction n v rule: vbr_chunks.induct)
  case (1 n v)
  show ?case
  proof (cases "v < 2 ^ (n - 1)")
    case True
    then show ?thesis by (simp add: vbr_chunks.simps [of n v] horner_bits_of)
  next
    case False
    with 1 show ?thesis
      by (simp add: vbr_chunks.simps [of n v] horner_sum_append horner_bits_of)
  qed
qed

lemma vbr_chunks_length:
  "2 \<le> n \<Longrightarrow> length (vbr_chunks n v) = 1 \<or> 2 ^ ((n - 1) * (length (vbr_chunks n v) - 1)) \<le> v"
proof (induction n v rule: vbr_chunks.induct)
  case (1 n v)
  show ?case
  proof (cases "v < 2 ^ (n - 1)")
    case True
    then show ?thesis by (simp add: vbr_chunks.simps [of n v])
  next
    case False
    let ?w = "v div 2 ^ (n - 1)" and ?l = "length (vbr_chunks n (v div 2 ^ (n - 1)))"
    have l: "length (vbr_chunks n v) = Suc ?l" using False 1(2) by (simp add: vbr_chunks.simps [of n v])
    have "2 ^ ((n - 1) * (?l - 1)) \<le> ?w"
    proof -
      have "?l = 1 \<or> 2 ^ ((n - 1) * (?l - 1)) \<le> ?w" using 1 False by simp
      moreover have "1 \<le> ?w" using False by (simp add: div_greater_zero_iff Suc_le_eq)
      ultimately show ?thesis by auto
    qed
    then have "2 ^ ((n - 1) * (?l - 1)) * 2 ^ (n - 1) \<le> v"
      by (meson div_times_less_eq_dividend le_trans mult_le_mono1)
    moreover have "(n - 1) * ?l = (n - 1) * (?l - 1) + (n - 1)"
      using vbr_chunks_shape(1) [of n ?w] by (cases ?l) simp_all
    ultimately show ?thesis unfolding l by (simp add: power_add)
  qed
qed

lemma vbr_chunks_bound:
  assumes "2 \<le> n" and "v < 2 ^ 64"
  shows "(n - 1) * (length (vbr_chunks n v) - 1) < 64" "length (vbr_chunks n v) \<le> 65"
proof -
  show b: "(n - 1) * (length (vbr_chunks n v) - 1) < 64"
  proof (rule ccontr)
    assume "\<not> ?thesis"
    then have "64 \<le> (n - 1) * (length (vbr_chunks n v) - 1)" by simp
    then have "(2 :: nat) ^ 64 \<le> 2 ^ ((n - 1) * (length (vbr_chunks n v) - 1))"
      "length (vbr_chunks n v) \<noteq> 1"
      by (intro power_increasing, auto)
    with vbr_chunks_length [OF assms(1), of v] assms(2) show False by linarith
  qed
  have "1 * (length (vbr_chunks n v) - 1) \<le> (n - 1) * (length (vbr_chunks n v) - 1)"
    using assms(1) by (intro mult_le_mono1) simp
  with b show "length (vbr_chunks n v) \<le> 65" by linarith
qed

lemma word_of_bits_of_nat: "word_of_bits xs = of_nat (horner_sum of_bool 2 xs)"
  by (induction xs) simp_all

lemma read_vbr_uint64_encoded:
  assumes "bs_inv bs" and "bs_rest bs = vbr_encode n v @ ys" and "2 \<le> n" "n \<le> 32" and "v < 2 ^ 64"
  shows "\<exists>bs'. pn_bitstream_read_vbr_uint64 bs n = Inr (of_nat v, bs') \<and> bs_inv bs' \<and> bs_rest bs' = ys"
proof -
  have "length (vbr_chunks n v) \<le> vbr_fuel bs" using vbr_chunks_bound(2) [OF assms(3,5)] by (simp add: vbr_fuel_def)
  from bsr.read_vbr_uint64_groups [OF assms(1) _ vbr_chunks_shape assms(3,4) vbr_chunks_bound(1) [OF assms(3,5)] this,
      of ys] assms(2)
  show ?thesis
    by (simp add: pn_bitstream_read_vbr_uint64_def vbr_encode_def word_of_bits_of_nat vbr_chunks_value assms(3))
qed

text \<open>The values the 32-bit reader accepts: 32 bits, or 64 bits that extend a negative 32-bit one.\<close>

definition fits_vbr32 :: "nat \<Rightarrow> bool" where
  "fits_vbr32 v \<longleftrightarrow> v < 2 ^ 32 \<or> 2 ^ 64 - 2 ^ 31 \<le> v"

lemma vbr_result32_nat:
  assumes "v < 2 ^ 64"
  shows "vbr_result32 (of_nat v) =
    (if fits_vbr32 v then Inr (of_nat v) else Inl (Check ''vbr value does not fit 32 bits''))"
proof -
  let ?r = "of_nat v :: u64"
  have u: "unat ?r = v" using assms by (intro unat_of_nat_small) simp
  have "?r AND 0x80000000 \<noteq> 0 \<longleftrightarrow> bit ?r 31"
    using and_exp_eq_0_iff_not_bit [of ?r 31] by simp
  also have "\<dots> \<longleftrightarrow> bit (unat ?r) 31" by (simp add: bit_unsigned_iff)
  also have "\<dots> \<longleftrightarrow> odd (v div 2 ^ 31)" unfolding u by (simp add: bit_iff_odd)
  finally have 1: "?r AND 0x80000000 \<noteq> 0 \<longleftrightarrow> odd (v div 2 ^ 31)" .
  have "drop_bit 32 ?r = 0xFFFFFFFF \<longleftrightarrow> unat (drop_bit 32 ?r) = 0xFFFFFFFF"
    by (simp add: word_unat_eq_iff)
  also have "unat (drop_bit 32 ?r) = v div 2 ^ 32" using u by (simp add: drop_bit_eq_div unat_div)
  finally have 2: "drop_bit 32 ?r = 0xFFFFFFFF \<longleftrightarrow> v div 2 ^ 32 = 0xFFFFFFFF" .
  have 3: "?r \<le> 0xFFFFFFFF \<longleftrightarrow> v < 2 ^ 32" using u by (auto simp: word_le_nat_alt)
  have 4: "odd (v div 2 ^ 31) \<and> v div 2 ^ 32 = 0xFFFFFFFF \<longleftrightarrow> 2 ^ 64 - 2 ^ 31 \<le> v"
  proof -
    have "v div 2 ^ 32 = v div 2 ^ 31 div 2" by (simp add: div_mult2_eq [symmetric])
    then have "odd (v div 2 ^ 31) \<and> v div 2 ^ 32 = 0xFFFFFFFF \<longleftrightarrow> v div 2 ^ 31 = 2 ^ 33 - 1"
      by (auto elim!: oddE)
    also have "\<dots> \<longleftrightarrow> 2 ^ 33 - 1 \<le> v div 2 ^ 31"
      using assms less_mult_imp_div_less [of v "2 ^ 33" "2 ^ 31"] by auto
    also have "\<dots> \<longleftrightarrow> (2 ^ 33 - 1) * 2 ^ 31 \<le> v" by (simp add: less_eq_div_iff_mult_less_eq)
    finally show ?thesis by simp
  qed
  have "ucast ?r = (of_nat v :: u32)" 
    using assms take_bit_nat_eq_self [of v 64] by (simp add: unsigned_of_nat)
  then show ?thesis
    unfolding vbr_result32_def 1 2 3 4 fits_vbr32_def by (simp add: ensure_def)
qed


lemma read_vbr_encoded:
  assumes "bs_inv bs" and "bs_rest bs = vbr_encode n v @ ys" and "2 \<le> n" "n \<le> 32" and "v < 2 ^ 64"
  shows "if fits_vbr32 v
    then \<exists>bs'. pn_bitstream_read_vbr bs n = Inr (of_nat v, bs') \<and> bs_inv bs' \<and> bs_rest bs' = ys
    else pn_bitstream_read_vbr bs n = Inl (Check ''vbr value does not fit 32 bits'')"
proof -
  have n: "1 \<le> n" using assms(3) by simp
  from read_vbr_uint64_encoded [OF assms] obtain bs' where
    "pn_bitstream_read_vbr_uint64 bs n = Inr (of_nat v, bs')" "bs_inv bs'" "bs_rest bs' = ys" by blast
  then show ?thesis
    by (simp add: read_vbr_is_narrow [OF n assms(4)] narrow_vbr_def vbr_result32_nat [OF assms(5)])
qed

lemma read_vbr_uint64_safe:
  assumes "bs_inv bs" and "1 \<le> n" "n \<le> 32"
  shows "(\<exists>m. pn_bitstream_read_vbr_uint64 bs n = Inl (Check m)) \<or>
    pn_bitstream_read_vbr_uint64 bs n = Inl (Fatal ''unreachable'') \<or>
    (\<exists>v bs' xs. pn_bitstream_read_vbr_uint64 bs n = Inr (v, bs') \<and> bs_inv bs'
       \<and> bs_rest bs = xs @ bs_rest bs' \<and> xs \<noteq> [])"
proof -
  from bsr.read_total [OF assms(1,3)] consider
    (bad) m where "pn_bitstream_read bs n = Inl (Check m)"
  | (good) p b where "pn_bitstream_read bs n = Inr (p, b)" "bs_inv b" "bs_rest b = drop n (bs_rest bs)"
      "n \<le> length (bs_rest bs)" by blast
  then show ?thesis
  proof cases
    case bad
    then show ?thesis by (simp add: pn_bitstream_read_vbr_uint64_def read_vbr_uint64_with_def)
  next
    case good
    have sp: "bs_rest bs = take n (bs_rest bs) @ bs_rest b" "take n (bs_rest bs) \<noteq> []"
      using good assms(2) by auto
    have "length (bs_rest b) < vbr_fuel bs" using good by (simp add: length_bs_rest vbr_fuel_def)
    from bsr.vbr_loop_safe [OF good(2) assms(2,3) this, of "push_bit (n - 1) 1" "n - 1"
        "ucast (p AND (push_bit (n - 1) 1 - 1))"] good(1,2) sp assms(2)
    show ?thesis
      unfolding pn_bitstream_read_vbr_uint64_def read_vbr_uint64_with_def
      by (auto simp: Let_def simp del: push_bit_of_1) (metis append.assoc append_is_Nil_conv)+
  qed
qed

lemma read_vbr_safe:
  assumes "bs_inv bs" and "1 \<le> n" "n \<le> 32"
  shows "(\<exists>m. pn_bitstream_read_vbr bs n = Inl (Check m)) \<or>
    pn_bitstream_read_vbr bs n = Inl (Fatal ''unreachable'') \<or>
    (\<exists>v bs' xs. pn_bitstream_read_vbr bs n = Inr (v, bs') \<and> bs_inv bs'
       \<and> bs_rest bs = xs @ bs_rest bs' \<and> xs \<noteq> [])"
proof -
  have r: "(\<exists>r. vbr_result32 v = Inr r) \<or> (\<exists>m. vbr_result32 v = Inl (Check m))" for v
    by (simp add: vbr_result32_def ensure_def)
  from read_vbr_uint64_safe [OF assms] consider
    (c) m where "pn_bitstream_read_vbr_uint64 bs n = Inl (Check m)"
  | (f) "pn_bitstream_read_vbr_uint64 bs n = Inl (Fatal ''unreachable'')"
  | (v) v bs' xs where "pn_bitstream_read_vbr_uint64 bs n = Inr (v, bs')" "bs_inv bs'"
      "bs_rest bs = xs @ bs_rest bs'" "xs \<noteq> []"
    by blast
  then show ?thesis
  proof cases
    case v
    with r [of v] show ?thesis
      by (auto simp: read_vbr_is_narrow [OF assms(2,3)] narrow_vbr_def)
  qed (simp_all add: read_vbr_is_narrow [OF assms(2,3)] narrow_vbr_def)
qed

section \<open>Seeking\<close>

lemma seek_bit_ok:
  assumes inv: "bs_inv bs" and off: "unat off \<le> 8 * unat (data_len bs)"
  shows "\<exists>bs'. pn_bitstream_seek_bit bs off = Inr bs' \<and> bs_inv bs'
    \<and> bs_rest bs' = bs_rest (bs\<lparr>bit_offset := off\<rparr>)"
proof -
  let ?al = "unat off div 32 * 32"
  have i: "length (bs_data bs) = unat (data_len bs)" "4 dvd unat (data_len bs)" "8 * unat (data_len bs) < 2 ^ 32"
    using inv by (auto simp: bs_inv_def)
  have u: "unat (ucast off :: u64) = unat off" by (simp add: unat_ucast_up)
  have "unat (ucast off :: u64) < 2 ^ 32" using u unat_bound [of off] by simp
  from pn_align_down_pow2 [OF _ this, of 5] u obtain al where
    al: "pn_align_down (ucast off) 32 = Inr al" "unat al = ?al" by auto
  have al32: "unat (ucast al :: u32) = ?al"
  proof -
    have "?al < 2 ^ 32" using off i(3) by (metis div_times_less_eq_dividend le_less_trans)
    then show ?thesis using al(2) by (simp add: unsigned_ucast_eq take_bit_nat_eq_self_iff)
  qed
  let ?b = "bs\<lparr>bit_offset := ucast al\<rparr>"
  have le: "?al \<le> 8 * unat (data_len bs)" using off by (meson div_times_less_eq_dividend le_trans)
  from fill_curword_ok [of ?b] i le al32 obtain b2 where b2: "pn_bitstream_fill_curword ?b = Inr b2" "bs_inv b2"
    "bs_rest b2 = bs_rest ?b" "curword_bits b2 = (if ?al < 8 * unat (data_len bs) then 32 else 0)" by auto
  have m: "unat (off AND 31) = unat off mod 32"
  proof -
    have "off AND 31 = off mod 32" using take_bit_eq_mask [of 5 off] by (simp add: take_bit_eq_mod mask_eq_exp_minus_1)
    then show ?thesis by (simp add: unat_mod)
  qed
  have rest: "drop (unat off mod 32) (bs_rest ?b) = bs_rest (bs\<lparr>bit_offset := off\<rparr>)"
    by (rule bs_rest_advance [symmetric]) (simp_all add: al32)
  show ?thesis
  proof (cases "off AND 31 = 0")
    case True
    then have "unat off mod 32 = 0" using m by simp
    with True b2 al(1) rest show ?thesis by (simp add: pn_bitstream_seek_bit_def)
  next
    case False
    then have "unat off mod 32 \<noteq> 0" using m by (metis unat_eq_0)
    have "unat off mod 32 \<le> curword_bits b2"
    proof -
      have "unat off = ?al + unat off mod 32" by simp
      with off \<open>unat off mod 32 \<noteq> 0\<close> have "?al < 8 * unat (data_len bs)" by linarith
      then show ?thesis using b2(4) by simp
    qed
    from read_frac_bits_ok [OF b2(2) this] b2(1,3) al(1) m False rest show ?thesis
      by (auto simp: pn_bitstream_seek_bit_def)
  qed
qed


section \<open>Properties\<close>

definition example_stream :: PNBitStream where
  "example_stream = pn_bitstream_init [0xE5, 0x03, 0x00, 0x01, 0x02, 0x03, 0x04, 0x05] 8"

lemma example_stream_inv: "bs_inv example_stream"
  unfolding example_stream_def by (rule bs_inv_init) simp_all

text \<open>
  C27: on a file of whole 32-bit words, reading up to 32 bits returns exactly the next bits of the
  file, lowest first, across word boundaries too, and leaves the rest of the file; when fewer bits
  are left the check stops the process, so no read ever goes past the buffer.
\<close>

theorem pn_bitstream_read_exact:
  assumes "bs_inv bs" and "n \<le> 32"
  shows "if n \<le> length (bs_rest bs)
    then \<exists>bs'. pn_bitstream_read bs n = Inr (word_of_bits (take n (bs_rest bs)), bs')
           \<and> bs_inv bs' \<and> bs_rest bs' = drop n (bs_rest bs)
    else pn_bitstream_read bs n = Inl (Check ''bits_left <= bs->curword_bits'')"
  using bitstream_read_ok [OF assms] bitstream_read_end [OF assms] by simp

theorem pn_bitstream_read_exact_witness:
  "\<exists>bs'. pn_bitstream_read example_stream 13 = Inr (0x03E5, bs') \<and> bs_inv bs'"
proof -
  have "length (bs_rest example_stream) = 64" by (simp add: length_bs_rest example_stream_def pn_bitstream_init_def)
  moreover have "fst (projr (pn_bitstream_read example_stream 13)) = 0x03E5" by code_simp
  ultimately show ?thesis using pn_bitstream_read_exact [OF example_stream_inv, of 13] by auto
qed

text \<open>
  C28: the variable-width readers decode what the canonical encoder writes, for every piece width
  from 2 to 32 bits and every 64-bit value: the 64-bit reader returns the value, the 32-bit reader
  returns it when it fits 32 bits or is the 64-bit extension of a negative 32-bit value, and its
  check rejects every other value; both consume exactly the encoding.
\<close>

theorem pn_bitstream_read_vbr_roundtrip:
  assumes "bs_inv bs" and "bs_rest bs = vbr_encode n v @ ys" and "2 \<le> n" and "n \<le> 32" and "v < 2 ^ 64"
  shows "(\<exists>bs'. pn_bitstream_read_vbr_uint64 bs n = Inr (of_nat v, bs') \<and> bs_inv bs' \<and> bs_rest bs' = ys)
    \<and> (if fits_vbr32 v
       then \<exists>bs'. pn_bitstream_read_vbr bs n = Inr (of_nat v, bs') \<and> bs_inv bs' \<and> bs_rest bs' = ys
       else pn_bitstream_read_vbr bs n = Inl (Check ''vbr value does not fit 32 bits''))"
  using read_vbr_uint64_encoded [OF assms] read_vbr_encoded [OF assms] by blast

theorem pn_bitstream_read_vbr_roundtrip_witness:
  "\<exists>bs'. pn_bitstream_read_vbr example_stream 6 = Inr (485, bs')"
proof -
  let ?ys = "drop 12 (bs_rest example_stream)"
  have "vbr_chunks 6 485 = [bits_of 5 485, bits_of 5 15]"
    by (simp add: vbr_chunks.simps [of 6 485] vbr_chunks.simps [of 6 15])
  then have "vbr_encode 6 485 = take 12 (bs_rest example_stream)"
    by (simp add: vbr_encode_def bits_of_def bs_rest_def example_stream_def pn_bitstream_init_def
        data_bit_def upt_rec bit_0)
  then have "bs_rest example_stream = vbr_encode 6 485 @ ?ys" by simp
  from pn_bitstream_read_vbr_roundtrip [OF example_stream_inv this] show ?thesis
    by (auto simp: fits_vbr32_def)
qed

text \<open>
  Whatever the file holds, a variable-width read of any width from 1 to 32 bits ends: it
  returns a value and has consumed data, or stops the process at one of its checks. In particular
  the loop with one-bit pieces, whose shift never grows, ends, and no access is out of bounds.
\<close>

theorem pn_bitstream_read_vbr_ends:
  assumes "bs_inv bs" and "1 \<le> n" and "n \<le> 32"
  shows "(\<exists>m. pn_bitstream_read_vbr bs n = Inl (Check m)) \<or>
    pn_bitstream_read_vbr bs n = Inl (Fatal ''unreachable'') \<or>
    (\<exists>v bs'. pn_bitstream_read_vbr bs n = Inr (v, bs') \<and> bs_inv bs' \<and>
       length (bs_rest bs') < length (bs_rest bs))"
  using read_vbr_safe [OF assms] by fastforce

theorem pn_bitstream_read_vbr_ends_witness:
  "\<exists>v bs'. pn_bitstream_read_vbr example_stream 1 = Inr (v, bs') \<and> bs_inv bs'"
proof -
  have "is_ok (pn_bitstream_read_vbr example_stream 1)" by code_simp
  with pn_bitstream_read_vbr_ends [OF example_stream_inv, of 1] show ?thesis by auto
qed

text \<open>
  Seeking to any bit of the file and then reading continues with the bits from there on, also
  when the position is not a word boundary.
\<close>

theorem pn_bitstream_seek_exact:
  assumes "bs_inv bs" and "unat off \<le> 8 * unat (data_len bs)"
  shows "\<exists>bs'. pn_bitstream_seek_bit bs off = Inr bs' \<and> bs_inv bs'
    \<and> bs_rest bs' = map (data_bit (bs_data bs)) [unat off..<8 * unat (data_len bs)]"
  using seek_bit_ok [OF assms] by (simp add: bs_rest_def)

theorem pn_bitstream_seek_exact_witness:
  "\<exists>bs'. pn_bitstream_seek_bit example_stream 13 = Inr bs' \<and> bs_inv bs'"
proof -
  have "unat (13 :: u32) \<le> 8 * unat (data_len example_stream)"
    by (simp add: example_stream_def pn_bitstream_init_def)
  from pn_bitstream_seek_exact [OF example_stream_inv this] show ?thesis by blast
qed

text \<open>
  The whole-words hypothesis is needed: the first read of a file of one byte loads a 32-bit
  word and so reads three bytes past the end of the buffer.
\<close>

theorem pn_bitstream_over_read:
  "is_undefined (pn_bitstream_read (pn_bitstream_init [b] 1) 8)"
  by (simp add: pn_bitstream_read_def pn_bitstream_init_def pn_bitstream_fill_curword_def load_data32_def)

end
