(* ===== verification/Pn_Abbrev.thy ===== *)
theory Pn_Abbrev
  imports Pn_Bitstream
begin

text \<open>
  Abbreviations, \<^verbatim>\<open>src/pn_abbrev.h\<close>: the record layouts that a bitcode file defines for itself. An
  abbreviation is the list of its operators and \<open>PNAbbrevs\<close> a list of abbreviations. How
  \<open>pn_abbrevs_allocate\<close> keeps both in one growing allocation is modelled on the layout itself,
  with a refinement lemma to the lists.
\<close>

unbundle bit_operations_syntax

section \<open>State and operations\<close>

datatype PNAbbrevOp = OpLiteral u32 | OpFixed int | OpVbr int | OpArray | OpChar6 | OpBlob

type_synonym PNAbbrev = "PNAbbrevOp list"
type_synonym PNAbbrevs = "PNAbbrev list"

abbreviation PN_MAX_BLOCK_IDS :: nat where "PN_MAX_BLOCK_IDS \<equiv> 20"

record PNBlockInfoContext =
  block_abbrev_map :: "PNAbbrevs list"
  use_relative_ids :: bool

definition pn_abbrev_copy :: "PNAbbrevs \<Rightarrow> PNAbbrev \<Rightarrow> PNAbbrevs" where
  "pn_abbrev_copy dest_abbrevs src_abbrev = dest_abbrevs @ [src_abbrev]"

definition pn_block_info_context_copy_abbrevs_for_block_id ::
  "PNBlockInfoContext \<Rightarrow> nat \<Rightarrow> PNAbbrevs \<Rightarrow> PNAbbrevs res" where
  "pn_block_info_context_copy_abbrevs_for_block_id context block_id dest_abbrevs =
     rbind (ensure (block_id < PN_MAX_BLOCK_IDS) (Check ''block_id < PN_MAX_BLOCK_IDS'')) (\<lambda>_.
     rbind (nth_res (block_abbrev_map context) block_id) (\<lambda>src_abbrevs.
     Inr (fold (\<lambda>src dest. pn_abbrev_copy dest src) src_abbrevs dest_abbrevs)))"

definition pn_block_info_context_append_abbrev ::
  "PNBlockInfoContext \<Rightarrow> nat \<Rightarrow> PNAbbrev \<Rightarrow> (nat \<times> PNBlockInfoContext) res" where
  "pn_block_info_context_append_abbrev context block_id abbrev =
     rbind (ensure (block_id < PN_MAX_BLOCK_IDS) (Check ''block_id < PN_MAX_BLOCK_IDS'')) (\<lambda>_.
     rbind (nth_res (block_abbrev_map context) block_id) (\<lambda>abbrevs.
     rbind (upd_res (block_abbrev_map context) block_id (pn_abbrev_copy abbrevs abbrev)) (\<lambda>m.
     Inr (length abbrevs, context\<lparr>block_abbrev_map := m\<rparr>))))"

text \<open>
  The width of a field is stored in an \<open>int\<close>: the unsigned value that was read is converted, and the
  check against 32 is a signed one.
\<close>

definition read_num_bits :: "PNBitStream \<Rightarrow> (int \<times> PNBitStream) res" where
  "read_num_bits bs =
     rbind (pn_bitstream_read_vbr bs 5) (\<lambda>(n, bs).
     rbind (ensure (sint n \<le> 32) (Check ''op->num_bits <= 32'')) (\<lambda>_. Inr (sint n, bs)))"

text \<open>One iteration reads an operator; after an array operator comes that of the elements.\<close>

definition abbrev_read_op :: "PNBitStream \<Rightarrow> (PNAbbrevOp \<times> PNBitStream) res" where
  "abbrev_read_op bs =
     rbind (pn_bitstream_read bs 1) (\<lambda>(is_literal, bs).
     if is_literal \<noteq> 0 then rbind (pn_bitstream_read_vbr bs 8) (\<lambda>(v, bs). Inr (OpLiteral v, bs))
     else rbind (pn_bitstream_read bs 3) (\<lambda>(encoding, bs).
       if encoding = 1 then rbind (read_num_bits bs) (\<lambda>(n, bs). Inr (OpFixed n, bs))
       else if encoding = 2 then rbind (read_num_bits bs) (\<lambda>(n, bs). Inr (OpVbr n, bs))
       else if encoding = 3 then Inr (OpArray, bs)
       else if encoding = 4 then Inr (OpChar6, bs)
       else if encoding = 5 then Inr (OpBlob, bs)
       else Inl (Fatal ''bad encoding'')))"

definition abbrev_read_elt_op :: "PNBitStream \<Rightarrow> (PNAbbrevOp \<times> PNBitStream) res" where
  "abbrev_read_elt_op bs =
     rbind (pn_bitstream_read bs 1) (\<lambda>(is_literal, bs).
     if is_literal \<noteq> 0 then rbind (pn_bitstream_read_vbr bs 8) (\<lambda>(v, bs). Inr (OpLiteral v, bs))
     else rbind (pn_bitstream_read bs 3) (\<lambda>(encoding, bs).
       if encoding = 1 then rbind (read_num_bits bs) (\<lambda>(n, bs). Inr (OpFixed n, bs))
       else if encoding = 2 then rbind (read_num_bits bs) (\<lambda>(n, bs). Inr (OpVbr n, bs))
       else if encoding = 4 then Inr (OpChar6, bs)
       else Inl (Fatal ''bad encoding for array element'')))"

text \<open>
  The loop over the \<open>num_ops\<close> operators of which \<open>ops\<close> are read. The element operator is stored in
  the next slot without a look at \<open>num_ops\<close>: behind the last slot this is a write out of bounds.
\<close>

function (sequential) abbrev_read_ops :: "nat \<Rightarrow> PNAbbrev \<Rightarrow> PNBitStream \<Rightarrow> (PNAbbrev \<times> PNBitStream) res" where
  "abbrev_read_ops num_ops ops bs =
     (if length ops < num_ops then
        rbind (abbrev_read_op bs) (\<lambda>(op, bs).
        if op = OpArray then
          rbind (abbrev_read_elt_op bs) (\<lambda>(elt, bs).
          if length ops + 1 < num_ops then abbrev_read_ops num_ops (ops @ [op, elt]) bs
          else Inl (Undefined ''element operator written past the abbreviation''))
        else abbrev_read_ops num_ops (ops @ [op]) bs)
      else Inr (ops, bs))"
  by pat_completeness auto
termination by (relation "measure (\<lambda>(n, ops, _). n - length ops)") auto

declare abbrev_read_ops.simps [simp del]

definition pn_abbrev_read :: "PNBitStream \<Rightarrow> PNAbbrevs \<Rightarrow> (PNAbbrev \<times> PNAbbrevs \<times> PNBitStream) res" where
  "pn_abbrev_read bs abbrevs =
     rbind (pn_bitstream_read_vbr bs 5) (\<lambda>(num_ops, bs).
     rbind (abbrev_read_ops (unat num_ops) [] bs) (\<lambda>(abbrev, bs).
     Inr (abbrev, abbrevs @ [abbrev], bs)))"

section \<open>The layout of the abbreviations in memory\<close>

text \<open>
  One allocation holds the \<open>PNAbbrev\<close> headers (16 bytes each: the count and the address of the
  operators), then all operators (8 bytes each). Addresses are relative to the allocation.
\<close>

record abbrev_region =
  headers :: "(nat \<times> nat) list"
  ops_area :: "PNAbbrevOp list"

text \<open>The loop that pushes the \<open>ops\<close> pointers down.\<close>

fun fix_ops :: "nat \<Rightarrow> (nat \<times> nat) list \<Rightarrow> (nat \<times> nat) list \<times> nat" where
  "fix_ops ops [] = ([], ops)"
| "fix_ops ops ((num_ops, _) # hs) =
     (let (hs', ops') = fix_ops (ops + num_ops * 8) hs in ((num_ops, ops) # hs', ops'))"

text \<open>\<open>slots\<close> is what the new operators hold: their number is what the source is given, their contents
  are whatever the caller stores in them.\<close>

definition pn_abbrevs_allocate :: "abbrev_region \<Rightarrow> PNAbbrevOp list \<Rightarrow> abbrev_region" where
  "pn_abbrevs_allocate r slots =
     (let num = length (headers r); ops = 16 * num + 16; (hs, ops') = fix_ops ops (headers r)
      in \<lparr>headers = hs @ [(length slots, ops')], ops_area = ops_area r @ slots\<rparr>)"

text \<open>The operators a header points to, and the abbreviations a region holds.\<close>

definition header_ops :: "abbrev_region \<Rightarrow> nat \<times> nat \<Rightarrow> PNAbbrev" where
  "header_ops r h = take (fst h) (drop ((snd h - 16 * length (headers r)) div 8) (ops_area r))"

definition region_abbrevs :: "abbrev_region \<Rightarrow> PNAbbrevs" where
  "region_abbrevs r = map (header_ops r) (headers r)"

definition region_inv :: "abbrev_region \<Rightarrow> bool" where
  "region_inv r \<longleftrightarrow> headers r = fst (fix_ops (16 * length (headers r)) (headers r))
     \<and> length (ops_area r) = sum_list (map fst (headers r))"

lemma fix_ops_Cons:
  "fst (fix_ops ops (h # hs)) = (fst h, ops) # fst (fix_ops (ops + 8 * fst h) hs)"
  "snd (fix_ops ops (h # hs)) = snd (fix_ops (ops + 8 * fst h) hs)"
  by (cases h; simp add: Let_def split_beta mult.commute)+

lemma fix_ops_counts:
  "map fst (fst (fix_ops ops hs)) = map fst hs" "length (fst (fix_ops ops hs)) = length hs"
  "snd (fix_ops ops hs) = ops + 8 * sum_list (map fst hs)"
  by (induction hs arbitrary: ops) (simp_all add: fix_ops_Cons del: fix_ops.simps(2))

lemma fix_ops_idem: "fst (fix_ops ops (fst (fix_ops ops' hs))) = fst (fix_ops ops hs)"
  by (induction hs arbitrary: ops ops') (simp_all add: fix_ops_Cons del: fix_ops.simps(2))

lemma fix_ops_append:
  "fst (fix_ops ops (hs @ [(n, x)])) = fst (fix_ops ops hs) @ [(n, ops + 8 * sum_list (map fst hs))]"
  by (induction hs arbitrary: ops) (simp_all add: fix_ops_Cons add.assoc del: fix_ops.simps(2))

text \<open>The operators found through fixed pointers depend on the counts only.\<close>

lemma fix_ops_slices:
  "map (\<lambda>h. take (fst h) (drop ((snd h - base) div 8) area)) (fst (fix_ops (base + 8 * k) hs))
   = map (\<lambda>h. take (fst h) (drop ((snd h - base') div 8) area)) (fst (fix_ops (base' + 8 * k) hs))"
proof (induction hs arbitrary: k)
  case (Cons h hs)
  show ?case
    using Cons [of "k + fst h"] by (simp add: fix_ops_Cons add.assoc del: fix_ops.simps(2))
qed simp

lemma fix_ops_slices_append:
  assumes "k + sum_list (map fst hs) \<le> length area"
  shows "map (\<lambda>h. take (fst h) (drop ((snd h - base) div 8) (area @ ext))) (fst (fix_ops (base + 8 * k) hs))
    = map (\<lambda>h. take (fst h) (drop ((snd h - base) div 8) area)) (fst (fix_ops (base + 8 * k) hs))"
  using assms
proof (induction hs arbitrary: k)
  case (Cons h hs)
  then show ?case
    using Cons(1) [of "k + fst h"] by (simp add: fix_ops_Cons add.assoc del: fix_ops.simps(2))
qed simp

lemma abbrevs_allocate_refines:
  assumes "region_inv r"
  shows "region_inv (pn_abbrevs_allocate r ops)"
    and "region_abbrevs (pn_abbrevs_allocate r ops) = pn_abbrev_copy (region_abbrevs r) ops"
proof -
  let ?n = "length (headers r)" and ?hs = "headers r"
  let ?r = "pn_abbrevs_allocate r ops"
  have len: "length (ops_area r) = sum_list (map fst ?hs)" using assms by (simp add: region_inv_def)
  have hs: "headers ?r = fst (fix_ops (16 * ?n + 16) ?hs) @ [(length ops, 16 * ?n + 16 + 8 * sum_list (map fst ?hs))]"
    "ops_area ?r = ops_area r @ ops"
    by (simp_all add: pn_abbrevs_allocate_def Let_def split_beta fix_ops_counts(3))
  have n': "length (headers ?r) = Suc ?n" by (simp add: hs fix_ops_counts)
  show "region_inv ?r"
    unfolding region_inv_def n' unfolding hs
    by (simp add: fix_ops_append fix_ops_idem fix_ops_counts len add.commute)
  have "map (header_ops ?r) (fst (fix_ops (16 * ?n + 16) ?hs)) = map (header_ops r) ?hs"
  proof -
    let ?sl = "\<lambda>base area h. take (fst h) (drop ((snd h - base) div 8) area)"
    have "map (header_ops ?r) (fst (fix_ops (16 * ?n + 16) ?hs))
        = map (?sl (16 * ?n + 16) (ops_area r @ ops)) (fst (fix_ops (16 * ?n + 16 + 8 * 0) ?hs))"
      by (simp add: header_ops_def n' hs(2) add.commute)
    also have "\<dots> = map (?sl (16 * ?n + 16) (ops_area r)) (fst (fix_ops (16 * ?n + 16 + 8 * 0) ?hs))"
      by (rule fix_ops_slices_append) (simp add: len)
    also have "\<dots> = map (?sl (16 * ?n) (ops_area r)) (fst (fix_ops (16 * ?n + 8 * 0) ?hs))"
      by (rule fix_ops_slices)
    also have "\<dots> = map (header_ops r) ?hs"
    proof -
      have "fst (fix_ops (16 * ?n + 8 * 0) ?hs) = ?hs" using assms by (simp add: region_inv_def)
      then show ?thesis by (simp add: header_ops_def)
    qed
    finally show ?thesis .
  qed
  then show "region_abbrevs ?r = pn_abbrev_copy (region_abbrevs r) ops"
    by (simp add: region_abbrevs_def hs(1) pn_abbrev_copy_def)
      (simp add: header_ops_def hs(2) n' len)
qed


section \<open>Reading what a writer encodes\<close>

fun abbrev_op_bits :: "PNAbbrevOp \<Rightarrow> bool list" where
  "abbrev_op_bits (OpLiteral v) = [True] @ vbr_encode 8 (unat v)"
| "abbrev_op_bits (OpFixed n) = [False] @ bits_of 3 1 @ vbr_encode 5 (nat n)"
| "abbrev_op_bits (OpVbr n) = [False] @ bits_of 3 2 @ vbr_encode 5 (nat n)"
| "abbrev_op_bits OpArray = [False] @ bits_of 3 3"
| "abbrev_op_bits OpChar6 = [False] @ bits_of 3 4"
| "abbrev_op_bits OpBlob = [False] @ bits_of 3 5"

fun abbrev_op_ok :: "PNAbbrevOp \<Rightarrow> bool" where
  "abbrev_op_ok (OpFixed n) = (0 \<le> n \<and> n \<le> 32)"
| "abbrev_op_ok (OpVbr n) = (0 \<le> n \<and> n \<le> 32)"
| "abbrev_op_ok _ = True"

definition abbrev_elt_ok :: "PNAbbrevOp \<Rightarrow> bool" where
  "abbrev_elt_ok op \<longleftrightarrow> abbrev_op_ok op \<and> op \<noteq> OpArray \<and> op \<noteq> OpBlob"

text \<open>A well-formed abbreviation: an array operator is followed by the operator of its elements.\<close>

fun abbrev_wf :: "PNAbbrev \<Rightarrow> bool" where
  "abbrev_wf [] = True"
| "abbrev_wf [op] = (abbrev_op_ok op \<and> op \<noteq> OpArray)"
| "abbrev_wf (op # elt # ops) =
     (abbrev_op_ok op \<and> (if op = OpArray then abbrev_elt_ok elt \<and> abbrev_wf ops else abbrev_wf (elt # ops)))"

lemma read_fixed_encoded:
  assumes "bs_inv bs" and "bs_rest bs = bits_of k v @ ys" and "k \<le> 32" and "v < 2 ^ k"
  shows "\<exists>bs'. pn_bitstream_read bs k = Inr (of_nat v, bs') \<and> bs_inv bs' \<and> bs_rest bs' = ys"
  using bsr.read_in [OF assms(1,2)] assms(3,4) by (simp add: word_of_bits_of_nat horner_bits_of)

lemma read_bit_encoded:
  assumes "bs_inv bs" and "bs_rest bs = b # ys"
  shows "\<exists>bs'. pn_bitstream_read bs 1 = Inr (of_bool b, bs') \<and> bs_inv bs' \<and> bs_rest bs' = ys"
  using bsr.read_in [of bs "[b]" ys] assms by simp

lemma read_vbr32_encoded:
  assumes "bs_inv bs" and "bs_rest bs = vbr_encode n v @ ys" and "2 \<le> n" "n \<le> 32" and "v < 2 ^ 32"
  shows "\<exists>bs'. pn_bitstream_read_vbr bs n = Inr (of_nat v, bs') \<and> bs_inv bs' \<and> bs_rest bs' = ys"
proof -
  have "v < 2 ^ 64" "fits_vbr32 v" using assms(5) by (simp_all add: fits_vbr32_def)
  with read_vbr_encoded [OF assms(1-4)] show ?thesis by simp
qed

lemma sint_of_nat_small: "n < 2 ^ 31 \<Longrightarrow> sint (of_nat n :: u32) = int n"
  by (simp add: signed_of_nat signed_take_bit_eq_if_positive bit_iff_odd take_bit_int_eq_self)

lemma read_num_bits_encoded:
  assumes "bs_inv bs" and "bs_rest bs = vbr_encode 5 (nat n) @ ys" and "0 \<le> n" "n \<le> 32"
  shows "\<exists>bs'. read_num_bits bs = Inr (n, bs') \<and> bs_inv bs' \<and> bs_rest bs' = ys"
proof -
  have n: "nat n < 2 ^ 31" "nat n < 2 ^ 32" using assms(4) by simp_all
  from read_vbr32_encoded [OF assms(1,2) _ _ n(2)] obtain bs' where
    "pn_bitstream_read_vbr bs 5 = Inr (of_nat (nat n), bs')" "bs_inv bs'" "bs_rest bs' = ys" by auto
  moreover have "sint (of_nat (nat n) :: u32) = n" using sint_of_nat_small [OF n(1)] assms(3) by simp
  ultimately show ?thesis using assms(4) by (simp add: read_num_bits_def)
qed


lemma read_tag_encoded:
  assumes "bs_inv bs" and "bs_rest bs = False # bits_of 3 t @ ys" and "t < 8"
  shows "\<exists>b1 b2. pn_bitstream_read bs (Suc 0) = Inr (0, b1) \<and> pn_bitstream_read b1 3 = Inr (of_nat t, b2)
    \<and> bs_inv b2 \<and> bs_rest b2 = ys"
proof -
  from read_bit_encoded [OF assms(1,2)] obtain b1 where
    b1: "pn_bitstream_read bs (Suc 0) = Inr (0, b1)" "bs_inv b1" "bs_rest b1 = bits_of 3 t @ ys" by auto
  from read_fixed_encoded [OF b1(2,3)] assms(3) b1(1) show ?thesis by auto
qed

lemma abbrev_read_literal:
  assumes "bs_inv bs" and "bs_rest bs = abbrev_op_bits (OpLiteral v) @ ys"
  shows "\<exists>b1 b2. pn_bitstream_read bs (Suc 0) = Inr (1, b1) \<and> pn_bitstream_read_vbr b1 8 = Inr (v, b2)
    \<and> bs_inv b2 \<and> bs_rest b2 = ys"
proof -
  from read_bit_encoded [of bs True] assms obtain b1 where
    b1: "pn_bitstream_read bs (Suc 0) = Inr (1, b1)" "bs_inv b1" "bs_rest b1 = vbr_encode 8 (unat v) @ ys" by auto
  have "unat v < 2 ^ 32" using unat_bound [of v] by simp
  from read_vbr32_encoded [OF b1(2,3) _ _ this] b1(1) show ?thesis by auto
qed

lemma abbrev_read_op_encoded:
  assumes "bs_inv bs" and "bs_rest bs = abbrev_op_bits op @ ys" and "abbrev_op_ok op"
  shows "\<exists>bs'. abbrev_read_op bs = Inr (op, bs') \<and> bs_inv bs' \<and> bs_rest bs' = ys
    \<and> (abbrev_elt_ok op \<longrightarrow> abbrev_read_elt_op bs = Inr (op, bs'))"
proof (cases op)
  case (OpLiteral v)
  with assms(2) have "bs_rest bs = abbrev_op_bits (OpLiteral v) @ ys" by simp
  from abbrev_read_literal [OF assms(1) this] OpLiteral show ?thesis
    by (auto simp: abbrev_read_op_def abbrev_read_elt_op_def)
next
  case (OpFixed n)
  with assms(2) have "bs_rest bs = False # bits_of 3 1 @ (vbr_encode 5 (nat n) @ ys)" by simp
  from read_tag_encoded [OF assms(1) this] obtain b1 b2 where
    b: "pn_bitstream_read bs (Suc 0) = Inr (0, b1)" "pn_bitstream_read b1 3 = Inr (1, b2)" "bs_inv b2"
    "bs_rest b2 = vbr_encode 5 (nat n) @ ys" by auto
  with read_num_bits_encoded [OF b(3,4)] assms(3) OpFixed show ?thesis
    by (auto simp: abbrev_read_op_def abbrev_read_elt_op_def)
next
  case (OpVbr n)
  with assms(2) have "bs_rest bs = False # bits_of 3 2 @ (vbr_encode 5 (nat n) @ ys)" by simp
  from read_tag_encoded [OF assms(1) this] obtain b1 b2 where
    b: "pn_bitstream_read bs (Suc 0) = Inr (0, b1)" "pn_bitstream_read b1 3 = Inr (2, b2)" "bs_inv b2"
    "bs_rest b2 = vbr_encode 5 (nat n) @ ys" by auto
  with read_num_bits_encoded [OF b(3,4)] assms(3) OpVbr show ?thesis
    by (auto simp: abbrev_read_op_def abbrev_read_elt_op_def)
next
  case OpArray
  with assms(2) have "bs_rest bs = False # bits_of 3 3 @ ys" by simp
  from read_tag_encoded [OF assms(1) this] OpArray show ?thesis
    by (auto simp: abbrev_read_op_def abbrev_elt_ok_def)
next
  case OpChar6
  with assms(2) have "bs_rest bs = False # bits_of 3 4 @ ys" by simp
  from read_tag_encoded [OF assms(1) this] OpChar6 show ?thesis
    by (auto simp: abbrev_read_op_def abbrev_read_elt_op_def)
next
  case OpBlob
  with assms(2) have "bs_rest bs = False # bits_of 3 5 @ ys" by simp
  from read_tag_encoded [OF assms(1) this] OpBlob show ?thesis
    by (auto simp: abbrev_read_op_def abbrev_elt_ok_def)
qed

lemma abbrev_read_ops_encoded:
  assumes "abbrev_wf ops" and "bs_inv bs" and "bs_rest bs = concat (map abbrev_op_bits ops) @ ys"
  shows "\<exists>bs'. abbrev_read_ops (length pre + length ops) pre bs = Inr (pre @ ops, bs') \<and> bs_inv bs' \<and> bs_rest bs' = ys"
  using assms
proof (induction ops arbitrary: pre bs rule: abbrev_wf.induct)
  case 1
  then show ?case by (simp add: abbrev_read_ops.simps)
next
  case (2 op)
  then have "bs_rest bs = abbrev_op_bits op @ ys" "abbrev_op_ok op" "op \<noteq> OpArray" by auto
  from abbrev_read_op_encoded [OF 2(2) this(1,2)] this(3) show ?case
    by (auto simp: abbrev_read_ops.simps [of _ pre] abbrev_read_ops.simps [of _ "pre @ [op]"])
next
  case (3 op elt ops)
  then have op: "bs_rest bs = abbrev_op_bits op @ concat (map abbrev_op_bits (elt # ops)) @ ys" "abbrev_op_ok op"
    by auto
  from abbrev_read_op_encoded [OF 3(4) op] obtain b1 where
    b1: "abbrev_read_op bs = Inr (op, b1)" "bs_inv b1" "bs_rest b1 = concat (map abbrev_op_bits (elt # ops)) @ ys"
    by auto
  show ?case
  proof (cases "op = OpArray")
    case True
    with 3 have e: "abbrev_elt_ok elt" "abbrev_wf ops" by auto
    then have "abbrev_op_ok elt" by (simp add: abbrev_elt_ok_def)
    from abbrev_read_op_encoded [OF b1(2) _ this] b1(3) e(1) obtain b2 where
      b2: "abbrev_read_elt_op b1 = Inr (elt, b2)" "bs_inv b2" "bs_rest b2 = concat (map abbrev_op_bits ops) @ ys"
      by auto
    from 3(1) [OF True e(2) b2(2,3), of "pre @ [op, elt]"] b1(1) b2(1) True show ?thesis
      by (simp add: abbrev_read_ops.simps [of _ pre])
  next
    case False
    with 3 have e: "abbrev_wf (elt # ops)" by auto
    from 3(2) [OF False e b1(2,3), of "pre @ [op]"] b1(1) False show ?thesis
      by (simp add: abbrev_read_ops.simps [of _ pre])
  qed
qed

definition abbrev_bits :: "PNAbbrev \<Rightarrow> bool list" where
  "abbrev_bits ops = vbr_encode 5 (length ops) @ concat (map abbrev_op_bits ops)"

lemma abbrev_read_encoded:
  assumes "bs_inv bs" and "bs_rest bs = abbrev_bits ops @ ys" and "abbrev_wf ops" and "length ops < 2 ^ 32"
  shows "\<exists>bs'. pn_abbrev_read bs abbrevs = Inr (ops, abbrevs @ [ops], bs') \<and> bs_inv bs' \<and> bs_rest bs' = ys"
proof -
  from assms(2) have "bs_rest bs = vbr_encode 5 (length ops) @ concat (map abbrev_op_bits ops) @ ys"
    by (simp add: abbrev_bits_def)
  from read_vbr32_encoded [OF assms(1) this _ _ assms(4)] obtain b1 where
    b1: "pn_bitstream_read_vbr bs 5 = Inr (of_nat (length ops), b1)" "bs_inv b1"
      "bs_rest b1 = concat (map abbrev_op_bits ops) @ ys" by auto
  have "unat (of_nat (length ops) :: u32) = length ops" using assms(4) by (intro unat_of_nat_small) simp
  with abbrev_read_ops_encoded [OF assms(3) b1(2,3), of "[]"] b1(1) show ?thesis
    by (auto simp: pn_abbrev_read_def)
qed


section \<open>Properties\<close>

text \<open>
  C29: an abbreviation that was written is read back: on the bits of a well-formed list of operators
  \<open>pn_abbrev_read\<close> returns exactly that list, adds it to the abbreviations and consumes exactly its
  bits.
\<close>

theorem pn_abbrev_read_roundtrip:
  assumes "bs_inv bs" and "bs_rest bs = abbrev_bits ops @ ys" and "abbrev_wf ops" and "length ops < 2 ^ 32"
  shows "\<exists>bs'. pn_abbrev_read bs abbrevs = Inr (ops, abbrevs @ [ops], bs') \<and> bs_inv bs' \<and> bs_rest bs' = ys"
  using assms by (rule abbrev_read_encoded)

theorem pn_abbrev_read_roundtrip_witness:
  "\<exists>bs'. pn_abbrev_read (pn_bitstream_init [0xC2, 0x10, 0x00, 0x00] 4) [] = Inr ([OpArray, OpChar6], [[OpArray, OpChar6]], bs')"
proof -
  let ?bs = "pn_bitstream_init [0xC2, 0x10, 0x00, 0x00] 4" and ?ops = "[OpArray, OpChar6]"
  have inv: "bs_inv ?bs" by (rule bs_inv_init) simp_all
  have "abbrev_bits ?ops = take 13 (bs_rest ?bs)" by code_simp
  then have "bs_rest ?bs = abbrev_bits ?ops @ drop 13 (bs_rest ?bs)" by simp
  moreover have "abbrev_wf ?ops" by (simp add: abbrev_elt_ok_def)
  ultimately show ?thesis using pn_abbrev_read_roundtrip [OF inv, of ?ops _ "[]"] by auto
qed

text \<open>
  Growing the single allocation that holds the headers and the operators of all abbreviations
  keeps every abbreviation: after the operators have moved and the pointers were pushed down, the
  region holds the abbreviations it held before, and the new one at the end.
\<close>

theorem pn_abbrevs_allocate_refines:
  assumes "region_inv r"
  shows "region_inv (pn_abbrevs_allocate r ops) \<and>
    region_abbrevs (pn_abbrevs_allocate r ops) = pn_abbrev_copy (region_abbrevs r) ops"
  using abbrevs_allocate_refines [OF assms] by blast

theorem pn_abbrevs_allocate_refines_witness:
  "region_abbrevs (pn_abbrevs_allocate \<lparr>headers = [(2, 32), (1, 48)], ops_area = [OpArray, OpChar6, OpBlob]\<rparr> [OpFixed 3])
   = [[OpArray, OpChar6], [OpBlob], [OpFixed 3]]"
proof -
  let ?r = "\<lparr>headers = [(2, 32), (1, 48)], ops_area = [OpArray, OpChar6, OpBlob]\<rparr>"
  have "region_inv ?r" by (simp add: region_inv_def)
  moreover have "region_abbrevs ?r = [[OpArray, OpChar6], [OpBlob]]" by code_simp
  ultimately show ?thesis using pn_abbrevs_allocate_refines [of ?r] by (simp add: pn_abbrev_copy_def)
qed

text \<open>
  A file whose abbreviation ends in an array operator makes the reader store the element
  operator behind the operators it allocated; and a field width that is negative as an \<open>int\<close> passes
  the check \<open>num_bits <= 32\<close>.
\<close>

theorem pn_abbrev_read_unchecked:
  "is_undefined (pn_abbrev_read (pn_bitstream_init [0xC1, 0x10, 0x00, 0x00] 4) [])
   \<and> (\<exists>bs'. pn_abbrev_read (pn_bitstream_init [0x41, 0x20, 0x84, 0x10, 0x42, 0x88, 0x00, 0x00] 8) []
          = Inr ([OpFixed (- 2147483648)], [[OpFixed (- 2147483648)]], bs'))"
proof
  show "is_undefined (pn_abbrev_read (pn_bitstream_init [0xC1, 0x10, 0x00, 0x00] 4) [])" by code_simp
  have "(case pn_abbrev_read (pn_bitstream_init [0x41, 0x20, 0x84, 0x10, 0x42, 0x88, 0x00, 0x00] 8) [] of
      Inr (a, as, bs) \<Rightarrow> a = [OpFixed (- 2147483648)] \<and> as = [[OpFixed (- 2147483648)]] | _ \<Rightarrow> False)"
    by code_simp
  then show "\<exists>bs'. pn_abbrev_read (pn_bitstream_init [0x41, 0x20, 0x84, 0x10, 0x42, 0x88, 0x00, 0x00] 8) []
      = Inr ([OpFixed (- 2147483648)], [[OpFixed (- 2147483648)]], bs')"
    by (auto split: sum.splits)
qed

end
