(* ===== verification/Pn_Record.thy ===== *)
theory Pn_Record
  imports Pn_Abbrev
begin

text \<open>
  The record reader of \<^verbatim>\<open>src/pn_record.h\<close>: a cursor over the values of one record, which is either
  unabbreviated (every value a six-bit variable-width number, their count in front) or laid out by
  an abbreviation. \<open>None\<close> is the result \<open>PN_FALSE\<close>: the record has no more values.
\<close>

unbundle bit_operations_syntax

section \<open>State and operations\<close>

record PNRecordReader =
  rd_bs :: PNBitStream
  rd_abbrevs :: PNAbbrevs
  rd_entry :: u32
  op_index :: u32
  num_values :: u32
  value_index :: u32

abbreviation (input) PN_ENTRY_END_BLOCK :: u32 where "PN_ENTRY_END_BLOCK \<equiv> 0"
abbreviation (input) PN_ENTRY_SUBBLOCK :: u32 where "PN_ENTRY_SUBBLOCK \<equiv> 1"
abbreviation (input) PN_ENTRY_DEFINE_ABBREV :: u32 where "PN_ENTRY_DEFINE_ABBREV \<equiv> 2"
abbreviation (input) PN_ENTRY_UNABBREV_RECORD :: u32 where "PN_ENTRY_UNABBREV_RECORD \<equiv> 3"

definition pn_record_reader_init :: "PNBitStream \<Rightarrow> PNAbbrevs \<Rightarrow> u32 \<Rightarrow> PNRecordReader" where
  "pn_record_reader_init bs abbrevs entry =
     \<lparr>rd_bs = bs, rd_abbrevs = abbrevs, rd_entry = entry, op_index = 0, num_values = - 1, value_index = 0\<rparr>"

text \<open>The array of \<open>pn_decode_char6\<close> has 65 elements: the 64 characters and the terminating 0.\<close>

definition char6_data :: "u32 list" where
  "char6_data = map (\<lambda>c. of_nat (of_char c))
     ''abcdefghijklmnopqrstuvwxyzABCDEFGHIJKLMNOPQRSTUVWXYZ0123456789._'' @ [0]"

definition pn_decode_char6 :: "u32 \<Rightarrow> u32 res" where
  "pn_decode_char6 v =
     (if v \<ge> of_nat (length char6_data) then Inl (Fatal ''Invalid char6 value'')
      else nth_res char6_data (unat v))"

text \<open>The operators' widths are \<open>int\<close>s; a negative one reaches a shift.\<close>

definition read_width :: "PNBitStream \<Rightarrow> int \<Rightarrow> (u32 \<times> PNBitStream) res" where
  "read_width bs n = (if n < 0 then Inl (Undefined ''shift by a negative count'') else pn_bitstream_read bs (nat n))"

definition read_vbr_width :: "PNBitStream \<Rightarrow> int \<Rightarrow> (u32 \<times> PNBitStream) res" where
  "read_vbr_width bs n =
     (if n < 0 then Inl (Undefined ''shift by a negative count'') else pn_bitstream_read_vbr bs (nat n))"

definition read_vbr_uint64_width :: "PNBitStream \<Rightarrow> int \<Rightarrow> (u64 \<times> PNBitStream) res" where
  "read_vbr_uint64_width bs n =
     (if n < 0 then Inl (Undefined ''shift by a negative count'') else pn_bitstream_read_vbr_uint64 bs (nat n))"

definition read_char6 :: "PNBitStream \<Rightarrow> (u32 \<times> PNBitStream) res" where
  "read_char6 bs = rbind (pn_bitstream_read bs 6) (\<lambda>(v, bs). rbind (pn_decode_char6 v) (\<lambda>c. Inr (c, bs)))"

text \<open>What every scalar operator does after it has its value.\<close>

definition next_op :: "PNRecordReader \<Rightarrow> PNBitStream \<Rightarrow> PNRecordReader" where
  "next_op reader bs = reader\<lparr>rd_bs := bs, op_index := op_index reader + 1, value_index := 0\<rparr>"

text \<open>What an array does after it has an element; at the last one both operators are skipped.\<close>

definition next_element :: "PNRecordReader \<Rightarrow> PNBitStream \<Rightarrow> PNRecordReader" where
  "next_element reader bs =
     (let reader = reader\<lparr>rd_bs := bs, value_index := value_index reader + 1\<rparr> in
      if value_index reader = num_values reader then reader\<lparr>op_index := op_index reader + 2\<rparr> else reader)"

definition read_element :: "PNBitStream \<Rightarrow> PNAbbrevOp \<Rightarrow> (u32 \<times> PNBitStream) res" where
  "read_element bs elt_op = (case elt_op of
     OpLiteral v \<Rightarrow> Inr (v, bs)
   | OpFixed n \<Rightarrow> read_width bs n
   | OpVbr n \<Rightarrow> read_vbr_width bs n
   | OpChar6 \<Rightarrow> read_char6 bs
   | _ \<Rightarrow> Inl (Fatal ''bad encoding for array element''))"

definition read_element_uint64 :: "PNBitStream \<Rightarrow> PNAbbrevOp \<Rightarrow> (u64 \<times> PNBitStream) res" where
  "read_element_uint64 bs elt_op = (case elt_op of
     OpLiteral v \<Rightarrow> Inr (ucast v, bs)
   | OpFixed n \<Rightarrow> rbind (read_width bs n) (\<lambda>(v, bs). Inr (ucast v, bs))
   | OpVbr n \<Rightarrow> read_vbr_uint64_width bs n
   | OpChar6 \<Rightarrow> rbind (read_char6 bs) (\<lambda>(v, bs). Inr (ucast v, bs))
   | _ \<Rightarrow> Inl (Fatal ''bad encoding for array element''))"

text \<open>A blob reads its length as a fixed six-bit number and compares the index before counting it.\<close>

definition read_blob :: "PNRecordReader \<Rightarrow> (u32 \<times> PNRecordReader) res" where
  "read_blob reader =
     rbind (if value_index reader = 0 then
              rbind (pn_bitstream_read (rd_bs reader) 6) (\<lambda>(n, bs).
              rbind (pn_bitstream_align_32 bs) (\<lambda>bs.
              Inr (reader\<lparr>rd_bs := bs, num_values := n\<rparr>)))
            else Inr reader) (\<lambda>reader.
     rbind (pn_bitstream_read (rd_bs reader) 8) (\<lambda>(v, bs).
     Inr (v, reader\<lparr>rd_bs := bs, value_index := value_index reader + 1,
                    op_index := (if value_index reader = num_values reader
                                 then op_index reader + 1 else op_index reader)\<rparr>)))"

definition pn_record_read_abbrev :: "PNRecordReader \<Rightarrow> (u32 option \<times> PNRecordReader) res" where
  "pn_record_read_abbrev reader =
     rbind (ensure (unat (rd_entry reader - 4) < length (rd_abbrevs reader))
              (Check ''reader->entry - 4 < reader->abbrevs->num_abbrevs'')) (\<lambda>_.
     let abbrev = rd_abbrevs reader ! unat (rd_entry reader - 4) in
     if unat (op_index reader) \<ge> length abbrev then Inr (None, reader)
     else case abbrev ! unat (op_index reader) of
       OpLiteral v \<Rightarrow> Inr (Some v, next_op reader (rd_bs reader))
     | OpFixed n \<Rightarrow> rbind (read_width (rd_bs reader) n) (\<lambda>(v, bs). Inr (Some v, next_op reader bs))
     | OpVbr n \<Rightarrow> rbind (read_vbr_width (rd_bs reader) n) (\<lambda>(v, bs). Inr (Some v, next_op reader bs))
     | OpArray \<Rightarrow>
         rbind (if value_index reader = 0 then
                  rbind (pn_bitstream_read_vbr (rd_bs reader) 6) (\<lambda>(n, bs).
                  rbind (ensure (n > 0) (Check ''reader->num_values > 0'')) (\<lambda>_.
                  Inr (reader\<lparr>rd_bs := bs, num_values := n\<rparr>)))
                else Inr reader) (\<lambda>reader.
         rbind (nth_res abbrev (unat (op_index reader + 1))) (\<lambda>elt_op.
         rbind (read_element (rd_bs reader) elt_op) (\<lambda>(v, bs).
         Inr (Some v, next_element reader bs))))
     | OpChar6 \<Rightarrow> rbind (read_char6 (rd_bs reader)) (\<lambda>(v, bs). Inr (Some v, next_op reader bs))
     | OpBlob \<Rightarrow> rbind (read_blob reader) (\<lambda>(v, reader). Inr (Some v, reader)))"

definition pn_record_read_abbrev_uint64 :: "PNRecordReader \<Rightarrow> (u64 option \<times> PNRecordReader) res" where
  "pn_record_read_abbrev_uint64 reader =
     rbind (ensure (unat (rd_entry reader - 4) < length (rd_abbrevs reader))
              (Assertion ''reader->entry - 4 < reader->abbrevs->num_abbrevs'')) (\<lambda>_.
     let abbrev = rd_abbrevs reader ! unat (rd_entry reader - 4) in
     if unat (op_index reader) \<ge> length abbrev then Inr (None, reader)
     else case abbrev ! unat (op_index reader) of
       OpLiteral v \<Rightarrow> Inr (Some (ucast v), next_op reader (rd_bs reader))
     | OpFixed n \<Rightarrow> rbind (read_width (rd_bs reader) n) (\<lambda>(v, bs). Inr (Some (ucast v), next_op reader bs))
     | OpVbr n \<Rightarrow> rbind (read_vbr_uint64_width (rd_bs reader) n) (\<lambda>(v, bs). Inr (Some v, next_op reader bs))
     | OpArray \<Rightarrow>
         rbind (if value_index reader = 0 then
                  rbind (pn_bitstream_read_vbr (rd_bs reader) 6) (\<lambda>(n, bs).
                  Inr (reader\<lparr>rd_bs := bs, num_values := n\<rparr>))
                else Inr reader) (\<lambda>reader.
         rbind (nth_res abbrev (unat (op_index reader + 1))) (\<lambda>elt_op.
         rbind (read_element_uint64 (rd_bs reader) elt_op) (\<lambda>(v, bs).
         Inr (Some v, next_element reader bs))))
     | OpChar6 \<Rightarrow> rbind (read_char6 (rd_bs reader)) (\<lambda>(v, bs). Inr (Some (ucast v), next_op reader bs))
     | OpBlob \<Rightarrow> rbind (read_blob reader) (\<lambda>(v, reader). Inr (Some (ucast v), reader)))"

definition pn_record_read_code :: "PNRecordReader \<Rightarrow> (u32 option \<times> PNRecordReader) res" where
  "pn_record_read_code reader =
     (if rd_entry reader = PN_ENTRY_UNABBREV_RECORD then
        rbind (pn_bitstream_read_vbr (rd_bs reader) 6) (\<lambda>(code, bs).
        rbind (pn_bitstream_read_vbr bs 6) (\<lambda>(n, bs).
        Inr (Some code, reader\<lparr>rd_bs := bs, num_values := n\<rparr>)))
      else pn_record_read_abbrev reader)"

definition pn_record_try_read_uint32 :: "PNRecordReader \<Rightarrow> (u32 option \<times> PNRecordReader) res" where
  "pn_record_try_read_uint32 reader =
     (if rd_entry reader = PN_ENTRY_UNABBREV_RECORD then
        if value_index reader \<ge> num_values reader then Inr (None, reader)
        else rbind (pn_bitstream_read_vbr (rd_bs reader) 6) (\<lambda>(v, bs).
             Inr (Some v, reader\<lparr>rd_bs := bs, value_index := value_index reader + 1\<rparr>))
      else pn_record_read_abbrev reader)"

definition pn_record_try_read_uint64 :: "PNRecordReader \<Rightarrow> (u64 option \<times> PNRecordReader) res" where
  "pn_record_try_read_uint64 reader =
     (if rd_entry reader = PN_ENTRY_UNABBREV_RECORD then
        if value_index reader \<ge> num_values reader then Inr (None, reader)
        else rbind (pn_bitstream_read_vbr_uint64 (rd_bs reader) 6) (\<lambda>(v, bs).
             Inr (Some v, reader\<lparr>rd_bs := bs, value_index := value_index reader + 1\<rparr>))
      else pn_record_read_abbrev_uint64 reader)"

definition pn_record_try_read_uint16 :: "PNRecordReader \<Rightarrow> (u16 option \<times> PNRecordReader) res" where
  "pn_record_try_read_uint16 reader =
     rbind (pn_record_try_read_uint32 reader) (\<lambda>(ret, reader).
     case ret of None \<Rightarrow> Inr (None, reader)
     | Some v \<Rightarrow> if v > 0xFFFF then Inl (Fatal ''value too large for u16'') else Inr (Some (ucast v), reader))"

definition pn_record_try_read_int32 :: "PNRecordReader \<Rightarrow> (u32 option \<times> PNRecordReader) res" where
  "pn_record_try_read_int32 reader = pn_record_try_read_uint32 reader"

definition required :: "string \<Rightarrow> ('a option \<times> PNRecordReader) res \<Rightarrow> ('a \<times> PNRecordReader) res" where
  "required name m = rbind m (\<lambda>(ret, reader).
     case ret of None \<Rightarrow> Inl (Fatal (''unable to read '' @ name)) | Some v \<Rightarrow> Inr (v, reader))"

definition pn_record_read_uint16 :: "PNRecordReader \<Rightarrow> string \<Rightarrow> (u16 \<times> PNRecordReader) res" where
  "pn_record_read_uint16 reader name = required name (pn_record_try_read_uint16 reader)"

definition pn_record_read_int32 :: "PNRecordReader \<Rightarrow> string \<Rightarrow> (u32 \<times> PNRecordReader) res" where
  "pn_record_read_int32 reader name = required name (pn_record_try_read_int32 reader)"

definition pn_record_read_decoded_int32 :: "PNRecordReader \<Rightarrow> string \<Rightarrow> (u32 \<times> PNRecordReader) res" where
  "pn_record_read_decoded_int32 reader name =
     rbind (required name (pn_record_try_read_uint64 reader)) (\<lambda>(v, reader).
     let ret = pn_decode_sign_rotated_value_int64 v in
     if sint ret < - (2 ^ 31) \<or> sint ret > 2 ^ 31 - 1 then Inl (Fatal ''value out of int32 range'')
     else Inr (ucast ret, reader))"

definition pn_record_read_uint32 :: "PNRecordReader \<Rightarrow> string \<Rightarrow> (u32 \<times> PNRecordReader) res" where
  "pn_record_read_uint32 reader name = required name (pn_record_try_read_uint32 reader)"

definition pn_record_read_uint64 :: "PNRecordReader \<Rightarrow> string \<Rightarrow> (u64 \<times> PNRecordReader) res" where
  "pn_record_read_uint64 reader name = required name (pn_record_try_read_uint64 reader)"

definition pn_record_read_decoded_int64 :: "PNRecordReader \<Rightarrow> string \<Rightarrow> (u64 \<times> PNRecordReader) res" where
  "pn_record_read_decoded_int64 reader name =
     rbind (required name (pn_record_try_read_uint64 reader)) (\<lambda>(v, reader).
     Inr (pn_decode_sign_rotated_value_int64 v, reader))"

text \<open>Floating-point values are kept as their bit patterns, so the \<open>memcpy\<close> is the identity.\<close>

definition pn_record_read_float :: "PNRecordReader \<Rightarrow> string \<Rightarrow> (u32 \<times> PNRecordReader) res" where
  "pn_record_read_float reader name = required name (pn_record_try_read_uint32 reader)"

definition pn_record_read_double :: "PNRecordReader \<Rightarrow> string \<Rightarrow> (u64 \<times> PNRecordReader) res" where
  "pn_record_read_double reader name = required name (pn_record_try_read_uint64 reader)"

text \<open>The loop that reads the values that are left, which may run forever.\<close>

partial_function (option) record_drain :: "PNRecordReader \<Rightarrow> (u32 list \<times> PNRecordReader) res option" where
  "record_drain reader = (case pn_record_try_read_uint32 reader of
     Inl e \<Rightarrow> Some (Inl e)
   | Inr (None, reader) \<Rightarrow> Some (Inr ([], reader))
   | Inr (Some v, reader) \<Rightarrow>
       Option.bind (record_drain reader) (\<lambda>m. Some (rbind m (\<lambda>(vs, reader). Inr (v # vs, reader)))))"

declare record_drain.simps [code]

definition pn_record_num_values_left :: "PNRecordReader \<Rightarrow> (nat \<times> PNRecordReader) res option" where
  "pn_record_num_values_left reader =
     map_option (\<lambda>m. rbind m (\<lambda>(vs, reader').
       rbind (pn_bitstream_seek_bit (rd_bs reader') (bit_offset (rd_bs reader))) (\<lambda>bs.
       Inr (length vs, reader\<lparr>rd_bs := bs\<rparr>)))) (record_drain reader)"

definition pn_record_reader_finish :: "PNRecordReader \<Rightarrow> PNRecordReader res option" where
  "pn_record_reader_finish reader = map_option (\<lambda>m. rbind m (\<lambda>(_, reader). Inr reader)) (record_drain reader)"

section \<open>Reading what a writer encodes\<close>

definition char6_index :: "u32 \<Rightarrow> nat option" where
  "char6_index v = (let i = length (takeWhile (\<lambda>c. c \<noteq> v) char6_data) in if i < 64 then Some i else None)"

text \<open>The bits of a value that is laid out by a scalar operator, if it can be.\<close>

definition scalar_bits :: "PNAbbrevOp \<Rightarrow> u32 \<Rightarrow> bool list option" where
  "scalar_bits op v = (case op of
     OpLiteral w \<Rightarrow> if v = w then Some [] else None
   | OpFixed n \<Rightarrow> if 0 \<le> n \<and> n \<le> 32 \<and> unat v < 2 ^ nat n then Some (bits_of (nat n) (unat v)) else None
   | OpVbr n \<Rightarrow> if 2 \<le> n \<and> n \<le> 32 then Some (vbr_encode (nat n) (unat v)) else None
   | OpChar6 \<Rightarrow> map_option (bits_of 6) (char6_index v)
   | _ \<Rightarrow> None)"

text \<open>
  \<open>abbrev_lays_out ops vs bits ops'\<close>: the operators of \<open>ops\<close> in front of \<open>ops'\<close> lay the values \<open>vs\<close> out as \<open>bits\<close>.
  An array has an element at least and may follow a scalar operator only: the reader recognises its first element by
  \<open>value_index\<close>, which another array leaves set.
\<close>

inductive abbrev_lays_out :: "PNAbbrev \<Rightarrow> u32 list \<Rightarrow> bool list \<Rightarrow> PNAbbrev \<Rightarrow> bool" where
  Nil: "abbrev_lays_out ops [] [] ops"
| Scalar: "scalar_bits op v = Some b \<Longrightarrow> abbrev_lays_out ops vs bits ops' \<Longrightarrow>
    abbrev_lays_out (op # ops) (v # vs) (b @ bits) ops'"
| Array: "xs \<noteq> [] \<Longrightarrow> length xs < 2 ^ 32 \<Longrightarrow> those (map (scalar_bits elt) xs) = Some bss \<Longrightarrow>
    abbrev_lays_out ops vs bits ops' \<Longrightarrow> (ops = [] \<or> hd ops \<noteq> OpArray) \<Longrightarrow>
    abbrev_lays_out (OpArray # elt # ops) (xs @ vs) (vbr_encode 6 (length xs) @ concat bss @ bits) ops'"

text \<open>The bits of all values of a record under an abbreviation.\<close>

definition abbrev_encodes :: "PNAbbrev \<Rightarrow> u32 list \<Rightarrow> bool list \<Rightarrow> bool" where
  "abbrev_encodes ops vs bits \<longleftrightarrow> abbrev_lays_out ops vs bits []"

lemma length_char6_data [simp]: "length char6_data = 65"
  by (simp add: char6_data_def)

lemma char6_index_decode:
  assumes "char6_index v = Some i"
  shows "pn_decode_char6 (of_nat i) = Inr v" "i < 64"
proof -
  let ?i = "length (takeWhile (\<lambda>c. c \<noteq> v) char6_data)"
  have i: "i = ?i" "i < 64" using assms by (auto simp: char6_index_def Let_def split: if_splits)
  then have "?i < length char6_data" by simp
  then have "char6_data ! ?i = v" by (metis (mono_tags) nth_length_takeWhile)
  moreover have "unat (of_nat i :: u32) = i" using i(2) by (intro unat_of_nat_small) simp
  ultimately show "pn_decode_char6 (of_nat i) = Inr v" using i
    by (simp add: pn_decode_char6_def word_le_nat_alt)
  show "i < 64" by (rule i(2))
qed

lemma read_element_encoded:
  assumes "bs_inv bs" and "bs_rest bs = b @ ys" and "scalar_bits op v = Some b"
  shows "\<exists>bs'. read_element bs op = Inr (v, bs') \<and> bs_inv bs' \<and> bs_rest bs' = ys"
proof (cases op)
  case (OpLiteral w)
  with assms show ?thesis by (auto simp: scalar_bits_def read_element_def split: if_splits)
next
  case (OpFixed n)
  with assms(3) have n: "0 \<le> n" "n \<le> 32" "unat v < 2 ^ nat n" "b = bits_of (nat n) (unat v)"
    by (auto simp: scalar_bits_def split: if_splits)
  with read_fixed_encoded [OF assms(1), of "nat n" "unat v" ys] assms(2) OpFixed show ?thesis
    by (auto simp: read_element_def read_width_def)
next
  case (OpVbr n)
  with assms(3) have n: "2 \<le> n" "n \<le> 32" "b = vbr_encode (nat n) (unat v)"
    by (auto simp: scalar_bits_def split: if_splits)
  have "unat v < 2 ^ 32" using unat_bound [of v] by simp
  with read_vbr32_encoded [OF assms(1), of "nat n" "unat v" ys] assms(2) n OpVbr show ?thesis
    by (auto simp: read_element_def read_vbr_width_def)
next
  case OpChar6
  with assms(3) obtain i where i: "char6_index v = Some i" "b = bits_of 6 i" by (auto simp: scalar_bits_def)
  with read_fixed_encoded [OF assms(1), of 6 i ys] assms(2) char6_index_decode [OF i(1)] OpChar6 show ?thesis
    by (auto simp: read_element_def read_char6_def)
qed (use assms(3) in \<open>auto simp: scalar_bits_def\<close>)

text \<open>The abbreviation a reader uses, and the operators it has not processed.\<close>

definition reader_ops :: "PNRecordReader \<Rightarrow> PNAbbrev" where
  "reader_ops r = drop (unat (op_index r)) (rd_abbrevs r ! unat (rd_entry r - 4))"

definition abbrev_reader :: "PNRecordReader \<Rightarrow> bool" where
  "abbrev_reader r \<longleftrightarrow> unat (rd_entry r - 4) < length (rd_abbrevs r) \<and> rd_entry r \<noteq> PN_ENTRY_UNABBREV_RECORD
     \<and> length (rd_abbrevs r ! unat (rd_entry r - 4)) < 2 ^ 32 - 2 \<and> bs_inv (rd_bs r)"

lemma read_abbrev_scalar:
  assumes "abbrev_reader r" and "reader_ops r = op # ops" and "scalar_bits op v = Some b"
    and "bs_rest (rd_bs r) = b @ ys"
  shows "\<exists>r'. pn_record_try_read_uint32 r = Inr (Some v, r') \<and> abbrev_reader r' \<and> reader_ops r' = ops
    \<and> value_index r' = 0 \<and> bs_rest (rd_bs r') = ys"
proof -
  let ?ab = "rd_abbrevs r ! unat (rd_entry r - 4)"
  have r: "unat (rd_entry r - 4) < length (rd_abbrevs r)" "rd_entry r \<noteq> 3" "bs_inv (rd_bs r)" "length ?ab < 2 ^ 32 - 2"
    using assms(1) by (auto simp: abbrev_reader_def)
  have i: "unat (op_index r) < length ?ab" "?ab ! unat (op_index r) = op" "drop (Suc (unat (op_index r))) ?ab = ops"
    using assms(2) unfolding reader_ops_def
    by (metis drop_all linorder_not_le list.distinct(1), metis nth_via_drop, metis drop_Suc list.sel(3) tl_drop)
  from read_element_encoded [OF r(3) assms(4,3)] obtain bs' where
    bs': "read_element (rd_bs r) op = Inr (v, bs')" "bs_inv bs'" "bs_rest bs' = ys" by blast
  have "pn_record_try_read_uint32 r = Inr (Some v, next_op r bs')"
    using bs'(1) r i assms(3)
    by (cases op) (auto simp: pn_record_try_read_uint32_def pn_record_read_abbrev_def Let_def read_element_def
        scalar_bits_def)
  moreover have "unat (op_index r + 1) = Suc (unat (op_index r))"
    using i(1) r(4) unat_add_small [of "op_index r" 1] by simp
  ultimately show ?thesis
    using bs' r i by (auto simp: next_op_def abbrev_reader_def reader_ops_def)
qed


lemma reader_ops_array:
  assumes "abbrev_reader r" and "reader_ops r = OpArray # elt # ops"
  shows "unat (op_index r) < length (rd_abbrevs r ! unat (rd_entry r - 4))"
    "(rd_abbrevs r ! unat (rd_entry r - 4)) ! unat (op_index r) = OpArray"
    "nth_res (rd_abbrevs r ! unat (rd_entry r - 4)) (unat (op_index r + 1)) = Inr elt"
    "unat (op_index r + 2) = unat (op_index r) + 2"
    "drop (unat (op_index r) + 2) (rd_abbrevs r ! unat (rd_entry r - 4)) = ops"
proof -
  let ?ab = "rd_abbrevs r ! unat (rd_entry r - 4)" and ?i = "unat (op_index r)"
  have d: "drop ?i ?ab = OpArray # elt # ops" using assms(2) by (simp add: reader_ops_def)
  then have "length (drop ?i ?ab) = length ops + 2" by simp
  then have len: "?i + 2 \<le> length ?ab" unfolding length_drop by linarith
  have b: "length ?ab < 2 ^ 32 - 2" using assms(1) by (simp add: abbrev_reader_def)
  show "?i < length ?ab" using len by simp
  show "?ab ! ?i = OpArray" using d by (rule nth_via_drop)
  have "unat (op_index r + 1) = Suc ?i" using len b unat_add_small [of "op_index r" 1] by simp
  moreover have "drop (Suc ?i) ?ab = elt # ops" using d by (metis drop_Suc list.sel(3) tl_drop)
  ultimately show "nth_res ?ab (unat (op_index r + 1)) = Inr elt"
    using len nth_via_drop [of "Suc ?i" ?ab] by (simp add: nth_res_def)
  show "unat (op_index r + 2) = ?i + 2" using len b unat_add_small [of "op_index r" 2] by simp
  have "drop (?i + 2) ?ab = drop 2 (drop ?i ?ab)" by (simp add: add.commute)
  then show "drop (?i + 2) ?ab = ops" using d by simp
qed

lemma those_map_Some: "those (map f (x # xs)) = Some bss \<longleftrightarrow>
    (\<exists>b bs. bss = b # bs \<and> f x = Some b \<and> those (map f xs) = Some bs)"
  by (cases "f x"; cases "those (map f xs)") auto

text \<open>The values in front of what is read of the rest.\<close>

definition prepend :: "u32 list \<Rightarrow> (u32 list \<times> PNRecordReader) res \<Rightarrow> (u32 list \<times> PNRecordReader) res" where
  "prepend vs m = rbind m (\<lambda>(ws, r). Inr (vs @ ws, r))"

lemma prepend_Nil [simp]: "prepend [] m = m"
  by (cases m) (auto simp: prepend_def)

lemma drain_step:
  assumes "pn_record_try_read_uint32 r = Inr (Some v, r')" and "record_drain r' = Some (prepend vs m)"
  shows "record_drain r = Some (prepend (v # vs) m)"
  using assms by (subst record_drain.simps) (cases m; auto simp: prepend_def)

text \<open>The elements of an array after its first one.\<close>

lemma drain_array_rest:
  assumes "abbrev_reader r" and "reader_ops r = OpArray # elt # ops" and "value_index r \<noteq> 0" and "xs \<noteq> []"
    and "those (map (scalar_bits elt) xs) = Some bss" and "bs_rest (rd_bs r) = concat bss @ ys"
    and "unat (value_index r) + length xs = unat (num_values r)"
    and cont: "\<And>r'. abbrev_reader r' \<Longrightarrow> reader_ops r' = ops \<Longrightarrow> bs_rest (rd_bs r') = ys \<Longrightarrow>
      \<exists>m. record_drain r' = Some (prepend vs m) \<and> P m"
  shows "\<exists>m. record_drain r = Some (prepend (xs @ vs) m) \<and> P m"
  using assms(1-7)
proof (induction xs arbitrary: r bss)
  case (Cons x xs)
  note ar = reader_ops_array [OF Cons.prems(1,2)]
  have r: "unat (rd_entry r - 4) < length (rd_abbrevs r)" "rd_entry r \<noteq> 3" "bs_inv (rd_bs r)"
    using Cons.prems(1) by (auto simp: abbrev_reader_def)
  from Cons.prems(5) obtain b bs where b: "bss = b # bs" "scalar_bits elt x = Some b"
    "those (map (scalar_bits elt) xs) = Some bs" unfolding those_map_Some by blast
  from read_element_encoded [OF r(3) _ b(2), of "concat bs @ ys"] Cons.prems(6) b(1) obtain bs' where
    bs': "read_element (rd_bs r) elt = Inr (x, bs')" "bs_inv bs'" "bs_rest bs' = concat bs @ ys" by auto
  let ?r' = "next_element r bs'"
  have step: "pn_record_try_read_uint32 r = Inr (Some x, ?r')"
    using r ar(1-3) bs'(1) Cons.prems(3)
    by (simp add: pn_record_try_read_uint32_def pn_record_read_abbrev_def Let_def)
  have vi: "unat (value_index r + 1) = unat (value_index r) + 1"
    using Cons.prems(7) unat_bound [of "num_values r"] unat_add_small [of "value_index r" 1] by simp
  show ?case
  proof (cases xs)
    case Nil
    then have "value_index r + 1 = num_values r" using Cons.prems(7) vi by (simp add: word_unat_eq_iff)
    then have "abbrev_reader ?r'" "reader_ops ?r' = ops" "bs_rest (rd_bs ?r') = ys"
      using Cons.prems(1) bs' ar(4,5) b(3) Nil
      by (auto simp: next_element_def abbrev_reader_def reader_ops_def)
    from cont [OF this] drain_step [OF step] show ?thesis by (auto simp: Nil)
  next
    case (Cons y zs')
    have ne: "value_index r + 1 \<noteq> num_values r" using Cons.prems(7) vi Cons by (auto simp: word_unat_eq_iff)
    then have r': "abbrev_reader ?r'" "reader_ops ?r' = OpArray # elt # ops" "value_index ?r' \<noteq> 0"
      "bs_rest (rd_bs ?r') = concat bs @ ys" "unat (value_index ?r') + length xs = unat (num_values ?r')"
      using \<open>abbrev_reader r\<close> \<open>reader_ops r = _\<close> bs' vi Cons.prems(7)
      by (auto simp: next_element_def abbrev_reader_def reader_ops_def word_unat_eq_iff)
    have "xs \<noteq> []" using Cons by simp
    from Cons.IH [OF r'(1-3) this b(3) r'(4,5)] drain_step [OF step] show ?thesis by auto
  qed
qed simp


lemma drain_lays_out:
  assumes "abbrev_lays_out ops vs bits ops'" and "abbrev_reader r" and "reader_ops r = ops"
    and "bs_rest (rd_bs r) = bits @ ys" and "value_index r = 0 \<or> ops = [] \<or> hd ops \<noteq> OpArray"
    and "\<And>r'. abbrev_reader r' \<Longrightarrow> reader_ops r' = ops' \<Longrightarrow> bs_rest (rd_bs r') = ys \<Longrightarrow>
      value_index r' = 0 \<or> ops' = [] \<or> hd ops' \<noteq> OpArray \<Longrightarrow> \<exists>m. record_drain r' = Some m \<and> P m"
  shows "\<exists>m. record_drain r = Some (prepend vs m) \<and> P m"
  using assms
proof (induction arbitrary: r rule: abbrev_lays_out.induct)
  case (Nil ops)
  then show ?case by simp
next
  case (Scalar op v b ops vs bits ops')
  then have "bs_rest (rd_bs r) = b @ (bits @ ys)" by simp
  from read_abbrev_scalar [OF Scalar(4,5,1) this] obtain r' where
    r': "pn_record_try_read_uint32 r = Inr (Some v, r')" "abbrev_reader r'" "reader_ops r' = ops"
    "value_index r' = 0" "bs_rest (rd_bs r') = bits @ ys" by blast
  from Scalar.IH [OF r'(2,3,5) _ Scalar.prems(5)] r'(4) drain_step [OF r'(1)] show ?case by blast
next
  case (Array xs elt bss ops vs bits ops')
  note ar = reader_ops_array [OF Array.prems(1,2)]
  have r: "unat (rd_entry r - 4) < length (rd_abbrevs r)" "rd_entry r \<noteq> 3" "bs_inv (rd_bs r)"
    using Array.prems(1) by (auto simp: abbrev_reader_def)
  obtain x xs' where xs: "xs = x # xs'" using Array(1) by (cases xs) auto
  from Array(3) xs obtain b bs where b: "bss = b # bs" "scalar_bits elt x = Some b"
    "those (map (scalar_bits elt) xs') = Some bs" unfolding xs those_map_Some by blast
  from Array.prems(3) b(1) have rest: "bs_rest (rd_bs r) = vbr_encode 6 (length xs) @ (b @ concat bs @ bits @ ys)"
    by simp
  from read_vbr32_encoded [OF r(3) rest _ _ Array(2)] obtain b1 where
    b1: "pn_bitstream_read_vbr (rd_bs r) 6 = Inr (of_nat (length xs), b1)" "bs_inv b1"
      "bs_rest b1 = b @ (concat bs @ bits @ ys)" by auto
  from read_element_encoded [OF b1(2,3) b(2)] obtain b2 where
    b2: "read_element b1 elt = Inr (x, b2)" "bs_inv b2" "bs_rest b2 = concat bs @ bits @ ys" by blast
  let ?n = "of_nat (length xs) :: u32"
  have un: "unat ?n = length xs" using Array(2) by (intro unat_of_nat_small) simp
  have n0: "?n > 0" using un Array(1) by (simp add: word_gt_0_no word_less_nat_alt)
  let ?r' = "next_element (r\<lparr>rd_bs := b1, num_values := ?n\<rparr>) b2"
  have v0: "value_index r = 0" using Array.prems(4) by simp
  have step: "pn_record_try_read_uint32 r = Inr (Some x, ?r')"
    using r ar(1-3) b1(1) b2(1) v0 n0
    by (simp add: pn_record_try_read_uint32_def pn_record_read_abbrev_def Let_def)
  have cont: "\<exists>m. record_drain r' = Some (prepend vs m) \<and> P m"
    if "abbrev_reader r'" "reader_ops r' = ops" "bs_rest (rd_bs r') = bits @ ys" for r'
    using Array.IH [OF that _ Array.prems(5)] Array(5) by blast
  show ?case
  proof (cases "xs' = []")
    case True
    then have "abbrev_reader ?r'" "reader_ops ?r' = ops" "bs_rest (rd_bs ?r') = bits @ ys"
      using Array.prems(1) b2 ar(4,5) b(3) xs v0
      by (auto simp: next_element_def abbrev_reader_def reader_ops_def)
    from cont [OF this] obtain m where "record_drain ?r' = Some (prepend vs m)" "P m" by blast
    with drain_step [OF step this(1)] show ?thesis unfolding xs True append_Cons append_Nil by blast
  next
    case False
    then have "(1 :: u32) \<noteq> ?n" using un xs by (auto simp: word_unat_eq_iff)
    then have e: "?r' = r\<lparr>rd_bs := b2, num_values := ?n, value_index := 1\<rparr>"
      using v0 by (simp add: next_element_def)
    have r': "abbrev_reader ?r'" "reader_ops ?r' = OpArray # elt # ops" "value_index ?r' \<noteq> 0"
      "bs_rest (rd_bs ?r') = concat bs @ (bits @ ys)" "unat (value_index ?r') + length xs' = unat (num_values ?r')"
      using Array.prems(1,2) b2(2,3) un xs unfolding e
      by (simp_all add: abbrev_reader_def reader_ops_def)
    from drain_array_rest [OF r'(1-3) False b(3) r'(4,5) cont] obtain m where
      "record_drain ?r' = Some (prepend (xs' @ vs) m)" "P m" by blast
    with drain_step [OF step this(1)] show ?thesis unfolding xs append_Cons by blast
  qed
qed

lemma drain_encoded:
  assumes "abbrev_encodes ops vs bits" and "abbrev_reader r" and "reader_ops r = ops"
    and "bs_rest (rd_bs r) = bits @ ys" and "value_index r = 0"
  shows "\<exists>r'. record_drain r = Some (Inr (vs, r')) \<and> bs_inv (rd_bs r') \<and> bs_rest (rd_bs r') = ys"
proof -
  have "\<exists>m. record_drain r' = Some m \<and> (\<exists>r''. m = Inr ([], r'') \<and> bs_inv (rd_bs r'') \<and> bs_rest (rd_bs r'') = ys)"
    if "abbrev_reader r'" "reader_ops r' = []" "bs_rest (rd_bs r') = ys" for r'
  proof -
    have "unat (op_index r') \<ge> length (rd_abbrevs r' ! unat (rd_entry r' - 4))" using that(2) by (simp add: reader_ops_def)
    then have "pn_record_try_read_uint32 r' = Inr (None, r')"
      using that(1) by (simp add: pn_record_try_read_uint32_def pn_record_read_abbrev_def abbrev_reader_def)
    with that show ?thesis by (subst record_drain.simps) (auto simp: abbrev_reader_def)
  qed
  from drain_lays_out [OF assms(1) [unfolded abbrev_encodes_def] assms(2-4) disjI1 [OF assms(5)] this]
  obtain m r'' where "record_drain r = Some (prepend vs m)" "m = Inr ([], r'')" "bs_inv (rd_bs r'')" "bs_rest (rd_bs r'') = ys"
    by blast
  then show ?thesis by (simp add: prepend_def)
qed

text \<open>An array without elements is refused.\<close>

lemma drain_empty_array:
  assumes "abbrev_lays_out ops vs bits (OpArray # elt # rest)" and "abbrev_reader r" and "reader_ops r = ops"
    and "bs_rest (rd_bs r) = bits @ vbr_encode 6 0 @ ys" and "value_index r = 0"
  shows "record_drain r = Some (Inl (Check ''reader->num_values > 0''))"
proof -
  let ?e = "Inl (Check ''reader->num_values > 0'')"
  have "\<exists>m. record_drain r' = Some m \<and> m = ?e"
    if "abbrev_reader r'" "reader_ops r' = OpArray # elt # rest" "bs_rest (rd_bs r') = vbr_encode 6 0 @ ys"
      "value_index r' = 0 \<or> OpArray # elt # rest = [] \<or> hd (OpArray # elt # rest) \<noteq> OpArray" for r'
  proof -
    note ar = reader_ops_array [OF that(1,2)]
    have r: "unat (rd_entry r' - 4) < length (rd_abbrevs r')" "rd_entry r' \<noteq> 3" "bs_inv (rd_bs r')" "value_index r' = 0"
      using that(1,4) by (auto simp: abbrev_reader_def)
    from read_vbr32_encoded [OF r(3) that(3)] obtain b1 where "pn_bitstream_read_vbr (rd_bs r') 6 = Inr (0, b1)" by auto
    then have "pn_record_try_read_uint32 r' = ?e" using r ar(1-3)
      by (simp add: pn_record_try_read_uint32_def pn_record_read_abbrev_def Let_def)
    then show ?thesis by (subst record_drain.simps) simp
  qed
  from drain_lays_out [OF assms(1-4) disjI1 [OF assms(5)] this] obtain m where
    "record_drain r = Some (prepend vs m)" "m = ?e" by blast
  then show ?thesis by (simp add: prepend_def)
qed

text \<open>The values of an unabbreviated record.\<close>

definition unabbrev_bits :: "u32 list \<Rightarrow> bool list" where
  "unabbrev_bits vs = concat (map (\<lambda>v. vbr_encode 6 (unat v)) vs)"

lemma drain_unabbrev:
  assumes "rd_entry r = PN_ENTRY_UNABBREV_RECORD" and "bs_inv (rd_bs r)"
    and "bs_rest (rd_bs r) = unabbrev_bits vs @ ys" and "unat (value_index r) + length vs = unat (num_values r)"
  shows "\<exists>r'. record_drain r = Some (Inr (vs, r')) \<and> bs_inv (rd_bs r') \<and> bs_rest (rd_bs r') = ys"
  using assms
proof (induction vs arbitrary: r)
  case Nil
  then have "pn_record_try_read_uint32 r = Inr (None, r)"
    by (simp add: pn_record_try_read_uint32_def word_le_nat_alt)
  with Nil show ?case by (subst record_drain.simps) (auto simp: unabbrev_bits_def)
next
  case (Cons v vs)
  have "unat v < 2 ^ 32" using unat_bound [of v] by simp
  from read_vbr32_encoded [OF Cons.prems(2), of 6 "unat v" "unabbrev_bits vs @ ys"] this Cons.prems(3)
  obtain bs' where bs': "pn_bitstream_read_vbr (rd_bs r) 6 = Inr (v, bs')" "bs_inv bs'"
    "bs_rest bs' = unabbrev_bits vs @ ys" by (auto simp: unabbrev_bits_def)
  let ?r' = "r\<lparr>rd_bs := bs', value_index := value_index r + 1\<rparr>"
  have "\<not> num_values r \<le> value_index r" using Cons.prems(4) by (simp add: word_le_nat_alt)
  then have step: "pn_record_try_read_uint32 r = Inr (Some v, ?r')"
    using Cons.prems(1) bs'(1) by (simp add: pn_record_try_read_uint32_def)
  have "unat (value_index r + 1) = unat (value_index r) + 1"
    using Cons.prems(4) unat_bound [of "num_values r"] unat_add_small [of "value_index r" 1] by simp
  then have "unat (value_index ?r') + length vs = unat (num_values ?r')" using Cons.prems(4) by simp
  from Cons.IH [OF _ _ _ this] Cons.prems(1) bs'(2,3) obtain r'' where
    r'': "record_drain ?r' = Some (Inr (vs, r''))" "bs_inv (rd_bs r'')" "bs_rest (rd_bs r'') = ys" by auto
  have "record_drain r = Some (Inr (v # vs, r''))" using step r''(1) by (subst record_drain.simps) simp
  with r'' show ?case by blast
qed

lemma record_read_code_unabbrev:
  assumes "rd_entry r = PN_ENTRY_UNABBREV_RECORD" and "bs_inv (rd_bs r)"
    and "bs_rest (rd_bs r) = vbr_encode 6 (unat code) @ vbr_encode 6 n @ ys" and "n < 2 ^ 32"
  shows "\<exists>bs'. pn_record_read_code r = Inr (Some code, r\<lparr>rd_bs := bs', num_values := of_nat n\<rparr>)
    \<and> bs_inv bs' \<and> bs_rest bs' = ys"
proof -
  have "unat code < 2 ^ 32" using unat_bound [of code] by simp
  from read_vbr32_encoded [OF assms(2,3) _ _ this] obtain b1 where
    b1: "pn_bitstream_read_vbr (rd_bs r) 6 = Inr (code, b1)" "bs_inv b1" "bs_rest b1 = vbr_encode 6 n @ ys" by auto
  from read_vbr32_encoded [OF b1(2,3) _ _ assms(4)] b1(1) assms(1) show ?thesis
    by (auto simp: pn_record_read_code_def)
qed

text \<open>Every read keeps the buffer; so the position that \<open>pn_record_num_values_left\<close> seeks is valid.\<close>

lemma num_values_left_drained:
  assumes "record_drain r = Some (Inr (vs, r'))" and "bs_inv (rd_bs r')" and "bs_inv (rd_bs r)"
    and "data_len (rd_bs r') = data_len (rd_bs r)" and "bs_data (rd_bs r') = bs_data (rd_bs r)"
  shows "\<exists>bs'. pn_record_num_values_left r = Some (Inr (length vs, r\<lparr>rd_bs := bs'\<rparr>))
    \<and> bs_inv bs' \<and> bs_rest bs' = bs_rest (rd_bs r)"
proof -
  have "unat (bit_offset (rd_bs r)) \<le> 8 * unat (data_len (rd_bs r'))"
    using assms(3,4) by (auto simp: bs_inv_def)
  from seek_bit_ok [OF assms(2) this] assms show ?thesis
    by (auto simp: pn_record_num_values_left_def bs_rest_def)
qed


section \<open>Reads keep the buffer\<close>

definition same_buffer :: "PNBitStream \<Rightarrow> PNBitStream \<Rightarrow> bool" where
  "same_buffer a b \<longleftrightarrow> data_len b = data_len a \<and> bs_data b = bs_data a"

named_theorems keeps_buffer

lemma same_buffer_refl [simp]: "same_buffer a a"
  by (simp add: same_buffer_def)

lemma same_buffer_trans: "same_buffer a b \<Longrightarrow> same_buffer b c \<Longrightarrow> same_buffer a c"
  by (simp add: same_buffer_def)

lemma read_keeps [keeps_buffer]: "pn_bitstream_read bs n = Inr (p, bs') \<Longrightarrow> same_buffer bs bs'"
  using read_data_len [of bs n p bs'] by (simp add: same_buffer_def)

lemma fill_keeps: "pn_bitstream_fill_curword bs = Inr bs' \<Longrightarrow> same_buffer bs bs'"
  by (auto simp: pn_bitstream_fill_curword_def res_simps Let_def same_buffer_def split: if_splits)

lemma seek_keeps [keeps_buffer]: "pn_bitstream_seek_bit bs off = Inr bs' \<Longrightarrow> same_buffer bs bs'"
  by (auto simp: pn_bitstream_seek_bit_def res_simps Let_def same_buffer_def pn_bitstream_read_frac_bits_def
      split: if_splits dest!: fill_keeps)

lemma align_keeps [keeps_buffer]: "pn_bitstream_align_32 bs = Inr bs' \<Longrightarrow> same_buffer bs bs'"
  by (auto simp: pn_bitstream_align_32_def res_simps dest: seek_keeps)

lemma vbr_loop_keeps: "vbr_loop pn_bitstream_read n h sh r fuel bs = Inr (v, bs') \<Longrightarrow> same_buffer bs bs'"
proof (induction fuel arbitrary: sh r bs)
  case (Suc fuel)
  then show ?case
    by (auto simp: res_simps Let_def split: if_splits dest!: read_keeps intro: same_buffer_trans)
qed simp

lemma vbr_loop_uint64_keeps:
  "vbr_loop_uint64 pn_bitstream_read n h sh r fuel bs = Inr (v, bs') \<Longrightarrow> same_buffer bs bs'"
proof (induction fuel arbitrary: sh r bs)
  case (Suc fuel)
  then show ?case
    by (auto simp: res_simps Let_def split: if_splits dest!: read_keeps intro: same_buffer_trans)
qed simp

lemma read_vbr_keeps [keeps_buffer]: "pn_bitstream_read_vbr bs n = Inr (v, bs') \<Longrightarrow> same_buffer bs bs'"
  unfolding read_vbr_general
  by (auto simp: read_vbr_with_def res_simps split: if_splits dest!: read_keeps vbr_loop_keeps
      intro: same_buffer_trans)

lemma read_vbr_uint64_keeps [keeps_buffer]:
  "pn_bitstream_read_vbr_uint64 bs n = Inr (v, bs') \<Longrightarrow> same_buffer bs bs'"
  by (auto simp: pn_bitstream_read_vbr_uint64_def read_vbr_uint64_with_def res_simps Let_def split: if_splits
      dest!: read_keeps vbr_loop_uint64_keeps intro: same_buffer_trans)

lemma read_element_keeps [keeps_buffer]: "read_element bs op = Inr (v, bs') \<Longrightarrow> same_buffer bs bs'"
  by (auto simp: read_element_def read_width_def read_vbr_width_def read_char6_def res_simps
      split: PNAbbrevOp.splits if_splits dest: keeps_buffer)

lemma next_keeps: "rd_bs (next_op r bs) = bs" "rd_bs (next_element r bs) = bs"
  by (simp_all add: next_op_def next_element_def Let_def)

lemma read_blob_keeps [keeps_buffer]: "read_blob r = Inr (v, r') \<Longrightarrow> same_buffer (rd_bs r) (rd_bs r')"
  by (auto simp: read_blob_def res_simps split: if_splits dest!: keeps_buffer intro: same_buffer_trans)

lemma read_abbrev_keeps [keeps_buffer]:
  assumes "pn_record_read_abbrev r = Inr (v, r')"
  shows "same_buffer (rd_bs r) (rd_bs r')"
  using assms
  by (auto simp: pn_record_read_abbrev_def res_simps Let_def next_keeps read_width_def read_vbr_width_def
      read_char6_def split: if_splits PNAbbrevOp.splits dest!: keeps_buffer intro: same_buffer_trans)

lemma try_read_keeps [keeps_buffer]:
  "pn_record_try_read_uint32 r = Inr (v, r') \<Longrightarrow> same_buffer (rd_bs r) (rd_bs r')"
  by (auto simp: pn_record_try_read_uint32_def res_simps split: if_splits dest: keeps_buffer)

lemma drain_keeps:
  assumes "record_drain r = Some (Inr (vs, r'))"
  shows "same_buffer (rd_bs r) (rd_bs r')"
proof -
  have "\<forall>vs r'. m = Inr (vs, r') \<longrightarrow> same_buffer (rd_bs r) (rd_bs r')" if "record_drain r = Some m" for m
    using that
  proof (rule record_drain.raw_induct [rotated])
    fix rec r m
    assume 1: "\<And>r m. rec r = Some m \<Longrightarrow> \<forall>vs r'. m = Inr (vs, r') \<longrightarrow> same_buffer (rd_bs r) (rd_bs r')"
      "(case pn_record_try_read_uint32 r of Inl e \<Rightarrow> Some (Inl e)
        | Inr (None, r1) \<Rightarrow> Some (Inr ([], r1))
        | Inr (Some v, r1) \<Rightarrow>
            Option.bind (rec r1) (\<lambda>m. Some (rbind m (\<lambda>(vs, r2). Inr (v # vs, r2))))) = Some m"
    show "\<forall>vs r'. m = Inr (vs, r') \<longrightarrow> same_buffer (rd_bs r) (rd_bs r')"
    proof (intro allI impI)
      fix vs r'
      assume m: "m = Inr (vs, r')"
      with 1(2) obtain v r1 where r1: "pn_record_try_read_uint32 r = Inr (v, r1)"
        by (auto split: sum.splits)
      from try_read_keeps [OF r1] have k: "same_buffer (rd_bs r) (rd_bs r1)" .
      show "same_buffer (rd_bs r) (rd_bs r')"
      proof (cases v)
        case None
        with 1(2) r1 m k show ?thesis by simp
      next
        case (Some x)
        with 1(2) r1 m obtain vs' where "rec r1 = Some (Inr (vs', r'))"
          by (auto simp: Option.bind_eq_Some_conv res_simps)
        with 1(1) [of r1] k show ?thesis by (blast intro: same_buffer_trans)
      qed
    qed
  qed
  with assms show ?thesis by blast
qed


section \<open>Properties\<close>

lemma abbrev_reader_init:
  assumes "entry \<noteq> PN_ENTRY_UNABBREV_RECORD" and "unat (entry - 4) < length abbrevs"
    and "length (abbrevs ! unat (entry - 4)) < 2 ^ 32 - 2" and "bs_inv bs"
  shows "abbrev_reader (pn_record_reader_init bs abbrevs entry)"
    and "reader_ops (pn_record_reader_init bs abbrevs entry) = abbrevs ! unat (entry - 4)"
    and "value_index (pn_record_reader_init bs abbrevs entry) = 0"
    and "rd_bs (pn_record_reader_init bs abbrevs entry) = bs"
  using assms by (simp_all add: abbrev_reader_def pn_record_reader_init_def reader_ops_def)

text \<open>
  C30: a record that was laid out by an abbreviation of literals, fixed fields of up to 32 bits, variable-width fields of
  2 to 32 bits, characters and arrays of these (no blob, no array directly behind an array) is read back: on the bits of
  its values, in which no array is empty, the reader returns exactly these values, one after the other, then reports the
  end of the record, and has consumed exactly the record's bits. Where the length of an array is 0 the reader stops with
  the failed check \<^verbatim>\<open>reader->num_values > 0\<close>, whatever was read in front of it and follows it.
\<close>

theorem pn_record_abbrev_roundtrip:
  assumes "entry \<noteq> PN_ENTRY_UNABBREV_RECORD" and "unat (entry - 4) < length abbrevs"
    and "length (abbrevs ! unat (entry - 4)) < 2 ^ 32 - 2" and "bs_inv bs"
  shows "(abbrev_encodes (abbrevs ! unat (entry - 4)) vs bits \<and> bs_rest bs = bits @ ys \<longrightarrow>
      (\<exists>r'. record_drain (pn_record_reader_init bs abbrevs entry) = Some (Inr (vs, r'))
        \<and> bs_inv (rd_bs r') \<and> bs_rest (rd_bs r') = ys)) \<and>
    (abbrev_lays_out (abbrevs ! unat (entry - 4)) vs bits (OpArray # elt # rest) \<and> bs_rest bs = bits @ vbr_encode 6 0 @ ys \<longrightarrow>
      record_drain (pn_record_reader_init bs abbrevs entry) = Some (Inl (Check ''reader->num_values > 0'')))"
  using drain_encoded [of "abbrevs ! unat (entry - 4)" vs bits "pn_record_reader_init bs abbrevs entry" ys]
    drain_empty_array [of "abbrevs ! unat (entry - 4)" vs bits elt rest "pn_record_reader_init bs abbrevs entry" ys]
    abbrev_reader_init [OF assms] by simp

definition example_record_stream :: PNBitStream where
  "example_record_stream = pn_bitstream_init [0x15, 0x02, 0x01, 0x00] 4"

definition example_record_abbrev :: PNAbbrev where
  "example_record_abbrev = [OpFixed 3, OpArray, OpChar6]"

lemma example_record_stream_inv: "bs_inv example_record_stream"
  unfolding example_record_stream_def by (rule bs_inv_init) simp_all

lemma example_record_bits:
  obtains bits ys where "abbrev_encodes example_record_abbrev [5, 98, 99] bits"
    "bs_rest example_record_stream = bits @ ys"
proof
  have "those (map (scalar_bits OpChar6) [98, 99]) = Some [bits_of 6 1, bits_of 6 2]" by code_simp
  then have "abbrev_encodes [OpArray, OpChar6] ([98, 99] @ [])
      (vbr_encode 6 (length [98 :: u32, 99]) @ concat [bits_of 6 1, bits_of 6 2] @ [])"
    by (unfold abbrev_encodes_def, intro abbrev_lays_out.intros) simp_all
  moreover have "length [98 :: u32, 99] = 2" by simp
  ultimately have arr: "abbrev_encodes [OpArray, OpChar6] [98, 99] (vbr_encode 6 2 @ bits_of 6 1 @ bits_of 6 2)"
    by (simp only: append_Nil2 append_Cons append_Nil concat.simps)
  have "scalar_bits (OpFixed 3) 5 = Some (bits_of 3 5)" by code_simp
  from abbrev_lays_out.Scalar [OF this arr [unfolded abbrev_encodes_def]] show "abbrev_encodes example_record_abbrev [5, 98, 99]
      (bits_of 3 5 @ vbr_encode 6 2 @ bits_of 6 1 @ bits_of 6 2)"
    by (simp only: example_record_abbrev_def abbrev_encodes_def)
  have "bits_of 3 5 @ vbr_encode 6 2 @ bits_of 6 1 @ bits_of 6 2 = take 21 (bs_rest example_record_stream)"
    by code_simp
  then show "bs_rest example_record_stream = (bits_of 3 5 @ vbr_encode 6 2 @ bits_of 6 1 @ bits_of 6 2)
      @ drop 21 (bs_rest example_record_stream)" by simp
qed

theorem pn_record_abbrev_roundtrip_witness:
  "(\<exists>r'. record_drain (pn_record_reader_init example_record_stream [example_record_abbrev] 4) = Some (Inr ([5, 98, 99], r'))) \<and>
   record_drain (pn_record_reader_init (pn_bitstream_init [0x05, 0, 0, 0] 4) [example_record_abbrev] 4)
     = Some (Inl (Check ''reader->num_values > 0''))"
proof
  obtain bits ys where e: "abbrev_encodes example_record_abbrev [5, 98, 99] bits"
    "bs_rest example_record_stream = bits @ ys" by (rule example_record_bits)
  have n: "(4 :: u32) \<noteq> PN_ENTRY_UNABBREV_RECORD" "unat ((4 :: u32) - 4) < length [example_record_abbrev]"
    "length ([example_record_abbrev] ! unat ((4 :: u32) - 4)) < 2 ^ 32 - 2" by (simp_all add: example_record_abbrev_def)
  from pn_record_abbrev_roundtrip [OF n example_record_stream_inv, of "[5, 98, 99]" bits ys] e
  show "\<exists>r'. record_drain (pn_record_reader_init example_record_stream [example_record_abbrev] 4) = Some (Inr ([5, 98, 99], r'))"
    by simp blast
  let ?bs = "pn_bitstream_init [0x05, 0, 0, 0] 4"
  have inv: "bs_inv ?bs" by (rule bs_inv_init) simp_all
  have "scalar_bits (OpFixed 3) 5 = Some (bits_of 3 5)" by code_simp
  from abbrev_lays_out.Scalar [OF this abbrev_lays_out.Nil, of "[OpArray, OpChar6]"]
  have l: "abbrev_lays_out example_record_abbrev [5] (bits_of 3 5) [OpArray, OpChar6]" by (simp add: example_record_abbrev_def)
  have "bits_of 3 5 @ vbr_encode 6 0 = take 9 (bs_rest ?bs)" by code_simp
  then have "bs_rest ?bs = bits_of 3 5 @ vbr_encode 6 0 @ drop 9 (bs_rest ?bs)"
    by (metis append.assoc append_take_drop_id)
  with l pn_record_abbrev_roundtrip [OF n inv, of "[5]" "bits_of 3 5" "drop 9 (bs_rest ?bs)" OpChar6 "[]"]
  show "record_drain (pn_record_reader_init ?bs [example_record_abbrev] 4) = Some (Inl (Check ''reader->num_values > 0''))"
    by simp
qed

text \<open>
  Counting the values that are left does not disturb the record: the count is the number of
  values, and afterwards the reader stands where it stood, on the same bits.
\<close>

theorem pn_record_num_values_left_restores:
  assumes "entry \<noteq> PN_ENTRY_UNABBREV_RECORD" and "unat (entry - 4) < length abbrevs"
    and "length (abbrevs ! unat (entry - 4)) < 2 ^ 32 - 2" and "bs_inv bs"
    and "abbrev_encodes (abbrevs ! unat (entry - 4)) vs bits" and "bs_rest bs = bits @ ys"
    and "r = pn_record_reader_init bs abbrevs entry"
  shows "\<exists>bs'. pn_record_num_values_left r = Some (Inr (length vs, r\<lparr>rd_bs := bs'\<rparr>))
    \<and> bs_inv bs' \<and> bs_rest bs' = bs_rest bs"
proof -
  note i = abbrev_reader_init [OF assms(1-4)]
  from drain_encoded [OF assms(5) i(1,2), of ys] assms(6,7) i(3,4) obtain r' where
    r': "record_drain r = Some (Inr (vs, r'))" "bs_inv (rd_bs r')" by auto
  from drain_keeps [OF r'(1)] num_values_left_drained [OF r'] assms(4,7) i(4) show ?thesis
    by (auto simp: same_buffer_def)
qed

theorem pn_record_num_values_left_restores_witness:
  "\<exists>r'. pn_record_num_values_left (pn_record_reader_init example_record_stream [example_record_abbrev] 4)
     = Some (Inr (3, r'))"
proof -
  obtain bits ys where e: "abbrev_encodes example_record_abbrev [5, 98, 99] bits"
    "bs_rest example_record_stream = bits @ ys" by (rule example_record_bits)
  let ?r = "pn_record_reader_init example_record_stream [example_record_abbrev] 4"
  have "\<exists>bs'. pn_record_num_values_left ?r = Some (Inr (length [5 :: u32, 98, 99], ?r\<lparr>rd_bs := bs'\<rparr>))
    \<and> bs_inv bs' \<and> bs_rest bs' = bs_rest example_record_stream"
  proof (rule pn_record_num_values_left_restores [OF _ _ _ example_record_stream_inv])
    show "abbrev_encodes ([example_record_abbrev] ! unat ((4 :: u32) - 4)) [5, 98, 99] bits" using e(1) by simp
  qed (use e(2) in \<open>simp_all add: example_record_abbrev_def\<close>)
  then show ?thesis by auto
qed

text \<open>
  C31: an unabbreviated record is read back: its code, then exactly its values, and exactly its bits
  are consumed.
\<close>

theorem pn_record_unabbrev_roundtrip:
  assumes "bs_inv bs" and "length vs < 2 ^ 32"
    and "bs_rest bs = vbr_encode 6 (unat code) @ vbr_encode 6 (length vs) @ unabbrev_bits vs @ ys"
  shows "\<exists>r1 r2. pn_record_read_code (pn_record_reader_init bs abbrevs PN_ENTRY_UNABBREV_RECORD) = Inr (Some code, r1)
    \<and> record_drain r1 = Some (Inr (vs, r2)) \<and> bs_inv (rd_bs r2) \<and> bs_rest (rd_bs r2) = ys"
proof -
  let ?r = "pn_record_reader_init bs abbrevs 3"
  have r: "rd_entry ?r = 3" "rd_bs ?r = bs" "value_index ?r = 0" by (simp_all add: pn_record_reader_init_def)
  from record_read_code_unabbrev [of ?r code "length vs" "unabbrev_bits vs @ ys"] r assms obtain bs' where
    c: "pn_record_read_code ?r = Inr (Some code, ?r\<lparr>rd_bs := bs', num_values := of_nat (length vs)\<rparr>)"
    "bs_inv bs'" "bs_rest bs' = unabbrev_bits vs @ ys" by auto
  have "unat (of_nat (length vs) :: u32) = length vs" using assms(2) by (intro unat_of_nat_small) simp
  with drain_unabbrev [of "?r\<lparr>rd_bs := bs', num_values := of_nat (length vs)\<rparr>" vs ys] r c show ?thesis by auto
qed

theorem pn_record_unabbrev_roundtrip_witness:
  "\<exists>r1 r2. pn_record_read_code (pn_record_reader_init (pn_bitstream_init [0x81, 0x70, 0x00, 0x00] 4) [] 3) = Inr (Some 1, r1)
    \<and> record_drain r1 = Some (Inr ([7, 0], r2))"
proof -
  let ?bs = "pn_bitstream_init [0x81, 0x70, 0x00, 0x00] 4"
  have inv: "bs_inv ?bs" by (rule bs_inv_init) simp_all
  have "vbr_encode 6 (unat (1 :: u32)) @ vbr_encode 6 (length [7 :: u32, 0]) @ unabbrev_bits [7, 0] = take 24 (bs_rest ?bs)"
    by code_simp
  then have "bs_rest ?bs = vbr_encode 6 (unat (1 :: u32)) @ vbr_encode 6 (length [7 :: u32, 0])
      @ unabbrev_bits [7, 0] @ drop 24 (bs_rest ?bs)"
    by (metis append.assoc append_take_drop_id)
  from pn_record_unabbrev_roundtrip [OF inv _ this, of "[]"] show ?thesis by auto
qed

text \<open>
  Blobs are not read back: of a blob whose length field is 1 the reader returns two values,
  because it compares the index before it counts the byte.
\<close>

theorem pn_record_blob_reads_one_more:
  "\<exists>r. record_drain (pn_record_reader_init (pn_bitstream_init [1, 0, 0, 0, 7, 9, 0, 0] 8) [[OpBlob]] 4)
     = Some (Inr ([7, 9], r))"
proof -
  have "(case record_drain (pn_record_reader_init (pn_bitstream_init [1, 0, 0, 0, 7, 9, 0, 0] 8) [[OpBlob]] 4) of
      Some (Inr (vs, r)) \<Rightarrow> vs = [7, 9] | _ \<Rightarrow> False)" by code_simp
  then show ?thesis by (auto split: option.splits sum.splits)
qed

end
