(* ===== verification/Pn_Read.thy ===== *)
theory Pn_Read
  imports Pn_Record Pn_Opcodes Pn_Analyses
begin

text \<open>
  The readers of the bitcode blocks, \<^verbatim>\<open>src/pn_read.h\<close>. A result is \<open>None\<close> when a loop does not end, an
  error value when the process stops, and otherwise the new state with the bit stream behind what was
  read. The arrays that grow with \<open>pn_allocator_realloc_add\<close> are lists; the fatal error of that
  function when an array is not the last allocation is not modelled, so a file that is read here may
  be one on which the program stops. Members that are left indeterminate are zero: the \<open>index\<close> of a
  local value, the bytes of a constant that its type does not have, and the \<open>instructions\<close> pointer of
  a function that is only declared, which the source never sets. The callbacks of the read context,
  by which the tracing observes the reader, are left out.
\<close>

unbundle bit_operations_syntax

section \<open>Blocks and records\<close>

abbreviation (input) PN_BLOCKID_BLOCKINFO :: nat where "PN_BLOCKID_BLOCKINFO \<equiv> 0"
abbreviation (input) PN_BLOCKID_MODULE :: nat where "PN_BLOCKID_MODULE \<equiv> 8"
abbreviation (input) PN_BLOCKID_CONSTANTS :: nat where "PN_BLOCKID_CONSTANTS \<equiv> 11"
abbreviation (input) PN_BLOCKID_FUNCTION :: nat where "PN_BLOCKID_FUNCTION \<equiv> 12"
abbreviation (input) PN_BLOCKID_VALUE_SYMTAB :: nat where "PN_BLOCKID_VALUE_SYMTAB \<equiv> 14"
abbreviation (input) PN_BLOCKID_TYPE :: nat where "PN_BLOCKID_TYPE \<equiv> 17"
abbreviation (input) PN_BLOCKID_GLOBALVAR :: nat where "PN_BLOCKID_GLOBALVAR \<equiv> 19"

text \<open>Every block begins with the width of its entry codes and its length, which is ignored.\<close>

definition block_enter :: "PNBitStream \<Rightarrow> (nat \<times> PNBitStream) res" where
  "block_enter bs =
     rbind (pn_bitstream_read_vbr bs 4) (\<lambda>(codelen, bs).
     rbind (ensure (codelen \<le> 32) (Check ''codelen <= 32'')) (\<lambda>_.
     rbind (pn_bitstream_align_32 bs) (\<lambda>bs.
     rbind (pn_bitstream_read bs 32) (\<lambda>(_, bs). Inr (unat codelen, bs)))))"

text \<open>
  The loop that all blocks have: entries until the end of the block, for which \<open>finish\<close> stands; the
  other entries are \<open>step\<close>'s.
\<close>

partial_function (option) block_loop :: "('s \<Rightarrow> PNBitStream \<Rightarrow> ('s \<times> PNBitStream) run) \<Rightarrow>
    (u32 \<Rightarrow> 's \<Rightarrow> PNBitStream \<Rightarrow> ('s \<times> PNBitStream) run) \<Rightarrow> nat \<Rightarrow> 's \<Rightarrow> PNBitStream \<Rightarrow> ('s \<times> PNBitStream) run" where
  "block_loop finish step codelen st bs =
     (if pn_bitstream_at_end bs then Some (Inl (Fatal ''Unexpected end of stream.''))
      else obind (Some (pn_bitstream_read bs codelen)) (\<lambda>(entry, bs).
        if entry = PN_ENTRY_END_BLOCK then finish st bs
        else obind (step entry st bs) (\<lambda>(st, bs). block_loop finish step codelen st bs)))"

declare block_loop.simps [code]

definition read_block :: "('s \<Rightarrow> PNBitStream \<Rightarrow> ('s \<times> PNBitStream) run) \<Rightarrow>
    (u32 \<Rightarrow> 's \<Rightarrow> PNBitStream \<Rightarrow> ('s \<times> PNBitStream) run) \<Rightarrow> 's \<Rightarrow> PNBitStream \<Rightarrow> ('s \<times> PNBitStream) run" where
  "read_block finish step st bs =
     obind (Some (block_enter bs)) (\<lambda>(codelen, bs). block_loop finish step codelen st bs)"

text \<open>A record: its code, what \<open>handler\<close> reads of it, and the values that are left.\<close>

definition with_code :: "PNAbbrevs \<Rightarrow> u32 \<Rightarrow> PNBitStream \<Rightarrow> (u32 \<Rightarrow> PNRecordReader \<Rightarrow> 'a run) \<Rightarrow> 'a run" where
  "with_code abbrevs entry bs k =
     obind (Some (pn_record_read_code (pn_record_reader_init bs abbrevs entry))) (\<lambda>(code, reader).
     case code of None \<Rightarrow> Some (Inl (Undefined ''code is not set'')) | Some code \<Rightarrow> k code reader)"

definition finish_record :: "'s \<times> PNRecordReader \<Rightarrow> ('s \<times> PNBitStream) run" where
  "finish_record p = (case p of (st, reader) \<Rightarrow>
     obind (pn_record_reader_finish reader) (\<lambda>reader. Some (Inr (st, rd_bs reader))))"

definition read_record :: "PNAbbrevs \<Rightarrow> u32 \<Rightarrow> PNBitStream \<Rightarrow>
    (u32 \<Rightarrow> PNRecordReader \<Rightarrow> ('s \<times> PNRecordReader) run) \<Rightarrow> ('s \<times> PNBitStream) run" where
  "read_record abbrevs entry bs handler =
     with_code abbrevs entry bs (\<lambda>code reader. obind (handler code reader) finish_record)"

text \<open>An end of a block that only aligns the stream.\<close>

definition finish_aligned :: "'s \<Rightarrow> PNBitStream \<Rightarrow> ('s \<times> PNBitStream) run" where
  "finish_aligned st bs = Some (rbind (pn_bitstream_align_32 bs) (\<lambda>bs. Inr (st, bs)))"

text \<open>Conversion of a 32-bit number to the 16-bit ids, and a value id relative to the next one.\<close>

definition id16 :: "u32 \<Rightarrow> nat" where
  "id16 v = unat (ucast v :: u16)"

definition relative :: "bool \<Rightarrow> nat \<Rightarrow> u32 \<Rightarrow> PNValueId" where
  "relative rel rel_id v = unat (if rel then of_nat rel_id - v else v)"

text \<open>\<open>(1 << n) >> 1\<close> as a \<open>PNAlignment\<close>: a shift of 31 or more is undefined.\<close>

definition alignment_of :: "u32 \<Rightarrow> PNAlignment res" where
  "alignment_of n = (if n < 31 then Inr (2 ^ unat n div 2 mod 2 ^ 16) else Inl (Undefined ''shift out of range''))"

section \<open>Block info\<close>

type_synonym blockinfo_state = "PNBlockInfoContext \<times> PNAbbrevs \<times> nat"

definition blockinfo_step :: "u32 \<Rightarrow> blockinfo_state \<Rightarrow> PNBitStream \<Rightarrow> (blockinfo_state \<times> PNBitStream) run" where
  "blockinfo_step entry st bs = (case st of (context, abbrevs, block_id) \<Rightarrow>
     if entry = PN_ENTRY_SUBBLOCK then Some (Inl (Fatal ''unexpected subblock in blockinfo_block''))
     else if entry = PN_ENTRY_DEFINE_ABBREV then
       Some (rbind (pn_abbrev_read bs abbrevs) (\<lambda>(abbrev, abbrevs, bs).
         rbind (pn_block_info_context_append_abbrev context block_id abbrev) (\<lambda>(_, context).
         Inr ((context, abbrevs, block_id), bs))))
     else read_record abbrevs entry bs (\<lambda>code reader.
       if code = 1 then Some (rbind (pn_record_read_int32 reader ''block id'') (\<lambda>(v, reader).
         Inr ((context, abbrevs, unat v), reader)))
       else if code = 2 \<or> code = 3 then Some (Inr ((context, abbrevs, block_id), reader))
       else Some (Inl (Fatal ''bad record code''))))"

definition pn_blockinfo_block_read :: "PNBlockInfoContext \<Rightarrow> PNBitStream \<Rightarrow> (PNBlockInfoContext \<times> PNBitStream) run" where
  "pn_blockinfo_block_read context bs =
     obind (read_block finish_aligned blockinfo_step (context, [], 4294967295) bs) (\<lambda>((context, _), bs).
     Some (Inr (context, bs)))"

section \<open>Types\<close>

definition unset_type :: PNType where
  "unset_type = \<lparr>type_code = PN_TYPE_CODE_UNSET, basic_type = PN_BASIC_TYPE_VOID, type_width = 0, is_varargs = False,
     return_type = 0, arg_types = []\<rparr>"

definition integer_basic_type :: "u32 \<Rightarrow> PNBasicType res" where
  "integer_basic_type width =
     (if width = 1 then Inr PN_BASIC_TYPE_INT1 else if width = 8 then Inr PN_BASIC_TYPE_INT8
      else if width = 16 then Inr PN_BASIC_TYPE_INT16 else if width = 32 then Inr PN_BASIC_TYPE_INT32
      else if width = 64 then Inr PN_BASIC_TYPE_INT64 else Inl (Fatal ''Bad integer width''))"

fun read_arg_types :: "PNModule \<Rightarrow> nat \<Rightarrow> PNRecordReader \<Rightarrow> (PNTypeId list \<times> PNRecordReader) res" where
  "read_arg_types module 0 reader = Inr ([], reader)"
| "read_arg_types module (Suc n) reader =
     rbind (pn_record_read_uint16 reader ''arg type'') (\<lambda>(v, reader).
     rbind (pn_type_id_check module (unat v)) (\<lambda>_.
     rbind (read_arg_types module n reader) (\<lambda>(vs, reader). Inr (unat v # vs, reader))))"

definition read_type :: "PNModule \<Rightarrow> u32 \<Rightarrow> PNRecordReader \<Rightarrow> (PNType \<times> PNRecordReader) run" where
  "read_type module code reader =
     (if code = 2 then Some (Inr (unset_type\<lparr>type_code := PN_TYPE_CODE_VOID\<rparr>, reader))
      else if code = 3 then
        Some (Inr (unset_type\<lparr>type_code := PN_TYPE_CODE_FLOAT, basic_type := PN_BASIC_TYPE_FLOAT\<rparr>, reader))
      else if code = 4 then
        Some (Inr (unset_type\<lparr>type_code := PN_TYPE_CODE_DOUBLE, basic_type := PN_BASIC_TYPE_DOUBLE\<rparr>, reader))
      else if code = 7 then
        Some (rbind (pn_record_read_int32 reader ''width'') (\<lambda>(width, reader).
          rbind (integer_basic_type width) (\<lambda>bt.
          Inr (unset_type\<lparr>type_code := PN_TYPE_CODE_INTEGER, basic_type := bt, type_width := width\<rparr>, reader))))
      else if code = 21 then
        obind (Some (pn_record_read_int32 reader ''is_varargs'')) (\<lambda>(varargs, reader).
        obind (Some (pn_record_read_int32 reader ''return_type'')) (\<lambda>(return_type, reader).
        obind (Some (pn_type_id_check module (id16 return_type))) (\<lambda>_.
        obind (pn_record_num_values_left reader) (\<lambda>(num_args, reader).
        Some (rbind (read_arg_types module num_args reader) (\<lambda>(args, reader).
          Inr (unset_type\<lparr>type_code := PN_TYPE_CODE_FUNCTION, basic_type := PN_BASIC_TYPE_INT32,
                 is_varargs := (ucast varargs :: u8) \<noteq> 0, return_type := id16 return_type, arg_types := args\<rparr>, reader)))))))
      else Some (Inl (Fatal ''bad record code'')))"

type_synonym type_state = "PNModule \<times> PNAbbrevs \<times> PNTypeId"

definition type_record :: "type_state \<Rightarrow> u32 \<Rightarrow> PNRecordReader \<Rightarrow> (type_state \<times> PNRecordReader) run" where
  "type_record st code reader = (case st of (module, abbrevs, current_type_id) \<Rightarrow>
     if code = 1 then
       Some (rbind (pn_record_read_uint32 reader ''num types'') (\<lambda>(n, reader).
         Inr ((module\<lparr>types := replicate (unat n) unset_type\<rparr>, abbrevs, current_type_id), reader)))
     else if code \<in> {2, 3, 4, 7, 21} then
       obind (Some (ensure (current_type_id < length (types module)) (Check ''current_type_id < module->num_types''))) (\<lambda>_.
       obind (read_type module code reader) (\<lambda>(type, reader).
       Some (Inr ((module\<lparr>types := (types module)[current_type_id := type]\<rparr>, abbrevs, (current_type_id + 1) mod 2 ^ 16), reader))))
     else Some (Inl (Fatal ''bad record code'')))"

definition type_step :: "u32 \<Rightarrow> type_state \<Rightarrow> PNBitStream \<Rightarrow> (type_state \<times> PNBitStream) run" where
  "type_step entry st bs = (case st of (module, abbrevs, current_type_id) \<Rightarrow>
     if entry = PN_ENTRY_SUBBLOCK then Some (Inl (Fatal ''unexpected subblock in type_block''))
     else if entry = PN_ENTRY_DEFINE_ABBREV then
       Some (rbind (pn_abbrev_read bs abbrevs) (\<lambda>(_, abbrevs, bs). Inr ((module, abbrevs, current_type_id), bs)))
     else read_record abbrevs entry bs (type_record st))"

definition type_finish :: "type_state \<Rightarrow> PNBitStream \<Rightarrow> (type_state \<times> PNBitStream) run" where
  "type_finish st bs = (case st of (module, abbrevs, current_type_id) \<Rightarrow>
     obind (Some (ensure (current_type_id = length (types module)) (Check ''current_type_id == module->num_types''))) (\<lambda>_.
     finish_aligned st bs))"

definition pn_type_block_read :: "PNModule \<Rightarrow> PNBlockInfoContext \<Rightarrow> PNBitStream \<Rightarrow> (PNModule \<times> PNBitStream) run" where
  "pn_type_block_read module context bs =
     obind (Some (pn_block_info_context_copy_abbrevs_for_block_id context PN_BLOCKID_TYPE [])) (\<lambda>abbrevs.
     obind (read_block type_finish type_step (module, abbrevs, 0) bs) (\<lambda>((module, _), bs).
     Some (Inr (module, bs))))"

section \<open>Global variables\<close>

definition pn_globalvar_write_reloc :: "PNModule \<Rightarrow> PNValueId \<Rightarrow> u32 \<Rightarrow> u32 \<Rightarrow> PNModule res" where
  "pn_globalvar_write_reloc module value_id offset addend =
     rbind (nth_res (module_values module) value_id) (\<lambda>v.
     rbind (case value_code v of
              PN_VALUE_CODE_GLOBAL_VAR \<Rightarrow>
                rbind (nth_res (global_vars module) (value_idx v)) (\<lambda>var. Inr (globalvar_offset var + addend))
            | PN_VALUE_CODE_FUNCTION \<Rightarrow>
                rbind (ensure (addend = 0) (Check ''addend == 0'')) (\<lambda>_.
                Inr (pn_function_id_to_pointer (of_nat (value_idx v))))
            | _ \<Rightarrow> Inl (Fatal ''Unexpected globalvar reloc'')) (\<lambda>reloc_value.
     rbind (pn_memory_write_u32 (module_memory module) offset reloc_value) (\<lambda>m.
     Inr (module\<lparr>module_memory := m\<rparr>))))"

record PNRelocInfo =
  reloc_offset :: u32
  reloc_index :: u32
  reloc_addend :: u32

text \<open>
  \<open>gv_open\<close> says whether there is a current variable; it is then the last one. The array of variables
  is allocated by the count record; a second count would lose the variables read so far.
\<close>

record globalvar_state =
  gv_module :: PNModule
  gv_abbrevs :: PNAbbrevs
  gv_open :: bool
  num_global_vars :: u32
  initializer_id :: u32
  data_offset :: u32
  reloc_infos :: "PNRelocInfo list"

definition read_global_var :: "globalvar_state \<Rightarrow> PNRecordReader \<Rightarrow> (globalvar_state \<times> PNRecordReader) res" where
  "read_global_var st reader =
     (let module = gv_module st; global_var_id = length (global_vars module) in
      rbind (ensure (global_var_id < unat (num_global_vars st)) (Check ''global_var_id < num_global_vars'')) (\<lambda>_.
      rbind (pn_record_read_int32 reader ''alignment'') (\<lambda>(n, reader).
      rbind (alignment_of n) (\<lambda>alignment.
      rbind (pn_record_read_int32 reader ''is_constant'') (\<lambda>(c, reader).
      rbind (ensure (pn_is_power_of_two (of_nat alignment)) (Check ''pn_is_power_of_two(global_var->alignment)'')) (\<lambda>_.
      rbind (pn_align_up (ucast (data_offset st)) (of_nat alignment)) (\<lambda>offset.
      rbind (pn_module_find_pointer_type module) (\<lambda>type_id.
      let var = \<lparr>num_initializers = 1, globalvar_alignment = alignment, globalvar_offset = ucast offset, is_constant = (c \<noteq> 0)\<rparr>;
          (module, _) = pn_module_append_value (module\<lparr>global_vars := global_vars module @ [var]\<rparr>)
             \<lparr>value_code = PN_VALUE_CODE_GLOBAL_VAR, value_idx = global_var_id, value_type_id = type_id\<rparr> in
      Inr (st\<lparr>gv_module := module, gv_open := True, initializer_id := 0, data_offset := ucast offset\<rparr>, reader)))))))))"

text \<open>The check before every initializer, which counts it.\<close>

definition next_initializer :: "globalvar_state \<Rightarrow> globalvar_state res" where
  "next_initializer st =
     rbind (ensure (gv_open st \<and> global_vars (gv_module st) \<noteq> []) (Check ''global_var'')) (\<lambda>_.
     rbind (ensure (initializer_id st < num_initializers (last (global_vars (gv_module st))))
              (Check ''initializer_id < global_var->num_initializers'')) (\<lambda>_.
     Inr (st\<lparr>initializer_id := initializer_id st + 1\<rparr>)))"

text \<open>The loop over the bytes of a data record.\<close>

partial_function (option) read_data :: "PNMemory \<Rightarrow> u32 \<Rightarrow> PNRecordReader \<Rightarrow> (PNMemory \<times> u32 \<times> PNRecordReader) run" where
  "read_data memory off reader =
     obind (Some (pn_record_try_read_uint32 reader)) (\<lambda>(v, reader).
     case v of None \<Rightarrow> Some (Inr (memory, off, reader))
     | Some v \<Rightarrow>
         if v \<ge> 256 then Some (Inl (Fatal ''globalvar data out of range''))
         else if off + 1 > mem_size memory then Some (Inl (Fatal ''memory-size is too small''))
         else obind (Some (host_store memory (unat off) [ucast v])) (\<lambda>memory.
           read_data memory (off + 1) reader))"

declare read_data.simps [code]

definition read_reloc :: "globalvar_state \<Rightarrow> PNRecordReader \<Rightarrow> (globalvar_state \<times> PNRecordReader) res" where
  "read_reloc st reader =
     rbind (next_initializer st) (\<lambda>st.
     rbind (pn_record_read_uint32 reader ''reloc index'') (\<lambda>(index, reader).
     rbind (pn_record_try_read_int32 reader) (\<lambda>(addend, reader).
     let addend = (case addend of None \<Rightarrow> 0 | Some a \<Rightarrow> a) in
     rbind (if unat index < length (module_values (gv_module st))
            then rbind (pn_globalvar_write_reloc (gv_module st) (unat index) (data_offset st) addend) (\<lambda>module.
              Inr (st\<lparr>gv_module := module\<rparr>))
            else Inr (st\<lparr>reloc_infos := reloc_infos st @
              [\<lparr>reloc_offset = data_offset st, reloc_index = index, reloc_addend = addend\<rparr>]\<rparr>)) (\<lambda>st.
     Inr (st\<lparr>data_offset := data_offset st + 4\<rparr>, reader)))))"

definition globalvar_record :: "globalvar_state \<Rightarrow> u32 \<Rightarrow> PNRecordReader \<Rightarrow> (globalvar_state \<times> PNRecordReader) run" where
  "globalvar_record st code reader =
     (let module = gv_module st in
      if code = 0 then Some (read_global_var st reader)
      else if code = 1 then
        Some (rbind (ensure (gv_open st \<and> global_vars module \<noteq> []) (Check ''global_var'')) (\<lambda>_.
          rbind (pn_record_read_int32 reader ''num_initializers'') (\<lambda>(n, reader).
          let var = (last (global_vars module))\<lparr>num_initializers := n\<rparr> in
          Inr (st\<lparr>gv_module := module\<lparr>global_vars := butlast (global_vars module) @ [var]\<rparr>\<rparr>, reader))))
      else if code = 2 then
        Some (rbind (next_initializer st) (\<lambda>st.
          rbind (pn_record_read_uint32 reader ''num_bytes'') (\<lambda>(num_bytes, reader).
          rbind (pn_memory_zerofill (module_memory module) (data_offset st) num_bytes) (\<lambda>m.
          Inr (st\<lparr>gv_module := module\<lparr>module_memory := m\<rparr>, data_offset := data_offset st + num_bytes\<rparr>, reader)))))
      else if code = 3 then
        obind (Some (next_initializer st)) (\<lambda>st.
        obind (read_data (module_memory module) (data_offset st) reader) (\<lambda>(m, offset, reader).
        Some (Inr (st\<lparr>gv_module := module\<lparr>module_memory := m\<rparr>, data_offset := offset\<rparr>, reader))))
      else if code = 4 then Some (read_reloc st reader)
      else if code = 5 then
        Some (rbind (pn_record_read_uint32 reader ''global var count'') (\<lambda>(n, reader).
          rbind (ensure (global_vars module = []) (Undefined ''global variables lost'')) (\<lambda>_.
          Inr (st\<lparr>num_global_vars := n\<rparr>, reader))))
      else Some (Inl (Fatal ''bad record code'')))"

definition globalvar_step :: "u32 \<Rightarrow> globalvar_state \<Rightarrow> PNBitStream \<Rightarrow> (globalvar_state \<times> PNBitStream) run" where
  "globalvar_step entry st bs =
     (if entry = PN_ENTRY_SUBBLOCK then Some (Inl (Fatal ''unexpected subblock in globalvar_block''))
      else if entry = PN_ENTRY_DEFINE_ABBREV then
        Some (rbind (pn_abbrev_read bs (gv_abbrevs st)) (\<lambda>(_, abbrevs, bs). Inr (st\<lparr>gv_abbrevs := abbrevs\<rparr>, bs)))
      else read_record (gv_abbrevs st) entry bs (globalvar_record st))"

fun write_relocs :: "PNModule \<Rightarrow> PNRelocInfo list \<Rightarrow> PNModule res" where
  "write_relocs module [] = Inr module"
| "write_relocs module (r # rs) =
     rbind (ensure (unat (reloc_index r) < length (module_values module)) (Check ''reloc_infos[i].index < module->num_values'')) (\<lambda>_.
     rbind (pn_globalvar_write_reloc module (unat (reloc_index r)) (reloc_offset r) (reloc_addend r)) (\<lambda>module.
     write_relocs module rs))"

definition globalvar_finish :: "globalvar_state \<Rightarrow> PNBitStream \<Rightarrow> (globalvar_state \<times> PNBitStream) run" where
  "globalvar_finish st bs =
     Some (rbind (pn_bitstream_align_32 bs) (\<lambda>bs.
       rbind (write_relocs (gv_module st) (reloc_infos st)) (\<lambda>module.
       Inr (st\<lparr>gv_module := module\<lparr>module_memory := (module_memory module)\<lparr>globalvar_end := data_offset st\<rparr>\<rparr>\<rparr>, bs))))"

definition pn_globalvar_block_read :: "PNModule \<Rightarrow> PNBlockInfoContext \<Rightarrow> PNBitStream \<Rightarrow> (PNModule \<times> PNBitStream) run" where
  "pn_globalvar_block_read module context bs =
     obind (Some (pn_block_info_context_copy_abbrevs_for_block_id context PN_BLOCKID_GLOBALVAR [])) (\<lambda>abbrevs.
     obind (read_block globalvar_finish globalvar_step
       \<lparr>gv_module = module\<lparr>module_memory := (module_memory module)\<lparr>globalvar_start := PN_MEMORY_GUARD_SIZE\<rparr>\<rparr>,
        gv_abbrevs = abbrevs, gv_open = False, num_global_vars = 0, initializer_id = 0,
        data_offset = PN_MEMORY_GUARD_SIZE, reloc_infos = []\<rparr> bs) (\<lambda>(st, bs).
     Some (Inr (gv_module st, bs))))"

section \<open>Names\<close>

definition intrinsic_names :: "(string \<times> PNIntrinsicId) list" where
  "intrinsic_names =
    [(''llvm.bswap.i16'', LLVM_BSWAP_I16), (''llvm.bswap.i32'', LLVM_BSWAP_I32), (''llvm.bswap.i64'', LLVM_BSWAP_I64),
     (''llvm.ctlz.i32'', LLVM_CTLZ_I32), (''llvm.ctlz.i64'', LLVM_CTLZ_I64),
     (''llvm.cttz.i32'', LLVM_CTTZ_I32), (''llvm.cttz.i64'', LLVM_CTTZ_I64),
     (''llvm.fabs.f32'', LLVM_FABS_F32), (''llvm.fabs.f64'', LLVM_FABS_F64),
     (''llvm.memcpy.p0i8.p0i8.i32'', LLVM_MEMCPY), (''llvm.memmove.p0i8.p0i8.i32'', LLVM_MEMMOVE),
     (''llvm.memset.p0i8.i32'', LLVM_MEMSET),
     (''llvm.nacl.atomic.cmpxchg.i8'', LLVM_NACL_ATOMIC_CMPXCHG I8), (''llvm.nacl.atomic.cmpxchg.i16'', LLVM_NACL_ATOMIC_CMPXCHG I16),
     (''llvm.nacl.atomic.cmpxchg.i32'', LLVM_NACL_ATOMIC_CMPXCHG I32), (''llvm.nacl.atomic.cmpxchg.i64'', LLVM_NACL_ATOMIC_CMPXCHG I64),
     (''llvm.nacl.atomic.fence.all'', LLVM_NACL_ATOMIC_FENCE_ALL),
     (''llvm.nacl.atomic.load.i8'', LLVM_NACL_ATOMIC_LOAD I8), (''llvm.nacl.atomic.load.i16'', LLVM_NACL_ATOMIC_LOAD I16),
     (''llvm.nacl.atomic.load.i32'', LLVM_NACL_ATOMIC_LOAD I32), (''llvm.nacl.atomic.load.i64'', LLVM_NACL_ATOMIC_LOAD I64),
     (''llvm.nacl.atomic.rmw.i8'', LLVM_NACL_ATOMIC_RMW I8), (''llvm.nacl.atomic.rmw.i16'', LLVM_NACL_ATOMIC_RMW I16),
     (''llvm.nacl.atomic.rmw.i32'', LLVM_NACL_ATOMIC_RMW I32), (''llvm.nacl.atomic.rmw.i64'', LLVM_NACL_ATOMIC_RMW I64),
     (''llvm.nacl.atomic.store.i8'', LLVM_NACL_ATOMIC_STORE I8), (''llvm.nacl.atomic.store.i16'', LLVM_NACL_ATOMIC_STORE I16),
     (''llvm.nacl.atomic.store.i32'', LLVM_NACL_ATOMIC_STORE I32), (''llvm.nacl.atomic.store.i64'', LLVM_NACL_ATOMIC_STORE I64),
     (''llvm.nacl.longjmp'', LLVM_NACL_LONGJMP), (''llvm.nacl.read.tp'', LLVM_NACL_READ_TP),
     (''llvm.nacl.setjmp'', LLVM_NACL_SETJMP), (''llvm.sqrt.f32'', LLVM_SQRT_F32), (''llvm.sqrt.f64'', LLVM_SQRT_F64),
     (''llvm.stackrestore'', LLVM_STACKRESTORE), (''llvm.stacksave'', LLVM_STACKSAVE), (''llvm.trap'', LLVM_TRAP),
     (''_start'', PN_INTRINSIC_START)]"

text \<open>The characters of a name; as a C string it ends at the first zero.\<close>

fun read_name :: "nat \<Rightarrow> PNRecordReader \<Rightarrow> (string \<times> PNRecordReader) res" where
  "read_name 0 reader = Inr ([], reader)"
| "read_name (Suc n) reader =
     rbind (pn_record_read_int32 reader ''name char'') (\<lambda>(v, reader).
     rbind (read_name n reader) (\<lambda>(s, reader). Inr (char_of (unat (ucast v :: u8)) # s, reader)))"

definition c_name :: "string \<Rightarrow> string" where
  "c_name s = takeWhile (\<lambda>c. c \<noteq> CHR 0x00) s"

text \<open>Naming a function; a name without characters is a null pointer, which is compared all the same.\<close>

definition name_function :: "PNModule \<Rightarrow> PNFunctionId \<Rightarrow> string option \<Rightarrow> PNModule res" where
  "name_function module function_id name =
     rbind (nth_res (module_functions module) function_id) (\<lambda>f.
     case name of None \<Rightarrow> Inl (Undefined ''strcmp of a null pointer'')
     | Some s \<Rightarrow>
       (case map_of intrinsic_names s of
          None \<Rightarrow> Inr (module\<lparr>module_functions := (module_functions module)[function_id := f\<lparr>function_name := Some s\<rparr>]\<rparr>)
        | Some i \<Rightarrow> Inr (module
            \<lparr>module_functions := (module_functions module)[function_id := f\<lparr>function_name := Some s, intrinsic_id := i\<rparr>],
             known_functions := (known_functions module)(i := function_id)\<rparr>)))"

definition symtab_record :: "PNModule \<Rightarrow> u32 \<Rightarrow> PNRecordReader \<Rightarrow> (PNModule \<times> PNRecordReader) run" where
  "symtab_record module code reader =
     (if code = 1 then
        obind (Some (pn_record_read_int32 reader ''value_id'')) (\<lambda>(value_id, reader).
        obind (Some (pn_module_value_id_check module (unat value_id))) (\<lambda>_.
        obind (pn_record_num_values_left reader) (\<lambda>(len, reader).
        obind (Some (read_name len reader)) (\<lambda>(name, reader).
        let name = (if len = 0 then None else Some (c_name name)); v = module_values module ! unat value_id in
        if value_code v = PN_VALUE_CODE_FUNCTION then
          Some (rbind (name_function module (value_idx v) name) (\<lambda>module. Inr (module, reader)))
        else Some (Inr (module, reader))))))
      else if code = 2 then Some (Inr (module, reader))
      else Some (Inl (Fatal ''bad record code'')))"

definition symtab_step :: "u32 \<Rightarrow> PNModule \<times> PNAbbrevs \<Rightarrow> PNBitStream \<Rightarrow> ((PNModule \<times> PNAbbrevs) \<times> PNBitStream) run" where
  "symtab_step entry st bs = (case st of (module, abbrevs) \<Rightarrow>
     if entry = PN_ENTRY_SUBBLOCK then Some (Inl (Fatal ''unexpected subblock in valuesymtab_block''))
     else if entry = PN_ENTRY_DEFINE_ABBREV then
       Some (rbind (pn_abbrev_read bs abbrevs) (\<lambda>(_, abbrevs, bs). Inr ((module, abbrevs), bs)))
     else read_record abbrevs entry bs (\<lambda>code reader.
       obind (symtab_record module code reader) (\<lambda>(module, reader). Some (Inr ((module, abbrevs), reader)))))"

definition pn_value_symtab_block_read :: "PNModule \<Rightarrow> PNBlockInfoContext \<Rightarrow> PNBitStream \<Rightarrow> (PNModule \<times> PNBitStream) run" where
  "pn_value_symtab_block_read module context bs =
     obind (Some (pn_block_info_context_copy_abbrevs_for_block_id context PN_BLOCKID_VALUE_SYMTAB [])) (\<lambda>abbrevs.
     obind (read_block finish_aligned symtab_step (module, abbrevs) bs) (\<lambda>((module, _), bs).
     Some (Inr (module, bs))))"

section \<open>Constants\<close>

definition update_function :: "PNModule \<Rightarrow> PNFunctionId \<Rightarrow> PNFunction \<Rightarrow> PNModule" where
  "update_function module function_id f = module\<lparr>module_functions := (module_functions module)[function_id := f]\<rparr>"

definition append_constant :: "PNModule \<Rightarrow> PNFunction \<Rightarrow> PNConstantCode \<Rightarrow> PNTypeId \<Rightarrow> PNBasicType \<Rightarrow> PNRuntimeValue \<Rightarrow> PNFunction" where
  "append_constant module f code type_id bt v =
     (let (f, constant_id) = pn_function_append_constant f
            \<lparr>constant_code = code, constant_type_id = type_id, constant_basic_type = bt, constant_value = v\<rparr>;
          (f, _) = pn_function_append_value module f
            \<lparr>value_code = PN_VALUE_CODE_CONSTANT, value_idx = constant_id, value_type_id = type_id\<rparr>
      in f)"

definition read_integer_constant :: "PNBasicType \<Rightarrow> PNRecordReader \<Rightarrow> (PNRuntimeValue \<times> PNRecordReader) res" where
  "read_integer_constant bt reader =
     (if bt \<in> {PN_BASIC_TYPE_INT1, PN_BASIC_TYPE_INT8, PN_BASIC_TYPE_INT16, PN_BASIC_TYPE_INT32} then
        rbind (pn_record_read_decoded_int32 reader ''integer value'') (\<lambda>(data, reader).
        Inr (take_bit (case bt of PN_BASIC_TYPE_INT1 \<Rightarrow> 1 | PN_BASIC_TYPE_INT8 \<Rightarrow> 8 | PN_BASIC_TYPE_INT16 \<Rightarrow> 16 | _ \<Rightarrow> 32)
               (ucast data), reader))
      else if bt = PN_BASIC_TYPE_INT64 then pn_record_read_decoded_int64 reader ''integer64 value''
      else Inl (Fatal ''unreachable''))"

definition read_float_constant :: "PNBasicType \<Rightarrow> PNRecordReader \<Rightarrow> (PNRuntimeValue \<times> PNRecordReader) res" where
  "read_float_constant bt reader =
     (if bt = PN_BASIC_TYPE_FLOAT then
        rbind (pn_record_read_float reader ''float value'') (\<lambda>(data, reader). Inr (ucast data, reader))
      else if bt = PN_BASIC_TYPE_DOUBLE then pn_record_read_double reader ''double value''
      else Inl (Fatal ''unreachable''))"

type_synonym constants_state = "PNFunction \<times> PNAbbrevs \<times> PNTypeId \<times> PNBasicType"

definition constants_record :: "PNModule \<Rightarrow> constants_state \<Rightarrow> u32 \<Rightarrow> PNRecordReader \<Rightarrow> (constants_state \<times> PNRecordReader) res" where
  "constants_record module st code reader = (case st of (f, abbrevs, cur_type_id, cur_basic_type) \<Rightarrow>
     if code = 1 then
       rbind (pn_record_read_int32 reader ''current type'') (\<lambda>(v, reader).
       rbind (pn_type_id_check module (id16 v)) (\<lambda>_.
       Inr ((f, abbrevs, id16 v, basic_type (types module ! id16 v)), reader)))
     else if code = 3 then
       Inr ((append_constant module f PN_CONSTANTS_CODE_UNDEF cur_type_id cur_basic_type 0, abbrevs, cur_type_id, cur_basic_type), reader)
     else if code = 4 then
       rbind (read_integer_constant cur_basic_type reader) (\<lambda>(v, reader).
       Inr ((append_constant module f PN_CONSTANTS_CODE_INTEGER cur_type_id cur_basic_type v, abbrevs, cur_type_id, cur_basic_type), reader))
     else if code = 6 then
       rbind (read_float_constant cur_basic_type reader) (\<lambda>(v, reader).
       Inr ((append_constant module f PN_CONSTANTS_CODE_FLOAT cur_type_id cur_basic_type v, abbrevs, cur_type_id, cur_basic_type), reader))
     else Inl (Fatal ''bad record code''))"

definition constants_step :: "PNModule \<Rightarrow> u32 \<Rightarrow> constants_state \<Rightarrow> PNBitStream \<Rightarrow> (constants_state \<times> PNBitStream) run" where
  "constants_step module entry st bs = (case st of (f, abbrevs, cur_type_id, cur_basic_type) \<Rightarrow>
     if entry = PN_ENTRY_SUBBLOCK then Some (Inl (Fatal ''unexpected subblock in constants_block''))
     else if entry = PN_ENTRY_DEFINE_ABBREV then
       Some (rbind (pn_abbrev_read bs abbrevs) (\<lambda>(_, abbrevs, bs). Inr ((f, abbrevs, cur_type_id, cur_basic_type), bs)))
     else read_record abbrevs entry bs (\<lambda>code reader. Some (constants_record module st code reader)))"

definition pn_constants_block_read :: "PNModule \<Rightarrow> PNFunction \<Rightarrow> PNBlockInfoContext \<Rightarrow> PNBitStream \<Rightarrow> (PNFunction \<times> PNBitStream) run" where
  "pn_constants_block_read module f context bs =
     obind (Some (pn_block_info_context_copy_abbrevs_for_block_id context PN_BLOCKID_CONSTANTS [])) (\<lambda>abbrevs.
     obind (read_block finish_aligned (constants_step module) (f, abbrevs, PN_INVALID_TYPE_ID, PN_BASIC_TYPE_VOID) bs)
       (\<lambda>((f, _), bs). Some (Inr (f, bs))))"

section \<open>Instructions\<close>

text \<open>
  What is read of an instruction record: the instruction, the type of its result if it has one, and
  whether it ends the basic block. \<open>rel_id\<close> is the id of the next value, which is the result's.
\<close>

type_synonym parsed = "PNInstruction \<times> PNTypeId option \<times> bool"

definition read_binop :: "bool \<Rightarrow> nat \<Rightarrow> PNRecordReader \<Rightarrow> (parsed \<times> PNRecordReader) res" where
  "read_binop rel rel_id reader =
     rbind (pn_record_read_uint32 reader ''value 0'') (\<lambda>(v0, reader).
     rbind (pn_record_read_uint32 reader ''value 1'') (\<lambda>(v1, reader).
     rbind (pn_record_read_int32 reader ''opcode'') (\<lambda>(opcode, reader).
     rbind (pn_record_try_read_int32 reader) (\<lambda>(flags, reader).
     Inr ((InstBinop rel_id (relative rel rel_id v0) (relative rel rel_id v1) (unat opcode)
             (case flags of None \<Rightarrow> 0 | Some flags \<Rightarrow> flags), Some PN_INVALID_TYPE_ID, False), reader)))))"

definition read_cast :: "PNModule \<Rightarrow> bool \<Rightarrow> nat \<Rightarrow> PNRecordReader \<Rightarrow> (parsed \<times> PNRecordReader) res" where
  "read_cast module rel rel_id reader =
     rbind (pn_record_read_uint32 reader ''value'') (\<lambda>(v, reader).
     rbind (pn_record_read_uint32 reader ''type_id'') (\<lambda>(type_id, reader).
     rbind (pn_record_read_int32 reader ''opcode'') (\<lambda>(opcode, reader).
     rbind (pn_type_id_check module (id16 type_id)) (\<lambda>_.
     Inr ((InstCast rel_id (relative rel rel_id v) (unat opcode) (id16 type_id), Some (id16 type_id), False), reader)))))"

definition read_ret :: "bool \<Rightarrow> nat \<Rightarrow> PNRecordReader \<Rightarrow> (parsed \<times> PNRecordReader) res" where
  "read_ret rel rel_id reader =
     rbind (pn_record_try_read_uint32 reader) (\<lambda>(v, reader).
     Inr ((InstRet (case v of None \<Rightarrow> PN_INVALID_VALUE_ID | Some v \<Rightarrow> relative rel rel_id v), None, True), reader))"

definition read_br :: "bool \<Rightarrow> nat \<Rightarrow> PNRecordReader \<Rightarrow> (parsed \<times> PNRecordReader) res" where
  "read_br rel rel_id reader =
     rbind (pn_record_read_uint32 reader ''true_bb'') (\<lambda>(true_bb, reader).
     rbind (pn_record_try_read_uint16 reader) (\<lambda>(false_bb, reader).
     case false_bb of
       None \<Rightarrow> Inr ((InstBr (id16 true_bb) PN_INVALID_BB_ID PN_INVALID_VALUE_ID, None, True), reader)
     | Some false_bb \<Rightarrow>
         rbind (pn_record_read_uint32 reader ''value'') (\<lambda>(v, reader).
         Inr ((InstBr (id16 true_bb) (unat false_bb) (relative rel rel_id v), None, True), reader))))"

text \<open>The values of one case of a switch: single ones and ranges.\<close>

fun read_case_values :: "nat \<Rightarrow> PNRecordReader \<Rightarrow> (u64 list \<times> PNRecordReader) res" where
  "read_case_values 0 reader = Inr ([], reader)"
| "read_case_values (Suc n) reader =
     rbind (pn_record_read_int32 reader ''is_single'') (\<lambda>(is_single, reader).
     rbind (pn_record_read_decoded_int64 reader ''low'') (\<lambda>(low, reader).
     rbind (if (ucast is_single :: u8) \<noteq> 0 then Inr (low, reader)
            else rbind (pn_record_read_decoded_int64 reader ''high'') (\<lambda>(high, reader).
              rbind (ensure (sint low \<le> sint high) (Check ''low <= high'')) (\<lambda>_. Inr (high, reader)))) (\<lambda>(high, reader).
     rbind (ensure (sint high - sint low + 1 < 2 ^ 63) (Undefined ''signed overflow'')) (\<lambda>_.
     rbind (read_case_values n reader) (\<lambda>(vs, reader).
     Inr (map (\<lambda>k. low + of_nat k) [0..<nat (sint high - sint low + 1)] @ vs, reader))))))"

fun read_cases :: "nat \<Rightarrow> PNRecordReader \<Rightarrow> ((u64 \<times> PNBasicBlockId) list \<times> PNRecordReader) res" where
  "read_cases 0 reader = Inr ([], reader)"
| "read_cases (Suc n) reader =
     rbind (pn_record_read_int32 reader ''num values'') (\<lambda>(num_values, reader).
     rbind (read_case_values (nat (sint num_values)) reader) (\<lambda>(vs, reader).
     rbind (pn_record_read_int32 reader ''bb'') (\<lambda>(bb_id, reader).
     rbind (read_cases n reader) (\<lambda>(cs, reader).
     Inr (map (\<lambda>v. (v, id16 bb_id)) vs @ cs, reader)))))"

text \<open>The number of values is counted in 32 bits.\<close>

definition read_switch :: "PNModule \<Rightarrow> bool \<Rightarrow> nat \<Rightarrow> PNRecordReader \<Rightarrow> (parsed \<times> PNRecordReader) res" where
  "read_switch module rel rel_id reader =
     rbind (pn_record_read_uint32 reader ''type_id'') (\<lambda>(type_id, reader).
     rbind (pn_record_read_uint32 reader ''value'') (\<lambda>(v, reader).
     rbind (pn_record_read_uint32 reader ''default bb'') (\<lambda>(default_bb, reader).
     rbind (pn_type_id_check module (id16 type_id)) (\<lambda>_.
     rbind (pn_record_read_int32 reader ''num cases'') (\<lambda>(num_cases, reader).
     rbind (read_cases (nat (sint num_cases)) reader) (\<lambda>(cases, reader).
     rbind (ensure (length cases < 2 ^ 31) (Undefined ''too many cases'')) (\<lambda>_.
     Inr ((InstSwitch (relative rel rel_id v) (id16 default_bb) cases (id16 type_id), None, True), reader))))))))"

text \<open>The incoming values of a phi; with \<open>g_pn_dedupe_phi_nodes\<close>, a block that is there already is not added again.\<close>

definition add_incoming :: "bool \<Rightarrow> PNBasicBlockId \<Rightarrow> PNValueId \<Rightarrow> (PNBasicBlockId \<times> PNValueId) list \<Rightarrow>
    (PNBasicBlockId \<times> PNValueId) list res" where
  "add_incoming dedupe bb v incoming =
     (case (if dedupe then map_of incoming bb else None) of
        None \<Rightarrow> Inr (incoming @ [(bb, v)])
      | Some w \<Rightarrow> if w = v then Inr incoming else Inl (Fatal ''phi duplicated with matching bb but different values''))"

partial_function (option) read_incoming :: "bool \<Rightarrow> bool \<Rightarrow> nat \<Rightarrow> (PNBasicBlockId \<times> PNValueId) list \<Rightarrow> PNRecordReader \<Rightarrow>
    ((PNBasicBlockId \<times> PNValueId) list \<times> PNRecordReader) run" where
  "read_incoming dedupe rel value_id incoming reader =
     obind (Some (pn_record_try_read_uint32 reader)) (\<lambda>(v, reader).
     case v of None \<Rightarrow> Some (Inr (incoming, reader))
     | Some v \<Rightarrow>
         obind (Some (pn_record_try_read_uint16 reader)) (\<lambda>(bb, reader).
         case bb of None \<Rightarrow> Some (Inl (Fatal ''unable to read phi bb index''))
         | Some bb \<Rightarrow>
             obind (Some (add_incoming dedupe (unat bb)
               (relative rel value_id (if rel then pn_decode_sign_rotated_value v else v)) incoming)) (\<lambda>incoming.
             read_incoming dedupe rel value_id incoming reader)))"

declare read_incoming.simps [code]

definition read_phi :: "bool \<Rightarrow> PNModule \<Rightarrow> bool \<Rightarrow> nat \<Rightarrow> PNRecordReader \<Rightarrow> (parsed \<times> PNRecordReader) run" where
  "read_phi dedupe module rel rel_id reader =
     obind (Some (pn_record_read_int32 reader ''type_id'')) (\<lambda>(type_id, reader).
     obind (Some (pn_type_id_check module (id16 type_id))) (\<lambda>_.
     obind (read_incoming dedupe rel rel_id [] reader) (\<lambda>(incoming, reader).
     Some (Inr ((InstPhi rel_id incoming (id16 type_id), Some (id16 type_id), False), reader)))))"

definition check_alignment :: "PNAlignment \<Rightarrow> unit res" where
  "check_alignment alignment = ensure (pn_is_power_of_two (of_nat alignment)) (Check ''pn_is_power_of_two(inst->alignment)'')"

definition read_alloca :: "PNModule \<Rightarrow> bool \<Rightarrow> nat \<Rightarrow> PNRecordReader \<Rightarrow> (parsed \<times> PNRecordReader) res" where
  "read_alloca module rel rel_id reader =
     rbind (pn_module_find_pointer_type module) (\<lambda>type_id.
     rbind (pn_record_read_uint32 reader ''size'') (\<lambda>(sz, reader).
     rbind (pn_record_read_int32 reader ''alignment'') (\<lambda>(n, reader).
     rbind (alignment_of n) (\<lambda>alignment.
     rbind (check_alignment alignment) (\<lambda>_.
     Inr ((InstAlloca rel_id (relative rel rel_id sz) alignment, Some type_id, False), reader))))))"

text \<open>The type of a load is not checked.\<close>

definition read_load :: "bool \<Rightarrow> nat \<Rightarrow> PNRecordReader \<Rightarrow> (parsed \<times> PNRecordReader) res" where
  "read_load rel rel_id reader =
     rbind (pn_record_read_uint32 reader ''src'') (\<lambda>(src, reader).
     rbind (pn_record_read_int32 reader ''alignment'') (\<lambda>(n, reader).
     rbind (alignment_of n) (\<lambda>alignment.
     rbind (pn_record_read_int32 reader ''type_id'') (\<lambda>(type_id, reader).
     rbind (check_alignment alignment) (\<lambda>_.
     Inr ((InstLoad rel_id (relative rel rel_id src) alignment (id16 type_id), Some (id16 type_id), False), reader))))))"

definition read_store :: "bool \<Rightarrow> nat \<Rightarrow> PNRecordReader \<Rightarrow> (parsed \<times> PNRecordReader) res" where
  "read_store rel rel_id reader =
     rbind (pn_record_read_uint32 reader ''dest'') (\<lambda>(dest, reader).
     rbind (pn_record_read_uint32 reader ''value'') (\<lambda>(v, reader).
     rbind (pn_record_read_int32 reader ''alignment'') (\<lambda>(n, reader).
     rbind (alignment_of n) (\<lambda>alignment.
     rbind (check_alignment alignment) (\<lambda>_.
     Inr ((InstStore (relative rel rel_id dest) (relative rel rel_id v) alignment, None, False), reader))))))"

definition read_cmp2 :: "PNModule \<Rightarrow> bool \<Rightarrow> nat \<Rightarrow> PNRecordReader \<Rightarrow> (parsed \<times> PNRecordReader) res" where
  "read_cmp2 module rel rel_id reader =
     rbind (pn_module_find_integer_type module 1) (\<lambda>type_id.
     rbind (pn_record_read_uint32 reader ''value 0'') (\<lambda>(v0, reader).
     rbind (pn_record_read_uint32 reader ''value 1'') (\<lambda>(v1, reader).
     rbind (pn_record_read_int32 reader ''opcode'') (\<lambda>(opcode, reader).
     Inr ((InstCmp2 rel_id (relative rel rel_id v0) (relative rel rel_id v1) (unat opcode), Some type_id, False), reader)))))"

definition read_vselect :: "bool \<Rightarrow> nat \<Rightarrow> PNRecordReader \<Rightarrow> (parsed \<times> PNRecordReader) res" where
  "read_vselect rel rel_id reader =
     rbind (pn_record_read_uint32 reader ''true_value'') (\<lambda>(t, reader).
     rbind (pn_record_read_uint32 reader ''false_value'') (\<lambda>(e, reader).
     rbind (pn_record_read_uint32 reader ''cond'') (\<lambda>(c, reader).
     Inr ((InstVselect rel_id (relative rel rel_id c) (relative rel rel_id t) (relative rel rel_id e),
           Some PN_INVALID_TYPE_ID, False), reader))))"

definition read_forwardtyperef :: "PNModule \<Rightarrow> PNRecordReader \<Rightarrow> (parsed \<times> PNRecordReader) res" where
  "read_forwardtyperef module reader =
     rbind (pn_record_read_int32 reader ''value'') (\<lambda>(v, reader).
     rbind (pn_record_read_int32 reader ''type'') (\<lambda>(type_id, reader).
     rbind (pn_type_id_check module (id16 type_id)) (\<lambda>_.
     Inr ((InstForwardtyperef (unat v) (id16 type_id), None, False), reader))))"

end
