(* ===== verification/Pn_Module_Read.thy ===== *)
theory Pn_Module_Read
  imports Pn_Read
begin

text \<open>
  The readers of the function and module blocks and of a whole file, \<^verbatim>\<open>src/pn_read.h\<close>: the dispatch
  of the instruction records, the construction of the basic blocks, the passes at the end of a
  function block, the module's records and subblocks, the header of the file. The analyses that the
  default build leaves out (predecessors, loops, liveness) are left out.
\<close>

section \<open>Calls and the dispatch of instruction records\<close>

fun read_args :: "bool \<Rightarrow> nat \<Rightarrow> nat \<Rightarrow> PNRecordReader \<Rightarrow> (PNValueId list \<times> PNRecordReader) res" where
  "read_args rel value_id 0 reader = Inr ([], reader)"
| "read_args rel value_id (Suc n) reader =
     rbind (pn_record_read_int32 reader ''arg'') (\<lambda>(arg, reader).
     rbind (read_args rel value_id n reader) (\<lambda>(args, reader). Inr (relative rel value_id arg # args, reader)))"

text \<open>The return type of a direct call is that of the called function's type.\<close>

definition direct_return_type :: "PNModule \<Rightarrow> PNValueId \<Rightarrow> PNTypeId res" where
  "direct_return_type module callee_id =
     rbind (pn_module_value_id_check module callee_id) (\<lambda>_.
     let v = module_values module ! callee_id in
     rbind (ensure (value_code v = PN_VALUE_CODE_FUNCTION) (Assertion ''function_value->code == PN_VALUE_CODE_FUNCTION'')) (\<lambda>_.
     rbind (nth_res (module_functions module) (value_idx v)) (\<lambda>called_function.
     rbind (nth_res (types module) (function_type_id called_function)) (\<lambda>function_type.
     rbind (ensure (type_code function_type = PN_TYPE_CODE_FUNCTION) (Assertion ''function_type->code == PN_TYPE_CODE_FUNCTION'')) (\<lambda>_.
     Inr (return_type function_type))))))"

definition read_return_type :: "PNModule \<Rightarrow> bool \<Rightarrow> PNValueId \<Rightarrow> PNRecordReader \<Rightarrow> (PNTypeId \<times> PNRecordReader) res" where
  "read_return_type module indirect callee_id reader =
     (if indirect then
        rbind (pn_record_read_int32 reader ''return_type'') (\<lambda>(v, reader).
        rbind (pn_type_id_check module (id16 v)) (\<lambda>_. Inr (id16 v, reader)))
      else rbind (direct_return_type module callee_id) (\<lambda>type_id. Inr (type_id, reader)))"

definition read_call :: "PNModule \<Rightarrow> bool \<Rightarrow> bool \<Rightarrow> nat \<Rightarrow> PNRecordReader \<Rightarrow> (parsed \<times> PNRecordReader) run" where
  "read_call module indirect rel rel_id reader =
     obind (Some (pn_record_read_int32 reader ''cc_info'')) (\<lambda>(cc_info, reader).
     obind (Some (pn_record_read_uint32 reader ''callee'')) (\<lambda>(callee, reader).
     let callee_id = relative rel rel_id callee in
     obind (Some (read_return_type module indirect callee_id reader)) (\<lambda>(return_type_id, reader).
     obind (Some (nth_res (types module) return_type_id)) (\<lambda>return_type.
     let is_void = (type_code return_type = PN_TYPE_CODE_VOID) in
     obind (pn_record_num_values_left reader) (\<lambda>(num_args, reader).
     Some (rbind (read_args rel rel_id num_args reader) (\<lambda>(args, reader).
     Inr ((InstCall (if is_void then PN_INVALID_VALUE_ID else rel_id) (unat (signed_drop_bit 1 cc_info)) callee_id args
             return_type_id indirect (cc_info AND 1 \<noteq> 0),
           if is_void then None else Some return_type_id, False), reader))))))))"

abbreviation (input) PN_FUNCTION_CODE_DECLAREBLOCKS :: u32 where "PN_FUNCTION_CODE_DECLAREBLOCKS \<equiv> 1"
abbreviation (input) PN_FUNCTION_CODE_INST_BINOP :: u32 where "PN_FUNCTION_CODE_INST_BINOP \<equiv> 2"
abbreviation (input) PN_FUNCTION_CODE_INST_CAST :: u32 where "PN_FUNCTION_CODE_INST_CAST \<equiv> 3"
abbreviation (input) PN_FUNCTION_CODE_INST_RET :: u32 where "PN_FUNCTION_CODE_INST_RET \<equiv> 10"
abbreviation (input) PN_FUNCTION_CODE_INST_BR :: u32 where "PN_FUNCTION_CODE_INST_BR \<equiv> 11"
abbreviation (input) PN_FUNCTION_CODE_INST_SWITCH :: u32 where "PN_FUNCTION_CODE_INST_SWITCH \<equiv> 12"
abbreviation (input) PN_FUNCTION_CODE_INST_UNREACHABLE :: u32 where "PN_FUNCTION_CODE_INST_UNREACHABLE \<equiv> 15"
abbreviation (input) PN_FUNCTION_CODE_INST_PHI :: u32 where "PN_FUNCTION_CODE_INST_PHI \<equiv> 16"
abbreviation (input) PN_FUNCTION_CODE_INST_ALLOCA :: u32 where "PN_FUNCTION_CODE_INST_ALLOCA \<equiv> 19"
abbreviation (input) PN_FUNCTION_CODE_INST_LOAD :: u32 where "PN_FUNCTION_CODE_INST_LOAD \<equiv> 20"
abbreviation (input) PN_FUNCTION_CODE_INST_STORE :: u32 where "PN_FUNCTION_CODE_INST_STORE \<equiv> 24"
abbreviation (input) PN_FUNCTION_CODE_INST_CMP2 :: u32 where "PN_FUNCTION_CODE_INST_CMP2 \<equiv> 28"
abbreviation (input) PN_FUNCTION_CODE_INST_VSELECT :: u32 where "PN_FUNCTION_CODE_INST_VSELECT \<equiv> 29"
abbreviation (input) PN_FUNCTION_CODE_INST_CALL :: u32 where "PN_FUNCTION_CODE_INST_CALL \<equiv> 34"
abbreviation (input) PN_FUNCTION_CODE_INST_FORWARDTYPEREF :: u32 where "PN_FUNCTION_CODE_INST_FORWARDTYPEREF \<equiv> 43"
abbreviation (input) PN_FUNCTION_CODE_INST_CALL_INDIRECT :: u32 where "PN_FUNCTION_CODE_INST_CALL_INDIRECT \<equiv> 44"

definition read_instruction :: "bool \<Rightarrow> PNModule \<Rightarrow> bool \<Rightarrow> nat \<Rightarrow> u32 \<Rightarrow> PNRecordReader \<Rightarrow> (parsed \<times> PNRecordReader) run" where
  "read_instruction dedupe module rel rel_id code reader =
     (if code = PN_FUNCTION_CODE_INST_BINOP then Some (read_binop rel rel_id reader)
      else if code = PN_FUNCTION_CODE_INST_CAST then Some (read_cast module rel rel_id reader)
      else if code = PN_FUNCTION_CODE_INST_RET then Some (read_ret rel rel_id reader)
      else if code = PN_FUNCTION_CODE_INST_BR then Some (read_br rel rel_id reader)
      else if code = PN_FUNCTION_CODE_INST_SWITCH then Some (read_switch module rel rel_id reader)
      else if code = PN_FUNCTION_CODE_INST_UNREACHABLE then Some (Inr ((InstUnreachable, None, True), reader))
      else if code = PN_FUNCTION_CODE_INST_PHI then read_phi dedupe module rel rel_id reader
      else if code = PN_FUNCTION_CODE_INST_ALLOCA then Some (read_alloca module rel rel_id reader)
      else if code = PN_FUNCTION_CODE_INST_LOAD then Some (read_load rel rel_id reader)
      else if code = PN_FUNCTION_CODE_INST_STORE then Some (read_store rel rel_id reader)
      else if code = PN_FUNCTION_CODE_INST_CMP2 then Some (read_cmp2 module rel rel_id reader)
      else if code = PN_FUNCTION_CODE_INST_VSELECT then Some (read_vselect rel rel_id reader)
      else if code = PN_FUNCTION_CODE_INST_FORWARDTYPEREF then Some (read_forwardtyperef module reader)
      else if code = PN_FUNCTION_CODE_INST_CALL then read_call module False rel rel_id reader
      else if code = PN_FUNCTION_CODE_INST_CALL_INDIRECT then read_call module True rel rel_id reader
      else Some (Inl (Fatal ''bad record code'')))"

section \<open>The function block\<close>

text \<open>
  The local variables of the loop. \<open>cur_bb\<close> is the position of the current block in the function's
  array; a block of an array that a second declaration has replaced is \<open>None\<close>, what is appended to it
  is lost. The ids have 16 bits.
\<close>

record function_state =
  fn_module :: PNModule
  fn_abbrevs :: PNAbbrevs
  fn_num_bbs :: u32
  prev_bb_id :: PNBasicBlockId
  cur_bb_id :: PNBasicBlockId
  cur_bb :: "nat option"

definition empty_bb :: PNBasicBlock where
  "empty_bb = \<lparr>instructions = [], phi_uses = [], phi_assigns = [], fast_phi_assign = False, succ_bb_ids = [],
     pred_bb_ids = [], bb_uses = [], first_def_id = 0, last_def_id = 0\<rparr>"

definition pn_basic_block_append_instruction :: "PNInstruction \<Rightarrow> PNBasicBlock \<Rightarrow> PNBasicBlock" where
  "pn_basic_block_append_instruction i bb = bb\<lparr>instructions := instructions bb @ [i]\<rparr>"

definition the_function :: "PNFunctionId \<Rightarrow> function_state \<Rightarrow> PNFunction" where
  "the_function function_id st = module_functions (fn_module st) ! function_id"

definition put_function :: "PNFunctionId \<Rightarrow> PNFunction \<Rightarrow> function_state \<Rightarrow> function_state" where
  "put_function function_id f st = st\<lparr>fn_module := update_function (fn_module st) function_id f\<rparr>"

definition declare_blocks :: "PNFunctionId \<Rightarrow> u32 \<Rightarrow> function_state \<Rightarrow> function_state" where
  "declare_blocks function_id n st =
     (put_function function_id ((the_function function_id st)\<lparr>bbs := replicate (unat n) empty_bb\<rparr>) st)\<lparr>cur_bb := None\<rparr>"

text \<open>The first instruction behind a terminator begins the next block.\<close>

definition enter_block :: "PNFunctionId \<Rightarrow> function_state \<Rightarrow> function_state res" where
  "enter_block function_id st =
     (if prev_bb_id st \<noteq> cur_bb_id st then
        rbind (ensure (cur_bb_id st < length (bbs (the_function function_id st))) (Check ''cur_bb_id < function->num_bbs'')) (\<lambda>_.
        Inr (st\<lparr>prev_bb_id := cur_bb_id st, cur_bb := Some (cur_bb_id st), fn_num_bbs := fn_num_bbs st + 1\<rparr>))
      else Inr st)"

definition append_result :: "PNModule \<Rightarrow> PNTypeId option \<Rightarrow> PNFunction \<Rightarrow> PNFunction" where
  "append_result module result f =
     (case result of None \<Rightarrow> f
      | Some type_id \<Rightarrow> fst (pn_function_append_value module f
          \<lparr>value_code = PN_VALUE_CODE_LOCAL_VAR, value_idx = 0, value_type_id = type_id\<rparr>))"

definition append_to_bb :: "nat option \<Rightarrow> PNInstruction \<Rightarrow> PNFunction \<Rightarrow> PNFunction" where
  "append_to_bb bb i f =
     (case bb of None \<Rightarrow> f
      | Some b \<Rightarrow> f\<lparr>bbs := (bbs f)[b := pn_basic_block_append_instruction i (bbs f ! b)]\<rparr>)"

definition add_instruction :: "PNFunctionId \<Rightarrow> parsed \<Rightarrow> function_state \<Rightarrow> function_state" where
  "add_instruction function_id p st = (case p of (i, result, is_terminator) \<Rightarrow>
     let f = append_to_bb (cur_bb st) i (append_result (fn_module st) result (the_function function_id st));
         f = f\<lparr>num_instructions := num_instructions f + 1\<rparr>
     in (put_function function_id f st)\<lparr>cur_bb_id := (if is_terminator then (cur_bb_id st + 1) mod 2 ^ 16 else cur_bb_id st)\<rparr>)"

text \<open>The record of a declaration is left unfinished: the rest of it is read as the next entries.\<close>

definition function_record :: "bool \<Rightarrow> bool \<Rightarrow> PNFunctionId \<Rightarrow> function_state \<Rightarrow> u32 \<Rightarrow> PNRecordReader \<Rightarrow>
    (function_state \<times> PNBitStream) run" where
  "function_record dedupe rel function_id st code reader =
     (if code = PN_FUNCTION_CODE_DECLAREBLOCKS then
        Some (rbind (pn_record_read_uint32 reader ''num basic blocks'') (\<lambda>(n, reader).
          Inr (declare_blocks function_id n st, rd_bs reader)))
      else obind (Some (enter_block function_id st)) (\<lambda>st.
        obind (read_instruction dedupe (fn_module st) rel
          (pn_function_num_values (fn_module st) (the_function function_id st)) code reader) (\<lambda>(p, reader).
        finish_record (add_instruction function_id p st, reader))))"

definition function_subblock :: "PNBlockInfoContext \<Rightarrow> PNFunctionId \<Rightarrow> function_state \<Rightarrow> PNBitStream \<Rightarrow>
    (function_state \<times> PNBitStream) run" where
  "function_subblock context function_id st bs =
     obind (Some (pn_bitstream_read_vbr bs 8)) (\<lambda>(id, bs).
     if unat id = PN_BLOCKID_CONSTANTS then
       obind (pn_constants_block_read (fn_module st) (the_function function_id st) context bs) (\<lambda>(f, bs).
       Some (Inr (put_function function_id f st, bs)))
     else if unat id = PN_BLOCKID_VALUE_SYMTAB then
       obind (pn_value_symtab_block_read (fn_module st) context bs) (\<lambda>(module, bs).
       Some (Inr (st\<lparr>fn_module := module\<rparr>, bs)))
     else Some (Inl (Fatal ''bad block id'')))"

definition function_step :: "bool \<Rightarrow> PNBlockInfoContext \<Rightarrow> PNFunctionId \<Rightarrow> u32 \<Rightarrow> function_state \<Rightarrow> PNBitStream \<Rightarrow>
    (function_state \<times> PNBitStream) run" where
  "function_step dedupe context function_id entry st bs =
     (if entry = PN_ENTRY_SUBBLOCK then function_subblock context function_id st bs
      else if entry = PN_ENTRY_DEFINE_ABBREV then
        Some (rbind (pn_abbrev_read bs (fn_abbrevs st)) (\<lambda>(_, abbrevs, bs). Inr (st\<lparr>fn_abbrevs := abbrevs\<rparr>, bs)))
      else with_code (fn_abbrevs st) entry bs (function_record dedupe (use_relative_ids context) function_id st))"

definition function_finish :: "PNFunctionId \<Rightarrow> function_state \<Rightarrow> PNBitStream \<Rightarrow> (function_state \<times> PNBitStream) run" where
  "function_finish function_id st bs = Some (
     let module = fn_module st; f = the_function function_id st in
     rbind (ensure (unat (fn_num_bbs st) = length (bbs f)) (Check ''num_bbs == function->num_bbs'')) (\<lambda>_.
     rbind (pn_function_calculate_result_value_types module f) (\<lambda>f.
     rbind (pn_function_calculate_phi_assigns (pn_function_calculate_uses f)) (\<lambda>f.
     rbind (pn_function_calculate_opcodes module f) (\<lambda>f.
     rbind (pn_bitstream_align_32 bs) (\<lambda>bs. Inr (put_function function_id f st, bs)))))))"

fun append_arg_values :: "PNModule \<Rightarrow> nat \<Rightarrow> PNTypeId list \<Rightarrow> PNFunction \<Rightarrow> PNFunction" where
  "append_arg_values module i [] f = f"
| "append_arg_values module i (t # ts) f = append_arg_values module (Suc i) ts
     (fst (pn_function_append_value module f
        \<lparr>value_code = PN_VALUE_CODE_FUNCTION_ARG, value_idx = i, value_type_id = t\<rparr>))"

definition function_start :: "PNModule \<Rightarrow> PNFunctionId \<Rightarrow> PNAbbrevs \<Rightarrow> function_state res" where
  "function_start module function_id abbrevs =
     rbind (nth_res (module_functions module) function_id) (\<lambda>f.
     rbind (nth_res (types module) (function_type_id f)) (\<lambda>type.
     rbind (ensure (type_code type = PN_TYPE_CODE_FUNCTION) (Assertion ''type->code == PN_TYPE_CODE_FUNCTION'')) (\<lambda>_.
     rbind (ensure (length (arg_types type) = num_args f) (Assertion ''type->num_args == function->num_args'')) (\<lambda>_.
     Inr \<lparr>fn_module = update_function module function_id (append_arg_values module 0 (arg_types type) f),
          fn_abbrevs = abbrevs, fn_num_bbs = 0, prev_bb_id = 65535, cur_bb_id = 0, cur_bb = None\<rparr>))))"

text \<open>The opening of the block comes before the preparation of the values; both only fail.\<close>

definition pn_function_block_read :: "bool \<Rightarrow> PNModule \<Rightarrow> PNBlockInfoContext \<Rightarrow> PNBitStream \<Rightarrow> PNFunctionId \<Rightarrow>
    (PNModule \<times> PNBitStream) run" where
  "pn_function_block_read dedupe module context bs function_id =
     obind (Some (block_enter bs)) (\<lambda>(codelen, bs).
     obind (Some (pn_block_info_context_copy_abbrevs_for_block_id context PN_BLOCKID_FUNCTION [])) (\<lambda>abbrevs.
     obind (Some (function_start module function_id abbrevs)) (\<lambda>st.
     obind (block_loop (function_finish function_id) (function_step dedupe context function_id) codelen st bs) (\<lambda>(st, bs).
     Some (Inr (fn_module st, bs))))))"

section \<open>The module block\<close>

text \<open>The module, the block info, the abbreviations of the block and the function that is read next.\<close>

type_synonym module_state = "PNModule \<times> PNBlockInfoContext \<times> PNAbbrevs \<times> PNFunctionId"

definition read_function_record :: "PNModule \<Rightarrow> PNRecordReader \<Rightarrow> (PNModule \<times> PNRecordReader) res" where
  "read_function_record module reader =
     (let function_id = length (module_functions module) in
      rbind (pn_record_read_int32 reader ''type_id'') (\<lambda>(type_id, reader).
      rbind (pn_type_id_check module (id16 type_id)) (\<lambda>_.
      rbind (pn_record_read_int32 reader ''calling_convention'') (\<lambda>(cc, reader).
      rbind (pn_record_read_int32 reader ''is_proto'') (\<lambda>(proto, reader).
      rbind (pn_record_read_int32 reader ''linkage'') (\<lambda>(linkage, reader).
      let type = types module ! id16 type_id in
      rbind (ensure (type_code type = PN_TYPE_CODE_FUNCTION) (Check ''function_type->code == PN_TYPE_CODE_FUNCTION'')) (\<lambda>_.
      let f = \<lparr>function_name = None, function_type_id = id16 type_id, intrinsic_id = PN_INTRINSIC_NULL,
                num_args = length (arg_types type), calling_convention = cc, is_proto = (ucast proto :: u8) \<noteq> 0,
                function_linkage = linkage, constants = [], bbs = [], function_values = [], num_instructions = 0,
                function_instructions = []\<rparr>;
          (module, _) = pn_module_append_value (module\<lparr>module_functions := module_functions module @ [f]\<rparr>)
             \<lparr>value_code = PN_VALUE_CODE_FUNCTION, value_idx = function_id, value_type_id = id16 type_id\<rparr> in
      Inr (module, reader))))))))"

definition module_record :: "module_state \<Rightarrow> u32 \<Rightarrow> PNRecordReader \<Rightarrow> (module_state \<times> PNRecordReader) run" where
  "module_record st code reader = (case st of (module, context, abbrevs, function_id) \<Rightarrow>
     if code = 1 then
       Some (rbind (pn_record_read_int32 reader ''module version'') (\<lambda>(v, reader).
         Inr ((module\<lparr>module_version := v\<rparr>, context\<lparr>use_relative_ids := (v = 1)\<rparr>, abbrevs, function_id), reader)))
     else if code = 8 then
       Some (rbind (read_function_record module reader) (\<lambda>(module, reader).
         Inr ((module, context, abbrevs, function_id), reader)))
     else Some (Inl (Fatal ''bad record code'')))"

text \<open>The function that a function block belongs to: the next one that is not a prototype.\<close>

function skip_protos :: "PNFunction list \<Rightarrow> PNFunctionId \<Rightarrow> PNFunctionId" where
  "skip_protos fs function_id =
     (if function_id < length fs \<and> is_proto (fs ! function_id) then skip_protos fs (function_id + 1) else function_id)"
  by pat_completeness auto
termination by (relation "measure (\<lambda>(fs, i). length fs - i)") auto

declare skip_protos.simps [simp del]

definition module_subblock :: "bool \<Rightarrow> module_state \<Rightarrow> PNBitStream \<Rightarrow> (module_state \<times> PNBitStream) run" where
  "module_subblock dedupe st bs = (case st of (module, context, abbrevs, function_id) \<Rightarrow>
     obind (Some (pn_bitstream_read_vbr bs 8)) (\<lambda>(id, bs).
     if unat id = PN_BLOCKID_BLOCKINFO then
       obind (pn_blockinfo_block_read context bs) (\<lambda>(context, bs).
       Some (Inr ((module, context, abbrevs, function_id), bs)))
     else if unat id = PN_BLOCKID_TYPE then
       obind (pn_type_block_read module context bs) (\<lambda>(module, bs).
       Some (Inr ((module, context, abbrevs, function_id), bs)))
     else if unat id = PN_BLOCKID_GLOBALVAR then
       obind (pn_globalvar_block_read module context bs) (\<lambda>(module, bs).
       Some (Inr ((module, context, abbrevs, function_id), bs)))
     else if unat id = PN_BLOCKID_VALUE_SYMTAB then
       obind (pn_value_symtab_block_read module context bs) (\<lambda>(module, bs).
       Some (Inr ((module, context, abbrevs, function_id), bs)))
     else if unat id = PN_BLOCKID_FUNCTION then
       let function_id = skip_protos (module_functions module) function_id in
       obind (Some (pn_function_id_check module function_id)) (\<lambda>_.
       obind (pn_function_block_read dedupe module context bs function_id) (\<lambda>(module, bs).
       Some (Inr ((module, context, abbrevs, function_id + 1), bs))))
     else Some (Inl (Fatal ''bad block id''))))"

definition module_step :: "bool \<Rightarrow> u32 \<Rightarrow> module_state \<Rightarrow> PNBitStream \<Rightarrow> (module_state \<times> PNBitStream) run" where
  "module_step dedupe entry st bs = (case st of (module, context, abbrevs, function_id) \<Rightarrow>
     if entry = PN_ENTRY_SUBBLOCK then module_subblock dedupe st bs
     else if entry = PN_ENTRY_DEFINE_ABBREV then
       Some (rbind (pn_abbrev_read bs abbrevs) (\<lambda>(_, abbrevs, bs). Inr ((module, context, abbrevs, function_id), bs)))
     else read_record abbrevs entry bs (module_record st))"

definition pn_module_block_read :: "bool \<Rightarrow> PNModule \<Rightarrow> PNBlockInfoContext \<Rightarrow> PNBitStream \<Rightarrow> (PNModule \<times> PNBitStream) run" where
  "pn_module_block_read dedupe module context bs =
     obind (read_block finish_aligned (module_step dedupe) (module, context, [], 0) bs) (\<lambda>((module, _), bs).
     Some (Inr (module, bs)))"

section \<open>The file\<close>

fun read_signature :: "u32 list \<Rightarrow> PNBitStream \<Rightarrow> PNBitStream res" where
  "read_signature [] bs = Inr bs"
| "read_signature (c # cs) bs =
     rbind (pn_bitstream_read bs 8) (\<lambda>(v, bs).
     rbind (ensure (v = c) (Fatal ''Expected PEXE'')) (\<lambda>_. read_signature cs bs))"

fun read_fields :: "nat \<Rightarrow> PNBitStream \<Rightarrow> PNBitStream res" where
  "read_fields 0 bs = Inr bs"
| "read_fields (Suc n) bs =
     rbind (pn_bitstream_read bs 4) (\<lambda>(ftype, bs).
     rbind (pn_bitstream_read bs 4) (\<lambda>(id, bs).
     rbind (ensure (id = 1) (Fatal ''bad header id'')) (\<lambda>_.
     rbind (pn_bitstream_read bs 8) (\<lambda>(_, bs).
     rbind (pn_bitstream_read bs 16) (\<lambda>(length, bs).
     rbind (if ftype = 0 then pn_bitstream_skip_bytes bs length
            else if ftype = 1 then rbind (pn_bitstream_read bs 32) (\<lambda>(_, bs). Inr bs)
            else Inl (Fatal ''bad ftype'')) (\<lambda>bs.
     read_fields n bs))))))"

definition pn_header_read :: "PNBitStream \<Rightarrow> PNBitStream res" where
  "pn_header_read bs =
     rbind (read_signature [0x50, 0x45, 0x58, 0x45] bs) (\<lambda>bs.
     rbind (pn_bitstream_read bs 16) (\<lambda>(num_fields, bs).
     rbind (pn_bitstream_read bs 16) (\<lambda>(_, bs).
     read_fields (unat num_fields) bs)))"

definition pn_module_read :: "bool \<Rightarrow> PNModule \<Rightarrow> PNBitStream \<Rightarrow> (PNModule \<times> PNBitStream) run" where
  "pn_module_read dedupe module bs =
     obind (Some (pn_header_read bs)) (\<lambda>bs.
     obind (Some (pn_bitstream_read bs 2)) (\<lambda>(entry, bs).
     obind (Some (ensure (entry = PN_ENTRY_SUBBLOCK) (Fatal ''expected subblock at top-level''))) (\<lambda>_.
     obind (Some (pn_bitstream_read_vbr bs 8)) (\<lambda>(block_id, bs).
     obind (Some (ensure (unat block_id = PN_BLOCKID_MODULE) (Check ''block_id == PN_BLOCKID_MODULE''))) (\<lambda>_.
     pn_module_block_read dedupe module \<lparr>block_abbrev_map = replicate PN_MAX_BLOCK_IDS [], use_relative_ids = False\<rparr> bs)))))"

end
