(* ===== verification/Pn_Read_Laws.thy ===== *)
theory Pn_Read_Laws
  imports Pn_Module_Read
begin

text \<open>
  What the readers of \<^verbatim>\<open>src/pn_read.h\<close> promise: on a stream over a file of whole words every read
  ends, with a value or with one of the program's errors, and never moves back behind the position
  where it began. \<open>ends\<close> is the judgement, with a rule for each operator of the results; the interface
  \<open>block_reader\<close> turns the laws of a block's steps into the law of its loop.
\<close>

section \<open>The judgement\<close>

definition ends :: "('a \<Rightarrow> bool) \<Rightarrow> 'a run \<Rightarrow> bool" where
  "ends P m = (case m of None \<Rightarrow> False | Some (Inl e) \<Rightarrow> e \<noteq> Diverges | Some (Inr x) \<Rightarrow> P x)"

lemma ends_simps [simp]: "\<not> ends P None" "ends P (Some (Inl e)) \<longleftrightarrow> e \<noteq> Diverges" "ends P (Some (Inr x)) \<longleftrightarrow> P x"
  by (simp_all add: ends_def)

lemma ends_iff: "ends P m \<longleftrightarrow> (\<exists>e. m = Some (Inl e) \<and> e \<noteq> Diverges) \<or> (\<exists>x. m = Some (Inr x) \<and> P x)"
  by (auto simp: ends_def split: option.splits sum.splits)

lemma ends_mono: "ends P m \<Longrightarrow> (\<And>x. P x \<Longrightarrow> Q x) \<Longrightarrow> ends Q m"
  by (auto simp: ends_iff)

lemma ends_obind: "ends Q m \<Longrightarrow> (\<And>x. Q x \<Longrightarrow> ends P (f x)) \<Longrightarrow> ends P (obind m f)"
  by (auto simp: ends_iff[of Q])

lemma ends_rbind: "ends Q (Some m) \<Longrightarrow> (\<And>x. Q x \<Longrightarrow> ends P (Some (f x))) \<Longrightarrow> ends P (Some (rbind m f))"
  by (auto simp: ends_iff[of Q])

lemma ends_ensure: "e \<noteq> Diverges \<Longrightarrow> ends (\<lambda>_. b) (Some (ensure b e))"
  by (cases b) simp_all

lemma ends_nth_res: "ends (\<lambda>x. i < length xs \<and> x = xs ! i) (Some (nth_res xs i))"
  by (auto simp: nth_res_def)

lemma ends_case_prod: "(\<And>a b. p = (a, b) \<Longrightarrow> ends P (f a b)) \<Longrightarrow> ends P (case p of (a, b) \<Rightarrow> f a b)"
  by (cases p) simp

lemma ends_case_prod_res:
  "(\<And>a b. p = (a, b) \<Longrightarrow> ends P (Some (f a b))) \<Longrightarrow> ends P (Some (case p of (a, b) \<Rightarrow> f a b))"
  by (cases p) simp

lemma ends_if: "(b \<Longrightarrow> ends P m) \<Longrightarrow> (\<not> b \<Longrightarrow> ends P m') \<Longrightarrow> ends P (if b then m else m')"
  by simp

lemma ends_if_res:
  "(b \<Longrightarrow> ends P (Some m)) \<Longrightarrow> (\<not> b \<Longrightarrow> ends P (Some m')) \<Longrightarrow> ends P (Some (if b then m else m'))"
  by simp

lemma ends_case_option:
  "(v = None \<Longrightarrow> ends P m) \<Longrightarrow> (\<And>x. v = Some x \<Longrightarrow> ends P (f x)) \<Longrightarrow>
   ends P (case v of None \<Rightarrow> m | Some x \<Rightarrow> f x)"
  by (cases v) simp_all

lemma ends_case_option_res:
  "(v = None \<Longrightarrow> ends P (Some m)) \<Longrightarrow> (\<And>x. v = Some x \<Longrightarrow> ends P (Some (f x))) \<Longrightarrow>
   ends P (Some (case v of None \<Rightarrow> m | Some x \<Rightarrow> f x))"
  by (cases v) simp_all

lemma ends_Inr: "P x \<Longrightarrow> ends P (Some (Inr x))" and ends_Inl: "e \<noteq> Diverges \<Longrightarrow> ends P (Some (Inl e))"
  by simp_all

lemma ends_let: "ends P (f x) \<Longrightarrow> ends P (let y = x in f y)"
  and ends_let_res: "ends P (Some (g x)) \<Longrightarrow> ends P (Some (let y = x in g y))"
  by (simp_all add: Let_def)

lemmas ends_intros = ends_case_prod ends_case_prod_res ends_if ends_if_res ends_case_option ends_case_option_res
  ends_Inr ends_Inl ends_let ends_let_res ends_ensure ends_nth_res

section \<open>The bit stream\<close>

text \<open>A stream whose invariant holds with at most \<open>n\<close> bits left.\<close>

definition bs_ok :: "nat \<Rightarrow> PNBitStream \<Rightarrow> bool" where
  "bs_ok n bs \<longleftrightarrow> bs_inv bs \<and> length (bs_rest bs) \<le> n"

lemma bs_ok_mono: "bs_ok n bs \<Longrightarrow> n \<le> m \<Longrightarrow> bs_ok m bs"
  by (simp add: bs_ok_def)

lemma ends_read_bits:
  assumes "bs_ok n bs" shows "ends (\<lambda>(v, bs'). k \<le> n \<and> bs_ok (n - k) bs' \<and> k \<le> 32) (Some (pn_bitstream_read bs k))"
proof (cases "k \<le> 32")
  case True
  with assms bsr.read_total[of bs k] show ?thesis by (auto simp: bs_ok_def)
next
  case False
  then show ?thesis by (simp add: pn_bitstream_read_def)
qed

lemma ends_read: "bs_ok n bs \<Longrightarrow> ends (\<lambda>(v, bs'). bs_ok n bs') (Some (pn_bitstream_read bs k))"
  by (rule ends_mono[OF ends_read_bits]) (auto elim: bs_ok_mono)

lemma read_vbr_out_of_range:
  assumes "\<not> (1 \<le> k \<and> k \<le> 32)"
  shows "bs_inv bs \<Longrightarrow> ends P (Some (pn_bitstream_read_vbr bs k))"
    "bs_inv bs \<Longrightarrow> ends Q (Some (pn_bitstream_read_vbr_uint64 bs k))"
proof -
  have big: "pn_bitstream_read bs k = Inl (Assertion ''num_bits <= 32'')" if "32 < k"
    using that by (simp add: pn_bitstream_read_def)
  {
    assume inv: "bs_inv bs"
    show "ends P (Some (pn_bitstream_read_vbr bs k))"
      using assms big bsr.read_total[OF inv, of 0]
      by (cases "k = 0") (auto simp: read_vbr_general read_vbr_with_def vbr_hi_mask_def)
    show "ends Q (Some (pn_bitstream_read_vbr_uint64 bs k))"
      using assms big bsr.read_total[OF inv, of 0]
      by (cases "k = 0") (auto simp: pn_bitstream_read_vbr_uint64_def read_vbr_uint64_with_def)
  }
qed

lemma ends_read_vbr_bits:
  assumes "bs_ok n bs" shows "ends (\<lambda>(v, bs'). bs_ok (n - 1) bs' \<and> 0 < n) (Some (pn_bitstream_read_vbr bs k))"
proof (cases "1 \<le> k \<and> k \<le> 32")
  case True
  with assms read_vbr_safe[of bs k] show ?thesis by (fastforce simp: bs_ok_def neq_Nil_conv)
qed (use assms read_vbr_out_of_range in \<open>simp add: bs_ok_def\<close>)

lemma ends_read_vbr_uint64_bits:
  assumes "bs_ok n bs"
  shows "ends (\<lambda>(v, bs'). bs_ok (n - 1) bs' \<and> 0 < n) (Some (pn_bitstream_read_vbr_uint64 bs k))"
proof (cases "1 \<le> k \<and> k \<le> 32")
  case True
  with assms read_vbr_uint64_safe[of bs k] show ?thesis by (fastforce simp: bs_ok_def neq_Nil_conv)
qed (use assms read_vbr_out_of_range in \<open>simp add: bs_ok_def\<close>)

lemma ends_read_vbr: "bs_ok n bs \<Longrightarrow> ends (\<lambda>(v, bs'). bs_ok n bs') (Some (pn_bitstream_read_vbr bs k))"
  by (rule ends_mono[OF ends_read_vbr_bits]) (auto elim: bs_ok_mono)

lemma ends_read_vbr_uint64: "bs_ok n bs \<Longrightarrow> ends (\<lambda>(v, bs'). bs_ok n bs') (Some (pn_bitstream_read_vbr_uint64 bs k))"
  by (rule ends_mono[OF ends_read_vbr_uint64_bits]) (auto elim: bs_ok_mono)


text \<open>Seeking: forward to the next word, back to a position of the same buffer, or anywhere.\<close>

lemma bs_inv_len: "bs_inv bs \<Longrightarrow> unat (bit_offset bs) \<le> 8 * unat (data_len bs)"
  by (simp add: bs_inv_def)

lemma ends_align:
  assumes "bs_ok n bs" shows "ends (bs_ok n) (Some (pn_bitstream_align_32 bs))"
proof -
  have inv: "bs_inv bs" and r: "length (bs_rest bs) \<le> n" using assms by (simp_all add: bs_ok_def)
  let ?o = "unat (bit_offset bs)" and ?l = "8 * unat (data_len bs)"
  let ?up = "(?o + 31) div 32 * 32"
  have l: "?o \<le> ?l" "32 dvd ?l" "?l < 2 ^ 32" using inv by (auto simp: bs_inv_def elim!: dvdE)
  then have up: "?up \<le> ?l" "?o \<le> ?up" by (auto elim!: dvdE)
  have u: "unat (ucast (bit_offset bs) :: u64) = ?o" by (simp add: unat_ucast_up)
  have "?l \<le> 2 ^ 32 - 32" using l(2,3) by (auto elim!: dvdE)
  then have "?o + 32 \<le> 2 ^ 32" using l(1) by simp
  then obtain al where al: "pn_align_up (ucast (bit_offset bs)) 32 = Inr al" "unat al = ?up"
    using pn_align_up_pow2[of 5 "ucast (bit_offset bs)"] u by (auto simp: add.commute)
  have "unat (ucast al :: u32) = ?up" using al(2) up l by (simp add: unsigned_ucast_eq take_bit_nat_eq_self_iff)
  with seek_bit_ok[OF inv, of "ucast al"] up al(1) r show ?thesis
    by (auto simp: pn_bitstream_align_32_def bs_ok_def length_bs_rest)
qed


lemma ends_seek_back:
  assumes "bs_ok n bs" "bs_ok m bs'" "same_buffer bs bs'"
  shows "ends (bs_ok n) (Some (pn_bitstream_seek_bit bs' (bit_offset bs)))"
proof -
  have "unat (bit_offset bs) \<le> 8 * unat (data_len bs')"
    using assms bs_inv_len[of bs] by (simp add: bs_ok_def same_buffer_def)
  with seek_bit_ok[of bs' "bit_offset bs"] assms show ?thesis
    by (auto simp: bs_ok_def length_bs_rest same_buffer_def)
qed

lemma ends_seek:
  assumes "bs_inv bs" shows "ends bs_inv (Some (pn_bitstream_seek_bit bs off))"
proof (cases "unat off \<le> 8 * unat (data_len bs)")
  case True
  with seek_bit_ok[OF assms True] show ?thesis by auto
next
  case False
  let ?l = "8 * unat (data_len bs)" and ?al = "unat off div 32 * 32"
  have i: "length (bs_data bs) = unat (data_len bs)" "4 dvd unat (data_len bs)" "?l < 2 ^ 32" "32 dvd ?l"
    using assms by (auto simp: bs_inv_def elim!: dvdE)
  have "unat (ucast off :: u64) = unat off" by (simp add: unat_ucast_up)
  then obtain al where al: "pn_align_down (ucast off) 32 = Inr al" "unat al = ?al"
    using pn_align_down_pow2[of 5 "ucast off"] unat_bound[of off] by auto
  have al32: "unat (ucast al :: u32) = ?al"
    using al(2) unat_bound[of off] by (simp add: unsigned_ucast_eq take_bit_nat_eq_self_iff)
  let ?b = "bs\<lparr>bit_offset := ucast al\<rparr>"
  have ge: "?l \<le> ?al" using False i(4) by (auto elim!: dvdE)
  show ?thesis
  proof (cases "?al = ?l")
    case True
    with fill_curword_ok[of ?b] i al32 obtain b where b: "pn_bitstream_fill_curword ?b = Inr b" "curword_bits b = 0"
      by auto
    have "off AND 31 = off mod 32" using take_bit_eq_mask[of 5 off] by (simp add: take_bit_eq_mod mask_eq_exp_minus_1)
    then have "unat (off AND 31) = unat off mod 32" by (simp add: unat_mod)
    moreover have "unat off mod 32 \<noteq> 0" using True False by (auto simp: minus_mod_eq_div_mult[symmetric])
    ultimately have "off AND 31 \<noteq> 0" "\<not> unat (off AND 31) \<le> 0" by auto
    with b al(1) show ?thesis
      by (simp add: pn_bitstream_seek_bit_def pn_bitstream_read_frac_bits_def ensure_def)
  next
    case F: False
    have "unat (drop_bit 3 (ucast al :: u32)) = ?al div 8" using al32 by (simp add: drop_bit_eq_div unat_div)
    moreover have "unat (data_len bs) < ?al div 8" using F ge i(4) by (auto elim!: dvdE)
    ultimately show ?thesis
      using al(1) by (simp add: pn_bitstream_seek_bit_def pn_bitstream_fill_curword_def Let_def word_le_nat_alt)
  qed
qed

section \<open>The record reader\<close>

definition wf_abbrevs :: "PNAbbrevs \<Rightarrow> bool" where
  "wf_abbrevs abbrevs = (\<forall>a\<in>set abbrevs. length a < 2 ^ 32)"

abbreviation bits_left :: "PNBitStream \<Rightarrow> nat" where
  "bits_left bs \<equiv> length (bs_rest bs)"

text \<open>The operators that are left, the bits that are left, the elements that are left of an array.\<close>

definition values_left :: "PNRecordReader \<Rightarrow> nat \<times> nat \<times> nat" where
  "values_left r = (length (rd_abbrevs r ! unat (rd_entry r - 4)) - unat (op_index r), bits_left (rd_bs r),
     unat (num_values r - value_index r - 1))"

definition fewer_left :: "PNRecordReader \<Rightarrow> PNRecordReader \<Rightarrow> bool" where
  "fewer_left r' r \<longleftrightarrow> (values_left r', values_left r) \<in> less_than <*lex*> less_than <*lex*> less_than"

definition same_record :: "PNRecordReader \<Rightarrow> PNRecordReader \<Rightarrow> bool" where
  "same_record r r' \<longleftrightarrow> bs_ok (bits_left (rd_bs r)) (rd_bs r') \<and> same_buffer (rd_bs r) (rd_bs r')
     \<and> rd_abbrevs r' = rd_abbrevs r \<and> rd_entry r' = rd_entry r"

lemma same_record_trans: "same_record a b \<Longrightarrow> same_record b c \<Longrightarrow> same_record a c"
  by (auto simp: same_record_def bs_ok_def intro: same_buffer_trans)

lemma same_record_refl: "bs_inv (rd_bs r) \<Longrightarrow> same_record r r"
  by (simp add: same_record_def bs_ok_def)

lemma ends_conseq: "ends P m \<Longrightarrow> (\<And>x. m = Some (Inr x) \<Longrightarrow> P x \<Longrightarrow> Q x) \<Longrightarrow> ends Q m"
  by (auto simp: ends_iff)

definition forward :: "PNBitStream \<Rightarrow> PNBitStream \<Rightarrow> bool" where
  "forward bs bs' \<longleftrightarrow> bs_ok (bits_left bs) bs' \<and> same_buffer bs bs'"

lemma ends_forward:
  assumes "bs_inv bs"
  shows "ends (\<lambda>(v, bs'). forward bs bs') (Some (pn_bitstream_read bs k))"
    "ends (\<lambda>(v, bs'). forward bs bs' \<and> bits_left bs' < bits_left bs) (Some (pn_bitstream_read_vbr bs k))"
    "ends (\<lambda>(v, bs'). forward bs bs') (Some (pn_bitstream_read_vbr_uint64 bs k))"
    "ends (forward bs) (Some (pn_bitstream_align_32 bs))"
proof -
  have ok: "bs_ok (bits_left bs) bs" using assms by (simp add: bs_ok_def)
  show "ends (\<lambda>(v, bs'). forward bs bs') (Some (pn_bitstream_read bs k))"
    by (rule ends_conseq[OF ends_read[OF ok]]) (auto simp: forward_def dest: read_keeps)
  show "ends (\<lambda>(v, bs'). forward bs bs' \<and> bits_left bs' < bits_left bs) (Some (pn_bitstream_read_vbr bs k))"
    by (rule ends_conseq[OF ends_read_vbr_bits[OF ok]]) (auto simp: forward_def bs_ok_def dest: read_vbr_keeps intro: le_less_trans[OF _ diff_less])
  show "ends (\<lambda>(v, bs'). forward bs bs') (Some (pn_bitstream_read_vbr_uint64 bs k))"
    by (rule ends_conseq[OF ends_read_vbr_uint64[OF ok]]) (auto simp: forward_def dest: read_vbr_uint64_keeps)
  show "ends (forward bs) (Some (pn_bitstream_align_32 bs))"
    by (rule ends_conseq[OF ends_align[OF ok]]) (auto simp: forward_def dest: align_keeps)
qed

lemma forward_inv: "forward bs bs' \<Longrightarrow> bs_inv bs'" and forward_bits: "forward bs bs' \<Longrightarrow> bits_left bs' \<le> bits_left bs"
  by (simp_all add: forward_def bs_ok_def)

lemma forward_trans: "forward a b \<Longrightarrow> forward b c \<Longrightarrow> forward a c"
  by (auto simp: forward_def bs_ok_def intro: same_buffer_trans)

lemma forward_refl: "bs_inv bs \<Longrightarrow> forward bs bs"
  by (simp add: forward_def bs_ok_def)

lemma ends_byte:
  assumes "bs_inv bs" "0 < k"
  shows "ends (\<lambda>(v, bs'). forward bs bs' \<and> bits_left bs' < bits_left bs) (Some (pn_bitstream_read bs k))"
proof -
  have ok: "bs_ok (bits_left bs) bs" using assms by (simp add: bs_ok_def)
  show ?thesis
    by (rule ends_conseq[OF ends_read_bits[OF ok, of k]]) (use assms(2) in \<open>auto simp: forward_def bs_ok_def dest: read_keeps\<close>)
qed

lemma ends_decode_char6: "ends (\<lambda>_. True) (Some (pn_decode_char6 v))"
  by (auto simp: pn_decode_char6_def nth_res_def)

lemma ends_widths:
  assumes "bs_inv bs"
  shows "ends (\<lambda>(v, bs'). forward bs bs') (Some (read_width bs w))"
    "ends (\<lambda>(v, bs'). forward bs bs') (Some (read_vbr_width bs w))"
    "ends (\<lambda>(v, bs'). forward bs bs') (Some (read_vbr_uint64_width bs w))"
    "ends (\<lambda>(v, bs'). forward bs bs') (Some (read_char6 bs))"
proof -
  show "ends (\<lambda>(v, bs'). forward bs bs') (Some (read_width bs w))"
    using ends_forward(1)[OF assms] by (simp add: read_width_def)
  show "ends (\<lambda>(v, bs'). forward bs bs') (Some (read_vbr_width bs w))"
    by (auto simp: read_vbr_width_def intro: ends_mono[OF ends_forward(2)[OF assms]])
  show "ends (\<lambda>(v, bs'). forward bs bs') (Some (read_vbr_uint64_width bs w))"
    using ends_forward(3)[OF assms] by (simp add: read_vbr_uint64_width_def)
  show "ends (\<lambda>(v, bs'). forward bs bs') (Some (read_char6 bs))"
    unfolding read_char6_def
    by (rule ends_rbind[OF ends_forward(1)[OF assms]], rule ends_case_prod_res, rule ends_rbind[OF ends_decode_char6])
      auto
qed

lemma ends_elements:
  assumes "bs_inv bs"
  shows "ends (\<lambda>(v, bs'). forward bs bs') (Some (read_element bs op))"
    "ends (\<lambda>(v, bs'). forward bs bs') (Some (read_element_uint64 bs op))"
  using ends_widths[OF assms] forward_refl[OF assms]
  by (auto simp: read_element_def read_element_uint64_def split: PNAbbrevOp.split
      intro!: ends_rbind[OF ends_widths(1)[OF assms]] ends_rbind[OF ends_widths(4)[OF assms]])

lemma same_record_bs:
  "forward (rd_bs r) bs \<Longrightarrow> same_record r (r\<lparr>rd_bs := bs, op_index := k, num_values := n, value_index := v\<rparr>)"
  by (simp add: same_record_def forward_def)

lemma unat_Suc_index: "unat (i :: u32) < n \<Longrightarrow> n < 2 ^ 32 \<Longrightarrow> unat (i + 1) = unat i + 1"
  using unat_add_small[of i 1] by simp

lemma unat_pred_less: "x \<noteq> 0 \<Longrightarrow> unat (x - 1) < unat (x :: u32)"
  by (simp add: unat_minus_one unat_gt_0)

lemma next_op_left:
  assumes "forward (rd_bs r) bs" "unat (op_index r) < length (rd_abbrevs r ! unat (rd_entry r - 4))"
    "length (rd_abbrevs r ! unat (rd_entry r - 4)) < 2 ^ 32"
  shows "same_record r (next_op r bs) \<and> fewer_left (next_op r bs) r"
proof -
  have "unat (op_index r + 1) = unat (op_index r) + 1" using assms(2,3) by (rule unat_Suc_index)
  with assms show ?thesis
    by (auto simp: next_op_def same_record_def forward_def fewer_left_def values_left_def)
qed

text \<open>An element of an array moves to the operator behind it or takes one of the elements left.\<close>

lemma next_element_left:
  assumes "forward (rd_bs r) bs" "unat (op_index r + 1) < length (rd_abbrevs r ! unat (rd_entry r - 4))"
    "unat (op_index r) < length (rd_abbrevs r ! unat (rd_entry r - 4))"
    "length (rd_abbrevs r ! unat (rd_entry r - 4)) < 2 ^ 32"
  shows "same_record r (next_element r bs) \<and> fewer_left (next_element r bs) r"
proof (cases "value_index r + 1 = num_values r")
  case True
  have 1: "unat (op_index r + 1) = unat (op_index r) + 1" using assms(3,4) by (rule unat_Suc_index)
  have "unat (op_index r + 1 + 1) = unat (op_index r + 1) + 1" using assms(2,4) by (rule unat_Suc_index)
  then have "unat (op_index r + 2) = unat (op_index r) + 2" using 1 by (simp add: add.assoc)
  with True assms show ?thesis
    by (auto simp: next_element_def same_record_def forward_def fewer_left_def values_left_def)
next
  case False
  then have "num_values r - value_index r - 1 \<noteq> 0" by (metis add.commute diff_add_cancel diff_diff_eq right_minus_eq)
  then have "unat (num_values r - value_index r - 1 - 1) < unat (num_values r - value_index r - 1)"
    by (rule unat_pred_less)
  moreover have "num_values r - (value_index r + 1) - 1 = num_values r - value_index r - 1 - 1" by simp
  ultimately show ?thesis
    using False assms by (auto simp: next_element_def same_record_def forward_def fewer_left_def values_left_def bs_ok_def)
qed

text \<open>Reading a value: the reader stays at its record and, if there was a value, has fewer left.\<close>

definition took :: "PNRecordReader \<Rightarrow> 'a option \<times> PNRecordReader \<Rightarrow> bool" where
  "took r p \<longleftrightarrow> same_record r (snd p) \<and> (fst p \<noteq> None \<longrightarrow> fewer_left (snd p) r)"

lemma took_simps [simp]: "took r (None, r') \<longleftrightarrow> same_record r r'" "took r (Some v, r') \<longleftrightarrow> same_record r r' \<and> fewer_left r' r"
  by (simp_all add: took_def)

lemma fewer_bits:
  assumes "same_record r r'" "bits_left (rd_bs r') < bits_left (rd_bs r)"
    "unat (op_index r) \<le> unat (op_index r')"
  shows "fewer_left r' r"
  using assms by (auto simp: fewer_left_def values_left_def same_record_def)

text \<open>The length in front of an array is read when its first element is.\<close>

lemma ends_array_length:
  assumes "bs_inv (rd_bs r)" "\<And>n. ends (\<lambda>_. True) (Some (chk n))"
  shows "ends (\<lambda>r'. same_record r r' \<and> op_index r' = op_index r \<and>
      (value_index r = 0 \<longrightarrow> bits_left (rd_bs r') < bits_left (rd_bs r)) \<and> (value_index r \<noteq> 0 \<longrightarrow> r' = r))
    (Some (if value_index r = 0 then
       rbind (pn_bitstream_read_vbr (rd_bs r) 6) (\<lambda>(n, bs). rbind (chk n) (\<lambda>_. Inr (r\<lparr>rd_bs := bs, num_values := n\<rparr>)))
     else Inr r))"
  using same_record_refl[OF assms(1)]
  by (auto simp: same_record_def forward_def intro!: ends_rbind[OF ends_forward(2)[OF assms(1)]] ends_rbind[OF assms(2)])

lemma ends_array:
  assumes "bs_inv (rd_bs r)" "unat (op_index r) < length (rd_abbrevs r ! unat (rd_entry r - 4))"
    "length (rd_abbrevs r ! unat (rd_entry r - 4)) < 2 ^ 32" "\<And>n. ends (\<lambda>_. True) (Some (chk n))"
    "\<And>bs op. bs_inv bs \<Longrightarrow> ends (\<lambda>(v, bs'). forward bs bs') (Some (elt bs op))"
  shows "ends (took r) (Some (rbind (if value_index r = 0 then
       rbind (pn_bitstream_read_vbr (rd_bs r) 6) (\<lambda>(n, bs). rbind (chk n) (\<lambda>_. Inr (r\<lparr>rd_bs := bs, num_values := n\<rparr>)))
     else Inr r) (\<lambda>q.
     rbind (nth_res (rd_abbrevs r ! unat (rd_entry r - 4)) (unat (op_index q + 1))) (\<lambda>elt_op.
     rbind (elt (rd_bs q) elt_op) (\<lambda>(v, bs). Inr (Some v, next_element q bs))))))"
proof (rule ends_rbind[OF ends_array_length[OF assms(1,4)]], elim conjE, goal_cases)
  case (1 r')
  then have r': "rd_abbrevs r' = rd_abbrevs r" "rd_entry r' = rd_entry r" and inv: "bs_inv (rd_bs r')"
    by (simp_all add: same_record_def bs_ok_def)
  show ?case
  proof (rule ends_rbind[OF ends_nth_res], rule ends_rbind[OF assms(5)[OF inv]], clarify, rule ends_Inr)
    fix v bs'
    assume f: "forward (rd_bs r') bs'" and i: "unat (op_index r' + 1) < length (rd_abbrevs r ! unat (rd_entry r - 4))"
    have n: "same_record r' (next_element r' bs') \<and> fewer_left (next_element r' bs') r'"
      using f i assms(2,3) 1(2) r' by (intro next_element_left) simp_all
    have s: "same_record r (next_element r' bs')" using n 1(1) by (auto intro: same_record_trans)
    show "took r (Some v, next_element r' bs')"
    proof (cases "value_index r = 0")
      case False
      then show ?thesis using 1(4) n s by simp
    next
      case True
      then have "bits_left (rd_bs (next_element r' bs')) < bits_left (rd_bs r)"
        using 1(3) n by (auto simp: same_record_def bs_ok_def)
      moreover have "unat (op_index r) \<le> unat (op_index (next_element r' bs'))"
        using i assms(2,3) 1(2) r' unat_Suc_index[of "op_index r"] unat_Suc_index[of "op_index r + 1"]
        by (auto simp: next_element_def Let_def add.assoc)
      ultimately show ?thesis using s fewer_bits by auto
    qed
  qed
qed

lemma ends_blob:
  assumes "bs_inv (rd_bs r)" "unat (op_index r) < length (rd_abbrevs r ! unat (rd_entry r - 4))"
    "length (rd_abbrevs r ! unat (rd_entry r - 4)) < 2 ^ 32"
  shows "ends (\<lambda>(v, r'). same_record r r' \<and> fewer_left r' r) (Some (read_blob r))"
proof -
  have hd: "ends (\<lambda>r'. same_record r r' \<and> op_index r' = op_index r)
    (Some (if value_index r = 0 then rbind (pn_bitstream_read (rd_bs r) 6) (\<lambda>(n, bs).
       rbind (pn_bitstream_align_32 bs) (\<lambda>bs. Inr (r\<lparr>rd_bs := bs, num_values := n\<rparr>))) else Inr r))"
    using same_record_refl[OF assms(1)]
    by (auto simp: same_record_def simp flip: forward_def dest: forward_inv intro: forward_trans
      intro!: ends_rbind[OF ends_forward(1)[OF assms(1)]] ends_rbind[OF ends_forward(4)])
  have up: "unat (op_index r) \<le> unat (op_index r + 1)" using unat_Suc_index[OF assms(2,3)] by simp
  show ?thesis
    unfolding read_blob_def
  proof (rule ends_rbind[OF hd], elim conjE)
    fix r' assume r': "same_record r r'" "op_index r' = op_index r"
    then have "bs_inv (rd_bs r')" by (simp add: same_record_def bs_ok_def)
    from ends_byte[OF this, of 8] show "ends (\<lambda>(v, r'). same_record r r' \<and> fewer_left r' r)
      (Some (rbind (pn_bitstream_read (rd_bs r') 8) (\<lambda>(v, bs).
        Inr (v, r'\<lparr>rd_bs := bs, value_index := value_index r' + 1,
              op_index := (if value_index r' = num_values r' then op_index r' + 1 else op_index r')\<rparr>))))"
    proof (rule ends_rbind, simp, clarify, intro ends_Inr case_prodI conjI)
      fix v bs assume bs: "forward (rd_bs r') bs" "bits_left bs < bits_left (rd_bs r')"
      let ?r = "r'\<lparr>rd_bs := bs, value_index := value_index r' + 1,
              op_index := (if value_index r' = num_values r' then op_index r' + 1 else op_index r')\<rparr>"
      show s: "same_record r ?r" using r'(1) bs(1)
        by (auto simp: same_record_def forward_def bs_ok_def intro: same_buffer_trans)
      show "fewer_left ?r r" using r' bs(2) up
        by (intro fewer_bits[OF s]) (auto simp: same_record_def bs_ok_def)
    qed
  qed
qed

lemma ends_read_abbrev:
  assumes "bs_inv (rd_bs r)" "wf_abbrevs (rd_abbrevs r)"
  shows "ends (took r) (Some (pn_record_read_abbrev r))" "ends (took r) (Some (pn_record_read_abbrev_uint64 r))"
proof -
  have chk: "ends (\<lambda>_. True) (Some (ensure (n > 0) (Check ''reader->num_values > 0'')))" for n :: u32
    by (simp add: ensure_def)
  show "ends (took r) (Some (pn_record_read_abbrev r))"
    unfolding pn_record_read_abbrev_def Let_def
  proof (rule ends_rbind[OF ends_ensure], simp, rule ends_if_res, goal_cases)
    case 1
    then show ?case using same_record_refl[OF assms(1)] by simp
  next
    case 2
    then have i: "unat (op_index r) < length (rd_abbrevs r ! unat (rd_entry r - 4))"
      "length (rd_abbrevs r ! unat (rd_entry r - 4)) < 2 ^ 32" using assms(2) by (simp_all add: wf_abbrevs_def)
    note n = next_op_left[OF _ i]
    show ?case
      using n forward_refl[OF assms(1)]
        ends_array[OF assms(1) i chk ends_elements(1)]
      by (auto split: PNAbbrevOp.split intro!: ends_rbind[OF ends_widths(1)[OF assms(1)]]
          ends_rbind[OF ends_widths(2)[OF assms(1)]] ends_rbind[OF ends_widths(4)[OF assms(1)]]
          ends_rbind[OF ends_blob[OF assms(1) i]])
  qed
  show "ends (took r) (Some (pn_record_read_abbrev_uint64 r))"
    unfolding pn_record_read_abbrev_uint64_def Let_def
  proof (rule ends_rbind[OF ends_ensure], simp, rule ends_if_res, goal_cases)
    case 1
    then show ?case using same_record_refl[OF assms(1)] by simp
  next
    case 2
    then have i: "unat (op_index r) < length (rd_abbrevs r ! unat (rd_entry r - 4))"
      "length (rd_abbrevs r ! unat (rd_entry r - 4)) < 2 ^ 32" using assms(2) by (simp_all add: wf_abbrevs_def)
    note n = next_op_left[OF _ i]
    show ?case
      using n forward_refl[OF assms(1)]
        ends_array[OF assms(1) i, of "\<lambda>n. Inr ()", OF _ ends_elements(2)]
      by (auto split: PNAbbrevOp.split intro!: ends_rbind[OF ends_widths(1)[OF assms(1)]]
          ends_rbind[OF ends_widths(3)[OF assms(1)]] ends_rbind[OF ends_widths(4)[OF assms(1)]]
          ends_rbind[OF ends_blob[OF assms(1) i]])
  qed
qed

text \<open>A reader on a stream with at most \<open>n\<close> bits left.\<close>

definition rd_ok :: "nat \<Rightarrow> PNRecordReader \<Rightarrow> bool" where
  "rd_ok n r \<longleftrightarrow> bs_ok n (rd_bs r) \<and> wf_abbrevs (rd_abbrevs r)"

lemma rd_okD: "rd_ok n r \<Longrightarrow> bs_inv (rd_bs r)" "rd_ok n r \<Longrightarrow> wf_abbrevs (rd_abbrevs r)" "rd_ok n r \<Longrightarrow> bs_ok n (rd_bs r)"
  by (simp_all add: rd_ok_def bs_ok_def)

lemma rd_ok_same: "rd_ok n r \<Longrightarrow> same_record r r' \<Longrightarrow> rd_ok n r'"
  by (auto simp: rd_ok_def same_record_def bs_ok_def)

lemma ends_try_read:
  assumes "rd_ok n r"
  shows "ends (took r) (Some (pn_record_try_read_uint32 r))" "ends (took r) (Some (pn_record_try_read_uint64 r))"
proof -
  note inv = rd_okD(1)[OF assms]
  have step: "same_record r (r\<lparr>rd_bs := bs, value_index := v\<rparr>) \<and> fewer_left (r\<lparr>rd_bs := bs, value_index := v\<rparr>) r"
    if "forward (rd_bs r) bs" "bits_left bs < bits_left (rd_bs r)" for bs v
    using that fewer_bits[of r "r\<lparr>rd_bs := bs, value_index := v\<rparr>"] by (simp add: same_record_def forward_def)
  have b: "bs_ok (bits_left (rd_bs r)) (rd_bs r)" using inv by (simp add: bs_ok_def)
  have vbr64: "ends (\<lambda>(v, bs'). forward (rd_bs r) bs' \<and> bits_left bs' < bits_left (rd_bs r))
      (Some (pn_bitstream_read_vbr_uint64 (rd_bs r) 6))"
    by (rule ends_conseq[OF ends_read_vbr_uint64_bits[OF b]])
      (auto simp: forward_def bs_ok_def dest: read_vbr_uint64_keeps intro: le_less_trans[OF _ diff_less])
  show "ends (took r) (Some (pn_record_try_read_uint32 r))"
    using ends_read_abbrev(1)[OF inv rd_okD(2)[OF assms]] same_record_refl[OF inv] step
    by (auto simp: pn_record_try_read_uint32_def intro!: ends_rbind[OF ends_forward(2)[OF inv]])
  show "ends (took r) (Some (pn_record_try_read_uint64 r))"
    using ends_read_abbrev(2)[OF inv rd_okD(2)[OF assms]] same_record_refl[OF inv] step
    by (auto simp: pn_record_try_read_uint64_def intro!: ends_rbind[OF vbr64])
qed

lemma ends_try_read_uint16: "rd_ok n r \<Longrightarrow> ends (took r) (Some (pn_record_try_read_uint16 r))"
  unfolding pn_record_try_read_uint16_def
  by (rule ends_rbind[OF ends_try_read(1)]) (auto split: option.split)

lemma ends_required:
  assumes "rd_ok n r" "ends (took r) (Some m)" shows "ends (\<lambda>(v, r'). rd_ok n r') (Some (required name m))"
  unfolding required_def using rd_ok_same[OF assms(1)]
  by (auto intro!: ends_rbind[OF assms(2)] split: option.split)

text \<open>What the handlers of the records use: every read keeps the reader in its bounds.\<close>

named_theorems read_ends

lemma ends_try_reads [read_ends]:
  assumes "rd_ok n r"
  shows "ends (\<lambda>(v, r'). rd_ok n r') (Some (pn_record_try_read_uint32 r))"
    "ends (\<lambda>(v, r'). rd_ok n r') (Some (pn_record_try_read_int32 r))"
    "ends (\<lambda>(v, r'). rd_ok n r') (Some (pn_record_try_read_uint16 r))"
  using ends_mono[OF ends_try_read(1)[OF assms], of "\<lambda>(v, r'). rd_ok n r'"]
    ends_mono[OF ends_try_read_uint16[OF assms], of "\<lambda>(v, r'). rd_ok n r'"] rd_ok_same[OF assms]
  by (auto simp: took_def pn_record_try_read_int32_def)

lemma ends_reads [read_ends]:
  assumes "rd_ok n r"
  shows "ends (\<lambda>(v, r'). rd_ok n r') (Some (pn_record_read_uint16 r name))"
    "ends (\<lambda>(v, r'). rd_ok n r') (Some (pn_record_read_int32 r name))"
    "ends (\<lambda>(v, r'). rd_ok n r') (Some (pn_record_read_uint32 r name))"
    "ends (\<lambda>(v, r'). rd_ok n r') (Some (pn_record_read_uint64 r name))"
    "ends (\<lambda>(v, r'). rd_ok n r') (Some (pn_record_read_float r name))"
    "ends (\<lambda>(v, r'). rd_ok n r') (Some (pn_record_read_double r name))"
    "ends (\<lambda>(v, r'). rd_ok n r') (Some (pn_record_read_decoded_int32 r name))"
    "ends (\<lambda>(v, r'). rd_ok n r') (Some (pn_record_read_decoded_int64 r name))"
  using ends_required[OF assms ends_try_read(1)[OF assms]] ends_required[OF assms ends_try_read(2)[OF assms]]
    ends_required[OF assms ends_try_read_uint16[OF assms]]
  by (auto simp: pn_record_read_uint16_def pn_record_read_int32_def pn_record_read_uint32_def
      pn_record_read_uint64_def pn_record_read_float_def pn_record_read_double_def pn_record_try_read_int32_def
      pn_record_read_decoded_int32_def pn_record_read_decoded_int64_def Let_def
      intro!: ends_rbind[OF ends_required[OF assms ends_try_read(2)[OF assms]]])

lemma wf_fewer_left: "wfP fewer_left"
proof -
  have "{(r', r). fewer_left r' r} = inv_image (less_than <*lex*> less_than <*lex*> less_than) values_left"
    by (auto simp: fewer_left_def)
  then show ?thesis unfolding wfp_def by (simp add: wf_lex_prod)
qed

lemma ends_drain:
  assumes "rd_ok n r" shows "ends (\<lambda>(vs, r'). same_record r r') (record_drain r)"
  using wf_fewer_left assms
proof (induction r rule: wfp_induct_rule)
  case (less r)
  from ends_try_read(1)[OF less.prems] consider e where "pn_record_try_read_uint32 r = Inl e" "e \<noteq> Diverges"
    | r' where "pn_record_try_read_uint32 r = Inr (None, r')" "same_record r r'"
    | v r' where "pn_record_try_read_uint32 r = Inr (Some v, r')" "same_record r r'" "fewer_left r' r"
    by (auto simp: ends_iff took_def) (metis option.exhaust)
  then show ?case
  proof cases
    case 3
    from less.IH[OF 3(3) rd_ok_same[OF less.prems 3(2)]] show ?thesis
      using 3 same_record_trans[OF 3(2)] by (subst record_drain.simps) (auto simp: ends_iff)
  qed (subst record_drain.simps; simp)+
qed

lemma ends_num_values_left [read_ends]:
  assumes "rd_ok n r" shows "ends (\<lambda>(k, r'). rd_ok n r') (pn_record_num_values_left r)"
proof -
  from ends_drain[OF assms] consider e where "record_drain r = Some (Inl e)" "e \<noteq> Diverges"
    | vs r' where "record_drain r = Some (Inr (vs, r'))" "same_record r r'" by (auto simp: ends_iff)
  then show ?thesis
  proof cases
    case 2
    then have "ends (bs_ok n) (Some (pn_bitstream_seek_bit (rd_bs r') (bit_offset (rd_bs r))))"
      using assms by (intro ends_seek_back[where m = n]) (auto simp: rd_ok_def same_record_def bs_ok_def)
    with 2 assms show ?thesis
      by (auto simp: pn_record_num_values_left_def rd_ok_def intro!: ends_rbind[where Q = "bs_ok n"])
  qed (simp add: pn_record_num_values_left_def)
qed

lemma ends_finish_record:
  assumes "rd_ok n r" "P st" shows "ends (\<lambda>(st, bs). P st \<and> bs_ok n bs) (finish_record (st, r))"
proof -
  have "ends (rd_ok n) (pn_record_reader_finish r)"
    using ends_drain[OF assms(1)] rd_ok_same[OF assms(1)]
    by (auto simp: pn_record_reader_finish_def ends_iff)
  then show ?thesis using assms(2) by (auto simp: finish_record_def rd_ok_def intro!: ends_obind)
qed

lemma ends_with_code:
  assumes "bs_ok n bs" "wf_abbrevs abbrevs" "\<And>code r. rd_ok n r \<Longrightarrow> ends P (k code r)"
  shows "ends P (with_code abbrevs entry bs k)"
proof -
  let ?r = "pn_record_reader_init bs abbrevs entry"
  have ok: "rd_ok n ?r" using assms by (simp add: rd_ok_def pn_record_reader_init_def)
  note inv = rd_okD(1)[OF ok]
  have "ends (\<lambda>(v, r'). rd_ok n r') (Some (pn_record_read_code ?r))"
    using ends_read_abbrev(1)[OF inv rd_okD(2)[OF ok]] rd_ok_same[OF ok] rd_okD(3)[OF ok] rd_okD(2)[OF ok]
    by (auto simp: pn_record_read_code_def rd_ok_def took_def intro!: ends_rbind[OF ends_read_vbr] elim: ends_mono)
  then show ?thesis
    unfolding with_code_def using assms(3) by (auto intro!: ends_obind ends_case_option)
qed

lemma ends_read_record:
  assumes "bs_ok n bs" "wf_abbrevs abbrevs"
    "\<And>code r. rd_ok n r \<Longrightarrow> ends (\<lambda>(st, r). P st \<and> rd_ok n r) (handler code r)"
  shows "ends (\<lambda>(st, bs). P st \<and> bs_ok n bs) (read_record abbrevs entry bs handler)"
  unfolding read_record_def
  by (rule ends_with_code[OF assms(1,2)], rule ends_obind[OF assms(3)]) (auto intro: ends_finish_record)

section \<open>The interface of a block\<close>

text \<open>
  A block is read by its steps, which keep an invariant of the state, and ended by \<open>finish\<close>, which
  establishes what the block promises. The loop then ends: an entry that is not the end of the block
  has taken bits from the stream.
\<close>

locale block_reader =
  fixes finish :: "'s \<Rightarrow> PNBitStream \<Rightarrow> ('s \<times> PNBitStream) run"
    and step :: "u32 \<Rightarrow> 's \<Rightarrow> PNBitStream \<Rightarrow> ('s \<times> PNBitStream) run"
    and P Q :: "'s \<Rightarrow> bool"
  assumes step_ends: "P st \<Longrightarrow> bs_ok n bs \<Longrightarrow> entry \<noteq> PN_ENTRY_END_BLOCK \<Longrightarrow>
      ends (\<lambda>(st', bs'). P st' \<and> bs_ok n bs') (step entry st bs)"
    and finish_ends: "P st \<Longrightarrow> bs_ok n bs \<Longrightarrow> ends (\<lambda>(st', bs'). Q st' \<and> bs_ok n bs') (finish st bs)"
begin

lemma loop_ends:
  assumes "P st" "bs_ok n bs"
  shows "ends (\<lambda>(st', bs'). Q st' \<and> bs_ok n bs') (block_loop finish step codelen st bs)"
  using assms
proof (induction n arbitrary: st bs rule: less_induct)
  case (less n)
  show ?case
  proof (subst block_loop.simps, rule ends_if, simp, rule ends_obind[OF ends_conseq[OF ends_read_bits[OF less.prems(2)]]])
    fix x assume "Some (pn_bitstream_read bs codelen) = Some (Inr x)"
      "case x of (v, bs') \<Rightarrow> codelen \<le> n \<and> bs_ok (n - codelen) bs' \<and> codelen \<le> 32"
    moreover have "fst x = 0" if "codelen = 0" "pn_bitstream_read bs codelen = Inr x"
      using bsr.read_total[of bs 0] less.prems(2) that by (auto simp: bs_ok_def)
    ultimately show "case x of (v, bs') \<Rightarrow> codelen \<le> n \<and> bs_ok (n - codelen) bs' \<and> (codelen = 0 \<longrightarrow> v = 0)" by auto
  next
    fix x :: "u32 \<times> PNBitStream"
    assume x: "case x of (v, bs') \<Rightarrow> codelen \<le> n \<and> bs_ok (n - codelen) bs' \<and> (codelen = 0 \<longrightarrow> v = 0)"
    obtain v bs' where x': "x = (v, bs')" "codelen \<le> n" "bs_ok (n - codelen) bs'" "codelen = 0 \<Longrightarrow> v = 0"
      using x by (cases x) auto
    have "ends (\<lambda>(st', bs'). Q st' \<and> bs_ok n bs') (obind (step v st bs') (\<lambda>(st, bs). block_loop finish step codelen st bs))"
      if "v \<noteq> 0"
    proof (rule ends_obind[OF step_ends[OF less.prems(1) x'(3) that]], clarify)
      fix st' bs'' assume "P st'" "bs_ok (n - codelen) bs''"
      moreover have "n - codelen < n" using x'(2,4) that by (cases "codelen = 0") auto
      ultimately have "ends (\<lambda>(st', bs'). Q st' \<and> bs_ok (n - codelen) bs') (block_loop finish step codelen st' bs'')"
        using less.IH by blast
      then show "ends (\<lambda>(st', bs'). Q st' \<and> bs_ok n bs') (block_loop finish step codelen st' bs'')"
        by (rule ends_mono) (auto elim: bs_ok_mono)
    qed
    moreover have "bs_ok n bs'" using x'(3) by (rule bs_ok_mono) simp
    ultimately show "ends (\<lambda>(st', bs'). Q st' \<and> bs_ok n bs')
        (case x of (entry, bs) \<Rightarrow> if entry = PN_ENTRY_END_BLOCK then finish st bs
         else obind (step entry st bs) (\<lambda>(st, bs). block_loop finish step codelen st bs))"
      using x'(1) finish_ends[OF less.prems(1)] by simp
  qed
qed

end

lemma ends_block_enter: "bs_ok n bs \<Longrightarrow> ends (\<lambda>(k, bs'). bs_ok n bs') (Some (block_enter bs))"
  unfolding block_enter_def
  by (auto intro!: ends_rbind[OF ends_read_vbr] ends_rbind[OF ends_ensure] ends_rbind[OF ends_align] ends_rbind[OF ends_read])

context block_reader
begin

lemma block_ends:
  assumes "P st" "bs_ok n bs" shows "ends (\<lambda>(st', bs'). Q st' \<and> bs_ok n bs') (read_block finish step st bs)"
  unfolding read_block_def using assms loop_ends by (auto intro!: ends_obind[OF ends_block_enter])

end

lemma ends_finish_aligned: "P st \<Longrightarrow> bs_ok n bs \<Longrightarrow> ends (\<lambda>(st', bs'). P st' \<and> bs_ok n bs') (finish_aligned st bs)"
  unfolding finish_aligned_def by (auto intro!: ends_rbind[OF ends_align])

section \<open>Abbreviations\<close>

lemma ends_num_bits: "bs_ok n bs \<Longrightarrow> ends (\<lambda>(v, bs'). bs_ok n bs') (Some (read_num_bits bs))"
  unfolding read_num_bits_def by (auto intro!: ends_rbind[OF ends_read_vbr] ends_rbind[OF ends_ensure])

lemma ends_abbrev_op:
  "bs_ok n bs \<Longrightarrow> ends (\<lambda>(v, bs'). bs_ok n bs') (Some (abbrev_read_op bs))"
  "bs_ok n bs \<Longrightarrow> ends (\<lambda>(v, bs'). bs_ok n bs') (Some (abbrev_read_elt_op bs))"
  unfolding abbrev_read_op_def abbrev_read_elt_op_def
  by (auto intro!: ends_rbind[OF ends_read] ends_rbind[OF ends_read_vbr] ends_rbind[OF ends_num_bits])

lemma ends_abbrev_ops:
  assumes "bs_ok n bs" "length ops \<le> k"
  shows "ends (\<lambda>(ops, bs'). length ops \<le> k \<and> bs_ok n bs') (Some (abbrev_read_ops k ops bs))"
  using assms
proof (induction k ops bs rule: abbrev_read_ops.induct)
  case (1 k ops bs)
  show ?case
  proof (cases "length ops < k")
    case True
    show ?thesis
      unfolding abbrev_read_ops.simps[of k ops bs] if_P[OF True]
    proof (rule ends_rbind[OF ends_conseq[OF ends_abbrev_op(1)[OF 1(3)]]])
      fix x assume "Some (abbrev_read_op bs) = Some (Inr x)" "case x of (v, bs') \<Rightarrow> bs_ok n bs'"
      then show "abbrev_read_op bs = Inr x \<and> bs_ok n (snd x)" by auto
    next
      fix x assume x: "abbrev_read_op bs = Inr x \<and> bs_ok n (snd x)"
      obtain op bs1 where p: "x = (op, bs1)" by fastforce
      show "ends (\<lambda>(ops, bs'). length ops \<le> k \<and> bs_ok n bs') (Some (case x of (op, bs) \<Rightarrow>
          if op = OpArray then rbind (abbrev_read_elt_op bs) (\<lambda>(elt, bs).
            if length ops + 1 < k then abbrev_read_ops k (ops @ [op, elt]) bs
            else Inl (Undefined ''element operator written past the abbreviation''))
          else abbrev_read_ops k (ops @ [op]) bs))"
      proof (cases "op = OpArray")
        case False
        show ?thesis using 1(2)[OF True conjunct1[OF x] p[symmetric] False] x p False True by simp
      next
        case T: True
        have "ends (\<lambda>(elt, bs'). bs_ok n bs' \<and> abbrev_read_elt_op bs1 = Inr (elt, bs')) (Some (abbrev_read_elt_op bs1))"
          using ends_abbrev_op(2)[of n bs1] x p by (auto simp: ends_iff)
        then show ?thesis unfolding p T
          by (simp only: prod.case if_True refl)
            (rule ends_rbind, assumption, use 1(1)[OF True conjunct1[OF x] p[symmetric] T] T in auto)
      qed
    qed
  next
    case False
    with 1(3,4) show ?thesis by (simp add: abbrev_read_ops.simps[of k])
  qed
qed

lemma ends_abbrev_read:
  assumes "bs_ok n bs" "wf_abbrevs abbrevs"
  shows "ends (\<lambda>(a, abbrevs', bs'). length a < 2 ^ 32 \<and> wf_abbrevs abbrevs' \<and> bs_ok n bs') (Some (pn_abbrev_read bs abbrevs))"
proof -
  have "k < 2 ^ 32" if "k \<le> unat v" for v :: u32 and k using le_less_trans[OF that unat_bound[of v]] by simp
  then show ?thesis
    unfolding pn_abbrev_read_def using assms
    by (auto simp: wf_abbrevs_def intro!: ends_rbind[OF ends_read_vbr] ends_rbind[OF ends_abbrev_ops])
qed

definition wf_context :: "PNBlockInfoContext \<Rightarrow> bool" where
  "wf_context context = (\<forall>a\<in>set (block_abbrev_map context). wf_abbrevs a)"

lemma fold_abbrev_copy: "fold (\<lambda>src dest. pn_abbrev_copy dest src) src dest = dest @ src"
  by (induction src arbitrary: dest) (simp_all add: pn_abbrev_copy_def)

lemma ends_copy_abbrevs:
  "wf_context context \<Longrightarrow> ends wf_abbrevs (Some (pn_block_info_context_copy_abbrevs_for_block_id context block_id []))"
  unfolding pn_block_info_context_copy_abbrevs_for_block_id_def
  by (auto simp: fold_abbrev_copy wf_context_def nth_res_def intro!: ends_rbind[OF ends_ensure])

lemma ends_append_abbrev:
  assumes "wf_context context" "length abbrev < 2 ^ 32"
  shows "ends (\<lambda>(i, context'). wf_context context') (Some (pn_block_info_context_append_abbrev context block_id abbrev))"
proof -
  have wf: "wf_abbrevs (block_abbrev_map context ! i @ [abbrev])" if "i < length (block_abbrev_map context)" for i
    using assms nth_mem[OF that] by (auto simp: wf_context_def wf_abbrevs_def)
  show ?thesis
    unfolding pn_block_info_context_append_abbrev_def using assms(1) wf
    by (auto simp: wf_context_def pn_abbrev_copy_def upd_res_def dest!: set_update_subset_insert[THEN subsetD]
      intro!: ends_rbind[OF ends_ensure] ends_rbind[OF ends_nth_res])
qed

section \<open>Block info\<close>

definition blockinfo_inv :: "blockinfo_state \<Rightarrow> bool" where
  "blockinfo_inv st \<longleftrightarrow> (case st of (context, abbrevs, block_id) \<Rightarrow> wf_context context \<and> wf_abbrevs abbrevs)"

interpretation blockinfo: block_reader finish_aligned blockinfo_step blockinfo_inv blockinfo_inv
proof (unfold_locales, goal_cases)
  case (1 st n bs entry)
  obtain ctx abs block_id where st: "st = (ctx, abs, block_id)" by (cases st)
  have wf: "wf_context ctx" "wf_abbrevs abs" using 1(1) by (simp_all add: blockinfo_inv_def st)
  have abbrev: "ends (\<lambda>(st', bs'). blockinfo_inv st' \<and> bs_ok n bs')
      (Some (rbind (pn_abbrev_read bs abs) (\<lambda>(abbrev, abbrevs, bs).
         rbind (pn_block_info_context_append_abbrev ctx block_id abbrev) (\<lambda>(_, context).
         Inr ((context, abbrevs, block_id), bs)))))"
    using wf by (auto simp: blockinfo_inv_def intro!: ends_rbind[OF ends_abbrev_read[OF 1(2)]] ends_rbind[OF ends_append_abbrev])
  have rec: "ends (\<lambda>(st', bs'). blockinfo_inv st' \<and> bs_ok n bs') (read_record abs entry bs (\<lambda>code reader.
       if code = 1 then Some (rbind (pn_record_read_int32 reader ''block id'') (\<lambda>(v, reader).
         Inr ((ctx, abs, unat v), reader)))
       else if code = 2 \<or> code = 3 then Some (Inr ((ctx, abs, block_id), reader))
       else Some (Inl (Fatal ''bad record code''))))"
    using wf by (intro ends_read_record[OF 1(2)]) (auto simp: blockinfo_inv_def intro!: ends_rbind[OF ends_reads(2)])
  show ?case unfolding blockinfo_step_def st using abbrev rec by simp
next
  case (2 st n bs)
  then show ?case by (rule ends_finish_aligned)
qed

lemma ends_blockinfo:
  assumes "wf_context context" "bs_ok n bs"
  shows "ends (\<lambda>(context', bs'). wf_context context' \<and> bs_ok n bs') (pn_blockinfo_block_read context bs)"
proof -
  have "blockinfo_inv (context, [], 4294967295)" using assms by (simp add: blockinfo_inv_def wf_abbrevs_def)
  from blockinfo.block_ends[OF this assms(2)] show ?thesis
    unfolding pn_blockinfo_block_read_def by (auto simp: blockinfo_inv_def intro!: ends_obind)
qed

end
