(* ===== verification/Pn_Read_Inv.thy ===== *)
theory Pn_Read_Inv
  imports Pn_Read_Laws
begin

text \<open>
  The laws of the blocks inside a module, as interpretations of \<open>block_reader\<close>: what each block keeps of
  the module. \<open>refs_ok\<close> says that the values of a module and its known functions refer to functions and
  variables that exist; the code of the functions is only changed by their own blocks.
\<close>

lemmas read_binds = ends_reads[THEN ends_rbind] ends_try_reads[THEN ends_rbind] ends_ensure[THEN ends_rbind]
  ends_nth_res[THEN ends_rbind] ends_reads[THEN ends_obind] ends_try_reads[THEN ends_obind]
  ends_ensure[THEN ends_obind] ends_nth_res[THEN ends_obind] ends_num_values_left[THEN ends_obind]

section \<open>The invariant of a module\<close>

definition code_view :: "PNModule \<Rightarrow> (PNBasicBlock list \<times> instruction_stream) list" where
  "code_view m = map (\<lambda>f. (bbs f, function_instructions f)) (module_functions m)"

definition value_ok :: "PNModule \<Rightarrow> PNValue \<Rightarrow> bool" where
  "value_ok m v \<longleftrightarrow> (value_code v = PN_VALUE_CODE_FUNCTION \<and> value_idx v < length (module_functions m)) \<or>
     (value_code v = PN_VALUE_CODE_GLOBAL_VAR \<and> value_idx v < length (global_vars m))"

definition refs_ok :: "PNModule \<Rightarrow> bool" where
  "refs_ok m \<longleftrightarrow> (\<forall>v\<in>set (module_values m). value_ok m v) \<and>
     (\<forall>i. known_functions m i = PN_INVALID_FUNCTION_ID \<or> known_functions m i < length (module_functions m) \<or>
        known_functions m i = 0 \<and> module_functions m = [])"

definition module_inv :: "(PNBasicBlock list \<times> instruction_stream) list \<Rightarrow> PNModule \<Rightarrow> bool" where
  "module_inv vs m \<longleftrightarrow> refs_ok m \<and> code_view m = vs"

lemma value_ok_mono:
  "value_ok m v \<Longrightarrow> length (module_functions m) \<le> length (module_functions m') \<Longrightarrow>
   length (global_vars m) \<le> length (global_vars m') \<Longrightarrow> value_ok m' v"
  by (auto simp: value_ok_def)

text \<open>What a module keeps when its types or its memory change.\<close>

lemma module_inv_simps [simp]:
  "module_inv vs (m\<lparr>types := ts\<rparr>) = module_inv vs m"
  "module_inv vs (m\<lparr>module_memory := mem\<rparr>) = module_inv vs m"
  by (simp_all add: module_inv_def refs_ok_def code_view_def value_ok_def)

text \<open>The entries of a block without subblocks: abbreviations and records.\<close>

lemma ends_simple_step:
  assumes "bs_ok n bs" "wf_abbrevs al" "\<And>al'. wf_abbrevs al' \<Longrightarrow> P (upd al')"
    "\<And>code r. rd_ok n r \<Longrightarrow> ends (\<lambda>(st, r). P st \<and> rd_ok n r) (handler code r)"
  shows "ends (\<lambda>(st, bs). P st \<and> bs_ok n bs)
    (if entry = PN_ENTRY_SUBBLOCK then Some (Inl (Fatal msg))
     else if entry = PN_ENTRY_DEFINE_ABBREV then Some (rbind (pn_abbrev_read bs al) (\<lambda>(_, al', bs). Inr (upd al', bs)))
     else read_record al entry bs handler)"
  using assms(3)
  by (auto intro!: ends_rbind[OF ends_abbrev_read[OF assms(1,2)]] ends_read_record[OF assms(1,2)] assms(4))

section \<open>Types\<close>

definition type_inv :: "(PNBasicBlock list \<times> instruction_stream) list \<Rightarrow> type_state \<Rightarrow> bool" where
  "type_inv vs st \<longleftrightarrow> (case st of (m, abbrevs, current_type_id) \<Rightarrow> module_inv vs m \<and> wf_abbrevs abbrevs)"

lemma ends_arg_types: "rd_ok n r \<Longrightarrow> ends (\<lambda>(vs, r'). rd_ok n r') (Some (read_arg_types m k r))"
proof (induction k arbitrary: r)
  case (Suc k)
  then show ?case by (auto simp: pn_type_id_check_def intro!: read_binds ends_rbind[OF Suc.IH])
qed simp

lemma ends_integer_type: "ends (\<lambda>_. True) (Some (integer_basic_type w))"
  by (simp add: integer_basic_type_def)

lemma ends_read_type: "rd_ok n r \<Longrightarrow> ends (\<lambda>(t, r'). rd_ok n r') (read_type m code r)"
  by (auto simp: read_type_def pn_type_id_check_def intro!: read_binds ends_rbind[OF ends_arg_types] ends_rbind[OF ends_integer_type])

lemma ends_type_record:
  assumes "rd_ok n r" "type_inv vs st" shows "ends (\<lambda>(st', r'). type_inv vs st' \<and> rd_ok n r') (type_record st code r)"
  using assms
  by (auto simp: type_record_def type_inv_def split: prod.split intro!: read_binds ends_obind[OF ends_read_type])

interpretation type_block: block_reader type_finish type_step "type_inv vs" "type_inv vs" for vs
proof (unfold_locales, goal_cases)
  case (1 st n bs entry)
  obtain m al i where st: "st = (m, al, i)" by (cases st)
  have wf: "wf_abbrevs al" "module_inv vs m" using 1(1) by (simp_all add: type_inv_def st)
  show ?case
    unfolding type_step_def st prod.case
    by (rule ends_simple_step[OF 1(2) wf(1)], simp add: type_inv_def wf, erule ends_type_record[OF _ 1(1)[unfolded st]])
next
  case (2 st n bs)
  then show ?case
    by (auto simp: type_finish_def split: prod.split intro!: read_binds ends_finish_aligned)
qed

lemma ends_type_block:
  assumes "module_inv vs m" "wf_context ctx" "bs_ok n bs"
  shows "ends (\<lambda>(m', bs'). module_inv vs m' \<and> bs_ok n bs') (pn_type_block_read m ctx bs)"
  unfolding pn_type_block_read_def
proof (rule ends_obind[OF ends_copy_abbrevs[OF assms(2)]])
  fix al assume "wf_abbrevs al"
  then have "type_inv vs (m, al, 0)" using assms(1) by (simp add: type_inv_def)
  from type_block.block_ends[OF this assms(3)] show "ends (\<lambda>(m', bs'). module_inv vs m' \<and> bs_ok n bs')
      (obind (read_block type_finish type_step (m, al, 0) bs) (\<lambda>((m, _), bs). Some (Inr (m, bs))))"
    by (auto simp: type_inv_def intro!: ends_obind)
qed

section \<open>Global variables\<close>

definition globalvar_inv :: "(PNBasicBlock list \<times> instruction_stream) list \<Rightarrow> globalvar_state \<Rightarrow> bool" where
  "globalvar_inv vs st \<longleftrightarrow> module_inv vs (gv_module st) \<and> wf_abbrevs (gv_abbrevs st)"

lemma ends_memory:
  "ends (\<lambda>_. True) (Some (host_store m off bs))"
  "ends (\<lambda>_. True) (Some (pn_memory_zerofill m o32 n32))"
  "ends (\<lambda>_. True) (Some (pn_memory_write_u32 m o32 v))"
  "ends (\<lambda>_. True) (Some (pn_align_up sz align))"
  "ends (\<lambda>_. True) (Some (alignment_of k))"
  by (auto simp: host_store_def pn_memory_zerofill_def pn_memory_check_def pn_memory_write_u32_def memory_write_def
      pn_align_up_def assert_align_def alignment_of_def Let_def intro!: read_binds)

lemma ends_find_integer: "ends (\<lambda>t. t < k + length ts) (Some (find_integer_type k ts w))"
  by (induction k ts w rule: find_integer_type.induct) auto

lemma ends_find_type: "ends (\<lambda>t. t < length (types m)) (Some (pn_module_find_integer_type m w))"
  "ends (\<lambda>t. t < length (types m)) (Some (pn_module_find_pointer_type m))"
  using ends_find_integer[of 0 "types m"] by (simp_all add: pn_module_find_pointer_type_def pn_module_find_integer_type_def)

lemma module_inv_global_var:
  assumes "module_inv vs m"
  shows "module_inv vs (fst (pn_module_append_value (m\<lparr>global_vars := global_vars m @ [var]\<rparr>)
    \<lparr>value_code = PN_VALUE_CODE_GLOBAL_VAR, value_idx = length (global_vars m), value_type_id = t\<rparr>))"
  using assms by (auto simp: module_inv_def refs_ok_def code_view_def value_ok_def pn_module_append_value_def)

lemma ends_read_global_var:
  assumes "rd_ok n r" "globalvar_inv vs st"
  shows "ends (\<lambda>(st', r'). globalvar_inv vs st' \<and> rd_ok n r') (Some (read_global_var st r))"
  unfolding read_global_var_def Let_def
  using assms module_inv_global_var[of vs "gv_module st"]
  by (auto simp: globalvar_inv_def split: prod.split
      intro!: read_binds ends_rbind[OF ends_memory(4)] ends_rbind[OF ends_memory(5)] ends_rbind[OF ends_find_type(2)])
    (metis fst_conv)

lemma ends_next_initializer:
  "globalvar_inv vs st \<Longrightarrow> ends (\<lambda>st'. globalvar_inv vs st' \<and> gv_module st' = gv_module st) (Some (next_initializer st))"
  by (auto simp: next_initializer_def globalvar_inv_def intro!: read_binds)

lemma ends_read_data:
  assumes "rd_ok n r" shows "ends (\<lambda>(m, off, r'). rd_ok n r') (read_data m off r)"
  using wf_fewer_left assms
proof (induction r arbitrary: m off rule: wfp_induct_rule)
  case (less r)
  show ?case
  proof (subst read_data.simps, rule ends_obind[OF ends_try_read(1)[OF less.prems]], clarify)
    fix v :: "u32 option" and r' assume t: "took r (v, r')"
    then have ok: "rd_ok n r'" using rd_ok_same[OF less.prems] by (simp add: took_def)
    show "ends (\<lambda>(m, off, r'). rd_ok n r') (case v of None \<Rightarrow> Some (Inr (m, off, r'))
      | Some v \<Rightarrow> if 256 \<le> v then Some (Inl (Fatal ''globalvar data out of range''))
         else if mem_size m < off + 1 then Some (Inl (Fatal ''memory-size is too small''))
         else obind (Some (host_store m (unat off) [ucast v])) (\<lambda>m. read_data m (off + 1) r'))"
      using less.IH[OF _ ok] t ok by (auto split: option.split intro!: ends_obind[OF ends_memory(1)])
  qed
qed

lemma ends_write_reloc:
  assumes "module_inv vs m" shows "ends (module_inv vs) (Some (pn_globalvar_write_reloc m i off addend))"
proof -
  have v: "ends (\<lambda>_. True) (Some (case value_code v of
          PN_VALUE_CODE_GLOBAL_VAR \<Rightarrow>
            rbind (nth_res (global_vars m) (value_idx v)) (\<lambda>var. Inr (globalvar_offset var + addend))
        | PN_VALUE_CODE_FUNCTION \<Rightarrow>
            rbind (ensure (addend = 0) (Check ''addend == 0'')) (\<lambda>_. Inr (pn_function_id_to_pointer (of_nat (value_idx v))))
        | _ \<Rightarrow> Inl (Fatal ''Unexpected globalvar reloc'')))" for v
    by (auto split: PNValueCode.split intro!: read_binds)
  show ?thesis
    unfolding pn_globalvar_write_reloc_def
    by (rule ends_rbind[OF ends_nth_res], rule ends_rbind[OF v], rule ends_rbind[OF ends_memory(3)]) (simp add: assms)
qed

lemma ends_write_relocs: "module_inv vs m \<Longrightarrow> ends (module_inv vs) (Some (write_relocs m rs))"
proof (induction rs arbitrary: m)
  case (Cons r rs)
  show ?case by (auto intro!: read_binds ends_rbind[OF ends_write_reloc[OF Cons.prems]] Cons.IH)
qed simp

lemma ends_read_reloc:
  assumes "rd_ok n r" "globalvar_inv vs st"
  shows "ends (\<lambda>(st', r'). globalvar_inv vs st' \<and> rd_ok n r') (Some (read_reloc st r))"
  unfolding read_reloc_def Let_def
proof (rule ends_rbind[OF ends_next_initializer[OF assms(2)]], elim conjE)
  fix st assume "globalvar_inv vs st"
  then have inv: "module_inv vs (gv_module st)" "wf_abbrevs (gv_abbrevs st)" by (simp_all add: globalvar_inv_def)
  have put: "ends (globalvar_inv vs) (Some (if b
     then rbind (pn_globalvar_write_reloc (gv_module st) i off a) (\<lambda>m. Inr (st\<lparr>gv_module := m\<rparr>))
     else Inr (st\<lparr>reloc_infos := rs\<rparr>)))" for b i off a rs
    using inv by (auto simp: globalvar_inv_def intro!: ends_rbind[OF ends_write_reloc])
  show "ends (\<lambda>(st', r'). globalvar_inv vs st' \<and> rd_ok n r') (Some (rbind (pn_record_read_uint32 r ''reloc index'') (\<lambda>(index, reader).
     rbind (pn_record_try_read_int32 reader) (\<lambda>(addend, reader).
     rbind (if unat index < length (module_values (gv_module st))
            then rbind (pn_globalvar_write_reloc (gv_module st) (unat index) (data_offset st)
                (case addend of None \<Rightarrow> 0 | Some a \<Rightarrow> a)) (\<lambda>module. Inr (st\<lparr>gv_module := module\<rparr>))
            else Inr (st\<lparr>reloc_infos := reloc_infos st @ [\<lparr>reloc_offset = data_offset st, reloc_index = index,
                reloc_addend = (case addend of None \<Rightarrow> 0 | Some a \<Rightarrow> a)\<rparr>]\<rparr>)) (\<lambda>st.
     Inr (st\<lparr>data_offset := data_offset st + 4\<rparr>, reader))))))"
    using assms(1) by (auto simp: globalvar_inv_def intro!: read_binds ends_rbind[OF put])
qed

lemma ends_globalvar_record:
  assumes "rd_ok n r" "globalvar_inv vs st"
  shows "ends (\<lambda>(st', r'). globalvar_inv vs st' \<and> rd_ok n r') (globalvar_record st code r)"
proof -
  have inv: "module_inv vs (gv_module st)" "wf_abbrevs (gv_abbrevs st)" using assms(2) by (simp_all add: globalvar_inv_def)
  have len: "length (butlast (global_vars m) @ [var]) = length (global_vars m)" if "global_vars m \<noteq> []" for m var
    using that by simp
  have last: "module_inv vs (gv_module st\<lparr>global_vars := butlast (global_vars (gv_module st)) @ [var]\<rparr>)"
    if "global_vars (gv_module st) \<noteq> []" for var
    using inv(1) len[OF that] by (auto simp: module_inv_def refs_ok_def code_view_def value_ok_def)
  show ?thesis
    unfolding globalvar_record_def Let_def
    using assms inv last ends_read_global_var[OF assms, unfolded globalvar_inv_def conj_assoc]
      ends_read_reloc[OF assms, unfolded globalvar_inv_def conj_assoc]
    by (auto simp: globalvar_inv_def intro!: read_binds
        ends_rbind[OF ends_next_initializer[OF assms(2)]] ends_obind[OF ends_next_initializer[OF assms(2)]]
        ends_rbind[OF ends_memory(2)] ends_obind[OF ends_read_data[OF assms(1)]])
qed

interpretation globalvar_block: block_reader globalvar_finish globalvar_step "globalvar_inv vs" "globalvar_inv vs" for vs
proof (unfold_locales, goal_cases)
  case (1 st n bs entry)
  then have wf: "wf_abbrevs (gv_abbrevs st)" "module_inv vs (gv_module st)" by (simp_all add: globalvar_inv_def)
  show ?case
    unfolding globalvar_step_def
    by (rule ends_simple_step[OF 1(2) wf(1)], simp add: globalvar_inv_def wf, erule ends_globalvar_record[OF _ 1(1)])
next
  case (2 st n bs)
  then show ?case
    by (auto simp: globalvar_finish_def globalvar_inv_def intro!: ends_rbind[OF ends_align] ends_rbind[OF ends_write_relocs])
qed

lemma ends_globalvar_block:
  assumes "module_inv vs m" "wf_context ctx" "bs_ok n bs"
  shows "ends (\<lambda>(m', bs'). module_inv vs m' \<and> bs_ok n bs') (pn_globalvar_block_read m ctx bs)"
  unfolding pn_globalvar_block_read_def
  by (rule ends_obind[OF ends_copy_abbrevs[OF assms(2)]],
      rule ends_obind[OF globalvar_block.block_ends[where vs = vs, OF _ assms(3)]])
    (use assms(1) in \<open>auto simp: globalvar_inv_def\<close>)

section \<open>Names\<close>

text \<open>Naming a function changes nothing of its code.\<close>

lemma module_inv_name:
  assumes "module_inv vs m" "k < length (module_functions m)" "bbs f = bbs (module_functions m ! k)"
    "function_instructions f = function_instructions (module_functions m ! k)"
  shows "module_inv vs (m\<lparr>module_functions := (module_functions m)[k := f]\<rparr>)"
    "module_inv vs (m\<lparr>module_functions := (module_functions m)[k := f], known_functions := (known_functions m)(i := k)\<rparr>)"
  using assms by (auto simp: module_inv_def refs_ok_def code_view_def value_ok_def map_update list_update_same_conv)

lemma ends_name_function: "module_inv vs m \<Longrightarrow> ends (module_inv vs) (Some (name_function m k name))"
  unfolding name_function_def
  by (auto simp: Let_def split: option.split intro!: read_binds module_inv_name)

lemma ends_read_name: "rd_ok n r \<Longrightarrow> ends (\<lambda>(s, r'). rd_ok n r') (Some (read_name k r))"
proof (induction k arbitrary: r)
  case (Suc k)
  then show ?case by (auto intro!: read_binds ends_rbind[OF Suc.IH])
qed simp

lemma ends_symtab_record:
  assumes "rd_ok n r" "module_inv vs m"
  shows "ends (\<lambda>(m', r'). module_inv vs m' \<and> rd_ok n r') (symtab_record m code r)"
  using assms
  by (auto simp: symtab_record_def pn_module_value_id_check_def Let_def intro!: read_binds ends_obind[OF ends_read_name]
      ends_rbind[OF ends_name_function])

definition symtab_inv :: "(PNBasicBlock list \<times> instruction_stream) list \<Rightarrow> PNModule \<times> PNAbbrevs \<Rightarrow> bool" where
  "symtab_inv vs st \<longleftrightarrow> module_inv vs (fst st) \<and> wf_abbrevs (snd st)"

interpretation symtab_block: block_reader finish_aligned symtab_step "symtab_inv vs" "symtab_inv vs" for vs
proof (unfold_locales, goal_cases)
  case (1 st n bs entry)
  obtain m al where st: "st = (m, al)" by (cases st)
  have wf: "wf_abbrevs al" "module_inv vs m" using 1(1) by (simp_all add: symtab_inv_def st)
  show ?case
    unfolding symtab_step_def st prod.case
    by (rule ends_simple_step[OF 1(2) wf(1)])
      (use wf in \<open>auto simp: symtab_inv_def intro!: ends_obind[OF ends_symtab_record]\<close>)
next
  case (2 st n bs)
  then show ?case by (rule ends_finish_aligned)
qed

lemma ends_symtab_block:
  assumes "module_inv vs m" "wf_context ctx" "bs_ok n bs"
  shows "ends (\<lambda>(m', bs'). module_inv vs m' \<and> bs_ok n bs') (pn_value_symtab_block_read m ctx bs)"
  unfolding pn_value_symtab_block_read_def
  by (rule ends_obind[OF ends_copy_abbrevs[OF assms(2)]],
      rule ends_obind[OF symtab_block.block_ends[where vs = vs, OF _ assms(3)]])
    (use assms(1) in \<open>auto simp: symtab_inv_def\<close>)

section \<open>Constants\<close>

definition same_code :: "PNFunction \<Rightarrow> PNFunction \<Rightarrow> bool" where
  "same_code f g \<longleftrightarrow> bbs g = bbs f \<and> function_instructions g = function_instructions f"

definition constants_inv :: "PNFunction \<Rightarrow> constants_state \<Rightarrow> bool" where
  "constants_inv f st \<longleftrightarrow> (case st of (g, abbrevs, t, bt) \<Rightarrow> same_code f g \<and> wf_abbrevs abbrevs)"

lemma same_code_append: "same_code f g \<Longrightarrow> same_code f (append_constant m g code t bt v)"
  by (simp add: same_code_def append_constant_def pn_function_append_constant_def pn_function_append_value_def)

lemma ends_constant_values:
  assumes "rd_ok n r"
  shows "ends (\<lambda>(v, r'). rd_ok n r') (Some (read_integer_constant bt r))"
    "ends (\<lambda>(v, r'). rd_ok n r') (Some (read_float_constant bt r))"
  using assms ends_reads
  by (auto simp: read_integer_constant_def read_float_constant_def intro!: read_binds)

lemma ends_constants_record:
  assumes "rd_ok n r" "constants_inv f st"
  shows "ends (\<lambda>(st', r'). constants_inv f st' \<and> rd_ok n r') (Some (constants_record m st code r))"
  using assms
  by (auto simp: constants_record_def constants_inv_def pn_type_id_check_def same_code_append split: prod.split
      intro!: read_binds ends_rbind[OF ends_constant_values(1)] ends_rbind[OF ends_constant_values(2)])

interpretation constants_block: block_reader finish_aligned "constants_step m" "constants_inv f" "constants_inv f" for m f
proof (unfold_locales, goal_cases)
  case (1 st n bs entry)
  obtain g al t bt where st: "st = (g, al, t, bt)" by (cases st)
  have wf: "wf_abbrevs al" "same_code f g" using 1(1) by (simp_all add: constants_inv_def st)
  show ?case
    unfolding constants_step_def st prod.case
    by (rule ends_simple_step[OF 1(2) wf(1)], simp add: constants_inv_def wf,
        erule ends_constants_record[OF _ 1(1)[unfolded st]])
next
  case (2 st n bs)
  then show ?case by (rule ends_finish_aligned)
qed

lemma ends_constants_block:
  assumes "wf_context ctx" "bs_ok n bs"
  shows "ends (\<lambda>(g, bs'). same_code f g \<and> bs_ok n bs') (pn_constants_block_read m f ctx bs)"
  unfolding pn_constants_block_read_def
  by (rule ends_obind[OF ends_copy_abbrevs[OF assms(1)]],
      rule ends_obind[OF constants_block.block_ends[where f = f, OF _ assms(2)]])
    (auto simp: constants_inv_def same_code_def)

end
