(* ===== verification/Pn_Load.thy ===== *)
theory Pn_Load
  imports Pn_Read_Inv Pn_Scheduler
begin

text \<open>
  A whole file, read and run: the function and module blocks keep the shape of the basic blocks (only
  the last instruction of a block branches), so the instruction streams of every module that
  \<open>pn_module_read\<close> returns are well formed, and the control flow of a run of it stays inside them.
\<close>

section \<open>Instructions\<close>

definition parsed_ok :: "nat \<Rightarrow> parsed \<times> PNRecordReader \<Rightarrow> bool" where
  "parsed_ok n p \<longleftrightarrow> (case p of ((i, result, is_terminator), r) \<Rightarrow> (is_branch i \<longrightarrow> is_terminator) \<and> rd_ok n r)"

lemma ends_read_case_values: "rd_ok n r \<Longrightarrow> ends (\<lambda>(vs, r'). rd_ok n r') (Some (read_case_values k r))"
proof (induction k arbitrary: r)
  case (Suc k)
  then show ?case by (auto simp: rbind_assoc intro!: read_binds ends_rbind[OF Suc.IH])
qed simp

lemma ends_read_cases: "rd_ok n r \<Longrightarrow> ends (\<lambda>(cs, r'). rd_ok n r') (Some (read_cases k r))"
proof (induction k arbitrary: r)
  case (Suc k)
  then show ?case by (auto intro!: read_binds ends_rbind[OF ends_read_case_values] ends_rbind[OF Suc.IH])
qed simp

lemma ends_add_incoming: "ends (\<lambda>_. True) (Some (add_incoming dedupe bb v incoming))"
  by (auto simp: add_incoming_def split: option.split)

lemma ends_read_incoming:
  assumes "rd_ok n r" shows "ends (\<lambda>(incoming, r'). rd_ok n r') (read_incoming dedupe rel value_id incoming r)"
  using wf_fewer_left assms
proof (induction r arbitrary: incoming rule: wfp_induct_rule)
  case (less r)
  show ?case
  proof (subst read_incoming.simps, rule ends_obind[OF ends_try_read(1)[OF less.prems]], clarify,
      rule ends_case_option, goal_cases)
    case (1 v r')
    then show ?case using rd_ok_same[OF less.prems] by simp
  next
    case (2 v r' x)
    then have ok: "rd_ok n r'" "fewer_left r' r" "same_record r r'" using rd_ok_same[OF less.prems] by simp_all
    show ?case
    proof (rule ends_obind[OF ends_try_read_uint16[OF ok(1)]], clarify, rule ends_case_option, simp)
      fix bb :: "u16 option" and r'' y assume t: "took r' (bb, r'')" "bb = Some y"
      then have "rd_ok n r''" "fewer_left r'' r'" using rd_ok_same[OF ok(1)] by simp_all
      moreover have "fewer_left r'' r" using \<open>fewer_left r'' r'\<close> ok(2)
        unfolding fewer_left_def by (meson transD trans_lex_prod trans_less_than)
      ultimately show "ends (\<lambda>(incoming, r'). rd_ok n r') (obind (Some (add_incoming dedupe (unat y)
          (relative rel value_id (if rel then pn_decode_sign_rotated_value x else x)) incoming))
          (\<lambda>incoming. read_incoming dedupe rel value_id incoming r''))"
        using less.IH by (intro ends_obind[OF ends_add_incoming]) blast
    qed
  qed
qed

lemma ends_read_instructions:
  assumes "rd_ok n r"
  shows "ends (parsed_ok n) (Some (read_binop rel k r))" "ends (parsed_ok n) (Some (read_cast m rel k r))"
    "ends (parsed_ok n) (Some (read_ret rel k r))" "ends (parsed_ok n) (Some (read_br rel k r))"
    "ends (parsed_ok n) (Some (read_switch m rel k r))" "ends (parsed_ok n) (read_phi dedupe m rel k r)"
    "ends (parsed_ok n) (Some (read_alloca m rel k r))" "ends (parsed_ok n) (Some (read_load rel k r))"
    "ends (parsed_ok n) (Some (read_store rel k r))" "ends (parsed_ok n) (Some (read_cmp2 m rel k r))"
    "ends (parsed_ok n) (Some (read_vselect rel k r))" "ends (parsed_ok n) (Some (read_forwardtyperef m r))"
proof -
  note al = ends_rbind[OF ends_memory(5)]
  show "ends (parsed_ok n) (Some (read_binop rel k r))"
    using assms by (auto simp: read_binop_def parsed_ok_def intro!: read_binds)
  show "ends (parsed_ok n) (Some (read_cast m rel k r))"
    using assms by (auto simp: read_cast_def parsed_ok_def pn_type_id_check_def intro!: read_binds)
  show "ends (parsed_ok n) (Some (read_ret rel k r))"
    using assms by (auto simp: read_ret_def parsed_ok_def intro!: read_binds)
  show "ends (parsed_ok n) (Some (read_br rel k r))"
    using assms by (auto simp: read_br_def parsed_ok_def split: option.split intro!: read_binds)
  show "ends (parsed_ok n) (Some (read_switch m rel k r))"
    using assms by (auto simp: read_switch_def parsed_ok_def pn_type_id_check_def intro!: read_binds ends_rbind[OF ends_read_cases])
  show "ends (parsed_ok n) (read_phi dedupe m rel k r)"
    using assms by (auto simp: read_phi_def parsed_ok_def pn_type_id_check_def intro!: read_binds ends_obind[OF ends_read_incoming])
  show "ends (parsed_ok n) (Some (read_alloca m rel k r))"
    using assms by (auto simp: read_alloca_def parsed_ok_def check_alignment_def intro!: read_binds al ends_rbind[OF ends_find_type(2)])
  show "ends (parsed_ok n) (Some (read_load rel k r))"
    using assms by (auto simp: read_load_def parsed_ok_def check_alignment_def intro!: read_binds al)
  show "ends (parsed_ok n) (Some (read_store rel k r))"
    using assms by (auto simp: read_store_def parsed_ok_def check_alignment_def intro!: read_binds al)
  show "ends (parsed_ok n) (Some (read_cmp2 m rel k r))"
    using assms by (auto simp: read_cmp2_def parsed_ok_def intro!: read_binds ends_rbind[OF ends_find_type(1)])
  show "ends (parsed_ok n) (Some (read_vselect rel k r))"
    using assms by (auto simp: read_vselect_def parsed_ok_def intro!: read_binds)
  show "ends (parsed_ok n) (Some (read_forwardtyperef m r))"
    using assms by (auto simp: read_forwardtyperef_def parsed_ok_def pn_type_id_check_def intro!: read_binds)
qed

lemma ends_read_args: "rd_ok n r \<Longrightarrow> ends (\<lambda>(args, r'). rd_ok n r') (Some (read_args rel value_id k r))"
proof (induction k arbitrary: r)
  case (Suc k)
  then show ?case by (auto intro!: read_binds ends_rbind[OF Suc.IH])
qed simp

lemma ends_return_type: "rd_ok n r \<Longrightarrow> ends (\<lambda>(t, r'). rd_ok n r') (Some (read_return_type m indirect callee r))"
proof -
  have "ends (\<lambda>_. True) (Some (direct_return_type m callee))"
    by (auto simp: direct_return_type_def pn_module_value_id_check_def Let_def intro!: read_binds)
  then show "rd_ok n r \<Longrightarrow> ?thesis"
    by (auto simp: read_return_type_def pn_type_id_check_def intro!: read_binds elim!: ends_rbind)
qed

lemma ends_read_call: "rd_ok n r \<Longrightarrow> ends (parsed_ok n) (read_call m indirect rel k r)"
  by (auto simp: read_call_def parsed_ok_def Let_def intro!: read_binds ends_obind[OF ends_return_type] ends_rbind[OF ends_read_args])

lemma ends_read_instruction: "rd_ok n r \<Longrightarrow> ends (parsed_ok n) (read_instruction dedupe m rel k code r)"
  using ends_read_instructions[of n r] ends_read_call[of n r]
  by (simp add: read_instruction_def) (simp add: parsed_ok_def)

section \<open>The passes at the end of a function\<close>

text \<open>Every pass ends, and none changes the instructions of a block.\<close>

abbreviation stops :: "'a res \<Rightarrow> bool" where
  "stops m \<equiv> ends (\<lambda>_. True) (Some m)"

lemma stops_get_value: "stops (pn_function_get_value m f v)"
  by (simp add: pn_function_get_value_def Let_def)

lemma ends_assign_type:
  "ends (\<lambda>(b, g). bbs g = bbs f) (Some (pn_function_assign_result_value_type m f k v0 v1))"
proof -
  have cast: "stops (pn_type_get_implicit_cast_type m t0 t1)" for t0 t1
    by (auto simp: pn_type_get_implicit_cast_type_def intro!: read_binds)
  have set: "ends (\<lambda>g. bbs g = bbs f) (Some (set_value_type m f k t))" for t
    by (auto simp: set_value_type_def Let_def intro!: read_binds)
  show ?thesis
    unfolding pn_function_assign_result_value_type_def
    by (auto simp: pn_type_id_check_def intro!: ends_rbind[OF stops_get_value] ends_rbind[OF cast] ends_rbind[OF set] read_binds)
qed

lemma ends_instruction_type:
  "ends (\<lambda>(b, g). bbs g = bbs f) (Some (pn_instruction_calculate_result_value_type m f i))"
  by (cases i) (simp_all add: ends_assign_type)

lemma ends_type_instructions: "ends (\<lambda>(inv, g). bbs g = bbs f) (Some (type_instructions m is invalid f))"
proof (induction "is" arbitrary: invalid f)
  case (Cons i "is")
  show ?case by (auto intro!: ends_rbind[OF ends_instruction_type] intro: ends_mono[OF Cons.IH])
qed simp

lemma ends_resolve_pass: "ends (\<lambda>(inv, g). bbs g = bbs f) (Some (resolve_pass m n invalid f))"
proof (induction m n invalid f rule: resolve_pass.induct)
  case (1 m n invalid f)
  show ?case
  proof (cases "n < length invalid")
    case True
    show ?thesis
    proof (subst resolve_pass.simps, unfold if_P[OF True],
        rule ends_rbind[where Q = "\<lambda>p. pn_instruction_calculate_result_value_type m f (invalid ! n) = Inr p \<and> bbs (snd p) = bbs f"])
      show "ends (\<lambda>p. pn_instruction_calculate_result_value_type m f (invalid ! n) = Inr p \<and> bbs (snd p) = bbs f)
          (Some (pn_instruction_calculate_result_value_type m f (invalid ! n)))"
        using ends_instruction_type[of f m "invalid ! n"] by (auto simp: ends_iff)
    next
      fix p assume p: "pn_instruction_calculate_result_value_type m f (invalid ! n) = Inr p \<and> bbs (snd p) = bbs f"
      obtain b g where bg: "p = (b, g)" by fastforce
      show "ends (\<lambda>(inv, g). bbs g = bbs f) (Some (case p of (resolved, f) \<Rightarrow>
          if resolved then resolve_pass m n (butlast (invalid[n := last invalid])) f else resolve_pass m (Suc n) invalid f))"
        using 1(1)[OF True conjunct1[OF p] bg[symmetric]] 1(2)[OF True conjunct1[OF p] bg[symmetric]] p bg by (cases b) auto
    qed
  next
    case False
    then show ?thesis by (subst resolve_pass.simps) simp
  qed
qed

lemma ends_resolve_loop: "ends (\<lambda>(inv, g). bbs g = bbs f) (Some (resolve_loop m k invalid f))"
proof (induction m k invalid f rule: resolve_loop.induct)
  case (1 m k invalid f)
  show ?case
  proof (cases "k \<noteq> length invalid")
    case True
    show ?thesis
    proof (subst resolve_loop.simps, unfold if_P[OF True],
        rule ends_rbind[where Q = "\<lambda>p. resolve_pass m 0 invalid f = Inr p \<and> bbs (snd p) = bbs f"])
      show "ends (\<lambda>p. resolve_pass m 0 invalid f = Inr p \<and> bbs (snd p) = bbs f) (Some (resolve_pass m 0 invalid f))"
        using ends_resolve_pass[of f m 0 invalid] by (auto simp: ends_iff)
    next
      fix p assume p: "resolve_pass m 0 invalid f = Inr p \<and> bbs (snd p) = bbs f"
      obtain i g where bg: "p = (i, g)" by fastforce
      show "ends (\<lambda>(inv, g). bbs g = bbs f) (Some (case p of (invalid', f) \<Rightarrow> resolve_loop m (length invalid) invalid' f))"
        using 1[OF True conjunct1[OF p] bg[symmetric]] p bg by auto
    qed
  next
    case False
    then show ?thesis by (subst resolve_loop.simps) simp
  qed
qed

lemma ends_result_types: "ends (\<lambda>g. bbs g = bbs f) (Some (pn_function_calculate_result_value_types m f))"
proof -
  have "ends (\<lambda>(inv, h). bbs h = bbs g) (Some (if invalid \<noteq> [] then resolve_loop m 0 invalid g else Inr (invalid, g)))"
    for invalid and g :: PNFunction
    using ends_resolve_loop[of g m 0 invalid] by simp
  note loop = ends_rbind[OF this]
  show ?thesis
    unfolding pn_function_calculate_result_value_types_def
    by (rule ends_rbind[OF ends_type_instructions], clarify, rule loop) (auto intro!: read_binds)
qed

lemma fill_phi_instructions: "map instructions (fill_phi_assigns bs) = map instructions bs"
proof -
  have one: "map instructions (append_phi_assign n use bs) = map instructions bs" for n use bs
    by (cases "use_incoming_bb_id use < length bs") (simp_all add: append_phi_assign_def map_update list_update_same_conv list_update_beyond)
  have uses: "map instructions (fold (append_phi_assign n) us bs) = map instructions bs" for n us bs
    by (induction us arbitrary: bs) (simp_all add: one)
  have "map instructions (fold (\<lambda>n bs'. fold (append_phi_assign n) (f n) bs') ns bs) = map instructions bs" for f ns bs
    by (induction ns arbitrary: bs) (simp_all add: uses)
  then show ?thesis by (simp add: fill_phi_assigns_def comp_def)
qed

lemma stops_bitset:
  "stops (pn_bitset_init n)" "stops (pn_bitset_set bs k b)" "stops (pn_bitset_is_set bs k)"
  by (auto simp: pn_bitset_init_def pn_bitset_set_def pn_bitset_is_set_def Let_def upd_res_def intro!: read_binds)

lemma stops_fast_phi_loop: "stops (fast_phi_loop assigns k first bb_id seen)"
proof (induction "length assigns - k" arbitrary: k first bb_id seen rule: less_induct)
  case less
  have fresh: "stops (if b then rbind (pn_bitset_is_set seen i) (\<lambda>s. Inr (\<not> s)) else Inr False)" for b i
    by (simp add: ends_rbind[OF stops_bitset(3)])
  show ?case
    by (subst fast_phi_loop.simps, unfold Let_def, intro ends_if_res ends_rbind[OF fresh] ends_rbind[OF stops_bitset(2)] less)
      simp_all
qed

lemma ends_fast_phi_flags:
  "ends (\<lambda>bs'. map instructions bs' = map instructions bs) (Some (fast_phi_flags bs seen))"
proof (induction bs)
  case (Cons bb bs)
  show ?case by (auto intro!: ends_rbind[OF stops_fast_phi_loop] ends_rbind[OF Cons.IH])
qed simp

lemma ends_phi_assigns:
  "ends (\<lambda>g. map instructions (bbs g) = map instructions (bbs f)) (Some (pn_function_calculate_phi_assigns f))"
  unfolding pn_function_calculate_phi_assigns_def check_phi_uses_def
  by (auto simp: fill_phi_instructions intro!: read_binds ends_rbind[OF stops_bitset(1)] ends_rbind[OF ends_fast_phi_flags])

subsection \<open>The instruction stream\<close>

lemma stops_basic_types: "stops (type_basic_type m t)" "stops (value_basic_type m f v)"
proof -
  show t: "stops (type_basic_type m t)" for t by (auto simp: type_basic_type_def intro!: read_binds)
  show "stops (value_basic_type m f v)" by (auto simp: value_basic_type_def t intro!: ends_rbind[OF stops_get_value])
qed

lemma stops_if_type: "stops (if_type ts t)"
  by (simp add: if_type_def ensure_def)

lemma stops_switch_cases: "stops (switch_cases offs cs)"
  by (induction offs cs rule: switch_cases.induct) (auto intro!: read_binds elim!: ends_rbind)

lemma stops_call_opcode: "stops (call_opcode_for m f callee args)"
proof -
  have "stops (atomic_rmw_op n)" for n by (simp add: atomic_rmw_op_def)
  note rmw = ends_rbind[OF this]
  have "stops (specialize_rmw m f w args)" for w
    by (auto simp: specialize_rmw_def intro!: read_binds ends_rbind[OF stops_get_value] rmw)
  then show ?thesis
    by (auto simp: call_opcode_for_def split: PNIntrinsicId.split intro!: ends_rbind[OF stops_get_value] read_binds)
qed

lemmas stops_binds = read_binds stops_basic_types[THEN ends_rbind] stops_if_type[THEN ends_rbind] stops_switch_cases[THEN ends_rbind]
  stops_call_opcode[THEN ends_rbind]

lemma stops_emit:
  "stops (emit_binop m f r v0 v1 op)" "stops (emit_cast m f r v op t)" "stops (emit_br m f offs a b v)"
  "stops (emit_switch m f offs v d cs)" "stops (emit_alloca m f r s al)" "stops (emit_load m f r s al t)"
  "stops (emit_store m f d v al)" "stops (emit_cmp2 m f r v0 v1 op)" "stops (emit_vselect m f r c v0 v1)"
  "stops (emit_call m f r callee args t ind tail)"
  by (auto simp: emit_binop_def emit_cast_def emit_br_def emit_switch_def emit_alloca_def emit_load_def emit_store_def
      emit_cmp2_def emit_vselect_def emit_call_def split: option.split intro!: stops_binds)

lemma stops_put: "stops o_res \<Longrightarrow> stops (put write o_res sz st)"
  by (auto simp: put_def rbind_assoc intro!: ends_rbind)

lemma stops_write_instruction: "stops (write_instruction m f offs write i st)"
  by (cases i) (auto simp: set_write_phi_def stops_emit stops_put intro!: ends_rbind[OF stops_put])

lemma stops_write_instructions: "stops (write_instructions m f offs write is st)"
  by (induction "is" arbitrary: st) (auto intro!: ends_rbind[OF stops_write_instruction])

lemma stops_write_stream: "stops (pn_basic_block_write_instruction_stream m f bb offs offset code write)"
proof -
  have "stops (runtime_phi_assigns offs ps)" for ps
    by (induction ps) (auto intro!: read_binds elim!: ends_rbind)
  then have "stops (emit_phi_assigns offs bb)" by (auto simp: emit_phi_assigns_def intro!: ends_rbind)
  then have "stops (if b then put write (emit_phi_assigns offs bb) n st else Inr st)" for b n st
    by (simp add: stops_put)
  note tab = ends_rbind[OF this]
  show ?thesis
    unfolding pn_basic_block_write_instruction_stream_def
    by (rule ends_rbind[OF stops_write_instructions], rule tab) simp
qed

lemma ends_opcodes:
  "ends (\<lambda>g. bbs g = bbs f) (Some (pn_function_calculate_opcodes m f))"
proof -
  have l: "stops (layout_bbs m f bs offset)" for bs offset
  proof (induction bs arbitrary: offset)
    case (Cons bb bs)
    show ?case by (auto simp: Let_def intro!: ends_rbind[OF stops_write_stream] ends_rbind[OF Cons.IH])
  qed simp
  have w: "stops (write_bbs m f offs n bs offset code)" for offs n bs offset code
  proof (induction bs arbitrary: n offset code)
    case (Cons bb bs)
    show ?case by (auto simp: Let_def intro!: read_binds ends_rbind[OF stops_write_stream] Cons.IH)
  qed simp
  show ?thesis
    unfolding pn_function_calculate_opcodes_def
    by (auto intro!: ends_rbind[OF l] read_binds ends_rbind[OF w])
qed

section \<open>The function block\<close>

text \<open>
  The shape of the blocks while they are built. With fewer blocks than there are ids, the current block
  is the last that has instructions, and it has no branch until its terminator moves on to the next.
\<close>

definition blocks_ok :: "PNBasicBlock list \<Rightarrow> nat option \<Rightarrow> PNBasicBlockId \<Rightarrow> PNBasicBlockId \<Rightarrow> bool" where
  "blocks_ok B cb prev cur \<longleftrightarrow> (length B \<le> 65535 \<longrightarrow> (\<forall>bb\<in>set B. branch_last bb) \<and>
     (case cb of None \<Rightarrow> \<forall>bb\<in>set B. instructions bb = []
      | Some c \<Rightarrow> c = prev \<and> c < length B \<and> (\<forall>b<length B. c < b \<longrightarrow> instructions (B ! b) = []) \<and>
          (if cur = c then \<forall>i\<in>set (instructions (B ! c)). \<not> is_branch i else cur = c + 1)))"

lemma blocks_ok_declare: "blocks_ok (replicate n empty_bb) None prev cur"
  by (auto simp: blocks_ok_def branch_last_def empty_bb_def)

lemma blocks_ok_enter:
  assumes "blocks_ok B cb prev cur" "prev \<noteq> cur" "cur < length B"
  shows "blocks_ok B (Some cur) cur cur"
  using assms by (auto simp: blocks_ok_def split: option.splits)

lemma branch_last_append: "\<forall>i\<in>set (instructions bb). \<not> is_branch i \<Longrightarrow> branch_last (pn_basic_block_append_instruction i bb)"
  by (simp add: branch_last_def pn_basic_block_append_instruction_def)

lemma blocks_ok_append:
  assumes "blocks_ok B (Some c) prev cur" "prev = cur" "is_branch i \<longrightarrow> term"
  shows "blocks_ok (B[c := pn_basic_block_append_instruction i (B ! c)]) (Some c) prev (if term then (cur + 1) mod 2 ^ 16 else cur)"
proof (cases "length B \<le> 65535")
  case True
  then have c: "c = prev" "c < length B" "\<forall>b<length B. c < b \<longrightarrow> instructions (B ! b) = []"
    "\<forall>i\<in>set (instructions (B ! c)). \<not> is_branch i" "\<forall>bb\<in>set B. branch_last bb"
    using assms by (auto simp: blocks_ok_def)
  have m: "(c + 1) mod 2 ^ 16 = c + 1" using c(2) True by simp
  have "branch_last bb" if "bb \<in> set (B[c := pn_basic_block_append_instruction i (B ! c)])" for bb
    using that c(4,5) branch_last_append set_update_subset_insert by fastforce
  then show ?thesis
    using c assms(2,3) m by (auto simp: blocks_ok_def nth_list_update pn_basic_block_append_instruction_def)
next
  case False
  then show ?thesis by (simp add: blocks_ok_def)
qed

definition entry_ok :: "PNBasicBlock list \<times> instruction_stream \<Rightarrow> bool" where
  "entry_ok e \<longleftrightarrow> (case e of (B, code) \<Rightarrow> code = [] \<or>
     (length B \<le> 65535 \<and> (\<forall>bb\<in>set B. \<forall>i\<in>set (instructions bb). few_args i) \<longrightarrow> wf_stream code))"

definition function_inv :: "(PNBasicBlock list \<times> instruction_stream) list \<Rightarrow> PNFunctionId \<Rightarrow> function_state \<Rightarrow> bool" where
  "function_inv vs k st \<longleftrightarrow> wf_abbrevs (fn_abbrevs st) \<and> k < length vs \<and>
     (\<exists>B code. module_inv (vs[k := (B, code)]) (fn_module st) \<and> blocks_ok B (cur_bb st) (prev_bb_id st) (cur_bb_id st))"

definition function_done :: "(PNBasicBlock list \<times> instruction_stream) list \<Rightarrow> PNFunctionId \<Rightarrow> function_state \<Rightarrow> bool" where
  "function_done vs k st \<longleftrightarrow> (\<exists>e. module_inv (vs[k := e]) (fn_module st) \<and> entry_ok e)"

lemma module_inv_nth:
  assumes "module_inv (vs[k := (B, code)]) m" "k < length vs"
  shows "bbs (module_functions m ! k) = B" "function_instructions (module_functions m ! k) = code"
    "k < length (module_functions m)"
proof -
  have v: "map (\<lambda>f. (bbs f, function_instructions f)) (module_functions m) = vs[k := (B, code)]"
    using assms(1) by (simp add: module_inv_def code_view_def)
  show l: "k < length (module_functions m)" using arg_cong[OF v, of length] assms(2) by simp
  have "(bbs (module_functions m ! k), function_instructions (module_functions m ! k)) = vs[k := (B, code)] ! k"
    unfolding v[symmetric] using l by simp
  then show "bbs (module_functions m ! k) = B" "function_instructions (module_functions m ! k) = code"
    using assms(2) by simp_all
qed

lemma module_inv_update:
  assumes "module_inv (vs[k := e]) m"
  shows "module_inv (vs[k := (bbs f, function_instructions f)]) (update_function m k f)"
proof -
  have v: "map (\<lambda>f. (bbs f, function_instructions f)) (module_functions m) = vs[k := e]" and r: "refs_ok m"
    using assms by (simp_all add: module_inv_def code_view_def)
  show ?thesis using r by (simp add: module_inv_def code_view_def update_function_def map_update v refs_ok_def value_ok_def)
qed

lemma ends_function_record:
  assumes "rd_ok n r" "function_inv vs k st"
  shows "ends (\<lambda>(st', bs'). function_inv vs k st' \<and> bs_ok n bs') (function_record dedupe rel k st code r)"
proof -
  from assms(2) obtain B C where wf: "wf_abbrevs (fn_abbrevs st)" "k < length vs"
    and m: "module_inv (vs[k := (B, C)]) (fn_module st)" and b: "blocks_ok B (cur_bb st) (prev_bb_id st) (cur_bb_id st)"
    by (auto simp: function_inv_def)
  note f = module_inv_nth[OF m wf(2)]
  have decl: "function_inv vs k (declare_blocks k v st)" for v
    using module_inv_update[OF m, of "(the_function k st)\<lparr>bbs := replicate (unat v) empty_bb\<rparr>"] wf
      blocks_ok_declare[of "unat v"]
    by (auto simp: function_inv_def declare_blocks_def put_function_def)
  have enter: "ends (\<lambda>st'. function_inv vs k st' \<and> prev_bb_id st' = cur_bb_id st') (Some (enter_block k st))"
    using m wf b blocks_ok_enter[OF b] f(1)
    by (auto simp: enter_block_def function_inv_def the_function_def intro!: read_binds) blast
  have add: "function_inv vs k (add_instruction k (i, res, t) st)" if "function_inv vs k st" "prev_bb_id st = cur_bb_id st"
    "is_branch i \<longrightarrow> t" for i res t st
  proof -
    from that(1) obtain B C where w: "wf_abbrevs (fn_abbrevs st)"
      and m: "module_inv (vs[k := (B, C)]) (fn_module st)" and b: "blocks_ok B (cur_bb st) (prev_bb_id st) (cur_bb_id st)"
      by (auto simp: function_inv_def)
    let ?f = "append_result (fn_module st) res (the_function k st)"
    let ?g = "append_to_bb (cur_bb st) i ?f"
    have f: "bbs ?f = B" "function_instructions ?f = C"
      using module_inv_nth[OF m wf(2)] by (simp_all add: append_result_def pn_function_append_value_def the_function_def split: option.split)
    have "blocks_ok (bbs ?g) (cur_bb st) (prev_bb_id st) (if t then (cur_bb_id st + 1) mod 2 ^ 16 else cur_bb_id st)"
    proof (cases "cur_bb st")
      case None
      then show ?thesis using b f by (simp add: append_to_bb_def blocks_ok_def)
    next
      case (Some c)
      then show ?thesis using blocks_ok_append[of B c "prev_bb_id st" "cur_bb_id st" i t] b f that(2,3) by (simp add: append_to_bb_def)
    qed
    moreover have "module_inv (vs[k := (bbs ?g, C)]) (update_function (fn_module st) k (?g\<lparr>num_instructions := num_instructions ?g + 1\<rparr>))"
      using module_inv_update[OF m, of "?g\<lparr>num_instructions := num_instructions ?g + 1\<rparr>"] f(2)
      by (simp add: append_to_bb_def split: option.splits)
    ultimately show ?thesis
      using w wf(2) by (auto simp: function_inv_def add_instruction_def put_function_def Let_def)
  qed
  show ?thesis
    unfolding function_record_def
  proof (rule ends_if)
    show "ends (\<lambda>(st', bs'). function_inv vs k st' \<and> bs_ok n bs') (Some (rbind (pn_record_read_uint32 r ''num basic blocks'')
        (\<lambda>(v, r). Inr (declare_blocks k v st, rd_bs r))))"
      using assms(1) decl by (auto intro!: read_binds dest: rd_okD)
  next
    show "ends (\<lambda>(st', bs'). function_inv vs k st' \<and> bs_ok n bs') (obind (Some (enter_block k st)) (\<lambda>st.
        obind (read_instruction dedupe (fn_module st) rel (pn_function_num_values (fn_module st) (the_function k st)) code r)
          (\<lambda>(p, r). finish_record (add_instruction k p st, r))))"
      using add by (auto simp: parsed_ok_def intro!: ends_obind[OF enter] ends_obind[OF ends_read_instruction[OF assms(1)]]
        ends_finish_record)
  qed
qed

lemma ends_function_subblock:
  assumes "bs_ok n bs" "wf_context ctx" "function_inv vs k st"
  shows "ends (\<lambda>(st', bs'). function_inv vs k st' \<and> bs_ok n bs') (function_subblock ctx k st bs)"
proof -
  from assms(3) obtain B C where wf: "wf_abbrevs (fn_abbrevs st)" "k < length vs"
    and m: "module_inv (vs[k := (B, C)]) (fn_module st)" and b: "blocks_ok B (cur_bb st) (prev_bb_id st) (cur_bb_id st)"
    by (auto simp: function_inv_def)
  note f = module_inv_nth[OF m wf(2)]
  have "function_inv vs k (put_function k g st)" if "same_code (the_function k st) g" for g
    using module_inv_update[OF m, of g] wf b f that
    by (auto simp: function_inv_def put_function_def same_code_def the_function_def)
  moreover have "function_inv vs k (st\<lparr>fn_module := m'\<rparr>)" if "module_inv (vs[k := (B, C)]) m'" for m'
    using that wf b by (auto simp: function_inv_def)
  ultimately show ?thesis
    unfolding function_subblock_def
    by (auto intro!: ends_obind[OF ends_read_vbr[OF assms(1)]] ends_obind[OF ends_constants_block[OF assms(2)]]
        ends_obind[OF ends_symtab_block[OF m assms(2)]])
qed

lemma ends_function_finish:
  assumes "bs_ok n bs" "function_inv vs k st"
  shows "ends (\<lambda>(st', bs'). function_done vs k st' \<and> bs_ok n bs') (function_finish k st bs)"
proof -
  from assms(2) obtain B C where wf: "wf_abbrevs (fn_abbrevs st)" "k < length vs"
    and m: "module_inv (vs[k := (B, C)]) (fn_module st)" and b: "blocks_ok B (cur_bb st) (prev_bb_id st) (cur_bb_id st)"
    by (auto simp: function_inv_def)
  note f = module_inv_nth[OF m wf(2)]
  have "function_done vs k (put_function k h st)"
    if g: "map instructions (bbs g) = map instructions B" and h: "pn_function_calculate_opcodes (fn_module st) g = Inr h" "bbs h = bbs g"
    for g h
  proof -
    have "wf_stream (function_instructions h)"
      if "length (bbs h) \<le> 65535" "\<forall>bb\<in>set (bbs h). \<forall>i\<in>set (instructions bb). few_args i"
    proof (rule calculate_opcodes_wf[OF h(1)], intro ballI conjI)
      fix bb assume bb: "bb \<in> set (bbs g)"
      have len: "length B = length (bbs g)" using arg_cong[OF g, of length] by simp
      from bb have "instructions bb \<in> set (map instructions B)" unfolding g[symmetric] by simp
      then obtain bb' where "bb' \<in> set B" "instructions bb' = instructions bb" by auto
      moreover have "branch_last bb'" using b that(1) len h(2) \<open>bb' \<in> set B\<close> by (simp add: blocks_ok_def)
      ultimately show "branch_last bb" by (simp add: branch_last_def)
      fix i assume "i \<in> set (instructions bb)"
      then show "few_args i" using that(2) bb h(2) by auto
    qed
    then have "entry_ok (bbs h, function_instructions h)" by (auto simp: entry_ok_def)
    then show ?thesis
      using module_inv_update[OF m, of h] by (auto simp: function_done_def put_function_def)
  qed
  note fin = this
  have op: "ends (\<lambda>h. pn_function_calculate_opcodes m' g = Inr h \<and> bbs h = bbs g) (Some (pn_function_calculate_opcodes m' g))" for m' g
    using ends_opcodes[of g m'] by (auto simp: ends_iff)
  have u: "map instructions (bbs (pn_function_calculate_uses g)) = map instructions (bbs g)" for g
    by (simp add: pn_function_calculate_uses_def pn_basic_block_calculate_uses_def comp_def)
  show ?thesis
    unfolding function_finish_def Let_def
    using fin f(1) u
    by (auto simp: the_function_def intro!: read_binds ends_rbind[OF ends_result_types] ends_rbind[OF ends_phi_assigns]
        ends_rbind[OF op] ends_rbind[OF ends_align[OF assms(1)]])
qed

interpretation function_block: block_reader "function_finish k" "function_step dedupe ctx k"
    "\<lambda>st. function_inv vs k st \<and> wf_context ctx" "function_done vs k" for dedupe ctx vs k
proof (unfold_locales, goal_cases)
  case (1 st n bs entry)
  then have wf: "wf_abbrevs (fn_abbrevs st)" "function_inv vs k st" "wf_context ctx" by (simp_all add: function_inv_def)
  have ab: "function_inv vs k (st\<lparr>fn_abbrevs := al\<rparr>)" if "wf_abbrevs al" for al
    using wf(2) that by (simp add: function_inv_def)
  have rec: "ends (\<lambda>(st', bs'). function_inv vs k st' \<and> bs_ok n bs')
      (with_code (fn_abbrevs st) entry bs (function_record dedupe (use_relative_ids ctx) k st))"
    by (rule ends_with_code[OF 1(2) wf(1)], erule ends_function_record[OF _ wf(2)])
  show ?case
    unfolding function_step_def
    using wf(3) ends_function_subblock[OF 1(2) wf(3,2)] rec ab
    by (auto intro!: ends_rbind[OF ends_abbrev_read[OF 1(2) wf(1)]] elim!: ends_mono)
next
  case (2 st n bs)
  then show ?case by (intro ends_function_finish) simp_all
qed

lemma append_arg_values_code: "same_code f (append_arg_values m i ts f)"
proof (induction m i ts f rule: append_arg_values.induct)
  case (2 m i t ts f)
  then show ?case by (simp add: same_code_def pn_function_append_value_def)
qed (simp add: same_code_def)

lemma ends_function_block:
  assumes "bs_ok n bs" "wf_context ctx" "module_inv vs m" "bbs (module_functions m ! k) = []"
  shows "ends (\<lambda>(m', bs'). (\<exists>e. module_inv (vs[k := e]) m' \<and> entry_ok e) \<and> bs_ok n bs') (pn_function_block_read dedupe m ctx bs k)"
proof -
  have start: "ends (function_inv vs k) (Some (function_start m k al))" if "wf_abbrevs al" for al
  proof -
    have "function_inv vs k \<lparr>fn_module = update_function m k (append_arg_values m 0 ts (module_functions m ! k)),
        fn_abbrevs = al, fn_num_bbs = 0, prev_bb_id = 65535, cur_bb_id = 0, cur_bb = None\<rparr>"
      if k: "k < length (module_functions m)" for ts
    proof -
      let ?f = "append_arg_values m 0 ts (module_functions m ! k)"
      have "vs[k := vs ! k] = vs" by simp
      then have "module_inv (vs[k := vs ! k]) m" using assms(3) by simp
      moreover have "k < length vs" using k assms(3) by (auto simp: module_inv_def code_view_def)
      moreover have "bbs ?f = []" using append_arg_values_code[of "module_functions m ! k"] assms(4) by (simp add: same_code_def)
      ultimately show ?thesis
        using module_inv_update[of vs k "vs ! k" m ?f] \<open>wf_abbrevs al\<close> by (auto simp: function_inv_def blocks_ok_def)
    qed
    then show ?thesis unfolding function_start_def by (auto intro!: read_binds)
  qed
  show ?thesis
    unfolding pn_function_block_read_def
    by (auto simp: function_done_def intro!: ends_obind[OF ends_block_enter[OF assms(1)]]
        ends_obind[OF ends_copy_abbrevs[OF assms(2)]] ends_obind[OF start] assms(2)
        ends_obind[OF function_block.loop_ends[where vs = vs]])
qed

section \<open>The module\<close>

definition module_state_inv :: "module_state \<Rightarrow> bool" where
  "module_state_inv st \<longleftrightarrow> (case st of (m, ctx, abbrevs, k) \<Rightarrow>
     wf_context ctx \<and> wf_abbrevs abbrevs \<and> refs_ok m \<and> (\<forall>e\<in>set (code_view m). entry_ok e) \<and>
     (\<forall>i. k \<le> i \<and> i < length (code_view m) \<longrightarrow> fst (code_view m ! i) = []))"

lemma entry_ok_new: "entry_ok (bs, [])"
  by (simp add: entry_ok_def)

lemma module_append_function:
  assumes "refs_ok m"
  shows "refs_ok (fst (pn_module_append_value (m\<lparr>module_functions := module_functions m @ [f]\<rparr>)
      \<lparr>value_code = PN_VALUE_CODE_FUNCTION, value_idx = length (module_functions m), value_type_id = t\<rparr>))"
  using assms by (auto simp: refs_ok_def value_ok_def pn_module_append_value_def less_Suc_eq)

lemma ends_function_entry:
  assumes "rd_ok n r" "refs_ok m"
  shows "ends (\<lambda>(m', r'). refs_ok m' \<and> code_view m' = code_view m @ [([], [])] \<and> rd_ok n r') (Some (read_function_record m r))"
  using assms(1) module_append_function[OF assms(2)]
  by (auto simp: read_function_record_def Let_def pn_type_id_check_def code_view_def pn_module_append_value_def intro!: read_binds)

lemma ends_module_record:
  assumes "rd_ok n r" "module_state_inv st"
  shows "ends (\<lambda>(st', r'). module_state_inv st' \<and> rd_ok n r') (module_record st code r)"
proof -
  obtain m ctx al k where st: "st = (m, ctx, al, k)" by (cases st)
  have inv: "wf_context ctx" "wf_abbrevs al" "refs_ok m" "\<forall>e\<in>set (code_view m). entry_ok e"
    "\<forall>i. k \<le> i \<and> i < length (code_view m) \<longrightarrow> fst (code_view m ! i) = []"
    using assms(2) by (simp_all add: module_state_inv_def st)
  have ver: "module_state_inv (m\<lparr>module_version := v\<rparr>, ctx\<lparr>use_relative_ids := b\<rparr>, al, k)" for v b
    using inv by (simp add: module_state_inv_def refs_ok_def value_ok_def code_view_def wf_context_def)
  have new: "module_state_inv (m', ctx, al, k)" if "refs_ok m'" "code_view m' = code_view m @ [([], [])]" for m'
    using inv that by (auto simp: module_state_inv_def entry_ok_new nth_append)
  show ?thesis
    unfolding module_record_def st using assms(1) ver new
    by (auto intro!: read_binds ends_rbind[OF ends_function_entry[OF _ inv(3)]])
qed

lemma ends_module_subblock:
  assumes "bs_ok n bs" "module_state_inv st"
  shows "ends (\<lambda>(st', bs'). module_state_inv st' \<and> bs_ok n bs') (module_subblock dedupe st bs)"
proof -
  obtain m ctx al k where st: "st = (m, ctx, al, k)" by (cases st)
  have inv: "wf_context ctx" "wf_abbrevs al" "refs_ok m" "\<forall>e\<in>set (code_view m). entry_ok e"
    "\<forall>i. k \<le> i \<and> i < length (code_view m) \<longrightarrow> fst (code_view m ! i) = []"
    using assms(2) by (simp_all add: module_state_inv_def st)
  have mi: "module_inv (code_view m) m" using inv(3) by (simp add: module_inv_def)
  have same: "module_state_inv (m', ctx, al, k)" if "module_inv (code_view m) m'" for m'
    using that inv by (simp add: module_state_inv_def module_inv_def)
  have info: "module_state_inv (m, ctx', al, k)" if "wf_context ctx'" for ctx' using that inv by (simp add: module_state_inv_def)
  let ?k = "skip_protos (module_functions m) k"
  have ge: "k \<le> skip_protos fs k" for fs k
  proof (induction fs k rule: skip_protos.induct)
    case (1 fs k)
    then show ?case by (subst skip_protos.simps) auto
  qed
  have fn: "module_state_inv (m', ctx, al, ?k + 1)" if "module_inv ((code_view m)[?k := e]) m'" "entry_ok e" for m' e
  proof -
    have "code_view m' = (code_view m)[?k := e]" using that(1) by (simp add: module_inv_def)
    with that(2) inv ge[of k "module_functions m"] that(1) show ?thesis
      by (auto simp: module_state_inv_def module_inv_def dest!: set_update_subset_insert[THEN subsetD])
  qed
  have fb: "ends (\<lambda>(st', bs'). module_state_inv st' \<and> bs_ok n bs')
      (obind (Some (pn_function_id_check m ?k)) (\<lambda>_. obind (pn_function_block_read dedupe m ctx bs' ?k) (\<lambda>(m, bs).
        Some (Inr ((m, ctx, al, ?k + 1), bs)))))" if "bs_ok n bs'" for bs'
    unfolding pn_function_id_check_def
  proof (rule ends_obind[OF ends_ensure], simp)
    assume "?k < length (module_functions m)"
    then have "bbs (module_functions m ! ?k) = []" using inv(5) ge[of k "module_functions m"] by (auto simp: code_view_def)
    from ends_function_block[OF that inv(1) mi this, of dedupe] fn
    show "ends (\<lambda>(st', bs'). module_state_inv st' \<and> bs_ok n bs') (obind (pn_function_block_read dedupe m ctx bs' ?k) (\<lambda>(m, bs).
        Some (Inr ((m, ctx, al, ?k + 1), bs))))" by (auto intro!: ends_obind)
  qed
  show ?thesis
    unfolding module_subblock_def st prod.case Let_def
    using same info fb
    by (auto intro!: ends_obind[OF ends_read_vbr[OF assms(1)]] ends_obind[OF ends_blockinfo[OF inv(1)]]
        ends_obind[OF ends_type_block[OF mi inv(1)]] ends_obind[OF ends_globalvar_block[OF mi inv(1)]]
        ends_obind[OF ends_symtab_block[OF mi inv(1)]])
qed

interpretation module_block: block_reader finish_aligned "module_step dedupe" module_state_inv module_state_inv for dedupe
proof (unfold_locales, goal_cases)
  case (1 st n bs entry)
  obtain m ctx al k where st: "st = (m, ctx, al, k)" by (cases st)
  have wf: "wf_abbrevs al" using 1(1) by (simp add: module_state_inv_def st)
  have ab: "module_state_inv (m, ctx, al', k)" if "wf_abbrevs al'" for al'
    using 1(1) that by (simp add: module_state_inv_def st)
  have rec: "ends (\<lambda>(st', bs'). module_state_inv st' \<and> bs_ok n bs') (read_record al entry bs (module_record st))"
    by (rule ends_read_record[OF 1(2) wf], erule ends_module_record[OF _ 1(1)])
  show ?case
    unfolding module_step_def st prod.case
    using ends_module_subblock[OF 1(2,1)] rec ab
    by (auto simp: st intro!: ends_rbind[OF ends_abbrev_read[OF 1(2) wf]])
next
  case (2 st n bs)
  then show ?case by (rule ends_finish_aligned)
qed

section \<open>The file\<close>

lemma ends_read_inv: "bs_inv bs \<Longrightarrow> ends (\<lambda>(v, bs'). bs_inv bs') (Some (pn_bitstream_read bs k))"
  by (rule ends_mono[OF ends_forward(1)]) (auto dest: forward_inv)

lemma ends_header: "bs_inv bs \<Longrightarrow> ends bs_inv (Some (pn_header_read bs))"
proof -
  have sig: "bs_inv bs \<Longrightarrow> ends bs_inv (Some (read_signature cs bs))" for cs bs
    by (induction cs arbitrary: bs) (auto intro!: ends_rbind[OF ends_read_inv] ends_ensure[THEN ends_rbind])
  have fld: "bs_inv bs \<Longrightarrow> ends bs_inv (Some (read_fields k bs))" for k bs
  proof (induction k arbitrary: bs)
    case (Suc k)
    have body: "ends bs_inv (Some (if t = 0 then pn_bitstream_skip_bytes bs len
            else if t = 1 then rbind (pn_bitstream_read bs 32) (\<lambda>(_, bs). Inr bs)
            else Inl (Fatal ''bad ftype'')))" if "bs_inv bs" for t :: u32 and len bs
      using that by (auto simp: pn_bitstream_skip_bytes_def ends_seek intro!: ends_rbind[OF ends_read_inv])
    show ?case
      using Suc.prems by (auto intro!: ends_rbind[OF ends_read_inv] ends_ensure[THEN ends_rbind] ends_rbind[OF body] Suc.IH)
  qed simp
  show "bs_inv bs \<Longrightarrow> ?thesis"
    unfolding pn_header_read_def
    by (rule ends_rbind[OF sig], assumption) (auto intro!: ends_rbind[OF ends_read_inv] fld)
qed

lemma ends_module_read:
  assumes "bs_inv bs" "refs_ok m" "module_functions m = []"
  shows "ends (\<lambda>(m', bs'). refs_ok m' \<and> (\<forall>e\<in>set (code_view m'). entry_ok e) \<and> bs_inv bs') (pn_module_read dedupe m bs)"
proof -
  have "module_state_inv (m, \<lparr>block_abbrev_map = replicate PN_MAX_BLOCK_IDS [], use_relative_ids = False\<rparr>, [], 0)"
    using assms(2,3) by (auto simp: module_state_inv_def wf_context_def wf_abbrevs_def code_view_def)
  note blk = module_block.block_ends[OF this]
  have "ends (\<lambda>(m', bs'). refs_ok m' \<and> (\<forall>e\<in>set (code_view m'). entry_ok e) \<and> bs_inv bs')
      (pn_module_block_read dedupe m \<lparr>block_abbrev_map = replicate PN_MAX_BLOCK_IDS [], use_relative_ids = False\<rparr> bs)"
    if "bs_ok n bs" for bs n
    unfolding pn_module_block_read_def
    by (rule ends_obind[OF blk[OF that]]) (auto simp: module_state_inv_def bs_ok_def)
  note blk' = this
  have ok: "bs_ok (bits_left bs) bs" if "bs_inv bs" for bs using that by (simp add: bs_ok_def)
  show ?thesis
    unfolding pn_module_read_def
    by (rule ends_obind[OF ends_header[OF assms(1)]], rule ends_obind[OF ends_read[OF ok]], assumption, clarify,
        rule ends_obind[OF ends_ensure], simp, rule ends_obind[OF ends_read_vbr], assumption, clarify,
        rule ends_obind[OF ends_ensure], simp, erule blk')
qed

end
