(* ===== verification/Pn_Program.thy ===== *)
theory Pn_Program
  imports Pn_Load
begin

text \<open>
  The program as a whole, the core of \<open>main\<close> in \<^verbatim>\<open>src/pnacl.c\<close>: load a file and run it. The properties of
  the readers and of a run, put together, and small files that are loaded and run inside the logic.
\<close>

section \<open>The program\<close>

text \<open>
  The core of \<open>main\<close> (\<^verbatim>\<open>src/pnacl.c\<close>): the file is read as often as asked for, the state reset in between;
  then the start information is written and the program is run.
\<close>

fun load_times :: "bool \<Rightarrow> nat \<Rightarrow> PNModule \<Rightarrow> PNBitStream \<Rightarrow> PNModule run" where
  "load_times dedupe 0 module bs = Some (Inr module)"
| "load_times dedupe (Suc n) module bs =
     obind (pn_module_read dedupe module bs) (\<lambda>(module, bs).
     if n = 0 then Some (Inr module)
     else obind (Some (pn_bitstream_seek_bit bs 0)) (\<lambda>bs.
       load_times dedupe n (pn_module_reset (module\<lparr>module_memory := pn_memory_reset (module_memory module)\<rparr>)) bs))"

definition pn_load :: "bool \<Rightarrow> nat \<Rightarrow> u32 \<Rightarrow> (nat \<Rightarrow> u8) \<Rightarrow> u8 list \<Rightarrow> PNModule run" where
  "pn_load dedupe repeat sz junk data =
     load_times dedupe repeat (pn_module_init (pn_memory_init sz junk)) (pn_bitstream_init data (of_nat (length data)))"

definition pn_main :: "bool \<Rightarrow> nat \<Rightarrow> u32 \<Rightarrow> (nat \<Rightarrow> u8) \<Rightarrow> u8 list \<Rightarrow> u8 list list option \<Rightarrow> u8 list list option \<Rightarrow>
    bool \<Rightarrow> host \<Rightarrow> PNExecutor run" where
  "pn_main dedupe repeat sz junk data argv envp access h =
     obind (pn_load dedupe repeat sz junk data) (\<lambda>module.
     obind (Some (pn_memory_init_startinfo (module_memory module) argv envp)) (\<lambda>memory.
     obind (Some (pn_executor_init (module\<lparr>module_memory := memory\<rparr>))) (\<lambda>ex.
     pn_executor_run access h ex)))"

section \<open>Loading a file inside the logic\<close>

lemma vbr6_loop_numeral:
  "vbr6_loop shift result (numeral k) bs =
     (if shift < 64 then
        rbind (pn_bitstream_read bs 6) (\<lambda>(piece, bs).
        let result = result OR push_bit shift (ucast piece AND 31) in
        if (ucast piece :: u64) AND 32 = 0 then rbind (vbr_result32 result) (\<lambda>r. Inr (r, bs))
        else vbr6_loop (shift + 5) result (pred_numeral k) bs)
      else Inl (Fatal ''unreachable''))"
  by (simp only: numeral_eq_Suc vbr6_loop.simps)

lemma read_name_numeral:
  "read_name (numeral k) reader = rbind (pn_record_read_int32 reader ''name char'') (\<lambda>(v, reader).
     rbind (read_name (pred_numeral k) reader) (\<lambda>(s, reader). Inr (char_of (unat (ucast v :: u8)) # s, reader)))"
  by (simp add: numeral_eq_Suc)

lemma start_name:
  "c_name [char_of (95 :: nat), char_of (115 :: nat), char_of (116 :: nat), char_of (97 :: nat), char_of (114 :: nat),
     char_of (116 :: nat)] = ''_start''"
  "map_of intrinsic_names ''_start'' = Some PN_INTRINSIC_START"
  by (simp_all add: c_name_def intrinsic_names_def char_of_def bit_0)

lemmas stream_eval = pn_bitstream_read_def pn_bitstream_fill_curword_def pn_bitstream_read_frac_bits_def Let_def
  pn_bitstream_init_def pn_bitstream_read_vbr_def pn_bitstream_read_vbr6_def vbr6_loop_numeral read_vbr_with_def
  vbr_hi_mask_def vbr_fuel_def vbr_result32_def pn_bitstream_align_32_def pn_bitstream_seek_bit_def pn_align_up_def
  pn_align_down_def assert_align_def pn_is_power_of_two_def pn_bitstream_at_end_def

lemmas record_eval = pn_record_reader_init_def pn_record_read_code_def pn_record_try_read_uint32_def
  pn_record_try_read_int32_def pn_record_try_read_uint16_def required_def pn_record_read_int32_def
  pn_record_read_uint32_def pn_record_read_uint16_def pn_record_num_values_left_def pn_record_reader_finish_def
  with_code_def finish_record_def read_record_def finish_aligned_def id16_def read_block_def block_enter_def
  record_drain.simps block_loop.simps replicate_numeral_Cons word_le_nat_alt

lemmas block_eval = pn_header_read_def pn_module_read_def pn_module_block_read_def module_step_def module_record_def
  module_subblock_def pn_block_info_context_copy_abbrevs_for_block_id_def fold_abbrev_copy
  pn_type_block_read_def type_step_def type_record_def read_type_def integer_basic_type_def unset_type_def
  pn_type_id_check_def type_finish_def read_function_record_def pn_module_append_value_def
  pn_value_symtab_block_read_def symtab_step_def symtab_record_def pn_module_value_id_check_def name_function_def
  read_name_numeral start_name pn_globalvar_block_read_def globalvar_step_def globalvar_record_def read_global_var_def
  alignment_of_def pn_module_find_pointer_type_def pn_module_find_integer_type_def next_initializer_def read_data.simps
  host_store_def globalvar_finish_def

lemmas function_eval = skip_protos.simps pn_function_id_check_def pn_function_block_read_def function_start_def
  update_function_def pn_function_append_value_def function_step_def function_record_def declare_blocks_def
  the_function_def put_function_def enter_block_def read_instruction_def read_ret_def read_br_def add_instruction_def
  append_result_def append_to_bb_def pn_basic_block_append_instruction_def empty_bb_def pn_function_num_values_def
  function_finish_def pn_function_calculate_result_value_types_def pn_function_calculate_uses_def
  pn_basic_block_calculate_uses_def pn_function_calculate_phi_assigns_def check_phi_uses_def pn_bitset_init_def
  fill_phi_assigns_def fast_phi_loop.simps pn_function_calculate_opcodes_def
  pn_basic_block_write_instruction_stream_def align_offset_4_def put_def trap_instruction_def call_flags_def
  set_write_phi_def emit_br_def emit_phi_assigns_def

lemmas load_eval = pn_load_def stream_eval record_eval block_eval function_eval pn_module_init_def pn_memory_init_def

section \<open>A small program\<close>

text \<open>
  A file with three types, one function, one variable, the name \<open>_start\<close> for the function, and a body of
  two blocks: a branch to the second, and a return.
\<close>

definition tiny_file :: "u8 list" where
  "tiny_file =
    [80, 69, 88, 69, 0, 0, 0, 0, 33, 8, 0, 0, 0, 0, 0, 0, 7, 65, 80, 132, 0, 0, 0, 0, 0, 0, 0, 0, 7, 193, 176, 0, 
     124, 4, 96, 112, 53, 0, 64, 0, 35, 132, 0, 0, 64, 19, 2, 0, 0, 0, 0, 0, 23, 65, 48, 32, 12, 192, 67, 160, 6, 
     0, 0, 0, 57, 8, 0, 0, 0, 0, 0, 0, 7, 7, 240, 11, 243, 64, 15, 225, 32, 15, 244, 0, 49, 8, 0, 0, 0, 0, 0, 0, 
     7, 129, 240, 18, 4, 43, 0, 0, 0, 0, 0, 0]"

lemma tiny_file_words:
  "length tiny_file = 104"
  "load_data32 tiny_file 0 = Inr 1163412816"
  "load_data32 tiny_file 4 = Inr 0"
  "load_data32 tiny_file 8 = Inr 2081"
  "load_data32 tiny_file 12 = Inr 0"
  "load_data32 tiny_file 16 = Inr 2219852039"
  "load_data32 tiny_file 20 = Inr 0"
  "load_data32 tiny_file 24 = Inr 0"
  "load_data32 tiny_file 28 = Inr 11583751"
  "load_data32 tiny_file 32 = Inr 1885340796"
  "load_data32 tiny_file 36 = Inr 4194357"
  "load_data32 tiny_file 40 = Inr 33827"
  "load_data32 tiny_file 44 = Inr 136000"
  "load_data32 tiny_file 48 = Inr 0"
  "load_data32 tiny_file 52 = Inr 540033303"
  "load_data32 tiny_file 56 = Inr 2688794636"
  "load_data32 tiny_file 60 = Inr 6"
  "load_data32 tiny_file 64 = Inr 2105"
  "load_data32 tiny_file 68 = Inr 0"
  "load_data32 tiny_file 72 = Inr 200279815"
  "load_data32 tiny_file 76 = Inr 3775873267"
  "load_data32 tiny_file 80 = Inr 15994656"
  "load_data32 tiny_file 84 = Inr 2097"
  "load_data32 tiny_file 88 = Inr 0"
  "load_data32 tiny_file 92 = Inr 317751559"
  "load_data32 tiny_file 96 = Inr 11012"
  "load_data32 tiny_file 100 = Inr 0"
  by (simp_all add: load_data32_def tiny_file_def le_word_def)

definition tiny_type :: "PNTypeCode \<Rightarrow> PNBasicType \<Rightarrow> u32 \<Rightarrow> PNTypeId list \<Rightarrow> PNType" where
  "tiny_type c bt w args =
     \<lparr>type_code = c, basic_type = bt, type_width = w, is_varargs = False, return_type = 0, arg_types = args\<rparr>"

definition tiny_bb :: "PNInstruction \<Rightarrow> PNBasicBlock" where
  "tiny_bb i = empty_bb\<lparr>instructions := [i], fast_phi_assign := True\<rparr>"

definition tiny_function :: "string option \<Rightarrow> PNIntrinsicId \<Rightarrow> PNFunction" where
  "tiny_function name i =
     \<lparr>function_name = name, function_type_id = 2, intrinsic_id = i, num_args = 1, calling_convention = 0, is_proto = False,
      function_linkage = 0, constants = [],
      bbs = [tiny_bb (InstBr 1 PN_INVALID_BB_ID PN_INVALID_VALUE_ID), tiny_bb (InstRet PN_INVALID_VALUE_ID)],
      function_values = [\<lparr>value_code = PN_VALUE_CODE_FUNCTION_ARG, value_idx = 0, value_type_id = 1\<rparr>],
      num_instructions = 2,
      function_instructions = [(0, RBr 20), (16, RPhiAssigns 0 1 []), (20, RRet), (24, trap_instruction)]\<rparr>"

definition tiny_module :: "PNFunction \<Rightarrow> (PNIntrinsicId \<Rightarrow> PNFunctionId) \<Rightarrow> PNModule" where
  "tiny_module f known =
    \<lparr>module_version = 1, module_functions = [f],
     types = [tiny_type PN_TYPE_CODE_VOID PN_BASIC_TYPE_VOID 0 [], tiny_type PN_TYPE_CODE_INTEGER PN_BASIC_TYPE_INT32 32 [],
       tiny_type PN_TYPE_CODE_FUNCTION PN_BASIC_TYPE_INT32 0 [1]],
     global_vars = [\<lparr>num_initializers = 1, globalvar_alignment = 4, globalvar_offset = 1024, is_constant = False\<rparr>],
     module_values = [\<lparr>value_code = PN_VALUE_CODE_FUNCTION, value_idx = 0, value_type_id = 2\<rparr>,
       \<lparr>value_code = PN_VALUE_CODE_GLOBAL_VAR, value_idx = 0, value_type_id = 1\<rparr>],
     known_functions = known,
     module_memory = (pn_memory_init 65536 (\<lambda>_. 0))
       \<lparr>mem_data := store_bytes (\<lambda>_. 0) 1024 [42], globalvar_start := 1024, globalvar_end := 1025\<rparr>\<rparr>"

abbreviation start_module :: PNModule where
  "start_module \<equiv> tiny_module (tiny_function (Some ''_start'') PN_INTRINSIC_START)
     ((\<lambda>_. PN_INVALID_FUNCTION_ID)(PN_INTRINSIC_START := 0))"

lemmas tiny_defs = tiny_module_def tiny_function_def tiny_type_def tiny_bb_def

lemma tiny_load: "pn_load True 1 65536 (\<lambda>_. 0) tiny_file = Some (Inr start_module)"
  by (simp add: load_eval tiny_file_words tiny_defs cong: obind_weak_cong rbind_weak_cong)

text \<open>Its run.\<close>

definition tiny_memory :: PNMemory where
  "tiny_memory = (case pn_memory_init_startinfo (module_memory start_module) None None of Inr m \<Rightarrow> m)"

lemma tiny_startinfo:
  "pn_memory_init_startinfo (module_memory (tiny_module f known)) None None = Inr tiny_memory"
  "mem_size tiny_memory = 65536" "heap_start tiny_memory = 4096" "stack_end tiny_memory = 65536"
  "startinfo_start tiny_memory = 1028"
  by (simp_all add: tiny_memory_def pn_memory_init_startinfo_def tiny_module_def pn_memory_init_def stream_eval
    pn_string_list_count_def pn_memory_check_pointer_def pn_memory_check_def store_u32_def host_store_def
    string_list_def word_le_nat_alt word_less_nat_alt cong: rbind_weak_cong)

definition tiny_at :: "PNFunction \<Rightarrow> (PNIntrinsicId \<Rightarrow> PNFunctionId) \<Rightarrow> PNThread \<Rightarrow> PNExecutor" where
  "tiny_at f known th =
     \<lparr>ex_module = (tiny_module f known)\<lparr>module_memory := tiny_memory\<rparr>, ex_memory = tiny_memory, executor_values = [192, 1024],
      threads = [th], main_thread = 0, dead_threads = [], sentinel_stack_top = 65536,
      mapped_pages = \<lparr>num_words = 1, words = [1]\<rparr>, next_jmpbuf_id = 0, fd_map = [0, 1, 2] @ replicate 997 (- 1),
      next_thread_id = 1, heap_end = 4096, exit_code = 0, exiting = False, host_calls = []\<rparr>"

definition tiny_thread :: "address \<Rightarrow> PNThread" where
  "tiny_thread a = start_thread\<lparr>thread_frames := [\<lparr>frame_function_id = 0, frame_inst = 0, frame_values = [1028],
     frame_jmpbufs = [], memory_stack_top = 65536\<rparr>], thread_state := PN_THREAD_RUNNING, thread_function := 0, thread_inst := a\<rparr>"

lemma tiny_init:
  assumes "known PN_INTRINSIC_START = 0"
  shows "pn_executor_init ((tiny_module (tiny_function name i) known)\<lparr>module_memory := tiny_memory\<rparr>) =
    Inr (tiny_at (tiny_function name i) known (tiny_thread 0))"
  using assms
  by (simp add: pn_executor_init_def tiny_startinfo tiny_module_def tiny_function_def stream_eval pn_is_aligned_def
      pn_bitset_init_def pn_bitset_set_def pn_executor_init_module_values_def module_value_def pn_function_id_to_pointer_def
      pn_thread_push_function_def local_value_def pn_function_get_value_def pn_thread_set_value_def num_module_values_def
      current_frame_def put_frame_def stack_top_def start_thread_def put_thread_def tiny_at_def tiny_thread_def
      cong: rbind_weak_cong)

lemma tiny_steps:
  "pn_thread_execute_instruction b (tiny_at (tiny_function name i) known (tiny_thread 0)) 0 =
     Inr (tiny_at (tiny_function name i) known (tiny_thread 20))"
  "pn_thread_execute_instruction b (tiny_at (tiny_function name i) known (tiny_thread 20)) 0 =
     Inr ((tiny_at (tiny_function name i) known (start_thread\<lparr>thread_frames := [], thread_inst := 20,
       thread_state := PN_THREAD_DEAD\<rparr>))\<lparr>exiting := True\<rparr>)"
  by (simp_all add: pn_thread_execute_instruction_def get_thread_def tiny_at_def tiny_thread_def tiny_module_def
    tiny_function_def fetch_def start_thread_def
      jump_def pn_thread_do_phi_assigns_def advance_def Let_def current_frame_def put_frame_def exec_ret_def put_thread_def)

lemma tiny_run:
  "pn_executor_run access h (tiny_at (tiny_function name i) known (tiny_thread 0)) =
     Some (Inr ((tiny_at (tiny_function name i) known (start_thread\<lparr>thread_frames := [], thread_inst := 20,
       thread_state := PN_THREAD_DEAD\<rparr>))\<lparr>exiting := True\<rparr>))"
proof -
  have g: "main_thread (tiny_at f k th) = 0" "get_thread (tiny_at f k th) 0 = Inr th"
    "get_thread ((tiny_at f k th)\<lparr>exiting := True\<rparr>) 0 = Inr th" for f k th
    by (simp_all add: tiny_at_def get_thread_def)
  have s: "thread_state (tiny_thread a) = PN_THREAD_RUNNING" for a by (simp add: tiny_thread_def)
  show ?thesis
    unfolding pn_executor_run_def g
    by (subst run_loop.simps) (simp add: pn_executor_run_step_def run_quantum_numeral tiny_steps g s)
qed

lemma tiny_main:
  assumes "pn_load d n 65536 (\<lambda>_. 0) data = Some (Inr (tiny_module (tiny_function name i) known))" "known PN_INTRINSIC_START = 0"
  shows "pn_main d n 65536 (\<lambda>_. 0) data None None access h =
    Some (Inr ((tiny_at (tiny_function name i) known (start_thread\<lparr>thread_frames := [], thread_inst := 20,
       thread_state := PN_THREAD_DEAD\<rparr>))\<lparr>exiting := True\<rparr>))"
  by (simp add: pn_main_def assms tiny_startinfo tiny_init tiny_run)

section \<open>Properties\<close>

definition whole_words :: "u8 list \<Rightarrow> bool" where
  "whole_words data \<longleftrightarrow> 4 dvd length data \<and> 8 * length data < 2 ^ 32"

lemma whole_words_inv: "whole_words data \<Longrightarrow> bs_inv (pn_bitstream_init data (of_nat (length data)))"
  by (rule bs_inv_init) (auto simp: whole_words_def unat_of_nat_small)

lemma ends_load_times:
  assumes "bs_inv bs" "refs_ok m" "module_functions m = []"
  shows "ends (\<lambda>m. refs_ok m \<and> (\<forall>e\<in>set (code_view m). entry_ok e)) (load_times dedupe n m bs)"
  using assms
proof (induction n arbitrary: m bs)
  case 0
  then show ?case by (simp add: code_view_def)
next
  case (Suc n)
  have reset: "refs_ok (pn_module_reset m')" "module_functions (pn_module_reset m') = []" for m'
    by (simp_all add: refs_ok_def pn_module_reset_def)
  show ?case
    by (auto intro!: ends_obind[OF ends_module_read[OF Suc.prems]] ends_obind[OF ends_seek] Suc.IH reset)
qed

lemma ends_load:
  assumes "whole_words data"
  shows "ends (\<lambda>m. refs_ok m \<and> (\<forall>e\<in>set (code_view m). entry_ok e)) (pn_load dedupe n sz junk data)"
  unfolding pn_load_def
  by (rule ends_load_times[OF whole_words_inv[OF assms]]) (simp_all add: refs_ok_def pn_module_init_def)

lemma tiny_whole_words: "whole_words tiny_file"
  by (simp add: whole_words_def tiny_file_words)

text \<open>What comes between the loading and the run raises no control error either.\<close>

lemma startinfo_ok: "no_control_error (pn_memory_init_startinfo m argv envp)"
proof -
  have st: "no_control_error (store_u32 m k v)" "no_control_error (pn_memory_check_pointer m k w)" for m k v w
    by (simp_all add: store_u32_def pn_memory_check_pointer_def)
  have cp: "no_control_error (copy_strings m t d ss)" for m t d ss
    by (induction ss arbitrary: m t d) (auto intro!: ok_res_bind_any simp: st)
  show ?thesis
    unfolding pn_memory_init_startinfo_def Let_def
    by (intro ok_res_bind_any[OF align_ok(2)] ok_res_bind_any[OF st(1)] ok_res_bind_any[OF st(2)])
      (auto intro!: ok_res_bind_any simp: st cp)
qed

lemma executor_init_no_control: "no_control_error (pn_executor_init m)"
proof -
  have bs: "no_control_error (pn_bitset_init n)" "no_control_error (pn_bitset_set b k v)" for n b k v
    by (auto simp: pn_bitset_init_def pn_bitset_set_def Let_def control_error_def intro!: ok_res_bind_any)
  have mp: "no_control_error (map_pages n b)" for n b
    by (induction n) (auto intro!: ok_res_bind_any simp: bs)
  have "no_control_error (init_module_values m vs)" for m vs
    by (induction vs) (auto simp: module_value_def control_error_def split: PNValueCode.split intro!: ok_res_bind_any)
  then have mv: "no_control_error (pn_executor_init_module_values ex)" for ex
    by (auto simp: pn_executor_init_module_values_def intro!: ok_res_bind_any)
  have push: "ok_res (\<lambda>th. thread_frames th \<noteq> []) (pn_thread_push_function ex start_thread k f)" for ex k f
    unfolding pn_thread_push_function_def Let_def
    by (auto simp: control_error_def dest!: same_control_frames intro!: ok_res_bind_any ok_res_mono[OF init_constants_ok])
  show ?thesis
    unfolding pn_executor_init_def Let_def
    by (auto simp: bs mp mv control_error_def intro!: ok_res_bind_any ok_res_bind[OF push] ok_res_mono[OF set_value_ok])
qed

text \<open>
  C2: Loading ends. On a file of whole words (a multiple of four bytes, shorter than 512 megabytes)
  the reader of the module returns, with a module or with one of its errors, whatever the bytes are and
  however often the file is to be loaded again:
  no loop over blocks, records, abbreviations, array elements or variable-width numbers runs forever.
\<close>

theorem pn_load_ends:
  assumes "whole_words data"
  shows "\<exists>r. pn_load dedupe n sz junk data = Some r \<and> r \<noteq> Inl Diverges"
  using ends_load[OF assms, of dedupe n sz junk] by (auto simp: ends_iff)

theorem pn_load_ends_witness:
  "whole_words tiny_file \<and> (\<exists>r. pn_load True 1 65536 (\<lambda>_. 0) tiny_file = Some r \<and> r \<noteq> Inl Diverges)"
  using pn_load_ends[OF tiny_whole_words] tiny_whole_words by blast

text \<open>
  C6: References of a loaded module, for any number of loads of a file of whole words. Every value of the
  module refers to a function or a global variable that exists, and a function that is known by its name
  (an intrinsic, or \<open>_start\<close>) exists or has the invalid id. In a module without functions its id can also
  be 0, which \<open>pn_module_reset\<close> leaves there between two loads.
\<close>

theorem pn_load_references:
  assumes "whole_words data" and "pn_load dedupe n sz junk data = Some (Inr m)"
  shows "(\<forall>v\<in>set (module_values m).
      value_code v = PN_VALUE_CODE_FUNCTION \<and> value_idx v < length (module_functions m) \<or>
      value_code v = PN_VALUE_CODE_GLOBAL_VAR \<and> value_idx v < length (global_vars m)) \<and>
    (\<forall>i. known_functions m i = PN_INVALID_FUNCTION_ID \<or> known_functions m i < length (module_functions m) \<or>
       known_functions m i = 0 \<and> module_functions m = [])"
  using ends_load[OF assms(1), of dedupe n sz junk] assms(2) by (auto simp: refs_ok_def value_ok_def)

theorem pn_load_references_witness:
  "value_idx (module_values start_module ! 0) < length (module_functions start_module) \<and>
   value_idx (module_values start_module ! 1) < length (global_vars start_module) \<and>
   known_functions start_module PN_INTRINSIC_START < length (module_functions start_module)"
  using pn_load_references[OF tiny_whole_words tiny_load] by (simp add: tiny_defs)

text \<open>
  C1: Control-flow integrity from the file on. Take any file of whole words that the reader accepts, loaded
  any number of times, with at most 65535 blocks in a function and at most 255 arguments in a call. Whatever its code does
  and the host answers, the run that \<open>main\<close> makes of it does not fail because there is no instruction at
  a thread's instruction pointer, because a phi table is executed or missing behind a branch, because a
  return or a \<open>longjmp\<close> does not find its call, or because a thread goes on behind its last frame. (It may
  stop for other reasons, a failed check or undefined behaviour like a \<open>longjmp\<close> through a released buffer.)
\<close>

theorem pn_main_control_flow:
  assumes "whole_words data" and "pn_load dedupe n sz junk data = Some (Inr m)"
    and "\<forall>f\<in>set (module_functions m). length (bbs f) \<le> 65535 \<and> (\<forall>bb\<in>set (bbs f). \<forall>i\<in>set (instructions bb). few_args i)"
    and "pn_main dedupe n sz junk data argv envp access h = Some r"
  shows "ok_res (\<lambda>ex. wf_executor ex \<and> module_functions (ex_module ex) = module_functions m) r"
proof -
  have "\<forall>e\<in>set (code_view m). entry_ok e" using ends_load[OF assms(1), of dedupe n sz junk] assms(2) by simp
  then have wf: "wf_functions (m\<lparr>module_memory := mem\<rparr>)" for mem
    using assms(3) by (auto simp: wf_functions_def code_view_def entry_ok_def)
  have run: "ok_res (\<lambda>ex'. wf_executor ex' \<and> module_functions (ex_module ex') = module_functions m) r'"
    if "pn_executor_init (m\<lparr>module_memory := mem\<rparr>) = Inr ex" "pn_executor_run access h ex = Some r'" for mem ex r'
  proof -
    note init = executor_init_ok[OF that(1) wf]
    have "ok_res (run_ok ex) r'"
      using run_loop_ok[of access h ex 0 r'] init that(2) by (simp add: pn_executor_run_def)
    then show ?thesis using init by (auto simp: run_ok_def elim: ok_res_mono)
  qed
  show ?thesis
  proof (cases "pn_memory_init_startinfo (module_memory m) argv envp")
    case (Inl e)
    then show ?thesis using startinfo_ok[of "module_memory m" argv envp] assms(2,4) by (auto simp: pn_main_def)
  next
    case (Inr mem)
    show ?thesis
    proof (cases "pn_executor_init (m\<lparr>module_memory := mem\<rparr>)")
      case (Inl e)
      then have "r = Inl e" using assms(2,4) Inr by (simp add: pn_main_def)
      then show ?thesis using executor_init_no_control[of "m\<lparr>module_memory := mem\<rparr>"] Inl by simp
    next
      case (Inr ex)
      then show ?thesis
        using run[OF Inr] assms(2,4) \<open>pn_memory_init_startinfo (module_memory m) argv envp = Inr mem\<close>
        by (simp add: pn_main_def)
    qed
  qed
qed

theorem pn_main_control_flow_witness:
  "\<exists>ex. pn_main True 1 65536 (\<lambda>_. 0) tiny_file None None False still_host = Some (Inr ex) \<and>
     wf_executor ex \<and> module_functions (ex_module ex) = module_functions start_module \<and> exiting ex"
proof -
  have "ok_res (\<lambda>ex. wf_executor ex \<and> module_functions (ex_module ex) = module_functions start_module)
      (Inr ((tiny_at (tiny_function (Some ''_start'') PN_INTRINSIC_START) ((\<lambda>_. PN_INVALID_FUNCTION_ID)(PN_INTRINSIC_START := 0))
        (start_thread\<lparr>thread_frames := [], thread_inst := 20, thread_state := PN_THREAD_DEAD\<rparr>))\<lparr>exiting := True\<rparr>))"
    by (rule pn_main_control_flow[OF tiny_whole_words tiny_load _ tiny_main[OF tiny_load]])
      (simp_all add: tiny_defs)
  then show ?thesis using tiny_main[OF tiny_load] by auto
qed

section \<open>Files that are handled badly\<close>

text \<open>The same program without a name for its function, and with an empty one.\<close>

definition unnamed_file :: "u8 list" where
  "unnamed_file =
    [80, 69, 88, 69, 0, 0, 0, 0, 33, 8, 0, 0, 0, 0, 0, 0, 7, 65, 80, 132, 0, 0, 0, 0, 0, 0, 0, 0, 7, 193, 176, 0, 
     124, 4, 96, 112, 53, 0, 64, 0, 35, 132, 0, 0, 64, 19, 2, 0, 0, 0, 0, 0, 23, 65, 48, 32, 12, 192, 67, 160, 6, 
     0, 0, 0, 49, 8, 0, 0, 0, 0, 0, 0, 7, 129, 240, 18, 4, 43, 0, 0, 0, 0, 0, 0]"

lemma unnamed_file_words:
  "length unnamed_file = 84"
  "load_data32 unnamed_file 0 = Inr 1163412816"
  "load_data32 unnamed_file 4 = Inr 0"
  "load_data32 unnamed_file 8 = Inr 2081"
  "load_data32 unnamed_file 12 = Inr 0"
  "load_data32 unnamed_file 16 = Inr 2219852039"
  "load_data32 unnamed_file 20 = Inr 0"
  "load_data32 unnamed_file 24 = Inr 0"
  "load_data32 unnamed_file 28 = Inr 11583751"
  "load_data32 unnamed_file 32 = Inr 1885340796"
  "load_data32 unnamed_file 36 = Inr 4194357"
  "load_data32 unnamed_file 40 = Inr 33827"
  "load_data32 unnamed_file 44 = Inr 136000"
  "load_data32 unnamed_file 48 = Inr 0"
  "load_data32 unnamed_file 52 = Inr 540033303"
  "load_data32 unnamed_file 56 = Inr 2688794636"
  "load_data32 unnamed_file 60 = Inr 6"
  "load_data32 unnamed_file 64 = Inr 2097"
  "load_data32 unnamed_file 68 = Inr 0"
  "load_data32 unnamed_file 72 = Inr 317751559"
  "load_data32 unnamed_file 76 = Inr 11012"
  "load_data32 unnamed_file 80 = Inr 0"
  by (simp_all add: load_data32_def unnamed_file_def le_word_def)

definition nameless_file :: "u8 list" where
  "nameless_file =
    [80, 69, 88, 69, 0, 0, 0, 0, 33, 8, 0, 0, 0, 0, 0, 0, 7, 65, 80, 132, 0, 0, 0, 0, 0, 0, 0, 0, 7, 193, 176, 0, 
     124, 4, 96, 112, 53, 0, 64, 0, 35, 132, 0, 0, 64, 19, 2, 0, 0, 0, 0, 0, 23, 65, 48, 32, 12, 192, 67, 160, 6, 
     0, 0, 0, 57, 8, 0, 0, 0, 0, 0, 0, 7, 1, 0, 0, 49, 8, 0, 0, 0, 0, 0, 0, 7, 129, 240, 18, 4, 43, 0, 0, 0, 0, 0, 
     0]"

lemma nameless_file_words:
  "length nameless_file = 96"
  "load_data32 nameless_file 0 = Inr 1163412816"
  "load_data32 nameless_file 4 = Inr 0"
  "load_data32 nameless_file 8 = Inr 2081"
  "load_data32 nameless_file 12 = Inr 0"
  "load_data32 nameless_file 16 = Inr 2219852039"
  "load_data32 nameless_file 20 = Inr 0"
  "load_data32 nameless_file 24 = Inr 0"
  "load_data32 nameless_file 28 = Inr 11583751"
  "load_data32 nameless_file 32 = Inr 1885340796"
  "load_data32 nameless_file 36 = Inr 4194357"
  "load_data32 nameless_file 40 = Inr 33827"
  "load_data32 nameless_file 44 = Inr 136000"
  "load_data32 nameless_file 48 = Inr 0"
  "load_data32 nameless_file 52 = Inr 540033303"
  "load_data32 nameless_file 56 = Inr 2688794636"
  "load_data32 nameless_file 60 = Inr 6"
  "load_data32 nameless_file 64 = Inr 2105"
  "load_data32 nameless_file 68 = Inr 0"
  "load_data32 nameless_file 72 = Inr 263"
  "load_data32 nameless_file 76 = Inr 2097"
  "load_data32 nameless_file 80 = Inr 0"
  "load_data32 nameless_file 84 = Inr 317751559"
  "load_data32 nameless_file 88 = Inr 11012"
  "load_data32 nameless_file 92 = Inr 0"
  by (simp_all add: load_data32_def nameless_file_def le_word_def)

lemma unnamed_load:
  "pn_load True 1 65536 (\<lambda>_. 0) unnamed_file =
     Some (Inr (tiny_module (tiny_function None PN_INTRINSIC_NULL) (\<lambda>_. PN_INVALID_FUNCTION_ID)))"
  by (simp add: load_eval unnamed_file_words tiny_defs cong: obind_weak_cong rbind_weak_cong)

lemma store_bytes_again: "store_bytes (store_bytes d k bs) k bs = store_bytes d k bs"
  by (auto simp: store_bytes_def fun_eq_iff)

lemma load_twice: "load_times d 2 m bs = obind (pn_module_read d m bs) (\<lambda>(m, bs).
    obind (Some (pn_bitstream_seek_bit bs 0)) (\<lambda>bs.
    load_times d 1 (pn_module_reset (m\<lparr>module_memory := pn_memory_reset (module_memory m)\<rparr>)) bs))"
  unfolding numeral_2_eq_2 One_nat_def load_times.simps(2)[of d "Suc 0" m bs] by (simp del: load_times.simps)

lemma unnamed_reload:
  "pn_load True 2 65536 (\<lambda>_. 0) unnamed_file =
     Some (Inr (tiny_module (tiny_function None PN_INTRINSIC_NULL) (\<lambda>_. 0)))"
  by (simp add: load_eval load_twice unnamed_file_words tiny_defs pn_module_reset_def pn_memory_reset_def store_bytes_again
      cong: obind_weak_cong rbind_weak_cong)

text \<open>
  C38: A reload forgets which functions are known. The file without a function named \<open>_start\<close> is refused
  when it is loaded once. Loaded twice, as \<open>--repeat-load=2\<close> asks, it runs: \<open>pn_module_reset\<close> clears the
  table of known functions to zero, the id of the first function, where \<open>pn_module_init\<close> sets the
  invalid id.
\<close>

theorem pn_reload_runs_first_function:
  "pn_main True 1 65536 (\<lambda>_. 0) unnamed_file None None False still_host = Some (Inl (Check ''start_function_id'')) \<and>
   (\<exists>ex. pn_main True 2 65536 (\<lambda>_. 0) unnamed_file None None False still_host = Some (Inr ex) \<and> exiting ex)"
proof (rule conjI)
  show "pn_main True 1 65536 (\<lambda>_. 0) unnamed_file None None False still_host = Some (Inl (Check ''start_function_id''))"
    unfolding pn_main_def unnamed_load obind_simps tiny_startinfo
    by (simp add: pn_executor_init_def tiny_startinfo tiny_module_def tiny_function_def stream_eval pn_is_aligned_def
      pn_bitset_init_def pn_bitset_set_def pn_executor_init_module_values_def module_value_def cong: rbind_weak_cong)
qed (use tiny_main[OF unnamed_reload] in auto)

text \<open>
  An empty name. A symbol table entry for a function that has no characters makes the reader compare
  a null pointer with the names of the intrinsics.
\<close>

theorem pn_empty_name_undefined:
  "pn_load True 1 65536 (\<lambda>_. 0) nameless_file = Some (Inl (Undefined ''strcmp of a null pointer''))"
  by (simp add: load_eval nameless_file_words cong: obind_weak_cong rbind_weak_cong)

end
