(* ===== verification/Pn_Calls.thy ===== *)
theory Pn_Calls
  imports Pn_Program
begin

text \<open>
  The call stack of a thread, \<^verbatim>\<open>src/pn_executor.h\<close>. An instruction changes the top frame, pushes a frame on it or drops
  frames; it never changes a frame below the top. So a call passes its arguments, what the callee does leaves the
  caller's values alone, and the return gives the caller its result and goes on behind the call.
\<close>

section \<open>What an instruction does to the frames\<close>

inductive frame_step :: "PNCallFrame list \<Rightarrow> PNCallFrame list \<Rightarrow> bool" where
  stay: "frame_step (dropped @ fr # rest) (fr' # rest)"
| call: "frame_values fr' = frame_values fr \<Longrightarrow> frame_step (fr # rest) (g # fr' # rest)"
| finish: "frame_step [fr] []"

lemma stay_top: "frame_step (fr # rest) (fr' # rest)"
  using stay[of "[]"] by simp

lemma stay_caller: "frame_step (fr # caller # rest) (caller' # rest)"
  using stay[of "[fr]"] by simp

text \<open>The frames of thread \<open>t\<close> after a step that succeeds.\<close>

definition frames_after :: "(PNCallFrame list \<Rightarrow> bool) \<Rightarrow> nat \<Rightarrow> PNExecutor res \<Rightarrow> bool" where
  "frames_after P t r \<longleftrightarrow> (\<forall>ex. r = Inr ex \<longrightarrow> (\<exists>th. get_thread ex t = Inr th \<and> P (thread_frames th)))"

lemma frames_after_bind: "(\<And>x. m = Inr x \<Longrightarrow> frames_after P t (f x)) \<Longrightarrow> frames_after P t (rbind m f)"
  by (cases m) (auto simp: frames_after_def)

lemma frames_after_put: "t < length (threads ex) \<Longrightarrow> P (thread_frames th) \<Longrightarrow> frames_after P t (Inr (put_thread ex t th))"
  by (simp add: frames_after_def get_thread_def put_thread_def)

lemma frames_after_error [simp]: "frames_after P t (Inl e)"
  by (simp add: frames_after_def)

text \<open>Operations on the top frame only.\<close>

definition same_below :: "PNThread \<Rightarrow> PNThread \<Rightarrow> bool" where
  "same_below th th' \<longleftrightarrow> (\<exists>fr fr' rest. thread_frames th = fr # rest \<and> thread_frames th' = fr' # rest)"

lemma same_below_trans: "same_below a b \<Longrightarrow> same_below b c \<Longrightarrow> same_below a c"
  by (auto simp: same_below_def)

lemma same_below_step: "same_below th th' \<Longrightarrow> frame_step (thread_frames th) (thread_frames th')"
  by (auto simp: same_below_def intro: stay_top)

lemma advance_frames [simp]: "thread_frames (advance n th) = thread_frames th"
  by (simp add: advance_def)

lemma same_below_advance [simp]: "same_below th (advance n th') \<longleftrightarrow> same_below th th'" "same_below th (th'\<lparr>thread_inst := a\<rparr>) \<longleftrightarrow> same_below th th'"
  "same_below (advance n th) th' \<longleftrightarrow> same_below th th'"
  by (simp_all add: same_below_def advance_def)

lemma same_below_put: "same_below th th' \<Longrightarrow> same_below th (put_frame th' fr)" "thread_frames th \<noteq> [] \<Longrightarrow> same_below th (put_frame th fr)"
  by (auto simp: same_below_def put_frame_def neq_Nil_conv)

lemma same_below_refl: "thread_frames th \<noteq> [] \<Longrightarrow> same_below th th"
  by (auto simp: same_below_def neq_Nil_conv)

lemma set_value_below: "pn_thread_set_value ex th v x = Inr th' \<Longrightarrow> same_below th th'"
  by (auto simp: pn_thread_set_value_def current_frame_def put_frame_def same_below_def res_simps)

lemma set_param_below: "pn_thread_set_param_value th i x = Inr th' \<Longrightarrow> same_below th th'"
  by (auto simp: pn_thread_set_param_value_def current_frame_def put_frame_def same_below_def res_simps)

lemma set_and_advance_frames:
  "t < length (threads ex) \<Longrightarrow> frames_after (frame_step (thread_frames th)) t (set_and_advance ex t th r n v)"
  unfolding set_and_advance_def by (intro frames_after_bind frames_after_put) (auto dest!: set_value_below intro: same_below_step)

lemma finish_call_frames:
  "t < length (threads ex) \<Longrightarrow> same_below th th' \<Longrightarrow> frames_after (frame_step (thread_frames th)) t (finish_call ex t th' r n v)"
  unfolding finish_call_def
  by (intro frames_after_bind frames_after_put) (auto dest!: set_value_below intro: same_below_step[OF same_below_trans])

lemma skip_call_frames:
  "t < length (threads ex) \<Longrightarrow> same_below th th' \<Longrightarrow> frames_after (frame_step (thread_frames th)) t (skip_call ex t th' n)"
  unfolding skip_call_def by (intro frames_after_put) (auto intro: same_below_step)

lemma fast_assigns_below:
  "fast_phi_assigns ex d as th = Inr th' \<Longrightarrow> thread_frames th \<noteq> [] \<Longrightarrow> same_below th th'"
proof (induction "as" arbitrary: th)
  case (Cons a "as")
  obtain th1 where th1: "same_below th th1" "fast_phi_assigns ex d as th1 = Inr th'"
    using Cons.prems by (auto simp: res_simps dest: set_value_below intro: same_below_refl split: if_splits)
  moreover have "thread_frames th1 \<noteq> []" using th1(1) by (auto simp: same_below_def)
  ultimately show ?case using Cons.IH same_below_trans by blast
qed (auto intro: same_below_refl)

lemma write_dests_below:
  "write_phi_dests ex d as th = Inr th' \<Longrightarrow> thread_frames th \<noteq> [] \<Longrightarrow> same_below th th'"
proof (induction "as" arbitrary: th)
  case (Cons a "as")
  obtain th1 where th1: "same_below th th1" "write_phi_dests ex d as th1 = Inr th'"
    using Cons.prems by (cases a) (auto simp: res_simps dest: set_value_below intro: same_below_refl split: if_splits)
  moreover have "thread_frames th1 \<noteq> []" using th1(1) by (auto simp: same_below_def)
  ultimately show ?case using Cons.IH same_below_trans by blast
qed (auto intro: same_below_refl)

lemma jump_frames:
  assumes "t < length (threads ex)" "thread_frames th \<noteq> []"
  shows "frames_after (frame_step (thread_frames th)) t (jump ex t th n dest)"
proof -
  have "same_below th th'" if phi: "pn_thread_do_phi_assigns ex (advance n th) dest = Inr th'" for th'
  proof -
    obtain i where i: "fetch ex (thread_function (advance n th)) (thread_inst (advance n th)) = Inr i"
      using phi unfolding pn_thread_do_phi_assigns_def rbind_eq_Inr by blast
    show ?thesis using phi assms(2) unfolding pn_thread_do_phi_assigns_def i
      by (cases i) (auto simp: res_simps Let_def split: if_splits dest!: fast_assigns_below write_dests_below)
  qed
  then show ?thesis unfolding jump_def using assms(1) by (intro frames_after_bind frames_after_put) (auto dest: same_below_step)
qed

lemma alloca_frames:
  "t < length (threads ex) \<Longrightarrow> frames_after (frame_step (thread_frames th)) t (exec_alloca ex t th r s a)"
  unfolding exec_alloca_def Let_def
  by (intro frames_after_bind frames_after_put)
    (auto simp: current_frame_def put_frame_def same_below_def split: list.splits dest!: set_value_below intro!: stay_top)

section \<open>Intrinsics\<close>

lemma longjmp_target: "find_jmpbuf_frame ident frs = Inr (buf, bufs, fr, rest) \<Longrightarrow> \<exists>dropped. frs = dropped @ fr # rest"
proof (induction frs)
  case (Cons f frs)
  then show ?case by (fastforce simp: res_simps split: option.splits intro: exI[of _ "[]"] exI[of _ "f # _"])
qed simp

lemma longjmp_frames:
  "t < length (threads ex) \<Longrightarrow> frames_after (frame_step (thread_frames th)) t (exec_longjmp ex t th r n args)"
  unfolding exec_longjmp_def Let_def split_def
  by (intro frames_after_bind frames_after_put)
    (auto simp: same_below_def dest!: set_value_below longjmp_target intro!: stay)

lemma setjmp_frames:
  "t < length (threads ex) \<Longrightarrow> frames_after (frame_step (thread_frames th)) t (exec_setjmp ex t th r n args)"
  unfolding exec_setjmp_def Let_def
  by (intro frames_after_bind finish_call_frames)
    (auto simp: current_frame_def split: list.splits intro!: same_below_put)

lemma intrinsic_frames:
  assumes "t < length (threads ex)" "thread_frames th \<noteq> []"
  shows "frames_after (frame_step (thread_frames th)) t (exec_intrinsic op ex t th r n args)"
proof -
  note calls = frames_after_bind finish_call_frames skip_call_frames same_below_refl[OF assms(2)] same_below_put(2)[OF assms(2)]
  have "frames_after (frame_step (thread_frames th)) t (exec_mem_intrinsic op ex t th r n args)" for op
    unfolding exec_mem_intrinsic_def using assms(1) by (intro calls) simp_all
  moreover have "frames_after (frame_step (thread_frames th)) t (exec_cmpxchg w ex t th r n args)"
    "frames_after (frame_step (thread_frames th)) t (exec_atomic_load w ex t th r n args)"
    "frames_after (frame_step (thread_frames th)) t (exec_atomic_store w ex t th r n args)" for w
    unfolding exec_cmpxchg_def exec_atomic_load_def exec_atomic_store_def using assms(1) by (intro calls, simp)+
  moreover have "frame_step (thread_frames th) (thread_frames (th\<lparr>thread_state := PN_THREAD_DEAD\<rparr>))"
    using same_below_step[OF same_below_refl[OF assms(2)]] by simp
  ultimately show ?thesis unfolding exec_intrinsic_def using assms longjmp_frames[OF assms(1)] setjmp_frames[OF assms(1)]
    by (cases op) (simp_all, (intro calls frames_after_put; simp)+)
qed

section \<open>Calls and returns\<close>

lemma set_value_top:
  assumes "pn_thread_set_value ex th v x = Inr th'" "thread_frames th = fr # rest"
  shows "num_module_values ex \<le> v \<and> v - num_module_values ex < length (frame_values fr) \<and>
    th' = th\<lparr>thread_frames := fr\<lparr>frame_values := (frame_values fr)[v - num_module_values ex := x]\<rparr> # rest\<rparr>"
  using assms by (auto simp: pn_thread_set_value_def current_frame_def put_frame_def res_simps)

text \<open>Constants and arguments are written into consecutive values of the new frame.\<close>

lemma init_constants_values:
  assumes "init_constants ex f k cs th = Inr th'" "thread_frames th = g # rest"
  shows "\<exists>ws. th' = th\<lparr>thread_frames := g\<lparr>frame_values := ws\<rparr> # rest\<rparr> \<and> length ws = length (frame_values g) \<and>
    (\<forall>i<length cs. ws ! (num_args f + k + i) = constant_value (cs ! i))"
proof -
  have "\<exists>ws. th' = th\<lparr>thread_frames := g\<lparr>frame_values := ws\<rparr> # rest\<rparr> \<and> length ws = length (frame_values g) \<and>
    (\<forall>i<length cs. ws ! (num_args f + k + i) = constant_value (cs ! i)) \<and> (\<forall>j<num_args f + k. ws ! j = frame_values g ! j)"
    using assms
  proof (induction cs arbitrary: k th g)
    case Nil
    then show ?case by (intro exI[of _ "frame_values g"]) simp
  next
    case (Cons c cs)
    let ?p = "num_args f + k" and ?g = "g\<lparr>frame_values := (frame_values g)[num_args f + k := constant_value c]\<rparr>"
    obtain th1 where th1: "pn_thread_set_value ex th (num_module_values ex + ?p) (constant_value c) = Inr th1" "init_constants ex f (Suc k) cs th1 = Inr th'"
      using Cons.prems(1) by (auto simp: Let_def res_simps add.assoc)
    from set_value_top[OF th1(1) Cons.prems(2)] have p: "?p < length (frame_values g)" "th1 = th\<lparr>thread_frames := ?g # rest\<rparr>" by simp_all
    obtain ws where ws: "th' = th1\<lparr>thread_frames := ?g\<lparr>frame_values := ws\<rparr> # rest\<rparr>" "length ws = length (frame_values ?g)"
      "\<forall>i<length cs. ws ! (num_args f + Suc k + i) = constant_value (cs ! i)" "\<forall>j<num_args f + Suc k. ws ! j = frame_values ?g ! j"
      using Cons.IH[OF th1(2), of ?g] p(2) by auto
    have "ws ! (?p + i) = constant_value ((c # cs) ! i)" if "i < length (c # cs)" for i
      using that ws(3,4) p(1) by (cases i) auto
    then show ?case using ws p by (intro exI[of _ ws]) (simp add: nth_list_update)
  qed
  then show ?thesis by blast
qed

lemma copy_args_values:
  assumes "copy_args ex old k as th = Inr th'" "thread_frames th = g # rest"
  shows "\<exists>ws. th' = th\<lparr>thread_frames := g\<lparr>frame_values := ws\<rparr> # rest\<rparr> \<and> length ws = length (frame_values g) \<and>
    (\<forall>i<length as. pn_executor_get_value_from_frame ex old (as ! i) = Inr (ws ! (k + i))) \<and>
    (\<forall>j. j < k \<or> k + length as \<le> j \<longrightarrow> ws ! j = frame_values g ! j)"
  using assms
proof (induction "as" arbitrary: k th g)
  case Nil
  then show ?case by (intro exI[of _ "frame_values g"]) simp
next
  case (Cons a "as")
  obtain v th1 where th1: "pn_executor_get_value_from_frame ex old a = Inr v" "pn_thread_set_value ex th (num_module_values ex + k) v = Inr th1"
    "copy_args ex old (Suc k) as th1 = Inr th'" using Cons.prems(1) by (auto simp: res_simps)
  let ?g = "g\<lparr>frame_values := (frame_values g)[k := v]\<rparr>"
  from set_value_top[OF th1(2) Cons.prems(2)] have p: "k < length (frame_values g)" "th1 = th\<lparr>thread_frames := ?g # rest\<rparr>" by simp_all
  obtain ws where ws: "th' = th1\<lparr>thread_frames := ?g\<lparr>frame_values := ws\<rparr> # rest\<rparr>" "length ws = length (frame_values ?g)"
    "\<forall>i<length as. pn_executor_get_value_from_frame ex old (as ! i) = Inr (ws ! (Suc k + i))"
    "\<forall>j. j < Suc k \<or> Suc k + length as \<le> j \<longrightarrow> ws ! j = frame_values ?g ! j"
    using Cons.IH[OF th1(3), of ?g] p(2) by auto
  have "pn_executor_get_value_from_frame ex old ((a # as) ! i) = Inr (ws ! (k + i))" if "i < length (a # as)" for i
    using that ws(3,4) p(1) th1(1) by (cases i) auto
  then show ?case using ws p by (intro exI[of _ ws]) (auto simp: nth_list_update)
qed

text \<open>The frame a call of a function pushes.\<close>

definition callee_frame :: "PNExecutor \<Rightarrow> PNCallFrame \<Rightarrow> PNFunctionId \<Rightarrow> PNValueId list \<Rightarrow> PNCallFrame \<Rightarrow> bool" where
  "callee_frame ex caller c args g \<longleftrightarrow> frame_function_id g = c \<and> memory_stack_top g = memory_stack_top caller \<and>
     c < length (module_functions (ex_module ex)) \<and> length (frame_values g) = length (function_values (module_functions (ex_module ex) ! c)) \<and>
     (\<forall>i<length args. pn_executor_get_value_from_frame ex caller (args ! i) = Inr (frame_values g ! i)) \<and>
     (length args \<le> num_args (module_functions (ex_module ex) ! c) \<longrightarrow>
       (\<forall>i<length (constants (module_functions (ex_module ex) ! c)).
          frame_values g ! (num_args (module_functions (ex_module ex) ! c) + i) = constant_value (constants (module_functions (ex_module ex) ! c) ! i)))"

lemma push_callee:
  assumes "thread_frames th = old # rest" "c < length (module_functions (ex_module ex))"
    "pn_thread_push_function ex th c (module_functions (ex_module ex) ! c) = Inr th1" "copy_args ex old 0 as th1 = Inr th2"
  shows "\<exists>g. thread_frames th2 = g # old # rest \<and> thread_function th2 = c \<and> thread_inst th2 = 0 \<and> callee_frame ex old c as g"
proof -
  let ?f = "module_functions (ex_module ex) ! c"
  let ?g = "\<lparr>frame_function_id = c, frame_inst = 0, frame_values = replicate (length (function_values ?f)) 0, frame_jmpbufs = [], memory_stack_top = memory_stack_top old\<rparr>"
  let ?th = "th\<lparr>thread_frames := ?g # old # rest, thread_function := c, thread_inst := 0\<rparr>"
  have "init_constants ex ?f 0 (constants ?f) ?th = Inr th1"
    using assms(1,3) by (auto simp: pn_thread_push_function_def Let_def stack_top_def res_simps split: if_splits)
  from init_constants_values[OF this] obtain ws where ws: "th1 = ?th\<lparr>thread_frames := ?g\<lparr>frame_values := ws\<rparr> # old # rest\<rparr>"
    "length ws = length (function_values ?f)" "\<forall>i<length (constants ?f). ws ! (num_args ?f + i) = constant_value (constants ?f ! i)" by auto
  from copy_args_values[OF assms(4), of "?g\<lparr>frame_values := ws\<rparr>" "old # rest"] ws(1) obtain us where
    us: "th2 = th1\<lparr>thread_frames := ?g\<lparr>frame_values := us\<rparr> # old # rest\<rparr>" "length us = length ws"
    "\<forall>i<length as. pn_executor_get_value_from_frame ex old (as ! i) = Inr (us ! i)" "\<forall>j. length as \<le> j \<longrightarrow> us ! j = ws ! j" by auto
  then show ?thesis using ws assms(2) by (intro exI[of _ "?g\<lparr>frame_values := us\<rparr>"]) (simp add: callee_frame_def)
qed

lemma ret_frames:
  assumes "t < length (threads ex)"
  shows "frames_after (frame_step (thread_frames th)) t (exec_ret ex t th v)"
proof (cases "thread_frames th")
  case (Cons fr frs)
  show ?thesis
  proof (cases frs)
    case Nil
    then show ?thesis using assms Cons finish by (auto simp: exec_ret_def intro!: frames_after_put)
  next
    case (Cons caller rest)
    then show ?thesis using assms \<open>thread_frames th = fr # frs\<close> unfolding exec_ret_def Let_def
      by (auto simp: current_frame_def put_frame_def same_below_def split: option.splits list.splits
          intro!: frames_after_bind frames_after_put stay_caller dest!: set_value_below)
  qed
qed (simp add: exec_ret_def)

definition with_result :: "nat \<Rightarrow> PNRuntimeValue option \<Rightarrow> PNRuntimeValue list \<Rightarrow> PNRuntimeValue list" where
  "with_result k v vs = (case v of None \<Rightarrow> vs | Some x \<Rightarrow> vs[k := x])"

text \<open>A return to a caller stores the value, if there is one, and goes on behind the call.\<close>

lemma ret_frame:
  assumes "exec_ret ex t th v = Inr ex'" "thread_frames th = g # caller # rest" "t < length (threads ex)"
    "fetch ex (frame_function_id caller) (frame_inst caller) = Inr (RCall op r callee n flags args)"
  shows "\<exists>th' jmpbufs. get_thread ex' t = Inr th' \<and>
    thread_frames th' = caller\<lparr>frame_values := with_result (r - num_module_values ex) v (frame_values caller), frame_jmpbufs := jmpbufs\<rparr> # rest \<and>
    thread_function th' = frame_function_id caller \<and> thread_inst th' = frame_inst caller + call_size n \<and>
    (v = None \<or> num_module_values ex \<le> r \<and> r - num_module_values ex < length (frame_values caller))"
proof -
  obtain th1 where set: "(case v of None \<Rightarrow> Inr (th\<lparr>thread_frames := caller # rest\<rparr>)
      | Some x \<Rightarrow> pn_thread_set_value ex (th\<lparr>thread_frames := caller # rest\<rparr>) r x) = Inr th1"
    and ex': "rbind (current_frame th1) (\<lambda>fr. Inr (put_thread ex t ((put_frame th1 (fr\<lparr>frame_jmpbufs := map release (frame_jmpbufs fr)\<rparr>))
       \<lparr>thread_inst := frame_inst caller + call_size n, thread_function := frame_function_id caller\<rparr>))) = Inr ex'"
    using assms(1,2,4) by (auto simp: exec_ret_def fetch_call_def res_simps Let_def)
  show ?thesis
  proof (cases v)
    case None
    then have "th1 = th\<lparr>thread_frames := caller # rest\<rparr>" using set by simp
    with None ex' assms(3) show ?thesis
      by (cases caller) (auto simp: with_result_def current_frame_def put_frame_def get_thread_def put_thread_def)
  next
    case (Some x)
    then have "pn_thread_set_value ex (th\<lparr>thread_frames := caller # rest\<rparr>) r x = Inr th1" using set by simp
    from set_value_top[OF this] ex' assms(3) Some show ?thesis
      by (auto simp: with_result_def current_frame_def put_frame_def get_thread_def put_thread_def)
  qed
qed

context builtins
begin

lemma call_frames:
  assumes at: "at_inst ex t th (RCall OPCODE_CALL r c n fl args)"
  shows "frames_after (frame_step (thread_frames th)) t (exec_call builtin ex t th r c n fl args)"
proof -
  note facts = at_inst_facts[OF at]
  obtain fr rest where frs: "thread_frames th = fr # rest" using facts(2) by (cases "thread_frames th") auto
  have t: "t < length (threads ex)" using at by (auto simp: at_inst_def get_thread_def res_simps)
  define old where "old = fr\<lparr>frame_inst := thread_inst th\<rparr>"
  define th' where "th' = put_frame th old"
  have th': "thread_frames th' = old # rest" "frame_values old = frame_values fr" by (simp_all add: th'_def put_frame_def frs old_def)
  have push: "frames_after (frame_step (thread_frames th)) t (rbind (nth_res (module_functions (ex_module ex)) k) (\<lambda>f.
      rbind (pn_thread_push_function ex th' k f) (\<lambda>th. rbind (copy_args ex old 0 as th) (\<lambda>th. Inr (put_thread ex t th)))))" for k "as"
  proof (intro frames_after_bind frames_after_put t)
    fix f th1 th2 assume "nth_res (module_functions (ex_module ex)) k = Inr f" and p: "pn_thread_push_function ex th' k f = Inr th1" "copy_args ex old 0 as th1 = Inr th2"
    then have k: "k < length (module_functions (ex_module ex))" "f = module_functions (ex_module ex) ! k" by (auto simp: res_simps)
    obtain g where "thread_frames th2 = g # old # rest" using push_callee[OF th'(1) k(1) p(1)[unfolded k(2)] p(2)] by blast
    then show "frame_step (thread_frames th) (thread_frames th2)" using th'(2) by (simp add: frs frame_step.call)
  qed
  have wf': "wf_at t (put_thread ex t th')" "get_thread (put_thread ex t th') t = Inr th'" "thread_state th' \<noteq> PN_THREAD_DEAD"
  proof -
    have "wf_thread (ex_module ex) th'"
      using facts(4) by (simp add: th'_def put_frame_def wf_thread_def thread_locs_def frs frame_loc_def loc_jmpbufs_ok_def old_def)
    then show "wf_at t (put_thread ex t th')" by (rule wf_at_put[OF facts(1)])
    show "get_thread (put_thread ex t th') t = Inr th'" using t by (simp add: get_thread_def put_thread_def)
    show "thread_state th' \<noteq> PN_THREAD_DEAD" using facts(7) by (simp add: th'_def put_frame_def)
  qed
  have builtin: "frames_after (frame_step (thread_frames th)) t (call_builtin builtin ex t th' k r n args)" for k
    unfolding call_builtin_def
  proof (intro frames_after_bind, clarify, intro frames_after_bind frames_after_put)
    fix v ex1 th1 th2 assume b: "builtin k (put_thread ex t th') t n args = Inr (v, ex1)" and g: "get_thread ex1 t = Inr th1"
      and s: "(if r \<noteq> PN_INVALID_VALUE_ID then pn_thread_set_value ex1 th1 r v else Inr th1) = Inr th2"
    show "t < length (threads ex1)" using g by (auto simp: get_thread_def res_simps)
    have "thread_frames th1 = old # rest"
      using builtin_ok[OF wf'(1,2) _ wf'(3), of k n args] b g th'(1) by (auto simp: builtin_keeps_def)
    then have "\<exists>fr'. thread_frames th2 = fr' # rest" using s by (auto split: if_splits dest!: set_value_top)
    then show "frame_step (thread_frames th) (thread_frames (if thread_state th2 = PN_THREAD_RUNNING then advance (call_size n) th2 else th2))"
      by (auto simp: frs intro!: stay_top)
  qed
  show ?thesis unfolding exec_call_def current_frame_def frs list.case rbind.simps old_def[symmetric] th'_def[symmetric] Let_def
    by (split if_split | intro conjI impI push[unfolded frs] builtin[unfolded frs] frames_after_bind)+
qed

lemma execute_frames:
  assumes at: "at_inst ex t th inst"
  shows "frames_after (frame_step (thread_frames th)) t (execute builtin ex t th inst)"
proof -
  note ne = at_inst_facts(2)[OF at]
  have t: "t < length (threads ex)" using at by (auto simp: at_inst_def get_thread_def res_simps)
  have same: "frame_step (thread_frames th) (thread_frames th)" by (rule same_below_step[OF same_below_refl[OF ne]])
  note [intro!] = frames_after_bind set_and_advance_frames[OF t] jump_frames[OF t ne] ret_frames[OF t] alloca_frames[OF t]
  show ?thesis
  proof (cases inst)
    case (RCall op r c n fl args)
    have "frames_after (frame_step (thread_frames th)) t (exec_atomic_rmw aop w ex t th r n args)" for aop w
      unfolding exec_atomic_rmw_def using t by (intro frames_after_bind finish_call_frames same_below_refl[OF ne]) simp
    then show ?thesis using at call_frames intrinsic_frames[OF t ne] by (cases op) (simp_all add: RCall)
  next
    case (RStore bt dest a al)
    show ?thesis unfolding RStore execute.simps using t same by (intro frames_after_bind frames_after_put) simp_all
  qed auto
qed

lemma step_frames:
  assumes "wf_executor ex" "get_thread ex t = Inr th" "thread_state th \<noteq> PN_THREAD_DEAD"
    "pn_thread_execute_instruction builtin ex t = Inr ex'"
  shows "\<exists>th'. get_thread ex' t = Inr th' \<and> frame_step (thread_frames th) (thread_frames th')"
proof -
  obtain i where i: "fetch ex (thread_function th) (thread_inst th) = Inr i" "execute builtin ex t th i = Inr ex'"
    using assms(2,4) by (auto simp: pn_thread_execute_instruction_def res_simps)
  have "thread_frames th \<noteq> []"
    using assms by (auto simp: wf_executor_def wf_thread_def thread_locs_def get_thread_def list_all_iff res_simps split: list.splits)
  moreover have "t \<notin> set (dead_threads ex)" using assms by (auto simp: wf_executor_def wf_dead_def get_thread_def res_simps)
  ultimately have "at_inst ex t th i" using assms(1-3) fetch_code[OF i(1)] by (simp add: at_inst_def wf_at_def)
  from execute_frames[OF this] i(2) show ?thesis by (simp add: frames_after_def)
qed

end

section \<open>What an instruction does to the other threads\<close>

text \<open>Threads other than \<open>t\<close> that are not in the list of dead threads keep their frames and stay out of the list.\<close>

definition others_kept :: "nat \<Rightarrow> PNExecutor \<Rightarrow> PNExecutor \<Rightarrow> bool" where
  "others_kept t ex ex' \<longleftrightarrow> (\<forall>u th. u \<noteq> t \<longrightarrow> get_thread ex u = Inr th \<longrightarrow> u \<notin> set (dead_threads ex) \<longrightarrow>
     u \<notin> set (dead_threads ex') \<and> (\<exists>th'. get_thread ex' u = Inr th' \<and> thread_frames th' = thread_frames th))"

definition others_after :: "nat \<Rightarrow> PNExecutor \<Rightarrow> PNExecutor res \<Rightarrow> bool" where
  "others_after t ex r \<longleftrightarrow> (\<forall>ex'. r = Inr ex' \<longrightarrow> others_kept t ex ex')"

lemma others_after_error [simp]: "others_after t ex (Inl e)"
  by (simp add: others_after_def)

lemma others_after_bind: "(\<And>x. m = Inr x \<Longrightarrow> others_after t ex (f x)) \<Longrightarrow> others_after t ex (rbind m f)"
  by (cases m) (auto simp: others_after_def)

lemma others_after_put:
  "threads ex' = threads ex \<Longrightarrow> dead_threads ex' = dead_threads ex \<Longrightarrow> others_after t ex (Inr (put_thread ex' t th))"
  by (auto simp: others_after_def others_kept_def get_thread_def put_thread_def res_simps)

lemma others_kept_put: "others_kept t ex ex' \<Longrightarrow> others_kept t ex (put_thread ex' t th)"
  by (auto simp: others_kept_def get_thread_def put_thread_def nth_res_def split: if_splits)

lemma others_kept_put_first: "others_kept t (put_thread ex t th) ex' \<Longrightarrow> others_kept t ex ex'"
  by (auto simp: others_kept_def get_thread_def put_thread_def nth_res_def split: if_splits)

lemmas others_intros = others_after_bind others_after_put

lemma call_others:
  assumes "threads ex' = threads ex" "dead_threads ex' = dead_threads ex"
  shows "others_after t ex (finish_call ex' t th r n v)" "others_after t ex (skip_call ex' t th n)"
    "others_after t ex (set_and_advance ex' t th r k v)"
  unfolding finish_call_def skip_call_def set_and_advance_def using assms by (intro others_intros; simp)+

lemma instruction_others:
  "others_after t ex (jump ex t th k dest)" "others_after t ex (exec_alloca ex t th r s a)"
  "others_after t ex (exec_longjmp ex t th r n args)" "others_after t ex (exec_setjmp ex t th r n args)"
  "others_after t ex (exec_atomic_rmw aop w ex t th r n args)"
  unfolding jump_def exec_alloca_def exec_longjmp_def exec_setjmp_def exec_atomic_rmw_def Let_def split_def
  by (intro others_intros call_others; simp)+

lemma ret_others: "others_after t ex (exec_ret ex t th v)"
  unfolding exec_ret_def Let_def by (auto split: list.splits option.splits intro!: others_intros)

lemma intrinsic_others: "others_after t ex (exec_intrinsic op ex t th r n args)"
proof -
  have "others_after t ex (exec_mem_intrinsic op ex t th r n args)" for op
    unfolding exec_mem_intrinsic_def by (intro others_intros call_others; simp)
  moreover have "others_after t ex (exec_cmpxchg w ex t th r n args)" "others_after t ex (exec_atomic_load w ex t th r n args)"
    "others_after t ex (exec_atomic_store w ex t th r n args)" for w
    unfolding exec_cmpxchg_def exec_atomic_load_def exec_atomic_store_def by (intro others_intros call_others; simp)+
  ultimately show ?thesis unfolding exec_intrinsic_def using instruction_others
    by (cases op) (simp_all, (intro others_intros call_others; simp)+)
qed

context builtins
begin

lemma call_builtin_others:
  assumes "wf_at t (put_thread ex t th)" "t < length (threads ex)" "thread_frames th \<noteq> []" "thread_state th \<noteq> PN_THREAD_DEAD"
  shows "others_after t ex (call_builtin builtin ex t th k r n args)"
proof -
  have "others_kept t ex ex1" if b: "builtin k (put_thread ex t th) t n args = Inr (v, ex1)" for v ex1
  proof (rule others_kept_put_first)
    have "get_thread (put_thread ex t th) t = Inr th" using assms(2) by (simp add: get_thread_def put_thread_def)
    from builtin_ok[OF assms(1) this assms(3,4), of k n args] b
    show "others_kept t (put_thread ex t th) ex1"
      by (auto simp: builtin_keeps_def threads_kept_def others_kept_def)
  qed
  then show ?thesis unfolding call_builtin_def
    by (intro others_after_bind) (auto simp: others_after_def res_simps intro!: others_kept_put)
qed

lemma step_others:
  assumes "wf_executor ex" "get_thread ex t = Inr th" "thread_state th \<noteq> PN_THREAD_DEAD"
    "pn_thread_execute_instruction builtin ex t = Inr ex'"
  shows "others_kept t ex ex'"
proof -
  obtain i where i: "fetch ex (thread_function th) (thread_inst th) = Inr i" "execute builtin ex t th i = Inr ex'"
    using assms(2,4) by (auto simp: pn_thread_execute_instruction_def res_simps)
  have t: "t < length (threads ex)" "wf_thread (ex_module ex) th" "wf_at t ex"
    using assms by (auto simp: wf_at_def wf_executor_def wf_dead_def get_thread_def list_all_iff res_simps)
  then have "thread_frames th \<noteq> []" using assms(3) by (auto simp: wf_thread_def thread_locs_def split: list.splits)
  then obtain fr rest where frs: "thread_frames th = fr # rest" by (cases "thread_frames th") auto
  let ?th = "put_frame th (fr\<lparr>frame_inst := thread_inst th\<rparr>)"
  have "wf_thread (ex_module ex) ?th"
    using t(2) by (simp add: put_frame_def wf_thread_def thread_locs_def frs frame_loc_def loc_jmpbufs_ok_def)
  from wf_at_put[OF t(3) this] t(1) assms(3)
  have builtin: "others_after t ex (call_builtin builtin ex t ?th k r n args)" for k r n args
    by (intro call_builtin_others) (simp_all add: put_frame_def)
  have call: "others_after t ex (exec_call builtin ex t th r c n fl args)" for r c n fl args
    unfolding exec_call_def current_frame_def frs list.case rbind.simps Let_def
    by (split if_split | intro conjI impI builtin others_intros refl)+
  have "others_after t ex (execute builtin ex t th i)"
  proof (cases i)
    case (RCall op r c n fl args)
    then show ?thesis using call intrinsic_others instruction_others(5) by (cases op) simp_all
  next
    case (RStore bt dest a al)
    show ?thesis unfolding RStore execute.simps by (intro others_intros; simp)
  qed (auto intro!: others_after_bind call_others instruction_others ret_others)
  then show ?thesis using i(2) by (simp add: others_after_def)
qed

end

text \<open>The scheduler changes links and states only.\<close>

lemma unlink_others:
  assumes "unlink_thread ex u = Inr ex'" "t \<noteq> u" "get_thread ex t = Inr th" "t \<notin> set (dead_threads ex)"
  shows "t \<notin> set (dead_threads ex') \<and> (\<exists>th'. get_thread ex' t = Inr th' \<and> thread_frames th' = thread_frames th)"
  using assms by (auto simp: unlink_thread_def res_simps Let_def get_thread_def put_thread_def nth_list_update)

lemma schedule_others:
  assumes "schedule_next h ex u = Some (Inr (ex', v))" "get_thread ex t = Inr th"
  shows "dead_threads ex' = dead_threads ex \<and> (\<exists>th'. get_thread ex' t = Inr th' \<and> thread_frames th' = thread_frames th)"
proof -
  let ?P = "\<lambda>ex ex'. dead_threads ex' = dead_threads ex \<and> (\<forall>th. get_thread ex t = Inr th \<longrightarrow> (\<exists>th'. get_thread ex' t = Inr th' \<and> thread_frames th' = thread_frames th))"
  have "\<forall>ex' v. r = Inr (ex', v) \<longrightarrow> ?P ex ex'" if "schedule_next h ex u = Some r" for r
  proof (rule schedule_next.raw_induct[where P = "\<lambda>h ex u r. \<forall>ex' v. r = Inr (ex', v) \<longrightarrow> ?P ex ex'", OF _ that], goal_cases)
    case (1 rec h ex u r)
    have log: "get_thread (log_call c ex) t = get_thread ex t" "dead_threads (log_call c ex) = dead_threads ex" for c t
      by (simp_all add: log_call_def get_thread_def)
    have put: "?P ex (put_thread (log_call c ex) u (th\<lparr>thread_state := s, futex_state := f\<rparr>))" if "get_thread ex u = Inr th" for c th s f
      using that by (auto simp: log_call_def get_thread_def put_thread_def nth_list_update res_simps)
    show ?case
      using 1(2) 1(1)[of h "log_call Host_gettimeofday ex" _ r] put
      by (auto simp: log Let_def split: sum.splits PNThreadState.splits if_splits)
  qed
  with assms show ?thesis by blast
qed

section \<open>A call and its return\<close>

lemma frame_step_below:
  assumes "frame_step frs frs'" "frs = upper @ base" "upper \<noteq> []" "length base < length frs'"
  shows "\<exists>upper'. frs' = upper' @ base \<and> upper' \<noteq> []"
  using assms(1)
proof (cases rule: frame_step.cases)
  case (stay dropped fr rest fr')
  then have "upper @ base = (dropped @ [fr]) @ rest" using assms(2) by simp
  then obtain us where "us @ base = rest \<or> base = us @ rest" using append_eq_append_conv2[of upper base] by blast
  then have "\<exists>us. rest = us @ base" using stay(2) assms(4) by auto
  then show ?thesis using stay(2) by (metis append_Cons list.distinct(1))
next
  case (call fr' fr rest g)
  then obtain upper' where "upper = fr # upper'" "rest = upper' @ base" using assms(2,3) by (cases upper) auto
  then show ?thesis using call(2) by (intro exI[of _ "g # fr' # upper'"]) simp
qed (use assms(4) in simp)

text \<open>
  What happens between a call and its return: instructions of the thread that leave more than \<open>d\<close> frames, instructions of
  other threads, the end of quanta, which unlinks threads that died, and the choice of the next thread. The thread itself
  is not unlinked.
\<close>

inductive callee_run :: "bool \<Rightarrow> host \<Rightarrow> nat \<Rightarrow> nat \<Rightarrow> PNExecutor \<Rightarrow> PNExecutor \<Rightarrow> bool" for acc h t d where
  none: "callee_run acc h t d ex ex"
| step: "callee_run acc h t d ex ex1 \<Longrightarrow> get_thread ex1 t = Inr th1 \<Longrightarrow> thread_state th1 = PN_THREAD_RUNNING \<Longrightarrow>
    pn_thread_execute_instruction (pn_builtin acc h) ex1 t = Inr ex2 \<Longrightarrow> get_thread ex2 t = Inr th2 \<Longrightarrow>
    d < length (thread_frames th2) \<Longrightarrow> callee_run acc h t d ex ex2"
| other: "callee_run acc h t d ex ex1 \<Longrightarrow> u \<noteq> t \<Longrightarrow> get_thread ex1 u = Inr th1 \<Longrightarrow> thread_state th1 = PN_THREAD_RUNNING \<Longrightarrow>
    pn_thread_execute_instruction (pn_builtin acc h) ex1 u = Inr ex2 \<Longrightarrow> callee_run acc h t d ex ex2"
| finish: "callee_run acc h t d ex ex1 \<Longrightarrow> u \<notin> set (dead_threads ex1) \<Longrightarrow> finish_quantum ex1 u = Inr (ex2, v) \<Longrightarrow>
    t \<notin> set (dead_threads ex2) \<Longrightarrow> callee_run acc h t d ex ex2"
| schedule: "callee_run acc h t d ex ex1 \<Longrightarrow> schedule_next h ex1 u = Some (Inr (ex2, v)) \<Longrightarrow> callee_run acc h t d ex ex2"

definition over_base :: "nat \<Rightarrow> PNCallFrame list \<Rightarrow> PNExecutor \<Rightarrow> bool" where
  "over_base t base ex \<longleftrightarrow> wf_at t ex \<and> (\<exists>th upper. get_thread ex t = Inr th \<and> thread_frames th = upper @ base \<and> upper \<noteq> [])"

lemma finish_keeps_base:
  assumes "over_base t base ex1" "u \<notin> set (dead_threads ex1)" "finish_quantum ex1 u = Inr (ex2, v)" "t \<notin> set (dead_threads ex2)"
  shows "over_base t base ex2 \<and> ex_module ex2 = ex_module ex1"
proof -
  have "wf_at u ex1" using assms(1,2) by (simp add: over_base_def wf_at_def)
  from finish_quantum_ok[OF this] have ok: "run_ok ex1 ex2" using assms(3) by simp
  obtain th upper where th: "get_thread ex1 t = Inr th" "thread_frames th = upper @ base" "upper \<noteq> []" "t \<notin> set (dead_threads ex1)"
    using assms(1) by (auto simp: over_base_def wf_at_def)
  have "\<exists>th'. get_thread ex2 t = Inr th' \<and> thread_frames th' = thread_frames th"
  proof (cases "ex2 = ex1")
    case False
    then have un: "unlink_thread ex1 u = Inr ex2" using assms(3) by (auto simp: finish_quantum_def res_simps split: if_splits)
    then have "t \<noteq> u" using assms(4) by (auto simp: unlink_thread_def res_simps Let_def)
    from unlink_others[OF un this th(1,4)] show ?thesis by blast
  qed (use th in simp)
  then show ?thesis using ok th assms(4) by (auto simp: over_base_def wf_at_def run_ok_def)
qed

lemma schedule_keeps_base:
  assumes "over_base t base ex1" "schedule_next h ex1 u = Some (Inr (ex2, v))"
  shows "over_base t base ex2 \<and> ex_module ex2 = ex_module ex1"
proof -
  have "wf_executor ex1" using assms(1) by (simp add: over_base_def wf_at_def)
  from schedule_next_ok[OF assms(2) this] have "run_ok ex1 ex2" by simp
  moreover obtain th upper where th: "get_thread ex1 t = Inr th" "thread_frames th = upper @ base" "upper \<noteq> []"
    using assms(1) by (auto simp: over_base_def)
  ultimately show ?thesis using schedule_others[OF assms(2) th(1)] th assms(1) by (auto simp: over_base_def wf_at_def run_ok_def)
qed

lemma callee_run_keeps:
  assumes "callee_run acc h t (length base) ex ex'" "over_base t base ex"
  shows "over_base t base ex' \<and> ex_module ex' = ex_module ex"
  using assms
proof (induction rule: callee_run.induct)
  case (step ex ex1 th1 ex2 th2)
  then obtain upper where ih: "wf_executor ex1" "ex_module ex1 = ex_module ex" "thread_frames th1 = upper @ base" "upper \<noteq> []"
    by (auto simp: over_base_def wf_at_def)
  have "stepped t ex1 ex2" using pn.execute_control[OF ih(1) step.hyps(2), of acc h] step.hyps(3,4) by simp
  moreover have "frame_step (thread_frames th1) (thread_frames th2)"
    using pn.step_frames[OF ih(1) step.hyps(2) _ step.hyps(4)] step.hyps(3,5) by auto
  then have "\<exists>upper'. thread_frames th2 = upper' @ base \<and> upper' \<noteq> []" using ih(3,4) step.hyps(6) by (rule frame_step_below)
  ultimately show ?case using step.hyps(5) ih(2) by (simp add: stepped_def over_base_def)
next
  case (other ex ex1 u th1 ex2)
  then have ih: "over_base t base ex1" "ex_module ex1 = ex_module ex" by blast+
  then have "stepped u ex1 ex2" using pn.execute_control[OF _ other.hyps(3), of acc h] other.hyps(4,5) by (simp add: over_base_def wf_at_def)
  moreover have kept: "others_kept u ex1 ex2"
    using pn.step_others[OF _ other.hyps(3) _ other.hyps(5)] other.hyps(4) ih by (simp add: over_base_def wf_at_def)
  moreover obtain th upper where th: "get_thread ex1 t = Inr th" "thread_frames th = upper @ base" "upper \<noteq> []" "t \<notin> set (dead_threads ex1)"
    using ih(1) by (auto simp: over_base_def wf_at_def)
  ultimately have "t \<notin> set (dead_threads ex2) \<and> (\<exists>th'. get_thread ex2 t = Inr th' \<and> thread_frames th' = thread_frames th)"
    using kept[unfolded others_kept_def, rule_format, of t th] other.hyps(2) by simp
  then show ?case using th ih(2) \<open>stepped u ex1 ex2\<close> by (auto simp: over_base_def wf_at_def stepped_def)
next
  case (finish ex ex1 u ex2 v)
  then show ?case using finish_keeps_base by metis
next
  case (schedule ex ex1 u ex2 v)
  then show ?case using schedule_keeps_base by metis
qed simp

text \<open>A call of a function of the module, direct or through a pointer that is none of a builtin.\<close>

definition function_call :: "PNExecutor \<Rightarrow> nat \<Rightarrow> PNThread \<Rightarrow> PNValueId \<Rightarrow> u8 \<Rightarrow> PNValueId list \<Rightarrow> bool" where
  "function_call ex t th r n args \<longleftrightarrow> get_thread ex t = Inr th \<and> thread_state th = PN_THREAD_RUNNING \<and>
     (\<exists>callee flags. fetch ex (thread_function th) (thread_inst th) = Inr (RCall OPCODE_CALL r callee n flags args) \<and>
       (flags AND 1 \<noteq> 0 \<longrightarrow> (\<forall>fv. pn_thread_get_value ex th callee = Inr fv \<longrightarrow> PN_MAX_BUILTINS \<le> pn_function_pointer_to_index (ucast fv))))"

lemma function_call_pushes:
  assumes "wf_executor ex" "function_call ex t th r n args" "pn_thread_execute_instruction builtin ex t = Inr ex1"
    "thread_frames th = fr # rest"
  shows "\<exists>th1 g c. get_thread ex1 t = Inr th1 \<and> thread_frames th1 = g # fr\<lparr>frame_inst := thread_inst th\<rparr> # rest \<and>
    thread_function th1 = c \<and> thread_inst th1 = 0 \<and> callee_frame ex fr c args g"
proof -
  obtain callee flags where i: "fetch ex (thread_function th) (thread_inst th) = Inr (RCall OPCODE_CALL r callee n flags args)"
    "get_thread ex t = Inr th"
    "flags AND 1 \<noteq> 0 \<Longrightarrow> pn_thread_get_value ex th callee = Inr fv \<Longrightarrow> PN_MAX_BUILTINS \<le> pn_function_pointer_to_index (ucast fv)" for fv
    using assms(2) unfolding function_call_def by blast
  have "wf_stream (code_of (ex_module ex) (thread_function th))"
    using assms(1) wf_code_of[OF _ fetch_code[OF i(1)]] by (simp add: wf_executor_def)
  then have "unat n = length args" using fetch_code[OF i(1)] unfolding wf_stream_def by fastforce
  let ?old = "fr\<lparr>frame_inst := thread_inst th\<rparr>"
  let ?th = "put_frame th ?old"
  have same: "pn_thread_get_value ex ?th callee = pn_thread_get_value ex th callee"
    using assms(4) by (simp add: pn_thread_get_value_def current_frame_def put_frame_def)
  obtain c th0 th1 where c: "c < length (module_functions (ex_module ex))" "pn_thread_push_function ex ?th c (module_functions (ex_module ex) ! c) = Inr th0"
    "copy_args ex ?old 0 args th0 = Inr th1" "ex1 = put_thread ex t th1"
    using assms(3,4) i(1,2) i(3) \<open>unat n = length args\<close>
    by (auto simp: pn_thread_execute_instruction_def exec_call_def current_frame_def Let_def res_simps same leD split: if_splits)
  have "thread_frames ?th = ?old # rest" using assms(4) by (simp add: put_frame_def)
  from push_callee[OF this c(1-3)] obtain g where
    g: "thread_frames th1 = g # ?old # rest" "thread_function th1 = c" "thread_inst th1 = 0" "callee_frame ex ?old c args g" by blast
  have "pn_executor_get_value_from_frame ex ?old = pn_executor_get_value_from_frame ex fr"
    by (simp add: fun_eq_iff pn_executor_get_value_from_frame_def)
  then have "callee_frame ex fr c args g" using g(4) by (simp add: callee_frame_def)
  moreover have "get_thread ex1 t = Inr th1" using c(4) i(2) by (auto simp: get_thread_def put_thread_def res_simps)
  ultimately show ?thesis using g by blast
qed

text \<open>A return instruction with the value it returns, if any.\<close>

definition returning :: "PNExecutor \<Rightarrow> PNThread \<Rightarrow> PNRuntimeValue option \<Rightarrow> bool" where
  "returning ex th v \<longleftrightarrow> (case fetch ex (thread_function th) (thread_inst th) of
       Inr RRet \<Rightarrow> v = None
     | Inr (RRetValue a) \<Rightarrow> (case pn_thread_get_value ex th a of Inr x \<Rightarrow> v = Some x | Inl _ \<Rightarrow> False)
     | _ \<Rightarrow> False)"

lemma returning_exec:
  assumes "get_thread ex t = Inr th" "returning ex th v" "pn_thread_execute_instruction builtin ex t = Inr ex'"
  shows "exec_ret ex t th v = Inr ex'"
proof (cases "fetch ex (thread_function th) (thread_inst th)")
  case (Inr i)
  with assms show ?thesis
    by (cases i) (auto simp: returning_def pn_thread_execute_instruction_def res_simps split: sum.splits)
qed (use assms in \<open>simp add: returning_def\<close>)

text \<open>
  C5: A call of a function and its return, for direct calls, calls through a pointer, returns with and without a value. The
  callee starts with the values of the arguments and its constants. After any instructions of the callee and the
  functions it calls, any instructions of other threads and any decisions of the scheduler, the return goes on behind the call,
  in a frame of the caller in which the result has the returned value and every other value and the stack are as before the
  call; the frames below are unchanged. The thread has to live until then.
\<close>

theorem pn_call_return:
  assumes "wf_executor ex" "function_call ex t th r n args" "thread_frames th = fr # rest"
    "pn_thread_execute_instruction (pn_builtin acc h) ex t = Inr ex1" "callee_run acc h t (Suc (length rest)) ex1 ex2"
    "get_thread ex2 t = Inr th2" "length (thread_frames th2) = Suc (Suc (length rest))" "returning ex2 th2 v"
    "pn_thread_execute_instruction (pn_builtin acc h) ex2 t = Inr ex3"
  shows "(\<exists>th1 g c. get_thread ex1 t = Inr th1 \<and> thread_frames th1 = g # fr\<lparr>frame_inst := thread_inst th\<rparr> # rest \<and>
      thread_function th1 = c \<and> thread_inst th1 = 0 \<and> callee_frame ex fr c args g) \<and>
    (\<exists>th3 fr3. get_thread ex3 t = Inr th3 \<and> thread_frames th3 = fr3 # rest \<and>
      frame_values fr3 = with_result (r - num_module_values ex) v (frame_values fr) \<and>
      (v = None \<or> num_module_values ex \<le> r \<and> r - num_module_values ex < length (frame_values fr)) \<and>
      memory_stack_top fr3 = memory_stack_top fr \<and> frame_function_id fr3 = thread_function th \<and>
      thread_function th3 = thread_function th \<and> thread_inst th3 = thread_inst th + call_size n)"
proof -
  let ?old = "fr\<lparr>frame_inst := thread_inst th\<rparr>"
  obtain th1 g c where th1: "get_thread ex1 t = Inr th1" "thread_frames th1 = g # ?old # rest" "thread_function th1 = c" "thread_inst th1 = 0"
    "callee_frame ex fr c args g" using function_call_pushes[OF assms(1,2,4,3)] by blast
  obtain callee flags where i: "fetch ex (thread_function th) (thread_inst th) = Inr (RCall OPCODE_CALL r callee n flags args)"
    "get_thread ex t = Inr th" "thread_state th = PN_THREAD_RUNNING" using assms(2) by (auto simp: function_call_def)
  have "stepped t ex ex1" using pn.execute_control[OF assms(1) i(2), of acc h] i(3) assms(4) by simp
  then have s1: "over_base t (?old # rest) ex1" "ex_module ex1 = ex_module ex"
    using th1(1,2) by (auto simp: stepped_def over_base_def)
  have "wf_thread (ex_module ex) th" using assms(1) i(2) by (auto simp: wf_executor_def get_thread_def list_all_iff res_simps)
  then have fid: "frame_function_id fr = thread_function th" using assms(3) by (simp add: wf_thread_def thread_locs_def frame_loc_def)
  have m2: "ex_module ex2 = ex_module ex" and "over_base t (?old # rest) ex2"
    using callee_run_keeps[OF _ s1(1), of acc h ex2] assms(5) s1(2) by simp_all
  then obtain upper where upper: "thread_frames th2 = upper @ ?old # rest" using assms(6) by (auto simp: over_base_def)
  then have "length upper = 1" using assms(7) by simp
  then obtain g2 where "thread_frames th2 = g2 # ?old # rest" using upper by (auto simp: length_Suc_conv)
  moreover have "fetch ex2 (frame_function_id ?old) (frame_inst ?old) = Inr (RCall OPCODE_CALL r callee n flags args)"
    using i(1) m2 fid by (simp add: fetch_def)
  ultimately obtain th3 jmpbufs where "get_thread ex3 t = Inr th3"
    "v = None \<or> num_module_values ex2 \<le> r \<and> r - num_module_values ex2 < length (frame_values ?old)"
    "thread_frames th3 = ?old\<lparr>frame_values := with_result (r - num_module_values ex2) v (frame_values ?old), frame_jmpbufs := jmpbufs\<rparr> # rest"
    "thread_function th3 = frame_function_id ?old" "thread_inst th3 = frame_inst ?old + call_size n"
    using ret_frame[OF returning_exec[OF assms(6,8,9)], of g2 ?old rest] assms(6) by (auto simp: get_thread_def res_simps)
  then show ?thesis using th1 fid m2 by (auto simp: num_module_values_def)
qed

section \<open>An example\<close>

definition calling_module :: PNModule where
  "calling_module = example_module\<lparr>
     module_values := map (\<lambda>i. \<lparr>value_code = PN_VALUE_CODE_FUNCTION, value_idx = i, value_type_id = 2\<rparr>) [0, 1],
     module_functions := map (\<lambda>code. example_function\<lparr>constants := [], function_values := [local_value 0, local_value 0], function_instructions := code\<rparr>)
       [[(0, RCall OPCODE_CALL 3 1 1 0 [2]), (20, RRet)], [(0, RRetValue 2)]]\<rparr>"

definition calling_frame :: PNCallFrame where
  "calling_frame = \<lparr>frame_function_id = 0, frame_inst = 0, frame_values = [7, 0], frame_jmpbufs = [], memory_stack_top = 0\<rparr>"

definition calling_thread :: PNThread where
  "calling_thread = start_thread\<lparr>thread_frames := [calling_frame]\<rparr>"

definition calling_executor :: PNExecutor where
  "calling_executor = (counting_at 0 [])\<lparr>ex_module := calling_module, executor_values := [192, 196], threads := [calling_thread]\<rparr>"

definition callee_thread :: PNThread where
  "callee_thread = calling_thread\<lparr>thread_frames := [calling_frame\<lparr>frame_function_id := 1, frame_values := [7, 0]\<rparr>, calling_frame], thread_function := 1\<rparr>"

lemmas calling_defs = calling_executor_def calling_module_def calling_thread_def calling_frame_def callee_thread_def counting_at_def

lemma calling_wf: "wf_executor calling_executor"
proof -
  have "wf_stream [(0, RCall OPCODE_CALL 3 1 1 0 [2]), (20, RRet)]" "wf_stream [(0, RRetValue 2)]"
    by (auto simp: wf_stream_def instr_at_def split: if_splits)
  moreover have "wf_thread calling_module calling_thread"
    by (simp add: wf_thread_def thread_locs_def calling_defs frame_loc_def start_thread_def code_of_def instr_at_def loc_jmpbufs_ok_def)
  ultimately show ?thesis by (simp add: wf_executor_def wf_functions_def wf_dead_def calling_executor_def calling_module_def counting_at_def)
qed

lemma calling_steps:
  "function_call calling_executor 0 calling_thread 3 1 [2]"
  "pn_thread_execute_instruction b calling_executor 0 = Inr (put_thread calling_executor 0 callee_thread)"
  "get_thread (put_thread calling_executor 0 callee_thread) 0 = Inr callee_thread"
  "fetch (put_thread calling_executor 0 callee_thread) 1 0 = Inr (RRetValue 2)"
  "pn_thread_get_value (put_thread calling_executor 0 callee_thread) callee_thread 2 = Inr 7"
  "\<exists>ex. pn_thread_execute_instruction b (put_thread calling_executor 0 callee_thread) 0 = Inr ex"
  by (simp_all add: function_call_def calling_defs get_thread_def fetch_def pn_thread_execute_instruction_def exec_call_def current_frame_def
      put_frame_def pn_thread_push_function_def stack_top_def pn_thread_set_value_def num_module_values_def put_thread_def start_thread_def
      pn_executor_get_value_from_frame_def pn_thread_get_value_def exec_ret_def fetch_call_def example_function_def local_value_def Let_def)

theorem pn_call_return_witness:
  "\<exists>ex3 th3 fr3. pn_thread_execute_instruction (pn_builtin True still_host) (put_thread calling_executor 0 callee_thread) 0 = Inr ex3 \<and>
     get_thread ex3 0 = Inr th3 \<and> thread_frames th3 = [fr3] \<and> frame_values fr3 = [7, 7] \<and> thread_inst th3 = 20"
proof -
  obtain ex3 where ex3: "pn_thread_execute_instruction (pn_builtin True still_host) (put_thread calling_executor 0 callee_thread) 0 = Inr ex3"
    using calling_steps(6) by blast
  have "num_module_values calling_executor = 2" "thread_inst calling_thread = 0" "thread_frames calling_thread = [calling_frame]" "frame_values calling_frame = [7, 0]"
    "length (thread_frames callee_thread) = 2" "thread_function callee_thread = 1" "thread_inst callee_thread = 0"
    by (simp_all add: num_module_values_def calling_defs start_thread_def)
  moreover from this have "returning (put_thread calling_executor 0 callee_thread) callee_thread (Some 7)"
    using calling_steps(4,5) by (simp add: returning_def)
  ultimately show ?thesis
    using pn_call_return[OF calling_wf calling_steps(1) _ calling_steps(2) callee_run.none calling_steps(3) _ _ ex3] ex3
    by (fastforce simp: call_size_def with_result_def)
qed

end
