(* ===== verification/Pn_Text.thy ===== *)
theory Pn_Text
  imports Pn_Prelude
begin

text \<open>
  The parts of the C library's text functions that the sources use: \<open>printf\<close> conversions of integers
  and strings with their widths, \<open>strtol\<close> and \<open>atoi\<close>, and comparison without case. A string is a list of
  characters without the terminating zero.
\<close>

section \<open>Printing\<close>

definition digit :: "nat \<Rightarrow> char" where
  "digit d = char_of (48 + d)"

fun show_nat :: "nat \<Rightarrow> string" where
  "show_nat n = (if n < 10 then [digit n] else show_nat (n div 10) @ [digit (n mod 10)])"

declare show_nat.simps [simp del]

definition show_int :: "int \<Rightarrow> string" where
  "show_int z = (if z < 0 then CHR ''-'' # show_nat (nat (- z)) else show_nat (nat z))"

text \<open>The conversions \<open>%u\<close> and \<open>%d\<close> of an \<open>uint32_t\<close>.\<close>

definition show_u32 :: "u32 \<Rightarrow> string" where
  "show_u32 w = show_nat (unat w)"

definition show_d32 :: "u32 \<Rightarrow> string" where
  "show_d32 w = show_int (sint w)"

definition spaces :: "nat \<Rightarrow> string" where
  "spaces n = replicate n CHR '' ''"

text \<open>The width of \<open>%*s\<close> and \<open>%40s\<close>, of \<open>%-30s\<close>, and the empty string in a field, whose width may be negative.\<close>

definition pad_left :: "nat \<Rightarrow> string \<Rightarrow> string" where
  "pad_left n s = spaces (n - length s) @ s"

definition pad_right :: "nat \<Rightarrow> string \<Rightarrow> string" where
  "pad_right n s = s @ spaces (n - length s)"

definition blank_field :: "int \<Rightarrow> string" where
  "blank_field n = spaces (nat \<bar>n\<bar>)"

text \<open>What \<open>snprintf\<close> leaves in a buffer of \<open>n\<close> bytes, of which the last is zero.\<close>

definition in_buffer :: "nat \<Rightarrow> string \<Rightarrow> string" where
  "in_buffer n s = take (n - 1) s"

definition newline :: string where
  "newline = [CHR 0x0A]"

section \<open>Reading\<close>

definition is_space :: "char \<Rightarrow> bool" where
  "is_space c \<longleftrightarrow> c = CHR '' '' \<or> of_char c \<in> {9 .. 13 :: nat}"

definition is_digit :: "char \<Rightarrow> bool" where
  "is_digit c \<longleftrightarrow> of_char c \<in> {48 .. 57 :: nat}"

definition digits_value :: "string \<Rightarrow> nat" where
  "digits_value ds = foldl (\<lambda>v c. 10 * v + (of_char c - 48)) 0 ds"

definition skip_sign :: "string \<Rightarrow> bool \<times> string" where
  "skip_sign s = (case s of [] \<Rightarrow> (False, s)
     | c # cs \<Rightarrow> if c = CHR ''-'' then (True, cs) else if c = CHR ''+'' then (False, cs) else (False, s))"

text \<open>
  \<open>strtol\<close> in base ten: the number, how many characters were read, and whether \<open>errno\<close> was set because
  the number does not fit.
\<close>

definition strtol :: "string \<Rightarrow> int \<times> nat \<times> bool" where
  "strtol s = (case skip_sign (dropWhile is_space s) of (neg, t) \<Rightarrow>
     let ds = takeWhile is_digit t; v = (if neg then - int (digits_value ds) else int (digits_value ds)) in
     if ds = [] then (0, 0, False)
     else if v > 2 ^ 63 - 1 then (2 ^ 63 - 1, length s - length (dropWhile is_digit t), True)
     else if v < - (2 ^ 63) then (- (2 ^ 63), length s - length (dropWhile is_digit t), True)
     else (v, length s - length (dropWhile is_digit t), False))"

text \<open>\<open>atoi\<close> is \<open>strtol\<close> cut to an \<open>int\<close>.\<close>

definition atoi :: "string \<Rightarrow> int" where
  "atoi s = signed_take_bit 31 (fst (strtol s))"

definition to_lower :: "char \<Rightarrow> char" where
  "to_lower c = (if of_char c \<in> {65 .. 90 :: nat} then char_of (of_char c + 32 :: nat) else c)"

text \<open>Whether \<open>strncasecmp\<close> finds no difference in the first \<open>n\<close> characters.\<close>

fun same_nocase :: "nat \<Rightarrow> string \<Rightarrow> string \<Rightarrow> bool" where
  "same_nocase 0 s t \<longleftrightarrow> True"
| "same_nocase (Suc n) (c # s) (d # t) \<longleftrightarrow> to_lower c = to_lower d \<and> same_nocase n s t"
| "same_nocase (Suc n) [] [] \<longleftrightarrow> True"
| "same_nocase (Suc n) s t \<longleftrightarrow> False"

section \<open>Laws\<close>

lemma of_digit: "d < 10 \<Longrightarrow> of_char (digit d) = 48 + d"
  by (simp add: digit_def)

lemma is_digit_digit [simp]: "d < 10 \<Longrightarrow> is_digit (digit d)"
  by (simp add: is_digit_def of_digit)

lemma show_nat_not_Nil [simp]: "show_nat n \<noteq> []"
  by (subst show_nat.simps) simp

lemma show_nat_digits: "c \<in> set (show_nat n) \<Longrightarrow> is_digit c"
proof (induction n rule: show_nat.induct)
  case (1 n)
  then show ?case using show_nat.simps[of n] by (cases "n < 10") auto
qed

lemma digits_value_snoc: "digits_value (ds @ [c]) = 10 * digits_value ds + (of_char c - 48)"
  by (simp add: digits_value_def)

lemma digits_value_show_nat [simp]: "digits_value (show_nat n) = n"
proof (induction n rule: show_nat.induct)
  case (1 n)
  show ?case
  proof (cases "n < 10")
    case True
    then show ?thesis by (subst show_nat.simps) (simp add: digits_value_def of_digit)
  next
    case False
    then show ?thesis using 1 by (subst show_nat.simps) (simp add: digits_value_snoc of_digit)
  qed
qed

lemma show_nat_inj [simp]: "show_nat m = show_nat n \<longleftrightarrow> m = n"
  by (metis digits_value_show_nat)

lemma length_show_nat: "n < 10 ^ k \<Longrightarrow> 0 < k \<Longrightarrow> length (show_nat n) \<le> k"
proof (induction k arbitrary: n)
  case (Suc k)
  show ?case
  proof (cases "n < 10")
    case True
    then show ?thesis by (subst show_nat.simps) simp
  next
    case False
    then have "0 < k" "n div 10 < 10 ^ k" using Suc.prems by (cases k; simp add: less_mult_imp_div_less mult.commute)+
    then show ?thesis using Suc.IH False by (subst show_nat.simps) simp
  qed
qed simp

lemma length_show_u32: "length (show_u32 w) \<le> 10"
proof -
  have "unat w < 2 ^ 32" using unat_bound[of w] by simp
  then show ?thesis unfolding show_u32_def by (intro length_show_nat) simp_all
qed

lemma digit_not_sign: "is_digit c \<Longrightarrow> c \<noteq> CHR ''-'' \<and> c \<noteq> CHR ''+'' \<and> \<not> is_space c"
  by (auto simp: is_digit_def is_space_def)

lemma strtol_show_nat:
  assumes "n < 2 ^ 63" "\<not> is_digit (hd rest) \<or> rest = []"
  shows "strtol (show_nat n @ rest) = (int n, length (show_nat n), False)"
proof -
  obtain c cs where s: "show_nat n = c # cs" by (cases "show_nat n") auto
  then have c: "is_digit c" using show_nat_digits[of c n] by simp
  have take: "takeWhile is_digit (show_nat n @ rest) = show_nat n" "dropWhile is_digit (show_nat n @ rest) = rest"
    using show_nat_digits[of _ n] assms(2) by (cases rest; auto simp: takeWhile_append dropWhile_append)+
  have "dropWhile is_space (show_nat n @ rest) = show_nat n @ rest" "skip_sign (show_nat n @ rest) = (False, show_nat n @ rest)"
    using s digit_not_sign[OF c] by (auto simp: skip_sign_def)
  then show ?thesis using assms(1) by (simp add: strtol_def take Let_def)
qed

end
