(* ===== verification/Pn_Options.thy ===== *)
theory Pn_Options
  imports Pn_Text Pn_Memory
begin

text \<open>
  The command line of \<^verbatim>\<open>src/pnacl.c\<close>: the environment of the sandboxed program and the options. The C
  library's \<open>getopt_long\<close> is not part of the program: what it returns, call by call, is an argument.
  The options are those of the default build (tracing and timers on, the optional analyses off).
\<close>

section \<open>The environment\<close>

text \<open>
  An environment is a list of entries, or the null pointer. \<open>pn_environ_put\<close> looks for the first entry
  that starts with the characters of \<open>value\<close> before its equals sign.
\<close>

definition pn_environ_copy :: "string list \<Rightarrow> string list" where
  "pn_environ_copy environ = environ"

definition put_count :: "string \<Rightarrow> nat" where
  "put_count value = length (takeWhile (\<lambda>c. c \<noteq> CHR ''='') value)"

definition put_removes :: "string \<Rightarrow> bool" where
  "put_removes value \<longleftrightarrow> CHR ''='' \<notin> set value"

fun put_entry :: "string \<Rightarrow> string list \<Rightarrow> string list" where
  "put_entry value [] = (if put_removes value then [] else [value])"
| "put_entry value (env # envs) =
     (if same_nocase (put_count value) value env then if put_removes value then envs else value # envs
      else env # put_entry value envs)"

definition pn_environ_put :: "string list option \<Rightarrow> string \<Rightarrow> string list option" where
  "pn_environ_put environ value = (case environ of
       Some envs \<Rightarrow> Some (put_entry value envs)
     | None \<Rightarrow> if put_removes value then None else Some [value])"

definition pn_environ_put_all :: "string list option \<Rightarrow> string list \<Rightarrow> string list option" where
  "pn_environ_put_all environ environ_to_put = foldl pn_environ_put environ environ_to_put"

definition pn_environ_print :: "string list option \<Rightarrow> string" where
  "pn_environ_print environ = (case environ of None \<Rightarrow> []
     | Some envs \<Rightarrow> concat (map (\<lambda>env. ''  '' @ env @ newline) envs))"

section \<open>The options\<close>

datatype pn_trace =
    TRACE_FLAGS | TRACE_ABBREV | TRACE_BLOCKINFO_BLOCK | TRACE_TYPE_BLOCK | TRACE_GLOBALVAR_BLOCK
  | TRACE_VALUE_SYMTAB_BLOCK | TRACE_CONSTANTS_BLOCK | TRACE_FUNCTION_BLOCK | TRACE_MODULE_BLOCK | TRACE_BASIC_BLOCKS
  | TRACE_BASIC_BLOCK_EXTRAS | TRACE_INSTRUCTIONS | TRACE_EXECUTE | TRACE_IRT | TRACE_INTRINSICS | TRACE_MEMORY

definition pn_foreach_trace :: "(pn_trace \<times> string) list" where
  "pn_foreach_trace =
     [(TRACE_FLAGS, ''flags''), (TRACE_ABBREV, ''abbrev''), (TRACE_BLOCKINFO_BLOCK, ''blockinfo-block''),
      (TRACE_TYPE_BLOCK, ''type-block''), (TRACE_GLOBALVAR_BLOCK, ''globalvar-block''),
      (TRACE_VALUE_SYMTAB_BLOCK, ''value-symtab-block''), (TRACE_CONSTANTS_BLOCK, ''constants-block''),
      (TRACE_FUNCTION_BLOCK, ''function-block''), (TRACE_MODULE_BLOCK, ''module-block''),
      (TRACE_BASIC_BLOCKS, ''basic-blocks''), (TRACE_BASIC_BLOCK_EXTRAS, ''basic-block-extras''),
      (TRACE_INSTRUCTIONS, ''instructions''), (TRACE_EXECUTE, ''execute''), (TRACE_IRT, ''irt''),
      (TRACE_INTRINSICS, ''intrinsics''), (TRACE_MEMORY, ''memory'')]"

datatype pn_flag =
    PN_FLAG_VERBOSE | PN_FLAG_HELP | PN_FLAG_MEMORY_SIZE | PN_FLAG_NO_RUN | PN_FLAG_FILESYSTEM_ACCESS | PN_FLAG_ENV
  | PN_FLAG_USE_HOST_ENV | PN_FLAG_NO_DEDUPE_PHI_NODES | PN_FLAG_TRACE_ALL | PN_FLAG_TRACE_BLOCK | PN_FLAG_TRACE_BCDIS
  | PN_FLAG_TRACE pn_trace | PN_FLAG_TRACE_FUNCTION_FILTER | PN_FLAG_PRINT_ALL | PN_FLAG_PRINT_NAMED_FUNCTIONS
  | PN_FLAG_PRINT_TIME | PN_FLAG_PRINT_TIME_AS_ZERO | PN_FLAG_PRINT_OPCODE_COUNTS | PN_FLAG_PRINT_STATS
  | PN_FLAG_REPEAT_LOAD

text \<open>The table of long options, in the order of the flags: the name, whether it takes an argument, the short form.\<close>

record long_option =
  option_flag :: pn_flag
  option_name :: string
  option_has_arg :: bool
  option_val :: "char option"

definition long_opt :: "pn_flag \<Rightarrow> string \<Rightarrow> bool \<Rightarrow> char option \<Rightarrow> long_option" where
  "long_opt flag name has_arg val =
     \<lparr>option_flag = flag, option_name = name, option_has_arg = has_arg, option_val = val\<rparr>"

definition g_pn_long_options :: "long_option list" where
  "g_pn_long_options =
     [long_opt PN_FLAG_VERBOSE ''verbose'' False (Some CHR ''v''), long_opt PN_FLAG_HELP ''help'' False (Some CHR ''h''),
      long_opt PN_FLAG_MEMORY_SIZE ''memory-size'' True (Some CHR ''m''), long_opt PN_FLAG_NO_RUN ''no-run'' False (Some CHR ''n''),
      long_opt PN_FLAG_FILESYSTEM_ACCESS ''filesystem-access'' False (Some CHR ''a''),
      long_opt PN_FLAG_ENV ''env'' True (Some CHR ''e''), long_opt PN_FLAG_USE_HOST_ENV ''use-host-env'' False (Some CHR ''E''),
      long_opt PN_FLAG_NO_DEDUPE_PHI_NODES ''no-dedupe-phi-nodes'' False None,
      long_opt PN_FLAG_TRACE_ALL ''trace-all'' False (Some CHR ''t''), long_opt PN_FLAG_TRACE_BLOCK ''trace-block'' False None,
      long_opt PN_FLAG_TRACE_BCDIS ''trace-bcdis'' False None] @
     map (\<lambda>(t, flag). long_opt (PN_FLAG_TRACE t) (''trace-'' @ flag) False None) pn_foreach_trace @
     [long_opt PN_FLAG_TRACE_FUNCTION_FILTER ''trace-function-filter'' True None,
      long_opt PN_FLAG_PRINT_ALL ''print-all'' False (Some CHR ''p''),
      long_opt PN_FLAG_PRINT_NAMED_FUNCTIONS ''print-named-functions'' False None,
      long_opt PN_FLAG_PRINT_TIME ''print-time'' False None, long_opt PN_FLAG_PRINT_TIME_AS_ZERO ''print-time-as-zero'' False None,
      long_opt PN_FLAG_PRINT_OPCODE_COUNTS ''print-opcode-counts'' False None,
      long_opt PN_FLAG_PRINT_STATS ''print-stats'' False None, long_opt PN_FLAG_REPEAT_LOAD ''repeat-load'' True None]"

definition g_pn_option_help :: "(pn_flag \<times> string option \<times> string) list" where
  "g_pn_option_help =
     [(PN_FLAG_MEMORY_SIZE, Some ''SIZE'', ''size of runtime memory. suffixes k=1024, m=1024*1024''),
      (PN_FLAG_ENV, Some ''KEY=VALUE'', ''set runtime environment variable KEY to VALUE''),
      (PN_FLAG_FILESYSTEM_ACCESS, None, ''allow access to host filesystem''),
      (PN_FLAG_TRACE_FUNCTION_FILTER, Some ''NAME'', ''only trace function with given name or id''),
      (PN_FLAG_REPEAT_LOAD, Some ''TIMES'', ''number of times to repeat loading. Useful for profiling'')]"

definition usage_line :: "long_option \<Rightarrow> string" where
  "usage_line opt =
     (let help = map_of g_pn_option_help (option_flag opt) in
      (case option_val opt of Some c \<Rightarrow> ''  -'' @ [c] @ '', '' | None \<Rightarrow> spaces 6) @
      (case help of Some (Some metavar, _) \<Rightarrow> ''--'' @ pad_right 30 (in_buffer 100 (option_name opt @ ''='' @ metavar))
       | _ \<Rightarrow> ''--'' @ pad_right 30 (option_name opt)) @
      (case help of Some (_, text) \<Rightarrow> text | None \<Rightarrow> []) @ newline)"

definition pn_usage :: "string \<Rightarrow> string" where
  "pn_usage prog = ''usage: '' @ prog @ '' [option] filename'' @ newline @ ''options:'' @ newline @
     concat (map usage_line g_pn_long_options)"

text \<open>The global variables that the options set.\<close>

record pn_options =
  g_pn_verbose :: nat
  g_pn_filename :: "string option"
  g_pn_argv :: "string list"
  g_pn_environ :: "string list option"
  g_pn_memory_size :: u32
  g_pn_dedupe_phi_nodes :: bool
  g_pn_print_named_functions :: bool
  g_pn_print_stats :: bool
  g_pn_print_opcode_counts :: bool
  g_pn_run :: bool
  g_pn_repeat_load_times :: u8
  g_pn_filesystem_access :: bool
  g_pn_trace_function_filter :: "string option"
  g_pn_trace :: "pn_trace \<Rightarrow> bool"
  g_pn_print_time :: bool
  g_pn_print_time_as_zero :: bool

definition default_options :: pn_options where
  "default_options =
     \<lparr>g_pn_verbose = 0, g_pn_filename = None, g_pn_argv = [], g_pn_environ = None, g_pn_memory_size = 1024 * 1024,
      g_pn_dedupe_phi_nodes = True, g_pn_print_named_functions = False, g_pn_print_stats = False,
      g_pn_print_opcode_counts = False, g_pn_run = True, g_pn_repeat_load_times = 1, g_pn_filesystem_access = False,
      g_pn_trace_function_filter = None, g_pn_trace = (\<lambda>_. False), g_pn_print_time = False,
      g_pn_print_time_as_zero = False\<rparr>"

section \<open>Parsing\<close>

text \<open>What one call of \<open>getopt_long\<close> returns: 0 with the index of a long option, or a character; and \<open>optarg\<close>.\<close>

datatype getopt_result = Getopt_long nat | Getopt_char char

type_synonym getopt_call = "getopt_result \<times> string option"

definition the_arg :: "string option \<Rightarrow> string res" where
  "the_arg optarg = (case optarg of None \<Rightarrow> Inl (Undefined ''null pointer'') | Some s \<Rightarrow> Inr s)"

text \<open>A product of a \<open>long\<close>: signed overflow is undefined.\<close>

definition long_times :: "int \<Rightarrow> int \<Rightarrow> int res" where
  "long_times x y = (if - (2 ^ 63) \<le> x * y \<and> x * y < 2 ^ 63 then Inr (x * y) else Inl (Undefined ''signed overflow''))"

definition apply_suffix :: "string \<Rightarrow> nat \<Rightarrow> int \<Rightarrow> int res" where
  "apply_suffix optarg endptr sz =
     (if endptr + 1 = length optarg then
        let suffix = optarg ! endptr in
        if suffix = CHR ''k'' \<or> suffix = CHR ''K'' then long_times sz 1024
        else if suffix = CHR ''m'' \<or> suffix = CHR ''M'' then long_times sz (1024 * 1024)
        else Inl (Fatal ''Unknown suffix on memory-size'')
      else if endptr = length optarg then Inr sz
      else Inl (Fatal ''Unable to parse memory-size flag''))"

definition parse_memory_size :: "string \<Rightarrow> u32 res" where
  "parse_memory_size optarg = (case strtol optarg of (sz, endptr, errno) \<Rightarrow>
     rbind (ensure (\<not> errno) (Fatal ''Unable to parse memory-size flag'')) (\<lambda>_.
     rbind (apply_suffix optarg endptr sz) (\<lambda>sz.
     rbind (ensure (\<not> sz < 1024) (Fatal ''Cannot set memory-size smaller than guard size'')) (\<lambda>_.
     rbind (pn_align_up (of_int sz) PN_PAGESIZE) (\<lambda>sz. Inr (ucast sz))))))"

definition parse_repeat_times :: "string \<Rightarrow> u8 res" where
  "parse_repeat_times optarg = (case strtol optarg of (n, endptr, errno) \<Rightarrow>
     if errno \<or> length optarg \<noteq> endptr then Inl (Fatal ''Unable to parse repeat-times flag'') else Inr (of_int n))"

definition set_traces :: "pn_trace list \<Rightarrow> pn_options \<Rightarrow> pn_options" where
  "set_traces ts st = st\<lparr>g_pn_trace := (\<lambda>t. t \<in> set ts \<or> g_pn_trace st t)\<rparr>"

definition block_traces :: "pn_trace list" where
  "block_traces = [TRACE_BLOCKINFO_BLOCK, TRACE_TYPE_BLOCK, TRACE_GLOBALVAR_BLOCK, TRACE_VALUE_SYMTAB_BLOCK,
     TRACE_CONSTANTS_BLOCK, TRACE_FUNCTION_BLOCK, TRACE_MODULE_BLOCK]"

text \<open>The inner switch, for a long option without a short form.\<close>

fun parse_flag :: "pn_flag \<Rightarrow> string option \<Rightarrow> pn_options \<Rightarrow> pn_options res" where
  "parse_flag PN_FLAG_NO_DEDUPE_PHI_NODES optarg st = Inr (st\<lparr>g_pn_dedupe_phi_nodes := False\<rparr>)"
| "parse_flag PN_FLAG_TRACE_BCDIS optarg st =
     Inr (set_traces ([TRACE_ABBREV, TRACE_INSTRUCTIONS] @ block_traces) (st\<lparr>g_pn_trace := (\<lambda>_. False)\<rparr>))"
| "parse_flag PN_FLAG_TRACE_BLOCK optarg st = Inr (set_traces block_traces st)"
| "parse_flag (PN_FLAG_TRACE t) optarg st = Inr (set_traces [t] st)"
| "parse_flag PN_FLAG_TRACE_FUNCTION_FILTER optarg st = Inr (st\<lparr>g_pn_trace_function_filter := optarg\<rparr>)"
| "parse_flag PN_FLAG_PRINT_NAMED_FUNCTIONS optarg st = Inr (st\<lparr>g_pn_print_named_functions := True\<rparr>)"
| "parse_flag PN_FLAG_PRINT_TIME optarg st = Inr (st\<lparr>g_pn_print_time := True\<rparr>)"
| "parse_flag PN_FLAG_PRINT_TIME_AS_ZERO optarg st = Inr (st\<lparr>g_pn_print_time_as_zero := True\<rparr>)"
| "parse_flag PN_FLAG_PRINT_STATS optarg st = Inr (st\<lparr>g_pn_print_stats := True\<rparr>)"
| "parse_flag PN_FLAG_PRINT_OPCODE_COUNTS optarg st = Inr (st\<lparr>g_pn_print_opcode_counts := True\<rparr>)"
| "parse_flag PN_FLAG_REPEAT_LOAD optarg st =
     rbind (the_arg optarg) (\<lambda>s. rbind (parse_repeat_times s) (\<lambda>n. Inr (st\<lparr>g_pn_repeat_load_times := n\<rparr>)))"
| "parse_flag PN_FLAG_FILESYSTEM_ACCESS optarg st = Inr st"
| "parse_flag _ optarg st = Inl (Fatal ''unreachable'')"

text \<open>The outer switch. Help prints the usage and exits; an unknown character only prints a message.\<close>

definition parse_char :: "string list \<Rightarrow> char \<Rightarrow> string option \<Rightarrow> pn_options \<Rightarrow> pn_options res" where
  "parse_char environ_copy c optarg st =
     (if c = CHR ''v'' then Inr (st\<lparr>g_pn_verbose := g_pn_verbose st + 1\<rparr>)
      else if c = CHR ''m'' then
        rbind (the_arg optarg) (\<lambda>s. rbind (parse_memory_size s) (\<lambda>sz. Inr (st\<lparr>g_pn_memory_size := sz\<rparr>)))
      else if c = CHR ''n'' then Inr (st\<lparr>g_pn_run := False\<rparr>)
      else if c = CHR ''e'' then
        rbind (the_arg optarg) (\<lambda>s. Inr (st\<lparr>g_pn_environ := pn_environ_put (g_pn_environ st) s\<rparr>))
      else if c = CHR ''E'' then Inr (st\<lparr>g_pn_environ := pn_environ_put_all (g_pn_environ st) environ_copy\<rparr>)
      else if c = CHR ''t'' then Inr (set_traces (map fst pn_foreach_trace) st)
      else if c = CHR ''p'' then Inr (st\<lparr>g_pn_print_time := True, g_pn_print_stats := True\<rparr>)
      else if c = CHR ''a'' then Inr (st\<lparr>g_pn_filesystem_access := True\<rparr>)
      else if c = CHR ''h'' then Inl (Fatal ''usage'')
      else Inr st)"

definition parse_call :: "string list \<Rightarrow> getopt_call \<Rightarrow> pn_options \<Rightarrow> pn_options res" where
  "parse_call environ_copy call st = (case call of
       (Getopt_char c, optarg) \<Rightarrow> parse_char environ_copy c optarg st
     | (Getopt_long option_index, optarg) \<Rightarrow>
         rbind (nth_res g_pn_long_options option_index) (\<lambda>opt.
         case option_val opt of Some c \<Rightarrow> parse_char environ_copy c optarg st
         | None \<Rightarrow> parse_flag (option_flag opt) optarg st))"

fun parse_calls :: "string list \<Rightarrow> getopt_call list \<Rightarrow> pn_options \<Rightarrow> pn_options res" where
  "parse_calls environ_copy [] st = Inr st"
| "parse_calls environ_copy (call # calls) st =
     rbind (parse_call environ_copy call st) (\<lambda>st. parse_calls environ_copy calls st)"

text \<open>The flags that others turn on, in the order of the code.\<close>

definition trace_dependencies :: "pn_options \<Rightarrow> pn_options" where
  "trace_dependencies st =
     (let st = (if g_pn_trace st TRACE_INSTRUCTIONS then set_traces [TRACE_BASIC_BLOCKS] st else st);
          st = (if g_pn_trace st TRACE_BASIC_BLOCK_EXTRAS then set_traces [TRACE_BASIC_BLOCKS] st else st);
          st = (if g_pn_trace st TRACE_BASIC_BLOCKS then set_traces [TRACE_FUNCTION_BLOCK] st else st)
      in if g_pn_trace st TRACE_EXECUTE then set_traces [TRACE_IRT, TRACE_INTRINSICS] st else st)"

definition pn_options_parse :: "getopt_call list \<Rightarrow> nat \<Rightarrow> string list \<Rightarrow> string list \<Rightarrow> pn_options res" where
  "pn_options_parse calls optind argv env =
     rbind (parse_calls (pn_environ_copy env) calls default_options) (\<lambda>st.
     if optind < length argv
     then Inr (trace_dependencies (st\<lparr>g_pn_filename := Some (argv ! optind), g_pn_argv := drop optind argv\<rparr>))
     else Inl (Fatal ''usage''))"

section \<open>Laws of the environment\<close>

definition entry_key :: "string \<Rightarrow> string" where
  "entry_key e = takeWhile (\<lambda>c. c \<noteq> CHR ''='') e"

definition entry_for :: "string \<Rightarrow> string \<Rightarrow> bool" where
  "entry_for k e \<longleftrightarrow> entry_key e = k \<and> CHR ''='' \<in> set e"

definition env_lookup :: "string \<Rightarrow> string list \<Rightarrow> string option" where
  "env_lookup k envs = map_option (drop (length k + 1)) (find (entry_for k) envs)"

lemma same_nocase_prefix: "same_nocase (length k) (k @ s) (k @ t)"
  by (induction k) auto

lemma same_nocase_append: "same_nocase (length k) (k @ s) e = same_nocase (length k) k e"
proof (induction k arbitrary: e)
  case (Cons c k)
  then show ?case by (cases e) auto
qed simp

lemma entry_for_split: "entry_for k e \<longleftrightarrow> CHR ''='' \<notin> set k \<and> (\<exists>v. e = k @ CHR ''='' # v)"
proof
  assume e: "entry_for k e"
  then have "e = k @ dropWhile (\<lambda>c. c \<noteq> CHR ''='') e" by (metis entry_for_def entry_key_def takeWhile_dropWhile_id)
  moreover from e have "dropWhile (\<lambda>c. c \<noteq> CHR ''='') e \<noteq> []" by (auto simp: entry_for_def dropWhile_eq_Nil_conv)
  moreover from this have "hd (dropWhile (\<lambda>c. c \<noteq> CHR ''='') e) = CHR ''=''" using hd_dropWhile by blast
  moreover have "CHR ''='' \<notin> set k" using e by (auto simp: entry_for_def entry_key_def dest: set_takeWhileD)
  ultimately show "CHR ''='' \<notin> set k \<and> (\<exists>v. e = k @ CHR ''='' # v)" by (metis list.collapse)
qed (auto simp: entry_for_def entry_key_def takeWhile_append)

text \<open>Entries with the key of a put match it, whatever the value is.\<close>

lemma entry_for_matches: "entry_for k e \<Longrightarrow> same_nocase (length k) k e"
  using same_nocase_prefix[of k "[]"] by (auto simp: entry_for_split)

lemma takeWhile_other: "x \<notin> set xs \<Longrightarrow> takeWhile (\<lambda>c. c \<noteq> x) xs = xs"
  by (induction xs) auto

lemma put_parts:
  "CHR ''='' \<notin> set k \<Longrightarrow> put_count (k @ CHR ''='' # v) = length k \<and> \<not> put_removes (k @ CHR ''='' # v)"
  "CHR ''='' \<notin> set k \<Longrightarrow> put_count k = length k \<and> put_removes k"
  by (simp_all add: put_count_def put_removes_def takeWhile_append takeWhile_other)

lemma entry_for_put: "CHR ''='' \<notin> set k \<Longrightarrow> entry_for k' (k @ CHR ''='' # v) \<longleftrightarrow> k' = k"
  by (auto simp: entry_for_def entry_key_def takeWhile_append)

lemma put_entry_lookup:
  assumes "CHR ''='' \<notin> set k" "\<forall>e\<in>set envs. same_nocase (length k) k e \<longrightarrow> entry_for k e"
  shows "env_lookup k' (put_entry (k @ CHR ''='' # v) envs) = (if k' = k then Some v else env_lookup k' envs)"
  using assms(2)
proof (induction envs)
  case Nil
  then show ?case using put_parts(1)[OF assms(1), of v] assms(1) by (simp add: env_lookup_def entry_for_put)
next
  case (Cons e envs)
  note parts = put_parts(1)[OF assms(1), of v]
  show ?case
  proof (cases "same_nocase (length k) k e")
    case True
    then have "entry_for k e" using Cons.prems by simp
    then show ?thesis using True parts assms(1)
      by (auto simp: env_lookup_def entry_for_put same_nocase_append) (auto simp: entry_for_def)
  next
    case False
    then have "\<not> entry_for k e" using entry_for_matches by blast
    then show ?thesis using False parts Cons by (auto simp: env_lookup_def same_nocase_append)
  qed
qed

lemma remove_entry_lookup:
  assumes "CHR ''='' \<notin> set k" "\<forall>e\<in>set envs. same_nocase (length k) k e \<longrightarrow> entry_for k e" "distinct (map entry_key envs)"
  shows "env_lookup k' (put_entry k envs) = (if k' = k then None else env_lookup k' envs)"
  using assms(2,3)
proof (induction envs)
  case Nil
  then show ?case using put_parts(2)[OF assms(1)] by (auto simp: env_lookup_def)
next
  case (Cons e envs)
  note parts = put_parts(2)[OF assms(1)]
  show ?case
  proof (cases "same_nocase (length k) k e")
    case True
    then have e: "entry_for k e" using Cons.prems by simp
    then have "find (entry_for k) envs = None" using Cons.prems(2) by (auto simp: find_None_iff entry_for_def image_iff)
    then show ?thesis using True parts e by (auto simp: env_lookup_def entry_for_def)
  next
    case False
    then have "\<not> entry_for k e" using entry_for_matches by blast
    then show ?thesis using False parts Cons by (auto simp: env_lookup_def)
  qed
qed

text \<open>
  Setting a variable of the environment. If no entry for another variable starts with the name
  \<open>k\<close>, then \<open>k=v\<close> gives \<open>k\<close> the value \<open>v\<close> and \<open>k\<close> alone removes it, and every other variable keeps its value.
\<close>

theorem pn_environ_put_lookup:
  assumes "CHR ''='' \<notin> set k" "\<forall>e\<in>set envs. same_nocase (length k) k e \<longrightarrow> entry_for k e" "distinct (map entry_key envs)"
  shows "\<exists>set_envs del_envs. pn_environ_put (Some envs) (k @ CHR ''='' # v) = Some set_envs \<and>
    pn_environ_put (Some envs) k = Some del_envs \<and>
    (\<forall>k'. env_lookup k' set_envs = (if k' = k then Some v else env_lookup k' envs) \<and>
          env_lookup k' del_envs = (if k' = k then None else env_lookup k' envs))"
  using put_entry_lookup[OF assms(1,2)] remove_entry_lookup[OF assms] by (simp add: pn_environ_put_def)

theorem pn_environ_put_lookup_witness:
  "\<exists>set_envs del_envs. pn_environ_put (Some [''A=1'', ''B=2'']) ''A=3'' = Some set_envs \<and> env_lookup ''A'' set_envs = Some ''3'' \<and>
     pn_environ_put (Some [''A=1'', ''B=2'']) ''A'' = Some del_envs \<and> env_lookup ''A'' del_envs = None"
  using pn_environ_put_lookup[of "''A''" "[''A=1'', ''B=2'']" "''3''"]
  by (auto simp: entry_for_def entry_key_def to_lower_def)

text \<open>
  The names are compared only up to the length of the new one, and without case: setting \<open>p\<close> in an
  environment with a \<open>PATH\<close> takes the entry of \<open>PATH\<close>, and a setting without a name takes the first entry.
\<close>

theorem pn_environ_put_prefix:
  "pn_environ_put (Some [''PATH=/bin'', ''HOME=/'']) ''p=1'' = Some [''p=1'', ''HOME=/''] \<and>
   pn_environ_put (Some [''PATH=/bin'', ''HOME=/'']) ''=1'' = Some [''=1'', ''HOME=/''] \<and>
   pn_environ_put (Some [''PATH=/bin'', ''HOME=/'']) ''h'' = Some [''PATH=/bin'']"
  by code_simp

section \<open>The memory size\<close>

lemma and_ucast_low: "x AND ucast (w :: u32) = take_bit 32 x AND (ucast w :: u64)"
  by (rule bit_word_eqI) (auto simp: bit_and_iff bit_take_bit_iff bit_ucast_iff dest: bit_imp_le_length)

lemma pn_align_up_page:
  assumes "unat x < 2 ^ 64 - 4096"
  shows "\<exists>r. pn_align_up x 4096 = Inr r \<and> unat r = (unat x + 4095) mod 2 ^ 32 div 4096 * 4096"
proof -
  let ?y = "x + 4095"
  have "?y AND ucast (NOT (mask 12) :: u32) = take_bit 32 ?y AND ucast (NOT (mask 12) :: u32)" by (rule and_ucast_low)
  moreover have "unat (take_bit 32 ?y) < 2 ^ 32" unfolding unsigned_take_bit_eq by (rule take_bit_nat_less_exp)
  ultimately have eq: "?y AND ucast (NOT (mask 12) :: u32) = push_bit 12 (drop_bit 12 (take_bit 32 ?y))"
    using and_ucast_not_mask[of "take_bit 32 ?y" 12] by simp
  have "unat ?y = unat x + 4095" using assms unat_add_small[of x 4095] by simp
  then have "unat (take_bit 32 ?y) = (unat x + 4095) mod 2 ^ 32" unfolding unsigned_take_bit_eq by (simp add: take_bit_eq_mod)
  then have "unat (push_bit 12 (drop_bit 12 (take_bit 32 ?y))) = (unat x + 4095) mod 2 ^ 32 div 4096 * 4096"
    using unat_push_drop[of 12 "take_bit 32 ?y"] by simp
  moreover have "assert_align 4096 = Inr ()" using assert_align_pow2[of 12] by simp
  moreover have "(mask 12 :: u32) = 4096 - 1" "x + ucast (4096 :: u32) - 1 = x + 4095" by (simp_all add: mask_eq_exp_minus_1)
  ultimately show ?thesis using eq by (simp only: pn_align_up_def) simp
qed

definition size_suffixes :: "(string \<times> nat) list" where
  "size_suffixes = [([], 1), (''k'', 1024), (''K'', 1024), (''m'', 1024 * 1024), (''M'', 1024 * 1024)]"

lemma apply_suffix_ok:
  assumes "(suffix, factor) \<in> set size_suffixes" "long_times x (int factor) = Inr y"
  shows "apply_suffix (s @ suffix) (length s) x = Inr y"
proof (cases suffix)
  case Nil
  then show ?thesis using assms by (auto simp: size_suffixes_def apply_suffix_def long_times_def split: if_splits)
next
  case (Cons c cs)
  then show ?thesis using assms by (auto simp: size_suffixes_def apply_suffix_def)
qed

text \<open>
  The option for the memory size. A number with the suffix k or m, or none, of at least 1024 bytes is
  rounded up to whole pages and then cut to 32 bits; without overflow of the number that is all that
  is checked, so 4096m gives a memory of no bytes.
\<close>

theorem pn_memory_size_parsed:
  assumes "(suffix, factor) \<in> set size_suffixes" "1024 \<le> n * factor" "n * factor < 2 ^ 63"
  shows "\<exists>sz. parse_memory_size (show_nat n @ suffix) = Inr sz \<and>
    unat sz = (n * factor + 4095) mod 2 ^ 32 div 4096 * 4096"
proof -
  let ?s = "n * factor"
  have "n \<le> ?s" using assms(1) by (auto simp: size_suffixes_def)
  then have "strtol (show_nat n @ suffix) = (int n, length (show_nat n), False)"
    using assms(1,3) by (intro strtol_show_nat) (auto simp: size_suffixes_def is_digit_def)
  note parsed = this
  have "int ?s < 2 ^ 63" using assms(3) by (subst of_nat_less_numeral_power_cancel_iff)
  moreover have "- (2 ^ 63) \<le> int ?s" by (rule order_trans[of _ 0]) simp_all
  ultimately have "long_times (int n) (int factor) = Inr (int ?s)" by (simp add: long_times_def)
  note parsed = parsed this
  have "unat (of_nat ?s :: u64) = ?s" using assms(3) by (intro unat_of_nat_small) simp
  then obtain r where "pn_align_up (of_nat ?s) 4096 = Inr r" "unat r = (?s + 4095) mod 2 ^ 32 div 4096 * 4096"
    using pn_align_up_page[of "of_nat ?s"] assms(3) by auto
  moreover from this have "unat r < 2 ^ 32" by (auto intro: le_less_trans[OF div_times_less_eq_dividend])
  then have "unat (ucast r :: u32) = unat r" by (simp add: unsigned_ucast_eq take_bit_eq_mod)
  moreover have "\<not> int ?s < 1024" using assms(2) by linarith
  ultimately show ?thesis using parsed(1) apply_suffix_ok[OF assms(1) parsed(2)]
    by (simp add: parse_memory_size_def del: of_nat_mult)
qed

theorem pn_memory_size_parsed_witness:
  "(\<exists>sz. parse_memory_size (show_nat 4096 @ ''m'') = Inr sz \<and> unat sz = 0) \<and>
   (\<exists>sz. parse_memory_size (show_nat 5000 @ []) = Inr sz \<and> unat sz = 8192)"
  using pn_memory_size_parsed[of "''m''" "1024 * 1024" 4096] pn_memory_size_parsed[of "[]" 1 5000]
  by (simp add: size_suffixes_def)

end
