(* ===== verification/Pn_Heap.thy ===== *)
theory Pn_Heap
  imports Pn_Program Pn_Options
begin

text \<open>
  The pages that \<open>mmap\<close> and \<open>munmap\<close> of \<^verbatim>\<open>src/pn_builtins.h\<close> hand out. The pages below the heap are mapped from the
  start, every mapped page is below the end of the heap, and the end of the heap is inside the
  memory: this holds after \<open>pn_executor_init\<close> and is kept by both operations and by everything that leaves the page
  map and the bounds of the heap alone. So a block that \<open>mmap\<close> returns is new, and \<open>munmap\<close> gives it back.
\<close>

section \<open>Pages\<close>

definition mapped :: "PNExecutor \<Rightarrow> nat set" where
  "mapped ex = {p. bitset_has (mapped_pages ex) p}"

definition first_page :: "PNExecutor \<Rightarrow> nat" where
  "first_page ex = unat (heap_start (ex_memory ex)) div 4096"

definition last_page :: "PNExecutor \<Rightarrow> nat" where
  "last_page ex = unat (heap_end ex) div 4096"

definition page_count :: "u32 \<Rightarrow> nat" where
  "page_count len = (unat len + 4095) mod 2 ^ 32 div 4096"

definition heap_ok :: "PNExecutor \<Rightarrow> bool" where
  "heap_ok ex \<longleftrightarrow> bitset_inv (mapped_pages ex) \<and> bitset_cap (mapped_pages ex) * 4096 < 2 ^ 32 \<and>
     unat (mem_size (ex_memory ex)) \<le> bitset_cap (mapped_pages ex) * 4096 \<and>
     4096 dvd unat (heap_start (ex_memory ex)) \<and> 4096 dvd unat (heap_end ex) \<and>
     heap_start (ex_memory ex) \<le> heap_end ex \<and> heap_end ex \<le> mem_size (ex_memory ex) \<and>
     {..<first_page ex} \<subseteq> mapped ex \<and> mapped ex \<subseteq> {..<last_page ex}"

text \<open>A place for \<open>n\<close> pages between two pages.\<close>

definition free_run :: "PNBitSet \<Rightarrow> nat \<Rightarrow> nat \<Rightarrow> nat \<Rightarrow> nat \<Rightarrow> bool" where
  "free_run b n lo hi p \<longleftrightarrow> lo \<le> p \<and> p + n \<le> hi \<and> (\<forall>q. p \<le> q \<and> q < p + n \<longrightarrow> \<not> bitset_has b q)"

lemma unat_page_word: "unat (drop_bit 12 (x :: u32)) = unat x div 4096"
  by (simp add: drop_bit_eq_div unat_div)

lemma is_set_page: "bitset_inv b \<Longrightarrow> i < 2 ^ 32 \<Longrightarrow> pn_bitset_is_set b (of_nat i) = Inr v \<Longrightarrow> v = bitset_has b i"
  using bsv.get_ok[of b "of_nat i" v] by (simp add: unat_of_nat_small)

text \<open>The search is first fit. While it runs, a run of \<open>c\<close> free pages ends before \<open>i\<close> and nothing fits earlier.\<close>

lemma find_pages_first_fit:
  assumes "bitset_inv b" "0 < n" "hi < 2 ^ 32" "c < n" "c \<le> i" "lo \<le> i - c" "0 < c \<Longrightarrow> s = i - c"
    "\<And>q. i - c \<le> q \<Longrightarrow> q < i \<Longrightarrow> \<not> bitset_has b q" "\<And>p. free_run b n lo hi p \<Longrightarrow> i - c \<le> p"
    "find_pages b n [i..<hi] c s = Inr found"
  shows "case found of None \<Rightarrow> \<forall>p. \<not> free_run b n lo hi p
    | Some p \<Rightarrow> free_run b n lo hi p \<and> (\<forall>p'. free_run b n lo hi p' \<longrightarrow> p \<le> p')"
  using assms(4-)
proof (induction "hi - i" arbitrary: i c s)
  case 0
  have "\<not> free_run b n lo hi p" for p
  proof
    assume p: "free_run b n lo hi p"
    then have "p + n \<le> hi" by (simp add: free_run_def)
    with 0(7)[OF p] 0(1,2,3) show False by linarith
  qed
  then show ?case using 0 by simp
next
  case (Suc k)
  then have i: "i < hi" "[i..<hi] = i # [Suc i..<hi]" by (simp_all add: upt_conv_Cons)
  have k: "k = hi - Suc i" using Suc(2) by simp
  obtain v where "pn_bitset_is_set b (of_nat i) = Inr v" using Suc.prems(7) i(2) by (auto simp: res_simps)
  moreover from this have "v = bitset_has b i" using is_set_page[OF assms(1)] i(1) assms(3) by force
  ultimately have v: "pn_bitset_is_set b (of_nat i) = Inr (bitset_has b i)" by simp
  show ?case
  proof (cases "bitset_has b i")
    case True
    show ?thesis
    proof (rule Suc.hyps(1)[OF k])
      show "find_pages b n [Suc i..<hi] 0 s = Inr found" using Suc.prems(7) i(2) v True by simp
      fix p assume p: "free_run b n lo hi p"
      have "\<not> (p \<le> i \<and> i < p + n)" using p True unfolding free_run_def by blast
      then show "Suc i - 0 \<le> p" using Suc.prems(6)[OF p] Suc.prems(1,2) by linarith
    qed (use assms(2) Suc.prems in auto)
  next
    case False
    have s: "(if c = 0 then i else s) = i - c" using Suc.prems(4) by simp
    have run: "\<not> bitset_has b q" if "i - c \<le> q" "q < Suc i" for q
      using Suc.prems(5)[of q] that False by (cases "q = i") auto
    show ?thesis
    proof (cases "Suc c = n")
      case True
      then have "found = Some (i - c)" using Suc.prems(7) i(2) v False s by simp
      moreover have "free_run b n lo hi (i - c)" unfolding free_run_def
        using Suc.prems(2,3) True i(1) by (auto dest: run)
      ultimately show ?thesis using Suc.prems(6) by simp
    next
      case more: False
      show ?thesis
      proof (rule Suc.hyps(1)[OF k, of "Suc c" "i - c"])
        show "find_pages b n [Suc i..<hi] (Suc c) (i - c) = Inr found" using Suc.prems(7) i(2) v False more s by simp
      qed (use Suc.prems more in \<open>auto dest: run\<close>)
    qed
  qed
qed

lemma set_pages_has:
  "set_pages b is v = Inr b' \<Longrightarrow> bitset_inv b \<Longrightarrow> \<forall>i\<in>set is. i < 2 ^ 32 \<Longrightarrow>
     bitset_inv b' \<and> bitset_cap b' = bitset_cap b \<and> set is \<subseteq> {..<bitset_cap b} \<and>
     (\<forall>p. bitset_has b' p = (if p \<in> set is then v else bitset_has b p))"
proof (induction "is" arbitrary: b)
  case (Cons i "is")
  obtain b1 where b1: "pn_bitset_set b (of_nat i) v = Inr b1" "set_pages b1 is v = Inr b'" using Cons.prems(1) by (auto simp: res_simps)
  have "unat (of_nat i :: u32) = i" using Cons.prems(3) by (simp add: unat_of_nat_small)
  with bsv.put_ok_inv[OF Cons.prems(2) b1(1)] have "bitset_inv b1" "bitset_cap b1 = bitset_cap b" "i < bitset_cap b"
    "bitset_has b1 = (bitset_has b)(i := v)" by simp_all
  with Cons.IH[OF b1(2)] Cons.prems(3) show ?case by auto
qed simp

section \<open>The operations\<close>

lemma page_alignment: "pn_is_aligned (ucast (x :: u32)) PN_PAGESIZE = Inr (4096 dvd unat x)"
proof -
  have "(ucast x :: u64) AND ucast ((4096 :: u32) - 1) = take_bit 12 (ucast x)"
    by (simp add: take_bit_eq_mask mask_eq_exp_minus_1)
  moreover have "unat (take_bit 12 (ucast x :: u64)) = unat x mod 4096"
    unfolding unsigned_take_bit_eq by (simp add: take_bit_eq_mod unat_ucast_up)
  ultimately have "(ucast x :: u64) AND ucast ((4096 :: u32) - 1) = 0 \<longleftrightarrow> 4096 dvd unat x"
    by (metis unat_eq_zero dvd_eq_mod_eq_0)
  then show ?thesis using assert_align_pow2[of 12] by (simp add: pn_is_aligned_def)
qed

lemma page_round_up: "\<exists>r. pn_align_up (ucast (len :: u32)) PN_PAGESIZE = Inr r \<and> unat (ucast r :: u32) = page_count len * 4096"
proof -
  have "unat (ucast len :: u64) = unat len" by (simp add: unat_ucast_up)
  moreover have "unat len < 2 ^ 32" using unat_bound[of len] by simp
  ultimately obtain r where "pn_align_up (ucast len) 4096 = Inr r" "unat r = page_count len * 4096"
    using pn_align_up_page[of "ucast len"] by (auto simp: page_count_def)
  moreover have "page_count len * 4096 < 2 ^ 32" unfolding page_count_def by (rule le_less_trans[OF div_times_less_eq_dividend]) simp
  ultimately show ?thesis by (auto simp: unsigned_ucast_eq take_bit_nat_eq_self)
qed

lemma heap_okD: "heap_ok ex \<Longrightarrow> bitset_inv (mapped_pages ex)"
  by (simp add: heap_ok_def)

lemma find_no_pages: "find_pages b 0 is c s = Inr found \<Longrightarrow> found = None"
  by (induction b "0 :: nat" "is" c s rule: find_pages.induct) (auto simp: res_simps Let_def split: if_splits)

lemma find_pages_heap:
  assumes "heap_ok ex" "find_pages (mapped_pages ex) n [first_page ex..<last_page ex] 0 0 = Inr found"
  shows "case found of None \<Rightarrow> 0 < n \<longrightarrow> (\<forall>p. \<not> free_run (mapped_pages ex) n (first_page ex) (last_page ex) p)
    | Some p \<Rightarrow> 0 < n \<and> free_run (mapped_pages ex) n (first_page ex) (last_page ex) p \<and>
        (\<forall>p'. free_run (mapped_pages ex) n (first_page ex) (last_page ex) p' \<longrightarrow> p \<le> p')"
proof (cases "n = 0")
  case True
  then have "found = None" using find_no_pages assms(2) by blast
  then show ?thesis using True by simp
next
  case False
  have "last_page ex < 2 ^ 32" unfolding last_page_def using unat_bound[of "heap_end ex"] by simp
  with False have "case found of None \<Rightarrow> \<forall>p. \<not> free_run (mapped_pages ex) n (first_page ex) (last_page ex) p
    | Some p \<Rightarrow> free_run (mapped_pages ex) n (first_page ex) (last_page ex) p \<and>
        (\<forall>p'. free_run (mapped_pages ex) n (first_page ex) (last_page ex) p' \<longrightarrow> p \<le> p')"
    using assms by (intro find_pages_first_fit[where i = "first_page ex" and c = 0]) (auto simp: heap_ok_def free_run_def)
  then show ?thesis using False by (simp split: option.splits)
qed

lemma heap_pages: "heap_ok ex \<Longrightarrow> unat (heap_end ex) = last_page ex * 4096 \<and> unat (heap_start (ex_memory ex)) = first_page ex * 4096 \<and>
    first_page ex \<le> last_page ex \<and> last_page ex < 2 ^ 20"
  using unat_bound[of "heap_end ex"] by (auto simp: heap_ok_def last_page_def first_page_def word_le_nat_alt div_le_mono)

text \<open>Marking the pages of a block in a heap that ends behind it.\<close>

lemma map_block:
  assumes "heap_ok ex" "set_pages (mapped_pages ex) [r..<r + n] True = Inr b" "r + n < 2 ^ 32"
    "unat h = q * 4096" "r + n \<le> q" "last_page ex \<le> q" "h \<le> mem_size (ex_memory ex)"
  shows "mapped (ex\<lparr>heap_end := h, mapped_pages := b\<rparr>) = mapped ex \<union> {r..<r + n} \<and> heap_ok (ex\<lparr>heap_end := h, mapped_pages := b\<rparr>)"
proof -
  let ?ex = "ex\<lparr>heap_end := h, mapped_pages := b\<rparr>"
  have b: "bitset_inv b" "bitset_cap b = bitset_cap (mapped_pages ex)" "\<And>p. bitset_has b p = (p \<in> {r..<r + n} \<or> bitset_has (mapped_pages ex) p)"
    using set_pages_has[OF assms(2)] assms(1,3) by (auto simp: heap_ok_def)
  have m: "mapped ?ex = mapped ex \<union> {r..<r + n}" by (auto simp: mapped_def b(3))
  have "heap_start (ex_memory ex) \<le> h"
    unfolding word_le_nat_alt using heap_pages[OF assms(1)] assms(4,6) by simp
  moreover have "last_page ?ex = q" "first_page ?ex = first_page ex" using assms(4) by (simp_all add: last_page_def first_page_def)
  ultimately show ?thesis using assms m b(1,2) by (auto simp: heap_ok_def)
qed

lemma mmap_block:
  assumes "heap_ok ex" "mmap_pages ex len = Inr (result, ex')"
  shows "\<exists>r. unat result = r * 4096 \<and> first_page ex \<le> r \<and> r + page_count len \<le> last_page ex' \<and>
    mapped ex \<inter> {r..<r + page_count len} = {} \<and> mapped ex' = mapped ex \<union> {r..<r + page_count len} \<and> heap_ok ex' \<and> ex_memory ex' = ex_memory ex \<and>
    (\<forall>p. free_run (mapped_pages ex) (page_count len) (first_page ex) (last_page ex) p \<longrightarrow> r \<le> p \<or> page_count len = 0)"
proof -
  let ?n = "page_count len" and ?b = "mapped_pages ex"
  obtain al where al: "pn_align_up (ucast len) PN_PAGESIZE = Inr al" "unat (ucast al :: u32) = ?n * 4096" using page_round_up by blast
  note hp = heap_pages[OF assms(1)]
  have n: "?n < 2 ^ 20" using unat_bound[of "ucast al :: u32"] al(2) by simp
  obtain found h b where found: "find_pages ?b ?n [first_page ex..<last_page ex] 0 0 = Inr found"
    and place: "(case found of Some p \<Rightarrow> Inr (push_bit 12 (of_nat p), ex) | None \<Rightarrow> grow_heap ex (ucast al)) = Inr (result, h)"
    and b: "set_pages (mapped_pages h) [unat result div 4096..<unat result div 4096 + ?n] True = Inr b" "ex' = h\<lparr>mapped_pages := b\<rparr>"
    using assms(2) unfolding mmap_pages_def
    by (auto simp: al page_alignment res_simps Let_def unat_page_word first_page_def last_page_def)
  note fit = find_pages_heap[OF assms(1) found]
  show ?thesis
  proof (cases found)
    case (Some p)
    then have p: "free_run ?b ?n (first_page ex) (last_page ex) p" "\<And>p'. free_run ?b ?n (first_page ex) (last_page ex) p' \<Longrightarrow> p \<le> p'" using fit by auto
    then have le: "first_page ex \<le> p" "p + ?n \<le> last_page ex" by (simp_all add: free_run_def)
    have res: "result = push_bit 12 (of_nat p)" "h = ex" using place Some by auto
    have "result = of_nat (p * 4096)" by (simp add: res(1) push_bit_eq_mult)
    then have "unat result = p * 4096" using le(2) hp by (simp only:) (rule unat_of_nat_small, simp)
    moreover have "mapped ex \<inter> {p..<p + ?n} = {}" using p(1) by (auto simp: free_run_def mapped_def)
    moreover have "mapped (ex\<lparr>heap_end := heap_end ex, mapped_pages := b\<rparr>) = mapped ex \<union> {p..<p + ?n} \<and> heap_ok (ex\<lparr>heap_end := heap_end ex, mapped_pages := b\<rparr>)"
      using b(1) calculation(1) res(2) le hp assms(1) by (intro map_block[where q = "last_page ex"]) (auto simp: heap_ok_def)
    ultimately show ?thesis using le p(2) by (intro exI[of _ p]) (auto simp: b(2) res(2) last_page_def)
  next
    case None
    then obtain check: "pn_memory_check (ex_memory ex) (heap_end ex) (ucast al) = Inr ()" and res: "result = heap_end ex" "h = ex\<lparr>heap_end := heap_end ex + ucast al\<rparr>"
      using place by (auto simp: grow_heap_def res_simps Let_def)
    have r: "unat result = last_page ex * 4096" using hp res(1) by simp
    have "set [last_page ex..<last_page ex + ?n] \<subseteq> {..<bitset_cap ?b}"
      using set_pages_has[OF b(1)] assms(1) hp n r by (auto simp: res(2) heap_ok_def)
    then have "?n = 0 \<or> last_page ex + ?n \<le> bitset_cap ?b" using atLeastLessThan_subset_iff[of "last_page ex" "last_page ex + ?n" 0 "bitset_cap ?b"]
      by (auto simp: lessThan_atLeast0)
    then have "(last_page ex + ?n) * 4096 < 2 ^ 32" using assms(1) hp by (auto simp: heap_ok_def)
    then have h: "unat (heap_end ex + ucast al) = (last_page ex + ?n) * 4096" using hp al(2) by (subst unat_add_small) auto
    have "heap_end ex + ucast al \<le> mem_size (ex_memory ex)" using check by (auto simp: pn_memory_check_def split: if_splits)
    then have "mapped (ex\<lparr>heap_end := heap_end ex + ucast al, mapped_pages := b\<rparr>) = mapped ex \<union> {last_page ex..<last_page ex + ?n} \<and>
        heap_ok (ex\<lparr>heap_end := heap_end ex + ucast al, mapped_pages := b\<rparr>)"
      using b(1) r n hp h by (intro map_block[OF assms(1), where q = "last_page ex + ?n"]) (auto simp: res(2))
    moreover have "last_page (ex\<lparr>heap_end := heap_end ex + ucast al, mapped_pages := b\<rparr>) = last_page ex + ?n" by (simp add: last_page_def h)
    moreover have "mapped ex \<inter> {last_page ex..<last_page ex + ?n} = {}" using assms(1) by (auto simp: heap_ok_def)
    ultimately show ?thesis using r hp fit None by (intro exI[of _ "last_page ex"]) (auto simp: b(2) res(2))
  qed
qed

text \<open>Unmapping clears pages of the heap only.\<close>

lemma unmap_pages:
  assumes "heap_ok ex" "set_pages (mapped_pages ex) [lo..<hi] False = Inr b" "first_page ex \<le> lo" "hi \<le> last_page ex"
  shows "mapped (ex\<lparr>mapped_pages := b\<rparr>) = mapped ex - {lo..<hi} \<and> heap_ok (ex\<lparr>mapped_pages := b\<rparr>)"
proof -
  have "\<forall>i\<in>set [lo..<hi]. i < 2 ^ 32" using heap_pages[OF assms(1)] assms(4) by auto
  then have b: "bitset_inv b" "bitset_cap b = bitset_cap (mapped_pages ex)" "\<And>p. bitset_has b p = (p \<notin> {lo..<hi} \<and> bitset_has (mapped_pages ex) p)"
    using set_pages_has[OF assms(2) heap_okD[OF assms(1)]] by (simp_all split: if_splits)
  have "mapped (ex\<lparr>mapped_pages := b\<rparr>) = mapped ex - {lo..<hi}" by (auto simp: mapped_def b(3))
  then show ?thesis using assms b(1,2) by (auto simp: heap_ok_def first_page_def last_page_def)
qed

lemma munmap_keeps:
  assumes "heap_ok ex" "munmap_pages ex a len = Inr ex'"
  shows "heap_ok ex' \<and> mapped ex' \<subseteq> mapped ex \<and> {..<first_page ex} \<subseteq> mapped ex'"
proof -
  let ?first = "drop_bit 12 (heap_start (ex_memory ex))" and ?last = "drop_bit 12 (heap_end ex)"
  obtain x y b where b: "set_pages (mapped_pages ex) [unat (if x < ?first then ?first else x)..<unat (if y > ?last then ?last else y)] False = Inr b"
    "ex' = ex\<lparr>mapped_pages := b\<rparr>"
    using assms(2)[unfolded munmap_pages_def Let_def rbind_eq_Inr] by (elim exE conjE) (rule that, assumption, simp)
  have "first_page ex \<le> unat (if x < ?first then ?first else x)" "unat (if y > ?last then ?last else y) \<le> last_page ex"
    by (auto simp: word_less_nat_alt first_page_def last_page_def unat_page_word)
  note b = b(1) this b(2)
  with unmap_pages[OF assms(1) b(1-3)] assms(1) show ?thesis by (auto simp: heap_ok_def)
qed

lemma set_pages_in:
  "bitset_inv b \<Longrightarrow> \<forall>i\<in>set is. i < bitset_cap b \<Longrightarrow> bitset_cap b < 2 ^ 32 \<Longrightarrow> \<exists>b'. set_pages b is v = Inr b'"
proof (induction "is" arbitrary: b)
  case (Cons i "is")
  then have "unat (of_nat i :: u32) = i" by (intro unat_of_nat_small) simp
  then obtain b1 where "pn_bitset_set b (of_nat i) v = Inr b1" "bitset_inv b1" "bitset_cap b1 = bitset_cap b"
    using bsv.put_in[of b "of_nat i" v] Cons.prems by auto
  then show ?case using Cons.IH[of b1] Cons.prems by simp
qed simp

lemma munmap_block:
  assumes "heap_ok ex" "unat a = r * 4096" "first_page ex \<le> r" "r + page_count len \<le> last_page ex" "unat len + 4095 < 2 ^ 32"
  shows "\<exists>ex'. munmap_pages ex a len = Inr ex' \<and> mapped ex' = mapped ex - {r..<r + page_count len} \<and> heap_ok ex'"
proof -
  let ?n = "page_count len"
  note hp = heap_pages[OF assms(1)]
  have len: "unat len \<le> ?n * 4096" "?n = (unat len + 4095) div 4096" using assms(5) round_up_bounds(1)[of 4096 "unat len"]
    by (simp_all add: page_count_def)
  have al: "unat (a + len) = r * 4096 + unat len" using assms(2,4) len(1) hp by (subst unat_add_small) auto
  then have "page_count (a + len) = r + ?n" using assms(4) hp len by (simp add: page_count_def)
  then obtain up where up: "pn_align_up (ucast (a + len)) PN_PAGESIZE = Inr up" "unat (ucast up :: u32) = (r + ?n) * 4096"
    using page_round_up[of "a + len"] by auto
  obtain dn where dn: "pn_align_down (ucast a) PN_PAGESIZE = Inr dn" "unat dn = r * 4096"
    using pn_align_down_pow2[of 12 "ucast a"] unat_bound[of a] assms(2) by (auto simp: unat_ucast_up)
  then have dn32: "unat (ucast dn :: u32) = r * 4096" using unat_bound[of a] assms(2) by (simp add: unsigned_ucast_eq take_bit_nat_eq_self)
  have pages: "unat (drop_bit 12 (ucast up - ucast dn :: u32)) = ?n"
    using up(2) dn32 by (simp add: unat_page_word unat_sub word_le_nat_alt)
  have beg: "unat (drop_bit 12 (ucast dn :: u32)) = r" using dn32 by (simp add: unat_page_word)
  have fin: "unat (drop_bit 12 (ucast dn :: u32) + drop_bit 12 (ucast up - ucast dn)) = r + ?n"
    using pages beg assms(4) hp by (subst unat_add_small) auto
  have "last_page ex \<le> bitset_cap (mapped_pages ex)" using assms(1) hp by (auto simp: heap_ok_def word_le_nat_alt)
  then obtain b where b: "set_pages (mapped_pages ex) [r..<r + ?n] False = Inr b"
    using set_pages_in[of "mapped_pages ex" "[r..<r + ?n]" False] assms(1,4) by (auto simp: heap_ok_def)
  moreover have "\<not> drop_bit 12 (ucast dn) < drop_bit 12 (heap_start (ex_memory ex))"
    "\<not> drop_bit 12 (ucast dn) + drop_bit 12 (ucast up - ucast dn) > drop_bit 12 (heap_end ex)"
    using assms(3,4) by (simp_all only: word_less_nat_alt beg fin unat_page_word[symmetric] first_page_def last_page_def not_less)
  ultimately have "munmap_pages ex a len = Inr (ex\<lparr>mapped_pages := b\<rparr>)"
    by (simp only: munmap_pages_def up(1) dn(1) Let_def rbind.simps beg fin if_False)
  with unmap_pages[OF assms(1) b assms(3,4)] show ?thesis by blast
qed

section \<open>Reachable heaps\<close>

lemma map_pages_has:
  "map_pages k b = Inr b' \<Longrightarrow> bitset_inv b \<Longrightarrow> k < 2 ^ 32 \<Longrightarrow>
     bitset_inv b' \<and> bitset_cap b' = bitset_cap b \<and> (\<forall>p. bitset_has b' p = (p < k \<or> bitset_has b p))"
proof (induction k arbitrary: b')
  case (Suc k)
  obtain b1 where b1: "map_pages k b = Inr b1" "pn_bitset_set b1 (of_nat k) True = Inr b'" using Suc.prems(1) by (auto simp: res_simps)
  have "unat (of_nat k :: u32) = k" using Suc.prems(3) by (intro unat_of_nat_small) simp
  with Suc.IH[OF b1(1) Suc.prems(2)] bsv.put_ok_inv[OF _ b1(2)] Suc.prems(3) show ?case by (auto simp: less_Suc_eq)
qed simp

lemma init_bitset:
  assumes "pn_bitset_init n = Inr b"
  shows "bitset_inv b \<and> n \<le> bitset_cap b \<and> bitset_cap b \<le> n + 31 \<and> (\<forall>p. \<not> bitset_has b p)"
proof -
  have n: "n + 31 < 2 ^ 31" "b = \<lparr>num_words = of_nat ((n + 31) div 32), words = replicate ((n + 31) div 32) 0\<rparr>"
    using assms by (auto simp: pn_bitset_init_def split: if_splits)
  then have "unat (num_words b) = (n + 31) div 32" by (simp, intro unat_of_nat_small) simp
  then show ?thesis using n(2) by (auto simp: bitset_inv_def bitset_cap_def bitset_has_def)
qed

lemma init_heap_ok:
  assumes "pn_executor_init m = Inr ex" "heap_start (module_memory m) \<le> mem_size (module_memory m)"
    "unat (mem_size (module_memory m)) + 2 ^ 17 \<le> 2 ^ 32"
  shows "heap_ok ex"
proof -
  let ?mem = "module_memory m"
  obtain b0 b where al: "4096 dvd unat (mem_size ?mem)" "4096 dvd unat (heap_start ?mem)"
    and b: "pn_bitset_init (unat (mem_size ?mem) div 4096) = Inr b0" "map_pages (unat (heap_start ?mem) div 4096) b0 = Inr b"
    and ex: "ex_memory ex = ?mem" "mapped_pages ex = b" "heap_end ex = heap_start ?mem"
    using assms(1) unfolding pn_executor_init_def
    by (auto simp: res_simps Let_def page_alignment unat_page_word pn_executor_init_module_values_def put_thread_def)
  note b0 = init_bitset[OF b(1)]
  have "unat (heap_start ?mem) div 4096 < 2 ^ 32" using unat_bound[of "heap_start ?mem"] by simp
  note b1 = map_pages_has[OF b(2) b0[THEN conjunct1] this]
  have "mapped ex = {..<unat (heap_start ?mem) div 4096}" using b0 b1 by (auto simp: mapped_def ex)
  moreover have "bitset_cap b * 4096 < 2 ^ 32" "unat (mem_size ?mem) \<le> bitset_cap b * 4096" using b0 b1 al(1) assms(3) by auto
  ultimately show ?thesis using b1 al(2) assms(2) by (simp add: heap_ok_def ex first_page_def last_page_def)
qed

text \<open>The executors of a run: the start as \<open>main\<close> makes it, then any calls of \<open>mmap\<close> and \<open>munmap\<close>.\<close>

inductive heap_reachable :: "PNModule \<Rightarrow> PNExecutor \<Rightarrow> bool" for m where
  start: "pn_memory_init_startinfo (module_memory m) argv envp = Inr mem \<Longrightarrow> pn_executor_init (m\<lparr>module_memory := mem\<rparr>) = Inr ex \<Longrightarrow>
    heap_reachable m ex"
| mmap: "heap_reachable m ex \<Longrightarrow> mmap_pages ex len = Inr (result, ex') \<Longrightarrow> heap_reachable m ex'"
| munmap: "heap_reachable m ex \<Longrightarrow> munmap_pages ex a len = Inr ex' \<Longrightarrow> heap_reachable m ex'"
| other: "heap_reachable m ex \<Longrightarrow> mapped_pages ex' = mapped_pages ex \<Longrightarrow> heap_end ex' = heap_end ex \<Longrightarrow>
    heap_start (ex_memory ex') = heap_start (ex_memory ex) \<Longrightarrow> mem_size (ex_memory ex') = mem_size (ex_memory ex) \<Longrightarrow> heap_reachable m ex'"

lemma init_aligned: "pn_executor_init m = Inr ex \<Longrightarrow> 4096 dvd unat (mem_size (module_memory m))"
  unfolding pn_executor_init_def by (auto simp: res_simps Let_def page_alignment)

lemma reachable_heap_ok: "heap_reachable m ex \<Longrightarrow> unat (mem_size (module_memory m)) \<le> 2 ^ 32 - 2 ^ 17 \<Longrightarrow> heap_ok ex"
proof (induction rule: heap_reachable.induct)
  case (start argv envp mem ex)
  have "mem_size mem = mem_size (module_memory m)" using startinfo_heap(1)[OF start(1)] .
  moreover have "heap_start mem \<le> mem_size mem" using startinfo_heap(2)[OF start(1)] init_aligned[OF start(2)] startinfo_heap(1)[OF start(1)] by simp
  ultimately show ?case using init_heap_ok[OF start(2)] start(3) by simp
next
  case (mmap ex len result ex')
  then show ?case using mmap_block by blast
next
  case (munmap ex a len ex')
  then show ?case using munmap_keeps by blast
qed (auto simp: heap_ok_def mapped_def first_page_def last_page_def)

definition heap_module :: PNModule where
  "heap_module = tiny_module (tiny_function None PN_INTRINSIC_START) (\<lambda>_. 0)"

definition heap_executor :: PNExecutor where
  "heap_executor = tiny_at (tiny_function None PN_INTRINSIC_START) (\<lambda>_. 0) (tiny_thread 0)"

definition mapped_executor :: PNExecutor where
  "mapped_executor = heap_executor\<lparr>heap_end := 12288, mapped_pages := \<lparr>num_words = 1, words = [7]\<rparr>\<rparr>"

lemma heap_example: "heap_reachable heap_module heap_executor" "unat (mem_size (module_memory heap_module)) \<le> 2 ^ 32 - 2 ^ 17" "mmap_pages heap_executor 5000 = Inr (4096, mapped_executor)"
  subgoal unfolding heap_module_def heap_executor_def by (rule heap_reachable.start[OF tiny_startinfo(1) tiny_init]) simp
  subgoal by (simp add: heap_module_def tiny_module_def pn_memory_init_def)
  subgoal by (simp add: heap_executor_def mapped_executor_def mmap_pages_def tiny_at_def tiny_startinfo tiny_thread_def pn_is_aligned_def
      pn_align_up_def assert_align_def stream_eval pn_bitset_set_def grow_heap_def get_thread_def stack_top_def pn_memory_check_def cong: rbind_weak_cong)
  done

text \<open>
  C17: Memory that \<open>mmap\<close> returns is new, in memories of at most 4 gigabytes less 128 kilobytes. In a heap made by any
  sequence of \<open>mmap\<close> and \<open>munmap\<close> from the start of the executor, a block that is returned is whole pages inside the
  memory and above the start of the heap, none of its pages was mapped before, exactly its pages are mapped in addition, and it is
  the first place it fits. In a larger memory, which the option \<open>-m\<close> accepts, the end of the heap can wrap around.
\<close>

theorem pn_mmap_fresh:
  assumes "heap_reachable m ex" "unat (mem_size (module_memory m)) \<le> 2 ^ 32 - 2 ^ 17" "mmap_pages ex len = Inr (result, ex')"
  shows "\<exists>r. unat result = r * 4096 \<and> heap_start (ex_memory ex) \<le> result \<and>
    unat result + page_count len * 4096 \<le> unat (mem_size (ex_memory ex)) \<and>
    mapped ex \<inter> {r..<r + page_count len} = {} \<and> mapped ex' = mapped ex \<union> {r..<r + page_count len} \<and>
    (\<forall>p. free_run (mapped_pages ex) (page_count len) (first_page ex) (last_page ex) p \<longrightarrow> r \<le> p \<or> page_count len = 0)"
proof -
  have ok: "heap_ok ex" by (rule reachable_heap_ok[OF assms(1,2)])
  obtain r where r: "unat result = r * 4096" "first_page ex \<le> r" "r + page_count len \<le> last_page ex'" "mapped ex \<inter> {r..<r + page_count len} = {}"
    "mapped ex' = mapped ex \<union> {r..<r + page_count len}" "heap_ok ex'" "ex_memory ex' = ex_memory ex"
    "\<forall>p. free_run (mapped_pages ex) (page_count len) (first_page ex) (last_page ex) p \<longrightarrow> r \<le> p \<or> page_count len = 0"
    using mmap_block[OF ok assms(3)] by blast
  have "heap_start (ex_memory ex) \<le> result" unfolding word_le_nat_alt using r(1,2) heap_pages[OF ok] by simp
  moreover have "unat (heap_end ex') \<le> unat (mem_size (ex_memory ex))" using r(6,7) by (simp add: heap_ok_def word_le_nat_alt)
  then have "unat result + page_count len * 4096 \<le> unat (mem_size (ex_memory ex))" using r(1,3) heap_pages[OF r(6)] by simp
  ultimately show ?thesis using r by blast
qed

theorem pn_mmap_fresh_witness:
  "\<exists>r. unat (4096 :: u32) = r * 4096 \<and> mapped heap_executor \<inter> {r..<r + page_count 5000} = {} \<and> page_count 5000 = 2 \<and>
     mapped mapped_executor = mapped heap_executor \<union> {r..<r + page_count 5000}"
  using pn_mmap_fresh[OF heap_example] by (auto simp: page_count_def)

text \<open>
  C18: \<open>munmap\<close> takes back what \<open>mmap\<close> gave, in memories of at most 4 gigabytes less 128 kilobytes and for lengths that
  can be rounded up to pages in 32 bits: unmapping a block that was just mapped, with the length that was asked for, succeeds and
  leaves exactly the pages mapped that were mapped before.
\<close>

theorem pn_mmap_munmap:
  assumes "heap_reachable m ex" "unat (mem_size (module_memory m)) \<le> 2 ^ 32 - 2 ^ 17" "mmap_pages ex len = Inr (result, ex')" "unat len + 4095 < 2 ^ 32"
  shows "\<exists>ex''. munmap_pages ex' result len = Inr ex'' \<and> mapped ex'' = mapped ex"
proof -
  have ok: "heap_ok ex" by (rule reachable_heap_ok[OF assms(1,2)])
  obtain r where r: "unat result = r * 4096" "first_page ex \<le> r" "r + page_count len \<le> last_page ex'" "mapped ex \<inter> {r..<r + page_count len} = {}"
    "mapped ex' = mapped ex \<union> {r..<r + page_count len}" "heap_ok ex'" "ex_memory ex' = ex_memory ex"
    using mmap_block[OF ok assms(3)] by blast
  have "first_page ex' \<le> r" using r(2,7) by (simp add: first_page_def)
  then obtain ex'' where "munmap_pages ex' result len = Inr ex''" "mapped ex'' = mapped ex' - {r..<r + page_count len}"
    using munmap_block[OF r(6,1) _ r(3) assms(4)] by blast
  then show ?thesis using r(4,5) by auto
qed

theorem pn_mmap_munmap_witness:
  "\<exists>ex. munmap_pages mapped_executor 4096 5000 = Inr ex \<and> mapped ex = mapped heap_executor"
  using pn_mmap_munmap[OF heap_example] by simp

end
