(* ===== verification/Pn_Cfg.thy ===== *)
theory Pn_Cfg
  imports Pn_Analyses
begin

text \<open>
  The first two of the analyses that a build with \<open>PN_CALCULATE_LIVENESS\<close> or \<open>PN_CALCULATE_PRED_BBS\<close>
  adds: the predecessors of the basic blocks, \<^verbatim>\<open>src/pn_calculate_pred_bbs.h\<close>, and the values that a block
  uses, the part of \<^verbatim>\<open>src/pn_calculate_uses.h\<close> that the default build leaves out. In such a build the
  reader also fills \<open>succ_bb_ids\<close>, \<open>first_def_id\<close> and \<open>last_def_id\<close> of a block; they are inputs here. The
  arrays are allocated for as many elements as were counted before; here they are lists.
\<close>

unbundle bit_operations_syntax

section \<open>Predecessors\<close>

definition check_succs :: "PNBasicBlock list \<Rightarrow> unit res" where
  "check_succs bs = ensure (\<forall>bb\<in>set bs. \<forall>s\<in>set (succ_bb_ids bb). s < length bs)
     (Assertion ''succ_bb_id < function->num_bbs'')"

definition append_pred :: "nat \<Rightarrow> PNBasicBlockId \<Rightarrow> PNBasicBlock list \<Rightarrow> PNBasicBlock list" where
  "append_pred n s bs = bs[s := (bs ! s)\<lparr>pred_bb_ids := pred_bb_ids (bs ! s) @ [n mod 2 ^ 16]\<rparr>]"

definition fill_preds :: "PNBasicBlock list \<Rightarrow> PNBasicBlock list" where
  "fill_preds bs =
     fold (\<lambda>n bs'. fold (append_pred n) (succ_bb_ids (bs ! n)) bs') [0..<length bs]
       (map (\<lambda>bb. bb\<lparr>pred_bb_ids := []\<rparr>) bs)"

definition pn_function_calculate_pred_bbs :: "PNFunction \<Rightarrow> PNFunction res" where
  "pn_function_calculate_pred_bbs f =
     rbind (check_succs (bbs f)) (\<lambda>_. Inr (f\<lparr>bbs := fill_preds (bbs f)\<rparr>))"

section \<open>Uses\<close>

text \<open>The operands that \<open>PN_SET_VALUE_USE\<close> is applied to, in the order of the code.\<close>

fun value_uses_of :: "PNInstruction \<Rightarrow> PNValueId list" where
  "value_uses_of (InstBinop r v0 v1 opcode flags) = [v0, v1]"
| "value_uses_of (InstCast r v opcode type_id) = [v]"
| "value_uses_of (InstRet v) = (if v \<noteq> PN_INVALID_VALUE_ID then [v] else [])"
| "value_uses_of (InstBr t e v) = (if v \<noteq> PN_INVALID_VALUE_ID then [v] else [])"
| "value_uses_of (InstSwitch v d cases type_id) = [v]"
| "value_uses_of (InstAlloca r size_id alignment) = [size_id]"
| "value_uses_of (InstLoad r src alignment type_id) = [src]"
| "value_uses_of (InstStore dest v alignment) = [dest, v]"
| "value_uses_of (InstCmp2 r v0 v1 opcode) = [v0, v1]"
| "value_uses_of (InstVselect r cond t e) = [cond, t, e]"
| "value_uses_of (InstCall r cc callee args type_id indirect tail) = (if indirect then [callee] else []) @ args"
| "value_uses_of _ = []"

definition first_function_value_id :: "PNModule \<Rightarrow> PNFunction \<Rightarrow> PNValueId" where
  "first_function_value_id module f = length (module_values module) + num_args f + length (constants f)"

text \<open>\<open>PN_SET_VALUE_USE\<close>: values of the module, arguments and constants are not counted.\<close>

definition set_value_use :: "PNModule \<Rightarrow> PNFunction \<Rightarrow> PNValueId \<Rightarrow> PNBitSet \<Rightarrow> PNBitSet res" where
  "set_value_use module f value_id uses =
     (if value_id \<ge> first_function_value_id module f
      then pn_bitset_set uses (of_nat (value_id - length (module_values module))) True
      else Inr uses)"

fun set_value_uses :: "PNModule \<Rightarrow> PNFunction \<Rightarrow> PNValueId list \<Rightarrow> PNBitSet \<Rightarrow> PNBitSet res" where
  "set_value_uses module f [] uses = Inr uses"
| "set_value_uses module f (v # vs) uses =
     rbind (set_value_use module f v uses) (\<lambda>uses. set_value_uses module f vs uses)"

text \<open>The bits of one word of the set, from the lowest that is set to the highest.\<close>

definition word_uses :: "nat \<Rightarrow> nat \<Rightarrow> u32 \<Rightarrow> PNValueId list" where
  "word_uses num_values w word =
     (if word = 0 then []
      else
        let first_bit = unat (pn_ctz word);
            last_bit = unat (32 - pn_clz word);
            last_bit = (if last_bit = 32 then 31 else last_bit)
        in map (\<lambda>b. num_values + 32 * w + b) (filter (\<lambda>b. word AND push_bit b 1 \<noteq> 0) [first_bit..<Suc last_bit]))"

definition bitset_uses :: "nat \<Rightarrow> PNBitSet \<Rightarrow> PNValueId list" where
  "bitset_uses num_values uses =
     concat (map (\<lambda>w. word_uses num_values w (words uses ! w)) [0..<unat (num_words uses)])"

definition pn_basic_block_calculate_value_uses :: "PNModule \<Rightarrow> PNFunction \<Rightarrow> PNBasicBlock \<Rightarrow> PNBasicBlock res" where
  "pn_basic_block_calculate_value_uses module f bb =
     rbind (pn_bitset_init (length (function_values f))) (\<lambda>uses.
     rbind (set_value_uses module f (concat (map value_uses_of (instructions bb))) uses) (\<lambda>uses.
     Inr (bb\<lparr>bb_uses := bb_uses bb @ bitset_uses (length (module_values module)) uses\<rparr>)))"

fun value_uses_bbs :: "PNModule \<Rightarrow> PNFunction \<Rightarrow> PNBasicBlock list \<Rightarrow> PNBasicBlock list res" where
  "value_uses_bbs module f [] = Inr []"
| "value_uses_bbs module f (bb # bs) =
     rbind (pn_basic_block_calculate_value_uses module f bb) (\<lambda>bb.
     rbind (value_uses_bbs module f bs) (\<lambda>bs. Inr (bb # bs)))"

text \<open>With liveness, \<open>pn_function_calculate_uses\<close> collects the phi uses and the value uses.\<close>

definition pn_function_calculate_all_uses :: "PNModule \<Rightarrow> PNFunction \<Rightarrow> PNFunction res" where
  "pn_function_calculate_all_uses module f =
     (let f = pn_function_calculate_uses f in
      rbind (value_uses_bbs module f (bbs f)) (\<lambda>bs. Inr (f\<lparr>bbs := bs\<rparr>)))"

section \<open>Predecessors invert successors\<close>

lemma append_preds:
  assumes "\<forall>s\<in>set ss. s < length bs"
  shows "length (fold (append_pred n) ss bs) = length bs"
    "b < length bs \<Longrightarrow> fold (append_pred n) ss bs ! b =
      (bs ! b)\<lparr>pred_bb_ids := pred_bb_ids (bs ! b) @ replicate (count_list ss b) (n mod 2 ^ 16)\<rparr>"
  using assms
proof (induction ss arbitrary: bs)
  case Nil
  { case 2 then show ?case by simp }
next
  case (Cons s ss)
  { case 1 with Cons.IH(1)[of "append_pred n s bs"] show ?case by (simp add: append_pred_def) }
  { case 2 with Cons.IH(2)[of "append_pred n s bs"] show ?case
      by (auto simp: append_pred_def nth_list_update replicate_append_same) }
qed simp

definition preds_of :: "PNBasicBlock list \<Rightarrow> nat \<Rightarrow> PNBasicBlockId list" where
  "preds_of bs b = concat (map (\<lambda>n. replicate (count_list (succ_bb_ids (bs ! n)) b) (n mod 2 ^ 16)) [0..<length bs])"

lemma fill_preds_nth:
  assumes "check_succs bs = Inr ()" and "b < length bs"
  shows "length (fill_preds bs) = length bs \<and> fill_preds bs ! b = (bs ! b)\<lparr>pred_bb_ids := preds_of bs b\<rparr>"
proof -
  let ?g = "\<lambda>n. replicate (count_list (succ_bb_ids (bs ! n)) b) (n mod 2 ^ 16)"
  have c: "\<forall>n<length bs. \<forall>s\<in>set (succ_bb_ids (bs ! n)). s < length bs"
    using assms(1) by (auto simp: check_succs_def res_simps)
  have "length (fold (\<lambda>n. fold (append_pred n) (succ_bb_ids (bs ! n))) ns bs') = length bs' \<and>
    fold (\<lambda>n. fold (append_pred n) (succ_bb_ids (bs ! n))) ns bs' ! b =
      (bs' ! b)\<lparr>pred_bb_ids := pred_bb_ids (bs' ! b) @ concat (map ?g ns)\<rparr>"
    if "\<forall>n\<in>set ns. n < length bs" "length bs' = length bs" for ns bs'
    using that
  proof (induction ns arbitrary: bs')
    case (Cons n ns)
    then have "\<forall>s\<in>set (succ_bb_ids (bs ! n)). s < length bs'" using c Cons.prems by auto
    note step = append_preds[OF this]
    from Cons.IH[of "fold (append_pred n) (succ_bb_ids (bs ! n)) bs'"] Cons.prems step assms(2) show ?case by simp
  qed simp
  from this[of "[0..<length bs]" "map (\<lambda>bb. bb\<lparr>pred_bb_ids := []\<rparr>) bs"] assms(2)
  show ?thesis by (simp add: fill_preds_def preds_of_def)
qed

lemma fill_preds_eq:
  assumes "check_succs bs = Inr ()"
  shows "fill_preds bs = map (\<lambda>b. (bs ! b)\<lparr>pred_bb_ids := preds_of bs b\<rparr>) [0..<length bs]"
proof (cases bs)
  case (Cons bb bs')
  then have "length (fill_preds bs) = length bs" using fill_preds_nth[OF assms, of 0] by simp
  then show ?thesis using fill_preds_nth[OF assms] by (intro nth_equalityI) simp_all
qed (simp add: fill_preds_def)

lemma count_preds_of:
  assumes "length bs \<le> 65536" and "n < length bs"
  shows "count_list (preds_of bs b) n = count_list (succ_bb_ids (bs ! n)) b"
proof -
  have rep: "count_list (replicate k x) y = (if x = y then k else 0)" for k and x y :: nat
    by (induction k) auto
  have "count_list (concat (map (\<lambda>m. replicate (count_list (succ_bb_ids (bs ! m)) b) (m mod 2 ^ 16)) ms)) n =
      (if n \<in> set ms then count_list (succ_bb_ids (bs ! n)) b else 0)"
    if "distinct ms" "\<forall>m\<in>set ms. m < length bs" for ms
    using that
  proof (induction ms)
    case (Cons m ms)
    then have "m mod 2 ^ 16 = m" using assms(1) by auto
    with Cons show ?case by (auto simp: rep)
  qed simp
  from this[of "[0..<length bs]"] assms(2) show ?thesis by (simp add: preds_of_def)
qed

lemma sorted_preds_of:
  assumes "length bs \<le> 65536"
  shows "sorted (preds_of bs b)"
proof -
  have "sorted (concat (map (\<lambda>n. replicate (k n) n) ns))" if "sorted ns" for k and ns :: "nat list"
    using that by (induction ns) (auto simp: sorted_append sorted_replicate)
  moreover have "map (\<lambda>n. replicate (count_list (succ_bb_ids (bs ! n)) b) (n mod 2 ^ 16)) [0..<length bs] =
      map (\<lambda>n. replicate (count_list (succ_bb_ids (bs ! n)) b) n) [0..<length bs]"
    using assms by simp
  ultimately show ?thesis by (simp add: preds_of_def del: map_eq_conv)
qed

lemma set_preds_of:
  assumes "length bs \<le> 65536"
  shows "set (preds_of bs b) = {n. n < length bs \<and> b \<in> set (succ_bb_ids (bs ! n))}"
proof -
  have "n mod 65536 = n" if "n < length bs" for n using that assms by simp
  moreover have "0 < count_list xs y \<longleftrightarrow> y \<in> set xs" for xs and y :: nat
    by (metis count_list_0_iff gr0I less_numeral_extra(3))
  ultimately show ?thesis by (auto simp: preds_of_def)
qed

section \<open>Uses are the operands that are local values\<close>

lemma filter_upt_between:
  assumes "lo \<le> hi" "hi \<le> n" and "\<And>b. b < n \<Longrightarrow> P b \<Longrightarrow> lo \<le> b \<and> b < hi"
  shows "filter P [lo..<hi] = filter P [0..<n]"
proof -
  have "[0..<n] = [0..<lo] @ [lo..<hi] @ [hi..<n]"
    using assms(1,2) by (metis le_Suc_ex le_trans upt_add_eq_append zero_le)
  moreover have "filter P [0..<lo] = []"
    using assms(1,2) assms(3) by (metis (mono_tags, lifting) atLeastLessThan_iff filter_False le_trans less_le_trans not_less set_upt)
  moreover have "filter P [hi..<n] = []" using assms(3) by (auto simp: filter_empty_conv dest!: assms(3))
  ultimately show ?thesis by simp
qed

lemma word_uses_bits: "word_uses nv w x = map (\<lambda>b. nv + 32 * w + b) (filter (bit x) [0..<32])"
proof (cases "x = 0")
  case False
  obtain lo where l: "lowest_bit x lo" "lo < 32" using lowest_bit_exists[OF False] by auto
  obtain hi where h: "highest_bit x hi" "hi < 32" using highest_bit_exists[OF False] by auto
  have ctz: "unat (pn_ctz x) = lo" using l by (simp add: pn_ctz_lowest_bit unat_of_nat_small)
  have "(32 :: u32) = of_nat (Suc hi + (31 - hi))" using h(2) by simp
  then have "32 - pn_clz x = of_nat (Suc hi)" by (simp only: pn_clz_highest_bit[OF h(1)] of_nat_add add_diff_cancel)
  then have clz: "unat (32 - pn_clz x) = Suc hi" using h(2) by (simp only:) (rule unat_of_nat_small, simp)
  have lo: "bit x lo" "\<And>n. bit x n \<Longrightarrow> lo \<le> n" using l(1) by (auto simp: lowest_bit_def simp flip: not_less)
  have hi: "bit x hi" "\<And>n. bit x n \<Longrightarrow> n \<le> hi" using h(1) by (auto simp: highest_bit_def simp flip: not_less)
  have "filter (\<lambda>b. x AND push_bit b 1 \<noteq> 0) [lo..<Suc (if Suc hi = 32 then 31 else Suc hi)] =
      filter (bit x) [lo..<Suc (if Suc hi = 32 then 31 else Suc hi)]"
  proof (rule filter_cong[OF refl])
    fix b assume "b \<in> set [lo..<Suc (if Suc hi = 32 then 31 else Suc hi)]"
    then have "b < 32" using h(2) by (auto split: if_splits)
    then show "(x AND push_bit b 1 \<noteq> 0) = bit x b" using and_single_bit[of b x] by (simp add: push_bit_eq_mult)
  qed
  also have "\<dots> = filter (bit x) [0..<32]"
    using lo hi h(2) by (intro filter_upt_between) (auto simp: le_Suc_eq less_Suc_eq_le split: if_splits)
  finally show ?thesis using False by (simp only: word_uses_def Let_def ctz clz if_False)
qed (simp add: word_uses_def)

lemma filter_words:
  "concat (map (\<lambda>w. map (\<lambda>b. 32 * w + b) (filter (\<lambda>b. P (32 * w + b)) [0..<32])) [0..<n]) = filter P [0..<32 * n]"
proof (induction n)
  case (Suc n)
  have "[0..<32 * Suc n] = [0..<32 * n] @ map ((+) (32 * n)) [0..<32]"
    using upt_add_eq_append[OF le0, of "32 * n" 32] map_add_upt[of "32 * n" 32]
    by (simp add: add.commute[of 32] add.commute[of _ "32 * n"] fun_eq_iff cong: map_cong)
  then show ?case using Suc by (simp add: filter_map o_def)
qed simp

lemma bitset_uses_filter:
  assumes "bitset_inv uses"
  shows "bitset_uses nv uses = map ((+) nv) (filter (bitset_has uses) [0..<bitset_cap uses])"
proof -
  let ?n = "unat (num_words uses)"
  have "word_uses nv w (words uses ! w) = map ((+) nv) (map (\<lambda>b. 32 * w + b) (filter (\<lambda>b. bitset_has uses (32 * w + b)) [0..<32]))"
    if "w < ?n" for w
  proof -
    have "filter (bit (words uses ! w)) [0..<32] = filter (\<lambda>b. bitset_has uses (32 * w + b)) [0..<32]"
      using that by (intro filter_cong) (auto simp: bitset_has_def bitset_cap_def)
    then show ?thesis by (simp add: word_uses_bits add.assoc)
  qed
  then have "bitset_uses nv uses = concat (map (\<lambda>w. map ((+) nv)
      (map (\<lambda>b. 32 * w + b) (filter (\<lambda>b. bitset_has uses (32 * w + b)) [0..<32]))) [0..<?n])"
    unfolding bitset_uses_def by (intro arg_cong[of _ _ concat] map_cong) auto
  also have "\<dots> = map ((+) nv) (concat (map (\<lambda>w. map (\<lambda>b. 32 * w + b) (filter (\<lambda>b. bitset_has uses (32 * w + b)) [0..<32])) [0..<?n]))"
    by (simp add: map_concat o_def)
  finally show ?thesis by (simp only: filter_words bitset_cap_def)
qed

lemma set_value_uses_spec:
  assumes "bitset_inv uses" "bitset_cap uses < 2 ^ 32" "\<forall>v\<in>set vs. v < length (module_values m) + bitset_cap uses"
  shows "\<exists>uses'. set_value_uses m f vs uses = Inr uses' \<and> bitset_inv uses' \<and> bitset_cap uses' = bitset_cap uses \<and>
    (\<forall>i. bitset_has uses' i \<longleftrightarrow> bitset_has uses i \<or>
       length (module_values m) + i \<in> set vs \<and> first_function_value_id m f \<le> length (module_values m) + i)"
  using assms
proof (induction vs arbitrary: uses)
  case (Cons v vs)
  let ?n = "length (module_values m)" and ?first = "first_function_value_id m f"
  obtain uses1 where uses1: "set_value_use m f v uses = Inr uses1" "bitset_inv uses1" "bitset_cap uses1 = bitset_cap uses"
    "\<forall>i. bitset_has uses1 i \<longleftrightarrow> bitset_has uses i \<or> ?n + i = v \<and> ?first \<le> v"
  proof (cases "?first \<le> v")
    case True
    then have n: "?n \<le> v" by (simp add: first_function_value_id_def)
    with Cons.prems have "v - ?n < bitset_cap uses" by auto
    moreover from this have "unat (of_nat (v - ?n) :: u32) = v - ?n"
      using Cons.prems(2) by (intro unat_of_nat_small) simp
    ultimately have "v - ?n < bitset_cap uses" "unat (of_nat (v - ?n) :: u32) = v - ?n" by simp_all
    from bsv.put_in[OF Cons.prems(1), of "of_nat (v - ?n)" True] this n True show ?thesis
      by (intro that[of "the (case pn_bitset_set uses (of_nat (v - ?n)) True of Inr b \<Rightarrow> Some b | _ \<Rightarrow> None)"])
        (auto simp: set_value_use_def)
  next
    case False
    then show ?thesis using Cons.prems by (intro that[of uses]) (auto simp: set_value_use_def)
  qed
  from Cons.IH[OF uses1(2)] uses1 Cons.prems obtain uses' where
    "set_value_uses m f vs uses1 = Inr uses'" "bitset_inv uses'" "bitset_cap uses' = bitset_cap uses"
    "\<forall>i. bitset_has uses' i \<longleftrightarrow> bitset_has uses1 i \<or> ?n + i \<in> set vs \<and> ?first \<le> ?n + i" by auto
  with uses1 show ?case by auto
qed auto

lemma bitset_init_ok:
  assumes "pn_bitset_init n = Inr b"
  shows "bitset_inv b" "n \<le> bitset_cap b" "bitset_cap b < 2 ^ 32" "\<not> bitset_has b i"
  using assms
  by (auto simp: pn_bitset_init_def bitset_inv_def bitset_cap_def bitset_has_def unat_of_nat_small
      div_less_iff_less_mult mult.commute split: if_splits)

section \<open>Bit sets as sets of ids\<close>

text \<open>\<open>holds n b S\<close>: the bit set \<open>b\<close> has room for the ids below \<open>n\<close> and contains exactly \<open>S\<close>.\<close>

definition holds :: "nat \<Rightarrow> PNBitSet \<Rightarrow> nat set \<Rightarrow> bool" where
  "holds n b S \<longleftrightarrow> bitset_inv b \<and> n \<le> bitset_cap b \<and> bitset_cap b < 2 ^ 32 \<and> {i. bitset_has b i} = S"

lemma holds_init: "pn_bitset_init n = Inr b \<Longrightarrow> holds n b {}"
  using bitset_init_ok[of n b] by (simp add: holds_def)

lemma holds_clear: "holds n b S \<Longrightarrow> holds n (pn_bitset_clear b) {}"
  using bsv.clr_ok[of b] by (simp add: holds_def)

lemma holds_index: "holds n b S \<Longrightarrow> i < n \<Longrightarrow> unat (of_nat i :: u32) = i \<and> i < bitset_cap b"
  by (simp add: holds_def unat_of_nat_small)

lemma holds_get [simp]: "holds n b S \<Longrightarrow> i < n \<Longrightarrow> pn_bitset_is_set b (of_nat i) = Inr (i \<in> S)"
  using holds_index[of n b S i] bsv.get_in[of b "of_nat i"] by (auto simp: holds_def)

lemma holds_put:
  assumes "holds n b S" "i < n"
  obtains b' where "pn_bitset_set b (of_nat i) True = Inr b'" "holds n b' (insert i S)"
proof -
  note i = holds_index[OF assms]
  with assms(1) have "unat (of_nat i :: u32) < bitset_cap b" by simp
  from bsv.put_in[OF _ this, of True] assms(1) obtain b' where
    "pn_bitset_set b (of_nat i) True = Inr b'" "bitset_inv b'" "bitset_cap b' = bitset_cap b"
    "bitset_has b' = (bitset_has b)(i := True)" using i by (auto simp: holds_def)
  with assms(1) show ?thesis by (intro that[of b']) (auto simp: holds_def)
qed

text \<open>The local values among the operands of the instructions of a block.\<close>

definition local_uses :: "PNModule \<Rightarrow> PNFunction \<Rightarrow> PNBasicBlock \<Rightarrow> PNValueId set" where
  "local_uses m f bb = {v \<in> \<Union> (set (map (set \<circ> value_uses_of) (instructions bb))). first_function_value_id m f \<le> v}"


lemma value_uses_spec:
  assumes "length (function_values f) + 31 < 2 ^ 31"
    and "\<forall>i\<in>set (instructions bb). \<forall>v\<in>set (value_uses_of i). v < length (module_values m) + length (function_values f)"
    and "bb_uses bb = []"
  shows "pn_basic_block_calculate_value_uses m f bb = Inr (bb\<lparr>bb_uses := sorted_list_of_set (local_uses m f bb)\<rparr>)"
proof -
  let ?nv = "length (module_values m)" and ?vs = "concat (map value_uses_of (instructions bb))"
  obtain b where b: "pn_bitset_init (length (function_values f)) = Inr b" using assms(1) by (simp add: pn_bitset_init_def)
  note init = bitset_init_ok[OF b]
  have "\<forall>v\<in>set ?vs. v < ?nv + bitset_cap b" using assms(2) init(2) by fastforce
  from set_value_uses_spec[OF init(1,3) this, of f] obtain uses where
    uses: "set_value_uses m f ?vs b = Inr uses" "bitset_inv uses" "bitset_cap uses = bitset_cap b"
    "\<And>i. bitset_has uses i \<longleftrightarrow> ?nv + i \<in> set ?vs \<and> first_function_value_id m f \<le> ?nv + i"
    using init(4) by auto
  let ?us = "map ((+) ?nv) (filter (bitset_has uses) [0..<bitset_cap uses])"
  have "local_uses m f bb = set ?us"
  proof (intro equalityI subsetI)
    fix v assume "v \<in> local_uses m f bb"
    then have v: "v \<in> set ?vs" "first_function_value_id m f \<le> v" by (auto simp: local_uses_def)
    then have "bitset_has uses (v - ?nv)" "v = ?nv + (v - ?nv)" using uses(4) by (auto simp: first_function_value_id_def)
    then show "v \<in> set ?us" using bsv.has_cap[OF uses(2)] by (auto intro: rev_image_eqI)
  qed (auto simp: local_uses_def uses(4))
  moreover have "sorted ?us" "distinct ?us"
    by (auto simp: sorted_map distinct_map intro: sorted_wrt_filter)
  ultimately have "sorted_list_of_set (local_uses m f bb) = ?us"
    by (simp only: sorted_list_of_set.idem_if_sorted_distinct)
  then show ?thesis
    using assms(3) by (simp add: pn_basic_block_calculate_value_uses_def b uses(1) bitset_uses_filter[OF uses(2)])
qed

section \<open>Properties\<close>

text \<open>
  C23: \<open>pn_function_calculate_pred_bbs\<close> inverts the successors, for functions of at most 65536 blocks: a block is
  listed among the predecessors of another as often as that one is among its successors, so both directions describe
  the same graph, and predecessors are in ascending order. Only the predecessors change. A successor that is no block of the function fails an assertion.
\<close>

theorem pn_pred_bbs_inverse:
  assumes "length (bbs f) \<le> 65536"
  shows "if \<forall>bb\<in>set (bbs f). \<forall>s\<in>set (succ_bb_ids bb). s < length (bbs f)
    then \<exists>f'. pn_function_calculate_pred_bbs f = Inr f' \<and> f' = f\<lparr>bbs := bbs f'\<rparr> \<and> length (bbs f') = length (bbs f) \<and>
      (\<forall>b<length (bbs f). bbs f' ! b = (bbs f ! b)\<lparr>pred_bb_ids := pred_bb_ids (bbs f' ! b)\<rparr> \<and>
         sorted (pred_bb_ids (bbs f' ! b)) \<and> set (pred_bb_ids (bbs f' ! b)) \<subseteq> {..<length (bbs f)} \<and>
         (\<forall>n<length (bbs f). count_list (pred_bb_ids (bbs f' ! b)) n = count_list (succ_bb_ids (bbs f ! n)) b))
    else pn_function_calculate_pred_bbs f = Inl (Assertion ''succ_bb_id < function->num_bbs'')"
proof (cases "\<forall>bb\<in>set (bbs f). \<forall>s\<in>set (succ_bb_ids bb). s < length (bbs f)")
  case True
  then have c: "check_succs (bbs f) = Inr ()" by (simp add: check_succs_def)
  then show ?thesis using True assms fill_preds_nth[OF c] fill_preds_eq[OF c] set_preds_of[OF assms] sorted_preds_of[OF assms] count_preds_of[OF assms]
    by (auto simp: pn_function_calculate_pred_bbs_def)
next
  case False
  then have "check_succs (bbs f) = Inl (Assertion ''succ_bb_id < function->num_bbs'')"
    by (simp only: check_succs_def ensure_def if_False)
  then show ?thesis unfolding if_not_P[OF False] by (simp add: pn_function_calculate_pred_bbs_def)
qed

definition diamond_function :: PNFunction where
  "diamond_function = typing_function\<lparr>bbs := map (\<lambda>ss. blank_bb\<lparr>succ_bb_ids := ss\<rparr>) [[1, 2], [3], [3, 3], []]\<rparr>"

theorem pn_pred_bbs_inverse_witness:
  "\<exists>f'. pn_function_calculate_pred_bbs diamond_function = Inr f' \<and> count_list (pred_bb_ids (bbs f' ! 3)) 2 = 2 \<and>
     count_list (pred_bb_ids (bbs f' ! 3)) 1 = 1 \<and> count_list (pred_bb_ids (bbs f' ! 3)) 0 = 0"
  using pn_pred_bbs_inverse[of diamond_function] by (auto simp: diamond_function_def blank_bb_def)

text \<open>
  C24: \<open>pn_basic_block_calculate_uses\<close> with liveness: the uses of a block are the local values (neither
  values of the module nor arguments nor constants) among the operands of its instructions, each once
  and in ascending order.
\<close>

theorem pn_value_uses_exact:
  assumes "length (function_values f) + 31 < 2 ^ 31"
    and "\<forall>i\<in>set (instructions bb). \<forall>v\<in>set (value_uses_of i). v < length (module_values m) + length (function_values f)"
    and "bb_uses bb = []"
  shows "pn_basic_block_calculate_value_uses m f bb = Inr (bb\<lparr>bb_uses := sorted_list_of_set (local_uses m f bb)\<rparr>)"
  using assms by (rule value_uses_spec)

theorem pn_value_uses_exact_witness:
  "pn_basic_block_calculate_value_uses typing_module typing_function (bbs typing_function ! 0) =
     Inr ((bbs typing_function ! 0)\<lparr>bb_uses := [2]\<rparr>)"
proof -
  have "local_uses typing_module typing_function (bbs typing_function ! 0) = {2}"
    by (auto simp: local_uses_def typing_function_def typing_module_def blank_bb_def first_function_value_id_def pn_module_init_def)
  then show ?thesis
    using pn_value_uses_exact[of typing_function "bbs typing_function ! 0" typing_module]
    by (simp add: typing_function_def typing_module_def blank_bb_def pn_module_init_def)
qed

end
