(* ===== verification/Pn_Liveness.thy ===== *)
theory Pn_Liveness
  imports Pn_Cfg
begin

text \<open>
  Liveness of values, \<^verbatim>\<open>src/pn_calculate_liveness.h\<close>, which a build with \<open>PN_CALCULATE_LIVENESS\<close> runs at the
  end of every function: for each use of a value a backward search over the predecessors to its
  definition, an interval of block numbers for each value, and a slot for each interval. The array
  \<open>value_liveness_range\<close> of a function is a list of its own here.
\<close>

section \<open>The search for one use of a value\<close>

record PNLivenessRange =
  first_bb_id :: PNBasicBlockId
  last_bb_id :: PNBasicBlockId
  slot_id :: PNValueId

text \<open>\<open>bb_id_stack\<close> is only used during one search; the searches here return without it.\<close>

record PNLivenessState =
  seen_values :: PNBitSet
  livein :: PNBitSet
  seen_bbs :: PNBitSet

definition defines_value :: "PNBasicBlock \<Rightarrow> PNValueId \<Rightarrow> bool" where
  "defines_value bb value_id \<longleftrightarrow> first_def_id bb \<le> value_id \<and> value_id \<le> last_def_id bb"

definition widen :: "PNBasicBlockId \<Rightarrow> PNLivenessRange \<Rightarrow> PNLivenessRange" where
  "widen bb_id rng =
     (if bb_id < first_bb_id rng then rng\<lparr>first_bb_id := bb_id\<rparr>
      else if bb_id > last_bb_id rng then rng\<lparr>last_bb_id := bb_id\<rparr>
      else rng)"

text \<open>The stack has the top first; \<open>n\<close> is the number of blocks, its size in the code.\<close>

fun push_preds :: "nat \<Rightarrow> PNBasicBlockId list \<Rightarrow> PNBitSet \<Rightarrow> PNBasicBlockId list \<Rightarrow>
    (PNBitSet \<times> PNBasicBlockId list) res" where
  "push_preds n [] seen stack = Inr (seen, stack)"
| "push_preds n (p # ps) seen stack =
     rbind (pn_bitset_is_set seen (of_nat p)) (\<lambda>s.
     if \<not> s then
       rbind (ensure (length stack < n) (Assertion ''stack_top < function->num_bbs'')) (\<lambda>_.
       rbind (pn_bitset_set seen (of_nat p) True) (\<lambda>seen. push_preds n ps seen (p # stack)))
     else push_preds n ps seen stack)"

partial_function (option) live_loop :: "PNFunction \<Rightarrow> PNValueId \<Rightarrow> PNBitSet \<Rightarrow> PNBitSet \<Rightarrow> PNBasicBlockId list \<Rightarrow>
    PNLivenessRange \<Rightarrow> (PNBitSet \<times> PNBitSet \<times> PNLivenessRange) run" where
  "live_loop f value_id live seen stack rng =
     (case stack of [] \<Rightarrow> Some (Inr (live, seen, rng))
      | bb_id # stack \<Rightarrow>
          obind (Some (nth_res (bbs f) bb_id)) (\<lambda>bb.
          if defines_value bb value_id then live_loop f value_id live seen stack rng
          else obind (Some (pn_bitset_is_set live (of_nat bb_id))) (\<lambda>processed.
            if processed then live_loop f value_id live seen stack rng
            else
              obind (Some (pn_bitset_set live (of_nat bb_id) True)) (\<lambda>live.
              obind (Some (push_preds (length (bbs f)) (pred_bb_ids bb) seen stack)) (\<lambda>(seen, stack).
              live_loop f value_id live seen stack (widen bb_id rng))))))"

declare live_loop.simps [code]

definition pn_basic_block_calculate_liveness_per_value :: "PNModule \<Rightarrow> PNFunction \<Rightarrow> PNBasicBlockId \<Rightarrow> nat \<Rightarrow>
    PNLivenessState \<times> PNLivenessRange list \<Rightarrow> (PNLivenessState \<times> PNLivenessRange list) run" where
  "pn_basic_block_calculate_liveness_per_value module f initial_bb_id rel_id st = (case st of (state, ranges) \<Rightarrow>
     obind (Some (pn_bitset_is_set (seen_values state) (of_nat rel_id))) (\<lambda>seen.
     if seen then Some (Inr (state, ranges))
     else
       obind (Some (pn_bitset_set (seen_values state) (of_nat rel_id) True)) (\<lambda>seen_vs.
       obind (Some (pn_bitset_set (pn_bitset_clear (seen_bbs state)) (of_nat initial_bb_id) True)) (\<lambda>seen.
       obind (Some (ensure (bbs f \<noteq> []) (Undefined ''array index''))) (\<lambda>_.
       obind (Some (nth_res ranges rel_id)) (\<lambda>rng.
       obind (live_loop f (length (module_values module) + rel_id) (pn_bitset_clear (livein state)) seen
                [initial_bb_id] rng) (\<lambda>(live, seen, rng).
       Some (Inr (state\<lparr>seen_values := seen_vs, livein := live, seen_bbs := seen\<rparr>, ranges[rel_id := rng]))))))))) "

section \<open>All uses\<close>

text \<open>The loop over the phi uses is left at the first operand that is not a local value.\<close>

fun live_phi_uses :: "PNModule \<Rightarrow> PNFunction \<Rightarrow> PNPhiUse list \<Rightarrow>
    PNLivenessState \<times> PNLivenessRange list \<Rightarrow> (PNLivenessState \<times> PNLivenessRange list) run" where
  "live_phi_uses module f [] st = Some (Inr st)"
| "live_phi_uses module f (use # uses) st =
     (if use_incoming_value_id use < first_function_value_id module f then Some (Inr st)
      else
        obind (pn_basic_block_calculate_liveness_per_value module f (use_incoming_bb_id use)
                 (use_incoming_value_id use - length (module_values module)) st) (\<lambda>st.
        live_phi_uses module f uses st))"

fun live_uses :: "PNModule \<Rightarrow> PNFunction \<Rightarrow> PNBasicBlockId \<Rightarrow> PNValueId list \<Rightarrow>
    PNLivenessState \<times> PNLivenessRange list \<Rightarrow> (PNLivenessState \<times> PNLivenessRange list) run" where
  "live_uses module f bb_id [] st = Some (Inr st)"
| "live_uses module f bb_id (value_id # uses) st =
     obind (pn_basic_block_calculate_liveness_per_value module f bb_id (value_id - length (module_values module)) st) (\<lambda>st.
     live_uses module f bb_id uses st)"

definition pn_basic_block_calculate_liveness :: "PNModule \<Rightarrow> PNFunction \<Rightarrow> PNBasicBlockId \<Rightarrow>
    PNLivenessState \<times> PNLivenessRange list \<Rightarrow> (PNLivenessState \<times> PNLivenessRange list) run" where
  "pn_basic_block_calculate_liveness module f bb_id st =
     obind (Some (nth_res (bbs f) bb_id)) (\<lambda>bb.
     obind (live_phi_uses module f (phi_uses bb) st) (\<lambda>st.
     live_uses module f bb_id (bb_uses bb) st))"

fun live_blocks :: "PNModule \<Rightarrow> PNFunction \<Rightarrow> nat \<Rightarrow>
    PNLivenessState \<times> PNLivenessRange list \<Rightarrow> (PNLivenessState \<times> PNLivenessRange list) run" where
  "live_blocks module f 0 st = Some (Inr st)"
| "live_blocks module f (Suc n) st =
     obind (pn_basic_block_calculate_liveness module f (n mod 2 ^ 16) st) (\<lambda>st. live_blocks module f n st)"

section \<open>Slots\<close>

text \<open>
  \<open>avail\<close> is the array \<open>avail_slots\<close> with the number of its elements that are in use, a binary heap with
  the least slot at index 0. Inserting moves the parents that are greater down; the parent of index 0
  is computed but not looked at.
\<close>

function (sequential) heap_up :: "nat \<Rightarrow> PNValueId \<Rightarrow> PNValueId list \<Rightarrow> PNValueId list res" where
  "heap_up insert_at slot avail =
     (if insert_at \<noteq> 0 then
        let parent = (insert_at - 1) div 2 in
        rbind (nth_res avail parent) (\<lambda>p.
        if p > slot then rbind (upd_res avail insert_at p) (\<lambda>avail. heap_up parent slot avail)
        else upd_res avail insert_at slot)
      else upd_res avail insert_at slot)"
  by pat_completeness auto
termination by (relation "measure (\<lambda>(i, _, _). i)") auto

declare heap_up.simps [simp del]

text \<open>Taking the least: on the way down the lesser child moves up; the element at the end is not put into the gap.\<close>

function (sequential) heap_down :: "nat \<Rightarrow> nat \<Rightarrow> PNValueId list \<Rightarrow> PNValueId list res" where
  "heap_down slot_index num_avail avail =
     (if slot_index * 2 + 2 < num_avail then
        rbind (nth_res avail (slot_index * 2 + 1)) (\<lambda>left.
        rbind (nth_res avail (slot_index * 2 + 2)) (\<lambda>right.
        if left < right then
          rbind (upd_res avail slot_index left) (\<lambda>avail. heap_down (slot_index * 2 + 1) num_avail avail)
        else rbind (upd_res avail slot_index right) (\<lambda>avail. heap_down (slot_index * 2 + 2) num_avail avail)))
      else if slot_index * 2 + 1 < num_avail then
        rbind (nth_res avail (slot_index * 2 + 1)) (\<lambda>left. upd_res avail slot_index left)
      else Inr avail)"
  by pat_completeness auto
termination by (relation "measure (\<lambda>(i, n, _). n - i)") auto

declare heap_down.simps [simp del]

text \<open>Intervals that end before the current block give their slots back.\<close>

function (sequential) evict :: "nat \<Rightarrow> PNBasicBlockId \<Rightarrow> nat \<Rightarrow> PNLivenessRange list \<Rightarrow> nat \<Rightarrow> PNValueId list \<Rightarrow>
    (PNLivenessRange list \<times> nat \<times> PNValueId list) res" where
  "evict num_values bb_id m active num_avail avail =
     (if m < length active then
        if last_bb_id (active ! m) < bb_id then
          rbind (ensure (num_avail < num_values) (Assertion ''num_avail_slots < function->num_values'')) (\<lambda>_.
          rbind (heap_up num_avail (slot_id (active ! m)) avail) (\<lambda>avail.
          evict num_values bb_id m (butlast (active[m := last active])) (num_avail + 1) avail))
        else evict num_values bb_id (m + 1) active num_avail avail
      else Inr (active, num_avail, avail))"
  by pat_completeness auto
termination by (relation "measure (\<lambda>(_, _, m, active, _). length active - m)") auto

declare evict.simps [simp del]

record slot_state =
  slot_bb_id :: PNBasicBlockId
  avail_slots :: "PNValueId list"
  num_avail_slots :: nat
  active_ranges :: "PNLivenessRange list"

definition evict_finished :: "nat \<Rightarrow> PNLivenessRange \<Rightarrow> slot_state \<Rightarrow> slot_state res" where
  "evict_finished num_values rng st =
     (if first_bb_id rng > slot_bb_id st then
        rbind (evict num_values (first_bb_id rng) 0 (active_ranges st) (num_avail_slots st) (avail_slots st)) (\<lambda>(active, n, avail).
        Inr (st\<lparr>slot_bb_id := first_bb_id rng, active_ranges := active, num_avail_slots := n, avail_slots := avail\<rparr>))
      else Inr st)"

definition assign_slot :: "nat \<Rightarrow> PNLivenessRange \<Rightarrow> slot_state \<Rightarrow> (PNLivenessRange \<times> slot_state) res" where
  "assign_slot num_values rng st =
     rbind (evict_finished num_values rng st) (\<lambda>st.
     rbind (nth_res (avail_slots st) 0) (\<lambda>slot.
     rbind (heap_down 0 (num_avail_slots st) (avail_slots st)) (\<lambda>avail.
     rbind (ensure (0 < num_avail_slots st) (Undefined ''no slot is left'')) (\<lambda>_.
     rbind (ensure (length (active_ranges st) < num_values) (Assertion ''num_active < function->num_values'')) (\<lambda>_.
     let rng = rng\<lparr>slot_id := slot\<rparr> in
     Inr (rng, st\<lparr>avail_slots := avail, num_avail_slots := num_avail_slots st - 1,
                     active_ranges := active_ranges st @ [rng]\<rparr>))))))"

fun assign_slots :: "nat \<Rightarrow> PNLivenessRange list \<Rightarrow> slot_state \<Rightarrow> PNLivenessRange list res" where
  "assign_slots num_values [] st = Inr []"
| "assign_slots num_values (rng # ranges) st =
     rbind (assign_slot num_values rng st) (\<lambda>(rng, st).
     rbind (assign_slots num_values ranges st) (\<lambda>ranges. Inr (rng # ranges)))"

definition pn_function_make_slot_map :: "PNFunction \<Rightarrow> PNLivenessRange list \<Rightarrow> PNLivenessRange list res" where
  "pn_function_make_slot_map f ranges =
     (let num_values = length (function_values f); first = num_args f + length (constants f) in
      rbind (assign_slots num_values (drop first ranges)
        \<lparr>slot_bb_id = 0, avail_slots = [0..<num_values], num_avail_slots = num_values, active_ranges = []\<rparr>) (\<lambda>rs.
      Inr (take first ranges @ rs)))"

section \<open>The analysis\<close>

fun define_values :: "PNModule \<Rightarrow> nat \<Rightarrow> PNValueId list \<Rightarrow> PNLivenessRange list \<Rightarrow> PNLivenessRange list res" where
  "define_values module n [] ranges = Inr ranges"
| "define_values module n (m # ms) ranges =
     rbind (ensure (length (module_values module) \<le> m) (Undefined ''array index'')) (\<lambda>_.
     rbind (nth_res ranges (m - length (module_values module))) (\<lambda>rng.
     define_values module n ms (ranges[m - length (module_values module) :=
       rng\<lparr>first_bb_id := n mod 2 ^ 16, last_bb_id := n mod 2 ^ 16\<rparr>])))"

fun define_blocks :: "PNModule \<Rightarrow> nat \<Rightarrow> PNBasicBlock list \<Rightarrow> PNLivenessRange list \<Rightarrow> PNLivenessRange list res" where
  "define_blocks module n [] ranges = Inr ranges"
| "define_blocks module n (bb # bs) ranges =
     rbind (if first_def_id bb \<noteq> PN_INVALID_VALUE_ID \<and> last_def_id bb \<noteq> PN_INVALID_VALUE_ID
            then define_values module n [first_def_id bb..<Suc (last_def_id bb)] ranges else Inr ranges) (\<lambda>ranges.
     define_blocks module (n + 1) bs ranges)"

definition invalid_range :: PNLivenessRange where
  "invalid_range = \<lparr>first_bb_id = PN_INVALID_BB_ID, last_bb_id = PN_INVALID_BB_ID, slot_id = PN_INVALID_VALUE_ID\<rparr>"

definition live_ranges :: "PNModule \<Rightarrow> PNFunction \<Rightarrow> PNLivenessRange list run" where
  "live_ranges module f =
     obind (Some (pn_bitset_init (length (function_values f)))) (\<lambda>values.
     obind (Some (pn_bitset_init (length (bbs f)))) (\<lambda>blocks.
     obind (Some (define_blocks module 0 (bbs f) (replicate (length (function_values f)) invalid_range))) (\<lambda>ranges.
     obind (live_blocks module f (length (bbs f))
              (\<lparr>seen_values = values, livein = blocks, seen_bbs = blocks\<rparr>, ranges)) (\<lambda>(_, ranges).
     Some (Inr ranges)))))"

definition pn_function_calculate_liveness :: "PNModule \<Rightarrow> PNFunction \<Rightarrow> PNLivenessRange list run" where
  "pn_function_calculate_liveness module f =
     obind (live_ranges module f) (\<lambda>ranges. Some (pn_function_make_slot_map f ranges))"

section \<open>What the search finds\<close>

text \<open>
  The reference: a value is needed in the blocks on the way back from a use, up to and including the
  blocks that define it; it is live at the beginning of those that do not.
\<close>

inductive needed :: "PNFunction \<Rightarrow> PNValueId \<Rightarrow> PNBasicBlockId \<Rightarrow> PNBasicBlockId \<Rightarrow> bool" for f v start where
  needed_start: "needed f v start start"
| needed_pred: "needed f v start b \<Longrightarrow> \<not> defines_value (bbs f ! b) v \<Longrightarrow> p \<in> set (pred_bb_ids (bbs f ! b)) \<Longrightarrow>
    needed f v start p"

definition live_at :: "PNFunction \<Rightarrow> PNValueId \<Rightarrow> PNBasicBlockId \<Rightarrow> PNBasicBlockId set" where
  "live_at f v start = {b. needed f v start b \<and> \<not> defines_value (bbs f ! b) v}"

definition preds_ok :: "PNFunction \<Rightarrow> bool" where
  "preds_ok f \<longleftrightarrow> (\<forall>bb\<in>set (bbs f). \<forall>p\<in>set (pred_bb_ids bb). p < length (bbs f))"

lemma needed_less: "preds_ok f \<Longrightarrow> start < length (bbs f) \<Longrightarrow> needed f v start b \<Longrightarrow> b < length (bbs f)"
  by (erule needed.induct) (auto simp: preds_ok_def)

lemma push_preds_spec:
  assumes "holds n seen S" "distinct stack" "set stack \<subseteq> S" "S \<subseteq> {..<n}" "set ps \<subseteq> {..<n}"
  shows "\<exists>seen' N. push_preds n ps seen stack = Inr (seen', N @ stack) \<and> holds n seen' (S \<union> set ps) \<and>
    distinct (N @ stack) \<and> set N = set ps - S"
  using assms
proof (induction ps arbitrary: seen stack S)
  case (Cons p ps)
  have p: "p < n" using Cons.prems(5) by simp
  show ?case
  proof (cases "p \<in> S")
    case True
    with Cons.IH[OF Cons.prems(1-4)] Cons.prems p show ?thesis by (auto simp: insert_absorb)
  next
    case False
    obtain seen' where seen': "pn_bitset_set seen (of_nat p) True = Inr seen'" "holds n seen' (insert p S)"
      using holds_put[OF Cons.prems(1) p] .
    have "length stack \<le> card S" using Cons.prems(2,3,4)
      by (metis card_mono distinct_card finite_lessThan finite_subset)
    also have "card S < n" using psubset_card_mono[of "{..<n}" S] False p Cons.prems(4) by auto
    finally have room: "length stack < n" .
    have "distinct (p # stack)" "set (p # stack) \<subseteq> insert p S" "insert p S \<subseteq> {..<n}" "set ps \<subseteq> {..<n}"
      using Cons.prems False p by auto
    from Cons.IH[OF seen'(2) this] obtain seen'' N where
      "push_preds n ps seen' (p # stack) = Inr (seen'', N @ p # stack)" "holds n seen'' (insert p S \<union> set ps)"
      "distinct (N @ p # stack)" "set N = set ps - insert p S" by blast
    with False room seen' Cons.prems(1) p show ?thesis by (intro exI[of _ seen''] exI[of _ "N @ [p]"]) auto
  qed
qed auto

definition range_over :: "PNLivenessRange \<Rightarrow> PNBasicBlockId set \<Rightarrow> PNLivenessRange" where
  "range_over rng L = rng\<lparr>first_bb_id := Min (insert (first_bb_id rng) L), last_bb_id := Max (insert (last_bb_id rng) L)\<rparr>"

lemma widen_range_over:
  assumes "finite L" "first_bb_id rng \<le> last_bb_id rng"
  shows "widen b (range_over rng L) = range_over rng (insert b L)"
proof -
  define lo hi where "lo = Min (insert (first_bb_id rng) L)" and "hi = Max (insert (last_bb_id rng) L)"
  have "lo \<le> first_bb_id rng" "last_bb_id rng \<le> hi" using assms(1) by (simp_all add: lo_def hi_def)
  then have "lo \<le> hi" using assms(2) by simp
  moreover have "Min (insert (first_bb_id rng) (insert b L)) = min b lo" "Max (insert (last_bb_id rng) (insert b L)) = max b hi"
    using assms(1) by (simp_all only: insert_commute[of _ b] lo_def hi_def) simp_all
  ultimately show ?thesis by (simp add: widen_def range_over_def flip: lo_def hi_def)
qed

definition search_inv :: "PNFunction \<Rightarrow> PNValueId \<Rightarrow> PNBasicBlockId \<Rightarrow> PNBasicBlockId set \<Rightarrow> PNBasicBlockId set \<Rightarrow>
    PNBasicBlockId list \<Rightarrow> bool" where
  "search_inv f v start L S stack \<longleftrightarrow> start \<in> S \<and> (\<forall>b\<in>S. needed f v start b) \<and> distinct stack \<and> set stack \<subseteq> S \<and>
     L = {b \<in> S - set stack. \<not> defines_value (bbs f ! b) v} \<and> (\<forall>b\<in>L. set (pred_bb_ids (bbs f ! b)) \<subseteq> S)"

lemma search_done:
  assumes "search_inv f v start L S []" shows "L = live_at f v start"
proof -
  have "b \<in> S" if "needed f v start b" for b
    using that
  proof induction
    case (needed_pred b p)
    then have "b \<in> L" using assms by (auto simp: search_inv_def)
    then show ?case using needed_pred(3) assms by (auto simp: search_inv_def)
  qed (use assms in \<open>auto simp: search_inv_def\<close>)
  then show ?thesis using assms by (auto simp: search_inv_def live_at_def)
qed

lemma search_skip: "search_inv f v start L S (b # stack) \<Longrightarrow> defines_value (bbs f ! b) v \<Longrightarrow> search_inv f v start L S stack"
  by (auto simp: search_inv_def)

lemma search_visit:
  assumes "search_inv f v start L S (b # stack)" "\<not> defines_value (bbs f ! b) v"
    and "distinct (N @ stack)" "set N = set (pred_bb_ids (bbs f ! b)) - S"
  shows "search_inv f v start (insert b L) (S \<union> set (pred_bb_ids (bbs f ! b))) (N @ stack)"
  unfolding search_inv_def
proof (intro conjI)
  show "\<forall>x\<in>S \<union> set (pred_bb_ids (bbs f ! b)). needed f v start x"
    using assms(1,2) by (auto simp: search_inv_def intro: needed_pred)
qed (use assms in \<open>auto simp: search_inv_def\<close>)

lemma live_loop_spec:
  assumes "preds_ok f" "start < length (bbs f)" "first_bb_id rng \<le> last_bb_id rng"
    and "holds (length (bbs f)) live L" "holds (length (bbs f)) seen S" "search_inv f v start L S stack"
  shows "\<exists>live' seen'. live_loop f v live seen stack (range_over rng L) =
      Some (Inr (live', seen', range_over rng (live_at f v start))) \<and>
    holds (length (bbs f)) live' (live_at f v start) \<and> (\<exists>S'. holds (length (bbs f)) seen' S')"
  using assms(4-6)
proof (induction "card ({..<length (bbs f)} - (S - set stack))" arbitrary: live L seen S stack rule: less_induct)
  case less
  let ?n = "length (bbs f)"
  have SL: "S \<subseteq> {..<?n}" "finite L"
    using needed_less[OF assms(1,2)] less.prems(3) by (auto simp: search_inv_def intro: finite_subset[of _ "{..<?n}"])
  show ?case
  proof (cases stack)
    case Nil
    then show ?thesis using search_done less.prems by (subst live_loop.simps) auto
  next
    case (Cons b stack')
    note inv = less.prems(3)[unfolded Cons]
    have b: "b < ?n" "b \<notin> L" "b \<in> S" "b \<notin> set stack'" "set stack' \<subseteq> S" "distinct stack'"
      using inv SL by (auto simp: search_inv_def)
    have smaller: "card ({..<?n} - (S' - set stack'')) < card ({..<?n} - (S - set stack))"
      if "S' - set stack'' = insert b (S - set stack)" for S' stack''
      using that b Cons by (intro psubset_card_mono) auto
    show ?thesis
    proof (cases "defines_value (bbs f ! b) v")
      case True
      from less.hyps[OF smaller less.prems(1,2) search_skip[OF inv True]] b Cons True show ?thesis
        by (subst live_loop.simps) auto
    next
      case False
      obtain live' where live': "pn_bitset_set live (of_nat b) True = Inr live'" "holds ?n live' (insert b L)"
        using holds_put[OF less.prems(1) b(1)] .
      have "set (pred_bb_ids (bbs f ! b)) \<subseteq> {..<?n}" using assms(1) b(1) by (auto simp: preds_ok_def)
      from push_preds_spec[OF less.prems(2) b(6,5) SL(1) this] obtain seen' N where
        push: "push_preds ?n (pred_bb_ids (bbs f ! b)) seen stack' = Inr (seen', N @ stack')"
        "holds ?n seen' (S \<union> set (pred_bb_ids (bbs f ! b)))" "distinct (N @ stack')"
        "set N = set (pred_bb_ids (bbs f ! b)) - S" by blast
      have "S \<union> set (pred_bb_ids (bbs f ! b)) - set (N @ stack') = insert b (S - set stack)"
        using push(4) b Cons by auto
      from less.hyps[OF smaller[OF this] live'(2) push(2) search_visit[OF inv False push(3,4)]]
      show ?thesis using b Cons False live'(1) push(1) less.prems(1) widen_range_over[OF SL(2) assms(3)]
        by (subst live_loop.simps) simp
    qed
  qed
qed

section \<open>The analysis does not fail\<close>

definition live_ok :: "PNFunction \<Rightarrow> PNLivenessState \<times> PNLivenessRange list \<Rightarrow> bool" where
  "live_ok f st \<longleftrightarrow> (case st of (state, ranges) \<Rightarrow>
     (\<exists>SV. holds (length (function_values f)) (seen_values state) SV) \<and> (\<exists>L. holds (length (bbs f)) (livein state) L) \<and>
     (\<exists>S. holds (length (bbs f)) (seen_bbs state) S) \<and> length ranges = length (function_values f) \<and>
     (\<forall>r\<in>set ranges. first_bb_id r \<le> last_bb_id r))"

lemma range_over_ordered:
  assumes "finite L" "first_bb_id rng \<le> last_bb_id rng"
  shows "first_bb_id (range_over rng L) \<le> last_bb_id (range_over rng L)"
proof -
  have "Min (insert (first_bb_id rng) L) \<le> first_bb_id rng" "last_bb_id rng \<le> Max (insert (last_bb_id rng) L)"
    using assms(1) by simp_all
  then show ?thesis using assms(2) by (simp add: range_over_def)
qed

lemma finite_live_at: "preds_ok f \<Longrightarrow> start < length (bbs f) \<Longrightarrow> finite (live_at f v start)"
  by (rule finite_subset[of _ "{..<length (bbs f)}"]) (auto simp: live_at_def dest: needed_less)

lemma liveness_per_value_spec:
  assumes "preds_ok f" "start < length (bbs f)" "rel < length (function_values f)" "live_ok f (state, ranges)"
    and "holds (length (function_values f)) (seen_values state) SV"
  shows "\<exists>state'. pn_basic_block_calculate_liveness_per_value m f start rel (state, ranges) = Some (Inr (state',
      if rel \<in> SV then ranges
      else ranges[rel := range_over (ranges ! rel) (live_at f (length (module_values m) + rel) start)])) \<and>
    live_ok f (state', if rel \<in> SV then ranges
      else ranges[rel := range_over (ranges ! rel) (live_at f (length (module_values m) + rel) start)]) \<and>
    holds (length (function_values f)) (seen_values state') (insert rel SV) \<and>
    (rel \<notin> SV \<longrightarrow> holds (length (bbs f)) (livein state') (live_at f (length (module_values m) + rel) start))"
proof (cases "rel \<in> SV")
  case True
  with assms show ?thesis
    by (auto simp: pn_basic_block_calculate_liveness_per_value_def insert_absorb)
next
  case False
  let ?n = "length (bbs f)" and ?v = "length (module_values m) + rel"
  obtain vs where vs: "pn_bitset_set (seen_values state) (of_nat rel) True = Inr vs"
    "holds (length (function_values f)) vs (insert rel SV)" using holds_put[OF assms(5,3)] .
  obtain L S where LS: "holds ?n (livein state) L" "holds ?n (seen_bbs state) S" using assms(4) by (auto simp: live_ok_def)
  obtain seen where seen: "pn_bitset_set (pn_bitset_clear (seen_bbs state)) (of_nat start) True = Inr seen"
    "holds ?n seen {start}" using holds_put[OF holds_clear[OF LS(2)] assms(2)] .
  have ord: "first_bb_id (ranges ! rel) \<le> last_bb_id (ranges ! rel)" "rel < length ranges"
    using assms(3,4) by (auto simp: live_ok_def)
  have "search_inv f ?v start {} {start} [start]" by (auto simp: search_inv_def intro: needed_start)
  from live_loop_spec[OF assms(1,2) ord(1) holds_clear[OF LS(1)] seen(2) this] obtain live' seen' S' where
    loop: "live_loop f ?v (pn_bitset_clear (livein state)) seen [start] (range_over (ranges ! rel) {}) =
      Some (Inr (live', seen', range_over (ranges ! rel) (live_at f ?v start)))"
    "holds ?n live' (live_at f ?v start)" "holds ?n seen' S'" by blast
  have "range_over (ranges ! rel) {} = ranges ! rel" by (simp add: range_over_def)
  moreover have "bbs f \<noteq> []" using assms(2) by auto
  moreover have "live_ok f (state\<lparr>seen_values := vs, livein := live', seen_bbs := seen'\<rparr>,
      ranges[rel := range_over (ranges ! rel) (live_at f ?v start)])"
    using assms(4) vs(2) loop(2,3) range_over_ordered[OF finite_live_at[OF assms(1,2)] ord(1)]
    by (auto simp: live_ok_def dest: set_update_subset_insert[THEN subsetD])
  ultimately show ?thesis
    using False assms(3,5) vs seen(1) loop(1,2) ord(2) by (simp add: pn_basic_block_calculate_liveness_per_value_def)
qed

definition operands_ok :: "PNModule \<Rightarrow> PNFunction \<Rightarrow> bool" where
  "operands_ok m f \<longleftrightarrow> (\<forall>bb\<in>set (bbs f).
     (\<forall>use\<in>set (phi_uses bb). use_incoming_bb_id use < length (bbs f) \<and>
        use_incoming_value_id use < length (module_values m) + length (function_values f)) \<and>
     (\<forall>v\<in>set (bb_uses bb). length (module_values m) \<le> v \<and> v < length (module_values m) + length (function_values f)) \<and>
     (first_def_id bb \<noteq> PN_INVALID_VALUE_ID \<and> last_def_id bb \<noteq> PN_INVALID_VALUE_ID \<longrightarrow>
        length (module_values m) \<le> first_def_id bb \<and> last_def_id bb < length (module_values m) + length (function_values f)))"

text \<open>
  The reference for the whole analysis. The searches are made from the last block to the first, in each block
  for the operands of the phis up to the first that is not local, then for the other operands. For each value
  only the first search counts.
\<close>

definition block_searches :: "PNModule \<Rightarrow> PNFunction \<Rightarrow> PNBasicBlockId \<Rightarrow> (PNBasicBlockId \<times> nat) list" where
  "block_searches m f b =
     map (\<lambda>u. (use_incoming_bb_id u, use_incoming_value_id u - length (module_values m)))
       (takeWhile (\<lambda>u. first_function_value_id m f \<le> use_incoming_value_id u) (phi_uses (bbs f ! b))) @
     map (\<lambda>v. (b, v - length (module_values m))) (bb_uses (bbs f ! b))"

definition searches :: "PNModule \<Rightarrow> PNFunction \<Rightarrow> nat \<Rightarrow> (PNBasicBlockId \<times> nat) list" where
  "searches m f n = concat (map (block_searches m f) (rev [0..<n]))"

definition range_after :: "PNModule \<Rightarrow> PNFunction \<Rightarrow> (PNBasicBlockId \<times> nat) list \<Rightarrow> nat \<Rightarrow> PNLivenessRange \<Rightarrow> PNLivenessRange" where
  "range_after m f xs k rng = (case find (\<lambda>x. snd x = k) xs of None \<Rightarrow> rng
     | Some x \<Rightarrow> range_over rng (live_at f (length (module_values m) + k) (fst x)))"

lemma find_append_case: "find P (xs @ ys) = (case find P xs of None \<Rightarrow> find P ys | Some x \<Rightarrow> Some x)"
  by (induction xs) auto

lemma find_snd_None: "find (\<lambda>x. snd x = k) xs = None \<longleftrightarrow> k \<notin> snd ` set xs"
  by (induction xs) auto

text \<open>The state after searches \<open>xs\<close> that started when the values \<open>SV\<close> had been searched for.\<close>

definition searched :: "PNModule \<Rightarrow> PNFunction \<Rightarrow> (PNBasicBlockId \<times> nat) list \<Rightarrow> nat set \<Rightarrow> PNLivenessRange list \<Rightarrow>
    PNLivenessState \<times> PNLivenessRange list \<Rightarrow> bool" where
  "searched m f xs SV ranges st \<longleftrightarrow> live_ok f st \<and>
     holds (length (function_values f)) (seen_values (fst st)) (SV \<union> snd ` set xs) \<and>
     (\<forall>k<length (function_values f). snd st ! k = (if k \<in> SV then ranges ! k else range_after m f xs k (ranges ! k)))"

lemma searched_append:
  assumes "searched m f xs SV ranges st" "searched m f ys (SV \<union> snd ` set xs) (snd st) st'"
  shows "searched m f (xs @ ys) SV ranges st'"
proof -
  have "snd st' ! k = (if k \<in> SV then ranges ! k else range_after m f (xs @ ys) k (ranges ! k))"
    if "k < length (function_values f)" for k
    using assms that find_snd_None[of k xs]
    by (auto simp: searched_def range_after_def find_append_case split: option.splits)
  then show ?thesis using assms by (auto simp: searched_def Un_assoc image_Un)
qed

lemma searched_Nil: "live_ok f st \<Longrightarrow> holds (length (function_values f)) (seen_values (fst st)) SV \<Longrightarrow> searched m f [] SV (snd st) st"
  by (simp add: searched_def range_after_def)

lemma per_value_searched:
  assumes "preds_ok f" "start < length (bbs f)" "rel < length (function_values f)" "live_ok f st"
    and "holds (length (function_values f)) (seen_values (fst st)) SV"
  shows "\<exists>st'. pn_basic_block_calculate_liveness_per_value m f start rel st = Some (Inr st') \<and> searched m f [(start, rel)] SV (snd st) st'"
proof -
  obtain state ranges where st: "st = (state, ranges)" by (cases st)
  have len: "length ranges = length (function_values f)" using assms(4) by (simp add: st live_ok_def)
  from liveness_per_value_spec[OF assms(1-3), of state ranges SV m] assms(4,5) len show ?thesis
    by (fastforce simp: st searched_def range_after_def nth_list_update)
qed

lemma per_value_then:
  assumes "preds_ok f" "start < length (bbs f)" "rel < length (function_values f)" "live_ok f st"
    and "holds (length (function_values f)) (seen_values (fst st)) SV"
    and "\<And>st1. live_ok f st1 \<Longrightarrow> holds (length (function_values f)) (seen_values (fst st1)) (insert rel SV) \<Longrightarrow>
      \<exists>st'. rest st1 = Some (Inr st') \<and> searched m f xs (insert rel SV) (snd st1) st'"
  shows "\<exists>st'. obind (pn_basic_block_calculate_liveness_per_value m f start rel st) rest = Some (Inr st') \<and>
    searched m f ((start, rel) # xs) SV (snd st) st'"
proof -
  obtain st1 where st1: "pn_basic_block_calculate_liveness_per_value m f start rel st = Some (Inr st1)"
    "searched m f [(start, rel)] SV (snd st) st1" using per_value_searched[OF assms(1-5)] by blast
  then have "live_ok f st1" "holds (length (function_values f)) (seen_values (fst st1)) (insert rel SV)" by (simp_all add: searched_def)
  from assms(6)[OF this] obtain st' where "rest st1 = Some (Inr st')" "searched m f xs (insert rel SV) (snd st1) st'" by blast
  with searched_append[OF st1(2), of xs st'] st1(1) show ?thesis by auto
qed

lemma live_phi_uses_searched:
  assumes "preds_ok f" "live_ok f st" "holds (length (function_values f)) (seen_values (fst st)) SV"
    "\<forall>use\<in>set uses. use_incoming_bb_id use < length (bbs f) \<and>
      use_incoming_value_id use < length (module_values m) + length (function_values f)"
  shows "\<exists>st'. live_phi_uses m f uses st = Some (Inr st') \<and>
    searched m f (map (\<lambda>u. (use_incoming_bb_id u, use_incoming_value_id u - length (module_values m)))
       (takeWhile (\<lambda>u. first_function_value_id m f \<le> use_incoming_value_id u) uses)) SV (snd st) st'"
  using assms(2-4)
proof (induction uses arbitrary: st SV)
  case (Cons use uses)
  show ?case
  proof (cases "use_incoming_value_id use < first_function_value_id m f")
    case False
    then have "use_incoming_value_id use - length (module_values m) < length (function_values f)"
      using Cons.prems(3) by (auto simp: first_function_value_id_def)
    from per_value_then[OF assms(1) _ this Cons.prems(1,2), of "use_incoming_bb_id use" "live_phi_uses m f uses"] Cons.IH Cons.prems(3) False
    show ?thesis by simp
  qed (use Cons.prems searched_Nil in auto)
qed (simp add: searched_Nil)

lemma live_uses_searched:
  assumes "preds_ok f" "live_ok f st" "holds (length (function_values f)) (seen_values (fst st)) SV" "b < length (bbs f)"
    "\<forall>v\<in>set uses. length (module_values m) \<le> v \<and> v < length (module_values m) + length (function_values f)"
  shows "\<exists>st'. live_uses m f b uses st = Some (Inr st') \<and>
    searched m f (map (\<lambda>v. (b, v - length (module_values m))) uses) SV (snd st) st'"
  using assms(2,3,5)
proof (induction uses arbitrary: st SV)
  case (Cons v uses)
  then have "v - length (module_values m) < length (function_values f)" by auto
  from per_value_then[OF assms(1,4) this Cons.prems(1,2), of "live_uses m f b uses"] Cons.IH Cons.prems(3) show ?case by simp
qed (simp add: searched_Nil)

lemma block_searched:
  assumes "preds_ok f" "operands_ok m f" "b < length (bbs f)" "live_ok f st" "holds (length (function_values f)) (seen_values (fst st)) SV"
  shows "\<exists>st'. pn_basic_block_calculate_liveness m f b st = Some (Inr st') \<and> searched m f (block_searches m f b) SV (snd st) st'"
proof -
  let ?bb = "bbs f ! b" and ?nm = "length (module_values m)"
  let ?xs = "map (\<lambda>u. (use_incoming_bb_id u, use_incoming_value_id u - ?nm)) (takeWhile (\<lambda>u. first_function_value_id m f \<le> use_incoming_value_id u) (phi_uses ?bb))"
  have ops: "\<forall>use\<in>set (phi_uses ?bb). use_incoming_bb_id use < length (bbs f) \<and> use_incoming_value_id use < ?nm + length (function_values f)"
    "\<forall>v\<in>set (bb_uses ?bb). ?nm \<le> v \<and> v < ?nm + length (function_values f)"
    using assms(2) nth_mem[OF assms(3)] unfolding operands_ok_def by blast+
  obtain st1 where st1: "live_phi_uses m f (phi_uses ?bb) st = Some (Inr st1)" "searched m f ?xs SV (snd st) st1"
    using live_phi_uses_searched[OF assms(1,4,5) ops(1)] by blast
  then have "live_ok f st1" "holds (length (function_values f)) (seen_values (fst st1)) (SV \<union> snd ` set ?xs)" by (simp_all add: searched_def)
  from live_uses_searched[OF assms(1) this assms(3) ops(2)] obtain st2 where
    st2: "live_uses m f b (bb_uses ?bb) st1 = Some (Inr st2)"
    "searched m f (map (\<lambda>v. (b, v - ?nm)) (bb_uses ?bb)) (SV \<union> snd ` set ?xs) (snd st1) st2" by blast
  with st1(1) assms(3) searched_append[OF st1(2) st2(2)] show ?thesis
    by (simp add: pn_basic_block_calculate_liveness_def block_searches_def)
qed

lemma live_blocks_searched:
  assumes "preds_ok f" "operands_ok m f" "length (bbs f) \<le> 65536"
  shows "n \<le> length (bbs f) \<Longrightarrow> live_ok f st \<Longrightarrow> holds (length (function_values f)) (seen_values (fst st)) SV \<Longrightarrow>
    \<exists>st'. live_blocks m f n st = Some (Inr st') \<and> searched m f (searches m f n) SV (snd st) st'"
proof (induction n arbitrary: st SV)
  case 0
  then show ?case by (simp add: searches_def searched_Nil)
next
  case (Suc n)
  then have n: "n < length (bbs f)" "n mod 65536 = n" using assms(3) by auto
  obtain st1 where st1: "pn_basic_block_calculate_liveness m f n st = Some (Inr st1)" "searched m f (block_searches m f n) SV (snd st) st1"
    using block_searched[OF assms(1,2) n(1) Suc.prems(2,3)] by blast
  then have "live_ok f st1" "holds (length (function_values f)) (seen_values (fst st1)) (SV \<union> snd ` set (block_searches m f n))"
    by (simp_all add: searched_def)
  from Suc.IH[OF _ this] Suc.prems(1) obtain st2 where "live_blocks m f n st1 = Some (Inr st2)"
    "searched m f (searches m f n) (SV \<union> snd ` set (block_searches m f n)) (snd st1) st2" by auto
  with searched_append[OF st1(2), of "searches m f n" st2] st1(1) n show ?case by (simp add: searches_def)
qed

text \<open>Before the searches, a value has the interval of the last block that defines it.\<close>

definition has_defs :: "PNBasicBlock \<Rightarrow> bool" where
  "has_defs bb \<longleftrightarrow> first_def_id bb \<noteq> PN_INVALID_VALUE_ID \<and> last_def_id bb \<noteq> PN_INVALID_VALUE_ID"

definition defining_block :: "PNModule \<Rightarrow> PNFunction \<Rightarrow> nat \<Rightarrow> nat option" where
  "defining_block m f k = find (\<lambda>b. has_defs (bbs f ! b) \<and> defines_value (bbs f ! b) (length (module_values m) + k)) (rev [0..<length (bbs f)])"

definition defined_range :: "nat option \<Rightarrow> PNLivenessRange" where
  "defined_range b = (case b of None \<Rightarrow> invalid_range | Some b \<Rightarrow> invalid_range\<lparr>first_bb_id := b, last_bb_id := b\<rparr>)"

lemma define_values_spec:
  assumes "\<forall>v\<in>set vs. length (module_values m) \<le> v \<and> v < length (module_values m) + n" "length ranges = n" "k < 65536"
    "\<forall>r\<in>set ranges. slot_id r = PN_INVALID_VALUE_ID"
  shows "\<exists>ranges'. define_values m k vs ranges = Inr ranges' \<and> length ranges' = n \<and> (\<forall>r\<in>set ranges'. slot_id r = PN_INVALID_VALUE_ID) \<and>
    (\<forall>i<n. ranges' ! i = (if length (module_values m) + i \<in> set vs then defined_range (Some k) else ranges ! i))"
  using assms
proof (induction vs arbitrary: ranges)
  case (Cons v vs)
  let ?i = "v - length (module_values m)"
  let ?r = "ranges[?i := (ranges ! ?i)\<lparr>first_bb_id := k mod 2 ^ 16, last_bb_id := k mod 2 ^ 16\<rparr>]"
  have i: "?i < n" "length (module_values m) \<le> v" using Cons.prems(1) by auto
  have new: "(ranges ! ?i)\<lparr>first_bb_id := k mod 2 ^ 16, last_bb_id := k mod 2 ^ 16\<rparr> = defined_range (Some k)"
    using Cons.prems(2-4) i by (cases "ranges ! ?i") (use nth_mem[of ?i ranges] in \<open>auto simp: defined_range_def invalid_range_def\<close>)
  have "\<forall>r\<in>set ?r. slot_id r = PN_INVALID_VALUE_ID"
    using Cons.prems(4) unfolding new by (auto simp: defined_range_def invalid_range_def dest!: set_update_subset_insert[THEN subsetD])
  from Cons.IH[of ?r] Cons.prems(1-3) this obtain ranges' where r: "define_values m k vs ?r = Inr ranges'" "length ranges' = n"
    "\<forall>r\<in>set ranges'. slot_id r = PN_INVALID_VALUE_ID"
    "\<forall>i<n. ranges' ! i = (if length (module_values m) + i \<in> set vs then defined_range (Some k) else ?r ! i)" by auto
  have "ranges' ! j = (if length (module_values m) + j \<in> set (v # vs) then defined_range (Some k) else ranges ! j)" if "j < n" for j
    using r(4) that i new Cons.prems(2) by (auto simp: nth_list_update)
  then show ?case using r(1-3) i Cons.prems(2) by auto
qed simp

lemma define_blocks_spec:
  assumes "\<forall>bb\<in>set bs. has_defs bb \<longrightarrow> length (module_values m) \<le> first_def_id bb \<and> last_def_id bb < length (module_values m) + n"
    "length ranges = n" "k + length bs \<le> 65536" "\<forall>r\<in>set ranges. slot_id r = PN_INVALID_VALUE_ID"
  shows "\<exists>ranges'. define_blocks m k bs ranges = Inr ranges' \<and> length ranges' = n \<and>
    (\<forall>i<n. ranges' ! i = (case find (\<lambda>b. has_defs (bs ! b) \<and> defines_value (bs ! b) (length (module_values m) + i)) (rev [0..<length bs]) of
       None \<Rightarrow> ranges ! i | Some b \<Rightarrow> defined_range (Some (k + b))))"
  using assms
proof (induction bs arbitrary: k ranges)
  case (Cons bb bs)
  let ?nm = "length (module_values m)"
  let ?P = "\<lambda>bs i b. has_defs (bs ! b) \<and> defines_value (bs ! b) (?nm + i)"
  obtain r where r: "(if has_defs bb then define_values m k [first_def_id bb..<Suc (last_def_id bb)] ranges else Inr ranges) = Inr r"
    "length r = n" "\<forall>r\<in>set r. slot_id r = PN_INVALID_VALUE_ID"
    "\<forall>i<n. r ! i = (if has_defs bb \<and> defines_value bb (?nm + i) then defined_range (Some k) else ranges ! i)"
  proof (cases "has_defs bb")
    case True
    with define_values_spec[of "[first_def_id bb..<Suc (last_def_id bb)]" m n ranges k] Cons.prems that show thesis
      by (auto simp: defines_value_def simp del: upt_Suc)
  qed (use Cons.prems that in auto)
  from Cons.IH[of r "k + 1"] r(2,3) Cons.prems obtain ranges' where ih: "define_blocks m (k + 1) bs r = Inr ranges'" "length ranges' = n"
    "\<forall>i<n. ranges' ! i = (case find (?P bs i) (rev [0..<length bs]) of None \<Rightarrow> r ! i | Some b \<Rightarrow> defined_range (Some (k + 1 + b)))" by auto
  have "find (?P (bb # bs) i) (rev [0..<Suc (length bs)]) =
      (case find (?P bs i) (rev [0..<length bs]) of None \<Rightarrow> if has_defs bb \<and> defines_value bb (?nm + i) then Some 0 else None
       | Some b \<Rightarrow> Some (Suc b))" for i
  proof -
    have "find Q (map Suc xs) = map_option Suc (find (\<lambda>b. Q (Suc b)) xs)" for Q xs by (induction xs) auto
    moreover have "rev [0..<Suc (length bs)] = map Suc (rev [0..<length bs]) @ [0]"
      by (metis map_Suc_upt rev.simps(2) rev_map upt_conv_Cons zero_less_Suc)
    ultimately show ?thesis by (simp add: find_append_case split: option.split)
  qed
  with ih(3) r(4) have "\<forall>i<n. ranges' ! i = (case find (?P (bb # bs) i) (rev [0..<length (bb # bs)]) of
      None \<Rightarrow> ranges ! i | Some b \<Rightarrow> defined_range (Some (k + b)))"
    by (auto split: option.splits)
  then show ?case using ih(1,2) r(1) by (simp add: has_defs_def[symmetric] del: upt_Suc)
qed simp

text \<open>The interval the analysis has to give to a value.\<close>

definition value_range :: "PNModule \<Rightarrow> PNFunction \<Rightarrow> nat \<Rightarrow> PNLivenessRange" where
  "value_range m f k = range_after m f (searches m f (length (bbs f))) k (defined_range (defining_block m f k))"

lemma defined_range_ordered: "first_bb_id (defined_range b) \<le> last_bb_id (defined_range b)"
  by (simp add: defined_range_def invalid_range_def split: option.split)

lemma live_ranges_exact:
  assumes "preds_ok f" "operands_ok m f" "length (bbs f) \<le> 65536" "length (function_values f) + 31 < 2 ^ 31"
  shows "live_ranges m f = Some (Inr (map (value_range m f) [0..<length (function_values f)]))"
proof -
  let ?n = "length (function_values f)"
  obtain vs where vs: "pn_bitset_init ?n = Inr vs" "holds ?n vs {}"
    using assms(4) holds_init[of ?n] by (auto simp: pn_bitset_init_def)
  obtain bs where bs: "pn_bitset_init (length (bbs f)) = Inr bs" "holds (length (bbs f)) bs {}"
    using assms(3) holds_init[of "length (bbs f)"] by (auto simp: pn_bitset_init_def)
  obtain rs where rs: "define_blocks m 0 (bbs f) (replicate ?n invalid_range) = Inr rs" "length rs = ?n"
    "\<forall>i<?n. rs ! i = defined_range (defining_block m f i)"
    using define_blocks_spec[of "bbs f" m ?n "replicate ?n invalid_range" 0] assms(2,3)
    by (fastforce simp: operands_ok_def has_defs_def invalid_range_def defining_block_def defined_range_def split: option.splits)
  let ?st = "(\<lparr>seen_values = vs, livein = bs, seen_bbs = bs\<rparr>, rs)"
  have "live_ok f ?st" using vs bs rs(2,3) defined_range_ordered by (auto simp: live_ok_def in_set_conv_nth)
  from live_blocks_searched[OF assms(1-3) order_refl this, of "{}"] vs obtain st where
    st: "live_blocks m f (length (bbs f)) ?st = Some (Inr st)" "searched m f (searches m f (length (bbs f))) {} rs st" by auto
  have "snd st = map (value_range m f) [0..<?n]"
    using st(2) rs by (intro nth_equalityI) (auto simp: searched_def live_ok_def value_range_def split: prod.splits)
  with st(1) vs(1) bs(1) rs(1) show ?thesis by (cases st) (simp add: live_ranges_def)
qed

text \<open>The interval of a value that a block defines lies in the function.\<close>

lemma searches_start:
  assumes "operands_ok m f" "find (\<lambda>x. snd x = k) (searches m f (length (bbs f))) = Some x"
  shows "fst x < length (bbs f)"
proof -
  have "x \<in> set (searches m f (length (bbs f)))" using assms(2) by (metis find_Some_iff nth_mem)
  then obtain b where "b < length (bbs f)" "x \<in> set (block_searches m f b)" by (auto simp: searches_def)
  moreover from this have "\<forall>u\<in>set (phi_uses (bbs f ! b)). use_incoming_bb_id u < length (bbs f)"
    using assms(1) nth_mem unfolding operands_ok_def by blast
  ultimately show ?thesis by (auto simp: block_searches_def dest!: set_takeWhileD)
qed

lemma value_range_inside:
  assumes "preds_ok f" "operands_ok m f" "defining_block m f k = Some b"
  shows "first_bb_id (value_range m f k) \<le> b \<and> b \<le> last_bb_id (value_range m f k) \<and> last_bb_id (value_range m f k) < length (bbs f)"
proof -
  have b: "b < length (bbs f)" using assms(3) unfolding defining_block_def by (metis find_Some_iff length_rev length_upt minus_nat.diff_0 nth_mem set_rev atLeastLessThan_iff set_upt)
  show ?thesis
  proof (cases "find (\<lambda>x. snd x = k) (searches m f (length (bbs f)))")
    case None
    then show ?thesis using b assms(3) by (simp add: value_range_def range_after_def defined_range_def)
  next
    case (Some x)
    let ?L = "live_at f (length (module_values m) + k) (fst x)"
    have x: "fst x < length (bbs f)" by (rule searches_start[OF assms(2) Some])
    have "finite ?L" "?L \<subseteq> {..<length (bbs f)}"
      using finite_live_at[OF assms(1) x] needed_less[OF assms(1) x] by (auto simp: live_at_def)
    then show ?thesis using b assms(3) Some
      by (auto simp: value_range_def range_after_def defined_range_def range_over_def)
  qed
qed

section \<open>The slots\<close>

lemma heap_up_total:
  assumes "i < length avail" "slot < n" "set avail \<subseteq> {..<n}"
  shows "\<exists>avail'. heap_up i slot avail = Inr avail' \<and> length avail' = length avail \<and> set avail' \<subseteq> {..<n}"
  using assms
proof (induction i slot avail rule: heap_up.induct)
  case (1 i slot avail)
  let ?p = "(i - 1) div 2"
  have upd: "set (avail[i := x]) \<subseteq> {..<n}" if "x < n" for x
    using that "1.prems"(3) by (meson insert_subset lessThan_iff order_trans set_update_subset_insert)
  show ?case
  proof (cases "i \<noteq> 0 \<and> avail ! ?p > slot")
    case True
    then have p: "?p < length avail" "avail ! ?p < n" using "1.prems" by (auto simp: nth_mem subset_iff)
    from "1.IH"[OF _ refl nth_res_in[OF p(1)] _ upd_res_in[OF "1.prems"(1)]] upd[OF p(2)] True p "1.prems" show ?thesis
      by (subst heap_up.simps) (simp add: Let_def)
  next
    case False
    then show ?thesis using "1.prems" upd by (subst heap_up.simps) (auto simp: Let_def)
  qed
qed

lemma heap_down_total:
  assumes "num \<le> length avail" "i < length avail" "set avail \<subseteq> {..<n}"
  shows "\<exists>avail'. heap_down i num avail = Inr avail' \<and> length avail' = length avail \<and> set avail' \<subseteq> {..<n}"
  using assms
proof (induction i num avail rule: heap_down.induct)
  case (1 i num avail)
  have upd: "set (avail[i := avail ! k]) \<subseteq> {..<n}" if "k < length avail" for k
    using that "1.prems"(3) by (meson insert_subset nth_mem order_trans set_update_subset_insert subsetD)
  show ?case
  proof (cases "i * 2 + 2 < num")
    case True
    then have c: "i * 2 + 1 < length avail" "i * 2 + 2 < length avail" using "1.prems"(1) by simp_all
    show ?thesis
    proof (cases "avail ! (i * 2 + 1) < avail ! (i * 2 + 2)")
      case less: True
      from "1.IH"(1)[OF True nth_res_in[OF c(1)] nth_res_in[OF c(2)] less upd_res_in[OF "1.prems"(2)]]
        upd[OF c(1)] c less True "1.prems" show ?thesis
        by (subst heap_down.simps) simp
    next
      case less: False
      from "1.IH"(2)[OF True nth_res_in[OF c(1)] nth_res_in[OF c(2)] less upd_res_in[OF "1.prems"(2)]]
        upd[OF c(2)] c less True "1.prems" show ?thesis
        by (subst heap_down.simps) simp
    qed
  next
    case False
    then show ?thesis using "1.prems" upd by (subst heap_down.simps) auto
  qed
qed

definition slots_ok :: "nat \<Rightarrow> PNLivenessRange list \<Rightarrow> nat \<Rightarrow> PNValueId list \<Rightarrow> bool" where
  "slots_ok n active num avail \<longleftrightarrow> length avail = n \<and> num + length active = n \<and> set avail \<subseteq> {..<n} \<and>
     (\<forall>r\<in>set active. slot_id r < n)"

lemma evict_total:
  assumes "slots_ok n active num avail"
  shows "\<exists>active' num' avail'. evict n b m active num avail = Inr (active', num', avail') \<and>
    slots_ok n active' num' avail' \<and> length active' \<le> length active"
  using assms
proof (induction n b m active num avail rule: evict.induct)
  case (1 n b m active num avail)
  show ?case
  proof (cases "m < length active \<and> last_bb_id (active ! m) < b")
    case True
    let ?active = "butlast (active[m := last active])"
    have n: "num < n" "slot_id (active ! m) < n" using True "1.prems" by (auto simp: slots_ok_def)
    then obtain avail' where avail': "heap_up num (slot_id (active ! m)) avail = Inr avail'" "length avail' = n"
      "set avail' \<subseteq> {..<n}" using heap_up_total[of num avail "slot_id (active ! m)" n] "1.prems" by (auto simp: slots_ok_def)
    have "set ?active \<subseteq> set active"
    proof
      fix r assume "r \<in> set ?active"
      then have "r \<in> insert (last active) (set active)"
        by (meson in_set_butlastD set_update_subset_insert subsetD)
      moreover have "last active \<in> set active" using True by (intro last_in_set) auto
      ultimately show "r \<in> set active" by auto
    qed
    then have "slots_ok n ?active (num + 1) avail'" using True "1.prems" avail' by (auto simp: slots_ok_def)
    from "1.IH"(1)[OF _ _ _ avail'(1) this] True n avail'(1) show ?thesis by (subst evict.simps) fastforce
  next
    case False
    then show ?thesis using "1.IH"(2) "1.prems" by (subst evict.simps) (auto split: if_splits)
  qed
qed

lemma assign_slots_total:
  assumes "slots_ok n (active_ranges st) (num_avail_slots st) (avail_slots st)"
    and "length (active_ranges st) + length ranges \<le> n"
  shows "\<exists>rs. assign_slots n ranges st = Inr rs \<and> length rs = length ranges \<and>
    (\<forall>k<length ranges. slot_id (rs ! k) < n \<and> rs ! k = (ranges ! k)\<lparr>slot_id := slot_id (rs ! k)\<rparr>)"
  using assms
proof (induction ranges arbitrary: st)
  case (Cons rng ranges)
  obtain st1 where st1: "evict_finished n rng st = Inr st1"
    "slots_ok n (active_ranges st1) (num_avail_slots st1) (avail_slots st1)"
    "length (active_ranges st1) \<le> length (active_ranges st)"
    using evict_total[OF Cons.prems(1), of "first_bb_id rng" 0] Cons.prems(1)
    by (cases "first_bb_id rng > slot_bb_id st") (auto simp: evict_finished_def)
  let ?n = "num_avail_slots st1" and ?a = "avail_slots st1"
  have n: "0 < ?n" "?n \<le> length ?a" "0 < length ?a" "length (active_ranges st1) < n" "?a ! 0 < n"
    using st1 Cons.prems(2) by (auto simp: slots_ok_def subset_iff)
  obtain avail where avail: "heap_down 0 ?n ?a = Inr avail" "length avail = length ?a" "set avail \<subseteq> {..<n}"
    using heap_down_total[OF n(2,3), of n] st1(2) by (auto simp: slots_ok_def)
  let ?st = "st1\<lparr>avail_slots := avail, num_avail_slots := ?n - 1, active_ranges := active_ranges st1 @ [rng\<lparr>slot_id := ?a ! 0\<rparr>]\<rparr>"
  have "slots_ok n (active_ranges ?st) (num_avail_slots ?st) (avail_slots ?st)"
    using st1(2) avail n by (auto simp: slots_ok_def)
  moreover have "length (active_ranges ?st) + length ranges \<le> n" using st1(3) Cons.prems(2) by simp
  ultimately obtain rs where "assign_slots n ranges ?st = Inr rs" "length rs = length ranges"
    "\<forall>k<length ranges. slot_id (rs ! k) < n \<and> rs ! k = (ranges ! k)\<lparr>slot_id := slot_id (rs ! k)\<rparr>"
    using Cons.IH[of ?st] by blast
  then show ?case using st1(1) avail(1) n by (auto simp: assign_slot_def Let_def less_Suc_eq_0_disj)
qed simp

lemma make_slot_map_total:
  assumes "length ranges = length (function_values f)" "num_args f + length (constants f) \<le> length (function_values f)"
  shows "\<exists>rs. pn_function_make_slot_map f ranges = Inr rs \<and> length rs = length ranges \<and>
    (\<forall>k<length ranges. rs ! k = (ranges ! k)\<lparr>slot_id := slot_id (rs ! k)\<rparr> \<and>
       (num_args f + length (constants f) \<le> k \<longrightarrow> slot_id (rs ! k) < length (function_values f)))"
proof -
  let ?n = "length (function_values f)" and ?i = "num_args f + length (constants f)"
  let ?st = "\<lparr>slot_bb_id = 0, avail_slots = [0..<?n], num_avail_slots = ?n, active_ranges = []\<rparr>"
  have "slots_ok ?n (active_ranges ?st) (num_avail_slots ?st) (avail_slots ?st)" by (auto simp: slots_ok_def)
  from assign_slots_total[OF this, of "drop ?i ranges"] assms obtain rs where
    rs: "assign_slots ?n (drop ?i ranges) ?st = Inr rs" "length rs = ?n - ?i"
    "\<forall>k<?n - ?i. slot_id (rs ! k) < ?n \<and> rs ! k = (drop ?i ranges ! k)\<lparr>slot_id := slot_id (rs ! k)\<rparr>" by auto
  have "(take ?i ranges @ rs) ! k = (ranges ! k)\<lparr>slot_id := slot_id ((take ?i ranges @ rs) ! k)\<rparr> \<and>
      (?i \<le> k \<longrightarrow> slot_id ((take ?i ranges @ rs) ! k) < ?n)" if "k < length ranges" for k
  proof (cases "k < ?i")
    case False
    then have "(take ?i ranges @ rs) ! k = rs ! (k - ?i)" "drop ?i ranges ! (k - ?i) = ranges ! k" "k - ?i < ?n - ?i"
      using that assms by (simp_all add: nth_append)
    with rs(3) show ?thesis by metis
  qed (use that in \<open>simp add: nth_append\<close>)
  then show ?thesis using rs(1,2) assms by (simp add: pn_function_make_slot_map_def)
qed

lemma assign_slots_keeps: "assign_slots n ranges st = Inr rs \<Longrightarrow> map last_bb_id rs = map last_bb_id ranges"
  by (induction ranges arbitrary: st rs) (auto simp: assign_slot_def Let_def res_simps)

lemma make_slot_map_keeps: "pn_function_make_slot_map f ranges = Inr rs \<Longrightarrow> map last_bb_id rs = map last_bb_id ranges"
  by (auto simp: pn_function_make_slot_map_def Let_def res_simps simp flip: map_append dest!: assign_slots_keeps)
    (metis append_take_drop_id map_append)

section \<open>Properties\<close>

text \<open>
  C13: The search for a use of a value. Where the predecessors are blocks of the function, the search
  from a use in block \<open>start\<close> ends, and the stack of blocks never overflows. A value that was not searched
  for before leaves in \<open>livein\<close> exactly the blocks at whose beginning it is live because of that use:
  those from which the use can be reached backwards without passing a block that defines the value. Its interval
  becomes the least one around these blocks and the old interval. For a value that was searched for before,
  nothing happens.
\<close>

theorem pn_liveness_search_exact:
  assumes "preds_ok f" "start < length (bbs f)" "rel < length (function_values f)" "live_ok f (state, ranges)"
    and "holds (length (function_values f)) (seen_values state) SV"
  shows "\<exists>state'. pn_basic_block_calculate_liveness_per_value m f start rel (state, ranges) = Some (Inr (state',
      if rel \<in> SV then ranges
      else ranges[rel := range_over (ranges ! rel) (live_at f (length (module_values m) + rel) start)])) \<and>
    live_ok f (state', if rel \<in> SV then ranges
      else ranges[rel := range_over (ranges ! rel) (live_at f (length (module_values m) + rel) start)]) \<and>
    holds (length (function_values f)) (seen_values state') (insert rel SV) \<and>
    (rel \<notin> SV \<longrightarrow> holds (length (bbs f)) (livein state') (live_at f (length (module_values m) + rel) start))"
  using assms by (rule liveness_per_value_spec)

lemma liveness_exact:
  assumes "preds_ok f" "operands_ok m f" "length (bbs f) \<le> 65536" "length (function_values f) + 31 < 2 ^ 31"
    and "num_args f + length (constants f) \<le> length (function_values f)"
  shows "\<exists>ranges. pn_function_calculate_liveness m f = Some (Inr ranges) \<and> length ranges = length (function_values f) \<and>
    (\<forall>k<length ranges. ranges ! k = (value_range m f k)\<lparr>slot_id := slot_id (ranges ! k)\<rparr> \<and>
      (num_args f + length (constants f) \<le> k \<longrightarrow> slot_id (ranges ! k) < length (function_values f)))"
proof -
  let ?rs = "map (value_range m f) [0..<length (function_values f)]"
  from make_slot_map_total[of ?rs f] assms(5) obtain rs' where "pn_function_make_slot_map f ?rs = Inr rs'" "length rs' = length ?rs"
    "\<forall>k<length ?rs. rs' ! k = (?rs ! k)\<lparr>slot_id := slot_id (rs' ! k)\<rparr> \<and>
       (num_args f + length (constants f) \<le> k \<longrightarrow> slot_id (rs' ! k) < length (function_values f))" by auto
  with live_ranges_exact[OF assms(1-4)] show ?thesis by (auto simp: pn_function_calculate_liveness_def)
qed

text \<open>
  C14: Liveness as a whole. Where the predecessors, operands and definitions of the blocks are blocks and values of
  the function, of which there are at most 65536 and fewer than two to the 31 less 31, \<open>pn_function_calculate_liveness\<close> returns; no assertion fails, no array is exceeded and there is
  always a slot. The interval of a value is that of its defining block, widened by the blocks at which the value is live
  because of one use: the first in the order from the last block to the first, in a block the phi operands before the others. The
  interval of a value that a block defines contains this block and ends in the function. The slot of a local value is less
  than the number of values.
\<close>

theorem pn_liveness_total:
  assumes "preds_ok f" "operands_ok m f" "length (bbs f) \<le> 65536" "length (function_values f) + 31 < 2 ^ 31"
    and "num_args f + length (constants f) \<le> length (function_values f)"
  shows "\<exists>ranges. pn_function_calculate_liveness m f = Some (Inr ranges) \<and> length ranges = length (function_values f) \<and>
    (\<forall>k<length ranges. ranges ! k = (value_range m f k)\<lparr>slot_id := slot_id (ranges ! k)\<rparr> \<and>
      (\<forall>b. defining_block m f k = Some b \<longrightarrow> first_bb_id (ranges ! k) \<le> b \<and> b \<le> last_bb_id (ranges ! k) \<and> last_bb_id (ranges ! k) < length (bbs f)) \<and>
      (num_args f + length (constants f) \<le> k \<longrightarrow> slot_id (ranges ! k) < length (function_values f)))"
proof -
  obtain ranges where r: "pn_function_calculate_liveness m f = Some (Inr ranges)" "length ranges = length (function_values f)"
    "\<forall>k<length ranges. ranges ! k = (value_range m f k)\<lparr>slot_id := slot_id (ranges ! k)\<rparr> \<and>
      (num_args f + length (constants f) \<le> k \<longrightarrow> slot_id (ranges ! k) < length (function_values f))" using liveness_exact[OF assms] by blast
  have "first_bb_id (ranges ! k) = first_bb_id (value_range m f k) \<and> last_bb_id (ranges ! k) = last_bb_id (value_range m f k)"
    if "k < length ranges" for k
    using r(3) that by (metis PNLivenessRange.select_convs(1,2) PNLivenessRange.surjective PNLivenessRange.update_convs(3))
  with r value_range_inside[OF assms(1,2)] show ?thesis by auto
qed

text \<open>Values of a function are evaluated inside the logic with these.\<close>

lemmas live_eval = typing_module_def blank_bb_def typing_function_def pn_module_init_def
  pn_function_calculate_liveness_def live_ranges_def pn_bitset_init_def invalid_range_def
  pn_basic_block_calculate_liveness_def pn_basic_block_calculate_liveness_per_value_def pn_bitset_is_set_def
  pn_bitset_set_def pn_bitset_clear_def live_loop.simps defines_value_def widen_def
  pn_function_make_slot_map_def assign_slot_def evict_finished_def heap_down.simps Let_def replicate_numeral_Cons

text \<open>
  A value that block 0 defines is used in block 2 and in block 1, which is in a loop with block 3.
\<close>

definition loop_function :: PNFunction where
  "loop_function = typing_function\<lparr>num_args := 0, function_values := take 1 (function_values typing_function), bbs :=
     [blank_bb\<lparr>succ_bb_ids := [1, 2], first_def_id := 0, last_def_id := 0\<rparr>,
      blank_bb\<lparr>succ_bb_ids := [3], pred_bb_ids := [0, 3], bb_uses := [0]\<rparr>,
      blank_bb\<lparr>succ_bb_ids := [], pred_bb_ids := [0], bb_uses := [0]\<rparr>,
      blank_bb\<lparr>succ_bb_ids := [1], pred_bb_ids := [1]\<rparr>]\<rparr>"

lemma loop_function_live: "pn_function_calculate_liveness typing_module loop_function =
    Some (Inr [\<lparr>first_bb_id = 0, last_bb_id = 2, slot_id = 0\<rparr>])"
  by (simp add: loop_function_def live_eval cong: rbind_weak_cong obind_weak_cong)

lemma loop_function_ok:
  "preds_ok loop_function" "operands_ok typing_module loop_function" "length (bbs loop_function) = 4"
  "length (function_values loop_function) = 1" "num_args loop_function + length (constants loop_function) = 0"
  by (simp_all add: preds_ok_def operands_ok_def loop_function_def typing_module_def typing_function_def blank_bb_def pn_module_init_def)

lemma loop_function_needed: "{1, 3} \<subseteq> live_at loop_function 0 1"
proof -
  have "needed loop_function 0 1 3"
    by (rule needed_pred[OF needed_start]) (simp_all add: loop_function_def blank_bb_def defines_value_def)
  then show ?thesis by (auto simp: live_at_def loop_function_def blank_bb_def defines_value_def intro: needed_start)
qed

theorem pn_liveness_total_witness:
  "\<exists>ranges. pn_function_calculate_liveness typing_module loop_function = Some (Inr ranges) \<and> length ranges = 1 \<and>
     last_bb_id (ranges ! 0) < 4 \<and> slot_id (ranges ! 0) < 1"
proof -
  have "[0..<4] = [0, 1, 2, 3 :: nat]" by (simp add: upt_rec)
  then have "defining_block typing_module loop_function 0 = Some 0"
    by (simp add: defining_block_def loop_function_def has_defs_def defines_value_def blank_bb_def typing_module_def pn_module_init_def)
  then show ?thesis using pn_liveness_total[of loop_function typing_module] loop_function_ok by fastforce
qed

theorem pn_liveness_search_exact_witness:
  "\<exists>blocks state'. pn_bitset_init 4 = Inr blocks \<and>
     pn_basic_block_calculate_liveness_per_value typing_module loop_function 1 0
       (\<lparr>seen_values = blocks, livein = blocks, seen_bbs = blocks\<rparr>, [invalid_range\<lparr>first_bb_id := 0, last_bb_id := 0\<rparr>]) =
     Some (Inr (state', [range_over (invalid_range\<lparr>first_bb_id := 0, last_bb_id := 0\<rparr>) (live_at loop_function 0 1)]))"
proof -
  obtain b where b: "pn_bitset_init 4 = Inr b" by (auto simp: pn_bitset_init_def)
  then have h: "holds 4 b {}" by (rule holds_init)
  then have "holds 1 b {}" by (auto simp: holds_def)
  with h have "live_ok loop_function (\<lparr>seen_values = b, livein = b, seen_bbs = b\<rparr>, [invalid_range\<lparr>first_bb_id := 0, last_bb_id := 0\<rparr>])"
    by (auto simp: live_ok_def loop_function_ok)
  from pn_liveness_search_exact[OF loop_function_ok(1) _ _ this, of 1 0 "{}" typing_module] \<open>holds 1 b {}\<close> b show ?thesis
    by (auto simp: loop_function_ok typing_module_def pn_module_init_def)
qed

text \<open>
  Only one use of a value is searched for. Blocks are taken from the last to the first, and a value
  that was seen is skipped: the use in block 2 is found first and gives the interval from 0 to 2. The
  use in block 1 is skipped, although because of it the value is live in block 3 as well, whose code
  may then get the value's slot for another value.
\<close>

theorem pn_liveness_misses_use:
  "\<exists>rng. pn_function_calculate_liveness typing_module loop_function = Some (Inr [rng]) \<and>
     0 \<in> set (bb_uses (bbs loop_function ! 1)) \<and> 3 \<in> live_at loop_function 0 1 \<and> last_bb_id rng < 3"
  using loop_function_live loop_function_needed by (auto simp: loop_function_def blank_bb_def)

section \<open>Slots that are handed out twice\<close>

text \<open>Seven intervals that begin in block 0 need no eviction: the heap alone decides.\<close>

lemma seven_slots:
  assumes "num_args f = 0" "constants f = []" "length (function_values f) = 7" "length ranges = 7" "\<forall>r\<in>set ranges. first_bb_id r = 0"
  shows "\<exists>rs. pn_function_make_slot_map f ranges = Inr rs \<and> map slot_id rs = [0, 1, 2, 3, 3, 3, 3]"
proof -
  have "[0..<7] = [0, 1, 2, 3, 4, 5, 6]" by (simp add: upt_rec)
  moreover obtain r0 r1 r2 r3 r4 r5 r6 where r: "ranges = [r0, r1, r2, r3, r4, r5, r6]"
    using assms(4) by (auto simp: eval_nat_numeral length_Suc_conv)
  ultimately show ?thesis using assms(1-3,5)
    by (simp add: pn_function_make_slot_map_def Let_def assign_slot_def evict_finished_def heap_down.simps cong: rbind_weak_cong)
qed

text \<open>
  C39: The heap of available slots loses and repeats slots: taking the least one leaves a copy at the gap on the last
  level and drops the last element. In every function of two blocks with seven values, all defined in block 0
  and all used in block 1, which block 0 precedes, all seven are live at the beginning of block 1, and the last four have the
  same slot.
\<close>

theorem pn_slots_shared:
  assumes "bbs f = [b0, b1]" "preds_ok f" "operands_ok m f"
    and "num_args f = 0" "constants f = []" "length (function_values f) = 7"
    and "first_def_id b0 = length (module_values m)" "last_def_id b0 = length (module_values m) + 6" "length (module_values m) + 6 < PN_INVALID_VALUE_ID"
    and "first_def_id b1 = PN_INVALID_VALUE_ID" "pred_bb_ids b1 = [0]" "phi_uses b1 = []"
    and "set (bb_uses b1) = {length (module_values m)..length (module_values m) + 6}"
  shows "\<exists>ranges. pn_function_calculate_liveness m f = Some (Inr ranges) \<and>
    (\<forall>k<7. 1 \<in> live_at f (length (module_values m) + k) 1) \<and>
    map last_bb_id ranges = replicate 7 1 \<and> map slot_id ranges = [0, 1, 2, 3, 3, 3, 3]"
proof -
  let ?nm = "length (module_values m)"
  have live: "live_at f (?nm + k) 1 = {1}" if "k < 7" for k
  proof -
    have defs: "defines_value b0 (?nm + k)" "\<not> defines_value b1 (?nm + k)" using assms(7-10) that by (auto simp: defines_value_def)
    have two: "b = 0 \<or> b = 1" if "needed f (?nm + k) 1 b" for b
      using that by induction (use assms(1,11) defs in \<open>auto simp: eval_nat_numeral\<close>)
    have "b = 1" if "b \<in> live_at f (?nm + k) 1" for b
      using that two[of b] assms(1) defs by (auto simp: live_at_def)
    moreover have "1 \<in> live_at f (?nm + k) 1" using assms(1) defs by (auto simp: live_at_def intro: needed_start)
    ultimately show ?thesis by blast
  qed
  have upt: "[0..<2] = [0, 1 :: nat]" by (simp add: upt_rec)
  have rng: "value_range m f k = invalid_range\<lparr>first_bb_id := 0, last_bb_id := 1\<rparr>" if "k < 7" for k
  proof -
    have db: "defining_block m f k = Some 0"
      using assms(1,7-10) that by (auto simp: defining_block_def upt has_defs_def defines_value_def)
    have "k \<in> snd ` set (map (\<lambda>v. (1 :: nat, v - ?nm)) (bb_uses b1))"
      using that assms(13) by (auto simp: image_iff intro!: bexI[of _ "?nm + k"])
    then obtain x where "find (\<lambda>x. snd x = k) (map (\<lambda>v. (1 :: nat, v - ?nm)) (bb_uses b1)) = Some x"
      using find_snd_None[of k] by (metis option.exhaust)
    moreover from this have "fst x = 1" by (auto simp: find_Some_iff)
    ultimately have "find (\<lambda>x. snd x = k) (searches m f (length (bbs f))) = Some x" "fst x = 1"
      using assms(1,12) by (simp_all add: searches_def block_searches_def upt find_append_case)
    then show ?thesis using live[OF that] db by (simp add: value_range_def range_after_def defined_range_def range_over_def invalid_range_def)
  qed
  have ranges: "live_ranges m f = Some (Inr (map (value_range m f) [0..<7]))"
    using live_ranges_exact[OF assms(2,3)] assms(1,6) by simp
  obtain rs where rs: "pn_function_make_slot_map f (map (value_range m f) [0..<7]) = Inr rs" "map slot_id rs = [0, 1, 2, 3, 3, 3, 3]"
    using seven_slots[OF assms(4-6), of "map (value_range m f) [0..<7]"] rng by auto
  have "map last_bb_id rs = map last_bb_id (map (value_range m f) [0..<7])"
    using make_slot_map_keeps[OF rs(1)] .
  also have "\<dots> = replicate 7 1" using rng by (simp add: eval_nat_numeral upt_rec)
  finally show ?thesis using ranges rs live by (simp add: pn_function_calculate_liveness_def)
qed

definition seven_function :: PNFunction where
  "seven_function = typing_function\<lparr>num_args := 0, function_values := replicate 7 (hd (function_values typing_function)),
     bbs := [blank_bb\<lparr>succ_bb_ids := [1], first_def_id := 0, last_def_id := 6\<rparr>, blank_bb\<lparr>pred_bb_ids := [0], bb_uses := [0, 1, 2, 3, 4, 5, 6]\<rparr>]\<rparr>"

theorem pn_slots_shared_witness:
  "\<exists>ranges. pn_function_calculate_liveness typing_module seven_function = Some (Inr ranges) \<and>
     1 \<in> live_at seven_function 5 1 \<and> 1 \<in> live_at seven_function 6 1 \<and> slot_id (ranges ! 5) = slot_id (ranges ! 6)"
proof -
  let ?b0 = "blank_bb\<lparr>succ_bb_ids := [1], first_def_id := 0, last_def_id := 6\<rparr>" and ?b1 = "blank_bb\<lparr>pred_bb_ids := [0], bb_uses := [0, 1, 2, 3, 4, 5, 6]\<rparr>"
  have "bbs seven_function = [?b0, ?b1]" "preds_ok seven_function" "operands_ok typing_module seven_function"
    "num_args seven_function = 0" "constants seven_function = []" "length (function_values seven_function) = 7"
    "length (module_values typing_module) = 0" "first_def_id ?b1 = PN_INVALID_VALUE_ID" "phi_uses ?b1 = []"
    by (simp_all add: seven_function_def preds_ok_def operands_ok_def typing_module_def typing_function_def blank_bb_def pn_module_init_def)
  moreover have "set (bb_uses ?b1) = {0..6}" by auto
  ultimately obtain ranges where "pn_function_calculate_liveness typing_module seven_function = Some (Inr ranges)"
    "\<forall>k<7. 1 \<in> live_at seven_function (0 + k) 1" "map slot_id ranges = [0, 1, 2, 3, 3, 3, 3]"
    using pn_slots_shared[of seven_function ?b0 ?b1 typing_module] by auto
  moreover from this(3) have "slot_id (ranges ! 5) = slot_id (ranges ! 6)"
  proof -
    have "length ranges = 7" using arg_cong[OF \<open>map slot_id ranges = _\<close>, of length] by simp
    moreover have "map slot_id ranges ! 5 = map slot_id ranges ! 6" unfolding \<open>map slot_id ranges = _\<close> by simp
    ultimately show ?thesis by simp
  qed
  ultimately show ?thesis by auto
qed

end
