(* ===== verification/Pn_Loops.thy ===== *)
theory Pn_Loops
  imports Pn_Cfg
begin

text \<open>
  The loops of a function, \<^verbatim>\<open>src/pn_calculate_loops.h\<close>, which a build with \<open>PN_CALCULATE_LOOPS\<close> runs at the
  end of every function: a depth-first search from block 0 that marks loop headers and gives every
  block the header of its innermost loop. The members that such a build adds to a block are a list of
  their own here, one \<open>PNLoopInfo\<close> for each block.
\<close>

section \<open>The search\<close>

record PNLoopInfo =
  dfsp_pos :: nat
  loop_header_id :: PNBasicBlockId
  is_loop_header :: bool
  is_irreducible :: bool
  is_reentry :: bool

text \<open>The loop of \<open>pn_basic_block_tag_loop_header\<close>: put \<open>cur2\<close> into the chain of headers of \<open>cur1\<close>.\<close>

partial_function (option) tag_loop :: "PNLoopInfo list \<Rightarrow> PNBasicBlockId \<Rightarrow> PNBasicBlockId \<Rightarrow> PNLoopInfo list run" where
  "tag_loop bs cur1 cur2 =
     obind (Some (nth_res bs cur1)) (\<lambda>b1.
     if loop_header_id b1 \<noteq> PN_INVALID_BB_ID then
       if loop_header_id b1 = cur2 then Some (Inr bs)
       else
         obind (Some (nth_res bs (loop_header_id b1))) (\<lambda>parent.
         obind (Some (nth_res bs cur2)) (\<lambda>b2.
         if dfsp_pos parent < dfsp_pos b2
         then tag_loop (bs[cur1 := b1\<lparr>loop_header_id := cur2\<rparr>]) cur2 (loop_header_id b1)
         else tag_loop bs (loop_header_id b1) cur2))
     else Some (Inr (bs[cur1 := b1\<lparr>loop_header_id := cur2\<rparr>])))"

declare tag_loop.simps [code]

definition pn_basic_block_tag_loop_header :: "PNLoopInfo list \<Rightarrow> PNBasicBlockId \<Rightarrow> PNBasicBlockId \<Rightarrow> PNLoopInfo list run" where
  "pn_basic_block_tag_loop_header bs bb header =
     (if header = PN_INVALID_BB_ID then Some (Inr bs)
      else if header = bb then Some (Inr bs)
      else tag_loop bs bb header)"

text \<open>Up the headers of a block that was left before, until one is found that is still being searched.\<close>

partial_function (option) climb_headers :: "PNLoopInfo list \<Rightarrow> PNBasicBlockId \<Rightarrow> PNBasicBlockId \<Rightarrow> PNLoopInfo list run" where
  "climb_headers bs bb h =
     obind (Some (nth_res bs h)) (\<lambda>header.
     if loop_header_id header \<noteq> PN_INVALID_BB_ID then
       obind (Some (nth_res bs (loop_header_id header))) (\<lambda>outer.
       if dfsp_pos outer > 0 then pn_basic_block_tag_loop_header bs bb (loop_header_id header)
       else climb_headers (bs[loop_header_id header := outer\<lparr>is_irreducible := True\<rparr>]) bb (loop_header_id header))
     else Some (Inr bs))"

declare climb_headers.simps [code]

text \<open>An edge to a block that was seen before.\<close>

definition loop_edge :: "PNLoopInfo list \<Rightarrow> PNBasicBlockId \<Rightarrow> PNBasicBlockId \<Rightarrow> PNLoopInfo list run" where
  "loop_edge bs bb succ =
     obind (Some (nth_res bs succ)) (\<lambda>succ_bb.
     if dfsp_pos succ_bb > 0 then
       pn_basic_block_tag_loop_header (bs[succ := succ_bb\<lparr>is_loop_header := True\<rparr>]) bb succ
     else if loop_header_id succ_bb = PN_INVALID_BB_ID then Some (Inr bs)
     else
       obind (Some (nth_res bs (loop_header_id succ_bb))) (\<lambda>header.
       if dfsp_pos header > 0 then pn_basic_block_tag_loop_header bs bb (loop_header_id succ_bb)
       else
         let bs = bs[succ := succ_bb\<lparr>is_reentry := True\<rparr>];
             bs = bs[loop_header_id succ_bb := (bs ! loop_header_id succ_bb)\<lparr>is_irreducible := True\<rparr>]
         in climb_headers bs bb (loop_header_id succ_bb)))"

type_synonym loop_state = "PNBitSet \<times> PNLoopInfo list"

definition loop_enter :: "PNFunction \<Rightarrow> PNBasicBlockId \<Rightarrow> nat \<Rightarrow> loop_state \<Rightarrow> (PNBasicBlockId list \<times> loop_state) res" where
  "loop_enter f bb_id pos st = (case st of (seen, bs) \<Rightarrow>
     rbind (nth_res (bbs f) bb_id) (\<lambda>bb.
     rbind (pn_bitset_set seen (of_nat bb_id) True) (\<lambda>seen.
     rbind (nth_res bs bb_id) (\<lambda>info.
     Inr (succ_bb_ids bb, (seen, bs[bb_id := info\<lparr>dfsp_pos := pos\<rparr>]))))))"

definition loop_leave :: "PNBasicBlockId \<Rightarrow> loop_state \<Rightarrow> (PNBasicBlockId \<times> loop_state) res" where
  "loop_leave bb_id st = (case st of (seen, bs) \<Rightarrow>
     rbind (nth_res bs bb_id) (\<lambda>info.
     Inr (loop_header_id info, (seen, bs[bb_id := info\<lparr>dfsp_pos := 0\<rparr>]))))"

text \<open>
  The loop over the successors of a block; the recursive call for a successor is the visit of its
  successors between entering and leaving it.
\<close>

partial_function (option) loop_succs :: "PNFunction \<Rightarrow> PNBasicBlockId \<Rightarrow> nat \<Rightarrow> PNBasicBlockId list \<Rightarrow> loop_state \<Rightarrow>
    loop_state run" where
  "loop_succs f bb_id pos succs st =
     (case succs of [] \<Rightarrow> Some (Inr st)
      | succ # succs \<Rightarrow>
          obind (Some (pn_bitset_is_set (fst st) (of_nat succ))) (\<lambda>seen.
          if \<not> seen then
            obind (Some (loop_enter f succ (pos + 1) st)) (\<lambda>(ss, st).
            obind (loop_succs f succ (pos + 1) ss st) (\<lambda>st.
            obind (Some (loop_leave succ st)) (\<lambda>(header, st).
            obind (pn_basic_block_tag_loop_header (snd st) bb_id header) (\<lambda>bs.
            loop_succs f bb_id pos succs (fst st, bs)))))
          else
            obind (loop_edge (snd st) bb_id succ) (\<lambda>bs. loop_succs f bb_id pos succs (fst st, bs))))"

declare loop_succs.simps [code]

definition pn_basic_block_calculate_loops :: "PNFunction \<Rightarrow> PNBasicBlockId \<Rightarrow> nat \<Rightarrow> loop_state \<Rightarrow>
    (PNBasicBlockId \<times> loop_state) run" where
  "pn_basic_block_calculate_loops f bb_id pos st =
     obind (Some (loop_enter f bb_id pos st)) (\<lambda>(succs, st).
     obind (loop_succs f bb_id pos succs st) (\<lambda>st. Some (loop_leave bb_id st)))"

definition new_loop_info :: PNLoopInfo where
  "new_loop_info = \<lparr>dfsp_pos = 0, loop_header_id = PN_INVALID_BB_ID, is_loop_header = False, is_irreducible = False,
     is_reentry = False\<rparr>"

definition pn_function_calculate_loops :: "PNFunction \<Rightarrow> PNLoopInfo list run" where
  "pn_function_calculate_loops f =
     obind (Some (pn_bitset_init (length (bbs f)))) (\<lambda>seen_bbs.
     let bs = replicate (length (bbs f)) new_loop_info in
     if length (bbs f) > 0 then
       obind (pn_basic_block_calculate_loops f 0 1 (seen_bbs, bs)) (\<lambda>(_, _, bs). Some (Inr bs))
     else Some (Inr bs))"

section \<open>The invariant\<close>

definition edges :: "PNFunction \<Rightarrow> (PNBasicBlockId \<times> PNBasicBlockId) set" where
  "edges f = {(x, y). x < length (bbs f) \<and> y \<in> set (succ_bb_ids (bbs f ! x))}"

definition succs_ok :: "PNFunction \<Rightarrow> bool" where
  "succs_ok f \<longleftrightarrow> (\<forall>bb\<in>set (bbs f). \<forall>s\<in>set (succ_bb_ids bb). s < length (bbs f))"

text \<open>
  \<open>P\<close> is the path of the search, from the current block back to block 0, \<open>F\<close> the blocks that were
  left, the last one first, and \<open>r\<close> numbers the blocks in the order they were seen.
\<close>

definition path_ok :: "PNFunction \<Rightarrow> PNLoopInfo list \<Rightarrow> nat list \<Rightarrow> (nat \<Rightarrow> nat) \<Rightarrow> bool" where
  "path_ok f bs P r \<longleftrightarrow> distinct P \<and> (\<forall>i<length P. dfsp_pos (bs ! (P ! i)) = length P - i) \<and>
     (\<forall>b<length bs. b \<notin> set P \<longrightarrow> dfsp_pos (bs ! b) = 0) \<and> sorted_wrt (\<lambda>x y. (y, x) \<in> (edges f)\<^sup>+ \<and> r y < r x) P"

definition header_ok :: "PNFunction \<Rightarrow> nat set \<Rightarrow> PNLoopInfo list \<Rightarrow> nat list \<Rightarrow> (nat \<Rightarrow> nat) \<Rightarrow> nat \<Rightarrow> nat \<Rightarrow> bool" where
  "header_ok f S bs P r b h \<longleftrightarrow> b \<in> S \<and> h \<in> S \<and> is_loop_header (bs ! h) \<and> (h, b) \<in> (edges f)\<^sup>+ \<and> (b, h) \<in> (edges f)\<^sup>+ \<and>
     r h < r b \<and> (b \<in> set P \<longrightarrow> h \<in> set P)"

definition finish_ok :: "PNFunction \<Rightarrow> nat set \<Rightarrow> PNLoopInfo list \<Rightarrow> nat list \<Rightarrow> bool" where
  "finish_ok f S bs F \<longleftrightarrow> (\<forall>F1 x F2. F = F1 @ x # F2 \<longrightarrow>
     (\<forall>y. (x, y) \<in> edges f \<longrightarrow> y \<in> S \<and> (is_loop_header (bs ! y) \<or> y \<in> set F2)))"

definition seen_ok :: "PNFunction \<Rightarrow> nat set \<Rightarrow> nat list \<Rightarrow> nat list \<Rightarrow> (nat \<Rightarrow> nat) \<Rightarrow> bool" where
  "seen_ok f S P F r \<longleftrightarrow> S \<subseteq> {..<length (bbs f)} \<and> S = set P \<union> set F \<and> set P \<inter> set F = {} \<and>
     (\<forall>b\<in>S. r b < card S \<and> (0, b) \<in> (edges f)\<^sup>*)"

definition headers_ok :: "PNFunction \<Rightarrow> nat set \<Rightarrow> PNLoopInfo list \<Rightarrow> nat list \<Rightarrow> (nat \<Rightarrow> nat) \<Rightarrow> bool" where
  "headers_ok f S bs P r \<longleftrightarrow> length bs = length (bbs f) \<and>
     (\<forall>b<length bs. loop_header_id (bs ! b) \<noteq> PN_INVALID_BB_ID \<longrightarrow> header_ok f S bs P r b (loop_header_id (bs ! b))) \<and>
     (\<forall>b<length bs. is_loop_header (bs ! b) \<longrightarrow> b \<in> S \<and> (b, b) \<in> (edges f)\<^sup>+)"

definition loops_inv :: "PNFunction \<Rightarrow> nat set \<Rightarrow> PNLoopInfo list \<Rightarrow> nat list \<Rightarrow> nat list \<Rightarrow> (nat \<Rightarrow> nat) \<Rightarrow> bool" where
  "loops_inv f S bs P F r \<longleftrightarrow> seen_ok f S P F r \<and> path_ok f bs P r \<and> headers_ok f S bs P r \<and> finish_ok f S bs F"

lemmas loops_inv_parts = loops_inv_def seen_ok_def path_ok_def headers_ok_def

text \<open>On the path, the position orders the blocks as the edges and the numbers do.\<close>

lemma path_order:
  assumes "path_ok f bs P r" "x \<in> set P" "y \<in> set P" "dfsp_pos (bs ! x) < dfsp_pos (bs ! y)"
  shows "(x, y) \<in> (edges f)\<^sup>+ \<and> r x < r y"
proof -
  obtain i j where "x = P ! i" "i < length P" "y = P ! j" "j < length P" using assms(2,3) by (metis in_set_conv_nth)
  moreover from this have "j < i" using assms(1,4) by (auto simp: path_ok_def)
  ultimately show ?thesis using assms(1) sorted_wrt_nth_less[of _ P j i] by (auto simp: path_ok_def)
qed

lemma path_pos_inj:
  assumes "path_ok f bs P r" "x \<in> set P" "y \<in> set P" "dfsp_pos (bs ! x) = dfsp_pos (bs ! y)"
  shows "x = y"
proof -
  obtain i j where ij: "x = P ! i" "i < length P" "y = P ! j" "j < length P" using assms(2,3) by (metis in_set_conv_nth)
  then have "length P - i = length P - j" using assms(1,4) by (auto simp: path_ok_def)
  then have "i = j" using ij by arith
  then show ?thesis using ij by simp
qed

lemma path_pos_less:
  assumes "path_ok f bs P r" "x \<in> set P" "y \<in> set P" "r x < r y"
  shows "dfsp_pos (bs ! x) < dfsp_pos (bs ! y)"
  using path_order[OF assms(1,3,2)] path_pos_inj[OF assms(1-3)] assms(4) by (metis less_asym linorder_neqE_nat less_irrefl)

lemma path_pos_iff: "path_ok f bs P r \<Longrightarrow> b < length bs \<Longrightarrow> 0 < dfsp_pos (bs ! b) \<longleftrightarrow> b \<in> set P"
  by (auto simp: path_ok_def in_set_conv_nth)

lemma path_top: "path_ok f bs (b # Q) r \<Longrightarrow> x \<in> set (b # Q) \<Longrightarrow> (x, b) \<in> (edges f)\<^sup>*"
  by (auto simp: path_ok_def)

lemma nth_update_same: "g b' = g (bs ! i) \<Longrightarrow> g (bs[i := b'] ! b) = g (bs ! b)"
  by (cases "i < length bs") (auto simp: nth_list_update list_update_beyond)

text \<open>What the invariant sees of a block.\<close>

definition core_of :: "PNLoopInfo \<Rightarrow> nat \<times> nat \<times> bool" where
  "core_of b = (dfsp_pos b, loop_header_id b, is_loop_header b)"

lemma loops_inv_core:
  assumes "loops_inv f S bs P F r" "map core_of bs' = map core_of bs"
  shows "loops_inv f S bs' P F r"
proof -
  have len: "length bs' = length bs" using assms(2) by (metis length_map)
  have same: "dfsp_pos (bs' ! b) = dfsp_pos (bs ! b) \<and> loop_header_id (bs' ! b) = loop_header_id (bs ! b) \<and>
      is_loop_header (bs' ! b) = is_loop_header (bs ! b)" if "b < length bs" for b
    using arg_cong[OF assms(2), of "\<lambda>xs. xs ! b"] that len by (simp add: core_of_def)
  have S: "\<forall>b\<in>S. b < length bs" using assms(1) by (auto simp: loops_inv_parts)
  have "path_ok f bs' P r" using assms(1) same S len by (auto simp: loops_inv_def path_ok_def seen_ok_def)
  moreover have "header_ok f S bs' P r b h = header_ok f S bs P r b h" for b h using same S by (auto simp: header_ok_def)
  then have "headers_ok f S bs' P r" using assms(1) same len unfolding loops_inv_def headers_ok_def by simp
  moreover have "finish_ok f S bs' F" using assms(1) same S by (fastforce simp: loops_inv_def finish_ok_def)
  ultimately show ?thesis using assms(1) by (simp add: loops_inv_def)
qed

lemma core_update: "core_of b' = core_of (bs ! i) \<Longrightarrow> map core_of (bs[i := b']) = map core_of bs"
  by (metis list_update_id map_update)

lemma loops_inv_less: "loops_inv f S bs P F r \<Longrightarrow> b \<in> S \<Longrightarrow> b < length bs \<and> b < length (bbs f)"
  by (auto simp: loops_inv_parts)

lemma loops_inv_card: "loops_inv f S bs P F r \<Longrightarrow> finite S \<and> card S \<le> length (bbs f)"
  using card_mono[of "{..<length (bbs f)}" S] by (auto simp: loops_inv_def seen_ok_def simp del: finite_Un intro: finite_subset)

text \<open>A new header for a block on the path, and a new mark.\<close>

lemma loops_inv_set_header:
  assumes inv: "loops_inv f S bs P F r" and P: "c \<in> set P" "h \<in> set P"
    and h: "dfsp_pos (bs ! h) < dfsp_pos (bs ! c)" "is_loop_header (bs ! h)" "(c, h) \<in> (edges f)\<^sup>+"
  shows "loops_inv f S (bs[c := (bs ! c)\<lparr>loop_header_id := h\<rparr>]) P F r"
proof -
  let ?bs = "bs[c := (bs ! c)\<lparr>loop_header_id := h\<rparr>]"
  have same: "dfsp_pos (?bs ! b) = dfsp_pos (bs ! b)" "is_loop_header (?bs ! b) = is_loop_header (bs ! b)" for b
    by (rule nth_update_same, simp)+
  have hdr: "loop_header_id (?bs ! b) = (if b = c then h else loop_header_id (bs ! b))" if "b < length bs" for b
    using that by simp
  have po: "path_ok f bs P r" and S: "c \<in> S" "h \<in> S" using inv P by (auto simp: loops_inv_parts)
  have "header_ok f S ?bs P r c h"
    using path_order[OF po P(2,1) h(1)] h(2,3) S P by (simp add: header_ok_def same)
  moreover have "header_ok f S ?bs P r b x = header_ok f S bs P r b x" for b x by (simp add: header_ok_def same)
  ultimately have "headers_ok f S ?bs P r" using inv unfolding loops_inv_def headers_ok_def by (simp add: same hdr)
  moreover have "path_ok f ?bs P r" using po by (simp add: path_ok_def same)
  moreover have "finish_ok f S ?bs F" using inv by (simp add: loops_inv_def finish_ok_def same)
  ultimately show ?thesis using inv by (simp add: loops_inv_def)
qed

lemma loops_inv_mark:
  assumes inv: "loops_inv f S bs P F r" and s: "s \<in> S" "(s, s) \<in> (edges f)\<^sup>+"
  shows "loops_inv f S (bs[s := (bs ! s)\<lparr>is_loop_header := True\<rparr>]) P F r"
proof -
  let ?bs = "bs[s := (bs ! s)\<lparr>is_loop_header := True\<rparr>]"
  have len: "s < length bs" using loops_inv_less[OF inv s(1)] by simp
  have same: "dfsp_pos (?bs ! b) = dfsp_pos (bs ! b)" "loop_header_id (?bs ! b) = loop_header_id (bs ! b)"
    "is_loop_header (?bs ! b) \<longleftrightarrow> is_loop_header (bs ! b) \<or> b = s" for b
    using len by (cases "b = s"; simp)+
  have "headers_ok f S ?bs P r" using inv s by (auto simp: loops_inv_def headers_ok_def header_ok_def same)
  moreover have "path_ok f ?bs P r" using inv by (simp add: loops_inv_def path_ok_def same)
  moreover have "finish_ok f S ?bs F" using inv by (auto simp: loops_inv_def finish_ok_def same)
  ultimately show ?thesis using inv by (simp add: loops_inv_def)
qed

text \<open>Marks are never taken back.\<close>

definition marks_kept :: "PNLoopInfo list \<Rightarrow> PNLoopInfo list \<Rightarrow> bool" where
  "marks_kept bs bs' \<longleftrightarrow> (\<forall>b. is_loop_header (bs ! b) \<longrightarrow> is_loop_header (bs' ! b))"

lemma marks_kept_refl: "marks_kept bs bs"
  by (simp add: marks_kept_def)

lemma marks_kept_trans: "marks_kept bs bs' \<Longrightarrow> marks_kept bs' bs'' \<Longrightarrow> marks_kept bs bs''"
  by (simp add: marks_kept_def)

lemma marks_kept_update: "(is_loop_header (bs ! i) \<longrightarrow> is_loop_header b') \<Longrightarrow> marks_kept bs (bs[i := b'])"
  by (cases "i < length bs") (auto simp: marks_kept_def nth_list_update list_update_beyond)

section \<open>Tagging\<close>

lemma tag_loop_spec:
  assumes "loops_inv f S bs P F r" "P = bb # Q" "cur1 \<in> set P" "cur2 \<in> set P"
    "dfsp_pos (bs ! cur2) < dfsp_pos (bs ! cur1)" "is_loop_header (bs ! cur2)"
    "(bb, cur1) \<in> (edges f)\<^sup>*" "(bb, cur2) \<in> (edges f)\<^sup>+" "length (bbs f) \<le> 65535"
  shows "\<exists>bs'. tag_loop bs cur1 cur2 = Some (Inr bs') \<and> loops_inv f S bs' P F r \<and> marks_kept bs bs'"
  using assms
proof (induction "dfsp_pos (bs ! cur1) + dfsp_pos (bs ! cur2)" arbitrary: bs cur1 cur2 rule: less_induct)
  case less
  note inv = less.prems(1)
  have po: "path_ok f bs P r" using inv by (simp add: loops_inv_def)
  have S: "cur1 \<in> S" "cur2 \<in> S" using inv less.prems(3,4) by (auto simp: loops_inv_parts)
  note len = loops_inv_less[OF inv S(1)] loops_inv_less[OF inv S(2)]
  have reach: "(cur1, cur2) \<in> (edges f)\<^sup>+"
    using path_top[of f bs bb Q r cur1] po less.prems(2,3,8) by (meson rtrancl_trancl_trancl)
  let ?p = "loop_header_id (bs ! cur1)" and ?bs = "bs[cur1 := (bs ! cur1)\<lparr>loop_header_id := cur2\<rparr>]"
  note upd = loops_inv_set_header[OF inv less.prems(3,4,5,6) reach]
  have mk: "marks_kept bs ?bs" by (rule marks_kept_update) simp
  show ?case
  proof (cases "?p = PN_INVALID_BB_ID \<or> ?p = cur2")
    case True
    then show ?thesis using len upd inv mk marks_kept_refl by (subst tag_loop.simps) auto
  next
    case False
    then have "header_ok f S bs P r cur1 ?p" using inv len by (simp add: loops_inv_def headers_ok_def)
    then have p: "?p \<in> set P" "?p \<in> S" "is_loop_header (bs ! ?p)" "(cur1, ?p) \<in> (edges f)\<^sup>+" "r ?p < r cur1"
      using less.prems(3) by (auto simp: header_ok_def)
    have plen: "?p < length bs" using loops_inv_less[OF inv p(2)] by simp
    have below: "dfsp_pos (bs ! ?p) < dfsp_pos (bs ! cur1)" using path_pos_less[OF po p(1) less.prems(3) p(5)] .
    have bbp: "(bb, ?p) \<in> (edges f)\<^sup>+" using less.prems(7) p(4) by (rule rtrancl_trancl_trancl)
    have same: "dfsp_pos (?bs ! b) = dfsp_pos (bs ! b)" "is_loop_header (?bs ! b) = is_loop_header (bs ! b)" for b
      by (rule nth_update_same, simp)+
    show ?thesis
    proof (cases "dfsp_pos (bs ! ?p) < dfsp_pos (bs ! cur2)")
      case True
      from less.hyps[of ?bs cur2 ?p] upd less.prems p bbp below True
      obtain bs' where "tag_loop ?bs cur2 ?p = Some (Inr bs')" "loops_inv f S bs' P F r" "marks_kept ?bs bs'"
        by (auto simp: same trancl_into_rtrancl)
      then show ?thesis using False True len plen marks_kept_trans[OF mk] by (subst tag_loop.simps) auto
    next
      case nless: False
      then have "dfsp_pos (bs ! cur2) < dfsp_pos (bs ! ?p)"
        using path_pos_inj[OF po p(1) less.prems(4)] False by force
      from less.hyps[of bs ?p cur2] less.prems p bbp below this False nless len plen show ?thesis
        by (subst tag_loop.simps) (auto simp: trancl_into_rtrancl)
    qed
  qed
qed

lemma tag_loop_header_spec:
  assumes "loops_inv f S bs (bb # Q) F r" "h \<in> set (bb # Q)" "is_loop_header (bs ! h)" "(bb, h) \<in> (edges f)\<^sup>+"
    "length (bbs f) \<le> 65535"
  shows "\<exists>bs'. pn_basic_block_tag_loop_header bs bb h = Some (Inr bs') \<and> loops_inv f S bs' (bb # Q) F r \<and> marks_kept bs bs'"
proof (cases "h = bb \<or> h = PN_INVALID_BB_ID")
  case True
  then show ?thesis using assms(1) marks_kept_refl by (auto simp: pn_basic_block_tag_loop_header_def)
next
  case False
  have po: "path_ok f bs (bb # Q) r" using assms(1) by (simp add: loops_inv_def)
  have "dfsp_pos (bs ! h) < dfsp_pos (bs ! bb)"
  proof -
    obtain i where i: "h = (bb # Q) ! i" "i < length (bb # Q)" using assms(2) by (metis in_set_conv_nth)
    then have "0 < i" using False by (cases i) auto
    moreover have "dfsp_pos (bs ! h) = length (bb # Q) - i" "dfsp_pos (bs ! bb) = length (bb # Q) - 0"
      using po i unfolding path_ok_def by (metis, metis length_greater_0_conv list.distinct(1) nth_Cons_0)
    ultimately show ?thesis using i by simp
  qed
  from tag_loop_spec[OF assms(1) refl _ assms(2) this assms(3) _ assms(4,5)] False show ?thesis
    by (simp add: pn_basic_block_tag_loop_header_def)
qed

lemma climb_headers_spec:
  assumes "loops_inv f S bs (bb # Q) F r" "h \<in> S" "(bb, h) \<in> (edges f)\<^sup>+" "length (bbs f) \<le> 65535"
  shows "\<exists>bs'. climb_headers bs bb h = Some (Inr bs') \<and> loops_inv f S bs' (bb # Q) F r \<and> marks_kept bs bs'"
  using assms
proof (induction "r h" arbitrary: bs h rule: less_induct)
  case less
  note inv = less.prems(1)
  let ?h = "loop_header_id (bs ! h)"
  have len: "h < length bs" using loops_inv_less[OF inv less.prems(2)] by simp
  show ?case
  proof (cases "?h = PN_INVALID_BB_ID")
    case True
    then show ?thesis using len inv marks_kept_refl by (subst climb_headers.simps) auto
  next
    case False
    then have "header_ok f S bs (bb # Q) r h ?h" using inv len by (simp add: loops_inv_def headers_ok_def)
    then have o: "?h \<in> S" "is_loop_header (bs ! ?h)" "(h, ?h) \<in> (edges f)\<^sup>+" "r ?h < r h" by (auto simp: header_ok_def)
    have olen: "?h < length bs" using loops_inv_less[OF inv o(1)] by simp
    have reach: "(bb, ?h) \<in> (edges f)\<^sup>+" using less.prems(3) o(3) by (rule trancl_trans)
    show ?thesis
    proof (cases "0 < dfsp_pos (bs ! ?h)")
      case True
      then have "?h \<in> set (bb # Q)" using path_pos_iff[of f bs "bb # Q" r ?h] inv olen by (simp add: loops_inv_def)
      from tag_loop_header_spec[OF inv this o(2) reach less.prems(4)] True False len olen show ?thesis
        by (subst climb_headers.simps) simp
    next
      case nless: False
      let ?bs = "bs[?h := (bs ! ?h)\<lparr>is_irreducible := True\<rparr>]"
      have "loops_inv f S ?bs (bb # Q) F r" by (rule loops_inv_core[OF inv core_update]) (simp add: core_of_def)
      from less.hyps[OF o(4) this o(1) reach less.prems(4)] obtain bs' where
        "climb_headers ?bs bb ?h = Some (Inr bs')" "loops_inv f S bs' (bb # Q) F r" "marks_kept ?bs bs'" by blast
      moreover have "marks_kept bs ?bs" by (rule marks_kept_update) simp
      ultimately show ?thesis using False nless len olen marks_kept_trans[of bs ?bs bs'] by (subst climb_headers.simps) auto
    qed
  qed
qed

lemma loop_edge_spec:
  assumes inv: "loops_inv f S bs (bb # Q) F r" and s: "(bb, s) \<in> edges f" "s \<in> S" and n: "length (bbs f) \<le> 65535"
  shows "\<exists>bs'. loop_edge bs bb s = Some (Inr bs') \<and> loops_inv f S bs' (bb # Q) F r \<and> marks_kept bs bs' \<and>
    (is_loop_header (bs' ! s) \<or> s \<in> set F)"
proof -
  have po: "path_ok f bs (bb # Q) r" using inv by (simp add: loops_inv_def)
  have len: "s < length bs" using loops_inv_less[OF inv s(2)] by simp
  show ?thesis
  proof (cases "0 < dfsp_pos (bs ! s)")
    case True
    then have P: "s \<in> set (bb # Q)" using path_pos_iff[OF po len] by simp
    have "(s, s) \<in> (edges f)\<^sup>+" using path_top[OF po P] s(1) by (meson rtrancl_into_trancl1)
    note marked = loops_inv_mark[OF inv s(2) this]
    let ?bs = "bs[s := (bs ! s)\<lparr>is_loop_header := True\<rparr>]"
    have m: "is_loop_header (?bs ! s)" using len by simp
    from tag_loop_header_spec[OF marked P m _ n] s(1) obtain bs' where
      "pn_basic_block_tag_loop_header ?bs bb s = Some (Inr bs')" "loops_inv f S bs' (bb # Q) F r" "marks_kept ?bs bs'" by blast
    moreover have "marks_kept bs ?bs" by (rule marks_kept_update) simp
    ultimately show ?thesis using True len m marks_kept_trans[of bs ?bs bs'] by (auto simp: loop_edge_def marks_kept_def)
  next
    case False
    then have F: "s \<in> set F" using path_pos_iff[OF po len] inv s(2) by (auto simp: loops_inv_parts)
    let ?h = "loop_header_id (bs ! s)"
    show ?thesis
    proof (cases "?h = PN_INVALID_BB_ID")
      case True
      then show ?thesis using False F len inv marks_kept_refl by (auto simp: loop_edge_def)
    next
      case hdr: False
      then have "header_ok f S bs (bb # Q) r s ?h" using inv len by (simp add: loops_inv_def headers_ok_def)
      then have h: "?h \<in> S" "is_loop_header (bs ! ?h)" "(bb, ?h) \<in> (edges f)\<^sup>+"
        using s(1) by (auto simp: header_ok_def intro: trancl_into_trancl2)
      have hlen: "?h < length bs" using loops_inv_less[OF inv h(1)] by simp
      show ?thesis
      proof (cases "0 < dfsp_pos (bs ! ?h)")
        case True
        then have "?h \<in> set (bb # Q)" using path_pos_iff[OF po hlen] by simp
        from tag_loop_header_spec[OF inv this h(2,3) n] False True hdr F len hlen show ?thesis by (auto simp: loop_edge_def)
      next
        case out: False
        let ?bs1 = "bs[s := (bs ! s)\<lparr>is_reentry := True\<rparr>]"
        let ?bs2 = "?bs1[?h := (?bs1 ! ?h)\<lparr>is_irreducible := True\<rparr>]"
        have "loops_inv f S ?bs1 (bb # Q) F r" by (rule loops_inv_core[OF inv core_update]) (simp add: core_of_def)
        then have "loops_inv f S ?bs2 (bb # Q) F r" by (rule loops_inv_core[OF _ core_update]) (simp add: core_of_def)
        from climb_headers_spec[OF this h(1,3) n] obtain bs' where
          "climb_headers ?bs2 bb ?h = Some (Inr bs')" "loops_inv f S bs' (bb # Q) F r" "marks_kept ?bs2 bs'" by blast
        moreover have "marks_kept bs ?bs1" "marks_kept ?bs1 ?bs2" by (rule marks_kept_update, simp)+
        ultimately show ?thesis using False hdr out F len hlen
          by (auto simp: loop_edge_def Let_def intro: marks_kept_trans)
      qed
    qed
  qed
qed

section \<open>Entering and leaving a block\<close>

lemma loop_enter_spec:
  assumes inv: "loops_inv f S bs P F r" and h: "holds (length (bbs f)) seen S" and s: "s \<notin> S" "s < length (bbs f)"
    and enter: "case P of [] \<Rightarrow> s = 0 | bb # Q \<Rightarrow> (bb, s) \<in> edges f"
  shows "\<exists>seen'. loop_enter f s (length P + 1) (seen, bs) =
      Inr (succ_bb_ids (bbs f ! s), (seen', bs[s := (bs ! s)\<lparr>dfsp_pos := length P + 1\<rparr>])) \<and>
    holds (length (bbs f)) seen' (insert s S) \<and>
    loops_inv f (insert s S) (bs[s := (bs ! s)\<lparr>dfsp_pos := length P + 1\<rparr>]) (s # P) F (r(s := card S))"
proof -
  let ?bs = "bs[s := (bs ! s)\<lparr>dfsp_pos := length P + 1\<rparr>]" and ?r = "r(s := card S)"
  have len: "length bs = length (bbs f)" "s < length bs" using inv s(2) by (auto simp: loops_inv_parts)
  have fin: "finite S" using loops_inv_card[OF inv] by simp
  have P: "set P \<subseteq> S" "s \<notin> set P" using inv s(1) by (auto simp: loops_inv_parts)
  have up: "(y, s) \<in> (edges f)\<^sup>+" if "y \<in> set P" for y
  proof -
    from that obtain bb Q where Q: "P = bb # Q" by (cases P) auto
    then have "path_ok f bs (bb # Q) r" using inv by (simp add: loops_inv_def)
    with that Q enter show ?thesis using path_top[of f bs bb Q r y] by (auto intro: rtrancl_into_trancl1)
  qed
  have "path_ok f ?bs (s # P) ?r"
    unfolding path_ok_def
  proof (intro conjI)
    show "\<forall>i<length (s # P). dfsp_pos (?bs ! ((s # P) ! i)) = length (s # P) - i"
    proof (intro allI impI)
      fix i assume "i < length (s # P)"
      then show "dfsp_pos (?bs ! ((s # P) ! i)) = length (s # P) - i"
        using inv len P(2) by (cases i) (auto simp: loops_inv_parts nth_list_update)
    qed
    show "\<forall>b<length ?bs. b \<notin> set (s # P) \<longrightarrow> dfsp_pos (?bs ! b) = 0" using inv by (simp add: loops_inv_parts)
    have "sorted_wrt (\<lambda>x y. (y, x) \<in> (edges f)\<^sup>+ \<and> r y < r x) P" using inv by (simp add: loops_inv_parts)
    then have "sorted_wrt (\<lambda>x y. (y, x) \<in> (edges f)\<^sup>+ \<and> ?r y < ?r x) P"
      by (rule sorted_wrt_mono_rel[rotated]) (use P(2) in auto)
    moreover have "\<forall>y\<in>set P. (y, s) \<in> (edges f)\<^sup>+ \<and> ?r y < ?r s" using inv up P by (auto simp: loops_inv_parts)
    ultimately show "sorted_wrt (\<lambda>x y. (y, x) \<in> (edges f)\<^sup>+ \<and> ?r y < ?r x) (s # P)" by (simp only: sorted_wrt.simps)
  qed (use inv P(2) in \<open>auto simp: loops_inv_parts\<close>)
  moreover have "seen_ok f (insert s S) (s # P) F ?r"
  proof -
    have "(0, s) \<in> (edges f)\<^sup>*" using enter inv by (cases P) (auto simp: loops_inv_parts intro: rtrancl_into_rtrancl)
    moreover have so: "seen_ok f S P F r" using inv by (simp add: loops_inv_def)
    moreover have "?r b < card (insert s S) \<and> (0, b) \<in> (edges f)\<^sup>*" if "b \<in> S" for b
      using so that s(1) fin by (auto simp: seen_ok_def simp del: finite_Un intro: less_SucI)
    ultimately show ?thesis using s fin by (simp add: seen_ok_def) blast
  qed
  moreover have "headers_ok f (insert s S) ?bs (s # P) ?r"
  proof -
    have same: "loop_header_id (?bs ! b) = loop_header_id (bs ! b)" "is_loop_header (?bs ! b) = is_loop_header (bs ! b)" for b
      by (rule nth_update_same, simp)+
    have "header_ok f (insert s S) ?bs (s # P) ?r b x" if "header_ok f S bs P r b x" for b x
      using that s(1) by (auto simp: header_ok_def same)
    then show ?thesis using inv unfolding loops_inv_def headers_ok_def same by (simp del: One_nat_def add_Suc_right)
  qed
  moreover have "finish_ok f (insert s S) ?bs F"
  proof -
    have "is_loop_header (?bs ! b) = is_loop_header (bs ! b)" for b by (rule nth_update_same) simp
    then show ?thesis using inv by (auto simp: loops_inv_def finish_ok_def)
  qed
  moreover obtain seen' where "pn_bitset_set seen (of_nat s) True = Inr seen'" "holds (length (bbs f)) seen' (insert s S)"
    using holds_put[OF h s(2)] .
  ultimately show ?thesis using len s(2) by (simp add: loop_enter_def loops_inv_def)
qed

lemma loop_leave_inv:
  assumes inv: "loops_inv f S bs (s # P) F r"
    and succs: "\<And>y. (s, y) \<in> edges f \<Longrightarrow> y \<in> S \<and> (is_loop_header (bs ! y) \<or> y \<in> set F)"
  shows "loops_inv f S (bs[s := (bs ! s)\<lparr>dfsp_pos := 0\<rparr>]) P (s # F) r"
proof -
  let ?bs = "bs[s := (bs ! s)\<lparr>dfsp_pos := 0\<rparr>]"
  have len: "s < length bs" and P: "s \<notin> set P" using inv by (auto simp: loops_inv_parts)
  have same: "loop_header_id (?bs ! b) = loop_header_id (bs ! b)" "is_loop_header (?bs ! b) = is_loop_header (bs ! b)" for b
    by (rule nth_update_same, simp)+
  have "path_ok f ?bs P r"
    unfolding path_ok_def
  proof (intro conjI allI impI)
    fix i assume i: "i < length P"
    have "\<forall>i<length (s # P). dfsp_pos (bs ! ((s # P) ! i)) = length (s # P) - i" using inv by (simp add: loops_inv_parts)
    from this[rule_format, of "Suc i"] i have "dfsp_pos (bs ! (P ! i)) = length P - i" by simp
    moreover have "P ! i \<noteq> s" using P i by (metis nth_mem)
    ultimately show "dfsp_pos (?bs ! (P ! i)) = length P - i" by simp
  next
    fix b assume "b < length ?bs" "b \<notin> set P"
    then show "dfsp_pos (?bs ! b) = 0" using inv by (cases "b = s") (auto simp: loops_inv_parts)
  qed (use inv in \<open>auto simp: loops_inv_parts\<close>)
  moreover have "seen_ok f S P (s # F) r" using inv by (auto simp: loops_inv_parts)
  moreover have "headers_ok f S ?bs P r"
  proof -
    have "header_ok f S ?bs P r b x" if "header_ok f S bs (s # P) r b x" for b x
    proof -
      have "x \<noteq> s" if "b \<in> set P" "r x < r b" using inv that by (auto simp: loops_inv_parts)
      then show ?thesis using that by (auto simp: header_ok_def same)
    qed
    then show ?thesis using inv by (simp add: loops_inv_def headers_ok_def same)
  qed
  moreover have "finish_ok f S ?bs (s # F)"
    unfolding finish_ok_def
  proof (intro allI impI)
    fix F1 x F2 y assume F: "s # F = F1 @ x # F2" and y: "(x, y) \<in> edges f"
    show "y \<in> S \<and> (is_loop_header (?bs ! y) \<or> y \<in> set F2)"
    proof (cases F1)
      case Nil
      then show ?thesis using F succs[of y] y same by (metis append_Nil list.inject)
    next
      case (Cons a F1')
      then show ?thesis using F inv y unfolding loops_inv_def finish_ok_def same by (metis append_Cons list.inject)
    qed
  qed
  ultimately show ?thesis by (simp add: loops_inv_def)
qed

text \<open>What is promised of a visit: more blocks are seen and left, no mark is lost, the path is the same.\<close>

definition visited :: "PNFunction \<Rightarrow> nat list \<Rightarrow> nat set \<Rightarrow> nat list \<Rightarrow> PNLoopInfo list \<Rightarrow> nat list \<Rightarrow> loop_state \<Rightarrow> bool" where
  "visited f P S F bs ys st \<longleftrightarrow> (\<exists>S' F' r. loops_inv f S' (snd st) P F' r \<and> holds (length (bbs f)) (fst st) S' \<and> S \<subseteq> S' \<and>
     set F \<subseteq> set F' \<and> marks_kept bs (snd st) \<and> (\<forall>y\<in>set ys. y \<in> S' \<and> (is_loop_header (snd st ! y) \<or> y \<in> set F')))"

lemma visited_step:
  assumes "loops_inv f S1 bs1 P F1 r1" "S \<subseteq> S1" "set F \<subseteq> set F1" "marks_kept bs bs1" "y \<in> S1"
    "is_loop_header (bs1 ! y) \<or> y \<in> set F1" "visited f P S1 F1 bs1 ys st"
  shows "visited f P S F bs (y # ys) st"
proof -
  from assms(7) obtain S' F' r where "loops_inv f S' (snd st) P F' r" "holds (length (bbs f)) (fst st) S'" "S1 \<subseteq> S'"
    "set F1 \<subseteq> set F'" and m: "marks_kept bs1 (snd st)" and "\<forall>y\<in>set ys. y \<in> S' \<and> (is_loop_header (snd st ! y) \<or> y \<in> set F')"
    unfolding visited_def by blast
  moreover have "is_loop_header (bs1 ! y) \<longrightarrow> is_loop_header (snd st ! y)" using m by (simp add: marks_kept_def)
  ultimately show ?thesis unfolding visited_def using assms(2-6) marks_kept_trans[OF assms(4) m]
    by (intro exI[of _ S'] exI[of _ F'] exI[of _ r]) auto
qed

lemma loop_leave_spec:
  assumes inv: "loops_inv f S bs (s # P) F r" and P: "P = bb # Q" and e: "(bb, s) \<in> edges f" and n: "length (bbs f) \<le> 65535"
    and succs: "\<And>y. (s, y) \<in> edges f \<Longrightarrow> y \<in> S \<and> (is_loop_header (bs ! y) \<or> y \<in> set F)"
  shows "\<exists>bs1 bs2. loop_leave s (seen, bs) = Inr (loop_header_id (bs ! s), (seen, bs1)) \<and>
    pn_basic_block_tag_loop_header bs1 bb (loop_header_id (bs ! s)) = Some (Inr bs2) \<and>
    loops_inv f S bs2 P (s # F) r \<and> marks_kept bs bs2"
proof -
  let ?bs = "bs[s := (bs ! s)\<lparr>dfsp_pos := 0\<rparr>]" and ?h = "loop_header_id (bs ! s)"
  have len: "s < length bs" using inv by (auto simp: loops_inv_parts)
  have left: "loops_inv f S ?bs (bb # Q) (s # F) r" using loop_leave_inv[OF inv succs] P by simp
  have mk: "marks_kept bs ?bs" by (rule marks_kept_update) simp
  show ?thesis
  proof (cases "?h = PN_INVALID_BB_ID")
    case True
    then show ?thesis using len left mk P by (auto simp: loop_leave_def pn_basic_block_tag_loop_header_def)
  next
    case False
    then have "header_ok f S bs (s # P) r s ?h" using inv len by (simp add: loops_inv_def headers_ok_def)
    then have h: "?h \<in> set (bb # Q)" "is_loop_header (bs ! ?h)" "(bb, ?h) \<in> (edges f)\<^sup>+"
      using e P by (auto simp: header_ok_def intro: trancl_into_trancl2)
    have "is_loop_header (?bs ! ?h)" using h(2) mk by (simp add: marks_kept_def)
    from tag_loop_header_spec[OF left h(1) this h(3) n] obtain bs2 where
      "pn_basic_block_tag_loop_header ?bs bb ?h = Some (Inr bs2)" "loops_inv f S bs2 P (s # F) r" "marks_kept ?bs bs2"
      using P by blast
    then show ?thesis using len marks_kept_trans[OF mk] by (auto simp: loop_leave_def)
  qed
qed

lemma loop_succs_spec:
  assumes "length (bbs f) - card S \<le> k" "loops_inv f S bs (bb # Q) F r" "holds (length (bbs f)) seen S" "succs_ok f"
    "length (bbs f) \<le> 65535" "set ys \<subseteq> {y. (bb, y) \<in> edges f}"
  shows "\<exists>st. loop_succs f bb (length (bb # Q)) ys (seen, bs) = Some (Inr st) \<and> visited f (bb # Q) S F bs ys st"
  using assms
proof (induction k arbitrary: S bs bb Q F r seen ys rule: less_induct)
  case (less k)
  note outer = less.IH and f_ok = less.prems(4) and n = less.prems(5)
  from less.prems show ?case
  proof (induction ys arbitrary: S bs F r seen)
    case Nil
    then show ?case by (subst loop_succs.simps) (auto simp: visited_def marks_kept_refl)
  next
    case (Cons y ys)
    note inv = Cons.prems(2) and h = Cons.prems(3)
    have e: "(bb, y) \<in> edges f" using Cons.prems(6) by simp
    then have y: "y < length (bbs f)" using f_ok by (auto simp: edges_def succs_ok_def)
    note fin = loops_inv_card[OF inv]
    show ?case
    proof (cases "y \<in> S")
      case True
      from loop_edge_spec[OF inv e True n] obtain bs1 where b: "loop_edge bs bb y = Some (Inr bs1)"
        "loops_inv f S bs1 (bb # Q) F r" "marks_kept bs bs1" "is_loop_header (bs1 ! y) \<or> y \<in> set F" by blast
      from Cons.IH[OF Cons.prems(1) b(2) h f_ok n] Cons.prems(6) obtain st where
        "loop_succs f bb (length (bb # Q)) ys (seen, bs1) = Some (Inr st)" "visited f (bb # Q) S F bs1 ys st" by auto
      then show ?thesis using visited_step[OF b(2) subset_refl subset_refl b(3) True b(4)] True h y b(1)
        by (subst loop_succs.simps) auto
    next
      case False
      let ?bs = "bs[y := (bs ! y)\<lparr>dfsp_pos := length (bb # Q) + 1\<rparr>]"
      from loop_enter_spec[OF inv h False y] e obtain seen1 where en:
        "loop_enter f y (length (bb # Q) + 1) (seen, bs) = Inr (succ_bb_ids (bbs f ! y), (seen1, ?bs))"
        "holds (length (bbs f)) seen1 (insert y S)" "loops_inv f (insert y S) ?bs (y # bb # Q) F (r(y := card S))" by auto
      have c: "length (bbs f) - card (insert y S) < k" using loops_inv_card[OF en(3)] Cons.prems(1) fin False by simp
      have "set (succ_bb_ids (bbs f ! y)) \<subseteq> {z. (y, z) \<in> edges f}" using y by (auto simp: edges_def)
      from outer[OF c order_refl en(3,2) f_ok n this] obtain st1 where
        v: "loop_succs f y (length (y # bb # Q)) (succ_bb_ids (bbs f ! y)) (seen1, ?bs) = Some (Inr st1)"
           "visited f (y # bb # Q) (insert y S) F ?bs (succ_bb_ids (bbs f ! y)) st1" by blast
      obtain seen2 bs2 where st1: "st1 = (seen2, bs2)" by (cases st1)
      from v(2) st1 obtain S2 F2 r2 where
        v2: "loops_inv f S2 bs2 (y # bb # Q) F2 r2" "holds (length (bbs f)) seen2 S2" "insert y S \<subseteq> S2" "set F \<subseteq> set F2"
            "marks_kept ?bs bs2" "\<forall>z\<in>set (succ_bb_ids (bbs f ! y)). z \<in> S2 \<and> (is_loop_header (bs2 ! z) \<or> z \<in> set F2)"
        by (auto simp: visited_def)
      from loop_leave_spec[OF v2(1) refl e n, where seen = seen2] v2(6) obtain bs3 bs4 where
        lv: "loop_leave y (seen2, bs2) = Inr (loop_header_id (bs2 ! y), (seen2, bs3))"
            "pn_basic_block_tag_loop_header bs3 bb (loop_header_id (bs2 ! y)) = Some (Inr bs4)"
            "loops_inv f S2 bs4 (bb # Q) (y # F2) r2" "marks_kept bs2 bs4" by (auto simp: edges_def)
      have "card S \<le> card S2" using loops_inv_card[OF v2(1)] v2(3) by (simp add: card_mono)
      then have k: "length (bbs f) - card S2 \<le> k" using Cons.prems(1) by simp
      from Cons.IH[OF k lv(3) v2(2) f_ok n] Cons.prems(6) obtain st where
        w: "loop_succs f bb (length (bb # Q)) ys (seen2, bs4) = Some (Inr st)" "visited f (bb # Q) S2 (y # F2) bs4 ys st" by auto
      have "marks_kept bs ?bs" by (rule marks_kept_update) simp
      then have "marks_kept bs bs4" using v2(5) lv(4) by (blast intro: marks_kept_trans)
      from visited_step[OF lv(3) _ _ this _ _ w(2)] v2(3,4) have "visited f (bb # Q) S F bs (y # ys) st" by auto
      then show ?thesis using False h y en(1) v(1) st1 lv(1,2) w(1) by (subst loop_succs.simps) (simp add: eval_nat_numeral)
    qed
  qed
qed

section \<open>The whole search\<close>

lemma loops_inv_start: "loops_inv f {} (replicate (length (bbs f)) new_loop_info) [] [] r"
  by (auto simp: loops_inv_parts finish_ok_def new_loop_info_def)

lemma calculate_loops_inv:
  assumes "succs_ok f" "length (bbs f) \<le> 65535" "0 < length (bbs f)"
  shows "\<exists>bs S F r. pn_function_calculate_loops f = Some (Inr bs) \<and> loops_inv f S bs [] F r \<and> 0 \<in> S"
proof -
  let ?n = "length (bbs f)" and ?r = "\<lambda>_::nat. 0::nat"
  obtain seen where seen: "pn_bitset_init ?n = Inr seen" using assms(2) by (simp add: pn_bitset_init_def)
  note empty = holds_init[OF this]
  let ?bs = "replicate ?n new_loop_info"
  from loop_enter_spec[OF loops_inv_start[of f ?r] empty, of 0] assms(3) obtain seen1 where en:
    "loop_enter f 0 1 (seen, ?bs) = Inr (succ_bb_ids (bbs f ! 0), (seen1, ?bs[0 := (?bs ! 0)\<lparr>dfsp_pos := 1\<rparr>]))"
    "holds ?n seen1 {0}" "loops_inv f {0} (?bs[0 := (?bs ! 0)\<lparr>dfsp_pos := 1\<rparr>]) [0] [] (?r(0 := 0))" by auto
  have "set (succ_bb_ids (bbs f ! 0)) \<subseteq> {z. (0, z) \<in> edges f}" using assms(3) by (auto simp: edges_def)
  from loop_succs_spec[OF order_refl en(3,2) assms(1,2) this] obtain seen2 bs2 where
    v: "loop_succs f 0 1 (succ_bb_ids (bbs f ! 0)) (seen1, ?bs[0 := (?bs ! 0)\<lparr>dfsp_pos := 1\<rparr>]) = Some (Inr (seen2, bs2))"
       "visited f [0] {0} [] (?bs[0 := (?bs ! 0)\<lparr>dfsp_pos := 1\<rparr>]) (succ_bb_ids (bbs f ! 0)) (seen2, bs2)" by auto
  from v(2) obtain S F r where inv: "loops_inv f S bs2 [0] F r" and S: "0 \<in> S"
    "\<forall>z\<in>set (succ_bb_ids (bbs f ! 0)). z \<in> S \<and> (is_loop_header (bs2 ! z) \<or> z \<in> set F)" by (auto simp: visited_def)
  have "0 < length bs2" using loops_inv_less[OF inv S(1)] by simp
  moreover have "loops_inv f S (bs2[0 := (bs2 ! 0)\<lparr>dfsp_pos := 0\<rparr>]) [] (0 # F) r"
    by (rule loop_leave_inv[OF inv]) (use S(2) in \<open>auto simp: edges_def\<close>)
  ultimately show ?thesis using seen en(1) v(1) assms(3) S(1)
    by (auto simp: pn_function_calculate_loops_def pn_basic_block_calculate_loops_def loop_leave_def Let_def)
qed

text \<open>At the end the blocks that were left are those that block 0 reaches.\<close>

lemma finished_closed:
  assumes "loops_inv f S bs [] F r" "x \<in> S" "(x, y) \<in> edges f"
  shows "y \<in> S"
proof -
  have "x \<in> set F" using assms(1,2) by (auto simp: loops_inv_parts)
  then show ?thesis using assms(1,3) by (metis finish_ok_def loops_inv_def split_list)
qed

lemma finished_reach: "loops_inv f S bs [] F r \<Longrightarrow> 0 \<in> S \<Longrightarrow> (0, b) \<in> (edges f)\<^sup>* \<Longrightarrow> b \<in> S"
  by (rotate_tac 2, induction rule: rtrancl_induct) (auto intro: finished_closed)

lemma takeWhile_shorter: "y \<in> set ys \<Longrightarrow> length (takeWhile (\<lambda>z. z \<noteq> y) ys) < length ys"
  by (induction ys) auto

lemma last_left_earlier:
  "x \<notin> set F2 \<Longrightarrow> y \<in> set F2 \<Longrightarrow> length (takeWhile (\<lambda>z. z \<noteq> y) (rev (F1 @ x # F2))) < length (takeWhile (\<lambda>z. z \<noteq> x) (rev (F1 @ x # F2)))"
  using takeWhile_shorter[of y "rev F2"] by (auto simp: takeWhile_append)

lemma finished_acyclic:
  assumes inv: "loops_inv f S bs [] F r" and "0 \<in> S"
  shows "acyclic {(x, y) \<in> edges f. (0, x) \<in> (edges f)\<^sup>* \<and> \<not> is_loop_header (bs ! y)}"
proof (rule acyclicI_order[where f = "\<lambda>x. length (takeWhile (\<lambda>z. z \<noteq> x) (rev F))"])
  fix x y assume "(x, y) \<in> {(x, y) \<in> edges f. (0, x) \<in> (edges f)\<^sup>* \<and> \<not> is_loop_header (bs ! y)}"
  then have e: "(x, y) \<in> edges f" "\<not> is_loop_header (bs ! y)" and "x \<in> S" using finished_reach[OF assms] by auto
  then have "x \<in> set F" using inv by (auto simp: loops_inv_parts)
  then obtain F1 F2 where F: "F = F1 @ x # F2" "x \<notin> set F2" by (metis split_list_last)
  moreover have "y \<in> set F2" using inv e F(1) unfolding loops_inv_def finish_ok_def by blast
  ultimately show "length (takeWhile (\<lambda>z. z \<noteq> y) (rev F)) < length (takeWhile (\<lambda>z. z \<noteq> x) (rev F))"
    using last_left_earlier[of x F2 y F1] by simp
qed

definition nesting :: "PNLoopInfo list \<Rightarrow> (PNBasicBlockId \<times> PNBasicBlockId) set" where
  "nesting bs = {(b, h). b < length bs \<and> h = loop_header_id (bs ! b) \<and> h \<noteq> PN_INVALID_BB_ID}"

lemma finished_nesting: "loops_inv f S bs P F r \<Longrightarrow> (b, h) \<in> nesting bs \<Longrightarrow> header_ok f S bs P r b h"
  by (simp add: nesting_def loops_inv_def headers_ok_def)

lemma nesting_acyclic: "loops_inv f S bs P F r \<Longrightarrow> acyclic (nesting bs)"
  using finished_nesting[of f S bs P F r] by (intro acyclicI_order[where f = r]) (auto simp: header_ok_def)

text \<open>
  C11: in a function whose edges lead to blocks of the function, the search for loops ends. A block it
  marks as a loop header is reached from block 0 and lies on a cycle; the header it gives to a block is
  a marked block of a common cycle; and following the headers from block to block never comes round.
\<close>

theorem pn_loops_sound:
  assumes "succs_ok f" "length (bbs f) \<le> 65535"
  shows "\<exists>bs. pn_function_calculate_loops f = Some (Inr bs) \<and> length bs = length (bbs f) \<and>
    (\<forall>b<length bs. is_loop_header (bs ! b) \<longrightarrow> (0, b) \<in> (edges f)\<^sup>* \<and> (b, b) \<in> (edges f)\<^sup>+) \<and>
    (\<forall>b h. (b, h) \<in> nesting bs \<longrightarrow> is_loop_header (bs ! h) \<and> (h, b) \<in> (edges f)\<^sup>+ \<and> (b, h) \<in> (edges f)\<^sup>+) \<and>
    acyclic (nesting bs)"
proof (cases "0 < length (bbs f)")
  case True
  from calculate_loops_inv[OF assms this] obtain bs S F r where
    c: "pn_function_calculate_loops f = Some (Inr bs)" and inv: "loops_inv f S bs [] F r" by blast
  from c nesting_acyclic[OF inv] finished_nesting[OF inv] inv show ?thesis
    by (intro exI[of _ bs]) (auto simp: header_ok_def loops_inv_def headers_ok_def seen_ok_def)
next
  case False
  then show ?thesis
    by (auto simp: pn_function_calculate_loops_def pn_bitset_init_def nesting_def acyclic_def)
qed

text \<open>
  C12: the marked headers cut every loop: once the edges into them are taken away, nothing that block
  0 reaches lies on a cycle.
\<close>

theorem pn_loops_complete:
  assumes "succs_ok f" "length (bbs f) \<le> 65535"
  shows "\<exists>bs. pn_function_calculate_loops f = Some (Inr bs) \<and>
    acyclic {(x, y) \<in> edges f. (0, x) \<in> (edges f)\<^sup>* \<and> \<not> is_loop_header (bs ! y)}"
proof (cases "0 < length (bbs f)")
  case True
  with calculate_loops_inv[OF assms] finished_acyclic show ?thesis by blast
next
  case False
  then show ?thesis by (auto simp: pn_function_calculate_loops_def pn_bitset_init_def edges_def acyclic_def)
qed

text \<open>Block 0 leads to a loop of the blocks 1, 2 and 3; block 2 is a loop of its own inside it.\<close>

definition nested_function :: PNFunction where
  "nested_function = typing_function\<lparr>bbs := map (\<lambda>succs. blank_bb\<lparr>succ_bb_ids := succs\<rparr>) [[1], [2], [2, 3], [1, 4], []]\<rparr>"

lemma nested_function_ok: "succs_ok nested_function" "length (bbs nested_function) = 5"
  by (simp_all add: nested_function_def succs_ok_def)

lemmas loops_eval = pn_function_calculate_loops_def pn_basic_block_calculate_loops_def loop_enter_def loop_leave_def
  loop_succs.simps loop_edge_def climb_headers.simps pn_basic_block_tag_loop_header_def tag_loop.simps new_loop_info_def
  pn_bitset_init_def pn_bitset_set_def pn_bitset_is_set_def

lemma nested_function_loops:
  "pn_function_calculate_loops nested_function = Some (Inr
    [new_loop_info, new_loop_info\<lparr>is_loop_header := True\<rparr>, new_loop_info\<lparr>loop_header_id := 1, is_loop_header := True\<rparr>,
     new_loop_info\<lparr>loop_header_id := 1\<rparr>, new_loop_info])"
  by (simp add: loops_eval nested_function_def replicate_numeral_Cons cong: rbind_weak_cong obind_weak_cong)

theorem pn_loops_sound_witness: "(1, 1) \<in> (edges nested_function)\<^sup>+ \<and> (1, 2) \<in> (edges nested_function)\<^sup>+ \<and>
    (2, 1) \<in> (edges nested_function)\<^sup>+"
proof -
  let ?bs = "[new_loop_info, new_loop_info\<lparr>is_loop_header := True\<rparr>, new_loop_info\<lparr>loop_header_id := 1, is_loop_header := True\<rparr>,
     new_loop_info\<lparr>loop_header_id := 1\<rparr>, new_loop_info]"
  have "(2, 1) \<in> nesting ?bs" "is_loop_header (?bs ! 1)" by (auto simp: nesting_def)
  with pn_loops_sound[OF nested_function_ok(1)] show ?thesis by (auto simp: nested_function_ok(2) nested_function_loops)
qed

theorem pn_loops_complete_witness: "\<exists>bs. pn_function_calculate_loops nested_function = Some (Inr bs) \<and>
    acyclic {(x, y) \<in> edges nested_function. (0, x) \<in> (edges nested_function)\<^sup>* \<and> \<not> is_loop_header (bs ! y)}"
  using pn_loops_complete[OF nested_function_ok(1)] by (simp add: nested_function_ok(2))

end
