(* ===== verification/Pn_Trace.thy ===== *)
theory Pn_Trace
  imports Pn_Options Pn_Opcodes Pn_Liveness Pn_Loops
begin

text \<open>
  The disassembly of \<^verbatim>\<open>src/pn_trace.h\<close>: how types, values, instructions, basic blocks and functions are
  printed, and the printing of runtime instructions while they are executed. A printer gives the text
  it writes, or the error that stops it. \<open>%s\<close> with a null pointer is undefined.
\<close>

section \<open>Printing\<close>

text \<open>The pieces of a text, one behind the other.\<close>

fun cat :: "string res list \<Rightarrow> string res" where
  "cat [] = Inr []"
| "cat (p # ps) = rbind p (\<lambda>s. rbind (cat ps) (\<lambda>t. Inr (s @ t)))"

abbreviation (input) lit :: "string \<Rightarrow> string res" where "lit s \<equiv> Inr s"

abbreviation (input) num :: "nat \<Rightarrow> string res" where "num n \<equiv> Inr (show_nat n)"

text \<open>The flags and the indentation, and which optional analyses the build has.\<close>

record tracer =
  tr_flags :: "pn_trace \<Rightarrow> bool"
  tr_indent :: int
  tr_pred_bbs :: bool
  tr_liveness :: bool
  tr_loops :: bool

definition print_indentx :: "tracer \<Rightarrow> int \<Rightarrow> string" where
  "print_indentx tr x = blank_field (tr_indent tr + x)"

section \<open>Types and values\<close>

definition int_name :: "u32 \<Rightarrow> string res" where
  "int_name w =
     (if w = 1 then Inr ''i1'' else if w = 8 then Inr ''i8'' else if w = 16 then Inr ''i16''
      else if w = 32 then Inr ''i32'' else if w = 64 then Inr ''i64'' else Inl (Fatal ''bad integer width''))"

definition pn_type_describe :: "PNModule \<Rightarrow> PNTypeId \<Rightarrow> string res" where
  "pn_type_describe module type_id =
     rbind (nth_res (types module) type_id) (\<lambda>type.
     case type_code type of
       PN_TYPE_CODE_VOID \<Rightarrow> Inr ''void''
     | PN_TYPE_CODE_INTEGER \<Rightarrow> int_name (type_width type)
     | PN_TYPE_CODE_FLOAT \<Rightarrow> Inr ''float''
     | PN_TYPE_CODE_DOUBLE \<Rightarrow> Inr ''double''
     | PN_TYPE_CODE_FUNCTION \<Rightarrow> Inr ''i32''
     | _ \<Rightarrow> Inl (Fatal ''unreachable''))"

fun describe_args :: "PNModule \<Rightarrow> bool \<Rightarrow> nat \<Rightarrow> PNTypeId list \<Rightarrow> string res" where
  "describe_args module with_param_names n [] = Inr []"
| "describe_args module with_param_names n (type_id # ts) =
     cat [lit (if n \<noteq> 0 then '', '' else []), pn_type_describe module type_id,
          lit (if with_param_names then in_buffer 14 ('' %p'' @ show_nat n) else []),
          describe_args module with_param_names (n + 1) ts]"

definition pn_type_describe_all :: "PNModule \<Rightarrow> PNTypeId \<Rightarrow> string option \<Rightarrow> bool \<Rightarrow> string res" where
  "pn_type_describe_all module type_id name with_param_names =
     (if type_id = PN_INVALID_TYPE_ID then Inr ''<invalid>''
      else rbind (nth_res (types module) type_id) (\<lambda>type.
        case type_code type of
          PN_TYPE_CODE_VOID \<Rightarrow> Inr ''void''
        | PN_TYPE_CODE_INTEGER \<Rightarrow> int_name (type_width type)
        | PN_TYPE_CODE_FLOAT \<Rightarrow> Inr ''float''
        | PN_TYPE_CODE_DOUBLE \<Rightarrow> Inr ''double''
        | PN_TYPE_CODE_FUNCTION \<Rightarrow>
            cat [pn_type_describe module (return_type type), lit '' '', lit (case name of None \<Rightarrow> [] | Some s \<Rightarrow> s),
                 lit ''('', describe_args module with_param_names 0 (arg_types type), lit '')'']
        | _ \<Rightarrow> Inr ''<unknown>''))"

text \<open>
  The code of a value. Without a function an id behind the values of the module is taken for a function
  or a global variable of which only the id is known yet.
\<close>

definition described_code :: "PNModule \<Rightarrow> PNFunction option \<Rightarrow> PNValueId \<Rightarrow> PNValueCode res" where
  "described_code module fo value_id =
     (if value_id \<ge> length (module_values module) then
        case fo of
          Some f \<Rightarrow> rbind (pn_function_get_value module f value_id) (\<lambda>v. Inr (value_code v))
        | None \<Rightarrow> Inr (if value_id \<ge> length (module_functions module) then PN_VALUE_CODE_GLOBAL_VAR else PN_VALUE_CODE_FUNCTION)
      else Inr (value_code (module_values module ! value_id)))"

definition the_fn :: "PNFunction option \<Rightarrow> PNFunction res" where
  "the_fn fo = (case fo of None \<Rightarrow> Inl (Undefined ''null pointer'') | Some f \<Rightarrow> Inr f)"

definition describe_base :: "PNModule \<Rightarrow> PNFunction option \<Rightarrow> PNValueCode \<Rightarrow> (string \<times> nat) res" where
  "describe_base module fo code = (case code of
       PN_VALUE_CODE_FUNCTION \<Rightarrow> Inr (''@f'', 0)
     | PN_VALUE_CODE_GLOBAL_VAR \<Rightarrow> Inr (''@g'', length (module_functions module))
     | PN_VALUE_CODE_CONSTANT \<Rightarrow> rbind (the_fn fo) (\<lambda>f. Inr (''%c'', length (module_values module) + num_args f))
     | PN_VALUE_CODE_FUNCTION_ARG \<Rightarrow> Inr (''%p'', length (module_values module))
     | PN_VALUE_CODE_LOCAL_VAR \<Rightarrow>
         rbind (the_fn fo) (\<lambda>f. Inr (''%v'', length (module_values module) + num_args f + length (constants f))))"

definition pn_value_print_to_string :: "PNModule \<Rightarrow> PNFunction option \<Rightarrow> PNValueId \<Rightarrow> nat \<Rightarrow> string res" where
  "pn_value_print_to_string module fo value_id buffer_size =
     rbind (described_code module fo value_id) (\<lambda>code.
     rbind (describe_base module fo code) (\<lambda>(name, base).
     Inr (in_buffer buffer_size (name @ show_d32 (of_nat value_id - of_nat base)))))"

text \<open>The text is in one of 16 buffers of 13 bytes that are used in turn; no call of \<open>printf\<close> needs more than eight of them.\<close>

definition pn_value_describe :: "PNModule \<Rightarrow> PNFunction option \<Rightarrow> PNValueId \<Rightarrow> string res" where
  "pn_value_describe module fo value_id = pn_value_print_to_string module fo value_id 13"

definition pn_value_describe_type :: "PNModule \<Rightarrow> PNFunction \<Rightarrow> PNValueId \<Rightarrow> string res" where
  "pn_value_describe_type module f value_id =
     rbind (pn_function_get_value module f value_id) (\<lambda>v. pn_type_describe module (value_type_id v))"

section \<open>Names of operations\<close>

definition name_in :: "string option list \<Rightarrow> nat \<Rightarrow> string option res" where
  "name_in names op = (if op \<ge> length names then Inl (Fatal ''Invalid op'') else Inr (names ! op))"

definition print_name :: "string option \<Rightarrow> string res" where
  "print_name name = (case name of None \<Rightarrow> Inl (Undefined ''null string'') | Some s \<Rightarrow> Inr s)"

definition binop_names :: "string option list" where
  "binop_names = map Some [''add'', ''sub'', ''mul'', ''udiv'', ''sdiv'', ''urem'', ''srem'', ''shl'', ''lshr'', ''ashr'', ''and'',
     ''or'', ''xor'']"

definition pn_binop_get_name :: "nat \<Rightarrow> string res" where
  "pn_binop_get_name op = rbind (name_in binop_names op) print_name"

definition binop_names_float :: "string option list" where
  "binop_names_float = [Some ''fadd'', Some ''fsub'', Some ''fmul'', None, Some ''fdiv'', None, None, None, None, None, None,
     None, None]"

definition pn_binop_get_name_float :: "nat \<Rightarrow> string res" where
  "pn_binop_get_name_float op = rbind (name_in binop_names_float op) (\<lambda>name.
     case name of None \<Rightarrow> Inl (Fatal ''Invalid float binop'') | Some s \<Rightarrow> Inr s)"

definition cast_names :: "string option list" where
  "cast_names = [Some ''trunc'', Some ''zext'', Some ''sext'', Some ''fptoui'', Some ''fptosi'', Some ''uitofp'', Some ''sitofp'',
     Some ''fptrunc'', Some ''fpext'', None, None, Some ''bitcast'']"

definition pn_cast_get_name :: "nat \<Rightarrow> string res" where
  "pn_cast_get_name op = rbind (name_in cast_names op) print_name"

definition cmp2_names :: "string option list" where
  "cmp2_names =
     map Some [''fcmp false'', ''fcmp oeq'', ''fcmp ogt'', ''fcmp oge'', ''fcmp olt'', ''fcmp ole'', ''fcmp one'', ''fcmp ord'',
       ''fcmp uno'', ''fcmp ueq'', ''fcmp ugt'', ''fcmp uge'', ''fcmp ult'', ''fcmp ule'', ''fcmp une'', ''fcmp true''] @
     replicate 16 None @
     map Some [''icmp eq'', ''icmp ne'', ''icmp ugt'', ''icmp uge'', ''icmp ult'', ''icmp ule'', ''icmp sgt'', ''icmp sge'',
       ''icmp slt'', ''icmp sle'']"

definition pn_cmp2_get_name :: "nat \<Rightarrow> string res" where
  "pn_cmp2_get_name op = rbind (name_in cmp2_names op) print_name"

definition pn_liveness_range_describe :: "tracer \<Rightarrow> PNModule \<Rightarrow> PNLivenessRange list \<Rightarrow> PNValueId \<Rightarrow> string res" where
  "pn_liveness_range_describe tr module ranges value_id =
     (if tr_liveness tr \<and> tr_flags tr TRACE_BASIC_BLOCK_EXTRAS then
        rbind (nth_res ranges (value_id - length (module_values module))) (\<lambda>range.
        if first_bb_id range \<noteq> PN_INVALID_BB_ID \<and> last_bb_id range \<noteq> PN_INVALID_BB_ID then
          if first_bb_id range = last_bb_id range
          then Inr (in_buffer 30 (''  live: [%b'' @ show_nat (first_bb_id range) @ ''], %v'' @ show_d32 (of_nat (slot_id range))))
          else Inr (in_buffer 30 (''  live: [%b'' @ show_nat (first_bb_id range) @ ''..%b'' @ show_nat (last_bb_id range) @
            ''], %v'' @ show_d32 (of_nat (slot_id range))))
        else Inr [])
      else Inr [])"

section \<open>Instructions\<close>

text \<open>
  The operands of a phi, broken into lines of 80 columns: \<open>col\<close> counts what \<open>printf\<close> says it has written.
\<close>

fun trace_incoming :: "tracer \<Rightarrow> PNModule \<Rightarrow> PNFunction \<Rightarrow> int \<Rightarrow> bool \<Rightarrow> (PNBasicBlockId \<times> PNValueId) list \<Rightarrow> string res" where
  "trace_incoming tr module f col later [] = Inr []"
| "trace_incoming tr module f col later ((bb_id, value_id) # incoming) =
     (let sep = (if later then '', '' else []); col = col + int (length sep) in
      rbind (cat [lit ''['', pn_value_describe module (Some f) value_id, lit '', %b'', num bb_id, lit '']'']) (\<lambda>text.
      let buffer = in_buffer 100 text;
          wrap = (col + int (length text) + 2 > 80);
          col = (if wrap then tr_indent tr + 4 else col) + int (length buffer)
      in cat [lit sep, lit (if wrap then newline @ print_indentx tr 4 else []), lit buffer,
              trace_incoming tr module f col True incoming]))"

fun trace_cases :: "tracer \<Rightarrow> string \<Rightarrow> (u64 \<times> PNBasicBlockId) list \<Rightarrow> string" where
  "trace_cases tr type_str [] = []"
| "trace_cases tr type_str ((v, bb_id) # cs) =
     print_indentx tr 2 @ type_str @ '' '' @ show_int (sint v) @ '': br label %b'' @ show_nat bb_id @ '';'' @ newline @
     trace_cases tr type_str cs"

fun trace_args :: "PNModule \<Rightarrow> PNFunction \<Rightarrow> bool \<Rightarrow> PNValueId list \<Rightarrow> string res" where
  "trace_args module f later [] = Inr []"
| "trace_args module f later (arg # args) =
     cat [lit (if later then '', '' else []), pn_value_describe_type module f arg, lit '' '', pn_value_describe module (Some f) arg,
          trace_args module f True args]"

definition trace_call :: "PNModule \<Rightarrow> PNFunction \<Rightarrow> bool \<Rightarrow> bool \<Rightarrow> PNValueId \<Rightarrow> PNValueId \<Rightarrow> PNValueId list \<Rightarrow> string res" where
  "trace_call module f is_void is_tail result_id callee_id args =
     cat [if is_void then lit ((if is_tail then ''tail '' else []) @ ''call void '')
          else cat [pn_value_describe module (Some f) result_id, lit ('' = '' @ (if is_tail then ''tail '' else []) @ ''call ''),
                    pn_value_describe_type module f result_id, lit '' ''],
          pn_value_describe module (Some f) callee_id, lit ''('', trace_args module f False args, lit '');'']"

text \<open>The line of an instruction without its indentation; \<open>live\<close> describes the interval of a value.\<close>

fun instruction_text :: "tracer \<Rightarrow> (PNValueId \<Rightarrow> string res) \<Rightarrow> PNModule \<Rightarrow> PNFunction \<Rightarrow> PNInstruction \<Rightarrow> string res" where
  "instruction_text tr live m f (InstBinop r v0 v1 opcode flags) =
     rbind (value_basic_type m f r) (\<lambda>bt.
     cat [pn_value_describe m (Some f) r, lit '' = '',
          if bt \<in> {FLOAT, DOUBLE} then pn_binop_get_name_float opcode else pn_binop_get_name opcode, lit '' '',
          pn_value_describe_type m f r, lit '' '', pn_value_describe m (Some f) v0, lit '', '',
          pn_value_describe m (Some f) v1, lit '';'', live r, lit newline])"
| "instruction_text tr live m f (InstCast r v opcode type_id) =
     cat [pn_value_describe m (Some f) r, lit '' = '', pn_cast_get_name opcode, lit '' '', pn_value_describe_type m f v, lit '' '',
          pn_value_describe m (Some f) v, lit '' to '', pn_value_describe_type m f r, lit '';'', live r, lit newline]"
| "instruction_text tr live m f (InstRet v) =
     (if v \<noteq> PN_INVALID_VALUE_ID
      then cat [lit ''ret '', pn_value_describe_type m f v, lit '' '', pn_value_describe m (Some f) v, lit ('';'' @ newline)]
      else Inr (''ret void;'' @ newline))"
| "instruction_text tr live m f (InstBr t e v) =
     (if e \<noteq> PN_INVALID_BB_ID
      then cat [lit ''br '', pn_value_describe_type m f v, lit '' '', pn_value_describe m (Some f) v, lit '', label %b'', num t,
                lit '', label %b'', num e, lit ('';'' @ newline)]
      else Inr (''br label %b'' @ show_nat t @ '';'' @ newline))"
| "instruction_text tr live m f (InstSwitch v d cs type_id) =
     rbind (pn_value_describe_type m f v) (\<lambda>type_str.
     cat [lit (''switch '' @ type_str @ '' ''), pn_value_describe m (Some f) v, lit ('' {'' @ newline),
          lit (print_indentx tr 2 @ ''default: br label %b'' @ show_nat d @ '';'' @ newline), lit (trace_cases tr type_str cs),
          lit (print_indentx tr 0 @ ''}'' @ newline)])"
| "instruction_text tr live m f InstUnreachable = Inr (''unreachable;'' @ newline)"
| "instruction_text tr live m f (InstPhi r incoming type_id) =
     rbind (cat [pn_value_describe m (Some f) r, lit '' = phi '', pn_value_describe_type m f r, lit '' '']) (\<lambda>head.
     cat [lit head, trace_incoming tr m f (tr_indent tr + int (length head)) False incoming, lit '';'', live r, lit newline])"
| "instruction_text tr live m f (InstAlloca r size_id alignment) =
     cat [pn_value_describe m (Some f) r, lit '' = alloca i8, '', pn_value_describe_type m f size_id, lit '' '',
          pn_value_describe m (Some f) size_id, lit '', align '', num alignment, lit '';'', live r, lit newline]"
| "instruction_text tr live m f (InstLoad r src_id alignment type_id) =
     cat [pn_value_describe m (Some f) r, lit '' = load '', pn_value_describe_type m f r, lit ''* '', pn_value_describe m (Some f) src_id,
          lit '', align '', num alignment, lit '';'', live r, lit newline]"
| "instruction_text tr live m f (InstStore dest_id v alignment) =
     cat [lit ''store '', pn_value_describe_type m f v, lit '' '', pn_value_describe m (Some f) v, lit '', '',
          pn_value_describe_type m f v, lit ''* '', pn_value_describe m (Some f) dest_id, lit '', align '', num alignment,
          lit ('';'' @ newline)]"
| "instruction_text tr live m f (InstCmp2 r v0 v1 opcode) =
     cat [pn_value_describe m (Some f) r, lit '' = '', pn_cmp2_get_name opcode, lit '' '', pn_value_describe_type m f v0, lit '' '',
          pn_value_describe m (Some f) v0, lit '', '', pn_value_describe m (Some f) v1, lit '';'', live r, lit newline]"
| "instruction_text tr live m f (InstVselect r c t e) =
     cat [pn_value_describe m (Some f) r, lit '' = select '', pn_value_describe_type m f c, lit '' '', pn_value_describe m (Some f) c,
          lit '', '', pn_value_describe_type m f t, lit '' '', pn_value_describe m (Some f) t, lit '', '',
          pn_value_describe_type m f e, lit '' '', pn_value_describe m (Some f) e, lit '';'', live r, lit newline]"
| "instruction_text tr live m f (InstForwardtyperef v type_id) =
     cat [lit ''declare '', pn_type_describe m type_id, lit '' '', pn_value_describe m (Some f) v, lit ('';'' @ newline)]"
| "instruction_text tr live m f (InstCall r cc callee_id args return_type_id is_indirect is_tail_call) =
     rbind (nth_res (types m) return_type_id) (\<lambda>return_type.
     let is_void = (type_code return_type = PN_TYPE_CODE_VOID) in
     cat [trace_call m f is_void is_tail_call r callee_id args, if is_void then Inr [] else live r, lit newline])"

definition pn_instruction_trace :: "tracer \<Rightarrow> PNModule \<Rightarrow> PNFunction \<Rightarrow> PNLivenessRange list \<Rightarrow> PNInstruction \<Rightarrow> bool \<Rightarrow> string res" where
  "pn_instruction_trace tr module f ranges inst force =
     (if \<not> (tr_flags tr TRACE_INSTRUCTIONS \<or> force) then Inr []
      else cat [lit (print_indentx tr 0), instruction_text tr (pn_liveness_range_describe tr module ranges) module f inst])"

section \<open>Basic blocks and functions\<close>

fun separated :: "string \<Rightarrow> string res list \<Rightarrow> string res" where
  "separated sep [] = Inr []"
| "separated sep [p] = p"
| "separated sep (p # ps) = cat [p, lit sep, separated sep ps]"

definition print_line_list :: "tracer \<Rightarrow> string \<Rightarrow> string \<Rightarrow> string res list \<Rightarrow> string res" where
  "print_line_list tr name sep items =
     (if items = [] then Inr []
      else cat [lit (print_indentx tr (- 1) @ name @ '': ''), separated sep items, lit ('';'' @ newline)])"

definition trace_loop_info :: "tracer \<Rightarrow> PNLoopInfo \<Rightarrow> string" where
  "trace_loop_info tr info =
     (if loop_header_id info \<noteq> PN_INVALID_BB_ID
      then print_indentx tr (- 1) @ ''loop header: %b'' @ show_nat (loop_header_id info) @ newline else []) @
     (if is_loop_header info \<or> is_irreducible info \<or> is_reentry info
      then print_indentx tr (- 2) @ (if is_loop_header info then '' (is loop header)'' else []) @
        (if is_irreducible info then '' (is irreducible)'' else []) @ (if is_reentry info then '' (is re-entry)'' else []) @ newline
      else [])"

definition trace_bb_extras :: "tracer \<Rightarrow> PNModule \<Rightarrow> PNFunction \<Rightarrow> PNBasicBlock \<Rightarrow> PNLoopInfo \<Rightarrow> string res" where
  "trace_bb_extras tr module f bb info =
     cat [if tr_pred_bbs tr then print_line_list tr ''preds'' '', '' (map (\<lambda>b. Inr (''%b'' @ show_nat b)) (pred_bb_ids bb)) else Inr [],
          if tr_liveness tr \<and> first_def_id bb \<noteq> PN_INVALID_VALUE_ID
          then cat [lit (print_indentx tr (- 1) @ ''defs: [''), pn_value_describe module (Some f) (first_def_id bb), lit ''..'',
                    pn_value_describe module (Some f) (last_def_id bb), lit (''];'' @ newline)]
          else Inr [],
          if tr_liveness tr then print_line_list tr ''uses'' '', '' (map (pn_value_describe module (Some f)) (bb_uses bb)) else Inr [],
          lit (if tr_loops tr then trace_loop_info tr info else []),
          print_line_list tr ''phi uses'' '', '' (map (\<lambda>use. cat [lit ''['', pn_value_describe module (Some f) (use_incoming_value_id use),
            lit ('', %b'' @ show_nat (use_incoming_bb_id use) @ '']'')]) (phi_uses bb)),
          if tr_pred_bbs tr then print_line_list tr ''succs'' '', '' (map (\<lambda>b. Inr (''%b'' @ show_nat b)) (succ_bb_ids bb)) else Inr []]"

definition pn_basic_block_trace :: "tracer \<Rightarrow> PNModule \<Rightarrow> PNFunction \<Rightarrow> PNLivenessRange list \<Rightarrow> PNLoopInfo \<Rightarrow> PNBasicBlock \<Rightarrow>
    PNBasicBlockId \<Rightarrow> bool \<Rightarrow> string res" where
  "pn_basic_block_trace tr module f ranges info bb bb_id force =
     (if \<not> (tr_flags tr TRACE_BASIC_BLOCKS \<or> force) then Inr []
      else cat [lit (print_indentx tr (- 2) @ ''%b'' @ show_nat bb_id @ '':'' @ newline),
        if tr_flags tr TRACE_BASIC_BLOCK_EXTRAS then trace_bb_extras tr module f bb info else Inr [],
        cat (map (\<lambda>inst. pn_instruction_trace tr module f ranges inst force) (instructions bb)),
        if tr_flags tr TRACE_BASIC_BLOCK_EXTRAS
        then print_line_list tr ''phi assigns'' ''; '' (map (\<lambda>a. cat [lit (''%b'' @ show_nat (assign_bb_id a) @ '', ''),
            pn_value_describe module (Some f) (dest_value_id a), lit '' = '', pn_value_describe module (Some f) (source_value_id a)])
          (phi_assigns bb))
        else Inr []])"

definition pn_function_print_header :: "tracer \<Rightarrow> PNModule \<Rightarrow> PNFunction \<Rightarrow> PNFunctionId \<Rightarrow> (string \<times> tracer) res" where
  "pn_function_print_header tr module f function_id =
     rbind (pn_value_describe module None function_id) (\<lambda>name.
     rbind (pn_type_describe_all module (function_type_id f) (Some name) True) (\<lambda>type.
     Inr (print_indentx tr 0 @ ''function '' @ type @ '' {  // BlockID = 12'' @ newline, tr\<lparr>tr_indent := tr_indent tr + 2\<rparr>)))"

text \<open>
  The filter of \<open>--trace-function-filter\<close>: a number or a name. \<open>None\<close> is the early return; a function without
  a name is compared through a null pointer.
\<close>

definition trace_filter :: "string option \<Rightarrow> PNFunction \<Rightarrow> PNFunctionId \<Rightarrow> bool option res" where
  "trace_filter wanted f function_id = (case wanted of
       None \<Rightarrow> Inr (Some False)
     | Some [] \<Rightarrow> Inr (Some False)
     | Some (c # cs) \<Rightarrow>
         if is_digit c
         then Inr (if (of_int (atoi (c # cs)) :: u32) = of_nat function_id then Some True else None)
         else case function_name f of
             None \<Rightarrow> Inl (Undefined ''strcmp of a null pointer'')
           | Some name \<Rightarrow> Inr (if name = c # cs then Some True else None))"

definition pn_function_trace :: "tracer \<Rightarrow> string option \<Rightarrow> PNModule \<Rightarrow> PNFunction \<Rightarrow> PNLivenessRange list \<Rightarrow> PNLoopInfo list \<Rightarrow>
    PNFunctionId \<Rightarrow> string res" where
  "pn_function_trace tr wanted module f ranges infos function_id =
     rbind (trace_filter wanted f function_id) (\<lambda>forced.
     case forced of None \<Rightarrow> Inr []
     | Some force \<Rightarrow>
         rbind (if force then pn_function_print_header tr module f function_id else Inr ([], tr)) (\<lambda>(header, tr).
         if \<not> (tr_flags tr TRACE_FUNCTION_BLOCK \<or> force) then Inr header
         else cat [lit header,
           cat (map (\<lambda>(i, bb). pn_basic_block_trace tr module f ranges (infos ! i) bb i force) (enumerate 0 (bbs f))),
           lit (if force then blank_field (tr_indent tr - 2) @ ''}'' @ newline else [])]))"

section \<open>Runtime instructions\<close>

text \<open>The name of an operation by its opcode. \<open>FCMP_OLE\<close> is printed as \<open>fcmp ogt\<close>.\<close>

fun binop_opname :: "PNBinOp \<Rightarrow> PNBasicType \<Rightarrow> string" where
  "binop_opname PN_BINOP_ADD bt = (if bt \<in> {DOUBLE, FLOAT} then ''fadd'' else ''add'')"
| "binop_opname PN_BINOP_AND bt = ''and''"
| "binop_opname PN_BINOP_ASHR bt = ''ashr''"
| "binop_opname PN_BINOP_LSHR bt = ''lshr''"
| "binop_opname PN_BINOP_MUL bt = (if bt \<in> {DOUBLE, FLOAT} then ''fmul'' else ''mul'')"
| "binop_opname PN_BINOP_OR bt = ''or''"
| "binop_opname PN_BINOP_SDIV bt = (if bt \<in> {DOUBLE, FLOAT} then ''fdiv'' else ''sdiv'')"
| "binop_opname PN_BINOP_SHL bt = ''shl''"
| "binop_opname PN_BINOP_SREM bt = ''srem''"
| "binop_opname PN_BINOP_SUB bt = (if bt \<in> {DOUBLE, FLOAT} then ''fsub'' else ''sub'')"
| "binop_opname PN_BINOP_UDIV bt = ''udiv''"
| "binop_opname PN_BINOP_UREM bt = ''urem''"
| "binop_opname PN_BINOP_XOR bt = ''xor''"

fun cast_opname :: "PNCast \<Rightarrow> string" where
  "cast_opname PN_CAST_BITCAST = ''bitcast''"
| "cast_opname PN_CAST_FPEXT = ''fpext''"
| "cast_opname PN_CAST_FPTOSI = ''fptosi''"
| "cast_opname PN_CAST_FPTOUI = ''fptoui''"
| "cast_opname PN_CAST_FPTRUNC = ''fptrunc''"
| "cast_opname PN_CAST_SEXT = ''sext''"
| "cast_opname PN_CAST_SITOFP = ''sitofp''"
| "cast_opname PN_CAST_TRUNC = ''trunc''"
| "cast_opname PN_CAST_UITOFP = ''uitofp''"
| "cast_opname PN_CAST_ZEXT = ''zext''"

fun cmp2_opname :: "PNCmp2 \<Rightarrow> string res" where
  "cmp2_opname PN_FCMP_OEQ = Inr ''fcmp oeq''"
| "cmp2_opname PN_FCMP_OGE = Inr ''fcmp oge''"
| "cmp2_opname PN_FCMP_OGT = Inr ''fcmp ogt''"
| "cmp2_opname PN_FCMP_OLE = Inr ''fcmp ogt''"
| "cmp2_opname PN_FCMP_OLT = Inr ''fcmp olt''"
| "cmp2_opname PN_FCMP_ONE = Inr ''fcmp one''"
| "cmp2_opname PN_FCMP_ORD = Inr ''fcmp ord''"
| "cmp2_opname PN_FCMP_UEQ = Inr ''fcmp ueq''"
| "cmp2_opname PN_FCMP_UGE = Inr ''fcmp uge''"
| "cmp2_opname PN_FCMP_UGT = Inr ''fcmp ugt''"
| "cmp2_opname PN_FCMP_ULE = Inr ''fcmp ule''"
| "cmp2_opname PN_FCMP_ULT = Inr ''fcmp ult''"
| "cmp2_opname PN_FCMP_UNE = Inr ''fcmp une''"
| "cmp2_opname PN_FCMP_UNO = Inr ''fcmp uno''"
| "cmp2_opname PN_ICMP_EQ = Inr ''icmp eq''"
| "cmp2_opname PN_ICMP_NE = Inr ''icmp ne''"
| "cmp2_opname PN_ICMP_SGE = Inr ''icmp sge''"
| "cmp2_opname PN_ICMP_SGT = Inr ''icmp sgt''"
| "cmp2_opname PN_ICMP_SLE = Inr ''icmp sle''"
| "cmp2_opname PN_ICMP_SLT = Inr ''icmp slt''"
| "cmp2_opname PN_ICMP_UGE = Inr ''icmp uge''"
| "cmp2_opname PN_ICMP_UGT = Inr ''icmp ugt''"
| "cmp2_opname PN_ICMP_ULE = Inr ''icmp ule''"
| "cmp2_opname PN_ICMP_ULT = Inr ''icmp ult''"
| "cmp2_opname PN_FCMP_FALSE = Inl (Fatal ''Invalid runtime instruction opcode'')"
| "cmp2_opname PN_FCMP_TRUE = Inl (Fatal ''Invalid runtime instruction opcode'')"

fun trace_runtime_cases :: "tracer \<Rightarrow> string \<Rightarrow> (u64 \<times> address) list \<Rightarrow> string" where
  "trace_runtime_cases tr type_str [] = []"
| "trace_runtime_cases tr type_str ((v, inst) # cs) =
     print_indentx tr 2 @ type_str @ '' '' @ show_int (sint v) @ '': br label %'' @ show_nat inst @ '';'' @ newline @
     trace_runtime_cases tr type_str cs"

fun runtime_text :: "tracer \<Rightarrow> PNModule \<Rightarrow> PNFunction \<Rightarrow> PNRuntimeInstruction \<Rightarrow> string res" where
  "runtime_text tr m f (RAlloca bt r size_id alignment) =
     cat [pn_value_describe m (Some f) r, lit '' = alloca i8, '', pn_value_describe_type m f size_id, lit '' '',
          pn_value_describe m (Some f) size_id, lit '', align '', num alignment, lit ('';'' @ newline)]"
| "runtime_text tr m f (RBinop op bt r v0 v1) =
     cat [pn_value_describe m (Some f) r, lit '' = '', lit (binop_opname op bt), lit '' '', pn_value_describe_type m f r, lit '' '',
          pn_value_describe m (Some f) v0, lit '', '', pn_value_describe m (Some f) v1, lit ('';'' @ newline)]"
| "runtime_text tr m f (RBr inst) = Inr (''br label %'' @ show_nat inst @ '';'' @ newline)"
| "runtime_text tr m f (RBrInt1 v true_inst false_inst) =
     cat [lit ''br '', pn_value_describe_type m f v, lit '' '', pn_value_describe m (Some f) v, lit '', label %'', num true_inst,
          lit '', label %'', num false_inst, lit ('';'' @ newline)]"
| "runtime_text tr m f (RCall op r callee_id n flags args) =
     rbind (ensure (unat n \<le> length args) (Undefined ''argument behind the call'')) (\<lambda>_.
     cat [trace_call m f (flags AND 4 \<noteq> 0) (flags AND 2 \<noteq> 0) r callee_id (take (unat n) args), lit newline])"
| "runtime_text tr m f (RCast op bt0 bt1 r v) =
     cat [pn_value_describe m (Some f) r, lit '' = '', lit (cast_opname op), lit '' '', pn_value_describe_type m f v, lit '' '',
          pn_value_describe m (Some f) v, lit '' to '', pn_value_describe_type m f r, lit ('';'' @ newline)]"
| "runtime_text tr m f (RCmp2 op bt r v0 v1) =
     cat [pn_value_describe m (Some f) r, lit '' = '', cmp2_opname op, lit '' '', pn_value_describe_type m f v0, lit '' '',
          pn_value_describe m (Some f) v0, lit '', '', pn_value_describe m (Some f) v1, lit ('';'' @ newline)]"
| "runtime_text tr m f (RLoad bt r src_id alignment) =
     cat [pn_value_describe m (Some f) r, lit '' = load '', pn_value_describe_type m f r, lit ''* '', pn_value_describe m (Some f) src_id,
          lit '', align '', num alignment, lit ('';'' @ newline)]"
| "runtime_text tr m f RRet = Inr (''ret void;'' @ newline)"
| "runtime_text tr m f (RRetValue v) =
     cat [lit ''ret '', pn_value_describe_type m f v, lit '' '', pn_value_describe m (Some f) v, lit ('';'' @ newline)]"
| "runtime_text tr m f (RStore bt dest_id v alignment) =
     cat [lit ''store '', pn_value_describe_type m f v, lit '' '', pn_value_describe m (Some f) v, lit '', '',
          pn_value_describe_type m f v, lit ''* '', pn_value_describe m (Some f) dest_id, lit '', align '', num alignment,
          lit ('';'' @ newline)]"
| "runtime_text tr m f (RSwitch bt v default_inst cs) =
     rbind (pn_value_describe_type m f v) (\<lambda>type_str.
     cat [lit (''switch '' @ type_str @ '' ''), pn_value_describe m (Some f) v, lit ('' {'' @ newline),
          lit (print_indentx tr 2 @ ''default: br label %'' @ show_nat default_inst @ '';'' @ newline),
          lit (trace_runtime_cases tr type_str cs), lit (print_indentx tr 0 @ ''}'' @ newline)])"
| "runtime_text tr m f RUnreachable = Inr (''unreachable;'' @ newline)"
| "runtime_text tr m f (RVselect r c t e) =
     cat [pn_value_describe m (Some f) r, lit '' = select '', pn_value_describe_type m f c, lit '' '', pn_value_describe m (Some f) c,
          lit '', '', pn_value_describe_type m f t, lit '' '', pn_value_describe m (Some f) t, lit '', '',
          pn_value_describe_type m f e, lit '' '', pn_value_describe m (Some f) e, lit ('';'' @ newline)]"
| "runtime_text tr m f (RPhiAssigns n fast ps) = Inl (Undefined ''phi table traced'')"

definition pn_runtime_instruction_trace :: "tracer \<Rightarrow> PNModule \<Rightarrow> PNFunction \<Rightarrow> PNRuntimeInstruction \<Rightarrow> string res" where
  "pn_runtime_instruction_trace tr module f inst = cat [lit (print_indentx tr 0), runtime_text tr module f inst]"

section \<open>Both printers agree\<close>

text \<open>
  The instructions both printers write in one form: all but branches and switches, which show block ids in one and addresses
  in the other. The type of the result of a binary operation decides between the integer and the float name in one printer,
  the type of the operand in the other.
\<close>

definition float_typed :: "PNModule \<Rightarrow> PNFunction \<Rightarrow> PNValueId \<Rightarrow> bool res" where
  "float_typed m f v = rbind (value_basic_type m f v) (\<lambda>bt. Inr (bt \<in> {FLOAT, DOUBLE}))"

fun traced_alike :: "PNModule \<Rightarrow> PNFunction \<Rightarrow> PNInstruction \<Rightarrow> bool" where
  "traced_alike m f (InstBinop r v0 v1 opcode flags) \<longleftrightarrow> float_typed m f r = float_typed m f v0"
| "traced_alike m f (InstBr t e v) \<longleftrightarrow> False"
| "traced_alike m f (InstSwitch v d cs ty) \<longleftrightarrow> False"
| "traced_alike m f inst \<longleftrightarrow> True"

text \<open>
  What the runtime printer shows of an instruction: \<open>fcmp ole\<close> (5) has the name of \<open>fcmp ogt\<close> (2), and of the arguments of a
  call only as many are left as the 8 bits of their count say.
\<close>

fun printed_as :: "PNInstruction \<Rightarrow> PNInstruction" where
  "printed_as (InstCmp2 r v0 v1 opcode) = InstCmp2 r v0 v1 (if opcode = 5 then 2 else opcode)"
| "printed_as (InstCall r cc callee args rt indirect tail_call) = InstCall r cc callee (take (length args mod 256) args) rt indirect tail_call"
| "printed_as inst = inst"

lemma binop_name_agrees:
  assumes "decode_binop opcode = Some op" "bt \<in> set (binop_types op)"
  shows "(if bt \<in> {FLOAT, DOUBLE} then pn_binop_get_name_float opcode else pn_binop_get_name opcode) = Inr (binop_opname op bt)"
  using map_of_SomeD[OF assms(1)[unfolded decode_binop_def]] assms(2)
  by (auto simp: name_in_def binop_names_def binop_names_float_def pn_binop_get_name_def pn_binop_get_name_float_def print_name_def)

lemma cast_name_agrees:
  assumes "decode_cast opcode = Some op"
  shows "pn_cast_get_name opcode = Inr (cast_opname op)"
  using map_of_SomeD[OF assms[unfolded decode_cast_def]]
  by (auto simp: name_in_def cast_names_def pn_cast_get_name_def print_name_def)

lemma cmp2_name_agrees:
  assumes "decode_cmp2 opcode = Some op" "bt \<in> set (cmp2_types op)"
  shows "pn_cmp2_get_name (if opcode = 5 then 2 else opcode) = cmp2_opname op"
  using map_of_SomeD[OF assms(1)[unfolded decode_cmp2_def]] assms(2)
  by (auto simp: name_in_def cmp2_names_def pn_cmp2_get_name_def print_name_def nth_append)

lemma call_flags_bits [simp]:
  "call_flags indirect tail_call return_void AND 4 \<noteq> 0 \<longleftrightarrow> return_void"
  "call_flags indirect tail_call return_void AND 2 \<noteq> 0 \<longleftrightarrow> tail_call"
  by (simp_all add: call_flags_def split: if_splits)

lemma args_counted: "unat (of_nat (length (args :: 'a list)) :: u8) = length args mod 256"
  by (simp add: unat_of_nat)

lemma runtime_text_agrees:
  assumes "inst_emits m f offs inst = Inr [ri]" "traced_alike m f inst"
  shows "runtime_text tr m f ri = instruction_text tr (\<lambda>_. Inr []) m f (printed_as inst)"
proof (cases inst)
  case (InstBinop r v0 v1 opcode flags)
  with assms obtain op bt where e: "ri = RBinop op bt r v0 v1" "value_basic_type m f v0 = Inr bt" "decode_binop opcode = Some op"
    "bt \<in> set (binop_types op)"
    by (auto simp: emit_binop_def if_type_def res_simps split: option.splits if_splits)
  with assms(2) InstBinop obtain bt' where "value_basic_type m f r = Inr bt'" "(bt' \<in> {FLOAT, DOUBLE}) = (bt \<in> {FLOAT, DOUBLE})"
    by (auto simp: float_typed_def res_simps)
  then show ?thesis using InstBinop e binop_name_agrees[OF e(3,4)] by simp
next
  case (InstCmp2 r v0 v1 opcode)
  with assms obtain op bt where e: "ri = RCmp2 op bt r v0 v1" "decode_cmp2 opcode = Some op" "bt \<in> set (cmp2_types op)"
    by (auto simp: emit_cmp2_def if_type_def res_simps split: option.splits if_splits)
  then show ?thesis using InstCmp2 cmp2_name_agrees[OF e(2,3)] by (simp del: cmp2_opname.simps split del: if_split)
next
  case (InstCall r cc callee args rt indirect tail_call)
  with assms show ?thesis
    by (auto simp: emit_call_def res_simps args_counted)
next
  case (InstCast r v opcode type_id)
  with assms show ?thesis
    by (auto simp: emit_cast_def if_type_def res_simps cast_name_agrees split: option.splits)
qed (use assms in \<open>auto simp: emit_alloca_def emit_load_def emit_store_def emit_vselect_def res_simps split: if_splits\<close>)

text \<open>
  C22: a runtime instruction is printed like the instruction it was made from. For every instruction that is translated to one
  runtime instruction and is no branch and no switch (and, of the binary operations, those whose result is a float if and
  only if the first operand is), the line \<open>pn_runtime_instruction_trace\<close> writes while the program runs is the line of the
  disassembly without liveness ranges, whatever opcode the translation has chosen, but for two things: \<open>fcmp ole\<close> is
  shown as \<open>fcmp ogt\<close>, and a call of n arguments shows the first n mod 256.
\<close>

theorem pn_runtime_trace_agrees:
  assumes "inst_emits m f offs inst = Inr [ri]" "traced_alike m f inst" "\<not> tr_liveness tr"
  shows "pn_runtime_instruction_trace tr m f ri = pn_instruction_trace tr m f ranges (printed_as inst) True"
proof -
  have "pn_liveness_range_describe tr m ranges = (\<lambda>_. Inr [])"
    using assms(3) by (simp add: fun_eq_iff pn_liveness_range_describe_def)
  with runtime_text_agrees[OF assms(1,2)] show ?thesis
    by (simp add: pn_runtime_instruction_trace_def pn_instruction_trace_def)
qed

definition plain_tracer :: tracer where
  "plain_tracer = \<lparr>tr_flags = (\<lambda>_. False), tr_indent = 2, tr_pred_bbs = False, tr_liveness = False, tr_loops = False\<rparr>"

lemmas example_value_defs = value_basic_type_def type_basic_type_def pn_function_get_value_def example_module_def pn_module_init_def
  example_types_def example_function_def local_value_def if_type_def nth_res_def

lemma example_inst_emits:
  "inst_emits example_module example_function [] (InstBinop 5 4 2 1 0) = Inr [RBinop PN_BINOP_SUB INT32 5 4 2]"
  by (simp add: emit_binop_def decode_binop_def example_value_defs)

lemma show_nat_0_1: "show_nat 0 = ''0''" "show_nat (Suc 0) = ''1''"
  by code_simp+

lemma blank_two: "blank_field 2 = ''  ''"
  by code_simp

lemma example_names:
  "pn_value_describe example_module (Some example_function) 5 = Inr ''%v1''"
  "pn_value_describe example_module (Some example_function) 4 = Inr ''%v0''"
  "pn_value_describe example_module (Some example_function) 2 = Inr ''%c0''"
  "pn_value_describe_type example_module example_function 5 = Inr ''i32''"
  by (simp_all add: pn_value_describe_def pn_value_print_to_string_def described_code_def describe_base_def the_fn_def show_d32_def
      show_int_def show_nat_0_1 in_buffer_def pn_value_describe_type_def pn_type_describe_def int_name_def example_value_defs)

lemma example_trace:
  "pn_runtime_instruction_trace plain_tracer example_module example_function (RBinop PN_BINOP_SUB INT32 5 4 2) =
     Inr (''  %v1 = sub i32 %v0, %c0;'' @ newline)"
  by (simp add: pn_runtime_instruction_trace_def example_names plain_tracer_def print_indentx_def blank_two)

theorem pn_runtime_trace_agrees_witness:
  "pn_instruction_trace plain_tracer example_module example_function [] (InstBinop 5 4 2 1 0) True =
     Inr (''  %v1 = sub i32 %v0, %c0;'' @ newline)"
proof -
  have "traced_alike example_module example_function (InstBinop 5 4 2 1 0)"
    by (simp add: example_value_defs float_typed_def)
  moreover have "\<not> tr_liveness plain_tracer" by (simp add: plain_tracer_def)
  ultimately show ?thesis
    using pn_runtime_trace_agrees[OF example_inst_emits, of plain_tracer "[]"] example_trace by simp
qed

section \<open>The names of values\<close>

text \<open>The kind of a value by its place: functions and global variables of the module, then what the function adds.\<close>

definition named_code :: "PNModule \<Rightarrow> PNFunction \<Rightarrow> PNValueId \<Rightarrow> PNValueCode" where
  "named_code m f i =
     (if i < length (module_functions m) then PN_VALUE_CODE_FUNCTION
      else if i < length (module_values m) then PN_VALUE_CODE_GLOBAL_VAR
      else if i < length (module_values m) + num_args f then PN_VALUE_CODE_FUNCTION_ARG
      else if i < length (module_values m) + num_args f + length (constants f) then PN_VALUE_CODE_CONSTANT
      else PN_VALUE_CODE_LOCAL_VAR)"

definition values_ordered :: "PNModule \<Rightarrow> PNFunction \<Rightarrow> bool" where
  "values_ordered m f \<longleftrightarrow> length (module_functions m) \<le> length (module_values m) \<and>
     map value_code (module_values m @ function_values f) = map (named_code m f) [0 ..< pn_function_num_values m f]"

definition code_prefix :: "PNModule \<Rightarrow> PNFunction \<Rightarrow> PNValueCode \<Rightarrow> string \<times> nat" where
  "code_prefix m f code = (case describe_base m (Some f) code of Inr p \<Rightarrow> p | Inl _ \<Rightarrow> ([], 0))"

lemma values_ordered_code:
  assumes "values_ordered m f" "i < pn_function_num_values m f"
  shows "described_code m (Some f) i = Inr (named_code m f i)"
proof -
  have "map value_code (module_values m @ function_values f) ! i = map (named_code m f) [0 ..< pn_function_num_values m f] ! i"
    using assms(1) by (simp add: values_ordered_def)
  moreover have "i < length (module_values m @ function_values f)" using assms(2) by (simp add: pn_function_num_values_def)
  ultimately have "value_code ((module_values m @ function_values f) ! i) = named_code m f i"
    using assms(2) by (simp del: map_append)
  then show ?thesis using assms(2)
    by (auto simp: described_code_def pn_function_get_value_def nth_append pn_function_num_values_def Let_def)
qed

lemma show_d32_small: "n < 2 ^ 31 \<Longrightarrow> show_d32 (of_nat n) = show_nat n"
  by (simp add: show_d32_def show_int_def sint_uint uint_nat unat_of_nat signed_take_bit_int_eq_self)

lemma pn_value_describe_ordered:
  assumes "values_ordered m f" "i < pn_function_num_values m f" "pn_function_num_values m f \<le> 2 ^ 31"
  shows "pn_value_describe m (Some f) i = Inr (case code_prefix m f (named_code m f i) of (name, base) \<Rightarrow> name @ show_nat (i - base))"
    and "snd (code_prefix m f (named_code m f i)) \<le> i"
proof -
  show base: "snd (code_prefix m f (named_code m f i)) \<le> i"
    by (simp add: code_prefix_def describe_base_def the_fn_def named_code_def)
  obtain name b where nb: "code_prefix m f (named_code m f i) = (name, b)" by force
  have "describe_base m (Some f) (named_code m f i) = Inr (name, b)" "length name = 2"
    using nb by (auto simp: code_prefix_def describe_base_def the_fn_def split: PNValueCode.splits)
  moreover have "of_nat i - of_nat b = (of_nat (i - b) :: u32)" using base nb by (simp add: of_nat_diff)
  moreover have "length (show_nat (i - b)) \<le> 10" using assms by (intro length_show_nat) simp_all
  ultimately show "pn_value_describe m (Some f) i = Inr (case code_prefix m f (named_code m f i) of (name, base) \<Rightarrow> name @ show_nat (i - base))"
    using assms nb by (simp add: pn_value_describe_def pn_value_print_to_string_def values_ordered_code show_d32_small in_buffer_def)
qed

text \<open>
  The names of the disassembly identify values: with the values in the order the readers append them,
  two values of a function are printed alike exactly when they are the same value; a name always fits its buffer.
\<close>

theorem pn_value_names_unique:
  assumes "values_ordered m f" "pn_function_num_values m f \<le> 2 ^ 31" "a < pn_function_num_values m f" "b < pn_function_num_values m f"
  shows "\<exists>s t. pn_value_describe m (Some f) a = Inr s \<and> pn_value_describe m (Some f) b = Inr t \<and> (s = t \<longleftrightarrow> a = b)"
proof -
  obtain p x where p: "code_prefix m f (named_code m f a) = (p, x)" by force
  obtain q y where q: "code_prefix m f (named_code m f b) = (q, y)" by force
  have len: "length p = 2" "length q = 2"
    using p q by (auto simp: code_prefix_def describe_base_def the_fn_def split: PNValueCode.splits)
  have same: "p = q \<Longrightarrow> x = y"
    using p q by (cases "named_code m f a"; cases "named_code m f b") (auto simp: code_prefix_def describe_base_def the_fn_def)
  have le: "x \<le> a" "y \<le> b" using pn_value_describe_ordered(2)[OF assms(1,3,2)] pn_value_describe_ordered(2)[OF assms(1,4,2)] p q by simp_all
  have "p @ show_nat (a - x) = q @ show_nat (b - y) \<longleftrightarrow> p = q \<and> a - x = b - y" using len by simp
  also have "\<dots> \<longleftrightarrow> a = b"
  proof
    assume "p = q \<and> a - x = b - y" then show "a = b" using same le by linarith
  next
    assume "a = b" then show "p = q \<and> a - x = b - y" using p q by simp
  qed
  finally have "p @ show_nat (a - x) = q @ show_nat (b - y) \<longleftrightarrow> a = b" .
  then show ?thesis
    using pn_value_describe_ordered(1)[OF assms(1,3,2)] pn_value_describe_ordered(1)[OF assms(1,4,2)] p q by simp
qed

definition named_module :: PNModule where
  "named_module = example_module\<lparr>module_functions := [example_function]\<rparr>"

theorem pn_value_names_unique_witness:
  "\<exists>s t. pn_value_describe named_module (Some example_function) 2 = Inr s \<and>
     pn_value_describe named_module (Some example_function) 4 = Inr t \<and> s \<noteq> t"
proof -
  have n: "pn_function_num_values named_module example_function = 7"
    by (simp add: named_module_def pn_function_num_values_def example_value_defs)
  have upt: "[0 ..< 7] = [0, 1, 2, 3, 4, 5, 6 :: nat]" by (simp add: upt_rec)
  have "values_ordered named_module example_function"
    unfolding values_ordered_def n upt by (simp add: named_module_def named_code_def example_value_defs)
  then show ?thesis using pn_value_names_unique[of named_module example_function 2 4] n by force
qed

end
