(* ===== verification/Pn_Time.thy ===== *)
theory Pn_Time
  imports Pn_Text Pn_Float
begin

text \<open>
  The time arithmetic of the timers, \<^verbatim>\<open>src/pn_timespec.h\<close>, the macros \<open>PN_BEGIN_TIME\<close> and \<open>PN_END_TIME\<close> of
  \<^verbatim>\<open>src/pnacl.h\<close>, and the conversions \<open>%f\<close> and \<open>%g\<close> with which times, sizes and values are printed.
\<close>

section \<open>Time\<close>

record timespec =
  tv_sec :: int
  tv_nsec :: int

abbreviation (input) PN_NANOSECONDS_IN_A_SECOND :: int where "PN_NANOSECONDS_IN_A_SECOND \<equiv> 1000000000"

definition pn_timespec_check :: "timespec \<Rightarrow> unit res" where
  "pn_timespec_check a =
     rbind (ensure (tv_sec a \<ge> 0) (Assertion ''a->tv_sec >= 0'')) (\<lambda>_.
     ensure (tv_nsec a \<ge> 0 \<and> tv_nsec a < PN_NANOSECONDS_IN_A_SECOND) (Assertion ''a->tv_nsec''))"

definition pn_timespec_subtract :: "timespec \<Rightarrow> timespec \<Rightarrow> timespec res" where
  "pn_timespec_subtract a b =
     rbind (pn_timespec_check a) (\<lambda>_.
     rbind (pn_timespec_check b) (\<lambda>_.
     let result = \<lparr>tv_sec = tv_sec a - tv_sec b, tv_nsec = tv_nsec a - tv_nsec b\<rparr>;
         result = (if tv_nsec result < 0
                   then \<lparr>tv_sec = tv_sec result - 1, tv_nsec = tv_nsec result + PN_NANOSECONDS_IN_A_SECOND\<rparr>
                   else result) in
     rbind (pn_timespec_check result) (\<lambda>_. Inr result)))"

text \<open>Both terms of a sum are checked first, so only the seconds can overflow.\<close>

definition pn_timespec_add :: "timespec \<Rightarrow> timespec \<Rightarrow> timespec res" where
  "pn_timespec_add a b =
     rbind (pn_timespec_check a) (\<lambda>_.
     rbind (pn_timespec_check b) (\<lambda>_.
     let result = \<lparr>tv_sec = tv_sec a + tv_sec b, tv_nsec = tv_nsec a + tv_nsec b\<rparr>;
         result = (if tv_nsec result \<ge> PN_NANOSECONDS_IN_A_SECOND
                   then \<lparr>tv_sec = tv_sec result + 1, tv_nsec = tv_nsec result - PN_NANOSECONDS_IN_A_SECOND\<rparr>
                   else result) in
     rbind (ensure (tv_sec result < 2 ^ 63) (Undefined ''signed overflow'')) (\<lambda>_.
     rbind (pn_timespec_check result) (\<lambda>_. Inr result))))"

definition pn_timespec_to_double :: "timespec \<Rightarrow> int" where
  "pn_timespec_to_double t =
     fp_add binary64 (fp_of_int binary64 (tv_sec t))
       (fp_div binary64 (fp_of_int binary64 (tv_nsec t)) (fp_of_int binary64 PN_NANOSECONDS_IN_A_SECOND))"

text \<open>\<open>PN_END_TIME\<close> adds the time since \<open>PN_BEGIN_TIME\<close> to a timer.\<close>

definition end_time :: "timespec \<Rightarrow> timespec \<Rightarrow> timespec \<Rightarrow> timespec res" where
  "end_time timer start stop =
     rbind (pn_timespec_subtract stop start) (\<lambda>time_delta. pn_timespec_add timer time_delta)"

section \<open>Printing numbers with a fraction\<close>

text \<open>The quotient of a number that is not negative, rounded to the nearest integer, ties to the even one.\<close>

definition round_div :: "int \<Rightarrow> int \<Rightarrow> int" where
  "round_div a b = (let q = a div b; r = a mod b in if 2 * r > b \<or> 2 * r = b \<and> odd q then q + 1 else q)"

definition pad_zeros :: "nat \<Rightarrow> string \<Rightarrow> string" where
  "pad_zeros n s = replicate (n - length s) CHR ''0'' @ s"

text \<open>\<open>n\<close> tenths, hundredths and so on, with \<open>k\<close> digits behind the point.\<close>

definition show_decimals :: "nat \<Rightarrow> nat \<Rightarrow> string" where
  "show_decimals k n = show_nat (n div 10 ^ k) @ (if k = 0 then [] else CHR ''.'' # pad_zeros k (show_nat (n mod 10 ^ k)))"

definition fp_num :: "int \<Rightarrow> int \<Rightarrow> int" where
  "fp_num m e = m * 2 ^ nat e"

definition fp_den :: "int \<Rightarrow> int" where
  "fp_den e = 2 ^ nat (- e)"

definition show_sign :: "bool \<Rightarrow> string \<Rightarrow> string" where
  "show_sign s t = (if s then CHR ''-'' # t else t)"

text \<open>The conversion \<open>%.kf\<close> of a number of format \<open>F\<close>; \<open>%f\<close> has six digits.\<close>

definition show_fixed :: "nat \<Rightarrow> fp_format \<Rightarrow> int \<Rightarrow> string" where
  "show_fixed k F b = (case fp_decode F b of
       FNaN s _ \<Rightarrow> show_sign s ''nan''
     | FInf s \<Rightarrow> show_sign s ''inf''
     | FFin s m e \<Rightarrow> show_sign s (show_decimals k (nat (round_div (fp_num m e * 10 ^ k) (fp_den e)))))"

text \<open>
  The conversion \<open>%g\<close>: six significant digits, zeros at the end removed. The decimal exponent of a
  fraction is found by multiplying with ten; a \<open>double\<close> needs at most 324 steps.
\<close>

fun leading_zeros :: "nat \<Rightarrow> int \<Rightarrow> int \<Rightarrow> nat" where
  "leading_zeros 0 a b = 0"
| "leading_zeros (Suc fuel) a b = (if a < b then Suc (leading_zeros fuel (10 * a) b) else 0)"

definition decimal_exponent :: "int \<Rightarrow> int \<Rightarrow> int" where
  "decimal_exponent a b =
     (if a < b then - int (leading_zeros 400 a b) else int (length (show_nat (nat (a div b)))) - 1)"

definition strip_zeros :: "string \<Rightarrow> string" where
  "strip_zeros s = (if CHR ''.'' \<in> set s
     then let t = rev (dropWhile (\<lambda>c. c = CHR ''0'') (rev s)) in if last t = CHR ''.'' then butlast t else t
     else s)"

definition show_exponent :: "int \<Rightarrow> string" where
  "show_exponent x = CHR ''e'' # (if x < 0 then CHR ''-'' else CHR ''+'') # pad_zeros 2 (show_nat (nat \<bar>x\<bar>))"

definition show_positive_g :: "int \<Rightarrow> int \<Rightarrow> string" where
  "show_positive_g a b =
     (let x = decimal_exponent a b;
          d = (if x \<le> 5 then round_div (a * 10 ^ nat (5 - x)) b else round_div a (b * 10 ^ nat (x - 5)));
          (d, x) = (if d = 10 ^ 6 then (10 ^ 5, x + 1) else (d, x))
      in if x < - 4 \<or> x \<ge> 6 then strip_zeros (show_decimals 5 (nat d)) @ show_exponent x
         else strip_zeros (show_decimals (nat (5 - x)) (nat d)))"

definition show_g :: "fp_format \<Rightarrow> int \<Rightarrow> string" where
  "show_g F b = (case fp_decode F b of
       FNaN s _ \<Rightarrow> show_sign s ''nan''
     | FInf s \<Rightarrow> show_sign s ''inf''
     | FFin s m e \<Rightarrow> show_sign s (if m = 0 then ''0'' else show_positive_g (fp_num m e) (fp_den e)))"

section \<open>Laws\<close>

definition time_ok :: "timespec \<Rightarrow> bool" where
  "time_ok a \<longleftrightarrow> 0 \<le> tv_sec a \<and> tv_sec a < 2 ^ 63 \<and> 0 \<le> tv_nsec a \<and> tv_nsec a < PN_NANOSECONDS_IN_A_SECOND"

definition nanoseconds :: "timespec \<Rightarrow> int" where
  "nanoseconds a = tv_sec a * PN_NANOSECONDS_IN_A_SECOND + tv_nsec a"

lemma timespec_check_ok [simp]: "time_ok a \<Longrightarrow> pn_timespec_check a = Inr ()"
  by (simp add: time_ok_def pn_timespec_check_def)

lemma nanoseconds_parts: "time_ok a \<Longrightarrow> tv_sec a = nanoseconds a div 1000000000 \<and> tv_nsec a = nanoseconds a mod 1000000000"
  by (simp add: time_ok_def nanoseconds_def)

lemma nanoseconds_inj: "time_ok a \<Longrightarrow> time_ok b \<Longrightarrow> nanoseconds a = nanoseconds b \<Longrightarrow> a = b"
  using nanoseconds_parts[of a] nanoseconds_parts[of b] by (cases a, cases b) simp

lemma timespec_subtract_ok:
  assumes "time_ok a" "time_ok b" "nanoseconds b \<le> nanoseconds a"
  shows "\<exists>d. pn_timespec_subtract a b = Inr d \<and> time_ok d \<and> nanoseconds d = nanoseconds a - nanoseconds b"
proof -
  define d where "d = (if tv_nsec a < tv_nsec b
    then \<lparr>tv_sec = tv_sec a - tv_sec b - 1, tv_nsec = tv_nsec a - tv_nsec b + PN_NANOSECONDS_IN_A_SECOND\<rparr>
    else \<lparr>tv_sec = tv_sec a - tv_sec b, tv_nsec = tv_nsec a - tv_nsec b\<rparr>)"
  have "time_ok d" "nanoseconds d = nanoseconds a - nanoseconds b"
    using assms by (auto simp: d_def time_ok_def nanoseconds_def)
  moreover have "pn_timespec_subtract a b = rbind (pn_timespec_check d) (\<lambda>_. Inr d)"
    using assms by (simp add: pn_timespec_subtract_def d_def Let_def)
  ultimately show ?thesis by simp
qed

lemma timespec_add_ok:
  assumes "time_ok a" "time_ok b" "nanoseconds a + nanoseconds b < 2 ^ 63 * PN_NANOSECONDS_IN_A_SECOND"
  shows "\<exists>s. pn_timespec_add a b = Inr s \<and> time_ok s \<and> nanoseconds s = nanoseconds a + nanoseconds b"
proof -
  define s where "s = (if tv_nsec a + tv_nsec b \<ge> PN_NANOSECONDS_IN_A_SECOND
    then \<lparr>tv_sec = tv_sec a + tv_sec b + 1, tv_nsec = tv_nsec a + tv_nsec b - PN_NANOSECONDS_IN_A_SECOND\<rparr>
    else \<lparr>tv_sec = tv_sec a + tv_sec b, tv_nsec = tv_nsec a + tv_nsec b\<rparr>)"
  have s: "time_ok s" "nanoseconds s = nanoseconds a + nanoseconds b"
    using assms by (auto simp: s_def time_ok_def nanoseconds_def)
  moreover have "pn_timespec_add a b = rbind (ensure (tv_sec s < 2 ^ 63) (Undefined ''signed overflow'')) (\<lambda>_.
      rbind (pn_timespec_check s) (\<lambda>_. Inr s))"
    using assms by (simp add: pn_timespec_add_def s_def Let_def)
  moreover have "tv_sec s < 2 ^ 63" using s(1) by (simp add: time_ok_def)
  ultimately show ?thesis by simp
qed

text \<open>
  Timers. As long as the clock does not go back, \<open>PN_END_TIME\<close> adds exactly the nanoseconds since
  \<open>PN_BEGIN_TIME\<close> to the timer, with a normalised result; and subtracting what was added restores the timer.
\<close>

theorem pn_end_time_accumulates:
  assumes "time_ok timer" "time_ok start" "time_ok stop" "nanoseconds start \<le> nanoseconds stop"
    "nanoseconds timer + nanoseconds stop < 2 ^ 63 * PN_NANOSECONDS_IN_A_SECOND"
  shows "\<exists>delta timer'. pn_timespec_subtract stop start = Inr delta \<and> end_time timer start stop = Inr timer' \<and> time_ok timer' \<and>
    nanoseconds timer' = nanoseconds timer + (nanoseconds stop - nanoseconds start) \<and>
    pn_timespec_subtract timer' delta = Inr timer"
proof -
  obtain d where d: "pn_timespec_subtract stop start = Inr d" "time_ok d" "nanoseconds d = nanoseconds stop - nanoseconds start"
    using timespec_subtract_ok[OF assms(3,2,4)] by blast
  have "0 \<le> nanoseconds start" using assms(2) by (simp add: time_ok_def nanoseconds_def)
  then obtain t where t: "pn_timespec_add timer d = Inr t" "time_ok t" "nanoseconds t = nanoseconds timer + nanoseconds d"
    using timespec_add_ok[OF assms(1) d(2)] d(3) assms(5) by auto
  have "0 \<le> nanoseconds timer" using assms(1) by (simp add: time_ok_def nanoseconds_def)
  then obtain u where "pn_timespec_subtract t d = Inr u" "time_ok u" "nanoseconds u = nanoseconds timer"
    using timespec_subtract_ok[OF t(2) d(2)] t(3) by auto
  then have "pn_timespec_subtract t d = Inr timer" using nanoseconds_inj[OF _ assms(1)] by simp
  then show ?thesis using d t by (simp add: end_time_def)
qed

theorem pn_end_time_accumulates_witness:
  "\<exists>timer'. end_time \<lparr>tv_sec = 1, tv_nsec = 900000000\<rparr> \<lparr>tv_sec = 5, tv_nsec = 999999999\<rparr> \<lparr>tv_sec = 6, tv_nsec = 200000000\<rparr> =
      Inr timer' \<and> nanoseconds timer' = 2100000001"
  using pn_end_time_accumulates[of "\<lparr>tv_sec = 1, tv_nsec = 900000000\<rparr>" "\<lparr>tv_sec = 5, tv_nsec = 999999999\<rparr>"
      "\<lparr>tv_sec = 6, tv_nsec = 200000000\<rparr>"]
  by (auto simp: time_ok_def nanoseconds_def)

end
