(* ===== verification/Pn_Trace_Run.thy ===== *)
theory Pn_Trace_Run
  imports Pn_Trace Pn_Time Pn_Scheduler
begin

text \<open>
  Tracing of a running program: the values an executed instruction has read and written, the
  intrinsics it has called (\<^verbatim>\<open>src/pn_trace.h\<close>), and the loops of \<open>pn_executor_run_step\<close> in
  \<^verbatim>\<open>src/pn_executor.h\<close> that print them. A pointer to a frame is the number of frames up to it, so that it
  can be followed after the instruction has pushed or popped frames.
\<close>

section \<open>Values\<close>

text \<open>The member of a runtime value that is printed, with its \<open>PN_FORMAT\<close>.\<close>

datatype member = Unsigned PNBasicType | Signed PNBasicType | Floating PNBasicType

abbreviation (input) "MU8 \<equiv> Unsigned INT8"
abbreviation (input) "MU32 \<equiv> Unsigned INT32"

fun show_member :: "member \<Rightarrow> PNRuntimeValue \<Rightarrow> string" where
  "show_member (Unsigned bt) v = show_int (get_u bt v)"
| "show_member (Signed bt) v = show_int (get_i bt v)"
| "show_member (Floating bt) v = show_fixed 6 (fp_format_of bt) (get_f bt v)"

definition trace_line :: "tracer \<Rightarrow> pn_trace \<Rightarrow> string res list \<Rightarrow> string res" where
  "trace_line tr flag pieces = (if tr_flags tr flag then cat (lit (print_indentx tr 0) # pieces) else Inr [])"

definition value_member :: "PNBasicType \<Rightarrow> member res" where
  "value_member bt = (case bt of
       PN_BASIC_TYPE_VOID \<Rightarrow> Inl (Fatal ''unreachable'')
     | PN_BASIC_TYPE_FLOAT \<Rightarrow> Inr (Floating FLOAT)
     | PN_BASIC_TYPE_DOUBLE \<Rightarrow> Inr (Floating DOUBLE)
     | _ \<Rightarrow> Inr (Unsigned bt))"

definition pn_executor_value_trace :: "tracer \<Rightarrow> PNExecutor \<Rightarrow> PNFunction \<Rightarrow> PNValueId \<Rightarrow> PNRuntimeValue \<Rightarrow> string \<Rightarrow>
    string \<Rightarrow> string res" where
  "pn_executor_value_trace tr ex f value_id v prefix postfix =
     (if tr_flags tr TRACE_EXECUTE then
        rbind (value_basic_type (ex_module ex) f value_id) (\<lambda>bt.
        rbind (value_member bt) (\<lambda>mem.
        cat [lit prefix, pn_value_describe (ex_module ex) (Some f) value_id, lit '' = '', lit (show_member mem v), lit postfix]))
      else Inr [])"

text \<open>\<open>PN_VALUE\<close> and \<open>PN_VALUE_OLD\<close>.\<close>

definition value_pair :: "PNExecutor \<Rightarrow> PNThread \<Rightarrow> PNFunction \<Rightarrow> PNValueId \<times> member \<Rightarrow> string res" where
  "value_pair ex th f = (\<lambda>(value_id, mem).
     cat [pn_value_describe (ex_module ex) (Some f) value_id, lit '' = '',
          rbind (pn_thread_get_value ex th value_id) (\<lambda>v. Inr (show_member mem v))])"

definition frame_value_pair :: "PNExecutor \<Rightarrow> PNCallFrame \<Rightarrow> PNFunction \<Rightarrow> PNValueId \<times> member \<Rightarrow> string res" where
  "frame_value_pair ex fr f = (\<lambda>(value_id, mem).
     cat [pn_value_describe (ex_module ex) (Some f) value_id, lit '' = '',
          rbind (pn_executor_get_value_from_frame ex fr value_id) (\<lambda>v. Inr (show_member mem v))])"

definition values_line :: "tracer \<Rightarrow> PNExecutor \<Rightarrow> PNThread \<Rightarrow> PNFunction \<Rightarrow> (PNValueId \<times> member) list \<Rightarrow> string res" where
  "values_line tr ex th f pairs =
     trace_line tr TRACE_EXECUTE [lit ''    '', separated ''  '' (map (value_pair ex th f) pairs), lit newline]"

definition frame_at :: "PNThread \<Rightarrow> nat \<Rightarrow> PNCallFrame res" where
  "frame_at th depth = (if 0 < depth \<and> depth \<le> length (thread_frames th)
     then Inr (rev (thread_frames th) ! (depth - 1)) else Inl (Undefined ''released frame''))"

definition thread_fn :: "PNExecutor \<Rightarrow> PNFunctionId \<Rightarrow> PNFunction res" where
  "thread_fn ex function_id = nth_res (module_functions (ex_module ex)) function_id"

text \<open>The sentinel frame has no function: the number printed for it is -1.\<close>

definition frame_function_number :: "PNThread \<Rightarrow> string" where
  "frame_function_number th = show_d32 (case thread_frames th of [] \<Rightarrow> - 1 | fr # _ \<Rightarrow> of_nat (frame_function_id fr))"

definition pc_line :: "tracer \<Rightarrow> PNThread \<Rightarrow> string res" where
  "pc_line tr th = trace_line tr TRACE_EXECUTE [lit (''pc = %'' @ show_nat (thread_inst th) @ newline)]"

definition function_line :: "tracer \<Rightarrow> PNThread \<Rightarrow> string res" where
  "function_line tr th = trace_line tr TRACE_EXECUTE
     [lit (''function = %f'' @ frame_function_number th @ ''  pc = %'' @ show_nat (thread_inst th) @ newline)]"

section \<open>What an instruction has done\<close>

fun trace_assigns :: "tracer \<Rightarrow> PNModule \<Rightarrow> PNFunction \<Rightarrow> address \<Rightarrow> PNRuntimePhiAssign list \<Rightarrow> string res" where
  "trace_assigns tr m f dest [] = Inr []"
| "trace_assigns tr m f dest (a # as) =
     cat [if phi_inst a = dest
          then trace_line tr TRACE_EXECUTE [lit ''    '', pn_value_describe m (Some f) (phi_dest_value_id a), lit '' <= '',
            pn_value_describe m (Some f) (phi_source_value_id a), lit newline]
          else Inr [],
          trace_assigns tr m f dest as]"

definition pn_basic_block_trace_phi_assigns :: "tracer \<Rightarrow> PNExecutor \<Rightarrow> PNThread \<Rightarrow> PNFunctionId \<Rightarrow> address \<Rightarrow> string res" where
  "pn_basic_block_trace_phi_assigns tr ex th old_function inst =
     rbind (thread_fn ex old_function) (\<lambda>f.
     rbind (fetch ex old_function inst) (\<lambda>i.
     case i of RPhiAssigns n fast table \<Rightarrow> trace_assigns tr (ex_module ex) f (thread_inst th) (take (unat n) table)
     | _ \<Rightarrow> Inl (Undefined ''not a phi table'')))"

text \<open>
  The trace of a switch looks for the phi table right behind the structure, where the cases are. The
  low half of the first case's number is taken for the number of assignments; what is then read as
  assignments is no part of one.
\<close>

definition trace_switch_assigns :: "tracer \<Rightarrow> PNExecutor \<Rightarrow> PNThread \<Rightarrow> PNFunctionId \<Rightarrow> address \<Rightarrow> (u64 \<times> address) list \<Rightarrow> string res" where
  "trace_switch_assigns tr ex th old_function inst cs = (case cs of
       [] \<Rightarrow> pn_basic_block_trace_phi_assigns tr ex th old_function (inst + 24)
     | (v, _) # _ \<Rightarrow> if (ucast v :: u16) = 0 then Inr [] else Inl (Undefined ''switch cases read as phi assignments''))"

definition binop_member :: "PNBasicType \<Rightarrow> member" where
  "binop_member bt = (if is_float_type bt then Floating bt else Unsigned bt)"

definition cast_member :: "PNCast \<Rightarrow> PNBasicType \<Rightarrow> member" where
  "cast_member op bt =
     (if is_float_type bt then Floating bt
      else if op \<in> {PN_CAST_ZEXT, PN_CAST_UITOFP, PN_CAST_FPTOUI} then Unsigned bt else Signed bt)"

definition cmp2_member :: "PNBasicType \<Rightarrow> member" where
  "cmp2_member bt = (if is_float_type bt then Floating bt else Signed bt)"

fun trace_call_args :: "tracer \<Rightarrow> PNExecutor \<Rightarrow> PNCallFrame \<Rightarrow> PNFunction \<Rightarrow> PNValueId list \<Rightarrow> string res" where
  "trace_call_args tr ex fr f [] = Inr []"
| "trace_call_args tr ex fr f (arg_id # args) =
     rbind (pn_executor_get_value_from_frame ex fr arg_id) (\<lambda>v.
     cat [pn_executor_value_trace tr ex f arg_id v [] ''  '', trace_call_args tr ex fr f args])"

definition trace_call_values :: "tracer \<Rightarrow> PNExecutor \<Rightarrow> PNThread \<Rightarrow> PNFunctionId \<Rightarrow> nat \<Rightarrow> PNValueId \<Rightarrow> u8 \<Rightarrow> u8 \<Rightarrow>
    PNValueId list \<Rightarrow> string res" where
  "trace_call_values tr ex th old_function old_frame callee_id n flags args =
     rbind (thread_fn ex old_function) (\<lambda>f.
     rbind (frame_at th old_frame) (\<lambda>fr.
     rbind (ensure (unat n \<le> length args) (Undefined ''argument behind the call'')) (\<lambda>_.
     cat [trace_line tr TRACE_EXECUTE
            (if flags AND 1 \<noteq> 0 then [lit ''    '', frame_value_pair ex fr f (callee_id, MU32), lit '' ''] else [lit ''    '']),
          trace_call_args tr ex fr f (take (unat n) args),
          trace_line tr TRACE_EXECUTE
            [if thread_function th \<noteq> old_function
             then lit (newline @ ''function = %f'' @ frame_function_number th @ ''  pc = %0'' @ newline)
             else lit newline]])))"

fun width_type :: "atomic_width \<Rightarrow> PNBasicType" where
  "width_type I8 = INT8"
| "width_type I16 = INT16"
| "width_type I32 = INT32"
| "width_type I64 = INT64"

definition arg_pairs :: "PNValueId list \<Rightarrow> (nat \<times> member) list \<Rightarrow> (PNValueId \<times> member) list res" where
  "arg_pairs args nms = (if \<exists>(n, _) \<in> set nms. n \<ge> length args then Inl (Undefined ''argument behind the call'')
     else Inr (map (\<lambda>(n, mem). (args ! n, mem)) nms))"

definition args_line :: "tracer \<Rightarrow> PNExecutor \<Rightarrow> PNThread \<Rightarrow> PNFunction \<Rightarrow> (PNValueId \<times> member) list \<Rightarrow> PNValueId list \<Rightarrow>
    (nat \<times> member) list \<Rightarrow> string res" where
  "args_line tr ex th f results args nms =
     (if tr_flags tr TRACE_EXECUTE
      then rbind (arg_pairs args nms) (\<lambda>ps. values_line tr ex th f (results @ ps)) else Inr [])"

definition trace_cmpxchg_values :: "tracer \<Rightarrow> PNExecutor \<Rightarrow> PNThread \<Rightarrow> PNFunction \<Rightarrow> atomic_width \<Rightarrow> PNValueId \<Rightarrow> PNValueId list \<Rightarrow>
    string res" where
  "trace_cmpxchg_values tr ex th f w r args =
     (let ty = Unsigned (width_type w) in
      if tr_flags tr TRACE_EXECUTE
      then rbind (arg_pairs args [(0, MU32), (1, ty), (2, ty)]) (\<lambda>ps.
        rbind (arg_pairs args [(3, MU32), (4, MU32)]) (\<lambda>qs.
        trace_line tr TRACE_EXECUTE
          [lit ''    '', separated ''  '' (map (value_pair ex th f) ((r, ty) # ps)), lit '' '',
           separated ''  '' (map (value_pair ex th f) qs), lit newline]))
      else Inr [])"

text \<open>An intrinsic; its arguments are read after the call, from the frame the thread is in then.\<close>

fun trace_intrinsic_values :: "tracer \<Rightarrow> PNExecutor \<Rightarrow> PNThread \<Rightarrow> PNFunction \<Rightarrow> PNIntrinsicId \<Rightarrow> PNValueId \<Rightarrow> PNValueId list \<Rightarrow>
    string res" where
  "trace_intrinsic_values tr ex th f LLVM_CTLZ_I32 r args = args_line tr ex th f [] args [(0, MU32), (1, MU8)]"
| "trace_intrinsic_values tr ex th f LLVM_CTTZ_I32 r args = args_line tr ex th f [] args [(0, MU32), (1, MU8)]"
| "trace_intrinsic_values tr ex th f LLVM_CTLZ_I64 r args = args_line tr ex th f [] args [(0, Unsigned INT64), (1, MU8)]"
| "trace_intrinsic_values tr ex th f LLVM_CTTZ_I64 r args = args_line tr ex th f [] args [(0, Unsigned INT64), (1, MU8)]"
| "trace_intrinsic_values tr ex th f LLVM_MEMCPY r args =
     args_line tr ex th f [] args [(0, MU32), (1, MU32), (2, MU32), (3, MU32), (4, MU8)]"
| "trace_intrinsic_values tr ex th f LLVM_MEMMOVE r args =
     args_line tr ex th f [] args [(0, MU32), (1, MU32), (2, MU32), (3, MU32), (4, MU8)]"
| "trace_intrinsic_values tr ex th f LLVM_MEMSET r args =
     args_line tr ex th f [] args [(0, MU32), (1, MU8), (2, MU32), (3, MU32), (4, MU8)]"
| "trace_intrinsic_values tr ex th f (LLVM_NACL_ATOMIC_CMPXCHG w) r args = trace_cmpxchg_values tr ex th f w r args"
| "trace_intrinsic_values tr ex th f (LLVM_NACL_ATOMIC_LOAD w) r args =
     args_line tr ex th f [(r, Signed (width_type w))] args [(0, MU32), (1, MU32)]"
| "trace_intrinsic_values tr ex th f LLVM_NACL_LONGJMP r args =
     cat [args_line tr ex th f [] args [(0, MU32), (1, MU32)], function_line tr th]"
| "trace_intrinsic_values tr ex th f LLVM_NACL_SETJMP r args = args_line tr ex th f [(r, MU32)] args [(0, MU32)]"
| "trace_intrinsic_values tr ex th f (LLVM_NACL_ATOMIC_STORE w) r args =
     args_line tr ex th f [] args [(0, Unsigned (width_type w)), (1, MU32), (2, MU32)]"
| "trace_intrinsic_values tr ex th f LLVM_NACL_READ_TP r args = values_line tr ex th f [(r, MU32)]"
| "trace_intrinsic_values tr ex th f LLVM_SQRT_F32 r args = args_line tr ex th f [(r, Floating FLOAT)] args [(0, Floating FLOAT)]"
| "trace_intrinsic_values tr ex th f LLVM_SQRT_F64 r args = args_line tr ex th f [(r, Floating DOUBLE)] args [(0, Floating DOUBLE)]"
| "trace_intrinsic_values tr ex th f LLVM_STACKRESTORE r args = args_line tr ex th f [] args [(0, MU32)]"
| "trace_intrinsic_values tr ex th f LLVM_STACKSAVE r args = values_line tr ex th f [(r, MU32)]"
| "trace_intrinsic_values tr ex th f op r args = Inr []"

text \<open>
  The trace of \<open>RET_VALUE\<close> takes the instruction the thread is at for the call, which is the one behind it:
  the word it reads for the result is whatever is there.
\<close>

fun second_word :: "PNRuntimeInstruction \<Rightarrow> PNValueId res" where
  "second_word (RAlloca bt r s a) = Inr r"
| "second_word (RBinop op bt r v0 v1) = Inr r"
| "second_word (RBrInt1 v t e) = Inr v"
| "second_word (RCall op r callee n flags args) = Inr r"
| "second_word (RCast op bt0 bt1 r v) = Inr r"
| "second_word (RCmp2 op bt r v0 v1) = Inr r"
| "second_word (RLoad bt r src a) = Inr r"
| "second_word (RRetValue v) = Inr v"
| "second_word (RStore bt dest v a) = Inr dest"
| "second_word (RSwitch bt v d cs) = Inr v"
| "second_word (RVselect r c t e) = Inr r"
| "second_word i = Inl (Undefined ''indeterminate word'')"

definition trace_ret_value :: "tracer \<Rightarrow> PNExecutor \<Rightarrow> PNThread \<Rightarrow> string res" where
  "trace_ret_value tr ex th =
     (if exiting ex then trace_line tr TRACE_EXECUTE [lit (''exiting'' @ newline)]
      else rbind (thread_fn ex (thread_function th)) (\<lambda>f.
        rbind (fetch ex (thread_function th) (thread_inst th)) (\<lambda>c.
        rbind (second_word c) (\<lambda>r.
        rbind (pn_thread_get_value ex th r) (\<lambda>v.
        cat [pn_executor_value_trace tr ex f r v ''    '' newline, function_line tr th])))))"

definition trace_vselect :: "tracer \<Rightarrow> PNExecutor \<Rightarrow> PNThread \<Rightarrow> PNFunction \<Rightarrow> PNValueId \<Rightarrow> PNValueId \<Rightarrow> PNValueId \<Rightarrow> PNValueId \<Rightarrow>
    string res" where
  "trace_vselect tr ex th f r c t e =
     rbind (pn_thread_get_value ex th r) (\<lambda>result.
     rbind (pn_thread_get_value ex th c) (\<lambda>cond.
     cat [pn_executor_value_trace tr ex f r result ''    '' ''  '', pn_executor_value_trace tr ex f c cond [] ''  '',
          pn_executor_value_trace tr ex f (if cond AND 1 \<noteq> 0 then t else e) result [] newline]))"

fun trace_values :: "tracer \<Rightarrow> PNExecutor \<Rightarrow> PNThread \<Rightarrow> PNFunction \<Rightarrow> PNFunctionId \<Rightarrow> nat \<Rightarrow> address \<Rightarrow> PNRuntimeInstruction \<Rightarrow>
    string res" where
  "trace_values tr ex th f old_function old_frame inst (RAlloca bt r size_id a) =
     values_line tr ex th f [(r, MU32), (size_id, Signed INT32)]"
| "trace_values tr ex th f old_function old_frame inst (RBinop op bt r v0 v1) =
     values_line tr ex th f [(r, binop_member bt), (v0, binop_member bt), (v1, binop_member bt)]"
| "trace_values tr ex th f old_function old_frame inst (RBr dest) =
     cat [pn_basic_block_trace_phi_assigns tr ex th old_function (inst + 16), pc_line tr th]"
| "trace_values tr ex th f old_function old_frame inst (RBrInt1 v t e) =
     cat [pn_basic_block_trace_phi_assigns tr ex th old_function (inst + 24), values_line tr ex th f [(v, MU8)], pc_line tr th]"
| "trace_values tr ex th f old_function old_frame inst (RCall op r callee_id n flags args) = (case op of
       OPCODE_CALL \<Rightarrow> trace_call_values tr ex th old_function old_frame callee_id n flags args
     | OPCODE_INTRINSIC i \<Rightarrow> trace_intrinsic_values tr ex th f i r args
     | OPCODE_ATOMIC_RMW a w \<Rightarrow>
         args_line tr ex th f [(r, Unsigned (width_type w))] args
           [(0, MU32), (1, MU32), (2, Unsigned (width_type w)), (3, MU32)])"
| "trace_values tr ex th f old_function old_frame inst (RCast op bt0 bt1 r v) =
     values_line tr ex th f [(r, cast_member op bt1), (v, cast_member op bt0)]"
| "trace_values tr ex th f old_function old_frame inst (RCmp2 op bt r v0 v1) =
     values_line tr ex th f [(r, MU8), (v0, cmp2_member bt), (v1, cmp2_member bt)]"
| "trace_values tr ex th f old_function old_frame inst (RLoad bt r src_id a) =
     values_line tr ex th f [(r, binop_member bt), (src_id, MU32)]"
| "trace_values tr ex th f old_function old_frame inst RRet =
     (if exiting ex then trace_line tr TRACE_EXECUTE [lit (''exiting'' @ newline)] else function_line tr th)"
| "trace_values tr ex th f old_function old_frame inst (RRetValue v) = trace_ret_value tr ex th"
| "trace_values tr ex th f old_function old_frame inst (RStore bt dest_id v a) =
     values_line tr ex th f [(dest_id, MU32), (v, binop_member bt)]"
| "trace_values tr ex th f old_function old_frame inst (RSwitch bt v d cs) =
     cat [trace_switch_assigns tr ex th old_function inst cs, values_line tr ex th f [(v, Signed bt)], pc_line tr th]"
| "trace_values tr ex th f old_function old_frame inst RUnreachable = Inr []"
| "trace_values tr ex th f old_function old_frame inst (RVselect r c t e) = trace_vselect tr ex th f r c t e"
| "trace_values tr ex th f old_function old_frame inst (RPhiAssigns n fast ps) = Inl (Undefined ''phi table traced'')"

definition pn_runtime_instruction_trace_values :: "tracer \<Rightarrow> PNExecutor \<Rightarrow> PNThread \<Rightarrow> PNFunctionId \<Rightarrow> nat \<Rightarrow> address \<Rightarrow>
    PNRuntimeInstruction \<Rightarrow> string res" where
  "pn_runtime_instruction_trace_values tr ex th old_function old_frame inst i =
     rbind (thread_fn ex (thread_function th)) (\<lambda>f. trace_values tr ex th f old_function old_frame inst i)"

section \<open>Intrinsics\<close>

text \<open>A call printed with the values of its arguments; \<open>PN_ARG\<close> reads them after the call.\<close>

fun arg_texts :: "PNExecutor \<Rightarrow> PNThread \<Rightarrow> PNValueId list \<Rightarrow> (string \<times> nat \<times> member) list \<Rightarrow> string res" where
  "arg_texts ex th args [] = Inr []"
| "arg_texts ex th args ((label, n, mem) # ps) =
     rbind (if n < length args then Inr (args ! n) else Inl (Undefined ''argument behind the call'')) (\<lambda>arg_id.
     rbind (pn_thread_get_value ex th arg_id) (\<lambda>v.
     cat [lit label, lit (show_member mem v), arg_texts ex th args ps]))"

definition intrinsic_line :: "tracer \<Rightarrow> PNExecutor \<Rightarrow> PNThread \<Rightarrow> PNValueId list \<Rightarrow> string \<Rightarrow> (string \<times> nat \<times> member) list \<Rightarrow> string \<Rightarrow>
    string res" where
  "intrinsic_line tr ex th args name ps close =
     trace_line tr TRACE_INTRINSICS [lit (''    llvm.'' @ name), arg_texts ex th args ps, lit (close @ newline)]"

fun unsigned_name :: "atomic_width \<Rightarrow> string" where
  "unsigned_name I8 = ''u8''"
| "unsigned_name I16 = ''u16''"
| "unsigned_name I32 = ''u32''"
| "unsigned_name I64 = ''u64''"

fun signed_name :: "atomic_width \<Rightarrow> string" where
  "signed_name I8 = ''i8''"
| "signed_name I16 = ''i16''"
| "signed_name I32 = ''i32''"
| "signed_name I64 = ''i64''"

fun rmw_sign :: "atomic_op \<Rightarrow> string" where
  "rmw_sign ATOMIC_ADD = ''+''"
| "rmw_sign ATOMIC_SUB = ''-''"
| "rmw_sign ATOMIC_AND = ''&''"
| "rmw_sign ATOMIC_OR = ''|''"
| "rmw_sign ATOMIC_XOR = ''^''"
| "rmw_sign ATOMIC_EXCHANGE = []"

definition trace_rmw :: "tracer \<Rightarrow> PNExecutor \<Rightarrow> PNThread \<Rightarrow> PNValueId list \<Rightarrow> atomic_op \<Rightarrow> atomic_width \<Rightarrow> string res" where
  "trace_rmw tr ex th args op w =
     (let ty = Unsigned (width_type w) in
      if op = ATOMIC_EXCHANGE
      then intrinsic_line tr ex th args (''nacl.atomic.exchange.'' @ unsigned_name w)
             [(''(addr_p:'', 1, MU32), ('', value: '', 2, ty)] '')''
      else intrinsic_line tr ex th args (''nacl.atomic.rmw.'' @ unsigned_name w @ ''(op: '' @ rmw_sign op)
             [('', addr_p:'', 0, MU32), ('', value: '', 1, ty)] '')'')"

fun trace_intrinsic :: "tracer \<Rightarrow> PNExecutor \<Rightarrow> PNThread \<Rightarrow> PNValueId list \<Rightarrow> PNIntrinsicId \<Rightarrow> string res" where
  "trace_intrinsic tr ex th args LLVM_MEMCPY =
     intrinsic_line tr ex th args ''memcpy'' [(''(dst_p:'', 0, MU32), ('', src_p:'', 1, MU32), ('', len:'', 2, MU32),
       ('', align:'', 3, MU32), ('', is_volatile:'', 4, MU8)] '')''"
| "trace_intrinsic tr ex th args LLVM_MEMSET =
     intrinsic_line tr ex th args ''memset'' [(''(dst_p:'', 0, MU32), ('', value:'', 1, MU8), ('', len:'', 2, MU32),
       ('', align:'', 3, MU32), ('', is_volatile:'', 4, MU8)] '')''"
| "trace_intrinsic tr ex th args LLVM_MEMMOVE =
     intrinsic_line tr ex th args ''memmove'' [(''(dst_p:'', 0, MU32), ('', src_p:'', 1, MU32), ('', len:'', 2, MU32),
       ('', align:'', 3, MU32), ('', is_volatile:'', 4, MU8)] '')''"
| "trace_intrinsic tr ex th args (LLVM_NACL_ATOMIC_CMPXCHG w) =
     intrinsic_line tr ex th args (''nacl.atomic.cmpxchg.'' @ unsigned_name w)
       [(''(addr_p:'', 0, MU32), ('', expected:'', 1, Unsigned (width_type w)), ('', desired:'', 2, Unsigned (width_type w))] '', ...)''"
| "trace_intrinsic tr ex th args (LLVM_NACL_ATOMIC_LOAD w) =
     intrinsic_line tr ex th args (''nacl.atomic.load.'' @ signed_name w) [(''(addr_p:'', 0, MU32), ('', flags:'', 1, MU32)] '')''"
| "trace_intrinsic tr ex th args LLVM_NACL_LONGJMP =
     intrinsic_line tr ex th args ''nacl.longjmp'' [(''(jmpbuf: '', 0, MU32), ('', value: '', 1, MU32)] '')''"
| "trace_intrinsic tr ex th args LLVM_NACL_SETJMP = intrinsic_line tr ex th args ''nacl.setjmp'' [(''(jmpbuf: '', 0, MU32)] '')''"
| "trace_intrinsic tr ex th args (LLVM_NACL_ATOMIC_STORE w) =
     intrinsic_line tr ex th args ''nacl.atomic.store.u32''
       [(''(value: '', 0, Unsigned (width_type w)), ('' addr_p:'', 1, MU32), ('', flags: '', 2, MU32)] '')''"
| "trace_intrinsic tr ex th args LLVM_NACL_READ_TP = intrinsic_line tr ex th args ''nacl.read.tp'' [] ''()''"
| "trace_intrinsic tr ex th args LLVM_SQRT_F32 = intrinsic_line tr ex th args ''sqrt.f32'' [(''('', 0, Floating FLOAT)] '')''"
| "trace_intrinsic tr ex th args LLVM_SQRT_F64 = intrinsic_line tr ex th args ''sqrt.f64'' [(''('', 0, Floating DOUBLE)] '')''"
| "trace_intrinsic tr ex th args LLVM_STACKRESTORE = intrinsic_line tr ex th args ''stackrestore'' [(''('', 0, MU32)] '')''"
| "trace_intrinsic tr ex th args LLVM_STACKSAVE = intrinsic_line tr ex th args ''stacksave'' [] ''()''"
| "trace_intrinsic tr ex th args LLVM_TRAP = intrinsic_line tr ex th args ''trap'' [] ''()''"
| "trace_intrinsic tr ex th args i = Inr []"

definition pn_runtime_instruction_trace_intrinsics :: "tracer \<Rightarrow> PNExecutor \<Rightarrow> PNThread \<Rightarrow> PNRuntimeInstruction \<Rightarrow> string res" where
  "pn_runtime_instruction_trace_intrinsics tr ex th i =
     (if \<not> tr_flags tr TRACE_INTRINSICS then Inr []
      else case i of
          RCall (OPCODE_INTRINSIC op) r callee_id n flags args \<Rightarrow> trace_intrinsic tr ex th args op
        | RCall (OPCODE_ATOMIC_RMW op w) r callee_id n flags args \<Rightarrow> trace_rmw tr ex th args op w
        | _ \<Rightarrow> Inr [])"

section \<open>A traced quantum\<close>

definition indented :: "int \<Rightarrow> tracer \<Rightarrow> tracer" where
  "indented c tr = tr\<lparr>tr_indent := tr_indent tr + c\<rparr>"

definition traced_step :: "builtin_call \<Rightarrow> tracer \<Rightarrow> PNExecutor \<Rightarrow> nat \<Rightarrow> (string \<times> PNExecutor) res" where
  "traced_step builtin tr ex t =
     rbind (get_thread ex t) (\<lambda>th.
     rbind (thread_fn ex (thread_function th)) (\<lambda>f.
     rbind (fetch ex (thread_function th) (thread_inst th)) (\<lambda>i.
     rbind (if tr_flags tr TRACE_EXECUTE then pn_runtime_instruction_trace (indented 2 tr) (ex_module ex) f i else Inr []) (\<lambda>before.
     rbind (pn_thread_execute_instruction builtin ex t) (\<lambda>ex.
     rbind (get_thread ex t) (\<lambda>th'.
     rbind (pn_runtime_instruction_trace_intrinsics tr ex th' i) (\<lambda>intrinsics.
     rbind (if tr_flags tr TRACE_EXECUTE
            then pn_runtime_instruction_trace_values tr ex th' (thread_function th) (length (thread_frames th)) (thread_inst th) i
            else Inr []) (\<lambda>vs.
     Inr (before @ intrinsics @ vs, ex)))))))))"

fun run_quantum_traced :: "builtin_call \<Rightarrow> tracer \<Rightarrow> nat \<Rightarrow> PNExecutor \<Rightarrow> nat \<Rightarrow> (string \<times> PNExecutor) res" where
  "run_quantum_traced builtin tr 0 ex t = Inr ([], ex)"
| "run_quantum_traced builtin tr (Suc n) ex t =
     rbind (get_thread ex t) (\<lambda>th.
     if thread_state th = PN_THREAD_RUNNING
     then rbind (if tr_flags tr TRACE_EXECUTE \<or> tr_flags tr TRACE_INTRINSICS then traced_step builtin tr ex t
                 else rbind (pn_thread_execute_instruction builtin ex t) (\<lambda>ex. Inr ([], ex))) (\<lambda>(s, ex).
       rbind (run_quantum_traced builtin tr n ex t) (\<lambda>(s', ex). Inr (s @ s', ex)))
     else Inr ([], ex))"

section \<open>Tracing does not change the run\<close>

lemma traced_step_executes:
  "traced_step builtin tr ex t = Inr (s, ex') \<Longrightarrow> pn_thread_execute_instruction builtin ex t = Inr ex'"
  by (auto simp: traced_step_def res_simps)

lemma run_quantum_traced_executes:
  "run_quantum_traced builtin tr n ex t = Inr (s, ex') \<Longrightarrow> run_quantum builtin n ex t = Inr ex'"
proof (induction n arbitrary: ex s)
  case (Suc n)
  then obtain th where th: "get_thread ex t = Inr th" by (cases "get_thread ex t") auto
  show ?case
  proof (cases "thread_state th = PN_THREAD_RUNNING")
    case True
    with Suc.prems th obtain s1 ex1 s2 where "pn_thread_execute_instruction builtin ex t = Inr ex1"
      "run_quantum_traced builtin tr n ex1 t = Inr (s2, ex')"
      by (auto simp: res_simps dest: traced_step_executes split: if_splits)
    then show ?thesis using Suc.IH th True by simp
  qed (use Suc.prems th in simp)
qed simp

lemma run_quantum_untraced:
  "\<not> tr_flags tr TRACE_EXECUTE \<Longrightarrow> \<not> tr_flags tr TRACE_INTRINSICS \<Longrightarrow>
     run_quantum_traced builtin tr n ex t = rbind (run_quantum builtin n ex t) (\<lambda>ex'. Inr ([], ex'))"
proof (induction n arbitrary: ex)
  case (Suc n)
  then show ?case
    by (cases "get_thread ex t"; cases "pn_thread_execute_instruction builtin ex t") (auto simp: rbind_assoc)
qed simp

definition execute_tracer :: tracer where
  "execute_tracer = \<lparr>tr_flags = (\<lambda>flag. flag = TRACE_EXECUTE), tr_indent = 0, tr_pred_bbs = False, tr_liveness = False, tr_loops = False\<rparr>"

section \<open>The trace of a returned value\<close>

lemma release_frame_thread:
  "get_thread ex t = Inr th \<Longrightarrow> get_thread (put_thread ex t th') t = Inr th'"
  by (auto simp: get_thread_def put_thread_def nth_res_def split: if_splits)

text \<open>
  The trace of a returned value looks for the call at the wrong place: when a function returns a value to a
  caller that goes on with \<open>ret void\<close>, the instruction is executed and its trace reads an indeterminate word.
\<close>

theorem pn_trace_ret_value_fails:
  assumes "get_thread ex t = Inr th" "thread_frames th = fr # caller # frames" "\<not> exiting ex"
    "fetch_call ex (frame_function_id caller) (frame_inst caller) = Inr (r, n)"
    "fetch ex (frame_function_id caller) (frame_inst caller + call_size n) = Inr RRet"
    "execute builtin ex t th (RRetValue a) = Inr ex'"
  shows "\<exists>th'. get_thread ex' t = Inr th' \<and>
    pn_runtime_instruction_trace_values tr ex' th' old_function old_frame inst (RRetValue a) = Inl (Undefined ''indeterminate word'')"
proof -
  obtain v where "exec_ret ex t th (Some v) = Inr ex'" using assms(6) by (auto simp: res_simps)
  then obtain th' where th': "ex' = put_thread ex t th'" "thread_function th' = frame_function_id caller"
    "thread_inst th' = frame_inst caller + call_size n"
    using assms(2,4) by (auto simp: exec_ret_def res_simps Let_def)
  have same: "fetch ex' = fetch ex" "thread_fn ex' = thread_fn ex" "exiting ex' = exiting ex"
    by (simp_all add: th'(1) put_thread_def fetch_def thread_fn_def fun_eq_iff)
  obtain f where "thread_fn ex (frame_function_id caller) = Inr f"
    using assms(5) by (auto simp: fetch_def thread_fn_def res_simps)
  then have "pn_runtime_instruction_trace_values tr ex' th' old_function old_frame inst (RRetValue a) = Inl (Undefined ''indeterminate word'')"
    using assms(3,5) th'(2,3) by (simp add: pn_runtime_instruction_trace_values_def trace_ret_value_def same)
  then show ?thesis using release_frame_thread[OF assms(1)] th'(1) by blast
qed

definition returning_frame :: "PNFunctionId \<Rightarrow> PNCallFrame" where
  "returning_frame function_id = \<lparr>frame_function_id = function_id, frame_inst = 0, frame_values = [1, 1, 0, 0, 0, 0],
     frame_jmpbufs = [], memory_stack_top = 0\<rparr>"

definition returning_thread :: PNThread where
  "returning_thread = start_thread\<lparr>thread_frames := [returning_frame 1, returning_frame 0], thread_function := 1\<rparr>"

definition returning :: PNExecutor where
  "returning = (counting_at 0 [])\<lparr>ex_module := counting_module\<lparr>module_functions :=
     [example_function\<lparr>function_instructions := [(0, RCall OPCODE_CALL 4 0 0 0 []), (16, RRet)]\<rparr>,
      example_function\<lparr>function_instructions := [(0, RRetValue 2)]\<rparr>]\<rparr>, threads := [returning_thread]\<rparr>"

theorem pn_trace_ret_value_fails_witness:
  "\<exists>ex' th'. execute (pn_builtin False still_host) returning 0 returning_thread (RRetValue 2) = Inr ex' \<and>
     get_thread ex' 0 = Inr th' \<and>
     pn_runtime_instruction_trace_values execute_tracer ex' th' 1 2 0 (RRetValue 2) = Inl (Undefined ''indeterminate word'')"
proof -
  have th: "get_thread returning 0 = Inr returning_thread" "\<not> exiting returning"
    "thread_frames returning_thread = [returning_frame 1, returning_frame 0]" "num_module_values returning = 1"
    by (simp_all add: returning_def counting_at_def get_thread_def returning_thread_def num_module_values_def counting_module_def
        example_module_def)
  have call: "fetch_call returning (frame_function_id (returning_frame 0)) (frame_inst (returning_frame 0)) = Inr (4, 0)"
    "fetch returning (frame_function_id (returning_frame 0)) (frame_inst (returning_frame 0) + call_size 0) = Inr RRet"
    by (simp_all add: fetch_call_def fetch_def returning_def returning_frame_def call_size_def)
  obtain ex' where "execute (pn_builtin False still_host) returning 0 returning_thread (RRetValue 2) = Inr ex'"
    using call by (simp add: pn_thread_get_value_def current_frame_def th exec_ret_def pn_thread_set_value_def returning_frame_def
        put_frame_def Let_def)
  then show ?thesis using pn_trace_ret_value_fails[OF th(1) th(3) th(2) call] by blast
qed

end
