(* ===== verification/Pn_Trace_Read.thy ===== *)
theory Pn_Trace_Read
  imports Pn_Trace_Run Pn_Abbrev
begin

text \<open>
  The callbacks that print a bitcode file while it is read, \<^verbatim>\<open>src/pn_trace.h\<close>, and the printing of an
  abbreviation, \<^verbatim>\<open>src/pn_abbrev.h\<close>. A callback gives its text and the tracer with the new indentation.
\<close>

type_synonym traced = "(string \<times> tracer) res"

definition say :: "tracer \<Rightarrow> pn_trace \<Rightarrow> string res list \<Rightarrow> traced" where
  "say tr flag pieces = rbind (trace_line tr flag pieces) (\<lambda>s. Inr (s, tr))"

text \<open>\<open>PN_TRACE_INDENT\<close> and, with a negative number, \<open>PN_TRACE_DEDENT\<close>.\<close>

definition shift :: "tracer \<Rightarrow> pn_trace \<Rightarrow> int \<Rightarrow> tracer" where
  "shift tr flag c = (if tr_flags tr flag then indented c tr else tr)"

definition opens :: "tracer \<Rightarrow> pn_trace \<Rightarrow> string \<Rightarrow> int \<Rightarrow> traced" where
  "opens tr flag text c = rbind (say tr flag [lit text]) (\<lambda>(s, tr). Inr (s, shift tr flag c))"

definition closes :: "tracer \<Rightarrow> pn_trace \<Rightarrow> traced" where
  "closes tr flag = say (shift tr flag (- 2)) flag [lit (''}'' @ newline)]"

section \<open>Abbreviations\<close>

fun abbrev_elt_text :: "PNAbbrevOp \<Rightarrow> string res" where
  "abbrev_elt_text (OpFixed n) = Inr (''fixed('' @ show_int n @ '')'')"
| "abbrev_elt_text (OpVbr n) = Inr (''vbr('' @ show_int n @ '')'')"
| "abbrev_elt_text OpChar6 = Inr ''char6''"
| "abbrev_elt_text op = Inl (Fatal ''unreachable'')"

text \<open>A comma follows each operator but the last; an array is printed with its element.\<close>

fun abbrev_ops_text :: "PNAbbrevOp list \<Rightarrow> string res" where
  "abbrev_ops_text [] = Inr []"
| "abbrev_ops_text (OpLiteral v # ops) = cat [lit (show_d32 v), lit (if ops = [] then [] else '', ''), abbrev_ops_text ops]"
| "abbrev_ops_text (OpFixed n # ops) =
     cat [lit (''fixed('' @ show_int n @ '')''), lit (if ops = [] then [] else '', ''), abbrev_ops_text ops]"
| "abbrev_ops_text (OpVbr n # ops) =
     cat [lit (''vbr('' @ show_int n @ '')''), lit (if ops = [] then [] else '', ''), abbrev_ops_text ops]"
| "abbrev_ops_text (OpArray # elt # ops) =
     cat [lit ''array('', abbrev_elt_text elt, lit '')'', lit (if ops = [] then [] else '', ''), abbrev_ops_text ops]"
| "abbrev_ops_text [OpArray] = Inl (Undefined ''operator behind the abbreviation'')"
| "abbrev_ops_text (OpChar6 # ops) = cat [lit ''char6'', lit (if ops = [] then [] else '', ''), abbrev_ops_text ops]"
| "abbrev_ops_text (OpBlob # ops) = cat [lit ''blob'', lit (if ops = [] then [] else '', ''), abbrev_ops_text ops]"

definition pn_abbrev_trace :: "tracer \<Rightarrow> PNAbbrev \<Rightarrow> u32 \<Rightarrow> bool \<Rightarrow> string res" where
  "pn_abbrev_trace tr abbrev abbrev_id global =
     trace_line tr TRACE_ABBREV [lit ((if global then ''@a'' else ''%a'') @ show_d32 abbrev_id @ '' = abbrev <''), abbrev_ops_text abbrev,
       lit (''>;'' @ newline)]"

definition pn_trace_define_abbrev :: "tracer \<Rightarrow> u32 \<Rightarrow> PNAbbrev \<Rightarrow> bool \<Rightarrow> traced" where
  "pn_trace_define_abbrev tr abbrev_id abbrev in_blockinfo =
     rbind (pn_abbrev_trace tr abbrev abbrev_id in_blockinfo) (\<lambda>s. Inr (s, tr))"

section \<open>Block information\<close>

definition pn_trace_before_blockinfo_block :: "tracer \<Rightarrow> traced" where
  "pn_trace_before_blockinfo_block tr = opens tr TRACE_BLOCKINFO_BLOCK (''abbreviations {  // BlockID = 0'' @ newline) 4"

definition blockinfo_name :: "u32 \<Rightarrow> string res" where
  "blockinfo_name block_id =
     (if block_id = 0 then Inr ''abbreviations'' else if block_id = 8 then Inr ''module'' else if block_id = 11 then Inr ''constants''
      else if block_id = 12 then Inr ''function'' else if block_id = 14 then Inr ''valuesymtab'' else if block_id = 17 then Inr ''type''
      else if block_id = 19 then Inr ''globals'' else Inl (Fatal ''unreachable''))"

definition pn_trace_blockinfo_setbid :: "tracer \<Rightarrow> u32 \<Rightarrow> traced" where
  "pn_trace_blockinfo_setbid tr block_id =
     rbind (blockinfo_name block_id) (\<lambda>name.
     opens (shift tr TRACE_BLOCKINFO_BLOCK (- 2)) TRACE_BLOCKINFO_BLOCK (name @ '':'' @ newline) 2)"

definition pn_trace_blockinfo_blockname :: "tracer \<Rightarrow> traced" where
  "pn_trace_blockinfo_blockname tr = say tr TRACE_BLOCKINFO_BLOCK [lit (''block name'' @ newline)]"

definition pn_trace_blockinfo_setrecordname :: "tracer \<Rightarrow> traced" where
  "pn_trace_blockinfo_setrecordname tr = say tr TRACE_BLOCKINFO_BLOCK [lit (''block record name'' @ newline)]"

definition pn_trace_after_blockinfo_block :: "tracer \<Rightarrow> traced" where
  "pn_trace_after_blockinfo_block tr =
     say (shift tr TRACE_BLOCKINFO_BLOCK (- 4)) TRACE_BLOCKINFO_BLOCK [lit (''}'' @ newline)]"

section \<open>Types\<close>

definition pn_trace_before_type_block :: "tracer \<Rightarrow> traced" where
  "pn_trace_before_type_block tr = opens tr TRACE_TYPE_BLOCK (''types {  // BlockID = 17'' @ newline) 2"

definition pn_trace_type_num_entries :: "tracer \<Rightarrow> PNModule \<Rightarrow> traced" where
  "pn_trace_type_num_entries tr module =
     say tr TRACE_TYPE_BLOCK [lit (''count '' @ show_d32 (of_nat (length (types module))) @ '';'' @ newline)]"

text \<open>The reader passes the id after the type; the id is a 16-bit number that is subtracted from as an \<open>int\<close>.\<close>

definition pn_trace_type_entry :: "tracer \<Rightarrow> PNModule \<Rightarrow> PNTypeId \<Rightarrow> traced" where
  "pn_trace_type_entry tr module type_id =
     say tr TRACE_TYPE_BLOCK [lit (''@t'' @ show_int (int type_id - 1) @ '' = ''),
       pn_type_describe_all module ((type_id + 65535) mod 65536) None False, lit ('';'' @ newline)]"

definition pn_trace_after_type_block :: "tracer \<Rightarrow> traced" where
  "pn_trace_after_type_block tr = closes tr TRACE_TYPE_BLOCK"

section \<open>Global variables\<close>

definition pn_trace_before_globalvar_block :: "tracer \<Rightarrow> traced" where
  "pn_trace_before_globalvar_block tr = opens tr TRACE_GLOBALVAR_BLOCK (''globals {  // BlockID = 19'' @ newline) 2"

definition pn_trace_globalvar_before_var :: "tracer \<Rightarrow> PNModule \<Rightarrow> PNGlobalVar \<Rightarrow> PNValueId \<Rightarrow> traced" where
  "pn_trace_globalvar_before_var tr module var value_id =
     rbind (say tr TRACE_GLOBALVAR_BLOCK [lit (if is_constant var then ''const '' else ''var ''), pn_value_describe module None value_id,
       lit ('', align '' @ show_nat (globalvar_alignment var) @ '','' @ newline)]) (\<lambda>(s, tr).
     Inr (s, shift tr TRACE_GLOBALVAR_BLOCK 2))"

definition pn_trace_globalvar_compound :: "tracer \<Rightarrow> PNGlobalVar \<Rightarrow> traced" where
  "pn_trace_globalvar_compound tr var =
     opens tr TRACE_GLOBALVAR_BLOCK (''initializers '' @ show_d32 (num_initializers var) @ '' {'' @ newline) 2"

definition pn_trace_globalvar_zerofill :: "tracer \<Rightarrow> u32 \<Rightarrow> traced" where
  "pn_trace_globalvar_zerofill tr num_bytes =
     say tr TRACE_GLOBALVAR_BLOCK [lit (''zerofill '' @ show_d32 num_bytes @ '';'' @ newline)]"

fun data_text :: "tracer \<Rightarrow> nat \<Rightarrow> u8 list \<Rightarrow> string" where
  "data_text tr i [] = []"
| "data_text tr i (b # bs) =
     (if i \<noteq> 0 then '', '' @ (if i mod 14 = 0 then newline @ print_indentx tr 0 @ '' '' else []) else []) @
     pad_left 3 (show_nat (unat b)) @ data_text tr (Suc i) bs"

definition pn_trace_globalvar_data :: "tracer \<Rightarrow> u8 list \<Rightarrow> traced" where
  "pn_trace_globalvar_data tr data = say tr TRACE_GLOBALVAR_BLOCK [lit ''{'', lit (data_text tr 0 data), lit (''}'' @ newline)]"

definition pn_trace_globalvar_reloc :: "tracer \<Rightarrow> PNModule \<Rightarrow> PNValueId \<Rightarrow> u32 \<Rightarrow> traced" where
  "pn_trace_globalvar_reloc tr module value_index addend =
     (if sint addend > 0
      then say tr TRACE_GLOBALVAR_BLOCK [lit ''reloc '', pn_value_describe module None value_index,
        lit ('' + '' @ show_int (sint addend) @ '';'' @ newline)]
      else if sint addend < 0
      then say tr TRACE_GLOBALVAR_BLOCK [lit ''reloc '', pn_value_describe module None value_index,
        rbind (ensure (sint addend \<noteq> - (2 ^ 31)) (Undefined ''signed overflow'')) (\<lambda>_.
        Inr ('' - '' @ show_int (- sint addend) @ '';'' @ newline))]
      else say tr TRACE_GLOBALVAR_BLOCK [lit ''reloc '', pn_value_describe module None value_index, lit ('';'' @ newline)])"

definition pn_trace_globalvar_count :: "tracer \<Rightarrow> u32 \<Rightarrow> traced" where
  "pn_trace_globalvar_count tr count = say tr TRACE_GLOBALVAR_BLOCK [lit (''count '' @ show_d32 count @ '';'' @ newline)]"

definition pn_trace_globalvar_after_var :: "tracer \<Rightarrow> PNGlobalVar \<Rightarrow> traced" where
  "pn_trace_globalvar_after_var tr var =
     (let tr = shift tr TRACE_GLOBALVAR_BLOCK (- 2) in
      if num_initializers var > 1
      then rbind (say tr TRACE_GLOBALVAR_BLOCK [lit (''}'' @ newline)]) (\<lambda>(s, tr). Inr (s, shift tr TRACE_GLOBALVAR_BLOCK (- 2)))
      else Inr ([], tr))"

definition pn_trace_after_globalvar_block :: "tracer \<Rightarrow> traced" where
  "pn_trace_after_globalvar_block tr = closes tr TRACE_GLOBALVAR_BLOCK"

section \<open>The symbol table\<close>

definition pn_trace_before_value_symtab_block :: "tracer \<Rightarrow> traced" where
  "pn_trace_before_value_symtab_block tr = opens tr TRACE_VALUE_SYMTAB_BLOCK (''valuesymtab {  // BlockID = 14'' @ newline) 2"

definition quote :: string where
  "quote = [CHR 0x22]"

definition pn_trace_value_symtab_entry :: "tracer \<Rightarrow> PNModule \<Rightarrow> PNValueId \<Rightarrow> string \<Rightarrow> traced" where
  "pn_trace_value_symtab_entry tr module value_id name =
     say tr TRACE_VALUE_SYMTAB_BLOCK [pn_value_describe module None value_id, lit ('' : '' @ quote @ name @ quote @ '';'' @ newline)]"

definition pn_trace_value_symtab_intrinsic :: "tracer \<Rightarrow> nat \<Rightarrow> string \<Rightarrow> traced" where
  "pn_trace_value_symtab_intrinsic tr intrinsic name =
     say tr TRACE_INTRINSICS [lit (''intrinsic '' @ quote @ name @ quote @ '' ('' @ show_nat intrinsic @ '')'' @ newline)]"

definition pn_trace_after_value_symtab_block :: "tracer \<Rightarrow> traced" where
  "pn_trace_after_value_symtab_block tr = closes tr TRACE_VALUE_SYMTAB_BLOCK"

section \<open>Constants\<close>

definition pn_trace_before_constants_block :: "tracer \<Rightarrow> traced" where
  "pn_trace_before_constants_block tr = opens tr TRACE_CONSTANTS_BLOCK (''constants {  // BlockID = 11'' @ newline) 4"

definition pn_trace_constants_settype :: "tracer \<Rightarrow> PNModule \<Rightarrow> PNTypeId \<Rightarrow> traced" where
  "pn_trace_constants_settype tr module type_id =
     rbind (say (shift tr TRACE_CONSTANTS_BLOCK (- 2)) TRACE_CONSTANTS_BLOCK
       [pn_type_describe module type_id, lit ('':'' @ newline)]) (\<lambda>(s, tr).
     Inr (s, shift tr TRACE_CONSTANTS_BLOCK 2))"

definition constant_line :: "tracer \<Rightarrow> PNModule \<Rightarrow> PNFunction \<Rightarrow> PNConstant \<Rightarrow> PNValueId \<Rightarrow> string \<Rightarrow> traced" where
  "constant_line tr module f c value_id text =
     say tr TRACE_CONSTANTS_BLOCK [pn_value_describe module (Some f) value_id, lit '' = '', pn_type_describe module (constant_type_id c),
       lit ('' '' @ text @ '';'' @ newline)]"

definition pn_trace_constants_value :: "tracer \<Rightarrow> PNModule \<Rightarrow> PNFunction \<Rightarrow> PNConstant \<Rightarrow> PNValueId \<Rightarrow> traced" where
  "pn_trace_constants_value tr module f c value_id = (case constant_code c of
       PN_CONSTANTS_CODE_UNDEF \<Rightarrow> constant_line tr module f c value_id ''undef''
     | PN_CONSTANTS_CODE_INTEGER \<Rightarrow>
         if constant_basic_type c \<in> {INT1, INT8, INT16, INT32, INT64}
         then constant_line tr module f c value_id (show_int (get_i (constant_basic_type c) (constant_value c)))
         else Inl (Fatal ''unreachable'')
     | PN_CONSTANTS_CODE_FLOAT \<Rightarrow>
         constant_line tr module f c value_id
           (show_g (fp_format_of (constant_basic_type c)) (get_f (constant_basic_type c) (constant_value c))))"

definition pn_trace_after_constants_block :: "tracer \<Rightarrow> traced" where
  "pn_trace_after_constants_block tr =
     rbind (closes tr TRACE_CONSTANTS_BLOCK) (\<lambda>(s, tr). Inr (s, shift tr TRACE_CONSTANTS_BLOCK (- 2)))"

section \<open>Functions and the module\<close>

definition pn_trace_before_function_block :: "tracer \<Rightarrow> PNModule \<Rightarrow> PNFunctionId \<Rightarrow> PNFunction \<Rightarrow> traced" where
  "pn_trace_before_function_block tr module function_id f =
     (if tr_flags tr TRACE_FUNCTION_BLOCK then pn_function_print_header tr module f function_id else Inr ([], tr))"

definition pn_trace_function_numblocks :: "tracer \<Rightarrow> u32 \<Rightarrow> traced" where
  "pn_trace_function_numblocks tr num_bbs = say tr TRACE_FUNCTION_BLOCK [lit (''blocks '' @ show_d32 num_bbs @ '';'' @ newline)]"

definition pn_trace_after_function_block :: "tracer \<Rightarrow> string option \<Rightarrow> PNModule \<Rightarrow> PNFunctionId \<Rightarrow> PNFunction \<Rightarrow>
    PNLivenessRange list \<Rightarrow> PNLoopInfo list \<Rightarrow> traced" where
  "pn_trace_after_function_block tr wanted module function_id f ranges infos =
     rbind (pn_function_trace tr wanted module f ranges infos function_id) (\<lambda>s.
     rbind (closes tr TRACE_FUNCTION_BLOCK) (\<lambda>(s', tr). Inr (s @ s', tr)))"

definition pn_trace_before_module_block :: "tracer \<Rightarrow> traced" where
  "pn_trace_before_module_block tr = opens tr TRACE_MODULE_BLOCK (''module {  // BlockID = 8'' @ newline) 2"

definition pn_trace_module_version :: "tracer \<Rightarrow> PNModule \<Rightarrow> traced" where
  "pn_trace_module_version tr module =
     say tr TRACE_MODULE_BLOCK [lit (''version '' @ show_d32 (module_version module) @ '';'' @ newline)]"

definition pn_trace_module_function :: "tracer \<Rightarrow> PNModule \<Rightarrow> PNFunction \<Rightarrow> PNValueId \<Rightarrow> traced" where
  "pn_trace_module_function tr module f value_id =
     say tr TRACE_MODULE_BLOCK [lit (if is_proto f then ''declare '' else ''define ''),
       lit (if function_linkage f \<noteq> 0 then ''internal '' else ''external ''),
       rbind (pn_value_describe module (Some f) value_id) (\<lambda>name. pn_type_describe_all module (function_type_id f) (Some name) False),
       lit ('';'' @ newline)]"

definition pn_trace_after_module_block :: "tracer \<Rightarrow> traced" where
  "pn_trace_after_module_block tr = closes tr TRACE_MODULE_BLOCK"

section \<open>Indentation\<close>

text \<open>
  What \<open>pn_globalvar_block_read\<close> calls for the records of its block, in any number and order: a variable (with the module
  as it is then), the number of initializers of a compound one, the initializers, and the count. The tracer is told of the
  end of a variable at the next one and at the end of the block.
\<close>

datatype globalvar_event =
    GlobalVar PNModule PNGlobalVar PNValueId
  | Compound u32
  | Zerofill u32
  | Data "u8 list"
  | Reloc PNModule PNValueId u32
  | Count u32

text \<open>The reader's \<open>global_var\<close>, if it has one, with its \<open>initializer_id\<close>.\<close>

type_synonym current_var = "(PNGlobalVar \<times> u32) option"

definition globalvar_ends :: "tracer \<Rightarrow> current_var \<Rightarrow> traced" where
  "globalvar_ends tr global_var = (case global_var of None \<Rightarrow> Inr ([], tr) | Some (var, _) \<Rightarrow> pn_trace_globalvar_after_var tr var)"

definition globalvar_initializer :: "current_var \<Rightarrow> traced \<Rightarrow> (string \<times> tracer \<times> current_var) res" where
  "globalvar_initializer global_var m = (case global_var of
       None \<Rightarrow> Inl (Check ''global_var'')
     | Some (var, initializer_id) \<Rightarrow>
         rbind (ensure (initializer_id < num_initializers var) (Check ''initializer_id < global_var->num_initializers'')) (\<lambda>_.
         rbind m (\<lambda>(s, tr). Inr (s, tr, Some (var, initializer_id + 1)))))"

fun globalvar_callback :: "tracer \<Rightarrow> current_var \<Rightarrow> globalvar_event \<Rightarrow> (string \<times> tracer \<times> current_var) res" where
  "globalvar_callback tr global_var (GlobalVar module var value_id) =
     rbind (globalvar_ends tr global_var) (\<lambda>(s1, tr).
     let var = var\<lparr>num_initializers := 1\<rparr> in
     rbind (pn_trace_globalvar_before_var tr module var value_id) (\<lambda>(s2, tr). Inr (s1 @ s2, tr, Some (var, 0))))"
| "globalvar_callback tr global_var (Compound n) = (case global_var of
       None \<Rightarrow> Inl (Check ''global_var'')
     | Some (var, initializer_id) \<Rightarrow> let var = var\<lparr>num_initializers := n\<rparr> in
         rbind (pn_trace_globalvar_compound tr var) (\<lambda>(s, tr). Inr (s, tr, Some (var, initializer_id))))"
| "globalvar_callback tr global_var (Zerofill num_bytes) = globalvar_initializer global_var (pn_trace_globalvar_zerofill tr num_bytes)"
| "globalvar_callback tr global_var (Data data) = globalvar_initializer global_var (pn_trace_globalvar_data tr data)"
| "globalvar_callback tr global_var (Reloc module index addend) =
     globalvar_initializer global_var (pn_trace_globalvar_reloc tr module index addend)"
| "globalvar_callback tr global_var (Count n) = rbind (pn_trace_globalvar_count tr n) (\<lambda>(s, tr). Inr (s, tr, global_var))"

fun trace_globalvar_records :: "tracer \<Rightarrow> current_var \<Rightarrow> globalvar_event list \<Rightarrow> traced" where
  "trace_globalvar_records tr global_var [] =
     rbind (globalvar_ends tr global_var) (\<lambda>(s1, tr).
     rbind (pn_trace_after_globalvar_block tr) (\<lambda>(s2, tr). Inr (s1 @ s2, tr)))"
| "trace_globalvar_records tr global_var (e # es) =
     rbind (globalvar_callback tr global_var e) (\<lambda>(s1, tr, global_var).
     rbind (trace_globalvar_records tr global_var es) (\<lambda>(s2, tr). Inr (s1 @ s2, tr)))"

definition trace_globalvar_block :: "tracer \<Rightarrow> globalvar_event list \<Rightarrow> traced" where
  "trace_globalvar_block tr es =
     rbind (pn_trace_before_globalvar_block tr) (\<lambda>(s1, tr).
     rbind (trace_globalvar_records tr None es) (\<lambda>(s2, tr). Inr (s1 @ s2, tr)))"

text \<open>The sizes of the compound initializers: those in front of the next variable, and those of each variable.\<close>

fun compound_sizes :: "globalvar_event list \<Rightarrow> u32 list \<times> u32 list list" where
  "compound_sizes [] = ([], [])"
| "compound_sizes (GlobalVar m var value_id # es) = ([], fst (compound_sizes es) # snd (compound_sizes es))"
| "compound_sizes (Compound n # es) = (n # fst (compound_sizes es), snd (compound_sizes es))"
| "compound_sizes (e # es) = compound_sizes es"

text \<open>The brackets of a variable that are left open: each compound opens one, and one is closed if the last has two elements.\<close>

definition unclosed :: "u32 list \<Rightarrow> nat" where
  "unclosed ns = (if ns \<noteq> [] \<and> last ns > 1 then length ns - 1 else length ns)"

lemma say_tracer: "say tr flag pieces = Inr (s, tr') \<Longrightarrow> tr' = tr"
  by (auto simp: say_def res_simps)

lemma opens_tracer: "opens tr flag text c = Inr (s, tr') \<Longrightarrow> tr' = shift tr flag c"
  by (auto simp: opens_def res_simps dest: say_tracer)

lemma shift_0 [simp]: "shift tr flag 0 = tr"
  by (simp add: shift_def indented_def)

lemma shift_shift [simp]: "shift (shift tr flag a) flag b = shift tr flag (a + b)"
  by (simp add: shift_def indented_def algebra_simps)

lemma before_var_tracer:
  "pn_trace_globalvar_before_var tr module var value_id = Inr (s, tr') \<Longrightarrow> tr' = shift tr TRACE_GLOBALVAR_BLOCK 2"
  by (auto simp: pn_trace_globalvar_before_var_def res_simps dest: say_tracer)

lemma after_var_tracer:
  "pn_trace_globalvar_after_var tr var = Inr (s, tr') \<Longrightarrow>
     tr' = shift tr TRACE_GLOBALVAR_BLOCK (if num_initializers var > 1 then - 4 else - 2)"
  by (auto simp: pn_trace_globalvar_after_var_def Let_def res_simps dest: say_tracer split: if_splits)

lemma globalvar_ends_tracer:
  "globalvar_ends tr global_var = Inr (s, tr') \<Longrightarrow> tr' = shift tr TRACE_GLOBALVAR_BLOCK
     (case global_var of None \<Rightarrow> 0 | Some (var, _) \<Rightarrow> if num_initializers var > 1 then - 4 else - 2)"
  by (auto simp: globalvar_ends_def dest: after_var_tracer split: option.splits)

lemma globalvar_callback_tracer:
  assumes "globalvar_callback tr global_var e = Inr (s, tr', global_var')"
  shows "case e of
      GlobalVar m var value_id \<Rightarrow> global_var' = Some (var\<lparr>num_initializers := 1\<rparr>, 0) \<and> tr' = shift tr TRACE_GLOBALVAR_BLOCK
        (2 + (case global_var of None \<Rightarrow> 0 | Some (v, _) \<Rightarrow> if num_initializers v > 1 then - 4 else - 2))
    | Compound n \<Rightarrow> (\<exists>v k. global_var = Some (v, k) \<and> global_var' = Some (v\<lparr>num_initializers := n\<rparr>, k)) \<and> tr' = shift tr TRACE_GLOBALVAR_BLOCK 2
    | _ \<Rightarrow> map_option fst global_var' = map_option fst global_var \<and> tr' = tr"
  using assms
  by (cases e) (auto simp: globalvar_initializer_def res_simps Let_def pn_trace_globalvar_compound_def pn_trace_globalvar_zerofill_def
      pn_trace_globalvar_data_def pn_trace_globalvar_reloc_def pn_trace_globalvar_count_def
      dest!: say_tracer opens_tracer before_var_tracer globalvar_ends_tracer split: option.splits if_splits)

text \<open>What is left of the indentation when the current variable has a last size \<open>k\<close>.\<close>

definition left_open :: "current_var \<Rightarrow> u32 list \<Rightarrow> int" where
  "left_open global_var ns = (case global_var of None \<Rightarrow> 0
     | Some (var, _) \<Rightarrow> 2 * int (length ns) - (if last (num_initializers var # ns) > 1 then 4 else 2))"

lemma trace_globalvar_records_tracer:
  assumes "trace_globalvar_records tr global_var es = Inr (s, tr')"
  shows "(global_var = None \<longrightarrow> fst (compound_sizes es) = []) \<and> tr' = shift tr TRACE_GLOBALVAR_BLOCK
    (left_open global_var (fst (compound_sizes es)) + 2 * int (sum_list (map unclosed (snd (compound_sizes es)))) - 2)"
  using assms
proof (induction es arbitrary: tr global_var s)
  case Nil
  then show ?case
    by (auto simp: res_simps pn_trace_after_globalvar_block_def closes_def left_open_def dest!: say_tracer globalvar_ends_tracer split: option.split)
next
  case (Cons e es)
  then obtain s1 tr1 v1 s2 where e: "globalvar_callback tr global_var e = Inr (s1, tr1, v1)" "trace_globalvar_records tr1 v1 es = Inr (s2, tr')"
    by (auto simp: res_simps)
  note IH = Cons.IH[OF e(2)] and cb = globalvar_callback_tracer[OF e(1)]
  show ?case
    using IH cb by (cases e; cases global_var; cases v1) (auto simp: left_open_def unclosed_def algebra_simps of_nat_diff Suc_leI split: option.splits)
qed

lemma unclosed_0: "unclosed ns = 0 \<longleftrightarrow> ns = [] \<or> (\<exists>n > 1. ns = [n])"
  by (cases ns rule: rev_cases) (auto simp: unclosed_def)

text \<open>
  C36: The indentation of the block of global variables, whatever its records and their order. When the block has been
  traced, the indentation is the one from before it, plus two columns for every bracket that was left open: each \<open>COMPOUND\<close>
  record opens one, and at the end of a variable one is closed if the last \<open>COMPOUND\<close> of the variable has two elements or more.
  So the indentation is restored if and only if every variable has no compound initializer or exactly one of at least two elements
  (or the block is not traced).
\<close>

theorem pn_trace_globalvar_indentation:
  assumes "trace_globalvar_block tr es = Inr (s, tr')"
  shows "tr' = shift tr TRACE_GLOBALVAR_BLOCK (2 * int (sum_list (map unclosed (snd (compound_sizes es))))) \<and>
    (tr' = tr \<longleftrightarrow> \<not> tr_flags tr TRACE_GLOBALVAR_BLOCK \<or> (\<forall>ns\<in>set (snd (compound_sizes es)). ns = [] \<or> (\<exists>n > 1. ns = [n])))"
proof -
  obtain s1 s2 tr1 where t: "pn_trace_before_globalvar_block tr = Inr (s1, tr1)" "trace_globalvar_records tr1 None es = Inr (s2, tr')"
    using assms by (auto simp: trace_globalvar_block_def res_simps)
  have "tr1 = shift tr TRACE_GLOBALVAR_BLOCK 2" using t(1) by (auto simp: pn_trace_before_globalvar_block_def dest: opens_tracer)
  with trace_globalvar_records_tracer[OF t(2)]
  have tr': "tr' = shift tr TRACE_GLOBALVAR_BLOCK (2 * int (sum_list (map unclosed (snd (compound_sizes es)))))"
    by (simp add: left_open_def algebra_simps)
  have "shift tr TRACE_GLOBALVAR_BLOCK c = tr \<longleftrightarrow> \<not> tr_flags tr TRACE_GLOBALVAR_BLOCK \<or> c = 0" for c
    by (cases tr) (simp add: shift_def indented_def)
  then show ?thesis unfolding tr' by (auto simp: unclosed_0)
qed

definition globals_tracer :: tracer where
  "globals_tracer = execute_tracer\<lparr>tr_flags := (\<lambda>flag. flag = TRACE_GLOBALVAR_BLOCK)\<rparr>"

definition byte_var :: PNGlobalVar where
  "byte_var = \<lparr>num_initializers = 0, globalvar_alignment = 1, globalvar_offset = 0, is_constant = False\<rparr>"

definition one_element_block :: "globalvar_event list" where
  "one_element_block = [Count 1, GlobalVar named_module byte_var 1, Compound 1, Zerofill 1]"

theorem pn_trace_globalvar_indentation_witness:
  "\<exists>s tr'. trace_globalvar_block globals_tracer one_element_block = Inr (s, tr') \<and> tr_indent tr' = 2"
proof -
  have name: "pn_value_describe named_module None (Suc 0) = Inr ''@g0''"
    by (simp add: named_module_def pn_value_describe_def pn_value_print_to_string_def described_code_def describe_base_def
        show_d32_def show_int_def show_nat_0_1 in_buffer_def example_value_defs)
  obtain s tr' where run: "trace_globalvar_block globals_tracer one_element_block = Inr (s, tr')"
    using name by (simp add: trace_globalvar_block_def one_element_block_def pn_trace_before_globalvar_block_def globalvar_ends_def
        pn_trace_globalvar_before_var_def say_def trace_line_def Let_def globalvar_initializer_def pn_trace_globalvar_count_def closes_def
        pn_trace_globalvar_compound_def opens_def pn_trace_globalvar_zerofill_def pn_trace_globalvar_after_var_def
        pn_trace_after_globalvar_block_def shift_def indented_def globals_tracer_def execute_tracer_def)
  have "tr_indent tr' = 2"
    using pn_trace_globalvar_indentation[OF run]
    by (simp add: shift_def indented_def globals_tracer_def execute_tracer_def one_element_block_def unclosed_def)
  with run show ?thesis by blast
qed

end
