(* ===== verification/Pn_Ppapi.thy ===== *)
theory Pn_Ppapi
  imports Pn_Threads
begin

text \<open>
  What a build with \<open>PN_PPAPI\<close> adds, \<^verbatim>\<open>src/pn_ppapi.h\<close>: the interface tables, the \<open>PPB\<close> builtins, and the queue of events,
  a doubly linked ring with a sentinel and a free list. An event is an index into the events that have
  been allocated; index 0 is the sentinel, a member of \<open>PNPpapi\<close>. The fields a \<open>PN_PPAPI\<close> build adds to \<open>PNMemory\<close> are
  part of the record here. Such a build has nine more builtins.
\<close>

unbundle bit_operations_syntax

section \<open>State\<close>

datatype PNEventType = PN_EVENT_TYPE_NONE | PN_EVENT_TYPE_GET_INTERFACE | PN_EVENT_TYPE_DID_CREATE | PN_EVENT_TYPE_DID_CHANGE_VIEW

record PNEvent =
  event_next :: "nat option"
  event_prev :: "nat option"
  event_type :: PNEventType
  event_interface :: nat

record PNPpapi =
  events :: "PNEvent list"
  current_event :: "nat option"
  free_events :: "nat option"
  shutdown_func :: u32
  get_interface_func :: u32
  ppapi_ppb_interfaces :: "u32 list"
  ppapi_ppp_interface_names :: "u32 list"
  ppapi_ppp_interfaces :: "u32 list"

abbreviation (input) PN_INVALID_INTERFACE_TABLE :: u32 where "PN_INVALID_INTERFACE_TABLE \<equiv> 0xFFFFFFFF"
abbreviation (input) PN_PPP_INTERFACE_INSTANCE_1_0 :: nat where "PN_PPP_INTERFACE_INSTANCE_1_0 \<equiv> 0"
abbreviation (input) PN_PPP_INTERFACE_INSTANCE_1_1 :: nat where "PN_PPP_INTERFACE_INSTANCE_1_1 \<equiv> 1"
abbreviation (input) PN_INSTANCE_ID :: u32 where "PN_INSTANCE_ID \<equiv> 0xc0de5"
abbreviation (input) PN_MODULE_ID :: u32 where "PN_MODULE_ID \<equiv> 0xcabba6e"
abbreviation (input) PN_BUILTIN_PPB_GET_INTERFACE :: u32 where "PN_BUILTIN_PPB_GET_INTERFACE \<equiv> 50"
abbreviation (input) PPAPI_MAX_BUILTINS :: u32 where "PPAPI_MAX_BUILTINS \<equiv> 57"

definition pn_foreach_ppp_interfaces :: "string list" where
  "pn_foreach_ppp_interfaces = [''PPP_Instance;1.0'', ''PPP_Instance;1.1'', ''PPP_Messaging;1.0'', ''PPP_Inputevent;0.1'']"

definition pn_foreach_ppb_interfaces :: "string list" where
  "pn_foreach_ppb_interfaces = [''PPB_Core;1.0'']"

text \<open>A new event, the contents of which are indeterminate, and what \<open>pn_executor_init\<close> sets.\<close>

definition new_event :: PNEvent where
  "new_event = \<lparr>event_next = None, event_prev = None, event_type = PN_EVENT_TYPE_NONE, event_interface = 0\<rparr>"

definition ppapi_init :: PNPpapi where
  "ppapi_init = \<lparr>events = [new_event\<lparr>event_next := Some 0, event_prev := Some 0\<rparr>], current_event = None, free_events = None,
     shutdown_func = 0, get_interface_func = 0, ppapi_ppb_interfaces = [0], ppapi_ppp_interface_names = [0, 0, 0, 0],
     ppapi_ppp_interfaces = replicate 4 PN_INVALID_INTERFACE_TABLE\<rparr>"

section \<open>The tables in memory\<close>

fun write_words :: "PNMemory \<Rightarrow> u32 \<Rightarrow> u32 list \<Rightarrow> (PNMemory \<times> u32) res" where
  "write_words m offset [] = Inr (m, offset)"
| "write_words m offset (w # ws) =
     rbind (pn_memory_write_u32 m offset w) (\<lambda>m. write_words m (offset + 4) ws)"

fun write_names :: "PNMemory \<Rightarrow> u32 \<Rightarrow> string list \<Rightarrow> (PNMemory \<times> u32 \<times> u32 list) res" where
  "write_names m offset [] = Inr (m, offset, [])"
| "write_names m offset (s # ss) =
     rbind (pn_memory_write_cstr m offset (c_string s)) (\<lambda>m.
     rbind (write_names m (offset + of_nat (length s + 1)) ss) (\<lambda>(m, last, ps). Inr (m, last, offset # ps)))"

definition pn_memory_init_ppapi :: "PNMemory \<Rightarrow> PNPpapi \<Rightarrow> (PNMemory \<times> PNPpapi) res" where
  "pn_memory_init_ppapi m pp =
     rbind (pn_align_up (ucast (ppapi_start m)) 4) (\<lambda>al.
     let offset = ucast al; pp = pp\<lparr>ppapi_ppb_interfaces := [offset]\<rparr> in
     rbind (write_words m offset (map pn_builtin_to_pointer [51, 52, 53, 54, 55, 56])) (\<lambda>(m, offset).
     rbind (write_names m offset pn_foreach_ppp_interfaces) (\<lambda>(m, offset, ps).
     rbind (pn_align_up (ucast offset) 4096) (\<lambda>heap.
     Inr (m\<lparr>ppapi_end := offset, heap_start := ucast heap, stack_end := mem_size m\<rparr>, pp\<lparr>ppapi_ppp_interface_names := ps\<rparr>)))))"

section \<open>Builtins\<close>

fun interface_at :: "cstr \<Rightarrow> string list \<Rightarrow> u32 list \<Rightarrow> u32" where
  "interface_at name (s # ss) (p # ps) = (if name = c_string s then p else interface_at name ss ps)"
| "interface_at name _ _ = 0"

definition pn_builtin_PPB_GET_INTERFACE :: "PNPpapi \<Rightarrow> builtin_body" where
  "pn_builtin_PPB_GET_INTERFACE pp ex t n args =
     rbind (get_thread ex t) (\<lambda>th.
     rbind (check_num_args n 1) (\<lambda>_.
     rbind (arg ex th args 0) (\<lambda>name_p.
     rbind (pn_memory_check (ex_memory ex) (ucast name_p) 1) (\<lambda>_.
     rbind (read_cstr (ex_memory ex) (ucast name_p)) (\<lambda>iface_name.
     rbind (ensure (length iface_name > 0) (Check ''name_len > 0'')) (\<lambda>_.
     Inr (ucast (interface_at iface_name pn_foreach_ppb_interfaces (ppapi_ppb_interfaces pp)), ex)))))))"

text \<open>The functions of \<open>PPB_Core\<close> read their arguments and do nothing.\<close>

fun read_params :: "PNExecutor \<Rightarrow> PNThread \<Rightarrow> PNValueId list \<Rightarrow> nat \<Rightarrow> unit res" where
  "read_params ex th args 0 = Inr ()"
| "read_params ex th args (Suc k) = rbind (read_params ex th args k) (\<lambda>_. rbind (arg ex th args k) (\<lambda>_. Inr ()))"

definition ppb_core_stub :: "u8 \<Rightarrow> builtin_body" where
  "ppb_core_stub k ex t n args =
     rbind (get_thread ex t) (\<lambda>th.
     rbind (check_num_args n k) (\<lambda>_.
     rbind (read_params ex th args (unat k)) (\<lambda>_. Inr (0, ex))))"

definition pn_builtin_PPB_CORE_ADD_REF_RESOURCE :: builtin_body where
  "pn_builtin_PPB_CORE_ADD_REF_RESOURCE = ppb_core_stub 1"

definition pn_builtin_PPB_CORE_RELEASE_RESOURCE :: builtin_body where
  "pn_builtin_PPB_CORE_RELEASE_RESOURCE = ppb_core_stub 1"

definition pn_builtin_PPB_CORE_GET_TIME :: builtin_body where
  "pn_builtin_PPB_CORE_GET_TIME = ppb_core_stub 0"

definition pn_builtin_PPB_CORE_GET_TIME_TICKS :: builtin_body where
  "pn_builtin_PPB_CORE_GET_TIME_TICKS = ppb_core_stub 0"

definition pn_builtin_PPB_CORE_CALL_ON_MAIN_THREAD :: builtin_body where
  "pn_builtin_PPB_CORE_CALL_ON_MAIN_THREAD = ppb_core_stub 3"

definition pn_builtin_PPB_CORE_IS_MAIN_THREAD :: builtin_body where
  "pn_builtin_PPB_CORE_IS_MAIN_THREAD = ppb_core_stub 0"

section \<open>Events\<close>

definition get_event :: "PNPpapi \<Rightarrow> nat option \<Rightarrow> PNEvent res" where
  "get_event pp p = (case p of None \<Rightarrow> Inl (Undefined ''null pointer'') | Some e \<Rightarrow> nth_res (events pp) e)"

definition put_event :: "PNPpapi \<Rightarrow> nat \<Rightarrow> PNEvent \<Rightarrow> PNPpapi" where
  "put_event pp e ev = pp\<lparr>events := (events pp)[e := ev]\<rparr>"

definition set_next :: "PNPpapi \<Rightarrow> nat option \<Rightarrow> nat option \<Rightarrow> PNPpapi res" where
  "set_next pp p q = rbind (get_event pp p) (\<lambda>ev. Inr (put_event pp (the p) (ev\<lparr>event_next := q\<rparr>)))"

definition set_prev :: "PNPpapi \<Rightarrow> nat option \<Rightarrow> nat option \<Rightarrow> PNPpapi res" where
  "set_prev pp p q = rbind (get_event pp p) (\<lambda>ev. Inr (put_event pp (the p) (ev\<lparr>event_prev := q\<rparr>)))"

definition pn_event_allocate :: "PNPpapi \<Rightarrow> (nat \<times> PNPpapi) res" where
  "pn_event_allocate pp = (case free_events pp of
       Some e \<Rightarrow> rbind (get_event pp (Some e)) (\<lambda>ev. Inr (e, pp\<lparr>free_events := event_next ev\<rparr>))
     | None \<Rightarrow> Inr (length (events pp), pp\<lparr>events := events pp @ [new_event]\<rparr>))"

definition pn_event_enqueue :: "PNPpapi \<Rightarrow> nat \<Rightarrow> PNPpapi res" where
  "pn_event_enqueue pp e =
     rbind (set_next pp (Some e) (Some 0)) (\<lambda>pp.
     rbind (get_event pp (Some 0)) (\<lambda>sentinel.
     rbind (set_prev pp (Some e) (event_prev sentinel)) (\<lambda>pp.
     rbind (get_event pp (Some 0)) (\<lambda>sentinel.
     rbind (set_next pp (event_prev sentinel) (Some e)) (\<lambda>pp.
     set_prev pp (Some 0) (Some e))))))"

definition pn_event_dequeue :: "PNPpapi \<Rightarrow> (nat option \<times> PNPpapi) res" where
  "pn_event_dequeue pp =
     rbind (get_event pp (Some 0)) (\<lambda>sentinel.
     if event_next sentinel = Some 0 then Inr (None, pp)
     else let result = event_next sentinel in
       rbind (get_event pp result) (\<lambda>ev.
       rbind (set_next pp (event_prev ev) (event_next ev)) (\<lambda>pp.
       rbind (get_event pp result) (\<lambda>ev.
       rbind (set_prev pp (event_next ev) (event_prev ev)) (\<lambda>pp.
       rbind (set_prev pp result None) (\<lambda>pp.
       rbind (set_next pp result None) (\<lambda>pp. Inr (result, pp))))))))"

definition pn_event_free :: "PNPpapi \<Rightarrow> nat \<Rightarrow> PNPpapi res" where
  "pn_event_free pp e =
     rbind (set_next pp (Some e) (free_events pp)) (\<lambda>pp. Inr (pp\<lparr>free_events := Some e\<rparr>))"

text \<open>A query is only sent when the table is not known; it is sent again each time until it is answered.\<close>

definition pn_ppapi_get_interface :: "PNPpapi \<Rightarrow> nat \<Rightarrow> (u32 \<times> PNPpapi) res" where
  "pn_ppapi_get_interface pp iface =
     rbind (nth_res (ppapi_ppp_interfaces pp) iface) (\<lambda>result.
     if result = PN_INVALID_INTERFACE_TABLE
     then rbind (pn_event_allocate pp) (\<lambda>(e, pp).
       rbind (get_event pp (Some e)) (\<lambda>ev.
       let pp = put_event pp e (ev\<lparr>event_type := PN_EVENT_TYPE_GET_INTERFACE, event_interface := iface\<rparr>) in
       rbind (pn_event_enqueue pp e) (\<lambda>pp. Inr (result, pp))))
     else Inr (result, pp))"

text \<open>\<open>pn_thread_push_function_pointer\<close> with the number of builtins of this build.\<close>

definition ppapi_push_function_pointer :: "PNExecutor \<Rightarrow> PNThread \<Rightarrow> u32 \<Rightarrow> (PNThread \<times> PNFunction) res" where
  "ppapi_push_function_pointer ex th func =
     (let function_id = unat (pn_function_pointer_to_index func - PPAPI_MAX_BUILTINS) in
      rbind (pn_function_id_check (ex_module ex) function_id) (\<lambda>_.
      rbind (nth_res (module_functions (ex_module ex)) function_id) (\<lambda>f.
      rbind (pn_thread_push_function ex th function_id f) (\<lambda>th. Inr (th, f)))))"

fun set_params :: "PNThread \<Rightarrow> nat \<Rightarrow> u32 list \<Rightarrow> PNThread res" where
  "set_params th i [] = Inr th"
| "set_params th i (v # vs) = rbind (pn_thread_set_param_value th i (ucast v)) (\<lambda>th. set_params th (Suc i) vs)"

definition start_event :: "PNExecutor \<Rightarrow> nat \<Rightarrow> PNThread \<Rightarrow> u32 list \<Rightarrow> PNExecutor res" where
  "start_event ex t th params =
     rbind (set_params th 0 params) (\<lambda>th. Inr (put_thread ex t (th\<lparr>thread_state := PN_THREAD_RUNNING\<rparr>)))"

definition handle_get_interface :: "PNExecutor \<Rightarrow> nat \<Rightarrow> PNPpapi \<Rightarrow> nat \<Rightarrow> PNEvent \<Rightarrow> (PNExecutor \<times> PNPpapi) res" where
  "handle_get_interface ex t pp e ev =
     rbind (get_thread ex t) (\<lambda>th.
     rbind (ppapi_push_function_pointer ex th (get_interface_func pp)) (\<lambda>(th, f).
     rbind (nth_res (ppapi_ppp_interface_names pp) (event_interface ev)) (\<lambda>iface_name.
     rbind (start_event ex t th [iface_name]) (\<lambda>ex. Inr (ex, pp\<lparr>current_event := Some e\<rparr>)))))"

definition run_did_create :: "PNExecutor \<Rightarrow> nat \<Rightarrow> PNPpapi \<Rightarrow> nat \<Rightarrow> u32 \<Rightarrow> (PNExecutor \<times> PNPpapi) res" where
  "run_did_create ex t pp e instance_iface =
     rbind (pn_memory_read_u32 (ex_memory ex) instance_iface) (\<lambda>did_create_func.
     rbind (get_thread ex t) (\<lambda>th.
     rbind (ppapi_push_function_pointer ex th did_create_func) (\<lambda>(th, f).
     rbind (ensure (num_args f = 4) (Check ''new_function->num_args == 4'')) (\<lambda>_.
     rbind (start_event ex t th [PN_INSTANCE_ID, 0, 0, 0]) (\<lambda>ex. Inr (ex, pp\<lparr>current_event := Some e\<rparr>))))))"

definition handle_did_create :: "PNExecutor \<Rightarrow> nat \<Rightarrow> PNPpapi \<Rightarrow> nat \<Rightarrow> (PNExecutor \<times> PNPpapi) res" where
  "handle_did_create ex t pp e =
     rbind (pn_ppapi_get_interface pp PN_PPP_INTERFACE_INSTANCE_1_1) (\<lambda>(iface, pp).
     if iface = PN_INVALID_INTERFACE_TABLE then rbind (pn_event_enqueue pp e) (\<lambda>pp. Inr (ex, pp))
     else if iface = 0
     then rbind (pn_ppapi_get_interface pp PN_PPP_INTERFACE_INSTANCE_1_0) (\<lambda>(iface, pp).
       if iface = PN_INVALID_INTERFACE_TABLE then rbind (pn_event_enqueue pp e) (\<lambda>pp. Inr (ex, pp))
       else if iface = 0 then Inl (Fatal ''no version of PPP_INSTANCE found.'')
       else run_did_create ex t pp e iface)
     else run_did_create ex t pp e iface)"

definition pn_event_handle_next :: "PNExecutor \<Rightarrow> nat \<Rightarrow> PNPpapi \<Rightarrow> (PNExecutor \<times> PNPpapi) res" where
  "pn_event_handle_next ex t pp =
     rbind (pn_event_dequeue pp) (\<lambda>(event, pp).
     let pp = pp\<lparr>current_event := None\<rparr> in
     case event of None \<Rightarrow> Inr (ex, pp)
     | Some e \<Rightarrow>
         rbind (get_event pp (Some e)) (\<lambda>ev.
         case event_type ev of
           PN_EVENT_TYPE_GET_INTERFACE \<Rightarrow> handle_get_interface ex t pp e ev
         | PN_EVENT_TYPE_DID_CREATE \<Rightarrow> handle_did_create ex t pp e
         | PN_EVENT_TYPE_DID_CHANGE_VIEW \<Rightarrow> Inr (ex, pp)
         | PN_EVENT_TYPE_NONE \<Rightarrow> Inl (Fatal ''unknown event'')))"

definition pn_event_finish :: "PNPpapi \<Rightarrow> PNRuntimeValue \<Rightarrow> PNPpapi res" where
  "pn_event_finish pp exit_value = (case current_event pp of
       None \<Rightarrow> Inr pp
     | Some e \<Rightarrow>
         rbind (get_event pp (Some e)) (\<lambda>ev.
         rbind (if event_type ev = PN_EVENT_TYPE_GET_INTERFACE
                then rbind (upd_res (ppapi_ppp_interfaces pp) (event_interface ev) (ucast exit_value)) (\<lambda>ifs.
                  Inr (pp\<lparr>ppapi_ppp_interfaces := ifs\<rparr>))
                else Inr pp) (\<lambda>pp. pn_event_free pp e)))"

section \<open>The queue\<close>

text \<open>Doubly linked lists by their two link functions.\<close>

fun links :: "(nat \<Rightarrow> nat option) \<Rightarrow> (nat \<Rightarrow> nat option) \<Rightarrow> nat \<Rightarrow> nat list \<Rightarrow> nat \<Rightarrow> bool" where
  "links nx pv x [] y \<longleftrightarrow> nx x = Some y \<and> pv y = Some x"
| "links nx pv x (z # zs) y \<longleftrightarrow> nx x = Some z \<and> pv z = Some x \<and> links nx pv z zs y"

lemma links_append: "links nx pv x (xs @ z # ys) y \<longleftrightarrow> links nx pv x xs z \<and> links nx pv z ys y"
  by (induction xs arbitrary: x) auto

lemma links_frame:
  "links nx pv x xs y \<Longrightarrow> (\<And>z. z \<in> insert x (set xs) \<Longrightarrow> nx' z = nx z) \<Longrightarrow> (\<And>z. z \<in> insert y (set xs) \<Longrightarrow> pv' z = pv z) \<Longrightarrow>
     links nx' pv' x xs y"
  by (induction xs arbitrary: x) auto

definition next_event :: "PNPpapi \<Rightarrow> nat \<Rightarrow> nat option" where
  "next_event pp i = event_next (events pp ! i)"

definition prev_event :: "PNPpapi \<Rightarrow> nat \<Rightarrow> nat option" where
  "prev_event pp i = event_prev (events pp ! i)"

definition queue :: "PNPpapi \<Rightarrow> nat list \<Rightarrow> bool" where
  "queue pp es \<longleftrightarrow> distinct (0 # es) \<and> set (0 # es) \<subseteq> {..< length (events pp)} \<and> links (next_event pp) (prev_event pp) 0 es 0"

text \<open>What a change of links keeps: the kinds of the events and everything that is not a link.\<close>

definition same_events :: "PNPpapi \<Rightarrow> PNPpapi \<Rightarrow> bool" where
  "same_events pp pp' \<longleftrightarrow> map event_type (events pp') = map event_type (events pp) \<and>
     map event_interface (events pp') = map event_interface (events pp) \<and> pp'\<lparr>events := []\<rparr> = pp\<lparr>events := []\<rparr>"

lemma same_events_refl [simp]: "same_events pp pp"
  by (simp add: same_events_def)

lemma same_events_trans: "same_events pp pp' \<Longrightarrow> same_events pp' pp'' \<Longrightarrow> same_events pp pp''"
  by (simp add: same_events_def)

lemma same_events_length: "same_events pp pp' \<Longrightarrow> length (events pp') = length (events pp)"
  unfolding same_events_def by (metis length_map)

lemma get_event_in: "i < length (events pp) \<Longrightarrow> get_event pp (Some i) = Inr (events pp ! i)"
  by (simp add: get_event_def nth_res_def)

lemma set_next_links:
  assumes "i < length (events pp)"
  obtains pp' where "set_next pp (Some i) q = Inr pp'" "next_event pp' = (next_event pp)(i := q)" "prev_event pp' = prev_event pp"
    "same_events pp pp'"
proof -
  define pp' where "pp' = put_event pp i ((events pp ! i)\<lparr>event_next := q\<rparr>)"
  have "set_next pp (Some i) q = Inr pp'" using assms by (simp add: set_next_def get_event_in pp'_def)
  moreover have "next_event pp' = (next_event pp)(i := q)" "prev_event pp' = prev_event pp"
    using assms by (auto simp: pp'_def put_event_def next_event_def prev_event_def fun_eq_iff nth_list_update)
  moreover have "same_events pp pp'"
    using assms by (auto simp: same_events_def pp'_def put_event_def map_update list_update_same_conv)
  ultimately show ?thesis using that by blast
qed

lemma set_prev_links:
  assumes "i < length (events pp)"
  obtains pp' where "set_prev pp (Some i) q = Inr pp'" "next_event pp' = next_event pp" "prev_event pp' = (prev_event pp)(i := q)"
    "same_events pp pp'"
proof -
  define pp' where "pp' = put_event pp i ((events pp ! i)\<lparr>event_prev := q\<rparr>)"
  have "set_prev pp (Some i) q = Inr pp'" using assms by (simp add: set_prev_def get_event_in pp'_def)
  moreover have "next_event pp' = next_event pp" "prev_event pp' = (prev_event pp)(i := q)"
    using assms by (auto simp: pp'_def put_event_def next_event_def prev_event_def fun_eq_iff nth_list_update)
  moreover have "same_events pp pp'"
    using assms by (auto simp: same_events_def pp'_def put_event_def map_update list_update_same_conv)
  ultimately show ?thesis using that by blast
qed

text \<open>The links of the events outside a set, which those of the free list are.\<close>

definition next_kept :: "nat set \<Rightarrow> PNPpapi \<Rightarrow> PNPpapi \<Rightarrow> bool" where
  "next_kept S pp pp' \<longleftrightarrow> (\<forall>i. i \<notin> S \<longrightarrow> next_event pp' i = next_event pp i)"

lemma enqueue_fifo:
  assumes "queue pp es" "e \<notin> set (0 # es)" "e < length (events pp)"
  shows "\<exists>pp'. pn_event_enqueue pp e = Inr pp' \<and> queue pp' (es @ [e]) \<and> same_events pp pp' \<and> next_kept (set (0 # es @ [e])) pp pp'"
proof -
  note q = assms(1)[unfolded queue_def]
  obtain l where l: "prev_event pp 0 = Some l" "l = last (0 # es)" "l \<in> set (0 # es)"
    using q by (cases es rule: rev_cases) (auto simp: links_append)
  have len: "0 < length (events pp)" "l < length (events pp)" using q l by auto
  obtain p1 where p1: "set_next pp (Some e) (Some 0) = Inr p1" "next_event p1 = (next_event pp)(e := Some 0)"
    "prev_event p1 = prev_event pp" "same_events pp p1" using set_next_links[OF assms(3)] by metis
  obtain p2 where p2: "set_prev p1 (Some e) (Some l) = Inr p2" "next_event p2 = next_event p1"
    "prev_event p2 = (prev_event p1)(e := Some l)" "same_events p1 p2" using set_prev_links assms(3) same_events_length[OF p1(4)] by metis
  obtain p3 where p3: "set_next p2 (Some l) (Some e) = Inr p3" "next_event p3 = (next_event p2)(l := Some e)"
    "prev_event p3 = prev_event p2" "same_events p2 p3"
    using set_next_links len(2) same_events_length[OF p1(4)] same_events_length[OF p2(4)] by metis
  obtain p4 where p4: "set_prev p3 (Some 0) (Some e) = Inr p4" "next_event p4 = next_event p3"
    "prev_event p4 = (prev_event p3)(0 := Some e)" "same_events p3 p4"
    using set_prev_links len(1) same_events_length[OF p1(4)] same_events_length[OF p2(4)] same_events_length[OF p3(4)] by metis
  have "0 < length (events p1)" "0 < length (events p2)" using len same_events_length p1(4) p2(4) by metis+
  moreover have "event_prev (events p1 ! 0) = Some l" "event_prev (events p2 ! 0) = Some l"
    using l p1(3) p2(3) assms(2) by (auto simp: prev_event_def fun_eq_iff)
  ultimately have run: "pn_event_enqueue pp e = Inr p4"
    by (simp add: pn_event_enqueue_def p1(1) p2(1) p3(1) p4(1) get_event_in)
  have same: "same_events pp p4" using p1(4) p2(4) p3(4) p4(4) same_events_trans by blast
  have "links (next_event p4) (prev_event p4) 0 (es @ [e]) 0"
  proof (cases es rule: rev_cases)
    case Nil
    then show ?thesis using assms(2) l by (auto simp: p1 p2 p3 p4)
  next
    case (snoc vs k)
    then have "links (next_event pp) (prev_event pp) 0 vs l" using q l by (simp add: links_append)
    then have "links (next_event p4) (prev_event p4) 0 vs l"
      by (rule links_frame) (use q l snoc assms(2) in \<open>auto simp: p1 p2 p3 p4 intro!: gr0I\<close>)
    then show ?thesis using snoc l q assms(2) by (auto simp: links_append p1 p2 p3 p4)
  qed
  moreover have "next_kept (set (0 # es @ [e])) pp p4" using l(3) by (auto simp: next_kept_def p1 p2 p3 p4)
  ultimately show ?thesis using run same q assms same_events_length[OF same] by (auto simp: queue_def)
qed

lemma dequeue_empty: "queue pp [] \<Longrightarrow> pn_event_dequeue pp = Inr (None, pp)"
  by (simp add: queue_def pn_event_dequeue_def get_event_in next_event_def)

lemma dequeue_fifo:
  assumes "queue pp (x # xs)"
  shows "\<exists>pp'. pn_event_dequeue pp = Inr (Some x, pp') \<and> queue pp' xs \<and> same_events pp pp' \<and> next_kept (set (0 # x # xs)) pp pp'"
proof -
  note q = assms[unfolded queue_def]
  obtain n where n: "next_event pp x = Some n" "n = hd (xs @ [0])" "prev_event pp n = Some x" "n \<noteq> x" "n \<in> set (0 # xs)"
    using q by (cases xs) auto
  have len: "0 < length (events pp)" "x < length (events pp)" "n < length (events pp)" using q n by auto
  have first: "next_event pp 0 = Some x" "prev_event pp x = Some 0" "x \<noteq> 0" using q by auto
  obtain p1 where p1: "set_next pp (Some 0) (Some n) = Inr p1" "next_event p1 = (next_event pp)(0 := Some n)"
    "prev_event p1 = prev_event pp" "same_events pp p1" using set_next_links[OF len(1)] by metis
  note l1 = same_events_length[OF p1(4)]
  obtain p2 where p2: "set_prev p1 (Some n) (Some 0) = Inr p2" "next_event p2 = next_event p1"
    "prev_event p2 = (prev_event p1)(n := Some 0)" "same_events p1 p2" using set_prev_links len(3) l1 by metis
  note l2 = same_events_length[OF p2(4)]
  obtain p3 where p3: "set_prev p2 (Some x) None = Inr p3" "next_event p3 = next_event p2"
    "prev_event p3 = (prev_event p2)(x := None)" "same_events p2 p3" using set_prev_links len(2) l1 l2 by metis
  note l3 = same_events_length[OF p3(4)]
  obtain p4 where p4: "set_next p3 (Some x) None = Inr p4" "next_event p4 = (next_event p3)(x := None)"
    "prev_event p4 = prev_event p3" "same_events p3 p4" using set_next_links len(2) l1 l2 l3 by metis
  have ev: "event_next (events p1 ! x) = Some n" "event_prev (events p1 ! x) = Some 0" "event_next (events pp ! x) = Some n"
    "event_prev (events pp ! x) = Some 0" "event_next (events pp ! 0) = Some x"
    using first n p1(2,3) by (auto simp: next_event_def prev_event_def fun_eq_iff)
  have run: "pn_event_dequeue pp = Inr (Some x, p4)"
    using len l1 by (simp add: pn_event_dequeue_def get_event_in ev first(3) p1(1) p2(1) p3(1) p4(1))
  have same: "same_events pp p4" using p1(4) p2(4) p3(4) p4(4) same_events_trans by blast
  have "links (next_event p4) (prev_event p4) 0 xs 0"
  proof (cases xs)
    case Nil
    then show ?thesis using first n by (auto simp: p1 p2 p3 p4)
  next
    case (Cons y ys)
    then have "links (next_event pp) (prev_event pp) n ys 0" using q n by simp
    then have "links (next_event p4) (prev_event p4) n ys 0"
      by (rule links_frame) (use q n Cons in \<open>auto simp: p1 p2 p3 p4 intro!: gr0I\<close>)
    then show ?thesis using Cons n first by (auto simp: p1 p2 p3 p4)
  qed
  moreover have "next_kept (set (0 # x # xs)) pp p4" by (auto simp: next_kept_def p1 p2 p3 p4)
  ultimately show ?thesis using run same q same_events_length[OF same] by (auto simp: queue_def)
qed

text \<open>Many events in, many events out.\<close>

fun enqueue_all :: "('s \<Rightarrow> 'e \<Rightarrow> 's res) \<Rightarrow> 's \<Rightarrow> 'e list \<Rightarrow> 's res" where
  "enqueue_all enq s [] = Inr s"
| "enqueue_all enq s (e # es) = rbind (enq s e) (\<lambda>s. enqueue_all enq s es)"

fun dequeue_many :: "('s \<Rightarrow> ('e option \<times> 's) res) \<Rightarrow> nat \<Rightarrow> 's \<Rightarrow> ('e option list \<times> 's) res" where
  "dequeue_many deq 0 s = Inr ([], s)"
| "dequeue_many deq (Suc n) s =
     rbind (deq s) (\<lambda>(e, s). rbind (dequeue_many deq n s) (\<lambda>(es, s). Inr (e # es, s)))"

text \<open>The contract of a queue: \<open>holds s es\<close> says that the state \<open>s\<close> holds the events \<open>es\<close>, the oldest first.\<close>

locale fifo =
  fixes holds :: "'s \<Rightarrow> 'e list \<Rightarrow> bool" and ready :: "'s \<Rightarrow> 'e \<Rightarrow> bool" and keeps :: "'s \<Rightarrow> 's \<Rightarrow> bool"
    and enq :: "'s \<Rightarrow> 'e \<Rightarrow> 's res" and deq :: "'s \<Rightarrow> ('e option \<times> 's) res"
  assumes enq_law: "holds s es \<Longrightarrow> ready s e \<Longrightarrow> e \<notin> set es \<Longrightarrow> \<exists>s'. enq s e = Inr s' \<and> holds s' (es @ [e]) \<and> keeps s s'"
    and deq_none: "holds s [] \<Longrightarrow> deq s = Inr (None, s)"
    and deq_some: "holds s (e # es) \<Longrightarrow> \<exists>s'. deq s = Inr (Some e, s') \<and> holds s' es \<and> keeps s s'"
    and keeps_refl: "keeps s s"
    and keeps_trans: "keeps s s' \<Longrightarrow> keeps s' s'' \<Longrightarrow> keeps s s''"
    and keeps_ready: "keeps s s' \<Longrightarrow> ready s' e \<longleftrightarrow> ready s e"
begin

lemma enqueue_all_holds:
  "holds s es \<Longrightarrow> \<forall>x\<in>set xs. ready s x \<Longrightarrow> distinct (es @ xs) \<Longrightarrow>
     \<exists>s'. enqueue_all enq s xs = Inr s' \<and> holds s' (es @ xs) \<and> keeps s s'"
proof (induction xs arbitrary: s es)
  case Nil
  then show ?case by (simp add: keeps_refl)
next
  case (Cons x xs)
  then obtain s1 where s1: "enq s x = Inr s1" "holds s1 (es @ [x])" "keeps s s1" using enq_law[of s es x] by auto
  have "\<forall>y\<in>set xs. ready s1 y" "distinct ((es @ [x]) @ xs)" using Cons.prems keeps_ready[OF s1(3)] by auto
  from Cons.IH[OF s1(2) this] show ?case using s1 keeps_trans by fastforce
qed

lemma dequeue_many_holds:
  "holds s (xs @ ys) \<Longrightarrow> \<exists>s'. dequeue_many deq (length xs) s = Inr (map Some xs, s') \<and> holds s' ys \<and> keeps s s'"
proof (induction xs arbitrary: s)
  case (Cons x xs)
  then obtain s1 where "deq s = Inr (Some x, s1)" "holds s1 (xs @ ys)" "keeps s s1" using deq_some[of s x] by auto
  then show ?case using Cons.IH[of s1] keeps_trans by fastforce
qed (simp add: keeps_refl)

end

definition event_ready :: "PNPpapi \<Rightarrow> nat \<Rightarrow> bool" where
  "event_ready pp e \<longleftrightarrow> 0 < e \<and> e < length (events pp)"

interpretation eq: fifo queue event_ready same_events pn_event_enqueue pn_event_dequeue
proof
  show "queue s es \<Longrightarrow> event_ready s e \<Longrightarrow> e \<notin> set es \<Longrightarrow> \<exists>s'. pn_event_enqueue s e = Inr s' \<and> queue s' (es @ [e]) \<and> same_events s s'"
    for s es e using enqueue_fifo[of s es e] by (auto simp: event_ready_def)
  show "same_events s s' \<Longrightarrow> event_ready s' e \<longleftrightarrow> event_ready s e" for s s' e
    using same_events_length[of s s'] by (simp add: event_ready_def)
qed (auto simp: dequeue_empty dest: dequeue_fifo same_events_trans)

text \<open>
  C19: The ring of events with its sentinel is a queue. Whatever it holds, further events that are enqueued are
  dequeued behind the older ones in the order they came in, until the queue is empty and says so; no event
  changes its kind, nothing but the links is touched, and no pointer is null or dangling on the way.
\<close>

theorem pn_events_fifo:
  assumes "queue pp es" "\<forall>x\<in>set xs. event_ready pp x" "distinct (es @ xs)"
  shows "\<exists>pp1 pp2. enqueue_all pn_event_enqueue pp xs = Inr pp1 \<and> queue pp1 (es @ xs) \<and>
    dequeue_many pn_event_dequeue (length (es @ xs)) pp1 = Inr (map Some (es @ xs), pp2) \<and>
    pn_event_dequeue pp2 = Inr (None, pp2) \<and> same_events pp pp2"
proof -
  obtain pp1 where pp1: "enqueue_all pn_event_enqueue pp xs = Inr pp1" "queue pp1 (es @ xs)" "same_events pp pp1"
    using eq.enqueue_all_holds[OF assms] by blast
  obtain pp2 where "dequeue_many pn_event_dequeue (length (es @ xs)) pp1 = Inr (map Some (es @ xs), pp2)" "queue pp2 []" "same_events pp1 pp2"
    using eq.dequeue_many_holds[of pp1 "es @ xs" "[]"] pp1(2) by auto
  then show ?thesis using pp1 dequeue_empty same_events_trans by blast
qed

definition three_events :: PNPpapi where
  "three_events = ppapi_init\<lparr>events := events ppapi_init @ [new_event, new_event, new_event]\<rparr>"

lemma three_events_queue: "queue three_events []"
  by (simp add: queue_def three_events_def ppapi_init_def next_event_def prev_event_def)

theorem pn_events_fifo_witness:
  "\<exists>pp1 pp2. enqueue_all pn_event_enqueue three_events [2, 1, 3] = Inr pp1 \<and>
    dequeue_many pn_event_dequeue 3 pp1 = Inr ([Some 2, Some 1, Some 3], pp2) \<and> pn_event_dequeue pp2 = Inr (None, pp2)"
  using pn_events_fifo[OF three_events_queue, of "[2, 1, 3]"]
  by (auto simp: event_ready_def three_events_def ppapi_init_def numeral_3_eq_3)

section \<open>Querying an interface\<close>

lemma queue_links:
  assumes "queue pp es" "length (events pp') \<ge> length (events pp)"
    "\<And>i. i < length (events pp) \<Longrightarrow> event_next (events pp' ! i) = event_next (events pp ! i) \<and> event_prev (events pp' ! i) = event_prev (events pp ! i)"
  shows "queue pp' es"
proof -
  have "links (next_event pp') (prev_event pp') 0 es 0"
    by (rule links_frame[of "next_event pp" "prev_event pp"]) (use assms in \<open>auto simp: queue_def next_event_def prev_event_def\<close>)
  then show ?thesis using assms(1,2) by (auto simp: queue_def)
qed

lemma same_events_nth:
  assumes "same_events pp pp'" "i < length (events pp)"
  shows "event_type (events pp' ! i) = event_type (events pp ! i)" "event_interface (events pp' ! i) = event_interface (events pp ! i)"
    "free_events pp' = free_events pp" "ppapi_ppp_interfaces pp' = ppapi_ppp_interfaces pp"
proof -
  have "length (events pp') = length (events pp)" using assms(1) by (rule same_events_length)
  then show "event_type (events pp' ! i) = event_type (events pp ! i)" "event_interface (events pp' ! i) = event_interface (events pp ! i)"
    using assms unfolding same_events_def by (metis nth_map)+
  show "free_events pp' = free_events pp" "ppapi_ppp_interfaces pp' = ppapi_ppp_interfaces pp"
    using assms(1) by (cases pp; cases pp'; simp add: same_events_def)+
qed

lemma same_events_current: "same_events pp pp' \<Longrightarrow> current_event pp' = current_event pp"
  by (cases pp; cases pp'; simp add: same_events_def)

text \<open>
  The free list, a chain through \<open>event_next\<close> that ends with the null pointer, and that the events of the queue and those of
  the free list are different ones.
\<close>

fun free_chain :: "PNPpapi \<Rightarrow> nat option \<Rightarrow> nat list \<Rightarrow> bool" where
  "free_chain pp p [] \<longleftrightarrow> p = None"
| "free_chain pp p (f # fs) \<longleftrightarrow> p = Some f \<and> free_chain pp (next_event pp f) fs"

definition events_split :: "PNPpapi \<Rightarrow> nat list \<Rightarrow> nat list \<Rightarrow> bool" where
  "events_split pp es fs \<longleftrightarrow> queue pp es \<and> free_chain pp (free_events pp) fs \<and> distinct (0 # es @ fs) \<and> set fs \<subseteq> {..< length (events pp)}"

lemma free_chain_frame: "free_chain pp p fs \<Longrightarrow> (\<And>i. i \<in> set fs \<Longrightarrow> next_event pp' i = next_event pp i) \<Longrightarrow> free_chain pp' p fs"
  by (induction fs arbitrary: p) auto

lemma events_split_frame:
  assumes "free_chain pp (free_events pp) fs" "next_kept S pp pp'" "same_events pp pp'" "S \<inter> set fs = {}"
  shows "free_chain pp' (free_events pp') fs"
proof -
  have "free_events pp' = free_events pp" using assms(3) by (cases pp; cases pp'; simp add: same_events_def)
  moreover have "next_event pp' i = next_event pp i" if "i \<in> set fs" for i using assms(2,4) that unfolding next_kept_def by blast
  ultimately show ?thesis using free_chain_frame[OF assms(1)] by simp
qed

lemma in_set_tl: "x \<in> set (tl xs) \<Longrightarrow> x \<in> set xs"
  by (cases xs) auto

lemma dequeue_split:
  assumes "events_split pp (d # es) fs"
  shows "\<exists>pp'. pn_event_dequeue pp = Inr (Some d, pp') \<and> events_split pp' es fs \<and> same_events pp pp'"
proof -
  have s: "queue pp (d # es)" "free_chain pp (free_events pp) fs" "distinct (0 # (d # es) @ fs)" "set fs \<subseteq> {..< length (events pp)}"
    using assms by (auto simp: events_split_def)
  obtain pp' where p: "pn_event_dequeue pp = Inr (Some d, pp')" "queue pp' es" "same_events pp pp'" "next_kept (set (0 # d # es)) pp pp'"
    using dequeue_fifo[OF s(1)] by blast
  have "set (0 # d # es) \<inter> set fs = {}" using s(3) by auto
  from events_split_frame[OF s(2) p(4,3) this] have "free_chain pp' (free_events pp') fs" .
  then show ?thesis using p s same_events_length[OF p(3)] by (simp add: events_split_def)
qed

lemma enqueue_split:
  assumes "events_split pp es fs" "e \<notin> set (0 # es @ fs)" "e < length (events pp)"
  shows "\<exists>pp'. pn_event_enqueue pp e = Inr pp' \<and> events_split pp' (es @ [e]) fs \<and> same_events pp pp'"
proof -
  have s: "queue pp es" "free_chain pp (free_events pp) fs" "distinct (0 # es @ fs)" "set fs \<subseteq> {..< length (events pp)}"
    using assms by (auto simp: events_split_def)
  obtain pp' where p: "pn_event_enqueue pp e = Inr pp'" "queue pp' (es @ [e])" "same_events pp pp'" "next_kept (set (0 # es @ [e])) pp pp'"
    using enqueue_fifo[OF s(1) _ assms(3)] assms(2) by auto
  have "set (0 # es @ [e]) \<inter> set fs = {}" using s(3) assms(2) by auto
  from events_split_frame[OF s(2) p(4,3) this] have "free_chain pp' (free_events pp') fs" .
  moreover have "distinct (0 # (es @ [e]) @ fs)" using s(3) assms(2) by auto
  ultimately show ?thesis using p s(4) same_events_length[OF p(3)] by (simp add: events_split_def)
qed

text \<open>The event that an allocation gives: the first one of the free list, or a new one; the free list loses its first.\<close>

definition allocated_event :: "PNPpapi \<Rightarrow> nat list \<Rightarrow> nat" where
  "allocated_event pp fs = hd (fs @ [length (events pp)])"

lemma allocate_split:
  assumes "events_split pp es fs"
  shows "\<exists>pp'. pn_event_allocate pp = Inr (allocated_event pp fs, pp') \<and> events_split pp' es (tl fs) \<and>
    allocated_event pp fs \<notin> set (0 # es @ tl fs) \<and> allocated_event pp fs < length (events pp') \<and>
    (\<forall>i < length (events pp). events pp' ! i = events pp ! i) \<and> length (events pp) \<le> length (events pp') \<and>
    pp'\<lparr>events := events pp, free_events := free_events pp\<rparr> = pp"
proof (cases fs)
  case Nil
  let ?p = "pp\<lparr>events := events pp @ [new_event]\<rparr>"
  have "queue ?p es" by (rule queue_links) (use assms in \<open>auto simp: events_split_def nth_append\<close>)
  then show ?thesis using assms Nil
    by (auto simp: pn_event_allocate_def allocated_event_def events_split_def queue_def nth_append)
next
  case (Cons f gs)
  let ?p = "pp\<lparr>free_events := next_event pp f\<rparr>"
  have "queue ?p es" by (rule queue_links) (use assms in \<open>auto simp: events_split_def\<close>)
  moreover have "free_chain ?p (next_event pp f) gs"
    by (rule free_chain_frame[of pp]) (use assms Cons in \<open>auto simp: events_split_def next_event_def\<close>)
  moreover have "pn_event_allocate pp = Inr (f, ?p)"
    using assms Cons by (auto simp: pn_event_allocate_def events_split_def get_event_in next_event_def)
  ultimately show ?thesis using assms Cons by (auto simp: events_split_def allocated_event_def)
qed

text \<open>A query of an interface the table of which is not known.\<close>

lemma get_interface_queries:
  assumes "events_split pp es fs" "i < length (ppapi_ppp_interfaces pp)" "ppapi_ppp_interfaces pp ! i = PN_INVALID_INTERFACE_TABLE"
  shows "\<exists>pp'. pn_ppapi_get_interface pp i = Inr (PN_INVALID_INTERFACE_TABLE, pp') \<and>
    events_split pp' (es @ [allocated_event pp fs]) (tl fs) \<and> event_type (events pp' ! allocated_event pp fs) = PN_EVENT_TYPE_GET_INTERFACE \<and>
    event_interface (events pp' ! allocated_event pp fs) = i \<and> current_event pp' = current_event pp \<and> length (events pp) \<le> length (events pp')"
proof -
  let ?q = "allocated_event pp fs"
  obtain p1 where p1: "pn_event_allocate pp = Inr (?q, p1)" "events_split p1 es (tl fs)" "?q \<notin> set (0 # es @ tl fs)"
    "?q < length (events p1)" "length (events pp) \<le> length (events p1)" "p1\<lparr>events := events pp, free_events := free_events pp\<rparr> = pp"
    using allocate_split[OF assms(1)] by blast
  define p2 where "p2 = put_event p1 ?q ((events p1 ! ?q)\<lparr>event_type := PN_EVENT_TYPE_GET_INTERFACE, event_interface := i\<rparr>)"
  have nx: "event_next (events p2 ! j) = event_next (events p1 ! j) \<and> event_prev (events p2 ! j) = event_prev (events p1 ! j)"
    if "j < length (events p1)" for j using that by (cases "j = ?q") (simp_all add: p2_def put_event_def)
  have l2: "length (events p2) = length (events p1)" "free_events p2 = free_events p1" by (simp_all add: p2_def put_event_def)
  have "queue p2 es" by (rule queue_links[of p1]) (use p1(2) nx l2 in \<open>auto simp: events_split_def\<close>)
  moreover have "free_chain p2 (free_events p2) (tl fs)" unfolding l2
    by (rule free_chain_frame[of p1]) (use p1(2) nx in \<open>auto simp: events_split_def next_event_def\<close>)
  ultimately have s2: "events_split p2 es (tl fs)" using p1(2) l2 by (simp add: events_split_def)
  obtain p3 where p3: "pn_event_enqueue p2 ?q = Inr p3" "events_split p3 (es @ [?q]) (tl fs)" "same_events p2 p3"
    using enqueue_split[OF s2 p1(3)] p1(4) l2 by auto
  have "?q < length (events p2)" using p1(4) l2 by simp
  note n = same_events_nth(1,2)[OF p3(3) this] same_events_current[OF p3(3)] same_events_length[OF p3(3)]
  have "current_event p1 = current_event pp" by (subst p1(6)[symmetric]) simp
  then have "event_type (events p3 ! ?q) = PN_EVENT_TYPE_GET_INTERFACE" "event_interface (events p3 ! ?q) = i"
    "current_event p3 = current_event pp" "length (events pp) \<le> length (events p3)"
    using n p1(4,5) l2 by (simp_all add: p2_def put_event_def)
  then show ?thesis using p3 p1(1,4) assms(2,3)
    by (simp add: pn_ppapi_get_interface_def nth_res_def get_event_in p2_def[symmetric])
qed

lemma get_interface_known:
  "i < length (ppapi_ppp_interfaces pp) \<Longrightarrow> ppapi_ppp_interfaces pp ! i \<noteq> PN_INVALID_INTERFACE_TABLE \<Longrightarrow>
   pn_ppapi_get_interface pp i = Inr (ppapi_ppp_interfaces pp ! i, pp)"
  by (simp add: pn_ppapi_get_interface_def nth_res_def)

lemma get_interface_unknown:
  "pn_ppapi_get_interface pp i = Inr (v, pp') \<Longrightarrow> ppapi_ppp_interfaces pp ! i = PN_INVALID_INTERFACE_TABLE \<Longrightarrow> v = PN_INVALID_INTERFACE_TABLE"
  by (auto simp: pn_ppapi_get_interface_def nth_res_def res_simps split: if_splits)

text \<open>The interface that is asked for, if one is: 1.1 while its table is not known, then 1.0 if the program has no 1.1.\<close>

definition queried_interface :: "PNPpapi \<Rightarrow> nat option" where
  "queried_interface pp = (let v10 = ppapi_ppp_interfaces pp ! 0; v11 = ppapi_ppp_interfaces pp ! 1 in
     if v11 = PN_INVALID_INTERFACE_TABLE then Some PN_PPP_INTERFACE_INSTANCE_1_1
     else if v11 = 0 \<and> v10 = PN_INVALID_INTERFACE_TABLE then Some PN_PPP_INTERFACE_INSTANCE_1_0 else None)"

definition instance_table :: "PNPpapi \<Rightarrow> u32" where
  "instance_table pp = (let v10 = ppapi_ppp_interfaces pp ! 0; v11 = ppapi_ppp_interfaces pp ! 1 in if v11 = 0 then v10 else v11)"

lemma handle_did_create_cases:
  assumes "2 \<le> length (ppapi_ppp_interfaces pp)"
  shows "handle_did_create ex t pp e = (case queried_interface pp of
      Some i \<Rightarrow> rbind (pn_ppapi_get_interface pp i) (\<lambda>(_, pp). rbind (pn_event_enqueue pp e) (\<lambda>pp. Inr (ex, pp)))
    | None \<Rightarrow> if instance_table pp = 0 then Inl (Fatal ''no version of PPP_INSTANCE found.'')
        else run_did_create ex t pp e (instance_table pp))"
proof -
  let ?t = "ppapi_ppp_interfaces pp"
  note known = get_interface_known[of 0 pp] get_interface_known[of 1 pp]
  note defs = handle_did_create_def queried_interface_def instance_table_def Let_def
  consider "?t ! 1 = PN_INVALID_INTERFACE_TABLE" | "?t ! 1 = 0" "?t ! 0 = PN_INVALID_INTERFACE_TABLE"
    | "?t ! 1 = 0" "?t ! 0 \<noteq> PN_INVALID_INTERFACE_TABLE" | "?t ! 1 \<noteq> PN_INVALID_INTERFACE_TABLE" "?t ! 1 \<noteq> 0" by blast
  then show ?thesis
  proof cases
    case 1
    then show ?thesis unfolding defs by (simp del: One_nat_def) (rule rbind_cong, auto dest: get_interface_unknown)
  next
    case 2
    then show ?thesis unfolding defs using known(2) assms
      by (simp del: One_nat_def) (rule rbind_cong, auto dest: get_interface_unknown)
  next
    case 3
    moreover have "?t \<noteq> []" using assms by auto
    ultimately show ?thesis unfolding defs using known assms by (simp del: One_nat_def)
  next
    case 4
    then show ?thesis unfolding defs using known(2) assms by (simp del: One_nat_def)
  qed
qed

text \<open>
  C21: The event that starts an instance waits for its interface, whatever the queue and the free list hold. While the table
  of \<open>PPP_Instance\<close> 1.1 is not known, or 1.1 was answered with 0 and that of 1.0 is not known, handling the event runs no
  code: a query for that table is appended (in the first event of the free list, or a new one) and the event is put back
  behind it, so the query is handled first; queue and free list stay well formed. When both were answered with 0 the
  program is refused, and otherwise \<open>DidCreate\<close> of the table that was found is started, 1.1 before 1.0, with the event off the queue.
\<close>

theorem pn_did_create_queries_first:
  assumes "events_split pp (d # es) fs" "event_type (events pp ! d) = PN_EVENT_TYPE_DID_CREATE" "2 \<le> length (ppapi_ppp_interfaces pp)"
  shows "case queried_interface pp of
      Some i \<Rightarrow> \<exists>pp'. pn_event_handle_next ex t pp = Inr (ex, pp') \<and>
        events_split pp' (es @ [allocated_event pp fs, d]) (tl fs) \<and> current_event pp' = None \<and>
        event_type (events pp' ! allocated_event pp fs) = PN_EVENT_TYPE_GET_INTERFACE \<and>
        event_interface (events pp' ! allocated_event pp fs) = i
    | None \<Rightarrow> \<exists>pp'. events_split pp' es fs \<and> current_event pp' = None \<and> pn_event_handle_next ex t pp =
        (if instance_table pp = 0 then Inl (Fatal ''no version of PPP_INSTANCE found.'')
         else run_did_create ex t pp' d (instance_table pp))"
proof -
  let ?q = "allocated_event pp fs"
  have d: "0 < d" "d < length (events pp)" "d \<notin> set (0 # es @ fs)" using assms(1) by (auto simp: events_split_def queue_def)
  obtain p0 where p0: "pn_event_dequeue pp = Inr (Some d, p0)" "events_split p0 es fs" "same_events pp p0"
    using dequeue_split[OF assms(1)] by blast
  define p1 where "p1 = p0\<lparr>current_event := None\<rparr>"
  have "queue p1 es" by (rule queue_links[of p0]) (use p0(2) in \<open>auto simp: events_split_def p1_def\<close>)
  moreover have "free_chain p1 (free_events p1) fs"
    by (rule free_chain_frame[of p0]) (use p0(2) in \<open>auto simp: events_split_def next_event_def p1_def\<close>)
  ultimately have s1: "events_split p1 es fs" using p0(2) by (simp add: events_split_def p1_def)
  note n = same_events_length[OF p0(3)] same_events_nth(1,4)[OF p0(3) d(2)]
  have q1: "queried_interface p1 = queried_interface pp" "instance_table p1 = instance_table pp" "allocated_event p1 fs = ?q"
    "ppapi_ppp_interfaces p1 = ppapi_ppp_interfaces pp" "current_event p1 = None" "length (events p1) = length (events pp)"
    using n by (simp_all add: p1_def queried_interface_def instance_table_def allocated_event_def)
  have run: "pn_event_handle_next ex t pp = handle_did_create ex t p1 d"
    using p0(1) n d assms(2) by (simp add: pn_event_handle_next_def get_event_in p1_def)
  note cs = handle_did_create_cases[of p1 ex t d, unfolded q1, OF assms(3)]
  show ?thesis
  proof (cases "queried_interface pp")
    case None
    then show ?thesis using run cs s1 q1(5) by auto
  next
    case (Some i)
    then have i: "i < length (ppapi_ppp_interfaces p1)" "ppapi_ppp_interfaces p1 ! i = PN_INVALID_INTERFACE_TABLE"
      using assms(3) q1(4) by (auto simp: queried_interface_def Let_def split: if_splits)
    obtain p2 where p2: "pn_ppapi_get_interface p1 i = Inr (PN_INVALID_INTERFACE_TABLE, p2)" "events_split p2 (es @ [?q]) (tl fs)"
      "event_type (events p2 ! ?q) = PN_EVENT_TYPE_GET_INTERFACE" "event_interface (events p2 ! ?q) = i" "current_event p2 = None"
      "length (events p1) \<le> length (events p2)" using get_interface_queries[OF s1 i] q1(3,5) by auto
    have "?q \<noteq> d" using d by (cases fs) (auto simp: allocated_event_def)
    then have "d \<notin> set (0 # (es @ [?q]) @ tl fs)" "d < length (events p2)" using d p2(6) q1(6) by (auto dest: in_set_tl)
    from enqueue_split[OF p2(2) this] obtain p3 where p3: "pn_event_enqueue p2 d = Inr p3" "events_split p3 (es @ [?q, d]) (tl fs)"
      "same_events p2 p3" by auto
    have "?q < length (events p2)" using p2(2) by (auto simp: events_split_def queue_def)
    from same_events_nth(1,2)[OF p3(3) this] same_events_current[OF p3(3)] show ?thesis
      using Some run cs p2 p3 by simp
  qed
qed

text \<open>A queue with the event of the start, and one freed event; the program has answered that it has no 1.1.\<close>

definition starting_ppapi :: "u32 \<Rightarrow> PNPpapi" where
  "starting_ppapi v11 = ppapi_init\<lparr>events := [new_event\<lparr>event_next := Some 1, event_prev := Some 1\<rparr>,
     new_event\<lparr>event_next := Some 0, event_prev := Some 0, event_type := PN_EVENT_TYPE_DID_CREATE\<rparr>, new_event],
     free_events := Some 2, ppapi_ppp_interfaces := [PN_INVALID_INTERFACE_TABLE, v11, PN_INVALID_INTERFACE_TABLE, PN_INVALID_INTERFACE_TABLE]\<rparr>"

lemma starting_ppapi_split: "events_split (starting_ppapi v11) [1] [2]"
  by (simp add: events_split_def queue_def starting_ppapi_def next_event_def prev_event_def new_event_def)

theorem pn_did_create_queries_first_witness:
  "(\<exists>pp'. pn_event_handle_next (ring_executor PN_THREAD_RUNNING) 0 (starting_ppapi PN_INVALID_INTERFACE_TABLE)
      = Inr (ring_executor PN_THREAD_RUNNING, pp') \<and> queue pp' [2, 1] \<and> event_interface (events pp' ! 2) = 1) \<and>
   (\<exists>pp'. pn_event_handle_next (ring_executor PN_THREAD_RUNNING) 0 (starting_ppapi 0)
      = Inr (ring_executor PN_THREAD_RUNNING, pp') \<and> queue pp' [2, 1] \<and> event_interface (events pp' ! 2) = 0)"
proof
  have h: "event_type (events (starting_ppapi v) ! 1) = PN_EVENT_TYPE_DID_CREATE" "2 \<le> length (ppapi_ppp_interfaces (starting_ppapi v))"
    "allocated_event (starting_ppapi v) [2] = 2" for v by (simp_all add: starting_ppapi_def allocated_event_def)
  have q: "queried_interface (starting_ppapi PN_INVALID_INTERFACE_TABLE) = Some 1" "queried_interface (starting_ppapi 0) = Some 0"
    by (simp_all add: starting_ppapi_def queried_interface_def)
  from pn_did_create_queries_first[OF starting_ppapi_split h(1,2), of "ring_executor PN_THREAD_RUNNING" 0 PN_INVALID_INTERFACE_TABLE] q(1) h(3)
  show "\<exists>pp'. pn_event_handle_next (ring_executor PN_THREAD_RUNNING) 0 (starting_ppapi PN_INVALID_INTERFACE_TABLE)
      = Inr (ring_executor PN_THREAD_RUNNING, pp') \<and> queue pp' [2, 1] \<and> event_interface (events pp' ! 2) = 1"
    by (auto simp: events_split_def)
  from pn_did_create_queries_first[OF starting_ppapi_split h(1,2), of "ring_executor PN_THREAD_RUNNING" 0 0] q(2) h(3)
  show "\<exists>pp'. pn_event_handle_next (ring_executor PN_THREAD_RUNNING) 0 (starting_ppapi 0)
      = Inr (ring_executor PN_THREAD_RUNNING, pp') \<and> queue pp' [2, 1] \<and> event_interface (events pp' ! 2) = 0"
    by (auto simp: events_split_def)
qed

end
