(* ===== verification/Pn_Event_Loop.thy ===== *)
theory Pn_Event_Loop
  imports Pn_Ppapi
begin

text \<open>
  The event loop of a PPAPI program: the two builtins of \<^verbatim>\<open>src/pn_builtins.h\<close> that a program starts it with, and what
  such a build adds to \<^verbatim>\<open>src/pn_executor.h\<close>. The builtin puts the event thread into the place of the start thread; from
  then on that thread runs one event after the other, and is idle when there is none.

  The number of builtins of this build is another one, so the instructions of a quantum are an argument. The event thread is a
  member of \<open>PNPpapi\<close>: it is appended to the threads when it starts, which can happen once. \<open>exit_value\<close>, which this build
  adds to a thread, is a map. The back link of a thread outside the ring is not kept.
\<close>

unbundle bit_operations_syntax

section \<open>Start\<close>

text \<open>The two assignments to the neighbours are done one after the other: the start thread may be its own neighbour.\<close>

definition replace_start_thread :: "PNExecutor \<Rightarrow> nat \<Rightarrow> (PNExecutor \<times> nat) res" where
  "replace_start_thread ex t =
     rbind (get_thread ex t) (\<lambda>th.
     let new = length (threads ex);
         new_thread = start_thread\<lparr>thread_tls := thread_tls th, thread_id := thread_id th, thread_next := thread_next th,
           thread_prev := thread_prev th\<rparr>;
         ex = ex\<lparr>threads := threads ex @ [new_thread]\<rparr> in
     rbind (get_thread ex (thread_next th)) (\<lambda>next.
     let ex = put_thread ex (thread_next th) (next\<lparr>thread_prev := new\<rparr>) in
     rbind (get_thread ex t) (\<lambda>th.
     rbind (get_thread ex (thread_prev th)) (\<lambda>prev.
     let ex = put_thread ex (thread_prev th) (prev\<lparr>thread_next := new\<rparr>) in
     rbind (get_thread ex t) (\<lambda>th.
     Inr ((put_thread ex t (th\<lparr>thread_next := new, thread_state := PN_THREAD_EVENT_LOOP\<rparr>))\<lparr>main_thread := new\<rparr>, new))))))"

definition enqueue_did_create :: "PNPpapi \<Rightarrow> PNPpapi res" where
  "enqueue_did_create pp =
     rbind (pn_event_allocate pp) (\<lambda>(e, pp).
     rbind (get_event pp (Some e)) (\<lambda>ev.
     pn_event_enqueue (put_event pp e (ev\<lparr>event_type := PN_EVENT_TYPE_DID_CREATE\<rparr>)) e))"

definition enter_event_thread :: "PNExecutor \<Rightarrow> nat \<Rightarrow> nat \<Rightarrow> u32 \<Rightarrow> PNExecutor res" where
  "enter_event_thread ex t new initialize_func =
     rbind (get_thread ex new) (\<lambda>nth.
     rbind (ppapi_push_function_pointer ex nth initialize_func) (\<lambda>(nth, f).
     rbind (ensure (num_args f = 2) (Check ''new_function->num_args == 2'')) (\<lambda>_.
     rbind (set_params nth 0 [PN_MODULE_ID, pn_builtin_to_pointer PN_BUILTIN_PPB_GET_INTERFACE]) (\<lambda>nth.
     rbind (get_thread ex t) (\<lambda>th.
     rbind (current_frame nth) (\<lambda>fr.
     Inr (put_thread ex new (put_frame nth (fr\<lparr>memory_stack_top := stack_top ex th\<rparr>)))))))))"

definition pn_builtin_NACL_IRT_PPAPIHOOK_PPAPI_START :: "PNPpapi \<Rightarrow> PNExecutor \<Rightarrow> nat \<Rightarrow> u8 \<Rightarrow> PNValueId list \<Rightarrow>
    (PNRuntimeValue \<times> PNExecutor \<times> PNPpapi) res" where
  "pn_builtin_NACL_IRT_PPAPIHOOK_PPAPI_START pp ex t n args =
     rbind (get_thread ex t) (\<lambda>th.
     rbind (check_num_args n 1) (\<lambda>_.
     rbind (arg ex th args 0) (\<lambda>p.
     let start_functions_p = ucast p in
     rbind (pn_memory_read_u32 (ex_memory ex) start_functions_p) (\<lambda>initialize_func.
     rbind (pn_memory_read_u32 (ex_memory ex) (start_functions_p + 4)) (\<lambda>shutdown.
     rbind (pn_memory_read_u32 (ex_memory ex) (start_functions_p + 8)) (\<lambda>get_interface.
     rbind (ensure (t = 0) (Check ''thread == &executor->start_thread'')) (\<lambda>_.
     rbind (ensure (t = main_thread ex) (Check ''thread == executor->main_thread'')) (\<lambda>_.
     rbind (replace_start_thread ex t) (\<lambda>(ex, new).
     rbind (enter_event_thread ex t new initialize_func) (\<lambda>ex.
     rbind (enqueue_did_create (pp\<lparr>shutdown_func := shutdown, get_interface_func := get_interface\<rparr>)) (\<lambda>pp.
     Inr (0, ex, pp))))))))))))"

definition pn_builtin_NACL_IRT_PPAPIHOOK_PPAPI_REGISTER_THREAD_CREATOR :: builtin_body where
  "pn_builtin_NACL_IRT_PPAPIHOOK_PPAPI_REGISTER_THREAD_CREATOR = ppb_core_stub 1"

section \<open>The loop\<close>

type_synonym exit_values = "nat \<Rightarrow> PNRuntimeValue"

text \<open>The value the last frame of a thread returns is kept, unless the thread is the start thread.\<close>

definition ppapi_ret_value :: "PNExecutor \<Rightarrow> nat \<Rightarrow> PNThread \<Rightarrow> PNRuntimeValue \<Rightarrow> exit_values \<Rightarrow> (PNExecutor \<times> exit_values) res" where
  "ppapi_ret_value ex t th v exits =
     rbind (exec_ret ex t th (Some v)) (\<lambda>ex.
     Inr (ex, if length (thread_frames th) = 1 \<and> t \<noteq> 0 then exits(t := v) else exits))"

definition next_event_of :: "PNExecutor \<Rightarrow> nat \<Rightarrow> PNPpapi \<Rightarrow> exit_values \<Rightarrow> (PNExecutor \<times> PNPpapi) res" where
  "next_event_of ex t pp exits =
     rbind (get_thread ex 0) (\<lambda>start.
     rbind (ensure (thread_state start = PN_THREAD_EVENT_LOOP) (Assertion ''executor->start_thread.state == PN_THREAD_EVENT_LOOP'')) (\<lambda>_.
     rbind (pn_event_finish pp (exits t)) (\<lambda>pp.
     rbind (pn_event_handle_next ex t pp) (\<lambda>(ex, pp).
     rbind (get_thread ex t) (\<lambda>th.
     Inr (if thread_state th = PN_THREAD_DEAD then put_thread ex t (th\<lparr>thread_state := PN_THREAD_IDLE\<rparr>) else ex, pp))))))"

definition ppapi_finish_quantum :: "PNExecutor \<Rightarrow> nat \<Rightarrow> PNPpapi \<Rightarrow> exit_values \<Rightarrow> (PNExecutor \<times> PNPpapi \<times> nat) res" where
  "ppapi_finish_quantum ex t pp exits =
     rbind (get_thread ex t) (\<lambda>th.
     if thread_state th = PN_THREAD_DEAD \<or> thread_state th = PN_THREAD_IDLE
     then rbind (ensure (t \<noteq> 0) (Assertion ''thread != &executor->start_thread'')) (\<lambda>_.
       if t = main_thread ex
       then rbind (next_event_of ex t pp exits) (\<lambda>(ex, pp). Inr (ex, pp, thread_next th))
       else rbind (unlink_thread ex t) (\<lambda>ex. Inr (ex, pp, thread_next th)))
     else Inr (ex, pp, thread_next th))"

partial_function (option) ppapi_schedule_next :: "host \<Rightarrow> PNExecutor \<Rightarrow> nat \<Rightarrow> (PNExecutor \<times> nat) res option" where
  [code]: "ppapi_schedule_next h ex t =
     (case get_thread ex t of Inl e \<Rightarrow> Some (Inl e)
      | Inr th \<Rightarrow>
          (case thread_state th of
             PN_THREAD_DEAD \<Rightarrow> Some (Inl (Assertion ''thread->state != PN_THREAD_DEAD''))
           | PN_THREAD_RUNNING \<Rightarrow> Some (Inr (ex, t))
           | PN_THREAD_BLOCKED \<Rightarrow>
               let tv = gettimeofday h (host_calls ex); ex = log_call Host_gettimeofday ex in
               if timed_out th tv
               then Some (Inr (put_thread ex t (th\<lparr>thread_state := PN_THREAD_RUNNING,
                                                   futex_state := PN_FUTEX_TIMEDOUT\<rparr>), t))
               else ppapi_schedule_next h ex (thread_next th)
           | PN_THREAD_IDLE \<Rightarrow> Some (Inr (ex, t))
           | PN_THREAD_EVENT_LOOP \<Rightarrow> Some (Inl (Fatal ''unreachable''))))"

type_synonym ppapi_state = "PNExecutor \<times> PNPpapi \<times> exit_values"

definition ppapi_run_step :: "(ppapi_state \<Rightarrow> nat \<Rightarrow> ppapi_state res) \<Rightarrow> host \<Rightarrow> ppapi_state \<Rightarrow> nat \<Rightarrow> (ppapi_state \<times> nat option) res option" where
  "ppapi_run_step quantum h st t =
     obind (Some (quantum st t)) (\<lambda>(ex, pp, exits).
     if exiting ex then Some (Inr ((ex, pp, exits), None))
     else obind (Some (ppapi_finish_quantum ex t pp exits)) (\<lambda>(ex, pp, next).
       obind (ppapi_schedule_next h ex next) (\<lambda>(ex, t). Some (Inr ((ex, pp, exits), Some t)))))"

section \<open>The event thread in the ring\<close>

definition with_thread :: "PNExecutor \<Rightarrow> PNThread \<Rightarrow> PNExecutor" where
  "with_thread ex th = ex\<lparr>threads := threads ex @ [th]\<rparr>"

lemma with_thread_length: "length (threads (with_thread ex th)) = Suc (length (threads ex))"
  by (simp add: with_thread_def)

lemma with_thread_nth:
  "threads (with_thread ex th) ! z = (if z < length (threads ex) then threads ex ! z else [th] ! (z - length (threads ex)))"
  by (simp add: with_thread_def nth_append)

lemma chain_with_thread: "chain ex x xs y \<Longrightarrow> chain (with_thread ex th) x xs y"
  by (induction xs arbitrary: x) (auto simp: linked_def next_of_def prev_of_def with_thread_nth with_thread_length)

text \<open>The links after the replacement, when the next and the previous thread are other threads.\<close>

lemma replace_links:
  assumes "t < length (threads ex)" "next_of ex t = n" "prev_of ex t = p" "n < length (threads ex)" "p < length (threads ex)"
    "n \<noteq> t" "p \<noteq> t"
  obtains ex' where "replace_start_thread ex t = Inr (ex', length (threads ex))"
    "length (threads ex') = Suc (length (threads ex))"
    "\<And>z. z < length (threads ex) \<Longrightarrow> next_of ex' z = (if z = p \<or> z = t then length (threads ex) else next_of ex z)"
    "\<And>z. z < length (threads ex) \<Longrightarrow> prev_of ex' z = (if z = n then length (threads ex) else prev_of ex z)"
    "next_of ex' (length (threads ex)) = n" "prev_of ex' (length (threads ex)) = p"
    "\<And>z. z < length (threads ex) \<Longrightarrow> state_of ex' z = (if z = t then PN_THREAD_EVENT_LOOP else state_of ex z)"
    "state_of ex' (length (threads ex)) = PN_THREAD_RUNNING" "main_thread ex' = length (threads ex)"
proof -
  let ?new = "length (threads ex)"
  let ?th = "threads ex ! t"
  let ?nt = "start_thread\<lparr>thread_tls := thread_tls ?th, thread_id := thread_id ?th, thread_next := n, thread_prev := p\<rparr>"
  define ex1 where "ex1 = with_thread ex ?nt"
  define ex2 where "ex2 = put_thread ex1 n ((threads ex1 ! n)\<lparr>thread_prev := ?new\<rparr>)"
  define ex3 where "ex3 = put_thread ex2 p ((threads ex2 ! p)\<lparr>thread_next := ?new\<rparr>)"
  define ex4 where "ex4 = put_thread ex3 t ((threads ex3 ! t)\<lparr>thread_next := ?new, thread_state := PN_THREAD_EVENT_LOOP\<rparr>)"
  have th: "thread_next ?th = n" "thread_prev ?th = p" using assms(2,3) by (simp_all add: next_of_def prev_of_def)
  have len: "length (threads ex1) = Suc ?new" "length (threads ex2) = Suc ?new" "length (threads ex3) = Suc ?new"
    by (simp_all add: ex1_def ex2_def ex3_def with_thread_length put_thread_def)
  have t2: "threads ex2 ! t = ?th" using assms by (simp add: ex2_def ex1_def put_thread_def with_thread_nth)
  have "replace_start_thread ex t = Inr (ex4\<lparr>main_thread := ?new\<rparr>, ?new)"
    using assms th len t2
    by (simp add: replace_start_thread_def get_thread_in Let_def with_thread_def[symmetric] ex1_def[symmetric] ex2_def[symmetric])
      (simp add: get_thread_in ex3_def[symmetric] ex4_def[symmetric])
  moreover have nth: "threads ex4 ! z = (if z = ?new then ?nt else
      (threads ex ! z)\<lparr>thread_prev := if z = n then ?new else thread_prev (threads ex ! z),
        thread_next := if z = p \<or> z = t then ?new else thread_next (threads ex ! z),
        thread_state := if z = t then PN_THREAD_EVENT_LOOP else thread_state (threads ex ! z)\<rparr>)" if "z \<le> ?new" for z
    using that assms by (auto simp: ex4_def ex3_def ex2_def ex1_def put_thread_def with_thread_nth with_thread_length nth_list_update)
  ultimately show ?thesis
    by (intro that[of "ex4\<lparr>main_thread := ?new\<rparr>"])
      (simp_all add: next_of_def prev_of_def state_of_def start_thread_def, simp_all add: ex4_def len put_thread_def)
qed

text \<open>A chain whose last thread is linked to another target.\<close>

lemma chain_retarget:
  assumes "chain ex u us t" "distinct (t # u # us)" "linked ex p t" "length (threads ex) \<le> length (threads ex')"
    "\<And>z. z \<in> set (u # us) \<Longrightarrow> next_of ex' z = (if z = p then w else next_of ex z)"
    "\<And>z. z \<in> set us \<Longrightarrow> prev_of ex' z = prev_of ex z" "prev_of ex' w = p" "w < length (threads ex')"
  shows "chain ex' u us w"
  using assms by (induction us arbitrary: u) (auto simp: linked_def)

lemma chain_prev:
  assumes "chain ex u us t"
  shows "linked ex (prev_of ex t) t \<and> prev_of ex t \<in> set (u # us)"
  using assms by (induction us arbitrary: u) (auto simp: linked_def)

lemma replace_ring:
  assumes "ring ex (t # u # us)"
  shows "\<exists>ex'. replace_start_thread ex t = Inr (ex', length (threads ex)) \<and> ring ex' (length (threads ex) # u # us) \<and>
    main_thread ex' = length (threads ex) \<and> state_of ex' t = PN_THREAD_EVENT_LOOP \<and> next_of ex' t = length (threads ex) \<and>
    state_of ex' (length (threads ex)) = PN_THREAD_RUNNING \<and> map (state_of ex') (u # us) = map (state_of ex) (u # us)"
proof -
  let ?new = "length (threads ex)"
  have c: "linked ex t u" "chain ex u us t" "distinct (t # u # us)" using assms by auto
  have lt: "z < ?new" if "z \<in> set (t # u # us)" for z using chain_bounds[OF c(2)] that by auto
  define p where "p = prev_of ex t"
  have p: "linked ex p t" "p \<in> set (u # us)" "p \<noteq> t" using chain_prev[OF c(2)] c(3) by (auto simp: p_def)
  have u: "next_of ex t = u" "u \<noteq> t" using c(1,3) by (auto simp: linked_def)
  obtain ex' where ex': "replace_start_thread ex t = Inr (ex', ?new)"
    "length (threads ex') = Suc ?new"
    "\<And>z. z < ?new \<Longrightarrow> next_of ex' z = (if z = p \<or> z = t then ?new else next_of ex z)"
    "\<And>z. z < ?new \<Longrightarrow> prev_of ex' z = (if z = u then ?new else prev_of ex z)"
    "next_of ex' ?new = u" "prev_of ex' ?new = p"
    "\<And>z. z < ?new \<Longrightarrow> state_of ex' z = (if z = t then PN_THREAD_EVENT_LOOP else state_of ex z)"
    "state_of ex' ?new = PN_THREAD_RUNNING" "main_thread ex' = ?new"
    by (rule replace_links[of t ex u p]) (use p u lt in \<open>auto simp: p_def\<close>)
  have "chain ex' u us ?new"
    by (rule chain_retarget[OF c(2,3) p(1)]) (use ex' c(3) lt in auto)
  moreover have "linked ex' ?new u" using ex'(2,4,5) lt[of u] by (simp add: linked_def)
  ultimately show ?thesis using ex' c(3) lt by auto
qed

text \<open>
  A start thread that is alone in the ring leaves the event thread with a back link to it; the first thread
  the event thread creates closes the ring.
\<close>

lemma replace_alone:
  assumes "ring ex [t]"
  shows "\<exists>ex'. replace_start_thread ex t = Inr (ex', length (threads ex)) \<and> main_thread ex' = length (threads ex) \<and>
    next_of ex' (length (threads ex)) = length (threads ex) \<and> prev_of ex' (length (threads ex)) = t \<and>
    state_of ex' t = PN_THREAD_EVENT_LOOP \<and> next_of ex' t = length (threads ex) \<and>
    state_of ex' (length (threads ex)) = PN_THREAD_RUNNING \<and> length (threads ex') = Suc (length (threads ex))"
  using assms
  by (auto simp: linked_def next_of_def prev_of_def state_of_def replace_start_thread_def get_thread_def nth_res_def
      put_thread_def Let_def nth_append nth_list_update start_thread_def)

lemma link_closes_ring:
  assumes "next_of ex t = t" "t < length (threads ex)" "new < length (threads ex)" "new \<noteq> t"
  shows "\<exists>ex'. link_thread ex t new = Inr ex' \<and> ring ex' [t, new]"
  using assms
  by (auto simp: linked_def next_of_def prev_of_def link_thread_def get_thread_def nth_res_def put_thread_def Let_def nth_list_update)

section \<open>Starting\<close>

text \<open>Entering a function changes neither the links nor the state of a thread.\<close>

definition same_place :: "PNThread \<Rightarrow> PNThread \<Rightarrow> bool" where
  "same_place th th' \<longleftrightarrow> thread_next th' = thread_next th \<and> thread_prev th' = thread_prev th \<and> thread_state th' = thread_state th"

lemma same_place_trans: "same_place a b \<Longrightarrow> same_place b c \<Longrightarrow> same_place a c"
  by (simp add: same_place_def)

lemma put_frame_place [simp]: "same_place th (put_frame th fr)"
  by (simp add: same_place_def put_frame_def)

lemma set_param_place: "pn_thread_set_param_value th i v = Inr th' \<Longrightarrow> same_place th th'"
  by (auto simp: pn_thread_set_param_value_def res_simps)

lemma set_value_place: "pn_thread_set_value ex th i v = Inr th' \<Longrightarrow> same_place th th'"
  by (auto simp: pn_thread_set_value_def res_simps)

lemma set_params_place: "set_params th i vs = Inr th' \<Longrightarrow> same_place th th'"
proof (induction vs arbitrary: th i)
  case (Cons v vs)
  then show ?case by (auto simp: res_simps dest!: set_param_place intro: same_place_trans)
qed (simp add: same_place_def)

lemma init_constants_place: "init_constants ex f n cs th = Inr th' \<Longrightarrow> same_place th th'"
proof (induction cs arbitrary: th n)
  case (Cons c cs)
  then show ?case by (auto simp: res_simps Let_def dest!: set_value_place intro: same_place_trans)
qed (simp add: same_place_def)

lemma push_pointer_place: "ppapi_push_function_pointer ex th func = Inr (th', f) \<Longrightarrow> same_place th th'"
  by (auto simp: ppapi_push_function_pointer_def pn_thread_push_function_def Let_def res_simps split: if_splits
      dest!: init_constants_place simp: same_place_def)

lemma enter_event_links:
  assumes "enter_event_thread ex t new func = Inr ex'"
  shows "next_of ex' z = next_of ex z" "prev_of ex' z = prev_of ex z" "state_of ex' z = state_of ex z"
    "length (threads ex') = length (threads ex)" "main_thread ex' = main_thread ex"
proof -
  obtain n1 n2 f n3 fr where n: "get_thread ex new = Inr n1" "ppapi_push_function_pointer ex n1 func = Inr (n2, f)"
    "set_params n2 0 [PN_MODULE_ID, pn_builtin_to_pointer PN_BUILTIN_PPB_GET_INTERFACE] = Inr n3" "ex' = put_thread ex new (put_frame n3 fr)"
    using assms unfolding enter_event_thread_def by (auto simp: res_simps simp del: set_params.simps)
  have "same_place n1 (put_frame n3 fr)"
    using push_pointer_place[OF n(2)] set_params_place[OF n(3)] put_frame_place same_place_trans by blast
  with n(1,4) show "next_of ex' z = next_of ex z" "prev_of ex' z = prev_of ex z" "state_of ex' z = state_of ex z"
    "length (threads ex') = length (threads ex)" "main_thread ex' = main_thread ex"
    by (auto simp: next_of_def prev_of_def state_of_def put_thread_def get_thread_def nth_res_def same_place_def nth_list_update
        split: if_splits)
qed

lemma ring_links:
  assumes "ring ex ts" "\<And>z. next_of ex' z = next_of ex z" "\<And>z. prev_of ex' z = prev_of ex z" "length (threads ex') = length (threads ex)"
  shows "ring ex' ts"
  using assms by (cases ts) (auto intro: chain_frame)

lemma enqueue_did_create_queue:
  assumes "queue pp es" "free_events pp = None"
  shows "\<exists>pp'. enqueue_did_create pp = Inr pp' \<and> queue pp' (es @ [length (events pp)]) \<and>
    event_type (events pp' ! length (events pp)) = PN_EVENT_TYPE_DID_CREATE"
proof -
  let ?e = "length (events pp)"
  define p1 where "p1 = pp\<lparr>events := events pp @ [new_event\<lparr>event_type := PN_EVENT_TYPE_DID_CREATE\<rparr>]\<rparr>"
  have "queue p1 es" by (rule queue_links[OF assms(1)]) (auto simp: p1_def nth_append)
  moreover have "?e \<notin> set (0 # es)" "?e < length (events p1)" using assms(1) by (auto simp: queue_def p1_def)
  ultimately obtain p2 where "pn_event_enqueue p1 ?e = Inr p2" "queue p2 (es @ [?e])" "same_events p1 p2" using enqueue_fifo by blast
  moreover have "event_type (events p2 ! ?e) = PN_EVENT_TYPE_DID_CREATE"
    using same_events_nth(1)[OF \<open>same_events p1 p2\<close>, of ?e] by (simp add: p1_def)
  ultimately show ?thesis using assms(2)
    by (auto simp: enqueue_did_create_def pn_event_allocate_def get_event_def put_event_def p1_def nth_res_def)
qed

text \<open>
  C20: Starting the event loop. When the start thread calls the builtin and it returns, the event thread has taken the place
  of the start thread in the ring and is the main thread, it runs, the start thread is marked as being in the event loop and
  is left by the link to the event thread, the other threads are in the states they were in, and the event that creates the
  instance is the last one of the queue. A start thread that was alone leaves the event thread linked to itself.
\<close>

theorem pn_ppapi_start:
  assumes "pn_builtin_NACL_IRT_PPAPIHOOK_PPAPI_START pp ex 0 n args = Inr (v, ex', pp')"
    and "ring ex (0 # us)" "queue pp es" "free_events pp = None" and new: "new = length (threads ex)"
  shows "v = 0 \<and> main_thread ex' = new \<and> state_of ex' new = PN_THREAD_RUNNING \<and>
    state_of ex' 0 = PN_THREAD_EVENT_LOOP \<and> next_of ex' 0 = new \<and> map (state_of ex') us = map (state_of ex) us \<and>
    (if us = [] then next_of ex' new = new else ring ex' (new # us)) \<and>
    queue pp' (es @ [length (events pp)]) \<and> event_type (events pp' ! length (events pp)) = PN_EVENT_TYPE_DID_CREATE"
proof -
  obtain ex1 init sh gi where r: "replace_start_thread ex 0 = Inr (ex1, new)" and e: "enter_event_thread ex1 0 new init = Inr ex'"
    and q: "enqueue_did_create (pp\<lparr>shutdown_func := sh, get_interface_func := gi\<rparr>) = Inr pp'" and v: "v = 0"
  proof -
    obtain ex1 w init sh gi where r: "replace_start_thread ex 0 = Inr (ex1, w)" and e: "enter_event_thread ex1 0 w init = Inr ex'"
      "enqueue_did_create (pp\<lparr>shutdown_func := sh, get_interface_func := gi\<rparr>) = Inr pp'" "v = 0"
      using assms(1) unfolding pn_builtin_NACL_IRT_PPAPIHOOK_PPAPI_START_def by (auto simp: res_simps Let_def)
    moreover have "w = new" using r new by (auto simp: replace_start_thread_def res_simps Let_def)
    ultimately show ?thesis using that by blast
  qed
  note l = enter_event_links[OF e]
  have "queue (pp\<lparr>shutdown_func := sh, get_interface_func := gi\<rparr>) es"
    using assms(3) by (rule queue_links) auto
  with enqueue_did_create_queue[OF this] q assms(4)
  have "queue pp' (es @ [length (events pp)])" "event_type (events pp' ! length (events pp)) = PN_EVENT_TYPE_DID_CREATE" by auto
  moreover have "main_thread ex' = new \<and> state_of ex' new = PN_THREAD_RUNNING \<and> state_of ex' 0 = PN_THREAD_EVENT_LOOP \<and>
    next_of ex' 0 = new \<and> map (state_of ex') us = map (state_of ex) us \<and> (if us = [] then next_of ex' new = new else ring ex' (new # us))"
  proof (cases us)
    case Nil
    then show ?thesis using replace_alone[of ex 0] assms(2) r l new by auto
  next
    case (Cons u us')
    with replace_ring[of ex 0 u us'] assms(2) r new have ex1: "ring ex1 (new # us)" "main_thread ex1 = new" "state_of ex1 0 = PN_THREAD_EVENT_LOOP"
      "next_of ex1 0 = new" "state_of ex1 new = PN_THREAD_RUNNING" "map (state_of ex1) us = map (state_of ex) us" by auto
    have "ring ex' (new # us)" by (rule ring_links[OF ex1(1)]) (simp_all add: l)
    then show ?thesis using ex1 l Cons by simp
  qed
  ultimately show ?thesis using v by blast
qed

definition starting_executor :: PNExecutor where
  "starting_executor = (ring_executor PN_THREAD_RUNNING)\<lparr>
     ex_module := example_module\<lparr>module_values := [], module_functions := [example_function\<lparr>num_args := 2, constants := [],
       function_values := [local_value 0, local_value 0], function_instructions := [(0, RRet)]\<rparr>]\<rparr>,
     ex_memory := (pn_memory_init 65536 (\<lambda>i. if i mod 4 = 0 then 228 else 0)), executor_values := [],
     threads := [(ring_thread PN_THREAD_RUNNING 1 2)\<lparr>thread_frames := [\<lparr>frame_function_id = 0, frame_inst = 0, frame_values = [4096],
         frame_jmpbufs = [], memory_stack_top = 60000\<rparr>]\<rparr>,
       ring_thread PN_THREAD_BLOCKED 2 0, ring_thread PN_THREAD_BLOCKED 0 1]\<rparr>"

lemma starting_executor_starts:
  "\<exists>v ex' pp'. pn_builtin_NACL_IRT_PPAPIHOOK_PPAPI_START ppapi_init starting_executor 0 1 [0] = Inr (v, ex', pp')"
  by (simp add: pn_builtin_NACL_IRT_PPAPIHOOK_PPAPI_START_def starting_executor_def get_thread_def check_num_args_def arg_def
    ring_executor_def counting_at_def ring_thread_def start_thread_def pn_thread_get_value_def num_module_values_def pn_memory_read_u32_def
    memory_read_def pn_memory_check_def pn_memory_init_def host_load_def replace_start_thread_def put_thread_def Let_def
    enter_event_thread_def ppapi_push_function_pointer_def pn_function_pointer_to_index_def pn_function_id_check_def 
    pn_thread_push_function_def stack_top_def pn_thread_set_param_value_def current_frame_def put_frame_def upd_res_def
    enqueue_did_create_def pn_event_allocate_def ppapi_init_def get_event_def put_event_def pn_event_enqueue_def set_next_def set_prev_def
    example_function_def local_value_def example_module_def)

theorem pn_ppapi_start_witness:
  "\<exists>v ex' pp'. pn_builtin_NACL_IRT_PPAPIHOOK_PPAPI_START ppapi_init starting_executor 0 1 [0] = Inr (v, ex', pp') \<and>
     ring ex' [3, 1, 2] \<and> main_thread ex' = 3 \<and> queue pp' [1]"
proof -
  obtain v ex' pp' where s: "pn_builtin_NACL_IRT_PPAPIHOOK_PPAPI_START ppapi_init starting_executor 0 1 [0] = Inr (v, ex', pp')"
    using starting_executor_starts by blast
  have "ring starting_executor [0, 1, 2]" "length (threads starting_executor) = 3"
    by (simp_all add: starting_executor_def linked_def next_of_def prev_of_def ring_thread_def)
  moreover have "queue ppapi_init []" "free_events ppapi_init = None" "length (events ppapi_init) = 1"
    by (simp_all add: queue_def ppapi_init_def next_event_def prev_event_def new_event_def)
  ultimately show ?thesis using pn_ppapi_start[OF s, of "[1, 2]" "[]" 3] s by auto
qed

section \<open>Waiting\<close>

text \<open>
  With no event left, the event thread becomes idle, its quantum ends without an error, and a scheduler that comes to
  it returns it.
\<close>

lemma event_loop_waits:
  assumes "get_thread ex t = Inr th" "t \<noteq> 0" "t = main_thread ex" "thread_state th = PN_THREAD_DEAD \<or> thread_state th = PN_THREAD_IDLE"
    "get_thread ex 0 = Inr start" "thread_state start = PN_THREAD_EVENT_LOOP" "queue pp []" "current_event pp = None"
  shows "ppapi_finish_quantum ex t pp exits = Inr (put_thread ex t (th\<lparr>thread_state := PN_THREAD_IDLE\<rparr>), pp, thread_next th)"
    "ppapi_schedule_next h (put_thread ex t (th\<lparr>thread_state := PN_THREAD_IDLE\<rparr>)) t =
       Some (Inr (put_thread ex t (th\<lparr>thread_state := PN_THREAD_IDLE\<rparr>), t))"
proof -
  have "pp\<lparr>current_event := None\<rparr> = pp" using assms(8) by (cases pp) simp
  moreover have "thread_state th = PN_THREAD_IDLE \<Longrightarrow> put_thread ex t (th\<lparr>thread_state := PN_THREAD_IDLE\<rparr>) = ex"
    using assms(1) by (cases ex; cases th) (auto simp: put_thread_def get_thread_def nth_res_def list_update_same_conv split: if_splits)
  ultimately show "ppapi_finish_quantum ex t pp exits = Inr (put_thread ex t (th\<lparr>thread_state := PN_THREAD_IDLE\<rparr>), pp, thread_next th)"
    using assms by (auto simp: ppapi_finish_quantum_def next_event_of_def pn_event_finish_def pn_event_handle_next_def dequeue_empty)
  show "ppapi_schedule_next h (put_thread ex t (th\<lparr>thread_state := PN_THREAD_IDLE\<rparr>)) t =
       Some (Inr (put_thread ex t (th\<lparr>thread_state := PN_THREAD_IDLE\<rparr>), t))"
    using assms(1) by (subst ppapi_schedule_next.simps) (auto simp: get_thread_def nth_res_def put_thread_def split: if_splits)
qed

end
