(* ===== verification/Pn_Opcode_Names.thy ===== *)
theory Pn_Opcode_Names
  imports Pn_Opcodes
begin

text \<open>
  The enumeration of the runtime opcodes, \<open>PN_FOREACH_OPCODE\<close> of \<^verbatim>\<open>src/pnacl.h\<close>, in its order and under its
  names, which \<^verbatim>\<open>src/pnacl.c\<close> prints with \<open>--print-opcode-counts\<close>. The model of the instruction stream has an
  operation and its types in place of the opcode.
\<close>

section \<open>The enumeration\<close>

definition foreach_binop_opcode :: "string list" where
  "foreach_binop_opcode =
     [''ALLOCA_INT32'', ''BINOP_ADD_DOUBLE'', ''BINOP_ADD_FLOAT'', ''BINOP_ADD_INT8'', ''BINOP_ADD_INT16'',
      ''BINOP_ADD_INT32'', ''BINOP_ADD_INT64'', ''BINOP_AND_INT1'', ''BINOP_AND_INT8'', ''BINOP_AND_INT16'',
      ''BINOP_AND_INT32'', ''BINOP_AND_INT64'', ''BINOP_ASHR_INT8'', ''BINOP_ASHR_INT16'', ''BINOP_ASHR_INT32'',
      ''BINOP_ASHR_INT64'', ''BINOP_LSHR_INT8'', ''BINOP_LSHR_INT16'', ''BINOP_LSHR_INT32'', ''BINOP_LSHR_INT64'',
      ''BINOP_MUL_DOUBLE'', ''BINOP_MUL_FLOAT'', ''BINOP_MUL_INT8'', ''BINOP_MUL_INT16'', ''BINOP_MUL_INT32'',
      ''BINOP_MUL_INT64'', ''BINOP_OR_INT1'', ''BINOP_OR_INT8'', ''BINOP_OR_INT16'', ''BINOP_OR_INT32'',
      ''BINOP_OR_INT64'', ''BINOP_SDIV_DOUBLE'', ''BINOP_SDIV_FLOAT'', ''BINOP_SDIV_INT32'', ''BINOP_SDIV_INT64'',
      ''BINOP_SHL_INT8'', ''BINOP_SHL_INT16'', ''BINOP_SHL_INT32'', ''BINOP_SHL_INT64'', ''BINOP_SREM_INT32'',
      ''BINOP_SREM_INT64'', ''BINOP_SUB_DOUBLE'', ''BINOP_SUB_FLOAT'', ''BINOP_SUB_INT8'', ''BINOP_SUB_INT16'',
      ''BINOP_SUB_INT32'', ''BINOP_SUB_INT64'', ''BINOP_UDIV_INT8'', ''BINOP_UDIV_INT16'', ''BINOP_UDIV_INT32'',
      ''BINOP_UDIV_INT64'', ''BINOP_UREM_INT8'', ''BINOP_UREM_INT16'', ''BINOP_UREM_INT32'', ''BINOP_UREM_INT64'',
      ''BINOP_XOR_INT1'', ''BINOP_XOR_INT8'', ''BINOP_XOR_INT16'', ''BINOP_XOR_INT32'', ''BINOP_XOR_INT64'']"

definition foreach_cast_opcode :: "string list" where
  "foreach_cast_opcode =
     [''BR'', ''BR_INT1'', ''CALL'', ''CAST_BITCAST_DOUBLE_INT64'', ''CAST_BITCAST_FLOAT_INT32'',
      ''CAST_BITCAST_INT32_FLOAT'', ''CAST_BITCAST_INT64_DOUBLE'', ''CAST_FPEXT_FLOAT_DOUBLE'',
      ''CAST_FPTOSI_DOUBLE_INT8'', ''CAST_FPTOSI_DOUBLE_INT16'', ''CAST_FPTOSI_DOUBLE_INT32'',
      ''CAST_FPTOSI_DOUBLE_INT64'', ''CAST_FPTOSI_FLOAT_INT8'', ''CAST_FPTOSI_FLOAT_INT16'',
      ''CAST_FPTOSI_FLOAT_INT32'', ''CAST_FPTOSI_FLOAT_INT64'', ''CAST_FPTOUI_DOUBLE_INT8'',
      ''CAST_FPTOUI_DOUBLE_INT16'', ''CAST_FPTOUI_DOUBLE_INT32'', ''CAST_FPTOUI_DOUBLE_INT64'',
      ''CAST_FPTOUI_FLOAT_INT8'', ''CAST_FPTOUI_FLOAT_INT16'', ''CAST_FPTOUI_FLOAT_INT32'',
      ''CAST_FPTOUI_FLOAT_INT64'', ''CAST_FPTRUNC_DOUBLE_FLOAT'', ''CAST_SEXT_INT1_INT8'', ''CAST_SEXT_INT1_INT16'',
      ''CAST_SEXT_INT1_INT32'', ''CAST_SEXT_INT1_INT64'', ''CAST_SEXT_INT8_INT16'', ''CAST_SEXT_INT8_INT32'',
      ''CAST_SEXT_INT8_INT64'', ''CAST_SEXT_INT16_INT32'', ''CAST_SEXT_INT16_INT64'', ''CAST_SEXT_INT32_INT64'',
      ''CAST_SITOFP_INT8_DOUBLE'', ''CAST_SITOFP_INT8_FLOAT'', ''CAST_SITOFP_INT16_DOUBLE'',
      ''CAST_SITOFP_INT16_FLOAT'', ''CAST_SITOFP_INT32_DOUBLE'', ''CAST_SITOFP_INT32_FLOAT'',
      ''CAST_SITOFP_INT64_DOUBLE'', ''CAST_SITOFP_INT64_FLOAT'', ''CAST_TRUNC_INT8_INT1'', ''CAST_TRUNC_INT16_INT1'',
      ''CAST_TRUNC_INT16_INT8'', ''CAST_TRUNC_INT32_INT1'', ''CAST_TRUNC_INT32_INT8'', ''CAST_TRUNC_INT32_INT16'',
      ''CAST_TRUNC_INT64_INT8'', ''CAST_TRUNC_INT64_INT16'', ''CAST_TRUNC_INT64_INT32'', ''CAST_UITOFP_INT8_DOUBLE'',
      ''CAST_UITOFP_INT8_FLOAT'', ''CAST_UITOFP_INT16_DOUBLE'', ''CAST_UITOFP_INT16_FLOAT'',
      ''CAST_UITOFP_INT32_DOUBLE'', ''CAST_UITOFP_INT32_FLOAT'', ''CAST_UITOFP_INT64_DOUBLE'',
      ''CAST_UITOFP_INT64_FLOAT'', ''CAST_ZEXT_INT1_INT8'', ''CAST_ZEXT_INT1_INT16'', ''CAST_ZEXT_INT1_INT32'',
      ''CAST_ZEXT_INT1_INT64'', ''CAST_ZEXT_INT8_INT16'', ''CAST_ZEXT_INT8_INT32'', ''CAST_ZEXT_INT8_INT64'',
      ''CAST_ZEXT_INT16_INT32'', ''CAST_ZEXT_INT16_INT64'', ''CAST_ZEXT_INT32_INT64'']"

definition foreach_cmp2_opcode :: "string list" where
  "foreach_cmp2_opcode =
     [''FCMP_OEQ_DOUBLE'', ''FCMP_OEQ_FLOAT'', ''FCMP_OGE_DOUBLE'', ''FCMP_OGE_FLOAT'', ''FCMP_OGT_DOUBLE'',
      ''FCMP_OGT_FLOAT'', ''FCMP_OLE_DOUBLE'', ''FCMP_OLE_FLOAT'', ''FCMP_OLT_DOUBLE'', ''FCMP_OLT_FLOAT'',
      ''FCMP_ONE_DOUBLE'', ''FCMP_ONE_FLOAT'', ''FCMP_ORD_DOUBLE'', ''FCMP_ORD_FLOAT'', ''FCMP_UEQ_DOUBLE'',
      ''FCMP_UEQ_FLOAT'', ''FCMP_UGE_DOUBLE'', ''FCMP_UGE_FLOAT'', ''FCMP_UGT_DOUBLE'', ''FCMP_UGT_FLOAT'',
      ''FCMP_ULE_DOUBLE'', ''FCMP_ULE_FLOAT'', ''FCMP_ULT_DOUBLE'', ''FCMP_ULT_FLOAT'', ''FCMP_UNE_DOUBLE'',
      ''FCMP_UNE_FLOAT'', ''FCMP_UNO_DOUBLE'', ''FCMP_UNO_FLOAT'', ''ICMP_EQ_INT8'', ''ICMP_EQ_INT16'',
      ''ICMP_EQ_INT32'', ''ICMP_EQ_INT64'', ''ICMP_NE_INT8'', ''ICMP_NE_INT16'', ''ICMP_NE_INT32'', ''ICMP_NE_INT64'',
      ''ICMP_SGE_INT8'', ''ICMP_SGE_INT16'', ''ICMP_SGE_INT32'', ''ICMP_SGE_INT64'', ''ICMP_SGT_INT8'',
      ''ICMP_SGT_INT16'', ''ICMP_SGT_INT32'', ''ICMP_SGT_INT64'', ''ICMP_SLE_INT8'', ''ICMP_SLE_INT16'',
      ''ICMP_SLE_INT32'', ''ICMP_SLE_INT64'', ''ICMP_SLT_INT8'', ''ICMP_SLT_INT16'', ''ICMP_SLT_INT32'',
      ''ICMP_SLT_INT64'', ''ICMP_UGE_INT8'', ''ICMP_UGE_INT16'', ''ICMP_UGE_INT32'', ''ICMP_UGE_INT64'',
      ''ICMP_UGT_INT8'', ''ICMP_UGT_INT16'', ''ICMP_UGT_INT32'', ''ICMP_UGT_INT64'', ''ICMP_ULE_INT8'',
      ''ICMP_ULE_INT16'', ''ICMP_ULE_INT32'', ''ICMP_ULE_INT64'', ''ICMP_ULT_INT8'', ''ICMP_ULT_INT16'',
      ''ICMP_ULT_INT32'', ''ICMP_ULT_INT64'']"

definition foreach_memory_opcode :: "string list" where
  "foreach_memory_opcode =
     [''LOAD_DOUBLE'', ''LOAD_FLOAT'', ''LOAD_INT8'', ''LOAD_INT16'', ''LOAD_INT32'', ''LOAD_INT64'', ''RET'',
      ''RET_VALUE'', ''STORE_DOUBLE'', ''STORE_FLOAT'', ''STORE_INT8'', ''STORE_INT16'', ''STORE_INT32'',
      ''STORE_INT64'', ''SWITCH_INT1'', ''SWITCH_INT8'', ''SWITCH_INT16'', ''SWITCH_INT32'', ''SWITCH_INT64'',
      ''UNREACHABLE'', ''VSELECT'']"

definition foreach_intrinsic :: "string list" where
  "foreach_intrinsic =
     [''LLVM_BSWAP_I16'', ''LLVM_BSWAP_I32'', ''LLVM_BSWAP_I64'', ''LLVM_CTLZ_I32'', ''LLVM_CTLZ_I64'',
      ''LLVM_CTTZ_I32'', ''LLVM_CTTZ_I64'', ''LLVM_FABS_F32'', ''LLVM_FABS_F64'', ''LLVM_MEMCPY'', ''LLVM_MEMMOVE'',
      ''LLVM_MEMSET'', ''LLVM_NACL_ATOMIC_CMPXCHG_I8'', ''LLVM_NACL_ATOMIC_CMPXCHG_I16'',
      ''LLVM_NACL_ATOMIC_CMPXCHG_I32'', ''LLVM_NACL_ATOMIC_CMPXCHG_I64'', ''LLVM_NACL_ATOMIC_FENCE_ALL'',
      ''LLVM_NACL_ATOMIC_LOAD_I8'', ''LLVM_NACL_ATOMIC_LOAD_I16'', ''LLVM_NACL_ATOMIC_LOAD_I32'',
      ''LLVM_NACL_ATOMIC_LOAD_I64'', ''LLVM_NACL_ATOMIC_RMW_I8'', ''LLVM_NACL_ATOMIC_RMW_I16'',
      ''LLVM_NACL_ATOMIC_RMW_I32'', ''LLVM_NACL_ATOMIC_RMW_I64'', ''LLVM_NACL_ATOMIC_STORE_I8'',
      ''LLVM_NACL_ATOMIC_STORE_I16'', ''LLVM_NACL_ATOMIC_STORE_I32'', ''LLVM_NACL_ATOMIC_STORE_I64'',
      ''LLVM_NACL_LONGJMP'', ''LLVM_NACL_READ_TP'', ''LLVM_NACL_SETJMP'', ''LLVM_SQRT_F32'', ''LLVM_SQRT_F64'',
      ''LLVM_STACKRESTORE'', ''LLVM_STACKSAVE'', ''LLVM_TRAP'', ''START'']"

definition foreach_atomic_rmw_opcode :: "string list" where
  "foreach_atomic_rmw_opcode =
     [''LLVM_NACL_ATOMIC_ADD_I8'', ''LLVM_NACL_ATOMIC_ADD_I16'', ''LLVM_NACL_ATOMIC_ADD_I32'',
      ''LLVM_NACL_ATOMIC_ADD_I64'', ''LLVM_NACL_ATOMIC_AND_I8'', ''LLVM_NACL_ATOMIC_AND_I16'',
      ''LLVM_NACL_ATOMIC_AND_I32'', ''LLVM_NACL_ATOMIC_AND_I64'', ''LLVM_NACL_ATOMIC_EXCHANGE_I8'',
      ''LLVM_NACL_ATOMIC_EXCHANGE_I16'', ''LLVM_NACL_ATOMIC_EXCHANGE_I32'', ''LLVM_NACL_ATOMIC_EXCHANGE_I64'',
      ''LLVM_NACL_ATOMIC_OR_I8'', ''LLVM_NACL_ATOMIC_OR_I16'', ''LLVM_NACL_ATOMIC_OR_I32'',
      ''LLVM_NACL_ATOMIC_OR_I64'', ''LLVM_NACL_ATOMIC_SUB_I8'', ''LLVM_NACL_ATOMIC_SUB_I16'',
      ''LLVM_NACL_ATOMIC_SUB_I32'', ''LLVM_NACL_ATOMIC_SUB_I64'', ''LLVM_NACL_ATOMIC_XOR_I8'',
      ''LLVM_NACL_ATOMIC_XOR_I16'', ''LLVM_NACL_ATOMIC_XOR_I32'', ''LLVM_NACL_ATOMIC_XOR_I64'']"

text \<open>\<open>PN_FOREACH_OPCODE\<close> is the concatenation of the first four lists.\<close>

definition g_pn_opcode_names :: "string list" where
  "g_pn_opcode_names =
     foreach_binop_opcode @ foreach_cast_opcode @ foreach_cmp2_opcode @ foreach_memory_opcode @
     map (\<lambda>e. ''INTRINSIC_'' @ e) foreach_intrinsic @ map (\<lambda>e. ''INTRINSIC_'' @ e) foreach_atomic_rmw_opcode"

end
