(* ===== verification/Pn_Main.thy ===== *)
theory Pn_Main
  imports Pn_Program Pn_Options Pn_Time Pn_Opcode_Names Pn_Loops "HOL-Library.Multiset"
begin

text \<open>
  The rest of \<^verbatim>\<open>src/pnacl.c\<close>: reading the file, the statistics, the graph of a function's blocks, and \<open>main\<close>, which
  composes the options, the readers and the executor. What the C library does is an argument: the
  files, the calls of \<open>getopt_long\<close>, and \<open>qsort\<close>. The timers and the counters that statistics print are arguments too.
\<close>

section \<open>Statistics\<close>

text \<open>The macros \<open>PN_MAX_NUM\<close> and \<open>PN_TOTAL_NUM\<close>, for one of the counts of a function.\<close>

definition pn_max_num :: "(PNFunction \<Rightarrow> u32) \<Rightarrow> PNModule \<Rightarrow> u32" where
  "pn_max_num num module = foldl (\<lambda>result f. if num f > result then num f else result) 0 (module_functions module)"

definition pn_total_num :: "(PNFunction \<Rightarrow> u32) \<Rightarrow> PNModule \<Rightarrow> u32" where
  "pn_total_num num module = foldl (\<lambda>result f. result + num f) 0 (module_functions module)"

abbreviation (input) f_constants :: "PNFunction \<Rightarrow> u32" where "f_constants f \<equiv> of_nat (length (constants f))"
abbreviation (input) f_values :: "PNFunction \<Rightarrow> u32" where "f_values f \<equiv> of_nat (length (function_values f))"
abbreviation (input) f_bbs :: "PNFunction \<Rightarrow> u32" where "f_bbs f \<equiv> of_nat (length (bbs f))"
abbreviation (input) f_instructions :: "PNFunction \<Rightarrow> u32" where "f_instructions f \<equiv> of_nat (num_instructions f)"

definition in_units :: "u64 \<Rightarrow> u64 \<Rightarrow> string \<Rightarrow> string" where
  "in_units sz unit suffix =
     show_fixed 1 binary64 (fp_div binary64 (fp_of_int binary64 (uint (sz + unit - 1))) (fp_of_int binary64 (uint unit))) @ suffix"

definition pn_human_readable_size_leaky :: "u64 \<Rightarrow> string" where
  "pn_human_readable_size_leaky sz =
     in_buffer 100
       (if sz \<ge> 1073741824 then in_units sz 1073741824 ''G''
        else if sz \<ge> 1048576 then in_units sz 1048576 ''M''
        else if sz \<ge> 1024 then in_units sz 1024 ''K''
        else show_int (sint sz))"

definition pn_allocator_print_stats_leaky :: "string \<times> u64 \<times> u64 \<Rightarrow> string" where
  "pn_allocator_print_stats_leaky = (\<lambda>(name, used, fragmentation).
     pad_left 12 name @ '' allocator: used: '' @ pad_left 7 (pn_human_readable_size_leaky used) @ '' frag: '' @
     pad_left 7 (pn_human_readable_size_leaky fragmentation) @ newline)"

text \<open>The difference of two counts is an \<open>int\<close>.\<close>

type_synonym PNOpcodeCountPair = "nat \<times> u32"

definition pn_opcode_count_pair_compare :: "PNOpcodeCountPair \<Rightarrow> PNOpcodeCountPair \<Rightarrow> int" where
  "pn_opcode_count_pair_compare a b = sint (snd b - snd a)"

definition rule_line :: string where
  "rule_line = ''-----------------'' @ newline"

definition opcode_count_line :: "PNOpcodeCountPair \<Rightarrow> string" where
  "opcode_count_line = (\<lambda>(opcode, count).
     if count > 0 then pad_left 40 (g_pn_opcode_names ! opcode) @ '' '' @ show_d32 count @ newline else [])"

type_synonym qsort_fn = "(PNOpcodeCountPair \<Rightarrow> PNOpcodeCountPair \<Rightarrow> int) \<Rightarrow> PNOpcodeCountPair list \<Rightarrow> PNOpcodeCountPair list"

definition print_opcode_counts :: "qsort_fn \<Rightarrow> u32 list \<Rightarrow> string" where
  "print_opcode_counts qsort counts =
     rule_line @ concat (map opcode_count_line (qsort pn_opcode_count_pair_compare (enumerate 0 counts)))"

text \<open>The timers in their order, \<open>TOTAL\<close> first.\<close>

definition pn_foreach_timer :: "string list" where
  "pn_foreach_timer = [''TOTAL'', ''FILE_READ'', ''BLOCKINFO_BLOCK_READ'', ''MODULE_BLOCK_READ'', ''CONSTANTS_BLOCK_READ'',
     ''FUNCTION_BLOCK_READ'', ''VALUE_SYMTAB_BLOCK_READ'', ''TYPE_BLOCK_READ'', ''GLOBALVAR_BLOCK_READ'',
     ''CALCULATE_RESULT_VALUE_TYPES'', ''CALCULATE_OPCODES'', ''CALCULATE_USES'', ''CALCULATE_PRED_BBS'', ''CALCULATE_PHI_ASSIGNS'',
     ''CALCULATE_LIVENESS'', ''CALCULATE_LOOPS'', ''FUNCTION_TRACE'', ''EXECUTE'']"

definition print_timer :: "bool \<Rightarrow> timespec \<Rightarrow> string \<times> timespec \<Rightarrow> string" where
  "print_timer as_zero total_time = (\<lambda>(name, timer).
     let (time, percent) = (if as_zero then (0, 0)
       else (pn_timespec_to_double timer,
             fp_div binary64 (fp_mul binary64 (fp_of_int binary64 100) (pn_timespec_to_double timer)) (pn_timespec_to_double total_time)))
     in ''timer '' @ pad_right 30 name @ '': '' @ show_fixed 6 binary64 time @ '' sec (%'' @ show_fixed 0 binary64 percent @ '')'' @ newline)"

definition print_timers :: "bool \<Rightarrow> timespec list \<Rightarrow> string" where
  "print_timers as_zero timers = rule_line @ concat (map (print_timer as_zero (hd timers)) (zip pn_foreach_timer timers))"

definition print_named_functions :: "PNModule \<Rightarrow> string" where
  "print_named_functions module =
     rule_line @ concat (map (\<lambda>(i, f). case function_name f of None \<Rightarrow> [] | Some name \<Rightarrow> show_nat i @ ''. '' @ name @ newline)
       (enumerate 0 (module_functions module)))"

definition count_line :: "string \<Rightarrow> u32 \<Rightarrow> string" where
  "count_line name n = name @ '': '' @ show_u32 n @ newline"

definition print_module_stats :: "PNModule \<Rightarrow> PNMemory \<Rightarrow> (string \<times> u64 \<times> u64) list \<Rightarrow> string" where
  "print_module_stats module memory allocators =
     rule_line @ count_line ''num_types'' (of_nat (length (types module))) @
     count_line ''num_functions'' (of_nat (length (module_functions module))) @
     count_line ''num_global_vars'' (of_nat (length (global_vars module))) @
     count_line ''max num_constants'' (pn_max_num f_constants module) @ count_line ''max num_values'' (pn_max_num f_values module) @
     count_line ''max num_bbs'' (pn_max_num f_bbs module) @ count_line ''max num_instructions'' (pn_max_num f_instructions module) @
     count_line ''total num_constants'' (pn_total_num f_constants module) @
     count_line ''total num_values'' (pn_total_num f_values module) @ count_line ''total num_bbs'' (pn_total_num f_bbs module) @
     count_line ''total num_instructions'' (pn_total_num f_instructions module) @
     ''global_var size : '' @ pn_human_readable_size_leaky (ucast (globalvar_end memory - globalvar_start memory)) @ newline @
     ''startinfo size : '' @ pn_human_readable_size_leaky (ucast (startinfo_end memory - startinfo_start memory)) @ newline @
     concat (map pn_allocator_print_stats_leaky allocators)"

text \<open>What the run has left to print: the timers, the opcode counts and the three allocators of the module.\<close>

record counters =
  timer_times :: "timespec list"
  g_pn_opcode_count :: "u32 list"
  module_allocators :: "(string \<times> u64 \<times> u64) list"

definition pn_print_stats :: "qsort_fn \<Rightarrow> pn_options \<Rightarrow> counters \<Rightarrow> PNModule \<Rightarrow> PNMemory \<Rightarrow> string" where
  "pn_print_stats qsort st c module memory =
     (if g_pn_print_time st then print_timers (g_pn_print_time_as_zero st) (timer_times c) else []) @
     (if g_pn_print_named_functions st then print_named_functions module else []) @
     (if g_pn_print_stats st then print_module_stats module memory (module_allocators c) else []) @
     (if g_pn_print_opcode_counts st then print_opcode_counts qsort (g_pn_opcode_count c) else [])"

section \<open>The graph of the blocks\<close>

fun find_named :: "string \<Rightarrow> nat \<Rightarrow> PNFunction list \<Rightarrow> nat option" where
  "find_named name i [] = None"
| "find_named name i (f # fs) = (if function_name f = Some name then Some i else find_named name (Suc i) fs)"

definition graph_function :: "PNModule \<Rightarrow> string \<Rightarrow> nat res" where
  "graph_function module wanted =
     (if is_digit (hd wanted)
      then let index = unat (of_int (atoi wanted) :: u32) in
        if index \<ge> length (module_functions module) then Inl (Fatal ''Invalid function id'') else Inr index
      else case find_named wanted 0 (module_functions module) of
          None \<Rightarrow> Inl (Fatal ''Invalid function name'') | Some index \<Rightarrow> Inr index)"

definition graph_edges :: "bool \<Rightarrow> nat \<Rightarrow> PNBasicBlock \<times> PNLoopInfo \<Rightarrow> string" where
  "graph_edges loops i = (\<lambda>(bb, info).
     concat (map (\<lambda>succ. ''  B'' @ show_nat i @ '' -> B'' @ show_nat succ @
       (if loops \<and> succ = loop_header_id info then '' [style = dotted]'' else []) @ '';'' @ newline) (succ_bb_ids bb)))"

text \<open>The loop information of the chosen function, where the build has it.\<close>

definition pn_print_basic_block_graph :: "bool \<Rightarrow> (nat \<Rightarrow> PNLoopInfo list) \<Rightarrow> string option \<Rightarrow> PNModule \<Rightarrow> string res" where
  "pn_print_basic_block_graph loops infos wanted module = (case wanted of
       None \<Rightarrow> Inr [] | Some [] \<Rightarrow> Inr []
     | Some w \<Rightarrow>
         rbind (graph_function module w) (\<lambda>index.
         let bs = zip (bbs (module_functions module ! index)) (infos index) in
         Inr (''digraph {'' @ newline @
           concat (map (\<lambda>(i, bb, info). ''  B'' @ show_nat i @ (if loops \<and> is_loop_header info then '' [style = bold]'' else []) @
             '';'' @ newline) (enumerate 0 bs)) @
           concat (map (\<lambda>(i, b). graph_edges loops i b) (enumerate 0 bs)) @ ''}'' @ newline)))"

section \<open>The program\<close>

text \<open>
  A file is its size and what \<open>fread\<close> gives of it. The function opens \<open>g_pn_filename\<close>, whatever its
  parameter is.
\<close>

definition pn_read_file :: "(string \<Rightarrow> (nat \<times> u8 list) option) \<Rightarrow> pn_options \<Rightarrow> string option \<Rightarrow> u8 list res" where
  "pn_read_file files st filename = (case g_pn_filename st of
       None \<Rightarrow> Inl (Undefined ''null pointer'')
     | Some name \<Rightarrow> (case files name of
           None \<Rightarrow> Inl (Fatal ''unable to read'')
         | Some (fsize, data) \<Rightarrow> if length data \<noteq> fsize then Inl (Fatal ''unable to read data from file'') else Inr data))"

definition c_bytes :: "string \<Rightarrow> u8 list" where
  "c_bytes s = map (\<lambda>c. of_nat (of_char c)) s"

definition run_module :: "pn_options \<Rightarrow> host \<Rightarrow> PNModule \<Rightarrow> (string \<times> PNMemory) run" where
  "run_module st h module =
     (if g_pn_run st then
        obind (Some (pn_memory_init_startinfo (module_memory module) (Some (map c_bytes (g_pn_argv st)))
          (map_option (map c_bytes) (g_pn_environ st)))) (\<lambda>memory.
        obind (Some (pn_executor_init (module\<lparr>module_memory := memory\<rparr>))) (\<lambda>ex.
        obind (pn_executor_run (g_pn_filesystem_access st) h ex) (\<lambda>ex.
        Some (Inr (if g_pn_verbose st \<noteq> 0 then ''Exit code: '' @ show_d32 (exit_code ex) @ newline else [], ex_memory ex)))))
      else Some (Inr ([], module_memory module)))"

definition main :: "(string \<Rightarrow> (nat \<times> u8 list) option) \<Rightarrow> qsort_fn \<Rightarrow> getopt_call list \<Rightarrow> nat \<Rightarrow> string list \<Rightarrow> string list \<Rightarrow>
    (nat \<Rightarrow> u8) \<Rightarrow> host \<Rightarrow> counters \<Rightarrow> string run" where
  "main files qsort calls optind argv envp junk h c =
     obind (Some (pn_options_parse calls optind argv envp)) (\<lambda>st.
     obind (Some (pn_read_file files st (g_pn_filename st))) (\<lambda>data.
     obind (pn_load (g_pn_dedupe_phi_nodes st) (unat (g_pn_repeat_load_times st)) (g_pn_memory_size st) junk data) (\<lambda>module.
     obind (run_module st h module) (\<lambda>(text, memory).
     Some (Inr (text @ pn_print_stats qsort st c module memory))))))"

section \<open>Laws\<close>

text \<open>What the C standard promises of \<open>qsort\<close>: for a comparison that is an order on the elements, a sorted permutation.\<close>

definition qsort_law :: "qsort_fn \<Rightarrow> bool" where
  "qsort_law qsort \<longleftrightarrow> (\<forall>compare xs.
     (\<forall>a\<in>set xs. \<forall>b\<in>set xs. compare a b \<le> 0 \<or> compare b a \<le> 0) \<and>
     (\<forall>a\<in>set xs. \<forall>b\<in>set xs. \<forall>c\<in>set xs. compare a b \<le> 0 \<and> compare b c \<le> 0 \<longrightarrow> compare a c \<le> 0) \<longrightarrow>
     mset (qsort compare xs) = mset xs \<and> sorted_wrt (\<lambda>a b. compare a b \<le> 0) (qsort compare xs))"

lemma compare_small:
  assumes "snd a < 2 ^ 31" "snd b < 2 ^ 31"
  shows "pn_opcode_count_pair_compare a b \<le> 0 \<longleftrightarrow> snd b \<le> snd a"
proof -
  have u: "uint (snd a) < 2 ^ 31" "uint (snd b) < 2 ^ 31" using assms by (simp_all add: word_less_alt)
  have "sint (snd b - snd a) = signed_take_bit 31 (uint (snd b) - uint (snd a))"
    by (simp add: sint_uint uint_word_ariths signed_take_bit_eq_iff_take_bit_eq take_bit_eq_mod mod_diff_eq)
  also have "\<dots> = uint (snd b) - uint (snd a)"
    by (rule signed_take_bit_int_eq_self) (use u in \<open>auto simp: algebra_simps intro: order.strict_trans2 less_imp_le add_increasing\<close>)
  finally show ?thesis by (simp add: pn_opcode_count_pair_compare_def word_le_def)
qed

text \<open>Above two to the 31 the comparison is no order: three counts can each come before the next.\<close>

lemma compare_cycle:
  "\<exists>a b c. pn_opcode_count_pair_compare a b < 0 \<and> pn_opcode_count_pair_compare b c < 0 \<and> pn_opcode_count_pair_compare c a < 0"
  by (rule exI[of _ "(0, 0xC0000000)"], rule exI[of _ "(1, 0x60000000)"], rule exI[of _ "(2, 0)"])
    (simp add: pn_opcode_count_pair_compare_def)

text \<open>
  The opcode counts are printed in order. With a \<open>qsort\<close> that keeps its promise and counts below two to the 31, the
  table lists every opcode that was executed once, with its count, the largest count first.
\<close>

theorem pn_opcode_counts_sorted:
  assumes "qsort_law qsort" "\<forall>c\<in>set counts. c < 2 ^ 31"
  shows "\<exists>ps. mset ps = mset (enumerate 0 counts) \<and> sorted_wrt (\<lambda>a b. snd b \<le> snd a) ps \<and>
    print_opcode_counts qsort counts = rule_line @ concat (map opcode_count_line ps)"
proof -
  define ps where "ps = qsort pn_opcode_count_pair_compare (enumerate 0 counts)"
  have small: "snd a < 2 ^ 31" if "a \<in> set (enumerate 0 counts)" for a
    using that assms(2) by (metis in_set_enumerate_eq add_0_right diff_zero nth_mem)
  have order: "pn_opcode_count_pair_compare a b \<le> 0 \<longleftrightarrow> snd b \<le> snd a" if "a \<in> set (enumerate 0 counts)" "b \<in> set (enumerate 0 counts)" for a b
    using compare_small small that by simp
  then have "mset ps = mset (enumerate 0 counts) \<and> sorted_wrt (\<lambda>a b. pn_opcode_count_pair_compare a b \<le> 0) ps"
    unfolding ps_def by (intro assms(1)[unfolded qsort_law_def, rule_format] conjI ballI impI) auto
  moreover from this have "set ps = set (enumerate 0 counts)" by (metis set_mset_mset)
  ultimately have "sorted_wrt (\<lambda>a b. snd b \<le> snd a) ps \<and> mset ps = mset (enumerate 0 counts)"
    by (metis (mono_tags, lifting) order sorted_wrt_mono_rel)
  then show ?thesis by (auto simp: print_opcode_counts_def ps_def)
qed

text \<open>Insertion sort keeps the promise.\<close>

fun insert_by :: "(PNOpcodeCountPair \<Rightarrow> PNOpcodeCountPair \<Rightarrow> int) \<Rightarrow> PNOpcodeCountPair \<Rightarrow> PNOpcodeCountPair list \<Rightarrow> PNOpcodeCountPair list" where
  "insert_by compare x [] = [x]"
| "insert_by compare x (y # ys) = (if compare x y \<le> 0 then x # y # ys else y # insert_by compare x ys)"

definition insertion_sort :: qsort_fn where
  "insertion_sort compare xs = foldr (insert_by compare) xs []"

lemma mset_insert_by [simp]: "mset (insert_by compare x ys) = add_mset x (mset ys)"
  by (induction ys) auto

lemma set_insert_by [simp]: "set (insert_by compare x ys) = insert x (set ys)"
  by (metis mset_insert_by set_mset_add_mset_insert set_mset_mset)

lemma sorted_insert_by:
  assumes "sorted_wrt (\<lambda>a b. compare a b \<le> 0) ys"
    "\<forall>a\<in>S. \<forall>b\<in>S. compare a b \<le> (0 :: int) \<or> compare b a \<le> 0"
    "\<forall>a\<in>S. \<forall>b\<in>S. \<forall>c\<in>S. compare a b \<le> 0 \<and> compare b c \<le> 0 \<longrightarrow> compare a c \<le> 0" "insert x (set ys) \<subseteq> S"
  shows "sorted_wrt (\<lambda>a b. compare a b \<le> 0) (insert_by compare x ys)"
  using assms(1,4)
proof (induction ys)
  case (Cons y ys)
  then have S: "x \<in> S" "y \<in> S" "\<And>z. z \<in> set ys \<Longrightarrow> z \<in> S" and y: "\<And>z. z \<in> set ys \<Longrightarrow> compare y z \<le> 0" by auto
  show ?case
  proof (cases "compare x y \<le> 0")
    case True
    then have "compare x z \<le> 0" if "z \<in> set ys" for z using assms(3) S y[OF that] that by meson
    with True Cons.prems(1) show ?thesis by simp
  next
    case False
    then have "compare y x \<le> 0" using assms(2) S by meson
    with False Cons y show ?thesis by simp
  qed
qed simp

lemma insertion_sort_sorted:
  assumes "\<forall>a\<in>S. \<forall>b\<in>S. compare a b \<le> 0 \<or> compare b a \<le> 0"
    "\<forall>a\<in>S. \<forall>b\<in>S. \<forall>c\<in>S. compare a b \<le> 0 \<and> compare b c \<le> 0 \<longrightarrow> compare a c \<le> 0"
  shows "set xs \<subseteq> S \<Longrightarrow> mset (insertion_sort compare xs) = mset xs \<and> sorted_wrt (\<lambda>a b. compare a b \<le> 0) (insertion_sort compare xs)"
proof (induction xs)
  case (Cons x xs)
  then have IH: "mset (insertion_sort compare xs) = mset xs" "sorted_wrt (\<lambda>a b. compare a b \<le> 0) (insertion_sort compare xs)" by auto
  have "set (insertion_sort compare xs) = set xs" using IH(1) by (metis set_mset_mset)
  then have "sorted_wrt (\<lambda>a b. compare a b \<le> 0) (insert_by compare x (insertion_sort compare xs))"
    using sorted_insert_by[OF IH(2) assms] Cons.prems by simp
  then show ?case using IH(1) by (simp add: insertion_sort_def)
qed (simp add: insertion_sort_def)

lemma insertion_sort_law: "qsort_law insertion_sort"
  unfolding qsort_law_def by (intro allI impI) (erule conjE, rule insertion_sort_sorted, assumption+, rule subset_refl)

theorem pn_opcode_counts_sorted_witness:
  "\<exists>ps. mset ps = mset [(0, 5), (1, 0), (2, 7 :: u32)] \<and> sorted_wrt (\<lambda>a b. snd b \<le> snd a) ps \<and>
    print_opcode_counts insertion_sort [5, 0, 7] = rule_line @ concat (map opcode_count_line ps)"
proof -
  have "\<forall>c\<in>set [5, 0, 7 :: u32]. c < 2 ^ 31" by simp
  moreover have "enumerate 0 [5, 0, 7 :: u32] = [(0, 5), (1, 0), (2, 7)]" by (simp add: numeral_2_eq_2)
  ultimately show ?thesis using pn_opcode_counts_sorted[OF insertion_sort_law, of "[5, 0, 7]"] by metis
qed

text \<open>
  \<open>main\<close> composes the options with the readers and the executor. With a command line that parses and a file
  that can be read, the whole program is the load and the run of \<open>pn_main\<close> with the memory size, the repetitions, the
  arguments, the environment and the access rights of the options; it fails and diverges exactly where they
  do, and prints the exit code and the statistics after the run.
\<close>

theorem pn_program_composition:
  assumes "pn_options_parse calls optind argv envp = Inr st" "pn_read_file files st (g_pn_filename st) = Inr data" "g_pn_run st"
  shows "main files qsort calls optind argv envp junk h c =
    obind (pn_load (g_pn_dedupe_phi_nodes st) (unat (g_pn_repeat_load_times st)) (g_pn_memory_size st) junk data) (\<lambda>m.
    obind (pn_main (g_pn_dedupe_phi_nodes st) (unat (g_pn_repeat_load_times st)) (g_pn_memory_size st) junk data
        (Some (map c_bytes (g_pn_argv st))) (map_option (map c_bytes) (g_pn_environ st)) (g_pn_filesystem_access st) h) (\<lambda>ex.
    Some (Inr ((if g_pn_verbose st \<noteq> 0 then ''Exit code: '' @ show_d32 (exit_code ex) @ newline else []) @
      pn_print_stats qsort st c m (ex_memory ex)))))"
  using assms by (auto simp: main_def run_module_def pn_main_def obind_def split: sum.split bind_split)

definition no_counters :: counters where
  "no_counters = \<lparr>timer_times = [], g_pn_opcode_count = [], module_allocators = []\<rparr>"

definition empty_file :: "string \<Rightarrow> (nat \<times> u8 list) option" where
  "empty_file name = (if name = ''x.pexe'' then Some (0, []) else None)"

lemma empty_load: "pn_load True 1 1048576 (\<lambda>_. 0) [] = Some (Inl (Check ''bits_left <= bs->curword_bits''))"
  by (simp add: load_eval cong: obind_weak_cong rbind_weak_cong)

theorem pn_program_composition_witness:
  "main empty_file insertion_sort [] 1 [''pnacl'', ''x.pexe''] [] (\<lambda>_. 0) still_host no_counters =
     Some (Inl (Check ''bits_left <= bs->curword_bits''))"
proof -
  obtain st where st: "pn_options_parse [] 1 [''pnacl'', ''x.pexe''] [] = Inr st" "g_pn_filename st = Some ''x.pexe''" "g_pn_run st"
    "g_pn_dedupe_phi_nodes st" "g_pn_repeat_load_times st = 1" "g_pn_memory_size st = 1048576"
    by (auto simp: pn_options_parse_def default_options_def trace_dependencies_def)
  have "pn_read_file empty_file st (g_pn_filename st) = Inr []" by (simp add: pn_read_file_def st empty_file_def)
  from pn_program_composition[OF st(1) this st(3)] show ?thesis using empty_load by (simp add: st)
qed

end
