(* ===== verification/Spec2Isabelle.thy ===== *)
theory Spec2Isabelle
  imports Pn_Allocator Pn_Threads Pn_Phi Pn_Calls Pn_Heap Pn_Trace_Read Pn_Event_Loop Pn_Main
begin

text \<open>
  A verification development of pnacl.c, an interpreter for PNaCl bitcode. The sources are under
  \<^verbatim>\<open>src/\<close>: one C program, \<^verbatim>\<open>pnacl.c\<close>, that includes the other files.

  \<^bold>\<open>The program.\<close> \<open>main\<close> reads a \<^verbatim>\<open>.pexe\<close> file through a bit stream. The stream is a sequence of nested
  blocks of records; the layout of a record is either fixed or an abbreviation that the file defines.
  The readers of the blocks fill a module: types, global variables and their initial memory, names,
  and functions with basic blocks of instructions. At the end of a function, three passes give results
  their types and turn phi instructions into assignments of the predecessors, and the blocks are
  translated to a stream of runtime instructions in which branches are addresses. The executor runs
  these streams in a memory of the size the user asked for, with frames, \<open>setjmp\<close>, builtin functions
  (the NaCl IRT interface: files, memory, threads, futexes) and green threads in a ring. Options choose the
  memory, the environment, traces of what is read and executed, and statistics.

  \<^bold>\<open>The model.\<close> Code is a function of the state; an error is a value of \<open>pn_error\<close> (\<open>Fatal\<close>, \<open>Check\<close>,
  \<open>Assertion\<close> for the ways the process stops, \<open>Undefined\<close> for undefined behaviour, \<open>Diverges\<close> for a loop
  that is known not to end); a loop that may not end is a \<open>partial_function\<close> into options, \<open>None\<close> is no
  result. Integers keep their C width as words where they wrap; ids that are only compared are \<open>nat\<close>,
  with the cut to 16 bits written out where the code has it. The host is 64-bit and little-endian.

  \<^item> \<^verbatim>\<open>Pn_Prelude\<close>: results, results of loops that may not end, their binds, the word types, generic lemmas.
  \<^item> \<^verbatim>\<open>Pn_Bits\<close>: \<^verbatim>\<open>pn_bits.h\<close> and the alignment helpers of \<^verbatim>\<open>pn_malloc.h\<close>; the least power of two and
    where the loop for it never ends, the round trip of sign-rotated numbers.
  \<^item> \<^verbatim>\<open>Pn_Bitset\<close>: \<^verbatim>\<open>pn_bitset.h\<close> with its interface \<open>bit_vector\<close>, used by the phi analysis and the page map.
  \<^item> \<^verbatim>\<open>Pn_Allocator\<close>: \<^verbatim>\<open>pn_allocator.h\<close> over addresses; blocks are aligned, inside a chunk and disjoint,
    growing keeps the bytes, and exactly when a mark restores the allocator.
  \<^item> \<^verbatim>\<open>Pn_Bitstream\<close>, \<^verbatim>\<open>Pn_Abbrev\<close>, \<^verbatim>\<open>Pn_Record\<close>: \<^verbatim>\<open>pn_bitstream.h\<close>, \<^verbatim>\<open>pn_abbrev.h\<close>, \<^verbatim>\<open>pn_record.h\<close>. Reads
    return exactly the next bits (\<open>bit_reader\<close> is the interface the loops over pieces rely on); numbers,
    abbreviations and records are read back from their encodings (records with an abbreviation: without blobs and without
    an array directly behind another, which the code reads wrongly; an empty array is refused); the loops end. Fuel: the loops over
    the pieces of a number take as many as there are bits in the buffer, more than they can consume.
  \<^item> \<^verbatim>\<open>Pn_Memory\<close>: \<^verbatim>\<open>pn_memory.h\<close>; which accesses succeed, which are refused and which wrap around the check and are undefined (\<open>cell_memory\<close> at
    four widths), and the layout of the start information.
  \<^item> \<^verbatim>\<open>Pn_Types\<close>: the data of a loaded program (\<^verbatim>\<open>pnacl.h\<close>, \<^verbatim>\<open>pn_module.h\<close>, \<^verbatim>\<open>pn_function.h\<close>).
  \<^item> \<^verbatim>\<open>Pn_Opcodes\<close>: \<^verbatim>\<open>pn_calculate_opcodes.h\<close>; both passes agree, the stream is the reference translation
    and is well formed: every address at which it can continue holds an instruction.
  \<^item> \<^verbatim>\<open>Pn_Analyses\<close>: \<^verbatim>\<open>pn_calculate_result_value_types.h\<close>, \<^verbatim>\<open>pn_calculate_uses.h\<close> (without liveness) and
    \<^verbatim>\<open>pn_calculate_phi_assigns.h\<close>; the resolved types solve the equations of the instructions whatever
    their order is, the assignments of a block are exactly those that name it.
  \<^item> \<^verbatim>\<open>Pn_Cfg\<close>, \<^verbatim>\<open>Pn_Liveness\<close>, \<^verbatim>\<open>Pn_Loops\<close>: the passes that are compiled in by flags:
    \<^verbatim>\<open>pn_calculate_pred_bbs.h\<close> and the rest of \<^verbatim>\<open>pn_calculate_uses.h\<close> (predecessors are the inverse of
    successors in ascending order, the uses of a block are the values it reads); \<^verbatim>\<open>pn_calculate_liveness.h\<close> (the search
    for one use is exact, the pass stays inside its arrays and its intervals are exactly those of one use of each value,
    but other uses are skipped and the heap of slots loses some); \<^verbatim>\<open>pn_calculate_loops.h\<close> (headers are on cycles and cut all cycles, by an invariant of the
    depth-first search over its path and the blocks it has left).
  \<^item> \<^verbatim>\<open>Pn_Float\<close>, \<^verbatim>\<open>Pn_Values\<close>: floating-point numbers as bit patterns and the arithmetic of
    \<^verbatim>\<open>pn_executor.h\<close>: binary operations, casts and comparisons at every type.
  \<^item> \<^verbatim>\<open>Pn_Host\<close>: the operating system, a parameter: a record of system calls that may depend on all
    earlier calls.
  \<^item> \<^verbatim>\<open>Pn_Executor\<close>: \<^verbatim>\<open>pn_executor.h\<close>: frames, phi assignments, calls and returns, intrinsics, one step
    of a thread. The builtins are a parameter here, because a call of a builtin is one step.
  \<^item> \<^verbatim>\<open>Pn_Control\<close>: a step of a thread stays inside well-formed streams. The locale \<open>builtins\<close> says
    what this needs of the builtins; \<^verbatim>\<open>Pn_Builtins\<close> interprets it on the model of \<^verbatim>\<open>pn_builtins.h\<close>.
  \<^item> \<^verbatim>\<open>Pn_Filesystem\<close>, \<^verbatim>\<open>Pn_Builtins\<close>: \<^verbatim>\<open>pn_filesystem.h\<close> and \<^verbatim>\<open>pn_builtins.h\<close>. Fuel: waking walks over
    as many threads as there are.
  \<^item> \<^verbatim>\<open>Pn_Scheduler\<close>, \<^verbatim>\<open>Pn_Threads\<close>: start, quanta and main loop of \<^verbatim>\<open>pn_executor.h\<close>; a run never leaves
    the streams; the linked threads are a ring, the scheduler returns the first thread that can run if
    there is one and spins otherwise, \<open>futex_wake\<close> wakes the first waiters in the order of the ring.
  \<^item> \<^verbatim>\<open>Pn_Calls\<close>: no instruction changes a frame below the top one, and none of another thread, no end of a quantum and no
    choice of the scheduler changes a frame at all, so a call, direct or indirect, passes its arguments, the callee
    leaves the caller's values alone, and the return stores the result, if any, and goes on behind the call.
  \<^item> \<^verbatim>\<open>Pn_Heap\<close>: the pages of \<open>mmap\<close> and \<open>munmap\<close>: an invariant of the page map over all sequences of both, blocks
    are new and found first fit, and unmapping restores the map, in memories in which the end of the heap does not wrap.
  \<^item> \<^verbatim>\<open>Pn_Phi\<close>: the phi table behind a branch does its assignments at once; the fast path does so unless
    an assignment reads an earlier destination, and the analysis does not always see that.
  \<^item> \<^verbatim>\<open>Pn_Read\<close>, \<^verbatim>\<open>Pn_Module_Read\<close>: \<^verbatim>\<open>pn_read.h\<close>, all blocks, the header and the file.
  \<^item> \<^verbatim>\<open>Pn_Read_Laws\<close>, \<^verbatim>\<open>Pn_Read_Inv\<close>, \<^verbatim>\<open>Pn_Load\<close>: the judgement \<open>ends P m\<close> (\<open>m\<close> returns, and its result is an
    error other than divergence or satisfies \<open>P\<close>), the interface \<open>block_reader\<close> of a block and its seven
    interpretations, one per kind of block: the loops end because the stream or the record gets
    shorter, and the module keeps its references and the shape of its basic blocks.
  \<^item> \<^verbatim>\<open>Pn_Program\<close>: the load loop and the run of \<open>main\<close>. Loading a file of whole words ends; what is loaded
    refers only to what exists; the run stays inside the instruction streams. Small files are loaded
    and run inside the logic.

  \<^item> \<^verbatim>\<open>Pn_Text\<close>, \<^verbatim>\<open>Pn_Options\<close>, \<^verbatim>\<open>Pn_Time\<close>: the formats of \<open>printf\<close> and \<open>strtol\<close>; the environment, the options and
    the usage text of \<^verbatim>\<open>pnacl.c\<close>; \<^verbatim>\<open>pn_timespec.h\<close> and the timers. The order in which \<open>getopt_long\<close> returns the
    options is an argument. Setting a variable is an update of the environment where the prefix comparison allows it; the
    memory size is the number with its suffix in whole pages, cut to 32 bits; a timer adds what passed.
  \<^item> \<^verbatim>\<open>Pn_Opcode_Names\<close>: the opcode enumeration of \<^verbatim>\<open>pnacl.h\<close>, for the statistics.
  \<^item> \<^verbatim>\<open>Pn_Trace\<close>: the printers of \<^verbatim>\<open>pn_trace.h\<close> for types, values, instructions, blocks and functions, and for
    runtime instructions: names identify values, and where both forms of an instruction are printed alike.
  \<^item> \<^verbatim>\<open>Pn_Trace_Run\<close>: the values and intrinsics traced after a step and the traced quantum of \<^verbatim>\<open>pn_executor.h\<close>;
    the trace of a returned value looks for the call at the wrong place.
  \<^item> \<^verbatim>\<open>Pn_Trace_Read\<close>: the callbacks of the readers and the printer of abbreviations; the calls for a block of global
    variables, and what they leave of the indentation.
  \<^item> \<^verbatim>\<open>Pn_Main\<close>: the statistics, the block graph, the file input and \<open>main\<close> as the composition of the options, the
    load and the run; the opcode table is sorted where the comparison is an order. \<open>qsort\<close> is an argument with its law.
  \<^item> \<^verbatim>\<open>Pn_Ppapi\<close>: \<^verbatim>\<open>pn_ppapi.h\<close>: interface tables, the PPB builtins, and the event ring, an implementation of the
    interface \<open>fifo\<close> of a queue; how the event that creates an instance waits for its interface.
  \<^item> \<^verbatim>\<open>Pn_Event_Loop\<close>: the hook builtins that start the event loop and the scheduler of such a build; the event thread
    takes the place of the start thread in the ring, and waits when no event is left.

  \<^bold>\<open>Hypotheses.\<close> The laws of the readers are for files whose length is a multiple of four and below
  512 megabytes; \<open>pn_bitstream_over_read\<close> shows what happens at the end of another file. The control
  flow of a run is proved for functions of at most 65535 blocks and calls of at most 255 arguments,
  since the runtime instructions count the arguments in 8 bits and block ids have 16. It excludes the five control errors of
  \<^verbatim>\<open>Pn_Control\<close> and no other undefined behaviour. The laws of \<open>mmap\<close> are for memories of at most 4 gigabytes less 128
  kilobytes: in a larger one, which the options accept, the 32-bit sum in \<open>pn_memory_check\<close> wraps at the end of the heap. The
  laws of the allocator are for a \<open>malloc\<close> that returns aligned, new blocks; \<open>qsort\<close> sorts.

  \<^bold>\<open>Not modelled.\<close> The instructions of a PPAPI build (off by default): its number of builtins is another one, so a quantum is
  an argument of its scheduler; the lines that memory accesses, builtins and options print when they are traced; the callbacks of
  the read context as function pointers (their bodies are in \<^verbatim>\<open>Pn_Trace_Read\<close>, with the calls of the block of global variables; the calls in the other readers are not);
  \<^verbatim>\<open>pn_lib.c\<close>, which includes the other files. The readers and passes use lists for the arrays they grow in the
  allocators: exhaustion of the host's memory and the fatal error of \<open>pn_allocator_realloc_add\<close> on an array that is
  not the last allocation are errors of the program that the model of the readers does not have.

  \<^bold>\<open>Plan.\<close> The placement of the readers' arrays in the allocators.
\<close>

end
